(* ===== verification/Zhir_Prelude.thy ===== *)
theory Zhir_Prelude
  imports Main "HOL-Library.Word" "HOL-Library.List_Lexorder" "HOL-Library.Char_ord"
    "HOL-Library.Product_Lexorder" "HOL-Library.Option_ord"
begin

text \<open>
  Shared vocabulary of the development: results and their sequencing (the \<open>?\<close> operator of the
  source), machine integers, decimal text, the JSON value that travels through every public type,
  and ordered maps, the model of \<open>BTreeMap\<close>. The lemmas here are the ones several components use;
  the collection \<open>result_simps\<close> turns a successful result into its conditions.
\<close>

named_theorems result_simps \<open>conditions under which a sequenced result succeeds\<close>
named_theorems omap_simps \<open>lookups in ordered maps after an update\<close>

section \<open>Results\<close>

text \<open>
  A fallible function returns \<open>Inl\<close> of the error or \<open>Inr\<close> of the value. \<open>r_bind\<close> is the
  \<open>?\<close> operator, \<open>fail_if\<close> an early \<open>return Err(..)\<close>, \<open>checks\<close> a sequence of validations that
  stops at the first error, and \<open>each\<close> a \<open>for\<close> loop whose body may return an error.
\<close>

fun r_bind :: "'e + 'a \<Rightarrow> ('a \<Rightarrow> 'e + 'b) \<Rightarrow> 'e + 'b" where
  "r_bind (Inl e) f = Inl e"
| "r_bind (Inr x) f = f x"

definition fail_if :: "bool \<Rightarrow> 'e \<Rightarrow> 'e + unit" where
  "fail_if b e = (if b then Inl e else Inr ())"

fun checks :: "('e + unit) list \<Rightarrow> 'e + unit" where
  "checks [] = Inr ()"
| "checks (c # cs) = r_bind c (\<lambda>_. checks cs)"

definition each :: "('a \<Rightarrow> 'e + unit) \<Rightarrow> 'a list \<Rightarrow> 'e + unit" where
  "each f xs = checks (map f xs)"

definition ok_or :: "'e \<Rightarrow> 'a option \<Rightarrow> 'e + 'a" where
  "ok_or e x = (case x of None \<Rightarrow> Inl e | Some v \<Rightarrow> Inr v)"

definition is_ok :: "'e + 'a \<Rightarrow> bool" where
  "is_ok r = (case r of Inl _ \<Rightarrow> False | Inr _ \<Rightarrow> True)"

text \<open>\<open>Option::is_some_and\<close> and \<open>Option::is_none_or\<close>.\<close>

definition some_and :: "('a \<Rightarrow> bool) \<Rightarrow> 'a option \<Rightarrow> bool" where
  "some_and p x = (case x of None \<Rightarrow> False | Some v \<Rightarrow> p v)"

definition none_or :: "('a \<Rightarrow> bool) \<Rightarrow> 'a option \<Rightarrow> bool" where
  "none_or p x = (case x of None \<Rightarrow> True | Some v \<Rightarrow> p v)"

lemma some_and_simps [simp]:
  "some_and p None = False" "some_and p (Some v) = p v"
  by (simp_all add: some_and_def)

lemma none_or_simps [simp]:
  "none_or p None = True" "none_or p (Some v) = p v"
  by (simp_all add: none_or_def)

lemma ok_or_simps [simp]:
  "ok_or e None = Inl e" "ok_or e (Some v) = Inr v"
  by (simp_all add: ok_or_def)

lemma is_ok_simps [simp]:
  "is_ok (Inl e) = False" "is_ok (Inr v) = True"
  by (simp_all add: is_ok_def)

lemma fail_if_simps [simp]:
  "fail_if True e = Inl e" "fail_if False e = Inr ()"
  by (simp_all add: fail_if_def)

lemma r_bind_Inr [result_simps]: "r_bind m f = Inr y \<longleftrightarrow> (\<exists>x. m = Inr x \<and> f x = Inr y)"
  by (cases m) auto

lemma r_bind_Inl: "r_bind m f = Inl e \<longleftrightarrow> m = Inl e \<or> (\<exists>x. m = Inr x \<and> f x = Inl e)"
  by (cases m) auto

lemma fail_if_Inr [result_simps]: "fail_if b e = Inr u \<longleftrightarrow> \<not> b"
  by (simp add: fail_if_def)

lemma fail_if_Inl: "fail_if b e = Inl e' \<longleftrightarrow> b \<and> e' = e"
  by (auto simp: fail_if_def)

lemma ok_or_Inr [result_simps]: "ok_or e x = Inr v \<longleftrightarrow> x = Some v"
  by (cases x) auto

lemma ok_or_Inl: "ok_or e x = Inl e' \<longleftrightarrow> x = None \<and> e' = e"
  by (cases x) auto

lemma checks_Inr [result_simps]: "checks cs = Inr u \<longleftrightarrow> (\<forall>c \<in> set cs. c = Inr ())"
  by (induction cs) (auto simp: r_bind_Inr)

lemma each_Inr [result_simps]: "each f xs = Inr u \<longleftrightarrow> (\<forall>x \<in> set xs. f x = Inr ())"
  by (auto simp: each_def checks_Inr)

lemma each_append: "each f (xs @ ys) = r_bind (each f xs) (\<lambda>_. each f ys)"
proof (induction xs)
  case (Cons x xs)
  then show ?case by (cases "f x") (auto simp: each_def)
qed (simp add: each_def)

lemma unit_result_cases: "(r :: 'e + unit) = Inr () \<or> (\<exists>e. r = Inl e)"
  by (cases r) auto

section \<open>Machine integers\<close>

text \<open>
  \<open>u64\<close> fields are 64-bit words, so an unchecked \<open>+\<close> wraps as in a release build; \<open>usize\<close>
  indexes and lengths count elements that exist in memory and are natural numbers.
\<close>

type_synonym u64 = "64 word"
type_synonym u32 = "32 word"
type_synonym bytes = "8 word list"

definition u64_checked_sub :: "u64 \<Rightarrow> u64 \<Rightarrow> u64 option" where
  "u64_checked_sub a b = (if b \<le> a then Some (a - b) else None)"

definition u64_checked_add :: "u64 \<Rightarrow> u64 \<Rightarrow> u64 option" where
  "u64_checked_add a b = (if unat a + unat b < 2 ^ 64 then Some (a + b) else None)"

definition u64_saturating_add :: "u64 \<Rightarrow> u64 \<Rightarrow> u64" where
  "u64_saturating_add a b = (if unat a + unat b < 2 ^ 64 then a + b else - 1)"

definition u64_saturating_sub :: "u64 \<Rightarrow> u64 \<Rightarrow> u64" where
  "u64_saturating_sub a b = (if b \<le> a then a - b else 0)"

lemma unat_u64_saturating_add:
  "unat (u64_saturating_add a b) = min (unat a + unat b) (2 ^ 64 - 1)"
proof -
  have "unat (a + b) = unat a + unat b" if "unat a + unat b < 2 ^ 64"
    using that by (simp add: unat_word_ariths)
  moreover have "unat (- 1 :: u64) = 2 ^ 64 - 1"
    by (simp add: unsigned_minus_1_eq_mask mask_eq_exp_minus_1)
  ultimately show ?thesis
    by (auto simp: u64_saturating_add_def min_def)
qed

lemma u64_saturating_add_mono: "a \<le> u64_saturating_add a b"
proof -
  have "unat a < 2 ^ 64" using unsigned_less [of a] by simp
  then show ?thesis by (simp add: word_le_nat_alt unat_u64_saturating_add)
qed

lemma u64_checked_sub_one: "u64_checked_sub r 1 = Some p \<longleftrightarrow> r \<noteq> 0 \<and> p + 1 = r"
proof -
  have "1 \<le> r \<longleftrightarrow> r \<noteq> 0"
    by (simp add: word_le_nat_alt Suc_le_eq unat_gt_0)
  then show ?thesis by (auto simp: u64_checked_sub_def)
qed

lemma unat_u64_add_one: "(r :: u64) + 1 \<noteq> 0 \<Longrightarrow> unat (r + 1) = unat r + 1"
proof -
  assume "r + 1 \<noteq> 0"
  then have "unat (r + 1) \<noteq> 0" by (metis unat_gt_0 less_numeral_extra(3))
  moreover have "unat (r + 1) = (unat r + 1) mod 2 ^ 64"
    by (simp add: unat_word_ariths)
  moreover have "unat r < 2 ^ 64" using unsigned_less [of r] by simp
  ultimately show ?thesis by (cases "unat r + 1 = 2 ^ 64") simp_all
qed

section \<open>Text\<close>

text \<open>
  A \<open>String\<close> is the list of its UTF-8 bytes, compared bytewise as in the source. \<open>dec\<close> is the
  decimal rendering that \<open>format!\<close> gives a natural number.
\<close>

fun dec :: "nat \<Rightarrow> string" where
  "dec n = (if n < 10 then [char_of (48 + n)] else dec (n div 10) @ [char_of (48 + n mod 10)])"

declare dec.simps [simp del]

definition undec :: "string \<Rightarrow> nat" where
  "undec s = foldl (\<lambda>a c. 10 * a + (of_char c - 48)) 0 s"

lemma undec_dec [simp]: "undec (dec n) = n"
proof (induction n rule: dec.induct)
  case (1 n)
  show ?case
  proof (cases "n < 10")
    case True
    then show ?thesis by (subst dec.simps) (simp add: undec_def)
  next
    case False
    have "undec (dec n) = 10 * undec (dec (n div 10)) + n mod 10"
      using False by (subst dec.simps) (simp add: undec_def)
    also have "\<dots> = n" using 1 False by simp
    finally show ?thesis .
  qed
qed

lemma dec_inject [simp]: "dec m = dec n \<longleftrightarrow> m = n"
  by (metis undec_dec)

text \<open>
  \<open>str::trim\<close> strips the Unicode White_Space characters; \<open>blank s\<close> says that nothing is left.
  The two- and three-byte cases are the UTF-8 encodings of U+0085, U+00A0, U+1680, U+2000 to
  U+200A, U+2028, U+2029, U+202F, U+205F and U+3000.
\<close>

definition ascii_white :: "char \<Rightarrow> bool" where
  "ascii_white c = (of_char c \<in> {9, 10, 11, 12, 13, 32 :: nat})"

definition white2 :: "char \<Rightarrow> char \<Rightarrow> bool" where
  "white2 a b = (of_char a = (194 :: nat) \<and> of_char b \<in> {133, 160 :: nat})"

definition white3 :: "char \<Rightarrow> char \<Rightarrow> char \<Rightarrow> bool" where
  "white3 a b c = (let a = of_char a; b = of_char b; c = of_char c :: nat in
     (a = (225 :: nat) \<and> b = (154 :: nat) \<and> c = 128)
     \<or> (a = 226 \<and> b = 128 \<and> (128 \<le> c \<and> c \<le> 138 \<or> c \<in> {168, 169, 175}))
     \<or> (a = 226 \<and> b = 129 \<and> c = 159)
     \<or> (a = 227 \<and> b = 128 \<and> c = 128))"

fun blank :: "string \<Rightarrow> bool" where
  "blank [] = True"
| "blank [a] = ascii_white a"
| "blank [a, b] = (if ascii_white a then blank [b] else white2 a b)"
| "blank (a # b # c # s) =
     (if ascii_white a then blank (b # c # s)
      else if white2 a b then blank (c # s)
      else white3 a b c \<and> blank s)"

section \<open>JSON values\<close>

text \<open>
  \<open>serde_json::Value\<close>, the public enum of the library, with the accessors the source calls.
  Floating point numbers are their IEEE 754 bit patterns. An object is the association list of a
  \<open>BTreeMap\<close>, sorted by key.
\<close>

datatype json_number = PosInt u64 | NegInt "64 word" | Float "64 word"

datatype json =
  Null
| Bool bool
| Number json_number
| String string
| Array "json list"
| Object "(string \<times> json) list"

fun json_is_null :: "json \<Rightarrow> bool" where
  "json_is_null Null = True"
| "json_is_null _ = False"

fun json_as_object :: "json \<Rightarrow> (string \<times> json) list option" where
  "json_as_object (Object kvs) = Some kvs"
| "json_as_object _ = None"

definition json_is_object :: "json \<Rightarrow> bool" where
  "json_is_object v = (json_as_object v \<noteq> None)"

text \<open>\<open>f64::is_finite\<close> on the bit pattern: the exponent field is not all ones.\<close>

definition f64_is_finite :: "64 word \<Rightarrow> bool" where
  "f64_is_finite b = (take_bit 11 (drop_bit 52 b) \<noteq> 2047)"

section \<open>Ordered maps\<close>

text \<open>
  \<open>BTreeMap\<close> as the list of its entries in key order. \<open>om_ok\<close> is the representation invariant;
  the lookup laws do not need it, the size and extensionality facts do.
\<close>

type_synonym ('k, 'v) omap = "('k \<times> 'v) list"

definition om_get :: "('k, 'v) omap \<Rightarrow> 'k \<Rightarrow> 'v option" where
  "om_get m k = map_of m k"

definition om_keys :: "('k, 'v) omap \<Rightarrow> 'k list" where
  "om_keys m = map fst m"

definition om_values :: "('k, 'v) omap \<Rightarrow> 'v list" where
  "om_values m = map snd m"

definition om_contains :: "('k, 'v) omap \<Rightarrow> 'k \<Rightarrow> bool" where
  "om_contains m k = (om_get m k \<noteq> None)"

fun om_insert :: "'k::linorder \<Rightarrow> 'v \<Rightarrow> ('k, 'v) omap \<Rightarrow> ('k, 'v) omap" where
  "om_insert k v [] = [(k, v)]"
| "om_insert k v ((k', v') # m) =
     (if k < k' then (k, v) # (k', v') # m
      else if k = k' then (k, v) # m
      else (k', v') # om_insert k v m)"

definition om_retain :: "('k \<Rightarrow> 'v \<Rightarrow> bool) \<Rightarrow> ('k, 'v) omap \<Rightarrow> ('k, 'v) omap" where
  "om_retain p m = filter (\<lambda>(k, v). p k v) m"

definition om_remove :: "'k \<Rightarrow> ('k, 'v) omap \<Rightarrow> ('k, 'v) omap" where
  "om_remove k m = om_retain (\<lambda>k' _. k' \<noteq> k) m"

text \<open>\<open>get_mut\<close> followed by a change of the value, and a change of every value.\<close>

definition om_modify :: "'k \<Rightarrow> ('v \<Rightarrow> 'v) \<Rightarrow> ('k, 'v) omap \<Rightarrow> ('k, 'v) omap" where
  "om_modify k f m = map (\<lambda>(k', v). (k', if k' = k then f v else v)) m"

definition om_map :: "('v \<Rightarrow> 'w) \<Rightarrow> ('k, 'v) omap \<Rightarrow> ('k, 'w) omap" where
  "om_map f m = map (\<lambda>(k, v). (k, f v)) m"

text \<open>\<open>extend\<close> inserts the entries of another map, which win.\<close>

definition om_extend :: "('k::linorder, 'v) omap \<Rightarrow> ('k, 'v) omap \<Rightarrow> ('k, 'v) omap" where
  "om_extend m n = fold (\<lambda>(k, v) acc. om_insert k v acc) n m"

definition om_ok :: "('k::linorder, 'v) omap \<Rightarrow> bool" where
  "om_ok m = sorted_wrt (<) (map fst m)"

lemma om_get_Nil [simp]: "om_get [] k = None"
  by (simp add: om_get_def)

lemma om_get_insert [omap_simps, simp]:
  "om_get (om_insert k v m) k' = (if k' = k then Some v else om_get m k')"
  by (induction k v m rule: om_insert.induct) (auto simp: om_get_def)

lemma om_get_retain_key:
  "om_get (om_retain (\<lambda>k' _. q k') m) k = (if q k then om_get m k else None)"
  by (induction m) (auto simp: om_get_def om_retain_def)

lemma om_get_remove [omap_simps, simp]:
  "om_get (om_remove k m) k' = (if k' = k then None else om_get m k')"
  by (simp add: om_remove_def om_get_retain_key)

lemma om_get_modify [omap_simps, simp]:
  "om_get (om_modify k f m) k' = (if k' = k then map_option f (om_get m k) else om_get m k')"
  by (induction m) (auto simp: om_get_def om_modify_def)

lemma om_get_map [omap_simps, simp]: "om_get (om_map f m) k = map_option f (om_get m k)"
  by (induction m) (auto simp: om_get_def om_map_def)

lemma om_keys_modify [simp]: "map fst (om_modify k f m) = map fst m"
  by (induction m) (auto simp: om_modify_def)

lemma om_keys_map [simp]: "map fst (om_map f m) = map fst m"
  by (induction m) (auto simp: om_map_def)

lemma length_om_modify [simp]: "length (om_modify k f m) = length m"
  by (simp add: om_modify_def)

lemma set_om_keys_insert: "fst ` set (om_insert k v m) = insert k (fst ` set m)"
  by (induction k v m rule: om_insert.induct) auto

lemma om_ok_Nil [simp]: "om_ok []"
  by (simp add: om_ok_def)

lemma om_ok_insert [simp]: "om_ok m \<Longrightarrow> om_ok (om_insert k v m)"
proof (induction k v m rule: om_insert.induct)
  case (2 k v k' v' m)
  then show ?case
    using set_om_keys_insert [of k v m] by (auto simp: om_ok_def)
qed (simp add: om_ok_def)

lemma om_ok_retain [simp]: "om_ok m \<Longrightarrow> om_ok (om_retain p m)"
  by (induction m) (auto simp: om_ok_def om_retain_def)

lemma om_ok_remove [simp]: "om_ok m \<Longrightarrow> om_ok (om_remove k m)"
  by (simp add: om_remove_def)

lemma om_ok_modify [simp]: "om_ok (om_modify k f m) = om_ok m"
  by (simp add: om_ok_def)

lemma om_ok_map [simp]: "om_ok (om_map f m) = om_ok m"
  by (simp add: om_ok_def)

lemma om_ok_distinct: "om_ok m \<Longrightarrow> distinct (map fst m)"
  by (simp add: om_ok_def strict_sorted_iff)

lemma om_get_in_set: "om_get m k = Some v \<Longrightarrow> (k, v) \<in> set m"
  by (simp add: om_get_def map_of_SomeD)

lemma om_in_set_get: "om_ok m \<Longrightarrow> (k, v) \<in> set m \<Longrightarrow> om_get m k = Some v"
  by (simp add: om_get_def om_ok_distinct)

lemma om_mem_iff: "om_ok m \<Longrightarrow> (k, v) \<in> set m \<longleftrightarrow> om_get m k = Some v"
  by (auto dest: om_get_in_set om_in_set_get)

lemma om_key_iff: "k \<in> set (om_keys m) \<longleftrightarrow> om_contains m k"
  by (simp add: om_keys_def om_contains_def om_get_def map_of_eq_None_iff)

lemma om_contains_Nil [simp]: "\<not> om_contains [] k"
  by (simp add: om_contains_def)

lemma om_contains_insert [omap_simps, simp]:
  "om_contains (om_insert k v m) k' \<longleftrightarrow> k' = k \<or> om_contains m k'"
  by (simp add: om_contains_def)

lemma om_contains_remove [omap_simps, simp]:
  "om_contains (om_remove k m) k' \<longleftrightarrow> k' \<noteq> k \<and> om_contains m k'"
  by (simp add: om_contains_def)

lemma om_contains_modify [omap_simps, simp]:
  "om_contains (om_modify k f m) k' \<longleftrightarrow> om_contains m k'"
  by (auto simp: om_contains_def)

lemma om_remove_absent: "om_get m r = None \<Longrightarrow> om_remove r m = m"
proof (induction m)
  case (Cons kv m)
  then show ?case
    by (cases kv) (auto simp: om_get_def om_remove_def om_retain_def split: if_splits)
qed (simp add: om_remove_def om_retain_def)

lemma om_get_retain:
  assumes "om_ok m"
  shows "om_get (om_retain p m) k = (case om_get m k of None \<Rightarrow> None
           | Some v \<Rightarrow> if p k v then Some v else None)"
  using assms
proof (induction m)
  case (Cons kv m)
  obtain k' v where kv: "kv = (k', v)" by (cases kv)
  have ok: "om_ok m" using Cons.prems by (simp add: om_ok_def)
  have "om_get m k' = None"
    using om_ok_distinct [OF Cons.prems] by (force simp: kv om_get_def map_of_eq_None_iff)
  then show ?case
    using Cons.IH [OF ok] by (auto simp: kv om_get_def om_retain_def split: option.splits)
qed (simp add: om_retain_def)

lemma om_values_iff:
  "om_ok m \<Longrightarrow> v \<in> set (om_values m) \<longleftrightarrow> (\<exists>k. om_get m k = Some v)"
  by (force simp: om_values_def dest: om_get_in_set om_in_set_get)

lemma om_get_values: "om_get m k = Some v \<Longrightarrow> v \<in> set (om_values m)"
  by (force simp: om_values_def dest: om_get_in_set)

lemma om_ext:
  assumes "om_ok m" "om_ok n" "\<And>k. om_get m k = om_get n k"
  shows "m = n"
proof -
  have dm: "sorted (map fst m)" "distinct (map fst m)"
    and dn: "sorted (map fst n)" "distinct (map fst n)"
    using assms(1,2) by (simp_all add: om_ok_def strict_sorted_iff)
  have "kv \<in> set m \<longleftrightarrow> kv \<in> set n" for kv
    by (cases kv) (metis assms om_get_in_set om_in_set_get)
  then have eq: "set m = set n" by blast
  moreover have "inj_on fst (set m \<union> set n)"
    using dm(2) eq by (simp add: distinct_map)
  ultimately show ?thesis
    using map_sorted_distinct_set_unique [of fst m n] dm dn by blast
qed

end
