(* ===== verification/Core_Values.thy ===== *)
theory Core_Values
  imports Zhir_Prelude
begin

text \<open>
  The public values of \<open>zhir-core\<close> that carry no state of their own: failures and errors
  (\<open>error.rs\<close>), request intent (\<open>profile.rs\<close>), resources and media chunks (\<open>resource.rs\<close>),
  content, operations and their outcomes (\<open>operation.rs\<close>), tool calls (\<open>tool/mod.rs\<close>,
  \<open>tool/catalog.rs\<close>) and messages (\<open>message/mod.rs\<close>), each with its validation. The lemmas
  turn a successful validation into the facts it establishes.
\<close>

section \<open>Failures and errors\<close>

record failure =
  failure_code :: string
  failure_message :: string
  failure_retryable :: bool

definition failure_new :: "string \<Rightarrow> string \<Rightarrow> failure" where
  "failure_new code message =
     \<lparr>failure_code = code, failure_message = message, failure_retryable = False\<rparr>"

datatype resume_error =
  StoreRequired
| RunNotFound string
| StaleTicket string u64 u64
| InvalidTicketIdentity
| NotSuspended
| NotActive
| SelectorMismatch

datatype catalog_error =
  EmptyName
| Duplicate string "string list"
| ToolNotFound string
| NotSelected string
| BindingChanged string

datatype validation_error =
  SchemaError string string
| ValueError string string string
| InputKind
| DecodeError string string

datatype context_error =
  EmptyKey
| MissingKey string
| KeyDecode string string
| KeyEncode string string

datatype resource_error =
  ResourceNotFound string
| ResourceConflict string
| ResourceInvalid string string
| ResourceIo string string

datatype error =
  Resume resume_error
| Catalog catalog_error
| Validation validation_error
| Context context_error
| Resource resource_error
| Invalid string
| ModelError failure
| RuntimeToolError failure
| Uncertain string
| Protocol string
| Storage string
| Conflict "u64 option" "u64 option"
| Deadline
| Cancelled

type_synonym 'a result = "error + 'a"

section \<open>Request profiles\<close>

type_synonym extensions = "(string, (string, json) omap) omap"

datatype 'a requirement = Required 'a | Preferred 'a

fun requirement_value :: "'a requirement \<Rightarrow> 'a" where
  "requirement_value (Required v) = v"
| "requirement_value (Preferred v) = v"

fun requirement_required :: "'a requirement \<Rightarrow> bool" where
  "requirement_required (Required _) = True"
| "requirement_required (Preferred _) = False"

datatype fidelity = FidelityEconomy | FidelityHigh | FidelityOriginal
datatype serving = ServingBalanced | ServingLowLatency | ServingLowCost
datatype reasoning = ReasoningLow | ReasoningBalanced | ReasoningHigh
datatype interaction = TurnBased | InteractionDuplex

record resource_usage =
  usage_fidelity :: "fidelity requirement option"
  usage_transforms :: "string list"
  usage_extensions :: extensions

record generation_profile =
  gp_temperature :: "64 word option"
  gp_max_output_tokens :: "u64 option"
  gp_seed :: "64 word option"
  gp_parallel_runtime_tools :: "bool option"

record request_profile =
  rp_generation :: generation_profile
  rp_serving :: "serving requirement option"
  rp_reasoning :: "reasoning requirement option"
  rp_language :: "string requirement option"
  rp_interaction :: "interaction requirement option"
  rp_alternatives :: "(string, json list) omap"
  rp_extensions :: extensions

record negotiated_profile =
  np_selected :: "(string, json) omap"
  np_unmet_preferences :: "(string, string) omap"

datatype confirmation = ConfirmedProvider json | ConfirmedVerified json | ConfirmationUnknown

type_synonym effective_profile = "(string, confirmation) omap"

definition validate_extensions :: "extensions \<Rightarrow> unit result" where
  "validate_extensions extensions =
     fail_if (\<exists>(namespace, values) \<in> set extensions.
                namespace = [] \<or> (\<exists>k \<in> set (om_keys values). k = []))
       (Invalid ''extension namespace and key must be nonempty'')"

definition resource_fidelity_key :: "string \<Rightarrow> string" where
  "resource_fidelity_key subject = ''resource.'' @ subject @ ''.fidelity''"

definition is_resource_fidelity :: "string \<Rightarrow> bool" where
  "is_resource_fidelity key =
     (take 9 key = ''resource.''
      \<and> (let subject = drop 9 key; n = length subject in
           9 \<le> n \<and> drop (n - 9) subject = ''.fidelity'' \<and> take (n - 9) subject \<noteq> []))"

lemma is_resource_fidelity_key:
  "is_resource_fidelity (resource_fidelity_key subject) \<longleftrightarrow> subject \<noteq> []"
  by (simp add: is_resource_fidelity_def resource_fidelity_key_def Let_def)

section \<open>Resources and media\<close>

datatype resource_source =
  Inline bytes
| Url string
| Stored string
| ProviderResource string json

record resource_ref =
  res_id :: string
  res_media_type :: string
  res_name :: "string option"
  res_source :: resource_source
  res_metadata :: "(string, json) omap"

definition resource_ref_validate :: "resource_ref \<Rightarrow> unit result" where
  "resource_ref_validate r =
     (if res_id r = [] \<or> res_media_type r = []
      then Inl (Invalid ''resource identity and media type are required'')
      else (case res_source r of
          Url url \<Rightarrow> fail_if (url = []) (Invalid ''empty resource URL'')
        | Stored key \<Rightarrow> fail_if (key = []) (Invalid ''empty stored resource key'')
        | ProviderResource provider reference \<Rightarrow>
            fail_if (provider = [] \<or> json_is_null reference) (Invalid ''invalid provider resource'')
        | Inline _ \<Rightarrow> Inr ()))"

definition resource_modality :: "resource_ref \<Rightarrow> string" where
  "resource_modality r =
     (let top = takeWhile (\<lambda>c. c \<noteq> CHR ''/'') (res_media_type r) in
      if top \<in> {''image'', ''audio'', ''video''} then top else ''file'')"

record resource_input =
  ri_resource :: resource_ref
  ri_usage :: resource_usage

record media_chunk =
  mc_stream_id :: string
  mc_session_id :: string
  mc_epoch :: u64
  mc_sequence :: u64
  mc_timestamp_us :: u64
  mc_media_type :: string
  mc_bytes :: bytes
  mc_end :: bool

definition media_chunk_validate :: "media_chunk \<Rightarrow> nat \<Rightarrow> unit result" where
  "media_chunk_validate c max_bytes =
     fail_if (mc_stream_id c = [] \<or> mc_session_id c = [] \<or> mc_media_type c = []
              \<or> max_bytes < length (mc_bytes c))
       (Invalid ''invalid media chunk or chunk limit exceeded'')"

record sealed_chunk =
  sc_sequence :: u64
  sc_timestamp_us :: u64
  sc_offset :: u64
  sc_length :: u64
  sc_end :: bool

record sealed_media =
  sm_stream_id :: string
  sm_session_id :: string
  sm_epoch :: u64
  sm_chunks :: "sealed_chunk list"
  sm_resource :: resource_ref
  sm_previous :: "resource_ref option"

record archived_media =
  am_stream_key :: string
  am_sealed :: resource_ref
  am_complete :: bool
  am_previous :: "resource_ref option"

section \<open>Content\<close>

datatype content =
  Text string
| ContentResource resource_input
| Opaque string json

fun content_as_text :: "content \<Rightarrow> string option" where
  "content_as_text (Text t) = Some t"
| "content_as_text _ = None"

fun content_source :: "content \<Rightarrow> resource_ref option" where
  "content_source (ContentResource input) = Some (ri_resource input)"
| "content_source _ = None"

fun content_modality :: "content \<Rightarrow> string option" where
  "content_modality (Text _) = Some ''text''"
| "content_modality (ContentResource input) = Some (resource_modality (ri_resource input))"
| "content_modality (Opaque _ _) = None"

fun content_validate :: "content \<Rightarrow> unit result" where
  "content_validate (Text _) = Inr ()"
| "content_validate (ContentResource input) =
     r_bind (resource_ref_validate (ri_resource input)) (\<lambda>_.
       validate_extensions (usage_extensions (ri_usage input)))"
| "content_validate (Opaque provider data) =
     fail_if (provider = [] \<or> none_or (\<lambda>v. v = []) (json_as_object data))
       (Invalid ''opaque content requires provider and nonempty object'')"

section \<open>Operations\<close>

record call_ref =
  cr_session_id :: string
  cr_item_id :: string
  cr_generation_id :: "string option"
  cr_caller_id :: string
  cr_call_id :: string

text \<open>\<open>CallRef\<close> derives \<open>Ord\<close>: lexicographic in the order of its fields.\<close>

instantiation call_ref_ext :: (linorder) linorder
begin

definition call_ref_key ::
  "'a call_ref_scheme \<Rightarrow> string \<times> string \<times> string option \<times> string \<times> string \<times> 'a" where
  "call_ref_key r = (cr_session_id r, cr_item_id r, cr_generation_id r, cr_caller_id r,
                     cr_call_id r, call_ref.more r)"

definition less_eq_call_ref_ext :: "'a call_ref_scheme \<Rightarrow> 'a call_ref_scheme \<Rightarrow> bool" where
  "less_eq_call_ref_ext a b = (call_ref_key a \<le> call_ref_key b)"

definition less_call_ref_ext :: "'a call_ref_scheme \<Rightarrow> 'a call_ref_scheme \<Rightarrow> bool" where
  "less_call_ref_ext a b = (call_ref_key a < call_ref_key b)"

instance
proof
  fix x y z :: "'a call_ref_scheme"
  show "(x < y) = (x \<le> y \<and> \<not> y \<le> x)"
    by (simp only: less_eq_call_ref_ext_def less_call_ref_ext_def less_le_not_le)
  show "x \<le> x"
    by (simp only: less_eq_call_ref_ext_def order_refl)
  show "x \<le> y \<Longrightarrow> y \<le> z \<Longrightarrow> x \<le> z"
    unfolding less_eq_call_ref_ext_def by (rule order_trans)
  show "x \<le> y \<Longrightarrow> y \<le> x \<Longrightarrow> x = y"
    unfolding less_eq_call_ref_ext_def
    by (drule (1) order_antisym) (cases x, cases y, simp add: call_ref_key_def)
  show "x \<le> y \<or> y \<le> x"
    by (simp only: less_eq_call_ref_ext_def linear)
qed

end

datatype operation_state =
  Queued | Running | Waiting | Cancelling | Succeeded | OpFailed | OpCancelled | Unknown

definition op_terminal :: "operation_state \<Rightarrow> bool" where
  "op_terminal s = (s = Succeeded \<or> s = OpFailed \<or> s = OpCancelled)"

lemma op_terminal_simps [simp]:
  "\<not> op_terminal Queued" "\<not> op_terminal Running" "\<not> op_terminal Waiting"
  "\<not> op_terminal Cancelling" "op_terminal Succeeded" "op_terminal OpFailed"
  "op_terminal OpCancelled" "\<not> op_terminal Unknown"
  by (simp_all add: op_terminal_def)

record recovery_ref =
  rec_adapter :: string
  rec_data :: json

datatype operation_owner =
  OwnerRuntimeTool string
| OwnerProvider string
| OwnerDelegation

definition owner_is_provider :: "operation_owner \<Rightarrow> bool" where
  "owner_is_provider w = (case w of OwnerProvider _ \<Rightarrow> True | _ \<Rightarrow> False)"

definition owner_is_runtime_tool :: "operation_owner \<Rightarrow> bool" where
  "owner_is_runtime_tool w = (case w of OwnerRuntimeTool _ \<Rightarrow> True | _ \<Rightarrow> False)"

datatype operation_outcome =
  OutcomeSuccess "content list" json
| OutcomeFailure failure
| OutcomeCancelled string

fun outcome_structured :: "operation_outcome \<Rightarrow> json option" where
  "outcome_structured (OutcomeSuccess _ structured) = Some structured"
| "outcome_structured _ = None"

fun outcome_content :: "operation_outcome \<Rightarrow> content list" where
  "outcome_content (OutcomeSuccess content _) = content"
| "outcome_content _ = []"

definition outcome_validate :: "operation_outcome \<Rightarrow> unit result" where
  "outcome_validate outcome = each content_validate (outcome_content outcome)"

text \<open>\<open>impl From<&OperationOutcome> for OperationState\<close>.\<close>

fun outcome_state :: "operation_outcome \<Rightarrow> operation_state" where
  "outcome_state (OutcomeSuccess _ _) = Succeeded"
| "outcome_state (OutcomeFailure _) = OpFailed"
| "outcome_state (OutcomeCancelled _) = OpCancelled"

lemma outcome_state_terminal [simp]: "op_terminal (outcome_state outcome)"
  by (cases outcome) simp_all

datatype operation_update =
  UpdateContext "content list"
| UpdateRunning "recovery_ref option"
| UpdateWaiting json "recovery_ref option"
| UpdateProgress json
| UpdateFinished operation_outcome
| UpdateUnknown string

record operation_event =
  oe_sequence :: u64
  oe_update :: operation_update

record operation_record =
  op_id :: string
  op_origin :: call_ref
  op_owner :: operation_owner
  op_state :: operation_state
  op_call_entry :: nat
  op_result_entry :: "nat option"
  op_recovery :: "recovery_ref option"
  op_last_sequence :: "u64 option"
  op_last_update :: "operation_update option"
  op_wait :: "json option"

definition operation_validate :: "operation_record \<Rightarrow> unit result" where
  "operation_validate r = checks [
     fail_if (op_id r = [] \<or> cr_session_id (op_origin r) = [] \<or> cr_item_id (op_origin r) = []
              \<or> some_and (\<lambda>g. g = []) (cr_generation_id (op_origin r))
              \<or> cr_caller_id (op_origin r) = [] \<or> cr_call_id (op_origin r) = [])
       (Invalid ''empty operation identity''),
     fail_if ((op_last_sequence r \<noteq> None) \<noteq> (op_last_update r \<noteq> None))
       (Invalid ''operation cursor requires its acknowledged update''),
     fail_if (op_terminal (op_state r) \<noteq> (op_result_entry r \<noteq> None))
       (Invalid ''operation terminal state and result disagree''),
     fail_if (some_and (\<lambda>r. rec_adapter r = []) (op_recovery r))
       (Invalid ''empty recovery adapter'')]"

datatype recovery_resolution =
  Attach string recovery_ref
| Complete string operation_outcome
| Abandon string string
| AbandonGeneration string string

record delegation_request =
  dr_id :: string
  dr_prompt :: string

section \<open>Runtime tools\<close>

datatype runtime_tool_input = Structured json | Freeform string

record runtime_tool_call =
  rtc_id :: string
  rtc_name :: string
  rtc_input :: runtime_tool_input

definition runtime_tool_call_validate :: "runtime_tool_call \<Rightarrow> unit result" where
  "runtime_tool_call_validate call = checks [
     fail_if (rtc_id call = [] \<or> rtc_name call = []) (Invalid ''empty tool identity''),
     fail_if (case rtc_input call of Structured v \<Rightarrow> \<not> json_is_object v | Freeform _ \<Rightarrow> False)
       (Invalid ''structured arguments must be an object'')]"

datatype input_spec = StructuredSpec json | FreeformSpec "json option"

record execution =
  ex_parallel :: bool
  ex_read_only :: bool
  ex_idempotent :: bool

record runtime_tool_spec =
  rts_name :: string
  rts_description :: string
  rts_input :: input_spec
  rts_output_schema :: "json option"
  rts_execution :: execution

datatype runtime_tool_selection = SelectAll | SelectOnly "string list" | SelectNone

fun selection_names_validate :: "string list \<Rightarrow> string list \<Rightarrow> unit result" where
  "selection_names_validate seen [] = Inr ()"
| "selection_names_validate seen (name # names) =
     (if name = [] then Inl (Catalog EmptyName)
      else if name \<in> set seen then Inl (Catalog (Duplicate name [''selection'']))
      else selection_names_validate (name # seen) names)"

definition selection_validate :: "runtime_tool_selection \<Rightarrow> unit result" where
  "selection_validate s = (case s of SelectOnly names \<Rightarrow> selection_names_validate [] names | _ \<Rightarrow> Inr ())"

lemma selection_names_validate_Inr:
  "selection_names_validate seen names = Inr u \<longleftrightarrow>
     [] \<notin> set names \<and> distinct names \<and> set names \<inter> set seen = {}"
  by (induction seen names rule: selection_names_validate.induct) auto

datatype approval_decision_kind = KindAllow | KindDeny | KindSuspend

section \<open>Messages\<close>

datatype provider_tool_status =
  StatusCancelled | StatusPending | StatusRunning | StatusCompleted | StatusIncomplete | StatusFailed

datatype provider_tool_outcome =
  ProviderSuccess json
| ProviderFailure failure
| ProviderCancelled string

text \<open>The conversions from an operation's outcome and to the status it settles.\<close>

fun provider_outcome :: "operation_outcome \<Rightarrow> provider_tool_outcome" where
  "provider_outcome (OutcomeSuccess _ structured) = ProviderSuccess structured"
| "provider_outcome (OutcomeFailure error) = ProviderFailure error"
| "provider_outcome (OutcomeCancelled reason) = ProviderCancelled reason"

fun provider_outcome_status :: "provider_tool_outcome \<Rightarrow> provider_tool_status" where
  "provider_outcome_status (ProviderSuccess _) = StatusCompleted"
| "provider_outcome_status (ProviderFailure _) = StatusFailed"
| "provider_outcome_status (ProviderCancelled _) = StatusCancelled"

record provider_tool_call =
  ptc_id :: string
  ptc_provider :: string
  ptc_name :: string
  ptc_status :: provider_tool_status
  ptc_outcome :: "provider_tool_outcome option"
  ptc_output :: "content list"
  ptc_data :: json

definition matches_outcome :: "provider_tool_call \<Rightarrow> operation_outcome \<Rightarrow> bool" where
  "matches_outcome call outcome =
     ((case (ptc_outcome call, outcome) of
         (Some (ProviderSuccess previous), OutcomeSuccess _ structured) \<Rightarrow> previous = structured
       | (Some (ProviderFailure previous), OutcomeFailure error) \<Rightarrow> previous = error
       | (Some (ProviderCancelled previous), OutcomeCancelled reason) \<Rightarrow> previous = reason
       | _ \<Rightarrow> False)
      \<and> ptc_output call = outcome_content outcome)"

lemma matches_outcome_iff:
  "matches_outcome call outcome \<longleftrightarrow>
     ptc_outcome call = Some (provider_outcome outcome) \<and> ptc_output call = outcome_content outcome"
  by (cases outcome)
     (auto simp: matches_outcome_def split: option.splits provider_tool_outcome.splits)

datatype output_item =
  Delegation delegation_request
| OutputContent content
| RuntimeToolCall runtime_tool_call
| ProviderToolCall provider_tool_call

datatype message =
  DelegationResult string operation_outcome
| System "content list"
| User "content list"
| External "content list"
| Assistant "output_item list" json
| RuntimeTool string string operation_outcome

text \<open>
  \<open>validate_output\<close> walks the output with the set of identities seen so far. The checks of a
  provider call keep the source's order: duplicate first, then the identity, the contents and the
  settlement.
\<close>

definition provider_call_validate :: "provider_tool_call \<Rightarrow> unit result" where
  "provider_call_validate call = checks [
     fail_if (ptc_id call = [] \<or> ptc_provider call = [] \<or> ptc_name call = [])
       (Invalid ''empty provider call identity''),
     each content_validate (ptc_output call),
     fail_if (case ptc_outcome call of None \<Rightarrow> False
              | Some outcome \<Rightarrow> ptc_status call \<noteq> provider_outcome_status outcome
                  \<or> ((case outcome of ProviderSuccess _ \<Rightarrow> False | _ \<Rightarrow> True)
                     \<and> ptc_output call \<noteq> []))
       (Invalid ''provider settlement disagrees with output'')]"

fun validate_output_from :: "string list \<Rightarrow> output_item list \<Rightarrow> unit result" where
  "validate_output_from ids [] = Inr ()"
| "validate_output_from ids (Delegation request # items) =
     (if dr_id request = [] \<or> blank (dr_prompt request) \<or> dr_id request \<in> set ids
      then Inl (Invalid ''invalid delegation'')
      else validate_output_from (dr_id request # ids) items)"
| "validate_output_from ids (OutputContent content # items) =
     r_bind (content_validate content) (\<lambda>_. validate_output_from ids items)"
| "validate_output_from ids (RuntimeToolCall call # items) =
     r_bind (runtime_tool_call_validate call) (\<lambda>_.
       if rtc_id call \<in> set ids then Inl (Invalid ''duplicate tool call id'')
       else validate_output_from (rtc_id call # ids) items)"
| "validate_output_from ids (ProviderToolCall call # items) =
     (if ptc_id call \<in> set ids then Inl (Invalid ''duplicate output call id'')
      else r_bind (provider_call_validate call) (\<lambda>_.
        validate_output_from (ptc_id call # ids) items))"

definition validate_output :: "output_item list \<Rightarrow> unit result" where
  "validate_output items = validate_output_from [] items"

fun message_validate :: "message \<Rightarrow> unit result" where
  "message_validate (DelegationResult call_id outcome) =
     (if call_id = [] then Inl (Invalid ''empty delegation identity'') else outcome_validate outcome)"
| "message_validate (System content) = each content_validate content"
| "message_validate (User content) = each content_validate content"
| "message_validate (External content) = each content_validate content"
| "message_validate (Assistant items _) = validate_output items"
| "message_validate (RuntimeTool call_id name outcome) =
     (if call_id = [] \<or> name = [] then Inl (Invalid ''empty tool message identity'')
      else outcome_validate outcome)"

fun output_visible :: "output_item \<Rightarrow> content list" where
  "output_visible (OutputContent content) = [content]"
| "output_visible (ProviderToolCall call) =
     (if ptc_status call = StatusCompleted \<or> ptc_status call = StatusIncomplete
         \<or> ptc_status call = StatusFailed then ptc_output call else [])"
| "output_visible _ = []"

definition visible_content :: "output_item list \<Rightarrow> content list" where
  "visible_content items = concat (map output_visible items)"

text \<open>The identity an output item claims, if any, and what its own validation establishes.\<close>

fun output_id :: "output_item \<Rightarrow> string option" where
  "output_id (Delegation request) = Some (dr_id request)"
| "output_id (OutputContent _) = None"
| "output_id (RuntimeToolCall call) = Some (rtc_id call)"
| "output_id (ProviderToolCall call) = Some (ptc_id call)"

fun output_ok :: "output_item \<Rightarrow> bool" where
  "output_ok (Delegation request) = (dr_id request \<noteq> [] \<and> \<not> blank (dr_prompt request))"
| "output_ok (OutputContent content) = (content_validate content = Inr ())"
| "output_ok (RuntimeToolCall call) = (runtime_tool_call_validate call = Inr ())"
| "output_ok (ProviderToolCall call) = (provider_call_validate call = Inr ())"

definition output_ids :: "output_item list \<Rightarrow> string list" where
  "output_ids items = List.map_filter output_id items"

lemma output_ids_simps [simp]:
  "output_ids [] = []"
  "output_ids (item # items) =
     (case output_id item of None \<Rightarrow> output_ids items | Some i \<Rightarrow> i # output_ids items)"
  by (simp_all add: output_ids_def map_filter_simps split: option.split)

lemma validate_output_from_Inr:
  "validate_output_from ids items = Inr u \<longleftrightarrow>
     (\<forall>item \<in> set items. output_ok item) \<and> distinct (output_ids items)
     \<and> set (output_ids items) \<inter> set ids = {}"
  by (induction ids items rule: validate_output_from.induct) (auto simp: r_bind_Inr)

lemma validate_output_Inr [result_simps]:
  "validate_output items = Inr u \<longleftrightarrow>
     (\<forall>item \<in> set items. output_ok item) \<and> distinct (output_ids items)"
  by (simp add: validate_output_def validate_output_from_Inr)

end
