(* ===== verification/History.thy ===== *)
theory History
  imports Core_Values
begin

text \<open>
  The persistent history of \<open>zhir-core/src/run/history.rs\<close>: entries in shared chunks of at most
  64, each chunk carrying the running digest after each of its entries, and \<open>Order\<close>, the index of
  identities, pending calls, pending delegations and completed origins. The two functions of
  third-party libraries that the digest uses, SHA-256 and the JSON encoding of an entry, are the
  fields of the record \<open>hashing\<close>. The lemmas give the list of entries as the abstraction of the
  chunks (\<open>history_entries\<close>), the digest as a fold over that list, and \<open>Order\<close> as the calls
  emitted and not yet settled.
\<close>

section \<open>Entries and digests\<close>

record history_entry =
  he_id :: string
  he_origin :: "call_ref option"
  he_message :: message

definition entry_validate :: "history_entry \<Rightarrow> unit result" where
  "entry_validate e =
     (if he_id e = [] then Inl (Invalid ''empty history identity'') else message_validate (he_message e))"

record hashing =
  hash_sha256 :: "bytes \<Rightarrow> bytes"
  hash_entry_json :: "history_entry \<Rightarrow> string + bytes"

definition be_bytes :: "u64 \<Rightarrow> bytes" where
  "be_bytes w = map (\<lambda>i. ucast (drop_bit (8 * i) w)) [7, 6, 5, 4, 3, 2, 1, 0]"

definition zero_digest :: bytes where
  "zero_digest = replicate 32 0"

text \<open>What \<open>append_digest\<close> feeds to the hash: the previous digest, the length, the encoding.\<close>

definition digest_input :: "bytes \<Rightarrow> bytes \<Rightarrow> bytes" where
  "digest_input previous encoded = previous @ be_bytes (of_nat (length encoded)) @ encoded"

definition append_digest :: "'x hashing_scheme \<Rightarrow> bytes \<Rightarrow> history_entry \<Rightarrow> bytes result" where
  "append_digest H previous e = (case hash_entry_json H e of
       Inl m \<Rightarrow> Inl (Invalid m)
     | Inr encoded \<Rightarrow> Inr (hash_sha256 H (digest_input previous encoded)))"

fun digest_chain :: "'x hashing_scheme \<Rightarrow> bytes \<Rightarrow> history_entry list \<Rightarrow> bytes result" where
  "digest_chain H d [] = Inr d"
| "digest_chain H d (e # es) = r_bind (append_digest H d e) (\<lambda>d'. digest_chain H d' es)"

lemma digest_chain_append:
  "digest_chain H d (es @ es') = r_bind (digest_chain H d es) (\<lambda>d'. digest_chain H d' es')"
proof (induction es arbitrary: d)
  case (Cons e es)
  then show ?case by (cases "append_digest H d e") auto
qed simp

lemma digest_chain_take:
  assumes "digest_chain H d es = Inr d'"
  shows "\<exists>d''. digest_chain H d (take n es) = Inr d''"
proof -
  have "r_bind (digest_chain H d (take n es)) (\<lambda>d''. digest_chain H d'' (drop n es)) = Inr d'"
    using assms by (simp flip: digest_chain_append)
  then show ?thesis by (auto simp: r_bind_Inr)
qed

section \<open>The order index\<close>

record order =
  ord_ids :: "(string, nat) omap"
  ord_calls :: "(call_ref, runtime_tool_call) omap"
  ord_completed :: "call_ref set"
  ord_delegations :: "(call_ref, unit) omap"
  ord_error :: "string option"

definition order_default :: order where
  "order_default = \<lparr>ord_ids = [], ord_calls = [], ord_completed = {}, ord_delegations = [],
                    ord_error = None\<rparr>"

text \<open>
  \<open>update\<close> mutates the index before it finds an error, so the functions return the index reached
  together with the error, \<open>None\<close> when there is none.
\<close>

definition origin_known :: "order \<Rightarrow> call_ref \<Rightarrow> bool" where
  "origin_known ord origin = (om_contains (ord_delegations ord) origin
     \<or> om_contains (ord_calls ord) origin \<or> origin \<in> ord_completed ord)"

fun order_outputs :: "call_ref option \<Rightarrow> output_item list \<Rightarrow> order \<Rightarrow> string option \<times> order" where
  "order_outputs origin [] ord = (None, ord)"
| "order_outputs origin (Delegation request # items) ord = (case origin of
       None \<Rightarrow> (Some ''delegation requires an origin'', ord)
     | Some r \<Rightarrow> (let key = r\<lparr>cr_call_id := dr_id request\<rparr> in
         if origin_known ord key then (Some ''duplicate operation identity'', ord)
         else order_outputs origin items
                (ord\<lparr>ord_delegations := om_insert key () (ord_delegations ord)\<rparr>)))"
| "order_outputs origin (RuntimeToolCall call # items) ord = (case origin of
       None \<Rightarrow> (Some ''tool request requires an origin'', ord)
     | Some r \<Rightarrow> (let key = r\<lparr>cr_call_id := rtc_id call\<rparr> in
         if origin_known ord key then (Some ''duplicate tool call identity'', ord)
         else order_outputs origin items
                (ord\<lparr>ord_calls := om_insert key call (ord_calls ord)\<rparr>)))"
| "order_outputs origin (OutputContent content # items) ord = order_outputs origin items ord"
| "order_outputs origin (ProviderToolCall call # items) ord = order_outputs origin items ord"

definition order_message :: "history_entry \<Rightarrow> order \<Rightarrow> string option \<times> order" where
  "order_message e ord = (case he_message e of
       Assistant items _ \<Rightarrow> order_outputs (he_origin e) items ord
     | DelegationResult call_id _ \<Rightarrow> (case he_origin e of
           None \<Rightarrow> (Some ''delegation result requires an origin'', ord)
         | Some origin \<Rightarrow>
             if cr_call_id origin \<noteq> call_id \<or> \<not> om_contains (ord_delegations ord) origin
             then (Some ''delegation result has no matching pending request'', ord)
             else (None, ord\<lparr>ord_delegations := om_remove origin (ord_delegations ord),
                             ord_completed := insert origin (ord_completed ord)\<rparr>))
     | RuntimeTool call_id name _ \<Rightarrow> (case he_origin e of
           None \<Rightarrow> (Some ''tool result requires an origin'', ord)
         | Some origin \<Rightarrow> (case om_get (ord_calls ord) origin of
               None \<Rightarrow> (Some ''tool result has no pending call'', ord)
             | Some call \<Rightarrow>
                 if rtc_id call \<noteq> call_id \<or> rtc_name call \<noteq> name
                 then (Some ''tool result identity mismatch'', ord)
                 else (None, ord\<lparr>ord_calls := om_remove origin (ord_calls ord),
                                 ord_completed := insert origin (ord_completed ord)\<rparr>)))
     | _ \<Rightarrow> (None, ord))"

definition order_update :: "history_entry \<Rightarrow> nat \<Rightarrow> order \<Rightarrow> string option \<times> order" where
  "order_update e index ord =
     (if om_contains (ord_ids ord) (he_id e) then (Some ''duplicate history identity'', ord)
      else order_message e (ord\<lparr>ord_ids := om_insert (he_id e) index (ord_ids ord)\<rparr>))"

definition order_append :: "history_entry \<Rightarrow> nat \<Rightarrow> order \<Rightarrow> order" where
  "order_append e index ord = (case ord_error ord of
       None \<Rightarrow> (case order_update e index ord of (err, ord') \<Rightarrow> ord'\<lparr>ord_error := err\<rparr>)
     | Some _ \<Rightarrow> ord)"

section \<open>Chunks\<close>

datatype node = Node
  (node_previous: "node option")
  (node_messages: "history_entry list")
  (node_prefix_digests: "bytes list")
  (node_len: nat)
  (node_digest: bytes)

record history =
  hist_head :: "node option"
  hist_len :: nat
  hist_digest :: bytes
  hist_order :: order

definition chunk_size :: nat where
  "chunk_size = 64"

definition history_default :: history where
  "history_default = \<lparr>hist_head = None, hist_len = 0, hist_digest = zero_digest,
                      hist_order = order_default\<rparr>"

text \<open>One turn of the loop of \<open>append\<close>: a full head chunk is sealed behind a new one.\<close>

definition history_push :: "'x hashing_scheme \<Rightarrow> history \<Rightarrow> history_entry \<Rightarrow> history result" where
  "history_push H h e =
     r_bind (entry_validate e) (\<lambda>_.
     r_bind (append_digest H (hist_digest h) e) (\<lambda>d.
       let (previous, chunk, digests) = (case hist_head h of
             Some n \<Rightarrow> (if length (node_messages n) < chunk_size
                        then (node_previous n, node_messages n, node_prefix_digests n)
                        else (Some n, [], []))
           | None \<Rightarrow> (None, [], [])) in
       Inr \<lparr>hist_head = Some (Node previous (chunk @ [e]) (digests @ [d]) (hist_len h + 1) d),
            hist_len = hist_len h + 1, hist_digest = d,
            hist_order = order_append e (hist_len h) (hist_order h)\<rparr>))"

fun history_append :: "'x hashing_scheme \<Rightarrow> history \<Rightarrow> history_entry list \<Rightarrow> history result" where
  "history_append H h [] = Inr h"
| "history_append H h (e # es) = r_bind (history_push H h e) (\<lambda>h'. history_append H h' es)"

definition history_from_entries :: "'x hashing_scheme \<Rightarrow> history_entry list \<Rightarrow> history result" where
  "history_from_entries H es = history_append H history_default es"

definition input_entries :: "message list \<Rightarrow> history_entry list" where
  "input_entries ms = map (\<lambda>(index, m).
     \<lparr>he_id = ''input:'' @ dec index, he_origin = None, he_message = m\<rparr>) (enumerate 0 ms)"

definition history_new :: "'x hashing_scheme \<Rightarrow> message list \<Rightarrow> history result" where
  "history_new H ms = history_append H history_default (input_entries ms)"

definition history_validate :: "history \<Rightarrow> unit result" where
  "history_validate h =
     (if hist_len h = 0 then Inl (Invalid ''empty history'')
      else (case ord_error (hist_order h) of Some err \<Rightarrow> Inl (Invalid err) | None \<Rightarrow> Inr ()))"

definition pending_delegations :: "history \<Rightarrow> call_ref list" where
  "pending_delegations h = om_keys (ord_delegations (hist_order h))"

definition pending_calls :: "history \<Rightarrow> (call_ref \<times> runtime_tool_call) list" where
  "pending_calls h = ord_calls (hist_order h)"

fun node_get :: "node \<Rightarrow> nat \<Rightarrow> history_entry option" where
  "node_get (Node previous ms ds len d) index =
     (let start = len - length ms in
      if start \<le> index then (if index - start < length ms then Some (ms ! (index - start)) else None)
      else (case previous of None \<Rightarrow> None | Some n \<Rightarrow> node_get n index))"

definition history_get :: "history \<Rightarrow> nat \<Rightarrow> history_entry option" where
  "history_get h index = (case hist_head h of None \<Rightarrow> None | Some n \<Rightarrow> node_get n index)"

definition history_by_id :: "history \<Rightarrow> string \<Rightarrow> history_entry option" where
  "history_by_id h i = (case om_get (ord_ids (hist_order h)) i of
       None \<Rightarrow> None | Some index \<Rightarrow> history_get h index)"

text \<open>\<open>iter\<close> collects the chunks newest first and walks them in reverse.\<close>

fun node_chunks :: "node \<Rightarrow> history_entry list list" where
  "node_chunks (Node previous ms ds len d) =
     ms # (case previous of None \<Rightarrow> [] | Some n \<Rightarrow> node_chunks n)"

definition history_entries :: "history \<Rightarrow> history_entry list" where
  "history_entries h = concat (rev (case hist_head h of None \<Rightarrow> [] | Some n \<Rightarrow> node_chunks n))"

definition history_messages :: "history \<Rightarrow> message list" where
  "history_messages h = map he_message (history_entries h)"

definition history_last :: "history \<Rightarrow> history_entry option" where
  "history_last h = (case hist_head h of None \<Rightarrow> None
     | Some n \<Rightarrow> (if node_messages n = [] then None else Some (last (node_messages n))))"

text \<open>
  The loop of \<open>appended_since\<close> over the chunks. \<open>None\<close> is the panic of an index outside
  \<open>prefix_digests\<close>.
\<close>

fun node_suffix ::
  "node \<Rightarrow> nat \<Rightarrow> bytes \<Rightarrow> history_entry list list result option" where
  "node_suffix (Node previous ms ds len d) plen pdigest =
     (let start = len - length ms in
      if start \<le> plen then
        (let offset = plen - start in
         case (if offset = 0 then Some (case previous of None \<Rightarrow> zero_digest | Some p \<Rightarrow> node_digest p)
               else if offset - 1 < length ds then Some (ds ! (offset - 1)) else None) of
           None \<Rightarrow> None
         | Some digest \<Rightarrow>
             if digest \<noteq> pdigest then Some (Inl (Invalid ''history prefix changed without rewrite''))
             else Some (Inr [drop offset ms]))
      else (case previous of
          None \<Rightarrow> Some (Inr [ms])
        | Some n \<Rightarrow> (case node_suffix n plen pdigest of
              None \<Rightarrow> None
            | Some (Inl e) \<Rightarrow> Some (Inl e)
            | Some (Inr chunks) \<Rightarrow> Some (Inr (ms # chunks)))))"

definition appended_since :: "history \<Rightarrow> history \<Rightarrow> history_entry list result option" where
  "appended_since h previous =
     (if hist_len h < hist_len previous
      then Some (Inl (Invalid ''history prefix changed without rewrite''))
      else if hist_len previous = hist_len h then
        Some (if hist_digest previous = hist_digest h then Inr []
              else Inl (Invalid ''history prefix changed without rewrite''))
      else (case hist_head h of
          None \<Rightarrow> Some (Inr [])
        | Some n \<Rightarrow> map_option (map_sum (\<lambda>e. e) (\<lambda>chunks. concat (rev chunks)))
            (node_suffix n (hist_len previous) (hist_digest previous))))"

section \<open>The chunks represent a list of entries\<close>

fun node_entries :: "node \<Rightarrow> history_entry list" where
  "node_entries (Node previous ms ds len d) =
     (case previous of None \<Rightarrow> [] | Some n \<Rightarrow> node_entries n) @ ms"

definition prev_entries :: "node option \<Rightarrow> history_entry list" where
  "prev_entries p = (case p of None \<Rightarrow> [] | Some n \<Rightarrow> node_entries n)"

fun node_ok :: "'x hashing_scheme \<Rightarrow> node \<Rightarrow> bool" where
  "node_ok H (Node previous ms ds len d) \<longleftrightarrow>
     ms \<noteq> [] \<and> length ms \<le> chunk_size \<and> length ds = length ms
     \<and> len = length (prev_entries previous) + length ms
     \<and> (\<forall>i < length ms.
          digest_chain H zero_digest (prev_entries previous @ take (Suc i) ms) = Inr (ds ! i))
     \<and> d = last ds
     \<and> (case previous of None \<Rightarrow> True | Some n \<Rightarrow> node_ok H n \<and> length (node_messages n) = chunk_size)"

fun order_of :: "nat \<Rightarrow> history_entry list \<Rightarrow> order \<Rightarrow> order" where
  "order_of i [] ord = ord"
| "order_of i (e # es) ord = order_of (Suc i) es (order_append e i ord)"

definition history_ok :: "'x hashing_scheme \<Rightarrow> history \<Rightarrow> bool" where
  "history_ok H h \<longleftrightarrow>
     (case hist_head h of
        None \<Rightarrow> hist_len h = 0 \<and> hist_digest h = zero_digest
      | Some n \<Rightarrow> node_ok H n \<and> hist_len h = node_len n \<and> hist_digest h = node_digest n)
     \<and> hist_order h = order_of 0 (history_entries h) order_default"

lemma order_of_append: "order_of i (es @ es') ord = order_of (i + length es) es' (order_of i es ord)"
  by (induction es arbitrary: i ord) auto

lemma node_chunks_entries: "concat (rev (node_chunks n)) = node_entries n"
  by (induction n rule: node_entries.induct) (auto split: option.splits)

lemma history_entries_head: "history_entries h = prev_entries (hist_head h)"
  by (simp add: history_entries_def prev_entries_def node_chunks_entries split: option.split)

lemma node_entries_eq: "node_entries n = prev_entries (node_previous n) @ node_messages n"
  by (cases n) (simp add: prev_entries_def)

lemma node_ok_len: "node_ok H n \<Longrightarrow> node_len n = length (node_entries n)"
  by (cases n) (simp add: prev_entries_def)

lemma node_ok_digest:
  assumes "node_ok H n"
  shows "digest_chain H zero_digest (node_entries n) = Inr (node_digest n)"
proof (cases n)
  case (Node p ms ds len d)
  with assms have ms: "ms \<noteq> []" "length ds = length ms" and d: "d = last ds"
    and chain: "\<And>i. i < length ms \<Longrightarrow>
      digest_chain H zero_digest (prev_entries p @ take (Suc i) ms) = Inr (ds ! i)"
    by auto
  have "last ds = ds ! (length ms - 1)"
    using ms by (metis last_conv_nth length_0_conv)
  with chain [of "length ms - 1"] ms d show ?thesis
    by (simp add: Node prev_entries_def)
qed

lemma history_ok_len: "history_ok H h \<Longrightarrow> hist_len h = length (history_entries h)"
  by (auto simp: history_ok_def history_entries_head prev_entries_def node_ok_len
           split: option.splits)

lemma history_ok_digest:
  "history_ok H h \<Longrightarrow> digest_chain H zero_digest (history_entries h) = Inr (hist_digest h)"
  by (auto simp: history_ok_def history_entries_head prev_entries_def node_ok_digest
           split: option.splits)

lemma history_ok_default [simp]: "history_ok H history_default"
  by (simp add: history_ok_def history_default_def history_entries_def)

lemma history_entries_default [simp]: "history_entries history_default = []"
  by (simp add: history_entries_def history_default_def)

text \<open>Pushing an entry appends it to the list and keeps the representation.\<close>

lemma node_push_open:
  assumes ok: "node_ok H (Node p ms ds len d)" and room: "length ms < chunk_size"
    and d': "append_digest H d e = Inr d'"
  shows "node_ok H (Node p (ms @ [e]) (ds @ [d']) (len + 1) d')"
proof -
  have chain: "digest_chain H zero_digest (prev_entries p @ ms) = Inr d"
    using node_ok_digest [OF ok] by (simp add: prev_entries_def)
  have "digest_chain H zero_digest (prev_entries p @ take (Suc i) (ms @ [e])) = Inr ((ds @ [d']) ! i)"
    if "i < Suc (length ms)" for i
  proof (cases "i < length ms")
    case True
    then show ?thesis using ok by (auto simp: nth_append)
  next
    case False
    then have "i = length ms" using that by simp
    then show ?thesis
      using chain d' ok digest_chain_append [of H zero_digest "prev_entries p @ ms" "[e]"]
      by (simp add: nth_append)
  qed
  then show ?thesis using ok room by (auto split: option.splits)
qed

lemma node_push_new:
  assumes ok: "case p of None \<Rightarrow> d = zero_digest
      | Some n \<Rightarrow> node_ok H n \<and> length (node_messages n) = chunk_size \<and> d = node_digest n"
    and d': "append_digest H d e = Inr d'"
  shows "node_ok H (Node p [e] [d'] (length (prev_entries p) + 1) d')"
proof -
  have "digest_chain H zero_digest (prev_entries p) = Inr d"
    using ok by (auto simp: prev_entries_def node_ok_digest split: option.splits)
  then have "digest_chain H zero_digest (prev_entries p @ [e]) = Inr d'"
    using d' by (simp add: digest_chain_append)
  then show ?thesis
    using ok by (auto simp: chunk_size_def split: option.splits)
qed

lemma history_push_ok:
  assumes ok: "history_ok H h" and push: "history_push H h e = Inr h'"
  shows "history_ok H h' \<and> history_entries h' = history_entries h @ [e]"
proof -
  obtain d where d: "append_digest H (hist_digest h) e = Inr d"
    using push by (auto simp: history_push_def r_bind_Inr)
  show ?thesis
  proof (cases "\<exists>n. hist_head h = Some n \<and> length (node_messages n) < chunk_size")
    case True
    then obtain p ms ds len d0 where h: "hist_head h = Some (Node p ms ds len d0)"
      and room: "length ms < chunk_size" by (metis node.exhaust_sel)
    have n: "node_ok H (Node p ms ds len d0)" "hist_len h = len" "hist_digest h = d0"
      using ok by (auto simp: history_ok_def h)
    have h': "h' = \<lparr>hist_head = Some (Node p (ms @ [e]) (ds @ [d]) (len + 1) d), hist_len = len + 1,
          hist_digest = d, hist_order = order_append e len (hist_order h)\<rparr>"
      using push d room n(2) by (auto simp: history_push_def r_bind_Inr h)
    have es: "history_entries h' = history_entries h @ [e]"
      by (simp add: h' h history_entries_head prev_entries_def)
    have "node_ok H (Node p (ms @ [e]) (ds @ [d]) (len + 1) d)"
      using node_push_open [OF n(1) room] d n(3) by simp
    moreover have "hist_order h' = order_of 0 (history_entries h') order_default"
      using ok history_ok_len [OF ok] n(2)
      by (simp add: es order_of_append) (simp add: h' history_ok_def)
    ultimately show ?thesis using es by (simp add: history_ok_def h')
  next
    case False
    have len: "hist_len h = length (prev_entries (hist_head h))"
      using history_ok_len [OF ok] by (simp add: history_entries_head)
    have full: "length (node_messages n) = chunk_size" if "hist_head h = Some n" for n
      using False ok that by (cases n) (force simp: history_ok_def)
    have h': "h' = \<lparr>hist_head = Some (Node (hist_head h) [e] [d] (hist_len h + 1) d),
          hist_len = hist_len h + 1, hist_digest = d,
          hist_order = order_append e (hist_len h) (hist_order h)\<rparr>"
      using push d False by (auto simp: history_push_def r_bind_Inr split: option.splits)
    have es: "history_entries h' = history_entries h @ [e]"
      by (simp add: h' history_entries_head prev_entries_def split: option.split)
    have "node_ok H (Node (hist_head h) [e] [d] (hist_len h + 1) d)"
      using ok full d unfolding len
      by (intro node_push_new [where d = "hist_digest h"])
         (auto simp: history_ok_def split: option.splits)
    moreover have "hist_order h' = order_of 0 (history_entries h') order_default"
      using ok history_ok_len [OF ok] by (simp add: es order_of_append) (simp add: h' history_ok_def)
    ultimately show ?thesis using es by (simp add: history_ok_def h')
  qed
qed

lemma history_append_ok:
  assumes "history_ok H h" and "history_append H h es = Inr h'"
  shows "history_ok H h' \<and> history_entries h' = history_entries h @ es"
  using assms
proof (induction es arbitrary: h)
  case (Cons e es)
  then obtain h1 where h1: "history_push H h e = Inr h1" "history_append H h1 es = Inr h'"
    by (auto simp: r_bind_Inr)
  then show ?case
    using history_push_ok [OF Cons.prems(1) h1(1)] Cons.IH [of h1] by auto
qed simp

lemma history_append_append:
  "history_append H h (es @ es') = r_bind (history_append H h es) (\<lambda>h'. history_append H h' es')"
proof (induction es arbitrary: h)
  case (Cons e es)
  then show ?case by (cases "history_push H h e") auto
qed simp

text \<open>Appending depends only on the digests and the validity of the new entries.\<close>

lemma history_push_total:
  "entry_validate e = Inr () \<Longrightarrow> append_digest H (hist_digest h) e = Inr d \<Longrightarrow>
     \<exists>h'. history_push H h e = Inr h' \<and> hist_digest h' = d"
  by (auto simp: history_push_def Let_def split: option.splits)

lemma history_append_total:
  assumes "\<forall>e \<in> set es. entry_validate e = Inr ()"
    and "digest_chain H (hist_digest h) es = Inr d"
  shows "\<exists>h'. history_append H h es = Inr h' \<and> hist_digest h' = d"
  using assms
proof (induction es arbitrary: h)
  case (Cons e es)
  then obtain d1 where d1: "append_digest H (hist_digest h) e = Inr d1"
      "digest_chain H d1 es = Inr d" by (auto simp: r_bind_Inr)
  with Cons.prems(1) obtain h1 where "history_push H h e = Inr h1" "hist_digest h1 = d1"
    using history_push_total by force
  then show ?case using Cons.IH [of h1] Cons.prems(1) d1(2) by auto
qed simp

lemma history_append_valid:
  "history_append H h es = Inr h' \<Longrightarrow> \<forall>e \<in> set es. entry_validate e = Inr ()"
  by (induction es arbitrary: h) (auto simp: r_bind_Inr history_push_def)

section \<open>Lookups\<close>

lemma node_get_nth:
  "node_ok H n \<Longrightarrow> node_get n i = (if i < length (node_entries n) then Some (node_entries n ! i) else None)"
proof (induction n arbitrary: i rule: node_entries.induct)
  case (1 p ms ds len d)
  show ?case
  proof (cases p)
    case None
    then show ?thesis using 1 by (simp add: prev_entries_def)
  next
    case (Some n)
    have "node_ok H n" and len: "len = length (node_entries n) + length ms"
      using "1.prems" Some by (auto simp: prev_entries_def)
    then show ?thesis using "1.IH" [OF Some] Some by (auto simp: nth_append Let_def)
  qed
qed

lemma history_get_nth:
  "history_ok H h \<Longrightarrow>
     history_get h i = (if i < length (history_entries h) then Some (history_entries h ! i) else None)"
  by (auto simp: history_ok_def history_get_def history_entries_head prev_entries_def node_get_nth
           split: option.splits)

lemma history_last_eq:
  "history_ok H h \<Longrightarrow>
     history_last h = (if history_entries h = [] then None else Some (last (history_entries h)))"
proof (cases "hist_head h")
  case (Some n)
  assume "history_ok H h"
  then show ?thesis
    by (cases n) (auto simp: Some history_ok_def history_last_def history_entries_head prev_entries_def)
qed (simp add: history_last_def history_entries_def)

section \<open>The verified suffix\<close>

text \<open>
  The digest recorded at the boundary of a prefix is the digest of that prefix, so the suffix walk
  compares it with the digest of the earlier history.
\<close>

lemma node_suffix_spec:
  assumes "node_ok H n" and "k < length (node_entries n)"
  shows "\<exists>d. digest_chain H zero_digest (take k (node_entries n)) = Inr d
     \<and> map_option (map_sum (\<lambda>e. e) (\<lambda>cs. concat (rev cs))) (node_suffix n k pd)
        = Some (if d = pd then Inr (drop k (node_entries n))
                else Inl (Invalid ''history prefix changed without rewrite''))"
  using assms
proof (induction n rule: node_entries.induct)
  case (1 p ms ds len d)
  have len: "len - length ms = length (prev_entries p)"
    and ds: "length ds = length ms"
    and chain: "\<And>i. i < length ms \<Longrightarrow>
      digest_chain H zero_digest (prev_entries p @ take (Suc i) ms) = Inr (ds ! i)"
    using "1.prems"(1) by auto
  have es: "node_entries (Node p ms ds len d) = prev_entries p @ ms"
    by (simp add: prev_entries_def)
  show ?case
  proof (cases "length (prev_entries p) \<le> k")
    case True
    define offset where "offset = k - length (prev_entries p)"
    have k: "k = length (prev_entries p) + offset" and off: "offset < length ms"
      using True "1.prems"(2) [unfolded es] by (simp_all add: offset_def)
    have prev: "digest_chain H zero_digest (prev_entries p)
        = Inr (case p of None \<Rightarrow> zero_digest | Some q \<Rightarrow> node_digest q)"
      using "1.prems"(1) by (auto simp: prev_entries_def node_ok_digest split: option.splits)
    have pre: "take k (prev_entries p @ ms) = prev_entries p @ take offset ms"
      and suf: "drop k (prev_entries p @ ms) = drop offset ms"
      by (simp_all add: k)
    show ?thesis
    proof (cases offset)
      case 0
      then show ?thesis
        unfolding es pre suf using prev by (simp add: len k)
    next
      case (Suc j)
      then show ?thesis
        unfolding es pre suf using chain [of j] off by (simp add: len k ds)
    qed
  next
    case False
    then obtain n where p: "p = Some n" by (cases p) (auto simp: prev_entries_def)
    have n: "node_ok H n" using "1.prems"(1) p by auto
    have k: "k < length (node_entries n)" using False p by (simp add: prev_entries_def)
    obtain d' where d': "digest_chain H zero_digest (take k (node_entries n)) = Inr d'"
      and IH: "map_option (map_sum (\<lambda>e. e) (\<lambda>cs. concat (rev cs))) (node_suffix n k pd)
        = Some (if d' = pd then Inr (drop k (node_entries n))
                else Inl (Invalid ''history prefix changed without rewrite''))"
      using "1.IH" [OF p n k] by blast
    show ?thesis
      using False d' IH k by (auto simp: len p prev_entries_def Let_def split: option.splits sum.splits if_splits)
  qed
qed

theorem appended_since_spec:
  assumes "history_ok H h" and "history_ok H previous"
  shows "appended_since h previous = Some
    (if hist_len previous \<le> hist_len h
        \<and> digest_chain H zero_digest (take (hist_len previous) (history_entries h))
           = Inr (hist_digest previous)
     then Inr (drop (hist_len previous) (history_entries h))
     else Inl (Invalid ''history prefix changed without rewrite''))"
proof (cases "hist_len previous < hist_len h")
  case False
  have len: "hist_len h = length (history_entries h)"
    using history_ok_len [OF assms(1)] .
  show ?thesis
    using False history_ok_digest [OF assms(1)] by (auto simp: appended_since_def len)
next
  case True
  then obtain n where n: "hist_head h = Some n"
    using assms(1) by (cases "hist_head h") (auto simp: history_ok_def)
  have ok: "node_ok H n" using assms(1) by (simp add: history_ok_def n)
  have es: "history_entries h = node_entries n"
    by (simp add: history_entries_head prev_entries_def n)
  have "hist_len previous < length (node_entries n)"
    using True history_ok_len [OF assms(1)] es by simp
  from node_suffix_spec [OF ok this, of "hist_digest previous"] show ?thesis
    using True by (auto simp: appended_since_def n es)
qed

end
