(* ===== verification/Order_Index.thy ===== *)
theory Order_Index
  imports History
begin

text \<open>
  What the \<open>Order\<close> index of a history means. \<open>emitted\<close> lists the origins of the delegations and
  tool calls the assistant entries request, \<open>settled\<close> the origins of the results; as long as the
  index holds no error, its maps are exactly the emitted origins that have no result yet, every
  origin is emitted and settled at most once, and entry identities are unique.
\<close>

section \<open>Requests and results of a list of entries\<close>

fun emits :: "call_ref \<Rightarrow> output_item list \<Rightarrow> (call_ref \<times> runtime_tool_call option) list" where
  "emits r [] = []"
| "emits r (Delegation request # items) = (r\<lparr>cr_call_id := dr_id request\<rparr>, None) # emits r items"
| "emits r (RuntimeToolCall call # items) = (r\<lparr>cr_call_id := rtc_id call\<rparr>, Some call) # emits r items"
| "emits r (OutputContent _ # items) = emits r items"
| "emits r (ProviderToolCall _ # items) = emits r items"

definition entry_emits :: "history_entry \<Rightarrow> (call_ref \<times> runtime_tool_call option) list" where
  "entry_emits e = (case (he_message e, he_origin e) of
       (Assistant items _, Some r) \<Rightarrow> emits r items | _ \<Rightarrow> [])"

definition entry_settles :: "history_entry \<Rightarrow> call_ref list" where
  "entry_settles e = (case (he_message e, he_origin e) of
       (DelegationResult _ _, Some r) \<Rightarrow> [r] | (RuntimeTool _ _ _, Some r) \<Rightarrow> [r] | _ \<Rightarrow> [])"

definition emitted :: "history_entry list \<Rightarrow> (call_ref \<times> runtime_tool_call option) list" where
  "emitted es = concat (map entry_emits es)"

definition settled :: "history_entry list \<Rightarrow> call_ref list" where
  "settled es = concat (map entry_settles es)"

lemma emitted_append [simp]: "emitted (es @ es') = emitted es @ emitted es'"
  by (simp add: emitted_def)

lemma settled_append [simp]: "settled (es @ es') = settled es @ settled es'"
  by (simp add: settled_def)

lemma emitted_Nil [simp]: "emitted [] = []" and settled_Nil [simp]: "settled [] = []"
  by (simp_all add: emitted_def settled_def)

lemma emitted_single [simp]: "emitted [e] = entry_emits e"
  by (simp add: emitted_def)

lemma settled_single [simp]: "settled [e] = entry_settles e"
  by (simp add: settled_def)

section \<open>The index represents them\<close>

definition order_rel ::
  "(call_ref \<times> runtime_tool_call option) list \<Rightarrow> call_ref list \<Rightarrow> order \<Rightarrow> bool" where
  "order_rel E S ord \<longleftrightarrow>
     distinct (map fst E) \<and> distinct S \<and> set S \<subseteq> fst ` set E
     \<and> om_ok (ord_calls ord) \<and> om_ok (ord_delegations ord)
     \<and> (\<forall>r c. om_get (ord_calls ord) r = Some c \<longleftrightarrow> (r, Some c) \<in> set E \<and> r \<notin> set S)
     \<and> (\<forall>r. om_contains (ord_delegations ord) r \<longleftrightarrow> (r, None) \<in> set E \<and> r \<notin> set S)
     \<and> ord_completed ord = set S"

lemma order_relD:
  assumes "order_rel E S ord"
  shows order_rel_distinct: "distinct (map fst E)" "distinct S"
    and order_rel_subset: "set S \<subseteq> fst ` set E"
    and order_rel_ok: "om_ok (ord_calls ord)" "om_ok (ord_delegations ord)"
    and order_rel_calls: "om_get (ord_calls ord) r = Some c \<longleftrightarrow> (r, Some c) \<in> set E \<and> r \<notin> set S"
    and order_rel_delegations: "om_contains (ord_delegations ord) r \<longleftrightarrow> (r, None) \<in> set E \<and> r \<notin> set S"
    and order_rel_completed: "ord_completed ord = set S"
  using assms by (simp_all add: order_rel_def)

lemma order_rel_known:
  assumes rel: "order_rel E S ord"
  shows "origin_known ord r \<longleftrightarrow> r \<in> fst ` set E"
proof -
  have "om_contains (ord_calls ord) r \<longleftrightarrow> (\<exists>c. (r, Some c) \<in> set E \<and> r \<notin> set S)"
    unfolding om_contains_def not_None_eq order_rel_calls [OF rel] by blast
  then have "origin_known ord r \<longleftrightarrow>
      ((r, None) \<in> set E \<or> (\<exists>c. (r, Some c) \<in> set E)) \<and> r \<notin> set S \<or> r \<in> set S"
    unfolding origin_known_def order_rel_delegations [OF rel] order_rel_completed [OF rel] by blast
  also have "((r, None) \<in> set E \<or> (\<exists>c. (r, Some c) \<in> set E)) \<longleftrightarrow> (\<exists>x. (r, x) \<in> set E)"
    by (metis option.exhaust)
  also have "\<dots> \<longleftrightarrow> r \<in> fst ` set E" by force
  finally show ?thesis using order_rel_subset [OF rel] by blast
qed

lemma order_rel_emit:
  assumes rel: "order_rel E S ord" and new: "\<not> origin_known ord r"
  shows "distinct (map fst (E @ [(r, x)]))" and "r \<notin> set S"
    and "set S \<subseteq> fst ` set (E @ [(r, x)])"
  using rel new order_rel_known [OF rel, of r] by (auto simp: order_rel_def)

lemma order_rel_delegate:
  assumes rel: "order_rel E S ord" and new: "\<not> origin_known ord r"
  shows "order_rel (E @ [(r, None)]) S
           (ord\<lparr>ord_delegations := om_insert r () (ord_delegations ord)\<rparr>)"
  unfolding order_rel_def
proof (intro conjI allI)
  fix r'
  show "om_contains (ord_delegations (ord\<lparr>ord_delegations := om_insert r () (ord_delegations ord)\<rparr>)) r'
      \<longleftrightarrow> (r', None) \<in> set (E @ [(r, None)]) \<and> r' \<notin> set S"
    using order_rel_emit(2) [OF assms] order_rel_delegations [OF rel, of r'] by auto
qed (use order_rel_emit [OF assms] order_relD [OF rel] in simp_all)

lemma order_rel_call:
  assumes rel: "order_rel E S ord" and new: "\<not> origin_known ord r"
  shows "order_rel (E @ [(r, Some c)]) S (ord\<lparr>ord_calls := om_insert r c (ord_calls ord)\<rparr>)"
  unfolding order_rel_def
proof (intro conjI allI)
  have fresh: "r \<notin> fst ` set E" using new order_rel_known [OF rel] by simp
  fix r' c'
  show "om_get (ord_calls (ord\<lparr>ord_calls := om_insert r c (ord_calls ord)\<rparr>)) r' = Some c'
      \<longleftrightarrow> (r', Some c') \<in> set (E @ [(r, Some c)]) \<and> r' \<notin> set S"
    using order_rel_emit(2) [OF assms] order_rel_calls [OF rel, of r' c'] fresh
    by (auto simp: image_iff)
qed (use order_rel_emit [OF assms] order_relD [OF rel] in simp_all)

lemma order_outputs_rel:
  assumes "order_rel E S ord" and "order_outputs (Some r) items ord = (None, ord')"
  shows "order_rel (E @ emits r items) S ord'"
  using assms
proof (induction items arbitrary: E ord)
  case (Cons item items)
  show ?case
  proof (cases item)
    case (Delegation request)
    then show ?thesis
      using Cons.prems Cons.IH [OF order_rel_delegate [OF Cons.prems(1)]]
      by (auto simp: Let_def split: if_splits)
  next
    case (RuntimeToolCall call)
    then show ?thesis
      using Cons.prems Cons.IH [OF order_rel_call [OF Cons.prems(1)]]
      by (auto simp: Let_def split: if_splits)
  qed (use Cons in auto)
qed simp

lemma order_outputs_no_origin:
  "order_outputs None items ord = (None, ord') \<Longrightarrow> ord' = ord"
  by (induction items) (auto elim: order_outputs.elims)

lemma order_outputs_frame:
  "order_outputs origin items ord = (err, ord') \<Longrightarrow>
     ord_ids ord' = ord_ids ord \<and> ord_error ord' = ord_error ord"
  by (induction origin items ord rule: order_outputs.induct)
     (auto simp: Let_def split: option.splits if_splits)

lemma order_message_frame:
  "order_message e ord = (err, ord') \<Longrightarrow> ord_ids ord' = ord_ids ord \<and> ord_error ord' = ord_error ord"
  by (auto simp: order_message_def order_outputs_frame split: message.splits option.splits if_splits)

lemma order_rel_settle:
  assumes rel: "order_rel E S ord" and r: "r \<in> fst ` set E" "r \<notin> set S"
    and new: "ord' = ord\<lparr>ord_calls := om_remove r (ord_calls ord),
                         ord_delegations := om_remove r (ord_delegations ord),
                         ord_completed := insert r (ord_completed ord)\<rparr>"
  shows "order_rel E (S @ [r]) ord'"
  unfolding order_rel_def
proof (intro conjI allI)
  fix r' c
  show "om_get (ord_calls ord') r' = Some c \<longleftrightarrow> (r', Some c) \<in> set E \<and> r' \<notin> set (S @ [r])"
    using order_rel_calls [OF rel, of r' c] by (auto simp: new)
  show "om_contains (ord_delegations ord') r' \<longleftrightarrow> (r', None) \<in> set E \<and> r' \<notin> set (S @ [r])"
    using order_rel_delegations [OF rel, of r'] by (auto simp: new)
qed (use order_relD [OF rel] r in \<open>simp_all add: new\<close>)

lemma order_rel_delegation_only:
  assumes rel: "order_rel E S ord" and "om_contains (ord_delegations ord) r"
  shows "om_get (ord_calls ord) r = None"
proof (rule ccontr)
  assume "om_get (ord_calls ord) r \<noteq> None"
  then obtain c where "(r, Some c) \<in> set E" using order_rel_calls [OF rel] by blast
  moreover have "(r, None) \<in> set E" using assms(2) order_rel_delegations [OF rel] by blast
  ultimately show False
    using order_rel_distinct(1) [OF rel] by (meson eq_key_imp_eq_value option.distinct(1))
qed

lemma order_message_rel:
  assumes rel: "order_rel E S ord" and upd: "order_message e ord = (None, ord')"
  shows "order_rel (E @ entry_emits e) (S @ entry_settles e) ord'"
proof (cases "he_message e")
  case (Assistant items data)
  then show ?thesis
    using rel upd order_outputs_no_origin
    by (cases "he_origin e")
       (auto simp: order_message_def entry_emits_def entry_settles_def order_outputs_rel)
next
  case (DelegationResult call_id outcome)
  then obtain r where r: "he_origin e = Some r" and pending: "om_contains (ord_delegations ord) r"
    and ord': "ord' = ord\<lparr>ord_delegations := om_remove r (ord_delegations ord),
                          ord_completed := insert r (ord_completed ord)\<rparr>"
    using upd by (auto simp: order_message_def split: option.splits if_splits)
  have "om_remove r (ord_calls ord) = ord_calls ord"
    using order_rel_delegation_only [OF rel pending] by (rule om_remove_absent)
  moreover have "(r, None) \<in> set E" "r \<notin> set S"
    using pending order_rel_delegations [OF rel] by blast+
  then have "r \<in> fst ` set E" by force
  ultimately have "order_rel E (S @ [r]) ord'"
    using \<open>r \<notin> set S\<close> by (intro order_rel_settle [OF rel]) (simp_all add: ord')
  then show ?thesis by (simp add: entry_emits_def entry_settles_def DelegationResult r)
next
  case (RuntimeTool call_id name outcome)
  then obtain r call where r: "he_origin e = Some r" and pending: "om_get (ord_calls ord) r = Some call"
    and ord': "ord' = ord\<lparr>ord_calls := om_remove r (ord_calls ord),
                          ord_completed := insert r (ord_completed ord)\<rparr>"
    using upd by (auto simp: order_message_def split: option.splits if_splits)
  have "om_get (ord_delegations ord) r = None"
    using order_rel_delegation_only [OF rel, of r] pending
    unfolding om_contains_def by (cases "om_get (ord_delegations ord) r") auto
  then have "om_remove r (ord_delegations ord) = ord_delegations ord" by (rule om_remove_absent)
  moreover have "(r, Some call) \<in> set E" "r \<notin> set S"
    using pending order_rel_calls [OF rel] by blast+
  then have "r \<in> fst ` set E" by force
  ultimately have "order_rel E (S @ [r]) ord'"
    using \<open>r \<notin> set S\<close> by (intro order_rel_settle [OF rel]) (simp_all add: ord')
  then show ?thesis by (simp add: entry_emits_def entry_settles_def RuntimeTool r)
qed (use assms in \<open>auto simp: order_message_def entry_emits_def entry_settles_def\<close>)

text \<open>The identities: every entry's identity maps to its index, and no other is present.\<close>

definition ids_rel :: "history_entry list \<Rightarrow> order \<Rightarrow> bool" where
  "ids_rel es ord \<longleftrightarrow> distinct (map he_id es)
     \<and> (\<forall>i k. om_get (ord_ids ord) i = Some k \<longleftrightarrow> k < length es \<and> he_id (es ! k) = i)"

definition order_inv :: "history_entry list \<Rightarrow> order \<Rightarrow> bool" where
  "order_inv es ord \<longleftrightarrow> (ord_error ord = None \<longrightarrow>
     order_rel (emitted es) (settled es) ord \<and> ids_rel es ord)"

lemma ids_rel_snoc:
  assumes rel: "ids_rel es ord" and new: "\<not> om_contains (ord_ids ord) (he_id e)"
    and ids: "ord_ids ord' = om_insert (he_id e) (length es) (ord_ids ord)"
  shows "ids_rel (es @ [e]) ord'"
proof -
  have fresh: "he_id (es ! k) \<noteq> he_id e" if "k < length es" for k
    using rel new that by (auto simp: ids_rel_def om_contains_def)
  then have "he_id e \<notin> he_id ` set es"
    by (metis image_iff in_set_conv_nth)
  then show ?thesis
    using rel fresh by (auto simp: ids_rel_def ids nth_append less_Suc_eq)
qed

lemma order_append_inv:
  assumes inv: "order_inv es ord"
  shows "order_inv (es @ [e]) (order_append e (length es) ord)"
proof (cases "ord_error ord")
  case None
  show ?thesis
  proof (cases "om_contains (ord_ids ord) (he_id e)")
    case True
    then show ?thesis using None by (simp add: order_append_def order_update_def order_inv_def)
  next
    case False
    define ord1 where "ord1 = ord\<lparr>ord_ids := om_insert (he_id e) (length es) (ord_ids ord)\<rparr>"
    obtain err ord' where upd: "order_message e ord1 = (err, ord')"
      by (cases "order_message e ord1") auto
    have app: "order_append e (length es) ord = ord'\<lparr>ord_error := err\<rparr>"
      using None False upd by (simp add: order_append_def order_update_def ord1_def)
    show ?thesis
    proof (cases err)
      case (Some m)
      then show ?thesis by (simp add: app order_inv_def)
    next
      case err: None
      have rel: "order_rel (emitted es) (settled es) ord" and ids: "ids_rel es ord"
        using inv None by (simp_all add: order_inv_def)
      then have "order_rel (emitted es) (settled es) ord1"
        by (simp add: ord1_def order_rel_def)
      then have "order_rel (emitted (es @ [e])) (settled (es @ [e])) ord'"
        using order_message_rel upd err by simp
      moreover have "ids_rel (es @ [e]) ord'"
        using ids False order_message_frame [OF upd]
        by (intro ids_rel_snoc) (auto simp: ord1_def)
      ultimately show ?thesis
        by (simp add: app order_inv_def order_rel_def ids_rel_def)
    qed
  qed
next
  case (Some m)
  then show ?thesis by (simp add: order_append_def order_inv_def)
qed

lemma order_of_inv_gen:
  "order_inv es ord \<Longrightarrow> order_inv (es @ es') (order_of (length es) es' ord)"
proof (induction es' arbitrary: es ord)
  case (Cons e es')
  show ?case
    using Cons.IH [of "es @ [e]" "order_append e (length es) ord"] order_append_inv [OF Cons.prems]
    by simp
qed simp

lemma order_of_inv: "order_inv es (order_of 0 es order_default)"
proof -
  have "order_inv [] order_default"
    by (simp add: order_inv_def order_rel_def ids_rel_def order_default_def om_contains_def)
  from order_of_inv_gen [OF this, of es] show ?thesis by simp
qed

lemma history_order_inv: "history_ok H h \<Longrightarrow> order_inv (history_entries h) (hist_order h)"
  using order_of_inv by (simp add: history_ok_def)

lemma history_valid_rel:
  assumes "history_ok H h" and "history_validate h = Inr ()"
  shows "order_rel (emitted (history_entries h)) (settled (history_entries h)) (hist_order h)"
    and "ids_rel (history_entries h) (hist_order h)"
  using history_order_inv [OF assms(1)] assms(2)
  by (auto simp: order_inv_def history_validate_def split: if_splits option.splits)

lemma pending_calls_iff:
  assumes "history_ok H h" and "history_validate h = Inr ()"
  shows "(r, c) \<in> set (pending_calls h) \<longleftrightarrow>
     (r, Some c) \<in> set (emitted (history_entries h)) \<and> r \<notin> set (settled (history_entries h))"
  unfolding pending_calls_def
  using om_mem_iff [OF order_rel_ok(1)] order_rel_calls history_valid_rel(1) [OF assms] by metis

lemma pending_delegations_iff:
  assumes "history_ok H h" and "history_validate h = Inr ()"
  shows "r \<in> set (pending_delegations h) \<longleftrightarrow>
     (r, None) \<in> set (emitted (history_entries h)) \<and> r \<notin> set (settled (history_entries h))"
  unfolding pending_delegations_def om_key_iff
  by (rule order_rel_delegations [OF history_valid_rel(1) [OF assms]])

lemma history_by_id_iff:
  assumes "history_ok H h" and "history_validate h = Inr ()"
  shows "history_by_id h i = Some e \<longleftrightarrow> e \<in> set (history_entries h) \<and> he_id e = i"
proof -
  let ?es = "history_entries h"
  have ids: "om_get (ord_ids (hist_order h)) i = Some k \<longleftrightarrow> k < length ?es \<and> he_id (?es ! k) = i" for k
    using history_valid_rel(2) [OF assms] by (simp add: ids_rel_def)
  have "history_by_id h i = Some e \<longleftrightarrow>
      (\<exists>k. om_get (ord_ids (hist_order h)) i = Some k \<and> history_get h k = Some e)"
    by (simp add: history_by_id_def split: option.splits)
  also have "\<dots> \<longleftrightarrow> (\<exists>k < length ?es. ?es ! k = e \<and> he_id e = i)"
    unfolding ids history_get_nth [OF assms(1)] by auto
  also have "\<dots> \<longleftrightarrow> e \<in> set ?es \<and> he_id e = i"
    by (auto simp: in_set_conv_nth)
  finally show ?thesis .
qed

end
