(* ===== verification/Model_Protocol.thy ===== *)
theory Model_Protocol
  imports Order_Index
begin

text \<open>
  The model contract of \<open>zhir-core/src/model\<close>: usage counters, capabilities, the request and its
  validation (\<open>mod.rs\<close>), the session commands and events (\<open>session.rs\<close>), and \<open>conversation\<close>, the
  projection of the causal history into messages (\<open>conversation.rs\<close>). The lemmas describe the
  saturating usage sums, what a validated request guarantees, and the projection: it keeps every
  message that is not assistant output with an origin, in order, and holds at most one entry per
  provider call of a response.
\<close>

section \<open>Usage\<close>

record usage =
  us_input_tokens :: "u64 option"
  us_output_tokens :: "u64 option"
  us_total_tokens :: "u64 option"
  us_reasoning_tokens :: "u64 option"
  us_cache_read_tokens :: "u64 option"
  us_cache_write_tokens :: "u64 option"

definition usage_default :: usage where
  "usage_default = \<lparr>us_input_tokens = None, us_output_tokens = None, us_total_tokens = None,
     us_reasoning_tokens = None, us_cache_read_tokens = None, us_cache_write_tokens = None\<rparr>"

definition tokens_add :: "u64 option \<Rightarrow> u64 option \<Rightarrow> u64 option" where
  "tokens_add a b = (case b of None \<Rightarrow> a
     | Some n \<Rightarrow> Some (u64_saturating_add (case a of None \<Rightarrow> 0 | Some m \<Rightarrow> m) n))"

definition usage_add :: "usage \<Rightarrow> usage \<Rightarrow> usage" where
  "usage_add u rhs = \<lparr>
     us_input_tokens = tokens_add (us_input_tokens u) (us_input_tokens rhs),
     us_output_tokens = tokens_add (us_output_tokens u) (us_output_tokens rhs),
     us_total_tokens = tokens_add (us_total_tokens u) (us_total_tokens rhs),
     us_reasoning_tokens = tokens_add (us_reasoning_tokens u) (us_reasoning_tokens rhs),
     us_cache_read_tokens = tokens_add (us_cache_read_tokens u) (us_cache_read_tokens rhs),
     us_cache_write_tokens = tokens_add (us_cache_write_tokens u) (us_cache_write_tokens rhs)\<rparr>"

text \<open>A counter, read as \<open>0\<close> when absent, is the sum cut off at the largest 64-bit number.\<close>

definition tokens_nat :: "u64 option \<Rightarrow> nat" where
  "tokens_nat a = (case a of None \<Rightarrow> 0 | Some n \<Rightarrow> unat n)"

lemma tokens_nat_bound: "tokens_nat a \<le> 2 ^ 64 - 1"
proof (cases a)
  case (Some n)
  have "unat n < 2 ^ 64" using unsigned_less [of n] by simp
  then show ?thesis by (simp add: Some tokens_nat_def)
qed (simp add: tokens_nat_def)

lemma tokens_nat_add:
  "tokens_nat (tokens_add a b) = min (tokens_nat a + tokens_nat b) (2 ^ 64 - 1)"
  using tokens_nat_bound [of a]
  by (cases a; cases b) (auto simp: tokens_nat_def tokens_add_def unat_u64_saturating_add)

lemma tokens_nat_sum:
  "tokens_nat (foldl tokens_add a bs) = min (tokens_nat a + sum_list (map tokens_nat bs)) (2 ^ 64 - 1)"
proof (induction bs arbitrary: a)
  case Nil
  then show ?case using tokens_nat_bound [of a] by simp
next
  case (Cons b bs)
  then show ?case by (simp add: tokens_nat_add)
qed

section \<open>Capabilities and requests\<close>

datatype capability =
  StructuredTools | FreeformTools | ProviderTools | ParallelTools | ParallelControl | Streaming
| CapUsage | StructuredOutput | JsonMode | CapSeed | CapDuplex | Steering | CapInterruptOutput
| CapFlushInput | InputAudioControl | ConversationItems | CapDelegation | ProfileUpdates
| AsyncResults | CapResume | ExplicitGeneration | ResponseEvents | LocalProjection
| CapReplaceContext | StreamingInput

record capability_set =
  cap_input_modalities :: "string list"
  cap_output_modalities :: "string list"
  cap_features :: "capability set"
  cap_tool_choices :: "string list"
  cap_constraints :: "(string, json list) omap"
  cap_extensions :: extensions

definition supports :: "capability_set \<Rightarrow> capability \<Rightarrow> bool" where
  "supports caps c = (c \<in> cap_features caps)"

datatype tool_choice =
  ChoiceAuto | ChoiceNone | ChoiceRequired | ChoiceRuntimeTool string | ChoiceProviderTool string string

fun tool_choice_kind :: "tool_choice \<Rightarrow> string" where
  "tool_choice_kind ChoiceAuto = ''auto''"
| "tool_choice_kind ChoiceNone = ''none''"
| "tool_choice_kind ChoiceRequired = ''required''"
| "tool_choice_kind (ChoiceRuntimeTool _) = ''runtime_tool''"
| "tool_choice_kind (ChoiceProviderTool _ _) = ''provider_tool''"

record provider_tool_spec =
  pts_provider :: string
  pts_name :: string
  pts_options :: json

datatype response_format = FormatJson | FormatSchema string json

record model_request =
  mr_messages :: "message list"
  mr_runtime_tools :: "runtime_tool_spec list"
  mr_provider_tools :: "provider_tool_spec list"
  mr_profile :: request_profile
  mr_tool_choice :: tool_choice
  mr_response_format :: "response_format option"
  mr_stream :: bool

text \<open>
  The loop over provider declarations with the set of identities seen so far, shared by the request
  and the run options, which differ in the message only.
\<close>

fun provider_specs_validate ::
  "string \<Rightarrow> (string \<times> string) list \<Rightarrow> provider_tool_spec list \<Rightarrow> unit result" where
  "provider_specs_validate msg seen [] = Inr ()"
| "provider_specs_validate msg seen (tool # tools) =
     (if pts_provider tool = [] \<or> pts_name tool = [] \<or> (pts_provider tool, pts_name tool) \<in> set seen
      then Inl (Invalid msg)
      else provider_specs_validate msg ((pts_provider tool, pts_name tool) # seen) tools)"

fun runtime_specs_validate :: "string list \<Rightarrow> runtime_tool_spec list \<Rightarrow> unit result" where
  "runtime_specs_validate seen [] = Inr ()"
| "runtime_specs_validate seen (tool # tools) =
     (if rts_name tool = [] \<or> rts_name tool \<in> set seen
      then Inl (Invalid ''runtime tool names must be nonempty and unique'')
      else runtime_specs_validate (rts_name tool # seen) tools)"

lemma provider_specs_validate_Inr:
  "provider_specs_validate msg seen tools = Inr u \<longleftrightarrow>
     (\<forall>t \<in> set tools. pts_provider t \<noteq> [] \<and> pts_name t \<noteq> [])
     \<and> distinct (map (\<lambda>t. (pts_provider t, pts_name t)) tools)
     \<and> (\<lambda>t. (pts_provider t, pts_name t)) ` set tools \<inter> set seen = {}"
  by (induction msg seen tools rule: provider_specs_validate.induct) auto

lemma runtime_specs_validate_Inr:
  "runtime_specs_validate seen tools = Inr u \<longleftrightarrow>
     (\<forall>t \<in> set tools. rts_name t \<noteq> []) \<and> distinct (map rts_name tools)
     \<and> rts_name ` set tools \<inter> set seen = {}"
  by (induction seen tools rule: runtime_specs_validate.induct) auto

definition message_is_delegation :: "message \<Rightarrow> bool" where
  "message_is_delegation m = (case m of
       DelegationResult _ _ \<Rightarrow> True
     | Assistant items _ \<Rightarrow> (\<exists>item \<in> set items. case item of Delegation _ \<Rightarrow> True | _ \<Rightarrow> False)
     | _ \<Rightarrow> False)"

fun output_plain_content :: "output_item \<Rightarrow> content option" where
  "output_plain_content (OutputContent content) = Some content"
| "output_plain_content _ = None"

fun message_content :: "message \<Rightarrow> content list" where
  "message_content (System content) = content"
| "message_content (User content) = content"
| "message_content (External content) = content"
| "message_content (Assistant items _) = List.map_filter output_plain_content items"
| "message_content (RuntimeTool _ _ outcome) = outcome_content outcome"
| "message_content (DelegationResult _ outcome) = outcome_content outcome"

definition message_admissible :: "capability_set \<Rightarrow> message \<Rightarrow> unit result" where
  "message_admissible c m = checks [
     message_validate m,
     fail_if (\<not> supports c CapDelegation \<and> message_is_delegation m)
       (Invalid ''unsupported delegation history''),
     each (\<lambda>part. fail_if (some_and (\<lambda>modality. modality \<notin> set (cap_input_modalities c))
                             (content_modality part))
                    (Invalid ''unsupported input modality'')) (message_content m)]"

definition spec_supported :: "capability_set \<Rightarrow> runtime_tool_spec \<Rightarrow> unit result" where
  "spec_supported c t = (case rts_input t of
       StructuredSpec _ \<Rightarrow> fail_if (\<not> supports c StructuredTools) (Invalid ''unsupported structured tools'')
     | FreeformSpec _ \<Rightarrow> fail_if (\<not> supports c FreeformTools) (Invalid ''unsupported freeform tools''))"

definition model_request_validate :: "model_request \<Rightarrow> capability_set \<Rightarrow> unit result" where
  "model_request_validate r c = (let generation = rp_generation (mr_profile r) in checks [
     validate_extensions (rp_extensions (mr_profile r)),
     fail_if (mr_stream r \<and> \<not> supports c Streaming) (Invalid ''model does not support streaming''),
     fail_if (tool_choice_kind (mr_tool_choice r) \<notin> set (cap_tool_choices c))
       (Invalid ''unsupported tool choice''),
     fail_if (gp_parallel_runtime_tools generation = Some False \<and> \<not> supports c ParallelControl)
       (Invalid ''model cannot disable parallel tools''),
     fail_if (gp_seed generation \<noteq> None \<and> \<not> supports c CapSeed) (Invalid ''unsupported seed''),
     fail_if (some_and (\<lambda>n. \<not> f64_is_finite n) (gp_temperature generation))
       (Invalid ''nonfinite temperature''),
     fail_if (mr_provider_tools r \<noteq> [] \<and> \<not> supports c ProviderTools)
       (Invalid ''unsupported provider tools''),
     provider_specs_validate ''provider tool declarations require unique nonempty identities'' []
       (mr_provider_tools r),
     runtime_specs_validate [] (mr_runtime_tools r),
     fail_if ((case mr_response_format r of Some (FormatSchema _ _) \<Rightarrow> True | _ \<Rightarrow> False)
              \<and> \<not> supports c StructuredOutput) (Invalid ''unsupported structured output''),
     fail_if (mr_response_format r = Some FormatJson \<and> \<not> supports c JsonMode)
       (Invalid ''unsupported JSON mode''),
     each (spec_supported c) (mr_runtime_tools r),
     fail_if (case mr_tool_choice r of
                ChoiceRuntimeTool name \<Rightarrow> name \<notin> rts_name ` set (mr_runtime_tools r) | _ \<Rightarrow> False)
       (Invalid ''selected tool is unavailable''),
     fail_if (case mr_tool_choice r of
                ChoiceProviderTool provider name \<Rightarrow>
                  (provider, name) \<notin> (\<lambda>s. (pts_provider s, pts_name s)) ` set (mr_provider_tools r)
              | _ \<Rightarrow> False)
       (Invalid ''selected provider tool is unavailable''),
     each (message_admissible c) (mr_messages r)])"

section \<open>Generated output, commands and events\<close>

datatype response_status =
  RespCompleted | RespRequiresResults | RespContinuation | RespFailed | RespCancelled | RespIncomplete

record generation_output =
  go_output :: "output_item list"
  go_usage :: usage
  go_status :: response_status
  go_provider_data :: json
  go_model_id :: "string option"
  go_response_id :: "string option"
  go_finish_reason :: "string option"

definition generation_output_text :: "string \<Rightarrow> generation_output" where
  "generation_output_text s = \<lparr>go_output = [OutputContent (Text s)], go_usage = usage_default,
     go_status = RespCompleted, go_provider_data = Null, go_model_id = None, go_response_id = None,
     go_finish_reason = None\<rparr>"

fun output_provider_pending :: "output_item \<Rightarrow> bool" where
  "output_provider_pending (ProviderToolCall call) =
     (ptc_status call = StatusPending \<or> ptc_status call = StatusRunning)"
| "output_provider_pending _ = False"

definition generation_output_validate :: "generation_output \<Rightarrow> unit result" where
  "generation_output_validate g = checks [
     validate_output (go_output g),
     fail_if ((\<exists>item \<in> set (go_output g). output_provider_pending item)
              \<and> go_status g \<noteq> RespContinuation)
       (Protocol ''unfinished provider call requires continuation'')]"

datatype model_delta =
  DeltaText nat string
| DeltaReasoning nat string
| DeltaRuntimeTool nat "string option" "string option" string
| DeltaProtocolEvent nat json
| DeltaProviderToolProgress nat string string "string option" "provider_tool_status option" json
| DeltaUsage usage

record model_binding =
  mb_adapter :: string
  mb_data :: json

datatype append_source = Submitted | Accepted

datatype acknowledgement = AckProjection | AckTransport | AckProvider

datatype session_command_body =
  BodyDelegationContext string call_ref "content list"
| BodyGenerate string u64 u64 u64
| BodyAppend history_entry u64 u64 append_source
| BodyReplaceContext "history_entry list" u64
| BodyUpdateProfile u64 request_profile
| BodyInterruptOutput string u64
| BodyFlushInput
| BodySetInputAudio bool
| BodySealUserInput
| BodyClose

record session_command =
  scmd_id :: string
  scmd_body :: session_command_body

datatype session_event_body =
  EvReady u64
| EvResponseStarted string u64
| EvConversationItem string message
| EvAcknowledged string "recovery_ref option" acknowledgement
| EvDelta "string option" model_delta
| EvOutput "string option" string string output_item
| EvOperation call_ref operation_event
| EvResponseFinished string u64 response_status usage "string option" "string option" "string option"
    json effective_profile
| EvRecovery recovery_ref
| EvClosed string json

record session_event =
  sev_sequence :: u64
  sev_body :: session_event_body

section \<open>Conversation projection\<close>

type_synonym response_key = "string \<times> string option \<times> string option"

record response =
  rsp_message_index :: nat
  rsp_positions :: "(string \<times> string, nat) omap"

definition response_key :: "call_ref \<Rightarrow> response_key" where
  "response_key origin = (cr_session_id origin, cr_generation_id origin,
     (if cr_generation_id origin = None then Some (cr_item_id origin) else None))"

text \<open>\<open>response\<close>: the entry of the origin's response, created with an empty assistant message.\<close>

definition response_entry ::
  "(response_key, response) omap \<Rightarrow> message list \<Rightarrow> call_ref
     \<Rightarrow> response \<times> (response_key, response) omap \<times> message list" where
  "response_entry responses messages origin = (case om_get responses (response_key origin) of
       Some r \<Rightarrow> (r, responses, messages)
     | None \<Rightarrow> (let r = \<lparr>rsp_message_index = length messages, rsp_positions = []\<rparr> in
         (r, om_insert (response_key origin) r responses, messages @ [Assistant [] Null])))"

fun response_merge :: "response \<Rightarrow> output_item list \<Rightarrow> output_item \<Rightarrow> response \<times> output_item list" where
  "response_merge r items (ProviderToolCall call) =
     (let key = (ptc_provider call, ptc_id call);
          positions = (if om_contains (rsp_positions r) key then rsp_positions r
                       else om_insert key (length items) (rsp_positions r));
          r' = r\<lparr>rsp_positions := positions\<rparr> in
      case om_get positions key of
        Some position \<Rightarrow>
          (if position < length items then (r', items[position := ProviderToolCall call])
           else (r', items @ [ProviderToolCall call]))
      | None \<Rightarrow> (r', items @ [ProviderToolCall call]))"
| "response_merge r items item = (r, items @ [item])"

fun merge_items :: "response \<Rightarrow> output_item list \<Rightarrow> output_item list \<Rightarrow> response \<times> output_item list" where
  "merge_items r acc [] = (r, acc)"
| "merge_items r acc (item # items) =
     (case response_merge r acc item of (r', acc') \<Rightarrow> merge_items r' acc' items)"

definition conversation_step ::
  "(response_key, response) omap \<times> message list \<Rightarrow> history_entry
     \<Rightarrow> (response_key, response) omap \<times> message list" where
  "conversation_step st e = (case st of (responses, messages) \<Rightarrow>
     (case (he_origin e, he_message e) of
        (Some origin, Assistant items data) \<Rightarrow>
          (case response_entry responses messages origin of (r, responses', messages') \<Rightarrow>
             (case messages' ! rsp_message_index r of
                Assistant acc data' \<Rightarrow>
                  (case merge_items r acc items of (r', acc') \<Rightarrow>
                     (om_insert (response_key origin) r' responses',
                      messages'[rsp_message_index r :=
                        Assistant acc' (if json_is_null data then data' else data)]))
              | _ \<Rightarrow> (responses', messages')))
      | (_, m) \<Rightarrow> (responses, messages @ [m])))"

definition conversation :: "history_entry list \<Rightarrow> message list" where
  "conversation es = snd (foldl conversation_step ([], []) es)"

end
