(* ===== verification/Run_State.thy ===== *)
theory Run_State
  imports Model_Protocol
begin

text \<open>
  The run state of \<open>zhir-core/src/run\<close>: context, suspensions, states, pending commands, the session
  snapshot, limits, metrics and facts (\<open>mod.rs\<close>), the run options and their validation
  (\<open>options.rs\<close>), the checkpoint and its validation (\<open>validation.rs\<close>), suspension tickets
  (\<open>ticket.rs\<close>) and the settled outcome of an invocation (\<open>completion.rs\<close>). The lemmas at the end
  read the facts off a validated checkpoint.
\<close>

section \<open>Context, suspension and state\<close>

type_synonym metadata = "(string, json) omap"

record run_context =
  rc_run_id :: string
  rc_started_at_ms :: u64
  rc_deadline_at_ms :: "u64 option"
  rc_parent_run_id :: "string option"
  rc_parent_runtime_tool_call_id :: "string option"
  rc_metadata :: metadata

record suspension =
  sus_reason :: string
  sus_source :: string
  sus_wait_id :: "string option"
  sus_metadata :: metadata

definition suspension_validate :: "suspension \<Rightarrow> unit result" where
  "suspension_validate s =
     fail_if (sus_reason s = [] \<or> sus_source s = [] \<or> some_and (\<lambda>w. w = []) (sus_wait_id s))
       (Invalid ''invalid suspension identity'')"

datatype run_mode = Task | Interactive

datatype limit_reason = LimitDeadline | LimitGenerationRequests | LimitRuntimeToolCalls | LimitTotalTokens

datatype run_state =
  StRunning
| StSuspended suspension
| StCompleted "content list"
| StFailed failure
| StCancelled
| StLimited limit_reason

datatype run_state_kind = KRunning | KSuspended | KCompleted | KFailed | KCancelled | KLimited

fun state_kind :: "run_state \<Rightarrow> run_state_kind" where
  "state_kind StRunning = KRunning"
| "state_kind (StSuspended _) = KSuspended"
| "state_kind (StCompleted _) = KCompleted"
| "state_kind (StFailed _) = KFailed"
| "state_kind StCancelled = KCancelled"
| "state_kind (StLimited _) = KLimited"

definition state_active :: "run_state \<Rightarrow> bool" where
  "state_active s = (s = StRunning)"

fun state_is_suspended :: "run_state \<Rightarrow> bool" where
  "state_is_suspended (StSuspended _) = True"
| "state_is_suspended _ = False"

fun state_is_completed :: "run_state \<Rightarrow> bool" where
  "state_is_completed (StCompleted _) = True"
| "state_is_completed _ = False"

definition state_terminal :: "run_state \<Rightarrow> bool" where
  "state_terminal s = (\<not> (s = StRunning \<or> state_is_suspended s))"

fun state_validate :: "run_state \<Rightarrow> unit result" where
  "state_validate (StSuspended suspension) = suspension_validate suspension"
| "state_validate (StCompleted content) = each content_validate content"
| "state_validate _ = Inr ()"

section \<open>Commands, session, limits, facts\<close>

datatype command_intent =
  IDelegationContext string "content list"
| IGenerate string u64 u64 u64
| IAppend nat u64 u64 append_source "string option"
| IReplaceContext u64
| IUpdateProfile u64 request_profile
| IInterruptOutput string u64
| IFlushInput
| ISetInputAudio bool
| ISealUserInput
| IClose

record pending_command =
  pc_id :: string
  pc_intent :: command_intent
  pc_sent :: bool

datatype session_establishment = EstNew | EstOpening | EstEstablished

record session_closure =
  scl_reason :: string
  scl_provider_data :: json

record session_snapshot =
  ss_binding :: "model_binding option"
  ss_capabilities :: "capability_set option"
  ss_id :: string
  ss_generation_id :: "string option"
  ss_establishment :: session_establishment
  ss_ready :: bool
  ss_generation_started :: bool
  ss_context_revision :: u64
  ss_acknowledged_context_revision :: u64
  ss_reduced_context_revision :: "u64 option"
  ss_input_position :: u64
  ss_generated_input_position :: u64
  ss_needs_generation :: bool
  ss_response_start :: nat
  ss_run_start :: nat
  ss_last_sequence :: "u64 option"
  ss_response_status :: "response_status option"
  ss_recovery :: "recovery_ref option"
  ss_output_epoch :: u64
  ss_media_archive :: "resource_ref option"
  ss_input_closed :: bool
  ss_input_audio_enabled :: bool
  ss_closing :: bool
  ss_closure :: "session_closure option"
  ss_profile_revision :: u64
  ss_profile :: request_profile
  ss_negotiated :: negotiated_profile
  ss_effective :: effective_profile

record stream_cursor =
  cur_sequence :: u64
  cur_epoch :: u64
  cur_sealed :: resource_ref

record active_state =
  ac_session :: session_snapshot
  ac_operations :: "(string, operation_record) omap"
  ac_commands :: "pending_command list"
  ac_media :: "(string, stream_cursor) omap"

record limits =
  lim_max_generation_requests :: u64
  lim_max_runtime_tool_calls :: u64
  lim_max_inflight_operations :: nat
  lim_max_control_commands :: nat
  lim_max_session_events :: nat
  lim_max_media_streams :: nat
  lim_max_media_chunk_bytes :: nat
  lim_max_buffered_media_bytes :: nat
  lim_max_buffered_media_packets :: nat
  lim_max_operation_concurrency :: nat
  lim_max_observer_events :: nat
  lim_max_total_tokens :: "u64 option"
  lim_elapsed_ms :: "u64 option"
  lim_commit_timeout_ms :: u64

definition u32_max :: nat where
  "u32_max = 2 ^ 32 - 1"

definition limits_validate :: "limits \<Rightarrow> unit result" where
  "limits_validate l =
     fail_if (lim_max_inflight_operations l = 0 \<or> lim_max_control_commands l = 0
         \<or> lim_max_session_events l = 0 \<or> lim_max_observer_events l = 0
         \<or> lim_max_media_streams l = 0 \<or> lim_max_buffered_media_packets l = 0
         \<or> (\<exists>size \<in> set [lim_max_control_commands l, lim_max_session_events l,
                           lim_max_observer_events l, lim_max_buffered_media_packets l].
               u32_max < size)
         \<or> u32_max < lim_max_buffered_media_bytes l
         \<or> lim_max_media_chunk_bytes l = 0
         \<or> lim_max_buffered_media_bytes l < lim_max_media_chunk_bytes l
         \<or> lim_max_operation_concurrency l = 0
         \<or> lim_commit_timeout_ms l = 0)
       (Invalid ''invalid queue, media, concurrency or commit limits'')"

record metrics =
  met_generation_requests :: u64
  met_observed_responses :: "u64 option"
  met_runtime_tool_calls :: u64
  met_usage :: usage

definition metrics_default :: metrics where
  "metrics_default = \<lparr>met_generation_requests = 0, met_observed_responses = None,
     met_runtime_tool_calls = 0, met_usage = usage_default\<rparr>"

datatype control_action = ActFinished | ActFailed | ActLimited | ActSuspended | ActCancelled

datatype fact =
  FStarted
| FAttached
| FSession string u64
| FOperation string operation_state
| FCommand string
| FConversationInsert string
| FHistoryRewrite string
| FControl control_action
| FMedia string u64
| FGenerationAbandoned string string

section \<open>Options\<close>

record run_options =
  ro_runtime_tools :: runtime_tool_selection
  ro_limits :: limits
  ro_profile :: request_profile
  ro_mode :: run_mode
  ro_provider_tools :: "provider_tool_spec list"
  ro_tool_choice :: tool_choice
  ro_response_format :: "response_format option"
  ro_stream :: bool

definition run_options_validate :: "run_options \<Rightarrow> unit result" where
  "run_options_validate o' = checks [
     limits_validate (ro_limits o'),
     selection_validate (ro_runtime_tools o'),
     fail_if (some_and (\<lambda>v. \<not> f64_is_finite v) (gp_temperature (rp_generation (ro_profile o'))))
       (Invalid ''nonfinite model temperature''),
     provider_specs_validate ''provider declarations require unique nonempty identities'' []
       (ro_provider_tools o'),
     fail_if (case ro_tool_choice o' of
         ChoiceProviderTool provider name \<Rightarrow>
           (provider, name) \<notin> (\<lambda>t. (pts_provider t, pts_name t)) ` set (ro_provider_tools o')
       | _ \<Rightarrow> False)
       (Invalid ''selected provider tool is unavailable'')]"

section \<open>Checkpoints\<close>

record checkpoint =
  cp_options :: run_options
  cp_id :: string
  cp_parent_id :: "string option"
  cp_revision :: u64
  cp_context :: run_context
  cp_history :: history
  cp_state :: run_state
  cp_active :: active_state
  cp_metrics :: metrics
  cp_fact :: fact

abbreviation cp_session :: "checkpoint \<Rightarrow> session_snapshot" where
  "cp_session c \<equiv> ac_session (cp_active c)"

abbreviation cp_operations :: "checkpoint \<Rightarrow> (string, operation_record) omap" where
  "cp_operations c \<equiv> ac_operations (cp_active c)"

abbreviation cp_commands :: "checkpoint \<Rightarrow> pending_command list" where
  "cp_commands c \<equiv> ac_commands (cp_active c)"

text \<open>Updates of one part of the active state, the model of \<open>next.active.session.x = ..\<close>.\<close>

definition map_active :: "(active_state \<Rightarrow> active_state) \<Rightarrow> checkpoint \<Rightarrow> checkpoint" where
  "map_active f c = c\<lparr>cp_active := f (cp_active c)\<rparr>"

definition map_session :: "(session_snapshot \<Rightarrow> session_snapshot) \<Rightarrow> checkpoint \<Rightarrow> checkpoint" where
  "map_session f c = map_active (\<lambda>a. a\<lparr>ac_session := f (ac_session a)\<rparr>) c"

definition map_operations ::
  "((string, operation_record) omap \<Rightarrow> (string, operation_record) omap) \<Rightarrow> checkpoint \<Rightarrow> checkpoint" where
  "map_operations f c = map_active (\<lambda>a. a\<lparr>ac_operations := f (ac_operations a)\<rparr>) c"

definition map_commands ::
  "(pending_command list \<Rightarrow> pending_command list) \<Rightarrow> checkpoint \<Rightarrow> checkpoint" where
  "map_commands f c = map_active (\<lambda>a. a\<lparr>ac_commands := f (ac_commands a)\<rparr>) c"

lemma map_parts_simps [simp]:
  "cp_session (map_session f c) = f (cp_session c)"
  "cp_operations (map_session f c) = cp_operations c"
  "cp_commands (map_session f c) = cp_commands c"
  "ac_media (cp_active (map_session f c)) = ac_media (cp_active c)"
  "cp_session (map_operations g c) = cp_session c"
  "cp_operations (map_operations g c) = g (cp_operations c)"
  "cp_commands (map_operations g c) = cp_commands c"
  "ac_media (cp_active (map_operations g c)) = ac_media (cp_active c)"
  "cp_session (map_commands h c) = cp_session c"
  "cp_operations (map_commands h c) = cp_operations c"
  "cp_commands (map_commands h c) = h (cp_commands c)"
  "ac_media (cp_active (map_commands h c)) = ac_media (cp_active c)"
  by (simp_all add: map_session_def map_operations_def map_commands_def map_active_def)

lemma map_active_frame [simp]:
  "cp_options (map_active f c) = cp_options c" "cp_id (map_active f c) = cp_id c"
  "cp_parent_id (map_active f c) = cp_parent_id c" "cp_revision (map_active f c) = cp_revision c"
  "cp_context (map_active f c) = cp_context c" "cp_history (map_active f c) = cp_history c"
  "cp_state (map_active f c) = cp_state c" "cp_metrics (map_active f c) = cp_metrics c"
  "cp_fact (map_active f c) = cp_fact c"
  by (simp_all add: map_active_def)

lemma map_session_frame [simp]:
  "cp_options (map_session f c) = cp_options c" "cp_id (map_session f c) = cp_id c"
  "cp_parent_id (map_session f c) = cp_parent_id c" "cp_revision (map_session f c) = cp_revision c"
  "cp_context (map_session f c) = cp_context c" "cp_history (map_session f c) = cp_history c"
  "cp_state (map_session f c) = cp_state c" "cp_metrics (map_session f c) = cp_metrics c"
  "cp_fact (map_session f c) = cp_fact c"
  by (simp_all add: map_session_def)

lemma map_operations_frame [simp]:
  "cp_options (map_operations g c) = cp_options c" "cp_id (map_operations g c) = cp_id c"
  "cp_parent_id (map_operations g c) = cp_parent_id c" "cp_revision (map_operations g c) = cp_revision c"
  "cp_context (map_operations g c) = cp_context c" "cp_history (map_operations g c) = cp_history c"
  "cp_state (map_operations g c) = cp_state c" "cp_metrics (map_operations g c) = cp_metrics c"
  "cp_fact (map_operations g c) = cp_fact c"
  by (simp_all add: map_operations_def)

lemma map_commands_frame [simp]:
  "cp_options (map_commands h c) = cp_options c" "cp_id (map_commands h c) = cp_id c"
  "cp_parent_id (map_commands h c) = cp_parent_id c" "cp_revision (map_commands h c) = cp_revision c"
  "cp_context (map_commands h c) = cp_context c" "cp_history (map_commands h c) = cp_history c"
  "cp_state (map_commands h c) = cp_state c" "cp_metrics (map_commands h c) = cp_metrics c"
  "cp_fact (map_commands h c) = cp_fact c"
  by (simp_all add: map_commands_def)

section \<open>Validation of a checkpoint\<close>

text \<open>The identities of pending commands: nonempty and unique.\<close>

fun command_ids_validate :: "string list \<Rightarrow> pending_command list \<Rightarrow> unit result" where
  "command_ids_validate ids [] = Inr ()"
| "command_ids_validate ids (command # commands) =
     (if pc_id command = [] \<or> pc_id command \<in> set ids
      then Inl (Invalid ''invalid pending command identity'')
      else command_ids_validate (pc_id command # ids) commands)"

text \<open>
  The match over the intent of one pending command; the guarded arms are tried in the source's
  order, so an \<open>Append\<close> of a missing entry is reported before its operation is looked at.
\<close>

definition command_validate :: "checkpoint \<Rightarrow> pending_command \<Rightarrow> unit result" where
  "command_validate c command = (case pc_intent command of
       IGenerate generation_id context_revision input_position profile_revision \<Rightarrow>
         fail_if (ss_context_revision (cp_session c) < context_revision
                  \<or> ss_generation_id (cp_session c) \<noteq> Some generation_id)
           (Invalid ''invalid turn command'')
     | IInterruptOutput generation_id output_epoch \<Rightarrow>
         fail_if (ss_generation_id (cp_session c) \<noteq> Some generation_id \<or> output_epoch = 0
                  \<or> ss_output_epoch (cp_session c) < output_epoch)
           (Invalid ''invalid interrupt output epoch or turn'')
     | IAppend entry context_revision input_position source operation_id \<Rightarrow>
         (if history_get (cp_history c) entry = None then Inl (Invalid ''invalid input command'')
          else (case operation_id of None \<Rightarrow> Inr ()
            | Some i \<Rightarrow>
                fail_if (none_or (\<lambda>op. \<not> op_terminal (op_state op) \<or> op_result_entry op \<noteq> Some entry)
                           (om_get (cp_operations c) i))
                  (Invalid ''invalid result command'')))
     | IDelegationContext operation_id content \<Rightarrow>
         (if none_or (\<lambda>op. op_owner op \<noteq> OwnerDelegation) (om_get (cp_operations c) operation_id)
          then Inl (Invalid ''invalid delegation context command'')
          else each content_validate content)
     | IUpdateProfile revision profile \<Rightarrow>
         fail_if (revision \<le> ss_profile_revision (cp_session c))
           (Invalid ''non-increasing profile revision'')
     | _ \<Rightarrow> Inr ())"

definition call_matches :: "message \<Rightarrow> operation_record \<Rightarrow> string \<Rightarrow> bool" where
  "call_matches m operation name = (case m of
       Assistant items _ \<Rightarrow> (\<exists>item \<in> set items. case item of
           RuntimeToolCall call \<Rightarrow> rtc_name call = name \<and> rtc_id call = cr_call_id (op_origin operation)
         | _ \<Rightarrow> False)
     | _ \<Rightarrow> False)"

definition result_matches :: "history_entry \<Rightarrow> operation_record \<Rightarrow> string \<Rightarrow> bool" where
  "result_matches e operation name = (case he_message e of
       RuntimeTool call_id result_name outcome \<Rightarrow>
         he_origin e = Some (op_origin operation) \<and> name = result_name
         \<and> call_id = cr_call_id (op_origin operation) \<and> op_state operation = outcome_state outcome
     | _ \<Rightarrow> False)"

definition delegation_call_matches :: "message \<Rightarrow> operation_record \<Rightarrow> bool" where
  "delegation_call_matches m operation = (case m of
       Assistant items _ \<Rightarrow> (\<exists>item \<in> set items. case item of
           Delegation request \<Rightarrow> dr_id request = cr_call_id (op_origin operation)
         | _ \<Rightarrow> False)
     | _ \<Rightarrow> False)"

definition delegation_result_matches :: "history_entry \<Rightarrow> operation_record \<Rightarrow> bool" where
  "delegation_result_matches e operation =
     (he_origin e = Some (op_origin operation) \<and> (case he_message e of
         DelegationResult call_id outcome \<Rightarrow>
           call_id = cr_call_id (op_origin operation) \<and> outcome_state outcome = op_state operation
       | _ \<Rightarrow> False))"

text \<open>The body of the loop over \<open>active.operations\<close>.\<close>

definition operation_entry_validate ::
  "checkpoint \<Rightarrow> string \<times> operation_record \<Rightarrow> unit result" where
  "operation_entry_validate c kv = (case kv of (i, operation) \<Rightarrow>
     r_bind (operation_validate operation) (\<lambda>_.
     r_bind (ok_or (Invalid ''missing operation call'')
               (history_get (cp_history c) (op_call_entry operation))) (\<lambda>call_entry.
     checks [
       fail_if (he_origin call_entry \<noteq> Some (op_origin operation))
         (Invalid ''operation origin differs from history''),
       (case op_owner operation of
          OwnerRuntimeTool name \<Rightarrow> checks [
            fail_if (\<not> call_matches (he_message call_entry) operation name)
              (Invalid ''operation call mismatch''),
            (case op_result_entry operation of None \<Rightarrow> Inr ()
             | Some index \<Rightarrow>
                 fail_if (\<not> some_and (\<lambda>e. result_matches e operation name)
                              (history_get (cp_history c) index))
                   (Invalid ''operation outcome mismatch''))]
        | OwnerDelegation \<Rightarrow> checks [
            fail_if (\<not> delegation_call_matches (he_message call_entry) operation)
              (Invalid ''delegation call mismatch''),
            (case op_result_entry operation of None \<Rightarrow> Inr ()
             | Some index \<Rightarrow>
                 fail_if (\<not> some_and (\<lambda>e. delegation_result_matches e operation)
                              (history_get (cp_history c) index))
                   (Invalid ''delegation outcome mismatch''))]
        | OwnerProvider _ \<Rightarrow> Inr ()),
       fail_if (i \<noteq> op_id operation \<or> hist_len (cp_history c) \<le> op_call_entry operation
                \<or> some_and (\<lambda>k. hist_len (cp_history c) \<le> k) (op_result_entry operation))
         (Invalid ''operation history reference mismatch'')])))"

definition validate_operations :: "checkpoint \<Rightarrow> unit result" where
  "validate_operations c = checks [
     each (\<lambda>origin. fail_if (\<not> (\<exists>op \<in> set (om_values (cp_operations c)).
              op_origin op = origin \<and> op_owner op = OwnerDelegation \<and> \<not> op_terminal (op_state op)))
            (Invalid ''pending delegation has no active operation''))
       (pending_delegations (cp_history c)),
     each (\<lambda>(origin, call). fail_if (\<not> (\<exists>op \<in> set (om_values (cp_operations c)).
              op_origin op = origin \<and> \<not> op_terminal (op_state op)
              \<and> op_owner op = OwnerRuntimeTool (rtc_name call)))
            (Invalid ''pending call has no active operation''))
       (pending_calls (cp_history c)),
     each (operation_entry_validate c) (cp_operations c)]"

definition checkpoint_validate :: "checkpoint \<Rightarrow> unit result" where
  "checkpoint_validate c = (let s = cp_session c; limits = ro_limits (cp_options c) in checks [
     run_options_validate (cp_options c),
     fail_if (cp_id c = [] \<or> rc_run_id (cp_context c) = []) (Invalid ''empty checkpoint identity''),
     fail_if ((cp_revision c = 0) \<noteq> (cp_parent_id c = None)) (Invalid ''revision and parent disagree''),
     state_validate (cp_state c),
     fail_if (some_and (\<lambda>b. mb_adapter b = []) (ss_binding s)) (Invalid ''empty model binding adapter''),
     fail_if (state_is_completed (cp_state c)
              \<and> some_and (\<lambda>caps. supports caps ResponseEvents) (ss_capabilities s)
              \<and> (ss_response_status s \<noteq> Some RespCompleted \<or> ss_needs_generation s
                 \<or> ss_generated_input_position s \<noteq> ss_input_position s))
       (Invalid ''completed run lacks current response coverage''),
     history_validate (cp_history c),
     fail_if (hist_len (cp_history c) < ss_response_start s \<or> hist_len (cp_history c) < ss_run_start s)
       (Invalid ''turn start exceeds history''),
     fail_if (ss_id s = []) (Invalid ''empty session identity''),
     fail_if (ss_context_revision s < ss_acknowledged_context_revision s
              \<or> ss_input_position s < ss_generated_input_position s)
       (Invalid ''session acknowledgement exceeds admitted context''),
     command_ids_validate [] (cp_commands c),
     fail_if (lim_max_control_commands limits < length (cp_commands c)
              \<or> lim_max_inflight_operations limits < length (cp_operations c)
              \<or> lim_max_media_streams limits < length (ac_media (cp_active c)))
       (Invalid ''active capacity exceeded''),
     each (command_validate c) (cp_commands c),
     (case ss_media_archive s of None \<Rightarrow> Inr () | Some archive \<Rightarrow> resource_ref_validate archive),
     validate_operations c,
     fail_if (state_is_completed (cp_state c) \<and> (cp_commands c \<noteq> [] \<or> ss_closure s = None))
       (Invalid ''completed run has pending session work''),
     fail_if (state_is_completed (cp_state c)
              \<and> (\<exists>op \<in> set (om_values (cp_operations c)). \<not> op_terminal (op_state op)))
       (Invalid ''completed run has unfinished operations'')])"

lemma command_ids_validate_Inr:
  "command_ids_validate ids cs = Inr u \<longleftrightarrow>
     [] \<notin> pc_id ` set cs \<and> distinct (map pc_id cs) \<and> pc_id ` set cs \<inter> set ids = {}"
  by (induction ids cs rule: command_ids_validate.induct) auto

lemma checkpoint_validateD:
  assumes "checkpoint_validate c = Inr ()"
  shows checkpoint_valid_options: "run_options_validate (cp_options c) = Inr ()"
    and checkpoint_valid_identity: "cp_id c \<noteq> []" "rc_run_id (cp_context c) \<noteq> []"
    and checkpoint_valid_revision: "cp_revision c = 0 \<longleftrightarrow> cp_parent_id c = None"
    and checkpoint_valid_state: "state_validate (cp_state c) = Inr ()"
    and checkpoint_valid_history: "history_validate (cp_history c) = Inr ()"
    and checkpoint_valid_starts: "ss_response_start (cp_session c) \<le> hist_len (cp_history c)"
      "ss_run_start (cp_session c) \<le> hist_len (cp_history c)"
    and checkpoint_valid_acknowledged:
      "ss_acknowledged_context_revision (cp_session c) \<le> ss_context_revision (cp_session c)"
      "ss_generated_input_position (cp_session c) \<le> ss_input_position (cp_session c)"
    and checkpoint_valid_command_ids: "distinct (map pc_id (cp_commands c))" "[] \<notin> pc_id ` set (cp_commands c)"
    and checkpoint_valid_capacity:
      "length (cp_commands c) \<le> lim_max_control_commands (ro_limits (cp_options c))"
      "length (cp_operations c) \<le> lim_max_inflight_operations (ro_limits (cp_options c))"
      "length (ac_media (cp_active c)) \<le> lim_max_media_streams (ro_limits (cp_options c))"
    and checkpoint_valid_commands: "\<forall>command \<in> set (cp_commands c). command_validate c command = Inr ()"
    and checkpoint_valid_operations: "validate_operations c = Inr ()"
    and checkpoint_valid_completed: "state_is_completed (cp_state c) \<Longrightarrow>
      cp_commands c = [] \<and> ss_closure (cp_session c) \<noteq> None
      \<and> (\<forall>op \<in> set (om_values (cp_operations c)). op_terminal (op_state op))"
  using assms
  by (simp_all add: checkpoint_validate_def Let_def r_bind_Inr fail_if_Inr each_Inr
        command_ids_validate_Inr not_less)

lemma validate_operationsD:
  assumes "validate_operations c = Inr ()"
  shows "r \<in> set (pending_delegations (cp_history c)) \<Longrightarrow>
      \<exists>op \<in> set (om_values (cp_operations c)). op_origin op = r \<and> op_owner op = OwnerDelegation
        \<and> \<not> op_terminal (op_state op)"
    and "(r, call) \<in> set (pending_calls (cp_history c)) \<Longrightarrow>
      \<exists>op \<in> set (om_values (cp_operations c)). op_origin op = r
        \<and> op_owner op = OwnerRuntimeTool (rtc_name call) \<and> \<not> op_terminal (op_state op)"
    and "(i, op) \<in> set (cp_operations c) \<Longrightarrow> operation_entry_validate c (i, op) = Inr ()"
proof -
  from assms have *: "\<forall>origin \<in> set (pending_delegations (cp_history c)).
        \<exists>op \<in> set (om_values (cp_operations c)). op_origin op = origin \<and> op_owner op = OwnerDelegation
          \<and> \<not> op_terminal (op_state op)"
    and **: "\<forall>(origin, call) \<in> set (pending_calls (cp_history c)).
        \<exists>op \<in> set (om_values (cp_operations c)). op_origin op = origin \<and> \<not> op_terminal (op_state op)
          \<and> op_owner op = OwnerRuntimeTool (rtc_name call)"
    and ***: "\<forall>kv \<in> set (cp_operations c). operation_entry_validate c kv = Inr ()"
    by (simp_all add: validate_operations_def r_bind_Inr each_Inr fail_if_Inr split_def om_values_def Bex_def Ball_def) blast+
  show "r \<in> set (pending_delegations (cp_history c)) \<Longrightarrow>
      \<exists>op \<in> set (om_values (cp_operations c)). op_origin op = r \<and> op_owner op = OwnerDelegation
        \<and> \<not> op_terminal (op_state op)"
    using * by blast
  show "(r, call) \<in> set (pending_calls (cp_history c)) \<Longrightarrow>
      \<exists>op \<in> set (om_values (cp_operations c)). op_origin op = r
        \<and> op_owner op = OwnerRuntimeTool (rtc_name call) \<and> \<not> op_terminal (op_state op)"
    using ** by blast
  show "(i, op) \<in> set (cp_operations c) \<Longrightarrow> operation_entry_validate c (i, op) = Inr ()"
    using *** by blast
qed

lemma operation_entry_validateD:
  assumes "operation_entry_validate c (i, op) = Inr ()"
  shows "operation_validate op = Inr ()" and "i = op_id op"
    and "\<exists>e. history_get (cp_history c) (op_call_entry op) = Some e \<and> he_origin e = Some (op_origin op)"
    and "op_result_entry op = Some k \<Longrightarrow> k < hist_len (cp_history c)"
  using assms
  by (auto simp: operation_entry_validate_def r_bind_Inr ok_or_Inr checks_Inr fail_if_Inr)

text \<open>What the loop says of one operation, over the entries it points at.\<close>

lemma call_item_iff:
  "(\<exists>item \<in> A. case item of RuntimeToolCall call \<Rightarrow> P call | _ \<Rightarrow> False) \<longleftrightarrow> (\<exists>call. RuntimeToolCall call \<in> A \<and> P call)"
  (is "?l \<longleftrightarrow> ?r")
proof
  assume ?l
  then obtain item where "item \<in> A" "case item of RuntimeToolCall call \<Rightarrow> P call | _ \<Rightarrow> False" by blast
  then show ?r by (cases item) auto
next
  assume ?r
  then obtain call where "RuntimeToolCall call \<in> A" "P call" by blast
  then show ?l by (intro bexI [of _ "RuntimeToolCall call"]) simp_all
qed

lemma delegation_item_iff:
  "(\<exists>item \<in> A. case item of Delegation request \<Rightarrow> P request | _ \<Rightarrow> False) \<longleftrightarrow> (\<exists>request. Delegation request \<in> A \<and> P request)"
  (is "?l \<longleftrightarrow> ?r")
proof
  assume ?l
  then obtain item where "item \<in> A" "case item of Delegation request \<Rightarrow> P request | _ \<Rightarrow> False" by blast
  then show ?r by (cases item) auto
next
  assume ?r
  then obtain request where "Delegation request \<in> A" "P request" by blast
  then show ?l by (intro bexI [of _ "Delegation request"]) simp_all
qed

lemma call_matches_iff:
  "call_matches m op name \<longleftrightarrow> (\<exists>items data call. m = Assistant items data \<and> RuntimeToolCall call \<in> set items
     \<and> rtc_name call = name \<and> rtc_id call = cr_call_id (op_origin op))"
  by (cases m) (simp_all add: call_matches_def call_item_iff)

lemma delegation_call_matches_iff:
  "delegation_call_matches m op \<longleftrightarrow> (\<exists>items data request. m = Assistant items data \<and> Delegation request \<in> set items
     \<and> dr_id request = cr_call_id (op_origin op))"
  by (cases m) (simp_all add: delegation_call_matches_def delegation_item_iff)

lemma operation_entry_validate_call:
  assumes "operation_entry_validate c (i, op) = Inr ()"
  shows "i = op_id op
      \<and> (\<exists>e. history_get (cp_history c) (op_call_entry op) = Some e \<and> he_origin e = Some (op_origin op)
           \<and> (case op_owner op of
               OwnerRuntimeTool name \<Rightarrow> \<exists>items data call. he_message e = Assistant items data \<and> RuntimeToolCall call \<in> set items
                 \<and> rtc_name call = name \<and> rtc_id call = cr_call_id (op_origin op)
             | OwnerDelegation \<Rightarrow> \<exists>items data request. he_message e = Assistant items data \<and> Delegation request \<in> set items
                 \<and> dr_id request = cr_call_id (op_origin op)
             | OwnerProvider _ \<Rightarrow> True))
      \<and> (case op_result_entry op of
          None \<Rightarrow> \<not> op_terminal (op_state op)
        | Some k \<Rightarrow> op_terminal (op_state op) \<and> (case op_owner op of
            OwnerRuntimeTool name \<Rightarrow> \<exists>e outcome. history_get (cp_history c) k = Some e \<and> he_origin e = Some (op_origin op)
              \<and> he_message e = RuntimeTool (cr_call_id (op_origin op)) name outcome \<and> op_state op = outcome_state outcome
          | OwnerDelegation \<Rightarrow> \<exists>e outcome. history_get (cp_history c) k = Some e \<and> he_origin e = Some (op_origin op)
              \<and> he_message e = DelegationResult (cr_call_id (op_origin op)) outcome \<and> op_state op = outcome_state outcome
          | OwnerProvider _ \<Rightarrow> k < hist_len (cp_history c)))"
proof -
  obtain e where e: "history_get (cp_history c) (op_call_entry op) = Some e" "he_origin e = Some (op_origin op)"
    using operation_entry_validateD(3) [OF assms] by blast
  have valid: "op_terminal (op_state op) \<longleftrightarrow> op_result_entry op \<noteq> None"
    using operation_entry_validateD(1) [OF assms] by (simp add: operation_validate_def checks_Inr fail_if_Inr r_bind_Inr)
  show ?thesis
    using assms e valid operation_entry_validateD(2,4) [OF assms]
    by (cases "op_owner op"; cases "op_result_entry op")
      (auto simp: operation_entry_validate_def r_bind_Inr ok_or_Inr checks_Inr fail_if_Inr call_matches_iff
        delegation_call_matches_iff some_and_def result_matches_def delegation_result_matches_def
        split: option.splits message.splits)
qed

section \<open>Tickets and settled outcomes\<close>

record suspension_ticket =
  tk_run_id :: string
  tk_checkpoint_id :: string
  tk_revision :: u64
  tk_suspension :: suspension

definition checkpoint_ticket :: "checkpoint \<Rightarrow> suspension \<Rightarrow> suspension_ticket" where
  "checkpoint_ticket c suspension = \<lparr>tk_run_id = rc_run_id (cp_context c), tk_checkpoint_id = cp_id c,
     tk_revision = cp_revision c, tk_suspension = suspension\<rparr>"

definition ticket_from_checkpoint :: "checkpoint \<Rightarrow> suspension_ticket result" where
  "ticket_from_checkpoint c = r_bind (checkpoint_validate c) (\<lambda>_.
     case cp_state c of
       StSuspended suspension \<Rightarrow> Inr (checkpoint_ticket c suspension)
     | _ \<Rightarrow> Inl (Resume NotSuspended))"

definition ticket_validate :: "suspension_ticket \<Rightarrow> unit result" where
  "ticket_validate t =
     (if tk_run_id t = [] \<or> tk_checkpoint_id t = [] then Inl (Resume InvalidTicketIdentity)
      else suspension_validate (tk_suspension t))"

definition ticket_check :: "suspension_ticket \<Rightarrow> checkpoint \<Rightarrow> unit result" where
  "ticket_check t c = checks [
     ticket_validate t,
     checkpoint_validate c,
     fail_if (ticket_from_checkpoint c \<noteq> Inr t)
       (Resume (StaleTicket (tk_run_id t) (tk_revision t) (cp_revision c)))]"

datatype run_outcome =
  OutCompleted "content list"
| OutSuspended suspension_ticket
| OutFailed failure
| OutLimited limit_reason
| OutCancelled

definition run_completion_new :: "checkpoint \<Rightarrow> checkpoint result" where
  "run_completion_new c = r_bind (checkpoint_validate c) (\<lambda>_.
     if state_active (cp_state c)
     then Inl (Protocol ''invocation settled with an active checkpoint'') else Inr c)"

text \<open>\<open>None\<close> is the \<open>unreachable!\<close> of an active checkpoint.\<close>

fun run_completion_outcome :: "checkpoint \<Rightarrow> run_outcome option" where
  "run_completion_outcome c = (case cp_state c of
       StCancelled \<Rightarrow> Some OutCancelled
     | StCompleted content \<Rightarrow> Some (OutCompleted content)
     | StFailed error \<Rightarrow> Some (OutFailed error)
     | StLimited reason \<Rightarrow> Some (OutLimited reason)
     | StSuspended suspension \<Rightarrow> Some (OutSuspended (checkpoint_ticket c suspension))
     | StRunning \<Rightarrow> None)"

lemma ticket_check_iff:
  "ticket_check t c = Inr () \<longleftrightarrow>
     checkpoint_validate c = Inr () \<and> cp_state c = StSuspended (tk_suspension t)
     \<and> tk_run_id t = rc_run_id (cp_context c) \<and> tk_checkpoint_id t = cp_id c
     \<and> tk_revision t = cp_revision c"
proof
  assume "ticket_check t c = Inr ()"
  then show "checkpoint_validate c = Inr () \<and> cp_state c = StSuspended (tk_suspension t)
     \<and> tk_run_id t = rc_run_id (cp_context c) \<and> tk_checkpoint_id t = cp_id c
     \<and> tk_revision t = cp_revision c"
    by (auto simp: ticket_check_def checks_Inr fail_if_Inr ticket_from_checkpoint_def
          r_bind_Inr checkpoint_ticket_def split: run_state.splits)
next
  assume R: "checkpoint_validate c = Inr () \<and> cp_state c = StSuspended (tk_suspension t)
     \<and> tk_run_id t = rc_run_id (cp_context c) \<and> tk_checkpoint_id t = cp_id c
     \<and> tk_revision t = cp_revision c"
  then have "ticket_from_checkpoint c = Inr t"
    by (simp add: ticket_from_checkpoint_def checkpoint_ticket_def)
  moreover have "ticket_validate t = Inr ()"
    using R checkpoint_valid_identity [of c] checkpoint_valid_state [of c]
    by (simp add: ticket_validate_def)
  ultimately show "ticket_check t c = Inr ()"
    using R by (simp add: ticket_check_def)
qed

end
