(* ===== verification/Commit.thy ===== *)
theory Commit
  imports Run_State
begin

text \<open>
  One checkpoint write: the durable core of a checkpoint (\<open>wire/mod.rs\<close>), the history delta
  (\<open>storage/mod.rs\<close>) and \<open>Commit\<close> with its validation against the previous head
  (\<open>storage/commit.rs\<close>). The lemmas read the protocol off an accepted commit: the revision follows
  the previous one, options and identities are frozen, counters only grow, a terminal run never
  advances, operations keep their identity and their outcome, and the entries of the delta are the
  ones the digest of the new history covers.
\<close>

section \<open>The durable core\<close>

record checkpoint_core =
  co_options :: run_options
  co_id :: string
  co_parent_id :: "string option"
  co_revision :: u64
  co_context :: run_context
  co_state :: run_state
  co_active :: active_state
  co_metrics :: metrics
  co_fact :: fact
  co_history_count :: nat
  co_history_digest :: bytes

definition core_of :: "checkpoint \<Rightarrow> checkpoint_core" where
  "core_of c = \<lparr>co_options = cp_options c, co_id = cp_id c, co_parent_id = cp_parent_id c,
     co_revision = cp_revision c, co_context = cp_context c, co_state = cp_state c,
     co_active = cp_active c, co_metrics = cp_metrics c, co_fact = cp_fact c,
     co_history_count = hist_len (cp_history c), co_history_digest = hist_digest (cp_history c)\<rparr>"

definition checkpoint_from_core :: "checkpoint_core \<Rightarrow> history \<Rightarrow> checkpoint" where
  "checkpoint_from_core co h = \<lparr>cp_options = co_options co, cp_id = co_id co,
     cp_parent_id = co_parent_id co, cp_revision = co_revision co, cp_context = co_context co,
     cp_history = h, cp_state = co_state co, cp_active = co_active co, cp_metrics = co_metrics co,
     cp_fact = co_fact co\<rparr>"

definition with_history :: "checkpoint_core \<Rightarrow> history \<Rightarrow> checkpoint result" where
  "with_history co h =
     (if co_history_count co \<noteq> hist_len h \<or> co_history_digest co \<noteq> hist_digest h
      then Inl (Storage ''history integrity mismatch'')
      else r_bind (checkpoint_validate (checkpoint_from_core co h))
             (\<lambda>_. Inr (checkpoint_from_core co h)))"

text \<open>
  The JSON encoding of a core is a function of the serialisation library, an extra field next to
  those of \<open>hashing\<close>. \<open>hex\<close> is the \<open>{:x}\<close> rendering of a digest.
\<close>

record externals = hashing +
  ext_core_json :: "checkpoint_core \<Rightarrow> string + bytes"

definition hex_digit :: "nat \<Rightarrow> char" where
  "hex_digit n = (if n < 10 then char_of (48 + n) else char_of (87 + n))"

definition hex :: "bytes \<Rightarrow> string" where
  "hex bs = concat (map (\<lambda>b. [hex_digit (unat b div 16), hex_digit (unat b mod 16)]) bs)"

definition core_digest :: "externals \<Rightarrow> checkpoint_core \<Rightarrow> string result" where
  "core_digest X co = (case ext_core_json X co of
       Inl m \<Rightarrow> Inl (Invalid m)
     | Inr encoded \<Rightarrow> Inr (hex (hash_sha256 X encoded)))"

section \<open>Commits\<close>

datatype history_delta =
  Initial "history_entry list"
| Append "history_entry list"
| Replace "history_entry list"
| Unchanged

text \<open>Instants of the monotonic clock are natural numbers.\<close>

record commit =
  cm_checkpoint :: checkpoint
  cm_history :: history_delta
  cm_deadline :: "nat option"

definition commit_new :: "checkpoint \<Rightarrow> history_delta \<Rightarrow> commit" where
  "commit_new c delta = \<lparr>cm_checkpoint = c, cm_history = delta, cm_deadline = None\<rparr>"

definition check_deadline :: "commit \<Rightarrow> nat \<Rightarrow> unit result" where
  "check_deadline c now = fail_if (some_and (\<lambda>d. d \<le> now) (cm_deadline c)) Deadline"

definition expected_revision :: "commit \<Rightarrow> u64 option" where
  "expected_revision c = u64_checked_sub (cp_revision (cm_checkpoint c)) 1"

definition commit_core :: "commit \<Rightarrow> checkpoint_core" where
  "commit_core c = core_of (cm_checkpoint c)"

definition commit_digest :: "externals \<Rightarrow> commit \<Rightarrow> string result" where
  "commit_digest X c = core_digest X (commit_core c)"

section \<open>Validation against the previous head\<close>

abbreviation co_session :: "checkpoint_core \<Rightarrow> session_snapshot" where
  "co_session co \<equiv> ac_session (co_active co)"

definition context_unchanged :: "run_context \<Rightarrow> run_context \<Rightarrow> bool" where
  "context_unchanged p n \<longleftrightarrow> rc_started_at_ms p = rc_started_at_ms n
     \<and> rc_deadline_at_ms p = rc_deadline_at_ms n
     \<and> rc_parent_run_id p = rc_parent_run_id n
     \<and> rc_parent_runtime_tool_call_id p = rc_parent_runtime_tool_call_id n"

definition run_monotone :: "checkpoint_core \<Rightarrow> checkpoint_core \<Rightarrow> bool" where
  "run_monotone p n \<longleftrightarrow> ss_id (co_session n) = ss_id (co_session p)
     \<and> ss_output_epoch (co_session p) \<le> ss_output_epoch (co_session n)
     \<and> ss_profile_revision (co_session p) \<le> ss_profile_revision (co_session n)
     \<and> ss_context_revision (co_session p) \<le> ss_context_revision (co_session n)
     \<and> ss_acknowledged_context_revision (co_session p) \<le> ss_acknowledged_context_revision (co_session n)
     \<and> ss_input_position (co_session p) \<le> ss_input_position (co_session n)
     \<and> ss_generated_input_position (co_session p) \<le> ss_generated_input_position (co_session n)
     \<and> met_generation_requests (co_metrics p) \<le> met_generation_requests (co_metrics n)
     \<and> met_runtime_tool_calls (co_metrics p) \<le> met_runtime_tool_calls (co_metrics n)"

definition operation_advances :: "operation_record \<Rightarrow> operation_record option \<Rightarrow> unit result" where
  "operation_advances old current = (case current of
       Some new \<Rightarrow> checks [
         fail_if (op_origin old \<noteq> op_origin new \<or> op_owner old \<noteq> op_owner new
                  \<or> op_call_entry old \<noteq> op_call_entry new)
           (Storage ''operation identity changed after admission''),
         fail_if (op_terminal (op_state old) \<and> old \<noteq> new) (Storage ''terminal operation changed''),
         fail_if (some_and (\<lambda>sequence. none_or (\<lambda>n. n < sequence) (op_last_sequence new))
                    (op_last_sequence old))
           (Storage ''operation cursor moved backwards'')]
     | None \<Rightarrow> fail_if (\<not> op_terminal (op_state old)) (Storage ''unfinished operation removed''))"

definition command_advances :: "pending_command list \<Rightarrow> pending_command \<Rightarrow> unit result" where
  "command_advances commands old =
     fail_if (some_and (\<lambda>current. pc_intent old \<noteq> pc_intent current \<or> pc_sent old \<and> \<not> pc_sent current)
                (find (\<lambda>command. pc_id command = pc_id old) commands))
       (Storage ''pending command changed after admission'')"

fun delta_replaces :: "history_delta \<Rightarrow> bool" where
  "delta_replaces (Replace _) = True"
| "delta_replaces _ = False"

fun fact_is_rewrite :: "fact \<Rightarrow> bool" where
  "fact_is_rewrite (FHistoryRewrite _) = True"
| "fact_is_rewrite _ = False"

text \<open>The block under \<open>if let Some(previous) = previous\<close>.\<close>

definition follows :: "history_delta \<Rightarrow> checkpoint_core \<Rightarrow> checkpoint_core \<Rightarrow> unit result" where
  "follows delta p n = checks [
     fail_if (\<not> context_unchanged (co_context p) (co_context n)) (Storage ''immutable run context changed''),
     fail_if (state_terminal (co_state p)) (Storage ''terminal run cannot advance''),
     fail_if (state_is_suspended (co_state p) \<and> co_fact n \<noteq> FAttached)
       (Storage ''suspended run requires attach''),
     fail_if (\<not> run_monotone p n) (Storage ''non-monotonic run state''),
     each (\<lambda>(i, old). operation_advances old (om_get (ac_operations (co_active n)) i))
       (ac_operations (co_active p)),
     each (command_advances (ac_commands (co_active n))) (ac_commands (co_active p)),
     fail_if (delta_replaces delta
              \<and> (ac_operations (co_active p) \<noteq> [] \<or> ac_commands (co_active p) \<noteq> []
                 \<or> ac_media (co_active p) \<noteq> [] \<or> \<not> fact_is_rewrite (co_fact n)))
       (Storage ''history rewrite crosses active work'')]"

text \<open>The count, the digest and the entries the delta starts from.\<close>

fun delta_base ::
  "history_delta \<Rightarrow> checkpoint_core option \<Rightarrow> (nat \<times> bytes \<times> history_entry list) result" where
  "delta_base (Initial ms) None = Inr (0, zero_digest, ms)"
| "delta_base (Replace ms) (Some _) = Inr (0, zero_digest, ms)"
| "delta_base (Append ms) (Some p) =
     (if ms \<noteq> [] then Inr (co_history_count p, co_history_digest p, ms)
      else Inl (Storage ''invalid history change''))"
| "delta_base Unchanged (Some p) = Inr (co_history_count p, co_history_digest p, [])"
| "delta_base _ _ = Inl (Storage ''invalid history change'')"

fun extend_digest ::
  "'x hashing_scheme \<Rightarrow> nat \<times> bytes \<Rightarrow> history_entry list \<Rightarrow> (nat \<times> bytes) result" where
  "extend_digest H (count, digest) [] = Inr (count, digest)"
| "extend_digest H (count, digest) (m # ms) =
     r_bind (entry_validate m) (\<lambda>_.
     r_bind (append_digest H digest m) (\<lambda>digest'. extend_digest H (count + 1, digest') ms))"

definition delta_validate ::
  "'x hashing_scheme \<Rightarrow> history_delta \<Rightarrow> checkpoint_core option \<Rightarrow> checkpoint_core \<Rightarrow> unit result" where
  "delta_validate H delta previous next =
     r_bind (delta_base delta previous) (\<lambda>(count, digest, ms).
     r_bind (extend_digest H (count, digest) ms) (\<lambda>(count', digest').
       fail_if (count' \<noteq> co_history_count next \<or> digest' \<noteq> co_history_digest next)
         (Storage ''history delta mismatch'')))"

definition validate_against ::
  "'x hashing_scheme \<Rightarrow> commit \<Rightarrow> checkpoint_core option \<Rightarrow> unit result" where
  "validate_against H c previous = (let next = commit_core c; actual = map_option co_revision previous in
     checks [
       run_options_validate (co_options next),
       fail_if (actual \<noteq> expected_revision c) (Conflict (expected_revision c) actual),
       fail_if (some_and (\<lambda>p. co_options p \<noteq> co_options next) previous)
         (Storage ''run options changed after start''),
       fail_if (map_option co_id previous \<noteq> co_parent_id next
                \<or> some_and (\<lambda>p. rc_run_id (co_context p) \<noteq> rc_run_id (co_context next)) previous)
         (Storage ''checkpoint parent/run mismatch''),
       (case previous of None \<Rightarrow> Inr () | Some p \<Rightarrow> follows (cm_history c) p next),
       delta_validate H (cm_history c) previous next,
       checkpoint_validate (cm_checkpoint c)])"

section \<open>What an accepted commit guarantees\<close>

lemma core_of_simps [simp]:
  "co_options (core_of c) = cp_options c" "co_id (core_of c) = cp_id c"
  "co_parent_id (core_of c) = cp_parent_id c" "co_revision (core_of c) = cp_revision c"
  "co_context (core_of c) = cp_context c" "co_state (core_of c) = cp_state c"
  "co_active (core_of c) = cp_active c" "co_metrics (core_of c) = cp_metrics c"
  "co_fact (core_of c) = cp_fact c" "co_history_count (core_of c) = hist_len (cp_history c)"
  "co_history_digest (core_of c) = hist_digest (cp_history c)"
  by (simp_all add: core_of_def)

lemma checkpoint_from_core_of [simp]: "checkpoint_from_core (core_of c) (cp_history c) = c"
  by (simp add: checkpoint_from_core_def core_of_def)

lemma core_of_inject:
  "core_of a = core_of b \<Longrightarrow> cp_history a = cp_history b \<Longrightarrow> a = b"
  using checkpoint_from_core_of by metis

lemma with_history_core_of:
  "checkpoint_validate c = Inr () \<Longrightarrow> with_history (core_of c) (cp_history c) = Inr c"
  by (simp add: with_history_def)

lemma extend_digest_Inr:
  "extend_digest H (n, d) ms = Inr (n', d') \<longleftrightarrow>
     (\<forall>m \<in> set ms. entry_validate m = Inr ()) \<and> n' = n + length ms \<and> digest_chain H d ms = Inr d'"
  by (induction ms arbitrary: n d) (auto simp: r_bind_Inr)

lemma validate_againstD:
  assumes "validate_against H c previous = Inr ()"
  shows accepted_revision: "map_option co_revision previous = expected_revision c"
    and accepted_options: "previous = Some p \<Longrightarrow> co_options p = cp_options (cm_checkpoint c)"
    and accepted_parent: "cp_parent_id (cm_checkpoint c) = map_option co_id previous"
    and accepted_run: "previous = Some p \<Longrightarrow>
      rc_run_id (co_context p) = rc_run_id (cp_context (cm_checkpoint c))"
    and accepted_follows: "previous = Some p \<Longrightarrow> follows (cm_history c) p (commit_core c) = Inr ()"
    and accepted_delta: "delta_validate H (cm_history c) previous (commit_core c) = Inr ()"
    and accepted_valid: "checkpoint_validate (cm_checkpoint c) = Inr ()"
  using assms
  by (simp_all add: validate_against_def Let_def r_bind_Inr fail_if_Inr commit_core_def)

lemma followsD:
  assumes "follows delta p n = Inr ()"
  shows follows_context: "context_unchanged (co_context p) (co_context n)"
    and follows_open: "\<not> state_terminal (co_state p)"
    and follows_attach: "state_is_suspended (co_state p) \<Longrightarrow> co_fact n = FAttached"
    and follows_monotone: "run_monotone p n"
    and follows_operations: "(i, old) \<in> set (ac_operations (co_active p)) \<Longrightarrow>
      operation_advances old (om_get (ac_operations (co_active n)) i) = Inr ()"
    and follows_commands: "cmd \<in> set (ac_commands (co_active p)) \<Longrightarrow>
      command_advances (ac_commands (co_active n)) cmd = Inr ()"
    and follows_rewrite: "delta_replaces delta \<Longrightarrow>
      ac_operations (co_active p) = [] \<and> ac_commands (co_active p) = [] \<and> ac_media (co_active p) = []
      \<and> fact_is_rewrite (co_fact n)"
  using assms by (auto simp: follows_def r_bind_Inr fail_if_Inr each_Inr)

lemma operation_advancesD:
  assumes "operation_advances old current = Inr ()"
  shows "current = None \<Longrightarrow> op_terminal (op_state old)"
    and "current = Some new \<Longrightarrow> op_origin new = op_origin old \<and> op_owner new = op_owner old
           \<and> op_call_entry new = op_call_entry old"
    and "current = Some new \<Longrightarrow> op_terminal (op_state old) \<Longrightarrow> new = old"
    and "current = Some new \<Longrightarrow> op_last_sequence old = Some s \<Longrightarrow>
           \<exists>s'. op_last_sequence new = Some s' \<and> s \<le> s'"
  using assms
  by (auto simp: operation_advances_def r_bind_Inr fail_if_Inr none_or_def not_less split: option.splits)

text \<open>The revision of an accepted commit is the successor, and it never wraps.\<close>

lemma accepted_revision_step:
  assumes "validate_against H c (Some p) = Inr ()"
  shows "cp_revision (cm_checkpoint c) = co_revision p + 1"
    and "unat (cp_revision (cm_checkpoint c)) = unat (co_revision p) + 1"
proof -
  have r: "u64_checked_sub (cp_revision (cm_checkpoint c)) 1 = Some (co_revision p)"
    using accepted_revision [OF assms] by (simp add: expected_revision_def)
  then show s: "cp_revision (cm_checkpoint c) = co_revision p + 1"
    by (auto simp: u64_checked_sub_one)
  have "co_revision p + 1 \<noteq> 0" using r s by (simp add: u64_checked_sub_one)
  then show "unat (cp_revision (cm_checkpoint c)) = unat (co_revision p) + 1"
    unfolding s by (rule unat_u64_add_one)
qed

lemma accepted_initial:
  assumes "validate_against H c None = Inr ()"
  shows "cp_revision (cm_checkpoint c) = 0" and "\<exists>ms. cm_history c = Initial ms"
proof -
  have "u64_checked_sub (cp_revision (cm_checkpoint c)) 1 = None"
    using accepted_revision [OF assms] by (simp add: expected_revision_def)
  then show "cp_revision (cm_checkpoint c) = 0"
    by (metis not_None_eq diff_add_cancel u64_checked_sub_one)
  show "\<exists>ms. cm_history c = Initial ms"
    using accepted_delta [OF assms]
    by (cases "cm_history c") (auto simp: delta_validate_def)
qed

text \<open>The entries a delta leads to from the entries of the previous head.\<close>

fun delta_apply :: "history_delta \<Rightarrow> history_entry list \<Rightarrow> history_entry list" where
  "delta_apply (Initial ms) es = ms"
| "delta_apply (Append ms) es = es @ ms"
| "delta_apply (Replace ms) es = ms"
| "delta_apply Unchanged es = es"

lemma accepted_history:
  assumes acc: "validate_against H c (Some (core_of p)) = Inr ()"
    and ok: "history_ok H (cp_history p)"
  shows "digest_chain H zero_digest (delta_apply (cm_history c) (history_entries (cp_history p)))
           = Inr (hist_digest (cp_history (cm_checkpoint c)))"
    and "length (delta_apply (cm_history c) (history_entries (cp_history p)))
           = hist_len (cp_history (cm_checkpoint c))"
  using accepted_delta [OF acc] history_ok_digest [OF ok] history_ok_len [OF ok]
  by (cases "cm_history c";
      auto simp: delta_validate_def r_bind_Inr extend_digest_Inr fail_if_Inr commit_core_def
        digest_chain_append split: if_splits prod.splits)+

lemma accepted_history_initial:
  assumes acc: "validate_against H c None = Inr ()"
  shows "digest_chain H zero_digest (delta_apply (cm_history c) es)
           = Inr (hist_digest (cp_history (cm_checkpoint c)))"
    and "length (delta_apply (cm_history c) es) = hist_len (cp_history (cm_checkpoint c))"
  using accepted_delta [OF acc]
  by (cases "cm_history c";
      auto simp: delta_validate_def r_bind_Inr extend_digest_Inr fail_if_Inr commit_core_def
        split: if_splits prod.splits)+

end
