(* ===== verification/Tool_Catalog.thy ===== *)
theory Tool_Catalog
  imports Run_State
begin

text \<open>
  The catalog of runtime tools a run works with and the order its calls are admitted in: the texts
  of errors (\<open>zhir-core/src/error.rs\<close>) and the failures they become (\<open>zhir-kernel/src/failure.rs\<close>),
  the selection of a catalog and the binding of a call (\<open>catalog.rs\<close>, \<open>defaults/catalog.rs\<close>), and
  the scheduling policy (\<open>defaults/scheduling.rs\<close>). The locale \<open>scheduling_policy\<close> states what an
  admission promises; the default policy is an instance.
\<close>

section \<open>Error texts\<close>

text \<open>\<open>debug\<close> is \<open>str\<close>'s \<open>Debug\<close> (quotes and escapes); the derived formats are written out.\<close>

definition debug_option :: "u64 option \<Rightarrow> string" where
  "debug_option x = (case x of None \<Rightarrow> ''None'' | Some n \<Rightarrow> ''Some('' @ dec (unat n) @ '')'')"

fun join_with :: "string \<Rightarrow> string list \<Rightarrow> string" where
  "join_with sep [] = []"
| "join_with sep [x] = x"
| "join_with sep (x # xs) = x @ sep @ join_with sep xs"

definition debug_strings :: "(string \<Rightarrow> string) \<Rightarrow> string list \<Rightarrow> string" where
  "debug_strings debug xs = ''['' @ join_with '', '' (map debug xs) @ '']''"

definition debug_failure :: "(string \<Rightarrow> string) \<Rightarrow> failure \<Rightarrow> string" where
  "debug_failure debug f = ''Failure { code: '' @ debug (failure_code f)
     @ '', message: '' @ debug (failure_message f)
     @ '', retryable: '' @ (if failure_retryable f then ''true'' else ''false'') @ '' }''"

fun resume_error_text :: "resume_error \<Rightarrow> string" where
  "resume_error_text StoreRequired = ''ticket resume requires a configured store''"
| "resume_error_text (RunNotFound run_id) = ''run not found: '' @ run_id"
| "resume_error_text (StaleTicket _ _ _) = ''suspension ticket no longer matches the stored checkpoint''"
| "resume_error_text InvalidTicketIdentity = ''empty suspension ticket identity''"
| "resume_error_text NotSuspended = ''resume requires a suspended checkpoint''"
| "resume_error_text NotActive = ''continue requires an active checkpoint''"
| "resume_error_text SelectorMismatch = ''suspension selector mismatch''"

fun catalog_error_text :: "(string \<Rightarrow> string) \<Rightarrow> catalog_error \<Rightarrow> string" where
  "catalog_error_text debug EmptyName = ''empty runtime tool name''"
| "catalog_error_text debug (Duplicate name sources) =
     ''duplicate runtime tool '' @ name @ '' in '' @ debug_strings debug sources"
| "catalog_error_text debug (ToolNotFound name) = ''runtime tool not found: '' @ name"
| "catalog_error_text debug (NotSelected name) = ''runtime tool is not selected: '' @ name"
| "catalog_error_text debug (BindingChanged name) = ''catalog binding changed specification: '' @ name"

fun validation_error_text :: "validation_error \<Rightarrow> string" where
  "validation_error_text (SchemaError path message) = ''invalid schema at '' @ path @ '': '' @ message"
| "validation_error_text (ValueError path _ message) = ''schema validation at '' @ path @ '': '' @ message"
| "validation_error_text InputKind = ''tool input kind mismatch''"
| "validation_error_text (DecodeError path message) = ''JSON decoding at '' @ path @ '': '' @ message"

fun context_error_text :: "context_error \<Rightarrow> string" where
  "context_error_text EmptyKey = ''empty context key''"
| "context_error_text (MissingKey key) = ''missing context value: '' @ key"
| "context_error_text (KeyDecode key message) = ''context value '' @ key @ '': '' @ message"
| "context_error_text (KeyEncode key message) = ''context serialization '' @ key @ '': '' @ message"

fun resource_error_text :: "resource_error \<Rightarrow> string" where
  "resource_error_text (ResourceNotFound i) = ''resource not found: '' @ i"
| "resource_error_text (ResourceConflict i) = ''resource key has different contents: '' @ i"
| "resource_error_text (ResourceInvalid i message) = ''invalid resource '' @ i @ '': '' @ message"
| "resource_error_text (ResourceIo operation message) = ''resource '' @ operation @ '' failed: '' @ message"

fun error_text :: "(string \<Rightarrow> string) \<Rightarrow> error \<Rightarrow> string" where
  "error_text debug (Resume err) = resume_error_text err"
| "error_text debug (Catalog err) = catalog_error_text debug err"
| "error_text debug (Validation err) = validation_error_text err"
| "error_text debug (Context err) = context_error_text err"
| "error_text debug (Resource err) = resource_error_text err"
| "error_text debug (Invalid s) = ''invalid request: '' @ s"
| "error_text debug (ModelError f) = ''model: '' @ debug_failure debug f"
| "error_text debug (RuntimeToolError f) = ''tool: '' @ debug_failure debug f"
| "error_text debug (Uncertain s) = ''external outcome is uncertain: '' @ s"
| "error_text debug (Protocol s) = ''protocol: '' @ s"
| "error_text debug (Storage s) = ''storage: '' @ s"
| "error_text debug (Conflict expected actual) = ''revision conflict: expected ''
     @ debug_option expected @ '', actual '' @ debug_option actual"
| "error_text debug Deadline = ''operation deadline reached''"
| "error_text debug Cancelled = ''operation cancelled''"

definition failure_of :: "(string \<Rightarrow> string) \<Rightarrow> error \<Rightarrow> failure" where
  "failure_of debug err = (case err of
       ModelError f \<Rightarrow> f
     | RuntimeToolError f \<Rightarrow> f
     | Invalid s \<Rightarrow> failure_new ''invalid_arguments'' s
     | Validation _ \<Rightarrow> failure_new ''invalid_arguments'' (error_text debug err)
     | Catalog _ \<Rightarrow> failure_new ''invalid_arguments'' (error_text debug err)
     | Context _ \<Rightarrow> failure_new ''invalid_arguments'' (error_text debug err)
     | Resume _ \<Rightarrow> failure_new ''resume'' (error_text debug err)
     | Protocol s \<Rightarrow> failure_new ''protocol'' s
     | Deadline \<Rightarrow> failure_new ''deadline'' ''operation deadline reached''
     | Cancelled \<Rightarrow> failure_new ''cancelled'' ''operation cancelled''
     | _ \<Rightarrow> failure_new ''infrastructure'' (error_text debug err))"

section \<open>The selected catalog\<close>

type_synonym catalog = "(string, runtime_tool_spec) omap"

text \<open>The loop over the specifications the provider's catalog lists.\<close>

fun catalog_collect :: "catalog \<Rightarrow> runtime_tool_spec list \<Rightarrow> catalog result" where
  "catalog_collect m [] = Inr m"
| "catalog_collect m (s # ss) =
     (if rts_name s = [] then Inl (Catalog EmptyName)
      else if om_contains m (rts_name s) then Inl (Catalog (Duplicate (rts_name s) [''catalog'']))
      else catalog_collect (om_insert (rts_name s) s m) ss)"

definition select_catalog :: "runtime_tool_selection \<Rightarrow> runtime_tool_spec list \<Rightarrow> catalog result" where
  "select_catalog selection specs = r_bind (selection_validate selection) (\<lambda>_.
     r_bind (catalog_collect [] specs) (\<lambda>m. case selection of
         SelectAll \<Rightarrow> Inr m
       | SelectNone \<Rightarrow> Inr []
       | SelectOnly names \<Rightarrow>
           r_bind (each (\<lambda>name. fail_if (\<not> om_contains m name) (Catalog (ToolNotFound name))) names)
             (\<lambda>_. Inr (om_retain (\<lambda>name _. name \<in> set names) m))))"

text \<open>\<open>bind\<close>: \<open>inner\<close> is the provider's catalog; a binding is its specification.\<close>

definition catalog_bind ::
  "(runtime_tool_call \<Rightarrow> runtime_tool_spec result) \<Rightarrow> catalog \<Rightarrow> runtime_tool_call \<Rightarrow> runtime_tool_spec result" where
  "catalog_bind inner m call = r_bind (runtime_tool_call_validate call) (\<lambda>_.
     r_bind (ok_or (Catalog (NotSelected (rtc_name call))) (om_get m (rtc_name call))) (\<lambda>spec.
     r_bind (inner call) (\<lambda>bound.
       if bound \<noteq> spec then Inl (Catalog (BindingChanged (rtc_name call))) else Inr bound)))"

definition empty_specs :: "runtime_tool_spec list" where
  "empty_specs = []"

definition empty_bind :: "runtime_tool_call \<Rightarrow> runtime_tool_spec result" where
  "empty_bind call = Inl (Catalog (ToolNotFound (rtc_name call)))"

definition catalog_ok :: "catalog \<Rightarrow> bool" where
  "catalog_ok m \<longleftrightarrow> om_ok m \<and> (\<forall>name s. om_get m name = Some s \<longrightarrow> rts_name s = name \<and> name \<noteq> [])"

lemma catalog_ok_Nil [simp]: "catalog_ok []"
  by (simp add: catalog_ok_def)

lemma catalog_ok_insert: "catalog_ok m \<Longrightarrow> rts_name s \<noteq> [] \<Longrightarrow> catalog_ok (om_insert (rts_name s) s m)"
  by (auto simp: catalog_ok_def)

lemma catalog_collect_ok: "catalog_collect m ss = Inr m' \<Longrightarrow> catalog_ok m \<Longrightarrow> catalog_ok m'"
  by (induction m ss rule: catalog_collect.induct) (auto simp: catalog_ok_insert split: if_splits)

lemma catalog_collect_get:
  "catalog_collect m ss = Inr m' \<Longrightarrow>
     om_get m' name = (case om_get m name of Some s \<Rightarrow> Some s | None \<Rightarrow> find (\<lambda>s. rts_name s = name) ss)"
proof (induction m ss rule: catalog_collect.induct)
  case (2 m s ss)
  have c: "rts_name s \<noteq> []" "\<not> om_contains m (rts_name s)"
    and rest: "catalog_collect (om_insert (rts_name s) s m) ss = Inr m'"
    using "2.prems" by (auto split: if_splits)
  show ?case using "2.IH" [OF c rest] c(2) by (auto simp: om_contains_def split: option.splits)
qed (simp split: option.split)

lemma catalog_ok_retain: "catalog_ok m \<Longrightarrow> catalog_ok (om_retain (\<lambda>name _. q name) m)"
  by (auto simp: catalog_ok_def om_get_retain_key split: if_splits)

lemma select_catalogD:
  assumes "select_catalog sel specs = Inr m"
  shows "\<exists>m0. catalog_collect [] specs = Inr m0 \<and> m = (case sel of SelectAll \<Rightarrow> m0 | SelectNone \<Rightarrow> []
     | SelectOnly names \<Rightarrow> om_retain (\<lambda>name _. name \<in> set names) m0)"
  using assms by (cases sel) (auto simp: select_catalog_def r_bind_Inr)

lemma select_catalog_ok: "select_catalog sel specs = Inr m \<Longrightarrow> catalog_ok m"
  using select_catalogD [of sel specs m] catalog_collect_ok [of "[]" specs]
  by (cases sel) (auto simp: catalog_ok_retain)

text \<open>What is selected: every listed tool, no tool, or exactly the named ones.\<close>

lemma select_catalog_get:
  assumes "select_catalog sel specs = Inr m"
  shows "om_get m name = (if (case sel of SelectAll \<Rightarrow> True | SelectNone \<Rightarrow> False
        | SelectOnly names \<Rightarrow> name \<in> set names) then find (\<lambda>s. rts_name s = name) specs else None)"
  using select_catalogD [OF assms] catalog_collect_get [of "[]" specs _ name]
  by (cases sel) (auto simp: om_get_retain_key [where q = "\<lambda>n. n \<in> set _"])

lemma catalog_bind_Inr:
  "catalog_bind inner m call = Inr spec \<longleftrightarrow>
     runtime_tool_call_validate call = Inr () \<and> om_get m (rtc_name call) = Some spec \<and> inner call = Inr spec"
  by (auto simp: catalog_bind_def r_bind_Inr ok_or_Inr)

section \<open>Scheduling\<close>

definition spec_parallel :: "catalog \<Rightarrow> runtime_tool_call \<Rightarrow> bool" where
  "spec_parallel specs call = some_and (\<lambda>s. ex_parallel (rts_execution s)) (om_get specs (rtc_name call))"

definition default_select ::
  "runtime_tool_call list \<Rightarrow> catalog \<Rightarrow> (runtime_tool_call list \<times> bool) result" where
  "default_select candidates specs = (case candidates of
       [] \<Rightarrow> Inr ([], False)
     | first # _ \<Rightarrow>
         (if \<not> spec_parallel specs first then Inr ([first], False)
          else Inr (takeWhile (spec_parallel specs) candidates, True)))"

text \<open>
  What an admission promises: it takes calls from the front in the order they were emitted, never
  stalls, runs a serial call alone, and says that calls may overlap only when each of them may.
\<close>

locale scheduling_policy =
  fixes select :: "runtime_tool_call list \<Rightarrow> catalog \<Rightarrow> (runtime_tool_call list \<times> bool) result"
  assumes select_prefix: "select cs specs = Inr (calls, p) \<Longrightarrow> \<exists>n. calls = take n cs"
    and select_progress: "select cs specs = Inr (calls, p) \<Longrightarrow> cs \<noteq> [] \<Longrightarrow> calls \<noteq> []"
    and select_serial: "select cs specs = Inr (calls, False) \<Longrightarrow> length calls \<le> 1"
    and select_parallel: "select cs specs = Inr (calls, True) \<Longrightarrow> call \<in> set calls \<Longrightarrow> spec_parallel specs call"
begin

lemma select_known: "select cs specs = Inr (calls, p) \<Longrightarrow> set calls \<subseteq> set cs"
  using select_prefix [of cs specs calls p] by (auto dest: in_set_takeD)

lemma select_distinct: "select cs specs = Inr (calls, p) \<Longrightarrow> distinct cs \<Longrightarrow> distinct calls"
  using select_prefix [of cs specs calls p] distinct_take by auto

text \<open>A serial call admitted is the first candidate and the only one admitted.\<close>

lemma serial_alone:
  assumes "select cs specs = Inr (calls, p)" and "call \<in> set calls" and "\<not> spec_parallel specs call"
  shows "calls = [call] \<and> cs \<noteq> [] \<and> hd cs = call"
proof -
  have p: "\<not> p" using select_parallel [of cs specs calls call] assms by auto
  then have "length calls \<le> 1" using select_serial [of cs specs calls] assms(1) by simp
  then have calls: "calls = [call]" using assms(2) by (cases calls) auto
  obtain n where n: "calls = take n cs" using select_prefix [OF assms(1)] by blast
  then show ?thesis using calls by (cases cs; cases n) auto
qed

text \<open>A call emitted after a serial one is not admitted with it: the serial call is a barrier.\<close>

lemma serial_barrier:
  assumes "select (before @ serial # after) specs = Inr (calls, p)" and "\<not> spec_parallel specs serial"
    and "before \<noteq> []"
  shows "length calls \<le> length before"
proof (rule ccontr)
  assume long: "\<not> length calls \<le> length before"
  obtain n where n: "calls = take n (before @ serial # after)"
    using select_prefix [OF assms(1)] by blast
  then have "serial \<in> set calls" using long by (auto simp: take_Cons split: nat.splits)
  then have "calls = [serial]" using serial_alone [OF assms(1) _ assms(2)] by blast
  then show False using long assms(3) by (cases before) auto
qed

end

interpretation default: scheduling_policy default_select
proof
  fix cs calls and specs :: catalog and p
  assume *: "default_select cs specs = Inr (calls, p)"
  then have "calls = [] \<and> cs = [] \<or> (\<exists>c cs'. cs = c # cs' \<and> (calls = [c] \<or> calls = takeWhile (spec_parallel specs) cs))"
    by (auto simp: default_select_def split: list.splits if_splits)
  then show "\<exists>n. calls = take n cs"
    by (metis takeWhile_eq_take take_0 take_Suc_Cons)
  show "cs \<noteq> [] \<Longrightarrow> calls \<noteq> []"
    using * by (auto simp: default_select_def split: list.splits if_splits)
next
  fix cs calls and specs :: catalog
  assume "default_select cs specs = Inr (calls, False)"
  then show "length calls \<le> 1" by (auto simp: default_select_def split: list.splits if_splits)
next
  fix cs calls and specs :: catalog and call
  assume "default_select cs specs = Inr (calls, True)" and "call \<in> set calls"
  then show "spec_parallel specs call"
    by (auto simp: default_select_def split: list.splits if_splits dest: set_takeWhileD)
qed

end
