(* ===== verification/Engine_Base.thy ===== *)
theory Engine_Base
  imports Commit Tool_Catalog
begin

text \<open>
  The execution engine of \<open>zhir-kernel/src/engine\<close>: its state (\<open>mod.rs\<close>), and the checkpoint writes
  every operation goes through (\<open>checkpoint.rs\<close>): \<open>check\<close>, \<open>persist\<close>, \<open>commit\<close>, \<open>suspend\<close>, \<open>initial\<close>,
  with the projections of the session used everywhere (\<open>session.rs\<close>) and \<open>append_command\<close>
  (\<open>commands.rs\<close>).

  An operation of the engine maps a state to a result and a state; an error keeps the changes made
  before it. What the source takes from outside is the record \<open>kernel_env\<close>: the store, the model's
  capabilities and negotiation, the resource store, the clock, the cancellation flag and the random
  identifiers, the last three as readings numbered by counters of the state. A task the source
  spawns is an entry of \<open>en_log\<close>, the ordered log of external effects; its completion comes back as
  a value of \<open>work\<close>. Instants are milliseconds.
\<close>

section \<open>State-passing operations\<close>

type_synonym ('s, 'a) exec = "'s \<Rightarrow> 'a result \<times> 's"

definition e_return :: "'a \<Rightarrow> ('s, 'a) exec" where
  "e_return x = (\<lambda>e. (Inr x, e))"

definition e_fail :: "error \<Rightarrow> ('s, 'a) exec" where
  "e_fail err = (\<lambda>e. (Inl err, e))"

definition e_lift :: "'a result \<Rightarrow> ('s, 'a) exec" where
  "e_lift r = (\<lambda>e. (r, e))"

definition e_bind :: "('s, 'a) exec \<Rightarrow> ('a \<Rightarrow> ('s, 'b) exec) \<Rightarrow> ('s, 'b) exec" where
  "e_bind m f = (\<lambda>e. case m e of (Inl err, e') \<Rightarrow> (Inl err, e') | (Inr x, e') \<Rightarrow> f x e')"

definition e_then :: "('s, 'a) exec \<Rightarrow> ('s, 'b) exec \<Rightarrow> ('s, 'b) exec" where
  "e_then m n = e_bind m (\<lambda>_. n)"

definition e_get :: "('s \<Rightarrow> ('s, 'a) exec) \<Rightarrow> ('s, 'a) exec" where
  "e_get f = (\<lambda>e. f e e)"

definition e_modify :: "('s \<Rightarrow> 's) \<Rightarrow> ('s, unit) exec" where
  "e_modify f = (\<lambda>e. (Inr (), f e))"

text \<open>A loop over a list whose body may fail.\<close>

fun e_each :: "('a \<Rightarrow> ('s, unit) exec) \<Rightarrow> 'a list \<Rightarrow> ('s, unit) exec" where
  "e_each f [] = e_return ()"
| "e_each f (x # xs) = e_then (f x) (e_each f xs)"

lemma e_return_apply [simp]: "e_return x e = (Inr x, e)"
  by (simp add: e_return_def)

lemma e_fail_apply [simp]: "e_fail err e = (Inl err, e)"
  by (simp add: e_fail_def)

lemma e_lift_apply [simp]: "e_lift r e = (r, e)"
  by (simp add: e_lift_def)

lemma e_get_apply [simp]: "e_get f e = f e e"
  by (simp add: e_get_def)

lemma e_modify_apply [simp]: "e_modify f e = (Inr (), f e)"
  by (simp add: e_modify_def)

lemma e_bind_Inr: "m e = (Inr x, e') \<Longrightarrow> e_bind m f e = f x e'"
  by (simp add: e_bind_def)

lemma e_bind_Inl: "m e = (Inl err, e') \<Longrightarrow> e_bind m f e = (Inl err, e')"
  by (simp add: e_bind_def)

lemma e_bind_simps [simp]:
  "e_bind (e_return x) f = f x" "e_bind (e_lift (Inr x)) f = f x"
  "e_bind (e_fail err) f = e_fail err" "e_bind (e_lift (Inl err)) f = e_fail err"
  by (simp_all add: e_bind_def fun_eq_iff)

lemma e_bind_eq_Inr:
  "e_bind m f e = (Inr y, e'') \<longleftrightarrow> (\<exists>x e'. m e = (Inr x, e') \<and> f x e' = (Inr y, e''))"
  by (auto simp: e_bind_def split: prod.splits sum.splits)

lemma e_then_eq_Inr:
  "e_then m n e = (Inr y, e'') \<longleftrightarrow> (\<exists>x e'. m e = (Inr x, e') \<and> n e' = (Inr y, e''))"
  by (simp add: e_then_def e_bind_eq_Inr)

text \<open>\<open>keeps P m\<close>: the operation keeps a property of states, whatever it returns.\<close>

definition keeps :: "('s \<Rightarrow> bool) \<Rightarrow> ('s, 'a) exec \<Rightarrow> bool" where
  "keeps P m \<longleftrightarrow> (\<forall>e. P e \<longrightarrow> P (snd (m e)))"

named_theorems keeps_intros \<open>operations that keep a property\<close>

lemma keepsI: "(\<And>e. P e \<Longrightarrow> P (snd (m e))) \<Longrightarrow> keeps P m"
  by (simp add: keeps_def)

lemma keepsD: "keeps P m \<Longrightarrow> P e \<Longrightarrow> P (snd (m e))"
  by (simp add: keeps_def)

lemma keeps_run: "keeps P m \<Longrightarrow> P e \<Longrightarrow> m e = (r, e') \<Longrightarrow> P e'"
  using keepsD [of P m e] by simp

lemma keeps_return [keeps_intros, simp]: "keeps P (e_return x)"
  by (simp add: keeps_def)

lemma keeps_fail [keeps_intros, simp]: "keeps P (e_fail err)"
  by (simp add: keeps_def)

lemma keeps_lift [keeps_intros, simp]: "keeps P (e_lift r)"
  by (simp add: keeps_def)

lemma keeps_bind [keeps_intros]:
  assumes "keeps P m" and "\<And>x. keeps P (f x)"
  shows "keeps P (e_bind m f)"
proof (rule keepsI)
  fix e assume "P e"
  then have "P (snd (m e))" using assms(1) by (rule keepsD [rotated])
  then show "P (snd (e_bind m f e))"
    using assms(2) by (auto simp: e_bind_def keeps_def split: prod.splits sum.splits)
qed

lemma keeps_then [keeps_intros]: "keeps P m \<Longrightarrow> keeps P n \<Longrightarrow> keeps P (e_then m n)"
  unfolding e_then_def by (rule keeps_bind)

lemma keeps_get: "(\<And>e. P e \<Longrightarrow> P (snd (f e e))) \<Longrightarrow> keeps P (e_get f)"
  by (simp add: keeps_def)

lemma keeps_get' [keeps_intros]: "(\<And>e. P e \<Longrightarrow> keeps P (f e)) \<Longrightarrow> keeps P (e_get f)"
  by (simp add: keeps_def)

lemma keeps_modify: "(\<And>e. P e \<Longrightarrow> P (g e)) \<Longrightarrow> keeps P (e_modify g)"
  by (simp add: keeps_def)

lemma keeps_each [keeps_intros]: "(\<And>x. keeps P (f x)) \<Longrightarrow> keeps P (e_each f xs)"
  by (induction xs) (auto intro: keeps_intros)

section \<open>Events, work and effects\<close>

datatype event_data =
  ObservationGap nat
| OperationChanged string operation_state
| ModelDelta "string option" model_delta
| OperationProgress string json
| CheckpointCommitted string u64 run_state_kind fact

text \<open>
  What the engine's tasks report. A started operation carries the recovery reference of its handle;
  the handle's control and event stream are external.
\<close>

datatype tool_execution = ToolFinished operation_outcome | ToolActive "recovery_ref option"

datatype approval_decision = DecideAllow | DecideDeny string | DecideSuspend suspension

datatype work =
  WModel "session_event option result"
| WStarted string "tool_execution result"
| WCancelFailed string error
| WOperation string "operation_event option result"
| WAdmitted "(string \<times> runtime_tool_spec) list" "approval_decision list result"
| WMediaReady sealed_media resource_ref
| WInputReady sealed_media resource_ref
| WInputSent "unit result"
| WMediaDone
| WReplyDone string "unit result"
| WProgress string json
| WMediaError error
| WCommandSent "unit result"

record approval_request =
  ar_call :: runtime_tool_call
  ar_spec :: runtime_tool_spec

text \<open>
  Effects: an emitted event, and the tasks the engine spawns. \<open>StartTool\<close> with a record recovers
  earlier work.
\<close>

datatype effect =
  Emit event_data
| Submit "session_command list"
| StartTool string "operation_record option"
| StartDelegation string "delegation_request + operation_record"
| PumpOperation string
| CancelOperation string
| CancelToken string
| AbortTasks
| PumpSession
| StartMediaOutput
| ReplyOperation string json
| DecideApproval "approval_request list"
| SealInput "media_chunk list" "resource_ref option"
| MediaVerdict bool
| InvalidateOutput u64
| AnswerControl "(string \<times> u64) result"

section \<open>Environment and state\<close>

text \<open>A control of the host (\<open>ControlBody\<close> of \<open>control.rs\<close>).\<close>

datatype control_body =
  CtlPause suspension
| CtlInput message string
| CtlCancelOperation string
| CtlReplyOperation string json
| CtlUpdateProfile request_profile
| CtlInterruptOutput
| CtlFlushInput
| CtlSetInputAudio bool
| CtlSealUserInput

text \<open>What the engine asks of \<open>open_session\<close> and what it reads off the opened session.\<close>

record session_open =
  so_binding :: "model_binding option"
  so_request :: model_request
  so_context_revision :: u64
  so_input_position :: u64
  so_profile_revision :: u64
  so_mode :: run_mode
  so_session_id :: string
  so_after_sequence :: "u64 option"
  so_output_epoch :: u64
  so_limits :: limits
  so_recovery :: "recovery_ref option"
  so_context :: run_context

record opened_session =
  os_binding :: "model_binding option"
  os_capabilities :: capability_set
  os_media_input :: bool
  os_media_output :: bool

record 'st kernel_env =
  ke_ext :: externals
  ke_json_text :: "json \<Rightarrow> string"
  ke_debug :: "string \<Rightarrow> string"
  ke_new_id :: "nat \<Rightarrow> string"
  ke_now :: "nat \<Rightarrow> nat"
  ke_cancelled :: "nat \<Rightarrow> bool"
  ke_store_commit :: "nat \<Rightarrow> 'st \<Rightarrow> commit \<Rightarrow> unit result \<times> 'st"
  ke_commit_fate :: "nat \<Rightarrow> bool option"
  ke_model_capabilities :: capability_set
  ke_negotiate :: "bool \<Rightarrow> model_request \<Rightarrow> negotiated_profile result"
  ke_reducer :: "(checkpoint \<Rightarrow> (history_entry list \<times> string) option result) option"
  ke_write_archive :: "(string \<Rightarrow> archived_media \<Rightarrow> resource_ref result) option"
  ke_read_archive :: "resource_ref \<Rightarrow> archived_media result"
  ke_archive_depth :: nat
  ke_schedule :: "runtime_tool_call list \<Rightarrow> (string, runtime_tool_spec) omap
      \<Rightarrow> (runtime_tool_call list \<times> bool) result"
  ke_bind :: "runtime_tool_call \<Rightarrow> runtime_tool_spec result"
  ke_open_catalog :: "run_context \<Rightarrow> runtime_tool_spec list result"
  ke_open_session :: "session_open \<Rightarrow> opened_session result"
  ke_has_delegation :: bool
  ke_has_approval :: bool

record 'st engine =
  en_store :: 'st
  en_current :: checkpoint
  en_specs :: "(string, runtime_tool_spec) omap"
  en_deadline :: "nat option"
  en_media_queue :: "media_chunk list"
  en_media_closed :: bool
  en_controls :: "control_body list"
  en_work :: "work list"
  en_stashed :: "work option"
  en_session :: "capability_set option"
  en_media_input :: bool
  en_operation_controls :: "string set"
  en_tokens :: "string set"
  en_admitting :: "string set"
  en_sent :: "string set"
  en_sending :: bool
  en_input_sending :: bool
  en_held_input :: "media_chunk option"
  en_ended_streams :: "string set option"
  en_media_pending :: bool
  en_pending_replies :: "string set"
  en_pending_starts :: "string set"
  en_session_sequence :: "u64 option"
  en_log :: "effect list"
  en_ids :: nat
  en_ticks :: nat
  en_polls :: nat
  en_commits :: nat

text \<open>\<open>new_id\<close>, \<open>Instant::now\<close>, the cancellation flag and the log.\<close>

definition e_new_id :: "'st kernel_env \<Rightarrow> ('st engine, string) exec" where
  "e_new_id E = (\<lambda>e. (Inr (ke_new_id E (en_ids e)), e\<lparr>en_ids := en_ids e + 1\<rparr>))"

definition e_now :: "'st kernel_env \<Rightarrow> ('st engine, nat) exec" where
  "e_now E = (\<lambda>e. (Inr (ke_now E (en_ticks e)), e\<lparr>en_ticks := en_ticks e + 1\<rparr>))"

definition e_log :: "effect \<Rightarrow> ('st engine, unit) exec" where
  "e_log x = e_modify (\<lambda>e. e\<lparr>en_log := en_log e @ [x]\<rparr>)"

definition e_check_cancelled :: "'st kernel_env \<Rightarrow> ('st engine, unit) exec" where
  "e_check_cancelled E = (\<lambda>e. (fail_if (ke_cancelled E (en_polls e)) Cancelled, e\<lparr>en_polls := en_polls e + 1\<rparr>))"

definition e_check :: "'st kernel_env \<Rightarrow> ('st engine, unit) exec" where
  "e_check E = e_bind (e_now E) (\<lambda>now. e_get (\<lambda>e.
     if some_and (\<lambda>d. d \<le> now) (en_deadline e) then e_fail Deadline else e_check_cancelled E))"

section \<open>Checkpoint writes\<close>

text \<open>
  \<open>persist\<close>: the store is called with a deadline and the call itself is given up after the same
  time. \<open>ke_commit_fate\<close> tells whether the call settles; when it is given up the store may or may
  not have applied the commit.
\<close>

definition persist :: "'st kernel_env \<Rightarrow> checkpoint \<Rightarrow> history_delta \<Rightarrow> ('st engine, checkpoint) exec" where
  "persist E next delta = e_bind (e_now E) (\<lambda>now. \<lambda>e.
     (let timeout = unat (lim_commit_timeout_ms (ro_limits (cp_options next)));
          c = (commit_new next delta)\<lparr>cm_deadline := Some (now + timeout)\<rparr>;
          (r, st) = ke_store_commit E (ke_now E (en_ticks e)) (en_store e) c;
          e' = e\<lparr>en_ticks := en_ticks e + 1, en_commits := en_commits e + 1\<rparr> in
      case ke_commit_fate E (en_commits e) of
        None \<Rightarrow> (case r of Inl err \<Rightarrow> Inl err | Inr _ \<Rightarrow> Inr next, e'\<lparr>en_store := st\<rparr>)
      | Some applied \<Rightarrow>
          (Inl (Storage ''checkpoint commit timed out; reload the durable head before retrying''),
           e'\<lparr>en_store := if applied then st else en_store e\<rparr>)))"

definition changed_operations ::
  "(string, operation_record) omap \<Rightarrow> (string, operation_record) omap \<Rightarrow> effect list" where
  "changed_operations before after = map (\<lambda>(i, op). Emit (OperationChanged i (op_state op)))
     (filter (\<lambda>(i, op). none_or (\<lambda>b. op_state b \<noteq> op_state op) (om_get before i)) after)"

definition stamp :: "string \<Rightarrow> checkpoint \<Rightarrow> fact \<Rightarrow> checkpoint \<Rightarrow> checkpoint" where
  "stamp i current what next = next\<lparr>cp_id := i, cp_parent_id := Some (cp_id current),
     cp_revision := cp_revision current + 1, cp_fact := what\<rparr>"

definition e_commit ::
  "'st kernel_env \<Rightarrow> checkpoint \<Rightarrow> fact \<Rightarrow> history_delta \<Rightarrow> ('st engine, unit) exec" where
  "e_commit E next what delta = e_bind (e_new_id E) (\<lambda>i. e_get (\<lambda>e.
     e_bind (persist E (stamp i (en_current e) what next) delta) (\<lambda>c.
     e_modify (\<lambda>e'. e'\<lparr>en_current := c, en_log := en_log e'
        @ [Emit (CheckpointCommitted (cp_id c) (cp_revision c) (state_kind (cp_state c)) (cp_fact c))]
        @ changed_operations (cp_operations (en_current e)) (cp_operations c)\<rparr>))))"

datatype wait_reason = WaitRecovery | WaitInput

fun wait_reason_str :: "wait_reason \<Rightarrow> string" where
  "wait_reason_str WaitRecovery = ''RecoveryRequired''"
| "wait_reason_str WaitInput = ''InputRequired''"

definition runtime_suspension :: "wait_reason \<Rightarrow> suspension" where
  "runtime_suspension reason = \<lparr>sus_reason = wait_reason_str reason, sus_source = ''runtime'',
     sus_wait_id = None, sus_metadata = []\<rparr>"

definition e_suspend :: "'st kernel_env \<Rightarrow> wait_reason \<Rightarrow> ('st engine, unit) exec" where
  "e_suspend E reason = e_get (\<lambda>e.
     e_commit E ((en_current e)\<lparr>cp_state := StSuspended (runtime_suspension reason)\<rparr>)
       (FControl ActSuspended) Unchanged)"

section \<open>The first checkpoint\<close>

datatype request =
  RequestStart history run_context run_options
| RequestRecover checkpoint "message list" "recovery_resolution list" metadata

fun request_options :: "request \<Rightarrow> run_options" where
  "request_options (RequestStart _ _ options) = options"
| "request_options (RequestRecover c _ _ _) = cp_options c"

fun request_context :: "request \<Rightarrow> run_context" where
  "request_context (RequestStart _ context _) = context"
| "request_context (RequestRecover c _ _ _) = cp_context c"

definition negotiated_default :: negotiated_profile where
  "negotiated_default = \<lparr>np_selected = [], np_unmet_preferences = []\<rparr>"

definition session_new :: "string \<Rightarrow> nat \<Rightarrow> run_options \<Rightarrow> session_snapshot" where
  "session_new i run_start options = \<lparr>
     ss_binding = None, ss_capabilities = None, ss_id = i, ss_generation_id = None,
     ss_establishment = EstNew, ss_ready = False, ss_generation_started = False,
     ss_context_revision = 0, ss_acknowledged_context_revision = 0,
     ss_reduced_context_revision = None, ss_input_position = 0, ss_generated_input_position = 0,
     ss_needs_generation = True, ss_response_start = 0, ss_run_start = run_start,
     ss_last_sequence = None, ss_response_status = None, ss_recovery = None, ss_output_epoch = 0,
     ss_media_archive = None, ss_input_closed = (ro_mode options = Task),
     ss_input_audio_enabled = True, ss_closing = False, ss_closure = None,
     ss_profile_revision = 0, ss_profile = ro_profile options, ss_negotiated = negotiated_default,
     ss_effective = []\<rparr>"

definition initial :: "(nat \<Rightarrow> string) \<Rightarrow> nat \<Rightarrow> request \<Rightarrow> checkpoint \<times> history_delta" where
  "initial ids n request = (case request of
       RequestStart h context options \<Rightarrow>
         (\<lparr>cp_options = options, cp_id = ids (n + 1), cp_parent_id = None, cp_revision = 0,
           cp_context = context, cp_history = h, cp_state = StRunning,
           cp_active = \<lparr>ac_session = session_new (ids n) (hist_len h) options, ac_operations = [],
                        ac_commands = [], ac_media = []\<rparr>,
           cp_metrics = metrics_default, cp_fact = FStarted\<rparr>,
          Initial (history_entries h))
     | RequestRecover c _ _ metadata \<Rightarrow>
         (c\<lparr>cp_id := ids n, cp_parent_id := Some (cp_id c), cp_revision := cp_revision c + 1,
            cp_state := StRunning,
            cp_context := (cp_context c)\<lparr>rc_metadata := om_extend (rc_metadata (cp_context c)) metadata\<rparr>,
            cp_fact := FAttached\<rparr>,
          Unchanged))"

section \<open>Projections of the session\<close>

definition session_capabilities :: "'st kernel_env \<Rightarrow> 'st engine \<Rightarrow> capability_set" where
  "session_capabilities E e = (case en_session e of
       Some caps \<Rightarrow> caps
     | None \<Rightarrow> (case ss_capabilities (cp_session (en_current e)) of
           Some caps \<Rightarrow> caps | None \<Rightarrow> ke_model_capabilities E))"

definition local_projection :: "'st kernel_env \<Rightarrow> 'st engine \<Rightarrow> bool" where
  "local_projection E e = supports (session_capabilities E e) LocalProjection"

definition engine_negotiate :: "'st kernel_env \<Rightarrow> 'st engine \<Rightarrow> model_request \<Rightarrow> negotiated_profile result" where
  "engine_negotiate E e r = ke_negotiate E (en_session e \<noteq> None) r"

definition engine_request :: "'st engine \<Rightarrow> history_entry list \<Rightarrow> model_request" where
  "engine_request e entries = \<lparr>mr_messages = conversation entries,
     mr_runtime_tools = om_values (en_specs e),
     mr_provider_tools = ro_provider_tools (cp_options (en_current e)),
     mr_profile = ss_profile (cp_session (en_current e)),
     mr_tool_choice = ro_tool_choice (cp_options (en_current e)),
     mr_response_format = ro_response_format (cp_options (en_current e)),
     mr_stream = ro_stream (cp_options (en_current e))\<rparr>"

text \<open>\<open>append_command\<close>: a new projection command for a history entry; \<open>i\<close> is its fresh identity.\<close>

definition append_command ::
  "string \<Rightarrow> nat \<Rightarrow> append_source \<Rightarrow> string option \<Rightarrow> checkpoint \<Rightarrow> checkpoint" where
  "append_command i entry source operation_id next =
     (let next1 = map_session (\<lambda>s. s\<lparr>ss_context_revision := ss_context_revision s + 1\<rparr>) next in
      map_commands (\<lambda>cs. cs @ [\<lparr>pc_id = i,
          pc_intent = IAppend entry (ss_context_revision (cp_session next1))
            (ss_input_position (cp_session next1)) source operation_id,
          pc_sent = False\<rparr>]) next1)"

definition push_command :: "string \<Rightarrow> command_intent \<Rightarrow> bool \<Rightarrow> checkpoint \<Rightarrow> checkpoint" where
  "push_command i intent sent next =
     map_commands (\<lambda>cs. cs @ [\<lparr>pc_id = i, pc_intent = intent, pc_sent = sent\<rparr>]) next"

section \<open>What a checkpoint write changes\<close>

lemma e_new_id_apply [simp]: "e_new_id E e = (Inr (ke_new_id E (en_ids e)), e\<lparr>en_ids := en_ids e + 1\<rparr>)"
  by (simp add: e_new_id_def)

lemma e_now_apply [simp]: "e_now E e = (Inr (ke_now E (en_ticks e)), e\<lparr>en_ticks := en_ticks e + 1\<rparr>)"
  by (simp add: e_now_def)

lemma e_log_apply [simp]: "e_log x e = (Inr (), e\<lparr>en_log := en_log e @ [x]\<rparr>)"
  by (simp add: e_log_def)

lemma stamp_simps [simp]:
  "cp_options (stamp i c f next) = cp_options next" "cp_id (stamp i c f next) = i"
  "cp_parent_id (stamp i c f next) = Some (cp_id c)"
  "cp_revision (stamp i c f next) = cp_revision c + 1"
  "cp_context (stamp i c f next) = cp_context next" "cp_history (stamp i c f next) = cp_history next"
  "cp_state (stamp i c f next) = cp_state next" "cp_active (stamp i c f next) = cp_active next"
  "cp_metrics (stamp i c f next) = cp_metrics next" "cp_fact (stamp i c f next) = f"
  by (simp_all add: stamp_def)

lemma e_check_frame:
  "\<exists>ticks polls. snd (e_check E e) = e\<lparr>en_ticks := ticks, en_polls := polls\<rparr>"
proof -
  have "snd (e_check E e) = e\<lparr>en_ticks := en_ticks e + 1,
      en_polls := if some_and (\<lambda>d. d \<le> ke_now E (en_ticks e)) (en_deadline e) then en_polls e else en_polls e + 1\<rparr>"
    by (simp add: e_check_def e_bind_def e_check_cancelled_def)
  then show ?thesis by blast
qed

lemma persist_eq:
  "persist E next delta e =
     (let now = ke_now E (en_ticks e);
          c = (commit_new next delta)\<lparr>cm_deadline :=
                Some (now + unat (lim_commit_timeout_ms (ro_limits (cp_options next))))\<rparr>;
          served = ke_store_commit E (ke_now E (en_ticks e + 1)) (en_store e) c;
          e' = e\<lparr>en_ticks := en_ticks e + 2, en_commits := en_commits e + 1\<rparr> in
      case ke_commit_fate E (en_commits e) of
        None \<Rightarrow> (case fst served of Inl err \<Rightarrow> Inl err | Inr _ \<Rightarrow> Inr next, e'\<lparr>en_store := snd served\<rparr>)
      | Some applied \<Rightarrow>
          (Inl (Storage ''checkpoint commit timed out; reload the durable head before retrying''),
           e'\<lparr>en_store := if applied then snd served else en_store e\<rparr>))"
  by (simp add: persist_def e_bind_def Let_def split_def split: option.splits)

lemma persist_frame:
  "\<exists>st. snd (persist E next delta e) = e\<lparr>en_ticks := en_ticks e + 2, en_commits := en_commits e + 1, en_store := st\<rparr>"
  by (cases e) (auto simp: persist_eq Let_def split: option.splits)

lemma persist_Inr: "persist E next delta e = (Inr c, e') \<Longrightarrow> c = next"
  by (auto simp: persist_eq Let_def split: option.splits sum.splits)

text \<open>
  A commit changes the store, the counters, the log and, only when it succeeds, the current
  checkpoint, which becomes the stamped successor.
\<close>

lemma e_commit_frame:
  assumes "e_commit E next what delta e = (r, e')"
  shows "\<exists>st events. (\<forall>x \<in> set events. \<exists>d. x = Emit d) \<and> e' = e\<lparr>en_ids := en_ids e + 1, en_ticks := en_ticks e + 2, en_commits := en_commits e + 1,
      en_store := st,
      en_current := (case r of Inr _ \<Rightarrow> stamp (ke_new_id E (en_ids e)) (en_current e) what next
                             | Inl _ \<Rightarrow> en_current e),
      en_log := en_log e @ events\<rparr>"
proof -
  let ?next = "stamp (ke_new_id E (en_ids e)) (en_current e) what next"
  let ?e = "e\<lparr>en_ids := en_ids e + 1\<rparr>"
  obtain rp ep where p: "persist E ?next delta ?e = (rp, ep)" by (cases "persist E ?next delta ?e")
  obtain st where ep: "ep = ?e\<lparr>en_ticks := en_ticks e + 2, en_commits := en_commits e + 1, en_store := st\<rparr>"
    using persist_frame [of E ?next delta ?e] p by auto
  show ?thesis
  proof (cases rp)
    case (Inl err)
    then have "r = Inl err" "e' = ep" using assms p by (simp_all add: e_commit_def e_bind_def)
    then show ?thesis by (intro exI [of _ st] exI [of _ "[]"]) (simp add: ep)
  next
    case (Inr c)
    then have c: "c = ?next" using persist_Inr p by blast
    have "r = Inr ()" "e' = ep\<lparr>en_current := c, en_log := en_log ep
        @ [Emit (CheckpointCommitted (cp_id c) (cp_revision c) (state_kind (cp_state c)) (cp_fact c))]
        @ changed_operations (cp_operations (en_current e)) (cp_operations c)\<rparr>"
      using assms p Inr by (simp_all add: e_commit_def e_bind_def)
    moreover have "\<forall>x \<in> set ([Emit (CheckpointCommitted (cp_id c) (cp_revision c) (state_kind (cp_state c)) (cp_fact c))]
        @ changed_operations (cp_operations (en_current e)) (cp_operations c)). \<exists>d. x = Emit d"
      by (auto simp: changed_operations_def)
    ultimately show ?thesis unfolding c by (intro exI [of _ st] exI conjI) (assumption, simp add: ep)
  qed
qed

lemma e_commit_current:
  assumes "e_commit E next what delta e = (r, e')"
  shows "en_current e' = (case r of Inr _ \<Rightarrow> stamp (ke_new_id E (en_ids e)) (en_current e) what next
                                  | Inl _ \<Rightarrow> en_current e)"
  using e_commit_frame [OF assms] by auto

text \<open>A property of checkpoints that does not look at the stamp is kept by committing.\<close>

definition stamp_stable :: "(checkpoint \<Rightarrow> bool) \<Rightarrow> bool" where
  "stamp_stable I \<longleftrightarrow> (\<forall>i c f next. I next \<longrightarrow> I (stamp i c f next))"

lemma e_commit_keeps:
  assumes "stamp_stable I" and "I (en_current e)" and "I next"
  shows "I (en_current (snd (e_commit E next what delta e)))"
proof -
  obtain r e' where *: "e_commit E next what delta e = (r, e')" by (cases "e_commit E next what delta e")
  show ?thesis
    using e_commit_current [OF *] assms by (cases r) (auto simp: * stamp_stable_def)
qed

lemma keeps_commit:
  "stamp_stable I \<Longrightarrow> I next \<Longrightarrow> keeps (\<lambda>e. I (en_current e)) (e_commit E next what delta)"
  by (rule keepsI) (rule e_commit_keeps)

text \<open>Operations that leave the current checkpoint alone keep every property of it.\<close>

lemma keeps_current_modify [keeps_intros]:
  "(\<And>e. en_current (g e) = en_current e) \<Longrightarrow> keeps (\<lambda>e. I (en_current e)) (e_modify g)"
  by (rule keeps_modify) simp

lemma keeps_new_id [keeps_intros]: "keeps (\<lambda>e. I (en_current e)) (e_new_id E)"
  by (rule keepsI) simp

lemma keeps_log [keeps_intros]: "keeps (\<lambda>e. I (en_current e)) (e_log x)"
  by (rule keepsI) simp

lemma keeps_suspend:
  assumes "stamp_stable I" and "\<And>c s. I c \<Longrightarrow> I (c\<lparr>cp_state := s\<rparr>)"
  shows "keeps (\<lambda>e. I (en_current e)) (e_suspend E reason)"
  unfolding e_suspend_def by (intro keeps_get' keeps_commit assms)

lemma e_check_current [simp]: "en_current (snd (e_check E e)) = en_current e"
proof -
  obtain t p where "snd (e_check E e) = e\<lparr>en_ticks := t, en_polls := p\<rparr>" using e_check_frame by blast
  then show ?thesis by simp
qed

lemma keeps_check [keeps_intros]: "keeps (\<lambda>e. I (en_current e)) (e_check E)"
  by (rule keepsI) simp

end
