(* ===== verification/Projection.thy ===== *)
theory Projection
  imports Engine_Base
begin

text \<open>
  The projection of the history into a model session. Every \<open>Append\<close> and \<open>ReplaceContext\<close> command
  carries the context revision it produces; the invariant \<open>projection_ok\<close> says that the pending ones
  number the revisions from the acknowledged one to the admitted one, without gap and in order. The
  lemmas show how pushing, removing and replacing commands keep it.
\<close>

definition projection_revision :: "command_intent \<Rightarrow> u64 option" where
  "projection_revision intent = (case intent of
       IAppend _ revision _ _ _ \<Rightarrow> Some revision
     | IReplaceContext revision \<Rightarrow> Some revision
     | _ \<Rightarrow> None)"

definition projections :: "pending_command list \<Rightarrow> u64 list" where
  "projections cs = List.map_filter (\<lambda>c. projection_revision (pc_intent c)) cs"

fun chained :: "u64 \<Rightarrow> u64 list \<Rightarrow> u64 \<Rightarrow> bool" where
  "chained a [] b \<longleftrightarrow> a = b"
| "chained a (r # rs) b \<longleftrightarrow> r = a + 1 \<and> chained r rs b"

definition projection_ok :: "checkpoint \<Rightarrow> bool" where
  "projection_ok c \<longleftrightarrow> chained (ss_acknowledged_context_revision (cp_session c))
     (projections (cp_commands c)) (ss_context_revision (cp_session c))"

lemma projections_simps [simp]:
  "projections [] = []"
  "projections (c # cs) = (case projection_revision (pc_intent c) of
     None \<Rightarrow> projections cs | Some r \<Rightarrow> r # projections cs)"
  "projections (cs @ cs') = projections cs @ projections cs'"
  by (simp_all add: projections_def map_filter_simps List.map_filter_def split: option.split)

lemma projection_revision_simps [simp]:
  "projection_revision (IAppend k r p s o') = Some r" "projection_revision (IReplaceContext r) = Some r"
  "projection_revision (IGenerate g a b d) = None" "projection_revision (IDelegationContext i cs) = None"
  "projection_revision (IUpdateProfile r pr) = None" "projection_revision (IInterruptOutput g r) = None"
  "projection_revision IFlushInput = None" "projection_revision (ISetInputAudio on) = None"
  "projection_revision ISealUserInput = None" "projection_revision IClose = None"
  by (simp_all add: projection_revision_def)

lemma chained_append: "chained a (rs @ rs') b \<longleftrightarrow> (\<exists>m. chained a rs m \<and> chained m rs' b)"
  by (induction rs arbitrary: a) auto

lemma chained_nth: "chained a rs b \<Longrightarrow> k < length rs \<Longrightarrow> rs ! k = a + 1 + of_nat k"
proof (induction rs arbitrary: a k)
  case (Cons r rs)
  then show ?case by (cases k) (auto simp: algebra_simps)
qed simp

text \<open>Fewer than 2^64 commands are pending, so a revision names one of them.\<close>

lemma chained_first:
  assumes "chained a rs b" and "length rs < 2 ^ 64" and "k < length rs" and "rs ! k = a + 1"
  shows "k = 0"
proof -
  have "(of_nat k :: u64) = 0"
    using chained_nth [OF assms(1,3)] assms(4) by simp
  then have "2 ^ 64 dvd k" by (simp add: word_of_nat_eq_0_iff)
  moreover have "k < 2 ^ 64" using assms(2,3) by simp
  ultimately show ?thesis by (metis nat_dvd_not_less neq0_conv)
qed

lemma projection_ok_stamp [simp]: "projection_ok (stamp i c f next) = projection_ok next"
  by (simp add: projection_ok_def)

lemma projection_stable: "stamp_stable projection_ok"
  by (simp add: stamp_stable_def)

text \<open>The checkpoint's projection only depends on two counters and the commands.\<close>

definition projection_view :: "checkpoint \<Rightarrow> pending_command list \<times> u64 \<times> u64" where
  "projection_view c = (cp_commands c, ss_context_revision (cp_session c),
     ss_acknowledged_context_revision (cp_session c))"

lemma projection_view_ok: "projection_view c' = projection_view c \<Longrightarrow> projection_ok c' = projection_ok c"
  by (simp add: projection_ok_def projection_view_def)

lemma append_command_parts [simp]:
  "cp_commands (append_command i k s o' c) = cp_commands c
     @ [\<lparr>pc_id = i, pc_intent = IAppend k (ss_context_revision (cp_session c) + 1)
          (ss_input_position (cp_session c)) s o', pc_sent = False\<rparr>]"
  "cp_session (append_command i k s o' c)
     = (cp_session c)\<lparr>ss_context_revision := ss_context_revision (cp_session c) + 1\<rparr>"
  "cp_operations (append_command i k s o' c) = cp_operations c"
  "cp_history (append_command i k s o' c) = cp_history c"
  "cp_options (append_command i k s o' c) = cp_options c"
  "cp_state (append_command i k s o' c) = cp_state c"
  "cp_metrics (append_command i k s o' c) = cp_metrics c"
  by (simp_all add: append_command_def)

lemma append_command_projection [simp]:
  "projection_ok c \<Longrightarrow> projection_ok (append_command i k s o' c)"
  by (auto simp: projection_ok_def chained_append)

lemma push_command_parts [simp]:
  "cp_commands (push_command i intent sent c) = cp_commands c @ [\<lparr>pc_id = i, pc_intent = intent, pc_sent = sent\<rparr>]"
  "cp_session (push_command i intent sent c) = cp_session c"
  "cp_operations (push_command i intent sent c) = cp_operations c"
  "cp_history (push_command i intent sent c) = cp_history c"
  "cp_options (push_command i intent sent c) = cp_options c"
  by (simp_all add: push_command_def)

lemma push_command_projection [simp]:
  "projection_revision intent = None \<Longrightarrow> projection_ok (push_command i intent sent c) = projection_ok c"
  by (simp add: projection_ok_def)

lemma push_replace_projection:
  "projection_ok c \<Longrightarrow> projection_ok (push_command i
     (IReplaceContext (ss_context_revision (cp_session c) + 1)) sent
     (map_session (\<lambda>s. s\<lparr>ss_context_revision := ss_context_revision s + 1,
        ss_reduced_context_revision := r s\<rparr>) c))"
  by (auto simp: projection_ok_def chained_append)

lemma map_operations_projection [simp]: "projection_ok (map_operations f c) = projection_ok c"
  by (simp add: projection_ok_def)

text \<open>Removing a pending command, the acknowledgement of a projection and of any other command.\<close>

lemma projections_remove:
  assumes "k < length cs"
  shows "projections (take k cs @ drop (Suc k) cs)
     = (case projection_revision (pc_intent (cs ! k)) of
          None \<Rightarrow> projections cs
        | Some _ \<Rightarrow> take (length (projections (take k cs))) (projections cs)
                 @ drop (Suc (length (projections (take k cs)))) (projections cs))"
proof -
  have "cs = take k cs @ cs ! k # drop (Suc k) cs" using assms by (simp add: id_take_nth_drop)
  then have "projections cs = projections (take k cs) @ projections (cs ! k # drop (Suc k) cs)"
    by (metis projections_simps(3))
  then show ?thesis by (simp split: option.split)
qed

lemma acknowledged_projection:
  assumes ok: "chained a (projections cs) b" and small: "length cs < 2 ^ 64"
    and k: "k < length cs" and r: "projection_revision (pc_intent (cs ! k)) = Some (a + 1)"
  shows "chained (a + 1) (projections (take k cs @ drop (Suc k) cs)) b"
proof -
  let ?n = "length (projections (take k cs))"
  have split: "cs = take k cs @ cs ! k # drop (Suc k) cs" using k by (simp add: id_take_nth_drop)
  have ps: "projections cs = projections (take k cs) @ (a + 1) # projections (drop (Suc k) cs)"
    using r by (subst split) simp
  have "length (projections cs) \<le> length cs"
    by (simp add: projections_def List.map_filter_def)
  then have "?n = 0"
    using chained_first [OF ok, of ?n] small by (simp add: ps)
  then show ?thesis using ok by (simp add: ps)
qed

end
