(* ===== verification/Integrity.thy ===== *)
theory Integrity
  imports Commit
begin

text \<open>
  What the running digest of a history is worth. \<open>digest_inputs\<close> lists the byte strings hashed
  while a list of entries is digested; when no two of them collide and the encoding of an entry
  determines it, equal digests of lists of one length mean equal lists. With that, a verified
  suffix is a suffix, and the entries of an accepted delta are the entries of the new history. The
  chunked representation is canonical: a list of entries has one history.
\<close>

section \<open>No collision among the hashed inputs\<close>

fun digest_inputs :: "'x hashing_scheme \<Rightarrow> bytes \<Rightarrow> history_entry list \<Rightarrow> bytes list" where
  "digest_inputs H d [] = []"
| "digest_inputs H d (e # es) = (case hash_entry_json H e of
       Inl _ \<Rightarrow> []
     | Inr encoded \<Rightarrow> digest_input d encoded
         # digest_inputs H (hash_sha256 H (digest_input d encoded)) es)"

text \<open>Documented behaviour of the two libraries: SHA-256 yields 32 bytes, JSON loses nothing.\<close>

definition hashing_lawful :: "'x hashing_scheme \<Rightarrow> bool" where
  "hashing_lawful H \<longleftrightarrow> (\<forall>x. length (hash_sha256 H x) = 32)
     \<and> (\<forall>a b. is_ok (hash_entry_json H a) \<longrightarrow> hash_entry_json H a = hash_entry_json H b \<longrightarrow> a = b)"

definition collision_free :: "'x hashing_scheme \<Rightarrow> history_entry list \<Rightarrow> history_entry list \<Rightarrow> bool" where
  "collision_free H es es' \<longleftrightarrow>
     inj_on (hash_sha256 H) (set (digest_inputs H zero_digest es) \<union> set (digest_inputs H zero_digest es'))"

lemma digest_inputs_append:
  "digest_chain H d es = Inr d' \<Longrightarrow>
     digest_inputs H d (es @ es') = digest_inputs H d es @ digest_inputs H d' es'"
  by (induction es arbitrary: d)
     (auto simp: r_bind_Inr append_digest_def split: sum.splits)

lemma digest_chain_snoc:
  "digest_chain H d (es @ [e]) = Inr x \<longleftrightarrow>
     (\<exists>d' encoded. digest_chain H d es = Inr d' \<and> hash_entry_json H e = Inr encoded
        \<and> x = hash_sha256 H (digest_input d' encoded))"
  by (cases "hash_entry_json H e") (auto simp: digest_chain_append r_bind_Inr append_digest_def)

lemma digest_chain_length:
  assumes "hashing_lawful H" and "length d = 32" and "digest_chain H d es = Inr d'"
  shows "length d' = 32"
  using assms(2,3)
proof (induction es arbitrary: d)
  case (Cons e es)
  then show ?case
    using assms(1) by (auto simp: r_bind_Inr append_digest_def hashing_lawful_def split: sum.splits)
qed simp

lemma digest_input_inject:
  assumes "length d = length d'" and "digest_input d encoded = digest_input d' encoded'"
  shows "d = d' \<and> encoded = encoded'"
  using assms by (simp add: digest_input_def be_bytes_def)

lemma digest_chain_unique_gen:
  assumes law: "hashing_lawful H" and d: "length d = 32"
    and "length es = length es'"
    and "inj_on (hash_sha256 H) (set (digest_inputs H d es) \<union> set (digest_inputs H d es'))"
    and "digest_chain H d es = Inr x" and "digest_chain H d es' = Inr x"
  shows "es = es'"
  using assms(3-6)
proof (induction es arbitrary: es' x rule: rev_induct)
  case (snoc e es)
  obtain e' es0 where es': "es' = es0 @ [e']"
    using snoc.prems(1) by (cases es' rule: rev_cases) auto
  obtain d1 b1 where 1: "digest_chain H d es = Inr d1" "hash_entry_json H e = Inr b1"
      "x = hash_sha256 H (digest_input d1 b1)"
    using snoc.prems(3) by (auto simp: digest_chain_snoc)
  obtain d2 b2 where 2: "digest_chain H d es0 = Inr d2" "hash_entry_json H e' = Inr b2"
      "x = hash_sha256 H (digest_input d2 b2)"
    using snoc.prems(4) by (auto simp: es' digest_chain_snoc)
  have in1: "digest_inputs H d (es @ [e]) = digest_inputs H d es @ [digest_input d1 b1]"
    using 1 by (simp add: digest_inputs_append)
  have in2: "digest_inputs H d es' = digest_inputs H d es0 @ [digest_input d2 b2]"
    using 2 by (simp add: es' digest_inputs_append)
  have "digest_input d1 b1 = digest_input d2 b2"
    using snoc.prems(2) 1(3) 2(3) unfolding in1 in2 by (auto dest: inj_onD)
  moreover have "length d1 = length d2"
    using digest_chain_length [OF law d 1(1)] digest_chain_length [OF law d 2(1)] by simp
  ultimately have eq: "d1 = d2" "b1 = b2" using digest_input_inject by blast+
  have "e = e'" using law 1(2) 2(2) eq(2) by (auto simp: hashing_lawful_def)
  moreover have "inj_on (hash_sha256 H) (set (digest_inputs H d es) \<union> set (digest_inputs H d es0))"
    using snoc.prems(2) unfolding in1 in2 by (rule inj_on_subset) auto
  then have "es = es0" using snoc.IH [of es0 d1] snoc.prems(1) 1(1) 2(1) eq(1) es' by simp
  ultimately show ?case by (simp add: es')
qed simp

lemma zero_digest_length [simp]: "length zero_digest = 32"
  by (simp add: zero_digest_def)

lemma digest_chain_unique:
  assumes "hashing_lawful H" and "collision_free H es es'" and "length es = length es'"
    and "digest_chain H zero_digest es = Inr x" and "digest_chain H zero_digest es' = Inr x"
  shows "es = es'"
  using digest_chain_unique_gen [OF assms(1) zero_digest_length assms(3) _ assms(4,5)] assms(2)
  by (simp add: collision_free_def)

lemma digest_inputs_take:
  assumes "digest_chain H zero_digest es = Inr d"
  shows "set (digest_inputs H zero_digest (take n es)) \<subseteq> set (digest_inputs H zero_digest es)"
proof -
  obtain d' where d': "digest_chain H zero_digest (take n es) = Inr d'"
    using digest_chain_take [OF assms] by blast
  show ?thesis
    using digest_inputs_append [OF d', of "drop n es"] by simp
qed

lemma collision_free_take:
  assumes "collision_free H es es'" and "digest_chain H zero_digest es = Inr d"
  shows "collision_free H (take n es) es'"
  using assms(1) digest_inputs_take [OF assms(2), of n] unfolding collision_free_def
  by (rule_tac inj_on_subset) auto

text \<open>A verified suffix is a suffix: the earlier history is a prefix of the later one.\<close>

lemma appended_since_prefix:
  assumes ok: "history_ok H h" "history_ok H p"
    and law: "hashing_lawful H" and free: "collision_free H (history_entries h) (history_entries p)"
    and "appended_since h p = Some (Inr es)"
  shows "history_entries h = history_entries p @ es"
proof -
  let ?k = "hist_len p"
  have len: "?k \<le> hist_len h" and es: "es = drop ?k (history_entries h)"
    and pre: "digest_chain H zero_digest (take ?k (history_entries h)) = Inr (hist_digest p)"
    using assms(5) unfolding appended_since_spec [OF ok] by (auto split: if_splits)
  have "take ?k (history_entries h) = history_entries p"
    using len history_ok_len [OF ok(1)] history_ok_len [OF ok(2)] pre history_ok_digest [OF ok(2)]
      collision_free_take [OF free history_ok_digest [OF ok(1)]]
    by (intro digest_chain_unique [OF law]) auto
  then show ?thesis by (metis es append_take_drop_id)
qed

section \<open>A list of entries has one representation\<close>

lemma node_ok_unique:
  assumes "node_ok H n" and "node_ok H n'" and "node_entries n = node_entries n'"
  shows "n = n'"
  using assms
proof (induction n arbitrary: n' rule: node_entries.induct)
  case (1 p ms ds len d)
  obtain p' ms' ds' len' d' where n': "n' = Node p' ms' ds' len' d'" by (cases n')
  have full: "length (prev_entries q) mod chunk_size = 0" if "case q of None \<Rightarrow> True
      | Some n \<Rightarrow> node_ok H n \<and> length (node_messages n) = chunk_size" for q
    using that
  proof (cases q)
    case (Some m)
    have "node_ok H m \<and> length (node_messages m) = chunk_size \<Longrightarrow> length (node_entries m) mod chunk_size = 0" for m
      by (induction m rule: node_entries.induct) (auto simp: prev_entries_def split: option.splits)
    then show ?thesis using that Some by (simp add: prev_entries_def)
  qed (simp add: prev_entries_def)
  have es: "prev_entries p @ ms = prev_entries p' @ ms'"
    using 1 by (simp add: n' prev_entries_def)
  have a: "ms \<noteq> []" "length ms \<le> chunk_size" "ms' \<noteq> []" "length ms' \<le> chunk_size"
    using "1.prems" by (auto simp: n')
  have m: "length (prev_entries p) mod chunk_size = 0" "length (prev_entries p') mod chunk_size = 0"
    using "1.prems" full by (auto simp: n' split: option.splits)
  have lens: "length (prev_entries p) + length ms = length (prev_entries p') + length ms'"
    using arg_cong [OF es, of length] by simp
  have "length (prev_entries p) = length (prev_entries p')"
  proof -
    obtain i j where ij: "length (prev_entries p) = chunk_size * i" "length (prev_entries p') = chunk_size * j"
      using m by (metis mod_0_imp_dvd dvdE)
    have l: "0 < length ms" "0 < length ms'" using a by simp_all
    have apart: "False" if "i < j" "chunk_size * i + x = chunk_size * j + y" "x \<le> chunk_size" "0 < y"
      for i j x y :: nat
    proof -
      have "chunk_size * Suc i \<le> chunk_size * j" using that(1) by (intro mult_le_mono2) simp
      then show False using that by simp
    qed
    have "i = j"
      using lens a(2,4) l apart [of i j "length ms" "length ms'"] apart [of j i "length ms'" "length ms"]
      unfolding ij by (metis linorder_neqE_nat)
    then show ?thesis using ij by simp
  qed
  with es have prev: "prev_entries p = prev_entries p'" and ms: "ms = ms'" by simp_all
  have ds: "ds = ds'"
    using "1.prems"(1,2) prev ms unfolding n'
    by (intro nth_equalityI) auto
  have "p = p'"
  proof (cases p)
    case None
    then show ?thesis using prev "1.prems"(2) n' by (cases p') (auto simp: prev_entries_def elim: node_ok.elims)
  next
    case (Some q)
    then obtain q' where "p' = Some q'"
      using prev "1.prems"(1) by (cases p') (auto simp: prev_entries_def elim: node_ok.elims)
    then show ?thesis using Some prev "1.IH" [OF Some, of q'] "1.prems"(1,2) n'
      by (simp add: prev_entries_def)
  qed
  then show ?case using "1.prems"(1,2) ms ds n' by auto
qed

lemma node_entries_nonempty: "node_ok H n \<Longrightarrow> node_entries n \<noteq> []"
  by (cases n) auto

lemma history_ok_unique:
  assumes "history_ok H h" and "history_ok H h'" and "history_entries h = history_entries h'"
  shows "h = h'"
proof -
  have "hist_head h = hist_head h'"
  proof (cases "hist_head h"; cases "hist_head h'")
    fix n n'
    assume n: "hist_head h = Some n" "hist_head h' = Some n'"
    then have "node_ok H n" "node_ok H n'" "node_entries n = node_entries n'"
      using assms by (simp_all add: history_ok_def history_entries_head prev_entries_def)
    from node_ok_unique [OF this] show ?thesis by (simp add: n)
  qed (use assms in \<open>auto simp: history_ok_def history_entries_head prev_entries_def
         dest!: node_entries_nonempty\<close>)
  moreover have "hist_order h = hist_order h'"
    using assms by (simp add: history_ok_def)
  moreover have "hist_len h = hist_len h'"
    using assms by (simp add: history_ok_len)
  moreover have "hist_digest h = hist_digest h'"
    using history_ok_digest [OF assms(1)] history_ok_digest [OF assms(2)] assms(3) by simp
  ultimately show ?thesis by simp
qed

lemma history_from_entries_ok:
  "history_from_entries H es = Inr h \<Longrightarrow> history_ok H h \<and> history_entries h = es"
  using history_append_ok [of H history_default es h] by (simp add: history_from_entries_def)

lemma history_from_entries_roundtrip:
  assumes ok: "history_ok H h" and valid: "\<forall>e \<in> set (history_entries h). entry_validate e = Inr ()"
  shows "history_from_entries H (history_entries h) = Inr h"
proof -
  have "digest_chain H (hist_digest history_default) (history_entries h) = Inr (hist_digest h)"
    using history_ok_digest [OF ok] by (simp add: history_default_def)
  then obtain h' where h': "history_from_entries H (history_entries h) = Inr h'"
    using history_append_total [OF valid] unfolding history_from_entries_def by blast
  then show ?thesis
    using history_from_entries_ok [OF h'] history_ok_unique ok by auto
qed

end
