(* ===== verification/Engine_Operations.thy ===== *)
theory Engine_Operations
  imports Projection Integrity
begin

text \<open>
  Operations of the engine: their completion (\<open>completion.rs\<close>) and the events they report
  (\<open>operations.rs\<close>). A result is one entry of the history named after the operation; the lemmas
  show that a completion is recorded once, that repeating it changes nothing, that a different one
  is refused, and that an event whose sequence was already seen is ignored.
\<close>

section \<open>Identities and outcomes\<close>

text \<open>The \<open>json!\<close> array that names a provider operation, rendered by the serialisation library.\<close>

definition json_opt :: "string option \<Rightarrow> json" where
  "json_opt s = (case s of None \<Rightarrow> Null | Some t \<Rightarrow> String t)"

definition provider_operation_id :: "'st kernel_env \<Rightarrow> call_ref \<Rightarrow> string" where
  "provider_operation_id E origin = ''provider:'' @ ke_json_text E (Array
     [String (cr_session_id origin), json_opt (cr_generation_id origin),
      String (cr_caller_id origin), String (cr_call_id origin)])"

definition same_outcome :: "message \<Rightarrow> operation_outcome \<Rightarrow> bool" where
  "same_outcome m outcome = (case m of
       RuntimeTool _ _ previous \<Rightarrow> previous = outcome
     | DelegationResult _ previous \<Rightarrow> previous = outcome
     | Assistant items _ \<Rightarrow> (\<exists>item \<in> set items. case item of
           ProviderToolCall call \<Rightarrow> matches_outcome call outcome | _ \<Rightarrow> False)
     | _ \<Rightarrow> False)"

definition result_id :: "string \<Rightarrow> string" where
  "result_id i = ''operation:'' @ i @ '':result''"

section \<open>Completion\<close>

text \<open>The mutations of the operation record that both completions share.\<close>

definition settle_operation ::
  "operation_outcome \<Rightarrow> u64 option \<Rightarrow> nat \<Rightarrow> operation_record \<Rightarrow> operation_record" where
  "settle_operation outcome sequence index op = op\<lparr>
     op_state := outcome_state outcome,
     op_last_sequence := (case sequence of None \<Rightarrow> op_last_sequence op | Some s \<Rightarrow> Some s),
     op_last_update := (case sequence of None \<Rightarrow> op_last_update op | Some _ \<Rightarrow> Some (UpdateFinished outcome)),
     op_result_entry := Some index,
     op_wait := None\<rparr>"

definition result_entry_of :: "operation_record \<Rightarrow> string \<Rightarrow> string option \<Rightarrow> operation_outcome \<Rightarrow> history_entry" where
  "result_entry_of record i name outcome = \<lparr>he_id = result_id i, he_origin = Some (op_origin record),
     he_message = (case name of
         Some n \<Rightarrow> RuntimeTool (cr_call_id (op_origin record)) n outcome
       | None \<Rightarrow> DelegationResult (cr_call_id (op_origin record)) outcome)\<rparr>"

definition finish_local ::
  "'st kernel_env \<Rightarrow> string \<Rightarrow> operation_record \<Rightarrow> string option \<Rightarrow> operation_outcome \<Rightarrow> u64 option
     \<Rightarrow> ('st engine, unit) exec" where
  "finish_local E i record name outcome sequence = e_get (\<lambda>e.
     let entry = result_entry_of record i name outcome; index = hist_len (cp_history (en_current e)) in
     e_bind (e_lift (history_append (ke_ext E) (cp_history (en_current e)) [entry])) (\<lambda>h.
     e_bind (e_new_id E) (\<lambda>command_id.
     let next = append_command command_id index Submitted (Some i)
           (map_operations (om_modify i (settle_operation outcome sequence index))
              ((en_current e)\<lparr>cp_history := h\<rparr>)) in
     e_then (e_commit E next (FOperation i (outcome_state outcome)) (Append [entry]))
       (e_modify (\<lambda>e. e\<lparr>en_tokens := en_tokens e - {i},
                         en_operation_controls := en_operation_controls e - {i}\<rparr>)))))"

fun provider_call_of :: "output_item \<Rightarrow> provider_tool_call option" where
  "provider_call_of (ProviderToolCall call) = Some call"
| "provider_call_of _ = None"

fun first_some :: "('a \<Rightarrow> 'b option) \<Rightarrow> 'a list \<Rightarrow> 'b option" where
  "first_some f [] = None"
| "first_some f (x # xs) = (case f x of Some y \<Rightarrow> Some y | None \<Rightarrow> first_some f xs)"

definition settled_call :: "provider_tool_call \<Rightarrow> operation_outcome \<Rightarrow> provider_tool_call" where
  "settled_call call outcome = call\<lparr>
     ptc_status := (case outcome_state outcome of
         Succeeded \<Rightarrow> StatusCompleted | OpCancelled \<Rightarrow> StatusCancelled | _ \<Rightarrow> StatusFailed),
     ptc_output := outcome_content outcome,
     ptc_outcome := Some (provider_outcome outcome)\<rparr>"

text \<open>The call entry exists in a validated checkpoint; the source panics where it is missing.\<close>

definition finish_provider ::
  "'st kernel_env \<Rightarrow> operation_record \<Rightarrow> operation_outcome \<Rightarrow> u64 option \<Rightarrow> ('st engine, unit) exec" where
  "finish_provider E record outcome sequence = e_get (\<lambda>e.
     case map_option he_message (history_get (cp_history (en_current e)) (op_call_entry record)) of
       Some (Assistant items _) \<Rightarrow>
         (case first_some provider_call_of items of
            None \<Rightarrow> e_fail (Protocol ''provider call missing'')
          | Some call \<Rightarrow>
              (let index = hist_len (cp_history (en_current e));
                   entry = \<lparr>he_id = result_id (op_id record), he_origin = Some (op_origin record),
                            he_message = Assistant [ProviderToolCall (settled_call call outcome)] Null\<rparr> in
               e_bind (e_lift (history_append (ke_ext E) (cp_history (en_current e)) [entry])) (\<lambda>h.
               e_bind (e_new_id E) (\<lambda>command_id.
               let next = append_command command_id index Accepted None
                     ((map_operations (om_modify (op_id record) (settle_operation outcome sequence index))
                        (en_current e))\<lparr>cp_history := h\<rparr>) in
               e_commit E next (FOperation (op_id record) (outcome_state outcome)) (Append [entry])))))
     | _ \<Rightarrow> e_fail (Protocol ''provider call entry mismatch''))"

text \<open>
  A terminal operation has a result entry in a validated checkpoint; the source panics where it has
  none.
\<close>

definition finish_at ::
  "'st kernel_env \<Rightarrow> string \<Rightarrow> operation_outcome \<Rightarrow> u64 option \<Rightarrow> ('st engine, unit) exec" where
  "finish_at E i outcome sequence = e_then (e_lift (outcome_validate outcome)) (e_get (\<lambda>e.
     let h = cp_history (en_current e) in
     case om_get (cp_operations (en_current e)) i of
       None \<Rightarrow>
         (if some_and (\<lambda>entry. same_outcome (he_message entry) outcome) (history_by_id h (result_id i))
          then e_return () else e_fail (Protocol ''unknown or conflicting operation completion''))
     | Some record \<Rightarrow>
         (if op_terminal (op_state record)
          then (if some_and (\<lambda>entry. same_outcome (he_message entry) outcome)
                     (Option.bind (op_result_entry record) (history_get h))
                then e_return () else e_fail (Protocol ''conflicting operation completion''))
          else (case op_owner record of
              OwnerRuntimeTool name \<Rightarrow> finish_local E i record (Some name) outcome sequence
            | OwnerDelegation \<Rightarrow> finish_local E i record None outcome sequence
            | OwnerProvider _ \<Rightarrow> finish_provider E record outcome sequence))))"

definition finish :: "'st kernel_env \<Rightarrow> string \<Rightarrow> operation_outcome \<Rightarrow> ('st engine, unit) exec" where
  "finish E i outcome = finish_at E i outcome None"

section \<open>Events\<close>

text \<open>What a cursor says of an event: \<open>Some\<close> when it was already seen.\<close>

definition replayed :: "string \<Rightarrow> operation_record \<Rightarrow> operation_event \<Rightarrow> unit result option" where
  "replayed msg record event = (case op_last_sequence record of
       None \<Rightarrow> None
     | Some previous \<Rightarrow>
         (if oe_sequence event = previous
          then Some (fail_if (op_last_update record \<noteq> Some (oe_update event)) (Protocol msg))
          else if oe_sequence event < previous then Some (Inr ())
          else None))"

definition note_update :: "operation_event \<Rightarrow> operation_record \<Rightarrow> operation_record" where
  "note_update event op = op\<lparr>op_last_sequence := Some (oe_sequence event),
                             op_last_update := Some (oe_update event)\<rparr>"

definition delegation_context ::
  "'st kernel_env \<Rightarrow> string \<Rightarrow> operation_event \<Rightarrow> content list \<Rightarrow> ('st engine, unit) exec" where
  "delegation_context E i event content = e_get (\<lambda>e.
     case om_get (cp_operations (en_current e)) i of
       None \<Rightarrow> e_fail (Protocol ''unknown context operation'')
     | Some record \<Rightarrow>
         (if op_owner record \<noteq> OwnerDelegation \<or> op_terminal (op_state record)
          then e_fail (Protocol ''context requires an active delegation'')
          else (case replayed ''conflicting delegation context'' record event of
              Some r \<Rightarrow> e_lift r
            | None \<Rightarrow>
                e_then (e_lift (each content_validate content)) (e_bind (e_new_id E) (\<lambda>command_id.
                  e_commit E (push_command command_id (IDelegationContext i content) False
                      (map_operations (om_modify i (note_update event)) (en_current e)))
                    (FOperation i (op_state record)) Unchanged)))))"

definition or_else :: "'a option \<Rightarrow> 'a option \<Rightarrow> 'a option" where
  "or_else a b = (case a of None \<Rightarrow> b | Some _ \<Rightarrow> a)"

definition reason_json :: "string \<Rightarrow> json" where
  "reason_json reason = Object [(''reason'', String reason)]"

fun advance_operation :: "operation_update \<Rightarrow> operation_record \<Rightarrow> operation_record" where
  "advance_operation (UpdateRunning recovery) op =
     op\<lparr>op_state := Running, op_recovery := or_else recovery (op_recovery op), op_wait := None\<rparr>"
| "advance_operation (UpdateWaiting prompt recovery) op =
     op\<lparr>op_state := Waiting, op_wait := Some prompt, op_recovery := or_else recovery (op_recovery op)\<rparr>"
| "advance_operation (UpdateUnknown reason) op =
     op\<lparr>op_state := Unknown, op_wait := Some (reason_json reason)\<rparr>"
| "advance_operation _ op = op"

definition apply_update :: "'st kernel_env \<Rightarrow> string \<Rightarrow> operation_event \<Rightarrow> ('st engine, unit) exec" where
  "apply_update E i event = e_get (\<lambda>e.
     case om_get (cp_operations (en_current e)) i of
       None \<Rightarrow> e_fail (Protocol ''unknown operation event'')
     | Some record \<Rightarrow>
         (case oe_update event of
            UpdateProgress v \<Rightarrow> e_log (Emit (OperationProgress i v))
          | update \<Rightarrow>
              (if op_terminal (op_state record) then e_fail (Protocol ''update follows terminal operation'')
               else e_commit E
                 (map_operations (om_modify i (\<lambda>op. advance_operation update (note_update event op))) (en_current e))
                 (FOperation i (op_state (advance_operation update record))) Unchanged)))"

definition operation_event_step :: "'st kernel_env \<Rightarrow> string \<Rightarrow> operation_event \<Rightarrow> ('st engine, unit) exec" where
  "operation_event_step E i event = (case oe_update event of
       UpdateContext content \<Rightarrow> delegation_context E i event content
     | update \<Rightarrow> e_get (\<lambda>e.
         case Option.bind (om_get (cp_operations (en_current e)) i)
                (\<lambda>record. replayed ''conflicting operation event sequence'' record event) of
           Some r \<Rightarrow> e_lift r
         | None \<Rightarrow>
             (case update of
                UpdateFinished outcome \<Rightarrow> finish_at E i outcome (Some (oe_sequence event))
              | _ \<Rightarrow> apply_update E i event)))"

definition local_operation_update ::
  "'st kernel_env \<Rightarrow> string \<Rightarrow> operation_state \<Rightarrow> json option \<Rightarrow> ('st engine, unit) exec" where
  "local_operation_update E i state wait = e_get (\<lambda>e.
     case om_get (cp_operations (en_current e)) i of
       None \<Rightarrow> e_fail (Protocol ''unknown operation'')
     | Some op \<Rightarrow>
         (if op_terminal (op_state op) then e_fail (Protocol ''update follows terminal operation'')
          else e_commit E (map_operations (om_modify i (\<lambda>op. op\<lparr>op_state := state, op_wait := wait\<rparr>)) (en_current e))
                 (FOperation i state) Unchanged))"

definition unknown :: "'st kernel_env \<Rightarrow> string \<Rightarrow> string \<Rightarrow> ('st engine, unit) exec" where
  "unknown E i reason = local_operation_update E i Unknown (Some (reason_json reason))"

definition install_operation ::
  "'st kernel_env \<Rightarrow> string \<Rightarrow> recovery_ref option \<Rightarrow> ('st engine, unit) exec" where
  "install_operation E i recovery = e_get (\<lambda>e.
     case om_get (cp_operations (en_current e)) i of
       None \<Rightarrow> e_fail (Protocol ''unknown started operation'')
     | Some op \<Rightarrow>
         e_then (e_commit E (map_operations
             (om_modify i (\<lambda>op. op\<lparr>op_recovery := or_else recovery (op_recovery op)\<rparr>)) (en_current e))
           (FOperation i (op_state op)) Unchanged)
        (e_then (if op_state op = Cancelling then e_log (CancelOperation i) else e_return ())
        (e_then (e_modify (\<lambda>e. e\<lparr>en_operation_controls := insert i (en_operation_controls e)\<rparr>))
          (e_log (PumpOperation i)))))"

section \<open>The projection invariant\<close>

abbreviation keeps_projection :: "('st engine, 'a) exec \<Rightarrow> bool" where
  "keeps_projection \<equiv> keeps (\<lambda>e. projection_ok (en_current e))"

lemma projection_history [simp]: "projection_ok (c\<lparr>cp_history := h\<rparr>) = projection_ok c"
  by (simp add: projection_ok_def)

lemma projection_state [simp]: "projection_ok (c\<lparr>cp_state := s\<rparr>) = projection_ok c"
  by (simp add: projection_ok_def)

lemma projection_metrics [simp]: "projection_ok (c\<lparr>cp_metrics := m\<rparr>) = projection_ok c"
  by (simp add: projection_ok_def)

lemmas keeps_projection_commit = keeps_commit [OF projection_stable]

lemma suspend_projection [keeps_intros]: "keeps_projection (e_suspend E reason)"
  by (rule keeps_suspend [OF projection_stable]) simp

lemma finish_local_projection: "keeps_projection (finish_local E i record name outcome sequence)"
  unfolding finish_local_def Let_def
  by (intro keeps_intros keeps_projection_commit) simp_all

lemma finish_provider_projection: "keeps_projection (finish_provider E record outcome sequence)"
  unfolding finish_provider_def Let_def
  by (intro keeps_get') (auto intro!: keeps_intros keeps_projection_commit split: option.split message.split)

lemma finish_at_projection [keeps_intros]: "keeps_projection (finish_at E i outcome sequence)"
  unfolding finish_at_def Let_def
  by (intro keeps_intros)
     (auto intro: finish_local_projection finish_provider_projection split: option.split operation_owner.split)

lemma finish_projection [keeps_intros]: "keeps_projection (finish E i outcome)"
  unfolding finish_def by (rule finish_at_projection)

lemma apply_update_projection: "keeps_projection (apply_update E i event)"
  unfolding apply_update_def
  by (intro keeps_get')
     (auto intro!: keeps_intros keeps_projection_commit split: option.split operation_update.split)

lemma delegation_context_projection: "keeps_projection (delegation_context E i event content)"
  unfolding delegation_context_def
  by (intro keeps_get') (auto intro!: keeps_intros keeps_projection_commit split: option.split)

lemma operation_event_projection [keeps_intros]: "keeps_projection (operation_event_step E i event)"
  unfolding operation_event_step_def
  by (auto intro!: keeps_intros delegation_context_projection apply_update_projection
        split: option.split operation_update.split)

lemma local_update_projection [keeps_intros]: "keeps_projection (local_operation_update E i state wait)"
  unfolding local_operation_update_def
  by (intro keeps_get') (auto intro!: keeps_intros keeps_projection_commit split: option.split)

lemma unknown_projection [keeps_intros]: "keeps_projection (unknown E i reason)"
  unfolding unknown_def by (rule local_update_projection)

lemma install_projection [keeps_intros]: "keeps_projection (install_operation E i recovery)"
  unfolding install_operation_def
  by (intro keeps_get') (auto intro!: keeps_intros keeps_projection_commit split: option.split)

section \<open>One result per operation\<close>

definition ops_keyed :: "checkpoint \<Rightarrow> bool" where
  "ops_keyed c \<longleftrightarrow> (\<forall>i op. om_get (cp_operations c) i = Some op \<longrightarrow> op_id op = i)"

lemma settle_operation_simps [simp]:
  "op_state (settle_operation outcome s k op) = outcome_state outcome"
  "op_result_entry (settle_operation outcome s k op) = Some k"
  "op_id (settle_operation outcome s k op) = op_id op"
  "op_owner (settle_operation outcome s k op) = op_owner op"
  "op_origin (settle_operation outcome s k op) = op_origin op"
  "op_call_entry (settle_operation outcome s k op) = op_call_entry op"
  by (simp_all add: settle_operation_def)

lemma history_append_last:
  assumes "history_ok H h" and "history_append H h [e] = Inr h'"
  shows "history_get h' (hist_len h) = Some e" and "history_entries h' = history_entries h @ [e]"
    and "history_ok H h'"
  using history_append_ok [OF assms] history_get_nth [of H h' "hist_len h"] history_ok_len [OF assms(1)]
  by (auto simp: nth_append)

lemma settled_call_matches: "matches_outcome (settled_call call outcome) outcome' \<longleftrightarrow> outcome' = outcome"
  by (cases outcome; cases outcome') (auto simp: matches_outcome_iff settled_call_def)

text \<open>
  A successful completion of an unsettled operation is one commit, of a checkpoint in which the operation
  is settled and the history has one more entry, the result for the owner of the operation.
\<close>

lemma finish_at_step:
  assumes keyed: "ops_keyed (en_current e)"
    and op: "om_get (cp_operations (en_current e)) i = Some record" "\<not> op_terminal (op_state record)"
    and fin: "finish_at E i outcome sequence e = (Inr (), e')"
  obtains (settled) entry "next" e0 e1 where "outcome_validate outcome = Inr ()"
    "history_append (ke_ext E) (cp_history (en_current e)) [entry] = Inr (cp_history next)"
    "cp_operations next = om_modify i (settle_operation outcome sequence (hist_len (cp_history (en_current e))))
       (cp_operations (en_current e))"
    "e_commit E next (FOperation i (outcome_state outcome)) (Append [entry]) e0 = (Inr (), e1)"
    "en_current e0 = en_current e" "en_log e0 = en_log e"
    "en_current e' = en_current e1" "en_log e' = en_log e1"
    "he_id entry = result_id i" "he_origin entry = Some (op_origin record)"
    "case op_owner record of
         OwnerRuntimeTool n \<Rightarrow> he_message entry = RuntimeTool (cr_call_id (op_origin record)) n outcome
       | OwnerDelegation \<Rightarrow> he_message entry = DelegationResult (cr_call_id (op_origin record)) outcome
       | OwnerProvider _ \<Rightarrow> (\<exists>call. he_message entry = Assistant [ProviderToolCall (settled_call call outcome)] Null)"
proof -
  have valid: "outcome_validate outcome = Inr ()"
    using fin by (auto simp: finish_at_def e_then_eq_Inr)
  let ?k = "hist_len (cp_history (en_current e))"
  show thesis
  proof (cases "owner_is_provider (op_owner record)")
    case False
    define name where "name = (case op_owner record of OwnerRuntimeTool n \<Rightarrow> Some n | _ \<Rightarrow> None)"
    define entry where "entry = result_entry_of record i name outcome"
    have "finish_local E i record name outcome sequence e = (Inr (), e')"
      using fin valid op False
      by (auto simp: finish_at_def e_then_def Let_def owner_is_provider_def name_def split: operation_owner.splits)
    then obtain h j e1 where h: "history_append (ke_ext E) (cp_history (en_current e)) [entry] = Inr h"
      and c: "e_commit E (append_command j ?k Submitted (Some i)
            (map_operations (om_modify i (settle_operation outcome sequence ?k)) ((en_current e)\<lparr>cp_history := h\<rparr>)))
          (FOperation i (outcome_state outcome)) (Append [entry]) (e\<lparr>en_ids := en_ids e + 1\<rparr>) = (Inr (), e1)"
      and e': "en_current e' = en_current e1" "en_log e' = en_log e1"
      unfolding finish_local_def Let_def e_then_def
      by (auto simp: e_bind_eq_Inr entry_def [symmetric])
    show thesis
      by (rule settled [OF valid _ _ c _ _ e'])
        (use False h in \<open>simp_all add: entry_def result_entry_of_def name_def owner_is_provider_def split: operation_owner.splits\<close>)
  next
    case True
    then have "finish_provider E record outcome sequence e = (Inr (), e')"
      using fin valid op
      by (auto simp: finish_at_def e_then_def Let_def owner_is_provider_def split: operation_owner.splits)
    moreover have key: "op_id record = i" using keyed op(1) by (simp add: ops_keyed_def)
    ultimately obtain call h j where
      h: "history_append (ke_ext E) (cp_history (en_current e)) [\<lparr>he_id = result_id i,
            he_origin = Some (op_origin record),
            he_message = Assistant [ProviderToolCall (settled_call call outcome)] Null\<rparr>] = Inr h"
      and c: "e_commit E (append_command j ?k Accepted None
            ((map_operations (om_modify i (settle_operation outcome sequence ?k)) (en_current e))\<lparr>cp_history := h\<rparr>))
          (FOperation i (outcome_state outcome)) (Append [\<lparr>he_id = result_id i,
            he_origin = Some (op_origin record),
            he_message = Assistant [ProviderToolCall (settled_call call outcome)] Null\<rparr>])
          (e\<lparr>en_ids := en_ids e + 1\<rparr>) = (Inr (), e')"
      unfolding finish_provider_def Let_def
      by (auto simp: e_bind_eq_Inr split: option.splits message.splits)
    show thesis
      by (rule settled [OF valid _ _ c _ _ refl refl])
        (use True h in \<open>auto simp: owner_is_provider_def split: operation_owner.splits\<close>)
  qed
qed

text \<open>The result entry, the last of the history, tells its outcome from any other.\<close>

lemma finish_at_commits:
  assumes ok: "history_ok (ke_ext E) (cp_history (en_current e))" and keyed: "ops_keyed (en_current e)"
    and op: "om_get (cp_operations (en_current e)) i = Some record" "\<not> op_terminal (op_state record)"
    and fin: "finish_at E i outcome sequence e = (Inr (), e')"
  shows "outcome_validate outcome = Inr ()
     \<and> om_get (cp_operations (en_current e')) i
         = Some (settle_operation outcome sequence (hist_len (cp_history (en_current e))) record)
     \<and> history_ok (ke_ext E) (cp_history (en_current e'))
     \<and> (\<exists>entry. history_entries (cp_history (en_current e')) = history_entries (cp_history (en_current e)) @ [entry]
          \<and> he_id entry = result_id i \<and> he_origin entry = Some (op_origin record)
          \<and> history_get (cp_history (en_current e')) (hist_len (cp_history (en_current e))) = Some entry
          \<and> (\<forall>outcome'. same_outcome (he_message entry) outcome' \<longleftrightarrow> outcome' = outcome))"
  using keyed op fin
proof (cases rule: finish_at_step)
  case (settled entry "next" e0 e1)
  have "same_outcome (he_message entry) outcome' \<longleftrightarrow> outcome' = outcome" for outcome'
    using settled(11) by (auto simp: same_outcome_def settled_call_matches split: operation_owner.splits)
  then show ?thesis
    using settled(1,3,5,7,9,10) e_commit_current [OF settled(4)] history_append_last [OF ok settled(2)] op(1) by simp
qed

lemma finish_at_settled:
  assumes "om_get (cp_operations (en_current e)) i = Some record" and "op_terminal (op_state record)"
    and "op_result_entry record = Some k" and "history_get (cp_history (en_current e)) k = Some entry"
  shows "outcome_validate outcome = Inr () \<Longrightarrow> finish_at E i outcome sequence e =
    (if same_outcome (he_message entry) outcome then Inr () else Inl (Protocol ''conflicting operation completion''), e)"
  using assms by (simp add: finish_at_def e_then_def Let_def)

text \<open>Repeating a completion changes nothing, and a different outcome is refused.\<close>

lemma finish_once:
  assumes "history_ok (ke_ext E) (cp_history (en_current e))" and "ops_keyed (en_current e)"
    and "om_get (cp_operations (en_current e)) i = Some record" "\<not> op_terminal (op_state record)"
    and "finish_at E i outcome sequence e = (Inr (), e')" and "outcome_validate outcome' = Inr ()"
  shows "finish_at E i outcome' sequence' e' =
    (if outcome' = outcome then Inr () else Inl (Protocol ''conflicting operation completion''), e')"
  using finish_at_commits [OF assms(1-5)] finish_at_settled [of e' i _ _ _ outcome' E sequence'] assms(6)
  by fastforce

section \<open>Cursors\<close>

definition is_context_update :: "operation_update \<Rightarrow> bool" where
  "is_context_update update = (case update of UpdateContext _ \<Rightarrow> True | _ \<Rightarrow> False)"

lemma replayed_event:
  assumes "om_get (cp_operations (en_current e)) i = Some record" and "op_last_sequence record = Some s"
    and "oe_sequence event < s" and "\<not> is_context_update (oe_update event)"
  shows "operation_event_step E i event e = (Inr (), e)"
  using assms
  by (cases "oe_update event") (auto simp: operation_event_step_def replayed_def is_context_update_def)

lemma repeated_event:
  assumes "om_get (cp_operations (en_current e)) i = Some record"
    and "op_last_sequence record = Some (oe_sequence event)" and "\<not> is_context_update (oe_update event)"
  shows "operation_event_step E i event e =
    (if op_last_update record = Some (oe_update event) then Inr ()
     else Inl (Protocol ''conflicting operation event sequence''), e)"
  using assms
  by (cases "oe_update event") (auto simp: operation_event_step_def replayed_def is_context_update_def)

end
