(* ===== verification/Engine_Commands.thy ===== *)
theory Engine_Commands
  imports Engine_Operations
begin

text \<open>
  Commands to the model session (\<open>commands.rs\<close>, with \<open>archive_media\<close> of \<open>media.rs\<close>): preparing a
  pending command, deciding whether it can be sent, and dispatching. The lemmas show that a command
  with an external effect is submitted only after the checkpoint that records its send, that a
  generation is never batched, and that nothing is submitted twice.
\<close>

section \<open>Preparing a command\<close>

definition archive_media ::
  "'st kernel_env \<Rightarrow> checkpoint \<Rightarrow> string \<Rightarrow> resource_ref \<Rightarrow> bool \<Rightarrow> ('st engine, checkpoint) exec" where
  "archive_media E next key sealed complete = (case ke_write_archive E of
       None \<Rightarrow> e_fail (Invalid ''media archive requires resource storage'')
     | Some write \<Rightarrow> e_bind (e_new_id E) (\<lambda>i.
         e_bind (e_lift (write i \<lparr>am_stream_key = key, am_sealed = sealed, am_complete = complete,
                          am_previous = ss_media_archive (cp_session next)\<rparr>)) (\<lambda>r.
           e_return (map_session (\<lambda>s. s\<lparr>ss_media_archive := Some r\<rparr>) next))))"

definition remove_media :: "string \<Rightarrow> checkpoint \<Rightarrow> checkpoint" where
  "remove_media key next = map_active (\<lambda>a. a\<lparr>ac_media := om_remove key (ac_media a)\<rparr>) next"

definition insert_media :: "string \<Rightarrow> stream_cursor \<Rightarrow> checkpoint \<Rightarrow> checkpoint" where
  "insert_media key cursor next = map_active (\<lambda>a. a\<lparr>ac_media := om_insert key cursor (ac_media a)\<rparr>) next"

fun retire_media ::
  "'st kernel_env \<Rightarrow> (string \<times> stream_cursor) list \<Rightarrow> checkpoint \<Rightarrow> ('st engine, checkpoint) exec" where
  "retire_media E [] next = e_return next"
| "retire_media E ((key, cursor) # rest) next =
     e_bind (archive_media E next key (cur_sealed cursor) False) (\<lambda>next'.
       retire_media E rest (remove_media key next'))"

definition is_output_key :: "string \<Rightarrow> bool" where
  "is_output_key key = (take 7 key = ''output:'')"

text \<open>\<open>ended_stream\<close>: an archived stream joins the set read from the archive, when it was read.\<close>

definition ended_stream :: "string \<Rightarrow> 'st engine \<Rightarrow> 'st engine" where
  "ended_stream key e = e\<lparr>en_ended_streams := map_option (insert key) (en_ended_streams e)\<rparr>"

definition retired_of :: "checkpoint \<Rightarrow> (string \<times> stream_cursor) list" where
  "retired_of c = filter (\<lambda>(key, _). is_output_key key) (ac_media (cp_active c))"

definition prepare_next ::
  "'st kernel_env \<Rightarrow> command_intent \<Rightarrow> checkpoint \<Rightarrow> ('st engine, checkpoint \<times> string list) exec" where
  "prepare_next E intent next = (case intent of
       IClose \<Rightarrow> e_return (map_session (\<lambda>s. s\<lparr>ss_closing := True\<rparr>) next, [])
     | IInterruptOutput _ output_epoch \<Rightarrow>
         (let next' = map_session (\<lambda>s. s\<lparr>ss_output_epoch := output_epoch\<rparr>) next in
          e_bind (retire_media E (retired_of next') next') (\<lambda>next''.
            e_return (next'', map fst (retired_of next'))))
     | ISealUserInput \<Rightarrow> e_return (map_session (\<lambda>s. s\<lparr>ss_input_closed := True\<rparr>) next, [])
     | ISetInputAudio enabled \<Rightarrow>
         e_return (map_session (\<lambda>s. s\<lparr>ss_input_audio_enabled := enabled\<rparr>) next, [])
     | _ \<Rightarrow> e_return (next, []))"

fun intent_is_interrupt :: "command_intent \<Rightarrow> bool" where
  "intent_is_interrupt (IInterruptOutput _ _) = True"
| "intent_is_interrupt _ = False"

fun intent_is_generate :: "command_intent \<Rightarrow> bool" where
  "intent_is_generate (IGenerate _ _ _ _) = True"
| "intent_is_generate _ = False"

text \<open>The commit of the new command, and what follows it.\<close>

definition commit_command ::
  "'st kernel_env \<Rightarrow> command_intent \<Rightarrow> string \<Rightarrow> checkpoint \<times> string list \<Rightarrow> ('st engine, string) exec" where
  "commit_command E intent i = (\<lambda>(next, archived).
     e_then (e_commit E (push_command i intent False next) (FCommand i) Unchanged)
    (e_then (e_modify (\<lambda>e. fold ended_stream archived e))
    (e_then (if intent_is_interrupt intent
             then e_get (\<lambda>e. e_log (InvalidateOutput (ss_output_epoch (cp_session (en_current e)))))
             else e_return ())
    (e_then (if intent = ISealUserInput then e_modify (\<lambda>e. e\<lparr>en_media_closed := True\<rparr>) else e_return ())
      (e_return i)))))"

definition prepare_command :: "'st kernel_env \<Rightarrow> command_intent \<Rightarrow> ('st engine, string) exec" where
  "prepare_command E intent = e_get (\<lambda>e.
     if lim_max_control_commands (ro_limits (cp_options (en_current e))) \<le> length (cp_commands (en_current e))
     then e_fail (Invalid ''pending command capacity exceeded'')
     else e_bind (e_new_id E) (\<lambda>i.
       e_bind (prepare_next E intent (en_current e)) (commit_command E intent i)))"

section \<open>Sending\<close>

definition busy_generation :: "'st engine \<Rightarrow> bool" where
  "busy_generation e \<longleftrightarrow> ss_response_status (cp_session (en_current e)) = None
     \<and> ss_generation_id (cp_session (en_current e)) \<noteq> None"

definition can_send :: "'st kernel_env \<Rightarrow> 'st engine \<Rightarrow> pending_command \<Rightarrow> bool" where
  "can_send E e command =
     (let caps = session_capabilities E e;
          guarded = busy_generation e \<and> \<not> supports caps CapReplaceContext in
      pc_id command \<notin> en_sent e
      \<and> (if pc_intent command \<in> {ISealUserInput, IClose, IFlushInput}
         then \<not> en_input_sending e \<and> en_held_input e = None \<and> en_media_queue e = []
         else (case pc_intent command of
             IAppend _ _ _ source operation_id \<Rightarrow>
               (if operation_id \<noteq> None \<and> guarded then supports caps AsyncResults
                else if source = Submitted \<and> guarded then supports caps Steering
                else True)
           | _ \<Rightarrow> True)))"

definition command_body :: "'st engine \<Rightarrow> command_intent \<Rightarrow> session_command_body result" where
  "command_body e intent = (case intent of
       IDelegationContext operation_id content \<Rightarrow>
         r_bind (ok_or (Protocol ''delegation context origin missing'')
                   (om_get (cp_operations (en_current e)) operation_id))
           (\<lambda>op. Inr (BodyDelegationContext operation_id (op_origin op) content))
     | IGenerate generation_id context_revision input_position profile_revision \<Rightarrow>
         Inr (BodyGenerate generation_id context_revision input_position profile_revision)
     | IAppend entry context_revision input_position source _ \<Rightarrow>
         r_bind (ok_or (Protocol ''missing input entry'') (history_get (cp_history (en_current e)) entry))
           (\<lambda>en. Inr (BodyAppend en context_revision input_position source))
     | IReplaceContext context_revision \<Rightarrow>
         Inr (BodyReplaceContext (history_entries (cp_history (en_current e))) context_revision)
     | IUpdateProfile revision profile \<Rightarrow> Inr (BodyUpdateProfile revision profile)
     | IInterruptOutput generation_id output_epoch \<Rightarrow> Inr (BodyInterruptOutput generation_id output_epoch)
     | IFlushInput \<Rightarrow> Inr BodyFlushInput
     | ISetInputAudio enabled \<Rightarrow> Inr (BodySetInputAudio enabled)
     | ISealUserInput \<Rightarrow> Inr BodySealUserInput
     | IClose \<Rightarrow> Inr BodyClose)"

fun mark_sent :: "string \<Rightarrow> pending_command list \<Rightarrow> pending_command list" where
  "mark_sent i [] = []"
| "mark_sent i (c # cs) = (if pc_id c = i then c\<lparr>pc_sent := True\<rparr> # cs else c # mark_sent i cs)"

text \<open>The local commands that follow in the same pass, up to one that cannot be sent.\<close>

fun followers :: "'st kernel_env \<Rightarrow> 'st engine \<Rightarrow> pending_command list \<Rightarrow> session_command list result" where
  "followers E e [] = Inr []"
| "followers E e (c # cs) =
     (if intent_is_generate (pc_intent c) \<or> \<not> can_send E e c then Inr []
      else r_bind (command_body e (pc_intent c)) (\<lambda>body.
        r_bind (followers E e cs) (\<lambda>rest. Inr (\<lparr>scmd_id = pc_id c, scmd_body = body\<rparr> # rest))))"

definition needs_boundary :: "capability_set \<Rightarrow> command_intent \<Rightarrow> bool" where
  "needs_boundary caps intent = (intent_is_generate intent \<or> \<not> supports caps LocalProjection)"

definition submit_batch :: "session_command list \<Rightarrow> ('st engine, unit) exec" where
  "submit_batch batch = e_then
     (e_modify (\<lambda>e. e\<lparr>en_sent := en_sent e \<union> set (map scmd_id batch), en_sending := True\<rparr>))
     (e_log (Submit batch))"

definition dispatch_one :: "'st kernel_env \<Rightarrow> capability_set \<Rightarrow> pending_command \<Rightarrow> ('st engine, unit) exec" where
  "dispatch_one E caps command = e_get (\<lambda>e.
     let durable = needs_boundary caps (pc_intent command) in
     e_bind (e_lift (command_body e (pc_intent command))) (\<lambda>body.
     e_then (if durable \<and> \<not> pc_sent command
             then e_commit E (map_commands (mark_sent (pc_id command)) (en_current e))
                    (FCommand (pc_id command)) Unchanged
             else e_return ())
    (e_then (e_check E)
    (e_get (\<lambda>e.
       e_bind (e_lift (if durable then Inr []
           else followers E e (filter (\<lambda>c. pc_id c \<notin> en_sent e \<and> pc_id c \<noteq> pc_id command)
                                 (cp_commands (en_current e))))) (\<lambda>rest.
         submit_batch (\<lparr>scmd_id = pc_id command, scmd_body = body\<rparr> # rest)))))))"

definition dispatch_commands :: "'st kernel_env \<Rightarrow> ('st engine, unit) exec" where
  "dispatch_commands E = e_get (\<lambda>e.
     case en_session e of
       None \<Rightarrow> e_return ()
     | Some caps \<Rightarrow>
         (if en_sending e \<or> \<not> ss_ready (cp_session (en_current e)) then e_return ()
          else (case find (\<lambda>c. pc_id c \<notin> en_sent e) (cp_commands (en_current e)) of
              None \<Rightarrow> e_return ()
            | Some command \<Rightarrow> if can_send E e command then dispatch_one E caps command else e_return ())))"

section \<open>Invariants\<close>

lemma mark_sent_projections [simp]: "projections (mark_sent i cs) = projections cs"
  by (induction cs) (auto split: option.splits)

lemma mark_sent_ids [simp]: "map pc_id (mark_sent i cs) = map pc_id cs"
  by (induction cs) auto

lemma mark_sent_in: "distinct (map pc_id cs) \<Longrightarrow> c \<in> set cs \<Longrightarrow> c\<lparr>pc_sent := True\<rparr> \<in> set (mark_sent (pc_id c) cs)"
  by (induction cs) auto

lemma mark_sent_projection [simp]: "projection_ok (map_commands (mark_sent i) c) = projection_ok c"
  by (simp add: projection_ok_def)

lemma remove_media_projection [simp]: "projection_ok (remove_media key c) = projection_ok c"
  by (simp add: projection_ok_def remove_media_def map_active_def)

lemma insert_media_projection [simp]: "projection_ok (insert_media key cursor c) = projection_ok c"
  by (simp add: projection_ok_def insert_media_def map_active_def)

lemma archive_media_Inr:
  assumes "archive_media E next key sealed complete e = (Inr c, e')"
  shows "\<exists>r. c = map_session (\<lambda>s. s\<lparr>ss_media_archive := Some r\<rparr>) next" and "en_current e' = en_current e"
  using assms by (auto simp: archive_media_def e_bind_eq_Inr split: option.splits)

lemma archive_media_current: "en_current (snd (archive_media E next key sealed complete e)) = en_current e"
  by (auto simp: archive_media_def e_bind_def split: option.splits sum.splits)

lemma remove_media_view [simp]: "projection_view (remove_media key c) = projection_view c"
  by (simp add: projection_view_def remove_media_def map_active_def)

lemma archived_view [simp]: "projection_view (map_session (\<lambda>s. s\<lparr>ss_media_archive := r\<rparr>) c) = projection_view c"
  by (simp add: projection_view_def)

lemma retire_media_Inr:
  "retire_media E ks c e = (Inr c', e') \<Longrightarrow>
     projection_view c' = projection_view c \<and> en_current e' = en_current e"
proof (induction E ks c arbitrary: e rule: retire_media.induct)
  case (2 E key cursor rest c)
  then obtain c1 e1 where 1: "archive_media E c key (cur_sealed cursor) False e = (Inr c1, e1)"
    "retire_media E rest (remove_media key c1) e1 = (Inr c', e')"
    by (auto simp: e_bind_eq_Inr)
  then show ?case
    using "2.IH" [OF 1(2)] archive_media_Inr [OF 1(1)] by auto
qed simp

lemma retire_media_current: "en_current (snd (retire_media E ks c e)) = en_current e"
proof (induction E ks c arbitrary: e rule: retire_media.induct)
  case (2 E key cursor rest c)
  then show ?case
    using archive_media_current [of E c key "cur_sealed cursor" False e]
    by (auto simp: e_bind_def split: prod.splits sum.splits)
qed simp

lemma prepare_next_current: "en_current (snd (prepare_next E intent c e)) = en_current e"
  using retire_media_current [of E _ _ e]
  by (auto simp: prepare_next_def e_bind_def Let_def split: command_intent.splits prod.splits sum.splits)
     (metis snd_conv)+

lemma prepare_next_Inr:
  assumes "prepare_next E intent c e = (Inr (c', archived), e')"
  shows "projection_ok c' = projection_ok c" and "en_current e' = en_current e"
proof -
  show "en_current e' = en_current e"
    using prepare_next_current [of E intent c e] assms by simp
  have "projection_view c' = projection_view c"
    using assms
    by (auto simp: prepare_next_def e_bind_eq_Inr Let_def projection_view_def split: command_intent.splits
          dest!: retire_media_Inr)
  then show "projection_ok c' = projection_ok c" by (rule projection_view_ok)
qed

lemma keeps_bind_Inr:
  assumes "\<And>e. P e \<Longrightarrow> P (snd (m e))"
    and "\<And>e x e'. P e \<Longrightarrow> m e = (Inr x, e') \<Longrightarrow> keeps P (f x)"
  shows "keeps P (e_bind m f)"
proof (rule keepsI)
  fix e assume P: "P e"
  then show "P (snd (e_bind m f e))"
    using assms(1) [OF P] assms(2) [OF P]
    by (cases "m e"; cases "fst (m e)") (auto simp: e_bind_def keeps_def)
qed

lemma commit_command_projection:
  assumes "projection_ok c" and "projection_revision intent = None"
  shows "keeps_projection (commit_command E intent i (c, archived))"
proof -
  have "en_current (fold ended_stream archived e) = en_current e" for e :: "'a engine"
    by (induction archived arbitrary: e) (auto simp: ended_stream_def)
  then show ?thesis
    using assms by (auto simp: commit_command_def intro!: keeps_intros keeps_projection_commit)
qed

lemma prepare_command_projection [keeps_intros]:
  assumes "projection_revision intent = None"
  shows "keeps_projection (prepare_command E intent)"
  unfolding prepare_command_def
proof (rule keeps_get')
  fix e0 :: "'a engine"
  assume ok: "projection_ok (en_current e0)"
  have "keeps_projection (e_bind (prepare_next E intent (en_current e0)) (commit_command E intent i))" for i
  proof (rule keeps_bind_Inr)
    fix e x e'
    assume p: "prepare_next E intent (en_current e0) e = (Inr x, e')"
    obtain c archived where x: "x = (c, archived)" by (cases x)
    have "projection_ok c" using prepare_next_Inr(1) [OF p [unfolded x]] ok by simp
    then show "keeps_projection (commit_command E intent i x)"
      unfolding x by (rule commit_command_projection [OF _ assms])
  qed (simp add: prepare_next_current)
  then show "keeps_projection (if lim_max_control_commands (ro_limits (cp_options (en_current e0)))
         \<le> length (cp_commands (en_current e0))
     then e_fail (Invalid ''pending command capacity exceeded'')
     else e_bind (e_new_id E) (\<lambda>i.
       e_bind (prepare_next E intent (en_current e0)) (commit_command E intent i)))"
    by (simp add: keeps_bind [OF keeps_new_id])
qed

lemma dispatch_one_projection: "keeps_projection (dispatch_one E caps command)"
  unfolding dispatch_one_def Let_def submit_batch_def
  by (intro keeps_get') (auto intro!: keeps_intros keeps_projection_commit)

lemma dispatch_projection [keeps_intros]: "keeps_projection (dispatch_commands E)"
  unfolding dispatch_commands_def
  by (auto intro!: keeps_intros dispatch_one_projection split: option.split)

section \<open>Dispatch\<close>

text \<open>What the log and the checkpoint hold after a successful dispatch that submits something.\<close>

text \<open>The commands of a batch are pending ones with the bodies of their intents.\<close>

lemma followers_bodies:
  "followers E e cs = Inr batch \<Longrightarrow> s \<in> set batch \<Longrightarrow>
    \<exists>c \<in> set cs. pc_id c = scmd_id s \<and> command_body e (pc_intent c) = Inr (scmd_body s)"
  by (induction E e cs arbitrary: batch rule: followers.induct) (auto simp: r_bind_Inr split: if_splits)

lemma command_body_cong:
  "cp_operations (en_current e') = cp_operations (en_current e) \<Longrightarrow> cp_history (en_current e') = cp_history (en_current e) \<Longrightarrow>
    command_body e' intent = command_body e intent"
  by (cases intent) (simp_all add: command_body_def)

lemma followers_Inr:
  "followers E e cs = Inr batch \<Longrightarrow> \<exists>cs'. cs' = take (length batch) cs \<and> map scmd_id batch = map pc_id cs'
     \<and> length batch \<le> length cs \<and> (\<forall>c \<in> set cs'. \<not> intent_is_generate (pc_intent c) \<and> can_send E e c)"
proof (induction E e cs arbitrary: batch rule: followers.induct)
  case (2 E e c cs)
  show ?case
  proof (cases "intent_is_generate (pc_intent c) \<or> \<not> can_send E e c")
    case True
    then show ?thesis using "2.prems" by simp
  next
    case False
    then obtain body rest where r: "command_body e (pc_intent c) = Inr body" "followers E e cs = Inr rest"
      "batch = \<lparr>scmd_id = pc_id c, scmd_body = body\<rparr> # rest"
      using "2.prems" by (auto simp: r_bind_Inr)
    then show ?thesis using "2.IH" [OF False r(2)] False by auto
  qed
qed simp

lemma e_commit_log:
  assumes "e_commit E next what delta e = (r, e')"
  shows "\<exists>events. en_log e' = en_log e @ events \<and> (\<forall>x \<in> set events. \<exists>d. x = Emit d)"
    and "en_sent e' = en_sent e" and "en_session e' = en_session e" and "en_work e' = en_work e"
    and "en_sending e' = en_sending e"
  using e_commit_frame [OF assms] by auto

definition commit_notice :: "checkpoint \<Rightarrow> effect" where
  "commit_notice c = Emit (CheckpointCommitted (cp_id c) (cp_revision c) (state_kind (cp_state c)) (cp_fact c))"

lemma e_commit_notice:
  assumes "e_commit E next what delta e = (Inr (), e')"
  shows "\<exists>events. en_log e' = en_log e @ commit_notice (en_current e') # events"
proof -
  let ?e = "e\<lparr>en_ids := en_ids e + 1\<rparr>" and ?next = "stamp (ke_new_id E (en_ids e)) (en_current e) what next"
  obtain rp ep where p: "persist E ?next delta ?e = (rp, ep)" by (cases "persist E ?next delta ?e")
  moreover obtain c where "rp = Inr c" using assms p by (cases rp) (simp_all add: e_commit_def e_bind_def)
  moreover have "en_log ep = en_log e" using persist_frame [of E ?next delta ?e] p by auto
  ultimately show ?thesis using assms by (auto simp: e_commit_def e_bind_def commit_notice_def)
qed

lemma e_check_fields [simp]:
  "en_log (snd (e_check E e)) = en_log e" "en_sent (snd (e_check E e)) = en_sent e"
  "en_session (snd (e_check E e)) = en_session e"
proof -
  obtain t p where "snd (e_check E e) = e\<lparr>en_ticks := t, en_polls := p\<rparr>" using e_check_frame by blast
  then show "en_log (snd (e_check E e)) = en_log e" "en_sent (snd (e_check E e)) = en_sent e"
    "en_session (snd (e_check E e)) = en_session e" by simp_all
qed

text \<open>
  A dispatch that reaches its task submits commands that are pending, in their order, none of which
  was submitted before. A command that needs the durable boundary is submitted alone, and the
  checkpoint committed before it says it was sent.
\<close>

lemma dispatch_one_submits:
  assumes run: "dispatch_one E caps command e = (Inr (), e')"
    and pending: "command \<in> set (cp_commands (en_current e))" "distinct (map pc_id (cp_commands (en_current e)))"
    and unsent: "pc_id command \<notin> en_sent e"
  shows "\<exists>events batch. en_log e' = en_log e @ events @ [Submit batch] \<and> (\<forall>x \<in> set events. \<exists>d. x = Emit d)
     \<and> batch \<noteq> [] \<and> scmd_id (hd batch) = pc_id command
     \<and> en_sent e' = en_sent e \<union> set (map scmd_id batch)
     \<and> distinct (map scmd_id batch) \<and> set (map scmd_id batch) \<inter> en_sent e = {}
     \<and> (\<forall>s \<in> set batch. \<exists>c \<in> set (cp_commands (en_current e')). pc_id c = scmd_id s
          \<and> command_body e' (pc_intent c) = Inr (scmd_body s))
     \<and> (needs_boundary caps (pc_intent command) \<longrightarrow> length batch = 1)
     \<and> (needs_boundary caps (pc_intent command) \<and> \<not> pc_sent command \<longrightarrow> commit_notice (en_current e') \<in> set events)
     \<and> (needs_boundary caps (pc_intent command) \<longrightarrow>
          (\<exists>c \<in> set (cp_commands (en_current e')). pc_id c = pc_id command
             \<and> pc_intent c = pc_intent command \<and> pc_sent c))"
proof -
  let ?durable = "needs_boundary caps (pc_intent command)"
  obtain body e1 e2 rest where body: "command_body e (pc_intent command) = Inr body"
    and c: "(if ?durable \<and> \<not> pc_sent command
             then e_commit E (map_commands (mark_sent (pc_id command)) (en_current e)) (FCommand (pc_id command)) Unchanged
             else e_return ()) e = (Inr (), e1)"
    and chk: "e_check E e1 = (Inr (), e2)"
    and rest: "(if ?durable then Inr [] else followers E e2 (filter (\<lambda>c. pc_id c \<notin> en_sent e2 \<and> pc_id c \<noteq> pc_id command)
                                 (cp_commands (en_current e2)))) = Inr rest"
    and sub: "submit_batch (\<lparr>scmd_id = pc_id command, scmd_body = body\<rparr> # rest) e2 = (Inr (), e')"
    using run by (auto simp: dispatch_one_def Let_def e_bind_eq_Inr e_then_eq_Inr)
  let ?batch = "\<lparr>scmd_id = pc_id command, scmd_body = body\<rparr> # rest"
  have e2: "en_current e2 = en_current e1" "en_log e2 = en_log e1" "en_sent e2 = en_sent e1"
    using e_check_current [of E e1] e_check_fields [of E e1] by (simp_all add: chk)
  have e': "en_current e' = en_current e2" "en_sent e' = en_sent e2 \<union> set (map scmd_id ?batch)"
      "en_log e' = en_log e2 @ [Submit ?batch]"
    using sub by (auto simp: submit_batch_def e_then_def e_bind_def)
  have log: "\<exists>events. en_log e1 = en_log e @ events \<and> (\<forall>x \<in> set events. \<exists>d. x = Emit d)
      \<and> (?durable \<and> \<not> pc_sent command \<longrightarrow> commit_notice (en_current e1) \<in> set events)"
  proof (cases "?durable \<and> \<not> pc_sent command")
    case True
    then have c': "e_commit E (map_commands (mark_sent (pc_id command)) (en_current e)) (FCommand (pc_id command)) Unchanged e
        = (Inr (), e1)"
      using c by simp
    show ?thesis using e_commit_log(1) [OF c'] e_commit_notice [OF c'] by force
  next
    case False
    then show ?thesis using c by auto
  qed
  have sent: "en_sent e1 = en_sent e"
    using c by (auto split: if_splits dest!: e_commit_log(2))
  have ids: "map pc_id (cp_commands (en_current e1)) = map pc_id (cp_commands (en_current e))"
    using c by (auto split: if_splits dest!: e_commit_current)
  have content: "cp_operations (en_current e1) = cp_operations (en_current e)"
      "cp_history (en_current e1) = cp_history (en_current e)"
    using c by (auto split: if_splits dest!: e_commit_current)
  have here: "\<exists>c \<in> set (cp_commands (en_current e1)). pc_id c = pc_id command \<and> pc_intent c = pc_intent command"
  proof (cases "?durable \<and> \<not> pc_sent command")
    case True
    then have "cp_commands (en_current e1) = mark_sent (pc_id command) (cp_commands (en_current e))"
      using c e_commit_current by fastforce
    then have "command\<lparr>pc_sent := True\<rparr> \<in> set (cp_commands (en_current e1))"
      using mark_sent_in [OF pending(2,1)] by simp
    then show ?thesis by (rule bexI [rotated]) simp
  next
    case False
    then show ?thesis using c pending(1) by auto
  qed
  have mark: "\<exists>c \<in> set (cp_commands (en_current e1)). pc_id c = pc_id command
      \<and> pc_intent c = pc_intent command \<and> pc_sent c" if "?durable"
  proof (cases "pc_sent command")
    case True
    then show ?thesis using c pending(1) that by auto
  next
    case False
    then have "cp_commands (en_current e1) = mark_sent (pc_id command) (cp_commands (en_current e))"
      using c that e_commit_current by fastforce
    then have "command\<lparr>pc_sent := True\<rparr> \<in> set (cp_commands (en_current e1))"
      using mark_sent_in [OF pending(2,1)] by simp
    then show ?thesis by (rule bexI [rotated]) simp
  qed
  have tail: "map scmd_id rest = [] \<or> (\<exists>n. map scmd_id rest = map pc_id (take n (filter
      (\<lambda>c. pc_id c \<notin> en_sent e \<and> pc_id c \<noteq> pc_id command) (cp_commands (en_current e1)))))"
    using rest followers_Inr e2 sent by (fastforce split: if_splits)
  have dist: "distinct (map pc_id (cp_commands (en_current e1)))" using pending(2) by (simp add: ids)
  have restp: "distinct (map scmd_id rest) \<and> set (map scmd_id rest) \<inter> insert (pc_id command) (en_sent e) = {}"
    using tail
  proof
    assume "\<exists>n. map scmd_id rest = map pc_id (take n (filter
      (\<lambda>c. pc_id c \<notin> en_sent e \<and> pc_id c \<noteq> pc_id command) (cp_commands (en_current e1))))"
    then obtain n where n: "map scmd_id rest = map pc_id (take n (filter
      (\<lambda>c. pc_id c \<notin> en_sent e \<and> pc_id c \<noteq> pc_id command) (cp_commands (en_current e1))))" by blast
    have "distinct (map pc_id (take n (filter (\<lambda>c. pc_id c \<notin> en_sent e \<and> pc_id c \<noteq> pc_id command)
        (cp_commands (en_current e1)))))"
      using dist by (simp add: distinct_map_filter flip: take_map)
    then show ?thesis unfolding n by (auto dest!: in_set_takeD)
  qed simp
  have same: "command_body e' intent = command_body e intent" "command_body e2 intent = command_body e intent" for intent
    by (rule command_body_cong; simp add: e'(1) e2(1) content)+
  have bodies: "\<exists>c \<in> set (cp_commands (en_current e')). pc_id c = scmd_id s
      \<and> command_body e' (pc_intent c) = Inr (scmd_body s)" if "s \<in> set ?batch" for s
  proof (cases "s \<in> set rest")
    case True
    then have "followers E e2 (filter (\<lambda>c. pc_id c \<notin> en_sent e2 \<and> pc_id c \<noteq> pc_id command)
        (cp_commands (en_current e2))) = Inr rest"
      using rest by (auto split: if_splits)
    from followers_bodies [OF this True] show ?thesis by (auto simp: e'(1) same)
  next
    case False
    then have "s = \<lparr>scmd_id = pc_id command, scmd_body = body\<rparr>" using that by simp
    then show ?thesis using here body by (auto simp: e'(1) e2(1) same)
  qed
  obtain events where events: "en_log e1 = en_log e @ events" "\<forall>x \<in> set events. \<exists>d. x = Emit d"
      "?durable \<and> \<not> pc_sent command \<longrightarrow> commit_notice (en_current e1) \<in> set events"
    using log by blast
  have one: "length ?batch = 1" if ?durable using rest that by simp
  have marked: "?durable \<longrightarrow> (\<exists>c \<in> set (cp_commands (en_current e')).
      pc_id c = pc_id command \<and> pc_intent c = pc_intent command \<and> pc_sent c)"
    unfolding e'(1) e2(1) using mark by blast
  show ?thesis
  proof (intro exI [of _ events] exI [of _ ?batch] conjI)
    show "\<forall>s \<in> set ?batch. \<exists>c \<in> set (cp_commands (en_current e')). pc_id c = scmd_id s
        \<and> command_body e' (pc_intent c) = Inr (scmd_body s)"
      using bodies by blast
    show "?durable \<and> \<not> pc_sent command \<longrightarrow> commit_notice (en_current e') \<in> set events"
      using events(3) by (simp add: e'(1) e2(1))
    show "?durable \<longrightarrow> length ?batch = 1" using one by blast
    show "?durable \<longrightarrow> (\<exists>c \<in> set (cp_commands (en_current e')).
      pc_id c = pc_id command \<and> pc_intent c = pc_intent command \<and> pc_sent c)" by (rule marked)
  qed (use restp unsent in \<open>simp_all add: e'(2,3) e2(2,3) sent events\<close>)
qed

end
