(* ===== verification/Engine_Controls.thy ===== *)
theory Engine_Controls
  imports Engine_Commands
begin

text \<open>
  What the host asks of a running engine (\<open>controls.rs\<close>): input, pause, profile updates, session
  controls, cancellation of and replies to operations, and the resolutions and messages a recovery
  brings. Every control is answered; only a storage error or a conflict ends the run. The checks a
  \<open>ControlHandle\<close> makes before it queues a control (\<open>control.rs\<close>) come last.
\<close>

section \<open>Resolutions\<close>

definition generation_unfinished :: "session_snapshot \<Rightarrow> string \<Rightarrow> bool" where
  "generation_unfinished s generation_id \<longleftrightarrow>
     ss_generation_id s = Some generation_id \<and> ss_response_status s = None"

definition abandon_generation ::
  "'st kernel_env \<Rightarrow> string \<Rightarrow> string \<Rightarrow> ('st engine, unit) exec" where
  "abandon_generation E generation_id reason = e_get (\<lambda>e. let s = cp_session (en_current e) in
     if \<not> some_and (\<lambda>caps. supports caps LocalProjection) (ss_capabilities s)
     then e_fail (Invalid ''only a local projection session can abandon a generation'')
     else if \<not> generation_unfinished s generation_id
     then e_fail (Invalid ''generation resolution has no matching unfinished generation'')
     else if \<exists>op \<in> set (om_values (cp_operations (en_current e))). \<not> op_terminal (op_state op)
               \<and> owner_is_provider (op_owner op) \<and> cr_generation_id (op_origin op) = Some generation_id
     then e_fail (Invalid ''settle the abandoned generation's provider operations first'')
     else e_commit E
       (map_session (\<lambda>s. s\<lparr>ss_response_status := Some RespContinuation, ss_needs_generation := True\<rparr>)
         (map_commands (filter (\<lambda>c. case pc_intent c of
              IGenerate i _ _ _ \<Rightarrow> i \<noteq> generation_id | _ \<Rightarrow> True)) (en_current e)))
       (FGenerationAbandoned generation_id reason) Unchanged)"

definition attach_operation ::
  "'st kernel_env \<Rightarrow> string \<Rightarrow> recovery_ref \<Rightarrow> ('st engine, unit) exec" where
  "attach_operation E i reference = e_get (\<lambda>e.
     case om_get (cp_operations (en_current e)) i of
       None \<Rightarrow> e_fail (Invalid ''unknown operation resolution'')
     | Some op \<Rightarrow>
         (if op_terminal (op_state op) then e_fail (Invalid ''cannot attach terminal work'')
          else e_commit E (map_operations (om_modify i
                   (\<lambda>op. op\<lparr>op_state := Running, op_recovery := Some reference\<rparr>)) (en_current e))
                 (FOperation i Running) Unchanged))"

fun resolve :: "'st kernel_env \<Rightarrow> recovery_resolution \<Rightarrow> ('st engine, unit) exec" where
  "resolve E (Complete i outcome) = finish E i outcome"
| "resolve E (Abandon i reason) = finish E i (OutcomeCancelled reason)"
| "resolve E (Attach i reference) = attach_operation E i reference"
| "resolve E (AbandonGeneration generation_id reason) = abandon_generation E generation_id reason"

section \<open>Input\<close>

fun message_is_user :: "message \<Rightarrow> bool" where
  "message_is_user (User _) = True"
| "message_is_user _ = False"

definition insert_message ::
  "'st kernel_env \<Rightarrow> message \<Rightarrow> string \<Rightarrow> ('st engine, string) exec" where
  "insert_message E m source = e_get (\<lambda>e. let s = cp_session (en_current e) in
     if (ss_input_closed s \<and> message_is_user m) \<or> ss_closing s
     then e_fail (Invalid ''user input is sealed'')
     else e_then (e_lift (message_validate m)) (e_bind (e_new_id E) (\<lambda>i.
       let entry = \<lparr>he_id = i, he_origin = None, he_message = m\<rparr>;
           index = hist_len (cp_history (en_current e)) in
       e_bind (e_lift (history_append (ke_ext E) (cp_history (en_current e)) [entry])) (\<lambda>h.
       e_bind (e_new_id E) (\<lambda>command_id.
       e_then (e_commit E
           (append_command command_id index Submitted None
             (map_session (\<lambda>s. s\<lparr>ss_input_position := ss_input_position s + 1, ss_needs_generation := True\<rparr>)
               ((en_current e)\<lparr>cp_history := h\<rparr>)))
           (FConversationInsert source) (Append [entry]))
         (e_return i))))))"

section \<open>Operations and the profile\<close>

text \<open>\<open>max\<close> of the pending revisions, or the session's.\<close>

definition pending_profiles :: "pending_command list \<Rightarrow> u64 list" where
  "pending_profiles cs = List.map_filter (\<lambda>c. case pc_intent c of
     IUpdateProfile revision _ \<Rightarrow> Some revision | _ \<Rightarrow> None) cs"

definition next_profile_revision :: "checkpoint \<Rightarrow> u64" where
  "next_profile_revision c = (case pending_profiles (cp_commands c) of
       [] \<Rightarrow> ss_profile_revision (cp_session c)
     | r # rs \<Rightarrow> fold max rs r) + 1"

definition update_profile :: "'st kernel_env \<Rightarrow> request_profile \<Rightarrow> ('st engine, string) exec" where
  "update_profile E profile = e_get (\<lambda>e.
     if \<not> supports (session_capabilities E e) ProfileUpdates
     then e_fail (Invalid ''model does not support running profile updates'')
     else e_bind (e_lift (engine_negotiate E e
            ((engine_request e (history_entries (cp_history (en_current e))))\<lparr>mr_profile := profile\<rparr>))) (\<lambda>_.
       prepare_command E (IUpdateProfile (next_profile_revision (en_current e)) profile)))"

definition cancel_running :: "'st kernel_env \<Rightarrow> string \<Rightarrow> ('st engine, unit) exec" where
  "cancel_running E i = e_get (\<lambda>e.
     e_then (e_commit E (map_operations (om_modify i (\<lambda>op. op\<lparr>op_state := Cancelling\<rparr>)) (en_current e))
               (FOperation i Cancelling) Unchanged)
    (e_then (e_get (\<lambda>e. if i \<in> en_tokens e then e_log (CancelToken i) else e_return ()))
      (e_get (\<lambda>e. if i \<in> en_operation_controls e then e_log (CancelOperation i) else e_return ()))))"

definition cancel_operation :: "'st kernel_env \<Rightarrow> string \<Rightarrow> ('st engine, string) exec" where
  "cancel_operation E i = e_get (\<lambda>e.
     case om_get (cp_operations (en_current e)) i of
       None \<Rightarrow> e_fail (Invalid ''unknown operation'')
     | Some record \<Rightarrow>
         (if op_terminal (op_state record) then e_return i
          else if op_state record = Queued
          then e_then (finish E i (OutcomeCancelled ''cancelled before dispatch'')) (e_return i)
          else e_then (cancel_running E i) (e_return i)))"

definition reply_operation :: "'st kernel_env \<Rightarrow> string \<Rightarrow> json \<Rightarrow> ('st engine, string) exec" where
  "reply_operation E i v = e_get (\<lambda>e.
     if i \<notin> en_operation_controls e then e_fail (Invalid ''operation has no input channel'')
     else e_then (unknown E i ''reply awaiting external confirmation'')
         (e_then (e_modify (\<lambda>e. e\<lparr>en_pending_replies := insert i (en_pending_replies e)\<rparr>))
         (e_then (e_log (ReplyOperation i v)) (e_return i))))"

section \<open>Controls\<close>

definition pause_run :: "'st kernel_env \<Rightarrow> suspension \<Rightarrow> ('st engine, string) exec" where
  "pause_run E suspension = e_get (\<lambda>e.
     e_then (e_commit E ((en_current e)\<lparr>cp_state := StSuspended suspension\<rparr>)
               (FControl ActSuspended) Unchanged) (e_new_id E))"

definition interrupt_output :: "'st kernel_env \<Rightarrow> ('st engine, string) exec" where
  "interrupt_output E = e_get (\<lambda>e.
     if \<not> supports (session_capabilities E e) CapInterruptOutput
     then e_fail (Invalid ''model does not support native interruption'')
     else (case ss_generation_id (cp_session (en_current e)) of
         None \<Rightarrow> e_fail (Invalid ''no generation to interrupt'')
       | Some generation_id \<Rightarrow>
           (case u64_checked_add (ss_output_epoch (cp_session (en_current e))) 1 of
              None \<Rightarrow> e_fail (Invalid ''output epoch overflow'')
            | Some output_epoch \<Rightarrow> prepare_command E (IInterruptOutput generation_id output_epoch))))"

definition flush_input :: "'st kernel_env \<Rightarrow> ('st engine, string) exec" where
  "flush_input E = e_get (\<lambda>e.
     if \<not> supports (session_capabilities E e) CapFlushInput
     then e_fail (Invalid ''session does not support input flushing'')
     else if ss_input_closed (cp_session (en_current e)) then e_fail (Invalid ''input is closed'')
     else prepare_command E IFlushInput)"

definition set_input_audio :: "'st kernel_env \<Rightarrow> bool \<Rightarrow> ('st engine, string) exec" where
  "set_input_audio E enabled = e_get (\<lambda>e.
     if \<not> supports (session_capabilities E e) InputAudioControl
     then e_fail (Invalid ''session does not support audio input control'')
     else if ss_input_closed (cp_session (en_current e)) then e_fail (Invalid ''input is closed'')
     else prepare_command E (ISetInputAudio enabled))"

fun control_result :: "'st kernel_env \<Rightarrow> control_body \<Rightarrow> ('st engine, string) exec" where
  "control_result E (CtlInput m source) = insert_message E m source"
| "control_result E (CtlPause suspension) = pause_run E suspension"
| "control_result E (CtlUpdateProfile profile) = update_profile E profile"
| "control_result E CtlInterruptOutput = interrupt_output E"
| "control_result E CtlFlushInput = flush_input E"
| "control_result E (CtlSetInputAudio enabled) = set_input_audio E enabled"
| "control_result E CtlSealUserInput = prepare_command E ISealUserInput"
| "control_result E (CtlCancelOperation i) = cancel_operation E i"
| "control_result E (CtlReplyOperation i v) = reply_operation E i v"

text \<open>The errors that end the run: the durable head is not known to be the current checkpoint.\<close>

fun error_fatal :: "error \<Rightarrow> bool" where
  "error_fatal (Storage _) = True"
| "error_fatal (Conflict _ _) = True"
| "error_fatal _ = False"

definition control :: "'st kernel_env \<Rightarrow> control_body \<Rightarrow> ('st engine, unit) exec" where
  "control E body = (\<lambda>e. case control_result E body e of
       (Inl err, e') \<Rightarrow> (fail_if (error_fatal err) err, e'\<lparr>en_log := en_log e' @ [AnswerControl (Inl err)]\<rparr>)
     | (Inr i, e') \<Rightarrow> (Inr (), e'\<lparr>en_log := en_log e'
          @ [AnswerControl (Inr (i, cp_revision (en_current e')))]\<rparr>))"

section \<open>Recovery\<close>

text \<open>What cannot be taken up again without the host: work whose external effect is unknown.\<close>

definition recovery_blocked :: "'st kernel_env \<Rightarrow> 'st engine \<Rightarrow> bool" where
  "recovery_blocked E e \<longleftrightarrow> (let c = en_current e; s = cp_session c in
       (ss_generation_id s \<noteq> None \<and> ss_response_status s = None)
     \<or> (\<exists>command \<in> set (cp_commands c). pc_sent command)
     \<or> ac_media (cp_active c) \<noteq> []
     \<or> (ss_establishment s \<noteq> EstNew \<and> \<not> local_projection E e))"

definition apply_recovery :: "'st kernel_env \<Rightarrow> request \<Rightarrow> ('st engine, unit) exec" where
  "apply_recovery E request = (case request of
       RequestStart _ _ _ \<Rightarrow> e_return ()
     | RequestRecover _ messages resolutions _ \<Rightarrow>
         e_then (e_each (resolve E) resolutions)
        (e_then (e_each (\<lambda>m. e_then (insert_message E m ''resume'') (e_return ())) messages)
        (e_get (\<lambda>e.
           if \<exists>op \<in> set (om_values (cp_operations (en_current e))). op_state op = Unknown
           then e_suspend E WaitRecovery
           else if ss_recovery (cp_session (en_current e)) \<noteq> None then e_return ()
           else if recovery_blocked E e then e_suspend E WaitRecovery
           else e_return ()))))"

section \<open>The control handle\<close>

text \<open>The checks before a control is queued; the others are queued as they are.\<close>

definition handle_pause :: "suspension \<Rightarrow> control_body result" where
  "handle_pause suspension = r_bind (suspension_validate suspension) (\<lambda>_. Inr (CtlPause suspension))"

fun message_is_live :: "message \<Rightarrow> bool" where
  "message_is_live (User _) = True"
| "message_is_live (External _) = True"
| "message_is_live _ = False"

definition handle_input :: "message \<Rightarrow> string \<Rightarrow> control_body result" where
  "handle_input m source =
     (if \<not> message_is_live m then Inl (Invalid ''live input requires user or external content'')
      else r_bind (message_validate m) (\<lambda>_.
        if source = [] then Inl (Invalid ''empty input source'') else Inr (CtlInput m source)))"

section \<open>Invariants\<close>

lemma abandon_projections:
  "projections (filter (\<lambda>c. case pc_intent c of IGenerate i _ _ _ \<Rightarrow> i \<noteq> g | _ \<Rightarrow> True) cs) = projections cs"
  by (induction cs) (auto split: option.splits command_intent.splits simp: projection_revision_def)

lemma map_session_projection [simp]:
  "(\<And>s. ss_context_revision (f s) = ss_context_revision s) \<Longrightarrow>
   (\<And>s. ss_acknowledged_context_revision (f s) = ss_acknowledged_context_revision s) \<Longrightarrow>
   projection_ok (map_session f c) = projection_ok c"
  by (simp add: projection_ok_def)

lemma abandon_projection [simp]: "projection_ok (map_commands (filter (\<lambda>c. case pc_intent c of
     IGenerate i _ _ _ \<Rightarrow> i \<noteq> g | _ \<Rightarrow> True)) c) = projection_ok c"
  by (simp add: projection_ok_def abandon_projections)

lemma resolve_projection [keeps_intros]: "keeps_projection (resolve E r)"
proof (cases r)
  case (AbandonGeneration g reason)
  then show ?thesis
    by (simp only: resolve.simps abandon_generation_def Let_def, intro keeps_get')
       (auto intro!: keeps_intros keeps_projection_commit)
next
  case (Attach i reference)
  show ?thesis
    by (simp only: Attach resolve.simps attach_operation_def, intro keeps_get')
       (auto intro!: keeps_intros keeps_projection_commit split: option.split)
qed (auto intro: keeps_intros)

lemma insert_message_projection [keeps_intros]: "keeps_projection (insert_message E m source)"
  unfolding insert_message_def Let_def
  by (intro keeps_get') (auto intro!: keeps_intros keeps_projection_commit append_command_projection)

lemma cancel_operation_projection [keeps_intros]: "keeps_projection (cancel_operation E i)"
  unfolding cancel_operation_def cancel_running_def
  by (intro keeps_get') (auto intro!: keeps_intros keeps_projection_commit split: option.split)

lemma reply_operation_projection [keeps_intros]: "keeps_projection (reply_operation E i v)"
  unfolding reply_operation_def by (intro keeps_get') (auto intro!: keeps_intros)

lemma control_result_projection [keeps_intros]: "keeps_projection (control_result E body)"
  by (cases body)
     (auto intro!: keeps_intros keeps_projection_commit split: option.split
       simp: pause_run_def update_profile_def interrupt_output_def flush_input_def set_input_audio_def)

lemma control_projection [keeps_intros]: "keeps_projection (control E body)"
proof (rule keepsI)
  fix e :: "'a engine" assume "projection_ok (en_current e)"
  then have "projection_ok (en_current (snd (control_result E body e)))"
    by (rule keepsD [OF control_result_projection])
  then show "projection_ok (en_current (snd (control E body e)))"
    by (auto simp: control_def split: prod.splits sum.splits)
qed

lemma apply_recovery_projection [keeps_intros]: "keeps_projection (apply_recovery E request)"
  unfolding apply_recovery_def by (auto intro!: keeps_intros split: request.split)

end
