(* ===== verification/Engine_Admission.thy ===== *)
theory Engine_Admission
  imports Engine_Controls
begin

text \<open>
  The admission of queued operations (\<open>admission.rs\<close>): delegations start as long as there is room,
  runtime tool calls are selected by the scheduling policy in emission order, bound to the catalog,
  and wait for the approval of the whole batch; work interrupted by a restart is recovered. The
  lemmas bound what is admitted at once and say which calls are.
\<close>

section \<open>Calls and starts\<close>

fun runtime_call_of :: "output_item \<Rightarrow> runtime_tool_call option" where
  "runtime_call_of (RuntimeToolCall call) = Some call"
| "runtime_call_of _ = None"

fun delegation_of :: "output_item \<Rightarrow> delegation_request option" where
  "delegation_of (Delegation request) = Some request"
| "delegation_of _ = None"

definition operation_call :: "checkpoint \<Rightarrow> operation_record \<Rightarrow> runtime_tool_call result" where
  "operation_call c operation =
     r_bind (ok_or (Protocol ''missing operation call'') (history_get (cp_history c) (op_call_entry operation)))
       (\<lambda>entry. ok_or (Protocol ''operation call entry mismatch'') (case he_message entry of
          Assistant items _ \<Rightarrow> first_some (\<lambda>item. case runtime_call_of item of
              Some call \<Rightarrow> (if rtc_id call = cr_call_id (op_origin operation) then Some call else None)
            | None \<Rightarrow> None) items
        | _ \<Rightarrow> None))"

definition delegation_request_of :: "checkpoint \<Rightarrow> operation_record \<Rightarrow> delegation_request option" where
  "delegation_request_of c operation =
     (case map_option he_message (history_get (cp_history c) (op_call_entry operation)) of
        Some (Assistant items _) \<Rightarrow> first_some delegation_of items
      | _ \<Rightarrow> None)"

definition pend_start :: "string \<Rightarrow> ('st engine, unit) exec" where
  "pend_start i = e_modify (\<lambda>e. e\<lparr>en_pending_starts := insert i (en_pending_starts e),
                                 en_tokens := insert i (en_tokens e)\<rparr>)"

definition spawn_tool ::
  "'st kernel_env \<Rightarrow> string \<Rightarrow> operation_record option \<Rightarrow> ('st engine, unit) exec" where
  "spawn_tool E i recovery =
     e_then (e_check E) (e_then (pend_start i) (e_log (StartTool i recovery)))"

definition op_occupies :: "operation_record \<Rightarrow> bool" where
  "op_occupies op \<longleftrightarrow> \<not> owner_is_provider (op_owner op) \<and> (op_state op = Running \<or> op_state op = Cancelling)"

definition running_count :: "checkpoint \<Rightarrow> nat" where
  "running_count c = length (filter op_occupies (om_values (cp_operations c)))"

section \<open>Delegations\<close>

definition queued_delegations :: "checkpoint \<Rightarrow> operation_record list" where
  "queued_delegations c = filter (\<lambda>op. op_owner op = OwnerDelegation \<and> op_state op = Queued)
     (om_values (cp_operations c))"

definition start_delegation :: "'st kernel_env \<Rightarrow> operation_record \<Rightarrow> ('st engine, unit) exec" where
  "start_delegation E record =
     (if \<not> ke_has_delegation E
      then finish E (op_id record) (OutcomeFailure
             (failure_new ''delegation_unavailable'' ''no delegation handler registered''))
      else e_get (\<lambda>e. e_bind (e_lift (ok_or (Protocol ''delegation request missing'')
                             (delegation_request_of (en_current e) record))) (\<lambda>request.
        e_then (local_operation_update E (op_id record) Running None)
       (e_then (pend_start (op_id record))
         (e_log (StartDelegation (op_id record) (Inl request)))))))"

section \<open>Runtime tools\<close>

definition queued_tools :: "checkpoint \<Rightarrow> operation_record list" where
  "queued_tools c = sort_key (\<lambda>r. (op_call_entry r, op_id r))
     (filter (\<lambda>op. op_state op = Queued \<and> owner_is_runtime_tool (op_owner op)) (om_values (cp_operations c)))"

text \<open>The candidates carry the operation's identity in place of the call's.\<close>

fun tool_candidates ::
  "checkpoint \<Rightarrow> operation_record list \<Rightarrow> (runtime_tool_call \<times> runtime_tool_call) list result" where
  "tool_candidates c [] = Inr []"
| "tool_candidates c (record # records) =
     r_bind (operation_call c record) (\<lambda>call.
     r_bind (tool_candidates c records) (\<lambda>rest.
       Inr ((call\<lparr>rtc_id := op_id record\<rparr>, call) # rest)))"

definition specs_by_name :: "runtime_tool_spec list \<Rightarrow> catalog" where
  "specs_by_name specs = fold (\<lambda>s m. om_insert (rts_name s) s m) specs []"

definition serial_running :: "catalog \<Rightarrow> checkpoint \<Rightarrow> bool" where
  "serial_running specs c \<longleftrightarrow> (\<exists>op \<in> set (filter op_occupies (om_values (cp_operations c))).
     case op_owner op of
       OwnerRuntimeTool name \<Rightarrow> none_or (\<lambda>s. \<not> ex_parallel (rts_execution s)) (om_get specs name)
     | _ \<Rightarrow> False)"

type_synonym bindings = "(string \<times> runtime_tool_spec) list \<times> approval_request list"

text \<open>One call of the admission: refused, skipped, the end of the batch, or bound.\<close>

datatype admission = AdmitSkip | AdmitStop | AdmitCall runtime_tool_spec

definition admit_call ::
  "'st kernel_env \<Rightarrow> catalog \<Rightarrow> bool \<Rightarrow> nat \<Rightarrow> bool \<Rightarrow> string \<Rightarrow> runtime_tool_call \<Rightarrow> ('st engine, admission) exec" where
  "admit_call E specs parallel running started i call = e_get (\<lambda>e.
     case catalog_bind (ke_bind E) (en_specs e) call of
       Inl err \<Rightarrow>
         e_then (finish E i (OutcomeFailure (failure_of (ke_debug E) err))) (e_return AdmitSkip)
     | Inr spec \<Rightarrow>
         (if (0 < running \<or> started) \<and> (\<not> parallel \<or> \<not> ex_parallel (rts_execution spec))
          then e_return AdmitStop
          else if 0 < running \<and> serial_running specs (en_current e) then e_return AdmitStop
          else e_then (e_modify (\<lambda>e. e\<lparr>en_admitting := insert i (en_admitting e)\<rparr>))
                 (e_return (AdmitCall spec))))"

fun admit_calls ::
  "'st kernel_env \<Rightarrow> catalog \<Rightarrow> bool \<Rightarrow> nat \<Rightarrow> (runtime_tool_call \<times> runtime_tool_call) list
     \<Rightarrow> string list \<Rightarrow> bindings \<Rightarrow> runtime_tool_call list \<Rightarrow> ('st engine, bindings) exec" where
  "admit_calls E specs parallel running cands selected acc [] = e_return acc"
| "admit_calls E specs parallel running cands selected acc (call # calls) =
     (case map_of cands call of
        None \<Rightarrow> e_fail (Invalid ''scheduler returned duplicate or unknown call'')
      | Some original \<Rightarrow>
          (if rtc_id call \<in> set selected
           then e_fail (Invalid ''scheduler returned duplicate or unknown call'')
           else e_bind (admit_call E specs parallel running (fst acc \<noteq> []) (rtc_id call) original) (\<lambda>a.
             case a of
               AdmitSkip \<Rightarrow> admit_calls E specs parallel running cands (rtc_id call # selected) acc calls
             | AdmitStop \<Rightarrow> e_return acc
             | AdmitCall spec \<Rightarrow>
                 admit_calls E specs parallel running cands (rtc_id call # selected)
                   (fst acc @ [(rtc_id call, spec)],
                    snd acc @ [\<lparr>ar_call = original, ar_spec = spec\<rparr>]) calls)))"

definition admit_tools :: "'st kernel_env \<Rightarrow> nat \<Rightarrow> ('st engine, unit) exec" where
  "admit_tools E running = e_get (\<lambda>e.
     let room = lim_max_operation_concurrency (ro_limits (cp_options (en_current e))) - running in
     e_bind (e_lift (tool_candidates (en_current e) (queued_tools (en_current e)))) (\<lambda>cands.
     if cands = [] then e_return ()
     else (let specs = specs_by_name (om_values (en_specs e)) in
       e_bind (e_lift (ke_schedule E (map fst cands) specs)) (\<lambda>(calls, parallel).
       e_bind (admit_calls E specs parallel running cands [] ([], []) (take room calls)) (\<lambda>(bound, requests).
         if bound = [] then e_return () else e_log (DecideApproval requests))))))"

definition admit :: "'st kernel_env \<Rightarrow> ('st engine, unit) exec" where
  "admit E = e_get (\<lambda>e.
     if en_admitting e \<noteq> {} then e_return ()
     else (let c = en_current e; limits = ro_limits (cp_options c); running = running_count c;
               delegated = take (lim_max_operation_concurrency limits - running) (queued_delegations c) in
       if lim_max_control_commands limits \<le> running + length (cp_commands c)
          \<or> lim_max_operation_concurrency limits \<le> running
       then e_return ()
       else if delegated \<noteq> [] then e_each (start_delegation E) delegated
       else admit_tools E running))"

section \<open>Approval\<close>

fun decision_suspends :: "approval_decision \<Rightarrow> suspension option" where
  "decision_suspends (DecideSuspend s) = Some s"
| "decision_suspends _ = None"

definition limit_run :: "'st kernel_env \<Rightarrow> limit_reason \<Rightarrow> ('st engine, unit) exec" where
  "limit_run E reason = e_get (\<lambda>e.
     e_commit E ((en_current e)\<lparr>cp_state := StLimited reason\<rparr>) (FControl ActLimited) Unchanged)"

definition start_running :: "'st kernel_env \<Rightarrow> string \<Rightarrow> ('st engine, unit) exec" where
  "start_running E i = e_get (\<lambda>e.
     e_then (e_commit E ((map_operations (om_modify i (\<lambda>op. op\<lparr>op_state := Running\<rparr>)) (en_current e))
                \<lparr>cp_metrics := (cp_metrics (en_current e))\<lparr>met_runtime_tool_calls :=
                   met_runtime_tool_calls (cp_metrics (en_current e)) + 1\<rparr>\<rparr>)
              (FOperation i Running) Unchanged)
       (spawn_tool E i None))"

text \<open>Suspensions were handled before, so their arm is not reached.\<close>

fun admit_decided ::
  "'st kernel_env \<Rightarrow> (string \<times> approval_decision) list \<Rightarrow> ('st engine, unit) exec" where
  "admit_decided E [] = e_return ()"
| "admit_decided E ((i, decision) # rest) = e_get (\<lambda>e.
     if none_or (\<lambda>op. op_state op \<noteq> Queued) (om_get (cp_operations (en_current e)) i)
     then admit_decided E rest
     else (case decision of
         DecideAllow \<Rightarrow> e_then (e_check E) (e_get (\<lambda>e.
           if lim_max_runtime_tool_calls (ro_limits (cp_options (en_current e)))
                \<le> met_runtime_tool_calls (cp_metrics (en_current e))
           then limit_run E LimitRuntimeToolCalls
           else e_then (start_running E i) (admit_decided E rest)))
       | DecideDeny reason \<Rightarrow>
           e_then (finish E i (OutcomeFailure (failure_new ''approval_denied'' reason)))
             (admit_decided E rest)
       | DecideSuspend _ \<Rightarrow> e_fail (Protocol ''unreachable'')))"

definition admitted ::
  "'st kernel_env \<Rightarrow> (string \<times> runtime_tool_spec) list \<Rightarrow> approval_decision list result
     \<Rightarrow> ('st engine, unit) exec" where
  "admitted E bound decided = e_bind (e_lift decided) (\<lambda>decisions.
     if length decisions \<noteq> length bound
     then e_fail (Protocol ''approval decision count differs from requests'')
     else e_then (e_modify (\<lambda>e. e\<lparr>en_admitting := en_admitting e - set (map fst bound)\<rparr>))
       (case first_some decision_suspends decisions of
          Some suspension \<Rightarrow> e_get (\<lambda>e.
            e_commit E ((en_current e)\<lparr>cp_state := StSuspended suspension\<rparr>)
              (FControl ActSuspended) Unchanged)
        | None \<Rightarrow> admit_decided E (zip (map fst bound) decisions)))"

section \<open>Recovery\<close>

definition recover_operation :: "'st kernel_env \<Rightarrow> operation_record \<Rightarrow> ('st engine, unit) exec" where
  "recover_operation E record = (case op_owner record of
       OwnerDelegation \<Rightarrow>
         (if ke_has_delegation E
          then e_then (pend_start (op_id record)) (e_log (StartDelegation (op_id record) (Inr record)))
          else unknown E (op_id record) ''delegation handler unavailable'')
     | OwnerRuntimeTool _ \<Rightarrow> e_get (\<lambda>e.
         e_bind (e_lift (operation_call (en_current e) record)) (\<lambda>call.
           case catalog_bind (ke_bind E) (en_specs e) call of
             Inr _ \<Rightarrow> spawn_tool E (op_id record) (Some record)
           | Inl err \<Rightarrow> unknown E (op_id record)
               (''recovery binding failed: '' @ error_text (ke_debug E) err)))
     | OwnerProvider _ \<Rightarrow> e_return ())"

definition recovering :: "checkpoint \<Rightarrow> operation_record list" where
  "recovering c = filter (\<lambda>op. op_state op = Running \<or> op_state op = Waiting \<or> op_state op = Cancelling)
     (om_values (cp_operations c))"

definition recover_operations :: "'st kernel_env \<Rightarrow> ('st engine, unit) exec" where
  "recover_operations E = e_get (\<lambda>e. e_each (recover_operation E) (recovering (en_current e)))"

section \<open>The projection invariant\<close>

lemma keeps_if: "(c \<Longrightarrow> keeps P m) \<Longrightarrow> (\<not> c \<Longrightarrow> keeps P n) \<Longrightarrow> keeps P (if c then m else n)"
  by simp

lemma keeps_option:
  "(x = None \<Longrightarrow> keeps P m) \<Longrightarrow> (\<And>y. x = Some y \<Longrightarrow> keeps P (f y)) \<Longrightarrow>
     keeps P (case x of None \<Rightarrow> m | Some y \<Rightarrow> f y)"
  by (cases x) simp_all


lemma pend_start_projection [keeps_intros]: "keeps_projection (pend_start i)"
  unfolding pend_start_def by (rule keeps_current_modify) simp

lemma spawn_tool_projection [keeps_intros]: "keeps_projection (spawn_tool E i recovery)"
  unfolding spawn_tool_def by (intro keeps_intros)

lemma start_delegation_projection [keeps_intros]: "keeps_projection (start_delegation E record)"
  unfolding start_delegation_def by (auto intro!: keeps_intros)

lemma admit_call_projection [keeps_intros]:
  "keeps_projection (admit_call E specs parallel running started i call)"
  unfolding admit_call_def by (auto intro!: keeps_intros split: sum.split)

lemma admit_calls_projection [keeps_intros]:
  "keeps_projection (admit_calls E specs parallel running cands selected acc calls)"
proof (induction calls arbitrary: selected acc)
  case (Cons call calls)
  have step: "keeps_projection (case a of
      AdmitSkip \<Rightarrow> admit_calls E specs parallel running cands (rtc_id call # selected) acc calls
    | AdmitStop \<Rightarrow> e_return acc
    | AdmitCall spec \<Rightarrow> admit_calls E specs parallel running cands (rtc_id call # selected)
        (fst acc @ [(rtc_id call, spec)], snd acc @ [\<lparr>ar_call = x, ar_spec = spec\<rparr>]) calls)" for a x
    by (cases a) (simp_all only: admission.case Cons.IH keeps_return)
  show ?case
    unfolding admit_calls.simps
    by (intro keeps_option keeps_if keeps_bind keeps_fail admit_call_projection step)
qed (simp add: keeps_def)

lemma admit_projection [keeps_intros]: "keeps_projection (admit E)"
  unfolding admit_def admit_tools_def Let_def by (auto intro!: keeps_intros split: prod.split)

lemma limit_run_projection [keeps_intros]: "keeps_projection (limit_run E reason)"
  unfolding limit_run_def by (intro keeps_get' keeps_projection_commit) simp

lemma admit_decided_projection [keeps_intros]: "keeps_projection (admit_decided E ds)"
proof (induction ds)
  case (Cons d ds)
  obtain i decision where d: "d = (i, decision)" by (cases d)
  have start: "keeps_projection (start_running E i)" for i
    unfolding start_running_def by (intro keeps_get') (auto intro!: keeps_intros keeps_projection_commit)
  show ?case
    unfolding d admit_decided.simps
    by (cases decision; simp only: approval_decision.case)
       (intro keeps_intros keeps_if Cons.IH start limit_run_projection)+
qed (simp add: keeps_def)

lemma admitted_projection [keeps_intros]: "keeps_projection (admitted E bound decided)"
  unfolding admitted_def by (auto intro!: keeps_intros keeps_projection_commit split: option.split)

lemma recover_operations_projection [keeps_intros]: "keeps_projection (recover_operations E)"
  unfolding recover_operations_def recover_operation_def
  by (auto intro!: keeps_intros split: operation_owner.split sum.split)

end
