(* ===== verification/Engine_Session.thy ===== *)
theory Engine_Session
  imports Engine_Admission
begin

text \<open>
  The model session (\<open>session.rs\<close>): the request for a generation, with the reduction of the history
  that may come first, and the opening of the catalog and of the session. While an opening is awaited
  the engine serves controls; the steps taken in between are an argument. The lemmas show that a
  generation covers the whole admitted input, that at most \<open>max_generation_requests\<close> are asked for,
  and that a reduced history is projected by a replacement.
\<close>

section \<open>Generations\<close>

definition needs_reduction :: "checkpoint \<Rightarrow> bool" where
  "needs_reduction c \<longleftrightarrow> cp_operations c = [] \<and> cp_commands c = [] \<and> ac_media (cp_active c) = []
     \<and> ss_reduced_context_revision (cp_session c) \<noteq> Some (ss_context_revision (cp_session c))"

text \<open>The entries this run produced; the run starts behind the retained ones before them.\<close>

definition rewrite_run_start :: "checkpoint \<Rightarrow> history_entry list \<Rightarrow> nat" where
  "rewrite_run_start c entries =
     (let produced = he_id ` set (drop (ss_run_start (cp_session c)) (history_entries (cp_history c))) in
      length (takeWhile (\<lambda>e. he_id e \<notin> produced) entries))"

definition rewrite_next :: "string \<Rightarrow> history \<Rightarrow> history_entry list \<Rightarrow> checkpoint \<Rightarrow> checkpoint" where
  "rewrite_next i h entries c =
     push_command i (IReplaceContext (ss_context_revision (cp_session c) + 1)) False
       (map_session (\<lambda>s. s\<lparr>ss_context_revision := ss_context_revision s + 1,
            ss_reduced_context_revision := Some (ss_context_revision s + 1)\<rparr>)
         (map_session (\<lambda>s. s\<lparr>ss_response_start := hist_len h, ss_run_start := rewrite_run_start c entries\<rparr>)
           (c\<lparr>cp_history := h\<rparr>)))"

definition rewrite_history ::
  "'st kernel_env \<Rightarrow> history_entry list \<Rightarrow> string \<Rightarrow> ('st engine, unit) exec" where
  "rewrite_history E entries reason =
     e_bind (e_lift (history_from_entries (ke_ext E) entries)) (\<lambda>h.
     e_bind (e_new_id E) (\<lambda>i. e_get (\<lambda>e.
       e_commit E (rewrite_next i h entries (en_current e)) (FHistoryRewrite reason) (Replace entries))))"

definition generation_next :: "bool \<Rightarrow> string \<Rightarrow> string \<Rightarrow> checkpoint \<Rightarrow> checkpoint" where
  "generation_next local generation_id i c =
     push_command i (IGenerate generation_id (ss_context_revision (cp_session c))
         (ss_input_position (cp_session c)) (ss_profile_revision (cp_session c))) local
       (map_session (\<lambda>s. s\<lparr>ss_generation_id := Some generation_id,
            ss_response_start := hist_len (cp_history c), ss_response_status := None,
            ss_generation_started := False, ss_generated_input_position := ss_input_position s,
            ss_needs_generation := False\<rparr>)
         (c\<lparr>cp_metrics := (cp_metrics c)\<lparr>met_generation_requests := met_generation_requests (cp_metrics c) + 1\<rparr>\<rparr>))"

definition request_generation :: "'st kernel_env \<Rightarrow> ('st engine, unit) exec" where
  "request_generation E = e_bind (e_new_id E) (\<lambda>generation_id. e_bind (e_new_id E) (\<lambda>i. e_get (\<lambda>e.
     e_commit E (generation_next (local_projection E e) generation_id i (en_current e)) (FCommand i) Unchanged)))"

text \<open>The reducer's answer is that of the interruptible call: an interruption is its error.\<close>

definition reduction :: "'st kernel_env \<Rightarrow> checkpoint \<Rightarrow> (history_entry list \<times> string) option result" where
  "reduction E c = (case ke_reducer E of
       Some reduce \<Rightarrow> (if needs_reduction c then reduce c else Inr None)
     | None \<Rightarrow> Inr None)"

definition generate :: "'st kernel_env \<Rightarrow> ('st engine, unit) exec" where
  "generate E = e_get (\<lambda>e.
     if lim_max_generation_requests (ro_limits (cp_options (en_current e)))
          \<le> met_generation_requests (cp_metrics (en_current e))
     then limit_run E LimitGenerationRequests
     else e_bind (e_lift (reduction E (en_current e))) (\<lambda>rewrite. case rewrite of
         Some (entries, reason) \<Rightarrow> rewrite_history E entries reason
       | None \<Rightarrow> request_generation E))"

section \<open>Opening\<close>

datatype opening_step = OpenControl control_body | OpenInterrupted

text \<open>What happens before the awaited result; \<open>False\<close> when the run left its active state.\<close>

fun serve_opening :: "'st kernel_env \<Rightarrow> opening_step list \<Rightarrow> ('st engine, bool) exec" where
  "serve_opening E [] = e_return True"
| "serve_opening E (OpenControl body # steps) = e_then (control E body) (e_get (\<lambda>e.
     if \<not> state_active (cp_state (en_current e)) then e_return False else serve_opening E steps))"
| "serve_opening E (OpenInterrupted # steps) = e_then (e_check E) (serve_opening E steps)"

definition open_catalog :: "'st kernel_env \<Rightarrow> opening_step list \<Rightarrow> ('st engine, unit) exec" where
  "open_catalog E steps = e_get (\<lambda>e0. e_bind (serve_opening E steps) (\<lambda>open.
     if \<not> open then e_return ()
     else e_get (\<lambda>e.
       e_bind (e_lift (r_bind (ke_open_catalog E (cp_context (en_current e0)))
                  (select_catalog (ro_runtime_tools (cp_options (en_current e)))))) (\<lambda>specs.
         e_modify (\<lambda>e. e\<lparr>en_specs := specs\<rparr>)))))"

fun append_entry :: "command_intent \<Rightarrow> nat option" where
  "append_entry (IAppend entry _ _ _ _) = Some entry"
| "append_entry _ = None"

text \<open>The history before the first entry that a pending command still has to project.\<close>

definition seed_end :: "checkpoint \<Rightarrow> nat" where
  "seed_end c = (case List.map_filter (\<lambda>k. append_entry (pc_intent k)) (cp_commands c) of
       [] \<Rightarrow> hist_len (cp_history c)
     | k # ks \<Rightarrow> fold min ks k)"

definition submitted_position :: "checkpoint \<Rightarrow> pending_command \<Rightarrow> u64 option" where
  "submitted_position c command = (case pc_intent command of
       IAppend entry _ position Submitted _ \<Rightarrow>
         (if some_and (\<lambda>e. message_is_live (he_message e)) (history_get (cp_history c) entry)
          then Some (position - 1) else None)
     | _ \<Rightarrow> None)"

definition seed_input_position :: "checkpoint \<Rightarrow> u64" where
  "seed_input_position c = (case first_some (submitted_position c) (cp_commands c) of
       Some position \<Rightarrow> position | None \<Rightarrow> ss_input_position (cp_session c))"

definition session_open_of :: "'st engine \<Rightarrow> session_open" where
  "session_open_of e = (let c = en_current e; s = cp_session c in \<lparr>
     so_binding = ss_binding s,
     so_request = engine_request e (take (seed_end c) (history_entries (cp_history c))),
     so_context_revision = ss_acknowledged_context_revision s,
     so_input_position = seed_input_position c,
     so_profile_revision = ss_profile_revision s,
     so_mode = ro_mode (cp_options c),
     so_session_id = ss_id s,
     so_after_sequence = (case ss_recovery s of None \<Rightarrow> None | Some _ \<Rightarrow> ss_last_sequence s),
     so_output_epoch = ss_output_epoch s,
     so_limits = ro_limits (cp_options c),
     so_recovery = ss_recovery s,
     so_context = cp_context c\<rparr>)"

definition session_opening :: "checkpoint \<Rightarrow> checkpoint" where
  "session_opening c = map_session (\<lambda>s. s\<lparr>ss_establishment := EstOpening, ss_ready := False\<rparr>) c"

definition opened_session ::
  "'st kernel_env \<Rightarrow> model_request \<Rightarrow> opened_session \<Rightarrow> checkpoint \<Rightarrow> checkpoint result" where
  "opened_session E request opened next = (let s = cp_session next; caps = os_capabilities opened in
     if ss_binding s \<noteq> None \<and> ss_binding s \<noteq> os_binding opened
     then Inl (Protocol ''model binding changed during recovery'')
     else if ro_mode (cp_options next) = Task \<and> \<not> supports caps ResponseEvents
     then Inl (Invalid ''bound model has no verifiable response boundaries'')
     else r_bind (ke_negotiate E True request) (\<lambda>negotiated.
       if ke_reducer E \<noteq> None \<and> \<not> supports caps CapReplaceContext
       then Inl (Invalid ''bound model does not support context replacement'')
       else Inr (map_session (\<lambda>s. s\<lparr>ss_binding := os_binding opened, ss_capabilities := Some caps,
              ss_negotiated := negotiated,
              ss_last_sequence := (if ss_recovery s = None then None else ss_last_sequence s)\<rparr>) next)))"

definition start_media_output :: "'st kernel_env \<Rightarrow> bool \<Rightarrow> ('st engine, unit) exec" where
  "start_media_output E output =
     (if \<not> output then e_return ()
      else if ke_write_archive E = None then e_fail (Invalid ''media session requires a resource store'')
      else e_then (e_modify (\<lambda>e. e\<lparr>en_media_pending := True\<rparr>)) (e_log StartMediaOutput))"

definition install_session ::
  "'st kernel_env \<Rightarrow> model_request \<Rightarrow> opened_session \<Rightarrow> ('st engine, unit) exec" where
  "install_session E request opened = e_get (\<lambda>e.
     let next = session_opening (en_current e) in
     if ss_recovery (cp_session next) \<noteq> None
        \<and> some_and (\<lambda>caps. caps \<noteq> os_capabilities opened) (ss_capabilities (cp_session next))
     then e_suspend E WaitRecovery
     else e_bind (e_lift (opened_session E request opened next)) (\<lambda>next.
       e_bind (e_new_id E) (\<lambda>i.
       e_then (e_commit E next (FCommand i) Unchanged)
      (e_then (e_modify (\<lambda>e. e\<lparr>en_session := Some (os_capabilities opened),
                              en_media_input := os_media_input opened\<rparr>))
      (e_then (e_log PumpSession) (start_media_output E (os_media_output opened)))))))"

definition open_result ::
  "'st kernel_env \<Rightarrow> session_open \<Rightarrow> ('st engine, unit) exec" where
  "open_result E request = e_get (\<lambda>e. case ke_open_session E request of
       Inr opened \<Rightarrow> install_session E (so_request request) opened
     | Inl err \<Rightarrow>
         (if ss_recovery (cp_session (en_current e)) \<noteq> None then e_suspend E WaitRecovery
          else (case err of Uncertain _ \<Rightarrow> e_suspend E WaitRecovery | _ \<Rightarrow> e_fail err)))"

definition open_model :: "'st kernel_env \<Rightarrow> opening_step list \<Rightarrow> ('st engine, unit) exec" where
  "open_model E steps = e_get (\<lambda>e.
     if ro_mode (cp_options (en_current e)) = Task \<and> \<not> supports (session_capabilities E e) ResponseEvents
     then e_fail (Invalid ''Task mode requires verifiable response boundaries'')
     else if ke_reducer E \<noteq> None \<and> \<not> supports (session_capabilities E e) CapReplaceContext
     then e_fail (Invalid ''model does not support context replacement required by the history reducer'')
     else e_then (if local_projection E e then e_return ()
                  else e_bind (e_new_id E) (\<lambda>i.
                    e_commit E (session_opening (en_current e)) (FCommand i) Unchanged))
       (e_get (\<lambda>e. let request = session_open_of e in
          e_bind (serve_opening E steps) (\<lambda>open.
            if open then open_result E request else e_return ()))))"

section \<open>Facts\<close>

lemma rewrite_projection: "projection_ok c \<Longrightarrow> projection_ok (rewrite_next i h entries c)"
  unfolding rewrite_next_def
  using push_replace_projection [of "map_session (\<lambda>s. s\<lparr>ss_response_start := hist_len h,
      ss_run_start := rewrite_run_start c entries\<rparr>) (c\<lparr>cp_history := h\<rparr>)"]
  by simp

lemma generation_projection [simp]: "projection_ok (generation_next local g i c) = projection_ok c"
  by (simp add: generation_next_def)

lemma generate_projection [keeps_intros]: "keeps_projection (generate E)"
  unfolding generate_def rewrite_history_def request_generation_def
  by (auto intro!: keeps_intros keeps_projection_commit rewrite_projection split: option.split)

lemma serve_opening_projection [keeps_intros]: "keeps_projection (serve_opening E steps)"
proof (induction steps)
  case (Cons step steps)
  then show ?case
    by (cases step; simp only: serve_opening.simps) (intro keeps_intros keeps_if Cons.IH)+
qed (simp add: keeps_def)

lemma open_catalog_projection [keeps_intros]: "keeps_projection (open_catalog E steps)"
  unfolding open_catalog_def by (intro keeps_intros keeps_if) simp_all

lemma session_opening_projection [simp]: "projection_ok (session_opening c) = projection_ok c"
  by (simp add: session_opening_def)

lemma opened_session_projection:
  "opened_session E request opened c = Inr c' \<Longrightarrow> projection_ok c' = projection_ok c"
  by (auto simp: opened_session_def Let_def r_bind_Inr split: if_splits)

lemma install_session_projection [keeps_intros]: "keeps_projection (install_session E request opened)"
  unfolding install_session_def start_media_output_def Let_def
  by (intro keeps_get' keeps_if suspend_projection keeps_bind_Inr)
     (auto intro!: keeps_intros keeps_projection_commit dest: opened_session_projection)

lemma open_result_projection [keeps_intros]: "keeps_projection (open_result E request)"
  unfolding open_result_def
  by (auto intro!: keeps_intros install_session_projection split: sum.split error.split)

lemma open_model_projection [keeps_intros]: "keeps_projection (open_model E steps)"
  unfolding open_model_def Let_def
  by (intro keeps_get' keeps_if keeps_then keeps_fail keeps_return keeps_bind keeps_new_id
      serve_opening_projection open_result_projection keeps_projection_commit) simp

text \<open>A generation covers all admitted input, and is counted against its budget.\<close>

lemma generation_next_covers:
  "ss_generated_input_position (cp_session (generation_next local g i c)) = ss_input_position (cp_session c)"
  "ss_input_position (cp_session (generation_next local g i c)) = ss_input_position (cp_session c)"
  "\<not> ss_needs_generation (cp_session (generation_next local g i c))"
  "ss_generation_id (cp_session (generation_next local g i c)) = Some g"
  "ss_response_status (cp_session (generation_next local g i c)) = None"
  by (simp_all add: generation_next_def)

lemma rewrite_run_start_bound: "rewrite_run_start c entries \<le> length entries"
  by (simp add: rewrite_run_start_def Let_def length_takeWhile_le)

end
