(* ===== verification/Engine_Media.thy ===== *)
theory Engine_Media
  imports Engine_Session
begin

text \<open>
  Live media (\<open>media.rs\<close>): packets queued for one stream are sealed as a segment, the segment is
  committed by its cursor, and a stream that ended is archived. The archive is a chain of resources
  written once and never changed, so it is finite: \<open>ke_archive_depth\<close> bounds its length and
  \<open>read_archive_enough\<close> shows that the bound does not matter. The lemmas show that the chunks of a
  segment belong together, that the sealed bytes can be cut into the chunks again, and that the
  committed sequence of a stream increases.
\<close>

section \<open>Segments\<close>

definition media_key :: "string \<Rightarrow> string \<Rightarrow> u64 \<Rightarrow> string" where
  "media_key direction stream_id epoch = direction @ '':'' @ stream_id @ '':'' @ dec (unat epoch)"

definition joins :: "media_chunk \<Rightarrow> media_chunk \<Rightarrow> bool" where
  "joins earlier later \<longleftrightarrow> \<not> mc_end earlier \<and> mc_stream_id earlier = mc_stream_id later
     \<and> mc_session_id earlier = mc_session_id later \<and> mc_epoch earlier = mc_epoch later
     \<and> mc_media_type earlier = mc_media_type later"

definition max_segment_chunks :: nat where
  "max_segment_chunks = 1024"

text \<open>
  The packets joined to a nonempty segment with at most \<open>room\<close> more, the packet that did not join,
  and what stays queued.
\<close>

fun take_segment ::
  "nat \<Rightarrow> media_chunk list \<Rightarrow> media_chunk list \<Rightarrow> media_chunk list \<times> media_chunk option \<times> media_chunk list" where
  "take_segment 0 segment queue = (segment, None, queue)"
| "take_segment (Suc room) segment [] = (segment, None, [])"
| "take_segment (Suc room) segment (packet # queue) =
     (if joins (last segment) packet then take_segment room (segment @ [packet]) queue
      else (segment, Some packet, queue))"

definition collect_segment ::
  "limits \<Rightarrow> media_chunk \<Rightarrow> media_chunk list \<Rightarrow> media_chunk list \<times> media_chunk option \<times> media_chunk list" where
  "collect_segment l first queue =
     take_segment (min (lim_max_buffered_media_packets l) max_segment_chunks - 1) [first] queue"

text \<open>\<open>seal_media\<close>: the bytes of the chunks are appended to one resource, in order.\<close>

fun seal_chunks :: "u64 \<Rightarrow> media_chunk list \<Rightarrow> sealed_chunk list" where
  "seal_chunks offset [] = []"
| "seal_chunks offset (c # cs) =
     \<lparr>sc_sequence = mc_sequence c, sc_timestamp_us = mc_timestamp_us c, sc_offset = offset,
      sc_length = of_nat (length (mc_bytes c)), sc_end = mc_end c\<rparr>
     # seal_chunks (offset + of_nat (length (mc_bytes c))) cs"

definition segment_bytes :: "media_chunk list \<Rightarrow> bytes" where
  "segment_bytes segment = concat (map mc_bytes segment)"

definition seal_media :: "(bytes \<Rightarrow> resource_ref result) \<Rightarrow> media_chunk list \<Rightarrow> resource_ref option
    \<Rightarrow> sealed_media result" where
  "seal_media write segment previous = (case segment of
       [] \<Rightarrow> Inl (Protocol ''empty media segment'')
     | first # _ \<Rightarrow> r_bind (write (segment_bytes segment)) (\<lambda>resource. Inr
         \<lparr>sm_stream_id = mc_stream_id first, sm_session_id = mc_session_id first,
          sm_epoch = mc_epoch first, sm_chunks = seal_chunks 0 segment,
          sm_resource = resource, sm_previous = previous\<rparr>))"

section \<open>Cursors\<close>

fun increasing :: "u64 list \<Rightarrow> bool" where
  "increasing (x # y # ys) \<longleftrightarrow> x < y \<and> increasing (y # ys)"
| "increasing _ \<longleftrightarrow> True"

text \<open>The keys of the archived streams, read along the chain.\<close>

fun read_archive ::
  "'st kernel_env \<Rightarrow> nat \<Rightarrow> resource_ref option \<Rightarrow> ('st engine, string set) exec" where
  "read_archive E depth None = e_return {}"
| "read_archive E 0 (Some reference) = e_fail (Protocol ''unreachable'')"
| "read_archive E (Suc depth) (Some reference) = e_then (e_check E)
     (case ke_read_archive E reference of
        Inl _ \<Rightarrow> e_fail (Protocol ''invalid media archive node'')
      | Inr node \<Rightarrow> e_bind (read_archive E depth (am_previous node)) (\<lambda>ended.
          e_return (insert (am_stream_key node) ended)))"

definition ensure_new_stream :: "'st kernel_env \<Rightarrow> string \<Rightarrow> ('st engine, unit) exec" where
  "ensure_new_stream E key =
     (if ke_write_archive E = None then e_return ()
      else e_then (e_get (\<lambda>e. if en_ended_streams e = None
             then e_bind (read_archive E (ke_archive_depth E) (ss_media_archive (cp_session (en_current e))))
               (\<lambda>ended. e_modify (\<lambda>e. e\<lparr>en_ended_streams := Some ended\<rparr>))
             else e_return ()))
        (e_get (\<lambda>e. if some_and (\<lambda>ended. key \<in> ended) (en_ended_streams e)
             then e_fail (Protocol ''media after stream end'') else e_return ())))"

definition cursor_of :: "sealed_media \<Rightarrow> resource_ref \<Rightarrow> stream_cursor" where
  "cursor_of segment reference = \<lparr>cur_sequence = sc_sequence (last (sm_chunks segment)),
     cur_epoch = sm_epoch segment, cur_sealed = reference\<rparr>"

definition seal_next ::
  "'st kernel_env \<Rightarrow> string \<Rightarrow> sealed_media \<Rightarrow> resource_ref \<Rightarrow> checkpoint \<Rightarrow> ('st engine, checkpoint) exec" where
  "seal_next E key segment reference next =
     (if sc_end (last (sm_chunks segment))
      then e_bind (archive_media E next key reference True) (\<lambda>next. e_return (remove_media key next))
      else e_return (insert_media key (cursor_of segment reference) next))"

definition seal_cursor ::
  "'st kernel_env \<Rightarrow> string \<Rightarrow> sealed_media \<Rightarrow> resource_ref \<Rightarrow> ('st engine, unit) exec" where
  "seal_cursor E direction segment reference = e_get (\<lambda>e.
     if sm_chunks segment = [] then e_fail (Protocol ''empty media segment'')
     else (let key = media_key direction (sm_stream_id segment) (sm_epoch segment);
               cursor = om_get (ac_media (cp_active (en_current e))) key;
               sequences = map sc_sequence (sm_chunks segment);
               ended = sc_end (last (sm_chunks segment)) in
       if some_and (\<lambda>c. hd sequences \<le> cur_sequence c) cursor \<or> \<not> increasing sequences
       then e_fail (Protocol ''media sequence did not increase'')
       else e_then (if cursor = None then ensure_new_stream E key else e_return ())
           (e_get (\<lambda>e. e_bind (seal_next E key segment reference (en_current e)) (\<lambda>next.
              e_then (e_commit E next (FMedia (sm_stream_id segment) (last sequences)) Unchanged)
                (if ended then e_modify (ended_stream key) else e_return ()))))))"

section \<open>Host input\<close>

definition input_media :: "'st kernel_env \<Rightarrow> media_chunk \<Rightarrow> ('st engine, unit) exec" where
  "input_media E first = e_get (\<lambda>e.
     let limits = ro_limits (cp_options (en_current e)) in
     case collect_segment limits first (en_media_queue e) of (segment, held, queue) \<Rightarrow>
       e_then (e_modify (\<lambda>e. e\<lparr>en_media_queue := queue,
                               en_held_input := (case held of None \<Rightarrow> en_held_input e | Some p \<Rightarrow> Some p)\<rparr>))
      (e_then (e_lift (each (\<lambda>c. checks [media_chunk_validate c (lim_max_media_chunk_bytes limits),
                 fail_if (mc_epoch c \<noteq> 0 \<or> ss_id (cp_session (en_current e)) \<noteq> mc_session_id c)
                   (Invalid ''foreign media turn or epoch'')]) segment))
      (if ke_write_archive E = None then e_fail (Invalid ''media input requires resource storage'')
       else if \<not> en_media_input e then e_fail (Invalid ''model has no media input'')
       else e_then (e_modify (\<lambda>e. e\<lparr>en_input_sending := True\<rparr>))
              (e_log (SealInput segment (map_option cur_sealed
                 (om_get (ac_media (cp_active (en_current e))) (media_key ''input'' (mc_stream_id first) 0))))))))"

section \<open>Model output\<close>

text \<open>
  The sealer links a stream's segments: an accepted segment that ends its stream drops the link, any
  other keeps the links of its epoch only. \<open>None\<close> from the engine's verdict changes nothing.
\<close>

definition ends_with :: "string \<Rightarrow> string \<Rightarrow> bool" where
  "ends_with suffix s \<longleftrightarrow> length suffix \<le> length s \<and> drop (length s - length suffix) s = suffix"

definition sealer_link ::
  "media_chunk list \<Rightarrow> resource_ref \<Rightarrow> bool \<Rightarrow> (string, resource_ref) omap \<Rightarrow> (string, resource_ref) omap" where
  "sealer_link segment reference accepted previous =
     (let c = last segment; key = media_key ''output'' (mc_stream_id c) (mc_epoch c) in
      if \<not> accepted then previous
      else if mc_end c then om_remove key previous
      else om_insert key reference
        (om_retain (\<lambda>k _. ends_with ('':'' @ dec (unat (mc_epoch c))) k) previous))"

section \<open>Facts\<close>

text \<open>The chunks of a segment join one another: same stream, session, epoch and type, one end.\<close>

fun joined :: "media_chunk list \<Rightarrow> bool" where
  "joined (x # y # ys) \<longleftrightarrow> joins x y \<and> joined (y # ys)"
| "joined _ \<longleftrightarrow> True"

lemma joined_snoc: "xs \<noteq> [] \<Longrightarrow> joined (xs @ [y]) \<longleftrightarrow> joined xs \<and> joins (last xs) y"
  by (induction xs rule: joined.induct) auto

lemma take_segment_spec:
  assumes "take_segment room segment queue = (segment', held, queue')" and "segment \<noteq> []" and "joined segment"
  shows "joined segment' \<and> segment' \<noteq> []
     \<and> segment @ queue = segment' @ (case held of None \<Rightarrow> [] | Some p \<Rightarrow> [p]) @ queue'
     \<and> length segment' \<le> length segment + room
     \<and> (\<forall>p. held = Some p \<longrightarrow> \<not> joins (last segment') p)"
  using assms
proof (induction room segment queue rule: take_segment.induct)
  case (3 room segment packet queue)
  then show ?case
    using joined_snoc [of segment packet] by (auto split: if_splits)
qed auto

lemma joined_same:
  assumes "joined segment" and "c \<in> set segment"
  shows "mc_stream_id c = mc_stream_id (hd segment) \<and> mc_session_id c = mc_session_id (hd segment)
     \<and> mc_epoch c = mc_epoch (hd segment) \<and> mc_media_type c = mc_media_type (hd segment)"
  using assms by (induction segment rule: joined.induct) (auto simp: joins_def)

lemma joined_ends:
  "joined segment \<Longrightarrow> k < length segment - 1 \<Longrightarrow> \<not> mc_end (segment ! k)"
proof (induction segment arbitrary: k rule: joined.induct)
  case (1 x y ys)
  then show ?case by (cases k) (auto simp: joins_def)
qed auto

text \<open>The offsets and lengths cut the sealed bytes into the chunks' bytes.\<close>

lemma seal_chunks_length [simp]: "length (seal_chunks offset segment) = length segment"
  by (induction segment arbitrary: offset) auto

lemma seal_chunks_cut:
  assumes "before = take (unat offset) all" and "unat offset \<le> length all" and "all = before @ segment_bytes segment"
    and "length all < 2 ^ 64" and "k < length segment"
  shows "take (unat (sc_length (seal_chunks offset segment ! k)))
           (drop (unat (sc_offset (seal_chunks offset segment ! k))) all) = mc_bytes (segment ! k)"
  using assms
proof (induction segment arbitrary: offset before k)
  case (Cons c cs)
  let ?n = "length (mc_bytes c)"
  have len: "length before = unat offset" using Cons.prems(1,2) by simp
  have all: "all = before @ mc_bytes c @ segment_bytes cs"
    using Cons.prems(3) by (simp add: segment_bytes_def)
  have small: "?n < 2 ^ 64" "unat offset + ?n < 2 ^ 64"
    using Cons.prems(4) len by (simp_all add: all)
  have n: "unat (of_nat ?n :: u64) = ?n" using small(1) by (simp add: unat_of_nat)
  have off: "unat (offset + of_nat ?n) = unat offset + ?n"
    using small by (simp add: unat_word_ariths n)
  show ?case
  proof (cases k)
    case 0
    then show ?thesis by (simp add: n all len [symmetric])
  next
    case (Suc k')
    have "take (unat (sc_length (seal_chunks (offset + of_nat ?n) cs ! k')))
           (drop (unat (sc_offset (seal_chunks (offset + of_nat ?n) cs ! k'))) all) = mc_bytes (cs ! k')"
      using Cons.prems(4,5) Suc
      by (intro Cons.IH [of "before @ mc_bytes c"]) (simp_all add: off all len segment_bytes_def)
    then show ?thesis by (simp add: Suc)
  qed
qed simp

lemma increasing_sorted: "increasing xs \<longleftrightarrow> sorted_wrt (<) xs"
proof (induction xs rule: increasing.induct)
  case (1 x y ys)
  then show ?case by (auto dest: less_trans)
qed auto

lemma increasing_last: "increasing xs \<Longrightarrow> xs \<noteq> [] \<Longrightarrow> hd xs \<le> last xs"
proof (induction xs rule: increasing.induct)
  case (1 x y ys)
  then have "y \<le> last (y # ys)" by simp
  with 1 have "x \<le> last (y # ys)" by (metis increasing.simps(1) less_le_trans less_imp_le)
  then show ?case by simp
qed auto

text \<open>Any bound at least as long as the chain reads the same.\<close>

fun chain_length :: "'st kernel_env \<Rightarrow> nat \<Rightarrow> resource_ref option \<Rightarrow> nat option" where
  "chain_length E n None = Some 0"
| "chain_length E 0 (Some r) = None"
| "chain_length E (Suc n) (Some r) = (case ke_read_archive E r of
     Inl _ \<Rightarrow> Some 1 | Inr node \<Rightarrow> map_option Suc (chain_length E n (am_previous node)))"

lemma read_archive_enough:
  assumes "chain_length E n r = Some k" and "k \<le> depth"
  shows "read_archive E depth r = read_archive E k r"
  using assms
proof (induction E n r arbitrary: k depth rule: chain_length.induct)
  case (3 E n r)
  then obtain d where d: "depth = Suc d" by (cases depth) (auto split: sum.splits)
  show ?case
  proof (cases "ke_read_archive E r")
    case (Inl err)
    then show ?thesis using "3.prems" d by auto
  next
    case (Inr node)
    then obtain k' where k': "chain_length E n (am_previous node) = Some k'" "k = Suc k'"
      using "3.prems" by auto
    show ?thesis using "3.IH" [OF Inr k'(1), of d] "3.prems"(2) d k'(2) Inr by simp
  qed
qed auto

lemma keeps_read_archive [keeps_intros]: "keeps (\<lambda>e. I (en_current e)) (read_archive E n r)"
proof (induction E n r rule: read_archive.induct)
  case (3 E n r)
  show ?case
    by (cases "ke_read_archive E r"; simp only: read_archive.simps sum.case)
       (intro keeps_intros 3; assumption?)+
qed (simp_all add: keeps_def)

lemma keeps_ensure_new_stream [keeps_intros]: "keeps (\<lambda>e. I (en_current e)) (ensure_new_stream E key)"
  unfolding ensure_new_stream_def by (intro keeps_intros keeps_if) simp_all

lemma archive_media_keeps [keeps_intros]: "keeps (\<lambda>e. I (en_current e)) (archive_media E c key sealed complete)"
  by (rule keepsI) (simp add: archive_media_current)

lemma seal_next_view:
  "seal_next E key segment reference c e = (Inr c', e') \<Longrightarrow> projection_view c' = projection_view c"
  by (auto simp: seal_next_def e_bind_eq_Inr insert_media_def remove_media_def map_active_def projection_view_def
      split: if_splits dest!: archive_media_Inr(1))

lemma seal_cursor_projection [keeps_intros]: "keeps_projection (seal_cursor E direction segment reference)"
proof -
  have "keeps_projection (e_bind (seal_next E key segment reference c) (\<lambda>next.
      e_then (e_commit E next what Unchanged) (if ended then e_modify (ended_stream key) else e_return ())))"
    if "projection_ok c" for c key what ended
  proof (rule keeps_bind_Inr)
    fix e :: "'a engine" assume "projection_ok (en_current e)"
    then show "projection_ok (en_current (snd (seal_next E key segment reference c e)))"
      using archive_media_current [of E c key reference True e]
      by (auto simp: seal_next_def e_bind_def split: prod.splits sum.splits)
  next
    fix e :: "'a engine" and x e'
    assume "seal_next E key segment reference c e = (Inr x, e')"
    then have "projection_ok x" using projection_view_ok [OF seal_next_view] that by blast
    then show "keeps_projection (e_then (e_commit E x what Unchanged)
        (if ended then e_modify (ended_stream key) else e_return ()))"
      by (auto intro!: keeps_intros keeps_projection_commit simp: ended_stream_def)
  qed
  then show ?thesis
    unfolding seal_cursor_def Let_def
    by (intro keeps_get' keeps_if keeps_then keeps_fail keeps_return keeps_ensure_new_stream)
qed

lemma input_media_projection [keeps_intros]: "keeps_projection (input_media E first)"
  unfolding input_media_def Let_def
  by (intro keeps_get') (auto intro!: keeps_intros split: prod.split)

text \<open>
  A segment commits only when it lies behind the stream's cursor, and the cursor it leaves is that of
  its last chunk; a segment that ends its stream leaves none.
\<close>

lemma seal_cursor_advances:
  assumes run: "seal_cursor E direction segment reference e = (Inr (), e')"
    and key: "key = media_key direction (sm_stream_id segment) (sm_epoch segment)"
  shows "sm_chunks segment \<noteq> [] \<and> sorted_wrt (<) (map sc_sequence (sm_chunks segment))
    \<and> (\<forall>c. om_get (ac_media (cp_active (en_current e))) key = Some c \<longrightarrow>
           (\<forall>chunk \<in> set (sm_chunks segment). cur_sequence c < sc_sequence chunk))
    \<and> om_get (ac_media (cp_active (en_current e'))) key
        = (if sc_end (last (sm_chunks segment)) then None else Some (cursor_of segment reference))"
proof -
  let ?cursor = "om_get (ac_media (cp_active (en_current e))) key"
  let ?seqs = "map sc_sequence (sm_chunks segment)"
  obtain e1 c1 e2 e3 where guards: "sm_chunks segment \<noteq> []" "\<not> some_and (\<lambda>c. hd ?seqs \<le> cur_sequence c) ?cursor"
      "increasing ?seqs"
    and fresh: "(if ?cursor = None then ensure_new_stream E key else e_return ()) e = (Inr (), e1)"
    and step: "seal_next E key segment reference (en_current e1) e1 = (Inr c1, e2)"
    and commit: "e_commit E c1 (FMedia (sm_stream_id segment) (last ?seqs)) Unchanged e2 = (Inr (), e3)"
    and final: "(if sc_end (last (sm_chunks segment)) then e_modify (ended_stream key) else e_return ()) e3 = (Inr (), e')"
    using run by (auto simp: seal_cursor_def Let_def e_then_eq_Inr e_bind_eq_Inr key split: if_splits)
  have sorted: "sorted_wrt (<) ?seqs" using guards(3) by (simp add: increasing_sorted)
  have "cur_sequence c < sc_sequence chunk" if "?cursor = Some c" "chunk \<in> set (sm_chunks segment)" for c chunk
  proof -
    have "cur_sequence c < hd ?seqs" using guards(2) that(1) by (simp add: not_le)
    moreover have "hd ?seqs \<le> sc_sequence chunk"
      using sorted that(2) by (cases "sm_chunks segment") auto
    ultimately show ?thesis by simp
  qed
  moreover have "en_current e' = en_current e3"
    using final by (auto simp: ended_stream_def split: if_splits)
  moreover have "ac_media (cp_active (en_current e3)) = ac_media (cp_active c1)"
    using e_commit_current [OF commit] by simp
  moreover have "om_get (ac_media (cp_active c1)) key
      = (if sc_end (last (sm_chunks segment)) then None else Some (cursor_of segment reference))"
    using step
    by (auto simp: seal_next_def e_bind_eq_Inr remove_media_def insert_media_def map_active_def split: if_splits)
  ultimately show ?thesis using guards(1) sorted by auto
qed

end
