(* ===== verification/Engine_Events.thy ===== *)
theory Engine_Events
  imports Engine_Commands
begin

text \<open>
  Session events (\<open>model_events.rs\<close>): the sequence check, the application of one event to a staged
  checkpoint with its acknowledgements, outputs and response completions, the batching of the events
  queued behind it into one commit, and the events of provider operations. The lemmas show that a
  batch commits what its events give one at a time, that the projection invariant survives every
  event, and that the sequence of applied events increases.
\<close>

section \<open>Sequences\<close>

definition fresh_sequence :: "u64 \<Rightarrow> ('st engine, bool) exec" where
  "fresh_sequence sequence = e_get (\<lambda>e.
     if some_and (\<lambda>previous. sequence \<le> previous) (en_session_sequence e)
     then e_fail (Protocol ''session event sequence did not increase'')
     else e_then (e_modify (\<lambda>e. e\<lparr>en_session_sequence := Some sequence\<rparr>))
       (e_return (none_or (\<lambda>previous. previous < sequence) (ss_last_sequence (cp_session (en_current e))))))"

record effects =
  eff_seal_user_input :: bool
  eff_suspend :: bool
  eff_provider_state :: bool

definition effects_default :: effects where
  "effects_default = \<lparr>eff_seal_user_input = False, eff_suspend = False, eff_provider_state = False\<rparr>"

section \<open>Staging entries\<close>

fun append_commands ::
  "'st kernel_env \<Rightarrow> nat list \<Rightarrow> append_source \<Rightarrow> checkpoint \<Rightarrow> ('st engine, checkpoint) exec" where
  "append_commands E [] source next = e_return next"
| "append_commands E (k # ks) source next =
     e_bind (e_new_id E) (\<lambda>i. append_commands E ks source (append_command i k source None next))"

definition stage_entries ::
  "'st kernel_env \<Rightarrow> history_entry list \<Rightarrow> checkpoint \<Rightarrow> ('st engine, checkpoint) exec" where
  "stage_entries E entries next =
     (if entries = [] then e_return next
      else e_bind (e_lift (history_append (ke_ext E) (cp_history next) entries)) (\<lambda>h.
        e_get (\<lambda>e.
          if supports (session_capabilities E e) ExplicitGeneration
          then append_commands E [hist_len (cp_history next)..<hist_len h] Accepted (next\<lparr>cp_history := h\<rparr>)
          else e_return (next\<lparr>cp_history := h\<rparr>))))"

section \<open>Acknowledgements\<close>

fun position :: "('a \<Rightarrow> bool) \<Rightarrow> 'a list \<Rightarrow> nat option" where
  "position p [] = None"
| "position p (x # xs) = (if p x then Some 0 else map_option Suc (position p xs))"

definition remove_nth :: "nat \<Rightarrow> 'a list \<Rightarrow> 'a list" where
  "remove_nth k xs = take k xs @ drop (Suc k) xs"

definition unknown_effective :: "negotiated_profile \<Rightarrow> effective_profile" where
  "unknown_effective p = map (\<lambda>k. (k, ConfirmationUnknown)) (om_keys (np_selected p))"

definition acknowledge_profile ::
  "'st kernel_env \<Rightarrow> command_intent \<Rightarrow> checkpoint \<Rightarrow> ('st engine, checkpoint) exec" where
  "acknowledge_profile E intent next = (case intent of
       IUpdateProfile revision profile \<Rightarrow> e_get (\<lambda>e.
         let request = (engine_request e (history_entries (cp_history next)))\<lparr>mr_profile := profile\<rparr> in
         e_bind (e_lift (engine_negotiate E e request)) (\<lambda>negotiated.
           e_return (map_session (\<lambda>s. s\<lparr>ss_negotiated := negotiated,
             ss_effective := unknown_effective negotiated, ss_profile_revision := revision,
             ss_profile := profile\<rparr>) next)))
     | _ \<Rightarrow> e_return next)"

definition acknowledge_projection :: "command_intent \<Rightarrow> checkpoint \<Rightarrow> checkpoint result" where
  "acknowledge_projection intent next = (case projection_revision intent of
       None \<Rightarrow> Inr next
     | Some revision \<Rightarrow>
         (if revision \<noteq> ss_acknowledged_context_revision (cp_session next) + 1
          then Inl (Protocol ''out-of-order projection acknowledgement'')
          else Inr (map_session (\<lambda>s. s\<lparr>ss_acknowledged_context_revision := revision\<rparr>) next)))"

definition acknowledge_result :: "command_intent \<Rightarrow> checkpoint \<Rightarrow> checkpoint" where
  "acknowledge_result intent next = (case intent of
       IAppend _ _ _ _ (Some operation_id) \<Rightarrow> map_operations (om_remove operation_id) next
     | _ \<Rightarrow> next)"

definition acknowledge_command ::
  "'st kernel_env \<Rightarrow> string \<Rightarrow> recovery_ref option \<Rightarrow> checkpoint \<Rightarrow> ('st engine, checkpoint) exec" where
  "acknowledge_command E command_id recovery next =
     (case position (\<lambda>c. pc_id c = command_id) (cp_commands next) of
        None \<Rightarrow> e_fail (Protocol ''acknowledgement has no pending command'')
      | Some k \<Rightarrow>
          (let intent = pc_intent (cp_commands next ! k);
               next1 = acknowledge_result intent (map_commands (remove_nth k) next) in
           e_bind (e_lift (acknowledge_projection intent next1)) (\<lambda>next2.
           e_bind (acknowledge_profile E intent next2) (\<lambda>next3.
           e_then (e_modify (\<lambda>e. e\<lparr>en_sent := en_sent e - {command_id}\<rparr>))
             (e_return (case recovery of None \<Rightarrow> next3
                | Some r \<Rightarrow> map_session (\<lambda>s. s\<lparr>ss_recovery := Some r\<rparr>) next3))))))"

section \<open>Outputs\<close>

definition new_operation :: "string \<Rightarrow> call_ref \<Rightarrow> operation_owner \<Rightarrow> operation_state \<Rightarrow> nat \<Rightarrow> operation_record" where
  "new_operation i origin owner state entry = \<lparr>op_id = i, op_origin = origin, op_owner = owner,
     op_state = state, op_call_entry = entry, op_result_entry = None, op_recovery = None,
     op_last_sequence = None, op_last_update = None, op_wait = None\<rparr>"

fun provider_status_state :: "provider_tool_status \<Rightarrow> operation_state" where
  "provider_status_state StatusPending = Running"
| "provider_status_state StatusRunning = Running"
| "provider_status_state StatusFailed = OpFailed"
| "provider_status_state StatusIncomplete = OpFailed"
| "provider_status_state StatusCancelled = OpCancelled"
| "provider_status_state StatusCompleted = Succeeded"

definition record_provider :: "string \<Rightarrow> call_ref \<Rightarrow> provider_tool_call \<Rightarrow> checkpoint \<Rightarrow> checkpoint" where
  "record_provider i origin call next =
     (let state = provider_status_state (ptc_status call);
          entry = hist_len (cp_history next);
          ops = (if om_contains (cp_operations next) i then cp_operations next
                 else om_insert i (new_operation i origin (OwnerProvider (ptc_provider call)) state entry)
                        (cp_operations next)) in
      map_operations (\<lambda>_. om_modify i (\<lambda>op. op\<lparr>op_state := state,
         op_result_entry := if op_terminal state then Some entry else None\<rparr>) ops) next)"

definition unfinished_count :: "checkpoint \<Rightarrow> nat" where
  "unfinished_count c = length (filter (\<lambda>op. \<not> op_terminal (op_state op)) (om_values (cp_operations c)))"

definition record_output ::
  "'st kernel_env \<Rightarrow> output_item \<Rightarrow> call_ref \<Rightarrow> checkpoint \<Rightarrow> ('st engine, checkpoint) exec" where
  "record_output E item origin next = (case item of
       Delegation _ \<Rightarrow> e_get (\<lambda>e.
         if \<not> supports (session_capabilities E e) CapDelegation
         then e_fail (Protocol ''undeclared delegation capability'')
         else if lim_max_inflight_operations (ro_limits (cp_options next)) \<le> length (cp_operations next)
         then e_fail (Invalid ''inflight operation capacity exceeded'')
         else e_bind (e_new_id E) (\<lambda>i. e_return (map_operations (om_insert i
                (new_operation i origin OwnerDelegation Queued (hist_len (cp_history next)))) next)))
     | RuntimeToolCall call \<Rightarrow>
         (if lim_max_inflight_operations (ro_limits (cp_options next)) \<le> unfinished_count next
          then e_fail (Invalid ''inflight operation capacity exceeded'')
          else e_bind (e_new_id E) (\<lambda>i. e_return (map_operations (om_insert i
                (new_operation i origin (OwnerRuntimeTool (rtc_name call)) Queued
                   (hist_len (cp_history next)))) next)))
     | ProviderToolCall call \<Rightarrow>
         e_return (record_provider (provider_operation_id E origin) origin call next)
     | OutputContent _ \<Rightarrow> e_return next)"

definition output_call_id :: "string \<Rightarrow> output_item \<Rightarrow> string" where
  "output_call_id item_id item = (case item of
       Delegation request \<Rightarrow> dr_id request
     | RuntimeToolCall call \<Rightarrow> rtc_id call
     | ProviderToolCall call \<Rightarrow> ptc_id call
     | OutputContent _ \<Rightarrow> item_id)"

text \<open>A provider call that continues an unsettled operation keeps that operation's origin.\<close>

definition output_origin :: "call_ref \<Rightarrow> output_item \<Rightarrow> checkpoint \<Rightarrow> call_ref" where
  "output_origin origin item next = (case item of
       ProviderToolCall call \<Rightarrow>
         (case find (\<lambda>op. \<not> op_terminal (op_state op) \<and> cr_call_id (op_origin op) = ptc_id call
                  \<and> cr_caller_id (op_origin op) = cr_caller_id origin
                  \<and> op_owner op = OwnerProvider (ptc_provider call)) (om_values (cp_operations next)) of
            Some op \<Rightarrow> op_origin op
          | None \<Rightarrow> origin)
     | _ \<Rightarrow> origin)"

fun output_is_work :: "output_item \<Rightarrow> bool" where
  "output_is_work (OutputContent _) = False"
| "output_is_work _ = True"

definition output_entry :: "'st kernel_env \<Rightarrow> checkpoint \<Rightarrow> string option \<Rightarrow> string \<Rightarrow> call_ref \<Rightarrow> output_item \<Rightarrow> history_entry" where
  "output_entry E next generation_id item_id origin item = \<lparr>
     he_id = ke_json_text E (Array [String (ss_id (cp_session next)), json_opt generation_id,
                                    String (cr_caller_id origin), String item_id]),
     he_origin = Some origin, he_message = Assistant [item] Null\<rparr>"

definition stage_output ::
  "'st kernel_env \<Rightarrow> string option \<Rightarrow> string \<Rightarrow> string \<Rightarrow> output_item \<Rightarrow> checkpoint
     \<Rightarrow> ('st engine, checkpoint \<times> bool) exec" where
  "stage_output E generation_id item_id caller_id item next = (let s = cp_session next in
     if generation_id \<noteq> None \<and> (ss_generation_id s \<noteq> generation_id \<or> ss_response_status s \<noteq> None
                               \<or> \<not> ss_generation_started s)
     then e_fail (Protocol ''output belongs to another generation'')
     else e_then (e_lift (validate_output [item]))
       (if item_id = [] \<or> caller_id = []
        then e_fail (Protocol ''output requires nonempty item and caller identities'')
        else
          (let origin = output_origin \<lparr>cr_session_id = ss_id s, cr_item_id = item_id,
                 cr_generation_id = generation_id, cr_caller_id = caller_id,
                 cr_call_id = output_call_id item_id item\<rparr> item next;
               entry = output_entry E next generation_id item_id origin item in
           case history_by_id (cp_history next) (he_id entry) of
             Some previous \<Rightarrow>
               (if previous \<noteq> entry then e_fail (Protocol ''conflicting output identity'')
                else e_return (next, False))
           | None \<Rightarrow>
               e_bind (record_output E item origin next) (\<lambda>next1.
               e_bind (stage_entries E [entry] next1) (\<lambda>next2.
                 e_return (next2, ss_closing s \<and> output_is_work item))))))"

section \<open>Completed responses\<close>

definition completion_json :: "string option \<Rightarrow> string option \<Rightarrow> string option \<Rightarrow> json" where
  "completion_json model_id response_id finish_reason = Object
     [(''finish_reason'', json_opt finish_reason), (''model_id'', json_opt model_id),
      (''response_id'', json_opt response_id)]"

definition completion_data :: "json \<Rightarrow> json \<Rightarrow> json" where
  "completion_data completion data = (case json_as_object data of
       Some kvs \<Rightarrow> Object (om_insert ''completion'' completion kvs)
     | None \<Rightarrow> Object [(''completion'', completion), (''native'', data)])"

definition response_state :: "response_status \<Rightarrow> run_state \<Rightarrow> run_state" where
  "response_state status state = (case status of
       RespFailed \<Rightarrow> StFailed (failure_new ''generation_failed'' ''model response did not finish successfully'')
     | RespIncomplete \<Rightarrow> StFailed (failure_new ''generation_failed'' ''model response did not finish successfully'')
     | RespCancelled \<Rightarrow> StCancelled
     | _ \<Rightarrow> state)"

definition complete_response ::
  "string \<Rightarrow> u64 \<Rightarrow> response_status \<Rightarrow> usage \<Rightarrow> string option \<Rightarrow> string option \<Rightarrow> string option
     \<Rightarrow> json \<Rightarrow> effective_profile \<Rightarrow> checkpoint \<Rightarrow> (checkpoint \<times> history_entry) result" where
  "complete_response generation_id input_position status usage model_id response_id finish_reason data effective next =
     (let s = cp_session next in
      if ss_generation_id s \<noteq> Some generation_id \<or> ss_response_status s \<noteq> None \<or> \<not> ss_generation_started s
      then Inl (Protocol ''duplicate or foreign response completion'')
      else if input_position < ss_generated_input_position s \<or> ss_input_position s < input_position
      then Inl (Protocol ''response input position is outside its admitted range'')
      else
        (let metrics = (cp_metrics next)\<lparr>met_usage := usage_add (met_usage (cp_metrics next)) usage,
               met_observed_responses := Some ((case met_observed_responses (cp_metrics next) of
                  None \<Rightarrow> 0 | Some n \<Rightarrow> n) + 1)\<rparr>;
             state = response_state status (cp_state next);
             over = some_and (\<lambda>limit. some_and (\<lambda>tokens. limit \<le> tokens)
                      (us_total_tokens (met_usage metrics))) (lim_max_total_tokens (ro_limits (cp_options next)));
             next1 = map_operations (om_retain (\<lambda>_ op. \<not> owner_is_provider (op_owner op)
                        \<or> \<not> op_terminal (op_state op))) next;
             next2 = map_session (\<lambda>s. s\<lparr>ss_generated_input_position := input_position,
               ss_response_status := Some status,
               ss_effective := om_extend (unknown_effective (ss_negotiated s)) effective,
               ss_needs_generation := status = RespContinuation \<or> status = RespRequiresResults
                  \<or> input_position < ss_input_position s\<rparr>) next1;
             next3 = next2\<lparr>cp_metrics := metrics,
               cp_state := if over then StLimited LimitTotalTokens else state\<rparr> in
         Inr (next3, \<lparr>he_id = ss_id s @ '':'' @ generation_id @ '':finished'',
           he_origin = Some \<lparr>cr_session_id = ss_id s, cr_item_id = generation_id @ '':finished'',
              cr_generation_id = Some generation_id, cr_caller_id = ''model'', cr_call_id = ''completion''\<rparr>,
           he_message = Assistant []
              (completion_data (completion_json model_id response_id finish_reason) data)\<rparr>)))"

section \<open>One event\<close>

definition conversation_item_ok :: "capability_set \<Rightarrow> string \<Rightarrow> message \<Rightarrow> bool" where
  "conversation_item_ok caps item_id m \<longleftrightarrow> supports caps ConversationItems \<and> item_id \<noteq> []
     \<and> (case m of
          User _ \<Rightarrow> True
        | Assistant items _ \<Rightarrow> (\<forall>item \<in> set items. case item of OutputContent _ \<Rightarrow> True | _ \<Rightarrow> False)
        | _ \<Rightarrow> False)"

definition apply_ready :: "u64 \<Rightarrow> checkpoint \<Rightarrow> checkpoint result" where
  "apply_ready context_revision next =
     (if ss_ready (cp_session next) then Inl (Protocol ''duplicate session ready'')
      else if context_revision \<noteq> ss_acknowledged_context_revision (cp_session next)
      then Inl (Protocol ''initial projection revision mismatch'')
      else Inr (map_session (\<lambda>s. s\<lparr>ss_ready := True, ss_establishment := EstEstablished\<rparr>) next))"

text \<open>An automatic generation announces itself; an explicit one must match the request.\<close>

definition apply_automatic_start :: "string \<Rightarrow> u64 \<Rightarrow> checkpoint \<Rightarrow> checkpoint result" where
  "apply_automatic_start generation_id input_position next = (let s = cp_session next in
     if generation_id = [] \<or> ss_input_position s < input_position
        \<or> (ss_generation_id s \<noteq> None \<and> ss_response_status s = None)
     then Inl (Protocol ''overlapping or invalid automatic generation'')
     else Inr (map_session (\<lambda>s. s\<lparr>ss_generation_id := Some generation_id,
        ss_generated_input_position := input_position, ss_generation_started := False,
        ss_response_status := None, ss_response_start := hist_len (cp_history next)\<rparr>) next))"

definition apply_response_started ::
  "'st kernel_env \<Rightarrow> string \<Rightarrow> u64 \<Rightarrow> checkpoint \<Rightarrow> ('st engine, checkpoint \<times> effects) exec" where
  "apply_response_started E generation_id input_position next = e_get (\<lambda>e.
     let caps = session_capabilities E e in
     if \<not> supports caps ResponseEvents then e_fail (Protocol ''undeclared response events'')
     else e_bind (e_lift (if supports caps ExplicitGeneration then Inr next
             else apply_automatic_start generation_id input_position next)) (\<lambda>next1.
       let s = cp_session next1 in
       if ss_generation_started s \<or> ss_generation_id s \<noteq> Some generation_id
          \<or> ss_generated_input_position s \<noteq> input_position
       then e_fail (Protocol ''unexpected response start'')
       else
         (let next2 = map_session (\<lambda>s. s\<lparr>ss_generation_started := True\<rparr>) next1 in
          if ro_mode (cp_options next2) = Task \<and> supports caps StreamingInput
          then e_bind (e_new_id E) (\<lambda>i. e_return
            (push_command i ISealUserInput False (map_session (\<lambda>s. s\<lparr>ss_input_closed := True\<rparr>) next2),
             effects_default\<lparr>eff_seal_user_input := True\<rparr>))
          else e_return (next2, effects_default))))"

definition apply_conversation_item ::
  "'st kernel_env \<Rightarrow> string \<Rightarrow> message \<Rightarrow> checkpoint \<Rightarrow> ('st engine, history_entry list) exec" where
  "apply_conversation_item E item_id m next = e_get (\<lambda>e.
     if \<not> conversation_item_ok (session_capabilities E e) item_id m
     then e_fail (Protocol ''invalid conversation item'')
     else e_then (e_lift (message_validate m))
       (let entry = \<lparr>he_id = ke_json_text E (Array [String (ss_id (cp_session next)),
              String ''conversation'', String item_id]), he_origin = None, he_message = m\<rparr> in
        case history_by_id (cp_history next) (he_id entry) of
          Some previous \<Rightarrow>
            (if previous \<noteq> entry then e_fail (Protocol ''conflicting conversation item'') else e_return [])
        | None \<Rightarrow> e_return [entry]))"

definition apply_closed :: "string \<Rightarrow> json \<Rightarrow> checkpoint \<Rightarrow> ('st engine, checkpoint) exec" where
  "apply_closed reason data next =
     (if reason = [] \<or> ss_closure (cp_session next) \<noteq> None
      then e_fail (Protocol ''invalid or duplicate session closure'')
      else e_then (e_modify (\<lambda>e. e\<lparr>en_media_closed := True\<rparr>))
        (e_return (map_session (\<lambda>s. s\<lparr>ss_closure := Some \<lparr>scl_reason = reason, scl_provider_data = data\<rparr>,
                                      ss_input_closed := True\<rparr>) next)))"

definition closed_with_work :: "checkpoint \<Rightarrow> bool" where
  "closed_with_work c \<longleftrightarrow> ss_closure (cp_session c) \<noteq> None
     \<and> ((\<exists>op \<in> set (om_values (cp_operations c)). \<not> op_terminal (op_state op))
        \<or> cp_commands c \<noteq> []
        \<or> (ss_generation_id (cp_session c) \<noteq> None \<and> ss_response_status (cp_session c) = None))"

text \<open>The end of \<open>apply_event\<close>, common to all arms but \<open>Output\<close>.\<close>

definition apply_finish ::
  "'st kernel_env \<Rightarrow> history_entry list \<Rightarrow> checkpoint \<times> effects \<Rightarrow> ('st engine, checkpoint \<times> effects) exec" where
  "apply_finish E entries = (\<lambda>(next, effects).
     e_bind (stage_entries E entries next) (\<lambda>next'.
       e_return (next', effects\<lparr>eff_suspend := closed_with_work next\<rparr>)))"

fun item_is_provider :: "output_item \<Rightarrow> bool" where
  "item_is_provider (ProviderToolCall _) = True"
| "item_is_provider _ = False"

text \<open>Deltas and provider operation events are not batched; their arms are unreachable.\<close>

definition apply_event ::
  "'st kernel_env \<Rightarrow> checkpoint \<Rightarrow> u64 \<Rightarrow> session_event_body \<Rightarrow> ('st engine, checkpoint \<times> effects) exec" where
  "apply_event E staged sequence body =
     (let next = map_session (\<lambda>s. s\<lparr>ss_last_sequence := Some sequence\<rparr>) staged in
      case body of
        EvReady context_revision \<Rightarrow>
          e_bind (e_lift (apply_ready context_revision next)) (\<lambda>n. apply_finish E [] (n, effects_default))
      | EvResponseStarted generation_id input_position \<Rightarrow>
          e_bind (apply_response_started E generation_id input_position next) (apply_finish E [])
      | EvConversationItem item_id m \<Rightarrow>
          e_bind (apply_conversation_item E item_id m next) (\<lambda>entries.
            apply_finish E entries (next, effects_default))
      | EvAcknowledged command_id recovery _ \<Rightarrow>
          e_bind (acknowledge_command E command_id recovery next) (\<lambda>n.
            apply_finish E [] (n, effects_default))
      | EvOutput generation_id item_id caller_id item \<Rightarrow>
          e_bind (stage_output E generation_id item_id caller_id item next) (\<lambda>(n, late).
            e_return (n, effects_default\<lparr>eff_suspend := late, eff_provider_state := item_is_provider item\<rparr>))
      | EvResponseFinished generation_id input_position status usage model_id response_id finish_reason data effective \<Rightarrow>
          e_bind (e_lift (complete_response generation_id input_position status usage model_id response_id
                    finish_reason data effective next)) (\<lambda>(n, entry).
            apply_finish E [entry] (n, effects_default))
      | EvRecovery reference \<Rightarrow>
          apply_finish E [] (map_session (\<lambda>s. s\<lparr>ss_recovery := Some reference\<rparr>) next, effects_default)
      | EvClosed reason data \<Rightarrow>
          e_bind (apply_closed reason data next) (\<lambda>n. apply_finish E [] (n, effects_default))
      | EvDelta _ _ \<Rightarrow> e_fail (Protocol ''unreachable'')
      | EvOperation _ _ \<Rightarrow> e_fail (Protocol ''unreachable''))"

section \<open>Batches\<close>

record session_batch =
  sb_staged :: "checkpoint option"
  sb_sequence :: "u64 option"
  sb_events :: nat
  sb_seal_user_input :: bool
  sb_suspend :: bool
  sb_provider_state :: bool

definition batch_default :: session_batch where
  "batch_default = \<lparr>sb_staged = None, sb_sequence = None, sb_events = 0, sb_seal_user_input = False,
                    sb_suspend = False, sb_provider_state = False\<rparr>"

definition batch_closed :: "session_batch \<Rightarrow> bool" where
  "batch_closed b \<longleftrightarrow> sb_seal_user_input b \<or> sb_suspend b \<or> sb_provider_state b
     \<or> some_and (\<lambda>c. \<not> state_active (cp_state c)) (sb_staged b)"

definition batch_checkpoint :: "'st engine \<Rightarrow> session_batch \<Rightarrow> checkpoint" where
  "batch_checkpoint e b = (case sb_staged b of Some c \<Rightarrow> c | None \<Rightarrow> en_current e)"

definition batch_apply ::
  "'st kernel_env \<Rightarrow> session_batch \<Rightarrow> u64 \<Rightarrow> session_event_body \<Rightarrow> ('st engine, session_batch) exec" where
  "batch_apply E b sequence body = e_get (\<lambda>e.
     e_bind (apply_event E (batch_checkpoint e b) sequence body) (\<lambda>(next, effects).
       e_return (b\<lparr>sb_staged := Some next, sb_sequence := Some sequence, sb_events := sb_events b + 1,
         sb_seal_user_input := sb_seal_user_input b \<or> eff_seal_user_input effects,
         sb_suspend := sb_suspend b \<or> eff_suspend effects,
         sb_provider_state := sb_provider_state b \<or> eff_provider_state effects\<rparr>)))"

text \<open>
  The queue is the list of work already reported. The batch survives an error, so both come back.
\<close>

fun batchable :: "work \<Rightarrow> session_event option" where
  "batchable (WModel (Inr (Some event))) = (case sev_body event of
       EvDelta _ _ \<Rightarrow> None | EvOperation _ _ \<Rightarrow> None | _ \<Rightarrow> Some event)"
| "batchable _ = None"

fun collect_more ::
  "'st kernel_env \<Rightarrow> session_batch \<Rightarrow> work list \<Rightarrow> 'st engine \<Rightarrow> (unit result \<times> session_batch) \<times> 'st engine" where
  "collect_more E b [] e = ((Inr (), b), e\<lparr>en_work := []\<rparr>)"
| "collect_more E b (w # ws) e =
     (if batch_closed b \<or> lim_max_session_events (ro_limits (cp_options (en_current e))) \<le> sb_events b
      then ((Inr (), b), e\<lparr>en_work := w # ws\<rparr>)
      else (case batchable w of
          None \<Rightarrow> ((Inr (), b), e\<lparr>en_work := ws, en_stashed := Some w\<rparr>)
        | Some event \<Rightarrow>
            (case fresh_sequence (sev_sequence event) e of
               (Inl err, e1) \<Rightarrow> ((Inl err, b), e1\<lparr>en_work := ws\<rparr>)
             | (Inr False, e1) \<Rightarrow> collect_more E b ws e1
             | (Inr True, e1) \<Rightarrow>
                 (case batch_apply E b (sev_sequence event) (sev_body event) e1 of
                    (Inl err, e2) \<Rightarrow> ((Inl err, b), e2\<lparr>en_work := ws\<rparr>)
                  | (Inr b', e2) \<Rightarrow> collect_more E b' ws e2))))"

definition collect ::
  "'st kernel_env \<Rightarrow> session_batch \<Rightarrow> u64 \<Rightarrow> session_event_body \<Rightarrow> 'st engine
     \<Rightarrow> (unit result \<times> session_batch) \<times> 'st engine" where
  "collect E b sequence body e = (case batch_apply E b sequence body e of
       (Inl err, e1) \<Rightarrow> ((Inl err, b), e1)
     | (Inr b', e1) \<Rightarrow> collect_more E b' (en_work e1) e1)"

text \<open>The commit of a batch; \<open>None\<close> of \<open>appended_since\<close> is a panic that a well-formed history excludes.\<close>

definition commit_batch :: "'st kernel_env \<Rightarrow> session_batch \<Rightarrow> ('st engine, unit) exec" where
  "commit_batch E b = (case (sb_staged b, sb_sequence b) of
       (Some next, Some sequence) \<Rightarrow> e_get (\<lambda>e.
         e_bind (e_lift (case appended_since (cp_history next) (cp_history (en_current e)) of
             Some r \<Rightarrow> r | None \<Rightarrow> Inl (Protocol ''index out of bounds''))) (\<lambda>entries.
           e_commit E next (FSession (ss_id (cp_session (en_current e))) sequence)
             (if entries = [] then Unchanged else Append entries)))
     | _ \<Rightarrow> e_return ())"

definition note_session_sequence :: "'st kernel_env \<Rightarrow> u64 \<Rightarrow> ('st engine, unit) exec" where
  "note_session_sequence E sequence = e_get (\<lambda>e.
     e_commit E (map_session (\<lambda>s. s\<lparr>ss_last_sequence := Some sequence\<rparr>) (en_current e))
       (FSession (ss_id (cp_session (en_current e))) sequence) Unchanged)"

definition provider_event ::
  "'st kernel_env \<Rightarrow> u64 \<Rightarrow> call_ref \<Rightarrow> operation_event \<Rightarrow> ('st engine, unit) exec" where
  "provider_event E sequence origin event = e_get (\<lambda>e.
     case find (\<lambda>r. op_origin r = origin) (om_values (cp_operations (en_current e))) of
       None \<Rightarrow>
         (case oe_update event of
            UpdateFinished outcome \<Rightarrow>
              e_then (finish E (provider_operation_id E origin) outcome) (note_session_sequence E sequence)
          | _ \<Rightarrow> e_fail (Protocol ''provider operation has no call''))
     | Some record \<Rightarrow>
         (if \<not> owner_is_provider (op_owner record)
          then e_fail (Protocol ''model cannot own local tool operations'')
          else if \<not> om_contains (cp_operations (en_current e)) (op_id record)
          then e_fail (Protocol ''provider operation must be introduced by an output item'')
          else e_then (operation_event_step E (op_id record) event) (note_session_sequence E sequence)))"

definition model_batch :: "'st kernel_env \<Rightarrow> session_event \<Rightarrow> ('st engine, unit) exec" where
  "model_batch E event = (\<lambda>e. case collect E batch_default (sev_sequence event) (sev_body event) e of
     ((staged, b), e1) \<Rightarrow>
       e_then (commit_batch E b) (e_then (e_lift staged)
      (e_then (if sb_seal_user_input b then e_modify (\<lambda>e. e\<lparr>en_media_closed := True\<rparr>) else e_return ())
        (if sb_suspend b then e_suspend E WaitRecovery else e_return ()))) e1)"

definition model_event :: "'st kernel_env \<Rightarrow> session_event \<Rightarrow> ('st engine, unit) exec" where
  "model_event E event = e_bind (fresh_sequence (sev_sequence event)) (\<lambda>fresh.
     if \<not> fresh then e_return ()
     else (case sev_body event of
         EvDelta generation_id delta \<Rightarrow> e_log (Emit (ModelDelta generation_id delta))
       | EvOperation origin operation_event \<Rightarrow>
           provider_event E (sev_sequence event) origin operation_event
       | _ \<Rightarrow> model_batch E event))"

end
