(* ===== verification/Event_Batches.thy ===== *)
theory Event_Batches
  imports Engine_Events
begin

text \<open>
  What the application of session events guarantees. One event keeps the options and the session
  identity, records its sequence, extends the history by appending, adds at most one command and
  keeps the projection invariant; nothing durable changes until the batch commits. A batch is the
  application, in order, of events of increasing sequence, at most \<open>max_session_events\<close> of them, and
  its commit appends exactly the entries the events added.
\<close>

section \<open>Staging does not touch the durable state\<close>

definition outside :: "'st engine \<Rightarrow> checkpoint \<times> 'st \<times> effect list \<times> capability_set option \<times> work list
    \<times> u64 option \<times> work option" where
  "outside e = (en_current e, en_store e, en_log e, en_session e, en_work e, en_session_sequence e,
     en_stashed e)"

definition quiet :: "('st engine, 'a) exec \<Rightarrow> bool" where
  "quiet m \<longleftrightarrow> (\<forall>e. outside (snd (m e)) = outside e \<and> en_ids e \<le> en_ids (snd (m e)))"

named_theorems quiet_intros \<open>operations that only stage\<close>

lemma quiet_return [quiet_intros]: "quiet (e_return x)"
  and quiet_fail [quiet_intros]: "quiet (e_fail err)"
  and quiet_lift [quiet_intros]: "quiet (e_lift r)"
  by (simp_all add: quiet_def)

lemma quiet_bind [quiet_intros]: "quiet m \<Longrightarrow> (\<And>x. quiet (f x)) \<Longrightarrow> quiet (e_bind m f)"
  by (auto simp: quiet_def e_bind_def split: prod.split sum.split) (metis snd_conv order_trans)+

lemma quiet_then [quiet_intros]: "quiet m \<Longrightarrow> quiet n \<Longrightarrow> quiet (e_then m n)"
  unfolding e_then_def by (rule quiet_bind)

lemma quiet_get [quiet_intros]: "(\<And>e. quiet (f e)) \<Longrightarrow> quiet (e_get f)"
  by (simp add: quiet_def)

lemma quiet_new_id [quiet_intros]: "quiet (e_new_id E)"
  by (simp add: quiet_def outside_def)

lemma quiet_modify [quiet_intros]:
  "(\<And>e. outside (g e) = outside e) \<Longrightarrow> (\<And>e. en_ids e \<le> en_ids (g e)) \<Longrightarrow> quiet (e_modify g)"
  by (simp add: quiet_def)

lemma quiet_run: "quiet m \<Longrightarrow> m e = (r, e') \<Longrightarrow> outside e' = outside e"
  by (metis quiet_def snd_conv)

lemma append_commands_quiet [quiet_intros]: "quiet (append_commands E ks source c)"
  by (induction E ks source c rule: append_commands.induct) (auto intro!: quiet_intros simp: quiet_def [of "Pair _"])

lemma stage_entries_quiet [quiet_intros]: "quiet (stage_entries E entries c)"
  unfolding stage_entries_def by (auto intro!: quiet_intros)

lemma acknowledge_command_quiet [quiet_intros]: "quiet (acknowledge_command E i recovery c)"
  unfolding acknowledge_command_def acknowledge_profile_def Let_def
  by (auto intro!: quiet_intros simp: outside_def split: option.split command_intent.split)

lemma record_output_quiet [quiet_intros]: "quiet (record_output E item origin c)"
  unfolding record_output_def by (auto intro!: quiet_intros split: output_item.split)

lemma stage_output_quiet [quiet_intros]: "quiet (stage_output E g i caller item c)"
  unfolding stage_output_def Let_def by (auto intro!: quiet_intros split: option.split)

lemma apply_finish_quiet [quiet_intros]: "quiet (apply_finish E entries x)"
  unfolding apply_finish_def by (cases x) (auto intro!: quiet_intros)

lemma apply_event_quiet [quiet_intros]: "quiet (apply_event E c sequence body)"
  unfolding apply_event_def apply_response_started_def apply_conversation_item_def apply_closed_def Let_def
  by (auto intro!: quiet_intros simp: outside_def split: session_event_body.split option.split prod.split)

lemma batch_apply_quiet: "quiet (batch_apply E b sequence body)"
  unfolding batch_apply_def by (auto intro!: quiet_intros split: prod.split)

section \<open>One event\<close>

text \<open>What the successor \<open>c\<close> of a staged checkpoint keeps and adds.\<close>

definition staged_ok :: "'x hashing_scheme \<Rightarrow> checkpoint \<Rightarrow> checkpoint \<Rightarrow> bool" where
  "staged_ok H staged c \<longleftrightarrow> cp_options c = cp_options staged
     \<and> cp_id c = cp_id staged \<and> cp_revision c = cp_revision staged \<and> cp_context c = cp_context staged
     \<and> ss_id (cp_session c) = ss_id (cp_session staged)
     \<and> ss_last_sequence (cp_session c) = ss_last_sequence (cp_session staged)
     \<and> length (cp_commands c) \<le> Suc (length (cp_commands staged))
     \<and> (length (cp_commands staged) < 2 ^ 64 \<longrightarrow> projection_ok staged \<longrightarrow> projection_ok c)
     \<and> (\<exists>es. history_append H (cp_history staged) es = Inr (cp_history c))"

text \<open>The first stages of an event add no command; \<open>stage_entries\<close> adds one for its entry.\<close>

definition staged_flat :: "checkpoint \<Rightarrow> checkpoint \<Rightarrow> bool" where
  "staged_flat staged c \<longleftrightarrow> cp_options c = cp_options staged
     \<and> cp_id c = cp_id staged \<and> cp_revision c = cp_revision staged \<and> cp_context c = cp_context staged
     \<and> ss_id (cp_session c) = ss_id (cp_session staged)
     \<and> ss_last_sequence (cp_session c) = ss_last_sequence (cp_session staged)
     \<and> length (cp_commands c) \<le> length (cp_commands staged)
     \<and> (length (cp_commands staged) < 2 ^ 64 \<longrightarrow> projection_ok staged \<longrightarrow> projection_ok c)
     \<and> cp_history c = cp_history staged"

lemma staged_flat_ok: "staged_flat staged c \<Longrightarrow> staged_ok H staged c"
  by (auto simp: staged_flat_def staged_ok_def intro: exI [of _ "[]"])

lemma staged_flat_refl [simp]: "staged_flat c c"
  by (simp add: staged_flat_def)

lemma staged_flat_trans: "staged_flat a b \<Longrightarrow> staged_flat b c \<Longrightarrow> staged_flat a c"
  by (auto simp: staged_flat_def)

lemma staged_flat_step: "staged_flat a b \<Longrightarrow> staged_ok H b c \<Longrightarrow> staged_ok H a c"
  by (auto simp: staged_flat_def staged_ok_def)

lemma staged_flat_view:
  assumes "cp_options c = cp_options a" "cp_id c = cp_id a" "cp_revision c = cp_revision a"
    "cp_context c = cp_context a" "cp_history c = cp_history a" "projection_view c = projection_view a"
    "ss_id (cp_session c) = ss_id (cp_session a)"
    "ss_last_sequence (cp_session c) = ss_last_sequence (cp_session a)"
  shows "staged_flat a c"
  using assms projection_view_ok [of c a] by (simp add: staged_flat_def) (simp add: projection_view_def)

lemma append_command_identity [simp]:
  "cp_id (append_command i k s o' c) = cp_id c" "cp_revision (append_command i k s o' c) = cp_revision c"
  "cp_context (append_command i k s o' c) = cp_context c"
  by (simp_all add: append_command_def)

lemma push_command_identity [simp]:
  "cp_id (push_command i intent sent c) = cp_id c" "cp_revision (push_command i intent sent c) = cp_revision c"
  "cp_context (push_command i intent sent c) = cp_context c"
  by (simp_all add: push_command_def)

lemma stage_entries_ok:
  assumes "stage_entries E entries c e = (Inr c', e')" and "length entries \<le> 1"
  shows "staged_ok (ke_ext E) c c'"
proof (cases entries)
  case Nil
  then show ?thesis using assms staged_flat_ok [OF staged_flat_refl] by (simp add: stage_entries_def)
next
  case (Cons entry rest)
  with assms have en: "entries = [entry]" by simp
  obtain h where h: "history_append (ke_ext E) (cp_history c) [entry] = Inr h"
    using assms(1) by (auto simp: stage_entries_def en e_bind_eq_Inr)
  then have "hist_len h = Suc (hist_len (cp_history c))"
    by (auto simp: r_bind_Inr history_push_def Let_def split: option.splits if_splits)
  then show ?thesis
    using assms(1) h
    by (auto simp: stage_entries_def en e_bind_eq_Inr staged_ok_def intro!: exI [of _ "[entry]"] split: if_splits)
qed

lemma position_Some: "position p xs = Some k \<Longrightarrow> k < length xs \<and> p (xs ! k)"
  by (induction xs arbitrary: k) (auto split: if_splits)

lemma acknowledged_removed:
  assumes "position p (cp_commands c) = Some k"
    and "acknowledge_projection (pc_intent (cp_commands c ! k))
           (acknowledge_result (pc_intent (cp_commands c ! k)) (map_commands (remove_nth k) c)) = Inr c'"
  shows "staged_flat c c'"
proof -
  let ?intent = "pc_intent (cp_commands c ! k)"
  have k: "k < length (cp_commands c)" using position_Some [OF assms(1)] by blast
  let ?c1 = "acknowledge_result ?intent (map_commands (remove_nth k) c)"
  have frame: "cp_options ?c1 = cp_options c" "cp_id ?c1 = cp_id c" "cp_revision ?c1 = cp_revision c"
      "cp_context ?c1 = cp_context c" "cp_history ?c1 = cp_history c" "cp_session ?c1 = cp_session c"
      "cp_commands ?c1 = remove_nth k (cp_commands c)"
    by (simp_all add: acknowledge_result_def split: command_intent.split option.split)
  have len: "length (remove_nth k (cp_commands c)) \<le> length (cp_commands c)"
    using k by (simp add: remove_nth_def)
  have proj: "projection_ok c'" if small: "length (cp_commands c) < 2 ^ 64" and ok: "projection_ok c"
  proof (cases "projection_revision ?intent")
    case None
    then have "c' = ?c1" using assms(2) by (simp add: acknowledge_projection_def)
    then show ?thesis
      using ok projections_remove [OF k] None by (simp add: projection_ok_def frame remove_nth_def)
  next
    case (Some r)
    with assms(2) have r: "r = ss_acknowledged_context_revision (cp_session c) + 1"
      and c': "c' = map_session (\<lambda>s. s\<lparr>ss_acknowledged_context_revision := r\<rparr>) ?c1"
      by (auto simp: acknowledge_projection_def frame split: if_splits)
    show ?thesis
      using acknowledged_projection [OF _ small k, of "ss_acknowledged_context_revision (cp_session c)"]
        ok Some by (simp add: projection_ok_def c' frame remove_nth_def r)
  qed
  show ?thesis
    using assms(2) len proj
    by (auto simp: staged_flat_def acknowledge_projection_def frame split: option.splits if_splits)
qed

lemma acknowledge_command_ok:
  assumes "acknowledge_command E i recovery c e = (Inr c', e')"
  shows "staged_flat c c'"
proof -
  obtain k c2 c3 e3 where k: "position (\<lambda>c. pc_id c = i) (cp_commands c) = Some k"
    and a: "acknowledge_projection (pc_intent (cp_commands c ! k))
        (acknowledge_result (pc_intent (cp_commands c ! k)) (map_commands (remove_nth k) c)) = Inr c2"
    and p: "acknowledge_profile E (pc_intent (cp_commands c ! k)) c2 e = (Inr c3, e3)"
    and c': "c' = (case recovery of None \<Rightarrow> c3 | Some r \<Rightarrow> map_session (\<lambda>s. s\<lparr>ss_recovery := Some r\<rparr>) c3)"
    using assms by (auto simp: acknowledge_command_def Let_def e_bind_eq_Inr e_then_eq_Inr split: option.splits)
  have "staged_flat c c2" by (rule acknowledged_removed [OF k a])
  moreover have "staged_flat c2 c3"
    using p by (auto simp: acknowledge_profile_def Let_def e_bind_eq_Inr projection_view_def
        split: command_intent.splits intro!: staged_flat_view)
  moreover have "staged_flat c3 c'"
    unfolding c' by (auto intro!: staged_flat_view simp: projection_view_def split: option.split)
  ultimately show ?thesis by (blast intro: staged_flat_trans)
qed

lemma record_output_ok:
  assumes "record_output E item origin c e = (Inr c', e')"
  shows "staged_flat c c'"
  using assms
  by (auto simp: record_output_def record_provider_def Let_def e_bind_eq_Inr projection_view_def
      split: output_item.splits if_splits intro!: staged_flat_view)

lemma stage_output_ok:
  assumes "stage_output E g i caller item c e = (Inr (c', late), e')"
  shows "staged_ok (ke_ext E) c c'"
proof -
  let ?origin = "output_origin \<lparr>cr_session_id = ss_id (cp_session c), cr_item_id = i,
     cr_generation_id = g, cr_caller_id = caller, cr_call_id = output_call_id i item\<rparr> item c"
  let ?entry = "output_entry E c g i ?origin item"
  show ?thesis
  proof (cases "history_by_id (cp_history c) (he_id ?entry)")
    case None
    then obtain c1 e1 where r: "record_output E item ?origin c e = (Inr c1, e1)"
      and s: "stage_entries E [?entry] c1 e1 = (Inr c', e')"
      using assms by (auto simp: stage_output_def Let_def e_bind_eq_Inr e_then_eq_Inr split: if_splits)
    show ?thesis
      by (rule staged_flat_step [OF record_output_ok [OF r] stage_entries_ok [OF s]]) simp
  next
    case (Some previous)
    then have "c' = c"
      using assms by (auto simp: stage_output_def Let_def e_then_eq_Inr split: if_splits)
    then show ?thesis by (simp add: staged_flat_ok)
  qed
qed

lemma apply_finish_ok:
  assumes "apply_finish E entries (c, eff) e = (Inr (c', eff'), e')" and "length entries \<le> 1"
  shows "staged_ok (ke_ext E) c c'"
  using assms stage_entries_ok by (fastforce simp: apply_finish_def e_bind_eq_Inr)

lemma ready_flat: "apply_ready r c = Inr c' \<Longrightarrow> staged_flat c c'"
  by (auto simp: apply_ready_def projection_view_def split: if_splits intro!: staged_flat_view)

lemma automatic_start_flat: "apply_automatic_start g p c = Inr c' \<Longrightarrow> staged_flat c c'"
  by (auto simp: apply_automatic_start_def Let_def projection_view_def split: if_splits intro!: staged_flat_view)

lemma complete_response_flat:
  "complete_response g p st u m r f d eff c = Inr (c', entry) \<Longrightarrow> staged_flat c c'"
  by (auto simp: complete_response_def Let_def projection_view_def split: if_splits intro!: staged_flat_view)

lemma closed_flat: "apply_closed reason data c e = (Inr c', e') \<Longrightarrow> staged_flat c c'"
  by (auto simp: apply_closed_def e_then_eq_Inr projection_view_def split: if_splits intro!: staged_flat_view)

text \<open>A started response may push the seal of the user input; it then stages no entry.\<close>

lemma response_started_ok:
  assumes "apply_response_started E g p c e = (Inr (c', eff), e')"
  shows "staged_ok H c c'"
proof -
  obtain c1 where c1: "c1 = c \<or> apply_automatic_start g p c = Inr c1"
    and c': "c' = map_session (\<lambda>s. s\<lparr>ss_generation_started := True\<rparr>) c1
      \<or> (\<exists>i. c' = push_command i ISealUserInput False (map_session (\<lambda>s. s\<lparr>ss_input_closed := True\<rparr>)
            (map_session (\<lambda>s. s\<lparr>ss_generation_started := True\<rparr>) c1)))"
    using assms by (auto simp: apply_response_started_def Let_def e_bind_eq_Inr split: if_splits)
  have flat: "staged_flat c c1" using c1 automatic_start_flat by auto
  have "staged_ok H c1 c'"
    using c' by (auto simp: staged_ok_def projection_ok_def intro: exI [of _ "[]"])
  then show ?thesis by (rule staged_flat_step [OF flat])
qed

lemma finish_nil: "apply_finish E [] (c, eff) e = (Inr (c', eff'), e') \<Longrightarrow> c' = c"
  by (simp add: apply_finish_def stage_entries_def)

lemma conversation_entries:
  "apply_conversation_item E i m c e = (Inr entries, e') \<Longrightarrow> length entries \<le> 1"
  by (auto simp: apply_conversation_item_def Let_def e_bind_eq_Inr e_then_eq_Inr split: if_splits option.splits)

theorem apply_event_ok:
  assumes "apply_event E staged sequence body e = (Inr (c, eff), e')"
  shows "staged_ok (ke_ext E) (map_session (\<lambda>s. s\<lparr>ss_last_sequence := Some sequence\<rparr>) staged) c"
proof -
  let ?next = "map_session (\<lambda>s. s\<lparr>ss_last_sequence := Some sequence\<rparr>) staged"
  have fin: "staged_flat ?next n \<Longrightarrow> apply_finish E entries (n, f) e1 = (Inr (c, eff), e') \<Longrightarrow>
      length entries \<le> 1 \<Longrightarrow> staged_ok (ke_ext E) ?next c" for n f entries e1
    using staged_flat_step apply_finish_ok by blast
  show ?thesis
  proof (cases body)
    case (EvResponseStarted g p)
    then obtain n f e1 where "apply_response_started E g p ?next e = (Inr (n, f), e1)"
      and "apply_finish E [] (n, f) e1 = (Inr (c, eff), e')"
      using assms by (auto simp: apply_event_def Let_def e_bind_eq_Inr)
    then show ?thesis using response_started_ok finish_nil by blast
  next
    case (EvOutput g i caller item)
    then show ?thesis
      using assms by (auto simp: apply_event_def Let_def e_bind_eq_Inr dest!: stage_output_ok)
  next
    case (EvConversationItem i m)
    then obtain entries e1 where "apply_conversation_item E i m ?next e = (Inr entries, e1)"
      and "apply_finish E entries (?next, effects_default) e1 = (Inr (c, eff), e')"
      using assms by (auto simp: apply_event_def Let_def e_bind_eq_Inr)
    then show ?thesis using fin [OF staged_flat_refl] conversation_entries by blast
  next
    case (EvReady r)
    then show ?thesis
      using assms by (auto simp: apply_event_def Let_def e_bind_eq_Inr intro: fin ready_flat)
  next
    case (EvAcknowledged i recovery d)
    then show ?thesis
      using assms by (auto simp: apply_event_def Let_def e_bind_eq_Inr intro: fin acknowledge_command_ok)
  next
    case (EvResponseFinished g p st u m r f d ef)
    then show ?thesis
      using assms by (auto simp: apply_event_def Let_def e_bind_eq_Inr intro: fin complete_response_flat)
  next
    case (EvRecovery reference)
    have "staged_flat ?next (map_session (\<lambda>s. s\<lparr>ss_recovery := Some reference\<rparr>) ?next)"
      by (rule staged_flat_view) (simp_all add: projection_view_def)
    with EvRecovery show ?thesis
      using assms by (auto simp: apply_event_def Let_def intro: fin)
  next
    case (EvClosed reason d)
    then show ?thesis
      using assms by (auto simp: apply_event_def Let_def e_bind_eq_Inr intro: fin closed_flat)
  qed (use assms in \<open>simp_all add: apply_event_def Let_def\<close>)
qed

section \<open>Batches\<close>

text \<open>
  Events are applied one at a time, each to the checkpoint the previous one staged. \<open>applied\<close> is what the
  invariants of a batch need of that, whichever the events were; \<open>apply_events\<close> is the reference, the
  application of given events in order.
\<close>

fun apply_events ::
  "'st kernel_env \<Rightarrow> session_event list \<Rightarrow> checkpoint \<Rightarrow> ('st engine, checkpoint) exec" where
  "apply_events E [] c e = (Inr c, e)"
| "apply_events E (event # events) c e =
     (case apply_event E c (sev_sequence event) (sev_body event) (e\<lparr>en_session_sequence := Some (sev_sequence event)\<rparr>) of
        (Inl err, e') \<Rightarrow> (Inl err, e')
      | (Inr (c', _), e') \<Rightarrow> apply_events E events c' e')"

inductive applied :: "'st kernel_env \<Rightarrow> checkpoint \<Rightarrow> u64 list \<Rightarrow> checkpoint \<Rightarrow> bool" for E where
  applied_none: "applied E c [] c"
| applied_next: "applied E c0 ss c1 \<Longrightarrow> apply_event E c1 s body e = (Inr (c2, eff), e')
    \<Longrightarrow> applied E c0 (ss @ [s]) c2"

text \<open>What a batch holds while it collects: the state it staged and the sequences it applied.\<close>

definition batch_inv :: "'st kernel_env \<Rightarrow> nat \<Rightarrow> 'st engine \<Rightarrow> session_batch \<Rightarrow> bool" where
  "batch_inv E n e b \<longleftrightarrow> (\<exists>ss. applied E (en_current e) ss (batch_checkpoint e b)
     \<and> length ss = sb_events b \<and> sb_events b \<le> n \<and> sorted_wrt (<) ss
     \<and> (case sb_staged b of None \<Rightarrow> ss = [] \<and> sb_sequence b = None
        | Some _ \<Rightarrow> ss \<noteq> [] \<and> sb_sequence b = Some (last ss))
     \<and> (\<forall>s \<in> set ss. some_and (\<lambda>t. s \<le> t) (en_session_sequence e)))"

lemma batch_default_inv: "batch_inv E n e batch_default"
  by (auto simp: batch_inv_def batch_default_def batch_checkpoint_def intro: applied_none)

lemma outside_eqD:
  assumes "outside e' = outside e"
  shows "en_current e' = en_current e" "en_store e' = en_store e" "en_log e' = en_log e"
    "en_session e' = en_session e" "en_work e' = en_work e"
    "en_session_sequence e' = en_session_sequence e" "en_stashed e' = en_stashed e"
  using assms by (simp_all add: outside_def)

lemma batch_apply_outside: "batch_apply E b s body e = (r, e') \<Longrightarrow> outside e' = outside e"
  by (rule quiet_run [OF batch_apply_quiet])

text \<open>One more event, its sequence above all the batch has applied.\<close>

lemma batch_apply_inv:
  assumes inv: "batch_inv E n e b" and run: "batch_apply E b s body e1 = (Inr b', e')"
    and cur: "en_current e1 = en_current e" and seq: "en_session_sequence e1 = Some s"
    and above: "\<And>t. en_session_sequence e = Some t \<Longrightarrow> sb_events b \<noteq> 0 \<Longrightarrow> t < s"
    and room: "sb_events b < n"
  shows "batch_inv E n e' b'"
proof -
  obtain ss where ss: "applied E (en_current e) ss (batch_checkpoint e b)" "length ss = sb_events b"
      "sorted_wrt (<) ss" "\<forall>s \<in> set ss. some_and (\<lambda>t. s \<le> t) (en_session_sequence e)"
    using inv by (auto simp: batch_inv_def)
  obtain c eff where a: "apply_event E (batch_checkpoint e1 b) s body e1 = (Inr (c, eff), e')"
    and b': "b' = b\<lparr>sb_staged := Some c, sb_sequence := Some s, sb_events := sb_events b + 1,
         sb_seal_user_input := sb_seal_user_input b \<or> eff_seal_user_input eff,
         sb_suspend := sb_suspend b \<or> eff_suspend eff,
         sb_provider_state := sb_provider_state b \<or> eff_provider_state eff\<rparr>"
    using run by (auto simp: batch_apply_def e_bind_eq_Inr)
  have out: "en_current e' = en_current e" "en_session_sequence e' = Some s"
    using outside_eqD [OF batch_apply_outside [OF run]] cur seq by simp_all
  have "batch_checkpoint e1 b = batch_checkpoint e b"
    by (simp add: batch_checkpoint_def cur split: option.split)
  then have step: "applied E (en_current e) (ss @ [s]) c"
    using applied_next [OF ss(1)] a by metis
  have "\<forall>t \<in> set ss. t < s"
  proof
    fix t assume t: "t \<in> set ss"
    then obtain u where u: "en_session_sequence e = Some u" "t \<le> u" using ss(4) by (auto simp: some_and_def split: option.splits)
    have "sb_events b \<noteq> 0" using length_pos_if_in_set [OF t] ss(2) by simp
    then show "t < s" using above [OF u(1)] u(2) by simp
  qed
  then show ?thesis
    using step ss room
    by (auto simp: batch_inv_def b' batch_checkpoint_def out sorted_wrt_append some_and_def less_imp_le
        intro!: exI [of _ "ss @ [s]"])
qed

lemma fresh_sequence_cases:
  assumes "fresh_sequence s e = (r, e')"
  shows "(\<exists>err. r = Inl err \<and> e' = e)
       \<or> ((\<exists>b. r = Inr b) \<and> e' = e\<lparr>en_session_sequence := Some s\<rparr>
          \<and> (\<forall>t. en_session_sequence e = Some t \<longrightarrow> t < s))"
  using assms
  by (cases "en_session_sequence e")
     (auto simp: fresh_sequence_def e_then_def e_bind_def not_le split: if_splits)

lemma batch_inv_cong:
  "batch_inv E n e b \<Longrightarrow> en_current e' = en_current e \<Longrightarrow> en_session_sequence e' = en_session_sequence e
     \<Longrightarrow> batch_inv E n e' b"
  by (simp add: batch_inv_def batch_checkpoint_def cong: option.case_cong)

lemma batch_inv_sequence:
  assumes "batch_inv E n e b" and up: "\<forall>t. en_session_sequence e = Some t \<longrightarrow> t < s"
  shows "batch_inv E n (e\<lparr>en_session_sequence := Some s\<rparr>) b"
proof -
  have "t \<le> s" if "some_and (\<lambda>u. t \<le> u) (en_session_sequence e)" for t
    using that up by (cases "en_session_sequence e") auto
  then show ?thesis
    using assms(1) by (auto simp: batch_inv_def batch_checkpoint_def cong: option.case_cong)
qed

lemma collect_more_inv:
  assumes "batch_inv E n e b" and "lim_max_session_events (ro_limits (cp_options (en_current e))) \<le> n"
    and "collect_more E b ws e = ((r, b'), e')"
  shows "batch_inv E n e' b' \<and> en_current e' = en_current e \<and> en_log e' = en_log e
     \<and> en_store e' = en_store e \<and> en_session e' = en_session e"
  using assms
proof (induction ws arbitrary: b e)
  case Nil
  then show ?case using batch_inv_cong [of E n e b e'] by auto
next
  case (Cons w ws)
  let ?full = "batch_closed b \<or> lim_max_session_events (ro_limits (cp_options (en_current e))) \<le> sb_events b"
  show ?case
  proof (cases ?full)
    case True
    then show ?thesis using Cons.prems batch_inv_cong [of E n e b e'] by auto
  next
    case False
    show ?thesis
    proof (cases "batchable w")
      case None
      then show ?thesis using False Cons.prems batch_inv_cong [of E n e b e'] by auto
    next
      case (Some event)
      obtain f e1 where f: "fresh_sequence (sev_sequence event) e = (f, e1)"
        by (cases "fresh_sequence (sev_sequence event) e")
      show ?thesis
      proof (cases f)
        case (Inl err)
        then have "e1 = e" using fresh_sequence_cases [OF f] by auto
        then show ?thesis
          using False Some f Inl Cons.prems batch_inv_cong [of E n e b e'] by auto
      next
        case (Inr new)
        then have e1: "e1 = e\<lparr>en_session_sequence := Some (sev_sequence event)\<rparr>"
          and up: "\<forall>t. en_session_sequence e = Some t \<longrightarrow> t < sev_sequence event"
          using fresh_sequence_cases [OF f] by auto
        have inv1: "batch_inv E n e1 b" unfolding e1 by (rule batch_inv_sequence [OF Cons.prems(1) up])
        show ?thesis
        proof (cases new)
          case False': False
          then show ?thesis
            using Cons.IH [OF inv1] Cons.prems(2,3) False Some f Inr by (auto simp: e1)
        next
          case True
          obtain br e2 where a: "batch_apply E b (sev_sequence event) (sev_body event) e1 = (br, e2)"
            by (cases "batch_apply E b (sev_sequence event) (sev_body event) e1")
          note out = outside_eqD [OF batch_apply_outside [OF a]]
          show ?thesis
          proof (cases br)
            case (Inl err)
            then show ?thesis
              using Cons.prems(3) False Some f Inr True a out batch_inv_cong [OF inv1, of e'] by (auto simp: e1)
          next
            case (Inr b2)
            have "batch_inv E n e2 b2"
              by (rule batch_apply_inv [OF Cons.prems(1) a [unfolded Inr]])
                 (use up False Cons.prems(2) in \<open>auto simp: e1\<close>)
            then show ?thesis
              using Cons.IH [of e2 b2] Cons.prems(2,3) False Some f \<open>f = Inr new\<close> True a Inr out by (auto simp: e1)
          qed
        qed
      qed
    qed
  qed
qed

theorem collect_inv:
  assumes run: "collect E batch_default s body e = ((r, b), e')" and seq: "en_session_sequence e = Some s"
    and n: "lim_max_session_events (ro_limits (cp_options (en_current e))) \<le> n" "0 < n"
  shows "batch_inv E n e' b" and "en_current e' = en_current e" and "en_log e' = en_log e"
    and "en_store e' = en_store e"
proof -
  obtain br e1 where a: "batch_apply E batch_default s body e = (br, e1)"
    by (cases "batch_apply E batch_default s body e")
  note out = outside_eqD [OF batch_apply_outside [OF a]]
  have "batch_inv E n e' b \<and> en_current e' = en_current e \<and> en_log e' = en_log e \<and> en_store e' = en_store e"
  proof (cases br)
    case (Inl err)
    then show ?thesis
      using run a out batch_default_inv by (auto simp: collect_def)
  next
    case (Inr b1)
    have "batch_inv E n e1 b1"
      by (rule batch_apply_inv [OF batch_default_inv a [unfolded Inr] refl seq])
         (use n in \<open>simp_all add: batch_default_def\<close>)
    then show ?thesis
      using collect_more_inv [of E n e1 b1 "en_work e1" r b e'] run a Inr out n(1) by (auto simp: collect_def)
  qed
  then show "batch_inv E n e' b" "en_current e' = en_current e" "en_log e' = en_log e"
    "en_store e' = en_store e" by auto
qed

text \<open>Applying events keeps what one event keeps; at most one command is added for each.\<close>

lemma applied_ok:
  assumes "applied E c0 ss c"
  shows "cp_options c = cp_options c0 \<and> ss_id (cp_session c) = ss_id (cp_session c0)
     \<and> cp_id c = cp_id c0 \<and> cp_revision c = cp_revision c0 \<and> cp_context c = cp_context c0
     \<and> length (cp_commands c) \<le> length (cp_commands c0) + length ss
     \<and> (ss \<noteq> [] \<longrightarrow> ss_last_sequence (cp_session c) = Some (last ss))
     \<and> (length (cp_commands c0) + length ss \<le> 2 ^ 64 \<longrightarrow> projection_ok c0 \<longrightarrow> projection_ok c)
     \<and> (\<exists>es. history_append (ke_ext E) (cp_history c0) es = Inr (cp_history c))"
  using assms
proof (induction rule: applied.induct)
  case (applied_none c)
  then show ?case by (auto intro: exI [of _ "[]"])
next
  case (applied_next c0 ss c1 s body e c2 eff e')
  let ?c1 = "map_session (\<lambda>x. x\<lparr>ss_last_sequence := Some s\<rparr>) c1"
  have step: "staged_ok (ke_ext E) ?c1 c2" by (rule apply_event_ok [OF applied_next.hyps(2)])
  have proj: "projection_ok ?c1 = projection_ok c1" by (simp add: projection_ok_def)
  obtain es es' where "history_append (ke_ext E) (cp_history c0) es = Inr (cp_history c1)"
    and "history_append (ke_ext E) (cp_history c1) es' = Inr (cp_history c2)"
    using applied_next.IH step by (auto simp: staged_ok_def)
  then have "history_append (ke_ext E) (cp_history c0) (es @ es') = Inr (cp_history c2)"
    by (simp add: history_append_append)
  then show ?case
    using applied_next.IH step proj by (auto simp: staged_ok_def)
qed

text \<open>The entries a commit appends are those the events added.\<close>

lemma appended_since_append:
  assumes ok: "history_ok H h" and app: "history_append H h es = Inr h'"
  shows "appended_since h' h = Some (Inr es)"
proof -
  have ok': "history_ok H h'" and es: "history_entries h' = history_entries h @ es"
    using history_append_ok [OF ok app] by auto
  show ?thesis
    unfolding appended_since_spec [OF ok' ok]
    using history_ok_len [OF ok] history_ok_len [OF ok'] history_ok_digest [OF ok] by (simp add: es)
qed

lemma commit_batch_cases:
  assumes ok: "history_ok (ke_ext E) (cp_history (en_current e))" and inv: "batch_inv E n e b"
    and run: "commit_batch E b e = (r, e')"
  shows "(r = Inr () \<and> e' = e \<and> sb_staged b = None)
    \<or> (\<exists>ss c es. sb_staged b = Some c \<and> sb_sequence b = Some (last ss)
         \<and> applied E (en_current e) ss c \<and> ss \<noteq> [] \<and> length ss \<le> n \<and> sorted_wrt (<) ss
         \<and> history_append (ke_ext E) (cp_history (en_current e)) es = Inr (cp_history c)
         \<and> e_commit E c (FSession (ss_id (cp_session (en_current e))) (last ss))
             (if es = [] then Unchanged else Append es) e = (r, e'))"
proof (cases "sb_staged b")
  case None
  then show ?thesis using run by (simp add: commit_batch_def)
next
  case (Some c)
  then obtain ss where ss: "applied E (en_current e) ss c" "length ss \<le> n" "sorted_wrt (<) ss"
      "ss \<noteq> []" "sb_sequence b = Some (last ss)"
    using inv by (auto simp: batch_inv_def batch_checkpoint_def)
  obtain es where es: "history_append (ke_ext E) (cp_history (en_current e)) es = Inr (cp_history c)"
    using applied_ok [OF ss(1)] by blast
  show ?thesis
    using run ss es appended_since_append [OF ok es]
    by (intro disjI2 exI [of _ ss] exI [of _ c] exI [of _ es]) (auto simp: commit_batch_def Some)
qed

text \<open>
  The reports a batch takes are those at the head of the queue; the ones the session has seen before are
  left out, and the others are applied in order. Whatever is not taken stays in the queue, or is set
  aside when it is not an event a batch can hold.
\<close>

definition unseen :: "'st engine \<Rightarrow> session_event \<Rightarrow> bool" where
  "unseen e event = none_or (\<lambda>previous. previous < sev_sequence event) (ss_last_sequence (cp_session (en_current e)))"

definition work_left :: "work list \<Rightarrow> 'st engine \<Rightarrow> 'st engine \<Rightarrow> bool" where
  "work_left ws e e' \<longleftrightarrow> en_work e' = ws \<and> en_stashed e' = en_stashed e
     \<or> (\<exists>w. ws = w # en_work e' \<and> batchable w = None \<and> en_stashed e' = Some w)"

lemma apply_events_sequence: "fst (apply_events E events c (e\<lparr>en_session_sequence := q\<rparr>)) = fst (apply_events E events c e)"
  by (cases events) simp_all

lemma batch_apply_event:
  assumes "batch_apply E b s body e = (Inr b', e')"
  shows "\<exists>c eff. apply_event E (batch_checkpoint e b) s body e = (Inr (c, eff), e')
     \<and> sb_staged b' = Some c \<and> sb_sequence b' = Some s \<and> sb_events b' = Suc (sb_events b)"
  using assms by (auto simp: batch_apply_def e_bind_eq_Inr)

text \<open>What the collection took from the queue \<open>ws\<close>, starting from the staged checkpoint \<open>c\<close>.\<close>

definition collected ::
  "'st kernel_env \<Rightarrow> checkpoint \<Rightarrow> session_batch \<Rightarrow> work list \<Rightarrow> 'st engine \<Rightarrow> session_batch \<Rightarrow> 'st engine \<Rightarrow> bool" where
  "collected E c b ws e b' e' \<longleftrightarrow> (\<exists>k more c'. let events = filter (unseen e) more in
       map batchable (take k ws) = map Some more
     \<and> fst (apply_events E events c e) = Inr c' \<and> sb_staged b' = Some c'
     \<and> sb_events b' = sb_events b + length events
     \<and> sb_sequence b' = (if events = [] then sb_sequence b else Some (sev_sequence (last events)))
     \<and> sorted_wrt (<) (map sev_sequence more) \<and> (\<forall>event \<in> set more. some_and (\<lambda>t. t < sev_sequence event) (en_session_sequence e))
     \<and> work_left (drop k ws) e e')"

lemma collected_none:
  assumes "sb_staged b = Some c" and "work_left ws e e'"
  shows "collected E c b ws e b e'"
  unfolding collected_def Let_def by (rule exI [of _ 0]) (use assms in simp)

lemma work_left_cong: "en_stashed e1 = en_stashed e \<Longrightarrow> work_left ws e1 e' = work_left ws e e'"
  by (simp add: work_left_def)

lemma some_and_less: "some_and (\<lambda>t. t < s) q \<Longrightarrow> \<forall>event \<in> A. s < sev_sequence event \<Longrightarrow>
    \<forall>event \<in> A. some_and (\<lambda>t. t < sev_sequence event) q"
  by (cases q) auto

lemma collected_skip:
  assumes "collected E c b ws (e\<lparr>en_session_sequence := Some (sev_sequence event)\<rparr>) b' e'"
    and "batchable w = Some event" and "\<not> unseen e event" and q: "some_and (\<lambda>t. t < sev_sequence event) (en_session_sequence e)"
  shows "collected E c b (w # ws) e b' e'"
proof -
  let ?e = "e\<lparr>en_session_sequence := Some (sev_sequence event)\<rparr>"
  have same: "unseen ?e = unseen e" by (simp add: unseen_def fun_eq_iff)
  obtain k more c' where m: "map batchable (take k ws) = map Some more"
      "fst (apply_events E (filter (unseen e) more) c e) = Inr c'" "sb_staged b' = Some c'"
      "sb_events b' = sb_events b + length (filter (unseen e) more)"
      "sb_sequence b' = (if filter (unseen e) more = [] then sb_sequence b else Some (sev_sequence (last (filter (unseen e) more))))"
      "sorted_wrt (<) (map sev_sequence more)" "\<forall>x \<in> set more. sev_sequence event < sev_sequence x"
      "work_left (drop k ws) e e'"
    using assms(1) by (auto simp: collected_def Let_def same apply_events_sequence work_left_def)
  show ?thesis
    unfolding collected_def Let_def
    by (intro exI [of _ "Suc k"] exI [of _ "event # more"] exI [of _ c'])
      (use m assms(2,3) q some_and_less [OF q m(7)] in simp)
qed

lemma collected_step:
  assumes "collected E c1 b1 ws e2 b' e'"
    and "apply_event E c (sev_sequence event) (sev_body event) (e\<lparr>en_session_sequence := Some (sev_sequence event)\<rparr>) = (Inr (c1, eff), e2)"
    and out: "outside e2 = outside (e\<lparr>en_session_sequence := Some (sev_sequence event)\<rparr>)"
    and b1: "sb_sequence b1 = Some (sev_sequence event)" "sb_events b1 = Suc (sb_events b)"
    and "batchable w = Some event" and "unseen e event" and q: "some_and (\<lambda>t. t < sev_sequence event) (en_session_sequence e)"
  shows "collected E c b (w # ws) e b' e'"
proof -
  have e2: "en_current e2 = en_current e" "en_session_sequence e2 = Some (sev_sequence event)" "en_stashed e2 = en_stashed e"
    using outside_eqD [OF out] by simp_all
  have same: "unseen e2 = unseen e" by (simp add: unseen_def fun_eq_iff e2)
  obtain k more c' where m: "map batchable (take k ws) = map Some more"
      "fst (apply_events E (filter (unseen e) more) c1 e2) = Inr c'" "sb_staged b' = Some c'"
      "sb_events b' = sb_events b1 + length (filter (unseen e) more)"
      "sb_sequence b' = (if filter (unseen e) more = [] then sb_sequence b1 else Some (sev_sequence (last (filter (unseen e) more))))"
      "sorted_wrt (<) (map sev_sequence more)" "\<forall>x \<in> set more. sev_sequence event < sev_sequence x"
      "work_left (drop k ws) e e'"
    using assms(1) by (auto simp: collected_def Let_def same e2 work_left_def)
  show ?thesis
    unfolding collected_def Let_def
    by (intro exI [of _ "Suc k"] exI [of _ "event # more"] exI [of _ c'])
      (use m assms(2,6,7) b1 q some_and_less [OF q m(7)] in simp)
qed

lemma fresh_sequence_Inr:
  assumes "fresh_sequence s e = (Inr new, e1)" and "en_session_sequence e = Some t"
  shows "e1 = e\<lparr>en_session_sequence := Some s\<rparr>" and "t < s"
    and "new = none_or (\<lambda>previous. previous < s) (ss_last_sequence (cp_session (en_current e)))"
  using assms by (auto simp: fresh_sequence_def e_then_def e_bind_def not_le split: if_splits)

lemma collect_more_events:
  "collect_more E b ws e = ((Inr (), b'), e') \<Longrightarrow> sb_staged b = Some c \<Longrightarrow> en_session_sequence e = Some t \<Longrightarrow>
    collected E c b ws e b' e'"
proof (induction ws arbitrary: b e c t)
  case Nil
  then show ?case by (auto intro!: collected_none simp: work_left_def)
next
  case (Cons w ws)
  let ?full = "batch_closed b \<or> lim_max_session_events (ro_limits (cp_options (en_current e))) \<le> sb_events b"
  show ?case
  proof (cases "?full \<or> batchable w = None")
    case True
    then have "b' = b" "work_left (w # ws) e e'" using Cons.prems(1) by (auto simp: work_left_def split: if_splits)
    then show ?thesis using collected_none [of b c, OF Cons.prems(2)] by simp
  next
    case False
    then obtain event where event: "batchable w = Some event" by blast
    let ?s = "sev_sequence event" and ?e = "e\<lparr>en_session_sequence := Some (sev_sequence event)\<rparr>"
    obtain new e1 where f: "fresh_sequence ?s e = (Inr new, e1)"
      using Cons.prems(1) False event by (auto split: prod.splits sum.splits)
    note fresh = fresh_sequence_Inr [OF f Cons.prems(3)]
    have new: "new = unseen e event" by (simp add: fresh(3) unseen_def)
    have q: "some_and (\<lambda>t. t < ?s) (en_session_sequence e)" using Cons.prems(3) fresh(2) by simp
    show ?thesis
    proof (cases new)
      case seen: False
      then have "collect_more E b ws ?e = ((Inr (), b'), e')" using Cons.prems(1) False event f fresh(1) by simp
      from Cons.IH [OF this Cons.prems(2), of ?s] show ?thesis
        using collected_skip [OF _ event _ q] seen new by simp
    next
      case True
      obtain b1 e2 where a: "batch_apply E b ?s (sev_body event) ?e = (Inr b1, e2)"
          and more: "collect_more E b1 ws e2 = ((Inr (), b'), e')"
        using Cons.prems(1) False event f fresh(1) True by (auto split: prod.splits sum.splits)
      have "batch_checkpoint ?e b = c" using Cons.prems(2) by (simp add: batch_checkpoint_def)
      with batch_apply_event [OF a] obtain c1 eff where c1: "apply_event E c ?s (sev_body event) ?e = (Inr (c1, eff), e2)"
          "sb_staged b1 = Some c1" "sb_sequence b1 = Some ?s" "sb_events b1 = Suc (sb_events b)"
        by auto
      note out = batch_apply_outside [OF a]
      have "collected E c1 b1 ws e2 b' e'"
        using Cons.IH [OF more c1(2), of ?s] outside_eqD(6) [OF out] by simp
      from collected_step [OF this c1(1) out c1(3,4) event _ q] show ?thesis using True new by simp
    qed
  qed
qed

text \<open>A batch is its first event and the unseen ones that it took from the queue.\<close>

lemma collect_events:
  assumes run: "collect E batch_default (sev_sequence event) (sev_body event) e = ((Inr (), b), e1)"
    and seq: "en_session_sequence e = Some (sev_sequence event)"
  shows "\<exists>k more c. map batchable (take k (en_work e)) = map Some more
     \<and> fst (apply_events E (event # filter (unseen e) more) (en_current e) e) = Inr c \<and> sb_staged b = Some c
     \<and> sb_events b = length (event # filter (unseen e) more)
     \<and> sb_sequence b = Some (sev_sequence (last (event # filter (unseen e) more)))
     \<and> sorted_wrt (<) (map sev_sequence (event # more)) \<and> work_left (drop k (en_work e)) e e1"
proof -
  obtain b0 e0 where a: "batch_apply E batch_default (sev_sequence event) (sev_body event) e = (Inr b0, e0)"
      and more: "collect_more E b0 (en_work e0) e0 = ((Inr (), b), e1)"
    using run by (auto simp: collect_def split: prod.splits sum.splits)
  have "batch_checkpoint e batch_default = en_current e" by (simp add: batch_checkpoint_def batch_default_def)
  with batch_apply_event [OF a] obtain c0 eff where c0: "apply_event E (en_current e) (sev_sequence event) (sev_body event) e = (Inr (c0, eff), e0)"
      "sb_staged b0 = Some c0" "sb_sequence b0 = Some (sev_sequence event)" "sb_events b0 = 1"
    by (auto simp: batch_default_def)
  note out = outside_eqD [OF batch_apply_outside [OF a]]
  have same: "unseen e0 = unseen e" by (simp add: unseen_def fun_eq_iff out)
  have e: "e\<lparr>en_session_sequence := Some (sev_sequence event)\<rparr> = e" using seq by (cases e) simp
  obtain k more c' where m: "map batchable (take k (en_work e)) = map Some more"
      "fst (apply_events E (filter (unseen e) more) c0 e0) = Inr c'" "sb_staged b = Some c'"
      "sb_events b = Suc (length (filter (unseen e) more))"
      "sb_sequence b = (if filter (unseen e) more = [] then Some (sev_sequence event) else Some (sev_sequence (last (filter (unseen e) more))))"
      "sorted_wrt (<) (map sev_sequence more)" "\<forall>x \<in> set more. sev_sequence event < sev_sequence x"
      "work_left (drop k (en_work e)) e e1"
    using collect_more_events [OF more c0(2)] by (auto simp: collected_def Let_def same out seq c0(3,4) work_left_def)
  show ?thesis
    by (intro exI [of _ k] exI [of _ more] exI [of _ c']) (use m c0(1) e in simp)
qed

lemma e_commit_work:
  "e_commit E c what delta e = (r, e') \<Longrightarrow> en_work e' = en_work e \<and> en_stashed e' = en_stashed e"
  by (drule e_commit_frame) auto

text \<open>
  A batch with the suspension it may ask for: one commit of the events applied, followed by at most the
  commit of the suspension.
\<close>

theorem model_batch_commits:
  assumes ok: "history_ok (ke_ext E) (cp_history (en_current e))"
    and seq: "en_session_sequence e = Some (sev_sequence event)"
    and n: "n = lim_max_session_events (ro_limits (cp_options (en_current e)))" "0 < n"
    and run: "model_batch E event e = (Inr (), e')"
  shows "\<exists>k more events c es e1 e2. map batchable (take k (en_work e)) = map Some more
     \<and> events = event # filter (unseen e) more
     \<and> fst (apply_events E events (en_current e) e) = Inr c
     \<and> length events \<le> n \<and> sorted_wrt (<) (map sev_sequence (event # more))
     \<and> history_append (ke_ext E) (cp_history (en_current e)) es = Inr (cp_history c)
     \<and> en_current e1 = en_current e \<and> en_store e1 = en_store e \<and> en_log e1 = en_log e
     \<and> e_commit E c (FSession (ss_id (cp_session (en_current e))) (sev_sequence (last events)))
          (if es = [] then Unchanged else Append es) e1 = (Inr (), e2)
     \<and> (en_current e' = en_current e2
        \<or> (\<exists>i. en_current e' = stamp i (en_current e2) (FControl ActSuspended)
                 ((en_current e2)\<lparr>cp_state := StSuspended (runtime_suspension WaitRecovery)\<rparr>)))
     \<and> work_left (drop k (en_work e)) e e'"
proof -
  obtain staged b e1 where c: "collect E batch_default (sev_sequence event) (sev_body event) e = ((staged, b), e1)"
    by (metis prod.collapse)
  obtain e2 where cb: "commit_batch E b e1 = (Inr (), e2)" and st: "staged = Inr ()"
    using run by (auto simp: model_batch_def c e_then_eq_Inr e_bind_eq_Inr)
  define e3 where "e3 = (if sb_seal_user_input b then e2\<lparr>en_media_closed := True\<rparr> else e2)"
  have susp: "(if sb_suspend b then e_suspend E WaitRecovery else e_return ()) e3 = (Inr (), e')"
    using run by (auto simp: model_batch_def c cb st e_then_def e_bind_def e3_def split: if_splits)
  have inv: "batch_inv E n e1 b" "en_current e1 = en_current e" "en_store e1 = en_store e" "en_log e1 = en_log e"
    using collect_inv [OF c seq, of n] n by simp_all
  have ok1: "history_ok (ke_ext E) (cp_history (en_current e1))" using inv(2) ok by simp
  note cur = inv(2-4)
  have cur3: "en_current e3 = en_current e2" "en_work e3 = en_work e2" "en_stashed e3 = en_stashed e2"
    by (simp_all add: e3_def)
  have last: "en_current e' = en_current e2
      \<or> (\<exists>i. en_current e' = stamp i (en_current e2) (FControl ActSuspended)
               ((en_current e2)\<lparr>cp_state := StSuspended (runtime_suspension WaitRecovery)\<rparr>))"
    using susp cur3 by (cases "sb_suspend b") (auto simp: e_suspend_def dest!: e_commit_current)
  have work: "en_work e' = en_work e2 \<and> en_stashed e' = en_stashed e2"
    using susp cur3 by (cases "sb_suspend b") (auto simp: e_suspend_def dest!: e_commit_work)
  obtain k more c where m: "map batchable (take k (en_work e)) = map Some more"
      "fst (apply_events E (event # filter (unseen e) more) (en_current e) e) = Inr c" "sb_staged b = Some c"
      "sb_events b = length (event # filter (unseen e) more)"
      "sb_sequence b = Some (sev_sequence (last (event # filter (unseen e) more)))"
      "sorted_wrt (<) (map sev_sequence (event # more))" "work_left (drop k (en_work e)) e e1"
    using collect_events [OF c [unfolded st] seq] by blast
  obtain ss es where commit: "history_append (ke_ext E) (cp_history (en_current e)) es = Inr (cp_history c)"
      "sb_sequence b = Some (last ss)"
      "e_commit E c (FSession (ss_id (cp_session (en_current e))) (last ss))
             (if es = [] then Unchanged else Append es) e1 = (Inr (), e2)"
    using commit_batch_cases [OF ok1 inv(1) cb] m(3) unfolding cur by auto
  have "length (event # filter (unseen e) more) \<le> n"
    using inv(1) m(4) by (auto simp: batch_inv_def)
  moreover have "last ss = sev_sequence (last (event # filter (unseen e) more))" using commit(2) m(5) by simp
  moreover have "work_left (drop k (en_work e)) e e'"
    using m(7) e_commit_work [OF commit(3)] work by (simp add: work_left_def)
  ultimately show ?thesis
    using m(1,2,6) commit(1,3) cur last
    by (intro exI [of _ k] exI [of _ more] exI [of _ "event # filter (unseen e) more"] exI [of _ c] exI [of _ es]
        exI [of _ e1] exI [of _ e2]) simp
qed

section \<open>The projection invariant\<close>

text \<open>A validated checkpoint leaves room for the commands of a batch.\<close>

lemma options_bounds:
  assumes "checkpoint_validate c = Inr ()"
  shows "length (cp_commands c) \<le> u32_max" and "lim_max_session_events (ro_limits (cp_options c)) \<le> u32_max"
    and "0 < lim_max_session_events (ro_limits (cp_options c))"
  using checkpoint_valid_options [OF assms] checkpoint_valid_capacity(1) [OF assms]
  by (auto simp: run_options_validate_def r_bind_Inr limits_validate_def fail_if_Inr not_less)

lemma commit_batch_projection:
  assumes valid: "checkpoint_validate (en_current e) = Inr ()" and ok: "projection_ok (en_current e)"
    and inv: "batch_inv E n e b" and n: "n \<le> u32_max"
  shows "projection_ok (en_current (snd (commit_batch E b e)))"
proof (cases "sb_staged b")
  case None
  then show ?thesis using ok by (simp add: commit_batch_def)
next
  case (Some c)
  then obtain ss where ss: "applied E (en_current e) ss c" "length ss \<le> n" "sb_sequence b = Some (last ss)"
    using inv by (auto simp: batch_inv_def batch_checkpoint_def)
  have "length (cp_commands (en_current e)) + length ss \<le> 2 ^ 64"
    using options_bounds(1) [OF valid] n ss(2) by (simp add: u32_max_def)
  then have "projection_ok c" using applied_ok [OF ss(1)] ok by blast
  then show ?thesis
    using ok e_commit_keeps [OF projection_stable, of e c]
    by (auto simp: commit_batch_def Some ss(3) e_bind_def split: option.splits sum.splits)
qed

lemma note_sequence_projection [keeps_intros]: "keeps_projection (note_session_sequence E s)"
  unfolding note_session_sequence_def
  by (intro keeps_get' keeps_projection_commit) (simp add: projection_ok_def)

theorem model_event_projection:
  assumes valid: "checkpoint_validate (en_current e) = Inr ()" and ok: "projection_ok (en_current e)"
  shows "projection_ok (en_current (snd (model_event E event e)))"
proof -
  obtain f e0 where f: "fresh_sequence (sev_sequence event) e = (f, e0)"
    by (cases "fresh_sequence (sev_sequence event) e")
  have e0: "en_current e0 = en_current e" "f = Inr True \<Longrightarrow> en_session_sequence e0 = Some (sev_sequence event)"
    using fresh_sequence_cases [OF f] by auto
  have ok0: "projection_ok (en_current e0)" using ok e0 by simp
  show ?thesis
  proof (cases "f = Inr True")
    case False
    then have "f = Inr False \<or> (\<exists>err. f = Inl err)" by (cases f) auto
    then show ?thesis using f ok0 by (auto simp: model_event_def e_bind_def)
  next
    case True
    have eq: "model_event E event e = (case sev_body event of
         EvDelta generation_id delta \<Rightarrow> e_log (Emit (ModelDelta generation_id delta))
       | EvOperation origin operation_event \<Rightarrow>
           provider_event E (sev_sequence event) origin operation_event
       | _ \<Rightarrow> model_batch E event) e0"
      using f True by (simp add: model_event_def e_bind_def)
    have provider: "keeps_projection (provider_event E s origin oe)" for s origin oe
      unfolding provider_event_def
      by (intro keeps_get') (auto intro!: keeps_intros split: option.split operation_update.split)
    have batch: "projection_ok (en_current (snd (model_batch E event e0)))"
    proof -
      obtain r b e1 where c: "collect E batch_default (sev_sequence event) (sev_body event) e0 = ((r, b), e1)"
        by (metis prod.collapse)
      let ?n = "lim_max_session_events (ro_limits (cp_options (en_current e)))"
      note bounds = options_bounds [OF valid]
      have inv: "batch_inv E ?n e1 b" "en_current e1 = en_current e0"
        using collect_inv [OF c e0(2) [OF True], of ?n] bounds by (simp_all add: e0)
      have "projection_ok (en_current (snd (commit_batch E b e1)))"
        by (rule commit_batch_projection [OF _ _ inv(1)]) (use inv(2) e0 valid ok bounds in auto)
      moreover have "keeps_projection (e_then (e_lift r)
      (e_then (if sb_seal_user_input b then e_modify (\<lambda>e. e\<lparr>en_media_closed := True\<rparr>) else e_return ())
        (if sb_suspend b then e_suspend E WaitRecovery else e_return ())))"
        by (auto intro!: keeps_intros)
      ultimately show ?thesis
        by (auto simp: model_batch_def c e_then_def [of "commit_batch E b"] e_bind_def keeps_def
            split: prod.splits sum.splits)
    qed
    show ?thesis
      unfolding eq using ok0 batch keepsD [OF provider, of e0] by (auto split: session_event_body.split)
  qed
qed

end
