(* ===== verification/Engine_Lifecycle.thy ===== *)
theory Engine_Lifecycle
  imports Engine_Media Event_Batches
begin

text \<open>
  The life of an execution: what the engine does with each report of its tasks (\<open>workers.rs\<close>), the
  status of its operations and the decision of what to do next, the loop, the stop of the workers and
  the settlement (\<open>lifecycle.rs\<close>). The loop is a step relation: between two receptions the host and
  the tasks may report anything, in any order.
\<close>

section \<open>Reports of the tasks\<close>

definition op_unfinished :: "'st engine \<Rightarrow> string \<Rightarrow> bool" where
  "op_unfinished e i = some_and (\<lambda>op. \<not> op_terminal (op_state op)) (om_get (cp_operations (en_current e)) i)"

text \<open>A start error settles the operation unless the external effect is left unknown.\<close>

definition start_failed :: "'st kernel_env \<Rightarrow> string \<Rightarrow> error \<Rightarrow> ('st engine, unit) exec" where
  "start_failed E i err = e_get (\<lambda>e.
     let cancelling = some_and (\<lambda>op. op_state op = Cancelling) (om_get (cp_operations (en_current e)) i) in
     case err of
       Cancelled \<Rightarrow>
         (if cancelling then finish E i (OutcomeCancelled ''operation cancelled'')
          else unknown E i (error_text (ke_debug E) err))
     | Uncertain _ \<Rightarrow> unknown E i (error_text (ke_debug E) err)
     | Storage _ \<Rightarrow> unknown E i (error_text (ke_debug E) err)
     | Conflict _ _ \<Rightarrow> unknown E i (error_text (ke_debug E) err)
     | Protocol _ \<Rightarrow> unknown E i (error_text (ke_debug E) err)
     | Deadline \<Rightarrow> unknown E i (error_text (ke_debug E) err)
     | _ \<Rightarrow> finish E i (OutcomeFailure (failure_of (ke_debug E) err)))"

definition model_failed :: "'st kernel_env \<Rightarrow> error \<Rightarrow> ('st engine, unit) exec" where
  "model_failed E err = e_get (\<lambda>e.
     if (case err of Uncertain _ \<Rightarrow> True | _ \<Rightarrow> False)
        \<or> ss_recovery (cp_session (en_current e)) \<noteq> None
        \<or> (\<exists>op \<in> set (om_values (cp_operations (en_current e))). \<not> op_terminal (op_state op))
     then e_suspend E WaitRecovery else e_fail err)"

definition segment_ready ::
  "'st kernel_env \<Rightarrow> string \<Rightarrow> bool \<Rightarrow> sealed_media \<Rightarrow> resource_ref \<Rightarrow> ('st engine, unit) exec" where
  "segment_ready E direction valid segment reference =
     e_then (if valid then seal_cursor E direction segment reference else e_return ())
       (e_log (MediaVerdict valid))"

definition reply_done :: "'st kernel_env \<Rightarrow> string \<Rightarrow> unit result \<Rightarrow> ('st engine, unit) exec" where
  "reply_done E i result =
     e_then (e_modify (\<lambda>e. e\<lparr>en_pending_replies := en_pending_replies e - {i}\<rparr>)) (e_get (\<lambda>e.
       if some_and (\<lambda>op. op_state op = Unknown) (om_get (cp_operations (en_current e)) i)
       then (case result of
           Inl err \<Rightarrow> unknown E i (error_text (ke_debug E) err)
         | Inr _ \<Rightarrow> local_operation_update E i Running None)
       else e_return ()))"

text \<open>A send that failed leaves the session in an unknown state: the run waits for recovery.\<close>

definition sent_back ::
  "'st kernel_env \<Rightarrow> ('st engine \<Rightarrow> 'st engine) \<Rightarrow> unit result \<Rightarrow> ('st engine, unit) exec" where
  "sent_back E clear result = e_then (e_modify clear)
     (case result of Inl _ \<Rightarrow> e_suspend E WaitRecovery | Inr _ \<Rightarrow> e_return ())"

fun handle_work :: "'st kernel_env \<Rightarrow> work \<Rightarrow> ('st engine, unit) exec" where
  "handle_work E (WModel (Inr (Some event))) = model_event E event"
| "handle_work E (WModel (Inr None)) = e_get (\<lambda>e.
     if ss_closure (cp_session (en_current e)) = None then e_suspend E WaitRecovery else e_return ())"
| "handle_work E (WModel (Inl err)) = model_failed E err"
| "handle_work E (WStarted i (Inr (ToolFinished outcome))) = finish E i outcome"
| "handle_work E (WStarted i (Inr (ToolActive recovery))) = install_operation E i recovery"
| "handle_work E (WStarted i (Inl err)) = start_failed E i err"
| "handle_work E (WCancelFailed i err) = e_get (\<lambda>e.
     if op_unfinished e i then unknown E i (''cancel failed: '' @ error_text (ke_debug E) err)
     else e_return ())"
| "handle_work E (WOperation i (Inr (Some event))) = operation_event_step E i event"
| "handle_work E (WOperation i _) = e_get (\<lambda>e.
     if op_unfinished e i then unknown E i ''operation stream ended without a final result''
     else e_return ())"
| "handle_work E (WAdmitted bound decisions) = admitted E bound decisions"
| "handle_work E (WMediaReady segment reference) = e_get (\<lambda>e.
     segment_ready E ''output'' (sm_epoch segment = ss_output_epoch (cp_session (en_current e))
       \<and> ss_id (cp_session (en_current e)) = sm_session_id segment) segment reference)"
| "handle_work E (WInputReady segment reference) = e_get (\<lambda>e.
     segment_ready E ''input'' (sm_epoch segment = 0
       \<and> ss_id (cp_session (en_current e)) = sm_session_id segment) segment reference)"
| "handle_work E (WInputSent result) = sent_back E (\<lambda>e. e\<lparr>en_input_sending := False\<rparr>) result"
| "handle_work E WMediaDone = e_modify (\<lambda>e. e\<lparr>en_media_pending := False\<rparr>)"
| "handle_work E (WReplyDone i result) = reply_done E i result"
| "handle_work E (WProgress i v) = e_log (Emit (OperationProgress i v))"
| "handle_work E (WMediaError err) = e_fail err"
| "handle_work E (WCommandSent result) = sent_back E (\<lambda>e. e\<lparr>en_sending := False\<rparr>) result"

fun started_id :: "work \<Rightarrow> string option" where
  "started_id (WStarted i _) = Some i"
| "started_id _ = None"

definition handle :: "'st kernel_env \<Rightarrow> work \<Rightarrow> ('st engine, unit) exec" where
  "handle E w = e_then (case started_id w of
       Some i \<Rightarrow> e_modify (\<lambda>e. e\<lparr>en_pending_starts := en_pending_starts e - {i}\<rparr>)
     | None \<Rightarrow> e_return ()) (handle_work E w)"

section \<open>Status\<close>

record work_status =
  wst_busy :: bool
  wst_host_busy :: bool
  wst_unknown :: bool
  wst_progressing :: bool

definition status_add :: "operation_record \<Rightarrow> work_status \<Rightarrow> work_status" where
  "status_add op s = \<lparr>wst_busy = True,
     wst_host_busy = (wst_host_busy s \<or> \<not> owner_is_provider (op_owner op)),
     wst_unknown = (wst_unknown s \<or> op_state op = Unknown),
     wst_progressing = (wst_progressing s \<or> \<not> (op_state op = Waiting \<or> op_state op = Unknown))\<rparr>"

definition status_read :: "(string, operation_record) omap \<Rightarrow> work_status" where
  "status_read operations = fold status_add
     (filter (\<lambda>op. \<not> op_terminal (op_state op)) (om_values operations))
     \<lparr>wst_busy = False, wst_host_busy = False, wst_unknown = False, wst_progressing = False\<rparr>"

section \<open>What to do next\<close>

definition can_advance :: "'st engine \<Rightarrow> work_status \<Rightarrow> bool" where
  "can_advance e status \<longleftrightarrow> (let s = cp_session (en_current e);
       provider_continuation = ss_needs_generation s \<and> \<not> wst_host_busy status
         \<and> ss_response_status s = Some RespContinuation in
     (\<not> wst_busy status \<or> provider_continuation)
     \<and> ss_ready s
     \<and> (ss_generation_id s = None \<or> ss_response_status s \<noteq> None)
     \<and> cp_commands (en_current e) = []
     \<and> \<not> en_sending e)"

definition input_finished :: "'st kernel_env \<Rightarrow> 'st engine \<Rightarrow> bool" where
  "input_finished E e \<longleftrightarrow> (let s = cp_session (en_current e) in
     (\<not> supports (session_capabilities E e) ResponseEvents
      \<or> (ss_response_status s = Some RespCompleted \<and> \<not> ss_needs_generation s
         \<and> ss_generated_input_position s = ss_input_position s))
     \<and> (ro_mode (cp_options (en_current e)) = Task \<or> ss_input_closed s))"

definition waiting_for_input :: "'st engine \<Rightarrow> work_status \<Rightarrow> bool" where
  "waiting_for_input e status \<longleftrightarrow> wst_busy status
     \<and> cp_commands (en_current e) = []
     \<and> \<not> en_sending e
     \<and> \<not> wst_progressing status
     \<and> (ro_mode (cp_options (en_current e)) = Task \<or> wst_unknown status)
     \<and> en_pending_replies e = {}
     \<and> en_pending_starts e = {}
     \<and> ss_response_status (cp_session (en_current e)) \<noteq> None"

fun assistant_visible :: "message \<Rightarrow> content list" where
  "assistant_visible (Assistant items _) = visible_content items"
| "assistant_visible _ = []"

definition completed_content :: "checkpoint \<Rightarrow> content list" where
  "completed_content c = concat (map assistant_visible (conversation (drop
     (if ro_mode (cp_options c) = Interactive then ss_run_start (cp_session c)
      else ss_response_start (cp_session c)) (history_entries (cp_history c)))))"

definition complete_run :: "'st kernel_env \<Rightarrow> ('st engine, unit) exec" where
  "complete_run E = e_get (\<lambda>e.
     e_commit E ((en_current e)\<lparr>cp_state := StCompleted (completed_content (en_current e))\<rparr>)
       (FControl ActFinished) Unchanged)"

definition finish_or_drain :: "'st kernel_env \<Rightarrow> ('st engine, bool) exec" where
  "finish_or_drain E = e_get (\<lambda>e. let s = cp_session (en_current e) in
     if ss_closure s = None
     then (if \<not> ss_closing s \<and> \<not> en_input_sending e
           then e_bind (prepare_command E IClose) (\<lambda>_. e_return True) else e_return False)
     else if en_media_pending e \<or> en_input_sending e then e_return False
     else e_then (complete_run E) (e_return True))"

definition advance_work :: "'st kernel_env \<Rightarrow> work_status \<Rightarrow> ('st engine, bool) exec" where
  "advance_work E status = e_get (\<lambda>e.
     if can_advance e status
     then (if ss_needs_generation (cp_session (en_current e))
              \<and> supports (session_capabilities E e) ExplicitGeneration
           then e_then (generate E) (e_return True)
           else if input_finished E e then finish_or_drain E else e_return False)
     else e_return False)"

definition advance :: "'st kernel_env \<Rightarrow> ('st engine, bool) exec" where
  "advance E = e_get (\<lambda>e0. let status = status_read (cp_operations (en_current e0)) in
     e_bind (advance_work E status) (\<lambda>done. if done then e_return True
       else e_get (\<lambda>e. if waiting_for_input e status
         then e_then (e_suspend E (if wst_unknown status then WaitRecovery else WaitInput)) (e_return True)
         else e_return False)))"

section \<open>The loop\<close>

text \<open>One pass up to the reception; \<open>True\<close> when the loop continues without receiving.\<close>

definition pass :: "'st kernel_env \<Rightarrow> ('st engine, bool) exec" where
  "pass E = e_then (e_check E) (e_get (\<lambda>e0.
     e_then (dispatch_commands E)
    (e_then (admit E)
    (e_bind (advance E) (\<lambda>moved.
       e_get (\<lambda>e. e_return (moved \<or> cp_revision (en_current e) \<noteq> cp_revision (en_current e0))))))))"

text \<open>
  The reception in the order of the biased \<open>select\<close>: the stashed report, a held packet, a control, a
  report, a packet. \<open>None\<close> when nothing can be received; then only an interruption wakes the loop.
\<close>

definition takes_media :: "'st engine \<Rightarrow> bool" where
  "takes_media e \<longleftrightarrow> en_media_input e \<and> \<not> en_input_sending e"

definition receive_work :: "'st kernel_env \<Rightarrow> 'st engine \<Rightarrow> (unit result \<times> 'st engine) option" where
  "receive_work E e = (case en_stashed e of
       Some w \<Rightarrow> Some (handle E w (e\<lparr>en_stashed := None\<rparr>))
     | None \<Rightarrow>
         (if takes_media e \<and> en_held_input e \<noteq> None
          then Some (input_media E (the (en_held_input e)) (e\<lparr>en_held_input := None\<rparr>))
          else (case en_controls e of
              body # rest \<Rightarrow> Some (control E body (e\<lparr>en_controls := rest\<rparr>))
            | [] \<Rightarrow> (case en_work e of
                w # rest \<Rightarrow> Some (handle E w (e\<lparr>en_work := rest\<rparr>))
              | [] \<Rightarrow> (case en_media_queue e of
                  packet # rest \<Rightarrow>
                    (if takes_media e then Some (input_media E packet (e\<lparr>en_media_queue := rest\<rparr>)) else None)
                | [] \<Rightarrow> None)))))"

text \<open>The engine before its loop: the catalog, the recovery, the session, interrupted operations.\<close>

definition while_active :: "('st engine, unit) exec \<Rightarrow> ('st engine, unit) exec" where
  "while_active m = e_get (\<lambda>e. if state_active (cp_state (en_current e)) then m else e_return ())"

definition start_up ::
  "'st kernel_env \<Rightarrow> opening_step list \<Rightarrow> opening_step list \<Rightarrow> request \<Rightarrow> ('st engine, unit) exec" where
  "start_up E catalog_steps model_steps request = e_get (\<lambda>e.
     if state_terminal (cp_state (en_current e)) then e_return ()
     else e_then (e_check E)
         (e_then (open_catalog E catalog_steps)
         (while_active (e_then (apply_recovery E request)
         (while_active (e_then (open_model E model_steps)
         (while_active (recover_operations E))))))))"

text \<open>Phases of a running engine: a pass comes next, a reception comes next, or it has ended.\<close>

datatype phase = Passing | Receiving | Ended "unit result"

text \<open>What the host and the tasks may report while the engine waits.\<close>

inductive arrives :: "'st engine \<Rightarrow> 'st engine \<Rightarrow> bool" where
  arrives_control: "arrives e (e\<lparr>en_controls := en_controls e @ [body]\<rparr>)"
| arrives_work: "arrives e (e\<lparr>en_work := en_work e @ [w]\<rparr>)"
| arrives_packet: "\<not> en_media_closed e \<Longrightarrow> arrives e (e\<lparr>en_media_queue := en_media_queue e @ [packet]\<rparr>)"

definition after_pass :: "bool result \<Rightarrow> phase" where
  "after_pass r = (case r of Inl err \<Rightarrow> Ended (Inl err) | Inr True \<Rightarrow> Passing | Inr False \<Rightarrow> Receiving)"

definition after_receive :: "unit result \<Rightarrow> phase" where
  "after_receive r = (case r of Inl err \<Rightarrow> Ended (Inl err) | Inr _ \<Rightarrow> Passing)"

inductive step :: "'st kernel_env \<Rightarrow> phase \<times> 'st engine \<Rightarrow> phase \<times> 'st engine \<Rightarrow> bool" for E where
  step_stop: "\<not> state_active (cp_state (en_current e)) \<Longrightarrow> step E (Passing, e) (Ended (Inr ()), e)"
| step_pass: "state_active (cp_state (en_current e)) \<Longrightarrow> pass E e = (r, e')
    \<Longrightarrow> step E (Passing, e) (after_pass r, e')"
| step_receive: "receive_work E e = Some (r, e') \<Longrightarrow> step E (Receiving, e) (after_receive r, e')"
| step_interrupted: "receive_work E e = None \<Longrightarrow> step E (Receiving, e) (Passing, e)"
| step_arrives: "arrives e e' \<Longrightarrow> step E (p, e) (p, e')"

inductive reaches :: "'st kernel_env \<Rightarrow> phase \<times> 'st engine \<Rightarrow> phase \<times> 'st engine \<Rightarrow> bool" for E where
  reaches_refl: "reaches E s s"
| reaches_step: "reaches E s t \<Longrightarrow> step E t u \<Longrightarrow> reaches E s u"

section \<open>The end\<close>

definition stop_workers :: "'st engine \<Rightarrow> effect list" where
  "stop_workers e = map CancelToken (sorted_list_of_set (en_tokens e))
     @ (if state_is_suspended (cp_state (en_current e)) then []
        else map CancelOperation (sorted_list_of_set (en_operation_controls e))) @ [AbortTasks]"

text \<open>How an error settles the run, and what becomes of the operations it leaves behind.\<close>

definition settled_state :: "(string \<Rightarrow> string) \<Rightarrow> error \<Rightarrow> run_state \<times> control_action" where
  "settled_state debug err = (case err of
       Cancelled \<Rightarrow> (StCancelled, ActCancelled)
     | Deadline \<Rightarrow> (StLimited LimitDeadline, ActLimited)
     | _ \<Rightarrow> (StFailed (failure_of debug err), ActFailed))"

definition settle_left :: "operation_record \<Rightarrow> operation_record" where
  "settle_left op = (if op_state op = Running \<or> op_state op = Cancelling
     then op\<lparr>op_state := Unknown\<rparr> else op)"

type_synonym engine_result = "(error \<times> checkpoint option) + checkpoint"

definition settle :: "'st kernel_env \<Rightarrow> unit result \<Rightarrow> 'st engine \<Rightarrow> engine_result \<times> 'st engine" where
  "settle E result e = (case result of
       Inr _ \<Rightarrow> (Inr (en_current e), e)
     | Inl err \<Rightarrow>
         (if error_fatal err then (Inl (err, Some (en_current e)), e)
          else (case settled_state (ke_debug E) err of (state, action) \<Rightarrow>
            (case e_commit E ((map_operations (om_map settle_left) (en_current e))\<lparr>cp_state := state\<rparr>)
                    (FControl action) Unchanged e of
               (Inr _, e') \<Rightarrow> (Inr (en_current e'), e')
             | (Inl err', e') \<Rightarrow> (Inl (err', Some (en_current e')), e')))))"

text \<open>
  The first checkpoint and the engine that starts from it; \<open>None\<close> of the deadline means no deadline.
\<close>

definition run_deadline :: "nat \<Rightarrow> nat \<Rightarrow> run_context \<Rightarrow> nat option" where
  "run_deadline now now_ms context =
     map_option (\<lambda>d. now + (unat d - now_ms)) (rc_deadline_at_ms context)"

definition first_checkpoint ::
  "(nat \<Rightarrow> string) \<Rightarrow> nat \<Rightarrow> bool \<Rightarrow> request \<Rightarrow> checkpoint \<times> history_delta" where
  "first_checkpoint ids n expired request = (case initial ids n request of (next, delta) \<Rightarrow>
     (if expired then next\<lparr>cp_state := StLimited LimitDeadline\<rparr> else next, delta))"

definition engine_new :: "'st \<Rightarrow> nat option \<Rightarrow> nat \<Rightarrow> nat \<Rightarrow> nat \<Rightarrow> checkpoint \<Rightarrow> 'st engine" where
  "engine_new st deadline ids ticks commits first = \<lparr>en_store = st, en_current = first, en_specs = [],
     en_deadline = deadline, en_media_queue = [], en_media_closed = False, en_controls = [], en_work = [],
     en_stashed = None, en_session = None, en_media_input = False, en_operation_controls = {},
     en_tokens = {}, en_admitting = {},
     en_sent = set (map pc_id (filter pc_sent (cp_commands first))), en_sending = False,
     en_input_sending = False, en_held_input = None, en_ended_streams = None, en_media_pending = False,
     en_pending_replies = {}, en_pending_starts = {}, en_session_sequence = None,
     en_log = [InvalidateOutput (ss_output_epoch (cp_session first))],
     en_ids = ids, en_ticks = ticks, en_polls = 0, en_commits = commits\<rparr>"

text \<open>The identities already drawn: two for a start, one for a recovery.\<close>

definition execute_start ::
  "'st kernel_env \<Rightarrow> 'st \<Rightarrow> nat \<Rightarrow> request \<Rightarrow> (error \<times> checkpoint option) + 'st engine" where
  "execute_start E st now_ms request =
     (let deadline = run_deadline (ke_now E 0) now_ms (request_context request);
          expired = some_and (\<lambda>d. d \<le> ke_now E 1) deadline in
      case first_checkpoint (ke_new_id E) 0 expired request of (next, delta) \<Rightarrow>
        (case persist E next delta (engine_new st deadline 2 2 0 next) of
           (Inl err, _) \<Rightarrow> Inl (err, case request of RequestRecover c _ _ _ \<Rightarrow> Some c | _ \<Rightarrow> None)
         | (Inr _, e) \<Rightarrow> Inr e))"

section \<open>Status and waiting\<close>

lemma fold_status:
  "fold status_add ops s = \<lparr>wst_busy = (wst_busy s \<or> ops \<noteq> []),
     wst_host_busy = (wst_host_busy s \<or> (\<exists>op \<in> set ops. \<not> owner_is_provider (op_owner op))),
     wst_unknown = (wst_unknown s \<or> (\<exists>op \<in> set ops. op_state op = Unknown)),
     wst_progressing = (wst_progressing s \<or> (\<exists>op \<in> set ops. op_state op \<noteq> Waiting \<and> op_state op \<noteq> Unknown))\<rparr>"
  by (induction ops arbitrary: s) (auto simp: status_add_def)

lemma status_read_iff:
  "wst_busy (status_read ops) \<longleftrightarrow> (\<exists>op \<in> set (om_values ops). \<not> op_terminal (op_state op))"
  "wst_host_busy (status_read ops) \<longleftrightarrow>
     (\<exists>op \<in> set (om_values ops). \<not> op_terminal (op_state op) \<and> \<not> owner_is_provider (op_owner op))"
  "wst_unknown (status_read ops) \<longleftrightarrow> (\<exists>op \<in> set (om_values ops). op_state op = Unknown)"
  "wst_progressing (status_read ops) \<longleftrightarrow>
     (\<exists>op \<in> set (om_values ops). op_state op = Queued \<or> op_state op = Running \<or> op_state op = Cancelling)"
  by (auto simp: status_read_def fold_status filter_empty_conv op_terminal_def)
     (metis operation_state.exhaust)+

end
