(* ===== verification/Engine_Invariants.thy ===== *)
theory Engine_Invariants
  imports Engine_Lifecycle
begin

text \<open>
  What holds of every state the engine reaches. The engine touches its checkpoint, its store and the
  log of its commits in one place only, \<open>commit\<close>: the locale \<open>commit_invariant\<close> takes a property that
  a commit keeps and proves, operation by operation, that the whole engine keeps it, unless it ends
  with an error after which the durable head is not known. The interpretations at the end, over the
  engine running on the stores of the model, give the properties of the system.
\<close>

section \<open>Keeping a property up to a fatal error\<close>

definition sound :: "('s \<Rightarrow> bool) \<Rightarrow> ('s, 'a) exec \<Rightarrow> bool" where
  "sound P m \<longleftrightarrow> (\<forall>e. P e \<longrightarrow> P (snd (m e)) \<or> (\<exists>err. fst (m e) = Inl err \<and> error_fatal err))"

lemma soundI: "(\<And>e r e'. P e \<Longrightarrow> m e = (r, e') \<Longrightarrow> P e' \<or> (\<exists>err. r = Inl err \<and> error_fatal err)) \<Longrightarrow> sound P m"
  by (metis prod.collapse sound_def)

lemma soundD: "sound P m \<Longrightarrow> P e \<Longrightarrow> m e = (r, e') \<Longrightarrow> P e' \<or> (\<exists>err. r = Inl err \<and> error_fatal err)"
  by (metis fst_conv snd_conv sound_def)

lemma sound_Inr: "sound P m \<Longrightarrow> P e \<Longrightarrow> m e = (Inr x, e') \<Longrightarrow> P e'"
  using soundD by fastforce

lemma keeps_sound: "keeps P m \<Longrightarrow> sound P m"
  by (auto simp: keeps_def sound_def)

named_theorems sound_intros \<open>operations that keep a property up to a fatal error\<close>

lemma sound_return [sound_intros]: "sound P (e_return x)"
  and sound_fail [sound_intros]: "sound P (e_fail err)"
  and sound_lift [sound_intros]: "sound P (e_lift r)"
  by (simp_all add: keeps_sound)

lemma sound_bind [sound_intros]:
  assumes m: "sound P m" and f: "\<And>x. sound P (f x)"
  shows "sound P (e_bind m f)"
proof (rule soundI)
  fix e r e' assume P: "P e" and run: "e_bind m f e = (r, e')"
  obtain rm em where em: "m e = (rm, em)" by (cases "m e")
  show "P e' \<or> (\<exists>err. r = Inl err \<and> error_fatal err)"
  proof (cases rm)
    case (Inl err)
    then show ?thesis using soundD [OF m P em] run by (auto simp: e_bind_def em)
  next
    case (Inr x)
    then have "P em" using soundD [OF m P em] by simp
    then show ?thesis using soundD [OF f] run by (simp add: e_bind_def em Inr)
  qed
qed

lemma sound_then [sound_intros]: "sound P m \<Longrightarrow> sound P n \<Longrightarrow> sound P (e_then m n)"
  unfolding e_then_def by (rule sound_bind)

lemma sound_get [sound_intros]: "(\<And>e. P e \<Longrightarrow> sound P (f e)) \<Longrightarrow> sound P (e_get f)"
  by (simp add: sound_def)

lemma sound_each [sound_intros]: "(\<And>x. sound P (f x)) \<Longrightarrow> sound P (e_each f xs)"
  by (induction xs) (auto intro: sound_intros)

lemma sound_if [sound_intros]:
  "(c \<Longrightarrow> sound P m) \<Longrightarrow> (\<not> c \<Longrightarrow> sound P n) \<Longrightarrow> sound P (if c then m else n)"
  by simp

lemma sound_option [sound_intros]:
  "(x = None \<Longrightarrow> sound P m) \<Longrightarrow> (\<And>y. x = Some y \<Longrightarrow> sound P (f y)) \<Longrightarrow>
     sound P (case x of None \<Rightarrow> m | Some y \<Rightarrow> f y)"
  by (cases x) simp_all

lemma sound_sum [sound_intros]:
  "(\<And>y. x = Inl y \<Longrightarrow> sound P (f y)) \<Longrightarrow> (\<And>y. x = Inr y \<Longrightarrow> sound P (g y)) \<Longrightarrow>
     sound P (case x of Inl y \<Rightarrow> f y | Inr y \<Rightarrow> g y)"
  by (cases x) simp_all

lemma sound_prod [sound_intros]:
  "(\<And>a b. x = (a, b) \<Longrightarrow> sound P (f a b)) \<Longrightarrow> sound P (case x of (a, b) \<Rightarrow> f a b)"
  by (cases x) simp

section \<open>The durable part of the state\<close>

fun commit_event :: "effect \<Rightarrow> (string \<times> u64) option" where
  "commit_event (Emit (CheckpointCommitted i revision _ _)) = Some (i, revision)"
| "commit_event _ = None"

definition committed :: "'st engine \<Rightarrow> (string \<times> u64) list" where
  "committed e = List.map_filter commit_event (en_log e)"

definition durable :: "'st engine \<Rightarrow> checkpoint \<times> 'st \<times> (string \<times> u64) list" where
  "durable e = (en_current e, en_store e, committed e)"

lemma durable_log:
  "commit_event x = None \<Longrightarrow> en_log e' = en_log e @ [x] \<Longrightarrow> en_current e' = en_current e \<Longrightarrow>
     en_store e' = en_store e \<Longrightarrow> durable e' = durable e"
  by (simp add: durable_def committed_def List.map_filter_def)

lemma durable_updates [simp]:
  "durable (e\<lparr>en_specs := x0\<rparr>) = durable e" "durable (e\<lparr>en_deadline := x1\<rparr>) = durable e"
  "durable (e\<lparr>en_media_queue := x2\<rparr>) = durable e" "durable (e\<lparr>en_media_closed := x3\<rparr>) = durable e"
  "durable (e\<lparr>en_controls := x4\<rparr>) = durable e" "durable (e\<lparr>en_work := x5\<rparr>) = durable e"
  "durable (e\<lparr>en_stashed := x6\<rparr>) = durable e" "durable (e\<lparr>en_session := x7\<rparr>) = durable e"
  "durable (e\<lparr>en_media_input := x8\<rparr>) = durable e" "durable (e\<lparr>en_operation_controls := x9\<rparr>) = durable e"
  "durable (e\<lparr>en_tokens := x10\<rparr>) = durable e" "durable (e\<lparr>en_admitting := x11\<rparr>) = durable e"
  "durable (e\<lparr>en_sent := x12\<rparr>) = durable e" "durable (e\<lparr>en_sending := x13\<rparr>) = durable e"
  "durable (e\<lparr>en_input_sending := x14\<rparr>) = durable e" "durable (e\<lparr>en_held_input := x15\<rparr>) = durable e"
  "durable (e\<lparr>en_ended_streams := x16\<rparr>) = durable e" "durable (e\<lparr>en_media_pending := x17\<rparr>) = durable e"
  "durable (e\<lparr>en_pending_replies := x18\<rparr>) = durable e" "durable (e\<lparr>en_pending_starts := x19\<rparr>) = durable e"
  "durable (e\<lparr>en_session_sequence := x20\<rparr>) = durable e" "durable (e\<lparr>en_ids := x21\<rparr>) = durable e"
  "durable (e\<lparr>en_ticks := x22\<rparr>) = durable e" "durable (e\<lparr>en_polls := x23\<rparr>) = durable e"
  "durable (e\<lparr>en_commits := x24\<rparr>) = durable e"
  by (simp_all add: durable_def committed_def)

lemma durable_outside: "outside e' = outside e \<Longrightarrow> durable e' = durable e"
  by (simp add: durable_def committed_def outside_def)

lemma batch_apply_ids: "batch_apply E b s body e = (r, e') \<Longrightarrow> en_ids e \<le> en_ids e'"
  using batch_apply_quiet unfolding quiet_def by (metis snd_conv)

text \<open>Reports of the queue are taken in; only staging happens.\<close>

lemma collect_more_durable:
  "collect_more E b ws e = (r, e') \<Longrightarrow> durable e' = durable e \<and> en_ids e \<le> en_ids e'"
proof (induction ws arbitrary: b e)
  case Nil
  then show ?case by (auto simp: durable_def committed_def)
next
  case (Cons w ws)
  let ?full = "batch_closed b \<or> lim_max_session_events (ro_limits (cp_options (en_current e))) \<le> sb_events b"
  show ?case
  proof (cases "?full \<or> batchable w = None")
    case True
    then show ?thesis using Cons.prems by (auto simp: durable_def committed_def split: if_splits)
  next
    case False
    then obtain event where event: "batchable w = Some event" by blast
    obtain f e1 where f: "fresh_sequence (sev_sequence event) e = (f, e1)"
      by (cases "fresh_sequence (sev_sequence event) e")
    have e1: "durable e1 = durable e" "en_ids e1 = en_ids e"
      using fresh_sequence_cases [OF f] by (auto simp: durable_def committed_def)
    obtain br e2 where a: "batch_apply E b (sev_sequence event) (sev_body event) e1 = (br, e2)"
      by (cases "batch_apply E b (sev_sequence event) (sev_body event) e1")
    have e2: "durable e2 = durable e" "en_ids e \<le> en_ids e2"
      using durable_outside [OF batch_apply_outside [OF a]] batch_apply_ids [OF a] e1 by simp_all
    have work: "durable (x\<lparr>en_work := ws\<rparr>) = durable x" for x :: "'a engine"
      by (simp add: durable_def committed_def)
    consider (error) err where "f = Inl err" | (seen) "f = Inr False" | (new) "f = Inr True"
      by (cases f) (metis (full_types))+
    then show ?thesis
    proof cases
      case seen
      then show ?thesis using Cons.prems Cons.IH False event f e1 by fastforce
    next
      case new
      then show ?thesis
        using Cons.prems Cons.IH [of _ e2] False event f a e2 work by (cases br) fastforce+
    qed (use Cons.prems False event f e1 work in auto)
  qed
qed

lemma collect_durable:
  assumes "collect E b s body e = (r, e')"
  shows "durable e' = durable e \<and> en_ids e \<le> en_ids e'"
proof -
  obtain br e1 where a: "batch_apply E b s body e = (br, e1)" by (cases "batch_apply E b s body e")
  have "durable e1 = durable e" "en_ids e \<le> en_ids e1"
    using durable_outside [OF batch_apply_outside [OF a]] batch_apply_ids [OF a] by simp_all
  then show ?thesis
    using assms a by (cases br) (auto simp: collect_def dest!: collect_more_durable)
qed

section \<open>The engine keeps what a commit keeps\<close>

locale commit_invariant =
  fixes E :: "'st kernel_env" and Q :: "'st engine \<Rightarrow> bool"
  assumes Q_durable: "durable e' = durable e \<Longrightarrow> en_ids e \<le> en_ids e' \<Longrightarrow> Q e \<Longrightarrow> Q e'"
    and Q_commit: "sound Q (e_commit E next what delta)"
begin

lemma quiet_sound:
  assumes "quiet m"
  shows "sound Q m"
proof -
  have "Q (snd (m e))" if "Q e" for e
    using assms that Q_durable [OF durable_outside, of "snd (m e)" e] by (simp add: quiet_def)
  then show ?thesis by (simp add: sound_def)
qed

lemma sound_modify [sound_intros]:
  "(\<And>e. durable (g e) = durable e) \<Longrightarrow> (\<And>e. en_ids (g e) = en_ids e) \<Longrightarrow> sound Q (e_modify g)"
  using Q_durable by (auto simp: sound_def)

lemma sound_new_id [sound_intros]: "sound Q (e_new_id E)"
  using Q_durable by (auto simp: sound_def)

lemma sound_log [sound_intros]: "commit_event x = None \<Longrightarrow> sound Q (e_log x)"
  unfolding e_log_def by (rule sound_modify) (auto intro: durable_log)

lemma sound_check [sound_intros]: "sound Q (e_check E)"
proof -
  have "Q (snd (e_check E e))" if "Q e" for e
  proof -
    obtain t p where "snd (e_check E e) = e\<lparr>en_ticks := t, en_polls := p\<rparr>" using e_check_frame by blast
    then show ?thesis using that by (auto intro: Q_durable [of _ e])
  qed
  then show ?thesis by (simp add: sound_def)
qed

lemmas sound_commit [sound_intros] = Q_commit

lemma sound_suspend [sound_intros]: "sound Q (e_suspend E reason)"
  unfolding e_suspend_def by (intro sound_intros)

text \<open>Operations.\<close>

lemma sound_finish_local: "sound Q (finish_local E i op name outcome s)"
  unfolding finish_local_def Let_def by (intro sound_intros) simp_all

lemma sound_finish_provider: "sound Q (finish_provider E op outcome s)"
proof -
  have call: "sound Q (case x of Some (Assistant items _) \<Rightarrow> f items | _ \<Rightarrow> e_fail err)"
    if "\<And>items. sound Q (f items)" for x f err
    using that by (auto simp: sound_fail split: option.split message.split)
  show ?thesis unfolding finish_provider_def Let_def by (intro sound_get call sound_intros)
qed

lemma sound_finish_at [sound_intros]: "sound Q (finish_at E i outcome s)"
proof -
  have "sound Q (case op_owner op of
      OwnerRuntimeTool name \<Rightarrow> finish_local E i op (Some name) outcome s
    | OwnerDelegation \<Rightarrow> finish_local E i op None outcome s
    | OwnerProvider _ \<Rightarrow> finish_provider E op outcome s)" for op
    by (cases "op_owner op") (simp_all add: sound_finish_local sound_finish_provider)
  then show ?thesis unfolding finish_at_def Let_def by (intro sound_intros)
qed

lemma sound_finish [sound_intros]: "sound Q (finish E i outcome)"
  unfolding finish_def by (rule sound_finish_at)

lemma sound_local_update [sound_intros]: "sound Q (local_operation_update E i state wait)"
  unfolding local_operation_update_def by (intro sound_intros)

lemma sound_unknown [sound_intros]: "sound Q (unknown E i reason)"
  unfolding unknown_def by (rule sound_local_update)

lemma sound_event_step [sound_intros]: "sound Q (operation_event_step E i event)"
proof -
  have ctx: "sound Q (delegation_context E i event content)" for content
    unfolding delegation_context_def by (intro sound_intros)
  have update: "sound Q (apply_update E i event)"
    unfolding apply_update_def
    by (intro sound_intros; cases "oe_update event"; simp only: operation_update.case)
       (intro sound_intros; simp)+
  have late: "sound Q (case x of Some r \<Rightarrow> e_lift r | None \<Rightarrow> m)" if "sound Q m"
    for x and m :: "('st engine, unit) exec"
    using that by (cases x) (simp_all add: sound_lift)
  show ?thesis
    unfolding operation_event_step_def
    by (cases "oe_update event"; simp only: operation_update.case)
       (intro sound_get late ctx update sound_finish_at)+
qed

lemma sound_install [sound_intros]: "sound Q (install_operation E i recovery)"
  unfolding install_operation_def by (intro sound_intros) simp_all

text \<open>Commands.\<close>

lemma sound_archive_media: "sound Q (archive_media E c key sealed complete)"
  unfolding archive_media_def by (intro sound_intros)

lemma sound_prepare_next: "sound Q (prepare_next E intent c)"
proof -
  have retire: "sound Q (retire_media E ks c)" for ks c
  proof (induction ks arbitrary: c)
    case (Cons k ks)
    then show ?case
      by (cases k) (simp only: retire_media.simps, intro sound_intros sound_archive_media Cons)
  qed (simp add: sound_def)
  show ?thesis
    unfolding prepare_next_def Let_def
    by (cases intent; simp only: command_intent.case) (intro sound_intros retire)+
qed

lemma sound_prepare_command [sound_intros]: "sound Q (prepare_command E intent)"
proof -
  have ended: "durable (fold ended_stream ks e) = durable e" "en_ids (fold ended_stream ks e) = en_ids e"
    for ks and e :: "'st engine"
    by (induction ks arbitrary: e) (auto simp: ended_stream_def)
  show ?thesis
    unfolding prepare_command_def commit_command_def
    by (intro sound_intros sound_prepare_next) (simp_all add: ended)
qed

lemma sound_dispatch [sound_intros]: "sound Q (dispatch_commands E)"
  unfolding dispatch_commands_def dispatch_one_def submit_batch_def Let_def
  by (intro sound_intros) simp_all

text \<open>Session events.\<close>

lemma sound_model_event [sound_intros]: "sound Q (model_event E event)"
proof -
  have fresh: "sound Q (fresh_sequence s)" for s
    unfolding fresh_sequence_def by (intro sound_intros) simp_all
  have seqnote: "sound Q (note_session_sequence E s)" for s
    unfolding note_session_sequence_def by (intro sound_intros)
  have provider: "sound Q (provider_event E s origin oe)" for s origin oe
    unfolding provider_event_def
    by (intro sound_intros seqnote; cases "oe_update oe"; simp only: operation_update.case)
       (intro sound_intros seqnote)+
  have cb: "sound Q (commit_batch E b)" for b
    unfolding commit_batch_def
    by (cases "sb_staged b"; cases "sb_sequence b"; simp only: prod.case option.case) (intro sound_intros)+
  have batch: "sound Q (model_batch E event)"
  proof (rule soundI)
    fix e r e' assume Q: "Q e" and run: "model_batch E event e = (r, e')"
    obtain staged b e1 where c: "collect E batch_default (sev_sequence event) (sev_body event) e = ((staged, b), e1)"
      by (metis prod.collapse)
    have "Q e1" using Q_durable collect_durable [OF c] Q by blast
    moreover have "sound Q (e_then (commit_batch E b) (e_then (e_lift staged)
      (e_then (if sb_seal_user_input b then e_modify (\<lambda>e. e\<lparr>en_media_closed := True\<rparr>) else e_return ())
        (if sb_suspend b then e_suspend E WaitRecovery else e_return ()))))"
      by (intro sound_intros cb) simp_all
    ultimately show "Q e' \<or> (\<exists>err. r = Inl err \<and> error_fatal err)"
      using soundD run by (fastforce simp: model_batch_def c)
  qed
  show ?thesis
    unfolding model_event_def
    by (intro sound_intros fresh; cases "sev_body event"; simp only: session_event_body.case)
       (intro provider batch sound_log; simp)+
qed

text \<open>Controls and recovery.\<close>

lemma sound_insert_message [sound_intros]: "sound Q (insert_message E m source)"
  unfolding insert_message_def Let_def by (intro sound_intros)

lemma sound_resolve [sound_intros]: "sound Q (resolve E r)"
  by (cases r; simp only: resolve.simps abandon_generation_def attach_operation_def Let_def)
     (intro sound_intros)+

lemma sound_control_result: "sound Q (control_result E body)"
  by (cases body; simp only: control_result.simps pause_run_def update_profile_def interrupt_output_def
        flush_input_def set_input_audio_def cancel_operation_def cancel_running_def reply_operation_def)
     (intro sound_intros; simp)+

lemma sound_control [sound_intros]: "sound Q (control E body)"
proof (rule soundI)
  fix e r e' assume Q: "Q e" and run: "control E body e = (r, e')"
  obtain s e1 where c: "control_result E body e = (s, e1)" by (cases "control_result E body e")
  have log: "Q (e1\<lparr>en_log := en_log e1 @ [AnswerControl x]\<rparr>)" if "Q e1" for x
    by (rule Q_durable [OF durable_log [of "AnswerControl x"] _ that]) simp_all
  show "Q e' \<or> (\<exists>err. r = Inl err \<and> error_fatal err)"
    using soundD [OF sound_control_result Q c] run log
    by (cases s) (auto simp: control_def c fail_if_def)
qed

lemma sound_apply_recovery [sound_intros]: "sound Q (apply_recovery E request)"
  unfolding apply_recovery_def by (cases request; simp only: request.case) (intro sound_intros)+

text \<open>Admission.\<close>

lemma sound_pend_start [sound_intros]: "sound Q (pend_start i)"
  unfolding pend_start_def by (intro sound_intros) simp_all

lemma sound_spawn_tool [sound_intros]: "sound Q (spawn_tool E i recovery)"
  unfolding spawn_tool_def by (intro sound_intros) simp

lemma sound_start_delegation [sound_intros]: "sound Q (start_delegation E record)"
  unfolding start_delegation_def by (intro sound_intros) simp

lemma sound_admit_calls [sound_intros]: "sound Q (admit_calls E specs parallel running cands selected acc calls)"
proof (induction calls arbitrary: selected acc)
  case (Cons call calls)
  have admit: "sound Q (admit_call E specs parallel running started i c)" for started i c
    unfolding admit_call_def by (intro sound_intros) simp_all
  have step: "sound Q (case a of
      AdmitSkip \<Rightarrow> admit_calls E specs parallel running cands (rtc_id call # selected) acc calls
    | AdmitStop \<Rightarrow> e_return acc
    | AdmitCall spec \<Rightarrow> admit_calls E specs parallel running cands (rtc_id call # selected)
        (fst acc @ [(rtc_id call, spec)], snd acc @ [\<lparr>ar_call = x, ar_spec = spec\<rparr>]) calls)" for a x
    by (cases a) (simp_all only: admission.case Cons.IH sound_return)
  show ?case unfolding admit_calls.simps by (intro sound_intros admit step)
qed (simp add: sound_def)

lemma sound_admit [sound_intros]: "sound Q (admit E)"
  unfolding admit_def admit_tools_def Let_def by (intro sound_intros) simp

lemma sound_limit_run [sound_intros]: "sound Q (limit_run E reason)"
  unfolding limit_run_def by (intro sound_intros)

lemma sound_admit_decided [sound_intros]: "sound Q (admit_decided E ds)"
proof (induction ds)
  case (Cons d ds)
  obtain i decision where d: "d = (i, decision)" by (cases d)
  show ?case
    unfolding d admit_decided.simps
    by (cases decision; simp only: approval_decision.case start_running_def) (intro sound_intros Cons.IH)+
qed (simp add: sound_def)

lemma sound_admitted [sound_intros]: "sound Q (admitted E bound decided)"
  unfolding admitted_def by (intro sound_intros) simp_all

lemma sound_recover_operations [sound_intros]: "sound Q (recover_operations E)"
proof -
  have "sound Q (recover_operation E r)" for r
    unfolding recover_operation_def
    by (cases "op_owner r"; simp only: operation_owner.case) (intro sound_intros; simp)+
  then show ?thesis unfolding recover_operations_def by (intro sound_intros)
qed

text \<open>The session and its media.\<close>

lemma sound_generate [sound_intros]: "sound Q (generate E)"
  unfolding generate_def rewrite_history_def request_generation_def by (intro sound_intros)

lemma sound_serve_opening [sound_intros]: "sound Q (serve_opening E steps)"
proof (induction steps)
  case (Cons step steps)
  then show ?case
    by (cases step; simp only: serve_opening.simps) (intro sound_intros Cons.IH)+
qed (simp add: sound_def)

lemma sound_open_catalog [sound_intros]: "sound Q (open_catalog E steps)"
  unfolding open_catalog_def by (intro sound_intros) simp_all

lemma sound_open_model [sound_intros]: "sound Q (open_model E steps)"
proof -
  have install: "sound Q (install_session E request opened)" for request opened
    unfolding install_session_def start_media_output_def Let_def by (intro sound_intros) simp_all
  have failed: "sound Q (case err of Uncertain _ \<Rightarrow> e_suspend E WaitRecovery | _ \<Rightarrow> e_fail err)" for err
    by (cases err) (simp_all add: sound_suspend sound_fail)
  show ?thesis
    unfolding open_model_def open_result_def Let_def by (intro sound_intros install failed)
qed

lemma sound_read_archive: "sound Q (read_archive E n r)"
proof (induction n arbitrary: r)
  case (Suc n)
  show ?case
    by (cases r; simp only: read_archive.simps) (intro sound_intros Suc)+
next
  case 0
  show ?case by (cases r; simp only: read_archive.simps) (intro sound_intros)+
qed

lemma sound_seal_cursor [sound_intros]: "sound Q (seal_cursor E direction segment reference)"
proof -
  have fresh: "sound Q (ensure_new_stream E key)" for key
    unfolding ensure_new_stream_def by (intro sound_intros sound_read_archive) simp_all
  have seal: "sound Q (seal_next E key segment reference c)" for key c
    unfolding seal_next_def by (intro sound_intros sound_archive_media)
  show ?thesis
    unfolding seal_cursor_def Let_def
    by (intro sound_intros fresh seal) (simp_all add: ended_stream_def)
qed

lemma sound_input_media [sound_intros]: "sound Q (input_media E first)"
  unfolding input_media_def Let_def by (intro sound_intros) simp_all

text \<open>Reports.\<close>

lemma sound_start_failed: "sound Q (start_failed E i err)"
  unfolding start_failed_def Let_def
  by (intro sound_get; cases err; simp only: error.case) (intro sound_intros)+

lemma sound_sent_back:
  "(\<And>e. durable (g e) = durable e) \<Longrightarrow> (\<And>e. en_ids (g e) = en_ids e) \<Longrightarrow> sound Q (sent_back E g result)"
  unfolding sent_back_def by (intro sound_intros)

lemma sound_handle [sound_intros]: "sound Q (handle E w)"
proof -
  have ready: "sound Q (segment_ready E direction valid segment reference)" for direction valid segment reference
    unfolding segment_ready_def by (intro sound_intros) simp
  have model: "sound Q (handle_work E (WModel r))" for r
    by (cases r rule: sum.exhaust; simp only: handle_work.simps model_failed_def)
       (rule sound_get sound_if | intro sound_intros |
        (rename_tac x; case_tac x; simp only: handle_work.simps; intro sound_intros))+
  have started: "sound Q (handle_work E (WStarted i r))" for i r
    by (cases r rule: sum.exhaust; simp only: handle_work.simps)
       (rule sound_start_failed |
        (rename_tac x; case_tac x; simp only: handle_work.simps; intro sound_intros))+
  have operation: "sound Q (handle_work E (WOperation i r))" for i r
    by (cases "(E, WOperation i r)" rule: handle_work.cases; simp only: handle_work.simps prod.inject work.inject)
       (intro sound_intros | simp)+
  have "sound Q (handle_work E w)"
    by (cases w; simp only: model started operation)
       (simp only: handle_work.simps reply_done_def, (intro sound_intros ready sound_sent_back; simp))+
  then show ?thesis unfolding handle_def by (intro sound_intros) simp_all
qed

section \<open>The loop\<close>

lemma sound_advance [sound_intros]: "sound Q (advance E)"
  unfolding advance_def advance_work_def finish_or_drain_def complete_run_def Let_def
  by (intro sound_intros)

lemma sound_pass [sound_intros]: "sound Q (pass E)"
  unfolding pass_def by (intro sound_intros)

lemma sound_start_up: "sound Q (start_up E catalog_steps model_steps request)"
  unfolding start_up_def while_active_def by (intro sound_intros)

lemma receive_keeps:
  assumes Q: "Q e" and run: "receive_work E e = Some (r, e')"
  shows "Q e' \<or> (\<exists>err. r = Inl err \<and> error_fatal err)"
proof (rule ccontr)
  assume not: "\<not> ?thesis"
  have run: "sound Q m \<Longrightarrow> m x \<noteq> (r, e')" if "durable x = durable e" "en_ids x = en_ids e"
    for x and m :: "('st engine, unit) exec"
    using that Q_durable [of x e] Q soundD [of Q m x] not by auto
  have "handle E w x \<noteq> (r, e')" "input_media E p x \<noteq> (r, e')" "control E body x \<noteq> (r, e')"
    if "durable x = durable e" "en_ids x = en_ids e" for x w p body
    by (rule run [OF that], intro sound_intros)+
  then show False
    using assms(2) by (auto simp: receive_work_def split: option.splits if_splits list.splits)
qed

text \<open>The states of the loop: the property holds, or the run ended with a fatal error.\<close>

definition kept :: "phase \<times> 'st engine \<Rightarrow> bool" where
  "kept s \<longleftrightarrow> Q (snd s) \<or> (\<exists>err. fst s = Ended (Inl err) \<and> error_fatal err)"

lemma step_keeps: "step E s t \<Longrightarrow> kept s \<Longrightarrow> kept t"
proof (induction rule: step.induct)
  case (step_pass e r e')
  then have "Q e" by (simp add: kept_def)
  then show ?case
    using soundD [OF sound_pass _ step_pass.hyps(2)] by (auto simp: kept_def after_pass_def)
next
  case (step_receive e r e')
  then have "Q e" by (simp add: kept_def)
  then show ?case
    using receive_keeps [OF _ step_receive.hyps] by (auto simp: kept_def after_receive_def)
next
  case (step_arrives e e' p)
  then have "durable e' = durable e" "en_ids e' = en_ids e" by (auto elim: arrives.cases)
  then show ?case using step_arrives.prems Q_durable [of e' e] by (auto simp: kept_def)
qed (auto simp: kept_def)

lemma reaches_keeps: "reaches E s t \<Longrightarrow> kept s \<Longrightarrow> kept t"
  by (induction rule: reaches.induct) (auto intro: step_keeps)

text \<open>From the engine that \<open>execute\<close> builds to any state of its loop.\<close>

lemma run_keeps:
  assumes "Q e0" and "start_up E cs ms request e0 = (Inr (), e)" and "reaches E (Passing, e) (p, e')"
  shows "Q e' \<or> (\<exists>err. p = Ended (Inl err) \<and> error_fatal err)"
proof -
  have "Q e" using sound_Inr [OF sound_start_up assms(1,2)] .
  then show ?thesis using reaches_keeps [OF assms(3)] by (simp add: kept_def)
qed

end

end
