(* ===== verification/Stores.thy ===== *)
theory Stores
  imports Integrity
begin

text \<open>
  The contract of \<open>RunStore\<close> (\<open>storage/mod.rs\<close>) as a specification on the heads and commit identities
  a client can observe, the locale \<open>run_store\<close> that states what an implementation promises, and the
  two stores kept in memory: \<open>MemoryRunStore\<close> (\<open>zhir-storage/src/memory.rs\<close>) and the \<open>Ephemeral\<close>
  store of the kernel (\<open>zhir-kernel/src/defaults/store.rs\<close>). The lemmas of the locale are what a client
  relies on: a repeated commit is accepted and changes nothing, of two commits that expect the same
  revision one is refused, and the identities of a run are as many as the revisions of its head.
\<close>

section \<open>The specification\<close>

record store_view =
  sv_head :: "string \<Rightarrow> checkpoint option"
  sv_seen :: "string \<times> string \<Rightarrow> string option"

definition commit_run :: "commit \<Rightarrow> string" where
  "commit_run c = rc_run_id (cp_context (cm_checkpoint c))"

definition commit_key :: "commit \<Rightarrow> string \<times> string" where
  "commit_key c = (commit_run c, cp_id (cm_checkpoint c))"

definition view_put :: "commit \<Rightarrow> string \<Rightarrow> store_view \<Rightarrow> store_view" where
  "view_put c digest v = \<lparr>sv_head = (sv_head v)(commit_run c \<mapsto> cm_checkpoint c),
                          sv_seen = (sv_seen v)(commit_key c \<mapsto> digest)\<rparr>"

definition spec_commit :: "externals \<Rightarrow> store_view \<Rightarrow> commit \<Rightarrow> store_view result" where
  "spec_commit X v c = r_bind (commit_digest X c) (\<lambda>digest.
     case sv_seen v (commit_key c) of
       Some old \<Rightarrow> (if old = digest then Inr v else Inl (Storage ''checkpoint id reused''))
     | None \<Rightarrow> r_bind (validate_against X c (map_option core_of (sv_head v (commit_run c))))
                (\<lambda>_. Inr (view_put c digest v)))"

definition spec_delete :: "string \<Rightarrow> store_view \<Rightarrow> store_view" where
  "spec_delete run v = \<lparr>sv_head = (sv_head v)(run := None),
                        sv_seen = (\<lambda>k. if fst k = run then None else sv_seen v k)\<rparr>"

definition empty_view :: store_view where
  "empty_view = \<lparr>sv_head = Map.empty, sv_seen = Map.empty\<rparr>"

text \<open>
  What the specification keeps: the head of a run is a valid checkpoint of that run, a run without a
  head has no identities, and a run has one identity per revision up to its head.
\<close>

definition run_ids :: "store_view \<Rightarrow> string \<Rightarrow> string set" where
  "run_ids v run = {i. sv_seen v (run, i) \<noteq> None}"

definition linear_at :: "store_view \<Rightarrow> string \<Rightarrow> bool" where
  "linear_at v run = (case sv_head v run of
       None \<Rightarrow> run_ids v run = {}
     | Some c \<Rightarrow> rc_run_id (cp_context c) = run \<and> checkpoint_validate c = Inr ()
         \<and> finite (run_ids v run) \<and> card (run_ids v run) = unat (cp_revision c) + 1)"

definition linear :: "store_view \<Rightarrow> bool" where
  "linear v \<longleftrightarrow> (\<forall>run. linear_at v run)"

lemma linear_empty: "linear empty_view"
  by (simp add: linear_def linear_at_def empty_view_def run_ids_def)

lemma linear_at_cong:
  "sv_head v' run = sv_head v run \<Longrightarrow> run_ids v' run = run_ids v run \<Longrightarrow> linear_at v' run = linear_at v run"
  by (simp add: linear_at_def split: option.split)

lemma linear_delete: "linear v \<Longrightarrow> linear (spec_delete run v)"
proof -
  assume "linear v"
  then have "linear_at (spec_delete run v) run'" for run'
  proof (cases "run' = run")
    case True
    then show ?thesis by (simp add: linear_at_def spec_delete_def run_ids_def)
  next
    case False
    then have "linear_at (spec_delete run v) run' = linear_at v run'"
      by (intro linear_at_cong) (simp_all add: spec_delete_def run_ids_def)
    then show ?thesis using \<open>linear v\<close> by (simp add: linear_def)
  qed
  then show ?thesis by (simp add: linear_def)
qed

lemma spec_commit_cases:
  assumes "spec_commit X v c = Inr v'"
  obtains (again) digest where "commit_digest X c = Inr digest" "sv_seen v (commit_key c) = Some digest" "v' = v"
  | (fresh) digest where "commit_digest X c = Inr digest" "sv_seen v (commit_key c) = None"
      "validate_against X c (map_option core_of (sv_head v (commit_run c))) = Inr ()"
      "v' = view_put c digest v"
  using assms by (auto simp: spec_commit_def r_bind_Inr split: option.splits if_splits)

lemma run_ids_put:
  "run_ids (view_put c digest v) run =
     (if run = commit_run c then insert (cp_id (cm_checkpoint c)) (run_ids v run) else run_ids v run)"
  by (auto simp: run_ids_def view_put_def commit_key_def)

lemma linear_commit:
  assumes lin: "linear v" and step: "spec_commit X v c = Inr v'"
  shows "linear v'"
  using step
proof (cases rule: spec_commit_cases)
  case again
  then show ?thesis using lin by simp
next
  case (fresh digest)
  let ?run = "commit_run c" and ?c = "cm_checkpoint c"
  have new: "cp_id ?c \<notin> run_ids v ?run"
    using fresh(2) by (simp add: run_ids_def commit_key_def)
  have valid: "checkpoint_validate ?c = Inr ()" using accepted_valid [OF fresh(3)] .
  have count: "finite (run_ids v ?run) \<and> card (run_ids v ?run) = unat (cp_revision ?c)"
  proof (cases "sv_head v ?run")
    case None
    then have "run_ids v ?run = {}" using lin spec [of "linear_at v" ?run]
      by (simp add: linear_def linear_at_def)
    then show ?thesis using fresh(3) None accepted_initial(1) [of X c] by simp
  next
    case (Some p)
    then have "validate_against X c (Some (core_of p)) = Inr ()" using fresh(3) by simp
    moreover have "linear_at v ?run" using lin by (simp add: linear_def)
    ultimately show ?thesis
      using accepted_revision_step(2) [of X c "core_of p"] Some by (simp add: linear_at_def)
  qed
  have "linear_at (view_put c digest v) run" for run
  proof (cases "run = ?run")
    case True
    have "sv_head (view_put c digest v) ?run = Some ?c" by (simp add: view_put_def)
    then show ?thesis using count new valid True by (simp add: linear_at_def run_ids_put) (simp add: commit_run_def)
  next
    case False
    then have "linear_at (view_put c digest v) run = linear_at v run"
      by (intro linear_at_cong) (simp_all add: run_ids_put, simp add: view_put_def)
    then show ?thesis using lin by (simp add: linear_def)
  qed
  then show ?thesis unfolding fresh(4) linear_def by blast
qed

section \<open>The interface\<close>

text \<open>
  \<open>inv\<close> is the representation invariant, \<open>scope\<close> the commits an implementation answers for in a
  state: the ephemeral store holds one run, a database stores the delta it is handed and not the
  checkpoint's own history.
\<close>

locale run_store =
  fixes X :: externals
    and commit :: "nat \<Rightarrow> 'st \<Rightarrow> commit \<Rightarrow> unit result \<times> 'st"
    and load :: "'st \<Rightarrow> string \<Rightarrow> checkpoint option result"
    and delete :: "string \<Rightarrow> 'st \<Rightarrow> unit result \<times> 'st"
    and view :: "'st \<Rightarrow> store_view"
    and inv :: "'st \<Rightarrow> bool"
    and scope :: "'st \<Rightarrow> commit \<Rightarrow> bool"
  assumes commit_ok: "inv st \<Longrightarrow> scope st c \<Longrightarrow> commit now st c = (Inr (), st') \<Longrightarrow>
      spec_commit X (view st) c = Inr (view st')"
    and commit_err: "inv st \<Longrightarrow> scope st c \<Longrightarrow> commit now st c = (Inl e, st') \<Longrightarrow> st' = st"
    and commit_live: "inv st \<Longrightarrow> scope st c \<Longrightarrow> cm_deadline c = None \<Longrightarrow>
      spec_commit X (view st) c = Inr v \<Longrightarrow> \<exists>st'. commit now st c = (Inr (), st')"
    and commit_inv: "inv st \<Longrightarrow> scope st c \<Longrightarrow> commit now st c = (r, st') \<Longrightarrow> inv st'"
    and load_head: "inv st \<Longrightarrow> load st run = Inr (sv_head (view st) run)"
    and delete_ok: "inv st \<Longrightarrow> \<exists>st'. delete run st = (Inr (), st') \<and> view st' = spec_delete run (view st) \<and> inv st'"
begin

lemma commit_view:
  assumes "inv st" and "scope st c" and "commit now st c = (r, st')"
  shows "view st' = view st \<or> spec_commit X (view st) c = Inr (view st')"
proof (cases r)
  case (Inl e)
  then show ?thesis using commit_err [OF assms(1,2)] assms(3) by blast
next
  case (Inr u)
  then show ?thesis using commit_ok [OF assms(1,2)] assms(3) by simp
qed

lemma linear_kept:
  assumes "inv st" and "scope st c" and "commit now st c = (r, st')" and "linear (view st)"
  shows "linear (view st')"
  using commit_view [OF assms(1-3)] linear_commit assms(4) by metis

text \<open>A commit that was accepted can be repeated.\<close>

lemma commit_repeat:
  assumes inv: "inv st" and scope: "scope st c" "scope st' c" and nodl: "cm_deadline c = None"
    and ok: "commit now st c = (Inr (), st')"
  shows "\<exists>st''. commit now' st' c = (Inr (), st'') \<and> view st'' = view st'"
proof -
  have inv': "inv st'" using commit_inv [OF inv scope(1) ok] .
  obtain digest where digest: "commit_digest X c = Inr digest"
    "sv_seen (view st') (commit_key c) = Some digest"
    using commit_ok [OF inv scope(1) ok]
    by (cases rule: spec_commit_cases) (auto simp: view_put_def)
  then have again: "spec_commit X (view st') c = Inr (view st')"
    by (simp add: spec_commit_def)
  then obtain st'' where st'': "commit now' st' c = (Inr (), st'')"
    using commit_live [OF inv' scope(2) nodl] by blast
  have "view st'' = view st'" using commit_ok [OF inv' scope(2) st''] again by simp
  then show ?thesis using st'' by blast
qed

text \<open>
  Compare and set: once a new commit is accepted, another new one that expects the same revision of
  the run is refused.
\<close>

lemma commit_excludes:
  assumes inv: "inv st" and scope: "scope st a" "scope st' b"
    and fresh: "sv_seen (view st) (commit_key a) = None" "sv_seen (view st') (commit_key b) = None"
    and run: "commit_run a = commit_run b" and same: "expected_revision a = expected_revision b"
    and ok: "commit now st a = (Inr (), st')"
  shows "\<exists>e. commit now' st' b = (Inl e, st')"
proof (rule ccontr)
  have inv': "inv st'" using commit_inv [OF inv scope(1) ok] .
  obtain digest where view': "view st' = view_put a digest (view st)"
    and va: "validate_against X a (map_option core_of (sv_head (view st) (commit_run a))) = Inr ()"
    using commit_ok [OF inv scope(1) ok] fresh(1) by (cases rule: spec_commit_cases) auto
  assume "\<nexists>e. commit now' st' b = (Inl e, st')"
  then obtain st'' where "commit now' st' b = (Inr (), st'')"
    using commit_err [OF inv' scope(2)] by (cases "commit now' st' b"; cases "fst (commit now' st' b)") auto
  from commit_ok [OF inv' scope(2) this] fresh(2)
  have "validate_against X b (map_option core_of (sv_head (view st') (commit_run b))) = Inr ()"
    by (cases rule: spec_commit_cases) auto
  then have b: "validate_against X b (Some (core_of (cm_checkpoint a))) = Inr ()"
    by (simp add: view' view_put_def run)
  have "Some (cp_revision (cm_checkpoint a)) = expected_revision a"
    using accepted_revision [OF b] same by simp
  then show False
    by (auto simp: expected_revision_def u64_checked_sub_def word_le_nat_alt split: if_splits)
qed

text \<open>A sequence of calls by any number of writers, in the order the store serves them.\<close>

fun serve :: "(nat \<times> commit) list \<Rightarrow> 'st \<Rightarrow> 'st" where
  "serve [] st = st"
| "serve ((now, c) # cs) st = serve cs (snd (commit now st c))"

lemma serve_linear:
  assumes "inv st" and "linear (view st)" and "\<And>st c. inv st \<Longrightarrow> c \<in> snd ` set cs \<Longrightarrow> scope st c"
  shows "inv (serve cs st) \<and> linear (view (serve cs st))"
  using assms
proof (induction cs arbitrary: st)
  case (Cons nc cs)
  obtain now c where nc: "nc = (now, c)" by (cases nc)
  obtain r st' where st': "commit now st c = (r, st')" by (cases "commit now st c")
  have "scope st c" using Cons.prems nc by simp
  then have "inv st'" "linear (view st')"
    using commit_inv linear_kept Cons.prems(1,2) st' by blast+
  then show ?case using Cons.IH [of st'] Cons.prems(3) nc st' by simp
qed simp

end

section \<open>MemoryRunStore\<close>

record mem_store =
  ms_heads :: "string \<rightharpoonup> checkpoint"
  ms_ids :: "string \<times> string \<rightharpoonup> string"

definition mem_new :: mem_store where
  "mem_new = \<lparr>ms_heads = Map.empty, ms_ids = Map.empty\<rparr>"

definition mem_commit :: "externals \<Rightarrow> nat \<Rightarrow> mem_store \<Rightarrow> commit \<Rightarrow> unit result \<times> mem_store" where
  "mem_commit X now st c = (case commit_digest X c of
       Inl e \<Rightarrow> (Inl e, st)
     | Inr digest \<Rightarrow>
         (let key = (rc_run_id (cp_context (cm_checkpoint c)), cp_id (cm_checkpoint c)) in
          case ms_ids st key of
            Some old \<Rightarrow> (if old = digest then Inr () else Inl (Storage ''checkpoint id reused''), st)
          | None \<Rightarrow>
              (case checks [check_deadline c now,
                            validate_against X c (map_option core_of (ms_heads st (fst key)))] of
                 Inl e \<Rightarrow> (Inl e, st)
               | Inr _ \<Rightarrow> (Inr (), \<lparr>ms_heads = (ms_heads st)(fst key \<mapsto> cm_checkpoint c),
                                    ms_ids = (ms_ids st)(key \<mapsto> digest)\<rparr>))))"

definition mem_load_head :: "mem_store \<Rightarrow> string \<Rightarrow> checkpoint option result" where
  "mem_load_head st run = Inr (ms_heads st run)"

definition mem_delete :: "string \<Rightarrow> mem_store \<Rightarrow> unit result \<times> mem_store" where
  "mem_delete run st = (Inr (), \<lparr>ms_heads = (ms_heads st)(run := None),
     ms_ids = (\<lambda>k. if fst k \<noteq> run then ms_ids st k else None)\<rparr>)"

definition mem_view :: "mem_store \<Rightarrow> store_view" where
  "mem_view st = \<lparr>sv_head = ms_heads st, sv_seen = ms_ids st\<rparr>"

interpretation mem: run_store X "mem_commit X" mem_load_head mem_delete mem_view "\<lambda>_. True" "\<lambda>_ _. True"
  for X
proof
  fix st c now st'
  assume "mem_commit X now st c = (Inr (), st')"
  then show "spec_commit X (mem_view st) c = Inr (mem_view st')"
    by (auto simp: mem_commit_def spec_commit_def mem_view_def commit_key_def commit_run_def
          view_put_def Let_def r_bind_Inl r_bind_Inr split: sum.splits option.splits if_splits)
next
  fix st c now e st'
  assume "mem_commit X now st c = (Inl e, st')"
  then show "st' = st"
    by (auto simp: mem_commit_def Let_def split: sum.splits option.splits if_splits)
next
  fix st c now v
  assume "cm_deadline c = None" and "spec_commit X (mem_view st) c = Inr v"
  then show "\<exists>st'. mem_commit X now st c = (Inr (), st')"
    by (auto elim!: spec_commit_cases
          simp: mem_commit_def mem_view_def commit_key_def commit_run_def check_deadline_def Let_def)
qed (simp_all add: mem_load_head_def mem_delete_def mem_view_def spec_delete_def fun_eq_iff)

section \<open>Ephemeral\<close>

record ephemeral =
  eph_head :: "checkpoint option"
  eph_ids :: "string \<rightharpoonup> string"

text \<open>\<open>None\<close> is the panic of \<open>expect\<close>.\<close>

definition eph_new :: "externals \<Rightarrow> checkpoint option \<Rightarrow> ephemeral option" where
  "eph_new X head = (case head of
       None \<Rightarrow> Some \<lparr>eph_head = None, eph_ids = Map.empty\<rparr>
     | Some c \<Rightarrow> (case core_digest X (core_of c) of
           Inl _ \<Rightarrow> None
         | Inr digest \<Rightarrow> Some \<lparr>eph_head = Some c, eph_ids = [cp_id c \<mapsto> digest]\<rparr>))"

definition eph_commit :: "externals \<Rightarrow> nat \<Rightarrow> ephemeral \<Rightarrow> commit \<Rightarrow> unit result \<times> ephemeral" where
  "eph_commit X now st c = (case commit_digest X c of
       Inl e \<Rightarrow> (Inl e, st)
     | Inr digest \<Rightarrow>
         (case eph_ids st (cp_id (cm_checkpoint c)) of
            Some old \<Rightarrow> (if old = digest then Inr () else Inl (Storage ''checkpoint id reused''), st)
          | None \<Rightarrow>
              (case checks [check_deadline c now,
                            validate_against X c (map_option core_of (eph_head st))] of
                 Inl e \<Rightarrow> (Inl e, st)
               | Inr _ \<Rightarrow> (Inr (), \<lparr>eph_head = Some (cm_checkpoint c),
                                    eph_ids = (eph_ids st)(cp_id (cm_checkpoint c) \<mapsto> digest)\<rparr>))))"

definition eph_load_head :: "ephemeral \<Rightarrow> string \<Rightarrow> checkpoint option result" where
  "eph_load_head st run = Inr (case eph_head st of None \<Rightarrow> None
     | Some c \<Rightarrow> if rc_run_id (cp_context c) = run then Some c else None)"

definition eph_delete :: "string \<Rightarrow> ephemeral \<Rightarrow> unit result \<times> ephemeral" where
  "eph_delete run st =
     (if some_and (\<lambda>c. rc_run_id (cp_context c) = run) (eph_head st)
      then (Inr (), \<lparr>eph_head = None, eph_ids = Map.empty\<rparr>) else (Inr (), st))"

definition eph_runs :: "ephemeral \<Rightarrow> string \<Rightarrow> bool" where
  "eph_runs st run = some_and (\<lambda>c. rc_run_id (cp_context c) = run) (eph_head st)"

definition eph_view :: "ephemeral \<Rightarrow> store_view" where
  "eph_view st = \<lparr>sv_head = (\<lambda>run. if eph_runs st run then eph_head st else None),
                  sv_seen = (\<lambda>(run, i). if eph_runs st run then eph_ids st i else None)\<rparr>"

definition eph_inv :: "ephemeral \<Rightarrow> bool" where
  "eph_inv st \<longleftrightarrow> (eph_head st = None \<longrightarrow> eph_ids st = Map.empty)"

definition eph_scope :: "ephemeral \<Rightarrow> commit \<Rightarrow> bool" where
  "eph_scope st c \<longleftrightarrow> eph_head st = None \<or> eph_runs st (commit_run c)"

lemma eph_new_inv: "eph_new X head = Some st \<Longrightarrow> eph_inv st"
  by (auto simp: eph_new_def eph_inv_def split: option.splits sum.splits)

lemma eph_view_scope:
  assumes "eph_inv st" and "eph_scope st c"
  shows "sv_seen (eph_view st) (commit_key c) = eph_ids st (cp_id (cm_checkpoint c))"
    and "sv_head (eph_view st) (commit_run c) = eph_head st"
  using assms by (auto simp: eph_view_def eph_inv_def eph_scope_def commit_key_def eph_runs_def)

lemma eph_view_put:
  assumes inv: "eph_inv st" "eph_scope st c"
  shows "eph_view \<lparr>eph_head = Some (cm_checkpoint c),
           eph_ids = (eph_ids st)(cp_id (cm_checkpoint c) \<mapsto> digest)\<rparr> = view_put c digest (eph_view st)"
  using assms
  by (auto simp: eph_view_def view_put_def eph_inv_def eph_scope_def commit_key_def commit_run_def
        eph_runs_def fun_eq_iff some_and_def split: option.splits)

interpretation eph: run_store X "eph_commit X" eph_load_head eph_delete eph_view eph_inv eph_scope
  for X
proof
  fix st c now st'
  assume "eph_inv st" "eph_scope st c" "eph_commit X now st c = (Inr (), st')"
  then show "spec_commit X (eph_view st) c = Inr (eph_view st')"
    by (auto simp: eph_commit_def spec_commit_def eph_view_scope eph_view_put r_bind_Inl r_bind_Inr
          split: sum.splits option.splits if_splits)
next
  fix st c now e st'
  assume "eph_commit X now st c = (Inl e, st')"
  then show "st' = st"
    by (auto simp: eph_commit_def split: sum.splits option.splits if_splits)
next
  fix st c now v
  assume "eph_inv st" "eph_scope st c" "cm_deadline c = None" "spec_commit X (eph_view st) c = Inr v"
  then show "\<exists>st'. eph_commit X now st c = (Inr (), st')"
    by (auto elim!: spec_commit_cases simp: eph_commit_def eph_view_scope check_deadline_def)
next
  fix st c now r st'
  assume "eph_inv st" "eph_commit X now st c = (r, st')"
  then show "eph_inv st'"
    by (auto simp: eph_commit_def eph_inv_def split: sum.splits option.splits if_splits)
next
  fix st run
  assume "eph_inv st"
  then show "eph_load_head st run = Inr (sv_head (eph_view st) run)"
    by (auto simp: eph_load_head_def eph_view_def eph_runs_def split: option.splits)
next
  fix st run
  assume "eph_inv st"
  then show "\<exists>st'. eph_delete run st = (Inr (), st') \<and> eph_view st' = spec_delete run (eph_view st)
      \<and> eph_inv st'"
    by (auto simp: eph_delete_def eph_view_def eph_runs_def eph_inv_def spec_delete_def fun_eq_iff
          some_and_def split: option.splits)
qed

end
