(* ===== verification/Engine_Runs.thy ===== *)
theory Engine_Runs
  imports Engine_Invariants Stores
begin

text \<open>
  The engine on a store. \<open>engine_store\<close> is what the engine relies on when it calls \<open>commit\<close>: an
  accepted new checkpoint is valid and becomes the head of its run, a refused one changes nothing,
  and identities are not drawn twice. The engine then never holds a checkpoint that is not the
  durable head of its run, whatever the host, the model and the tools report. Both stores in memory
  are instances; the counted identities of the instances stand for the random ones.
\<close>

section \<open>The sequence of commits\<close>

text \<open>
  Every revision after the one the run began with was announced, in order, and nothing else was; the
  last announcement names the checkpoint the engine holds.
\<close>

definition announced :: "checkpoint \<Rightarrow> 'st engine \<Rightarrow> bool" where
  "announced c0 e \<longleftrightarrow>
     map snd (committed e) = map (\<lambda>k. cp_revision c0 + of_nat (Suc k)) [0 ..< length (committed e)]
     \<and> cp_revision (en_current e) = cp_revision c0 + of_nat (length (committed e))
     \<and> (if committed e = [] then en_current e = c0
        else last (committed e) = (cp_id (en_current e), cp_revision (en_current e)))"

lemma announced_nth:
  "map f xs = map g [0 ..< length xs] \<Longrightarrow> k < length xs \<Longrightarrow> f (xs ! k) = g k"
  by (metis length_map length_upt minus_nat.diff_0 nth_map nth_map_upt plus_nat.add_0)

lemma map_filter_Nil: "(\<And>x. x \<in> set xs \<Longrightarrow> f x = None) \<Longrightarrow> List.map_filter f xs = []"
  by (induction xs) (auto simp: map_filter_simps)

lemma e_commit_committed:
  assumes "e_commit E next what delta e = (r, e')"
  shows "committed e' = committed e @ (case r of Inl _ \<Rightarrow> [] | Inr _ \<Rightarrow> [(cp_id (en_current e'), cp_revision (en_current e'))])"
proof -
  let ?next = "stamp (ke_new_id E (en_ids e)) (en_current e) what next"
  obtain rp ep where p: "persist E ?next delta (e\<lparr>en_ids := en_ids e + 1\<rparr>) = (rp, ep)"
    by (cases "persist E ?next delta (e\<lparr>en_ids := en_ids e + 1\<rparr>)")
  have ep: "en_log ep = en_log e"
    using persist_frame [of E ?next delta "e\<lparr>en_ids := en_ids e + 1\<rparr>"] p by auto
  have changed: "List.map_filter commit_event (changed_operations a b) = []" for a b
    by (rule map_filter_Nil) (auto simp: changed_operations_def)
  show ?thesis
  proof (cases rp)
    case (Inl err)
    then show ?thesis using assms p ep by (auto simp: e_commit_def e_bind_def committed_def)
  next
    case (Inr c)
    then have "c = ?next" using persist_Inr p by blast
    then show ?thesis
      using assms p ep Inr changed
      by (auto simp: e_commit_def e_bind_def committed_def List.map_filter_def)
  qed
qed

interpretation announced: commit_invariant E "announced c0" for E :: "'st kernel_env" and c0
proof
  fix e e' :: "'st engine"
  assume "durable e' = durable e" and "announced c0 e"
  then show "announced c0 e'" by (simp add: announced_def durable_def)
next
  fix c what delta
  show "sound (announced c0) (e_commit E c what delta)"
  proof (rule soundI)
    fix e :: "'st engine" and r e'
    assume a: "announced c0 e" and run: "e_commit E c what delta e = (r, e')"
    have cur: "en_current e' = (case r of Inr _ \<Rightarrow> stamp (ke_new_id E (en_ids e)) (en_current e) what c
        | Inl _ \<Rightarrow> en_current e)"
      by (rule e_commit_current [OF run])
    show "announced c0 e' \<or> (\<exists>err. r = Inl err \<and> error_fatal err)"
      using a cur e_commit_committed [OF run]
      by (cases r) (auto simp: announced_def)
  qed
qed

section \<open>The store behind the engine\<close>

locale engine_store =
  fixes E :: "'st kernel_env"
    and head :: "'st \<Rightarrow> string \<Rightarrow> checkpoint option"
    and seen :: "'st \<Rightarrow> string \<Rightarrow> bool"
    and inv :: "'st \<Rightarrow> bool"
  assumes store_put: "inv st \<Longrightarrow> ke_store_commit E now st c = (Inr (), st')
      \<Longrightarrow> \<not> seen st (cp_id (cm_checkpoint c)) \<Longrightarrow>
      head st' (commit_run c) = Some (cm_checkpoint c)
      \<and> checkpoint_validate (cm_checkpoint c) = Inr ()
      \<and> (\<forall>i. seen st' i \<longrightarrow> seen st i \<or> i = cp_id (cm_checkpoint c)) \<and> inv st'"
    and store_keep: "inv st \<Longrightarrow> ke_store_commit E now st c = (Inl err, st') \<Longrightarrow> st' = st"
    and ids_fresh: "inj (ke_new_id E)"
begin

definition fresh_from :: "nat \<Rightarrow> 'st \<Rightarrow> bool" where
  "fresh_from n st \<longleftrightarrow> (\<forall>m \<ge> n. \<not> seen st (ke_new_id E m))"

definition durable_head :: "'st engine \<Rightarrow> bool" where
  "durable_head e \<longleftrightarrow> inv (en_store e)
     \<and> head (en_store e) (rc_run_id (cp_context (en_current e))) = Some (en_current e)
     \<and> checkpoint_validate (en_current e) = Inr ()
     \<and> fresh_from (en_ids e) (en_store e)"

text \<open>A write of a checkpoint with a fresh identity: made, or refused without effect, or fatal.\<close>

lemma persist_durable:
  assumes inv: "inv (en_store e)" and new: "\<not> seen (en_store e) (cp_id next)"
    and run: "persist E next delta e = (r, e')"
  obtains (put) "r = Inr next" "inv (en_store e')" "checkpoint_validate next = Inr ()"
      "head (en_store e') (rc_run_id (cp_context next)) = Some next"
      "\<And>i. seen (en_store e') i \<Longrightarrow> seen (en_store e) i \<or> i = cp_id next"
  | (refused) err where "r = Inl err" "en_store e' = en_store e"
  | (given_up) err where "r = Inl err" "error_fatal err"
proof -
  let ?c = "(commit_new next delta)\<lparr>cm_deadline := Some (ke_now E (en_ticks e)
      + unat (lim_commit_timeout_ms (ro_limits (cp_options next))))\<rparr>"
  obtain rs st where served: "ke_store_commit E (ke_now E (en_ticks e + 1)) (en_store e) ?c = (rs, st)"
    by fastforce
  have c: "cm_checkpoint ?c = next" "commit_run ?c = rc_run_id (cp_context next)"
    by (simp_all add: commit_new_def commit_run_def)
  show thesis
  proof (cases "ke_commit_fate E (en_commits e)")
    case (Some applied)
    then have "\<exists>err. r = Inl err \<and> error_fatal err" using run by (auto simp: persist_eq Let_def)
    then show thesis using given_up by blast
  next
    case None
    then have r: "r = (case rs of Inl err \<Rightarrow> Inl err | Inr _ \<Rightarrow> Inr next)" "en_store e' = st"
      using run served by (auto simp: persist_eq Let_def)
    show thesis
    proof (cases rs)
      case (Inl err)
      then show thesis using r refused store_keep [OF inv served [unfolded Inl]] by simp
    next
      case (Inr u)
      then have served': "ke_store_commit E (ke_now E (en_ticks e + 1)) (en_store e) ?c = (Inr (), st)"
        using served by simp
      note laws = store_put [OF inv served', unfolded c, OF new]
      then show thesis using r Inr by (intro put) auto
    qed
  qed
qed

lemma fresh_after:
  assumes "fresh_from n st" and "i = ke_new_id E n"
    and "\<And>x. seen st' x \<Longrightarrow> seen st x \<or> x = i"
  shows "fresh_from (n + 1) st'"
  unfolding fresh_from_def
proof (intro allI impI notI)
  fix m
  assume "n + 1 \<le> m" and "seen st' (ke_new_id E m)"
  then have "ke_new_id E m = ke_new_id E n" using assms unfolding fresh_from_def by fastforce
  then show False using inj_eq [OF ids_fresh] \<open>n + 1 \<le> m\<close> by simp
qed

lemma commit_durable_head: "sound durable_head (e_commit E next what delta)"
proof (rule soundI)
  fix e r e'
  assume ok: "durable_head e" and run: "e_commit E next what delta e = (r, e')"
  let ?next = "stamp (ke_new_id E (en_ids e)) (en_current e) what next"
  let ?e = "e\<lparr>en_ids := en_ids e + 1\<rparr>"
  obtain rp ep where p: "persist E ?next delta ?e = (rp, ep)" by (cases "persist E ?next delta ?e")
  have ids: "en_ids ep = en_ids e + 1" "en_current ep = en_current e"
    using persist_frame [of E ?next delta ?e] p by auto
  have inv: "inv (en_store ?e)" and new: "\<not> seen (en_store ?e) (cp_id ?next)"
    and fresh: "fresh_from (en_ids e) (en_store e)"
    using ok by (simp_all add: durable_head_def fresh_from_def)
  from inv new p show "durable_head e' \<or> (\<exists>err. r = Inl err \<and> error_fatal err)"
  proof (cases rule: persist_durable)
    case put
    then have "en_current e' = ?next" "en_store e' = en_store ep" "en_ids e' = en_ids e + 1"
      using run p ids by (auto simp: e_commit_def e_bind_def)
    moreover have "fresh_from (en_ids e + 1) (en_store ep)"
      by (rule fresh_after [OF fresh refl]) (use put(5) in simp)
    ultimately show ?thesis using put by (simp add: durable_head_def)
  next
    case (refused err)
    then have "r = Inl err" "e' = ep" using run p by (simp_all add: e_commit_def e_bind_def)
    moreover have "fresh_from (en_ids e + 1) (en_store e)" using fresh by (simp add: fresh_from_def)
    ultimately show ?thesis using ok ids refused by (simp add: durable_head_def)
  next
    case given_up
    then show ?thesis using run p by (auto simp: e_commit_def e_bind_def)
  qed
qed

lemma start_durable_head:
  assumes inv: "inv st" and fresh: "fresh_from 0 st" and run: "execute_start E st now request = Inr e"
  shows "durable_head e"
proof -
  define deadline where "deadline = run_deadline (ke_now E 0) now (request_context request)"
  obtain c delta where first:
    "first_checkpoint (ke_new_id E) 0 (some_and (\<lambda>d. d \<le> ke_now E 1) deadline) request = (c, delta)"
    by fastforce
  have i: "cp_id c = ke_new_id E 0 \<or> cp_id c = ke_new_id E 1"
    using first by (auto simp: first_checkpoint_def initial_def split: request.splits if_splits)
  let ?e = "engine_new st deadline 2 2 0 c"
  have e: "persist E c delta ?e = (Inr c, e)"
    using run first
    by (auto simp: execute_start_def Let_def deadline_def [symmetric] dest: persist_Inr split: sum.splits prod.splits)
  have store: "en_store ?e = st" "en_current ?e = c" "en_ids ?e = 2" by (simp_all add: engine_new_def)
  have frame: "en_current e = c" "en_ids e = 2"
    using persist_frame [of E c delta ?e] e store by auto
  have new: "inv (en_store ?e)" "\<not> seen (en_store ?e) (cp_id c)"
    using inv fresh i unfolding store fresh_from_def by auto
  from new e show ?thesis
  proof (cases rule: persist_durable)
    case put
    have "fresh_from 2 (en_store e)"
      unfolding fresh_from_def
    proof (intro allI impI notI)
      fix m :: nat
      assume "2 \<le> m" and "seen (en_store e) (ke_new_id E m)"
      then have "ke_new_id E m = cp_id c" using put(5) fresh store unfolding fresh_from_def by fastforce
      then show False using i inj_eq [OF ids_fresh] \<open>2 \<le> m\<close> by auto
    qed
    then show ?thesis using put by (simp add: durable_head_def frame)
  qed simp_all
qed

end

sublocale engine_store \<subseteq> durable: commit_invariant E durable_head
proof
  show "durable e' = durable e \<Longrightarrow> en_ids e \<le> en_ids e' \<Longrightarrow> durable_head e \<Longrightarrow> durable_head e'" for e e'
    by (auto simp: durable_head_def durable_def fresh_from_def)
qed (rule commit_durable_head)

context engine_store begin

text \<open>From the start of a run to any state of its loop, the engine holds the durable head.\<close>

lemma run_durable_head:
  assumes "inv st" and "fresh_from 0 st" and "execute_start E st now request = Inr e0"
    and "start_up E cs ms request e0 = (Inr (), e)" and "reaches E (Passing, e) (p, e')"
  shows "(head (en_store e') (rc_run_id (cp_context (en_current e'))) = Some (en_current e')
      \<and> checkpoint_validate (en_current e') = Inr ())
    \<or> (\<exists>err. p = Ended (Inl err) \<and> error_fatal err)"
  using durable.run_keeps [OF start_durable_head [OF assms(1-3)] assms(4,5)] by (auto simp: durable_head_def)

end

section \<open>The two stores in memory behind the engine\<close>

definition counted_id :: "nat \<Rightarrow> string" where
  "counted_id n = ''id-'' @ dec n"

lemma counted_id_inj: "inj counted_id"
  by (simp add: inj_def counted_id_def)

definition on_memory :: "mem_store kernel_env \<Rightarrow> mem_store kernel_env" where
  "on_memory E = E\<lparr>ke_store_commit := mem_commit (ke_ext E), ke_new_id := counted_id\<rparr>"

definition on_ephemeral :: "ephemeral kernel_env \<Rightarrow> ephemeral kernel_env" where
  "on_ephemeral E = E\<lparr>ke_store_commit := eph_commit (ke_ext E), ke_new_id := counted_id\<rparr>"

definition mem_used :: "mem_store \<Rightarrow> string \<Rightarrow> bool" where
  "mem_used st i \<longleftrightarrow> (\<exists>run. ms_ids st (run, i) \<noteq> None)"

definition eph_used :: "ephemeral \<Rightarrow> string \<Rightarrow> bool" where
  "eph_used st i \<longleftrightarrow> eph_ids st i \<noteq> None"

interpretation mem_run: engine_store "on_memory E" ms_heads mem_used "\<lambda>_. True" for E
proof
  fix now st c st'
  assume "ke_store_commit (on_memory E) now st c = (Inr (), st')" and "\<not> mem_used st (cp_id (cm_checkpoint c))"
  then show "ms_heads st' (commit_run c) = Some (cm_checkpoint c)
      \<and> checkpoint_validate (cm_checkpoint c) = Inr ()
      \<and> (\<forall>i. mem_used st' i \<longrightarrow> mem_used st i \<or> i = cp_id (cm_checkpoint c)) \<and> True"
    by (auto simp: on_memory_def mem_commit_def mem_used_def commit_run_def Let_def r_bind_Inr dest: accepted_valid
          split: sum.splits option.splits if_splits) (blast | meson)+
next
  fix now st c err st'
  assume "ke_store_commit (on_memory E) now st c = (Inl err, st')"
  then show "st' = st"
    by (auto simp: on_memory_def mem_commit_def Let_def split: sum.splits option.splits if_splits)
qed (simp add: on_memory_def counted_id_inj)

interpretation eph_run: engine_store "on_ephemeral E" "\<lambda>st run. if eph_runs st run then eph_head st else None"
    eph_used "\<lambda>_. True" for E
proof
  fix now st c st'
  assume "ke_store_commit (on_ephemeral E) now st c = (Inr (), st')" and "\<not> eph_used st (cp_id (cm_checkpoint c))"
  then show "(if eph_runs st' (commit_run c) then eph_head st' else None) = Some (cm_checkpoint c)
      \<and> checkpoint_validate (cm_checkpoint c) = Inr ()
      \<and> (\<forall>i. eph_used st' i \<longrightarrow> eph_used st i \<or> i = cp_id (cm_checkpoint c)) \<and> True"
    by (auto simp: on_ephemeral_def eph_commit_def eph_used_def eph_runs_def commit_run_def r_bind_Inr
          dest: accepted_valid
          split: sum.splits option.splits if_splits)
next
  fix now st c err st'
  assume "ke_store_commit (on_ephemeral E) now st c = (Inl err, st')"
  then show "st' = st"
    by (auto simp: on_ephemeral_def eph_commit_def split: sum.splits option.splits if_splits)
qed (simp add: on_ephemeral_def counted_id_inj)

end
