(* ===== verification/Engine_Reach.thy ===== *)
theory Engine_Reach
  imports Engine_Runs
begin

text \<open>
  What holds in every state the loop reaches. The projection of the context into the session stays in
  step with the durable checkpoint: the revisions that wait for an acknowledgement are, in order, those
  between the acknowledged one and the current one. Only the session events need more than this for
  themselves, that the held checkpoint is valid, and this is what the store behind the engine gives.
\<close>

section \<open>Every operation keeps the projection\<close>

lemma start_failed_projection: "keeps_projection (start_failed E i err)"
  unfolding start_failed_def Let_def
  by (intro keeps_get'; cases err) (auto intro!: keeps_intros)

lemma sent_back_projection:
  "(\<And>e. en_current (g e) = en_current e) \<Longrightarrow> keeps_projection (sent_back E g result)"
  unfolding sent_back_def by (cases result) (auto intro!: keeps_intros)

lemma segment_ready_projection: "keeps_projection (segment_ready E direction valid segment reference)"
  unfolding segment_ready_def by (auto intro!: keeps_intros seal_cursor_projection)

lemma model_failed_projection: "keeps_projection (model_failed E err)"
  unfolding model_failed_def by (cases err) (auto intro!: keeps_intros)

lemma reply_done_projection: "keeps_projection (reply_done E i result)"
  unfolding reply_done_def by (cases result) (auto intro!: keeps_intros)

lemma handle_work_projection:
  assumes "\<And>event. w \<noteq> WModel (Inr (Some event))"
  shows "keeps_projection (handle_work E w)"
  using assms
  by (cases "(E, w)" rule: handle_work.cases)
     (auto intro!: keeps_intros admitted_projection install_projection model_failed_projection
        start_failed_projection segment_ready_projection sent_back_projection reply_done_projection)

lemma handle_projection:
  assumes "checkpoint_validate (en_current e) = Inr ()" and "projection_ok (en_current e)"
  shows "projection_ok (en_current (snd (handle E w e)))"
proof (cases "\<exists>event. w = WModel (Inr (Some event))")
  case True
  then show ?thesis using model_event_projection [OF assms] by (auto simp: handle_def e_then_def e_bind_def)
next
  case False
  then have "keeps_projection (handle E w)"
    unfolding handle_def by (intro keeps_then handle_work_projection) (auto intro!: keeps_intros split: option.split)
  then show ?thesis using assms(2) keepsD by fastforce
qed

lemma advance_projection: "keeps_projection (advance E)"
  unfolding advance_def advance_work_def finish_or_drain_def complete_run_def Let_def
  by (auto intro!: keeps_intros keeps_projection_commit generate_projection)

lemma pass_projection: "keeps_projection (pass E)"
  unfolding pass_def by (intro keeps_intros admit_projection advance_projection)

lemma start_up_projection: "keeps_projection (start_up E cs ms request)"
  unfolding start_up_def while_active_def
  by (auto intro!: keeps_intros open_catalog_projection apply_recovery_projection open_model_projection
        recover_operations_projection)

lemma receive_projection:
  assumes "checkpoint_validate (en_current e) = Inr ()" and "projection_ok (en_current e)"
    and "receive_work E e = Some (r, e')"
  shows "projection_ok (en_current e')"
proof -
  have parts: "handle E w x = (r, e') \<Longrightarrow> projection_ok (en_current e')"
      "input_media E p x = (r, e') \<Longrightarrow> projection_ok (en_current e')"
      "control E body x = (r, e') \<Longrightarrow> projection_ok (en_current e')"
    if "en_current x = en_current e" for w p body x
    using handle_projection [of x E w] keeps_run [OF input_media_projection, of x]
      keeps_run [OF control_projection, of x] assms(1,2) that by auto
  show ?thesis
    using assms(3) parts [of "e\<lparr>en_stashed := None\<rparr>"] parts [of "e\<lparr>en_held_input := None\<rparr>"]
      parts [of "e\<lparr>en_controls := tl (en_controls e)\<rparr>"] parts [of "e\<lparr>en_work := tl (en_work e)\<rparr>"]
      parts [of "e\<lparr>en_media_queue := tl (en_media_queue e)\<rparr>"]
    by (simp add: receive_work_def split: option.splits if_splits list.splits)
qed

section \<open>Every reachable state\<close>

context engine_store begin

lemma step_projection:
  "step E s t \<Longrightarrow> durable.kept s \<Longrightarrow> projection_ok (en_current (snd s)) \<Longrightarrow> projection_ok (en_current (snd t))"
proof (induction rule: step.induct)
  case (step_pass e r e')
  then show ?case using keeps_run [OF pass_projection] by simp
next
  case (step_receive e r e')
  then have "checkpoint_validate (en_current e) = Inr ()" unfolding durable.kept_def by (simp add: durable_head_def)
  then show ?case using receive_projection step_receive by simp
next
  case (step_arrives e e' p)
  then show ?case by (auto elim: arrives.cases)
qed simp_all

lemma reaches_projection:
  assumes "reaches E s t" and "durable.kept s" and "projection_ok (en_current (snd s))"
  shows "projection_ok (en_current (snd t))"
  using assms
proof (induction rule: reaches.induct)
  case (reaches_step s t u)
  then show ?case using step_projection durable.reaches_keeps by blast
qed

lemma run_projection:
  assumes "inv st" and "fresh_from 0 st" and "execute_start E st now request = Inr e0"
    and "start_up E cs ms request e0 = (Inr (), e)" and "reaches E (Passing, e) (p, e')"
    and "projection_ok (en_current e0)"
  shows "projection_ok (en_current e')"
proof -
  have "durable_head e"
    using sound_Inr [OF durable.sound_start_up start_durable_head [OF assms(1-3)] assms(4)] .
  then have "durable.kept (Passing, e)" by (simp add: durable.kept_def)
  moreover have "projection_ok (en_current e)" using keeps_run [OF start_up_projection assms(6,4)] .
  ultimately show ?thesis using reaches_projection [OF assms(5)] by simp
qed

end

text \<open>A run that starts has nothing to acknowledge; one that resumes starts where its checkpoint stood.\<close>

definition request_projected :: "request \<Rightarrow> bool" where
  "request_projected request = (case request of
       RequestStart _ _ _ \<Rightarrow> True | RequestRecover c _ _ _ \<Rightarrow> projection_ok c)"

lemma first_checkpoint_projection:
  assumes "request_projected request"
  shows "projection_ok (fst (first_checkpoint ids n expired request))"
  using assms
  by (cases request)
     (auto simp: request_projected_def first_checkpoint_def initial_def session_new_def projection_ok_def)

lemma execute_start_projection:
  assumes "execute_start E st now request = Inr e" and "request_projected request"
  shows "projection_ok (en_current e)"
proof -
  obtain deadline where run: "(case first_checkpoint (ke_new_id E) 0
        (some_and (\<lambda>d. d \<le> ke_now E 1) deadline) request of (next, delta) \<Rightarrow>
      (case persist E next delta (engine_new st deadline 2 2 0 next) of
         (Inl err, _) \<Rightarrow> Inl (err, case request of RequestRecover c _ _ _ \<Rightarrow> Some c | _ \<Rightarrow> None)
       | (Inr _, e) \<Rightarrow> Inr e)) = Inr e"
    using assms(1) by (auto simp: execute_start_def Let_def)
  obtain c delta where first: "first_checkpoint (ke_new_id E) 0
      (some_and (\<lambda>d. d \<le> ke_now E 1) deadline) request = (c, delta)" by fastforce
  have "\<exists>r. persist E c delta (engine_new st deadline 2 2 0 c) = (r, e)"
    using run first by (auto split: prod.splits sum.splits)
  then have "en_current e = c"
    using persist_frame [of E c delta "engine_new st deadline 2 2 0 c"] by (auto simp: engine_new_def)
  then show ?thesis using first_checkpoint_projection [OF assms(2)] first by (metis fst_conv)
qed

end
