(* ===== verification/Admission_Bounds.thy ===== *)
theory Admission_Bounds
  imports Engine_Admission
begin

text \<open>
  How many runtime tools one admission may start (\<open>admission.rs\<close>): the calls handed to the approval
  and the operations that already occupy a slot never exceed the configured concurrency, and each call
  of a batch is admitted once.
\<close>

lemma admitting_rules:
  shows commit_admitting: "keeps (\<lambda>e. en_admitting e = A) (e_commit E c what delta)"
    and new_id_admitting: "keeps (\<lambda>e. en_admitting e = A) (e_new_id E)"
    and modify_admitting: "(\<And>e. en_admitting (g e) = en_admitting e) \<Longrightarrow> keeps (\<lambda>e. en_admitting e = A) (e_modify g)"
proof -
  show "keeps (\<lambda>e. en_admitting e = A) (e_commit E c what delta)"
  proof (rule keepsI)
    fix e :: "'a engine"
    assume "en_admitting e = A"
    then show "en_admitting (snd (e_commit E c what delta e)) = A"
      using e_commit_frame [of E c what delta e] by (cases "e_commit E c what delta e") auto
  qed
qed (simp_all add: keeps_def)

lemma finish_admitting: "keeps (\<lambda>e. en_admitting e = A) (finish E i outcome)"
proof -
  have mine: "keeps (\<lambda>e. en_admitting e = A) (finish_local E i op nm outcome s)" for op nm s
    unfolding finish_local_def Let_def
    by (intro keeps_intros admitting_rules) simp
  have theirs: "keeps (\<lambda>e. en_admitting e = A) (finish_provider E op outcome s)" for op s
    unfolding finish_provider_def Let_def
    by (auto intro!: keeps_intros admitting_rules split: option.split message.split)
  show ?thesis
    unfolding finish_def finish_at_def Let_def
    by (intro keeps_then keeps_lift keeps_get')
       (simp add: mine theirs split: option.split operation_owner.split)
qed

definition admission_inv :: "string list \<Rightarrow> bindings \<Rightarrow> string set \<Rightarrow> bool" where
  "admission_inv selected acc admitting \<longleftrightarrow> distinct (map fst (fst acc))
     \<and> set (map fst (fst acc)) \<subseteq> set selected \<and> admitting = set (map fst (fst acc))
     \<and> length (snd acc) = length (fst acc)"

lemma admit_calls_bound:
  assumes "admit_calls E specs parallel running cands selected acc calls e = (Inr acc', e')"
    and "admission_inv selected acc (en_admitting e)"
  shows "length (fst acc') \<le> length (fst acc) + length calls \<and> (\<exists>s. admission_inv s acc' (en_admitting e'))"
  using assms
proof (induction calls arbitrary: selected acc e)
  case (Cons call calls)
  let ?i = "rtc_id call"
  obtain original where orig: "map_of cands call = Some original" and new: "?i \<notin> set selected"
    using Cons.prems(1) by (auto split: option.splits if_splits)
  obtain a e1 where call: "admit_call E specs parallel running (fst acc \<noteq> []) ?i original e = (Inr a, e1)"
    and rest: "(case a of
       AdmitSkip \<Rightarrow> admit_calls E specs parallel running cands (?i # selected) acc calls
     | AdmitStop \<Rightarrow> e_return acc
     | AdmitCall spec \<Rightarrow> admit_calls E specs parallel running cands (?i # selected)
         (fst acc @ [(?i, spec)], snd acc @ [\<lparr>ar_call = original, ar_spec = spec\<rparr>]) calls) e1 = (Inr acc', e')"
    using Cons.prems(1) orig new by (auto simp: e_bind_eq_Inr)
  have adm: "en_admitting e1 = (case a of AdmitCall _ \<Rightarrow> insert ?i (en_admitting e) | _ \<Rightarrow> en_admitting e)"
    using call keeps_run [OF finish_admitting [of "en_admitting e"] refl]
    by (auto simp: admit_call_def e_then_eq_Inr e_bind_eq_Inr split: sum.splits if_splits)
  show ?case
  proof (cases a)
    case AdmitStop
    then show ?thesis using rest adm Cons.prems(2) by auto
  next
    case AdmitSkip
    then have "admission_inv (?i # selected) acc (en_admitting e1)"
      using adm Cons.prems(2) by (auto simp: admission_inv_def)
    then show ?thesis using Cons.IH [of "?i # selected" acc e1] rest AdmitSkip by fastforce
  next
    case (AdmitCall spec)
    let ?acc = "(fst acc @ [(?i, spec)], snd acc @ [\<lparr>ar_call = original, ar_spec = spec\<rparr>])"
    have "admission_inv (?i # selected) ?acc (en_admitting e1)"
      using adm AdmitCall Cons.prems(2) new by (auto simp: admission_inv_def)
    then show ?thesis using Cons.IH [of "?i # selected" ?acc e1] rest AdmitCall by fastforce
  qed
qed auto

lemma admit_tools_bound:
  assumes "admit_tools E running e = (Inr (), e')" and "en_admitting e = {}"
  shows "finite (en_admitting e')
    \<and> card (en_admitting e') \<le> lim_max_operation_concurrency (ro_limits (cp_options (en_current e))) - running"
proof -
  let ?room = "lim_max_operation_concurrency (ro_limits (cp_options (en_current e))) - running"
  obtain cands where cands: "tool_candidates (en_current e) (queued_tools (en_current e)) = Inr cands"
    using assms(1) by (auto simp: admit_tools_def e_bind_eq_Inr e_lift_def)
  show ?thesis
  proof (cases "cands = []")
    case True
    then show ?thesis using assms cands by (simp add: admit_tools_def e_bind_eq_Inr e_lift_def)
  next
    case False
    let ?specs = "specs_by_name (om_values (en_specs e))"
    obtain calls parallel bound requests e1 where
      calls: "admit_calls E ?specs parallel running cands [] ([], []) (take ?room calls) e = (Inr (bound, requests), e1)"
      and rest: "(if bound = [] then e_return () else e_log (DecideApproval requests)) e1 = (Inr (), e')"
      using assms(1) cands False
      by (auto simp: admit_tools_def e_bind_eq_Inr e_lift_def Let_def split: sum.splits)
    have "admission_inv [] ([], []) (en_admitting e)" using assms(2) by (simp add: admission_inv_def)
    from admit_calls_bound [OF calls this]
    have "length bound \<le> ?room" "distinct (map fst bound)" "en_admitting e1 = set (map fst bound)"
      by (auto simp: admission_inv_def)
    moreover have "en_admitting e' = en_admitting e1" using rest by (auto simp: e_log_def split: if_splits)
    ultimately show ?thesis using distinct_card [of "map fst bound"] by simp
  qed
qed

lemma local_update_admitting: "keeps (\<lambda>e. en_admitting e = A) (local_operation_update E i state wait)"
  unfolding local_operation_update_def Let_def
  by (intro keeps_get') (auto intro!: keeps_intros admitting_rules split: option.split)

lemma log_admitting: "keeps (\<lambda>e. en_admitting e = A) (e_log x)"
  by (simp add: keeps_def e_log_def)

lemma start_delegation_admitting: "keeps (\<lambda>e. en_admitting e = A) (start_delegation E op)"
  unfolding start_delegation_def pend_start_def
  by (auto intro!: keeps_get' keeps_bind keeps_then keeps_lift local_update_admitting log_admitting
        admitting_rules finish_admitting)

lemma admit_bound:
  assumes "admit E e = (Inr (), e')" and "en_admitting e = {}"
    and "running_count (en_current e) \<le> lim_max_operation_concurrency (ro_limits (cp_options (en_current e)))"
  shows "running_count (en_current e) + card (en_admitting e')
    \<le> lim_max_operation_concurrency (ro_limits (cp_options (en_current e)))"
proof -
  let ?max = "lim_max_operation_concurrency (ro_limits (cp_options (en_current e)))"
  let ?running = "running_count (en_current e)"
  let ?delegated = "take (?max - ?running) (queued_delegations (en_current e))"
  consider "e' = e" | "e_each (start_delegation E) ?delegated e = (Inr (), e')"
    | "admit_tools E ?running e = (Inr (), e')"
    using assms(1,2) by (auto simp: admit_def Let_def split: if_splits)
  then show ?thesis
  proof cases
    case 1
    then show ?thesis using assms(2,3) by simp
  next
    case 2
    then have "en_admitting e' = {}"
      by (rule keeps_run [where P = "\<lambda>e. en_admitting e = {}", OF keeps_each [OF start_delegation_admitting] assms(2)])
    then show ?thesis using assms(3) by simp
  next
    case 3
    then show ?thesis using conjunct2 [OF admit_tools_bound [OF 3 assms(2)]] assms(3) by linarith
  qed
qed

end
