(* ===== verification/Sql_Store.thy ===== *)
theory Sql_Store
  imports Stores
begin

text \<open>
  \<open>SqlStore\<close> (\<open>zhir-storage/src/sql.rs\<close>): the three tables, the write transaction of \<open>commit_inner\<close>,
  \<open>delete\<close> and the reassembly of \<open>load_head\<close>. A transaction runs alone and either takes effect whole
  or leaves the tables alone; failures of the database and of the connection pool are outside the
  model. The JSON text of a core and of a delta comes from the serialisation library: the functions
  are the record \<open>codec\<close>, and \<open>codec_lawful\<close> states that a text is parsed back to its value.
  \<open>sql_ok\<close> is the representation invariant; the interpretation shows that the tables implement the
  store contract for commits whose delta is the difference of the histories.
\<close>

section \<open>Tables\<close>

record codec =
  cc_core_text :: "checkpoint_core \<Rightarrow> string + string"
  cc_core_parse :: "string \<Rightarrow> string + checkpoint_core"
  cc_entries_text :: "history_entry list \<Rightarrow> string + string"
  cc_entries_parse :: "string \<Rightarrow> string + history_entry list"

definition codec_lawful :: "codec \<Rightarrow> bool" where
  "codec_lawful K \<longleftrightarrow>
     (\<forall>co t. cc_core_text K co = Inr t \<longrightarrow> cc_core_parse K t = Inr co)
     \<and> (\<forall>es t. cc_entries_text K es = Inr t \<longrightarrow> cc_entries_parse K t = Inr es)"

record head_row =
  hr_revision :: int
  hr_checkpoint_id :: string
  hr_generation :: int
  hr_core :: string

type_synonym history_rows = "(string \<times> int \<times> int, string) omap"

record sql_db =
  db_heads :: "string \<rightharpoonup> head_row"
  db_commits :: "(string \<times> string, int \<times> string) omap"
  db_history :: history_rows

definition storage_error :: "string + 'a \<Rightarrow> 'a result" where
  "storage_error r = (case r of Inl m \<Rightarrow> Inl (Storage m) | Inr v \<Rightarrow> Inr v)"

definition i64_try_from :: "u64 \<Rightarrow> int result" where
  "i64_try_from r = (if unat r < 2 ^ 63 then Inr (uint r)
     else Inl (Storage ''out of range integral type conversion attempted''))"

section \<open>The write transaction\<close>

fun delta_rewrites :: "history_delta \<Rightarrow> bool" where
  "delta_rewrites (Initial _) = True"
| "delta_rewrites (Replace _) = True"
| "delta_rewrites _ = False"

fun delta_messages :: "history_delta \<Rightarrow> history_entry list option" where
  "delta_messages (Initial m) = Some m"
| "delta_messages (Append m) = Some m"
| "delta_messages (Replace m) = Some m"
| "delta_messages Unchanged = None"

text \<open>The UPDATE guarded by the previous revision, and the INSERT that loses to another writer.\<close>

definition sql_put_head ::
  "commit \<Rightarrow> checkpoint_core option \<Rightarrow> head_row \<Rightarrow> (string \<rightharpoonup> head_row) \<Rightarrow> (string \<rightharpoonup> head_row) result" where
  "sql_put_head c previous row heads = (let run = commit_run c in case previous of
       Some p \<Rightarrow> r_bind (i64_try_from (co_revision p)) (\<lambda>expected.
         if some_and (\<lambda>r. hr_revision r = expected) (heads run) then Inr (heads(run \<mapsto> row))
         else Inl (Conflict (expected_revision c) None))
     | None \<Rightarrow> (case heads run of
           None \<Rightarrow> Inr (heads(run \<mapsto> row))
         | Some _ \<Rightarrow> Inl (Conflict (expected_revision c) None)))"

definition sql_put_commit ::
  "string \<Rightarrow> string \<Rightarrow> int \<Rightarrow> string \<Rightarrow> (string \<times> string, int \<times> string) omap
     \<Rightarrow> (string \<times> string, int \<times> string) omap result" where
  "sql_put_commit run i revision digest commits =
     (if om_contains commits (run, i)
         \<or> (\<exists>((run', _), (revision', _)) \<in> set commits. run' = run \<and> revision' = revision)
      then Inl (Storage ''unique constraint violated'')
      else Inr (om_insert (run, i) (revision, digest) commits))"

definition sql_put_history ::
  "codec \<Rightarrow> string \<Rightarrow> int \<Rightarrow> int \<Rightarrow> history_delta \<Rightarrow> history_rows \<Rightarrow> history_rows result" where
  "sql_put_history K run generation revision delta rows = (case delta_messages delta of
       None \<Rightarrow> Inr rows
     | Some ms \<Rightarrow> r_bind (storage_error (cc_entries_text K ms)) (\<lambda>payload.
         if om_contains rows (run, generation, revision) then Inl (Storage ''unique constraint violated'')
         else Inr (om_insert (run, generation, revision) payload rows)))"

definition sql_prune :: "string \<Rightarrow> int \<Rightarrow> history_delta \<Rightarrow> history_rows \<Rightarrow> history_rows" where
  "sql_prune run generation delta rows =
     (if delta_rewrites delta
      then om_retain (\<lambda>(run', generation', _) _. \<not> (run' = run \<and> generation' < generation)) rows
      else rows)"

text \<open>\<open>delay\<close> is the time from the first deadline check to the one before the COMMIT.\<close>

definition sql_write ::
  "externals \<Rightarrow> codec \<Rightarrow> nat \<Rightarrow> sql_db \<Rightarrow> commit \<Rightarrow> string \<Rightarrow> int \<Rightarrow> sql_db result" where
  "sql_write X K now db c digest revision = (let run = commit_run c; row = db_heads db run in
     r_bind (case row of None \<Rightarrow> Inr None
             | Some r \<Rightarrow> r_bind (storage_error (cc_core_parse K (hr_core r))) (\<lambda>co. Inr (Some co))) (\<lambda>previous.
     r_bind (check_deadline c now) (\<lambda>_.
     r_bind (validate_against X c previous) (\<lambda>_.
     r_bind (if delta_rewrites (cm_history c) then Inr revision
             else ok_or (Storage ''validated previous head'') (map_option hr_generation row)) (\<lambda>generation.
     r_bind (storage_error (cc_core_text K (commit_core c))) (\<lambda>core.
     r_bind (sql_put_head c previous
               \<lparr>hr_revision = revision, hr_checkpoint_id = cp_id (cm_checkpoint c),
                hr_generation = generation, hr_core = core\<rparr> (db_heads db)) (\<lambda>heads.
     r_bind (sql_put_commit run (cp_id (cm_checkpoint c)) revision digest (db_commits db)) (\<lambda>commits.
     r_bind (sql_put_history K run generation revision (cm_history c) (db_history db)) (\<lambda>history.
       Inr \<lparr>db_heads = heads, db_commits = commits,
            db_history = sql_prune run generation (cm_history c) history\<rparr>)))))))))"

definition sql_existing :: "sql_db \<Rightarrow> string \<Rightarrow> string \<Rightarrow> string option" where
  "sql_existing db run i =
     (if db_heads db run = None then None else map_option snd (om_get (db_commits db) (run, i)))"

definition sql_commit_tx :: "externals \<Rightarrow> codec \<Rightarrow> nat \<Rightarrow> nat \<Rightarrow> sql_db \<Rightarrow> commit \<Rightarrow> sql_db result" where
  "sql_commit_tx X K delay now db c =
     r_bind (commit_digest X c) (\<lambda>digest.
     r_bind (i64_try_from (cp_revision (cm_checkpoint c))) (\<lambda>revision.
       case sql_existing db (commit_run c) (cp_id (cm_checkpoint c)) of
         Some existing \<Rightarrow> (if existing = digest then Inr db else Inl (Storage ''checkpoint id reused''))
       | None \<Rightarrow> r_bind (sql_write X K now db c digest revision) (\<lambda>db'.
           r_bind (check_deadline c (now + delay)) (\<lambda>_. Inr db'))))"

definition sql_commit :: "externals \<Rightarrow> codec \<Rightarrow> nat \<Rightarrow> nat \<Rightarrow> sql_db \<Rightarrow> commit \<Rightarrow> unit result \<times> sql_db" where
  "sql_commit X K delay now db c = (case sql_commit_tx X K delay now db c of
       Inl e \<Rightarrow> (Inl e, db) | Inr db' \<Rightarrow> (Inr (), db'))"

definition sql_delete :: "string \<Rightarrow> sql_db \<Rightarrow> unit result \<times> sql_db" where
  "sql_delete run db = (Inr (), \<lparr>db_heads = (db_heads db)(run := None),
     db_commits = om_retain (\<lambda>(run', _) _. run' \<noteq> run) (db_commits db),
     db_history = om_retain (\<lambda>(run', _) _. run' \<noteq> run) (db_history db)\<rparr>)"

section \<open>Reassembly\<close>

definition sql_select :: "string \<Rightarrow> int \<Rightarrow> int \<Rightarrow> history_rows \<Rightarrow> string list" where
  "sql_select run generation revision rows = om_values
     (om_retain (\<lambda>(run', generation', revision') _.
        run' = run \<and> generation' = generation \<and> revision' \<le> revision) rows)"

fun sql_assemble :: "'x hashing_scheme \<Rightarrow> codec \<Rightarrow> history \<Rightarrow> string list \<Rightarrow> history result" where
  "sql_assemble H K h [] = Inr h"
| "sql_assemble H K h (payload # payloads) =
     r_bind (storage_error (cc_entries_parse K payload)) (\<lambda>ms.
     r_bind (history_append H h ms) (\<lambda>h'. sql_assemble H K h' payloads))"

definition sql_load_head :: "'x hashing_scheme \<Rightarrow> codec \<Rightarrow> sql_db \<Rightarrow> string \<Rightarrow> checkpoint option result" where
  "sql_load_head H K db run = (case db_heads db run of
       None \<Rightarrow> Inr None
     | Some row \<Rightarrow>
         r_bind (storage_error (cc_core_parse K (hr_core row))) (\<lambda>core.
         r_bind (i64_try_from (co_revision core)) (\<lambda>revision.
         r_bind (sql_assemble H K history_default
                   (sql_select run (hr_generation row) revision (db_history db))) (\<lambda>h.
         r_bind (with_history core h) (\<lambda>c. Inr (Some c))))))"

section \<open>The invariant\<close>

definition run_rows :: "string \<Rightarrow> history_rows \<Rightarrow> history_rows" where
  "run_rows run rows = om_retain (\<lambda>(run', _) _. run' = run) rows"

definition payloads_hold :: "codec \<Rightarrow> string list \<Rightarrow> history_entry list \<Rightarrow> bool" where
  "payloads_hold K ps es \<longleftrightarrow> (\<exists>ess. map (cc_entries_parse K) ps = map Inr ess \<and> concat ess = es)"

definition sql_head_ok ::
  "'x hashing_scheme \<Rightarrow> codec \<Rightarrow> sql_db \<Rightarrow> string \<Rightarrow> head_row \<Rightarrow> checkpoint \<Rightarrow> bool" where
  "sql_head_ok H K db run row c \<longleftrightarrow>
     cc_core_parse K (hr_core row) = Inr (core_of c) \<and> hr_revision row = uint (cp_revision c)
     \<and> unat (cp_revision c) < 2 ^ 63 \<and> hr_generation row \<le> hr_revision row
     \<and> rc_run_id (cp_context c) = run \<and> checkpoint_validate c = Inr ()
     \<and> history_ok H (cp_history c)
     \<and> (\<forall>e \<in> set (history_entries (cp_history c)). entry_validate e = Inr ())
     \<and> payloads_hold K (om_values (run_rows run (db_history db))) (history_entries (cp_history c))
     \<and> (\<forall>((_, g, v), _) \<in> set (run_rows run (db_history db)). g = hr_generation row \<and> v \<le> hr_revision row)
     \<and> (\<forall>i v d. ((run, i), (v, d)) \<in> set (db_commits db) \<longrightarrow> v \<le> hr_revision row)"

definition sql_run_ok :: "'x hashing_scheme \<Rightarrow> codec \<Rightarrow> sql_db \<Rightarrow> string \<Rightarrow> bool" where
  "sql_run_ok H K db run = (case db_heads db run of
       None \<Rightarrow> run_rows run (db_history db) = [] \<and> (\<forall>i x. ((run, i), x) \<notin> set (db_commits db))
     | Some row \<Rightarrow> \<exists>c. sql_head_ok H K db run row c)"

definition sql_ok :: "'x hashing_scheme \<Rightarrow> codec \<Rightarrow> sql_db \<Rightarrow> bool" where
  "sql_ok H K db \<longleftrightarrow> om_ok (db_commits db) \<and> om_ok (db_history db) \<and> (\<forall>run. sql_run_ok H K db run)"

definition sql_view :: "'x hashing_scheme \<Rightarrow> codec \<Rightarrow> sql_db \<Rightarrow> store_view" where
  "sql_view H K db = \<lparr>
     sv_head = (\<lambda>run. case sql_load_head H K db run of Inr c \<Rightarrow> c | Inl _ \<Rightarrow> None),
     sv_seen = (\<lambda>(run, i). sql_existing db run i)\<rparr>"

text \<open>
  The commits the database answers for: the revision fits a BIGINT, the values can be encoded, and
  the delta leads from the entries of the stored head to those of the new checkpoint.
\<close>

definition sql_scope :: "externals \<Rightarrow> codec \<Rightarrow> sql_db \<Rightarrow> commit \<Rightarrow> bool" where
  "sql_scope X K db c \<longleftrightarrow> unat (cp_revision (cm_checkpoint c)) < 2 ^ 63
     \<and> is_ok (cc_core_text K (commit_core c))
     \<and> (\<forall>ms. delta_messages (cm_history c) = Some ms \<longrightarrow> is_ok (cc_entries_text K ms))
     \<and> (sql_existing db (commit_run c) (cp_id (cm_checkpoint c)) = None \<longrightarrow>
          history_ok X (cp_history (cm_checkpoint c))
          \<and> history_entries (cp_history (cm_checkpoint c)) = delta_apply (cm_history c)
              (case sv_head (sql_view X K db) (commit_run c) of
                 None \<Rightarrow> [] | Some p \<Rightarrow> history_entries (cp_history p)))"

section \<open>Loading\<close>

lemma storage_error_Inr [simp]: "storage_error r = Inr v \<longleftrightarrow> r = Inr v"
  by (cases r) (auto simp: storage_error_def)

lemma storage_error_simps [simp]:
  "storage_error (Inr v) = Inr v" "storage_error (Inl m) = Inl (Storage m)"
  by (simp_all add: storage_error_def)

lemma sql_ok_at: "sql_ok H K db \<Longrightarrow> sql_run_ok H K db run"
  by (simp add: sql_ok_def)

lemma sql_ok_head:
  assumes "sql_ok H K db" and "db_heads db run = Some row"
  obtains c where "sql_head_ok H K db run row c"
  using sql_ok_at [OF assms(1), of run] assms(2) by (auto simp: sql_run_ok_def)

lemma run_rows_iff: "((r, g, v), p) \<in> set (run_rows run rows) \<longleftrightarrow> r = run \<and> ((run, g, v), p) \<in> set rows"
  by (auto simp: run_rows_def om_retain_def)

lemma i64_try_from_Inr: "i64_try_from r = Inr v \<longleftrightarrow> unat r < 2 ^ 63 \<and> v = uint r"
  by (auto simp: i64_try_from_def)

lemma i64_try_from_ok [simp]: "unat r < 2 ^ 63 \<Longrightarrow> i64_try_from r = Inr (uint r)"
  by (simp add: i64_try_from_def)

lemma sql_assemble_append:
  assumes "map (cc_entries_parse K) ps = map Inr ess"
  shows "sql_assemble H K h ps = history_append H h (concat ess)"
  using assms
proof (induction ps arbitrary: h ess)
  case (Cons p ps)
  then obtain es ess' where ess: "ess = es # ess'" by (cases ess) auto
  with Cons.prems have "storage_error (cc_entries_parse K p) = Inr es" by simp
  then show ?case using Cons.IH [of ess'] Cons.prems ess by (simp add: history_append_append)
qed simp

lemma sql_load_head_ok:
  assumes row: "db_heads db run = Some row" and ok: "sql_head_ok H K db run row c"
  shows "sql_load_head H K db run = Inr (Some c)"
proof -
  obtain ess where ess: "map (cc_entries_parse K) (om_values (run_rows run (db_history db))) = map Inr ess"
      "concat ess = history_entries (cp_history c)"
    using ok by (auto simp: sql_head_ok_def payloads_hold_def)
  have range: "g = hr_generation row \<and> v \<le> uint (cp_revision c)"
    if "((run, g, v), p) \<in> set (db_history db)" for g v p
    using ok that by (fastforce simp: sql_head_ok_def run_rows_iff)
  have "sql_select run (hr_generation row) (uint (cp_revision c)) (db_history db)
      = om_values (run_rows run (db_history db))"
    unfolding sql_select_def run_rows_def om_retain_def
    by (intro arg_cong [of _ _ om_values] filter_cong refl) (auto dest: range)
  then have "sql_assemble H K history_default
      (sql_select run (hr_generation row) (uint (cp_revision c)) (db_history db)) = Inr (cp_history c)"
    using sql_assemble_append [OF ess(1), of H history_default] history_from_entries_roundtrip [of H "cp_history c"] ok ess(2)
    by (simp add: history_from_entries_def sql_head_ok_def)
  moreover have "i64_try_from (cp_revision c) = Inr (uint (cp_revision c))"
    using ok by (simp add: sql_head_ok_def)
  ultimately show ?thesis
    using ok row with_history_core_of [of c]
    by (simp add: sql_load_head_def sql_head_ok_def storage_error_def)
qed

lemma sql_head_view:
  assumes "sql_ok H K db"
  shows "db_heads db run = None \<Longrightarrow> sv_head (sql_view H K db) run = None"
    and "db_heads db run = Some row \<Longrightarrow>
      \<exists>c. sql_head_ok H K db run row c \<and> sv_head (sql_view H K db) run = Some c"
proof -
  show "db_heads db run = None \<Longrightarrow> sv_head (sql_view H K db) run = None"
    by (simp add: sql_view_def sql_load_head_def)
  assume row: "db_heads db run = Some row"
  then obtain c where "sql_head_ok H K db run row c" using sql_ok_head [OF assms] by blast
  then show "\<exists>c. sql_head_ok H K db run row c \<and> sv_head (sql_view H K db) run = Some c"
    using sql_load_head_ok [OF row, of H K c] by (auto simp: sql_view_def)
qed

lemma sql_load_view: "sql_ok H K db \<Longrightarrow> sql_load_head H K db run = Inr (sv_head (sql_view H K db) run)"
proof (cases "db_heads db run")
  case (Some row)
  assume "sql_ok H K db"
  then obtain c where "sql_head_ok H K db run row c" using sql_ok_head Some by blast
  then show ?thesis using sql_load_head_ok [OF Some, of H K c] by (simp add: sql_view_def)
qed (simp add: sql_view_def sql_load_head_def)

section \<open>Rows after a write\<close>

lemma om_insert_above:
  "(\<forall>k' \<in> fst ` set m. k' < k) \<Longrightarrow> om_insert k v m = m @ [(k, v)]"
  by (induction k v m rule: om_insert.induct) auto

lemma om_insert_below: "(\<forall>k' \<in> fst ` set m. k < k') \<Longrightarrow> om_insert k v m = (k, v) # m"
  by (cases m) auto

lemma om_retain_insert:
  assumes "om_ok m"
  shows "om_retain (\<lambda>k _. q k) (om_insert k v m) =
     (if q k then om_insert k v (om_retain (\<lambda>k _. q k) m) else om_retain (\<lambda>k _. q k) m)"
  using assms
proof (induction k v m rule: om_insert.induct)
  case (2 k v k' v' m)
  then have ok: "om_ok m" and above: "\<forall>x \<in> fst ` set m. k' < x" by (auto simp: om_ok_def)
  have "\<forall>x \<in> fst ` set (om_retain (\<lambda>k _. q k) m). k' < x"
    using above by (auto simp: om_retain_def)
  then show ?case
    using "2.IH" [OF _ _ ok] above
    by (auto simp: om_retain_def om_insert_below intro!: om_insert_below [symmetric])
       (metis fst_conv order.strict_trans)
qed (simp add: om_retain_def)

lemma run_rows_insert:
  assumes "om_ok rows"
  shows "run_rows run' (om_insert (run, g, v) p rows) =
     (if run' = run then om_insert (run, g, v) p (run_rows run rows) else run_rows run' rows)"
  using om_retain_insert [OF assms, of "\<lambda>(r, _). r = run'" "(run, g, v)" p]
  by (auto simp: run_rows_def split_def)

lemma run_rows_prune:
  "run_rows run' (sql_prune run g delta rows) =
     (if delta_rewrites delta \<and> run' = run
      then om_retain (\<lambda>(_, g', _) _. \<not> g' < g) (run_rows run rows) else run_rows run' rows)"
  by (auto simp: run_rows_def sql_prune_def om_retain_def intro!: filter_cong)

lemma om_ok_prune [simp]: "om_ok rows \<Longrightarrow> om_ok (sql_prune run g delta rows)"
  by (simp add: sql_prune_def)

text \<open>All keys of the run lie below the new revision.\<close>

definition rows_below :: "string \<Rightarrow> int \<Rightarrow> int \<Rightarrow> history_rows \<Rightarrow> bool" where
  "rows_below run g revision rows \<longleftrightarrow>
     (\<forall>((_, g', v), _) \<in> set (run_rows run rows). g' = g \<and> v < revision) \<and> g < revision"

lemma run_rows_write:
  assumes ok: "om_ok rows" and below: "rows_below run g revision rows"
    and put: "sql_put_history K run (if delta_rewrites delta then revision else g) revision delta rows = Inr rows'"
  shows "run_rows run (sql_prune run (if delta_rewrites delta then revision else g) delta rows')
      = (if delta_rewrites delta then [] else run_rows run rows)
        @ (case delta_messages delta of None \<Rightarrow> [] | Some ms \<Rightarrow>
             [((run, if delta_rewrites delta then revision else g, revision), projr (cc_entries_text K ms))])"
    and "run' \<noteq> run \<Longrightarrow>
      run_rows run' (sql_prune run (if delta_rewrites delta then revision else g) delta rows') = run_rows run' rows"
    and "om_ok (sql_prune run (if delta_rewrites delta then revision else g) delta rows')"
    and "delta_messages delta = Some ms \<Longrightarrow> is_ok (cc_entries_text K ms)"
proof -
  let ?g = "if delta_rewrites delta then revision else g"
  have old: "\<forall>k \<in> fst ` set (run_rows run rows). k < (run, ?g, revision)"
    using below by (auto simp: rows_below_def run_rows_iff less_prod_def' split: prod.splits)
  have gone: "om_retain (\<lambda>(_, g', _) _. \<not> g' < revision) (run_rows run rows) = []"
    using below by (auto simp: rows_below_def om_retain_def filter_empty_conv)
  show "run_rows run (sql_prune run ?g delta rows')
      = (if delta_rewrites delta then [] else run_rows run rows)
        @ (case delta_messages delta of None \<Rightarrow> [] | Some ms \<Rightarrow>
             [((run, ?g, revision), projr (cc_entries_text K ms))])"
    using put gone old
    by (cases delta)
       (auto simp: run_rows_prune sql_put_history_def r_bind_Inr run_rows_insert [OF ok]
          om_insert_above om_retain_def split: if_splits)
  show "run' \<noteq> run \<Longrightarrow> run_rows run' (sql_prune run ?g delta rows') = run_rows run' rows"
    using put by (auto simp: run_rows_prune sql_put_history_def r_bind_Inr run_rows_insert [OF ok]
        split: option.splits if_splits)
  show "om_ok (sql_prune run ?g delta rows')"
    using put ok by (auto simp: sql_put_history_def r_bind_Inr split: option.splits if_splits)
  show "delta_messages delta = Some ms \<Longrightarrow> is_ok (cc_entries_text K ms)"
    using put by (auto simp: sql_put_history_def r_bind_Inr)
qed

section \<open>The transaction implements the contract\<close>

lemma sql_previous:
  assumes "sql_ok H K db"
  shows "(case db_heads db run of None \<Rightarrow> Inr None
      | Some r \<Rightarrow> r_bind (storage_error (cc_core_parse K (hr_core r))) (\<lambda>co. Inr (Some co)))
    = Inr (map_option core_of (sv_head (sql_view H K db) run))"
proof (cases "db_heads db run")
  case None
  then show ?thesis using sql_head_view(1) [OF assms None] by simp
next
  case (Some row)
  then obtain c where "sql_head_ok H K db run row c" "sv_head (sql_view H K db) run = Some c"
    using sql_head_view(2) [OF assms Some] by blast
  then show ?thesis by (simp add: Some sql_head_ok_def)
qed

lemma accepted_revision_uint:
  "validate_against H c (Some p) = Inr () \<Longrightarrow> uint (cp_revision (cm_checkpoint c)) = uint (co_revision p) + 1"
  by (simp only: uint_nat accepted_revision_step(2) of_nat_add of_nat_1)

text \<open>What an accepted commit finds in the tables of its run.\<close>

lemma sql_fresh:
  assumes ok: "sql_ok X K db" and new: "sql_existing db (commit_run c) i = None"
    and acc: "validate_against X c (map_option core_of (sv_head (sql_view X K db) (commit_run c))) = Inr ()"
  shows "rows_below (commit_run c) (case db_heads db (commit_run c) of None \<Rightarrow> - 1 | Some r \<Rightarrow> hr_generation r)
           (uint (cp_revision (cm_checkpoint c))) (db_history db)"
    and "sql_put_commit (commit_run c) i (uint (cp_revision (cm_checkpoint c))) digest (db_commits db)
         = Inr (om_insert (commit_run c, i) (uint (cp_revision (cm_checkpoint c)), digest) (db_commits db))"
    and "((commit_run c, j), (v, d)) \<in> set (db_commits db) \<Longrightarrow> v < uint (cp_revision (cm_checkpoint c))"
    and "db_heads db (commit_run c) = Some row \<Longrightarrow> sv_head (sql_view X K db) (commit_run c) = Some p \<Longrightarrow>
         hr_revision row = uint (cp_revision p) \<and> unat (cp_revision p) < 2 ^ 63
         \<and> hr_generation row \<le> hr_revision row \<and> hr_revision row < uint (cp_revision (cm_checkpoint c))"
proof -
  let ?run = "commit_run c" and ?rev = "uint (cp_revision (cm_checkpoint c))"
  have "- 1 < ?rev" by (rule order.strict_trans2 [OF _ unsigned_greater_eq]) simp
  have absent: "\<not> om_contains (db_commits db) (?run, i)" and
    below: "rows_below ?run (case db_heads db ?run of None \<Rightarrow> - 1 | Some r \<Rightarrow> hr_generation r) ?rev (db_history db)" and
    commits: "\<And>j v d. ((?run, j), (v, d)) \<in> set (db_commits db) \<Longrightarrow> v < ?rev"
  proof (atomize (full), cases "db_heads db ?run")
    case None
    have at: "run_rows ?run (db_history db) = []" "\<forall>i x. ((?run, i), x) \<notin> set (db_commits db)"
      using sql_ok_at [OF ok, of ?run] None by (simp_all add: sql_run_ok_def)
    then have "om_get (db_commits db) (?run, i) = None"
      using om_get_in_set [of "db_commits db" "(?run, i)"] by (cases "om_get (db_commits db) (?run, i)") auto
    then show "\<not> om_contains (db_commits db) (?run, i)
        \<and> rows_below ?run (case db_heads db ?run of None \<Rightarrow> - 1 | Some r \<Rightarrow> hr_generation r) ?rev (db_history db)
        \<and> (\<forall>j v d. ((?run, j), (v, d)) \<in> set (db_commits db) \<longrightarrow> v < ?rev)"
      using at None \<open>- 1 < ?rev\<close> by (auto simp: om_contains_def rows_below_def)
  next
    case (Some row)
    then obtain p where p: "sql_head_ok X K db ?run row p" "sv_head (sql_view X K db) ?run = Some p"
      using sql_head_view(2) [OF ok Some] by blast
    have rev: "hr_revision row < ?rev"
      using accepted_revision_uint [of X c "core_of p"] acc p by (simp add: sql_head_ok_def)
    show "\<not> om_contains (db_commits db) (?run, i)
        \<and> rows_below ?run (case db_heads db ?run of None \<Rightarrow> - 1 | Some r \<Rightarrow> hr_generation r) ?rev (db_history db)
        \<and> (\<forall>j v d. ((?run, j), (v, d)) \<in> set (db_commits db) \<longrightarrow> v < ?rev)"
      using p(1) rev new Some
      by (fastforce simp: sql_existing_def om_contains_def rows_below_def sql_head_ok_def)
  qed
  show "rows_below ?run (case db_heads db ?run of None \<Rightarrow> - 1 | Some r \<Rightarrow> hr_generation r) ?rev (db_history db)"
    by (rule below)
  show "sql_put_commit ?run i ?rev digest (db_commits db)
      = Inr (om_insert (?run, i) (?rev, digest) (db_commits db))"
    using absent commits by (fastforce simp: sql_put_commit_def)
  show "((?run, j), (v, d)) \<in> set (db_commits db) \<Longrightarrow> v < ?rev" by (rule commits)
  assume row: "db_heads db ?run = Some row" and p: "sv_head (sql_view X K db) ?run = Some p"
  then have head: "sql_head_ok X K db ?run row p" using sql_head_view(2) [OF ok row] by auto
  then show "hr_revision row = uint (cp_revision p) \<and> unat (cp_revision p) < 2 ^ 63
      \<and> hr_generation row \<le> hr_revision row \<and> hr_revision row < ?rev"
    using accepted_revision_uint [of X c "core_of p"] acc p
    by (simp add: sql_head_ok_def)
qed

text \<open>The tables after an accepted write.\<close>

definition sql_after :: "codec \<Rightarrow> sql_db \<Rightarrow> commit \<Rightarrow> string \<Rightarrow> string \<Rightarrow> history_rows \<Rightarrow> sql_db" where
  "sql_after K db c digest core history =
     (let run = commit_run c; revision = uint (cp_revision (cm_checkpoint c));
          generation = (if delta_rewrites (cm_history c) then revision
            else case db_heads db run of None \<Rightarrow> - 1 | Some r \<Rightarrow> hr_generation r) in
      \<lparr>db_heads = (db_heads db)(run \<mapsto> \<lparr>hr_revision = revision,
          hr_checkpoint_id = cp_id (cm_checkpoint c), hr_generation = generation, hr_core = core\<rparr>),
       db_commits = om_insert (run, cp_id (cm_checkpoint c)) (revision, digest) (db_commits db),
       db_history = sql_prune run generation (cm_history c) history\<rparr>)"

definition write_generation :: "sql_db \<Rightarrow> commit \<Rightarrow> int" where
  "write_generation db c = (if delta_rewrites (cm_history c) then uint (cp_revision (cm_checkpoint c))
     else case db_heads db (commit_run c) of None \<Rightarrow> - 1 | Some r \<Rightarrow> hr_generation r)"

lemma sql_write_Inr:
  assumes ok: "sql_ok X K db" and new: "sql_existing db (commit_run c) (cp_id (cm_checkpoint c)) = None"
  shows "sql_write X K now db c digest (uint (cp_revision (cm_checkpoint c))) = Inr db' \<longleftrightarrow>
     check_deadline c now = Inr ()
     \<and> validate_against X c (map_option core_of (sv_head (sql_view X K db) (commit_run c))) = Inr ()
     \<and> (\<exists>core history. cc_core_text K (commit_core c) = Inr core
          \<and> sql_put_history K (commit_run c) (write_generation db c) (uint (cp_revision (cm_checkpoint c)))
              (cm_history c) (db_history db) = Inr history
          \<and> db' = sql_after K db c digest core history)"
    (is "?lhs \<longleftrightarrow> ?dl \<and> ?valid \<and> ?rest")
proof (cases ?valid)
  case False
  then show ?thesis
    by (auto simp: sql_write_def Let_def sql_previous [OF ok] r_bind_Inr)
next
  case True
  let ?run = "commit_run c"
  let ?rev = "uint (cp_revision (cm_checkpoint c))"
  note fresh = sql_fresh [OF ok new True]
  have gen: "(if delta_rewrites (cm_history c) then Inr ?rev
      else ok_or (Storage ''validated previous head'') (map_option hr_generation (db_heads db ?run)))
    = Inr (write_generation db c)"
  proof (cases "db_heads db ?run")
    case None
    then have "sv_head (sql_view X K db) ?run = None" by (rule sql_head_view(1) [OF ok])
    then obtain ms where "cm_history c = Initial ms" using True accepted_initial(2) [of X c] by auto
    then show ?thesis by (simp add: write_generation_def)
  qed (simp add: write_generation_def)
  have head: "sql_put_head c (map_option core_of (sv_head (sql_view X K db) ?run)) row (db_heads db)
      = Inr ((db_heads db)(?run \<mapsto> row))" for row
  proof (cases "db_heads db ?run")
    case None
    then show ?thesis using sql_head_view(1) [OF ok None] by (simp add: sql_put_head_def Let_def)
  next
    case (Some old)
    then obtain p where "sv_head (sql_view X K db) ?run = Some p" using sql_head_view(2) [OF ok Some] by blast
    then show ?thesis using fresh(4) [OF Some] Some by (simp add: sql_put_head_def Let_def)
  qed
  show ?thesis
    using True
    by (auto simp: sql_write_def Let_def sql_previous [OF ok] r_bind_Inr gen head fresh(2) sql_after_def
          write_generation_def)
qed

lemma set_om_insert: "set (om_insert k v m) \<subseteq> insert (k, v) (set m)"
  by (induction k v m rule: om_insert.induct) auto

lemma sql_seen_absent:
  assumes "sql_ok H K db" and "db_heads db run = None"
  shows "om_get (db_commits db) (run, i) = None"
  using sql_ok_at [OF assms(1), of run] assms(2) om_get_in_set [of "db_commits db" "(run, i)"]
  by (cases "om_get (db_commits db) (run, i)") (auto simp: sql_run_ok_def)

text \<open>The entries of the new history are valid: the old ones by the invariant, the delta's by its check.\<close>

lemma accepted_entries_valid:
  assumes "validate_against H c previous = Inr ()"
    and "\<forall>e \<in> set es. entry_validate e = Inr ()"
  shows "\<forall>e \<in> set (delta_apply (cm_history c) es). entry_validate e = Inr ()"
  using accepted_delta [OF assms(1)] assms(2)
  by (cases "cm_history c"; cases previous)
     (auto simp: delta_validate_def r_bind_Inr extend_digest_Inr split: if_splits)

lemma payloads_hold_snoc:
  assumes "payloads_hold K ps es" and "cc_entries_parse K p = Inr ms"
  shows "payloads_hold K (ps @ [p]) (es @ ms)"
proof -
  obtain ess where "map (cc_entries_parse K) ps = map Inr ess" "concat ess = es"
    using assms(1) by (auto simp: payloads_hold_def)
  then show ?thesis using assms(2) unfolding payloads_hold_def
    by (intro exI [of _ "ess @ [ms]"]) simp
qed

lemma payloads_hold_Nil [simp]: "payloads_hold K [] es \<longleftrightarrow> es = []"
  by (auto simp: payloads_hold_def)

lemma run_rows_payloads:
  assumes law: "codec_lawful K"
    and old: "payloads_hold K (om_values rows) es"
    and new: "rows' = (if delta_rewrites delta then [] else rows)
        @ (case delta_messages delta of None \<Rightarrow> [] | Some ms \<Rightarrow> [(k, projr (cc_entries_text K ms))])"
    and enc: "\<And>ms. delta_messages delta = Some ms \<Longrightarrow> is_ok (cc_entries_text K ms)"
  shows "payloads_hold K (om_values rows') (delta_apply delta es)"
proof -
  have parse: "cc_entries_parse K (projr (cc_entries_text K ms)) = Inr ms"
    if "delta_messages delta = Some ms" for ms
    using enc [OF that] law by (cases "cc_entries_text K ms") (auto simp: codec_lawful_def)
  show ?thesis
    using old parse payloads_hold_snoc [of K "[]" "[]"] payloads_hold_snoc [OF old]
    by (cases delta) (auto simp: new om_values_def)
qed

lemma sql_after_head:
  assumes law: "codec_lawful K" and ok: "sql_ok X K db" and scope: "sql_scope X K db c"
    and new: "sql_existing db (commit_run c) (cp_id (cm_checkpoint c)) = None"
    and acc: "validate_against X c (map_option core_of (sv_head (sql_view X K db) (commit_run c))) = Inr ()"
    and core: "cc_core_text K (commit_core c) = Inr core"
    and put: "sql_put_history K (commit_run c) (write_generation db c) (uint (cp_revision (cm_checkpoint c)))
              (cm_history c) (db_history db) = Inr history"
  shows "\<exists>row. db_heads (sql_after K db c digest core history) (commit_run c) = Some row
     \<and> sql_head_ok X K (sql_after K db c digest core history) (commit_run c) row (cm_checkpoint c)"
proof -
  let ?run = "commit_run c" and ?c = "cm_checkpoint c" and ?rev = "uint (cp_revision (cm_checkpoint c))"
  let ?db = "sql_after K db c digest core history"
  let ?g = "case db_heads db ?run of None \<Rightarrow> - 1 | Some r \<Rightarrow> hr_generation r"
  define es where "es = (case sv_head (sql_view X K db) ?run of None \<Rightarrow> [] | Some p \<Rightarrow> history_entries (cp_history p))"
  note fresh = sql_fresh [OF ok new acc]
  have rows_ok: "om_ok (db_history db)" using ok by (simp add: sql_ok_def)
  have old: "payloads_hold K (om_values (run_rows ?run (db_history db))) es
      \<and> (\<forall>e \<in> set es. entry_validate e = Inr ())"
  proof (cases "db_heads db ?run")
    case None
    then show ?thesis using sql_ok_at [OF ok, of ?run] sql_head_view(1) [OF ok None]
      by (simp add: sql_run_ok_def es_def om_values_def)
  next
    case (Some row)
    then show ?thesis using sql_head_view(2) [OF ok Some] by (auto simp: es_def sql_head_ok_def)
  qed
  have entries: "history_entries (cp_history ?c) = delta_apply (cm_history c) es" "history_ok X (cp_history ?c)"
    using scope new by (auto simp: sql_scope_def es_def)
  have put': "sql_put_history K ?run (if delta_rewrites (cm_history c) then ?rev else ?g) ?rev
      (cm_history c) (db_history db) = Inr history"
    using put by (simp add: write_generation_def)
  note w = run_rows_write [OF rows_ok fresh(1) put']
  have hist: "run_rows ?run (db_history ?db) = (if delta_rewrites (cm_history c) then [] else run_rows ?run (db_history db))
      @ (case delta_messages (cm_history c) of None \<Rightarrow> [] | Some ms \<Rightarrow>
           [((?run, if delta_rewrites (cm_history c) then ?rev else ?g, ?rev), projr (cc_entries_text K ms))])"
    using w(1) by (simp add: sql_after_def Let_def)
  have rows: "\<forall>((_, g, v), _) \<in> set (run_rows ?run (db_history ?db)).
      g = (if delta_rewrites (cm_history c) then ?rev else ?g) \<and> v \<le> ?rev"
    using fresh(1) unfolding hist by (auto simp: rows_below_def split: option.splits)
  have commits: "\<forall>i v d. ((?run, i), (v, d)) \<in> set (db_commits ?db) \<longrightarrow> v \<le> ?rev"
    using set_om_insert fresh(3) by (fastforce simp: sql_after_def Let_def)
  have g: "?g \<le> ?rev" using fresh(1) by (simp add: rows_below_def)
  have "sql_head_ok X K ?db ?run \<lparr>hr_revision = ?rev, hr_checkpoint_id = cp_id ?c,
      hr_generation = (if delta_rewrites (cm_history c) then ?rev else ?g), hr_core = core\<rparr> ?c"
    unfolding sql_head_ok_def
  proof (intro conjI)
    show "cc_core_parse K (hr_core \<lparr>hr_revision = ?rev, hr_checkpoint_id = cp_id ?c,
      hr_generation = (if delta_rewrites (cm_history c) then ?rev else ?g), hr_core = core\<rparr>) = Inr (core_of ?c)"
      using law core by (simp add: codec_lawful_def commit_core_def)
    show "payloads_hold K (om_values (run_rows ?run (db_history ?db))) (history_entries (cp_history ?c))"
      using run_rows_payloads [OF law conjunct1 [OF old] hist] w(4) entries(1) by simp
    show "\<forall>e \<in> set (history_entries (cp_history ?c)). entry_validate e = Inr ()"
      using accepted_entries_valid [OF acc conjunct2 [OF old]] entries(1) by simp
  qed (use rows commits g scope entries(2) accepted_valid [OF acc] in
        \<open>simp_all add: sql_scope_def commit_run_def\<close>)
  then show ?thesis by (simp add: sql_after_def Let_def)
qed

text \<open>The write touches the rows of its own run only.\<close>

lemma sql_run_cong:
  assumes "db_heads db' run = db_heads db run" and "run_rows run (db_history db') = run_rows run (db_history db)"
    and "\<And>i v. ((run, i), v) \<in> set (db_commits db') \<longleftrightarrow> ((run, i), v) \<in> set (db_commits db)"
  shows "sql_run_ok H K db' run = sql_run_ok H K db run"
    and "sql_head_ok H K db' run row c = sql_head_ok H K db run row c"
proof -
  show head: "sql_head_ok H K db' run row c = sql_head_ok H K db run row c" for row c
    using assms by (simp only: sql_head_ok_def)
  have "sql_head_ok H K db' run = sql_head_ok H K db run" by (intro ext) (rule head)
  then show "sql_run_ok H K db' run = sql_run_ok H K db run"
    using assms(3) by (simp add: sql_run_ok_def assms(1,2) split: option.split)
qed

lemma om_mem_insert:
  assumes "om_ok m"
  shows "kv \<in> set (om_insert k v m) \<longleftrightarrow> kv = (k, v) \<or> kv \<in> set m \<and> fst kv \<noteq> k"
proof (cases kv)
  case (Pair k' v')
  have "om_ok (om_insert k v m)" using assms by simp
  then show ?thesis using assms by (auto simp: Pair om_mem_iff)
qed

lemma sql_after_ok:
  assumes law: "codec_lawful K" and ok: "sql_ok X K db" and scope: "sql_scope X K db c"
    and new: "sql_existing db (commit_run c) (cp_id (cm_checkpoint c)) = None"
    and acc: "validate_against X c (map_option core_of (sv_head (sql_view X K db) (commit_run c))) = Inr ()"
    and core: "cc_core_text K (commit_core c) = Inr core"
    and put: "sql_put_history K (commit_run c) (write_generation db c) (uint (cp_revision (cm_checkpoint c)))
              (cm_history c) (db_history db) = Inr history"
  shows "sql_ok X K (sql_after K db c digest core history)"
    and "sql_view X K (sql_after K db c digest core history) = view_put c digest (sql_view X K db)"
proof -
  let ?run = "commit_run c" and ?db = "sql_after K db c digest core history"
  have oks: "om_ok (db_commits db)" "om_ok (db_history db)" using ok by (simp_all add: sql_ok_def)
  obtain row where row: "db_heads ?db ?run = Some row" "sql_head_ok X K ?db ?run row (cm_checkpoint c)"
    using sql_after_head [OF assms] by blast
  have put': "sql_put_history K ?run (if delta_rewrites (cm_history c) then uint (cp_revision (cm_checkpoint c))
      else case db_heads db ?run of None \<Rightarrow> - 1 | Some r \<Rightarrow> hr_generation r) (uint (cp_revision (cm_checkpoint c)))
      (cm_history c) (db_history db) = Inr history"
    using put by (simp add: write_generation_def)
  note w = run_rows_write [OF oks(2) sql_fresh(1) [OF ok new acc] put']
  have heads: "db_heads ?db run = db_heads db run" if "run \<noteq> ?run" for run
    using that by (simp add: sql_after_def Let_def)
  have rows: "run_rows run (db_history ?db) = run_rows run (db_history db)" if "run \<noteq> ?run" for run
    using w(2) [OF that] by (simp add: sql_after_def Let_def)
  have commits: "((run, i), v) \<in> set (db_commits ?db) \<longleftrightarrow> ((run, i), v) \<in> set (db_commits db)"
    if "run \<noteq> ?run" for run i v
    using that oks(1) by (simp add: sql_after_def Let_def om_mem_insert)
  note other = sql_run_cong [OF heads rows commits]
  have "sql_run_ok X K ?db run" for run
    using row sql_ok_at [OF ok, of run] other(1) [of run X K] by (cases "run = ?run") (auto simp: sql_run_ok_def)
  moreover have "om_ok (db_history ?db)" using w(3) by (simp add: sql_after_def Let_def)
  moreover have "om_ok (db_commits ?db)" using oks(1) by (simp add: sql_after_def Let_def)
  ultimately show ok': "sql_ok X K ?db" by (simp add: sql_ok_def)
  have head: "sv_head (sql_view X K ?db) run = sv_head (view_put c digest (sql_view X K db)) run" for run
  proof (cases "run = ?run")
    case True
    then show ?thesis using sql_load_head_ok [OF row] by (simp add: sql_view_def view_put_def)
  next
    case False
    show ?thesis
    proof (cases "db_heads db run")
      case None
      then show ?thesis using False heads [OF False] sql_head_view(1) [OF ok None] sql_head_view(1) [OF ok', of run]
        by (simp add: view_put_def)
    next
      case (Some r)
      then obtain p where p: "sql_head_ok X K db run r p" "sv_head (sql_view X K db) run = Some p"
        using sql_head_view(2) [OF ok] by blast
      have "sql_load_head X K ?db run = Inr (Some p)"
        using Some heads [OF False] p(1) other(2) [OF False False False, of X K r p] by (intro sql_load_head_ok) simp_all
      then show ?thesis using p(2) False by (simp add: view_put_def) (simp add: sql_view_def)
    qed
  qed
  have seen: "sv_seen (sql_view X K ?db) (run, i) = sv_seen (view_put c digest (sql_view X K db)) (run, i)" for run i
  proof (cases "run = ?run")
    case True
    have "om_get (db_commits ?db) (?run, i) = (if i = cp_id (cm_checkpoint c)
        then Some (uint (cp_revision (cm_checkpoint c)), digest) else om_get (db_commits db) (?run, i))"
      by (simp add: sql_after_def Let_def)
    then show ?thesis using row(1) True sql_seen_absent [OF ok, of ?run i]
      by (auto simp: sql_view_def view_put_def commit_key_def sql_existing_def)
  next
    case False
    then show ?thesis using heads [OF False]
      by (simp add: sql_view_def view_put_def commit_key_def sql_existing_def) (simp add: sql_after_def Let_def)
  qed
  show "sql_view X K ?db = view_put c digest (sql_view X K db)"
    using head seen by (intro store_view.equality) (auto simp: fun_eq_iff)
qed

lemma sql_put_history_live:
  assumes ok: "sql_ok X K db" and new: "sql_existing db (commit_run c) (cp_id (cm_checkpoint c)) = None"
    and acc: "validate_against X c (map_option core_of (sv_head (sql_view X K db) (commit_run c))) = Inr ()"
    and enc: "\<forall>ms. delta_messages (cm_history c) = Some ms \<longrightarrow> is_ok (cc_entries_text K ms)"
  shows "\<exists>history. sql_put_history K (commit_run c) g (uint (cp_revision (cm_checkpoint c)))
              (cm_history c) (db_history db) = Inr history"
proof (cases "delta_messages (cm_history c)")
  case (Some ms)
  let ?rev = "uint (cp_revision (cm_checkpoint c))"
  have "om_get (db_history db) (commit_run c, g, ?rev) = None"
  proof (rule ccontr)
    assume "om_get (db_history db) (commit_run c, g, ?rev) \<noteq> None"
    then obtain p where "((commit_run c, g, ?rev), p) \<in> set (db_history db)"
      using om_get_in_set by fastforce
    then show False using sql_fresh(1) [OF ok new acc] by (fastforce simp: rows_below_def run_rows_iff)
  qed
  moreover obtain payload where "cc_entries_text K ms = Inr payload"
    using enc Some by (cases "cc_entries_text K ms") auto
  ultimately show ?thesis by (simp add: sql_put_history_def Some om_contains_def)
qed (simp add: sql_put_history_def)

lemma sql_delete_ok:
  assumes ok: "sql_ok H K db" and del: "sql_delete run db = (Inr (), db')"
  shows "sql_ok H K db'" and "sql_view H K db' = spec_delete run (sql_view H K db)"
proof -
  have db': "db' = \<lparr>db_heads = (db_heads db)(run := None),
     db_commits = om_retain (\<lambda>(run', _) _. run' \<noteq> run) (db_commits db),
     db_history = om_retain (\<lambda>(run', _) _. run' \<noteq> run) (db_history db)\<rparr>"
    using del by (simp add: sql_delete_def)
  have rows: "run_rows run' (db_history db') = (if run' = run then [] else run_rows run' (db_history db))" for run'
    by (auto simp: db' run_rows_def om_retain_def filter_empty_conv intro!: filter_cong)
  have commits: "((run', i), v) \<in> set (db_commits db') \<longleftrightarrow> run' \<noteq> run \<and> ((run', i), v) \<in> set (db_commits db)" for run' i v
    by (auto simp: db' om_retain_def)
  have heads: "db_heads db' run' = (if run' = run then None else db_heads db run')" for run'
    by (simp add: db')
  have other: "sql_run_ok H K db' run' = sql_run_ok H K db run'"
    "sql_head_ok H K db' run' row c = sql_head_ok H K db run' row c" if "run' \<noteq> run" for run' row c
    using that by (intro sql_run_cong; simp add: rows commits heads)+
  have "sql_run_ok H K db' run'" for run'
    using sql_ok_at [OF ok, of run'] other(1) [of run']
    by (cases "run' = run") (simp_all add: sql_run_ok_def [of H K db' run] heads rows commits)
  then show ok': "sql_ok H K db'"
    using ok by (simp add: sql_ok_def) (simp add: db')
  have "sv_head (sql_view H K db') run' = sv_head (spec_delete run (sql_view H K db)) run'" for run'
  proof (cases "run' = run \<or> db_heads db run' = None")
    case True
    then show ?thesis using sql_head_view(1) [OF ok', of run'] sql_head_view(1) [OF ok, of run']
      by (auto simp: heads spec_delete_def)
  next
    case False
    then obtain row where "db_heads db run' = Some row" by auto
    moreover from this obtain c where "sql_head_ok H K db run' row c" using sql_ok_head [OF ok] by blast
    ultimately show ?thesis
      using False other(2) [of run' row c] heads [of run'] sql_load_head_ok [of db run' row H K c]
        sql_load_head_ok [of db' run' row H K c]
      by (simp add: spec_delete_def) (simp add: sql_view_def)
  qed
  moreover have "sv_seen (sql_view H K db') (run', i) = sv_seen (spec_delete run (sql_view H K db)) (run', i)" for run' i
  proof -
    have "om_get (db_commits db') (run', i) = (if run' \<noteq> run then om_get (db_commits db) (run', i) else None)"
      using om_get_retain_key [of "\<lambda>(r, _). r \<noteq> run" "db_commits db" "(run', i)"]
      by (simp add: db' split_def)
    then show ?thesis by (simp add: sql_view_def spec_delete_def sql_existing_def heads)
  qed
  ultimately show "sql_view H K db' = spec_delete run (sql_view H K db)"
    by (intro store_view.equality) (auto simp: fun_eq_iff)
qed

section \<open>The interpretation\<close>

definition sql_inv :: "externals \<Rightarrow> codec \<Rightarrow> sql_db \<Rightarrow> bool" where
  "sql_inv X K db \<longleftrightarrow> codec_lawful K \<and> sql_ok X K db"

lemma sql_ok_empty: "sql_ok H K \<lparr>db_heads = Map.empty, db_commits = [], db_history = []\<rparr>"
  by (simp add: sql_ok_def sql_run_ok_def run_rows_def om_retain_def)

lemma sql_commit_Inr:
  assumes inv: "sql_inv X K db" and scope: "sql_scope X K db c"
  shows "sql_commit X K delay now db c = (Inr (), db') \<Longrightarrow>
      spec_commit X (sql_view X K db) c = Inr (sql_view X K db') \<and> sql_inv X K db'"
    and "cm_deadline c = None \<Longrightarrow> spec_commit X (sql_view X K db) c = Inr v \<Longrightarrow>
      \<exists>db'. sql_commit X K delay now db c = (Inr (), db')"
proof -
  let ?i = "cp_id (cm_checkpoint c)"
  have law: "codec_lawful K" and ok: "sql_ok X K db" using inv by (simp_all add: sql_inv_def)
  have rev: "unat (cp_revision (cm_checkpoint c)) < 2 ^ 63" using scope by (simp add: sql_scope_def)
  have seen: "sv_seen (sql_view X K db) (commit_key c) = sql_existing db (commit_run c) ?i"
    by (simp add: sql_view_def commit_key_def)
  show "spec_commit X (sql_view X K db) c = Inr (sql_view X K db') \<and> sql_inv X K db'"
    if "sql_commit X K delay now db c = (Inr (), db')"
  proof -
    have tx: "sql_commit_tx X K delay now db c = Inr db'"
      using that by (auto simp: sql_commit_def split: sum.splits)
    then obtain digest where digest: "commit_digest X c = Inr digest"
      by (auto simp: sql_commit_tx_def r_bind_Inr)
    show ?thesis
    proof (cases "sql_existing db (commit_run c) ?i")
      case (Some old)
      then show ?thesis using tx digest rev inv
        by (auto simp: sql_commit_tx_def spec_commit_def seen split: if_splits)
    next
      case None
      then have "sql_write X K now db c digest (uint (cp_revision (cm_checkpoint c))) = Inr db'"
        using tx digest rev by (simp add: sql_commit_tx_def r_bind_Inr)
      then obtain core history where
        acc: "validate_against X c (map_option core_of (sv_head (sql_view X K db) (commit_run c))) = Inr ()"
        and core: "cc_core_text K (commit_core c) = Inr core"
        and put: "sql_put_history K (commit_run c) (write_generation db c)
          (uint (cp_revision (cm_checkpoint c))) (cm_history c) (db_history db) = Inr history"
        and db': "db' = sql_after K db c digest core history"
        unfolding sql_write_Inr [OF ok None] by blast
      show ?thesis
        using sql_after_ok [OF law ok scope None acc core put] digest None acc law
        by (simp add: db' spec_commit_def seen sql_inv_def)
    qed
  qed
  show "\<exists>db'. sql_commit X K delay now db c = (Inr (), db')"
    if nodl: "cm_deadline c = None" and spec: "spec_commit X (sql_view X K db) c = Inr v"
    using spec
  proof (cases rule: spec_commit_cases)
    case (again digest)
    then show ?thesis using rev by (simp add: sql_commit_def sql_commit_tx_def seen)
  next
    case (fresh digest)
    have none: "sql_existing db (commit_run c) ?i = None" using fresh(2) seen by simp
    obtain core where "cc_core_text K (commit_core c) = Inr core"
      using scope by (cases "cc_core_text K (commit_core c)") (auto simp: sql_scope_def)
    moreover obtain history where "sql_put_history K (commit_run c) (write_generation db c)
        (uint (cp_revision (cm_checkpoint c))) (cm_history c) (db_history db) = Inr history"
      using sql_put_history_live [OF ok none fresh(3)] scope by (auto simp: sql_scope_def)
    ultimately have "sql_write X K now db c digest (uint (cp_revision (cm_checkpoint c)))
        = Inr (sql_after K db c digest core history)"
      unfolding sql_write_Inr [OF ok none] using fresh(3) nodl by (auto simp: check_deadline_def)
    then show ?thesis using fresh(1) none rev nodl
      by (simp add: sql_commit_def sql_commit_tx_def check_deadline_def)
  qed
qed

interpretation sql: run_store X "sql_commit X K delay" "sql_load_head X K" sql_delete "sql_view X K"
    "sql_inv X K" "sql_scope X K"
  for X K delay
proof
  fix db c now db'
  assume "sql_inv X K db" "sql_scope X K db c" "sql_commit X K delay now db c = (Inr (), db')"
  then show "spec_commit X (sql_view X K db) c = Inr (sql_view X K db')"
    using sql_commit_Inr(1) by blast
next
  fix db c now e db'
  assume "sql_commit X K delay now db c = (Inl e, db')"
  then show "db' = db" by (auto simp: sql_commit_def split: sum.splits)
next
  fix db c now v
  assume "sql_inv X K db" "sql_scope X K db c" "cm_deadline c = None"
    "spec_commit X (sql_view X K db) c = Inr v"
  then show "\<exists>db'. sql_commit X K delay now db c = (Inr (), db')"
    using sql_commit_Inr(2) by blast
next
  fix db c now r db'
  assume a: "sql_inv X K db" "sql_scope X K db c" "sql_commit X K delay now db c = (r, db')"
  then show "sql_inv X K db'"
    using sql_commit_Inr(1) [OF a(1,2), of delay now db']
    by (cases r) (auto simp: sql_commit_def split: sum.splits)
next
  fix db run
  assume "sql_inv X K db"
  then show "sql_load_head X K db run = Inr (sv_head (sql_view X K db) run)"
    by (simp add: sql_inv_def sql_load_view)
next
  fix db run
  assume "sql_inv X K db"
  then show "\<exists>db'. sql_delete run db = (Inr (), db') \<and> sql_view X K db' = spec_delete run (sql_view X K db)
      \<and> sql_inv X K db'"
    using sql_delete_ok [of X K db run] by (auto simp: sql_inv_def sql_delete_def)
qed

end
