(* ===== verification/Samples.thy ===== *)
theory Samples
  imports Engine_Reach Admission_Bounds Sql_Store "HOL-Library.Code_Target_Nat"
begin

text \<open>
  Concrete values at which the properties of the development are applied: a hash and encodings that
  stand in for SHA-256 and the JSON library, a run with small limits, a model that generates on
  request, and the kernel environment that puts them behind an engine with the store in memory.
\<close>

section \<open>Hashing and encodings\<close>

definition sample_bytes :: "string \<Rightarrow> bytes" where
  "sample_bytes s = map (\<lambda>c. of_nat (of_char c)) s"

definition sample_hash :: "bytes \<Rightarrow> bytes" where
  "sample_hash bs = take 32 (rev bs @ replicate 32 0)"

definition sample_ext :: externals where
  "sample_ext = \<lparr>hash_sha256 = sample_hash, hash_entry_json = (\<lambda>e. Inr (sample_bytes (he_id e))),
     ext_core_json = (\<lambda>co. Inr (sample_bytes (co_id co)))\<rparr>"

section \<open>A run\<close>

definition sample_limits :: limits where
  "sample_limits = \<lparr>lim_max_generation_requests = 8, lim_max_runtime_tool_calls = 8,
     lim_max_inflight_operations = 4, lim_max_control_commands = 8, lim_max_session_events = 8,
     lim_max_media_streams = 2, lim_max_media_chunk_bytes = 16, lim_max_buffered_media_bytes = 64,
     lim_max_buffered_media_packets = 8, lim_max_operation_concurrency = 2,
     lim_max_observer_events = 8, lim_max_total_tokens = None, lim_elapsed_ms = None,
     lim_commit_timeout_ms = 100\<rparr>"

definition sample_profile :: request_profile where
  "sample_profile = \<lparr>rp_generation = \<lparr>gp_temperature = None, gp_max_output_tokens = None,
       gp_seed = None, gp_parallel_runtime_tools = None\<rparr>,
     rp_serving = None, rp_reasoning = None, rp_language = None, rp_interaction = None,
     rp_alternatives = [], rp_extensions = []\<rparr>"

definition sample_options :: run_options where
  "sample_options = \<lparr>ro_runtime_tools = SelectAll, ro_limits = sample_limits,
     ro_profile = sample_profile, ro_mode = Task, ro_provider_tools = [], ro_tool_choice = ChoiceAuto,
     ro_response_format = None, ro_stream = False\<rparr>"

definition sample_context :: run_context where
  "sample_context = \<lparr>rc_run_id = ''run'', rc_started_at_ms = 1, rc_deadline_at_ms = None,
     rc_parent_run_id = None, rc_parent_runtime_tool_call_id = None, rc_metadata = []\<rparr>"

definition sample_entry :: history_entry where
  "sample_entry = \<lparr>he_id = ''input:0'', he_origin = None, he_message = User [Text ''hello'']\<rparr>"

definition sample_history :: history where
  "sample_history = projr (history_from_entries sample_ext [sample_entry])"

lemma sample_history_ok: "history_ok sample_ext sample_history" "history_entries sample_history = [sample_entry]"
proof -
  have "is_ok (history_from_entries sample_ext [sample_entry])" by code_simp
  then have "history_from_entries sample_ext [sample_entry] = Inr sample_history"
    by (simp add: sample_history_def is_ok_def split: sum.splits)
  from history_from_entries_ok [OF this]
  show "history_ok sample_ext sample_history" "history_entries sample_history = [sample_entry]" by blast+
qed

definition sample_request :: request where
  "sample_request = RequestStart sample_history sample_context sample_options"

definition sample_checkpoint :: checkpoint where
  "sample_checkpoint = fst (initial counted_id 0 sample_request)"

text \<open>The model called a tool: the entry of the call, its queued operation, the next checkpoint.\<close>

definition sample_origin :: call_ref where
  "sample_origin = \<lparr>cr_session_id = ''id-0'', cr_item_id = ''item'', cr_generation_id = Some ''g'',
     cr_caller_id = ''model'', cr_call_id = ''call''\<rparr>"

definition sample_call :: runtime_tool_call where
  "sample_call = \<lparr>rtc_id = ''call'', rtc_name = ''tool'', rtc_input = Freeform ''x''\<rparr>"

definition sample_call_entry :: history_entry where
  "sample_call_entry = \<lparr>he_id = ''output'', he_origin = Some sample_origin,
     he_message = Assistant [RuntimeToolCall sample_call] Null\<rparr>"

definition sample_operation :: operation_record where
  "sample_operation = \<lparr>op_id = ''op'', op_origin = sample_origin, op_owner = OwnerRuntimeTool ''tool'',
     op_state = Running, op_call_entry = 1, op_result_entry = None, op_recovery = None,
     op_last_sequence = Some 3, op_last_update = Some (UpdateProgress Null), op_wait = None\<rparr>"

definition sample_working :: checkpoint where
  "sample_working = sample_checkpoint\<lparr>cp_id := ''second'', cp_parent_id := Some (cp_id sample_checkpoint),
     cp_revision := 1, cp_history := projr (history_append sample_ext sample_history [sample_call_entry]),
     cp_active := (cp_active sample_checkpoint)\<lparr>ac_operations := [(''op'', sample_operation)]\<rparr>,
     cp_fact := FSession ''id-0'' 1\<rparr>"

definition sample_first_commit :: commit where
  "sample_first_commit = commit_new sample_checkpoint (Initial [sample_entry])"

definition sample_next_commit :: commit where
  "sample_next_commit = commit_new sample_working (Append [sample_call_entry])"

definition sample_suspended :: checkpoint where
  "sample_suspended = sample_checkpoint\<lparr>cp_state := StSuspended (runtime_suspension WaitInput)\<rparr>"

section \<open>A model and its environment\<close>

definition sample_capabilities :: capability_set where
  "sample_capabilities = \<lparr>cap_input_modalities = [''text''], cap_output_modalities = [''text''],
     cap_features = {ExplicitGeneration, ResponseEvents, CapReplaceContext},
     cap_tool_choices = [''auto''], cap_constraints = [], cap_extensions = []\<rparr>"

definition sample_opened :: opened_session where
  "sample_opened = \<lparr>os_binding = None, os_capabilities = sample_capabilities,
     os_media_input = False, os_media_output = False\<rparr>"

definition sample_env :: "'st kernel_env" where
  "sample_env = \<lparr>ke_ext = sample_ext, ke_json_text = (\<lambda>v. ''json''), ke_debug = (\<lambda>s. s),
     ke_new_id = counted_id, ke_now = (\<lambda>n. n), ke_cancelled = (\<lambda>_. False),
     ke_store_commit = (\<lambda>_ st _. (Inr (), st)), ke_commit_fate = (\<lambda>_. None),
     ke_model_capabilities = sample_capabilities,
     ke_negotiate = (\<lambda>_ _. Inr negotiated_default), ke_reducer = None,
     ke_write_archive = None, ke_read_archive = (\<lambda>_. Inl (Invalid ''no archive'')),
     ke_archive_depth = 0, ke_schedule = (\<lambda>cs specs. default_select cs specs),
     ke_bind = (\<lambda>_. Inl (Catalog EmptyName)), ke_open_catalog = (\<lambda>_. Inr []),
     ke_open_session = (\<lambda>_. Inr sample_opened), ke_has_delegation = False, ke_has_approval = False\<rparr>"

text \<open>An engine in the middle of the run of \<open>sample_working\<close>, on a store that accepts everything.\<close>

definition sample_engine :: "unit engine" where
  "sample_engine = (engine_new () None 10 0 0 sample_working)
     \<lparr>en_session := Some sample_capabilities\<rparr>"

lemma sample_longer_parts:
  "history_ok sample_ext (cp_history sample_working)"
  "history_entries (cp_history sample_working) = [sample_entry, sample_call_entry]"
proof -
  have "is_ok (history_append sample_ext sample_history [sample_call_entry])" by code_simp
  then have "history_append sample_ext sample_history [sample_call_entry] = Inr (cp_history sample_working)"
    by (simp add: sample_working_def is_ok_def split: sum.splits)
  from history_append_ok [OF sample_history_ok(1) this]
  show "history_ok sample_ext (cp_history sample_working)"
    "history_entries (cp_history sample_working) = [sample_entry, sample_call_entry]"
    by (simp_all add: sample_history_ok)
qed

text \<open>The run on the store in memory, from its start to the first state of its loop.\<close>

definition sample_run :: "mem_store engine" where
  "sample_run = projr (execute_start (on_memory sample_env) mem_new 0 sample_request)"

definition sample_started :: "mem_store engine" where
  "sample_started = snd (start_up (on_memory sample_env) [] [] sample_request sample_run)"

lemma sample_run_starts:
  "execute_start (on_memory sample_env) mem_new 0 sample_request = Inr sample_run"
  "start_up (on_memory sample_env) [] [] sample_request sample_run = (Inr (), sample_started)"
proof -
  have *: "case execute_start (on_memory sample_env) mem_new 0 sample_request of Inl _ \<Rightarrow> False
      | Inr e \<Rightarrow> fst (start_up (on_memory sample_env) [] [] sample_request e) = Inr ()"
    by code_simp
  then show run: "execute_start (on_memory sample_env) mem_new 0 sample_request = Inr sample_run"
    by (simp add: sample_run_def split: sum.splits)
  show "start_up (on_memory sample_env) [] [] sample_request sample_run = (Inr (), sample_started)"
    using * by (simp add: run sample_started_def prod_eq_iff)
qed

end
