(* ===== verification/Core_Properties.thy ===== *)
theory Core_Properties
  imports Samples
begin

text \<open>
  The properties of the core data: histories and their index, outputs, usage, checkpoints, tickets and
  the chain of commits. Each is followed by an application to concrete values.
\<close>

section \<open>Histories\<close>

definition sample_longer :: history where
  "sample_longer = projr (history_append sample_ext sample_history [sample_call_entry])"

lemma sample_longer_append: "history_append sample_ext sample_history [sample_call_entry] = Inr sample_longer"
proof -
  have "is_ok (history_append sample_ext sample_history [sample_call_entry])" by code_simp
  then show ?thesis by (simp add: sample_longer_def is_ok_def split: sum.splits)
qed

text \<open>
  Appending entries keeps the chunked representation well formed (full chunks, cached lengths and
  prefix digests, the index of identities and calls) and adds exactly those entries at the end.
\<close>

theorem history_append_entries:
  assumes "history_ok H h" and "history_append H h es = Inr h'"
  shows "history_ok H h' \<and> history_entries h' = history_entries h @ es
    \<and> hist_len h' = hist_len h + length es \<and> (\<forall>i. history_get h' i =
        (if i < hist_len h' then Some ((history_entries h @ es) ! i) else None))"
  using history_append_ok [OF assms] history_ok_len [OF assms(1)] history_ok_len [of H h'] history_get_nth [of H h']
  by auto

theorem history_append_entries_witness:
  "history_entries sample_longer = [sample_entry, sample_call_entry] \<and> history_get sample_longer 1 = Some sample_call_entry"
  using history_append_entries [OF sample_history_ok(1) sample_longer_append]
  by (simp add: sample_history_ok history_ok_len [OF sample_history_ok(1)])

text \<open>
  A history that is rebuilt from its entries, as a store does when it loads a run, is the same
  history, chunk by chunk and digest by digest.
\<close>

theorem history_rebuilt:
  assumes "history_ok H h" and "\<forall>e \<in> set (history_entries h). entry_validate e = Inr ()"
  shows "history_from_entries H (history_entries h) = Inr h"
  by (rule history_from_entries_roundtrip [OF assms])

theorem history_rebuilt_witness: "history_from_entries sample_ext [sample_entry] = Inr sample_history"
proof -
  have "\<forall>e \<in> set (history_entries sample_history). entry_validate e = Inr ()"
    unfolding sample_history_ok by code_simp
  from history_rebuilt [OF sample_history_ok(1) this] show ?thesis by (simp add: sample_history_ok)
qed

text \<open>
  The digest stands for the content. Two well-formed histories with the same length and digest are
  equal, when the encoding of entries is injective and the hash does not collide on their inputs.
\<close>

theorem history_digest_determines:
  assumes "history_ok H a" and "history_ok H b" and "hashing_lawful H"
    and "collision_free H (history_entries a) (history_entries b)"
    and "hist_len a = hist_len b" and "hist_digest a = hist_digest b"
  shows "a = b"
proof -
  have "history_entries a = history_entries b"
    using digest_chain_unique [OF assms(3,4)] assms(5,6)
    by (simp add: history_ok_len [OF assms(1)] history_ok_len [OF assms(2)]
        history_ok_digest [OF assms(1)] history_ok_digest [OF assms(2)])
  then show ?thesis using history_ok_unique assms(1,2) by blast
qed

text \<open>An encoding that is defined for two entries and tells them apart, and a hash of 32 bytes.\<close>

definition lawful_ext :: externals where
  "lawful_ext = sample_ext\<lparr>hash_entry_json := (\<lambda>e. if e = sample_entry then Inr [1]
     else if e = sample_call_entry then Inr [2] else Inl ''unknown entry'')\<rparr>"

definition lawful_history :: "history_entry list \<Rightarrow> history" where
  "lawful_history es = projr (history_from_entries lawful_ext es)"

lemma lawful_ext: "hashing_lawful lawful_ext"
  by (auto simp: hashing_lawful_def lawful_ext_def sample_ext_def sample_hash_def is_ok_def split: if_splits)

lemma lawful_history_ok:
  assumes "is_ok (history_from_entries lawful_ext es)"
  shows "history_ok lawful_ext (lawful_history es)" "history_entries (lawful_history es) = es"
  using history_from_entries_ok [of lawful_ext es "lawful_history es"] assms
  by (auto simp: lawful_history_def is_ok_def split: sum.splits)

lemma sample_entries_valid: "entry_validate sample_entry = Inr ()" "entry_validate sample_call_entry = Inr ()"
  by code_simp+

lemma lawful_rebuilds:
  "is_ok (history_from_entries lawful_ext [sample_entry])"
  "is_ok (history_from_entries lawful_ext [sample_entry, sample_call_entry])"
  by (simp_all add: history_from_entries_def history_push_def sample_entries_valid append_digest_def lawful_ext_def
        history_default_def is_ok_def Let_def)


lemma lawful_collision_free: "collision_free lawful_ext [sample_entry, sample_call_entry] [sample_entry]"
proof -
  have chain: "digest_inputs lawful_ext zero_digest [sample_entry, sample_call_entry]
      = [digest_input zero_digest [1], digest_input (sample_hash (digest_input zero_digest [1])) [2]]"
    "digest_inputs lawful_ext zero_digest [sample_entry] = [digest_input zero_digest [1]]"
    by (simp_all add: lawful_ext_def sample_ext_def sample_entry_def sample_call_entry_def append_digest_def)
  have "sample_hash (digest_input zero_digest [1]) \<noteq> sample_hash (digest_input (sample_hash (digest_input zero_digest [1])) [2])"
    by (simp add: sample_hash_def digest_input_def)
  then have "inj_on sample_hash {digest_input zero_digest [1],
      digest_input (sample_hash (digest_input zero_digest [1])) [2]}"
    by (auto simp: inj_on_def)
  then show ?thesis
    unfolding collision_free_def chain by (simp add: lawful_ext_def sample_ext_def insert_commute)
qed

lemma collision_free_self: "collision_free H es es' \<Longrightarrow> collision_free H es es"
  unfolding collision_free_def by (erule inj_on_subset) simp

theorem history_digest_determines_witness: "lawful_history [sample_entry] = lawful_history [sample_entry]"
proof -
  note h = lawful_history_ok [OF lawful_rebuilds(1)]
  have "collision_free lawful_ext [sample_entry] [sample_entry]"
    by (rule collision_free_take [OF lawful_collision_free, of _ 1, simplified take_Suc take_0, simplified])
       (use history_ok_digest [OF lawful_history_ok(1) [OF lawful_rebuilds(2)]] in
         \<open>simp add: lawful_history_ok(2) [OF lawful_rebuilds(2)]\<close>)
  then show ?thesis
    by (intro history_digest_determines [OF h(1) h(1) lawful_ext]) (simp_all add: h(2))
qed

text \<open>
  \<open>appended_since\<close> returns exactly the entries added to an earlier history, and whenever it
  returns entries the earlier history is a prefix, although only digests are compared.
\<close>

lemma appended_since_is_suffix:
  assumes "history_ok H p" and "history_ok H h" and "hashing_lawful H"
    and "collision_free H (history_entries h) (history_entries p)"
  shows "appended_since h p = Some (Inr es) \<longleftrightarrow> history_entries h = history_entries p @ es"
proof
  show "appended_since h p = Some (Inr es) \<Longrightarrow> history_entries h = history_entries p @ es"
    by (rule appended_since_prefix [OF assms(2,1,3,4)])
next
  assume *: "history_entries h = history_entries p @ es"
  have len: "hist_len p \<le> hist_len h" "hist_len p = length (history_entries p)"
    using * by (simp_all add: history_ok_len [OF assms(1)] history_ok_len [OF assms(2)])
  show "appended_since h p = Some (Inr es)"
    using history_ok_digest [OF assms(1)] len
    by (simp add: appended_since_spec [OF assms(2,1)] *)
qed

lemma appended_since_is_suffix_witness:
  "appended_since (lawful_history [sample_entry, sample_call_entry]) (lawful_history [sample_entry])
     = Some (Inr [sample_call_entry])"
proof -
  note p = lawful_history_ok [OF lawful_rebuilds(1)] and h = lawful_history_ok [OF lawful_rebuilds(2)]
  show ?thesis
    using appended_since_is_suffix [OF p(1) h(1) lawful_ext] lawful_collision_free by (simp add: p(2) h(2))
qed

text \<open>
  C14: in a valid history the index finds an entry by its identity if and only if the history holds it,
  and the pending calls and delegations are exactly those emitted and not yet settled.
\<close>

theorem history_index_exact:
  assumes "history_ok H h" and "history_validate h = Inr ()"
  shows "(history_by_id h i = Some e \<longleftrightarrow> e \<in> set (history_entries h) \<and> he_id e = i)
    \<and> ((r, c) \<in> set (pending_calls h) \<longleftrightarrow>
         (r, Some c) \<in> set (emitted (history_entries h)) \<and> r \<notin> set (settled (history_entries h)))
    \<and> (r \<in> set (pending_delegations h) \<longleftrightarrow>
         (r, None) \<in> set (emitted (history_entries h)) \<and> r \<notin> set (settled (history_entries h)))"
  using history_by_id_iff [OF assms] pending_calls_iff [OF assms] pending_delegations_iff [OF assms] by blast

theorem history_index_exact_witness: "(sample_origin, sample_call) \<in> set (pending_calls sample_longer)"
proof -
  have ok: "history_ok sample_ext sample_longer" "history_entries sample_longer = [sample_entry, sample_call_entry]"
    using history_append_ok [OF sample_history_ok(1) sample_longer_append] by (simp_all add: sample_history_ok)
  have valid: "history_validate sample_longer = Inr ()" by code_simp
  have "(sample_origin, Some sample_call) \<in> set (emitted (history_entries sample_longer))
      \<and> sample_origin \<notin> set (settled (history_entries sample_longer))"
    unfolding ok by code_simp
  then show ?thesis using history_index_exact [OF ok(1) valid] by blast
qed

section \<open>Outputs and usage\<close>

text \<open>
  The loop of \<open>validate_output\<close> accepts an output exactly when every item is valid on its own and
  no two calls, of whatever kind, share an identity.
\<close>

theorem validate_output_exact:
  "validate_output items = Inr () \<longleftrightarrow> list_all output_ok items \<and> distinct (output_ids items)"
  by (simp add: validate_output_Inr list_all_iff)

text \<open>
  Usage is accumulated without overflow: the total after any number of responses is the exact sum,
  cut at the largest 64-bit value.
\<close>

lemma usage_total_saturates:
  "tokens_nat (us_total_tokens (foldl usage_add u us))
     = min (tokens_nat (us_total_tokens u) + (\<Sum>x\<leftarrow>us. tokens_nat (us_total_tokens x))) (2 ^ 64 - 1)"
proof -
  have "us_total_tokens (foldl usage_add u us) = foldl tokens_add (us_total_tokens u) (map us_total_tokens us)"
    by (induction us arbitrary: u) (simp_all add: usage_add_def)
  then show ?thesis using tokens_nat_sum [of "us_total_tokens u" "map us_total_tokens us"] by (simp add: comp_def)
qed

section \<open>Checkpoints and tickets\<close>




text \<open>
  A ticket is accepted for a checkpoint exactly when the checkpoint is valid and suspended with the
  ticket's suspension, and the run, the checkpoint and the revision are those of the ticket.
\<close>

theorem ticket_accepted_exactly:
  "ticket_check t c = Inr () \<longleftrightarrow>
     checkpoint_validate c = Inr () \<and> cp_state c = StSuspended (tk_suspension t)
     \<and> tk_run_id t = rc_run_id (cp_context c) \<and> tk_checkpoint_id t = cp_id c
     \<and> tk_revision t = cp_revision c"
  by (rule ticket_check_iff)

section \<open>The chain of commits\<close>

lemma sample_accepted: "validate_against sample_ext sample_next_commit (Some (core_of sample_checkpoint)) = Inr ()"
  by code_simp

text \<open>
  C10: an accepted commit is the successor of the head it was validated against: the revision grows by
  one without wrapping, the options, the run and the session stay, the head was not terminal, and a
  suspended head is only left by an attachment.
\<close>

theorem accepted_commit_succeeds_head:
  assumes "validate_against H c (Some p) = Inr ()"
  shows "unat (cp_revision (cm_checkpoint c)) = unat (co_revision p) + 1
    \<and> cp_parent_id (cm_checkpoint c) = Some (co_id p) \<and> cp_options (cm_checkpoint c) = co_options p
    \<and> rc_run_id (cp_context (cm_checkpoint c)) = rc_run_id (co_context p)
    \<and> \<not> state_terminal (co_state p)
    \<and> (state_is_suspended (co_state p) \<longrightarrow> cp_fact (cm_checkpoint c) = FAttached)
    \<and> run_monotone p (core_of (cm_checkpoint c)) \<and> checkpoint_validate (cm_checkpoint c) = Inr ()"
  using accepted_revision_step [OF assms] accepted_parent [OF assms] accepted_options [OF assms refl]
    accepted_run [OF assms refl] followsD(2-4) [OF accepted_follows [OF assms refl]] accepted_valid [OF assms]
  by (simp add: commit_core_def)

theorem accepted_commit_succeeds_head_witness:
  "unat (cp_revision sample_working) = unat (cp_revision sample_checkpoint) + 1"
  using accepted_commit_succeeds_head [OF sample_accepted]
  by (simp add: sample_next_commit_def commit_new_def)

text \<open>
  C5: an accepted commit never loses or rewrites work: an unfinished operation stays, an operation keeps
  its origin, owner and call, a settled one is unchanged, and a sequence of its updates never decreases.
\<close>

theorem accepted_commit_keeps_operations:
  assumes "validate_against H c (Some p) = Inr ()" and "(i, old) \<in> set (ac_operations (co_active p))"
  shows "case om_get (cp_operations (cm_checkpoint c)) i of
      None \<Rightarrow> op_terminal (op_state old)
    | Some new \<Rightarrow> op_origin new = op_origin old \<and> op_owner new = op_owner old
        \<and> op_call_entry new = op_call_entry old \<and> (op_terminal (op_state old) \<longrightarrow> new = old)
        \<and> (\<forall>s. op_last_sequence old = Some s \<longrightarrow> (\<exists>s'. op_last_sequence new = Some s' \<and> s \<le> s'))"
  using operation_advancesD [OF follows_operations [OF accepted_follows [OF assms(1) refl] assms(2)]]
  by (auto simp: commit_core_def split: option.split)

definition sample_third :: checkpoint where
  "sample_third = sample_working\<lparr>cp_id := ''third'', cp_parent_id := Some ''second'', cp_revision := 2,
     cp_active := (cp_active sample_working)\<lparr>ac_operations :=
       [(''op'', sample_operation\<lparr>op_state := Waiting, op_last_sequence := Some 4\<rparr>)]\<rparr>\<rparr>"

theorem accepted_commit_keeps_operations_witness:
  "\<exists>new. om_get (cp_operations sample_third) ''op'' = Some new \<and> op_origin new = sample_origin"
proof -
  have ok: "validate_against sample_ext (commit_new sample_third Unchanged) (Some (core_of sample_working)) = Inr ()"
    by code_simp
  have mem: "(''op'', sample_operation) \<in> set (ac_operations (co_active (core_of sample_working)))"
    by (simp add: sample_working_def)
  show ?thesis
    using accepted_commit_keeps_operations [OF ok mem]
    by (auto simp: commit_new_def sample_third_def om_get_def sample_operation_def split: option.splits)
qed

text \<open>
  The history a commit is accepted with is the history of the head changed by the committed delta,
  entry by entry, although only the count and the digest are compared.
\<close>

theorem accepted_commit_history:
  assumes "validate_against H c (Some (core_of p)) = Inr ()" and "history_ok H (cp_history p)"
    and "history_ok H (cp_history (cm_checkpoint c))" and "hashing_lawful H"
    and "collision_free H (delta_apply (cm_history c) (history_entries (cp_history p)))
           (history_entries (cp_history (cm_checkpoint c)))"
  shows "history_entries (cp_history (cm_checkpoint c)) = delta_apply (cm_history c) (history_entries (cp_history p))"
  using digest_chain_unique [OF assms(4,5)] accepted_history [OF assms(1,2)]
  by (simp add: history_ok_len [OF assms(3)] history_ok_digest [OF assms(3)])

definition lawful_first :: checkpoint where
  "lawful_first = sample_checkpoint\<lparr>cp_history := lawful_history [sample_entry]\<rparr>"

definition lawful_second :: checkpoint where
  "lawful_second = sample_working\<lparr>cp_history := lawful_history [sample_entry, sample_call_entry]\<rparr>"

theorem accepted_commit_history_witness:
  "history_entries (cp_history lawful_second)
     = delta_apply (Append [sample_call_entry]) (history_entries (cp_history lawful_first))"
proof -
  note p = lawful_history_ok [OF lawful_rebuilds(1)] and h = lawful_history_ok [OF lawful_rebuilds(2)]
  let ?c = "commit_new lawful_second (Append [sample_call_entry])"
  have acc: "validate_against lawful_ext ?c (Some (core_of lawful_first)) = Inr ()" by code_simp
  have parts: "cp_history lawful_first = lawful_history [sample_entry]"
    "cp_history lawful_second = lawful_history [sample_entry, sample_call_entry]"
    "cm_history ?c = Append [sample_call_entry]" "cm_checkpoint ?c = lawful_second"
    by (simp_all add: lawful_first_def lawful_second_def commit_new_def)
  have free: "collision_free lawful_ext [sample_entry, sample_call_entry] [sample_entry, sample_call_entry]"
    by (rule collision_free_self [OF lawful_collision_free])
  have "history_entries (cp_history (cm_checkpoint ?c))
      = delta_apply (cm_history ?c) (history_entries (cp_history lawful_first))"
    by (rule accepted_commit_history [OF acc _ _ lawful_ext]) (simp_all add: parts p h free)
  then show ?thesis by (simp add: parts)
qed

end
