(* ===== verification/Text_Forms.thy ===== *)
theory Text_Forms
  imports Zhir_Prelude
begin

text \<open>
  What the program uses of Rust's strings beyond the prelude: splitting at the first colon, reading a
  \<open>u64\<close>, and \<open>str::from_utf8\<close> with the text of its error. Bytes off the wire are characters too, so text
  is the bytes that pass \<open>utf8_text\<close>.
\<close>

section \<open>Numbers\<close>

text \<open>\<open>split_once(':')\<close> and \<open>parse::<u64>\<close>, which also takes a leading plus sign.\<close>

fun split_colon :: "string \<Rightarrow> (string \<times> string) option" where
  "split_colon [] = None"
| "split_colon (c # s) = (if c = CHR '':'' then Some ([], s)
     else map_option (\<lambda>(a, b). (c # a, b)) (split_colon s))"

fun parse_digits :: "nat \<Rightarrow> string \<Rightarrow> string + nat" where
  "parse_digits acc [] = Inr acc"
| "parse_digits acc (c # s) = (let n = of_char c :: nat in
     if n < 48 \<or> 57 < n then Inl ''invalid digit found in string''
     else if 2 ^ 64 \<le> 10 * acc + (n - 48) then Inl ''number too large to fit in target type''
     else parse_digits (10 * acc + (n - 48)) s)"

definition parse_u64 :: "string \<Rightarrow> string + u64" where
  "parse_u64 s = (if s = [] then Inl ''cannot parse integer from empty string''
     else r_bind (parse_digits 0 (if hd s = CHR ''+'' \<and> tl s \<noteq> [] then tl s else s)) (\<lambda>n. Inr (of_nat n)))"

definition ascii_digit :: "char \<Rightarrow> bool" where
  "ascii_digit c = (let n = of_char c :: nat in 48 \<le> n \<and> n \<le> 57)"

lemma split_colon_append: "CHR '':'' \<notin> set a \<Longrightarrow> split_colon (a @ CHR '':'' # b) = Some (a, b)"
  by (induction a) auto

lemma parse_digits_append:
  "parse_digits acc (s @ t) = r_bind (parse_digits acc s) (\<lambda>n. parse_digits n t)"
  by (induction acc s rule: parse_digits.induct) (auto simp: Let_def)

lemma dec_unfold: "dec n = (if n < 10 then [char_of (48 + n)] else dec (n div 10) @ [char_of (48 + n mod 10)])"
  by (subst dec.simps) simp

lemma parse_digits_dec: "n < 2 ^ 64 \<Longrightarrow> parse_digits 0 (dec n) = Inr n"
proof (induction n rule: dec.induct)
  case (1 n)
  show ?case
  proof (cases "n < 10")
    case True
    then show ?thesis by (subst dec_unfold) simp
  next
    case False
    have "n div 10 < 2 ^ 64" using 1(2) by linarith
    then have "parse_digits 0 (dec (n div 10)) = Inr (n div 10)" using 1(1) False by blast
    then show ?thesis using False 1(2) by (subst dec_unfold) (simp add: parse_digits_append Let_def)
  qed
qed

lemma dec_digit: "c \<in> set (dec n) \<Longrightarrow> 48 \<le> (of_char c :: nat) \<and> (of_char c :: nat) \<le> 57"
proof (induction n rule: dec.induct)
  case (1 n)
  show ?case
  proof (cases "n < 10")
    case True
    then show ?thesis using 1(2) by (subst (asm) dec_unfold) auto
  next
    case False
    then have "c \<in> set (dec (n div 10)) \<or> c = char_of (48 + n mod 10)"
      using 1(2) by (subst (asm) dec_unfold) auto
    then show ?thesis using 1(1) False by auto
  qed
qed

lemma dec_not_Nil [simp]: "dec n \<noteq> []"
  by (subst dec_unfold) simp

lemma dec_ascii: "list_all ascii_digit (dec n)"
  using dec_digit by (simp add: list_all_iff ascii_digit_def Let_def)

lemma parse_u64_dec: "parse_u64 (dec (unat r)) = Inr r"
proof -
  have "hd (dec (unat r)) \<noteq> CHR ''+''"
    using dec_digit [of "hd (dec (unat r))" "unat r"] by (auto dest: hd_in_set simp: hd_in_set)
  moreover have "unat r < 2 ^ 64" using unsigned_less [of r] by simp
  ultimately show ?thesis by (simp add: parse_u64_def parse_digits_dec)
qed

section \<open>UTF-8\<close>

text \<open>
  The validation of the standard library. A sequence is cut off at the end of the input, or its first
  \<open>n\<close> bytes are no prefix of any character; the error names the offset of the sequence.
\<close>

definition utf8_invalid :: "nat \<Rightarrow> nat \<Rightarrow> string option" where
  "utf8_invalid i n = Some (''invalid utf-8 sequence of '' @ dec n @ '' bytes from index '' @ dec i)"

definition utf8_cut :: "nat \<Rightarrow> string option" where
  "utf8_cut i = Some (''incomplete utf-8 byte sequence from index '' @ dec i)"

definition utf8_continues :: "char \<Rightarrow> bool" where
  "utf8_continues c = (let n = of_char c :: nat in 128 \<le> n \<and> n < 192)"

definition utf8_second :: "char \<Rightarrow> char \<Rightarrow> bool" where
  "utf8_second a b = (let m = of_char a :: nat; n = of_char b :: nat in
     if m = 224 then 160 \<le> n \<and> n < 192
     else if m = 237 then 128 \<le> n \<and> n < 160
     else if m = 240 then 144 \<le> n \<and> n < 192
     else if m = 244 then 128 \<le> n \<and> n < 144
     else 128 \<le> n \<and> n < 192)"

definition utf8_width :: "char \<Rightarrow> nat" where
  "utf8_width c = (let n = of_char c :: nat in
     if n < 128 then 1 else if n < 194 then 0 else if n < 224 then 2 else if n < 240 then 3 else if n < 245 then 4 else 0)"

function utf8_error :: "nat \<Rightarrow> string \<Rightarrow> string option" where
  "utf8_error i [] = None"
| "utf8_error i (a # s) = (let w = utf8_width a in
     if w = 1 then utf8_error (i + 1) s
     else if w = 0 then utf8_invalid i 1
     else (case s of [] \<Rightarrow> utf8_cut i | b # s' \<Rightarrow>
       if \<not> utf8_second a b then utf8_invalid i 1
       else if w = 2 then utf8_error (i + 2) s'
       else (case s' of [] \<Rightarrow> utf8_cut i | c # s'' \<Rightarrow>
         if \<not> utf8_continues c then utf8_invalid i 2
         else if w = 3 then utf8_error (i + 3) s''
         else (case s'' of [] \<Rightarrow> utf8_cut i | d # s''' \<Rightarrow>
           if \<not> utf8_continues d then utf8_invalid i 3 else utf8_error (i + 4) s'''))))"
  by pat_completeness auto
termination by (relation "measure (\<lambda>(_, s). length s)") auto

definition utf8_text :: "string \<Rightarrow> bool" where
  "utf8_text s = (utf8_error 0 s = None)"

text \<open>The characters alone, without offsets.\<close>

fun utf8_ok :: "string \<Rightarrow> bool" where
  "utf8_ok [] = True"
| "utf8_ok [a] = (utf8_width a = 1)"
| "utf8_ok [a, b] = (if utf8_width a = 1 then utf8_ok [b] else utf8_width a = 2 \<and> utf8_second a b)"
| "utf8_ok [a, b, c] = (if utf8_width a = 1 then utf8_ok [b, c]
     else utf8_second a b \<and> (if utf8_width a = 2 then utf8_ok [c] else utf8_width a = 3 \<and> utf8_continues c))"
| "utf8_ok (a # b # c # d # s) = (if utf8_width a = 1 then utf8_ok (b # c # d # s)
     else utf8_width a \<noteq> 0 \<and> utf8_second a b \<and> (if utf8_width a = 2 then utf8_ok (c # d # s)
       else utf8_continues c \<and> (if utf8_width a = 3 then utf8_ok (d # s) else utf8_continues d \<and> utf8_ok s)))"

lemma utf8_width_cases: "utf8_width a \<in> {0, 1, 2, 3, 4}"
  by (simp add: utf8_width_def Let_def)

lemma utf8_error_ok: "utf8_error i s = None \<longleftrightarrow> utf8_ok s"
proof (induction s arbitrary: i rule: utf8_ok.induct)
  case (5 a b c d s)
  have w: "utf8_width a \<in> {0, 1, 2, 3, 4}" by (rule utf8_width_cases)
  show ?case
    by (subst utf8_error.simps) (use 5 w in \<open>simp add: Let_def utf8_invalid_def utf8_cut_def\<close>)
qed (use utf8_width_cases in \<open>auto simp: Let_def utf8_invalid_def utf8_cut_def\<close>)

declare utf8_ok.simps(2,3,4,5) [simp del]

lemma utf8_ok_Cons:
  "utf8_ok (a # s) \<longleftrightarrow> (if utf8_width a = 1 then utf8_ok s
     else utf8_width a \<noteq> 0 \<and> (\<exists>b t. s = b # t \<and> utf8_second a b \<and> (if utf8_width a = 2 then utf8_ok t
       else (\<exists>c u. t = c # u \<and> utf8_continues c \<and> (if utf8_width a = 3 then utf8_ok u
         else (\<exists>d v. u = d # v \<and> utf8_continues d \<and> utf8_ok v))))))"
  by (subst utf8_error_ok [of 0, symmetric], use utf8_width_cases [of a] in
      \<open>auto simp: Let_def utf8_error_ok utf8_invalid_def utf8_cut_def split: list.splits\<close>)

definition ascii :: "char \<Rightarrow> bool" where
  "ascii c = ((of_char c :: nat) < 128)"

lemma ascii_width: "ascii a \<Longrightarrow> utf8_width a = 1"
  by (simp add: ascii_def utf8_width_def Let_def)

lemma utf8_ascii_append: "list_all ascii a \<Longrightarrow> utf8_text (a @ s) = utf8_text s"
proof (induction a)
  case (Cons c a)
  then have "utf8_width c = 1" by (simp add: ascii_width)
  then have "utf8_error 0 (c # a @ s) = utf8_error 1 (a @ s)" by (simp add: Let_def)
  then show ?case using Cons by (simp add: utf8_text_def utf8_error_ok)
qed simp

lemma utf8_ascii: "list_all ascii a \<Longrightarrow> utf8_text a"
  using utf8_ascii_append [of a "[]"] by (simp add: utf8_text_def)

text \<open>An ASCII character is no part of a longer one.\<close>

lemma ascii_no_part: "ascii c \<Longrightarrow> \<not> utf8_second a c" "ascii c \<Longrightarrow> \<not> utf8_continues c"
  by (auto simp: ascii_def utf8_second_def utf8_continues_def Let_def)

lemma utf8_ok_split: "ascii c \<Longrightarrow> utf8_ok (s @ c # t) \<longleftrightarrow> utf8_ok s \<and> utf8_ok t"
proof (induction s rule: length_induct)
  case (1 s)
  note ih = 1(1) [rule_format, OF _ 1(2)]
  note c = ascii_no_part [OF 1(2)]
  show ?case
  proof (cases s)
    case Nil
    then show ?thesis using ascii_width [OF 1(2)] by (simp add: utf8_ok_Cons)
  next
    case (Cons a s1)
    show ?thesis
    proof (cases s1)
      case Nil
      then show ?thesis using Cons c ascii_width [OF 1(2)] by (simp add: utf8_ok_Cons)
    next
      case (Cons b s2)
      show ?thesis
      proof (cases s2)
        case Nil
        then show ?thesis using Cons \<open>s = a # s1\<close> c ih [of "[b]"] ih [of "[]"] by (simp add: utf8_ok_Cons [of a])
      next
        case (Cons d s3)
        show ?thesis
          by (cases s3) (use \<open>s1 = b # s2\<close> \<open>s = a # s1\<close> Cons c ih [of "b # s2"] ih [of s2] ih [of s3] ih [of "tl s3"] in
            \<open>simp_all add: utf8_ok_Cons [of a]\<close>)
      qed
    qed
  qed
qed

lemma utf8_break: "utf8_text (s @ CHR 0x0A # t) \<longleftrightarrow> utf8_text s \<and> utf8_text t"
  using utf8_ok_split [of "CHR 0x0A" s t] by (simp add: utf8_text_def utf8_error_ok ascii_def)

lemma dec_ascii_text: "list_all ascii (dec n)"
  using dec_digit by (fastforce simp: list_all_iff ascii_def)

end
