(* ===== verification/Redis_Store.thy ===== *)
theory Redis_Store
  imports Sql_Store Text_Forms "HOL-Library.Multiset"
begin

text \<open>
  \<open>RedisRunStore\<close> (\<open>zhir-storage/src/redis/mod.rs\<close>): the keys of a run, the two scripts that the server
  runs atomically, and \<open>commit_inner\<close>, whose reads and whose script are separate requests. The step
  relation \<open>redis_step\<close> interleaves the requests of any number of writers and lets each request fail,
  before it reached the server or after. The lemmas show that what the server holds changes by steps of
  the store specification only. JSON text is as for the SQL store; the order in which the server lists
  the fields of a hash is a parameter.
\<close>

section \<open>Keys and data\<close>

datatype redis_kind = KeyHead | KeyCommits | KeyHistory

fun redis_suffix :: "redis_kind \<Rightarrow> string" where
  "redis_suffix KeyHead = '':head''"
| "redis_suffix KeyCommits = '':commits''"
| "redis_suffix KeyHistory = '':history''"

definition redis_tag :: "string \<Rightarrow> string" where
  "redis_tag run = hex (map (\<lambda>c. of_nat (of_char c)) run)"

definition redis_key :: "string \<Rightarrow> string \<Rightarrow> redis_kind \<Rightarrow> string" where
  "redis_key namespace run kind = namespace @ '':{'' @ redis_tag run @ ''}'' @ redis_suffix kind"

text \<open>What \<open>connect\<close> checks before and on the server: the names that exist, and the format it finds.\<close>

definition ascii_alphanumeric :: "char \<Rightarrow> bool" where
  "ascii_alphanumeric c = (let n = of_char c :: nat in
     48 \<le> n \<and> n \<le> 57 \<or> 65 \<le> n \<and> n \<le> 90 \<or> 97 \<le> n \<and> n \<le> 122)"

definition redis_namespace :: "string \<Rightarrow> unit result" where
  "redis_namespace namespace = fail_if (namespace = [] \<or> \<not> list_all (\<lambda>b. ascii_alphanumeric b \<or> b \<in> set ''_:-'') namespace)
     (Invalid ''invalid Redis namespace'')"

definition redis_format :: "string option \<Rightarrow> string list \<Rightarrow> string \<Rightarrow> string \<times> string option" where
  "redis_format version names namespace = (case version of
       Some v \<Rightarrow> (v, version)
     | None \<Rightarrow> (if \<exists>k \<in> set names. take (length namespace + 1) k = namespace @ '':'' then (''unversioned'', None)
         else (''5'', Some ''5'')))"

definition redis_connect :: "string option \<Rightarrow> string list \<Rightarrow> string \<Rightarrow> unit result \<times> string option" where
  "redis_connect version names namespace = (case redis_namespace namespace of
       Inl e \<Rightarrow> (Inl e, version)
     | Inr _ \<Rightarrow> (case redis_format version names namespace of (format, version') \<Rightarrow>
         (fail_if (format \<noteq> ''5'') (Storage ''unsupported Redis format; use a fresh namespace''), version')))"

text \<open>The three hashes of a run. The fields of the head are written together.\<close>

record redis_head =
  rh_revision :: string
  rh_core :: string
  rh_generation :: string

record redis_db =
  rd_heads :: "string \<rightharpoonup> redis_head"
  rd_commits :: "string \<times> string \<rightharpoonup> string"
  rd_chunks :: "string \<Rightarrow> (string \<times> string) list"

definition redis_empty :: redis_db where
  "redis_empty = \<lparr>rd_heads = Map.empty, rd_commits = Map.empty, rd_chunks = (\<lambda>_. [])\<rparr>"

section \<open>The commit script\<close>

definition hash_set :: "string \<Rightarrow> string \<Rightarrow> (string \<times> string) list \<Rightarrow> (string \<times> string) list" where
  "hash_set field value h = filter (\<lambda>(f, _). f \<noteq> field) h @ [(field, value)]"

record redis_args =
  ra_id :: string
  ra_digest :: string
  ra_expected :: string
  ra_revision :: string
  ra_core :: string
  ra_generation :: string
  ra_payload :: string
  ra_rewrite :: bool

definition redis_script :: "string \<Rightarrow> redis_args \<Rightarrow> redis_db \<Rightarrow> string \<times> redis_db" where
  "redis_script run a db = (case rd_commits db (run, ra_id a) of
       Some old \<Rightarrow> (if old = ra_digest a then ''ok'' else ''identity_conflict'', db)
     | None \<Rightarrow>
         (if (case rd_heads db run of None \<Rightarrow> [] | Some h \<Rightarrow> rh_revision h) \<noteq> ra_expected a
          then (''revision_conflict'', db)
          else (let chunks = (if ra_rewrite a then [] else rd_chunks db run) in
            (''ok'', \<lparr>rd_heads = (rd_heads db)(run \<mapsto>
                 \<lparr>rh_revision = ra_revision a, rh_core = ra_core a, rh_generation = ra_generation a\<rparr>),
               rd_commits = (rd_commits db)((run, ra_id a) \<mapsto> ra_digest a),
               rd_chunks = (rd_chunks db)(run := (if ra_payload a = [] then chunks
                 else hash_set (ra_generation a @ '':'' @ ra_revision a) (ra_payload a) chunks))\<rparr>))))"

definition redis_delete :: "string \<Rightarrow> redis_db \<Rightarrow> redis_db" where
  "redis_delete run db = \<lparr>rd_heads = (rd_heads db)(run := None),
     rd_commits = (\<lambda>k. if fst k = run then None else rd_commits db k), rd_chunks = (rd_chunks db)(run := [])\<rparr>"

section \<open>A commit\<close>

text \<open>What the writer does between its requests: with the identity it read, and with the head it read.\<close>

definition redis_identity :: "string \<Rightarrow> string option \<Rightarrow> unit result option" where
  "redis_identity digest existing = (case existing of
       None \<Rightarrow> None
     | Some old \<Rightarrow> Some (if old = digest then Inr () else Inl (Storage ''checkpoint id reused'')))"

definition redis_revision :: "u64 \<Rightarrow> string" where
  "redis_revision r = dec (unat r)"

definition redis_prepare ::
  "externals \<Rightarrow> codec \<Rightarrow> nat \<Rightarrow> nat \<Rightarrow> commit \<Rightarrow> string \<Rightarrow> redis_head option \<Rightarrow> redis_args result" where
  "redis_prepare X K now later c digest head =
     r_bind (case head of None \<Rightarrow> Inr None
             | Some h \<Rightarrow> r_bind (storage_error (cc_core_parse K (rh_core h))) (\<lambda>co. Inr (Some co))) (\<lambda>previous.
     r_bind (check_deadline c now) (\<lambda>_.
     r_bind (validate_against X c previous) (\<lambda>_.
     r_bind (if delta_rewrites (cm_history c) then Inr (redis_revision (cp_revision (cm_checkpoint c)))
             else ok_or (Storage ''missing history generation'') (map_option rh_generation head)) (\<lambda>generation.
     r_bind (case delta_messages (cm_history c) of None \<Rightarrow> Inr [] | Some ms \<Rightarrow> storage_error (cc_entries_text K ms)) (\<lambda>payload.
     r_bind (storage_error (cc_core_text K (commit_core c))) (\<lambda>core.
     r_bind (check_deadline c later) (\<lambda>_.
       Inr \<lparr>ra_id = cp_id (cm_checkpoint c), ra_digest = digest,
            ra_expected = (case expected_revision c of None \<Rightarrow> [] | Some r \<Rightarrow> redis_revision r),
            ra_revision = redis_revision (cp_revision (cm_checkpoint c)), ra_core = core,
            ra_generation = generation, ra_payload = payload, ra_rewrite = delta_rewrites (cm_history c)\<rparr>)))))))"

definition redis_answer :: "commit \<Rightarrow> string \<Rightarrow> unit result" where
  "redis_answer c s = (if s = ''ok'' then Inr ()
     else if s = ''revision_conflict'' then Inl (Conflict (expected_revision c) None)
     else Inl (Storage ''checkpoint identity conflict''))"

section \<open>Writers\<close>

text \<open>
  A writer was called, has read no identity of its checkpoint, has read the head and prepared the script,
  or has its result. A request that fails may have run the script.
\<close>

datatype redis_phase =
  RedisCalled
| RedisFresh string
| RedisReady "redis_head option" redis_args
| RedisDone "unit result"

record redis_system =
  ry_db :: redis_db
  ry_writers :: "nat \<rightharpoonup> commit \<times> redis_phase"

definition redis_go :: "nat \<Rightarrow> commit \<Rightarrow> redis_phase \<Rightarrow> redis_db \<Rightarrow> redis_system \<Rightarrow> redis_system" where
  "redis_go w c phase db s = s\<lparr>ry_db := db, ry_writers := (ry_writers s)(w \<mapsto> (c, phase))\<rparr>"

definition redis_called :: "externals \<Rightarrow> commit \<Rightarrow> redis_db \<Rightarrow> redis_phase" where
  "redis_called X c db = (case commit_digest X c of
       Inl e \<Rightarrow> RedisDone (Inl e)
     | Inr digest \<Rightarrow> (case redis_identity digest (rd_commits db (commit_run c, cp_id (cm_checkpoint c))) of
           Some r \<Rightarrow> RedisDone r | None \<Rightarrow> RedisFresh digest))"

definition redis_fresh ::
  "externals \<Rightarrow> codec \<Rightarrow> nat \<Rightarrow> nat \<Rightarrow> commit \<Rightarrow> string \<Rightarrow> redis_db \<Rightarrow> redis_phase" where
  "redis_fresh X K now later c digest db = (let head = rd_heads db (commit_run c) in
     case redis_prepare X K now later c digest head of Inl e \<Rightarrow> RedisDone (Inl e) | Inr a \<Rightarrow> RedisReady head a)"

inductive redis_step :: "externals \<Rightarrow> codec \<Rightarrow> redis_system \<Rightarrow> redis_system \<Rightarrow> bool" for X K where
  rdstep_call: "ry_writers s w = None \<Longrightarrow> redis_step X K s (redis_go w c RedisCalled (ry_db s) s)"
| rdstep_identity: "ry_writers s w = Some (c, RedisCalled)
    \<Longrightarrow> redis_step X K s (redis_go w c (redis_called X c (ry_db s)) (ry_db s) s)"
| rdstep_head: "ry_writers s w = Some (c, RedisFresh digest)
    \<Longrightarrow> redis_step X K s (redis_go w c (redis_fresh X K now later c digest (ry_db s)) (ry_db s) s)"
| rdstep_script: "ry_writers s w = Some (c, RedisReady head a) \<Longrightarrow> redis_script (commit_run c) a (ry_db s) = (answer, db)
    \<Longrightarrow> redis_step X K s (redis_go w c (RedisDone (redis_answer c answer)) db s)"
| rdstep_lost: "ry_writers s w = Some (c, RedisReady head a) \<Longrightarrow> redis_script (commit_run c) a (ry_db s) = (answer, db)
    \<Longrightarrow> redis_step X K s (redis_go w c (RedisDone (Inl (Storage message))) db s)"
| rdstep_fail: "ry_writers s w = Some (c, phase) \<Longrightarrow> (\<And>r. phase \<noteq> RedisDone r)
    \<Longrightarrow> redis_step X K s (redis_go w c (RedisDone (Inl (Storage message))) (ry_db s) s)"

section \<open>Loading\<close>

fun redis_rows :: "string \<Rightarrow> u64 \<Rightarrow> (string \<times> string) list \<Rightarrow> (u64 \<times> string) list result" where
  "redis_rows generation limit [] = Inr []"
| "redis_rows generation limit ((field, payload) # chunks) = (case split_colon field of
       Some (g, r) \<Rightarrow>
         (if g = generation
          then r_bind (storage_error (parse_u64 r)) (\<lambda>revision. r_bind (redis_rows generation limit chunks) (\<lambda>rows.
            Inr (if revision \<le> limit then (revision, payload) # rows else rows)))
          else redis_rows generation limit chunks)
     | None \<Rightarrow> redis_rows generation limit chunks)"

definition redis_load ::
  "((string \<times> string) list \<Rightarrow> (string \<times> string) list) \<Rightarrow> 'x hashing_scheme \<Rightarrow> codec \<Rightarrow> redis_db \<Rightarrow> string
    \<Rightarrow> checkpoint option result" where
  "redis_load listing H K db run = (case rd_heads db run of
       None \<Rightarrow> Inr None
     | Some h \<Rightarrow>
         r_bind (storage_error (cc_core_parse K (rh_core h))) (\<lambda>core.
         r_bind (redis_rows (rh_generation h) (co_revision core) (listing (rd_chunks db run))) (\<lambda>rows.
         r_bind (sql_assemble H K history_default (map snd (sort_key fst rows))) (\<lambda>hist.
         r_bind (with_history core hist) (\<lambda>c. Inr (Some c))))))"

lemma parse_u64_revision: "storage_error (parse_u64 (redis_revision r)) = Inr r"
  by (simp add: redis_revision_def parse_u64_dec storage_error_def)

text \<open>The keys of different runs, and of the three hashes of a run, are different.\<close>

lemma of_char_hex_digit: "n < 16 \<Longrightarrow> (of_char (hex_digit n) :: nat) = (if n < 10 then 48 + n else 87 + n)"
  by (simp add: hex_digit_def)

lemma byte_nibbles: "unat (b :: 8 word) div 16 < 16" "unat b mod 16 < 16"
proof -
  have "unat b < 256" using unsigned_less [of b] by simp
  then show "unat b div 16 < 16" by linarith
qed simp

lemma nat_div_mod_eq: "m div 16 = n div 16 \<Longrightarrow> m mod 16 = n mod 16 \<Longrightarrow> m = (n :: nat)"
  by (metis div_mult_mod_eq)

lemma hex_digit_no_brace: "n < 16 \<Longrightarrow> hex_digit n \<noteq> CHR ''}''"
proof
  assume "n < 16" and brace: "hex_digit n = CHR ''}''"
  have "(of_char (CHR ''}'') :: nat) = (if n < 10 then 48 + n else 87 + n)"
    unfolding brace [symmetric] by (rule of_char_hex_digit) fact
  then show False using \<open>n < 16\<close> by (simp split: if_splits)
qed

lemma hex_inject: "hex xs = hex ys \<longleftrightarrow> xs = ys"
proof (induction xs arbitrary: ys)
  case Nil
  then show ?case by (cases ys) (auto simp: hex_def)
next
  case (Cons x xs)
  have small: "unat b div 16 < 16" "unat b mod 16 < 16" for b :: "8 word"
    using byte_nibbles by blast+
  have digit: "m = n" if "hex_digit m = hex_digit n" "m < 16" "n < 16" for m n
  proof -
    have "(of_char (hex_digit m) :: nat) = of_char (hex_digit n)" by (simp only: that(1))
    then show ?thesis unfolding of_char_hex_digit [OF that(2)] of_char_hex_digit [OF that(3)]
      by (simp split: if_splits)
  qed
  show ?case
  proof (cases ys)
    case (Cons y ys')
    have "x = y" if "hex_digit (unat x div 16) = hex_digit (unat y div 16)" "hex_digit (unat x mod 16) = hex_digit (unat y mod 16)"
    proof -
      have "unat x div 16 = unat y div 16" "unat x mod 16 = unat y mod 16"
        using digit [OF that(1) small(1) small(1)] digit [OF that(2) small(2) small(2)] by simp_all
      then have "unat x = unat y" by (rule nat_div_mod_eq)
      then show ?thesis by (simp add: word_unat_eq_iff)
    qed
    then show ?thesis using Cons.IH [of ys'] Cons by (auto simp: hex_def)
  qed (simp add: hex_def)
qed

lemma hex_no_brace: "c \<in> set (hex xs) \<Longrightarrow> c \<noteq> CHR ''}''"
proof -
  assume "c \<in> set (hex xs)"
  then obtain b :: "8 word" where "c = hex_digit (unat b div 16) \<or> c = hex_digit (unat b mod 16)"
    by (auto simp: hex_def)
  moreover have "unat b div 16 < 16" "unat b mod 16 < 16" using byte_nibbles by blast+
  ultimately show ?thesis using hex_digit_no_brace by (elim disjE) simp_all
qed

lemma redis_key_inject:
  "redis_key namespace run kind = redis_key namespace run' kind' \<longleftrightarrow> run = run' \<and> kind = kind'"
proof
  assume same: "redis_key namespace run kind = redis_key namespace run' kind'"
  have cut: "a = b \<and> s = t" if "a @ CHR ''}'' # s = b @ CHR ''}'' # t" "\<forall>c \<in> set a. c \<noteq> CHR ''}''" "\<forall>c \<in> set b. c \<noteq> CHR ''}''"
    for a b s t
    using that by (induction a arbitrary: b) (case_tac b; auto)+
  have "redis_tag run = redis_tag run' \<and> redis_suffix kind = redis_suffix kind'"
    using same by (intro cut) (auto simp: redis_key_def redis_tag_def dest: hex_no_brace)
  moreover have "kind = kind'" if "redis_suffix kind = redis_suffix kind'"
    using that by (cases kind; cases kind') simp_all
  moreover have "run = run'" if "redis_tag run = redis_tag run'"
  proof -
    have "inj (\<lambda>c. of_nat (of_char c) :: 8 word)"
    proof (rule injI)
      fix c d :: char assume "(of_nat (of_char c) :: 8 word) = of_nat (of_char d)"
      then have "unat (of_nat (of_char c) :: 8 word) = unat (of_nat (of_char d) :: 8 word)" by simp
      moreover have "of_char c < (256 :: nat)" "of_char d < (256 :: nat)"
        by (cases c; cases d; simp add: of_char_def bool.split)+
      ultimately have "of_char c = (of_char d :: nat)" by (simp add: unsigned_of_nat take_bit_nat_eq_self)
      then show "c = d" by simp
    qed
    then show ?thesis using that by (simp add: redis_tag_def hex_inject inj_map_eq_map)
  qed
  ultimately show "run = run' \<and> kind = kind'" by blast
qed simp

lemma redis_revision_inject [simp]: "redis_revision a = redis_revision b \<longleftrightarrow> a = b"
  by (simp add: redis_revision_def word_unat_eq_iff)

lemma redis_revision_not_Nil [simp]: "redis_revision a \<noteq> []"
  by (simp add: redis_revision_def)

lemma split_colon_dec: "split_colon (dec n @ CHR '':'' # s) = Some (dec n, s)"
  by (rule split_colon_append) (use dec_digit [of "CHR '':''" n] in auto)

section \<open>What the server holds\<close>

text \<open>A chunk of generation \<open>g\<close> as the field and value of the history hash.\<close>

definition chunk_field :: "nat \<Rightarrow> u64 \<times> string \<Rightarrow> string \<times> string" where
  "chunk_field g = (\<lambda>(r, payload). (dec g @ '':'' @ redis_revision r, payload))"

lemma chunk_field_inj: "inj (chunk_field g)"
  by (rule injI) (auto simp: chunk_field_def)

lemma redis_rows_chunks:
  "(\<forall>x \<in> set rows. fst x \<le> limit) \<Longrightarrow> redis_rows (dec g) limit (map (chunk_field g) rows) = Inr rows"
proof (induction rows)
  case (Cons x rows)
  obtain r payload where x: "x = (r, payload)" by (cases x)
  then show ?case using Cons by (simp add: chunk_field_def split_colon_dec parse_u64_revision)
qed simp

definition redis_head_ok ::
  "'x hashing_scheme \<Rightarrow> codec \<Rightarrow> redis_db \<Rightarrow> string \<Rightarrow> redis_head \<Rightarrow> checkpoint \<Rightarrow> nat \<Rightarrow> (u64 \<times> string) list \<Rightarrow> bool" where
  "redis_head_ok H K db run h c g rows \<longleftrightarrow>
     cc_core_parse K (rh_core h) = Inr (core_of c) \<and> rh_revision h = redis_revision (cp_revision c)
     \<and> rh_generation h = dec g \<and> rc_run_id (cp_context c) = run \<and> checkpoint_validate c = Inr ()
     \<and> history_ok H (cp_history c) \<and> (\<forall>e \<in> set (history_entries (cp_history c)). entry_validate e = Inr ())
     \<and> payloads_hold K (map snd rows) (history_entries (cp_history c))
     \<and> mset (rd_chunks db run) = mset (map (chunk_field g) rows)
     \<and> sorted_wrt (<) (map fst rows) \<and> (\<forall>x \<in> set rows. fst x \<le> cp_revision c)"

definition redis_run_ok :: "'x hashing_scheme \<Rightarrow> codec \<Rightarrow> redis_db \<Rightarrow> string \<Rightarrow> bool" where
  "redis_run_ok H K db run = (case rd_heads db run of
       None \<Rightarrow> rd_chunks db run = [] \<and> (\<forall>i. rd_commits db (run, i) = None)
     | Some h \<Rightarrow> \<exists>c g rows. redis_head_ok H K db run h c g rows)"

definition redis_ok :: "'x hashing_scheme \<Rightarrow> codec \<Rightarrow> redis_db \<Rightarrow> bool" where
  "redis_ok H K db \<longleftrightarrow> (\<forall>run. redis_run_ok H K db run)"

lemma redis_empty_ok: "redis_ok H K redis_empty"
  by (simp add: redis_ok_def redis_run_ok_def redis_empty_def)

text \<open>A listing of a hash has its fields in some order.\<close>

definition listing_ok :: "((string \<times> string) list \<Rightarrow> (string \<times> string) list) \<Rightarrow> bool" where
  "listing_ok listing \<longleftrightarrow> (\<forall>xs. mset (listing xs) = mset xs)"

lemma mset_mapE:
  assumes "inj f" and "mset xs = mset (map f ys)"
  shows "\<exists>zs. xs = map f zs \<and> mset zs = mset ys"
proof (intro exI conjI)
  let ?zs = "map (inv f) xs"
  have "set xs = f ` set ys" using assms(2) by (metis set_map set_mset_mset)
  then show "xs = map f ?zs" by (auto simp: comp_def f_inv_into_f intro!: map_idI [symmetric])
  have "mset ?zs = image_mset (inv f) (mset (map f ys))" by (simp add: assms(2))
  also have "\<dots> = mset ys" using assms(1) by (simp add: image_mset.compositionality comp_def inv_f_f)
  finally show "mset ?zs = mset ys" .
qed

lemma redis_load_ok:
  assumes head: "rd_heads db run = Some h" and ok: "redis_head_ok H K db run h c g rows" and "listing_ok listing"
  shows "redis_load listing H K db run = Inr (Some c)"
proof -
  have "mset (listing (rd_chunks db run)) = mset (map (chunk_field g) rows)"
    using ok assms(3) by (simp add: redis_head_ok_def listing_ok_def)
  then obtain zs where zs: "listing (rd_chunks db run) = map (chunk_field g) zs" "mset zs = mset rows"
    using mset_mapE [OF chunk_field_inj] by blast
  have "set zs = set rows" using zs(2) by (metis set_mset_mset)
  then have rows: "redis_rows (rh_generation h) (cp_revision c) (listing (rd_chunks db run)) = Inr zs"
    using ok redis_rows_chunks [of zs "cp_revision c" g] by (simp add: zs(1) redis_head_ok_def)
  have strict: "sorted_wrt (<) (map fst rows)" using ok by (simp add: redis_head_ok_def)
  then have "sorted (map fst rows)" "inj_on fst (set zs)"
    using \<open>set zs = set rows\<close> by (auto simp: strict_sorted_iff distinct_map)
  then have sorted: "sort_key fst zs = rows"
    using sort_key_inj_key_eq [OF zs(2)] by blast
  obtain ess where ess: "map (cc_entries_parse K) (map snd rows) = map Inr ess"
      "concat ess = history_entries (cp_history c)"
    using ok by (auto simp: redis_head_ok_def payloads_hold_def)
  have "sql_assemble H K history_default (map snd rows) = Inr (cp_history c)"
    using sql_assemble_append [OF ess(1), of H history_default] history_from_entries_roundtrip [of H "cp_history c"] ok ess(2)
    by (simp add: history_from_entries_def redis_head_ok_def)
  then show ?thesis using head ok rows sorted with_history_core_of [of c]
    by (simp add: redis_load_def redis_head_ok_def)
qed

definition redis_view :: "'x hashing_scheme \<Rightarrow> codec \<Rightarrow> redis_db \<Rightarrow> store_view" where
  "redis_view H K db = \<lparr>sv_head = (\<lambda>run. case redis_load id H K db run of Inr c \<Rightarrow> c | Inl _ \<Rightarrow> None),
     sv_seen = rd_commits db\<rparr>"

lemma redis_ok_head:
  assumes "redis_ok H K db"
  shows "rd_heads db run = None \<Longrightarrow> sv_head (redis_view H K db) run = None"
    and "rd_heads db run = Some h \<Longrightarrow> \<exists>c g rows. redis_head_ok H K db run h c g rows \<and> sv_head (redis_view H K db) run = Some c"
proof -
  show "rd_heads db run = None \<Longrightarrow> sv_head (redis_view H K db) run = None"
    by (simp add: redis_view_def redis_load_def)
  assume h: "rd_heads db run = Some h"
  have "redis_run_ok H K db run" using assms by (simp add: redis_ok_def)
  then obtain c g rows where c: "redis_head_ok H K db run h c g rows"
    using h by (auto simp: redis_run_ok_def)
  then have "redis_load id H K db run = Inr (Some c)"
    using redis_load_ok [OF h c, of id] by (simp add: listing_ok_def)
  then show "\<exists>c g rows. redis_head_ok H K db run h c g rows \<and> sv_head (redis_view H K db) run = Some c"
    using c by (auto simp: redis_view_def)
qed

text \<open>Loading gives the head of the view, whatever the order of the fields.\<close>

lemma redis_load_view:
  assumes "redis_ok H K db" and "listing_ok listing"
  shows "redis_load listing H K db run = Inr (sv_head (redis_view H K db) run)"
proof (cases "rd_heads db run")
  case None
  then show ?thesis using redis_ok_head(1) [OF assms(1) None] by (simp add: redis_load_def)
next
  case (Some h)
  then obtain c g rows where "redis_head_ok H K db run h c g rows" "sv_head (redis_view H K db) run = Some c"
    using redis_ok_head(2) [OF assms(1) Some] by blast
  then show ?thesis using redis_load_ok [OF Some _ assms(2)] by simp
qed

lemma redis_head_ok_cong:
  "rd_chunks db' run = rd_chunks db run \<Longrightarrow> redis_head_ok H K db' run = redis_head_ok H K db run"
  by (simp add: redis_head_ok_def fun_eq_iff)

section \<open>The script is a step of the specification\<close>

text \<open>
  The documented behaviour of the encoder: text is parsed back, and no list has the empty text. A commit
  in scope carries the delta from the entries of the checkpoint it is accepted after.
\<close>

definition redis_codec :: "codec \<Rightarrow> bool" where
  "redis_codec K \<longleftrightarrow> codec_lawful K \<and> (\<forall>es. cc_entries_text K es \<noteq> Inr [])"

definition redis_scope :: "externals \<Rightarrow> commit \<Rightarrow> bool" where
  "redis_scope X c \<longleftrightarrow> history_ok X (cp_history (cm_checkpoint c))
     \<and> (validate_against X c None = Inr () \<longrightarrow>
          history_entries (cp_history (cm_checkpoint c)) = delta_apply (cm_history c) [])
     \<and> (\<forall>p. validate_against X c (Some (core_of p)) = Inr () \<longrightarrow> history_ok X (cp_history p) \<longrightarrow>
          history_entries (cp_history (cm_checkpoint c)) = delta_apply (cm_history c) (history_entries (cp_history p)))"

text \<open>Heads are replaced by later ones only.\<close>

definition redis_later :: "redis_head \<Rightarrow> redis_head option \<Rightarrow> bool" where
  "redis_later h now \<longleftrightarrow> (\<exists>h'. now = Some h' \<and> (h' = h \<or> undec (rh_revision h) < undec (rh_revision h')))"

lemma redis_later_trans: "redis_later h (Some h') \<Longrightarrow> redis_later h' x \<Longrightarrow> redis_later h x"
  by (auto simp: redis_later_def)

text \<open>A prepared script comes from a head that was current once.\<close>

definition redis_ready ::
  "externals \<Rightarrow> codec \<Rightarrow> redis_db \<Rightarrow> commit \<Rightarrow> redis_head option \<Rightarrow> redis_args \<Rightarrow> bool" where
  "redis_ready X K db c head a \<longleftrightarrow>
     (\<exists>now later digest. commit_digest X c = Inr digest \<and> redis_prepare X K now later c digest head = Inr a)
     \<and> (\<forall>h. head = Some h \<longrightarrow> redis_later h (rd_heads db (commit_run c))
          \<and> (\<exists>p. cc_core_parse K (rh_core h) = Inr (core_of p) \<and> rh_revision h = redis_revision (cp_revision p)))"

lemma redis_prepareD:
  assumes "redis_prepare X K now later c digest head = Inr a"
  obtains previous generation payload core where
    "head = None \<Longrightarrow> previous = None"
    "\<And>h. head = Some h \<Longrightarrow> \<exists>co. cc_core_parse K (rh_core h) = Inr co \<and> previous = Some co"
    "validate_against X c previous = Inr ()"
    "if delta_rewrites (cm_history c) then generation = redis_revision (cp_revision (cm_checkpoint c))
       else map_option rh_generation head = Some generation"
    "case delta_messages (cm_history c) of None \<Rightarrow> payload = [] | Some ms \<Rightarrow> cc_entries_text K ms = Inr payload"
    "cc_core_text K (commit_core c) = Inr core"
    "a = \<lparr>ra_id = cp_id (cm_checkpoint c), ra_digest = digest,
       ra_expected = (case expected_revision c of None \<Rightarrow> [] | Some r \<Rightarrow> redis_revision r),
       ra_revision = redis_revision (cp_revision (cm_checkpoint c)), ra_core = core,
       ra_generation = generation, ra_payload = payload, ra_rewrite = delta_rewrites (cm_history c)\<rparr>"
proof -
  obtain previous generation payload core where
    p: "(case head of None \<Rightarrow> Inr None | Some h \<Rightarrow> r_bind (storage_error (cc_core_parse K (rh_core h))) (\<lambda>co. Inr (Some co))) = Inr previous"
    and v: "validate_against X c previous = Inr ()"
    and g: "(if delta_rewrites (cm_history c) then Inr (redis_revision (cp_revision (cm_checkpoint c)))
             else ok_or (Storage ''missing history generation'') (map_option rh_generation head)) = Inr generation"
    and t: "(case delta_messages (cm_history c) of None \<Rightarrow> Inr [] | Some ms \<Rightarrow> storage_error (cc_entries_text K ms)) = Inr payload"
    and co: "storage_error (cc_core_text K (commit_core c)) = Inr core"
    and a: "a = \<lparr>ra_id = cp_id (cm_checkpoint c), ra_digest = digest,
       ra_expected = (case expected_revision c of None \<Rightarrow> [] | Some r \<Rightarrow> redis_revision r),
       ra_revision = redis_revision (cp_revision (cm_checkpoint c)), ra_core = core,
       ra_generation = generation, ra_payload = payload, ra_rewrite = delta_rewrites (cm_history c)\<rparr>"
    using assms unfolding redis_prepare_def r_bind_Inr sum.inject by (elim exE conjE) (rule that, assumption, simp, assumption+, simp)
  show ?thesis
  proof (rule that [of previous generation payload core])
    show "head = None \<Longrightarrow> previous = None" using p by simp
    show "\<exists>co. cc_core_parse K (rh_core h) = Inr co \<and> previous = Some co" if "head = Some h" for h
      using p that by (auto simp: r_bind_Inr)
    show "if delta_rewrites (cm_history c) then generation = redis_revision (cp_revision (cm_checkpoint c))
       else map_option rh_generation head = Some generation"
      using g by (auto simp: ok_or_Inr split: if_splits)
    show "case delta_messages (cm_history c) of None \<Rightarrow> payload = [] | Some ms \<Rightarrow> cc_entries_text K ms = Inr payload"
      using t by (auto split: option.splits)
  qed (use v co a in simp_all)
qed

text \<open>When the script passes its check, the head it was prepared from is the current one.\<close>

lemma redis_current:
  assumes ok: "redis_ok X K db" and ready: "redis_ready X K db c head a"
    and prep: "redis_prepare X K now later c digest head = Inr a" and val: "validate_against X c previous = Inr ()"
    and prev: "head = None \<Longrightarrow> previous = None"
      "\<And>h. head = Some h \<Longrightarrow> \<exists>co. cc_core_parse K (rh_core h) = Inr co \<and> previous = Some co"
    and check: "(case rd_heads db (commit_run c) of None \<Rightarrow> [] | Some h \<Rightarrow> rh_revision h)
      = (case expected_revision c of None \<Rightarrow> [] | Some r \<Rightarrow> redis_revision r)"
  shows "rd_heads db (commit_run c) = head \<and> previous = map_option core_of (sv_head (redis_view X K db) (commit_run c))"
proof (cases "rd_heads db (commit_run c)")
  case None
  then have "expected_revision c = None" using check by (cases "expected_revision c") (auto dest: sym)
  then have "previous = None" using accepted_revision [OF val] by simp
  moreover have "head = None" using prev(2) \<open>previous = None\<close> by (cases head) auto
  ultimately show ?thesis using None redis_ok_head(1) [OF ok None] by simp
next
  case (Some h')
  obtain p' g rows where p': "redis_head_ok X K db (commit_run c) h' p' g rows" "sv_head (redis_view X K db) (commit_run c) = Some p'"
    using redis_ok_head(2) [OF ok Some] by blast
  have rev': "rh_revision h' = redis_revision (cp_revision p')" "cc_core_parse K (rh_core h') = Inr (core_of p')"
    using p'(1) by (simp_all add: redis_head_ok_def)
  then have exp: "expected_revision c = Some (cp_revision p')"
    using check Some by (auto split: option.splits)
  then have "previous \<noteq> None" using accepted_revision [OF val] by auto
  then obtain h where h: "head = Some h" using prev(1) by (cases head) auto
  obtain p where p: "cc_core_parse K (rh_core h) = Inr (core_of p)" "rh_revision h = redis_revision (cp_revision p)"
    and later: "redis_later h (rd_heads db (commit_run c))"
    using ready h by (auto simp: redis_ready_def)
  have prev_p: "previous = Some (core_of p)" using prev(2) [OF h] p(1) by auto
  then have "cp_revision p = cp_revision p'" using accepted_revision [OF val] exp by simp
  then have "h' = h" using later Some p(2) rev'(1) by (auto simp: redis_later_def redis_revision_def)
  then show ?thesis using Some h prev_p p(1) rev'(2) p'(2) by simp
qed

lemma mset_hash_set: "field \<notin> fst ` set h \<Longrightarrow> mset (hash_set field value h) = add_mset (field, value) (mset h)"
proof -
  assume "field \<notin> fst ` set h"
  then have "filter (\<lambda>(f, _). f \<noteq> field) h = h" by (intro filter_True) force
  then show ?thesis by (simp add: hash_set_def)
qed

text \<open>The head of the run after the script ran.\<close>

lemma redis_script_head:
  assumes codec: "redis_codec K" and scope: "redis_scope X c"
    and val: "validate_against X c (map_option core_of previous) = Inr ()"
    and old: "case previous of None \<Rightarrow> rd_chunks db (commit_run c) = []
        | Some p \<Rightarrow> redis_head_ok X K db (commit_run c) h p g rows"
    and gen: "if delta_rewrites (cm_history c) then generation = redis_revision (cp_revision (cm_checkpoint c))
        else previous \<noteq> None \<and> rh_generation h = generation"
    and pay: "case delta_messages (cm_history c) of None \<Rightarrow> payload = [] | Some ms \<Rightarrow> cc_entries_text K ms = Inr payload"
    and core: "cc_core_text K (commit_core c) = Inr core"
    and db': "rd_chunks db' (commit_run c) = (let chunks = (if delta_rewrites (cm_history c) then [] else rd_chunks db (commit_run c)) in
        if payload = [] then chunks
        else hash_set (generation @ '':'' @ redis_revision (cp_revision (cm_checkpoint c))) payload chunks)"
  shows "\<exists>g' rows'. redis_head_ok X K db' (commit_run c)
     \<lparr>rh_revision = redis_revision (cp_revision (cm_checkpoint c)), rh_core = core, rh_generation = generation\<rparr>
     (cm_checkpoint c) g' rows'"
proof -
  let ?c = "cm_checkpoint c" and ?rw = "delta_rewrites (cm_history c)"
  let ?rev = "cp_revision ?c"
  define rows0 where "rows0 = (case previous of None \<Rightarrow> [] | Some _ \<Rightarrow> rows)"
  define es0 where "es0 = (case previous of None \<Rightarrow> [] | Some p \<Rightarrow> history_entries (cp_history p))"
  define g' where "g' = (if ?rw then unat ?rev else g)"
  define new where "new = (case delta_messages (cm_history c) of None \<Rightarrow> [] | Some ms \<Rightarrow> [(?rev, projr (cc_entries_text K ms))])"
  define rows' where "rows' = (if ?rw then [] else rows0) @ new"
  have law: "codec_lawful K" using codec by (simp add: redis_codec_def)
  have gdec: "generation = dec g'"
    using gen old by (cases previous) (auto simp: g'_def redis_revision_def redis_head_ok_def split: if_splits)
  have below: "\<forall>x \<in> set rows0. fst x < ?rev"
  proof (cases previous)
    case (Some p)
    then have "unat ?rev = unat (cp_revision p) + 1" "\<forall>x \<in> set rows. fst x \<le> cp_revision p"
      using accepted_revision_step(2) [of X c "core_of p"] val old by (auto simp: redis_head_ok_def)
    then show ?thesis by (simp add: rows0_def Some word_less_nat_alt word_le_nat_alt less_Suc_eq_le)
  qed (simp add: rows0_def)
  have sorted0: "sorted_wrt (<) (map fst rows0)"
    using old by (cases previous) (auto simp: rows0_def redis_head_ok_def)
  have chunks0: "mset (rd_chunks db (commit_run c)) = mset (map (chunk_field g) rows0)"
    using old by (cases previous) (auto simp: rows0_def redis_head_ok_def)
  have payloads0: "payloads_hold K (map snd rows0) es0"
    using old by (cases previous) (auto simp: rows0_def es0_def redis_head_ok_def payloads_hold_def)
  have valid0: "\<forall>e \<in> set es0. entry_validate e = Inr ()"
    using old by (cases previous) (auto simp: es0_def redis_head_ok_def)
  have entries: "history_entries (cp_history ?c) = delta_apply (cm_history c) es0"
    using scope val old by (cases previous) (auto simp: redis_scope_def es0_def redis_head_ok_def)
  have parsed: "is_ok (cc_entries_text K ms)" if "delta_messages (cm_history c) = Some ms" for ms
    using pay that by (auto simp: is_ok_def split: sum.splits)
  have "payloads_hold K (om_values rows') (delta_apply (cm_history c) es0)"
    by (rule run_rows_payloads [OF law, of rows0])
       (use payloads0 parsed in \<open>auto simp: om_values_def rows'_def new_def\<close>)
  then have payloads: "payloads_hold K (map snd rows') (history_entries (cp_history ?c))"
    by (simp add: entries om_values_def)
  have sorted: "sorted_wrt (<) (map fst rows')"
    using sorted0 below by (auto simp: rows'_def new_def sorted_wrt_append split: option.split)
  have bound: "\<forall>x \<in> set rows'. fst x \<le> ?rev"
    using below by (auto simp: rows'_def new_def split: option.splits if_splits)
  have nonempty: "payload \<noteq> []" if "delta_messages (cm_history c) \<noteq> None"
    using pay that codec by (auto simp: redis_codec_def)
  have chunks: "mset (rd_chunks db' (commit_run c)) = mset (map (chunk_field g') rows')"
  proof (cases "delta_messages (cm_history c)")
    case None
    then have "\<not> ?rw" by (cases "cm_history c") auto
    then show ?thesis using None pay chunks0 db' by (simp add: rows'_def new_def g'_def)
  next
    case (Some ms)
    let ?old = "if ?rw then [] else rd_chunks db (commit_run c)" and ?f = "generation @ '':'' @ redis_revision ?rev"
    have old': "mset ?old = mset (map (chunk_field g') (if ?rw then [] else rows0))"
      using chunks0 by (simp add: g'_def)
    have "?f \<notin> fst ` set (map (chunk_field g') (if ?rw then [] else rows0))"
      using below by (auto simp: chunk_field_def gdec)
    then have "?f \<notin> fst ` set ?old" using old' by (metis set_mset_mset)
    then have "mset (hash_set ?f payload ?old) = add_mset (?f, payload) (mset ?old)" by (rule mset_hash_set)
    then show ?thesis
      using db' nonempty Some old' pay by (simp add: Let_def rows'_def new_def chunk_field_def gdec)
  qed
  have "redis_head_ok X K db' (commit_run c)
     \<lparr>rh_revision = redis_revision ?rev, rh_core = core, rh_generation = generation\<rparr> ?c g' rows'"
    unfolding redis_head_ok_def
  proof (intro conjI)
    show "\<forall>e \<in> set (history_entries (cp_history ?c)). entry_validate e = Inr ()"
      using accepted_entries_valid [OF val valid0] entries by simp
    show "cc_core_parse K (rh_core \<lparr>rh_revision = redis_revision ?rev, rh_core = core, rh_generation = generation\<rparr>) = Inr (core_of ?c)"
      using law core by (simp add: codec_lawful_def commit_core_def)
  qed (use payloads chunks sorted bound scope gdec accepted_valid [OF val] in \<open>simp_all add: redis_scope_def commit_run_def\<close>)
  then show ?thesis by blast
qed

text \<open>What the server keeps from one request to the next.\<close>

definition redis_grows :: "redis_db \<Rightarrow> redis_db \<Rightarrow> bool" where
  "redis_grows db db' \<longleftrightarrow> (\<forall>run h. rd_heads db run = Some h \<longrightarrow> redis_later h (rd_heads db' run))
     \<and> (\<forall>k d. rd_commits db k = Some d \<longrightarrow> rd_commits db' k = Some d)"

lemma redis_grows_refl [simp]: "redis_grows db db"
  by (simp add: redis_grows_def redis_later_def)

lemma redis_ready_grows: "redis_ready X K db c head a \<Longrightarrow> redis_grows db db' \<Longrightarrow> redis_ready X K db' c head a"
  unfolding redis_ready_def redis_grows_def by (metis redis_later_def redis_later_trans)

lemma redis_script_refused:
  assumes "redis_script run a db = (answer, db')" and "answer \<noteq> ''ok''"
  shows "db' = db"
  using assms by (auto simp: redis_script_def Let_def split: option.splits if_splits)

lemma redis_view_cong:
  assumes "rd_heads db' run = rd_heads db run" and "rd_chunks db' run = rd_chunks db run"
  shows "sv_head (redis_view H K db') run = sv_head (redis_view H K db) run"
  using assms by (cases "rd_heads db run") (simp_all add: redis_view_def redis_load_def)

lemma redis_script_ok:
  assumes codec: "redis_codec K" and ok: "redis_ok X K db" and scope: "redis_scope X c"
    and ready: "redis_ready X K db c head a" and run: "redis_script (commit_run c) a db = (''ok'', db')"
  shows "redis_ok X K db'" and "spec_commit X (redis_view X K db) c = Inr (redis_view X K db')"
    and "redis_grows db db'"
proof -
  let ?run = "commit_run c" and ?c = "cm_checkpoint c" and ?v = "redis_view X K db"
  obtain now later digest where digest: "commit_digest X c = Inr digest"
    and prep: "redis_prepare X K now later c digest head = Inr a"
    using ready by (auto simp: redis_ready_def)
  obtain previous generation payload core where
    prev: "head = None \<Longrightarrow> previous = None" "\<And>h. head = Some h \<Longrightarrow> \<exists>co. cc_core_parse K (rh_core h) = Inr co \<and> previous = Some co"
    and val: "validate_against X c previous = Inr ()"
    and gen: "if delta_rewrites (cm_history c) then generation = redis_revision (cp_revision ?c)
       else map_option rh_generation head = Some generation"
    and pay: "case delta_messages (cm_history c) of None \<Rightarrow> payload = [] | Some ms \<Rightarrow> cc_entries_text K ms = Inr payload"
    and core: "cc_core_text K (commit_core c) = Inr core"
    and a: "a = \<lparr>ra_id = cp_id ?c, ra_digest = digest,
       ra_expected = (case expected_revision c of None \<Rightarrow> [] | Some r \<Rightarrow> redis_revision r),
       ra_revision = redis_revision (cp_revision ?c), ra_core = core,
       ra_generation = generation, ra_payload = payload, ra_rewrite = delta_rewrites (cm_history c)\<rparr>"
    using redis_prepareD [OF prep] by blast
  have seen: "sv_seen ?v (commit_key c) = rd_commits db (?run, cp_id ?c)" by (simp add: redis_view_def commit_key_def)
  have "redis_ok X K db' \<and> spec_commit X ?v c = Inr (redis_view X K db') \<and> redis_grows db db'"
  proof (cases "rd_commits db (?run, cp_id ?c)")
    case (Some old)
    then have "old = digest \<and> db' = db" using run by (auto simp: redis_script_def a split: if_splits)
    then show ?thesis using ok digest seen Some by (simp add: spec_commit_def)
  next
    case None
    let ?h1 = "\<lparr>rh_revision = redis_revision (cp_revision ?c), rh_core = core, rh_generation = generation\<rparr>"
    let ?chunks = "if delta_rewrites (cm_history c) then [] else rd_chunks db ?run"
    have check: "(case rd_heads db ?run of None \<Rightarrow> [] | Some h \<Rightarrow> rh_revision h)
        = (case expected_revision c of None \<Rightarrow> [] | Some r \<Rightarrow> redis_revision r)"
      using run None by (auto simp: redis_script_def a Let_def split: if_splits)
    have db': "db' = \<lparr>rd_heads = (rd_heads db)(?run \<mapsto> ?h1), rd_commits = (rd_commits db)((?run, cp_id ?c) \<mapsto> digest),
        rd_chunks = (rd_chunks db)(?run := (if payload = [] then ?chunks
          else hash_set (generation @ '':'' @ redis_revision (cp_revision ?c)) payload ?chunks))\<rparr>"
      using run None check by (simp add: redis_script_def a Let_def cong: if_cong)
    have cur: "rd_heads db ?run = head" "previous = map_option core_of (sv_head ?v ?run)"
      using redis_current [OF ok ready prep val prev check] by simp_all
    have run_ok: "redis_run_ok X K db ?run" using ok by (simp add: redis_ok_def)
    obtain h g rows where old: "case sv_head ?v ?run of None \<Rightarrow> head = None \<and> rd_chunks db ?run = []
        | Some p \<Rightarrow> head = Some h \<and> redis_head_ok X K db ?run h p g rows"
    proof (cases head)
      case None
      then show ?thesis using that cur(1) redis_ok_head(1) [OF ok, of ?run] run_ok by (simp add: redis_run_ok_def)
    next
      case (Some h)
      then show ?thesis using that [of h] cur(1) redis_ok_head(2) [OF ok, of ?run h] by auto
    qed
    obtain g' rows' where new: "redis_head_ok X K db' ?run ?h1 ?c g' rows'"
    proof -
      have "case sv_head ?v ?run of None \<Rightarrow> rd_chunks db ?run = [] | Some p \<Rightarrow> redis_head_ok X K db ?run h p g rows"
        using old by (auto split: option.splits)
      moreover have "if delta_rewrites (cm_history c) then generation = redis_revision (cp_revision ?c)
          else sv_head ?v ?run \<noteq> None \<and> rh_generation h = generation"
        using gen old by (auto split: option.splits if_splits)
      moreover have "rd_chunks db' ?run = (let chunks = ?chunks in if payload = [] then chunks
          else hash_set (generation @ '':'' @ redis_revision (cp_revision ?c)) payload chunks)"
        by (simp add: db' Let_def)
      ultimately show ?thesis
        using redis_script_head [OF codec scope val [unfolded cur(2)] _ _ pay core] that by blast
    qed
    have other: "rd_heads db' r = rd_heads db r" "rd_chunks db' r = rd_chunks db r" "rd_commits db' (r, i) = rd_commits db (r, i)"
      if "r \<noteq> ?run" for r i
      using that by (simp_all add: db')
    have "redis_run_ok X K db' r" for r
    proof (cases "r = ?run")
      case True
      have "rd_heads db' ?run = Some ?h1" by (simp add: db')
      then show ?thesis using new True by (auto simp: redis_run_ok_def)
    next
      case False
      have "redis_run_ok X K db r" using ok by (simp add: redis_ok_def)
      then show ?thesis using other [OF False] redis_head_ok_cong [of db' r db X K]
        by (cases "rd_heads db r") (simp_all add: redis_run_ok_def)
    qed
    then have ok': "redis_ok X K db'" by (simp add: redis_ok_def)
    have "rd_heads db' ?run = Some ?h1" by (simp add: db')
    from redis_load_ok [OF this new, of id]
    have head': "sv_head (redis_view X K db') ?run = Some ?c" by (simp add: redis_view_def listing_ok_def)
    have "sv_head (redis_view X K db') r = sv_head (view_put c digest ?v) r" for r
      using head' redis_view_cong [OF other(1,2), of r] by (cases "r = ?run") (simp_all add: view_put_def)
    moreover have "sv_seen (redis_view X K db') k = sv_seen (view_put c digest ?v) k" for k
      by (simp add: redis_view_def view_put_def commit_key_def db')
    ultimately have "redis_view X K db' = view_put c digest ?v"
      by (intro store_view.equality) (auto simp: fun_eq_iff)
    then have spec: "spec_commit X ?v c = Inr (redis_view X K db')"
      using digest None seen val cur(2) by (simp add: spec_commit_def)
    have "redis_later h' (Some ?h1)" if "rd_heads db ?run = Some h'" for h'
    proof -
      have p: "sv_head ?v ?run \<noteq> None" "head = Some h'" using that cur(1) old by (auto split: option.splits)
      then obtain p where p': "sv_head ?v ?run = Some p" "redis_head_ok X K db ?run h' p g rows"
        using old by auto
      then have "unat (cp_revision ?c) = unat (cp_revision p) + 1"
        using accepted_revision_step(2) [of X c "core_of p"] val cur(2) by simp
      then show ?thesis using p'(2) by (simp add: redis_later_def redis_head_ok_def redis_revision_def)
    qed
    then have "redis_later h' (rd_heads db' r)" if "rd_heads db r = Some h'" for r h'
      using that other(1) [of r] by (cases "r = ?run") (auto simp: db' redis_later_def)
    moreover have "rd_commits db' k = Some d" if "rd_commits db k = Some d" for k d
      using that None by (auto simp: db')
    ultimately have "redis_grows db db'" by (simp add: redis_grows_def)
    then show ?thesis using ok' spec by blast
  qed
  then show "redis_ok X K db'" "spec_commit X ?v c = Inr (redis_view X K db')" "redis_grows db db'" by simp_all
qed

section \<open>Every interleaving\<close>

definition redis_phase_ok :: "externals \<Rightarrow> codec \<Rightarrow> redis_db \<Rightarrow> commit \<Rightarrow> redis_phase \<Rightarrow> bool" where
  "redis_phase_ok X K db c phase = (case phase of
       RedisCalled \<Rightarrow> True
     | RedisFresh digest \<Rightarrow> commit_digest X c = Inr digest
     | RedisReady head a \<Rightarrow> redis_ready X K db c head a
     | RedisDone r \<Rightarrow> (r = Inr () \<longrightarrow> (\<exists>digest. commit_digest X c = Inr digest
          \<and> rd_commits db (commit_key c) = Some digest)))"

definition redis_inv :: "externals \<Rightarrow> codec \<Rightarrow> redis_system \<Rightarrow> bool" where
  "redis_inv X K s \<longleftrightarrow> redis_ok X K (ry_db s) \<and> linear (redis_view X K (ry_db s))
     \<and> (\<forall>w c phase. ry_writers s w = Some (c, phase) \<longrightarrow> redis_phase_ok X K (ry_db s) c phase)"

inductive redis_reaches :: "externals \<Rightarrow> codec \<Rightarrow> redis_system \<Rightarrow> bool" for X K where
  rdreach_empty: "redis_reaches X K \<lparr>ry_db = redis_empty, ry_writers = Map.empty\<rparr>"
| rdreach_step: "redis_reaches X K s \<Longrightarrow> redis_step X K s s'
    \<Longrightarrow> (\<And>w c phase. ry_writers s' w = Some (c, phase) \<Longrightarrow> redis_scope X c) \<Longrightarrow> redis_reaches X K s'"

lemma redis_phase_grows: "redis_phase_ok X K db c phase \<Longrightarrow> redis_grows db db' \<Longrightarrow> redis_phase_ok X K db' c phase"
  by (auto simp: redis_phase_ok_def redis_ready_grows split: redis_phase.splits)
     (auto simp: redis_grows_def commit_key_def)

lemma redis_inv_phase: "redis_inv X K s \<Longrightarrow> ry_writers s w = Some (c, phase) \<Longrightarrow> redis_phase_ok X K (ry_db s) c phase"
  unfolding redis_inv_def by blast

text \<open>A step of one writer keeps the invariant when its own phase is in order.\<close>

lemma redis_go_inv:
  assumes "redis_inv X K s" and "redis_ok X K db" and "linear (redis_view X K db)" and "redis_grows (ry_db s) db"
    and "redis_phase_ok X K db c phase"
  shows "redis_inv X K (redis_go w c phase db s)"
  using assms redis_phase_grows [OF _ assms(4)] by (auto simp: redis_inv_def redis_go_def)

lemma redis_called_ok: "redis_phase_ok X K db c (redis_called X c db)"
  by (auto simp: redis_phase_ok_def redis_called_def redis_identity_def commit_key_def
      split: sum.splits option.splits if_splits)

lemma redis_fresh_ok:
  assumes "redis_ok X K db" and "commit_digest X c = Inr digest"
  shows "redis_phase_ok X K db c (redis_fresh X K now later c digest db)"
proof (cases "redis_prepare X K now later c digest (rd_heads db (commit_run c))")
  case (Inl e)
  then show ?thesis by (simp add: redis_fresh_def redis_phase_ok_def)
next
  case (Inr a)
  have "\<exists>p. cc_core_parse K (rh_core h) = Inr (core_of p) \<and> rh_revision h = redis_revision (cp_revision p)"
    if "rd_heads db (commit_run c) = Some h" for h
    using redis_ok_head(2) [OF assms(1) that] by (auto simp: redis_head_ok_def)
  then show ?thesis using Inr assms(2)
    by (auto simp: redis_fresh_def redis_phase_ok_def redis_ready_def redis_later_def)
qed

text \<open>A script that ran, whether its answer arrived or not.\<close>

lemma redis_ran:
  assumes codec: "redis_codec K" and inv: "redis_inv X K s" and scope: "redis_scope X c"
    and w: "ry_writers s w = Some (c, RedisReady head a)" and run: "redis_script (commit_run c) a (ry_db s) = (answer, db)"
  shows "redis_ok X K db" and "linear (redis_view X K db)" and "redis_grows (ry_db s) db"
    and "db = ry_db s \<or> spec_commit X (redis_view X K (ry_db s)) c = Inr (redis_view X K db)"
    and "answer = ''ok'' \<Longrightarrow> \<exists>digest. commit_digest X c = Inr digest \<and> rd_commits db (commit_key c) = Some digest"
proof -
  have ok: "redis_ok X K (ry_db s)" and lin: "linear (redis_view X K (ry_db s))" and ready: "redis_ready X K (ry_db s) c head a"
    using inv redis_inv_phase [OF inv w] by (simp_all add: redis_inv_def redis_phase_ok_def)
  have same: "db = ry_db s" if "answer \<noteq> ''ok''" using redis_script_refused [OF run that] .
  have ran: "redis_ok X K db" "spec_commit X (redis_view X K (ry_db s)) c = Inr (redis_view X K db)" "redis_grows (ry_db s) db"
    if "answer = ''ok''"
    using redis_script_ok [OF codec ok scope ready] run that by simp_all
  show "redis_ok X K db" using same ok ran(1) by (cases "answer = ''ok''") simp_all
  show "linear (redis_view X K db)"
    using same lin linear_commit [OF lin] ran(2) by (cases "answer = ''ok''") auto
  show "redis_grows (ry_db s) db" using same ran(3) by (cases "answer = ''ok''") auto
  show "db = ry_db s \<or> spec_commit X (redis_view X K (ry_db s)) c = Inr (redis_view X K db)"
    using same ran(2) by blast
  show "\<exists>digest. commit_digest X c = Inr digest \<and> rd_commits db (commit_key c) = Some digest" if "answer = ''ok''"
    using ran(2) [OF that]
    by (cases rule: spec_commit_cases) (auto simp: redis_view_def view_put_def commit_key_def)
qed

lemma redis_step_inv:
  assumes codec: "redis_codec K" and step: "redis_step X K s s'" and inv: "redis_inv X K s"
    and scope: "\<And>w c phase. ry_writers s' w = Some (c, phase) \<Longrightarrow> redis_scope X c"
  shows "redis_inv X K s' \<and> (redis_view X K (ry_db s') = redis_view X K (ry_db s)
     \<or> (\<exists>w c phase. ry_writers s w = Some (c, phase)
          \<and> spec_commit X (redis_view X K (ry_db s)) c = Inr (redis_view X K (ry_db s'))))"
proof -
  have ok: "redis_ok X K (ry_db s)" and lin: "linear (redis_view X K (ry_db s))"
    using inv by (simp_all add: redis_inv_def)
  note still = redis_go_inv [OF inv ok lin redis_grows_refl]
  have in_scope: "redis_scope X c" if "s' = redis_go w c phase db s" for w c phase db
    using scope [of w c phase] that by (simp add: redis_go_def)
  show ?thesis using step
  proof cases
    case (rdstep_call w c)
    then show ?thesis using still [of c RedisCalled w] by (simp add: redis_phase_ok_def) (simp add: redis_go_def)
  next
    case (rdstep_identity w c)
    then show ?thesis using still [OF redis_called_ok] by (simp) (simp add: redis_go_def)
  next
    case (rdstep_head w c digest now later)
    then have "commit_digest X c = Inr digest" using redis_inv_phase [OF inv] by (fastforce simp: redis_phase_ok_def)
    then show ?thesis using still [OF redis_fresh_ok [OF ok]] rdstep_head(1) by (simp) (simp add: redis_go_def)
  next
    case (rdstep_script w c head a answer db)
    note ran = redis_ran [OF codec inv in_scope [OF rdstep_script(1)] rdstep_script(2,3)]
    have "redis_phase_ok X K db c (RedisDone (redis_answer c answer))"
      using ran(5) by (auto simp: redis_phase_ok_def redis_answer_def)
    then have "redis_inv X K s'" using redis_go_inv [OF inv ran(1-3)] rdstep_script(1) by simp
    moreover have "ry_db s' = db" using rdstep_script(1) by (simp add: redis_go_def)
    ultimately show ?thesis using ran(4) rdstep_script(2) by metis
  next
    case (rdstep_lost w c head a answer db message)
    note ran = redis_ran [OF codec inv in_scope [OF rdstep_lost(1)] rdstep_lost(2,3)]
    have "redis_phase_ok X K db c (RedisDone (Inl (Storage message)))" by (simp add: redis_phase_ok_def)
    then have "redis_inv X K s'" using redis_go_inv [OF inv ran(1-3)] rdstep_lost(1) by simp
    moreover have "ry_db s' = db" using rdstep_lost(1) by (simp add: redis_go_def)
    ultimately show ?thesis using ran(4) rdstep_lost(2) by metis
  next
    case (rdstep_fail w c phase message)
    then show ?thesis using still [of c "RedisDone (Inl (Storage message))" w]
      by (simp add: redis_phase_ok_def) (simp add: redis_go_def)
  qed
qed

lemma redis_reaches_inv: "redis_reaches X K s \<Longrightarrow> redis_codec K \<Longrightarrow> redis_inv X K s"
proof (induction rule: redis_reaches.induct)
  case rdreach_empty
  have "redis_view X K redis_empty = empty_view"
    by (simp add: redis_view_def redis_load_def redis_empty_def empty_view_def)
  then show ?case using redis_empty_ok [of X K] linear_empty by (simp add: redis_inv_def)
next
  case (rdreach_step s s')
  then show ?case using redis_step_inv [of K X s s'] by blast
qed

end
