(* ===== verification/Store_Properties.thy ===== *)
theory Store_Properties
  imports Samples Redis_Store
begin

text \<open>
  The properties of the run stores: the two stores in memory, the SQL store and the Redis store against
  the specification on heads and commit identities, with applications to concrete commits.
\<close>

section \<open>The stores in memory\<close>

text \<open>
  Whatever sequence of commits any number of writers sends to the memory store, in whatever order
  it serves them, every stored head is a valid checkpoint of its run and the run has exactly as many
  commit identities as its head has revisions: no two accepted commits have the same parent.
\<close>

theorem memory_store_stays_linear: "linear (mem_view (mem.serve X cs mem_new))"
proof -
  have "mem_view mem_new = empty_view" by (simp add: mem_view_def mem_new_def empty_view_def)
  then show ?thesis using mem.serve_linear [of mem_new cs X] linear_empty by simp
qed

definition sample_stored :: mem_store where
  "sample_stored = snd (mem_commit sample_ext 5 mem_new sample_first_commit)"

definition sample_stored_next :: mem_store where
  "sample_stored_next = snd (mem_commit sample_ext 6 sample_stored sample_next_commit)"

lemma sample_store_steps:
  "mem_commit sample_ext 5 mem_new sample_first_commit = (Inr (), sample_stored)"
  "mem_commit sample_ext 6 sample_stored sample_next_commit = (Inr (), sample_stored_next)"
proof -
  have "fst (mem_commit sample_ext 5 mem_new sample_first_commit) = Inr ()"
    "fst (mem_commit sample_ext 6 sample_stored sample_next_commit) = Inr ()"
    by code_simp+
  then show "mem_commit sample_ext 5 mem_new sample_first_commit = (Inr (), sample_stored)"
    "mem_commit sample_ext 6 sample_stored sample_next_commit = (Inr (), sample_stored_next)"
    by (simp_all add: sample_stored_def sample_stored_next_def prod_eq_iff)
qed

text \<open>
  The memory store is a compare-and-set: once a new commit is accepted, every other new commit of
  the run that expects the same revision is refused and leaves the store as it was.
\<close>

theorem memory_commit_excludes:
  assumes "ms_ids st (commit_key a) = None" and "ms_ids st' (commit_key b) = None"
    and "commit_run a = commit_run b" and "expected_revision a = expected_revision b"
    and "mem_commit X now st a = (Inr (), st')"
  shows "\<exists>e. mem_commit X now' st' b = (Inl e, st')"
  using mem.commit_excludes [of st a st' b X now now'] assms by (simp add: mem_view_def)

definition sample_rival_commit :: commit where
  "sample_rival_commit = commit_new (sample_working\<lparr>cp_id := ''rival''\<rparr>) (Append [sample_call_entry])"

theorem memory_commit_excludes_witness:
  "\<exists>e. mem_commit sample_ext 7 sample_stored_next sample_rival_commit = (Inl e, sample_stored_next)"
proof -
  have a: "ms_ids sample_stored (commit_key sample_next_commit) = None" by code_simp
  have b: "ms_ids sample_stored_next (commit_key sample_rival_commit) = None" by code_simp
  have c: "commit_run sample_next_commit = commit_run sample_rival_commit" by code_simp
  have d: "expected_revision sample_next_commit = expected_revision sample_rival_commit" by code_simp
  show ?thesis by (rule memory_commit_excludes [OF a b c d sample_store_steps(2)])
qed

text \<open>
  A commit to the kernel's own store can be repeated: a writer that did not see the answer sends
  it again, the store accepts it and nothing changes for its readers.
\<close>

theorem ephemeral_commit_repeats:
  assumes "eph_inv st" and "eph_scope st c" and "eph_scope st' c" and "cm_deadline c = None"
    and "eph_commit X now st c = (Inr (), st')"
  shows "\<exists>st''. eph_commit X now' st' c = (Inr (), st'') \<and> eph_view st'' = eph_view st'"
  using eph.commit_repeat [OF assms] .

theorem ephemeral_commit_repeats_witness:
  "\<exists>st st''. eph_commit sample_ext 9 st sample_first_commit = (Inr (), st'') \<and> eph_view st'' = eph_view st"
proof -
  let ?st = "\<lparr>eph_head = None, eph_ids = Map.empty\<rparr>"
  define st' where "st' = snd (eph_commit sample_ext 5 ?st sample_first_commit)"
  have "fst (eph_commit sample_ext 5 ?st sample_first_commit) = Inr ()" by code_simp
  then have ok: "eph_commit sample_ext 5 ?st sample_first_commit = (Inr (), st')"
    by (simp add: st'_def prod_eq_iff)
  have scope: "eph_scope st' sample_first_commit" unfolding st'_def by code_simp
  have "\<exists>st''. eph_commit sample_ext 9 st' sample_first_commit = (Inr (), st'') \<and> eph_view st'' = eph_view st'"
    by (rule ephemeral_commit_repeats [OF _ _ scope _ ok])
       (simp_all add: eph_inv_def eph_scope_def sample_first_commit_def commit_new_def)
  then show ?thesis by blast
qed

section \<open>The SQL store\<close>

text \<open>
  C6: the SQL transaction implements the specification: on a database that satisfies the invariant of
  its tables, an accepted commit has the effect of the abstract one and keeps the invariant, and a
  refused commit changes no table.
\<close>

theorem sql_commit_implements_spec:
  assumes "sql_inv X K db" and "sql_scope X K db c" and "sql_commit X K delay now db c = (r, db')"
  shows "sql_inv X K db' \<and> (case r of
      Inr _ \<Rightarrow> spec_commit X (sql_view X K db) c = Inr (sql_view X K db')
    | Inl _ \<Rightarrow> db' = db)"
  using sql.commit_inv [OF assms] sql.commit_ok [OF assms(1,2), of delay now db']
    sql.commit_err [OF assms(1,2), of delay now _ db'] assms(3)
  by (auto split: sum.split)

definition empty_db :: sql_db where
  "empty_db = \<lparr>db_heads = Map.empty, db_commits = [], db_history = []\<rparr>"

text \<open>A codec for one core and one list of entries; everything else is refused.\<close>

definition sample_codec :: codec where
  "sample_codec = \<lparr>
     cc_core_text = (\<lambda>co. if co = core_of sample_checkpoint then Inr ''core'' else Inl ''no text''),
     cc_core_parse = (\<lambda>t. if t = ''core'' then Inr (core_of sample_checkpoint) else Inl ''no core''),
     cc_entries_text = (\<lambda>es. if es = [sample_entry] then Inr ''entries'' else Inl ''no text''),
     cc_entries_parse = (\<lambda>t. if t = ''entries'' then Inr [sample_entry] else Inl ''no entries'')\<rparr>"

lemma sample_db_inv: "sql_inv sample_ext sample_codec empty_db"
  unfolding sql_inv_def empty_db_def using sql_ok_empty [of sample_ext sample_codec]
  by (simp add: codec_lawful_def sample_codec_def split: if_splits)

lemma sample_db_scope: "sql_scope sample_ext sample_codec empty_db sample_first_commit"
proof -
  have "cp_history sample_checkpoint = sample_history"
    by (simp add: sample_checkpoint_def initial_def sample_request_def)
  moreover have "sv_head (sql_view sample_ext sample_codec empty_db) run = None" for run
    by (simp add: sql_view_def sql_load_head_def empty_db_def)
  moreover have "cp_revision sample_checkpoint = 0"
    by (simp add: sample_checkpoint_def initial_def sample_request_def)
  ultimately show ?thesis
    using sample_history_ok
    by (simp add: sql_scope_def sample_first_commit_def commit_new_def sample_codec_def is_ok_def
          commit_core_def)
qed

definition sample_db :: sql_db where
  "sample_db = snd (sql_commit sample_ext sample_codec 0 5 empty_db sample_first_commit)"

lemma sample_db_step: "sql_commit sample_ext sample_codec 0 5 empty_db sample_first_commit = (Inr (), sample_db)"
proof -
  have "fst (sql_commit sample_ext sample_codec 0 5 empty_db sample_first_commit) = Inr ()" by code_simp
  then show ?thesis by (simp add: sample_db_def prod_eq_iff)
qed

theorem sql_commit_implements_spec_witness:
  "spec_commit sample_ext (sql_view sample_ext sample_codec empty_db) sample_first_commit
     = Inr (sql_view sample_ext sample_codec sample_db)"
  using sql_commit_implements_spec [OF sample_db_inv sample_db_scope sample_db_step] by simp

text \<open>
  C12: what the SQL store accepts it can give back: after a new commit, loading the run decodes the
  core, reassembles the history from its rows and returns the committed checkpoint itself.
\<close>

theorem sql_load_returns_commit:
  assumes inv: "sql_inv X K db" and scope: "sql_scope X K db c"
    and new: "sql_existing db (commit_run c) (cp_id (cm_checkpoint c)) = None"
    and ok: "sql_commit X K delay now db c = (Inr (), db')"
  shows "sql_load_head X K db' (commit_run c) = Inr (Some (cm_checkpoint c))"
proof -
  have "sv_seen (sql_view X K db) (commit_key c) = None" using new by (simp add: sql_view_def commit_key_def)
  with sql.commit_ok [OF inv scope ok] have "sv_head (sql_view X K db') (commit_run c) = Some (cm_checkpoint c)"
    by (elim spec_commit_cases) (auto simp: view_put_def)
  then show ?thesis using sql.load_head [OF sql.commit_inv [OF inv scope ok]] by simp
qed

theorem sql_load_returns_commit_witness:
  "sql_load_head sample_ext sample_codec sample_db ''run'' = Inr (Some sample_checkpoint)"
proof -
  have run: "commit_run sample_first_commit = ''run''" by code_simp
  have new: "sql_existing empty_db (commit_run sample_first_commit) (cp_id (cm_checkpoint sample_first_commit)) = None"
    by (simp add: sql_existing_def empty_db_def)
  show ?thesis
    using sql_load_returns_commit [OF sample_db_inv sample_db_scope new sample_db_step]
    unfolding run by (simp add: sample_first_commit_def commit_new_def)
qed

section \<open>The Redis store\<close>

text \<open>
  C31: whatever requests of whatever writers the Redis server serves in whatever order, and whichever of
  them fail before or after they ran, what the store holds changes only by accepted commits of the
  specification; the identities of a run stay one per revision of its head; a writer that was told of
  success finds its commit recorded; and loading a run returns its head, in whatever order the server
  lists the chunks.
\<close>

theorem redis_commits_linearize:
  assumes "redis_codec K" "redis_reaches X K s" "redis_step X K s s'"
    "\<forall>w c phase. ry_writers s' w = Some (c, phase) \<longrightarrow> redis_scope X c"
  shows "(redis_view X K (ry_db s') = redis_view X K (ry_db s)
      \<or> (\<exists>w c phase. ry_writers s w = Some (c, phase)
           \<and> spec_commit X (redis_view X K (ry_db s)) c = Inr (redis_view X K (ry_db s'))))
    \<and> linear (redis_view X K (ry_db s'))
    \<and> (\<forall>w c. ry_writers s' w = Some (c, RedisDone (Inr ())) \<longrightarrow>
         (\<exists>digest. commit_digest X c = Inr digest \<and> sv_seen (redis_view X K (ry_db s')) (commit_key c) = Some digest))
    \<and> (\<forall>listing run. listing_ok listing \<longrightarrow>
         redis_load listing X K (ry_db s') run = Inr (sv_head (redis_view X K (ry_db s')) run))"
proof -
  have "redis_inv X K s" by (rule redis_reaches_inv [OF assms(2,1)])
  then have step: "redis_inv X K s' \<and> (redis_view X K (ry_db s') = redis_view X K (ry_db s)
      \<or> (\<exists>w c phase. ry_writers s w = Some (c, phase)
           \<and> spec_commit X (redis_view X K (ry_db s)) c = Inr (redis_view X K (ry_db s'))))"
    by (rule redis_step_inv [OF assms(1,3)]) (use assms(4) in blast)
  then have inv: "redis_inv X K s'" by blast
  have "redis_ok X K (ry_db s')" "linear (redis_view X K (ry_db s'))"
    using inv by (simp_all add: redis_inv_def)
  moreover have "\<exists>digest. commit_digest X c = Inr digest \<and> sv_seen (redis_view X K (ry_db s')) (commit_key c) = Some digest"
    if "ry_writers s' w = Some (c, RedisDone (Inr ()))" for w c
    using redis_inv_phase [OF inv that] by (simp add: redis_phase_ok_def redis_view_def)
  ultimately show ?thesis using step redis_load_view [of X K "ry_db s'"] by blast
qed

text \<open>One writer stores the first checkpoint of a run.\<close>

definition redis_sample :: "nat \<Rightarrow> redis_system" where
  "redis_sample n = (let c = sample_first_commit; s0 = \<lparr>ry_db = redis_empty, ry_writers = Map.empty\<rparr>;
       s1 = redis_go 0 c RedisCalled (ry_db s0) s0;
       s2 = redis_go 0 c (redis_called sample_ext c (ry_db s1)) (ry_db s1) s1;
       digest = projr (commit_digest sample_ext c);
       s3 = redis_go 0 c (redis_fresh sample_ext sample_codec 5 6 c digest (ry_db s2)) (ry_db s2) s2 in
     [s0, s1, s2, s3] ! n)"

lemma redis_sample_scope: "redis_scope sample_ext sample_first_commit"
proof -
  have "cp_history sample_checkpoint = sample_history"
    by (simp add: sample_checkpoint_def initial_def sample_request_def)
  moreover have "expected_revision sample_first_commit = None" by code_simp
  then have "validate_against sample_ext sample_first_commit (Some co) \<noteq> Inr ()" for co
    using accepted_revision [of sample_ext sample_first_commit "Some co"] by auto
  moreover have "history_entries sample_history = delta_apply (cm_history sample_first_commit) []" by code_simp
  ultimately show ?thesis
    using sample_history_ok by (simp add: redis_scope_def sample_first_commit_def commit_new_def)
qed

lemma redis_sample_codec: "redis_codec sample_codec"
  by (simp add: redis_codec_def codec_lawful_def sample_codec_def split: if_splits)

lemma redis_sample_writer: "0 < n \<Longrightarrow> n < 4 \<Longrightarrow> ry_writers (redis_sample n) w = Some (c, phase) \<Longrightarrow> c = sample_first_commit"
  by (auto simp: redis_sample_def redis_go_def Let_def numeral_eq_Suc less_Suc_eq split: if_splits)

lemma redis_sample_reaches: "redis_reaches sample_ext sample_codec (redis_sample 3)"
proof -
  have scope: "redis_scope sample_ext c" if "0 < n" "n < 4" "ry_writers (redis_sample n) w = Some (c, phase)" for n w c phase
    using redis_sample_writer [OF that] redis_sample_scope by simp
  have "redis_reaches sample_ext sample_codec (redis_sample 0)"
    unfolding redis_sample_def Let_def by (simp add: rdreach_empty)
  moreover have "redis_step sample_ext sample_codec (redis_sample 0) (redis_sample 1)"
    using rdstep_call [of "redis_sample 0" 0 sample_ext sample_codec sample_first_commit]
    by (simp add: redis_sample_def Let_def)
  ultimately have 1: "redis_reaches sample_ext sample_codec (redis_sample 1)"
    by (rule rdreach_step) (rule scope [of 1], simp_all)
  have w1: "ry_writers (redis_sample 1) 0 = Some (sample_first_commit, RedisCalled)"
    by (simp add: redis_sample_def redis_go_def Let_def)
  have "redis_sample 2 = redis_go 0 sample_first_commit (redis_called sample_ext sample_first_commit (ry_db (redis_sample 1)))
      (ry_db (redis_sample 1)) (redis_sample 1)"
    by (simp add: redis_sample_def Let_def)
  with rdstep_identity [OF w1, of sample_ext sample_codec]
  have 2: "redis_reaches sample_ext sample_codec (redis_sample 2)"
    by (intro rdreach_step [OF 1]) (simp, rule scope [of 2], simp_all)
  have "\<exists>digest. commit_digest sample_ext sample_first_commit = Inr digest"
  proof -
    have "is_ok (commit_digest sample_ext sample_first_commit)" by code_simp
    then show ?thesis by (auto simp: is_ok_def split: sum.splits)
  qed
  then obtain digest where digest: "commit_digest sample_ext sample_first_commit = Inr digest" by blast
  have w2: "ry_writers (redis_sample 2) 0 = Some (sample_first_commit, RedisFresh digest)"
    by (simp add: redis_sample_def redis_go_def Let_def redis_called_def digest redis_empty_def redis_identity_def)
  have "redis_sample 3 = redis_go 0 sample_first_commit (redis_fresh sample_ext sample_codec 5 6 sample_first_commit digest
      (ry_db (redis_sample 2))) (ry_db (redis_sample 2)) (redis_sample 2)"
    by (simp add: redis_sample_def Let_def digest)
  with rdstep_head [OF w2, of sample_ext sample_codec 5 6] show ?thesis
    by (intro rdreach_step [OF 2]) (simp, rule scope [of 3], simp_all)
qed

theorem redis_commits_linearize_witness:
  "\<exists>s :: redis_system. ry_writers s 0 = Some (sample_first_commit, RedisDone (Inr ()))
     \<and> linear (redis_view sample_ext sample_codec (ry_db s))"
proof -
  have "(case ry_writers (redis_sample 3) 0 of Some (_, RedisReady head a) \<Rightarrow>
      fst (redis_script (commit_run sample_first_commit) a (ry_db (redis_sample 3))) = ''ok'' | _ \<Rightarrow> False)"
    by code_simp
  then obtain c head a where w: "ry_writers (redis_sample 3) 0 = Some (c, RedisReady head a)"
    and ok: "fst (redis_script (commit_run sample_first_commit) a (ry_db (redis_sample 3))) = ''ok''"
    by (auto split: option.splits prod.splits redis_phase.splits)
  have c: "c = sample_first_commit" by (rule redis_sample_writer [OF _ _ w]) simp_all
  obtain db where script: "redis_script (commit_run c) a (ry_db (redis_sample 3)) = (''ok'', db)"
    using ok c by (cases "redis_script (commit_run c) a (ry_db (redis_sample 3))") simp
  let ?s = "redis_go 0 c (RedisDone (redis_answer c ''ok'')) db (redis_sample 3)"
  note step = rdstep_script [OF w script, of sample_ext sample_codec]
  have "redis_scope sample_ext c'" if "ry_writers ?s w' = Some (c', phase)" for w' c' phase
  proof (cases "w' = 0")
    case True
    then show ?thesis using that c redis_sample_scope by (simp add: redis_go_def)
  next
    case False
    then have "ry_writers (redis_sample 3) w' = Some (c', phase)" using that by (simp add: redis_go_def)
    then show ?thesis using redis_sample_writer [of 3 w' c' phase] redis_sample_scope by simp
  qed
  then have "linear (redis_view sample_ext sample_codec (ry_db ?s))"
    using redis_commits_linearize [OF redis_sample_codec redis_sample_reaches step] by blast
  moreover have "ry_writers ?s 0 = Some (sample_first_commit, RedisDone (Inr ()))"
    by (simp add: redis_go_def redis_answer_def c)
  ultimately show ?thesis by blast
qed

end
