(* ===== verification/Engine_Properties.thy ===== *)
theory Engine_Properties
  imports Samples
begin

text \<open>
  The properties of the engine and of the policies it consults: the states of a run and their store,
  the settlement of operations, commands and session events, admission, media and the end of a run.
\<close>

section \<open>The run and its store\<close>

lemma mem_new_fresh: "mem_run.fresh_from E 0 mem_new"
  by (simp add: mem_run.fresh_from_def mem_used_def mem_new_def)

text \<open>
  C1: in every state that a run on the memory store reaches, whatever the model, the tools and the host
  report and in whatever order, the checkpoint the engine works from is valid and is the head the store
  would load; the only exception is a run that has ended with a storage error.
\<close>

theorem run_holds_durable_head:
  assumes "mem_run.fresh_from E 0 st" and "execute_start (on_memory E) st now request = Inr e0"
    and "start_up (on_memory E) cs ms request e0 = (Inr (), e)"
    and "reaches (on_memory E) (Passing, e) (p, e')"
  shows "(ms_heads (en_store e') (rc_run_id (cp_context (en_current e'))) = Some (en_current e')
      \<and> checkpoint_validate (en_current e') = Inr ())
    \<or> (\<exists>err. p = Ended (Inl err) \<and> error_fatal err)"
  by (rule mem_run.run_durable_head [OF TrueI assms])

theorem run_holds_durable_head_witness:
  "ms_heads (en_store sample_started) (rc_run_id (cp_context (en_current sample_started)))
     = Some (en_current sample_started)"
  using run_holds_durable_head [OF mem_new_fresh sample_run_starts reaches_refl] by simp

text \<open>
  C4: in every reachable state of such a run the commands that carry context into the session are
  numbered without gap: the k-th pending one has the acknowledged revision plus k + 1, and the last one
  the current revision, so an acknowledgement names one command.
\<close>

theorem run_projects_in_step:
  assumes "mem_run.fresh_from E 0 st" and "execute_start (on_memory E) st now request = Inr e0"
    and "start_up (on_memory E) cs ms request e0 = (Inr (), e)"
    and "reaches (on_memory E) (Passing, e) (p, e')" and "request_projected request"
  shows "projection_ok (en_current e') \<and> (\<forall>k < length (projections (cp_commands (en_current e'))).
      projections (cp_commands (en_current e')) ! k
        = ss_acknowledged_context_revision (cp_session (en_current e')) + 1 + of_nat k)"
proof -
  have "projection_ok (en_current e')"
    by (rule mem_run.run_projection [OF TrueI assms(1-4) execute_start_projection [OF assms(2,5)]])
  then show ?thesis using chained_nth by (auto simp: projection_ok_def)
qed

theorem run_projects_in_step_witness: "projection_ok (en_current sample_started)"
  using run_projects_in_step [OF mem_new_fresh sample_run_starts reaches_refl]
  by (simp add: request_projected_def sample_request_def)

text \<open>
  C13: every checkpoint that a run commits after its first one is announced to its observers, in order and
  once: the k-th announced revision is the first one plus k, as many were announced as the revision of
  the checkpoint the engine holds is ahead of the first, and the last announcement is of that checkpoint.
  The only exception is a run that has ended with a storage error.
\<close>

theorem run_announces_in_order:
  assumes "execute_start E st now request = Inr e0" and "start_up E cs ms request e0 = (Inr (), e)"
    and "reaches E (Passing, e) (p, e')"
  shows "((\<forall>k < length (committed e'). snd (committed e' ! k) = cp_revision (en_current e0) + of_nat (k + 1))
      \<and> cp_revision (en_current e') = cp_revision (en_current e0) + of_nat (length (committed e'))
      \<and> (if committed e' = [] then en_current e' = en_current e0
         else last (committed e') = (cp_id (en_current e'), cp_revision (en_current e'))))
    \<or> (\<exists>err. p = Ended (Inl err) \<and> error_fatal err)"
proof -
  have "\<exists>c x. en_log e0 = [InvalidateOutput x]"
    using assms(1)
    by (auto simp: execute_start_def Let_def split: prod.splits sum.splits)
       (metis persist_frame [THEN exE] snd_conv engine_new_def engine.select_convs engine.simps)
  then have "announced (en_current e0) e0" by (auto simp: announced_def committed_def map_filter_simps)
  from announced.run_keeps [OF this assms(2,3)] show ?thesis
    by (auto simp: announced_def dest: announced_nth)
qed

theorem run_announces_in_order_witness:
  "map snd (committed sample_started) = [1, 2] \<and> cp_revision (en_current sample_started) = 2"
proof -
  have "length (committed sample_started) = 2" "cp_revision (en_current sample_run) = 0" by code_simp+
  then show ?thesis
    using run_announces_in_order [OF sample_run_starts reaches_refl] by (auto simp: list_eq_iff_nth_eq nth_Cons' dest: less_2_cases)
qed

section \<open>Operations\<close>

definition sample_outcome :: operation_outcome where
  "sample_outcome = OutcomeSuccess [Text ''done''] Null"

definition sample_finished :: "unit engine" where
  "sample_finished = snd (finish_at sample_env ''op'' sample_outcome (Some 4) sample_engine)"

lemma sample_finish:
  "finish_at sample_env ''op'' sample_outcome (Some 4) sample_engine = (Inr (), sample_finished)"
proof -
  have "fst (finish_at sample_env ''op'' sample_outcome (Some 4) sample_engine) = Inr ()" by code_simp
  then show ?thesis by (simp add: sample_finished_def prod_eq_iff)
qed

lemma sample_engine_current: "en_current sample_engine = sample_working"
  by (simp add: sample_engine_def engine_new_def)

lemma sample_engine_parts:
  "history_ok (ke_ext sample_env) (cp_history (en_current sample_engine))"
  "ops_keyed (en_current sample_engine)"
  "om_get (cp_operations (en_current sample_engine)) ''op'' = Some sample_operation"
  "\<not> op_terminal (op_state sample_operation)"
  unfolding sample_engine_current
  by (simp add: sample_env_def sample_longer_parts)
    (simp_all add: ops_keyed_def sample_working_def om_get_def sample_operation_def)

text \<open>
  C2: settling an unfinished operation commits exactly one checkpoint, the successor of the one before.
  In it the operation is in the terminal state of the outcome and points at a new history entry, the last
  one; it waits for nothing any more and keeps its identity, origin, owner and call, and no other
  operation changes. The entry is the result for the owner of the operation: of the tool, of the
  delegation, or a call of the provider with its output and its outcome.
\<close>

theorem settlement_is_recorded:
  assumes "history_ok (ke_ext E) (cp_history (en_current e))" and "ops_keyed (en_current e)"
    and "om_get (cp_operations (en_current e)) i = Some op" and "\<not> op_terminal (op_state op)"
    and "finish_at E i outcome sequence e = (Inr (), e')"
  shows "(\<exists>op'. om_get (cp_operations (en_current e')) i = Some op'
        \<and> op_state op' = outcome_state outcome \<and> op_terminal (op_state op') \<and> op_wait op' = None
        \<and> op_result_entry op' = Some (hist_len (cp_history (en_current e)))
        \<and> (sequence \<noteq> None \<longrightarrow> op_last_sequence op' = sequence \<and> op_last_update op' = Some (UpdateFinished outcome))
        \<and> op_id op' = op_id op \<and> op_origin op' = op_origin op \<and> op_owner op' = op_owner op
        \<and> op_call_entry op' = op_call_entry op)
    \<and> (\<forall>j. j \<noteq> i \<longrightarrow> om_get (cp_operations (en_current e')) j = om_get (cp_operations (en_current e)) j)
    \<and> history_ok (ke_ext E) (cp_history (en_current e'))
    \<and> (\<exists>entry. history_entries (cp_history (en_current e')) = history_entries (cp_history (en_current e)) @ [entry]
         \<and> history_get (cp_history (en_current e')) (hist_len (cp_history (en_current e))) = Some entry
         \<and> he_id entry = result_id i \<and> he_origin entry = Some (op_origin op)
         \<and> (case op_owner op of
               OwnerRuntimeTool n \<Rightarrow> he_message entry = RuntimeTool (cr_call_id (op_origin op)) n outcome
             | OwnerDelegation \<Rightarrow> he_message entry = DelegationResult (cr_call_id (op_origin op)) outcome
             | OwnerProvider _ \<Rightarrow> (\<exists>call. he_message entry = Assistant [ProviderToolCall call] Null
                 \<and> ptc_output call = outcome_content outcome \<and> ptc_outcome call = Some (provider_outcome outcome))))
    \<and> committed e' = committed e @ [(cp_id (en_current e'), cp_revision (en_current e) + 1)]
    \<and> cp_revision (en_current e') = cp_revision (en_current e) + 1
    \<and> cp_parent_id (en_current e') = Some (cp_id (en_current e))
    \<and> cp_fact (en_current e') = FOperation i (outcome_state outcome)"
  using assms(2-5)
proof (cases rule: finish_at_step)
  case (settled entry "next" e0 e1)
  let ?k = "hist_len (cp_history (en_current e))"
  have cur: "en_current e' = stamp (ke_new_id E (en_ids e0)) (en_current e) (FOperation i (outcome_state outcome)) next"
    using e_commit_current [OF settled(4)] by (simp add: settled(5,7))
  have "committed e' = committed e @ [(cp_id (en_current e'), cp_revision (en_current e'))]"
    using e_commit_committed [OF settled(4)] by (simp add: committed_def settled(6-8))
  moreover have "he_message entry = Assistant [ProviderToolCall (settled_call call outcome)] Null \<Longrightarrow>
      \<exists>call. he_message entry = Assistant [ProviderToolCall call] Null
        \<and> ptc_output call = outcome_content outcome \<and> ptc_outcome call = Some (provider_outcome outcome)" for call
    by (simp add: settled_call_def)
  moreover have "om_get (cp_operations (en_current e')) j = (if j = i then Some (settle_operation outcome sequence ?k op)
      else om_get (cp_operations (en_current e)) j)" for j
    using assms(3) by (simp add: cur settled(3))
  moreover have "op_terminal (outcome_state outcome)" by (cases outcome) simp_all
  ultimately show ?thesis
    using history_append_last [OF assms(1) settled(2)] settled(9-11)
    by (auto simp: cur settle_operation_def split: operation_owner.splits option.splits)
qed

theorem settlement_is_recorded_witness:
  "\<exists>op. om_get (cp_operations (en_current sample_finished)) ''op'' = Some op \<and> op_state op = Succeeded
     \<and> op_last_sequence op = Some 4"
  using settlement_is_recorded [OF sample_engine_parts sample_finish] by (auto simp: sample_outcome_def)

text \<open>
  C8: an operation settles once. After it settled, the same outcome is accepted again without any
  effect and every other outcome is refused, also without effect.
\<close>

theorem operation_settles_once:
  assumes "history_ok (ke_ext E) (cp_history (en_current e))" and "ops_keyed (en_current e)"
    and "om_get (cp_operations (en_current e)) i = Some op" and "\<not> op_terminal (op_state op)"
    and "finish_at E i outcome sequence e = (Inr (), e')" and "outcome_validate outcome' = Inr ()"
  shows "finish_at E i outcome' sequence' e' =
    (if outcome' = outcome then Inr () else Inl (Protocol ''conflicting operation completion''), e')"
  by (rule finish_once [OF assms])

theorem operation_settles_once_witness:
  "finish_at sample_env ''op'' (OutcomeCancelled ''late'') None sample_finished
     = (Inl (Protocol ''conflicting operation completion''), sample_finished)"
proof -
  have "outcome_validate (OutcomeCancelled ''late'') = Inr ()" by code_simp
  from operation_settles_once [OF sample_engine_parts sample_finish this] show ?thesis
    by (simp add: sample_outcome_def)
qed

text \<open>
  The reports of an operation are applied at most once. A report older than the operation's cursor
  changes nothing, and one at the cursor is either the report already applied, which changes nothing, or
  a protocol error.
\<close>

theorem operation_reports_apply_once:
  assumes "om_get (cp_operations (en_current e)) i = Some op" and "op_last_sequence op = Some s"
    and "oe_sequence event \<le> s" and "\<not> is_context_update (oe_update event)"
  shows "operation_event_step E i event e =
    (if oe_sequence event < s \<or> op_last_update op = Some (oe_update event) then Inr ()
     else Inl (Protocol ''conflicting operation event sequence''), e)"
proof (cases "oe_sequence event < s")
  case True
  then show ?thesis using replayed_event [OF assms(1,2) True assms(4)] by simp
next
  case False
  then have "oe_sequence event = s" using assms(3) by simp
  then show ?thesis using repeated_event [OF assms(1) _ assms(4)] assms(2) by simp
qed

theorem operation_reports_apply_once_witness:
  "operation_event_step sample_env ''op'' \<lparr>oe_sequence = 2, oe_update = UpdateProgress Null\<rparr> sample_engine
     = (Inr (), sample_engine)"
  using operation_reports_apply_once [OF sample_engine_parts(3), of 3 "\<lparr>oe_sequence = 2, oe_update = UpdateProgress Null\<rparr>"]
  by (simp add: sample_operation_def is_context_update_def)

section \<open>Commands\<close>

definition sample_command :: pending_command where
  "sample_command = \<lparr>pc_id = ''generate'', pc_intent = IGenerate ''g'' 0 0 0, pc_sent = False\<rparr>"

definition sample_commanding :: "unit engine" where
  "sample_commanding = sample_engine\<lparr>en_current := map_commands (\<lambda>_. [sample_command]) sample_working\<rparr>"

definition sample_dispatched :: "unit engine" where
  "sample_dispatched = snd (dispatch_one sample_env sample_capabilities sample_command sample_commanding)"

text \<open>
  C3: what goes out to the model is submitted once. A dispatch hands over one batch, after nothing but
  events for the observers. The batch starts with the chosen command, holds no command twice and none that
  was handed over before, and each is a pending command with the body of its intent. A command with an
  external effect goes alone, and only after a checkpoint which says that it is being sent was committed
  and announced.
\<close>

theorem dispatch_submits_once:
  assumes "dispatch_one E caps command e = (Inr (), e')"
    and "command \<in> set (cp_commands (en_current e))" and "distinct (map pc_id (cp_commands (en_current e)))"
    and "pc_id command \<notin> en_sent e"
  shows "\<exists>events batch. en_log e' = en_log e @ events @ [Submit batch] \<and> (\<forall>x \<in> set events. \<exists>d. x = Emit d)
     \<and> batch \<noteq> [] \<and> scmd_id (hd batch) = pc_id command \<and> en_sent e' = en_sent e \<union> set (map scmd_id batch)
     \<and> distinct (map scmd_id batch) \<and> set (map scmd_id batch) \<inter> en_sent e = {}
     \<and> (\<forall>s \<in> set batch. \<exists>c \<in> set (cp_commands (en_current e')). pc_id c = scmd_id s
          \<and> command_body e' (pc_intent c) = Inr (scmd_body s))
     \<and> (needs_boundary caps (pc_intent command) \<longrightarrow> length batch = 1
          \<and> (\<not> pc_sent command \<longrightarrow> commit_notice (en_current e') \<in> set events)
          \<and> (\<exists>c \<in> set (cp_commands (en_current e')). pc_id c = pc_id command
               \<and> pc_intent c = pc_intent command \<and> pc_sent c))"
  using dispatch_one_submits [OF assms] by blast

theorem dispatch_submits_once_witness:
  "\<exists>c \<in> set (cp_commands (en_current sample_dispatched)). pc_id c = ''generate'' \<and> pc_sent c"
proof -
  have "fst (dispatch_one sample_env sample_capabilities sample_command sample_commanding) = Inr ()" by code_simp
  then have run: "dispatch_one sample_env sample_capabilities sample_command sample_commanding = (Inr (), sample_dispatched)"
    by (simp add: sample_dispatched_def prod_eq_iff)
  have durable: "needs_boundary sample_capabilities (pc_intent sample_command)"
    by (simp add: needs_boundary_def sample_command_def)
  have "cp_commands (en_current sample_commanding) = [sample_command]" "en_sent sample_commanding = {}"
    by (simp_all add: sample_commanding_def sample_engine_def engine_new_def sample_working_def map_commands_def
          map_active_def sample_checkpoint_def initial_def sample_request_def)
  then show ?thesis
    using dispatch_submits_once [OF run] durable by (auto simp: sample_command_def)
qed

section \<open>Session events\<close>

text \<open>
  C7: session events are committed in batches that are all or nothing. A batch that is handled takes the
  reports at the head of the queue and leaves the others there (or sets the one that ended it aside). The
  committed checkpoint is the result of applying, in order, the event that opened the batch and those of
  the taken ones that the session had not seen, at most \<open>max_session_events\<close> with strictly increasing
  sequences, to the checkpoint before. It is one commit, whose sequence is that of the last event and whose
  delta is what the history grew by; at most the suspension that an event asked for follows.
\<close>

theorem session_batch_commits_once:
  assumes "history_ok (ke_ext E) (cp_history (en_current e))"
    and "en_session_sequence e = Some (sev_sequence event)"
    and "0 < lim_max_session_events (ro_limits (cp_options (en_current e)))"
    and "model_batch E event e = (Inr (), e')"
  shows "\<exists>k taken events c es e1 e2. map batchable (take k (en_work e)) = map Some taken
     \<and> events = event # filter (\<lambda>ev. none_or (\<lambda>seen. seen < sev_sequence ev) (ss_last_sequence (cp_session (en_current e)))) taken
     \<and> fst (apply_events E events (en_current e) e) = Inr c
     \<and> length events \<le> lim_max_session_events (ro_limits (cp_options (en_current e)))
     \<and> sorted_wrt (<) (map sev_sequence (event # taken))
     \<and> history_append (ke_ext E) (cp_history (en_current e)) es = Inr (cp_history c)
     \<and> en_current e1 = en_current e \<and> en_store e1 = en_store e \<and> en_log e1 = en_log e
     \<and> e_commit E c (FSession (ss_id (cp_session (en_current e))) (sev_sequence (last events)))
          (if es = [] then Unchanged else Append es) e1 = (Inr (), e2)
     \<and> (en_current e' = en_current e2
        \<or> (\<exists>i. en_current e' = stamp i (en_current e2) (FControl ActSuspended)
                 ((en_current e2)\<lparr>cp_state := StSuspended (runtime_suspension WaitRecovery)\<rparr>)))
     \<and> (en_work e' = drop k (en_work e) \<and> en_stashed e' = en_stashed e
        \<or> (\<exists>w. drop k (en_work e) = w # en_work e' \<and> batchable w = None \<and> en_stashed e' = Some w))"
  using model_batch_commits [OF assms(1,2) refl assms(3,4)] unfolding work_left_def unseen_def [abs_def] .

definition sample_ready :: session_event where
  "sample_ready = \<lparr>sev_sequence = 1, sev_body = EvReady 0\<rparr>"

definition sample_noted :: "unit engine" where
  "sample_noted = sample_engine\<lparr>en_session_sequence := Some 1\<rparr>"

theorem session_batch_commits_once_witness:
  "\<exists>events c. fst (apply_events sample_env (sample_ready # events) sample_working sample_noted) = Inr c
     \<and> length events < 8"
proof -
  have "fst (model_batch sample_env sample_ready sample_noted) = Inr ()" by code_simp
  then have run: "model_batch sample_env sample_ready sample_noted
      = (Inr (), snd (model_batch sample_env sample_ready sample_noted))"
    by (simp add: prod_eq_iff)
  have parts: "en_current sample_noted = sample_working"
    "lim_max_session_events (ro_limits (cp_options sample_working)) = 8"
    by (simp_all add: sample_noted_def sample_engine_def engine_new_def sample_working_def sample_checkpoint_def
          initial_def sample_request_def sample_options_def sample_limits_def)
  have "history_ok (ke_ext sample_env) (cp_history (en_current sample_noted))"
    "en_session_sequence sample_noted = Some (sev_sequence sample_ready)"
    by (simp_all add: parts sample_env_def sample_longer_parts) (simp add: sample_noted_def sample_ready_def)
  note start = this
  have "0 < lim_max_session_events (ro_limits (cp_options (en_current sample_noted)))"
    by (simp add: parts)
  from session_batch_commits_once [OF start this run]
  obtain taken c where "fst (apply_events sample_env (sample_ready # filter (\<lambda>ev. none_or (\<lambda>seen. seen < sev_sequence ev)
        (ss_last_sequence (cp_session sample_working))) taken) sample_working sample_noted) = Inr c"
      "length (sample_ready # filter (\<lambda>ev. none_or (\<lambda>seen. seen < sev_sequence ev)
        (ss_last_sequence (cp_session sample_working))) taken) \<le> 8"
    unfolding parts by blast
  then show ?thesis by (auto simp: Suc_le_eq)
qed

end
