(* ===== verification/Control_Properties.thy ===== *)
theory Control_Properties
  imports Samples
begin

text \<open>
  The properties of what surrounds the loop: the admission of tool calls, the catalog and the order
  they are admitted in, live media and its archive, and the end of a run on an error.
\<close>

section \<open>Tools\<close>

definition sample_tool :: "string \<Rightarrow> bool \<Rightarrow> runtime_tool_spec" where
  "sample_tool name parallel = \<lparr>rts_name = name, rts_description = ''a tool'',
     rts_input = FreeformSpec None, rts_output_schema = None,
     rts_execution = \<lparr>ex_parallel = parallel, ex_read_only = False, ex_idempotent = False\<rparr>\<rparr>"

definition sample_named :: "string \<Rightarrow> runtime_tool_call" where
  "sample_named name = \<lparr>rtc_id = name, rtc_name = name, rtc_input = Freeform ''x''\<rparr>"

definition sample_catalog :: catalog where
  "sample_catalog = projr (select_catalog (SelectOnly [''p'', ''s'']) [sample_tool ''p'' True, sample_tool ''s'' False, sample_tool ''q'' True])"

lemma sample_catalog_selected:
  "select_catalog (SelectOnly [''p'', ''s'']) [sample_tool ''p'' True, sample_tool ''s'' False, sample_tool ''q'' True]
     = Inr sample_catalog"
proof -
  have "is_ok (select_catalog (SelectOnly [''p'', ''s'']) [sample_tool ''p'' True, sample_tool ''s'' False, sample_tool ''q'' True])"
    by code_simp
  then show ?thesis by (simp add: sample_catalog_def is_ok_def split: sum.splits)
qed

text \<open>
  An opened catalog holds, under its own name, the first listed specification of every selected
  tool and nothing else; a call is bound exactly when it is valid, its tool is held, and the provider
  still binds the tool with the specification the catalog was opened with.
\<close>

theorem catalog_holds_selected_tools:
  assumes "select_catalog sel specs = Inr m"
  shows "om_get m name = (if (case sel of SelectAll \<Rightarrow> True | SelectNone \<Rightarrow> False
        | SelectOnly names \<Rightarrow> name \<in> set names) then find (\<lambda>s. rts_name s = name) specs else None)
    \<and> (catalog_bind inner m call = Inr spec \<longleftrightarrow>
         runtime_tool_call_validate call = Inr () \<and> om_get m (rtc_name call) = Some spec \<and> inner call = Inr spec)"
  using select_catalog_get [OF assms] catalog_bind_Inr by blast

theorem catalog_holds_selected_tools_witness:
  "om_get sample_catalog ''s'' = Some (sample_tool ''s'' False) \<and> om_get sample_catalog ''q'' = None"
  using catalog_holds_selected_tools [OF sample_catalog_selected, of "''s''"]
    catalog_holds_selected_tools [OF sample_catalog_selected, of "''q''"]
  by (simp add: sample_tool_def)

text \<open>
  The default scheduling never lets a serial call overlap. When it admits a serial call, that call
  is the first candidate and the only one admitted, and nothing that was emitted after a serial call is
  admitted together with what was emitted before it.
\<close>

theorem serial_call_runs_alone:
  assumes "default_select (before @ serial # after) specs = Inr (calls, parallel)"
    and "\<not> spec_parallel specs serial"
  shows "(serial \<in> set calls \<longrightarrow> calls = [serial] \<and> hd (before @ serial # after) = serial)
    \<and> (before \<noteq> [] \<longrightarrow> length calls \<le> length before)
    \<and> (\<exists>n. calls = take n (before @ serial # after)) \<and> calls \<noteq> []"
  using default.serial_alone [OF assms(1) _ assms(2)] default.serial_barrier [OF assms]
    default.select_prefix [OF assms(1)] default.select_progress [OF assms(1)] by blast

theorem serial_call_runs_alone_witness:
  "\<exists>calls. default_select [sample_named ''p'', sample_named ''s'', sample_named ''p''] sample_catalog = Inr (calls, True)
     \<and> length calls \<le> 1"
proof -
  have run: "default_select ([sample_named ''p''] @ sample_named ''s'' # [sample_named ''p'']) sample_catalog
      = Inr ([sample_named ''p''], True)" by code_simp
  have "\<not> spec_parallel sample_catalog (sample_named ''s'')" by code_simp
  from serial_call_runs_alone [OF run this] run show ?thesis by auto
qed

definition sample_queued :: "unit engine" where
  "sample_queued = sample_engine\<lparr>en_current := map_operations
     (\<lambda>_. [(''op'', sample_operation\<lparr>op_state := Queued\<rparr>)]) sample_working, en_specs := [(''tool'', sample_tool ''tool'' True)]\<rparr>"

text \<open>
  C11: an admission stays within the operation concurrency of the run: what it hands to the approval of
  tool calls, together with the operations of the host that are already running, is never more than the
  limit.
\<close>

theorem admission_within_concurrency:
  assumes "admit E e = (Inr (), e')" and "en_admitting e = {}"
    and "running_count (en_current e) \<le> lim_max_operation_concurrency (ro_limits (cp_options (en_current e)))"
  shows "running_count (en_current e) + card (en_admitting e')
    \<le> lim_max_operation_concurrency (ro_limits (cp_options (en_current e)))"
  by (rule admit_bound [OF assms])

theorem admission_within_concurrency_witness:
  "running_count (en_current sample_queued) + card (en_admitting (snd (admit sample_env sample_queued))) \<le> 2"
proof -
  have "fst (admit sample_env sample_queued) = Inr ()" by code_simp
  then have run: "admit sample_env sample_queued = (Inr (), snd (admit sample_env sample_queued))"
    by (simp add: prod_eq_iff)
  have limit: "lim_max_operation_concurrency (ro_limits (cp_options (en_current sample_queued))) = 2" by code_simp
  have "running_count (en_current sample_queued) = 0" by code_simp
  then show ?thesis
    using admission_within_concurrency [OF run] unfolding limit
    by (simp add: sample_queued_def sample_engine_def engine_new_def)
qed

section \<open>Media\<close>

definition sample_chunk :: "u64 \<Rightarrow> bytes \<Rightarrow> bool \<Rightarrow> media_chunk" where
  "sample_chunk sequence data final = \<lparr>mc_stream_id = ''a'', mc_session_id = ''id-0'', mc_epoch = 0,
     mc_sequence = sequence, mc_timestamp_us = 0, mc_media_type = ''audio/pcm'', mc_bytes = data, mc_end = final\<rparr>"

text \<open>
  A sealed segment loses no bytes. Cutting the stored resource at the offset and length of the k-th
  sealed chunk gives the bytes of the k-th packet.
\<close>

theorem media_segment_is_cut_back:
  assumes "length (segment_bytes segment) < 2 ^ 64" and "k < length segment"
  shows "take (unat (sc_length (seal_chunks 0 segment ! k)))
           (drop (unat (sc_offset (seal_chunks 0 segment ! k))) (segment_bytes segment)) = mc_bytes (segment ! k)"
  using seal_chunks_cut [of "[]" 0 "segment_bytes segment" segment k] assms by simp

theorem media_segment_is_cut_back_witness:
  "take (unat (sc_length (seal_chunks 0 [sample_chunk 1 [7, 8] False, sample_chunk 2 [9] True] ! 1)))
     (drop (unat (sc_offset (seal_chunks 0 [sample_chunk 1 [7, 8] False, sample_chunk 2 [9] True] ! 1))) [7, 8, 9]) = [9]"
  using media_segment_is_cut_back [of "[sample_chunk 1 [7, 8] False, sample_chunk 2 [9] True]" 1]
  by (simp add: segment_bytes_def sample_chunk_def)

text \<open>
  A segment is cut from the queue without loss: the segment, the packet that did not join it and
  what stays queued are together the packets that were there, in order. A segment is never empty, all
  its packets belong to one stream, session, epoch and type, only its last one may end the stream, and
  it holds at most 1024 packets.
\<close>

theorem media_segment_takes_a_run:
  assumes "collect_segment l first queue = (segment, held, rest)"
  shows "first # queue = segment @ (case held of None \<Rightarrow> [] | Some p \<Rightarrow> [p]) @ rest
    \<and> segment \<noteq> [] \<and> length segment \<le> 1024
    \<and> (\<forall>c \<in> set segment. mc_stream_id c = mc_stream_id first \<and> mc_session_id c = mc_session_id first
         \<and> mc_epoch c = mc_epoch first \<and> mc_media_type c = mc_media_type first)
    \<and> (\<forall>k < length segment - 1. \<not> mc_end (segment ! k))
    \<and> (\<forall>p. held = Some p \<longrightarrow> \<not> joins (last segment) p)"
proof -
  note spec = take_segment_spec [OF assms [unfolded collect_segment_def], simplified]
  have "hd segment = first" using spec by (cases segment) auto
  moreover have "length segment \<le> 1024" using spec by (auto simp: max_segment_chunks_def)
  ultimately show ?thesis
    using spec joined_same [of segment] joined_ends [of segment] by (metis append_Cons append_Nil)
qed

theorem media_segment_takes_a_run_witness:
  "\<exists>segment held rest. collect_segment sample_limits (sample_chunk 1 [7] True) [sample_chunk 2 [8] False] = (segment, held, rest)
     \<and> length segment \<le> 1024 \<and> segment @ (case held of None \<Rightarrow> [] | Some p \<Rightarrow> [p]) @ rest
         = [sample_chunk 1 [7] True, sample_chunk 2 [8] False]"
proof -
  obtain segment held rest where run:
    "collect_segment sample_limits (sample_chunk 1 [7] True) [sample_chunk 2 [8] False] = (segment, held, rest)"
    by (metis prod_cases3)
  from media_segment_takes_a_run [OF run] run show ?thesis by metis
qed

definition sample_sealed :: resource_ref where
  "sample_sealed = \<lparr>res_id = ''r'', res_media_type = ''application/json'', res_name = None,
     res_source = Stored ''r'', res_metadata = []\<rparr>"

definition sample_segment :: sealed_media where
  "sample_segment = \<lparr>sm_stream_id = ''a'', sm_session_id = ''id-0'', sm_epoch = 0,
     sm_chunks = seal_chunks 0 [sample_chunk 1 [7] False, sample_chunk 2 [8] False],
     sm_resource = sample_sealed, sm_previous = None\<rparr>"

text \<open>
  A media stream only moves forward. A segment is committed only when its sequences increase and all
  of them lie behind the cursor of the stream; the cursor then stands at its last chunk, and a segment
  that ends the stream leaves no cursor.
\<close>

theorem media_cursor_advances:
  assumes "seal_cursor E direction segment reference e = (Inr (), e')"
  shows "sm_chunks segment \<noteq> [] \<and> sorted_wrt (<) (map sc_sequence (sm_chunks segment))
    \<and> (\<forall>c. om_get (ac_media (cp_active (en_current e))) (media_key direction (sm_stream_id segment) (sm_epoch segment)) = Some c \<longrightarrow>
           (\<forall>chunk \<in> set (sm_chunks segment). cur_sequence c < sc_sequence chunk))
    \<and> om_get (ac_media (cp_active (en_current e'))) (media_key direction (sm_stream_id segment) (sm_epoch segment))
        = (if sc_end (last (sm_chunks segment)) then None else Some (cursor_of segment reference))"
  by (rule seal_cursor_advances [OF assms refl])

theorem media_cursor_advances_witness:
  "om_get (ac_media (cp_active (en_current (snd (seal_cursor sample_env ''input'' sample_segment sample_sealed sample_engine))))) ''input:a:0''
     = Some \<lparr>cur_sequence = 2, cur_epoch = 0, cur_sealed = sample_sealed\<rparr>"
proof -
  have "fst (seal_cursor sample_env ''input'' sample_segment sample_sealed sample_engine) = Inr ()" by code_simp
  then have run: "seal_cursor sample_env ''input'' sample_segment sample_sealed sample_engine
      = (Inr (), snd (seal_cursor sample_env ''input'' sample_segment sample_sealed sample_engine))"
    by (simp add: prod_eq_iff)
  have key: "media_key ''input'' (sm_stream_id sample_segment) (sm_epoch sample_segment) = ''input:a:0''"
    by code_simp
  from media_cursor_advances [OF run] show ?thesis
    unfolding key by (simp add: cursor_of_def sample_segment_def sample_chunk_def)
qed

text \<open>The archive of a run as a chain of nodes with the given keys.\<close>

fun archive_chain :: "'st kernel_env \<Rightarrow> resource_ref option \<Rightarrow> string list \<Rightarrow> bool" where
  "archive_chain E r [] \<longleftrightarrow> r = None"
| "archive_chain E r (key # keys) \<longleftrightarrow> (case r of None \<Rightarrow> False
     | Some reference \<Rightarrow> (case ke_read_archive E reference of Inl _ \<Rightarrow> False
         | Inr node \<Rightarrow> am_stream_key node = key \<and> archive_chain E (am_previous node) keys))"

lemma e_check_error: "e_check E e = (Inl err, e') \<Longrightarrow> err \<in> {Cancelled, Deadline}"
  by (auto simp: e_check_def e_now_def e_get_def e_bind_def e_fail_def e_check_cancelled_def fail_if_def
      split: if_splits)

text \<open>
  Reading the archive of ended streams ends: a bound that covers the chain is enough, and the
  reading then returns the keys of all nodes, unless the run was cancelled or its deadline passed.
\<close>

theorem media_archive_bound_suffices:
  assumes "archive_chain E r keys" and "length keys \<le> depth"
  shows "fst (read_archive E depth r e) \<in> {Inr (set keys), Inl Cancelled, Inl Deadline}"
  using assms
proof (induction keys arbitrary: r depth e)
  case (Cons key keys)
  obtain d where d: "depth = Suc d" using Cons.prems(2) by (cases depth) auto
  obtain reference node where r: "r = Some reference" and node: "ke_read_archive E reference = Inr node"
      "am_stream_key node = key" "archive_chain E (am_previous node) keys"
    using Cons.prems(1) by (auto split: option.splits sum.splits)
  have IH: "fst (read_archive E d (am_previous node) e1) \<in> {Inr (set keys), Inl Cancelled, Inl Deadline}" for e1
    using Cons.IH [OF node(3), of d] Cons.prems(2) d by simp
  obtain c e1 where check: "e_check E e = (c, e1)" by (cases "e_check E e")
  obtain x e2 where rest: "read_archive E d (am_previous node) e1 = (x, e2)"
    by (cases "read_archive E d (am_previous node) e1")
  show ?case
    using IH [of e1] e_check_error [of E e _ e1] node(2)
    by (cases c; cases x) (auto simp: d r node(1) e_then_def e_bind_def check rest e_return_def)
qed (simp add: e_return_def)

definition sample_archive :: "'st kernel_env" where
  "sample_archive = sample_env\<lparr>ke_read_archive := (\<lambda>reference. if res_id reference = ''r''
     then Inr \<lparr>am_stream_key = ''input:a:0'', am_sealed = sample_sealed, am_complete = True, am_previous = None\<rparr>
     else Inl (Invalid ''no archive''))\<rparr>"

theorem media_archive_bound_suffices_witness:
  "fst (read_archive (sample_archive :: unit kernel_env) 3 (Some sample_sealed) sample_engine)
     \<in> {Inr {''input:a:0''}, Inl Cancelled, Inl Deadline}"
  using media_archive_bound_suffices [of "sample_archive :: unit kernel_env" "Some sample_sealed" "[''input:a:0'']" 3 sample_engine]
  by (simp add: sample_archive_def sample_sealed_def)

section \<open>The end of a run\<close>



end
