(* ===== verification/Policies.thy ===== *)
theory Policies
  imports Engine_Session
begin

text \<open>
  The policies of \<open>zhir-policies\<close>: the history window (\<open>history.rs\<close>), profile negotiation
  (\<open>negotiation.rs\<close>), retry budgets with their backoff (\<open>retry.rs\<close>) and the waiting they share
  (\<open>timing.rs\<close>). A duration is its number of nanoseconds, an instant a number of nanoseconds on the
  monotonic clock.
\<close>

section \<open>The history window\<close>

record history_window =
  hw_turns :: nat
  hw_dependencies :: "(checkpoint \<Rightarrow> nat \<Rightarrow> nat result) option"

definition last_turns :: "nat \<Rightarrow> history_window result" where
  "last_turns turns = (if turns = 0 then Inl (Invalid ''history window must retain at least one turn'')
     else Inr \<lparr>hw_turns = turns, hw_dependencies = None\<rparr>)"

definition with_dependencies ::
  "(checkpoint \<Rightarrow> nat \<Rightarrow> nat result) \<Rightarrow> history_window \<Rightarrow> history_window" where
  "with_dependencies dependencies w = w\<lparr>hw_dependencies := Some dependencies\<rparr>"

fun is_user_message :: "message \<Rightarrow> bool" where
  "is_user_message (User _) = True"
| "is_user_message _ = False"

fun is_system_message :: "message \<Rightarrow> bool" where
  "is_system_message (System _) = True"
| "is_system_message _ = False"

fun user_starts :: "nat \<Rightarrow> history_entry list \<Rightarrow> nat list" where
  "user_starts index [] = []"
| "user_starts index (e # es) =
     (if is_user_message (he_message e) then index # user_starts (Suc index) es else user_starts (Suc index) es)"

fun retained_from :: "nat \<Rightarrow> nat \<Rightarrow> history_entry list \<Rightarrow> history_entry list" where
  "retained_from first index [] = []"
| "retained_from first index (e # es) =
     (if first \<le> index \<or> is_system_message (he_message e)
      then e # retained_from first (Suc index) es else retained_from first (Suc index) es)"

definition window_first :: "history_window \<Rightarrow> checkpoint \<Rightarrow> nat list \<Rightarrow> nat result" where
  "window_first w c starts = (let first = starts ! (length starts - hw_turns w) in
     case hw_dependencies w of
       None \<Rightarrow> Inr first
     | Some dependencies \<Rightarrow> r_bind (dependencies c first) (\<lambda>required.
         if first < required
         then Inl (Invalid ''history dependency must expand the retained window'')
         else Inr (case find (\<lambda>index. index \<le> required) (rev starts) of Some index \<Rightarrow> index | None \<Rightarrow> 0)))"

definition window_blocked :: "checkpoint \<Rightarrow> bool" where
  "window_blocked c \<longleftrightarrow> \<not> state_active (cp_state c) \<or> ss_response_status (cp_session c) = None
     \<or> (\<exists>op \<in> set (om_values (cp_operations c)). \<not> op_terminal (op_state op)) \<or> cp_commands c \<noteq> []"

definition window_reason :: "nat \<Rightarrow> string" where
  "window_reason turns = ''retain last '' @ dec turns @ '' complete user turns''"

definition window_reduce ::
  "'a hashing_scheme \<Rightarrow> history_window \<Rightarrow> checkpoint \<Rightarrow> (history_entry list \<times> string) option result" where
  "window_reduce H w c = r_bind (checkpoint_validate c) (\<lambda>_.
     if window_blocked c then Inr None
     else (let entries = history_entries (cp_history c); starts = user_starts 0 entries in
       if length starts \<le> hw_turns w then Inr None
       else r_bind (window_first w c starts) (\<lambda>first.
         let retained = retained_from first 0 entries in
         if length retained = length entries then Inr None
         else r_bind (history_from_entries H retained) (\<lambda>h.
              r_bind (history_validate h) (\<lambda>_.
                Inr (Some (retained, window_reason (hw_turns w))))))))"

section \<open>Negotiation\<close>

text \<open>The JSON of a requested value, as its serialization names it.\<close>

fun serving_json :: "serving \<Rightarrow> json" where
  "serving_json ServingBalanced = String ''balanced''"
| "serving_json ServingLowLatency = String ''low_latency''"
| "serving_json ServingLowCost = String ''low_cost''"

fun reasoning_json :: "reasoning \<Rightarrow> json" where
  "reasoning_json ReasoningLow = String ''low''"
| "reasoning_json ReasoningBalanced = String ''balanced''"
| "reasoning_json ReasoningHigh = String ''high''"

fun interaction_json :: "interaction \<Rightarrow> json" where
  "interaction_json TurnBased = String ''turn_based''"
| "interaction_json InteractionDuplex = String ''duplex''"

fun fidelity_json :: "fidelity \<Rightarrow> json" where
  "fidelity_json FidelityEconomy = String ''economy''"
| "fidelity_json FidelityHigh = String ''high''"
| "fidelity_json FidelityOriginal = String ''original''"

definition np_select :: "string \<Rightarrow> json \<Rightarrow> negotiated_profile \<Rightarrow> negotiated_profile" where
  "np_select key value p = p\<lparr>np_selected := om_insert key value (np_selected p)\<rparr>"

definition np_unmet :: "string \<Rightarrow> string \<Rightarrow> negotiated_profile \<Rightarrow> negotiated_profile" where
  "np_unmet key reason p = p\<lparr>np_unmet_preferences := om_insert key reason (np_unmet_preferences p)\<rparr>"

definition supported_values :: "(string, json list) omap \<Rightarrow> string \<Rightarrow> json \<Rightarrow> bool" where
  "supported_values constraints key value = some_and (\<lambda>values. value \<in> set values) (om_get constraints key)"

text \<open>\<open>choose\<close>, over the JSON of the requested value.\<close>

definition choose_value ::
  "(string, json list) omap \<Rightarrow> (string, json list) omap \<Rightarrow> string \<Rightarrow> json requirement option
    \<Rightarrow> negotiated_profile \<Rightarrow> negotiated_profile result" where
  "choose_value alternatives constraints key requested p = (case requested of
       None \<Rightarrow> Inr p
     | Some requirement \<Rightarrow>
         (let value = requirement_value requirement in
          if supported_values constraints key value then Inr (np_select key value p)
          else if requirement_required requirement
          then Inl (Invalid (''required '' @ key @ '' is unsupported''))
          else r_bind (ok_or (Invalid (key @ '' cannot degrade without an explicit policy''))
                 (om_get alternatives key)) (\<lambda>values.
            Inr (np_unmet key ''requested value unavailable''
              (case find (supported_values constraints key) values of
                 Some other \<Rightarrow> np_select key other p | None \<Rightarrow> p)))))"

fun message_contents :: "message \<Rightarrow> content list" where
  "message_contents (System contents) = contents"
| "message_contents (User contents) = contents"
| "message_contents (External contents) = contents"
| "message_contents (Assistant items _) = concat (map (\<lambda>item. case item of OutputContent c \<Rightarrow> [c] | _ \<Rightarrow> []) items)"
| "message_contents (RuntimeTool _ _ outcome) = outcome_content outcome"
| "message_contents (DelegationResult _ outcome) = outcome_content outcome"

text \<open>A resource is negotiated by its modality and recorded under its own identity.\<close>

fun negotiate_content ::
  "(string, json list) omap \<Rightarrow> (string, json list) omap \<Rightarrow> content \<Rightarrow> negotiated_profile
    \<Rightarrow> negotiated_profile result" where
  "negotiate_content alternatives constraints (ContentResource input) p =
     (if usage_transforms (ri_usage input) \<noteq> []
      then Inl (Invalid ''resource transforms must be executed as explicit operations before model input'')
      else (let key = resource_fidelity_key (resource_modality (ri_resource input));
                own = resource_fidelity_key (res_id (ri_resource input)) in
        r_bind (choose_value alternatives constraints key
                  (map_option (map_requirement fidelity_json) (usage_fidelity (ri_usage input))) negotiated_default) (\<lambda>q.
          Inr (foldl (\<lambda>p reason. np_unmet own reason p)
                 (case om_get (np_selected q) key of Some value \<Rightarrow> np_select own value p | None \<Rightarrow> p)
                 (om_values (np_unmet_preferences q))))))"
| "negotiate_content alternatives constraints _ p = Inr p"

fun negotiate_contents ::
  "(string, json list) omap \<Rightarrow> (string, json list) omap \<Rightarrow> content list \<Rightarrow> negotiated_profile
    \<Rightarrow> negotiated_profile result" where
  "negotiate_contents alternatives constraints [] p = Inr p"
| "negotiate_contents alternatives constraints (c # cs) p =
     r_bind (negotiate_content alternatives constraints c p) (negotiate_contents alternatives constraints cs)"

definition interaction_values :: "capability_set \<Rightarrow> json list" where
  "interaction_values caps = (if supports caps CapDuplex then [String ''turn_based'', String ''duplex'']
     else [String ''turn_based''])"

definition negotiate :: "model_request \<Rightarrow> capability_set \<Rightarrow> negotiated_profile result" where
  "negotiate request caps = r_bind (model_request_validate request caps) (\<lambda>_.
     let profile = mr_profile request; alternatives = rp_alternatives profile; constraints = cap_constraints caps;
         with_interaction = om_insert ''interaction'' (interaction_values caps) constraints in
     r_bind (choose_value alternatives constraints ''serving''
               (map_option (map_requirement serving_json) (rp_serving profile)) negotiated_default) (\<lambda>p1.
     r_bind (choose_value alternatives constraints ''reasoning''
               (map_option (map_requirement reasoning_json) (rp_reasoning profile)) p1) (\<lambda>p2.
     r_bind (choose_value alternatives constraints ''language''
               (map_option (map_requirement String) (rp_language profile)) p2) (\<lambda>p3.
     r_bind (choose_value alternatives with_interaction ''interaction''
               (map_option (map_requirement interaction_json) (rp_interaction profile)) p3) (\<lambda>p4.
       negotiate_contents alternatives constraints (concat (map message_contents (mr_messages request))) p4)))))"

definition selected :: "negotiated_profile \<Rightarrow> string \<Rightarrow> json option" where
  "selected p key = om_get (np_selected p) key"

section \<open>Retries\<close>

text \<open>
  \<open>Backoff::exponential\<close> computes in \<open>u128\<close>: the shift is checked against the width, the product
  against overflow, and both fall back to the maximum.
\<close>

definition u32_shift :: "nat \<Rightarrow> nat" where
  "u32_shift failed_attempt = (if failed_attempt - 1 < 2 ^ 32 then failed_attempt - 1 else 2 ^ 32 - 1)"

definition exponential_delay :: "nat \<Rightarrow> nat \<Rightarrow> nat \<Rightarrow> nat" where
  "exponential_delay base maximum failed_attempt =
     (if base = 0 then 0
      else (let shift = u32_shift failed_attempt;
                scaled = (if shift < 128 \<and> base * 2 ^ shift < 2 ^ 128 then base * 2 ^ shift else maximum) in
        min scaled maximum))"

type_synonym backoff = "nat \<Rightarrow> nat"

definition backoff_fixed :: "nat \<Rightarrow> backoff" where
  "backoff_fixed delay = (\<lambda>_. delay)"

definition backoff_exponential :: "nat \<Rightarrow> nat \<Rightarrow> backoff result" where
  "backoff_exponential base maximum =
     (if maximum < base then Inl (Invalid ''initial retry delay exceeds maximum'')
      else Inr (exponential_delay base maximum))"

record retry_policy =
  rt_max_attempts :: nat
  rt_backoff :: backoff

definition retry_new :: "nat \<Rightarrow> retry_policy result" where
  "retry_new max_attempts = (if max_attempts = 0 then Inl (Invalid ''retry attempts must be positive'')
     else Inr \<lparr>rt_max_attempts = max_attempts, rt_backoff = backoff_fixed 0\<rparr>)"

definition delay_after :: "retry_policy \<Rightarrow> nat \<Rightarrow> nat option" where
  "delay_after p failed_attempt =
     (if 0 < failed_attempt \<and> failed_attempt < rt_max_attempts p then Some (rt_backoff p failed_attempt) else None)"

section \<open>Timing\<close>

text \<open>
  What a waiting task reads: the k-th reading of the clock and the k-th poll of its cancellation. The
  state counts both. \<open>tm_range\<close> is the last instant the clock can represent.
\<close>

record timer =
  tm_now :: "nat \<Rightarrow> nat"
  tm_cancelled :: "nat \<Rightarrow> bool"
  tm_range :: nat

type_synonym timer_state = "nat \<times> nat"

definition timing_check :: "timer \<Rightarrow> nat option \<Rightarrow> timer_state \<Rightarrow> unit result \<times> timer_state" where
  "timing_check t deadline s = (case s of (reads, polls) \<Rightarrow>
     if tm_cancelled t polls then (Inl Cancelled, (reads, polls + 1))
     else (case deadline of
         None \<Rightarrow> (Inr (), (reads, polls + 1))
       | Some at \<Rightarrow> (if at \<le> tm_now t reads then Inl Deadline else Inr (), (reads + 1, polls + 1))))"

definition timing_deadline ::
  "timer \<Rightarrow> nat \<Rightarrow> run_context \<Rightarrow> timer_state \<Rightarrow> nat option result \<times> timer_state" where
  "timing_deadline t now_ms run s = (case s of (reads, polls) \<Rightarrow>
     (case rc_deadline_at_ms run of
        None \<Rightarrow> (Inr None, s)
      | Some at \<Rightarrow>
          (let instant = tm_now t reads + (unat at - now_ms) * 1000000 in
           (if instant \<le> tm_range t then Inr (Some instant)
            else Inl (Invalid ''retry deadline exceeds clock range''), (reads + 1, polls)))))"

text \<open>Each turn of the loop follows a race of the sleep with the cancellation; either may end it.\<close>

partial_function (option) wait_loop ::
  "timer \<Rightarrow> nat option \<Rightarrow> nat \<Rightarrow> timer_state \<Rightarrow> (unit result \<times> timer_state) option" where
  "wait_loop t deadline till s = (case timing_check t deadline s of
       (Inl err, s') \<Rightarrow> Some (Inl err, s')
     | (Inr _, s') \<Rightarrow> (if till \<le> tm_now t (fst s') then Some (Inr (), (fst s' + 1, snd s'))
         else wait_loop t deadline till (fst s' + 1, snd s')))"

definition timing_wait ::
  "timer \<Rightarrow> nat \<Rightarrow> nat option \<Rightarrow> timer_state \<Rightarrow> (unit result \<times> timer_state) option" where
  "timing_wait t delay deadline s = (case timing_check t deadline s of
       (Inl err, s') \<Rightarrow> Some (Inl err, s')
     | (Inr _, s') \<Rightarrow>
         (let till = tm_now t (fst s') + delay in
          if tm_range t < till
          then Some (Inl (Invalid ''retry delay exceeds clock range''), (fst s' + 1, snd s'))
          else wait_loop t deadline till (fst s' + 1, snd s')))"

partial_function (option) interrupted ::
  "timer \<Rightarrow> nat option \<Rightarrow> timer_state \<Rightarrow> (error \<times> timer_state) option" where
  "interrupted t deadline s = (case timing_check t deadline s of
       (Inl err, s') \<Rightarrow> Some (err, s')
     | (Inr _, s') \<Rightarrow> interrupted t deadline s')"

section \<open>What a window keeps\<close>

abbreviation is_turn :: "history_entry \<Rightarrow> bool" where
  "is_turn e \<equiv> is_user_message (he_message e)"

abbreviation is_system :: "history_entry \<Rightarrow> bool" where
  "is_system e \<equiv> is_system_message (he_message e)"

lemma user_starts_count: "length (user_starts k es) = length (filter is_turn es)"
  by (induction es arbitrary: k) auto

lemma user_starts_nth:
  "j < length (user_starts k es) \<Longrightarrow>
     k \<le> user_starts k es ! j \<and> user_starts k es ! j - k < length es
     \<and> is_turn (es ! (user_starts k es ! j - k))
     \<and> length (filter is_turn (drop (user_starts k es ! j - k) es)) = length (user_starts k es) - j"
proof (induction es arbitrary: k j)
  case (Cons e es)
  show ?case
  proof (cases "is_turn e \<and> j = 0")
    case True
    then show ?thesis by (simp add: user_starts_count)
  next
    case False
    let ?i = "if is_turn e then j - 1 else j"
    have i: "?i < length (user_starts (Suc k) es)" "user_starts k (e # es) ! j = user_starts (Suc k) es ! ?i"
      using Cons.prems False by (auto simp: nth_Cons')
    define m where "m = user_starts (Suc k) es ! ?i"
    have IH: "Suc k \<le> m" "m - Suc k < length es" "is_turn (es ! (m - Suc k))"
        "length (filter is_turn (drop (m - Suc k) es)) = length (user_starts (Suc k) es) - ?i"
      using Cons.IH [OF i(1)] unfolding m_def by blast+
    moreover have m: "m - k = Suc (m - Suc k)" using IH(1) by simp
    moreover have "length (user_starts k (e # es)) - j = length (user_starts (Suc k) es) - ?i"
      using False Cons.prems by auto
    moreover have at: "user_starts k (e # es) ! j = m" using i(2) by (simp only: m_def)
    ultimately show ?thesis unfolding at m by simp
  qed
qed simp

lemma retained_from_split:
  "retained_from first k es = filter is_system (take (first - k) es) @ drop (first - k) es"
proof (induction es arbitrary: k)
  case (Cons e es)
  show ?case
  proof (cases "first \<le> k")
    case True
    then show ?thesis using Cons [of "Suc k"] by simp
  next
    case False
    then have "first - k = Suc (first - Suc k)" by simp
    then show ?thesis using False Cons [of "Suc k"] by simp
  qed
qed simp

lemma find_SomeD: "find P xs = Some x \<Longrightarrow> x \<in> set xs \<and> P x"
  by (induction xs) (auto split: if_splits)

lemma window_first_keeps:
  assumes "window_first w c (user_starts 0 es) = Inr first" and "hw_turns w < length (user_starts 0 es)"
    and "0 < hw_turns w"
  shows "(first = 0 \<or> first < length es \<and> is_turn (es ! first))
    \<and> hw_turns w \<le> length (filter is_turn (drop first es))
    \<and> (hw_dependencies w = None \<longrightarrow> length (filter is_turn (drop first es)) = hw_turns w)"
proof -
  let ?starts = "user_starts 0 es"
  let ?j = "length ?starts - hw_turns w"
  have j: "?j < length ?starts" using assms(2,3) by simp
  note at = user_starts_nth [OF j, simplified]
  have kept: "length (filter is_turn (drop (?starts ! ?j) es)) = hw_turns w"
    using at assms(2) by simp
  have more: "hw_turns w \<le> length (filter is_turn (drop i es))" if "i \<le> ?starts ! ?j" for i
  proof -
    have "drop i es = take (?starts ! ?j - i) (drop i es) @ drop (?starts ! ?j) es"
      using that by (metis append_take_drop_id drop_drop le_add_diff_inverse2)
    then have "filter is_turn (drop i es)
        = filter is_turn (take (?starts ! ?j - i) (drop i es)) @ filter is_turn (drop (?starts ! ?j) es)"
      by (metis filter_append)
    then show ?thesis using kept by (metis le_add2 length_append)
  qed
  show ?thesis
  proof (cases "hw_dependencies w")
    case None
    then show ?thesis using assms(1) at kept by (simp add: window_first_def)
  next
    case (Some dependencies)
    obtain required where "dependencies c (?starts ! ?j) = Inr required" and r: "required \<le> ?starts ! ?j"
        and first: "first = (case find (\<lambda>i. i \<le> required) (rev ?starts) of Some i \<Rightarrow> i | None \<Rightarrow> 0)"
      using assms(1) Some by (auto simp: window_first_def Let_def r_bind_Inr not_less split: if_splits)
    show ?thesis
    proof (cases "find (\<lambda>i. i \<le> required) (rev ?starts)")
      case None
      then show ?thesis using first more [of 0] Some by simp
    next
      case found: (Some i)
      then have "i \<in> set ?starts" "i \<le> required" using find_SomeD [OF found] by simp_all
      then obtain n where n: "n < length ?starts" "i = ?starts ! n" by (auto simp: in_set_conv_nth)
      show ?thesis
        using user_starts_nth [OF n(1)] n(2) first found more [of i] \<open>i \<le> required\<close> r Some by simp
    qed
  qed
qed

lemma window_reduce_spec:
  assumes "window_reduce H w c = Inr (Some (es, reason))" and "0 < hw_turns w"
  shows "\<exists>first. es = filter is_system (take first (history_entries (cp_history c))) @ drop first (history_entries (cp_history c))
    \<and> (first = 0 \<or> first < length (history_entries (cp_history c)) \<and> is_turn (history_entries (cp_history c) ! first))
    \<and> hw_turns w \<le> length (filter is_turn (drop first (history_entries (cp_history c))))
    \<and> (hw_dependencies w = None \<longrightarrow> length (filter is_turn (drop first (history_entries (cp_history c)))) = hw_turns w)
    \<and> length es < length (history_entries (cp_history c))
    \<and> (\<exists>h. history_from_entries H es = Inr h \<and> history_validate h = Inr ())
    \<and> (\<forall>op \<in> set (om_values (cp_operations c)). op_terminal (op_state op))"
proof -
  let ?entries = "history_entries (cp_history c)"
  obtain first h where unblocked: "\<not> window_blocked c" "hw_turns w < length (user_starts 0 ?entries)"
    and first: "window_first w c (user_starts 0 ?entries) = Inr first"
    and es: "es = retained_from first 0 ?entries" "length es \<noteq> length ?entries"
    and h: "history_from_entries H es = Inr h" "history_validate h = Inr ()"
    using assms(1) by (auto simp: window_reduce_def Let_def r_bind_Inr split: if_splits)
  have split: "es = filter is_system (take first ?entries) @ drop first ?entries"
    using es(1) retained_from_split [of first 0 ?entries] by simp
  have "length (filter is_system (take first ?entries)) \<le> min (length ?entries) first"
    by (metis length_filter_le length_take)
  then have "length es \<le> length ?entries" unfolding split length_append length_drop by arith
  then have "length es < length ?entries" using es(2) by simp
  then show ?thesis
    using split window_first_keeps [OF first unblocked(2) assms(2)] h unblocked(1)
    by (auto simp: window_blocked_def)
qed

lemma is_system_not_turn: "is_system e \<Longrightarrow> \<not> is_turn e"
  by (cases "he_message e") auto

text \<open>Without dependencies one reduction is enough.\<close>

lemma window_reduce_again:
  assumes "window_reduce H w c = Inr (Some (es, reason))" and "0 < hw_turns w" and "hw_dependencies w = None"
    and "history_entries (cp_history c') = es"
  shows "\<exists>r. window_reduce H' w c' = r \<and> (r = Inr None \<or> (\<exists>err. r = Inl err))"
proof -
  obtain first where es: "es = filter is_system (take first (history_entries (cp_history c)))
        @ drop first (history_entries (cp_history c))"
    and turns: "length (filter is_turn (drop first (history_entries (cp_history c)))) = hw_turns w"
    using window_reduce_spec [OF assms(1,2)] assms(3) by blast
  have "filter is_turn (filter is_system xs) = []" for xs
    using is_system_not_turn by (auto simp: filter_empty_conv)
  then have "length (user_starts 0 es) = hw_turns w" using turns by (simp add: user_starts_count es)
  then show ?thesis
    using assms(4) by (cases "checkpoint_validate c'") (simp_all add: window_reduce_def Let_def)
qed

section \<open>What a negotiation promises\<close>

definition honoured ::
  "(string, json list) omap \<Rightarrow> (string, json list) omap \<Rightarrow> string \<Rightarrow> json requirement option
    \<Rightarrow> negotiated_profile \<Rightarrow> bool" where
  "honoured alternatives constraints key requested p = (case requested of
       None \<Rightarrow> selected p key = None \<and> om_get (np_unmet_preferences p) key = None
     | Some r \<Rightarrow>
         (if supported_values constraints key (requirement_value r)
          then selected p key = Some (requirement_value r) \<and> om_get (np_unmet_preferences p) key = None
          else \<not> requirement_required r
            \<and> om_get (np_unmet_preferences p) key = Some ''requested value unavailable''
            \<and> (\<exists>values. om_get alternatives key = Some values
                 \<and> selected p key = find (supported_values constraints key) values)))"

definition unsettled :: "string \<Rightarrow> negotiated_profile \<Rightarrow> bool" where
  "unsettled key p \<longleftrightarrow> selected p key = None \<and> om_get (np_unmet_preferences p) key = None"

lemma np_fields [simp]:
  "selected (np_select k v p) k' = (if k' = k then Some v else selected p k')"
  "om_get (np_unmet_preferences (np_select k v p)) k' = om_get (np_unmet_preferences p) k'"
  "selected (np_unmet k r p) k' = selected p k'"
  "om_get (np_unmet_preferences (np_unmet k r p)) k' = (if k' = k then Some r else om_get (np_unmet_preferences p) k')"
  by (simp_all add: selected_def np_select_def np_unmet_def)

lemma choose_value_honours:
  assumes "choose_value alternatives constraints key requested p = Inr q" and "unsettled key p"
  shows "honoured alternatives constraints key requested q"
proof (cases requested)
  case None
  then show ?thesis using assms by (simp add: choose_value_def honoured_def unsettled_def)
next
  case (Some r)
  show ?thesis
  proof (cases "supported_values constraints key (requirement_value r)")
    case True
    then show ?thesis using assms Some by (auto simp: choose_value_def honoured_def unsettled_def)
  next
    case False
    then obtain vs where v: "om_get alternatives key = Some vs" and weak: "\<not> requirement_required r"
        and q: "q = np_unmet key ''requested value unavailable''
          (case find (supported_values constraints key) vs of Some other \<Rightarrow> np_select key other p | None \<Rightarrow> p)"
      using assms Some by (auto simp: choose_value_def r_bind_Inr ok_or_Inr split: if_splits)
    show ?thesis
      using False v weak assms(2) Some
      by (cases "find (supported_values constraints key) vs") (auto simp: q honoured_def unsettled_def)
  qed
qed

text \<open>Other dimensions are left as they are.\<close>

definition agrees :: "string set \<Rightarrow> negotiated_profile \<Rightarrow> negotiated_profile \<Rightarrow> bool" where
  "agrees keys p q \<longleftrightarrow> (\<forall>key \<in> keys. selected q key = selected p key
     \<and> om_get (np_unmet_preferences q) key = om_get (np_unmet_preferences p) key)"

lemma agrees_refl [simp]: "agrees keys p p"
  by (simp add: agrees_def)

lemma agrees_trans: "agrees keys p q \<Longrightarrow> agrees keys q r \<Longrightarrow> agrees keys p r"
  by (simp add: agrees_def)

lemma agrees_honoured:
  "agrees keys p q \<Longrightarrow> key \<in> keys \<Longrightarrow> honoured alternatives constraints key requested q
     = honoured alternatives constraints key requested p"
  by (auto simp: agrees_def honoured_def split: option.split)

lemma agrees_unsettled: "agrees keys p q \<Longrightarrow> key \<in> keys \<Longrightarrow> unsettled key q = unsettled key p"
  by (auto simp: agrees_def unsettled_def)

lemma choose_value_agrees:
  "choose_value alternatives constraints key requested p = Inr q \<Longrightarrow> key \<notin> keys \<Longrightarrow> agrees keys p q"
  by (auto simp: choose_value_def agrees_def Let_def r_bind_Inr split: option.splits if_splits)

abbreviation dimensions :: "string set" where
  "dimensions \<equiv> {''serving'', ''reasoning'', ''language'', ''interaction''}"

lemma fidelity_key_dimension [simp]: "resource_fidelity_key subject \<notin> dimensions"
  by (simp add: resource_fidelity_key_def)

lemma foldl_unmet_agrees: "key \<notin> keys \<Longrightarrow> agrees keys p q \<Longrightarrow> agrees keys p (foldl (\<lambda>p reason. np_unmet key reason p) q reasons)"
  by (induction reasons arbitrary: q) (auto simp: agrees_def)

lemma negotiate_content_agrees:
  "negotiate_content alternatives constraints c p = Inr q \<Longrightarrow> agrees dimensions p q"
proof (cases c)
  case (ContentResource input)
  let ?own = "resource_fidelity_key (res_id (ri_resource input))"
  assume run: "negotiate_content alternatives constraints c p = Inr q"
  then obtain p' reasons where q: "q = foldl (\<lambda>p reason. np_unmet ?own reason p) p' reasons"
      and p': "p' = p \<or> (\<exists>value. p' = np_select ?own value p)"
    by (auto simp: ContentResource Let_def r_bind_Inr split: if_splits option.splits)
  have "agrees dimensions p p'" using p' by (auto simp: agrees_def resource_fidelity_key_def)
  then show ?thesis unfolding q by (intro foldl_unmet_agrees fidelity_key_dimension)
qed simp_all

lemma negotiate_contents_agrees:
  "negotiate_contents alternatives constraints cs p = Inr q \<Longrightarrow> agrees dimensions p q"
proof (induction cs arbitrary: p)
  case (Cons c cs)
  then obtain p' where "negotiate_content alternatives constraints c p = Inr p'"
      "negotiate_contents alternatives constraints cs p' = Inr q" by (auto simp: r_bind_Inr)
  then show ?case using agrees_trans [OF negotiate_content_agrees] Cons.IH by blast
qed simp

text \<open>What is left of the requirements on resources.\<close>

fun content_served :: "(string, json list) omap \<Rightarrow> content \<Rightarrow> bool" where
  "content_served constraints (ContentResource input) \<longleftrightarrow> usage_transforms (ri_usage input) = []
     \<and> (\<forall>v. usage_fidelity (ri_usage input) = Some (Required v) \<longrightarrow>
          supported_values constraints (resource_fidelity_key (resource_modality (ri_resource input))) (fidelity_json v))"
| "content_served constraints _ \<longleftrightarrow> True"

lemma negotiate_content_served:
  "negotiate_content alternatives constraints c p = Inr q \<Longrightarrow> content_served constraints c"
  by (cases c) (auto simp: Let_def r_bind_Inr choose_value_def split: if_splits)

lemma negotiate_contents_served:
  "negotiate_contents alternatives constraints cs p = Inr q \<Longrightarrow> c \<in> set cs \<Longrightarrow> content_served constraints c"
  by (induction cs arbitrary: p) (auto simp: r_bind_Inr dest: negotiate_content_served)

lemma default_unsettled [simp]: "unsettled key negotiated_default"
  by (simp add: unsettled_def negotiated_default_def selected_def)

lemma negotiate_spec:
  assumes "negotiate request caps = Inr p"
  shows "model_request_validate request caps = Inr ()
    \<and> honoured (rp_alternatives (mr_profile request)) (cap_constraints caps) ''serving''
        (map_option (map_requirement serving_json) (rp_serving (mr_profile request))) p
    \<and> honoured (rp_alternatives (mr_profile request)) (cap_constraints caps) ''reasoning''
        (map_option (map_requirement reasoning_json) (rp_reasoning (mr_profile request))) p
    \<and> honoured (rp_alternatives (mr_profile request)) (cap_constraints caps) ''language''
        (map_option (map_requirement String) (rp_language (mr_profile request))) p
    \<and> honoured (rp_alternatives (mr_profile request))
        (om_insert ''interaction'' (interaction_values caps) (cap_constraints caps)) ''interaction''
        (map_option (map_requirement interaction_json) (rp_interaction (mr_profile request))) p
    \<and> (\<forall>m \<in> set (mr_messages request). \<forall>c \<in> set (message_contents m). content_served (cap_constraints caps) c)"
proof -
  let ?alt = "rp_alternatives (mr_profile request)" and ?caps = "cap_constraints caps"
  let ?all = "om_insert ''interaction'' (interaction_values caps) ?caps"
  obtain p1 p2 p3 p4 where valid: "model_request_validate request caps = Inr ()"
    and s1: "choose_value ?alt ?caps ''serving'' (map_option (map_requirement serving_json) (rp_serving (mr_profile request))) negotiated_default = Inr p1"
    and s2: "choose_value ?alt ?caps ''reasoning'' (map_option (map_requirement reasoning_json) (rp_reasoning (mr_profile request))) p1 = Inr p2"
    and s3: "choose_value ?alt ?caps ''language'' (map_option (map_requirement String) (rp_language (mr_profile request))) p2 = Inr p3"
    and s4: "choose_value ?alt ?all ''interaction'' (map_option (map_requirement interaction_json) (rp_interaction (mr_profile request))) p3 = Inr p4"
    and s5: "negotiate_contents ?alt ?caps (concat (map message_contents (mr_messages request))) p4 = Inr p"
    using assms by (auto simp: negotiate_def Let_def r_bind_Inr)
  have a1: "agrees {''reasoning'', ''language'', ''interaction''} negotiated_default p1" by (rule choose_value_agrees [OF s1]) simp
  have a2: "agrees {''serving'', ''language'', ''interaction''} p1 p2" by (rule choose_value_agrees [OF s2]) simp
  have a3: "agrees {''serving'', ''reasoning'', ''interaction''} p2 p3" by (rule choose_value_agrees [OF s3]) simp
  have a4: "agrees {''serving'', ''reasoning'', ''language''} p3 p4" by (rule choose_value_agrees [OF s4]) simp
  note a5 = negotiate_contents_agrees [OF s5]
  have u: "unsettled ''reasoning'' p1" "unsettled ''language'' p2" "unsettled ''interaction'' p3"
    using a1 a2 a3 default_unsettled by (simp_all add: agrees_def unsettled_def)
  note h = choose_value_honours [OF s1 default_unsettled] choose_value_honours [OF s2 u(1)]
    choose_value_honours [OF s3 u(2)] choose_value_honours [OF s4 u(3)]
  have later: "honoured ?alt ?caps ''serving'' r p = honoured ?alt ?caps ''serving'' r p1"
    "honoured ?alt ?caps ''reasoning'' r' p = honoured ?alt ?caps ''reasoning'' r' p2"
    "honoured ?alt ?caps ''language'' r'' p = honoured ?alt ?caps ''language'' r'' p3"
    "honoured ?alt ?all ''interaction'' r3 p = honoured ?alt ?all ''interaction'' r3 p4" for r r' r'' r3
    using agrees_honoured [OF a5, of "''serving''"] agrees_honoured [OF a4, of "''serving''"]
      agrees_honoured [OF a3, of "''serving''"] agrees_honoured [OF a2, of "''serving''"]
      agrees_honoured [OF a5, of "''reasoning''"] agrees_honoured [OF a4, of "''reasoning''"]
      agrees_honoured [OF a3, of "''reasoning''"] agrees_honoured [OF a5, of "''language''"]
      agrees_honoured [OF a4, of "''language''"] agrees_honoured [OF a5, of "''interaction''"] by simp_all
  have "\<forall>m \<in> set (mr_messages request). \<forall>c \<in> set (message_contents m). content_served ?caps c"
    using negotiate_contents_served [OF s5] by auto
  then show ?thesis using valid h unfolding later by blast
qed

section \<open>What a retry budget promises\<close>

text \<open>A duration has 64-bit seconds, so its nanoseconds fit the 128-bit arithmetic.\<close>

definition duration_ok :: "nat \<Rightarrow> bool" where
  "duration_ok d \<longleftrightarrow> d < 2 ^ 64 * 1000000000"

lemma exponential_delay_exact:
  assumes "base \<le> maximum" and "duration_ok maximum" and "0 < attempt"
  shows "exponential_delay base maximum attempt = min (base * 2 ^ (attempt - 1)) maximum"
proof (cases "base = 0")
  case False
  have small: "maximum < 2 ^ 128" using assms(2) by (simp add: duration_ok_def)
  have big: "maximum < base * 2 ^ k" if "128 \<le> k" for k
  proof -
    have "(2::nat) ^ 128 \<le> 2 ^ k" using that by (intro power_increasing) simp_all
    also have "\<dots> \<le> base * 2 ^ k" using False by simp
    finally show ?thesis using small by linarith
  qed
  let ?s = "attempt - 1"
  consider "?s < 128" "base * 2 ^ ?s < 2 ^ 128" | "?s < 128" "2 ^ 128 \<le> base * 2 ^ ?s" | "128 \<le> ?s" by linarith
  then show ?thesis
  proof cases
    case 1
    then show ?thesis using False by (simp add: exponential_delay_def u32_shift_def Let_def)
  next
    case 2
    then have "maximum < base * 2 ^ ?s" using small by linarith
    then show ?thesis using 2 False by (simp add: exponential_delay_def u32_shift_def Let_def min_def)
  next
    case 3
    then have "128 \<le> u32_shift attempt" by (auto simp: u32_shift_def)
    then show ?thesis using False big [OF 3] by (simp add: exponential_delay_def Let_def min_def)
  qed
qed (simp add: exponential_delay_def)

lemma delay_after_Some: "delay_after p n \<noteq> None \<longleftrightarrow> 0 < n \<and> n < rt_max_attempts p"
  by (simp add: delay_after_def)

section \<open>What waiting promises\<close>

lemma timing_check_cases:
  "timing_check t deadline (reads, polls) = (r, s') \<Longrightarrow> reads \<le> fst s' \<and> snd s' = polls + 1
     \<and> (\<forall>err. r = Inl err \<longrightarrow> err = Cancelled \<and> tm_cancelled t polls
          \<or> err = Deadline \<and> (\<exists>at. deadline = Some at \<and> at \<le> tm_now t reads))"
  by (auto simp: timing_check_def split: if_splits option.splits)

text \<open>
  The wait is over once the clock reached its end: a sleep that wakes early only repeats the check.
\<close>

lemma wait_loop_ends:
  assumes "mono (tm_now t)" and "till \<le> tm_now t k"
  shows "\<exists>r s'. wait_loop t deadline till s = Some (r, s')"
proof (induction "k - fst s" arbitrary: s rule: less_induct)
  case less
  obtain r s1 where check: "timing_check t deadline s = (r, s1)" by (cases "timing_check t deadline s")
  have s1: "fst s \<le> fst s1" using timing_check_cases [of t deadline "fst s" "snd s" r s1] check by simp
  show ?case
  proof (cases "till \<le> tm_now t (fst s1)")
    case True
    then show ?thesis by (subst wait_loop.simps) (auto simp: check split: sum.split)
  next
    case False
    then have "fst s1 < k" using assms monoD [OF assms(1), of k "fst s1"] by (metis leI le_trans)
    then have "k - fst (fst s1 + 1, snd s1) < k - fst s" using s1 by simp
    from less [OF this] show ?thesis by (subst wait_loop.simps) (auto simp: check split: sum.split)
  qed
qed

definition waited :: "timer \<Rightarrow> nat option \<Rightarrow> nat \<Rightarrow> unit result \<times> timer_state \<Rightarrow> bool" where
  "waited t deadline till y \<longleftrightarrow> (case fst y of
       Inr _ \<Rightarrow> \<exists>n < fst (snd y). till \<le> tm_now t n
     | Inl err \<Rightarrow> err = Cancelled \<and> (\<exists>p < snd (snd y). tm_cancelled t p)
         \<or> err = Deadline \<and> (\<exists>at n. deadline = Some at \<and> at \<le> tm_now t n))"

lemma wait_loop_result: "wait_loop t deadline till s = Some y \<Longrightarrow> waited t deadline till y"
proof (rule wait_loop.raw_induct [where P = "\<lambda>t deadline till s y. waited t deadline till y"])
  fix loop t deadline till s y
  assume IH: "\<And>t deadline till s y. loop t deadline till s = Some y \<Longrightarrow> waited t deadline till y"
    and body: "(case timing_check t deadline s of (Inl err, s') \<Rightarrow> Some (Inl err, s')
       | (Inr _, s') \<Rightarrow> if till \<le> tm_now t (fst s') then Some (Inr (), (fst s' + 1, snd s'))
           else loop t deadline till (fst s' + 1, snd s')) = Some y"
  obtain r0 s1 where check: "timing_check t deadline s = (r0, s1)" by (cases "timing_check t deadline s")
  note facts = timing_check_cases [of t deadline "fst s" "snd s" r0 s1]
  show "waited t deadline till y"
  proof (cases r0)
    case (Inl err)
    then have "y = (Inl err, s1)" using body check by simp
    then show ?thesis using facts check Inl by (auto simp: waited_def)
  next
    case (Inr u)
    then show ?thesis
      using body IH by (cases "till \<le> tm_now t (fst s1)") (auto simp: check waited_def)
  qed
qed

lemma timing_wait_result:
  "timing_wait t delay deadline s = Some (Inl e, s') \<Longrightarrow>
     e \<in> {Cancelled, Deadline, Invalid ''retry delay exceeds clock range''}"
proof -
  assume wait: "timing_wait t delay deadline s = Some (Inl e, s')"
  obtain r0 s0 where check: "timing_check t deadline s = (r0, s0)" by (cases "timing_check t deadline s")
  note facts = timing_check_cases [of t deadline "fst s" "snd s" r0 s0]
  show ?thesis
  proof (cases r0)
    case (Inl err)
    then show ?thesis using wait check facts by (auto simp: timing_wait_def)
  next
    case (Inr u)
    show ?thesis
    proof (cases "tm_range t < tm_now t (fst s0) + delay")
      case True
      then show ?thesis using wait check Inr by (auto simp: timing_wait_def Let_def)
    next
      case False
      then have "wait_loop t deadline (tm_now t (fst s0) + delay) (fst s0 + 1, snd s0) = Some (Inl e, s')"
        using wait check Inr by (auto simp: timing_wait_def Let_def)
      from wait_loop_result [OF this] show ?thesis by (auto simp: waited_def)
    qed
  qed
qed

lemma timing_check_error: "timing_check t deadline s = (Inl e, s') \<Longrightarrow> e \<in> {Cancelled, Deadline}"
  using timing_check_cases [of t deadline "fst s" "snd s" "Inl e" s'] by auto

lemma timing_wait_ends:
  assumes "mono (tm_now t)" and "\<And>i. \<exists>k. i \<le> tm_now t k"
  shows "\<exists>r s'. timing_wait t delay deadline s = Some (r, s')"
proof -
  obtain r0 s0 where check: "timing_check t deadline s = (r0, s0)" by (cases "timing_check t deadline s")
  let ?till = "tm_now t (fst s0) + delay"
  obtain k where "?till \<le> tm_now t k" using assms(2) by blast
  from wait_loop_ends [OF assms(1) this] show ?thesis
    using check by (auto simp: timing_wait_def Let_def split: sum.split)
qed

end
