(* ===== verification/Cancel_Waiters.thy ===== *)
theory Cancel_Waiters
  imports Core_Values
begin

text \<open>
  \<open>Cancellation\<close> of \<open>zhir-core/src/lib.rs\<close>: a flag that is set once and futures that wait for it
  without a timer. The flag is atomic and is set before the lock of the waiters is taken; a future tests
  it before and again under that lock. The step relation interleaves any number of futures and callers
  of \<open>cancel\<close>, one access to the flag or one critical section at a time. A waker is named by the future
  it wakes; the counter of waiter keys, a \<open>u64\<close> that is only incremented, is a natural number.
\<close>

text \<open>
  Where a future is: before its first poll, after the first test of the flag, inside the lock before and
  after the second test, after it returned \<open>Pending\<close>, after it returned \<open>Ready\<close>, and dropped.
\<close>

datatype poll_pc = PollFresh | PollTested | PollLocked | PollRegistering | PollPending | PollReady | PollDropped

text \<open>Where a caller of \<open>cancel\<close> is: before the swap, before the lock, with the wakers it took, done.\<close>

datatype cancel_pc = CancelFresh | CancelSwapped | CancelWaking "nat set" | CancelDone

record cancellation =
  cn_flag :: bool
  cn_lock :: "nat option"
  cn_next :: nat
  cn_wakers :: "nat \<rightharpoonup> nat"
  cn_keys :: "nat \<rightharpoonup> nat"
  cn_polls :: "nat \<Rightarrow> poll_pc"
  cn_cancels :: "nat \<Rightarrow> cancel_pc"
  cn_woken :: "nat set"

definition cancellation_default :: cancellation where
  "cancellation_default = \<lparr>cn_flag = False, cn_lock = None, cn_next = 0, cn_wakers = Map.empty,
     cn_keys = Map.empty, cn_polls = (\<lambda>_. PollFresh), cn_cancels = (\<lambda>_. CancelFresh), cn_woken = {}\<rparr>"

definition cn_poll :: "nat \<Rightarrow> poll_pc \<Rightarrow> cancellation \<Rightarrow> cancellation" where
  "cn_poll f pc s = s\<lparr>cn_polls := (cn_polls s)(f := pc)\<rparr>"

definition cn_cancel :: "nat \<Rightarrow> cancel_pc \<Rightarrow> cancellation \<Rightarrow> cancellation" where
  "cn_cancel c pc s = s\<lparr>cn_cancels := (cn_cancels s)(c := pc)\<rparr>"

text \<open>The first test; a poll uses up the wake-up that caused it.\<close>

definition poll_test :: "nat \<Rightarrow> cancellation \<Rightarrow> cancellation" where
  "poll_test f s = cn_poll f (if cn_flag s then PollReady else PollTested) (s\<lparr>cn_woken := cn_woken s - {f}\<rparr>)"

definition poll_lock :: "nat \<Rightarrow> cancellation \<Rightarrow> cancellation" where
  "poll_lock f s = cn_poll f PollLocked (s\<lparr>cn_lock := Some f\<rparr>)"

definition poll_retest :: "nat \<Rightarrow> cancellation \<Rightarrow> cancellation" where
  "poll_retest f s = (if cn_flag s then cn_poll f PollReady (s\<lparr>cn_lock := None\<rparr>) else cn_poll f PollRegistering s)"

definition poll_register :: "nat \<Rightarrow> cancellation \<Rightarrow> cancellation" where
  "poll_register f s = (let next = (case cn_keys s f of None \<Rightarrow> cn_next s + 1 | Some _ \<Rightarrow> cn_next s);
       key = (case cn_keys s f of None \<Rightarrow> next | Some k \<Rightarrow> k) in
     cn_poll f PollPending (s\<lparr>cn_lock := None, cn_next := next, cn_keys := (cn_keys s)(f \<mapsto> key),
       cn_wakers := (cn_wakers s)(key \<mapsto> f)\<rparr>))"

definition drop_future :: "nat \<Rightarrow> cancellation \<Rightarrow> cancellation" where
  "drop_future f s = cn_poll f PollDropped (case cn_keys s f of
     None \<Rightarrow> s | Some key \<Rightarrow> s\<lparr>cn_wakers := (cn_wakers s)(key := None)\<rparr>)"

definition cancel_swap :: "nat \<Rightarrow> cancellation \<Rightarrow> cancellation" where
  "cancel_swap c s = cn_cancel c (if cn_flag s then CancelDone else CancelSwapped) (s\<lparr>cn_flag := True\<rparr>)"

definition cancel_take :: "nat \<Rightarrow> cancellation \<Rightarrow> cancellation" where
  "cancel_take c s = cn_cancel c (CancelWaking (ran (cn_wakers s))) (s\<lparr>cn_wakers := Map.empty\<rparr>)"

definition cancel_wake :: "nat \<Rightarrow> nat set \<Rightarrow> cancellation \<Rightarrow> cancellation" where
  "cancel_wake c fs s = cn_cancel c CancelDone (s\<lparr>cn_woken := cn_woken s \<union> fs\<rparr>)"

inductive cancel_step :: "cancellation \<Rightarrow> cancellation \<Rightarrow> bool" where
  cstep_test: "cn_polls s f \<in> {PollFresh, PollPending} \<Longrightarrow> cancel_step s (poll_test f s)"
| cstep_lock: "cn_polls s f = PollTested \<Longrightarrow> cn_lock s = None \<Longrightarrow> cancel_step s (poll_lock f s)"
| cstep_retest: "cn_polls s f = PollLocked \<Longrightarrow> cancel_step s (poll_retest f s)"
| cstep_register: "cn_polls s f = PollRegistering \<Longrightarrow> cancel_step s (poll_register f s)"
| cstep_drop: "cn_polls s f \<in> {PollFresh, PollPending, PollReady} \<Longrightarrow> cn_keys s f = None \<or> cn_lock s = None
    \<Longrightarrow> cancel_step s (drop_future f s)"
| cstep_swap: "cn_cancels s c = CancelFresh \<Longrightarrow> cancel_step s (cancel_swap c s)"
| cstep_take: "cn_cancels s c = CancelSwapped \<Longrightarrow> cn_lock s = None \<Longrightarrow> cancel_step s (cancel_take c s)"
| cstep_wake: "cn_cancels s c = CancelWaking fs \<Longrightarrow> cancel_step s (cancel_wake c fs s)"

inductive cancel_reaches :: "cancellation \<Rightarrow> bool" where
  cancel_init: "cancel_reaches cancellation_default"
| cancel_next: "cancel_reaches s \<Longrightarrow> cancel_step s t \<Longrightarrow> cancel_reaches t"

lemmas cn_defs = cn_poll_def cn_cancel_def poll_test_def poll_lock_def poll_retest_def poll_register_def
  drop_future_def cancel_swap_def cancel_take_def cancel_wake_def

section \<open>No wake-up is lost\<close>

text \<open>
  Keys are unique, the lock is held by the future inside it, an entry of the waiters is under its own
  key; a caller is behind a set flag; a future that registers after the flag was set, and one that is
  registered then, still has a caller to wake it.
\<close>

definition will_take :: "cancellation \<Rightarrow> bool" where
  "will_take s \<longleftrightarrow> (\<exists>c. cn_cancels s c = CancelSwapped)"

definition keys_ok :: "cancellation \<Rightarrow> bool" where
  "keys_ok s \<longleftrightarrow> (\<forall>f k. cn_keys s f = Some k \<longrightarrow> 0 < k \<and> k \<le> cn_next s)
     \<and> (\<forall>f g k. cn_keys s f = Some k \<longrightarrow> cn_keys s g = Some k \<longrightarrow> f = g)
     \<and> (\<forall>k f. cn_wakers s k = Some f \<longrightarrow> cn_keys s f = Some k)"

definition lock_ok :: "cancellation \<Rightarrow> bool" where
  "lock_ok s \<longleftrightarrow> (\<forall>f. cn_lock s = Some f \<longleftrightarrow> cn_polls s f \<in> {PollLocked, PollRegistering})"

definition wake_ok :: "cancellation \<Rightarrow> bool" where
  "wake_ok s \<longleftrightarrow>
     (\<forall>f. cn_polls s f = PollRegistering \<longrightarrow> cn_flag s \<longrightarrow> will_take s)
   \<and> (\<forall>f. cn_polls s f = PollPending \<longrightarrow> f \<in> cn_woken s
        \<or> (\<exists>c fs. cn_cancels s c = CancelWaking fs \<and> f \<in> fs)
        \<or> (\<exists>k. cn_wakers s k = Some f) \<and> (cn_flag s \<longrightarrow> will_take s))"

definition cancel_inv :: "cancellation \<Rightarrow> bool" where
  "cancel_inv s \<longleftrightarrow> keys_ok s \<and> lock_ok s \<and> wake_ok s"

lemma keys_ok_step: "cancel_step s t \<Longrightarrow> keys_ok s \<Longrightarrow> keys_ok t"
proof (induction rule: cancel_step.induct)
  case (cstep_register s f)
  show ?case
  proof (cases "cn_keys s f")
    case None
    have "cn_keys s g \<noteq> Some (Suc (cn_next s))" for g
      using cstep_register.prems by (auto simp: keys_ok_def dest: spec [of _ g])
    then show ?thesis using cstep_register.prems None
      by (auto simp: keys_ok_def cn_defs Let_def le_SucI split: if_splits)
  next
    case (Some k)
    then show ?thesis using cstep_register.prems
      by (auto simp: keys_ok_def cn_defs Let_def split: if_splits)
  qed
qed (auto simp: keys_ok_def cn_defs split: option.splits if_splits)

lemma lock_ok_step: "cancel_step s t \<Longrightarrow> lock_ok s \<Longrightarrow> lock_ok t"
  by (induction rule: cancel_step.induct)
    (auto simp: lock_ok_def cn_defs Let_def split: option.splits if_splits; metis option.inject)+

lemma will_take_simps [simp]:
  "will_take (cn_poll f pc s) = will_take s" "will_take (s\<lparr>cn_woken := w\<rparr>) = will_take s"
  "will_take (s\<lparr>cn_lock := l\<rparr>) = will_take s" "will_take (s\<lparr>cn_next := n\<rparr>) = will_take s"
  "will_take (s\<lparr>cn_keys := k\<rparr>) = will_take s" "will_take (s\<lparr>cn_wakers := m\<rparr>) = will_take s"
  "will_take (s\<lparr>cn_flag := b\<rparr>) = will_take s"
  by (simp_all add: will_take_def cn_poll_def)

lemma wake_ok_step:
  assumes "cancel_step s t" and "keys_ok s" and "lock_ok s" and "wake_ok s"
  shows "wake_ok t"
  using assms
proof (induction rule: cancel_step.induct)
  case (cstep_test s f)
  then show ?case
    unfolding wake_ok_def poll_test_def will_take_simps by (auto simp: cn_poll_def)
next
  case (cstep_lock s f)
  then show ?case unfolding wake_ok_def poll_lock_def will_take_simps by (auto simp: cn_poll_def)
next
  case (cstep_retest s f)
  then show ?case
    by (cases "cn_flag s") (auto simp: wake_ok_def poll_retest_def cn_poll_def will_take_def)
next
  case (cstep_register s f)
  have take: "cn_flag s \<longrightarrow> will_take s" using cstep_register by (auto simp: wake_ok_def)
  have keep: "\<exists>k'. ((cn_wakers s)(key \<mapsto> f)) k' = Some g"
    if "cn_wakers s k = Some g" "key = (case cn_keys s f of None \<Rightarrow> cn_next s + 1 | Some k \<Rightarrow> k)" for k g key
  proof (cases "k = key")
    case True
    then have "cn_keys s g = Some key" using that(1) cstep_register.prems(1) by (auto simp: keys_ok_def)
    moreover have "key \<noteq> Suc (cn_next s)"
      using calculation cstep_register.prems(1) unfolding keys_ok_def by (metis Suc_n_not_le_n)
    ultimately have "g = f" using that(2) cstep_register.prems(1) by (auto simp: keys_ok_def split: option.splits)
    then show ?thesis by (intro exI [of _ key]) simp
  next
    case False
    then show ?thesis using that(1) by (intro exI [of _ k]) simp
  qed
  define key where "key = (case cn_keys s f of None \<Rightarrow> cn_next s + 1 | Some k \<Rightarrow> k)"
  have w: "cn_wakers (poll_register f s) = (cn_wakers s)(key \<mapsto> f)"
    by (auto simp: poll_register_def key_def cn_poll_def Let_def split: option.split)
  have "\<exists>k'. cn_wakers (poll_register f s) k' = Some g" if "cn_wakers s k = Some g \<or> g = f" for k g
    using that
  proof
    assume "cn_wakers s k = Some g"
    then show ?thesis unfolding w by (rule keep) (rule key_def)
  qed (auto simp: w)
  moreover have "will_take (poll_register f s) = will_take s" "cn_flag (poll_register f s) = cn_flag s"
      "cn_woken (poll_register f s) = cn_woken s" "cn_cancels (poll_register f s) = cn_cancels s"
      "cn_polls (poll_register f s) = (cn_polls s)(f := PollPending)"
    by (auto simp: poll_register_def will_take_def cn_poll_def Let_def)
  ultimately show ?case
    using cstep_register.prems(3) take unfolding wake_ok_def by (simp only: fun_upd_apply) (metis poll_pc.distinct)
next
  case (cstep_drop s f)
  have "\<exists>k. cn_wakers (drop_future f s) k = Some g" if "cn_wakers s k = Some g" "g \<noteq> f" for k g
  proof -
    have "cn_keys s g = Some k" using that(1) cstep_drop.prems(1) by (auto simp: keys_ok_def)
    then have "cn_keys s f \<noteq> Some k" using that(2) cstep_drop.prems(1) by (auto simp: keys_ok_def)
    then show ?thesis using that(1) by (intro exI [of _ k]) (auto simp: drop_future_def cn_poll_def split: option.split)
  qed
  moreover have "will_take (drop_future f s) = will_take s" "cn_flag (drop_future f s) = cn_flag s"
      "cn_woken (drop_future f s) = cn_woken s" "cn_cancels (drop_future f s) = cn_cancels s"
      "cn_polls (drop_future f s) = (cn_polls s)(f := PollDropped)"
    by (auto simp: drop_future_def will_take_def cn_poll_def split: option.split)
  ultimately show ?case using cstep_drop.prems(3) unfolding wake_ok_def by auto
next
  case (cstep_swap s c)
  have "will_take (cancel_swap c s)" if "\<not> cn_flag s \<or> will_take s"
    using that cstep_swap.hyps by (cases "cn_flag s") (auto simp: cancel_swap_def will_take_def cn_cancel_def; metis cancel_pc.distinct(1))+
  moreover have "cn_cancels (cancel_swap c s) c' = CancelWaking fs \<longleftrightarrow> cn_cancels s c' = CancelWaking fs" for c' fs
    using cstep_swap.hyps by (auto simp: cancel_swap_def cn_cancel_def)
  ultimately show ?case
    using cstep_swap.prems(3) unfolding wake_ok_def by (auto simp: cancel_swap_def cn_cancel_def)
next
  case (cstep_take s c)
  have none: "cn_polls s f \<noteq> PollRegistering" for f
    using cstep_take by (auto simp: lock_ok_def)
  have "cn_cancels (cancel_take c s) c' = CancelWaking fs" if "cn_cancels s c' = CancelWaking fs" for c' fs
    using that cstep_take.hyps by (auto simp: cancel_take_def cn_cancel_def)
  moreover have "\<exists>fs. cn_cancels (cancel_take c s) c = CancelWaking fs \<and> f \<in> fs" if "cn_wakers s k = Some f" for k f
    using that by (auto simp: cancel_take_def cn_cancel_def ran_def)
  moreover have "cn_polls (cancel_take c s) = cn_polls s" "cn_woken (cancel_take c s) = cn_woken s"
    by (simp_all add: cancel_take_def cn_cancel_def)
  ultimately show ?case using cstep_take.prems(3) none unfolding wake_ok_def by metis
next
  case (cstep_wake s c fs)
  have "will_take (cancel_wake c fs s) = will_take s"
    using cstep_wake.hyps by (auto simp: cancel_wake_def will_take_def cn_cancel_def; metis cancel_pc.distinct)
  moreover have "f \<in> cn_woken (cancel_wake c fs s) \<or> cn_cancels (cancel_wake c fs s) c' = CancelWaking fs'"
    if "cn_cancels s c' = CancelWaking fs'" "f \<in> fs'" for c' fs' f
    using that cstep_wake.hyps by (auto simp: cancel_wake_def cn_cancel_def)
  moreover have "cn_woken s \<subseteq> cn_woken (cancel_wake c fs s)" "cn_polls (cancel_wake c fs s) = cn_polls s"
      "cn_flag (cancel_wake c fs s) = cn_flag s" "cn_wakers (cancel_wake c fs s) = cn_wakers s"
    by (auto simp: cancel_wake_def cn_cancel_def)
  ultimately show ?case using cstep_wake.prems(3) unfolding wake_ok_def by simp blast
qed

lemma cancel_reaches_inv: "cancel_reaches s \<Longrightarrow> cancel_inv s"
proof (induction rule: cancel_reaches.induct)
  case cancel_init
  then show ?case by (simp add: cancel_inv_def keys_ok_def lock_ok_def wake_ok_def cancellation_default_def)
next
  case (cancel_next s t)
  then show ?case
    using keys_ok_step lock_ok_step wake_ok_step by (auto simp: cancel_inv_def)
qed

text \<open>The flag never falls back, and exactly one caller of \<open>cancel\<close> takes the wakers.\<close>

lemma cancel_step_flag: "cancel_step s t \<Longrightarrow> cn_flag s \<Longrightarrow> cn_flag t"
  by (induction rule: cancel_step.induct) (auto simp: cn_defs Let_def split: option.split)

text \<open>
  Once a cancellation was requested and every caller that started has finished, whoever still waits has
  been woken.
\<close>

lemma cancellation_wakes:
  assumes "cancel_reaches s" and "cn_flag s" and "\<forall>c. cn_cancels s c \<in> {CancelFresh, CancelDone}"
    and "cn_polls s f = PollPending"
  shows "f \<in> cn_woken s"
proof -
  have "\<not> will_take s" "cn_cancels s c \<noteq> CancelWaking fs" for c fs
    using assms(3) by (auto simp: will_take_def dest: spec [of _ c]) (metis cancel_pc.distinct insertE singletonD)+
  then show ?thesis using cancel_reaches_inv [OF assms(1)] assms(2,4) by (auto simp: cancel_inv_def wake_ok_def)
qed

end
