(* ===== verification/Observers.thy ===== *)
theory Observers
  imports Engine_Base
begin

text \<open>
  The ports of an invocation (\<open>zhir-kernel/src/invocation.rs\<close>): the emitter of observations with the
  gaps it reports, and the pipes of live media with their budget of bytes. Both are channels with a
  bounded capacity between the engine and the host; the relations interleave the two sides. The sequence
  of an observation, a \<open>u64\<close> that is only incremented, is a natural number.
\<close>

section \<open>Observations\<close>

record observation =
  ob_run_id :: string
  ob_invocation_id :: string
  ob_sequence :: nat
  ob_data :: event_data

record emitter =
  em_sequence :: nat
  em_lost :: nat
  em_open :: bool
  em_run_id :: string
  em_invocation_id :: string

text \<open>
  The channel to the observer: what is queued, what it took, whether it is still there. \<open>os_emitted\<close>
  is what the engine emitted while the emitter was open.
\<close>

record observer_state =
  os_emitter :: emitter
  os_capacity :: nat
  os_queue :: "observation list"
  os_taken :: "observation list"
  os_attached :: bool
  os_emitted :: "event_data list"

definition observer_new :: "string \<Rightarrow> string \<Rightarrow> nat \<Rightarrow> observer_state" where
  "observer_new run invocation capacity =
     \<lparr>os_emitter = \<lparr>em_sequence = 0, em_lost = 0, em_open = True, em_run_id = run, em_invocation_id = invocation\<rparr>,
      os_capacity = capacity, os_queue = [], os_taken = [], os_attached = True, os_emitted = []\<rparr>"

text \<open>\<open>try_send\<close>: fails when the observer is gone or the channel is full.\<close>

definition try_send :: "observation \<Rightarrow> observer_state \<Rightarrow> bool \<times> observer_state" where
  "try_send event s = (if os_attached s \<and> length (os_queue s) < os_capacity s
     then (True, s\<lparr>os_queue := os_queue s @ [event]\<rparr>) else (False, s))"

text \<open>The observer takes up to \<open>n\<close> queued observations.\<close>

definition take_observed :: "nat \<Rightarrow> observer_state \<Rightarrow> observer_state" where
  "take_observed n s = s\<lparr>os_taken := os_taken s @ take n (os_queue s), os_queue := drop n (os_queue s)\<rparr>"

definition observation_of :: "emitter \<Rightarrow> event_data \<Rightarrow> observation" where
  "observation_of m data = \<lparr>ob_run_id = em_run_id m, ob_invocation_id = em_invocation_id m,
     ob_sequence = em_sequence m, ob_data = data\<rparr>"

definition bump :: "observer_state \<Rightarrow> observer_state" where
  "bump s = s\<lparr>os_emitter := (os_emitter s)\<lparr>em_sequence := em_sequence (os_emitter s) + 1\<rparr>\<rparr>"

definition set_lost :: "nat \<Rightarrow> observer_state \<Rightarrow> observer_state" where
  "set_lost n s = s\<lparr>os_emitter := (os_emitter s)\<lparr>em_lost := n\<rparr>\<rparr>"

text \<open>The report of a gap, which may not fit either.\<close>

definition send_gap :: "observer_state \<Rightarrow> observer_state" where
  "send_gap s = (if em_lost (os_emitter s) = 0 then s
     else case try_send (observation_of (os_emitter s) (ObservationGap (em_lost (os_emitter s)))) s of
       (True, s') \<Rightarrow> bump (set_lost 0 s')
     | (False, s') \<Rightarrow> s')"

text \<open>\<open>emit\<close>; the observer takes \<open>n\<close> observations between the two attempts.\<close>

definition emit :: "event_data \<Rightarrow> nat \<Rightarrow> observer_state \<Rightarrow> observer_state" where
  "emit data n s = (if \<not> em_open (os_emitter s) then s
     else (let s1 = take_observed n (send_gap (bump s)) in
       case try_send (observation_of (os_emitter s1) data) s1 of
         (True, s2) \<Rightarrow> s2\<lparr>os_emitted := os_emitted s2 @ [data]\<rparr>
       | (False, s2) \<Rightarrow> set_lost (em_lost (os_emitter s2) + 1) (s2\<lparr>os_emitted := os_emitted s2 @ [data]\<rparr>)))"

definition emitter_close :: "observer_state \<Rightarrow> observer_state" where
  "emitter_close s = s\<lparr>os_emitter := (os_emitter s)\<lparr>em_open := False\<rparr>\<rparr>"

inductive observer_step :: "observer_state \<Rightarrow> observer_state \<Rightarrow> bool" where
  ostep_emit: "\<forall>count. data \<noteq> ObservationGap count \<Longrightarrow> observer_step s (emit data n s)"
| ostep_take: "observer_step s (take_observed n s)"
| ostep_detach: "observer_step s (s\<lparr>os_attached := False\<rparr>)"
| ostep_close: "observer_step s (emitter_close s)"

inductive observes :: "observer_state \<Rightarrow> observer_state \<Rightarrow> bool" where
  observes_refl: "observes s s"
| observes_step: "observes s t \<Longrightarrow> observer_step t u \<Longrightarrow> observes s u"

subsection \<open>Every observation is delivered or counted\<close>

fun gap_count :: "event_data \<Rightarrow> nat" where
  "gap_count (ObservationGap count) = count"
| "gap_count _ = 0"

fun is_gap :: "event_data \<Rightarrow> bool" where
  "is_gap (ObservationGap _) = True"
| "is_gap _ = False"

definition sent_observations :: "observer_state \<Rightarrow> observation list" where
  "sent_observations s = os_taken s @ os_queue s"

definition delivered :: "observer_state \<Rightarrow> event_data list" where
  "delivered s = filter (\<lambda>d. \<not> is_gap d) (map ob_data (sent_observations s))"

definition reported_lost :: "observer_state \<Rightarrow> nat" where
  "reported_lost s = sum_list (map (gap_count \<circ> ob_data) (sent_observations s))"

text \<open>Whether a list is what remains of another one after leaving out elements.\<close>

fun sublist_of :: "'a list \<Rightarrow> 'a list \<Rightarrow> bool" where
  "sublist_of [] ys \<longleftrightarrow> True"
| "sublist_of (x # xs) [] \<longleftrightarrow> False"
| "sublist_of (x # xs) (y # ys) \<longleftrightarrow> (x = y \<and> sublist_of xs ys) \<or> sublist_of (x # xs) ys"

lemma sublist_of_snoc: "sublist_of xs ys \<Longrightarrow> sublist_of xs (ys @ [y])"
  by (induction xs ys rule: sublist_of.induct) auto

lemma sublist_of_both: "sublist_of xs ys \<Longrightarrow> sublist_of (xs @ [y]) (ys @ [y])"
proof (induction xs ys rule: sublist_of.induct)
  case (1 ys)
  then show ?case by (induction ys) auto
qed auto

text \<open>The last sequence bounds what was sent, and once more when nothing is in flight.\<close>

definition observed_ok :: "observer_state \<Rightarrow> bool" where
  "observed_ok s \<longleftrightarrow> sorted_wrt (<) (map ob_sequence (sent_observations s))
     \<and> (\<forall>e \<in> set (sent_observations s). ob_sequence e \<le> em_sequence (os_emitter s))
     \<and> length (os_emitted s) = length (delivered s) + reported_lost s + em_lost (os_emitter s)
     \<and> sublist_of (delivered s) (os_emitted s)
     \<and> (\<forall>e \<in> set (sent_observations s). ob_run_id e = em_run_id (os_emitter s)
          \<and> ob_invocation_id e = em_invocation_id (os_emitter s))
     \<and> length (os_queue s) \<le> os_capacity s"

lemma take_observed_fields [simp]:
  "sent_observations (take_observed n s) = sent_observations s"
  "os_emitter (take_observed n s) = os_emitter s" "os_emitted (take_observed n s) = os_emitted s"
  "os_capacity (take_observed n s) = os_capacity s" "os_attached (take_observed n s) = os_attached s"
  by (simp_all add: take_observed_def sent_observations_def)

lemma take_observed_ok: "observed_ok s \<Longrightarrow> observed_ok (take_observed n s)"
  by (simp add: observed_ok_def delivered_def reported_lost_def)
    (auto simp: take_observed_def intro: le_trans [OF diff_le_self])

text \<open>
  Inside \<open>emit\<close> the current sequence is not used yet: everything sent lies strictly before it.
\<close>

definition fresh_ok :: "observer_state \<Rightarrow> bool" where
  "fresh_ok s \<longleftrightarrow> observed_ok s \<and> (\<forall>e \<in> set (sent_observations s). ob_sequence e < em_sequence (os_emitter s))"

lemma sent_observations_append [simp]:
  "sent_observations (s\<lparr>os_queue := os_queue s @ [event]\<rparr>) = sent_observations s @ [event]"
  "sent_observations (s\<lparr>os_emitter := m\<rparr>) = sent_observations s"
  "sent_observations (s\<lparr>os_emitted := ds\<rparr>) = sent_observations s"
  by (simp_all add: sent_observations_def)

lemma bump_ok: "observed_ok s \<Longrightarrow> fresh_ok (bump s)"
  by (auto simp: fresh_ok_def observed_ok_def bump_def delivered_def reported_lost_def less_Suc_eq_le
      intro: le_SucI)

lemma send_gap_ok: "fresh_ok s \<Longrightarrow> fresh_ok (send_gap s)"
  by (auto simp: send_gap_def try_send_def bump_def set_lost_def fresh_ok_def observed_ok_def
      delivered_def reported_lost_def observation_of_def sorted_wrt_append less_Suc_eq_le less_imp_le)

lemma emit_ok:
  assumes "observed_ok s" and "\<not> is_gap data"
  shows "observed_ok (emit data n s)"
proof (cases "em_open (os_emitter s)")
  case True
  define s1 where "s1 = take_observed n (send_gap (bump s))"
  have "fresh_ok (send_gap (bump s))" using assms(1) by (intro send_gap_ok bump_ok)
  then have s1: "fresh_ok s1" unfolding s1_def
    by (simp add: fresh_ok_def take_observed_ok)
  have gap: "gap_count data = 0" using assms(2) by (cases data) auto
  have "emit data n s = (case try_send (observation_of (os_emitter s1) data) s1 of
         (True, s2) \<Rightarrow> s2\<lparr>os_emitted := os_emitted s2 @ [data]\<rparr>
       | (False, s2) \<Rightarrow> set_lost (em_lost (os_emitter s2) + 1) (s2\<lparr>os_emitted := os_emitted s2 @ [data]\<rparr>))"
    using True by (simp add: emit_def s1_def Let_def)
  then show ?thesis
    using s1 assms(2) gap
    by (auto simp: try_send_def set_lost_def fresh_ok_def observed_ok_def delivered_def
        reported_lost_def observation_of_def sorted_wrt_append sublist_of_snoc sublist_of_both)
next
  case False
  then show ?thesis using assms(1) by (simp add: emit_def)
qed

lemma observer_step_ok: "observer_step s t \<Longrightarrow> observed_ok s \<Longrightarrow> observed_ok t"
proof (induction rule: observer_step.induct)
  case (ostep_emit data s n)
  then have "\<not> is_gap data" by (cases data) auto
  then show ?case using ostep_emit emit_ok by blast
next
  case (ostep_take s n)
  then show ?case by (rule take_observed_ok)
qed (auto simp: observed_ok_def emitter_close_def sent_observations_def delivered_def reported_lost_def)

lemma observer_new_ok: "observed_ok (observer_new run invocation capacity)"
  by (simp add: observed_ok_def observer_new_def sent_observations_def delivered_def reported_lost_def)

lemma observes_ok: "observes s t \<Longrightarrow> observed_ok s \<Longrightarrow> observed_ok t"
  by (induction rule: observes.induct) (auto dest: observer_step_ok)

section \<open>Media pipes\<close>

text \<open>
  A pipe is a channel of packets with a semaphore of bytes. A packet holds its permits from the moment
  it is admitted until it is dropped: while its sender waits for a place, in the queue, and in the hands
  of the receiver.
\<close>

record media_pipe =
  mp_sending :: "media_chunk list"
  mp_queue :: "media_chunk list"
  mp_held :: "media_chunk list"
  mp_available :: nat
  mp_packets :: nat
  mp_max_chunk :: nat
  mp_min_epoch :: u64

definition media_pipe_new :: "nat \<Rightarrow> nat \<Rightarrow> nat \<Rightarrow> media_pipe" where
  "media_pipe_new limit packets max_chunk = \<lparr>mp_sending = [], mp_queue = [], mp_held = [],
     mp_available = limit, mp_packets = packets, mp_max_chunk = max_chunk, mp_min_epoch = 0\<rparr>"

definition permits :: "media_chunk \<Rightarrow> nat" where
  "permits c = max (length (mc_bytes c)) 1"

definition invalidate_before :: "u64 \<Rightarrow> media_pipe \<Rightarrow> media_pipe" where
  "invalidate_before epoch p = p\<lparr>mp_min_epoch := epoch\<rparr>"

text \<open>\<open>send\<close> up to the acquisition: \<open>None\<close> when it has to wait for permits.\<close>

definition pipe_admit :: "media_chunk \<Rightarrow> media_pipe \<Rightarrow> (unit result \<times> media_pipe) option" where
  "pipe_admit c p = (case media_chunk_validate c (mp_max_chunk p) of
       Inl err \<Rightarrow> Some (Inl err, p)
     | Inr _ \<Rightarrow>
         (if u32_max < permits c then Some (Inl (Invalid ''media chunk too large''), p)
          else if mp_available p < permits c then None
          else Some (Inr (), p\<lparr>mp_sending := mp_sending p @ [c], mp_available := mp_available p - permits c\<rparr>)))"

text \<open>The rest of it: a sender that holds its permits puts the packet when there is a place.\<close>

definition pipe_push :: "nat \<Rightarrow> media_pipe \<Rightarrow> media_pipe option" where
  "pipe_push i p = (if i < length (mp_sending p) \<and> length (mp_queue p) < mp_packets p
     then Some (p\<lparr>mp_sending := take i (mp_sending p) @ drop (Suc i) (mp_sending p),
                 mp_queue := mp_queue p @ [mp_sending p ! i]\<rparr>)
     else None)"

text \<open>
  One turn of \<open>MediaOutput::receive\<close>: a packet of an epoch before the one loaded is dropped and the loop
  goes on (\<open>None\<close>), any other is returned; either gives its permits back.
\<close>

definition pipe_receive :: "media_pipe \<Rightarrow> (media_chunk option \<times> media_pipe) option" where
  "pipe_receive p = (case mp_queue p of [] \<Rightarrow> None
     | c # queue \<Rightarrow> Some (if mp_min_epoch p \<le> mc_epoch c then Some c else None,
         p\<lparr>mp_queue := queue, mp_available := mp_available p + permits c\<rparr>))"

text \<open>The engine takes the packet itself and drops it later.\<close>

definition pipe_take :: "media_pipe \<Rightarrow> (media_chunk \<times> media_pipe) option" where
  "pipe_take p = (case mp_queue p of [] \<Rightarrow> None
     | c # queue \<Rightarrow> Some (c, p\<lparr>mp_queue := queue, mp_held := mp_held p @ [c]\<rparr>))"

definition pipe_release :: "nat \<Rightarrow> media_pipe \<Rightarrow> media_pipe" where
  "pipe_release i p = (if i < length (mp_held p)
     then p\<lparr>mp_held := take i (mp_held p) @ drop (Suc i) (mp_held p),
            mp_available := mp_available p + permits (mp_held p ! i)\<rparr>
     else p)"

inductive pipe_step :: "media_pipe \<Rightarrow> media_pipe \<Rightarrow> bool" where
  pstep_admit: "pipe_admit c p = Some (r, p') \<Longrightarrow> pipe_step p p'"
| pstep_push: "pipe_push i p = Some p' \<Longrightarrow> pipe_step p p'"
| pstep_receive: "pipe_receive p = Some (r, p') \<Longrightarrow> pipe_step p p'"
| pstep_taken: "pipe_take p = Some (c, p') \<Longrightarrow> pipe_step p p'"
| pstep_release: "pipe_step p (pipe_release i p)"
| pstep_invalidate: "pipe_step p (invalidate_before epoch p)"

inductive pipe_reaches :: "media_pipe \<Rightarrow> media_pipe \<Rightarrow> bool" where
  pipe_refl: "pipe_reaches p p"
| pipe_next: "pipe_reaches p q \<Longrightarrow> pipe_step q q' \<Longrightarrow> pipe_reaches p q'"

definition charged :: "media_chunk list \<Rightarrow> nat" where
  "charged cs = sum_list (map permits cs)"

lemma charged_simps [simp]:
  "charged [] = 0" "charged (c # cs) = permits c + charged cs" "charged (cs @ ds) = charged cs + charged ds"
  by (simp_all add: charged_def)

lemma charged_remove: "i < length cs \<Longrightarrow> charged cs = charged (take i cs) + permits (cs ! i) + charged (drop (Suc i) cs)"
  by (metis add.assoc append_take_drop_id Cons_nth_drop_Suc charged_simps(2,3))

text \<open>No permit is created or lost, the queue is bounded, and every packet was valid when admitted.\<close>

definition pipe_ok :: "nat \<Rightarrow> media_pipe \<Rightarrow> bool" where
  "pipe_ok limit p \<longleftrightarrow>
     mp_available p + charged (mp_sending p) + charged (mp_queue p) + charged (mp_held p) = limit
     \<and> length (mp_queue p) \<le> mp_packets p"

lemma pipe_step_ok: "pipe_step p p' \<Longrightarrow> pipe_ok limit p \<Longrightarrow> pipe_ok limit p'"
proof (induction rule: pipe_step.induct)
  case (pstep_admit c p r p')
  then show ?case by (auto simp: pipe_admit_def pipe_ok_def not_less split: sum.splits if_splits)
next
  case (pstep_push i p p')
  then show ?case using charged_remove [of i "mp_sending p"]
    by (auto simp: pipe_push_def pipe_ok_def split: if_splits)
next
  case (pstep_receive p r p')
  then show ?case by (auto simp: pipe_receive_def pipe_ok_def split: list.splits)
next
  case (pstep_taken p c p')
  then show ?case by (auto simp: pipe_take_def pipe_ok_def split: list.splits)
next
  case (pstep_release p i)
  then show ?case using charged_remove [of i "mp_held p"] by (auto simp: pipe_release_def pipe_ok_def)
next
  case (pstep_invalidate p epoch)
  then show ?case by (simp add: pipe_ok_def invalidate_before_def)
qed

lemma pipe_reaches_ok: "pipe_reaches p q \<Longrightarrow> pipe_ok limit p \<Longrightarrow> pipe_ok limit q"
  by (induction rule: pipe_reaches.induct) (auto dest: pipe_step_ok)

lemma media_pipe_new_ok: "pipe_ok limit (media_pipe_new limit packets max_chunk)"
  by (simp add: pipe_ok_def media_pipe_new_def)

text \<open>What a receiver gets is the oldest packet, of the current epoch or a later one.\<close>

lemma pipe_receive_current:
  assumes "pipe_receive p = Some (r, p')"
  shows "\<exists>c. mp_queue p = c # mp_queue p' \<and> (r = Some c \<and> mp_min_epoch p \<le> mc_epoch c
    \<or> r = None \<and> mc_epoch c < mp_min_epoch p)"
  using assms by (auto simp: pipe_receive_def split: list.splits if_splits)

text \<open>
  Validated limits leave no chunk waiting for ever: what a pipe of such limits accepts fits it when it
  is empty.
\<close>

lemma pipe_empty_admits:
  assumes "limits_validate l = Inr ()" and "pipe_ok (lim_max_buffered_media_bytes l) p"
    and "mp_max_chunk p = lim_max_media_chunk_bytes l"
    and "mp_sending p = []" "mp_queue p = []" "mp_held p = []"
  shows "pipe_admit c p \<noteq> None"
proof -
  have "permits c \<le> mp_available p" if "media_chunk_validate c (mp_max_chunk p) = Inr ()"
    using that assms by (auto simp: media_chunk_validate_def limits_validate_def fail_if_def pipe_ok_def permits_def split: if_splits)
  then show ?thesis by (auto simp: pipe_admit_def split: sum.split)
qed

end
