(* ===== verification/Runtime_Entry.thy ===== *)
theory Runtime_Entry
  imports Observers Engine_Lifecycle
begin

text \<open>
  How a run is entered: requests with their overrides and selectors (\<open>zhir-kernel/src/request.rs\<close>), the
  entry points \<open>start\<close>, \<open>continue_from\<close> and \<open>resume\<close> with their guards (\<open>runtime.rs\<close>), the default
  configuration (\<open>defaults/mod.rs\<close>), typed metadata (\<open>zhir-core/src/run/context.rs\<close>) and the life of an
  invocation (\<open>invocation.rs\<close>). The lemmas show that what an entry point accepts, the validator of
  every store accepts as the first commit of the execution.
\<close>

section \<open>Typed metadata\<close>

text \<open>\<open>to_value\<close> and \<open>from_value\<close> are the serialization of the value's type.\<close>

definition key_validate :: "string \<Rightarrow> unit result" where
  "key_validate key = fail_if (key = []) (Context EmptyKey)"

definition key_insert :: "('a \<Rightarrow> string + json) \<Rightarrow> string \<Rightarrow> 'a \<Rightarrow> metadata \<Rightarrow> metadata result" where
  "key_insert to_value key value m = r_bind (key_validate key) (\<lambda>_.
     case to_value value of Inl message \<Rightarrow> Inl (Context (KeyEncode key message))
     | Inr v \<Rightarrow> Inr (om_insert key v m))"

definition key_get :: "(json \<Rightarrow> string + 'a) \<Rightarrow> string \<Rightarrow> metadata \<Rightarrow> 'a option result" where
  "key_get from_value key m = r_bind (key_validate key) (\<lambda>_.
     case om_get m key of None \<Rightarrow> Inr None
     | Some v \<Rightarrow> (case from_value v of Inl message \<Rightarrow> Inl (Context (KeyDecode key message))
                 | Inr x \<Rightarrow> Inr (Some x)))"

definition key_require :: "(json \<Rightarrow> string + 'a) \<Rightarrow> string \<Rightarrow> metadata \<Rightarrow> 'a result" where
  "key_require from_value key m = r_bind (key_get from_value key m) (ok_or (Context (MissingKey key)))"

section \<open>Defaults\<close>

definition default_limits :: limits where
  "default_limits = \<lparr>lim_max_generation_requests = 100, lim_max_runtime_tool_calls = 1000,
     lim_max_inflight_operations = 64, lim_max_control_commands = 256, lim_max_session_events = 256,
     lim_max_media_streams = 64, lim_max_media_chunk_bytes = 1024 * 1024,
     lim_max_buffered_media_bytes = 16 * 1024 * 1024, lim_max_buffered_media_packets = 256,
     lim_max_operation_concurrency = 8, lim_max_observer_events = 256, lim_max_total_tokens = None,
     lim_elapsed_ms = None, lim_commit_timeout_ms = 5000\<rparr>"

definition default_profile :: request_profile where
  "default_profile = \<lparr>rp_generation = \<lparr>gp_temperature = None, gp_max_output_tokens = None,
       gp_seed = None, gp_parallel_runtime_tools = None\<rparr>,
     rp_serving = None, rp_reasoning = None, rp_language = None, rp_interaction = None,
     rp_alternatives = [], rp_extensions = []\<rparr>"

definition default_run_options :: run_options where
  "default_run_options = \<lparr>ro_runtime_tools = SelectAll, ro_limits = default_limits,
     ro_profile = default_profile, ro_mode = Task, ro_provider_tools = [], ro_tool_choice = ChoiceAuto,
     ro_response_format = None, ro_stream = False\<rparr>"

definition run_context_new :: "string \<Rightarrow> u64 \<Rightarrow> run_context" where
  "run_context_new i now = \<lparr>rc_run_id = i, rc_started_at_ms = now, rc_deadline_at_ms = None,
     rc_parent_run_id = None, rc_parent_runtime_tool_call_id = None, rc_metadata = []\<rparr>"

definition pause_suspension :: suspension where
  "pause_suspension = \<lparr>sus_reason = ''pause'', sus_source = ''host'', sus_wait_id = None, sus_metadata = []\<rparr>"

section \<open>Requests\<close>

record overrides =
  ov_runtime_tools :: "runtime_tool_selection option"
  ov_limits :: "limits option"
  ov_profile :: "request_profile option"
  ov_mode :: "run_mode option"
  ov_provider_tools :: "provider_tool_spec list option"
  ov_tool_choice :: "tool_choice option"
  ov_response_format :: "response_format option option"
  ov_stream :: "bool option"

definition overrides_default :: overrides where
  "overrides_default = \<lparr>ov_runtime_tools = None, ov_limits = None, ov_profile = None, ov_mode = None,
     ov_provider_tools = None, ov_tool_choice = None, ov_response_format = None, ov_stream = None\<rparr>"

record run_request =
  rq_messages :: "message list"
  rq_context :: run_context
  rq_overrides :: overrides

definition run_request_new :: "message list \<Rightarrow> run_context \<Rightarrow> run_request" where
  "run_request_new ms run = \<lparr>rq_messages = ms, rq_context = run, rq_overrides = overrides_default\<rparr>"

text \<open>\<open>run_options\<close> replaces every field.\<close>

definition override_all :: "run_options \<Rightarrow> run_request \<Rightarrow> run_request" where
  "override_all v r = r\<lparr>rq_overrides := \<lparr>ov_runtime_tools = Some (ro_runtime_tools v),
     ov_limits = Some (ro_limits v), ov_profile = Some (ro_profile v), ov_mode = Some (ro_mode v),
     ov_provider_tools = Some (ro_provider_tools v), ov_tool_choice = Some (ro_tool_choice v),
     ov_response_format = Some (ro_response_format v), ov_stream = Some (ro_stream v)\<rparr>\<rparr>"

definition or_default :: "'a option \<Rightarrow> 'a \<Rightarrow> 'a" where
  "or_default x d = (case x of None \<Rightarrow> d | Some v \<Rightarrow> v)"

definition resolve_options :: "overrides \<Rightarrow> run_options \<Rightarrow> run_options" where
  "resolve_options ov d = \<lparr>
     ro_runtime_tools = or_default (ov_runtime_tools ov) (ro_runtime_tools d),
     ro_limits = or_default (ov_limits ov) (ro_limits d),
     ro_profile = or_default (ov_profile ov) (ro_profile d),
     ro_mode = or_default (ov_mode ov) (ro_mode d),
     ro_provider_tools = or_default (ov_provider_tools ov) (ro_provider_tools d),
     ro_tool_choice = or_default (ov_tool_choice ov) (ro_tool_choice d),
     ro_response_format = or_default (ov_response_format ov) (ro_response_format d),
     ro_stream = or_default (ov_stream ov) (ro_stream d)\<rparr>"

definition into_parts :: "run_request \<Rightarrow> run_options \<Rightarrow> message list \<times> run_context \<times> run_options" where
  "into_parts r d = (rq_messages r, rq_context r, resolve_options (rq_overrides r) d)"

record suspension_selector =
  sel_reason :: "string option"
  sel_source :: "string option"
  sel_wait_id :: "string option"
  sel_metadata :: metadata

definition selector_matches :: "suspension_selector \<Rightarrow> suspension \<Rightarrow> bool" where
  "selector_matches sel s \<longleftrightarrow>
     (sel_reason sel \<noteq> None \<or> sel_source sel \<noteq> None \<or> sel_wait_id sel \<noteq> None \<or> sel_metadata sel \<noteq> [])
     \<and> none_or (\<lambda>v. v = sus_reason s) (sel_reason sel) \<and> none_or (\<lambda>v. v = sus_source s) (sel_source sel)
     \<and> none_or (\<lambda>v. Some v = sus_wait_id s) (sel_wait_id sel)
     \<and> (\<forall>(k, v) \<in> set (sel_metadata sel). om_get (sus_metadata s) k = Some v)"

datatype resume_target = TargetCheckpoint checkpoint | TargetTicket suspension_ticket

record resume_request =
  rr_target :: resume_target
  rr_resolutions :: "recovery_resolution list"
  rr_messages :: "message list"
  rr_metadata :: metadata
  rr_selector :: "suspension_selector option"

definition resume_request_new :: "resume_target \<Rightarrow> resume_request" where
  "resume_request_new target = \<lparr>rr_target = target, rr_resolutions = [], rr_messages = [], rr_metadata = [],
     rr_selector = None\<rparr>"

section \<open>The runtime\<close>

text \<open>\<open>rt_store\<close> is the configured store's \<open>load_head\<close>.\<close>

record runtime =
  rt_defaults :: run_options
  rt_store :: "(string \<Rightarrow> checkpoint option result) option"

definition runtime_build :: "run_options \<Rightarrow> (string \<Rightarrow> checkpoint option result) option \<Rightarrow> runtime result" where
  "runtime_build defaults store = r_bind (run_options_validate defaults) (\<lambda>_.
     Inr \<lparr>rt_defaults = defaults, rt_store = store\<rparr>)"

definition limit_deadline :: "run_options \<Rightarrow> run_context \<Rightarrow> run_context" where
  "limit_deadline options c = (case lim_elapsed_ms (ro_limits options) of
       None \<Rightarrow> c
     | Some ms \<Rightarrow> (let limit = u64_saturating_add (rc_started_at_ms c) ms in
         c\<lparr>rc_deadline_at_ms := Some (case rc_deadline_at_ms c of None \<Rightarrow> limit | Some old \<Rightarrow> min old limit)\<rparr>))"

definition runtime_start :: "'x hashing_scheme \<Rightarrow> runtime \<Rightarrow> run_request \<Rightarrow> request result" where
  "runtime_start H rt r = (case into_parts r (rt_defaults rt) of (messages, c, options) \<Rightarrow>
     r_bind (run_options_validate options) (\<lambda>_.
     if rc_run_id c = [] then Inl (Invalid ''empty run id'')
     else r_bind (history_new H messages) (\<lambda>h.
       r_bind (history_validate h) (\<lambda>_.
         if pending_calls h \<noteq> [] \<or> pending_delegations h \<noteq> []
         then Inl (Invalid ''new run has unresolved work'')
         else Inr (RequestStart h (limit_deadline options c) options)))))"

definition runtime_load_checkpoint :: "runtime \<Rightarrow> string \<Rightarrow> checkpoint option result" where
  "runtime_load_checkpoint rt run = r_bind (ok_or (Resume StoreRequired) (rt_store rt)) (\<lambda>load. load run)"

definition runtime_continue :: "checkpoint \<Rightarrow> request result" where
  "runtime_continue c = r_bind (checkpoint_validate c) (\<lambda>_.
     if \<not> state_active (cp_state c) then Inl (Resume NotActive) else Inr (RequestRecover c [] [] []))"

definition resume_checkpoint :: "runtime \<Rightarrow> resume_target \<Rightarrow> checkpoint result" where
  "resume_checkpoint rt target = (case target of
       TargetCheckpoint c \<Rightarrow> Inr c
     | TargetTicket t \<Rightarrow> r_bind (ticket_validate t) (\<lambda>_.
         r_bind (ok_or (Resume StoreRequired) (rt_store rt)) (\<lambda>load.
         r_bind (load (tk_run_id t)) (\<lambda>head.
         r_bind (ok_or (Resume (RunNotFound (tk_run_id t))) head) (\<lambda>c.
         r_bind (ticket_check t c) (\<lambda>_. Inr c))))))"

definition runtime_resume :: "runtime \<Rightarrow> resume_request \<Rightarrow> request result" where
  "runtime_resume rt r = r_bind (resume_checkpoint rt (rr_target r)) (\<lambda>c.
     r_bind (checkpoint_validate c) (\<lambda>_. case cp_state c of
         StSuspended suspension \<Rightarrow>
           (if some_and (\<lambda>sel. \<not> selector_matches sel suspension) (rr_selector r)
            then Inl (Resume SelectorMismatch)
            else Inr (RequestRecover c (rr_messages r) (rr_resolutions r) (rr_metadata r)))
       | _ \<Rightarrow> Inl (Resume NotSuspended)))"

section \<open>Invocations\<close>

text \<open>
  The handles of an invocation: \<open>iv_starts\<close> counts the tasks spawned for it. \<open>iv_cancelled\<close> is the
  request for cancellation that dropping it, or an unfinished stream of its events, makes.
\<close>

record invocation =
  iv_pending :: "request option"
  iv_media_output :: bool
  iv_events :: bool
  iv_starts :: "request list"
  iv_cancelled :: bool

definition invocation_new :: "request \<Rightarrow> invocation" where
  "invocation_new r = \<lparr>iv_pending = Some r, iv_media_output = True, iv_events = True, iv_starts = [], iv_cancelled = False\<rparr>"

definition invocation_start :: "invocation \<Rightarrow> invocation" where
  "invocation_start v = (case iv_pending v of
       None \<Rightarrow> v | Some r \<Rightarrow> v\<lparr>iv_pending := None, iv_starts := iv_starts v @ [r]\<rparr>)"

definition invocation_media_output :: "invocation \<Rightarrow> unit result \<times> invocation" where
  "invocation_media_output v = (let v = invocation_start v in
     if iv_media_output v then (Inr (), v\<lparr>iv_media_output := False\<rparr>)
     else (Inl (Invalid ''media output already selected''), v))"

definition invocation_events :: "invocation \<Rightarrow> unit result \<times> invocation" where
  "invocation_events v = (if iv_events v then (Inr (), invocation_start (v\<lparr>iv_events := False\<rparr>))
     else (Inl (Invalid ''events already selected''), v))"

definition invocation_drop :: "invocation \<Rightarrow> invocation" where
  "invocation_drop v = v\<lparr>iv_cancelled := True\<rparr>"

definition stream_drop :: "bool \<Rightarrow> invocation \<Rightarrow> invocation" where
  "stream_drop completed v = (if completed then v else v\<lparr>iv_cancelled := True\<rparr>)"

text \<open>\<open>poll_next\<close>: \<open>None\<close> is pending, \<open>Some None\<close> the end of the stream.\<close>

definition stream_poll :: "bool \<Rightarrow> observer_state \<Rightarrow> observation option option \<times> bool \<times> observer_state" where
  "stream_poll completed s = (case os_queue s of
       e # _ \<Rightarrow> (Some (Some e), completed, take_observed 1 s)
     | [] \<Rightarrow> (if em_open (os_emitter s) then (None, completed, s) else (Some None, True, s)))"

inductive invocation_step :: "invocation \<Rightarrow> invocation \<Rightarrow> bool" where
  invoke_start: "invocation_step v (invocation_start v)"
| invoke_media: "invocation_media_output v = (r, v') \<Longrightarrow> invocation_step v v'"
| invoke_events: "invocation_events v = (r, v') \<Longrightarrow> invocation_step v v'"
| invoke_drop: "invocation_step v (invocation_drop v)"
| invoke_stream_drop: "invocation_step v (stream_drop completed v)"

inductive invoked :: "request \<Rightarrow> invocation \<Rightarrow> bool" for r where
  invoked_new: "invoked r (invocation_new r)"
| invoked_step: "invoked r v \<Longrightarrow> invocation_step v v' \<Longrightarrow> invoked r v'"

text \<open>What the task makes of the engine's result.\<close>

definition run_result :: "engine_result \<Rightarrow> engine_result" where
  "run_result r = (case r of
       Inl e \<Rightarrow> Inl e
     | Inr c \<Rightarrow> (case run_completion_new c of Inl err \<Rightarrow> Inl (err, Some c) | Inr c' \<Rightarrow> Inr c'))"

section \<open>Facts\<close>

lemma default_limits_valid: "limits_validate default_limits = Inr ()"
  by (simp add: limits_validate_def default_limits_def u32_max_def fail_if_def)

lemma default_run_options_valid: "run_options_validate default_run_options = Inr ()"
  by (simp add: run_options_validate_def default_run_options_def default_limits_valid default_profile_def
      fail_if_def selection_validate_def)

lemma override_all_wins: "into_parts (override_all v r) d = (rq_messages r, rq_context r, v)"
  by (simp add: into_parts_def override_all_def resolve_options_def or_default_def)

lemma no_overrides: "into_parts (run_request_new ms c) d = (ms, c, d)"
  by (simp add: into_parts_def run_request_new_def overrides_default_def resolve_options_def or_default_def)

lemma key_get_insert:
  assumes "\<And>v. to_value x = Inr v \<Longrightarrow> from_value v = Inr x" and "key_insert to_value key x m = Inr m'"
  shows "key_get from_value key' m' = (if key' = key then Inr (Some x) else key_get from_value key' m)"
  using assms by (auto simp: key_insert_def key_get_def r_bind_Inr split: sum.splits)

text \<open>Every task of an invocation is the one of its request, and it is spawned once at most.\<close>

lemma invocation_step_starts:
  "invocation_step v v' \<Longrightarrow> (case iv_pending v of Some r' \<Rightarrow> r' = r \<and> iv_starts v = [] | None \<Rightarrow> iv_starts v = [r])
     \<Longrightarrow> (case iv_pending v' of Some r' \<Rightarrow> r' = r \<and> iv_starts v' = [] | None \<Rightarrow> iv_starts v' = [r])"
  by (induction rule: invocation_step.induct)
    (auto simp: invocation_start_def invocation_media_output_def invocation_events_def invocation_drop_def
      stream_drop_def Let_def split: option.splits if_splits)

lemma invoked_starts:
  "invoked r v \<Longrightarrow> (case iv_pending v of Some r' \<Rightarrow> r' = r \<and> iv_starts v = [] | None \<Rightarrow> iv_starts v = [r])"
proof (induction rule: invoked.induct)
  case invoked_new
  then show ?case by (simp add: invocation_new_def)
next
  case (invoked_step v v')
  then show ?case using invocation_step_starts by blast
qed

lemma run_result_Inr:
  "run_result r = Inr c \<longleftrightarrow> r = Inr c \<and> checkpoint_validate c = Inr () \<and> \<not> state_active (cp_state c)"
  by (auto simp: run_result_def run_completion_new_def r_bind_Inr split: sum.splits if_splits)

subsection \<open>What an entry point accepts, a store accepts\<close>

lemma runtime_startD:
  assumes "runtime_start H rt r = Inr q"
  obtains h options where
    "q = RequestStart h (limit_deadline options (rq_context r)) options"
    "options = resolve_options (rq_overrides r) (rt_defaults rt)"
    "run_options_validate options = Inr ()" "rc_run_id (rq_context r) \<noteq> []"
    "history_new H (rq_messages r) = Inr h" "history_validate h = Inr ()"
    "pending_calls h = []" "pending_delegations h = []"
  using assms by (auto simp: runtime_start_def into_parts_def r_bind_Inr split: if_splits)

lemma runtime_resumeD:
  assumes "runtime_resume rt r = Inr (RequestRecover c ms rs metadata)"
  obtains suspension where
    "checkpoint_validate c = Inr ()" "cp_state c = StSuspended suspension"
    "\<not> some_and (\<lambda>sel. \<not> selector_matches sel suspension) (rr_selector r)"
    "resume_checkpoint rt (rr_target r) = Inr c"
proof -
  obtain c0 where target: "resume_checkpoint rt (rr_target r) = Inr c0" and valid: "checkpoint_validate c0 = Inr ()"
    and body: "(case cp_state c0 of StSuspended suspension \<Rightarrow>
           (if some_and (\<lambda>sel. \<not> selector_matches sel suspension) (rr_selector r)
            then Inl (Resume SelectorMismatch)
            else Inr (RequestRecover c0 (rr_messages r) (rr_resolutions r) (rr_metadata r)))
       | _ \<Rightarrow> Inl (Resume NotSuspended)) = Inr (RequestRecover c ms rs metadata)"
    using assms unfolding runtime_resume_def r_bind_Inr by auto
  from body obtain suspension where "cp_state c0 = StSuspended suspension" "c0 = c"
      "\<not> some_and (\<lambda>sel. \<not> selector_matches sel suspension) (rr_selector r)"
    by (cases "cp_state c0") (simp_all split: if_splits)
  then show thesis using that target valid by blast
qed

lemma limit_deadline_run [simp]: "rc_run_id (limit_deadline options c) = rc_run_id c"
  by (simp add: limit_deadline_def Let_def split: option.split)

lemma started_accepted:
  assumes "runtime_start H rt r = Inr q" and "ids n \<noteq> []" and "ids (n + 1) \<noteq> []"
    and "initial ids n q = (c, delta)"
  shows "validate_against H (commit_new c delta) None = Inr ()"
proof -
  obtain h options where q: "q = RequestStart h (limit_deadline options (rq_context r)) options"
    and options: "run_options_validate options = Inr ()" and run: "rc_run_id (rq_context r) \<noteq> []"
    and h: "history_new H (rq_messages r) = Inr h" "history_validate h = Inr ()"
      "pending_calls h = []" "pending_delegations h = []"
    using runtime_startD [OF assms(1)] by metis
  have ok: "history_ok H h" "history_entries h = input_entries (rq_messages r)"
    using history_append_ok [of H history_default _ h] h(1) by (simp_all add: history_new_def)
  have entries: "\<forall>e \<in> set (history_entries h). entry_validate e = Inr ()"
    using history_append_valid h(1) unfolding ok(2) history_new_def by blast
  have digest: "extend_digest H (0, zero_digest) (history_entries h) = Inr (hist_len h, hist_digest h)"
    using entries history_ok_len [OF ok(1)] history_ok_digest [OF ok(1)] by (simp add: extend_digest_Inr)
  have c: "cp_options c = options" "cp_history c = h" "cp_id c = ids (n + 1)" "cp_parent_id c = None"
    "cp_revision c = 0" "cp_state c = StRunning" "cp_context c = limit_deadline options (rq_context r)"
    "cp_active c = \<lparr>ac_session = session_new (ids n) (hist_len h) options, ac_operations = [], ac_commands = [], ac_media = []\<rparr>"
    and delta: "delta = Initial (history_entries h)"
    using assms(4) by (auto simp: q initial_def)
  have "checkpoint_validate c = Inr ()"
    using options run h assms(2,3)
    by (simp add: checkpoint_validate_def Let_def c session_new_def validate_operations_def fail_if_def
        each_def)
  then show ?thesis
    using options digest
    by (simp add: validate_against_def commit_new_def commit_core_def Let_def c delta delta_validate_def
        expected_revision_def u64_checked_sub_def fail_if_def)
qed

lemma operation_advances_refl: "operation_advances op (Some op) = Inr ()"
  by (cases "op_last_sequence op") (simp_all add: operation_advances_def fail_if_def)

lemma find_own: "c \<in> set cs \<Longrightarrow> distinct (map pc_id cs) \<Longrightarrow> find (\<lambda>command. pc_id command = pc_id c) cs = Some c"
  by (induction cs) (auto simp: rev_image_eqI)

lemma command_advances_refl:
  "c \<in> set cs \<Longrightarrow> distinct (map pc_id cs) \<Longrightarrow> command_advances cs c = Inr ()"
  by (simp add: command_advances_def fail_if_def find_own)

text \<open>The attached checkpoint differs from the one it is attached to in what validation does not connect.\<close>

lemma attached_valid:
  assumes "checkpoint_validate c = Inr ()" and "i \<noteq> []" and "cp_revision c \<noteq> - 1"
    and "rc_run_id attached = rc_run_id (cp_context c)"
  shows "checkpoint_validate (c\<lparr>cp_id := i, cp_parent_id := Some (cp_id c), cp_revision := cp_revision c + 1,
     cp_state := StRunning, cp_context := attached, cp_fact := what\<rparr>) = Inr ()"
proof -
  let ?c = "c\<lparr>cp_id := i, cp_parent_id := Some (cp_id c), cp_revision := cp_revision c + 1,
     cp_state := StRunning, cp_context := attached, cp_fact := what\<rparr>"
  have "command_validate ?c x = command_validate c x" for x
    by (cases "pc_intent x") (simp_all add: command_validate_def split: option.split)
  then have commands: "command_validate ?c = command_validate c" by (rule ext)
  have h: "cp_history ?c = cp_history c" by simp
  have "operation_entry_validate ?c x = operation_entry_validate c x" for x
    unfolding operation_entry_validate_def h ..
  then have "operation_entry_validate ?c = operation_entry_validate c" by (rule ext)
  then have operations: "validate_operations ?c = validate_operations c"
    by (simp add: validate_operations_def)
  have "cp_revision c + 1 \<noteq> 0" using assms(3) by (metis add_diff_cancel_right' diff_0)
  then show ?thesis
    using assms(1,2,4) unfolding checkpoint_validate_def Let_def
    by (simp add: commands operations r_bind_Inr fail_if_Inr)
qed

lemma attached_accepted:
  assumes valid: "checkpoint_validate c = Inr ()" and "\<not> state_terminal (cp_state c)"
    and "om_ok (cp_operations c)" and "ids n \<noteq> []" and "cp_revision c \<noteq> - 1"
    and "initial ids n (RequestRecover c ms rs metadata) = (c', delta)"
  shows "validate_against H (commit_new c' delta) (Some (core_of c)) = Inr ()"
proof -
  let ?attached = "(cp_context c)\<lparr>rc_metadata := om_extend (rc_metadata (cp_context c)) metadata\<rparr>"
  have c': "c' = c\<lparr>cp_id := ids n, cp_parent_id := Some (cp_id c), cp_revision := cp_revision c + 1,
      cp_state := StRunning, cp_context := ?attached, cp_fact := FAttached\<rparr>" and delta: "delta = Unchanged"
    using assms(6) by (simp_all add: initial_def)
  have next_valid: "checkpoint_validate c' = Inr ()"
    unfolding c' by (rule attached_valid [OF valid assms(4,5)]) simp
  have "cp_revision c + 1 \<noteq> 0" using assms(5) by (metis add_diff_cancel_right' diff_0)
  then have expected: "u64_checked_sub (cp_revision c + 1) 1 = Some (cp_revision c)"
    by (simp add: u64_checked_sub_one)
  have operations: "each (\<lambda>(i, old). operation_advances old (om_get (cp_operations c) i)) (cp_operations c) = Inr ()"
    using assms(3) by (auto simp: each_Inr operation_advances_refl om_in_set_get)
  have commands: "each (command_advances (cp_commands c)) (cp_commands c) = Inr ()"
    using checkpoint_valid_command_ids(1) [OF valid] by (simp add: each_Inr command_advances_refl)
  have "follows Unchanged (core_of c) (core_of c') = Inr ()"
    using assms(2) operations commands
    by (simp add: follows_def c' fail_if_def context_unchanged_def run_monotone_def)
  then show ?thesis
    using next_valid checkpoint_valid_options [OF valid] expected
    by (simp add: validate_against_def commit_new_def commit_core_def Let_def delta delta_validate_def
        expected_revision_def fail_if_def) (simp add: c')
qed

end
