(* ===== verification/Policy_Properties.thy ===== *)
theory Policy_Properties
  imports Samples Policies Cancel_Waiters Runtime_Entry
begin

text \<open>
  The properties of the entry points of a run, of what surrounds an invocation (cancellation,
  observations, media pipes) and of the policies: each with an application to concrete values.
\<close>

section \<open>Entering a run\<close>

text \<open>
  C16: what \<open>start\<close> accepts, every store accepts. The first checkpoint of the execution is valid, its
  history is the accepted input, and the validator that all stores share lets it be the first commit of
  its run.
\<close>

theorem started_run_is_accepted:
  assumes "runtime_start H rt r = Inr q" and "ids n \<noteq> []" and "ids (n + 1) \<noteq> []"
    and "initial ids n q = (c, delta)"
  shows "validate_against H (commit_new c delta) None = Inr () \<and> checkpoint_validate c = Inr ()
    \<and> history_entries (cp_history c) = input_entries (rq_messages r)
    \<and> cp_options c = resolve_options (rq_overrides r) (rt_defaults rt)"
proof -
  have accepted: "validate_against H (commit_new c delta) None = Inr ()" by (rule started_accepted [OF assms])
  then have "checkpoint_validate c = Inr ()"
    by (auto simp: validate_against_def Let_def r_bind_Inr commit_new_def)
  moreover obtain h options where "q = RequestStart h (limit_deadline options (rq_context r)) options"
      "options = resolve_options (rq_overrides r) (rt_defaults rt)" and h: "history_new H (rq_messages r) = Inr h"
    using runtime_startD [OF assms(1)] by metis
  ultimately show ?thesis
    using accepted assms(4) history_append_ok [of H history_default _ h] by (auto simp: initial_def history_new_def)
qed

definition sample_runtime :: runtime where
  "sample_runtime = \<lparr>rt_defaults = default_run_options, rt_store = None\<rparr>"

definition sample_run_request :: run_request where
  "sample_run_request = run_request_new [User [Text ''hello'']] (run_context_new ''run'' 1)"

definition sample_accepted_request :: request where
  "sample_accepted_request = projr (runtime_start sample_ext sample_runtime sample_run_request)"

theorem started_run_is_accepted_witness:
  "validate_against sample_ext (commit_new (fst (initial counted_id 0 sample_accepted_request))
     (snd (initial counted_id 0 sample_accepted_request))) None = Inr ()"
proof -
  have "is_ok (runtime_start sample_ext sample_runtime sample_run_request)" by code_simp
  then have run: "runtime_start sample_ext sample_runtime sample_run_request = Inr sample_accepted_request"
    by (simp add: sample_accepted_request_def is_ok_def split: sum.splits)
  have ids: "counted_id 0 \<noteq> []" "counted_id (0 + 1) \<noteq> []" by (simp_all add: counted_id_def)
  show ?thesis
    using started_run_is_accepted [OF run ids, of "fst (initial counted_id 0 sample_accepted_request)"
        "snd (initial counted_id 0 sample_accepted_request)"] by simp
qed

text \<open>
  C17: what \<open>resume\<close> accepts, every store that still holds the resumed checkpoint accepts: the attached
  checkpoint is a valid successor of it. The checkpoint itself is suspended, and when the request names
  a ticket it is the head the store returned and the ticket is one of it.
\<close>

theorem resumed_run_is_accepted:
  assumes "runtime_resume rt r = Inr (RequestRecover c ms rs metadata)"
    and "om_ok (cp_operations c)" and "ids n \<noteq> []" and "cp_revision c \<noteq> - 1"
    and "initial ids n (RequestRecover c ms rs metadata) = (c', delta)"
  shows "validate_against H (commit_new c' delta) (Some (core_of c)) = Inr ()
    \<and> (\<exists>suspension. cp_state c = StSuspended suspension
        \<and> (\<forall>sel. rr_selector r = Some sel \<longrightarrow> selector_matches sel suspension)
        \<and> (\<forall>t. rr_target r = TargetTicket t \<longrightarrow> tk_suspension t = suspension \<and> tk_checkpoint_id t = cp_id c
             \<and> (\<exists>load. rt_store rt = Some load \<and> load (tk_run_id t) = Inr (Some c))))"
proof -
  obtain suspension where valid: "checkpoint_validate c = Inr ()" and state: "cp_state c = StSuspended suspension"
    and sel: "\<not> some_and (\<lambda>sel. \<not> selector_matches sel suspension) (rr_selector r)"
    and target: "resume_checkpoint rt (rr_target r) = Inr c"
    by (rule runtime_resumeD [OF assms(1)])
  have "validate_against H (commit_new c' delta) (Some (core_of c)) = Inr ()"
    by (rule attached_accepted [OF valid _ assms(2-5)]) (simp add: state state_terminal_def)
  moreover have "tk_suspension t = suspension \<and> tk_checkpoint_id t = cp_id c
      \<and> (\<exists>load. rt_store rt = Some load \<and> load (tk_run_id t) = Inr (Some c))" if "rr_target r = TargetTicket t" for t
    using target that state by (auto simp: resume_checkpoint_def r_bind_Inr ok_or_Inr ticket_check_iff)
  ultimately show ?thesis using state sel by (cases "rr_selector r") auto
qed

theorem resumed_run_is_accepted_witness:
  "validate_against sample_ext (commit_new (fst (initial counted_id 9 (RequestRecover sample_suspended [] [] [])))
     Unchanged) (Some (core_of sample_suspended)) = Inr ()"
proof -
  have "is_ok (runtime_resume sample_runtime (resume_request_new (TargetCheckpoint sample_suspended)))" by code_simp
  then have run: "runtime_resume sample_runtime (resume_request_new (TargetCheckpoint sample_suspended))
      = Inr (RequestRecover sample_suspended [] [] [])"
    by (auto simp: is_ok_def runtime_resume_def resume_checkpoint_def resume_request_new_def r_bind_Inr
        split: sum.splits run_state.splits if_splits)
  have parts: "om_ok (cp_operations sample_suspended)" "counted_id 9 \<noteq> []" "cp_revision sample_suspended \<noteq> - 1"
    by (simp_all add: sample_suspended_def sample_checkpoint_def initial_def sample_request_def counted_id_def)
  show ?thesis
    using resumed_run_is_accepted [where ids = counted_id and n = 9, OF run parts, of "fst (initial counted_id 9 (RequestRecover sample_suspended [] [] []))"
        Unchanged sample_ext] by (simp add: initial_def)
qed

section \<open>Around an invocation\<close>

text \<open>
  C18: a cancellation wakes everyone who waits for it. In every interleaving of futures that poll, are
  dropped and register themselves with callers of \<open>cancel\<close>, once the flag is set and no caller is still
  at work, every future whose last poll returned \<open>Pending\<close> has been woken since.
\<close>

theorem cancellation_loses_no_waiter:
  assumes "cancel_reaches s" and "cn_flag s" and "\<forall>c. cn_cancels s c \<in> {CancelFresh, CancelDone}"
    and "cn_polls s f = PollPending"
  shows "f \<in> cn_woken s"
  by (rule cancellation_wakes [OF assms])

definition sample_waiting :: cancellation where
  "sample_waiting = poll_register 7 (poll_retest 7 (poll_lock 7 (poll_test 7 cancellation_default)))"

definition sample_cancelled :: cancellation where
  "sample_cancelled = cancel_wake 1 {7} (cancel_take 1 (cancel_swap 1 sample_waiting))"

theorem cancellation_loses_no_waiter_witness: "7 \<in> cn_woken sample_cancelled"
proof (rule cancellation_loses_no_waiter)
  have waiting: "cancel_reaches sample_waiting"
    unfolding sample_waiting_def
    by (intro cancel_next [OF _ cstep_register] cancel_next [OF _ cstep_retest] cancel_next [OF _ cstep_lock]
        cancel_next [OF _ cstep_test] cancel_init)
      (simp_all add: cn_defs cancellation_default_def)
  have wakers: "ran (cn_wakers sample_waiting) = {7}"
    by (auto simp: sample_waiting_def cn_defs cancellation_default_def ran_def split: if_splits)
  have "cancel_reaches (cancel_swap 1 sample_waiting)"
    by (rule cancel_next [OF waiting cstep_swap]) (simp add: sample_waiting_def cn_defs cancellation_default_def)
  then have "cancel_reaches (cancel_take 1 (cancel_swap 1 sample_waiting))"
    by (rule cancel_next [OF _ cstep_take]) (simp_all add: sample_waiting_def cn_defs cancellation_default_def)
  then show "cancel_reaches sample_cancelled"
    unfolding sample_cancelled_def
    by (rule cancel_next [OF _ cstep_wake]) (simp add: cancel_take_def cancel_swap_def cn_cancel_def wakers)
qed (auto simp: sample_cancelled_def sample_waiting_def cn_defs cancellation_default_def)

text \<open>
  C19: an observer can account for everything. Whatever it takes and whenever, the observations sent to
  it carry increasing sequences of one run and invocation; without the gap reports they are what was
  emitted, in order, with some left out; and the reported gaps together with what is not reported yet
  count exactly what was left out.
\<close>

theorem observer_accounts_for_gaps:
  assumes "observes (observer_new run invocation capacity) s"
  shows "sorted_wrt (<) (map ob_sequence (sent_observations s))
    \<and> sublist_of (delivered s) (os_emitted s)
    \<and> length (os_emitted s) = length (delivered s) + reported_lost s + em_lost (os_emitter s)
    \<and> length (os_queue s) \<le> os_capacity s"
  using observes_ok [OF assms observer_new_ok] by (simp add: observed_ok_def)

definition sample_progress :: event_data where
  "sample_progress = OperationProgress ''op'' Null"

definition sample_observed :: observer_state where
  "sample_observed = emit sample_progress 0 (take_observed 2 (emit sample_progress 0 (emit sample_progress 0
     (emit sample_progress 0 (observer_new ''run'' ''invocation'' 2)))))"

theorem observer_accounts_for_gaps_witness:
  "length (os_emitted sample_observed) = length (delivered sample_observed) + reported_lost sample_observed
      + em_lost (os_emitter sample_observed) \<and> length (os_emitted sample_observed) = 4
    \<and> reported_lost sample_observed = 1"
proof -
  have "observes (observer_new ''run'' ''invocation'' 2) sample_observed"
    unfolding sample_observed_def
    by (intro observes_step [OF _ ostep_emit] observes_step [OF _ ostep_take] observes_refl)
      (simp_all add: sample_progress_def)
  moreover have "length (os_emitted sample_observed) = 4 \<and> reported_lost sample_observed = 1" by code_simp
  ultimately show ?thesis using observer_accounts_for_gaps by blast
qed

text \<open>
  A media pipe holds at most its budget of bytes, wherever the packets are: with senders that wait
  for a place, in the queue or with the receiver; no permit is lost, and its queue never exceeds the
  number of packets it was made for.
\<close>

theorem media_pipe_stays_in_budget:
  assumes "pipe_reaches (media_pipe_new limit packets max_chunk) p"
  shows "charged (mp_sending p) + charged (mp_queue p) + charged (mp_held p) \<le> limit
    \<and> mp_available p = limit - (charged (mp_sending p) + charged (mp_queue p) + charged (mp_held p))
    \<and> length (mp_queue p) \<le> mp_packets p"
  using pipe_reaches_ok [OF assms media_pipe_new_ok] by (auto simp: pipe_ok_def)

theorem media_pipe_stays_in_budget_witness:
  "\<exists>p. pipe_reaches (media_pipe_new 8 2 4) p \<and> charged (mp_sending p) = 3 \<and> mp_available p = 5"
proof -
  let ?c = "\<lparr>mc_stream_id = ''a'', mc_session_id = ''s'', mc_epoch = 0, mc_sequence = 1, mc_timestamp_us = 0,
    mc_media_type = ''audio/pcm'', mc_bytes = [1, 2, 3], mc_end = False\<rparr>"
  let ?p = "(media_pipe_new 8 2 4)\<lparr>mp_sending := [?c], mp_available := 5\<rparr>"
  have "pipe_admit ?c (media_pipe_new 8 2 4) = Some (Inr (), ?p)" by code_simp
  then have reach: "pipe_reaches (media_pipe_new 8 2 4) ?p" by (intro pipe_next [OF pipe_refl pstep_admit])
  have "charged (mp_sending ?p) = 3" by code_simp
  then show ?thesis using reach media_pipe_stays_in_budget [OF reach] by (intro exI [of _ ?p]) simp
qed

section \<open>Policies\<close>

text \<open>
  C20: a history window keeps whole turns. What it keeps are all system messages and everything from one
  user message on, with at least the configured number of turns, exactly that number without
  dependencies; it is shorter than before and a valid history; and it only reduces when no operation is
  unfinished.
\<close>

theorem window_keeps_turns:
  assumes "window_reduce H w c = Inr (Some (es, reason))" and "0 < hw_turns w"
  shows "\<exists>first. es = filter is_system (take first (history_entries (cp_history c))) @ drop first (history_entries (cp_history c))
    \<and> (first = 0 \<or> first < length (history_entries (cp_history c)) \<and> is_turn (history_entries (cp_history c) ! first))
    \<and> hw_turns w \<le> length (filter is_turn (drop first (history_entries (cp_history c))))
    \<and> (hw_dependencies w = None \<longrightarrow> length (filter is_turn (drop first (history_entries (cp_history c)))) = hw_turns w)
    \<and> length es < length (history_entries (cp_history c))
    \<and> (\<exists>h. history_from_entries H es = Inr h \<and> history_validate h = Inr ())
    \<and> (\<forall>op \<in> set (om_values (cp_operations c)). op_terminal (op_state op))"
  by (rule window_reduce_spec [OF assms])

definition sample_turn :: "string \<Rightarrow> message \<Rightarrow> history_entry" where
  "sample_turn i m = \<lparr>he_id = i, he_origin = None, he_message = m\<rparr>"

definition sample_turns :: "history_entry list" where
  "sample_turns = [sample_turn ''1'' (System [Text ''be brief'']), sample_turn ''2'' (User [Text ''hello'']),
     sample_turn ''3'' (Assistant [OutputContent (Text ''hi'')] Null), sample_turn ''4'' (User [Text ''more''])]"

definition sample_answered :: checkpoint where
  "sample_answered = map_session (\<lambda>s. s\<lparr>ss_response_status := Some RespCompleted\<rparr>)
     (sample_checkpoint\<lparr>cp_history := projr (history_from_entries sample_ext sample_turns)\<rparr>)"

definition sample_window :: history_window where
  "sample_window = \<lparr>hw_turns = 1, hw_dependencies = None\<rparr>"

theorem window_keeps_turns_witness:
  "\<exists>reason. window_reduce sample_ext sample_window sample_answered
      = Inr (Some ([sample_turn ''1'' (System [Text ''be brief'']), sample_turn ''4'' (User [Text ''more''])], reason))
    \<and> (\<exists>h. history_from_entries sample_ext [sample_turn ''1'' (System [Text ''be brief'']), sample_turn ''4'' (User [Text ''more''])] = Inr h
        \<and> history_validate h = Inr ())"
proof -
  have run: "window_reduce sample_ext sample_window sample_answered
      = Inr (Some ([sample_turn ''1'' (System [Text ''be brief'']), sample_turn ''4'' (User [Text ''more''])], window_reason 1))"
    by code_simp
  have "0 < hw_turns sample_window" by (simp add: sample_window_def)
  from window_keeps_turns [OF run this] run show ?thesis by blast
qed

text \<open>
  C21: a negotiation keeps its promises. A required value is selected and supported, or the negotiation
  fails. A preferred value is selected when it is supported; otherwise it is recorded as unmet, and what
  is selected in its place is the first of the explicit alternatives that is supported, if there is one.
  Resources with a required fidelity are served by their modality, and none needs a transform.
\<close>

theorem negotiation_honours_requirements:
  assumes "negotiate request caps = Inr p"
  shows "model_request_validate request caps = Inr ()
    \<and> honoured (rp_alternatives (mr_profile request)) (cap_constraints caps) ''serving''
        (map_option (map_requirement serving_json) (rp_serving (mr_profile request))) p
    \<and> honoured (rp_alternatives (mr_profile request)) (cap_constraints caps) ''reasoning''
        (map_option (map_requirement reasoning_json) (rp_reasoning (mr_profile request))) p
    \<and> honoured (rp_alternatives (mr_profile request)) (cap_constraints caps) ''language''
        (map_option (map_requirement String) (rp_language (mr_profile request))) p
    \<and> honoured (rp_alternatives (mr_profile request))
        (om_insert ''interaction'' (interaction_values caps) (cap_constraints caps)) ''interaction''
        (map_option (map_requirement interaction_json) (rp_interaction (mr_profile request))) p
    \<and> (\<forall>m \<in> set (mr_messages request). \<forall>c \<in> set (message_contents m). content_served (cap_constraints caps) c)"
  by (rule negotiate_spec [OF assms])

definition sample_demand :: model_request where
  "sample_demand = \<lparr>mr_messages = [User [Text ''hello'']], mr_runtime_tools = [], mr_provider_tools = [],
     mr_profile = sample_profile\<lparr>rp_serving := Some (Required ServingLowCost),
       rp_reasoning := Some (Preferred ReasoningHigh),
       rp_alternatives := [(''reasoning'', [String ''medium'', String ''low''])]\<rparr>,
     mr_tool_choice = ChoiceAuto, mr_response_format = None, mr_stream = False\<rparr>"

definition sample_offer :: capability_set where
  "sample_offer = sample_capabilities\<lparr>cap_constraints :=
     [(''reasoning'', [String ''low'']), (''serving'', [String ''low_cost''])]\<rparr>"

definition sample_agreement :: negotiated_profile where
  "sample_agreement = \<lparr>np_selected = [(''reasoning'', String ''low''), (''serving'', String ''low_cost'')],
     np_unmet_preferences = [(''reasoning'', ''requested value unavailable'')]\<rparr>"

theorem negotiation_honours_requirements_witness:
  "honoured [(''reasoning'', [String ''medium'', String ''low''])] (cap_constraints sample_offer) ''reasoning''
     (Some (Preferred (String ''high''))) sample_agreement"
proof -
  have run: "negotiate sample_demand sample_offer = Inr sample_agreement" by code_simp
  show ?thesis
    using negotiation_honours_requirements [OF run] by (simp add: sample_demand_def sample_profile_def)
qed

text \<open>
  The exponential backoff in 128-bit arithmetic is the mathematical one. For every attempt before
  the last of the budget the delay is the initial one doubled for each failure, cut at the maximum; the
  attempt that ends the budget has none.
\<close>

theorem backoff_is_exponential:
  assumes "backoff_exponential base maximum = Inr b" and "duration_ok maximum"
  shows "delay_after \<lparr>rt_max_attempts = attempts, rt_backoff = b\<rparr> n
    = (if 0 < n \<and> n < attempts then Some (min (base * 2 ^ (n - 1)) maximum) else None)"
  using assms exponential_delay_exact [of base maximum n]
  by (auto simp: backoff_exponential_def delay_after_def split: if_splits)

theorem backoff_is_exponential_witness:
  "delay_after \<lparr>rt_max_attempts = 400, rt_backoff = exponential_delay 3 (10 ^ 12)\<rparr> 300 = Some (10 ^ 12)"
proof -
  have "(2::nat) ^ 50 \<le> 2 ^ 299" by (intro power_increasing) simp_all
  then have "(10::nat) ^ 12 \<le> 3 * 2 ^ 299" by simp
  then show ?thesis
    using backoff_is_exponential [of 3 "10 ^ 12" "exponential_delay 3 (10 ^ 12)" 400 300]
    by (simp add: backoff_exponential_def duration_ok_def min_def)
qed

text \<open>
  Waiting between attempts ends. On a clock that does not go back and passes every instant, \<open>wait\<close>
  returns, also when its timer wakes it early: after the delay has passed, or with the cancellation, the
  deadline or the range of the clock as its error.
\<close>

theorem retry_wait_ends:
  assumes "mono (tm_now t)" and "\<And>i. \<exists>k. i \<le> tm_now t k"
  shows "\<exists>r s'. timing_wait t delay deadline s = Some (r, s')
    \<and> (case r of Inr _ \<Rightarrow> \<exists>m n. tm_now t m + delay \<le> tm_now t n \<and> n < fst s'
       | Inl err \<Rightarrow> err \<in> {Cancelled, Deadline, Invalid ''retry delay exceeds clock range''})"
proof -
  obtain r0 s0 where check: "timing_check t deadline s = (r0, s0)" by (cases "timing_check t deadline s")
  note facts = timing_check_cases [of t deadline "fst s" "snd s" r0 s0]
  let ?till = "tm_now t (fst s0) + delay"
  obtain k where "?till \<le> tm_now t k" using assms(2) by blast
  from wait_loop_ends [OF assms(1) this] obtain r s' where
    loop: "wait_loop t deadline ?till (fst s0 + 1, snd s0) = Some (r, s')" by blast
  show ?thesis
  proof (cases "r0 = Inr () \<and> ?till \<le> tm_range t")
    case True
    then show ?thesis
      using wait_loop_result [OF loop] loop check
      by (cases r) (auto simp: timing_wait_def waited_def)
  next
    case False
    then show ?thesis using facts check by (cases r0) (auto simp: timing_wait_def Let_def)
  qed
qed

theorem retry_wait_ends_witness:
  "\<exists>r s'. timing_wait \<lparr>tm_now = (\<lambda>k. 10 * k), tm_cancelled = (\<lambda>_. False), tm_range = 1000\<rparr> 35 None (0, 0) = Some (r, s')"
proof -
  let ?t = "\<lparr>tm_now = (\<lambda>k. 10 * k), tm_cancelled = (\<lambda>_. False), tm_range = 1000\<rparr>"
  have "mono (tm_now ?t)" by (simp add: mono_def)
  moreover have "\<exists>k. i \<le> tm_now ?t k" for i by (intro exI [of _ i]) simp
  ultimately show ?thesis using retry_wait_ends [of ?t 35 None "(0, 0)"] by blast
qed

end
