(* ===== verification/Resource_Contract.thy ===== *)
theory Resource_Contract
  imports Commit
begin

text \<open>
  What a resource store promises (\<open>ResourceStore\<close>, \<open>ResourceWriter\<close> and \<open>ResourceReader\<close> of
  \<open>zhir-core/src/resource.rs\<close>) as the locale \<open>resource_store\<close>, with the references of stored
  resources and the loop of \<open>read_node\<close> (\<open>zhir-storage/src/resources.rs\<close>), the client that reads a
  whole resource in pieces. The lemmas of the locale are proved once for every store: reading ends,
  returns exactly the bytes that were put, and goes on returning them whatever is put later.
\<close>

section \<open>Keys and references\<close>

definition rs_validate :: "string \<Rightarrow> string \<Rightarrow> unit result" where
  "rs_validate key media_type =
     fail_if (key = [] \<or> media_type = []) (Invalid ''resource key and media type required'')"

definition stored_key :: "resource_ref \<Rightarrow> string result" where
  "stored_key reference = r_bind (resource_ref_validate reference) (\<lambda>_.
     case res_source reference of
       Stored key \<Rightarrow> Inr key
     | _ \<Rightarrow> Inl (Invalid ''resource is not stored''))"

definition stored_reference :: "string \<Rightarrow> string \<Rightarrow> string \<Rightarrow> resource_ref" where
  "stored_reference ident key media_type =
     \<lparr>res_id = ident, res_media_type = media_type, res_name = None, res_source = Stored key,
      res_metadata = []\<rparr>"

lemma stored_key_Inr:
  "stored_key r = Inr k \<longleftrightarrow> res_source r = Stored k \<and> k \<noteq> [] \<and> res_id r \<noteq> [] \<and> res_media_type r \<noteq> []"
  by (auto simp: stored_key_def resource_ref_validate_def fail_if_def
      split: resource_source.splits)

lemma stored_reference_sel [simp]:
  "res_source (stored_reference i k mt) = Stored k"
  "res_media_type (stored_reference i k mt) = mt"
  "res_id (stored_reference i k mt) = i"
  by (simp_all add: stored_reference_def)

lemma stored_key_reference:
  "stored_key (stored_reference i k mt) = Inr k' \<longleftrightarrow> k' = k \<and> k \<noteq> [] \<and> i \<noteq> [] \<and> mt \<noteq> []"
  by (auto simp: stored_key_Inr)

lemma rs_validate_Inr: "rs_validate key mt = Inr u \<longleftrightarrow> key \<noteq> [] \<and> mt \<noteq> []"
  by (simp add: rs_validate_def fail_if_Inr)

section \<open>Reading a whole resource\<close>

text \<open>
  The loop of \<open>read_node\<close>: pieces of 4096 bytes until an empty one, with a limit on the total.
  \<open>None\<close> is a panic of the reader.
\<close>

function (sequential) drain ::
  "(nat \<Rightarrow> 'r \<Rightarrow> (bytes result \<times> 'r) option) \<Rightarrow> nat \<Rightarrow> 'r \<Rightarrow> bytes \<Rightarrow> bytes result option" where
  "drain rd limit r bs = (case rd 4096 r of
       None \<Rightarrow> None
     | Some (Inl e, _) \<Rightarrow> Some (Inl e)
     | Some (Inr chunk, r') \<Rightarrow>
         if chunk = [] then Some (Inr bs)
         else if limit < length (bs @ chunk) then Some (Inl (Invalid ''media node exceeds 1 MiB''))
         else drain rd limit r' (bs @ chunk))"
  by pat_completeness auto

termination
  by (relation "measure (\<lambda>(rd, limit, r, bs). limit - length bs)")
     (auto simp: neq_Nil_conv)

declare drain.simps [simp del]

definition fetch_bytes :: "(resource_ref \<Rightarrow> 'r result) \<Rightarrow> (nat \<Rightarrow> 'r \<Rightarrow> (bytes result \<times> 'r) option)
    \<Rightarrow> nat \<Rightarrow> resource_ref \<Rightarrow> bytes result option" where
  "fetch_bytes op rd limit reference = (case op reference of
       Inl e \<Rightarrow> Some (Inl e)
     | Inr r \<Rightarrow> drain rd limit r [])"

definition node_limit :: nat where
  "node_limit = 2 ^ 20"

definition read_node :: "(resource_ref \<Rightarrow> 'r result) \<Rightarrow> (nat \<Rightarrow> 'r \<Rightarrow> (bytes result \<times> 'r) option)
    \<Rightarrow> (bytes \<Rightarrow> string + 'a) \<Rightarrow> resource_ref \<Rightarrow> 'a result option" where
  "read_node op rd parse reference = (case fetch_bytes op rd node_limit reference of
       None \<Rightarrow> None
     | Some (Inl e) \<Rightarrow> Some (Inl e)
     | Some (Inr bs) \<Rightarrow> Some (case parse bs of
           Inl m \<Rightarrow> Inl (Invalid (''invalid media node: '' @ m))
         | Inr node \<Rightarrow> Inr node))"

section \<open>The contract\<close>

locale resource_store =
  fixes store_ok :: "'s \<Rightarrow> bool"
    and lookup :: "'s \<Rightarrow> string \<Rightarrow> (string \<times> bytes) option"
    and key_name :: "'s \<Rightarrow> string \<Rightarrow> string"
    and faithful :: "'s \<Rightarrow> string \<Rightarrow> string \<Rightarrow> bytes list \<Rightarrow> bool"
    and put :: "'f \<Rightarrow> string \<Rightarrow> string \<Rightarrow> bytes list \<Rightarrow> 's \<Rightarrow> resource_ref result \<times> 's"
    and open_at :: "'f \<Rightarrow> 's \<Rightarrow> resource_ref \<Rightarrow> 'r result"
    and read_some :: "'f \<Rightarrow> nat \<Rightarrow> 'r \<Rightarrow> (bytes result \<times> 'r) option"
    and remaining :: "'r \<Rightarrow> bytes"
    and reader_ok :: "'r \<Rightarrow> bool"
    and remove :: "'f \<Rightarrow> resource_ref \<Rightarrow> 's \<Rightarrow> unit result \<times> 's"
    and quiet :: "'f \<Rightarrow> bool"
  assumes put_ok: "store_ok s \<Longrightarrow> put f key mt chunks s = (x, s') \<Longrightarrow> store_ok s'"
    and put_stores: "store_ok s \<Longrightarrow> put f key mt chunks s = (Inr ref, s') \<Longrightarrow> faithful s key mt chunks
      \<Longrightarrow> stored_key ref = Inr (key_name s key) \<and> res_media_type ref = mt
        \<and> lookup s' (key_name s key) = Some (mt, concat chunks)"
    and put_keeps: "store_ok s \<Longrightarrow> put f key mt chunks s = (x, s') \<Longrightarrow> lookup s k = Some v \<Longrightarrow> lookup s' k = Some v"
    and put_frame: "store_ok s \<Longrightarrow> put f key mt chunks s = (x, s') \<Longrightarrow> k \<noteq> key_name s key \<Longrightarrow> lookup s' k = lookup s k"
    and open_finds: "store_ok s \<Longrightarrow> open_at f s ref = Inr r \<Longrightarrow> reader_ok r
      \<and> (\<exists>k. stored_key ref = Inr k \<and> lookup s k = Some (res_media_type ref, remaining r))"
    and open_quiet: "store_ok s \<Longrightarrow> quiet f \<Longrightarrow> stored_key ref = Inr k
      \<Longrightarrow> lookup s k = Some (res_media_type ref, bs) \<Longrightarrow> is_ok (open_at f s ref)"
    and read_piece: "reader_ok r \<Longrightarrow> 0 < n \<Longrightarrow> read_some f n r = Some (Inr piece, r')
      \<Longrightarrow> reader_ok r' \<and> remaining r = piece @ remaining r' \<and> length piece \<le> n \<and> (piece = [] \<longrightarrow> remaining r = [])"
    and read_total: "reader_ok r \<Longrightarrow> 0 < n \<Longrightarrow> read_some f n r \<noteq> None"
    and read_quiet: "reader_ok r \<Longrightarrow> 0 < n \<Longrightarrow> quiet f \<Longrightarrow> read_some f n r = Some (z, r') \<Longrightarrow> is_ok z"
    and remove_ok: "store_ok s \<Longrightarrow> remove f ref s = (y, s') \<Longrightarrow> store_ok s'"
    and remove_frame: "store_ok s \<Longrightarrow> remove f ref s = (y, s') \<Longrightarrow> res_source ref \<noteq> Stored k \<Longrightarrow> lookup s' k = lookup s k"
    and remove_gone: "store_ok s \<Longrightarrow> remove f ref s = (Inr (), s') \<Longrightarrow> res_source ref = Stored k \<Longrightarrow> lookup s' k = None"
begin

lemma drain_total: "reader_ok r \<Longrightarrow> drain (read_some f) limit r bs \<noteq> None"
proof (induction "read_some f" limit r bs rule: drain.induct)
  case (1 limit r bs)
  obtain x r' where read: "read_some f 4096 r = Some (x, r')"
    using read_total [of r 4096 f] 1(2) by fastforce
  show ?case
  proof (cases x)
    case (Inr chunk)
    then have "reader_ok r'" using read_piece [OF 1(2), of 4096 f chunk r'] read by simp
    then show ?thesis
      using 1(1) [OF read refl Inr] by (subst drain.simps) (simp add: read Inr del: length_append)
  qed (subst drain.simps, simp add: read)
qed

lemma drain_exact:
  "reader_ok r \<Longrightarrow> drain (read_some f) limit r bs = Some (Inr whole) \<Longrightarrow> whole = bs @ remaining r"
proof (induction "read_some f" limit r bs rule: drain.induct)
  case (1 limit r bs)
  obtain chunk r' where read: "read_some f 4096 r = Some (Inr chunk, r')"
    using 1(3) by (subst (asm) drain.simps) (auto split: option.splits sum.splits)
  note piece = read_piece [OF 1(2) _ read]
  show ?case
    using 1(1) [OF read refl refl] 1(3) piece
    by (subst (asm) drain.simps) (auto simp: read split: if_splits)
qed

lemma drain_quiet:
  "reader_ok r \<Longrightarrow> quiet f \<Longrightarrow> length bs + length (remaining r) \<le> limit
    \<Longrightarrow> drain (read_some f) limit r bs = Some (Inr (bs @ remaining r))"
proof (induction "read_some f" limit r bs rule: drain.induct)
  case (1 limit r bs)
  obtain x r' where xread: "read_some f 4096 r = Some (x, r')"
    using read_total [of r 4096 f] 1(2) by fastforce
  obtain chunk where x: "x = Inr chunk"
    using read_quiet [OF 1(2) _ 1(3) xread] by (cases x) auto
  note read = xread [unfolded x]
  note piece = read_piece [OF 1(2) _ read]
  show ?case
    using 1(1) [OF read refl refl] 1(3,4) piece
    by (subst drain.simps) (auto simp: read)
qed

lemma fetch_sound:
  assumes "store_ok s" and "fetch_bytes (open_at f s) (read_some g) limit ref = Some (Inr bs)"
  shows "\<exists>k. stored_key ref = Inr k \<and> lookup s k = Some (res_media_type ref, bs)"
proof -
  obtain r where "open_at f s ref = Inr r" and "drain (read_some g) limit r [] = Some (Inr bs)"
    using assms(2) by (auto simp: fetch_bytes_def split: sum.splits)
  then show ?thesis using open_finds [OF assms(1)] drain_exact by fastforce
qed

lemma fetch_total: "store_ok s \<Longrightarrow> fetch_bytes (open_at f s) (read_some g) limit ref \<noteq> None"
  using drain_total open_finds by (auto simp: fetch_bytes_def split: sum.splits)

lemma fetch_complete:
  assumes "store_ok s" "quiet f" "quiet g" "stored_key ref = Inr k"
    and "lookup s k = Some (res_media_type ref, bs)" "length bs \<le> limit"
  shows "fetch_bytes (open_at f s) (read_some g) limit ref = Some (Inr bs)"
proof -
  obtain r where r: "open_at f s ref = Inr r"
    using open_quiet [OF assms(1,2,4,5)] by (cases "open_at f s ref") auto
  then have "reader_ok r" "remaining r = bs"
    using open_finds [OF assms(1) r] assms(4,5) by auto
  then show ?thesis using drain_quiet [of r g "[]" limit] assms(3,6) by (simp add: fetch_bytes_def r)
qed

text \<open>Later writes, with any faults, and what they leave of a stored resource.\<close>

lemma later_puts_keep:
  assumes "store_ok s" and "lookup s k = Some v"
  shows "store_ok (fold (\<lambda>(f, key, mt, chunks) s. snd (put f key mt chunks s)) ps s)
    \<and> lookup (fold (\<lambda>(f, key, mt, chunks) s. snd (put f key mt chunks s)) ps s) k = Some v"
  using assms
proof (induction ps arbitrary: s)
  case (Cons p ps)
  obtain f key mt chunks where p: "p = (f, key, mt, chunks)" by (cases p)
  obtain x s' where put: "put f key mt chunks s = (x, s')" by (cases "put f key mt chunks s")
  show ?case
    using Cons.IH [of s'] put_ok [OF Cons.prems(1) put] put_keeps [OF Cons.prems(1) put Cons.prems(2)]
    by (simp add: p put)
qed simp

lemma put_then_fetch:
  assumes "store_ok s" and "put f key mt chunks s = (Inr ref, s')" and "faithful s key mt chunks"
    and "quiet g" "quiet h" and "length (concat chunks) \<le> limit"
  shows "fetch_bytes (open_at g (fold (\<lambda>(f, key, mt, chunks) s. snd (put f key mt chunks s)) ps s'))
      (read_some h) limit ref = Some (Inr (concat chunks))"
proof -
  note stored = put_stores [OF assms(1-3)]
  note later = later_puts_keep [OF put_ok [OF assms(1,2)], of "key_name s key" "(mt, concat chunks)" ps]
  show ?thesis
    using fetch_complete [OF _ assms(4,5), of _ ref "key_name s key" "concat chunks"] stored later assms(6) by simp
qed

lemma put_twice:
  assumes "store_ok s" and "lookup s (key_name s key) = Some v"
    and "put f key mt chunks s = (Inr ref, s')" and "faithful s key mt chunks"
  shows "v = (mt, concat chunks)"
  using put_stores [OF assms(1,3,4)] put_keeps [OF assms(1,3,2)] by simp

end

end
