(* ===== verification/Resource_Stores.thy ===== *)
theory Resource_Stores
  imports Resource_Contract
begin

text \<open>
  The resource stores of \<open>zhir-storage/src/resources.rs\<close>: \<open>MemoryResourceStore\<close> and
  \<open>FilesystemResourceStore\<close>, with the writers that collect a resource chunk by chunk and the
  readers that return it in pieces of at most a given size. Both keep the contract of the locale
  \<open>resource_store\<close>, stated over the view \<open>lookup\<close> (stored key to media type and bytes): what a
  finished writer stored is what every later reader returns, no write changes a stored resource, and
  a delete touches one key. The system calls of the filesystem store may fail at any point: \<open>fault\<close>
  gives, for the n-th call of an operation, the message and, for a write, how many bytes reached the
  file before it.
\<close>

section \<open>The store in memory\<close>

record stored =
  sto_media_type :: string
  sto_chunks :: "bytes list"

type_synonym memory_store = "(string, stored) omap"

record memory_writer =
  mw_key :: string
  mw_media_type :: string
  mw_chunks :: "bytes list"
  mw_sequence :: u64

definition mem_create :: "string \<Rightarrow> string \<Rightarrow> memory_writer result" where
  "mem_create key media_type = r_bind (rs_validate key media_type) (\<lambda>_.
     Inr \<lparr>mw_key = key, mw_media_type = media_type, mw_chunks = [], mw_sequence = 0\<rparr>)"

definition mem_append :: "u64 \<Rightarrow> bytes \<Rightarrow> memory_writer \<Rightarrow> unit result \<times> memory_writer" where
  "mem_append sequence bs w =
     (if sequence \<noteq> mw_sequence w then (Inl (Invalid ''resource chunk sequence mismatch''), w)
      else (Inr (), w\<lparr>mw_chunks := mw_chunks w @ [bs], mw_sequence := mw_sequence w + 1\<rparr>))"

definition mem_finish :: "memory_writer \<Rightarrow> memory_store \<Rightarrow> resource_ref result \<times> memory_store" where
  "mem_finish w m =
     (let stored = \<lparr>sto_media_type = mw_media_type w, sto_chunks = mw_chunks w\<rparr>;
          done = Inr (stored_reference (mw_key w) (mw_key w) (mw_media_type w)) in
      case om_get m (mw_key w) of
        Some old \<Rightarrow>
          if sto_media_type old \<noteq> sto_media_type stored
             \<or> concat (sto_chunks old) \<noteq> concat (sto_chunks stored)
          then (Inl (Resource (ResourceConflict (mw_key w))), m) else (done, m)
      | None \<Rightarrow> (done, om_insert (mw_key w) stored m))"

record memory_reader =
  mr_chunks :: "bytes list"
  mr_index :: nat
  mr_offset :: nat

definition mem_open :: "memory_store \<Rightarrow> resource_ref \<Rightarrow> memory_reader result" where
  "mem_open m reference = r_bind (stored_key reference) (\<lambda>key.
     r_bind (ok_or (Resource (ResourceNotFound key)) (om_get m key)) (\<lambda>stored.
     if sto_media_type stored \<noteq> res_media_type reference
     then Inl (Invalid ''resource media type mismatch'')
     else Inr \<lparr>mr_chunks = sto_chunks stored, mr_index = 0, mr_offset = 0\<rparr>))"

definition mem_res_delete :: "resource_ref \<Rightarrow> memory_store \<Rightarrow> unit result \<times> memory_store" where
  "mem_res_delete reference m = (case stored_key reference of
       Inl e \<Rightarrow> (Inl e, m)
     | Inr key \<Rightarrow> (Inr (), om_remove key m))"

text \<open>
  The loop of \<open>MemoryReader::read\<close> over the current chunk and offset. \<open>None\<close> is the panic of
  \<open>chunk.len() - self.offset\<close> when the offset lies behind the chunk.
\<close>

function (sequential) mem_read_loop ::
  "nat \<Rightarrow> bytes list \<Rightarrow> nat \<Rightarrow> nat \<Rightarrow> bytes \<Rightarrow> (bytes \<times> nat \<times> nat) option" where
  "mem_read_loop max_bytes chunks index offset result =
     (if index < length chunks \<and> length result < max_bytes then
        let chunk = chunks ! index in
        if length chunk < offset then None
        else
          let count = min (length chunk - offset) (max_bytes - length result);
              result' = result @ take count (drop offset chunk);
              offset' = offset + count in
          if offset' = length chunk then mem_read_loop max_bytes chunks (index + 1) 0 result'
          else mem_read_loop max_bytes chunks index offset' result'
      else Some (result, index, offset))"
  by pat_completeness auto

termination
  by (relation "measures [\<lambda>(m, cs, i, off, out). length cs - i, \<lambda>(m, cs, i, off, out). m - length out]")
     (auto simp: min_def split: if_splits)

declare mem_read_loop.simps [simp del]

definition mem_read :: "nat \<Rightarrow> memory_reader \<Rightarrow> (bytes result \<times> memory_reader) option" where
  "mem_read max_bytes r =
     (if max_bytes = 0 then Some (Inl (Invalid ''read size must be positive''), r)
      else map_option (\<lambda>(bs, i, off). (Inr bs, r\<lparr>mr_index := i, mr_offset := off\<rparr>))
             (mem_read_loop max_bytes (mr_chunks r) (mr_index r) (mr_offset r) []))"

text \<open>What a reader has not returned yet, and the invariant of its position.\<close>

definition unread :: "bytes list \<Rightarrow> nat \<Rightarrow> nat \<Rightarrow> bytes" where
  "unread chunks index offset = drop offset (concat (drop index chunks))"

definition position_ok :: "bytes list \<Rightarrow> nat \<Rightarrow> nat \<Rightarrow> bool" where
  "position_ok chunks index offset \<longleftrightarrow>
     (if index < length chunks then offset \<le> length (chunks ! index) else offset = 0)"

lemma unread_start [simp]: "unread chunks 0 0 = concat chunks"
  by (simp add: unread_def)

lemma unread_end [simp]: "length chunks \<le> index \<Longrightarrow> unread chunks index offset = []"
  by (simp add: unread_def)

lemma unread_chunk:
  assumes "index < length chunks" "offset \<le> length (chunks ! index)"
  shows "unread chunks index offset = drop offset (chunks ! index) @ unread chunks (index + 1) 0"
  using assms by (simp add: unread_def Cons_nth_drop_Suc [symmetric])

lemma unread_within:
  assumes "index < length chunks" "offset + n \<le> length (chunks ! index)"
  shows "unread chunks index (offset + n) = drop n (unread chunks index offset)"
  using assms by (simp add: unread_chunk ac_simps)

lemma mem_read_loop_spec:
  assumes "position_ok chunks index offset"
  shows "\<exists>index' offset'. mem_read_loop m chunks index offset out
      = Some (out @ take (m - length out) (unread chunks index offset), index', offset')
    \<and> position_ok chunks index' offset'
    \<and> unread chunks index' offset' = drop (m - length out) (unread chunks index offset)"
  using assms
proof (induction m chunks index offset out rule: mem_read_loop.induct)
  case (1 m chunks index offset out)
  show ?case
  proof (cases "index < length chunks \<and> length out < m")
    case True
    let ?chunk = "chunks ! index" and ?rest = "unread chunks (index + 1) 0"
    let ?count = "min (length ?chunk - offset) (m - length out)"
    let ?out = "out @ take ?count (drop offset ?chunk)"
    have off: "offset \<le> length ?chunk" using 1(3) True by (simp add: position_ok_def)
    have noff: "\<not> length ?chunk < offset" using off by simp
    have here: "unread chunks index offset = drop offset ?chunk @ ?rest"
      using unread_chunk True off by blast
    have step: "mem_read_loop m chunks index offset out =
        (if offset + ?count = length ?chunk then mem_read_loop m chunks (index + 1) 0 ?out
         else mem_read_loop m chunks index (offset + ?count) ?out)"
      using True off by (subst mem_read_loop.simps) (simp add: Let_def)
    show ?thesis
    proof (cases "offset + ?count = length ?chunk")
      case end_of_chunk: True
      have "position_ok chunks (index + 1) 0" by (simp add: position_ok_def)
      from 1(1) [OF True refl noff refl refl refl end_of_chunk this]
      show ?thesis using off end_of_chunk
        by (auto simp: step here min_def split: if_splits)
    next
      case inside: False
      then have count: "?count = m - length out" and lt: "offset + ?count < length ?chunk"
        using off by (auto simp: min_def split: if_splits)
      have "position_ok chunks index (offset + ?count)"
        using lt True by (simp add: position_ok_def)
      note IH = 1(2) [OF True refl noff refl refl refl inside this]
      have "unread chunks index (offset + ?count) = drop ?count (unread chunks index offset)"
        using True lt by (intro unread_within) simp_all
      moreover have "take ?count (drop offset ?chunk) = take (m - length out) (unread chunks index offset)"
        using lt off count by (simp add: here)
      moreover have full: "m - length ?out = 0"
        using lt count by simp
      moreover have "mem_read_loop m chunks index offset out = mem_read_loop m chunks index (offset + ?count) ?out"
        using inside by (simp only: step if_False)
      ultimately show ?thesis
        using IH count by (simp only: full count take0 drop0 append_Nil2)
    qed
  next
    case False
    then show ?thesis using 1(3)
      by (subst mem_read_loop.simps) (auto simp: position_ok_def)
  qed
qed

definition mr_ok :: "memory_reader \<Rightarrow> bool" where
  "mr_ok r = position_ok (mr_chunks r) (mr_index r) (mr_offset r)"

definition mr_unread :: "memory_reader \<Rightarrow> bytes" where
  "mr_unread r = unread (mr_chunks r) (mr_index r) (mr_offset r)"

lemma mem_read_spec:
  assumes "mr_ok r" and "0 < m"
  shows "\<exists>r'. mem_read m r = Some (Inr (take m (mr_unread r)), r')
    \<and> mr_ok r' \<and> mr_unread r' = drop m (mr_unread r)"
  using assms mem_read_loop_spec [of "mr_chunks r" "mr_index r" "mr_offset r" m "[]"]
  by (auto simp: mem_read_def mr_ok_def mr_unread_def)

lemma mem_open_unread:
  "mem_open m ref = Inr r \<longleftrightarrow> (\<exists>key stored. stored_key ref = Inr key \<and> om_get m key = Some stored
     \<and> sto_media_type stored = res_media_type ref
     \<and> r = \<lparr>mr_chunks = sto_chunks stored, mr_index = 0, mr_offset = 0\<rparr>)"
  by (auto simp: mem_open_def result_simps)

lemma mem_open_ready:
  "mem_open m ref = Inr r \<Longrightarrow> mr_ok r
     \<and> (\<exists>key stored. stored_key ref = Inr key \<and> om_get m key = Some stored \<and> mr_unread r = concat (sto_chunks stored))"
  by (auto simp: mem_open_unread mr_ok_def mr_unread_def position_ok_def)

subsection \<open>Its contract\<close>

text \<open>
  Storing a whole resource, as the clients of a store do: create a writer, append the chunks in
  order from sequence 0, finish.
\<close>

fun mem_append_all :: "u64 \<Rightarrow> bytes list \<Rightarrow> memory_writer \<Rightarrow> unit result \<times> memory_writer" where
  "mem_append_all sequence [] w = (Inr (), w)"
| "mem_append_all sequence (bs # chunks) w = (case mem_append sequence bs w of
       (Inl e, w') \<Rightarrow> (Inl e, w')
     | (Inr _, w') \<Rightarrow> mem_append_all (sequence + 1) chunks w')"

definition mem_put ::
  "unit \<Rightarrow> string \<Rightarrow> string \<Rightarrow> bytes list \<Rightarrow> memory_store \<Rightarrow> resource_ref result \<times> memory_store" where
  "mem_put u key media_type chunks m = (case mem_create key media_type of
       Inl e \<Rightarrow> (Inl e, m)
     | Inr w \<Rightarrow> (case mem_append_all 0 chunks w of
           (Inl e, _) \<Rightarrow> (Inl e, m)
         | (Inr _, w') \<Rightarrow> mem_finish w' m))"

definition mem_lookup :: "memory_store \<Rightarrow> string \<Rightarrow> (string \<times> bytes) option" where
  "mem_lookup m key =
     map_option (\<lambda>stored. (sto_media_type stored, concat (sto_chunks stored))) (om_get m key)"

lemma mem_append_all_runs:
  "mw_sequence w = n \<Longrightarrow> \<exists>n'. mem_append_all n chunks w
     = (Inr (), w\<lparr>mw_chunks := mw_chunks w @ chunks, mw_sequence := n'\<rparr>)"
proof (induction chunks arbitrary: n w)
  case Nil
  then show ?case by (intro exI [of _ n]) simp
next
  case (Cons bs chunks)
  then show ?case
    using Cons.IH [of "w\<lparr>mw_chunks := mw_chunks w @ [bs], mw_sequence := n + 1\<rparr>" "n + 1"]
    by (simp add: mem_append_def)
qed

lemma mem_put_cases:
  assumes "mem_put u key mt chunks m = (x, m')"
  obtains (refused) e where "x = Inl e" "m' = m"
  | (same) old where "key \<noteq> []" "mt \<noteq> []" "x = Inr (stored_reference key key mt)" "m' = m" "om_get m key = Some old"
      "sto_media_type old = mt" "concat (sto_chunks old) = concat chunks"
  | (new) "key \<noteq> []" "mt \<noteq> []" "x = Inr (stored_reference key key mt)" "om_get m key = None"
      "m' = om_insert key \<lparr>sto_media_type = mt, sto_chunks = chunks\<rparr> m"
proof (cases "rs_validate key mt")
  case (Inl e)
  then show ?thesis using assms refused by (auto simp: mem_put_def mem_create_def)
next
  case (Inr u')
  then have names: "key \<noteq> []" "mt \<noteq> []" by (simp_all add: rs_validate_Inr)
  obtain n where "mem_append_all 0 chunks \<lparr>mw_key = key, mw_media_type = mt, mw_chunks = [], mw_sequence = 0\<rparr>
      = (Inr (), \<lparr>mw_key = key, mw_media_type = mt, mw_chunks = chunks, mw_sequence = n\<rparr>)"
    using mem_append_all_runs [of "\<lparr>mw_key = key, mw_media_type = mt, mw_chunks = [], mw_sequence = 0\<rparr>" 0 chunks]
    by auto
  then show ?thesis
    using assms names refused same new
    by (auto simp: mem_put_def mem_create_def Inr mem_finish_def Let_def split: option.splits if_splits)
qed

interpretation mem: resource_store "\<lambda>_ :: memory_store. True" mem_lookup "\<lambda>_ key. key" "\<lambda>_ _ _ _. True" mem_put
  "\<lambda>_ :: unit. mem_open" "\<lambda>_ :: unit. mem_read" mr_unread mr_ok "\<lambda>_ :: unit. mem_res_delete" "\<lambda>_ :: unit. True"
proof (unfold_locales, goal_cases)
  case (2 s f key mt chunks ref s')
  from 2(2) show ?case
    by (cases rule: mem_put_cases) (auto simp: stored_key_reference mem_lookup_def)
next
  case (3 s f key mt chunks x s' k v)
  from 3(2) show ?case using 3(3)
    by (cases rule: mem_put_cases) (auto simp: mem_lookup_def)
next
  case (4 s f key mt chunks x s' k)
  from 4(2) show ?case using 4(3)
    by (cases rule: mem_put_cases) (auto simp: mem_lookup_def)
next
  case (5 s f ref r)
  then show ?case
    by (auto simp: mem_open_unread mr_ok_def mr_unread_def position_ok_def mem_lookup_def)
next
  case (6 s f ref k bs)
  then show ?case by (auto simp: mem_open_def mem_lookup_def)
next
  case (7 r n f piece r')
  then show ?case using mem_read_spec [OF 7(1,2)] by auto
next
  case (8 r n f)
  then show ?case using mem_read_spec [OF 8(1,2)] by auto
next
  case (9 r n f z r')
  then show ?case using mem_read_spec [OF 9(1,2)] by auto
next
  case (11 s f ref y s' k)
  then show ?case
    by (auto simp: mem_res_delete_def stored_key_Inr mem_lookup_def split: sum.splits)
next
  case (12 s f ref s' k)
  then show ?case
    by (auto simp: mem_res_delete_def stored_key_Inr mem_lookup_def split: sum.splits)
qed simp_all

section \<open>The store on a filesystem\<close>

text \<open>
  What the store takes from outside the source: SHA-256, the JSON text of a header, and how many
  bytes the system's \<open>read\<close> returns for a buffer size and the rest of a file.
\<close>

record resource_env =
  rv_sha256 :: "bytes \<Rightarrow> bytes"
  rv_to_json :: "json \<Rightarrow> string + bytes"
  rv_from_json :: "bytes \<Rightarrow> string + json"
  rv_read :: "nat \<Rightarrow> bytes \<Rightarrow> nat"

type_synonym io_faults = "nat \<Rightarrow> (string \<times> nat) option"

definition io_error :: "string \<Rightarrow> error" where
  "io_error message = Resource (ResourceIo ''resource I/O'' message)"

definition io_call :: "io_faults \<Rightarrow> nat \<Rightarrow> unit result" where
  "io_call F n = (case F n of None \<Rightarrow> Inr () | Some (message, _) \<Rightarrow> Inl (io_error message))"

definition calm :: "io_faults \<Rightarrow> bool" where
  "calm F \<longleftrightarrow> F = (\<lambda>_. None)"

lemma io_call_calm [simp]: "calm F \<Longrightarrow> io_call F n = Inr ()" "calm F \<Longrightarrow> F n = None"
  by (simp_all add: calm_def io_call_def)

text \<open>
  The root directory: the \<open>format\<close> marker, the other names in it, the shard directories, and the
  resource files. \<open>resource_path\<close> determines a file by its id, so files are kept by id; \<open>shard_of\<close>
  is the directory the file of an id lies in.
\<close>

record fs_root =
  fs_marker :: "string option"
  fs_names :: "string list"
  fs_shards :: "string list"
  fs_files :: "(string, bytes) omap"

definition resource_format :: string where
  "resource_format = ''zhir-resources 5'' @ [CHR 0x0A]"

definition shard_of :: "string \<Rightarrow> string" where
  "shard_of ident = take 2 ident"

text \<open>\<open>Path::extension\<close>: what follows the last dot, unless the dot starts the name.\<close>

definition path_extension :: "string \<Rightarrow> string option" where
  "path_extension name =
     (let after = rev (takeWhile (\<lambda>c. c \<noteq> CHR ''.'') (rev name)) in
      if name = ''..'' \<or> CHR ''.'' \<notin> set name \<or> length name = length after + 1 then None
      else Some after)"

definition fs_unsupported :: error where
  "fs_unsupported = Storage ''unsupported resource directory format; use a fresh directory''"

text \<open>
  \<open>FilesystemResourceStore::open\<close>. \<open>race\<close> is the marker another store wrote between the read and
  \<open>persist_noclobber\<close>, if one did.
\<close>

definition fs_init_marker :: "io_faults \<Rightarrow> string option \<Rightarrow> fs_root \<Rightarrow> unit result \<times> fs_root" where
  "fs_init_marker F race d = (case checks [io_call F 2, io_call F 3, io_call F 4] of
       Inl e \<Rightarrow> (Inl e, d)
     | Inr _ \<Rightarrow> (case race of
           Some other \<Rightarrow>
             (r_bind (io_call F 5) (\<lambda>_. fail_if (other \<noteq> resource_format) fs_unsupported),
              d\<lparr>fs_marker := Some other\<rparr>)
         | None \<Rightarrow> (case io_call F 6 of
               Inl e \<Rightarrow> (Inl e, d)
             | Inr _ \<Rightarrow> (io_call F 7, d\<lparr>fs_marker := Some resource_format\<rparr>))))"

definition fs_check_names :: "io_faults \<Rightarrow> fs_root \<Rightarrow> unit result" where
  "fs_check_names F d = r_bind (io_call F 8) (\<lambda>_.
     fail_if (\<exists>name \<in> set (fs_names d @ fs_shards d). path_extension name = Some ''resource'')
       fs_unsupported)"

definition fs_open_store :: "io_faults \<Rightarrow> string option \<Rightarrow> fs_root \<Rightarrow> unit result \<times> fs_root" where
  "fs_open_store F race d = (case checks [io_call F 0, io_call F 1] of
       Inl e \<Rightarrow> (Inl e, d)
     | Inr _ \<Rightarrow>
         (let (marked, d') = (case fs_marker d of
              Some format \<Rightarrow> (fail_if (format \<noteq> resource_format) fs_unsupported, d)
            | None \<Rightarrow> fs_init_marker F race d) in
          (r_bind marked (\<lambda>_. fs_check_names F d'), d')))"

text \<open>Writers.\<close>

record fs_writer =
  fw_id :: string
  fw_media_type :: string
  fw_temp :: "bytes option"
  fw_sequence :: u64

definition utf8 :: "string \<Rightarrow> bytes" where
  "utf8 s = map (\<lambda>c. of_nat (of_char c)) s"

definition le_bytes :: "u64 \<Rightarrow> bytes" where
  "le_bytes w = map (\<lambda>i. ucast (drop_bit (8 * i) w)) [0, 1, 2, 3, 4, 5, 6, 7]"

fun from_le_bytes :: "bytes \<Rightarrow> u64" where
  "from_le_bytes [] = 0"
| "from_le_bytes (b # bs) = or (ucast b) (push_bit 8 (from_le_bytes bs))"

definition header_json :: "string \<Rightarrow> json" where
  "header_json media_type =
     Object [(''media_type'', String media_type), (''version'', Number (PosInt 5))]"

definition header_bytes :: "resource_env \<Rightarrow> string \<Rightarrow> bytes result" where
  "header_bytes X media_type = (case rv_to_json X (header_json media_type) of
       Inl m \<Rightarrow> Inl (io_error m)
     | Inr header \<Rightarrow> Inr header)"

definition resource_ident :: "resource_env \<Rightarrow> string \<Rightarrow> string" where
  "resource_ident X key = hex (rv_sha256 X (utf8 key))"

definition fs_shard_dir :: "io_faults \<Rightarrow> string \<Rightarrow> fs_root \<Rightarrow> unit result \<times> fs_root" where
  "fs_shard_dir F shard d =
     (if shard \<in> set (fs_shards d) then (Inr (), d)
      else (case io_call F 0 of
          Inl e \<Rightarrow> (Inl e, d)
        | Inr _ \<Rightarrow> (io_call F 1, d\<lparr>fs_shards := shard # fs_shards d\<rparr>)))"

definition fs_create ::
  "resource_env \<Rightarrow> io_faults \<Rightarrow> string \<Rightarrow> string \<Rightarrow> fs_root \<Rightarrow> fs_writer result \<times> fs_root" where
  "fs_create X F key media_type d = (case rs_validate key media_type of
       Inl e \<Rightarrow> (Inl e, d)
     | Inr _ \<Rightarrow>
         (let ident = resource_ident X key;
              (made, d') = fs_shard_dir F (shard_of ident) d in
          (r_bind made (\<lambda>_. r_bind (io_call F 2) (\<lambda>_.
             r_bind (header_bytes X media_type) (\<lambda>header.
             r_bind (checks [io_call F 3, io_call F 4]) (\<lambda>_.
               Inr \<lparr>fw_id = ident, fw_media_type = media_type,
                 fw_temp = Some (le_bytes (of_nat (length header)) @ header), fw_sequence = 0\<rparr>)))), d')))"

definition fs_append :: "io_faults \<Rightarrow> u64 \<Rightarrow> bytes \<Rightarrow> fs_writer \<Rightarrow> unit result \<times> fs_writer" where
  "fs_append F sequence bs w =
     (if sequence \<noteq> fw_sequence w then (Inl (Invalid ''resource chunk sequence mismatch''), w)
      else (case fw_temp w of
          None \<Rightarrow> (Inl (Invalid ''resource writer finished''), w)
        | Some temp \<Rightarrow> (case F 0 of
              Some (message, written) \<Rightarrow>
                (Inl (io_error message), w\<lparr>fw_temp := Some (temp @ take written bs)\<rparr>)
            | None \<Rightarrow>
                (Inr (), w\<lparr>fw_temp := Some (temp @ bs), fw_sequence := fw_sequence w + 1\<rparr>))))"

definition fs_finish ::
  "resource_env \<Rightarrow> io_faults \<Rightarrow> fs_writer \<Rightarrow> fs_root \<Rightarrow> resource_ref result \<times> fs_root" where
  "fs_finish X F w d = (case fw_temp w of
       None \<Rightarrow> (Inl (Invalid ''resource writer finished''), d)
     | Some temp \<Rightarrow> (case io_call F 0 of
           Inl e \<Rightarrow> (Inl e, d)
         | Inr _ \<Rightarrow>
             (let done = Inr (stored_reference (fw_id w) (fw_id w) (fw_media_type w)) in
              case om_get (fs_files d) (fw_id w) of
                None \<Rightarrow> (case io_call F 1 of
                    Inl e \<Rightarrow> (Inl e, d)
                  | Inr _ \<Rightarrow> (r_bind (io_call F 2) (\<lambda>_. done),
                      d\<lparr>fs_files := om_insert (fw_id w) temp (fs_files d)\<rparr>))
              | Some previous \<Rightarrow>
                  (r_bind (checks [io_call F 3, io_call F 4, io_call F 5, io_call F 6,
                      fail_if (rv_sha256 X previous \<noteq> rv_sha256 X temp)
                        (Resource (ResourceConflict (fw_id w)))]) (\<lambda>_. done), d))))"

text \<open>Readers.\<close>

definition ascii_hexdigit :: "char \<Rightarrow> bool" where
  "ascii_hexdigit c = (let n = of_char c :: nat in
     48 \<le> n \<and> n \<le> 57 \<or> 65 \<le> n \<and> n \<le> 70 \<or> 97 \<le> n \<and> n \<le> 102)"

definition file_key :: "resource_ref \<Rightarrow> string result" where
  "file_key reference = r_bind (stored_key reference) (\<lambda>key.
     if length key \<noteq> 64 \<or> \<not> list_all ascii_hexdigit key
     then Inl (Invalid ''invalid stored resource key'') else Inr key)"

text \<open>A reader holds the open file, its position and how often it was read.\<close>

record fs_reader =
  fr_file :: bytes
  fr_pos :: nat
  fr_calls :: nat

definition short_read :: error where
  "short_read = io_error ''failed to fill whole buffer''"

definition json_field :: "json \<Rightarrow> string \<Rightarrow> json" where
  "json_field v k = (case json_as_object v of None \<Rightarrow> Null
     | Some kvs \<Rightarrow> (case map_of kvs k of None \<Rightarrow> Null | Some x \<Rightarrow> x))"

definition fs_read_header :: "resource_env \<Rightarrow> string \<Rightarrow> bytes \<Rightarrow> fs_reader result" where
  "fs_read_header X media_type file =
     (if length file < 8 then Inl short_read
      else let size = from_le_bytes (take 8 file) in
        if 65536 < size then Inl (Invalid ''invalid resource header'')
        else if length file < 8 + unat size then Inl short_read
        else (case rv_from_json X (take (unat size) (drop 8 file)) of
            Inl m \<Rightarrow> Inl (io_error m)
          | Inr header \<Rightarrow>
              if json_field header ''version'' \<noteq> Number (PosInt 5)
                 \<or> json_field header ''media_type'' \<noteq> String media_type
              then Inl (Invalid ''unsupported resource format or media type mismatch'')
              else Inr \<lparr>fr_file = file, fr_pos = 8 + unat size, fr_calls = 0\<rparr>))"

definition fs_open :: "resource_env \<Rightarrow> io_faults \<Rightarrow> resource_ref \<Rightarrow> fs_root \<Rightarrow> fs_reader result" where
  "fs_open X F reference d = r_bind (file_key reference) (\<lambda>key.
     case om_get (fs_files d) key of
       None \<Rightarrow> Inl (Resource (ResourceNotFound key))
     | Some file \<Rightarrow> r_bind (checks [io_call F 0, io_call F 1, io_call F 2]) (\<lambda>_.
         fs_read_header X (res_media_type reference) file))"

definition fs_read :: "resource_env \<Rightarrow> io_faults \<Rightarrow> nat \<Rightarrow> fs_reader \<Rightarrow> bytes result \<times> fs_reader" where
  "fs_read X F max_bytes r =
     (if max_bytes = 0 then (Inl (Invalid ''read size must be positive''), r)
      else (case io_call F (fr_calls r) of
          Inl e \<Rightarrow> (Inl e, r\<lparr>fr_calls := fr_calls r + 1\<rparr>)
        | Inr _ \<Rightarrow>
            (let rest = drop (fr_pos r) (fr_file r); size = rv_read X max_bytes rest in
             (Inr (take size rest), r\<lparr>fr_pos := fr_pos r + size, fr_calls := fr_calls r + 1\<rparr>))))"

definition fs_delete :: "io_faults \<Rightarrow> resource_ref \<Rightarrow> fs_root \<Rightarrow> unit result \<times> fs_root" where
  "fs_delete F reference d = (case file_key reference of
       Inl e \<Rightarrow> (Inl e, d)
     | Inr key \<Rightarrow> (case om_get (fs_files d) key of
           None \<Rightarrow> (Inr (), d)
         | Some _ \<Rightarrow> (case io_call F 0 of
               Inl e \<Rightarrow> (Inl e, d)
             | Inr _ \<Rightarrow> (io_call F 1, d\<lparr>fs_files := om_remove key (fs_files d)\<rparr>))))"

subsection \<open>Its contract\<close>

text \<open>What is documented of the parts outside the source.\<close>

definition resource_env_ok :: "resource_env \<Rightarrow> bool" where
  "resource_env_ok X \<longleftrightarrow>
     (\<forall>bs. length (rv_sha256 X bs) = 32)
     \<and> (\<forall>mt header. rv_to_json X (header_json mt) = Inr header \<longrightarrow> rv_from_json X header = Inr (header_json mt))
     \<and> (\<forall>n bs. rv_read X n bs \<le> n \<and> rv_read X n bs \<le> length bs \<and> (0 < n \<and> bs \<noteq> [] \<longrightarrow> 0 < rv_read X n bs))"

text \<open>A whole resource written with the faults of each system call, and the view of a directory.\<close>

type_synonym fs_weather = "nat \<Rightarrow> io_faults"

fun fs_append_all :: "fs_weather \<Rightarrow> u64 \<Rightarrow> bytes list \<Rightarrow> fs_writer \<Rightarrow> unit result \<times> fs_writer" where
  "fs_append_all f sequence [] w = (Inr (), w)"
| "fs_append_all f sequence (bs # chunks) w = (case fs_append (f 0) sequence bs w of
       (Inl e, w') \<Rightarrow> (Inl e, w')
     | (Inr _, w') \<Rightarrow> fs_append_all (\<lambda>i. f (Suc i)) (sequence + 1) chunks w')"

type_synonym fs_store = "resource_env \<times> fs_root"

definition fs_put ::
  "fs_weather \<Rightarrow> string \<Rightarrow> string \<Rightarrow> bytes list \<Rightarrow> fs_store \<Rightarrow> resource_ref result \<times> fs_store" where
  "fs_put f key media_type chunks = (\<lambda>(X, d).
     case fs_create X (f 0) key media_type d of
       (Inl e, d') \<Rightarrow> (Inl e, (X, d'))
     | (Inr w, d') \<Rightarrow> (case fs_append_all (\<lambda>i. f (Suc (Suc i))) 0 chunks w of
           (Inl e, _) \<Rightarrow> (Inl e, (X, d'))
         | (Inr _, w') \<Rightarrow> (case fs_finish X (f 1) w' d' of (x, d'') \<Rightarrow> (x, (X, d'')))))"

definition file_content :: "resource_env \<Rightarrow> bytes \<Rightarrow> (string \<times> bytes) option" where
  "file_content X file =
     (let size = from_le_bytes (take 8 file) in
      if length file < 8 \<or> 65536 < size \<or> length file < 8 + unat size then None
      else (case rv_from_json X (take (unat size) (drop 8 file)) of
          Inl _ \<Rightarrow> None
        | Inr header \<Rightarrow>
            if json_field header ''version'' \<noteq> Number (PosInt 5) then None
            else (case json_field header ''media_type'' of
                String media_type \<Rightarrow> Some (media_type, drop (8 + unat size) file)
              | _ \<Rightarrow> None)))"

definition file_key_ok :: "string \<Rightarrow> bool" where
  "file_key_ok key \<longleftrightarrow> length key = 64 \<and> list_all ascii_hexdigit key"

definition fs_lookup :: "fs_store \<Rightarrow> string \<Rightarrow> (string \<times> bytes) option" where
  "fs_lookup = (\<lambda>(X, d) key. if file_key_ok key then (case om_get (fs_files d) key of
       None \<Rightarrow> None | Some file \<Rightarrow> file_content X file) else None)"

definition resource_file :: "bytes \<Rightarrow> bytes list \<Rightarrow> bytes" where
  "resource_file header chunks = le_bytes (of_nat (length header)) @ header @ concat chunks"

text \<open>
  What storing faithfully needs: a header that a reader accepts, and no other content with the same
  digest under the same key.
\<close>

definition fs_faithful :: "fs_store \<Rightarrow> string \<Rightarrow> string \<Rightarrow> bytes list \<Rightarrow> bool" where
  "fs_faithful = (\<lambda>(X, d) key media_type chunks. case rv_to_json X (header_json media_type) of
       Inl _ \<Rightarrow> False
     | Inr header \<Rightarrow> length header \<le> 65536
         \<and> (case om_get (fs_files d) (resource_ident X key) of
             None \<Rightarrow> True
           | Some previous \<Rightarrow> rv_sha256 X previous = rv_sha256 X (resource_file header chunks)
               \<longrightarrow> previous = resource_file header chunks))"

definition fs_store_open :: "fs_weather \<Rightarrow> fs_store \<Rightarrow> resource_ref \<Rightarrow> (resource_env \<times> fs_reader) result" where
  "fs_store_open f = (\<lambda>(X, d) reference. r_bind (fs_open X (f 0) reference d) (\<lambda>r. Inr (X, r)))"

definition fs_store_read :: "fs_weather \<Rightarrow> nat \<Rightarrow> resource_env \<times> fs_reader
    \<Rightarrow> (bytes result \<times> resource_env \<times> fs_reader) option" where
  "fs_store_read f n = (\<lambda>(X, r). case fs_read X (f 0) n r of (x, r') \<Rightarrow> Some (x, (X, r')))"

definition fs_store_delete :: "fs_weather \<Rightarrow> resource_ref \<Rightarrow> fs_store \<Rightarrow> unit result \<times> fs_store" where
  "fs_store_delete f reference = (\<lambda>(X, d). case fs_delete (f 0) reference d of (x, d') \<Rightarrow> (x, (X, d')))"

definition fs_remaining :: "resource_env \<times> fs_reader \<Rightarrow> bytes" where
  "fs_remaining = (\<lambda>(X, r). drop (fr_pos r) (fr_file r))"

definition fs_quiet :: "fs_weather \<Rightarrow> bool" where
  "fs_quiet f \<longleftrightarrow> (\<forall>n. calm (f n))"

lemma length_le_bytes [simp]: "length (le_bytes w) = 8"
  by (simp add: le_bytes_def)

lemma bit_from_le_bytes:
  "bit (from_le_bytes bs) n \<longleftrightarrow> n < 64 \<and> n div 8 < length bs \<and> bit (bs ! (n div 8)) (n mod 8)"
proof (induction bs arbitrary: n)
  case (Cons b bs)
  show ?case
  proof (cases "n < 8")
    case True
    then show ?thesis by (auto simp: bit_simps)
  next
    case False
    then obtain k where k: "n = k + 8" by (metis add.commute le_Suc_ex not_less)
    have "\<not> bit b n" using False bit_imp_le_length [of b n] by auto
    moreover have "(k + 8) div 8 = Suc (k div 8)" by simp
    ultimately show ?thesis using Cons [of k] by (auto simp: bit_simps k)
  qed
qed simp

lemma from_le_bytes_le_bytes [simp]: "from_le_bytes (le_bytes w) = w"
proof (rule bit_word_eqI)
  fix n assume n: "n < LENGTH(64)"
  have le: "le_bytes w = map (\<lambda>i. ucast (drop_bit (8 * i) w)) [0..<8]"
    by (simp add: le_bytes_def upt_rec)
  have "bit (from_le_bytes (le_bytes w)) n \<longleftrightarrow> bit w (8 * (n div 8) + n mod 8)"
    using n by (auto simp: bit_from_le_bytes le bit_simps)
  then show "bit (from_le_bytes (le_bytes w)) n \<longleftrightarrow> bit w n" by simp
qed

lemma hex_digit_hexdigit: "n < 16 \<Longrightarrow> ascii_hexdigit (hex_digit n)"
  by (auto simp: ascii_hexdigit_def hex_digit_def Let_def)

lemma length_hex: "length (hex bs) = 2 * length bs"
  by (induction bs) (simp_all add: hex_def)

lemma list_all_hex: "list_all ascii_hexdigit (hex bs)"
proof (induction bs)
  case (Cons b bs)
  have "unat b < 256" using unsigned_less [of b] by simp
  then have "unat b div 16 < 16" by simp
  then show ?case using Cons by (simp add: hex_def hex_digit_hexdigit)
qed (simp add: hex_def)

lemma resource_ident_ok: "resource_env_ok X \<Longrightarrow> file_key_ok (resource_ident X key)"
  by (simp add: resource_env_ok_def file_key_ok_def resource_ident_def length_hex list_all_hex)

lemma file_key_Inr: "file_key ref = Inr k \<longleftrightarrow> stored_key ref = Inr k \<and> file_key_ok k"
  by (auto simp: file_key_def file_key_ok_def result_simps)

lemma fs_read_header_Inr:
  "fs_read_header X mt file = Inr r \<longleftrightarrow> file_content X file = Some (mt, drop (fr_pos r) (fr_file r))
     \<and> r = \<lparr>fr_file = file, fr_pos = 8 + unat (from_le_bytes (take 8 file)), fr_calls = 0\<rparr>"
  by (auto simp: fs_read_header_def file_content_def Let_def short_read_def split: sum.splits json.splits)

lemma file_content_resource_file:
  assumes "resource_env_ok X" "rv_to_json X (header_json mt) = Inr header" "length header \<le> 65536"
  shows "file_content X (resource_file header chunks) = Some (mt, concat chunks)"
proof -
  have "unat (of_nat (length header) :: u64) = length header"
    using assms(3) by (simp add: unsigned_of_nat take_bit_nat_eq_self)
  then show ?thesis
    using assms by (simp add: file_content_def resource_file_def resource_env_ok_def
        header_json_def json_field_def word_less_nat_alt)
qed

text \<open>A successful write put the header and all chunks in the file; nothing else in the directory changed.\<close>

lemma fs_shard_dir_files [simp]: "fs_shard_dir F sh d = (x, d') \<Longrightarrow> fs_files d' = fs_files d"
  by (auto simp: fs_shard_dir_def split: if_splits sum.splits)

lemma fs_create_files: "fs_create X F key mt d = (x, d') \<Longrightarrow> fs_files d' = fs_files d"
  by (auto simp: fs_create_def Let_def split: sum.splits prod.splits)

lemma fs_create_Inr:
  assumes "fs_create X F key mt d = (Inr w, d')"
  obtains header where "key \<noteq> []" "mt \<noteq> []" "rv_to_json X (header_json mt) = Inr header"
    "w = \<lparr>fw_id = resource_ident X key, fw_media_type = mt,
       fw_temp = Some (resource_file header []), fw_sequence = 0\<rparr>"
  using assms
  by (auto simp: fs_create_def Let_def resource_file_def header_bytes_def result_simps rs_validate_Inr
      split: sum.splits prod.splits)

lemma fs_append_all_Inr:
  assumes "fs_append_all f n chunks w = (Inr (), w')" "fw_temp w = Some temp"
  shows "fw_temp w' = Some (temp @ concat chunks) \<and> fw_id w' = fw_id w \<and> fw_media_type w' = fw_media_type w"
  using assms
proof (induction chunks arbitrary: f n w temp)
  case (Cons bs chunks)
  obtain x w1 where step: "fs_append (f 0) n bs w = (x, w1)" by (cases "fs_append (f 0) n bs w")
  have x: "x = Inr ()" using Cons.prems(1) by (auto simp: step split: sum.splits)
  have "fw_temp w1 = Some (temp @ bs) \<and> fw_id w1 = fw_id w \<and> fw_media_type w1 = fw_media_type w"
    using step Cons.prems(2) by (auto simp: x fs_append_def split: if_splits option.splits prod.splits)
  then show ?case using Cons.IH [of "\<lambda>i. f (Suc i)" "n + 1" w1 "temp @ bs"] Cons.prems(1)
    by (simp add: step x)
qed simp

lemma fs_put_cases:
  assumes "fs_put f key mt chunks (X, d) = (x, s')"
  obtains (unchanged) e d' where "x = Inl e" "s' = (X, d')" "fs_files d' = fs_files d"
  | (same) header previous d' where "key \<noteq> []" "mt \<noteq> []" "rv_to_json X (header_json mt) = Inr header"
      "x = Inr (stored_reference (resource_ident X key) (resource_ident X key) mt)"
      "s' = (X, d')" "fs_files d' = fs_files d" "om_get (fs_files d) (resource_ident X key) = Some previous"
      "rv_sha256 X previous = rv_sha256 X (resource_file header chunks)"
  | (new) header d' where "key \<noteq> []" "mt \<noteq> []" "rv_to_json X (header_json mt) = Inr header"
      "x = Inr (stored_reference (resource_ident X key) (resource_ident X key) mt) \<or> (\<exists>e. x = Inl e)"
      "s' = (X, d')" "om_get (fs_files d) (resource_ident X key) = None"
      "fs_files d' = om_insert (resource_ident X key) (resource_file header chunks) (fs_files d)"
proof -
  obtain c d1 where create: "fs_create X (f 0) key mt d = (c, d1)" by (cases "fs_create X (f 0) key mt d")
  note files = fs_create_files [OF create]
  show ?thesis
  proof (cases c)
    case (Inl e)
    then show ?thesis using assms files unchanged [of e d1] by (auto simp: fs_put_def create)
  next
    case (Inr w)
    obtain header where names: "key \<noteq> []" "mt \<noteq> []" and header: "rv_to_json X (header_json mt) = Inr header"
      and w: "w = \<lparr>fw_id = resource_ident X key, fw_media_type = mt,
        fw_temp = Some (resource_file header []), fw_sequence = 0\<rparr>"
      using fs_create_Inr create Inr by metis
    obtain y w' where all: "fs_append_all (\<lambda>i. f (Suc (Suc i))) 0 chunks w = (y, w')"
      by (cases "fs_append_all (\<lambda>i. f (Suc (Suc i))) 0 chunks w")
    show ?thesis
    proof (cases y)
      case (Inl e)
      then show ?thesis using assms files unchanged [of e d1] by (auto simp: fs_put_def create Inr all)
    next
      case appended: (Inr u)
      have w': "fw_temp w' = Some (resource_file header chunks)" "fw_id w' = resource_ident X key" "fw_media_type w' = mt"
        using fs_append_all_Inr [of "\<lambda>i. f (Suc (Suc i))" 0 chunks w w' "resource_file header []"] all appended
        by (simp_all add: w resource_file_def)
      obtain z d2 where fin: "fs_finish X (f (Suc 0)) w' d1 = (z, d2)"
        by (cases "fs_finish X (f (Suc 0)) w' d1")
      have s': "x = z" "s' = (X, d2)" using assms by (auto simp: fs_put_def create Inr all appended fin)
      show ?thesis
      proof (cases "om_get (fs_files d) (resource_ident X key)")
        case None
        then show ?thesis using fin files names header s' unchanged [of _ d2] new [of header d2]
          by (cases "io_call (f (Suc 0)) 2") (auto simp: fs_finish_def w' Let_def split: sum.splits)
      next
        case (Some previous)
        then show ?thesis using fin files names header s' unchanged [of _ d2] same [of header d2 previous]
          by (cases z) (auto simp: fs_finish_def w' Let_def result_simps split: sum.splits)
      qed
    qed
  qed
qed

lemma fs_read_step:
  assumes "resource_env_ok X" "0 < n" "fs_read X F n r = (Inr piece, r')"
  shows "fs_remaining (X, r) = piece @ fs_remaining (X, r') \<and> length piece \<le> n
    \<and> (piece = [] \<longrightarrow> fs_remaining (X, r) = [])"
proof -
  let ?rest = "drop (fr_pos r) (fr_file r)" and ?size = "rv_read X n (drop (fr_pos r) (fr_file r))"
  have "?size \<le> n \<and> ?size \<le> length ?rest \<and> (?rest \<noteq> [] \<longrightarrow> 0 < ?size)"
    using assms(1,2) unfolding resource_env_ok_def by metis
  moreover have "piece = take ?size ?rest" "fr_file r' = fr_file r" "fr_pos r' = fr_pos r + ?size"
    using assms(2,3) by (auto simp: fs_read_def Let_def split: sum.splits)
  moreover have "?rest = take ?size ?rest @ drop (fr_pos r + ?size) (fr_file r)"
    by (metis append_take_drop_id drop_drop add.commute)
  ultimately show ?thesis by (auto simp: fs_remaining_def)
qed

interpretation fs: resource_store "\<lambda>(X, d). resource_env_ok X" fs_lookup "\<lambda>(X, d). resource_ident X" fs_faithful
  fs_put fs_store_open fs_store_read fs_remaining "\<lambda>(X, r). resource_env_ok X" fs_store_delete fs_quiet
proof (unfold_locales, goal_cases)
  case (1 s f key mt chunks x s')
  then show ?case by (cases s) (auto elim: fs_put_cases)
next
  case (2 s f key mt chunks ref s')
  obtain X d where s: "s = (X, d)" by (cases s)
  have X: "resource_env_ok X" using 2(1) by (simp add: s)
  note ok = resource_ident_ok [OF X, of key]
  then have "resource_ident X key \<noteq> []" by (auto simp: file_key_ok_def)
  with 2(2)[unfolded s] 2(3) X ok show ?case
    by (cases rule: fs_put_cases)
       (auto simp: s fs_faithful_def fs_lookup_def stored_key_reference file_content_resource_file)
next
  case (3 s f key mt chunks x s' k v)
  obtain X d where s: "s = (X, d)" by (cases s)
  from 3(2)[unfolded s] 3(3) show ?case
    by (cases rule: fs_put_cases) (auto simp: s fs_lookup_def split: if_splits)
next
  case (4 s f key mt chunks x s' k)
  obtain X d where s: "s = (X, d)" by (cases s)
  from 4(2)[unfolded s] 4(3) show ?case
    by (cases rule: fs_put_cases) (auto simp: s fs_lookup_def)
next
  case (5 s f ref r)
  then show ?case
    by (cases s; cases r)
       (auto simp: fs_store_open_def fs_open_def result_simps file_key_Inr fs_lookup_def fs_read_header_Inr
         fs_remaining_def split: option.splits)
next
  case (6 s f ref k bs)
  obtain X d where s: "s = (X, d)" by (cases s)
  from 6(4) obtain stored where stored: "file_key_ok k" "om_get (fs_files d) k = Some stored"
      "file_content X stored = Some (res_media_type ref, bs)"
    by (auto simp: s fs_lookup_def split: if_splits option.splits)
  have "is_ok (fs_read_header X (res_media_type ref) stored)"
    using stored(3) by (auto simp: file_content_def fs_read_header_def Let_def is_ok_def split: if_splits sum.splits json.splits)
  moreover have "file_key ref = Inr k" using 6(3) stored(1) by (simp add: file_key_Inr)
  ultimately show ?case using 6(2) stored(2)
    by (auto simp: s fs_store_open_def fs_open_def fs_quiet_def is_ok_def split: sum.splits)
next
  case (7 r n f piece r')
  then show ?case using fs_read_step
    by (cases r; cases r') (fastforce simp: fs_store_read_def split: prod.splits)
next
  case (8 r n f)
  then show ?case by (auto simp: fs_store_read_def split: prod.splits)
next
  case (9 r n f z r')
  then show ?case
    by (auto simp: fs_store_read_def fs_read_def fs_quiet_def Let_def split: prod.splits)
next
  case (10 s f ref y s')
  then show ?case by (auto simp: fs_store_delete_def split: prod.splits)
next
  case (11 s f ref y s' k)
  then show ?case
    by (auto simp: fs_store_delete_def fs_delete_def file_key_Inr stored_key_Inr fs_lookup_def
        split: prod.splits sum.splits option.splits)
next
  case (12 s f ref s' k)
  then show ?case
    by (auto simp: fs_store_delete_def fs_delete_def fs_lookup_def file_key_def stored_key_Inr file_key_ok_def result_simps
        split: prod.splits sum.splits option.splits if_splits)
qed

end
