(* ===== verification/Resource_Reach.thy ===== *)
theory Resource_Reach
  imports Resource_Stores
begin

text \<open>
  \<open>reachable\<close> of \<open>zhir-storage/src/resources.rs\<close>: the stored resources a checkpoint can reach,
  which a host keeps when it reclaims the others. Content is listed directly; sealed media and the
  media archive are chains of nodes that are read from the store. The chains may share nodes and a
  store may hold a cycle, so the loops are partial functions (\<open>None\<close> is a loop without end or a
  panic of a reader). The lemmas show that the loops end whenever finitely many nodes can be read,
  that no resource is listed twice, and that the list is closed under the links of the nodes.
\<close>

section \<open>The traversal\<close>

text \<open>The two instances of \<open>read_node\<close> over one store.\<close>

record node_reader =
  nr_sealed :: "resource_ref \<Rightarrow> sealed_media result option"
  nr_archived :: "resource_ref \<Rightarrow> archived_media result option"

definition store_nodes :: "(resource_ref \<Rightarrow> 'r result) \<Rightarrow> (nat \<Rightarrow> 'r \<Rightarrow> (bytes result \<times> 'r) option)
    \<Rightarrow> (bytes \<Rightarrow> string + sealed_media) \<Rightarrow> (bytes \<Rightarrow> string + archived_media) \<Rightarrow> node_reader" where
  "store_nodes op rd parse_sealed parse_archived =
     \<lparr>nr_sealed = read_node op rd parse_sealed, nr_archived = read_node op rd parse_archived\<rparr>"

record reachable_set =
  rs_keys :: "string set"
  rs_walked :: "string set"
  rs_resources :: "resource_ref list"

definition reachable_empty :: reachable_set where
  "reachable_empty = \<lparr>rs_keys = {}, rs_walked = {}, rs_resources = []\<rparr>"

definition rs_insert :: "resource_ref \<Rightarrow> reachable_set \<Rightarrow> reachable_set" where
  "rs_insert reference found = (case res_source reference of
       Stored key \<Rightarrow>
         if key \<in> rs_keys found then found
         else found\<lparr>rs_keys := insert key (rs_keys found), rs_resources := rs_resources found @ [reference]\<rparr>
     | _ \<Rightarrow> found)"

definition rs_walk :: "resource_ref \<Rightarrow> reachable_set \<Rightarrow> bool \<times> reachable_set" where
  "rs_walk reference found =
     (let listed = rs_insert reference found in
      case res_source reference of
        Stored key \<Rightarrow> (key \<notin> rs_walked listed, listed\<lparr>rs_walked := insert key (rs_walked listed)\<rparr>)
      | _ \<Rightarrow> (False, listed))"

definition rs_contents :: "content list \<Rightarrow> reachable_set \<Rightarrow> reachable_set" where
  "rs_contents contents = fold rs_insert (List.map_filter content_source contents)"

fun rs_output :: "output_item \<Rightarrow> reachable_set \<Rightarrow> reachable_set" where
  "rs_output (OutputContent content) found = rs_contents [content] found"
| "rs_output (ProviderToolCall call) found = rs_contents (ptc_output call) found"
| "rs_output (Delegation _) found = found"
| "rs_output (RuntimeToolCall _) found = found"

fun rs_message :: "message \<Rightarrow> reachable_set \<Rightarrow> reachable_set" where
  "rs_message (System contents) found = rs_contents contents found"
| "rs_message (User contents) found = rs_contents contents found"
| "rs_message (External contents) found = rs_contents contents found"
| "rs_message (Assistant items _) found = fold rs_output items found"
| "rs_message (DelegationResult _ outcome) found = rs_contents (outcome_content outcome) found"
| "rs_message (RuntimeTool _ _ outcome) found = rs_contents (outcome_content outcome) found"

definition rs_state :: "run_state \<Rightarrow> reachable_set \<Rightarrow> reachable_set" where
  "rs_state state found = (case state of StCompleted contents \<Rightarrow> rs_contents contents found | _ \<Rightarrow> found)"

definition rs_command :: "pending_command \<Rightarrow> reachable_set \<Rightarrow> reachable_set" where
  "rs_command command found = (case pc_intent command of
       IDelegationContext _ contents \<Rightarrow> rs_contents contents found | _ \<Rightarrow> found)"

definition rs_operation :: "operation_record \<Rightarrow> reachable_set \<Rightarrow> reachable_set" where
  "rs_operation operation found = (case op_last_update operation of
       Some (UpdateContext contents) \<Rightarrow> rs_contents contents found | _ \<Rightarrow> found)"

definition rs_listed :: "checkpoint \<Rightarrow> reachable_set" where
  "rs_listed c =
     fold rs_operation (om_values (ac_operations (cp_active c)))
       (fold rs_command (ac_commands (cp_active c))
         (rs_state (cp_state c)
           (fold (\<lambda>e. rs_message (he_message e)) (history_entries (cp_history c)) reachable_empty)))"

partial_function (option) rs_sealed ::
  "node_reader \<Rightarrow> resource_ref option \<Rightarrow> reachable_set \<Rightarrow> (unit result \<times> reachable_set) option" where
  "rs_sealed N node found = (case node of
       None \<Rightarrow> Some (Inr (), found)
     | Some reference \<Rightarrow> (case rs_walk reference found of (follow, found') \<Rightarrow>
         if \<not> follow then Some (Inr (), found')
         else (case nr_sealed N reference of
             None \<Rightarrow> None
           | Some (Inl e) \<Rightarrow> Some (Inl e, found')
           | Some (Inr sealed) \<Rightarrow>
               rs_sealed N (sm_previous sealed) (rs_insert (sm_resource sealed) found'))))"

fun rs_cursors ::
  "node_reader \<Rightarrow> stream_cursor list \<Rightarrow> reachable_set \<Rightarrow> (unit result \<times> reachable_set) option" where
  "rs_cursors N [] found = Some (Inr (), found)"
| "rs_cursors N (cursor # cursors) found = (case rs_sealed N (Some (cur_sealed cursor)) found of
       None \<Rightarrow> None
     | Some (Inl e, found') \<Rightarrow> Some (Inl e, found')
     | Some (Inr _, found') \<Rightarrow> rs_cursors N cursors found')"

partial_function (option) rs_archive ::
  "node_reader \<Rightarrow> resource_ref option \<Rightarrow> reachable_set \<Rightarrow> (unit result \<times> reachable_set) option" where
  "rs_archive N node found = (case node of
       None \<Rightarrow> Some (Inr (), found)
     | Some reference \<Rightarrow> (case rs_walk reference found of (follow, found') \<Rightarrow>
         if \<not> follow then Some (Inr (), found')
         else (case nr_archived N reference of
             None \<Rightarrow> None
           | Some (Inl e) \<Rightarrow> Some (Inl e, found')
           | Some (Inr archived) \<Rightarrow> (case rs_sealed N (Some (am_sealed archived)) found' of
                 None \<Rightarrow> None
               | Some (Inl e, found'') \<Rightarrow> Some (Inl e, found'')
               | Some (Inr _, found'') \<Rightarrow> rs_archive N (am_previous archived) found''))))"

declare rs_sealed.simps [code] rs_archive.simps [code]

definition rs_reachable :: "node_reader \<Rightarrow> checkpoint \<Rightarrow> resource_ref list result option" where
  "rs_reachable N c = (case rs_cursors N (om_values (ac_media (cp_active c))) (rs_listed c) of
       None \<Rightarrow> None
     | Some (Inl e, _) \<Rightarrow> Some (Inl e)
     | Some (Inr _, found) \<Rightarrow> (case rs_archive N (ss_media_archive (cp_session c)) found of
           None \<Rightarrow> None
         | Some (Inl e, _) \<Rightarrow> Some (Inl e)
         | Some (Inr _, found') \<Rightarrow> Some (Inr (rs_resources found'))))"

section \<open>What it should list\<close>

fun ref_key :: "resource_ref \<Rightarrow> string option" where
  "ref_key r = (case res_source r of Stored key \<Rightarrow> Some key | _ \<Rightarrow> None)"

declare ref_key.simps [simp del]

lemma ref_key_Some: "ref_key r = Some k \<longleftrightarrow> res_source r = Stored k"
  by (simp add: ref_key.simps split: resource_source.splits)

definition content_keys :: "content list \<Rightarrow> string set" where
  "content_keys contents = {k. \<exists>c \<in> set contents. \<exists>r. content_source c = Some r \<and> ref_key r = Some k}"

fun item_contents :: "output_item \<Rightarrow> content list" where
  "item_contents (OutputContent content) = [content]"
| "item_contents (ProviderToolCall call) = ptc_output call"
| "item_contents _ = []"

fun entry_contents :: "message \<Rightarrow> content list" where
  "entry_contents (System contents) = contents"
| "entry_contents (User contents) = contents"
| "entry_contents (External contents) = contents"
| "entry_contents (Assistant items _) = concat (map item_contents items)"
| "entry_contents (DelegationResult _ outcome) = outcome_content outcome"
| "entry_contents (RuntimeTool _ _ outcome) = outcome_content outcome"

definition checkpoint_contents :: "checkpoint \<Rightarrow> content list" where
  "checkpoint_contents c =
     concat (map entry_contents (history_messages (cp_history c)))
     @ (case cp_state c of StCompleted contents \<Rightarrow> contents | _ \<Rightarrow> [])
     @ concat (map (\<lambda>p. case pc_intent p of IDelegationContext _ contents \<Rightarrow> contents | _ \<Rightarrow> [])
         (ac_commands (cp_active c)))
     @ concat (map (\<lambda>op. case op_last_update op of Some (UpdateContext contents) \<Rightarrow> contents | _ \<Rightarrow> [])
         (om_values (ac_operations (cp_active c))))"

datatype media_kind = SegmentNode | ArchiveNode

inductive media_reach :: "node_reader \<Rightarrow> checkpoint \<Rightarrow> media_kind \<Rightarrow> resource_ref \<Rightarrow> bool"
  for N c where
  reach_cursor: "cursor \<in> set (om_values (ac_media (cp_active c))) \<Longrightarrow> media_reach N c SegmentNode (cur_sealed cursor)"
| reach_archive: "ss_media_archive (cp_session c) = Some r \<Longrightarrow> media_reach N c ArchiveNode r"
| reach_sealed: "media_reach N c ArchiveNode r \<Longrightarrow> nr_archived N r = Some (Inr n)
    \<Longrightarrow> media_reach N c SegmentNode (am_sealed n)"
| reach_older: "media_reach N c ArchiveNode r \<Longrightarrow> nr_archived N r = Some (Inr n)
    \<Longrightarrow> am_previous n = Some r' \<Longrightarrow> media_reach N c ArchiveNode r'"
| reach_previous: "media_reach N c SegmentNode r \<Longrightarrow> nr_sealed N r = Some (Inr n)
    \<Longrightarrow> sm_previous n = Some r' \<Longrightarrow> media_reach N c SegmentNode r'"

definition reached_keys :: "node_reader \<Rightarrow> checkpoint \<Rightarrow> string set" where
  "reached_keys N c = content_keys (checkpoint_contents c)
     \<union> {k. \<exists>kind r. media_reach N c kind r \<and> ref_key r = Some k}
     \<union> {k. \<exists>r n. media_reach N c SegmentNode r \<and> nr_sealed N r = Some (Inr n) \<and> ref_key (sm_resource n) = Some k}"

section \<open>Listing\<close>

definition rs_wf :: "reachable_set \<Rightarrow> bool" where
  "rs_wf f \<longleftrightarrow> distinct (map ref_key (rs_resources f)) \<and> ref_key ` set (rs_resources f) = Some ` rs_keys f"

lemma rs_wf_empty [simp]: "rs_wf reachable_empty"
  by (simp add: rs_wf_def reachable_empty_def)

lemma rs_wf_insert [simp]: "rs_wf f \<Longrightarrow> rs_wf (rs_insert r f)"
  by (auto simp: rs_wf_def rs_insert_def ref_key_Some split: resource_source.splits)
     (auto simp: ref_key.simps split: resource_source.splits)

lemma rs_wf_walked [simp]: "rs_wf (f\<lparr>rs_walked := W\<rparr>) = rs_wf f"
  by (simp add: rs_wf_def)

lemma rs_wf_walk [simp]: "rs_wf f \<Longrightarrow> rs_wf (snd (rs_walk r f))"
  by (simp add: rs_walk_def Let_def split: resource_source.splits)

lemma rs_insert_keys [simp]:
  "rs_keys (rs_insert r f) = rs_keys f \<union> set_option (ref_key r)" "rs_walked (rs_insert r f) = rs_walked f"
  by (auto simp: rs_insert_def ref_key.simps split: resource_source.splits)

lemma rs_walk_keys [simp]:
  "rs_keys (snd (rs_walk r f)) = rs_keys f \<union> set_option (ref_key r)"
  "rs_walked (snd (rs_walk r f)) = rs_walked f \<union> set_option (ref_key r)"
  by (auto simp: rs_walk_def ref_key.simps Let_def split: resource_source.splits)

lemma rs_walk_follow: "fst (rs_walk r f) \<longleftrightarrow> (\<exists>k. ref_key r = Some k \<and> k \<notin> rs_walked f)"
  by (auto simp: rs_walk_def ref_key.simps Let_def split: resource_source.splits)

lemma fold_insert_keys:
  "rs_keys (fold rs_insert rs f) = rs_keys f \<union> {k. \<exists>r \<in> set rs. ref_key r = Some k}"
  "rs_walked (fold rs_insert rs f) = rs_walked f"
  "rs_wf f \<Longrightarrow> rs_wf (fold rs_insert rs f)"
  by (induction rs arbitrary: f) (auto split: option.splits)

lemma rs_contents_keys [simp]:
  "rs_keys (rs_contents cs f) = rs_keys f \<union> content_keys cs" "rs_walked (rs_contents cs f) = rs_walked f"
  "rs_wf f \<Longrightarrow> rs_wf (rs_contents cs f)"
  by (force simp: rs_contents_def fold_insert_keys content_keys_def List.map_filter_def)+

lemma content_keys_append [simp]: "content_keys (cs @ cs') = content_keys cs \<union> content_keys cs'"
  by (auto simp: content_keys_def)

lemma content_keys_Nil [simp]: "content_keys [] = {}"
  by (simp add: content_keys_def)

lemma rs_output_keys [simp]:
  "rs_keys (rs_output i f) = rs_keys f \<union> content_keys (item_contents i)" "rs_walked (rs_output i f) = rs_walked f"
  "rs_wf f \<Longrightarrow> rs_wf (rs_output i f)"
  by (cases i; simp)+

text \<open>A fold of listing steps lists the keys of all of them.\<close>

lemma listing_fold:
  assumes "\<And>x f. rs_keys (g x f) = rs_keys f \<union> content_keys (h x)" "\<And>x f. rs_walked (g x f) = rs_walked f"
    "\<And>x f. rs_wf f \<Longrightarrow> rs_wf (g x f)"
  shows "rs_keys (fold g xs f) = rs_keys f \<union> content_keys (concat (map h xs))
    \<and> rs_walked (fold g xs f) = rs_walked f \<and> (rs_wf f \<longrightarrow> rs_wf (fold g xs f))"
  by (induction xs arbitrary: f) (auto simp: assms)

lemma rs_message_keys [simp]:
  "rs_keys (rs_message m f) = rs_keys f \<union> content_keys (entry_contents m)" "rs_walked (rs_message m f) = rs_walked f"
  "rs_wf f \<Longrightarrow> rs_wf (rs_message m f)"
  using listing_fold [of rs_output item_contents] by (cases m; simp)+

lemma rs_listed_keys:
  "rs_keys (rs_listed c) = content_keys (checkpoint_contents c) \<and> rs_walked (rs_listed c) = {} \<and> rs_wf (rs_listed c)"
proof -
  note history = listing_fold [of "\<lambda>e. rs_message (he_message e)" "\<lambda>e. entry_contents (he_message e)"]
  have state: "rs_keys (rs_state st f) = rs_keys f \<union> content_keys (case st of StCompleted contents \<Rightarrow> contents | _ \<Rightarrow> [])"
    "rs_walked (rs_state st f) = rs_walked f" "rs_wf f \<Longrightarrow> rs_wf (rs_state st f)" for st f
    by (simp_all add: rs_state_def split: run_state.splits)
  note commands = listing_fold [of rs_command
      "\<lambda>p. case pc_intent p of IDelegationContext _ contents \<Rightarrow> contents | _ \<Rightarrow> []"]
  note operations = listing_fold [of rs_operation
      "\<lambda>op. case op_last_update op of Some (UpdateContext contents) \<Rightarrow> contents | _ \<Rightarrow> []"]
  show ?thesis
    unfolding rs_listed_def checkpoint_contents_def history_messages_def
    using history commands operations
    by (auto simp: state rs_command_def rs_operation_def reachable_empty_def [THEN arg_cong [of _ _ rs_keys]]
        reachable_empty_def [THEN arg_cong [of _ _ rs_walked]] o_def
        split: command_intent.splits option.splits operation_update.splits)
qed

section \<open>The loops end\<close>

text \<open>
  Reads return, finitely many keys can be read, and what a node holds depends on its key: what every
  store of the contract gives (\<open>nodes_of_store\<close> below).
\<close>

definition nodes_total :: "node_reader \<Rightarrow> bool" where
  "nodes_total N \<longleftrightarrow> (\<forall>r. nr_sealed N r \<noteq> None \<and> nr_archived N r \<noteq> None)"

definition readable_keys :: "node_reader \<Rightarrow> string set" where
  "readable_keys N = {k. \<exists>r. ref_key r = Some k
     \<and> ((\<exists>n. nr_sealed N r = Some (Inr n)) \<or> (\<exists>n. nr_archived N r = Some (Inr n)))}"

definition nodes_stored :: "node_reader \<Rightarrow> bool" where
  "nodes_stored N \<longleftrightarrow> (\<forall>r. ref_key r = None \<longrightarrow>
     (\<forall>n. nr_sealed N r \<noteq> Some (Inr n)) \<and> (\<forall>n. nr_archived N r \<noteq> Some (Inr n)))"

lemma walk_measure:
  assumes "finite K" "k \<in> K" "k \<notin> W" "insert k W \<subseteq> W'"
  shows "card (K - W') < card (K - W)"
  using assms by (intro psubset_card_mono) auto

lemma rs_sealed_ends:
  assumes total: "nodes_total N" and fin: "finite (readable_keys N)"
  shows "\<exists>x found'. rs_sealed N node found = Some (x, found') \<and> rs_walked found \<subseteq> rs_walked found'"
proof (induction "card (readable_keys N - rs_walked found)" arbitrary: node found rule: less_induct)
  case less
  show ?case
  proof (cases node)
    case None
    then show ?thesis by (subst rs_sealed.simps) simp
  next
    case (Some r)
    obtain follow found' where walk: "rs_walk r found = (follow, found')" by (cases "rs_walk r found")
    have walked: "rs_walked found' = rs_walked found \<union> set_option (ref_key r)"
      using rs_walk_keys(2) [of r found] by (simp add: walk)
    obtain x where read: "nr_sealed N r = Some x" using total by (auto simp: nodes_total_def)
    show ?thesis
    proof (cases "follow \<and> is_ok x")
      case True
      then obtain n k where n: "x = Inr n" and k: "ref_key r = Some k" "k \<notin> rs_walked found"
        using rs_walk_follow [of r found] by (cases x) (auto simp: walk)
      let ?next = "rs_insert (sm_resource n) found'"
      have "k \<in> readable_keys N" using k read n by (auto simp: readable_keys_def)
      then have "card (readable_keys N - rs_walked ?next) < card (readable_keys N - rs_walked found)"
        using walk_measure [OF fin _ k(2), of "rs_walked ?next"] walked k(1) by simp
      from less [OF this, of "sm_previous n"] True show ?thesis
        by (subst rs_sealed.simps) (auto simp: Some walk read n walked)
    next
      case False
      then show ?thesis
        by (subst rs_sealed.simps) (cases x; auto simp: Some walk read walked)
    qed
  qed
qed

lemma rs_cursors_end:
  assumes "nodes_total N" "finite (readable_keys N)"
  shows "\<exists>x found'. rs_cursors N cursors found = Some (x, found')"
proof (induction cursors arbitrary: found)
  case (Cons cursor cursors)
  obtain x found' where "rs_sealed N (Some (cur_sealed cursor)) found = Some (x, found')"
    using rs_sealed_ends [OF assms] by blast
  then show ?case using Cons by (cases x) auto
qed simp

lemma rs_archive_ends:
  assumes total: "nodes_total N" and fin: "finite (readable_keys N)"
  shows "\<exists>x found'. rs_archive N node found = Some (x, found')"
proof (induction "card (readable_keys N - rs_walked found)" arbitrary: node found rule: less_induct)
  case less
  show ?case
  proof (cases node)
    case None
    then show ?thesis by (subst rs_archive.simps) simp
  next
    case (Some r)
    obtain follow found' where walk: "rs_walk r found = (follow, found')" by (cases "rs_walk r found")
    have walked: "rs_walked found' = rs_walked found \<union> set_option (ref_key r)"
      using rs_walk_keys(2) [of r found] by (simp add: walk)
    obtain x where read: "nr_archived N r = Some x" using total by (auto simp: nodes_total_def)
    show ?thesis
    proof (cases "follow \<and> is_ok x")
      case True
      then obtain n k where n: "x = Inr n" and k: "ref_key r = Some k" "k \<notin> rs_walked found"
        using rs_walk_follow [of r found] by (cases x) (auto simp: walk)
      obtain y found'' where sealed: "rs_sealed N (Some (am_sealed n)) found' = Some (y, found'')"
        and grown: "rs_walked found' \<subseteq> rs_walked found''"
        using rs_sealed_ends [OF assms] by blast
      have "k \<in> readable_keys N" using k read n by (auto simp: readable_keys_def)
      then have "card (readable_keys N - rs_walked found'') < card (readable_keys N - rs_walked found)"
        using walk_measure [OF fin _ k(2), of "rs_walked found''"] walked k(1) grown by simp
      from less [OF this, of "am_previous n"] True show ?thesis
        by (subst rs_archive.simps) (cases y; auto simp: Some walk read n sealed)
    next
      case False
      then show ?thesis
        by (subst rs_archive.simps) (cases x; auto simp: Some walk read)
    qed
  qed
qed

lemma rs_reachable_ends:
  assumes "nodes_total N" "finite (readable_keys N)"
  shows "rs_reachable N c \<noteq> None"
proof -
  obtain x found where cursors: "rs_cursors N (om_values (ac_media (cp_active c))) (rs_listed c) = Some (x, found)"
    using rs_cursors_end [OF assms] by blast
  obtain y found' where "rs_archive N (ss_media_archive (cp_session c)) found = Some (y, found')"
    using rs_archive_ends [OF assms] by blast
  then show ?thesis
    by (cases x; cases y) (simp_all add: rs_reachable_def cursors)
qed

section \<open>The list is closed under links\<close>

text \<open>\<open>linked\<close>: what a walked node links to is listed, its older nodes are walked.\<close>

definition node_functional :: "node_reader \<Rightarrow> bool" where
  "node_functional N \<longleftrightarrow> (\<forall>r r' k. ref_key r = Some k \<and> ref_key r' = Some k \<longrightarrow>
     (\<forall>n n'. nr_sealed N r = Some (Inr n) \<and> nr_sealed N r' = Some (Inr n') \<longrightarrow> n = n')
     \<and> (\<forall>n n'. nr_archived N r = Some (Inr n) \<and> nr_archived N r' = Some (Inr n') \<longrightarrow> n = n')
     \<and> \<not> ((\<exists>n. nr_sealed N r = Some (Inr n)) \<and> (\<exists>n. nr_archived N r' = Some (Inr n))))"

definition older_walked :: "resource_ref option \<Rightarrow> reachable_set \<Rightarrow> bool" where
  "older_walked node f \<longleftrightarrow> (\<forall>r k. node = Some r \<longrightarrow> ref_key r = Some k \<longrightarrow> k \<in> rs_walked f)"

definition sealed_linked :: "node_reader \<Rightarrow> reachable_set \<Rightarrow> string \<Rightarrow> bool" where
  "sealed_linked N f k \<longleftrightarrow> (\<exists>r n. ref_key r = Some k \<and> nr_sealed N r = Some (Inr n)
     \<and> set_option (ref_key (sm_resource n)) \<subseteq> rs_keys f \<and> older_walked (sm_previous n) f)"

definition archive_linked :: "node_reader \<Rightarrow> reachable_set \<Rightarrow> string \<Rightarrow> bool" where
  "archive_linked N f k \<longleftrightarrow> (\<exists>r n. ref_key r = Some k \<and> nr_archived N r = Some (Inr n)
     \<and> older_walked (Some (am_sealed n)) f \<and> older_walked (am_previous n) f)"

definition closed :: "node_reader \<Rightarrow> string set \<Rightarrow> reachable_set \<Rightarrow> bool" where
  "closed N pending f \<longleftrightarrow> rs_wf f \<and> rs_walked f \<subseteq> rs_keys f
     \<and> (\<forall>k \<in> rs_walked f - pending. sealed_linked N f k \<or> archive_linked N f k)"

definition grows :: "reachable_set \<Rightarrow> reachable_set \<Rightarrow> bool" where
  "grows f f' \<longleftrightarrow> rs_keys f \<subseteq> rs_keys f' \<and> rs_walked f \<subseteq> rs_walked f'"

lemma grows_refl [simp]: "grows f f"
  by (simp add: grows_def)

lemma grows_trans: "grows f g \<Longrightarrow> grows g h \<Longrightarrow> grows f h"
  by (auto simp: grows_def)

lemma grows_walk [simp]: "grows f (snd (rs_walk r f))"
  by (simp add: grows_def)

lemma grows_insert [simp]: "grows f (rs_insert r f)"
  by (auto simp: grows_def)

lemma older_walked_grows: "older_walked node f \<Longrightarrow> grows f f' \<Longrightarrow> older_walked node f'"
  by (auto simp: older_walked_def grows_def)

lemma linked_grows:
  "sealed_linked N f k \<Longrightarrow> grows f f' \<Longrightarrow> sealed_linked N f' k"
  "archive_linked N f k \<Longrightarrow> grows f f' \<Longrightarrow> archive_linked N f' k"
proof -
  assume "sealed_linked N f k" "grows f f'"
  then show "sealed_linked N f' k"
    unfolding sealed_linked_def using older_walked_grows [of _ f f'] by (metis grows_def subset_trans)
next
  assume "archive_linked N f k" "grows f f'"
  then show "archive_linked N f' k"
    unfolding archive_linked_def using older_walked_grows [of _ f f'] by metis
qed

lemma closed_walk:
  assumes "closed N P f" "ref_key r = Some k"
  shows "closed N (insert k P) (snd (rs_walk r f))"
  using assms linked_grows [of N f _ "snd (rs_walk r f)"] by (auto simp: closed_def)

lemma closed_walk_seen:
  assumes "closed N P f" "\<not> fst (rs_walk r f)"
  shows "closed N P (snd (rs_walk r f)) \<and> older_walked (Some r) (snd (rs_walk r f))"
  using assms linked_grows [of N f _ "snd (rs_walk r f)"]
  by (cases "ref_key r") (auto simp: closed_def rs_walk_follow older_walked_def insert_absorb)

lemma closed_insert: "closed N P f \<Longrightarrow> closed N P (rs_insert r f)"
  using linked_grows [of N f _ "rs_insert r f"] by (auto simp: closed_def)

lemma closed_settle:
  assumes "closed N (insert k P) f" "sealed_linked N f k \<or> archive_linked N f k"
  shows "closed N P f"
  using assms by (auto simp: closed_def)

lemma rs_sealed_closed:
  assumes "rs_sealed N node f = Some (Inr (), f')" "closed N P f"
  shows "closed N P f' \<and> grows f f' \<and> older_walked node f'"
proof -
  have "rs_sealed N node f = Some y \<Longrightarrow>
    \<forall>P. fst y = Inr () \<longrightarrow> closed N P f \<longrightarrow> closed N P (snd y) \<and> grows f (snd y) \<and> older_walked node (snd y)" for y
  proof (rule rs_sealed.raw_induct [where P = "\<lambda>N node f y. \<forall>P. fst y = Inr () \<longrightarrow> closed N P f \<longrightarrow>
      closed N P (snd y) \<and> grows f (snd y) \<and> older_walked node (snd y)"], goal_cases)
    case (1 loop N node f y)
    note IH = 1(2) and body = 1(3)
    show ?case
    proof (cases node)
      case None
      then have "y = (Inr (), f)" using body by simp
      then show ?thesis by (simp add: None older_walked_def)
    next
      case (Some r)
      obtain follow f1 where walk: "rs_walk r f = (follow, f1)" by (cases "rs_walk r f")
      show ?thesis
      proof (cases follow)
        case False
        then have "y = (Inr (), f1)" using body by (simp add: Some walk)
        then show ?thesis
          using closed_walk_seen [of N _ f r] grows_walk [of f r] False by (simp add: Some walk)
      next
        case True
        then obtain k where k: "ref_key r = Some k" using rs_walk_follow [of r f] by (auto simp: walk)
        show ?thesis
        proof (intro allI impI)
          fix P assume ok: "fst y = Inr ()" and cl: "closed N P f"
          obtain n where n: "nr_sealed N r = Some (Inr n)"
            and rest: "loop N (sm_previous n) (rs_insert (sm_resource n) f1) = Some y"
            using body True ok by (auto simp: Some walk split: option.splits sum.splits)
          let ?f2 = "rs_insert (sm_resource n) f1"
          have "closed N (insert k P) ?f2" using closed_walk [OF cl k] closed_insert by (simp add: walk)
          with IH [OF rest] ok have tail: "closed N (insert k P) (snd y)" "grows ?f2 (snd y)"
              "older_walked (sm_previous n) (snd y)" by auto
          have f1: "k \<in> rs_walked f1" using rs_walk_keys(2) [of r f] k by (simp add: walk)
          have "sealed_linked N (snd y) k"
            using k n tail(2,3) unfolding sealed_linked_def grows_def by auto
          then have "closed N P (snd y)" using closed_settle tail(1) by blast
          moreover have "grows f (snd y)"
            using grows_walk [of f r] grows_insert [of f1] tail(2) grows_trans by (metis snd_conv walk)
          moreover have "older_walked node (snd y)"
            using f1 tail(2) k by (auto simp: older_walked_def Some grows_def)
          ultimately show "closed N P (snd y) \<and> grows f (snd y) \<and> older_walked node (snd y)" by blast
        qed
      qed
    qed
  qed
  from this [OF assms(1)] assms(2) show ?thesis by simp
qed

lemma rs_cursors_closed:
  assumes "rs_cursors N cursors f = Some (Inr (), f')" "closed N P f"
  shows "closed N P f' \<and> grows f f' \<and> (\<forall>cursor \<in> set cursors. older_walked (Some (cur_sealed cursor)) f')"
  using assms
proof (induction cursors arbitrary: f)
  case (Cons cursor cursors)
  obtain f1 where first: "rs_sealed N (Some (cur_sealed cursor)) f = Some (Inr (), f1)"
    and rest: "rs_cursors N cursors f1 = Some (Inr (), f')"
    using Cons.prems(1) by (auto split: option.splits sum.splits)
  note head = rs_sealed_closed [OF first Cons.prems(2)]
  note tail = Cons.IH [OF rest]
  show ?case
    using head tail grows_trans [of f f1 f'] older_walked_grows [of _ f1 f'] by auto
qed simp

lemma rs_archive_closed:
  assumes "rs_archive N node f = Some (Inr (), f')" "closed N P f"
  shows "closed N P f' \<and> grows f f' \<and> older_walked node f'"
proof -
  have "rs_archive N node f = Some y \<Longrightarrow>
    \<forall>P. fst y = Inr () \<longrightarrow> closed N P f \<longrightarrow> closed N P (snd y) \<and> grows f (snd y) \<and> older_walked node (snd y)" for y
  proof (rule rs_archive.raw_induct [where P = "\<lambda>N node f y. \<forall>P. fst y = Inr () \<longrightarrow> closed N P f \<longrightarrow>
      closed N P (snd y) \<and> grows f (snd y) \<and> older_walked node (snd y)"], goal_cases)
    case (1 loop N node f y)
    note IH = 1(2) and body = 1(3)
    show ?case
    proof (cases node)
      case None
      then have "y = (Inr (), f)" using body by simp
      then show ?thesis by (simp add: None older_walked_def)
    next
      case (Some r)
      obtain follow f1 where walk: "rs_walk r f = (follow, f1)" by (cases "rs_walk r f")
      show ?thesis
      proof (cases follow)
        case False
        then have "y = (Inr (), f1)" using body by (simp add: Some walk)
        then show ?thesis
          using closed_walk_seen [of N _ f r] grows_walk [of f r] False by (simp add: Some walk)
      next
        case True
        then obtain k where k: "ref_key r = Some k" using rs_walk_follow [of r f] by (auto simp: walk)
        show ?thesis
        proof (intro allI impI)
          fix P assume ok: "fst y = Inr ()" and cl: "closed N P f"
          obtain n f2 where n: "nr_archived N r = Some (Inr n)"
            and sealed: "rs_sealed N (Some (am_sealed n)) f1 = Some (Inr (), f2)"
            and rest: "loop N (am_previous n) f2 = Some y"
            using body True ok by (auto simp: Some walk split: option.splits sum.splits)
          have "closed N (insert k P) f1" using closed_walk [OF cl k] by (simp add: walk)
          note inner = rs_sealed_closed [OF sealed this]
          with IH [OF rest] ok have tail: "closed N (insert k P) (snd y)" "grows f2 (snd y)"
              "older_walked (am_previous n) (snd y)" by auto
          have f1: "k \<in> rs_walked f1" using rs_walk_keys(2) [of r f] k by (simp add: walk)
          have grown: "grows f1 (snd y)" using inner tail(2) grows_trans by blast
          have "archive_linked N (snd y) k"
            using k n tail(3) inner older_walked_grows [OF _ tail(2)] unfolding archive_linked_def by blast
          then have "closed N P (snd y)" using closed_settle tail(1) by blast
          moreover have "grows f (snd y)"
            using grows_walk [of f r] grown grows_trans by (metis snd_conv walk)
          moreover have "older_walked node (snd y)"
            using f1 grown k by (auto simp: older_walked_def Some grows_def)
          ultimately show "closed N P (snd y) \<and> grows f (snd y) \<and> older_walked node (snd y)" by blast
        qed
      qed
    qed
  qed
  from this [OF assms(1)] assms(2) show ?thesis by simp
qed

section \<open>Nothing else is listed\<close>

lemma reached_walk:
  assumes "media_reach N c kind r" "rs_keys f \<subseteq> reached_keys N c"
  shows "rs_keys (snd (rs_walk r f)) \<subseteq> reached_keys N c"
  using assms by (fastforce simp: reached_keys_def)

lemma rs_sealed_only:
  assumes "rs_sealed N node f = Some y" "\<And>r. node = Some r \<Longrightarrow> media_reach N c SegmentNode r"
    "rs_keys f \<subseteq> reached_keys N c"
  shows "rs_keys (snd y) \<subseteq> reached_keys N c"
proof -
  have "(\<forall>r. node = Some r \<longrightarrow> media_reach N c SegmentNode r) \<longrightarrow> rs_keys f \<subseteq> reached_keys N c
      \<longrightarrow> rs_keys (snd y) \<subseteq> reached_keys N c"
    using assms(1)
  proof (rule rs_sealed.raw_induct [where P = "\<lambda>N node f y. (\<forall>r. node = Some r \<longrightarrow> media_reach N c SegmentNode r)
      \<longrightarrow> rs_keys f \<subseteq> reached_keys N c \<longrightarrow> rs_keys (snd y) \<subseteq> reached_keys N c", rotated], goal_cases)
    case (1 loop N node f y)
    note IH = 1(1) and body = 1(2)
    show ?case
    proof (intro impI)
      assume start: "\<forall>r. node = Some r \<longrightarrow> media_reach N c SegmentNode r" and keys: "rs_keys f \<subseteq> reached_keys N c"
      show "rs_keys (snd y) \<subseteq> reached_keys N c"
      proof (cases node)
        case None
        then show ?thesis using body keys by auto
      next
        case (Some r)
        obtain follow f1 where walk: "rs_walk r f = (follow, f1)" by (cases "rs_walk r f")
        have r: "media_reach N c SegmentNode r" using start Some by simp
        have f1: "rs_keys f1 \<subseteq> reached_keys N c" using reached_walk [OF r keys] by (simp add: walk)
        consider e where "y = (Inl e, f1)" | "y = (Inr (), f1)"
          | n where "nr_sealed N r = Some (Inr n)" "loop N (sm_previous n) (rs_insert (sm_resource n) f1) = Some y"
          using body by (auto simp: Some walk split: if_splits option.splits sum.splits)
        then show ?thesis
        proof cases
          case (3 n)
          have "rs_keys (rs_insert (sm_resource n) f1) \<subseteq> reached_keys N c"
            using f1 r 3(1) by (fastforce simp: reached_keys_def)
          then show ?thesis using IH [OF 3(2)] reach_previous [OF r 3(1)] by blast
        qed (use f1 in simp_all)
      qed
    qed
  qed
  then show ?thesis using assms(2,3) by blast
qed

lemma rs_cursors_only:
  assumes "rs_cursors N cursors f = Some y" "\<And>cursor. cursor \<in> set cursors \<Longrightarrow> media_reach N c SegmentNode (cur_sealed cursor)"
    "rs_keys f \<subseteq> reached_keys N c"
  shows "rs_keys (snd y) \<subseteq> reached_keys N c"
  using assms
proof (induction cursors arbitrary: f)
  case (Cons cursor cursors)
  obtain x f1 where first: "rs_sealed N (Some (cur_sealed cursor)) f = Some (x, f1)"
    using Cons.prems(1) by (auto split: option.splits)
  have "rs_keys f1 \<subseteq> reached_keys N c"
    using rs_sealed_only [OF first, of c] Cons.prems(2,3) by simp
  then show ?case
    using Cons.IH [of f1] Cons.prems(1,2) by (cases x) (auto simp: first)
qed auto

lemma rs_archive_only:
  assumes "rs_archive N node f = Some y" "\<And>r. node = Some r \<Longrightarrow> media_reach N c ArchiveNode r"
    "rs_keys f \<subseteq> reached_keys N c"
  shows "rs_keys (snd y) \<subseteq> reached_keys N c"
proof -
  have "(\<forall>r. node = Some r \<longrightarrow> media_reach N c ArchiveNode r) \<longrightarrow> rs_keys f \<subseteq> reached_keys N c
      \<longrightarrow> rs_keys (snd y) \<subseteq> reached_keys N c"
    using assms(1)
  proof (rule rs_archive.raw_induct [where P = "\<lambda>N node f y. (\<forall>r. node = Some r \<longrightarrow> media_reach N c ArchiveNode r)
      \<longrightarrow> rs_keys f \<subseteq> reached_keys N c \<longrightarrow> rs_keys (snd y) \<subseteq> reached_keys N c", rotated], goal_cases)
    case (1 loop N node f y)
    note IH = 1(1) and body = 1(2)
    show ?case
    proof (intro impI)
      assume start: "\<forall>r. node = Some r \<longrightarrow> media_reach N c ArchiveNode r" and keys: "rs_keys f \<subseteq> reached_keys N c"
      show "rs_keys (snd y) \<subseteq> reached_keys N c"
      proof (cases node)
        case None
        then show ?thesis using body keys by auto
      next
        case (Some r)
        obtain follow f1 where walk: "rs_walk r f = (follow, f1)" by (cases "rs_walk r f")
        have r: "media_reach N c ArchiveNode r" using start Some by simp
        have f1: "rs_keys f1 \<subseteq> reached_keys N c" using reached_walk [OF r keys] by (simp add: walk)
        consider e where "y = (Inl e, f1)" | "y = (Inr (), f1)"
          | n z where "nr_archived N r = Some (Inr n)" "rs_sealed N (Some (am_sealed n)) f1 = Some z"
            "(\<exists>e. y = (Inl e, snd z)) \<or> loop N (am_previous n) (snd z) = Some y"
          using body by (auto simp: Some walk split: if_splits option.splits sum.splits)
        then show ?thesis
        proof cases
          case (3 n z)
          have "rs_keys (snd z) \<subseteq> reached_keys N c"
            using rs_sealed_only [OF 3(2) _ f1] reach_sealed [OF r 3(1)] by simp
          then show ?thesis using IH [of N "am_previous n" "snd z" y] 3(3) reach_older [OF r 3(1)] by auto
        qed (use f1 in simp_all)
      qed
    qed
  qed
  then show ?thesis using assms(2,3) by blast
qed

section \<open>The traversal as a whole\<close>

lemma stored_nodes_keyed:
  assumes "nodes_stored N"
  shows "nr_sealed N r = Some (Inr n) \<Longrightarrow> \<exists>k. ref_key r = Some k"
    and "nr_archived N r = Some (Inr m) \<Longrightarrow> \<exists>k. ref_key r = Some k"
  using assms by (auto simp: nodes_stored_def)

lemma functional_nodes:
  assumes "node_functional N" "ref_key r = Some k" "ref_key r' = Some k"
  shows "nr_sealed N r = Some (Inr n) \<Longrightarrow> nr_sealed N r' = Some (Inr n') \<Longrightarrow> n = n'"
    and "nr_archived N r = Some (Inr m) \<Longrightarrow> nr_archived N r' = Some (Inr m') \<Longrightarrow> m = m'"
    and "nr_sealed N r = Some (Inr n) \<Longrightarrow> nr_archived N r' \<noteq> Some (Inr m')"
  using assms unfolding node_functional_def by blast+

lemma linked_sealed:
  assumes "node_functional N" "closed N {} f" "ref_key r = Some k" "nr_sealed N r = Some (Inr n)" "k \<in> rs_walked f"
  shows "set_option (ref_key (sm_resource n)) \<subseteq> rs_keys f \<and> older_walked (sm_previous n) f"
proof -
  have "sealed_linked N f k \<or> archive_linked N f k" using assms(2,5) by (simp add: closed_def)
  then show ?thesis
  proof
    assume "sealed_linked N f k"
    then obtain r' n' where node: "ref_key r' = Some k" "nr_sealed N r' = Some (Inr n')"
      and links: "set_option (ref_key (sm_resource n')) \<subseteq> rs_keys f" "older_walked (sm_previous n') f"
      unfolding sealed_linked_def by blast
    show ?thesis using links functional_nodes(1) [OF assms(1,3) node(1) assms(4) node(2)] by simp
  next
    assume "archive_linked N f k"
    then obtain r' n' where "ref_key r' = Some k" "nr_archived N r' = Some (Inr n')"
      unfolding archive_linked_def by blast
    then show ?thesis using functional_nodes(3) [OF assms(1,3) _ assms(4)] by simp
  qed
qed

lemma linked_archive:
  assumes "node_functional N" "closed N {} f" "ref_key r = Some k" "nr_archived N r = Some (Inr n)" "k \<in> rs_walked f"
  shows "older_walked (Some (am_sealed n)) f \<and> older_walked (am_previous n) f"
proof -
  have "sealed_linked N f k \<or> archive_linked N f k" using assms(2,5) by (simp add: closed_def)
  then show ?thesis
  proof
    assume "sealed_linked N f k"
    then obtain r' n' where node: "ref_key r' = Some k" "nr_sealed N r' = Some (Inr n')"
      unfolding sealed_linked_def by blast
    show ?thesis using functional_nodes(3) [OF assms(1) node(1) assms(3) node(2)] assms(4) by blast
  next
    assume "archive_linked N f k"
    then obtain r' n' where node: "ref_key r' = Some k" "nr_archived N r' = Some (Inr n')"
      and links: "older_walked (Some (am_sealed n')) f" "older_walked (am_previous n') f"
      unfolding archive_linked_def by blast
    show ?thesis using links functional_nodes(2) [OF assms(1,3) node(1) assms(4) node(2)] by simp
  qed
qed

lemma reached_are_walked:
  assumes "media_reach N c kind r" "nodes_stored N" "node_functional N" "closed N {} f"
    "\<forall>cursor \<in> set (om_values (ac_media (cp_active c))). older_walked (Some (cur_sealed cursor)) f"
    "older_walked (ss_media_archive (cp_session c)) f"
  shows "older_walked (Some r) f"
  using assms(1)
proof (induction rule: media_reach.induct)
  case (reach_cursor cursor)
  then show ?case using assms(5) by blast
next
  case (reach_archive r)
  then show ?case using assms(6) by simp
next
  case (reach_sealed r n)
  obtain k where k: "ref_key r = Some k"
    using stored_nodes_keyed(2) [OF assms(2) reach_sealed(2)] by blast
  have "k \<in> rs_walked f" using reach_sealed.IH k unfolding older_walked_def by blast
  from linked_archive [OF assms(3,4) k reach_sealed(2) this] show ?case by simp
next
  case (reach_older r n r')
  obtain k where k: "ref_key r = Some k"
    using stored_nodes_keyed(2) [OF assms(2) reach_older(2)] by blast
  have "k \<in> rs_walked f" using reach_older.IH k unfolding older_walked_def by blast
  from linked_archive [OF assms(3,4) k reach_older(2) this] show ?case using reach_older(3) by simp
next
  case (reach_previous r n r')
  obtain k where k: "ref_key r = Some k"
    using stored_nodes_keyed(1) [OF assms(2) reach_previous(2)] by blast
  have "k \<in> rs_walked f" using reach_previous.IH k unfolding older_walked_def by blast
  from linked_sealed [OF assms(3,4) k reach_previous(2) this] show ?case using reach_previous(3) by simp
qed

lemma rs_reachable_lists:
  assumes "rs_reachable N c = Some (Inr refs)" "nodes_stored N" "node_functional N"
  shows "distinct (map ref_key refs) \<and> ref_key ` set refs = Some ` reached_keys N c"
proof -
  let ?cursors = "om_values (ac_media (cp_active c))" and ?archive = "ss_media_archive (cp_session c)"
  obtain f1 f2 where cursors: "rs_cursors N ?cursors (rs_listed c) = Some (Inr (), f1)"
    and archive: "rs_archive N ?archive f1 = Some (Inr (), f2)" and refs: "refs = rs_resources f2"
    using assms(1) by (auto simp: rs_reachable_def split: option.splits sum.splits)
  have "closed N {} (rs_listed c)" using rs_listed_keys [of c] by (simp add: closed_def)
  note first = rs_cursors_closed [OF cursors this]
  then have "closed N {} f1" by blast
  note second = rs_archive_closed [OF archive this]
  then have cl: "closed N {} f2" by blast
  have start: "\<forall>cursor \<in> set ?cursors. older_walked (Some (cur_sealed cursor)) f2" "older_walked ?archive f2"
    using first second older_walked_grows [of _ f1 f2] by auto
  note walked = reached_are_walked [OF _ assms(2,3) cl start]
  have sub: "rs_walked f2 \<subseteq> rs_keys f2" using cl by (simp add: closed_def)
  have "k \<in> rs_keys f2" if "media_reach N c SegmentNode r" "nr_sealed N r = Some (Inr n)"
    "ref_key (sm_resource n) = Some k" for k r n
  proof -
    obtain j where j: "ref_key r = Some j"
      using stored_nodes_keyed(1) [OF assms(2) \<open>nr_sealed N r = Some (Inr n)\<close>] by blast
    then show ?thesis
      using linked_sealed [OF assms(3) cl j that(2)] walked [OF that(1)] that(3) by (simp add: older_walked_def)
  qed
  moreover have "k \<in> rs_keys f2" if "media_reach N c kind r" "ref_key r = Some k" for k kind r
    using walked [OF that(1)] that(2) sub by (auto simp: older_walked_def)
  moreover have "content_keys (checkpoint_contents c) \<subseteq> rs_keys f2"
    using rs_listed_keys [of c] first second by (auto simp: grows_def)
  ultimately have "reached_keys N c \<subseteq> rs_keys f2" by (auto simp: reached_keys_def)
  moreover have "rs_keys f2 \<subseteq> reached_keys N c"
  proof -
    have "rs_keys (rs_listed c) \<subseteq> reached_keys N c" using rs_listed_keys [of c] by (auto simp: reached_keys_def)
    then have "rs_keys f1 \<subseteq> reached_keys N c"
      using rs_cursors_only [OF cursors, of c] reach_cursor by simp
    then show ?thesis using rs_archive_only [OF archive, of c] reach_archive by simp
  qed
  ultimately have "rs_keys f2 = reached_keys N c" by blast
  then show ?thesis using cl by (auto simp: closed_def rs_wf_def refs)
qed

section \<open>The nodes of a store\<close>

definition parses_apart :: "(bytes \<Rightarrow> string + sealed_media) \<Rightarrow> (bytes \<Rightarrow> string + archived_media) \<Rightarrow> bool" where
  "parses_apart ps pa \<longleftrightarrow> (\<forall>bs. \<not> (is_ok (ps bs) \<and> is_ok (pa bs)))"

lemma read_node_Inr:
  "read_node op rd parse r = Some (Inr n) \<longleftrightarrow> (\<exists>bs. fetch_bytes op rd node_limit r = Some (Inr bs) \<and> parse bs = Inr n)"
  by (auto simp: read_node_def split: option.splits sum.splits)

context resource_store begin

lemma read_node_bytes:
  assumes "store_ok s" "read_node (open_at f s) (read_some g) parse r = Some (Inr n)"
  shows "\<exists>k mt bs. ref_key r = Some k \<and> lookup s k = Some (mt, bs) \<and> parse bs = Inr n"
  using assms(2) fetch_sound [OF assms(1)] by (fastforce simp: read_node_Inr stored_key_Inr ref_key_Some)

lemma read_node_total: "store_ok s \<Longrightarrow> read_node (open_at f s) (read_some g) parse r \<noteq> None"
  using fetch_total [of s f g node_limit r] by (auto simp: read_node_def split: option.splits sum.splits)

lemma store_nodes_end:
  assumes "store_ok s" "finite {k. lookup s k \<noteq> None}"
  shows "nodes_total (store_nodes (open_at f s) (read_some g) ps pa)
    \<and> finite (readable_keys (store_nodes (open_at f s) (read_some g) ps pa))"
proof
  show "nodes_total (store_nodes (open_at f s) (read_some g) ps pa)"
    using read_node_total [OF assms(1), of f g ps] read_node_total [OF assms(1), of f g pa]
    by (simp add: nodes_total_def store_nodes_def)
  have "readable_keys (store_nodes (open_at f s) (read_some g) ps pa) \<subseteq> {k. lookup s k \<noteq> None}"
    using read_node_bytes [OF assms(1), of f g ps] read_node_bytes [OF assms(1), of f g pa]
    by (fastforce simp: readable_keys_def store_nodes_def)
  then show "finite (readable_keys (store_nodes (open_at f s) (read_some g) ps pa))"
    using assms(2) by (rule finite_subset)
qed

lemma nodes_of_store:
  fixes f g :: 'f
  assumes "store_ok s" "parses_apart ps pa"
  defines "N \<equiv> store_nodes (open_at f s) (read_some g) ps pa"
  shows "nodes_stored N \<and> node_functional N"
proof -
  note sealed = read_node_bytes [OF assms(1), of f g ps] and archived = read_node_bytes [OF assms(1), of f g pa]
  have "nodes_stored N"
    using sealed archived by (fastforce simp: nodes_stored_def N_def store_nodes_def)
  moreover have "node_functional N"
    unfolding node_functional_def
  proof (intro allI impI conjI notI)
    fix r r' k assume keys: "ref_key r = Some k \<and> ref_key r' = Some k"
    show "n = n'" if "nr_sealed N r = Some (Inr n) \<and> nr_sealed N r' = Some (Inr n')" for n n'
      using that keys sealed [of r n] sealed [of r' n'] by (auto simp: N_def store_nodes_def)
    show "n = n'" if "nr_archived N r = Some (Inr n) \<and> nr_archived N r' = Some (Inr n')" for n n'
      using that keys archived [of r n] archived [of r' n'] by (auto simp: N_def store_nodes_def)
    assume "(\<exists>n. nr_sealed N r = Some (Inr n)) \<and> (\<exists>n. nr_archived N r' = Some (Inr n))"
    then obtain n n' where "nr_sealed N r = Some (Inr n)" "nr_archived N r' = Some (Inr n')" by blast
    then obtain sb where "ps sb = Inr n" "pa sb = Inr n'"
      using keys sealed [of r n] archived [of r' n'] by (auto simp: N_def store_nodes_def)
    then show False using assms(2) by (metis is_ok_simps(2) parses_apart_def)
  qed
  ultimately show ?thesis by blast
qed

end

lemma finite_om_keys: "finite {k. om_get m k \<noteq> None}"
  using finite_dom_map_of [of m] by (simp add: om_get_def dom_def)

lemma mem_lookup_finite: "finite {k. mem_lookup m k \<noteq> None}"
  using finite_om_keys [of m] by (simp add: mem_lookup_def)

lemma fs_lookup_finite: "finite {k. fs_lookup (X, d) k \<noteq> None}"
  by (rule finite_subset [OF _ finite_om_keys [of "fs_files d"]])
     (auto simp: fs_lookup_def split: if_splits option.splits)

end
