(* ===== verification/Resource_Properties.thy ===== *)
theory Resource_Properties
  imports Resource_Reach Samples
begin

text \<open>
  The properties of the resource stores and of the traversal that finds the resources of a
  checkpoint, with the inputs at which they are applied and two limits of the filesystem store.
\<close>

section \<open>The filesystem store\<close>

text \<open>
  C22: what the filesystem store accepted under a key is what is read from the returned reference, in
  whatever pieces the system returns the file, and whatever is stored afterwards, with any failures.
\<close>

theorem filesystem_resource_roundtrip:
  assumes "resource_env_ok X" "fs_put f key mt chunks (X, d) = (Inr ref, s')" "fs_faithful (X, d) key mt chunks"
    and "fs_quiet g" "fs_quiet h" "length (concat chunks) \<le> limit"
  shows "fetch_bytes (fs_store_open g (fold (\<lambda>(f, key, mt, chunks) s. snd (fs_put f key mt chunks s)) puts s'))
     (fs_store_read h) limit ref = Some (Inr (concat chunks))"
  using fs.put_then_fetch [of "(X, d)" f key mt chunks ref s' g h limit puts] assms by simp

text \<open>A hash, a header text and a system that returns at most three bytes per read.\<close>

definition sample_header_parse :: "bytes \<Rightarrow> string + json" where
  "sample_header_parse bs = Inr (header_json (map (\<lambda>b. char_of (unat b)) bs))"

definition sample_header_text :: "json \<Rightarrow> string + bytes" where
  "sample_header_text v = (case json_field v ''media_type'' of String mt \<Rightarrow> Inr (utf8 mt) | _ \<Rightarrow> Inl ''no header'')"

definition sample_resource_env :: resource_env where
  "sample_resource_env = \<lparr>rv_sha256 = sample_hash, rv_to_json = sample_header_text,
     rv_from_json = sample_header_parse, rv_read = (\<lambda>n bs. min (min n 3) (length bs))\<rparr>"

definition calm_weather :: fs_weather where
  "calm_weather = (\<lambda>_ _. None)"

definition sample_fs_root :: fs_root where
  "sample_fs_root = \<lparr>fs_marker = Some resource_format, fs_names = [], fs_shards = [], fs_files = []\<rparr>"

definition sample_put :: "resource_ref result \<times> fs_store" where
  "sample_put = fs_put calm_weather ''a'' ''audio/pcm'' [[1, 2], [3, 4, 5]] (sample_resource_env, sample_fs_root)"

lemma sample_resource_env_ok: "resource_env_ok sample_resource_env"
proof -
  have "char_of (unat (of_nat (of_char c) :: 8 word)) = c" for c
  proof -
    have "of_char c < (256 :: nat)" by (cases c) (simp add: of_char_def bool.split)
    then show ?thesis by (simp add: unsigned_of_nat take_bit_nat_eq_self)
  qed
  then have "map (\<lambda>b. char_of (unat b)) (utf8 s) = s" for s
    by (simp add: utf8_def map_idI)
  then show ?thesis
    by (auto simp: resource_env_ok_def sample_resource_env_def sample_hash_def sample_header_parse_def
        sample_header_text_def header_json_def json_field_def)
qed

lemma calm_weather_quiet: "fs_quiet calm_weather"
  by (simp add: fs_quiet_def calm_def calm_weather_def)

theorem filesystem_resource_roundtrip_witness:
  "\<exists>ref s'. fs_put calm_weather ''a'' ''audio/pcm'' [[1, 2], [3, 4, 5]] (sample_resource_env, sample_fs_root) = (Inr ref, s')
     \<and> fetch_bytes (fs_store_open calm_weather
          (snd (fs_put calm_weather ''b'' ''audio/pcm'' [[9]] s'))) (fs_store_read calm_weather) 8 ref
       = Some (Inr [1, 2, 3, 4, 5])"
proof -
  have "is_ok (fst sample_put)" by code_simp
  then obtain ref where put: "fs_put calm_weather ''a'' ''audio/pcm'' [[1, 2], [3, 4, 5]] (sample_resource_env, sample_fs_root)
      = (Inr ref, snd sample_put)"
    by (auto simp: is_ok_def prod_eq_iff sample_put_def split: sum.splits)
  have faithful: "fs_faithful (sample_resource_env, sample_fs_root) ''a'' ''audio/pcm'' [[1, 2], [3, 4, 5]]"
    by code_simp
  from filesystem_resource_roundtrip [OF sample_resource_env_ok put faithful calm_weather_quiet calm_weather_quiet,
      of 8 "[(calm_weather, ''b'', ''audio/pcm'', [[9]])]"]
  show ?thesis using put by auto
qed

text \<open>
  An append whose system call fails after some bytes leaves them in the temporary file, and the
  sequence the writer expects is unchanged: appending the chunk again stores those bytes twice.
\<close>

theorem failed_append_leaves_bytes:
  assumes "F 0 = Some (message, written)" "G 0 = None" "fw_temp w = Some temp"
  shows "fs_append F (fw_sequence w) bs w = (Inl (io_error message), snd (fs_append F (fw_sequence w) bs w))
    \<and> fst (fs_append G (fw_sequence w) bs (snd (fs_append F (fw_sequence w) bs w))) = Inr ()
    \<and> fw_temp (snd (fs_append G (fw_sequence w) bs (snd (fs_append F (fw_sequence w) bs w))))
        = Some (temp @ take written bs @ bs)"
  using assms by (simp add: fs_append_def)

text \<open>A media type whose header is longer than 65536 bytes is stored and can never be opened.\<close>

theorem long_header_is_unreadable:
  assumes "rv_to_json X (header_json mt) = Inr header" "65536 < length header" "length header < 2 ^ 64"
    and "om_get (fs_files d) k = Some (resource_file header chunks)" "fs_quiet g"
    and "stored_key ref = Inr k" "file_key_ok k"
  shows "fs_open X (g 0) ref d = Inl (Invalid ''invalid resource header'')"
proof -
  have "unat (of_nat (length header) :: u64) = length header"
    using assms(3) by (simp add: unsigned_of_nat take_bit_nat_eq_self)
  then have "(65536 :: u64) < of_nat (length header)"
    using assms(2) by (simp add: word_less_nat_alt)
  then show ?thesis
    using assms(4-7) by (simp add: fs_open_def file_key_Inr [THEN iffD2] fs_quiet_def fs_read_header_def resource_file_def)
qed

section \<open>Reachable resources\<close>

text \<open>
  Finding the reachable resources of a checkpoint ends, also when the nodes in the store form
  cycles, and with any failures of the system.
\<close>

theorem reachable_resources_end:
  assumes "resource_env_ok X"
  shows "rs_reachable (store_nodes (fs_store_open f (X, d)) (fs_store_read g) ps pa) c \<noteq> None"
  using rs_reachable_ends fs.store_nodes_end [of "(X, d)" f g ps pa] fs_lookup_finite assms by auto

theorem reachable_resources_end_witness:
  "rs_reachable (store_nodes (fs_store_open calm_weather (sample_resource_env, sample_fs_root))
     (fs_store_read calm_weather) (\<lambda>_. Inl ''x'') (\<lambda>_. Inl ''x'')) sample_working \<noteq> None"
  using reachable_resources_end [OF sample_resource_env_ok] by blast

text \<open>
  C23: the list of reachable resources has every stored resource the checkpoint can reach, through its
  contents, its media cursors and its archive, no other one, and none twice.
\<close>

theorem reachable_resources_exact:
  assumes "parses_apart ps pa" "rs_reachable (store_nodes (mem_open m) mem_read ps pa) c = Some (Inr refs)"
  shows "distinct (map ref_key refs)
    \<and> ref_key ` set refs = Some ` reached_keys (store_nodes (mem_open m) mem_read ps pa) c"
  using rs_reachable_lists [OF assms(2)] mem.nodes_of_store [where s = m and ps = ps and pa = pa] assms(1) by simp

text \<open>A message with a resource, and an archive node that links to a segment.\<close>

definition stored_ref :: "string \<Rightarrow> resource_ref" where
  "stored_ref key = stored_reference key key ''t''"

definition sample_segment_node :: sealed_media where
  "sample_segment_node = \<lparr>sm_stream_id = ''a'', sm_session_id = ''s'', sm_epoch = 0, sm_chunks = [],
     sm_resource = stored_ref ''bytes'', sm_previous = None\<rparr>"

definition sample_archive_node :: archived_media where
  "sample_archive_node = \<lparr>am_stream_key = ''input:a:0'', am_sealed = stored_ref ''segment'', am_complete = True,
     am_previous = Some (stored_ref ''archive'')\<rparr>"

definition sample_resources :: memory_store where
  "sample_resources = [(''archive'', \<lparr>sto_media_type = ''t'', sto_chunks = [[1]]\<rparr>),
     (''segment'', \<lparr>sto_media_type = ''t'', sto_chunks = [[2]]\<rparr>)]"

definition sample_parse_sealed :: "bytes \<Rightarrow> string + sealed_media" where
  "sample_parse_sealed bs = (if bs = [2] then Inr sample_segment_node else Inl ''not a segment'')"

definition sample_parse_archived :: "bytes \<Rightarrow> string + archived_media" where
  "sample_parse_archived bs = (if bs = [1] then Inr sample_archive_node else Inl ''not an archive'')"

definition sample_nodes :: node_reader where
  "sample_nodes = store_nodes (mem_open sample_resources) mem_read sample_parse_sealed sample_parse_archived"

definition sample_archived :: checkpoint where
  "sample_archived = sample_working\<lparr>cp_active := (cp_active sample_working)\<lparr>
     ac_session := (cp_session sample_working)\<lparr>ss_media_archive := Some (stored_ref ''archive'')\<rparr>\<rparr>\<rparr>"

theorem reachable_resources_exact_witness:
  "Some ` reached_keys sample_nodes sample_archived = ref_key ` set [stored_ref ''archive'', stored_ref ''segment'', stored_ref ''bytes'']"
proof -
  have apart: "parses_apart sample_parse_sealed sample_parse_archived"
    by (simp add: parses_apart_def sample_parse_sealed_def sample_parse_archived_def)
  have "rs_reachable sample_nodes sample_archived = Some (Inr [stored_ref ''archive'', stored_ref ''segment'', stored_ref ''bytes''])"
    by code_simp
  from reachable_resources_exact [OF apart this [unfolded sample_nodes_def]] show ?thesis
    by (simp add: sample_nodes_def)
qed

end
