(* ===== verification/Exchange_Session.thy ===== *)
theory Exchange_Session
  imports Engine_Base
begin

text \<open>
  The session of a request and response model (\<open>zhir-models/src/session.rs\<close>): a task that keeps the
  projected context, serves one exchange at a time and emits session events over a bounded channel,
  next to sinks that emit deltas over the same channel. The commands are a function on the state of
  the task; the scheduler \<open>run\<close> is the step relation \<open>exchange_step\<close>, one rule per branch of its
  \<open>select!\<close> and per arrival, so its reachable states cover every interleaving. \<open>loop_top\<close> is the top of
  the loop. The sink that an exchange was given is shared and not tied to it: whoever kept it may emit a
  delta at any later time, after the exchange answered, after the session closed and after its task ended,
  as long as the receiver takes events. The lemmas show that the task never panics, that the events
  between the deltas form a well-formed stream of responses, that a delta never comes before the start of
  its response, and that nothing of a response or of an acknowledgement is lost or repeated.
\<close>

section \<open>Commands\<close>

text \<open>
  What the task asks of other code: the negotiation of a request, the hash of the history, and the
  decoding of the effective profile from provider data.
\<close>

record exchange_env =
  xe_negotiate :: "model_request \<Rightarrow> unit result"
  xe_hashing :: hashing
  xe_effective :: "json \<Rightarrow> string + effective_profile"

text \<open>
  The generation in progress keeps the identity, the input position and the request its future was
  built from.
\<close>

record exchange_task =
  xt_request :: model_request
  xt_seed :: "message list"
  xt_history :: history
  xt_context_revision :: u64
  xt_input_position :: u64
  xt_profile_revision :: u64
  xt_sealed :: bool
  xt_active :: "(string \<times> u64 \<times> model_request) option"

definition exchange_unsupported :: "capability list" where
  "exchange_unsupported = [CapDuplex, ConversationItems, CapDelegation, CapInterruptOutput, CapFlushInput,
     InputAudioControl, Steering, AsyncResults, CapResume]"

definition exchange_validate_capabilities :: "capability_set \<Rightarrow> unit result" where
  "exchange_validate_capabilities caps =
     fail_if (\<exists>c \<in> set exchange_unsupported. supports caps c)
       (Invalid ''exchange session advertises unsupported session capabilities'')"

definition exchange_features :: "capability set" where
  "exchange_features = {ExplicitGeneration, ResponseEvents, LocalProjection, CapReplaceContext, ProfileUpdates}"

definition empty_history :: "exchange_env \<Rightarrow> history result" where
  "empty_history X = history_from_entries (xe_hashing X) []"

fun appends_user_input :: "message \<Rightarrow> bool" where
  "appends_user_input (User _) = True"
| "appends_user_input _ = False"

definition exchange_generate ::
  "exchange_env \<Rightarrow> session_event_body \<Rightarrow> string \<Rightarrow> u64 \<Rightarrow> u64 \<Rightarrow> u64 \<Rightarrow> bool \<Rightarrow> exchange_task
     \<Rightarrow> session_event_body list result \<times> exchange_task" where
  "exchange_generate X ack generation_id context_revision input_position profile_revision busy t =
     (if busy \<or> generation_id = [] \<or> context_revision \<noteq> xt_context_revision t
         \<or> input_position \<noteq> xt_input_position t \<or> profile_revision \<noteq> xt_profile_revision t
      then (Inl (Protocol ''generation does not match the acknowledged projection or another generation is active''), t)
      else
        (let request = (xt_request t)\<lparr>mr_messages := xt_seed t @ conversation (history_entries (xt_history t))\<rparr>;
             t1 = t\<lparr>xt_request := request\<rparr> in
         case xe_negotiate X request of
           Inl e \<Rightarrow> (Inl e, t1)
         | Inr _ \<Rightarrow> (Inr [ack, EvResponseStarted generation_id input_position],
             t1\<lparr>xt_active := Some (generation_id, input_position, request)\<rparr>)))"

definition exchange_append ::
  "exchange_env \<Rightarrow> session_event_body \<Rightarrow> history_entry \<Rightarrow> u64 \<Rightarrow> u64 \<Rightarrow> append_source \<Rightarrow> exchange_task
     \<Rightarrow> session_event_body list result \<times> exchange_task" where
  "exchange_append X ack entry context_revision input_position source t =
     (if source = Submitted \<and> xt_sealed t \<and> appends_user_input (he_message entry)
      then (Inl (Invalid ''user input is sealed''), t)
      else if context_revision \<noteq> xt_context_revision t + 1 \<or> input_position < xt_input_position t
      then (Inl (Protocol ''non-contiguous context revision''), t)
      else (case r_bind (entry_validate entry) (\<lambda>_. history_append (xe_hashing X) (xt_history t) [entry]) of
          Inl e \<Rightarrow> (Inl e, t)
        | Inr h \<Rightarrow> (Inr [ack], t\<lparr>xt_history := h, xt_context_revision := context_revision,
            xt_input_position := input_position\<rparr>)))"

definition exchange_replace ::
  "exchange_env \<Rightarrow> session_event_body \<Rightarrow> history_entry list \<Rightarrow> u64 \<Rightarrow> bool \<Rightarrow> exchange_task
     \<Rightarrow> session_event_body list result \<times> exchange_task" where
  "exchange_replace X ack entries context_revision busy t =
     (if busy \<or> context_revision \<noteq> xt_context_revision t + 1
      then (Inl (Protocol ''context replacement crosses a generation or revision''), t)
      else (case history_from_entries (xe_hashing X) entries of
          Inl e \<Rightarrow> (Inl e, t)
        | Inr h \<Rightarrow>
            (let t1 = t\<lparr>xt_seed := conversation (history_entries h)\<rparr> in
             case empty_history X of
               Inl e \<Rightarrow> (Inl e, t1)
             | Inr h0 \<Rightarrow> (Inr [ack], t1\<lparr>xt_history := h0, xt_context_revision := context_revision\<rparr>))))"

definition exchange_update_profile ::
  "exchange_env \<Rightarrow> session_event_body \<Rightarrow> u64 \<Rightarrow> request_profile \<Rightarrow> exchange_task
     \<Rightarrow> session_event_body list result \<times> exchange_task" where
  "exchange_update_profile X ack revision profile t =
     (if revision \<noteq> xt_profile_revision t + 1 then (Inl (Protocol ''non-contiguous profile revision''), t)
      else
        (let t1 = t\<lparr>xt_request := (xt_request t)\<lparr>mr_profile := profile\<rparr>\<rparr> in
         case xe_negotiate X (xt_request t1) of
           Inl e \<Rightarrow> (Inl e, t1)
         | Inr _ \<Rightarrow> (Inr [ack], t1\<lparr>xt_profile_revision := revision\<rparr>)))"

definition exchange_command ::
  "exchange_env \<Rightarrow> bool \<Rightarrow> session_command \<Rightarrow> bool \<Rightarrow> exchange_task \<Rightarrow> session_event_body list result \<times> exchange_task" where
  "exchange_command X cancelled command busy t =
     (if cancelled then (Inl Cancelled, t)
      else if scmd_id command = [] then (Inl (Invalid ''empty command identity''), t)
      else
        (let ack = EvAcknowledged (scmd_id command) None AckProjection in
         case scmd_body command of
           BodyGenerate generation_id context_revision input_position profile_revision \<Rightarrow>
             exchange_generate X ack generation_id context_revision input_position profile_revision busy t
         | BodyAppend entry context_revision input_position source \<Rightarrow>
             exchange_append X ack entry context_revision input_position source t
         | BodyReplaceContext entries context_revision \<Rightarrow> exchange_replace X ack entries context_revision busy t
         | BodyUpdateProfile revision profile \<Rightarrow> exchange_update_profile X ack revision profile t
         | BodySealUserInput \<Rightarrow> (Inr [ack], t\<lparr>xt_sealed := True\<rparr>)
         | BodyClose \<Rightarrow>
             if busy then (Inl (Protocol ''cannot close an active generation''), t)
             else (Inr [ack, EvClosed ''host_request'' Null], t)
         | _ \<Rightarrow> (Inl (Invalid ''unsupported exchange session command''), t)))"

section \<open>The events of a response\<close>

definition item_is_runtime_call :: "output_item \<Rightarrow> bool" where
  "item_is_runtime_call item = (case item of RuntimeToolCall _ \<Rightarrow> True | _ \<Rightarrow> False)"

definition exchange_status :: "generation_output \<Rightarrow> response_status" where
  "exchange_status response =
     (if go_status response \<noteq> RespCompleted then go_status response
      else if \<exists>item \<in> set (go_output response). item_is_runtime_call item then RespRequiresResults
      else RespCompleted)"

record finish_events =
  fe_generation_id :: string
  fe_output :: "(nat \<times> output_item) list"
  fe_finished :: "session_event_body option"

definition exchange_effective :: "exchange_env \<Rightarrow> generation_output \<Rightarrow> effective_profile result" where
  "exchange_effective X response =
     (case json_as_object (go_provider_data response) of
        None \<Rightarrow> Inr []
      | Some kvs \<Rightarrow> (case map_of kvs ''effective'' of
            None \<Rightarrow> Inr []
          | Some v \<Rightarrow> (case xe_effective X v of
                Inl m \<Rightarrow> Inl (Protocol (''effective profile: '' @ m))
              | Inr effective \<Rightarrow> Inr effective)))"

definition finish_new :: "exchange_env \<Rightarrow> string \<Rightarrow> u64 \<Rightarrow> generation_output \<Rightarrow> finish_events result" where
  "finish_new X generation_id input_position response =
     r_bind (exchange_effective X response) (\<lambda>effective.
       Inr \<lparr>fe_generation_id = generation_id, fe_output = enumerate 0 (go_output response),
         fe_finished = Some (EvResponseFinished generation_id input_position (exchange_status response)
           (go_usage response) (go_model_id response) (go_response_id response) (go_finish_reason response)
           (go_provider_data response) effective)\<rparr>)"

datatype emission = EmitControl | EmitStart | EmitOutput | EmitFinish

definition emission_control :: "emission \<Rightarrow> bool" where
  "emission_control e \<longleftrightarrow> e = EmitControl \<or> e = EmitStart"

definition output_event :: "string \<Rightarrow> nat \<times> output_item \<Rightarrow> session_event_body" where
  "output_event generation_id = (\<lambda>(index, item).
     EvOutput (Some generation_id) (generation_id @ '':'' @ dec index) ''model'' item)"

text \<open>\<open>None\<close> is the panic of \<open>expect\<close> on a completion already taken.\<close>

definition finish_next :: "finish_events \<Rightarrow> (session_event_body \<times> emission \<times> finish_events) option" where
  "finish_next f = (case fe_output f of
       item # rest \<Rightarrow> Some (output_event (fe_generation_id f) item, EmitOutput, f\<lparr>fe_output := rest\<rparr>)
     | [] \<Rightarrow> map_option (\<lambda>body. (body, EmitFinish, f\<lparr>fe_finished := None\<rparr>)) (fe_finished f))"

section \<open>The scheduler\<close>

text \<open>
  The variables of \<open>run\<close>, the shared sequence, the events in the channel and whether the receiver has
  closed it. \<open>ex_result\<close> is what the task returned, \<open>ex_panicked\<close> that it panicked instead. \<open>ex_sinks\<close> are
  the generations whose exchange was called, and so was handed its sink. For the statements below
  \<open>ex_sent\<close> records every event sent, \<open>ex_commands\<close> the identities of the commands that arrived and
  \<open>ex_responses\<close> the responses with which the exchanges answered.
\<close>

record exchange =
  ex_task :: exchange_task
  ex_controls :: "session_event_body list"
  ex_staged :: "(session_event_body \<times> emission) option"
  ex_generating :: bool
  ex_finishing :: "finish_events option"
  ex_closing :: bool
  ex_sequence :: u64
  ex_channel :: "session_event list"
  ex_open :: bool
  ex_sinks :: "string list"
  ex_result :: "unit result option"
  ex_panicked :: bool
  ex_sent :: "session_event list"
  ex_commands :: "string list"
  ex_responses :: "(string \<times> u64 \<times> generation_output) list"

definition exchange_running :: "exchange \<Rightarrow> bool" where
  "exchange_running s \<longleftrightarrow> ex_result s = None \<and> \<not> ex_panicked s"

definition exchange_return :: "unit result \<Rightarrow> exchange \<Rightarrow> exchange" where
  "exchange_return r s = s\<lparr>ex_result := Some r\<rparr>"

definition exchange_panic :: "exchange \<Rightarrow> exchange" where
  "exchange_panic s = s\<lparr>ex_panicked := True\<rparr>"

definition control_kind :: "session_event_body \<Rightarrow> emission" where
  "control_kind body = (case body of EvResponseStarted _ _ \<Rightarrow> EmitStart | _ \<Rightarrow> EmitControl)"

definition stage :: "exchange \<Rightarrow> exchange" where
  "stage s =
     (if \<not> exchange_running s \<or> ex_staged s \<noteq> None then s
      else (case ex_controls s of
          body # rest \<Rightarrow> s\<lparr>ex_controls := rest, ex_staged := Some (body, control_kind body)\<rparr>
        | [] \<Rightarrow> (case ex_finishing s of
              Some f \<Rightarrow> (case finish_next f of
                  None \<Rightarrow> exchange_panic s
                | Some (body, kind, f') \<Rightarrow> s\<lparr>ex_finishing := Some f', ex_staged := Some (body, kind)\<rparr>)
            | None \<Rightarrow> if ex_closing s then exchange_return (Inr ()) s else s)))"

text \<open>
  \<open>Events::send\<close> once the lock and room in the channel are there. The event is in the channel also
  when the sequence overflows.
\<close>

definition events_send :: "session_event_body \<Rightarrow> exchange \<Rightarrow> unit result \<times> exchange" where
  "events_send body s =
     (let e = \<lparr>sev_sequence = ex_sequence s, sev_body = body\<rparr>;
          s1 = s\<lparr>ex_channel := ex_channel s @ [e], ex_sent := ex_sent s @ [e]\<rparr> in
      case u64_checked_add (ex_sequence s) 1 of
        None \<Rightarrow> (Inl (Protocol ''event sequence overflow''), s1)
      | Some n \<Rightarrow> (Inr (), s1\<lparr>ex_sequence := n\<rparr>))"

text \<open>
  \<open>Deltas::emit\<close>, the sink of a generation: the sink of the host comes first, \<open>downstream\<close> is its result
  (\<open>Inr ()\<close> where there is none). An error is the error of the caller.
\<close>

definition delta_emit :: "unit result \<Rightarrow> string \<Rightarrow> model_delta \<Rightarrow> exchange \<Rightarrow> unit result \<times> exchange" where
  "delta_emit downstream generation_id delta s = (case downstream of
       Inl e \<Rightarrow> (Inl e, s)
     | Inr _ \<Rightarrow> events_send (EvDelta (Some generation_id) delta) s)"

text \<open>
  The branches of \<open>select!\<close>: the staged event was sent, the exchange answered, a command came. The last
  two come with their record.
\<close>

definition staged_sent :: "exchange \<Rightarrow> exchange" where
  "staged_sent s = (case ex_staged s of
       None \<Rightarrow> exchange_panic s
     | Some (body, kind) \<Rightarrow> (case events_send body s of
           (Inl e, s1) \<Rightarrow> exchange_return (Inl e) s1
         | (Inr _, s1) \<Rightarrow>
             (let s2 = s1\<lparr>ex_staged := None\<rparr> in
              case kind of
                EmitStart \<Rightarrow> s2\<lparr>ex_generating := True\<rparr>
              | EmitFinish \<Rightarrow> s2\<lparr>ex_finishing := None\<rparr>
              | _ \<Rightarrow> s2)))"

definition exchange_answered :: "exchange_env \<Rightarrow> generation_output result \<Rightarrow> exchange \<Rightarrow> exchange" where
  "exchange_answered X result s = (case xt_active (ex_task s) of
       None \<Rightarrow> exchange_panic s
     | Some (generation_id, input_position, _) \<Rightarrow>
         (let s1 = s\<lparr>ex_task := (ex_task s)\<lparr>xt_active := None\<rparr>, ex_generating := False\<rparr> in
          case r_bind result (\<lambda>response. r_bind (generation_output_validate response) (\<lambda>_.
                 r_bind (finish_new X generation_id input_position response) (\<lambda>f. Inr (response, f)))) of
            Inl e \<Rightarrow> exchange_return (Inl e) s1
          | Inr (_, f) \<Rightarrow> s1\<lparr>ex_finishing := Some f\<rparr>))"

definition exchange_answer :: "exchange_env \<Rightarrow> generation_output result \<Rightarrow> exchange \<Rightarrow> exchange" where
  "exchange_answer X result s = (exchange_answered X result s)\<lparr>ex_responses := ex_responses s
     @ (case (xt_active (ex_task s), result) of (Some (g, p, _), Inr response) \<Rightarrow> [(g, p, response)] | _ \<Rightarrow> [])\<rparr>"

definition takes_command :: "exchange \<Rightarrow> bool" where
  "takes_command s \<longleftrightarrow> \<not> ex_closing s \<and> ex_controls s = []
     \<and> (case ex_staged s of None \<Rightarrow> True | Some (_, kind) \<Rightarrow> \<not> emission_control kind)"

definition exchange_busy :: "exchange \<Rightarrow> bool" where
  "exchange_busy s \<longleftrightarrow> xt_active (ex_task s) \<noteq> None \<or> ex_finishing s \<noteq> None"

definition command_taken :: "exchange_env \<Rightarrow> bool \<Rightarrow> session_command option \<Rightarrow> exchange \<Rightarrow> exchange" where
  "command_taken X cancelled command s = (case command of
       None \<Rightarrow> exchange_return (Inl Cancelled) s
     | Some c \<Rightarrow>
         (let s1 = s\<lparr>ex_closing := (scmd_body c = BodyClose)\<rparr> in
          case exchange_command X cancelled c (exchange_busy s) (ex_task s) of
            (Inl e, t) \<Rightarrow> exchange_return (Inl e) (s1\<lparr>ex_task := t\<rparr>)
          | (Inr bodies, t) \<Rightarrow> s1\<lparr>ex_task := t, ex_controls := ex_controls s1 @ bodies\<rparr>))"

definition exchange_receive :: "exchange_env \<Rightarrow> bool \<Rightarrow> session_command option \<Rightarrow> exchange \<Rightarrow> exchange" where
  "exchange_receive X cancelled command s = (command_taken X cancelled command s)\<lparr>ex_commands := ex_commands s
     @ (case command of None \<Rightarrow> [] | Some c \<Rightarrow> [scmd_id c])\<rparr>"

definition exchange_open :: "exchange_task \<Rightarrow> exchange" where
  "exchange_open t = \<lparr>ex_task = t, ex_controls = [EvReady (xt_context_revision t)], ex_staged = None,
     ex_generating = False, ex_finishing = None, ex_closing = False, ex_sequence = 0, ex_channel = [],
     ex_open = True, ex_sinks = [],     ex_result = None, ex_panicked = False, ex_sent = [], ex_commands = [], ex_responses = []\<rparr>"

text \<open>The top of the loop: the check of cancellation and deadline, then the next event is staged.\<close>

definition loop_top :: "unit result \<Rightarrow> exchange \<Rightarrow> exchange" where
  "loop_top check s = (case check of Inr _ \<Rightarrow> stage s
     | Inl e \<Rightarrow> if exchange_running s then exchange_return (Inl e) s else s)"

definition loop_checks :: "unit result list" where
  "loop_checks = [Inr (), Inl Cancelled, Inl Deadline]"

text \<open>
  The interleavings. The exchange of a generation that was started is called, and has its sink from then
  on; a sink sends its delta whenever there is room. The receiver takes events at any time and closes the
  channel when it sees the result of the task, or by being dropped; cancellation, the deadline and a lost
  receiver end the task, also with a send that then fails.
\<close>

inductive exchange_step :: "exchange_env \<Rightarrow> nat \<Rightarrow> exchange \<Rightarrow> exchange \<Rightarrow> bool" for X room where
  xstep_sent: "exchange_running s \<Longrightarrow> ex_staged s \<noteq> None \<Longrightarrow> ex_open s \<Longrightarrow> length (ex_channel s) < room
    \<Longrightarrow> check \<in> set loop_checks \<Longrightarrow> exchange_step X room s (loop_top check (staged_sent s))"
| xstep_called: "exchange_running s \<Longrightarrow> ex_generating s \<Longrightarrow> xt_active (ex_task s) = Some (g, p, request)
    \<Longrightarrow> exchange_step X room s (s\<lparr>ex_sinks := g # ex_sinks s\<rparr>)"
| xstep_answered: "exchange_running s \<Longrightarrow> ex_generating s
    \<Longrightarrow> check \<in> set loop_checks \<Longrightarrow> exchange_step X room s (loop_top check (exchange_answer X result s))"
| xstep_command: "exchange_running s \<Longrightarrow> takes_command s
    \<Longrightarrow> check \<in> set loop_checks \<Longrightarrow> exchange_step X room s (loop_top check (exchange_receive X cancelled command s))"
| xstep_interrupted: "exchange_running s \<Longrightarrow> e \<in> {Cancelled, Deadline}
    \<Longrightarrow> exchange_step X room s (exchange_return (Inl e) s)"
| xstep_delta: "g \<in> set (ex_sinks s) \<Longrightarrow> ex_open s \<Longrightarrow> length (ex_channel s) < room
    \<Longrightarrow> exchange_step X room s (snd (delta_emit downstream g delta s))"
| xstep_received: "ex_channel s = e # es \<Longrightarrow> exchange_step X room s (s\<lparr>ex_channel := es\<rparr>)"
| xstep_closed: "exchange_step X room s (s\<lparr>ex_open := False\<rparr>)"

inductive exchange_reaches :: "exchange_env \<Rightarrow> nat \<Rightarrow> exchange_task \<Rightarrow> exchange \<Rightarrow> bool" for X room t where
  xreach_open: "check \<in> set loop_checks \<Longrightarrow> exchange_reaches X room t (loop_top check (exchange_open t))"
| xreach_step: "exchange_reaches X room t s \<Longrightarrow> exchange_step X room s s' \<Longrightarrow> exchange_reaches X room t s'"

section \<open>The stream of events\<close>

text \<open>
  What a receiver may rely on: one \<open>Ready\<close>, then responses one after the other, each with its outputs in
  order and its completion; acknowledgements at any time; \<open>Closed\<close> last and only between responses. A
  delta may come in any phase, but not before the start of its response (\<open>deltas_started\<close>).
\<close>

datatype stream_phase = StreamFresh | StreamIdle | StreamExchanging string u64 | StreamDelivering string u64 nat | StreamEnded

fun stream_step :: "stream_phase \<Rightarrow> session_event_body \<Rightarrow> stream_phase option" where
  "stream_step ph (EvDelta _ _) = Some ph"
| "stream_step StreamFresh (EvReady _) = Some StreamIdle"
| "stream_step StreamIdle (EvResponseStarted g p) = Some (StreamExchanging g p)"
| "stream_step StreamIdle (EvClosed _ _) = Some StreamEnded"
| "stream_step StreamIdle (EvAcknowledged _ _ _) = Some StreamIdle"
| "stream_step (StreamExchanging g p) (EvAcknowledged _ _ _) = Some (StreamExchanging g p)"
| "stream_step (StreamExchanging g p) (EvOutput g' item _ _) =
     (if g' = Some g \<and> item = g @ '':'' @ dec 0 then Some (StreamDelivering g p 1) else None)"
| "stream_step (StreamExchanging g p) (EvResponseFinished g' p' _ _ _ _ _ _ _) =
     (if g' = g \<and> p' = p then Some StreamIdle else None)"
| "stream_step (StreamDelivering g p n) (EvAcknowledged _ _ _) = Some (StreamDelivering g p n)"
| "stream_step (StreamDelivering g p n) (EvOutput g' item _ _) =
     (if g' = Some g \<and> item = g @ '':'' @ dec n then Some (StreamDelivering g p (n + 1)) else None)"
| "stream_step (StreamDelivering g p n) (EvResponseFinished g' p' _ _ _ _ _ _ _) =
     (if g' = g \<and> p' = p then Some StreamIdle else None)"
| "stream_step _ _ = None"

fun stream_run :: "stream_phase \<Rightarrow> session_event_body list \<Rightarrow> stream_phase option" where
  "stream_run ph [] = Some ph"
| "stream_run ph (body # bodies) = (case stream_step ph body of None \<Rightarrow> None | Some ph' \<Rightarrow> stream_run ph' bodies)"

lemma stream_append:
  "stream_run ph (xs @ ys) = (case stream_run ph xs of None \<Rightarrow> None | Some ph' \<Rightarrow> stream_run ph' ys)"
  by (induction xs arbitrary: ph) (auto split: option.splits)

definition deltas_started :: "session_event_body list \<Rightarrow> bool" where
  "deltas_started bodies \<longleftrightarrow> (\<forall>i < length bodies. \<forall>g delta. bodies ! i = EvDelta g delta \<longrightarrow>
     (\<exists>h p. g = Some h \<and> EvResponseStarted h p \<in> set (take i bodies)))"

lemma deltas_started_snoc:
  "deltas_started (bodies @ [b]) \<longleftrightarrow> deltas_started bodies
     \<and> (\<forall>g delta. b = EvDelta g delta \<longrightarrow> (\<exists>h p. g = Some h \<and> EvResponseStarted h p \<in> set bodies))"
  by (auto simp: deltas_started_def nth_append less_Suc_eq all_conj_distrib)

fun body_is_control :: "session_event_body \<Rightarrow> bool" where
  "body_is_control (EvReady _) = True"
| "body_is_control (EvResponseStarted _ _) = True"
| "body_is_control (EvAcknowledged _ _ _) = True"
| "body_is_control (EvClosed _ _) = True"
| "body_is_control _ = False"

fun body_is_response :: "session_event_body \<Rightarrow> bool" where
  "body_is_response (EvOutput _ _ _ _) = True"
| "body_is_response (EvResponseFinished _ _ _ _ _ _ _ _ _) = True"
| "body_is_response _ = False"

fun acknowledged_command :: "session_event_body \<Rightarrow> string option" where
  "acknowledged_command (EvAcknowledged i _ _) = Some i"
| "acknowledged_command _ = None"

definition acknowledged :: "session_event_body list \<Rightarrow> string list" where
  "acknowledged bodies = List.map_filter acknowledged_command bodies"

lemma acknowledged_simps [simp]:
  "acknowledged [] = []"
  "acknowledged (b # bs) = (case acknowledged_command b of None \<Rightarrow> [] | Some i \<Rightarrow> [i]) @ acknowledged bs"
  "acknowledged (bs @ bs') = acknowledged bs @ acknowledged bs'"
  by (simp_all add: acknowledged_def List.map_filter_def split: option.splits)

definition finishing_bodies :: "finish_events \<Rightarrow> session_event_body list" where
  "finishing_bodies f = map (output_event (fe_generation_id f)) (fe_output f)
     @ (case fe_finished f of None \<Rightarrow> [] | Some body \<Rightarrow> [body])"

text \<open>
  What an answer calls for, in terms of the answer alone: one output event per item, with its position in
  the identity, and a completion. An answer is complete unless it has a call for a runtime tool, whose
  result is then awaited.
\<close>

definition delivered_status :: "generation_output \<Rightarrow> response_status" where
  "delivered_status response =
     (if go_status response = RespCompleted \<and> (\<exists>call. RuntimeToolCall call \<in> set (go_output response))
      then RespRequiresResults else go_status response)"

definition delivered_effective :: "exchange_env \<Rightarrow> generation_output \<Rightarrow> effective_profile" where
  "delivered_effective X response =
     (case Option.bind (json_as_object (go_provider_data response)) (\<lambda>kvs. map_of kvs ''effective'') of
        None \<Rightarrow> [] | Some v \<Rightarrow> projr (xe_effective X v))"

definition response_delivery :: "exchange_env \<Rightarrow> string \<times> u64 \<times> generation_output \<Rightarrow> session_event_body list" where
  "response_delivery X = (\<lambda>(g, p, response).
     map (\<lambda>k. EvOutput (Some g) (g @ '':'' @ dec k) ''model'' (go_output response ! k)) [0..<length (go_output response)]
     @ [EvResponseFinished g p (delivered_status response) (go_usage response) (go_model_id response)
          (go_response_id response) (go_finish_reason response) (go_provider_data response)
          (delivered_effective X response)])"

definition sent_bodies :: "exchange \<Rightarrow> session_event_body list" where
  "sent_bodies s = map sev_body (ex_sent s)"

definition staged_bodies :: "exchange \<Rightarrow> session_event_body list" where
  "staged_bodies s = (case ex_staged s of None \<Rightarrow> [] | Some (body, _) \<Rightarrow> [body])"

definition unfinished_bodies :: "exchange \<Rightarrow> session_event_body list" where
  "unfinished_bodies s = (case ex_finishing s of None \<Rightarrow> [] | Some f \<Rightarrow> finishing_bodies f)"

definition exchange_target :: "exchange \<Rightarrow> stream_phase" where
  "exchange_target s = (case xt_active (ex_task s) of
       Some (g, p, _) \<Rightarrow> StreamExchanging g p
     | None \<Rightarrow> if ex_closing s then StreamEnded else StreamIdle)"

section \<open>The invariant\<close>

fun kind_ok :: "session_event_body \<Rightarrow> emission \<Rightarrow> bool" where
  "kind_ok body EmitStart = (\<exists>g p. body = EvResponseStarted g p)"
| "kind_ok body EmitControl = (body_is_control body \<and> (\<forall>g p. body \<noteq> EvResponseStarted g p))"
| "kind_ok body EmitOutput = (body_is_response body)"
| "kind_ok body EmitFinish = (body_is_response body)"

definition live_inv :: "exchange_env \<Rightarrow> exchange \<Rightarrow> stream_phase \<Rightarrow> bool" where
  "live_inv X s ph \<longleftrightarrow>
     stream_run ph (staged_bodies s @ ex_controls s @ unfinished_bodies s) = Some (exchange_target s)
     \<and> (ex_generating s \<longrightarrow> (\<exists>g p request. xt_active (ex_task s) = Some (g, p, request) \<and> ph = StreamExchanging g p)
          \<and> (\<forall>body \<in> set (staged_bodies s @ ex_controls s). acknowledged_command body \<noteq> None))
     \<and> (\<forall>body kind. ex_staged s = Some (body, kind) \<longrightarrow> kind_ok body kind)
     \<and> (\<forall>body \<in> set (ex_controls s). body_is_control body)
     \<and> (ex_finishing s \<noteq> None \<longrightarrow> xt_active (ex_task s) = None)
     \<and> (ex_finishing s \<noteq> None \<longrightarrow> (\<forall>g p. EvResponseStarted g p \<notin> set (staged_bodies s @ ex_controls s)))
     \<and> (ex_closing s \<longrightarrow> xt_active (ex_task s) = None \<and> ex_finishing s = None)
     \<and> (\<forall>f. ex_finishing s = Some f \<and> fe_finished f = None \<longrightarrow>
          fe_output f = [] \<and> (\<exists>body. ex_staged s = Some (body, EmitFinish)))
     \<and> (\<forall>body. ex_staged s = Some (body, EmitFinish) \<longrightarrow> unfinished_bodies s = [])
     \<and> filter body_is_response (sent_bodies s @ staged_bodies s) @ unfinished_bodies s
         = concat (map (response_delivery X) (ex_responses s))
     \<and> acknowledged (sent_bodies s @ staged_bodies s @ ex_controls s) = ex_commands s"

definition sent_inv :: "exchange_env \<Rightarrow> exchange \<Rightarrow> bool" where
  "sent_inv X s \<longleftrightarrow> \<not> ex_panicked s
     \<and> (\<exists>rest. concat (map (response_delivery X) (ex_responses s)) = filter body_is_response (sent_bodies s) @ rest)
     \<and> (\<exists>rest. ex_commands s = acknowledged (sent_bodies s) @ rest)
     \<and> (ex_result s = Some (Inr ()) \<longrightarrow> stream_run StreamFresh (sent_bodies s) = Some StreamEnded
          \<and> filter body_is_response (sent_bodies s) = concat (map (response_delivery X) (ex_responses s))
          \<and> acknowledged (sent_bodies s) = ex_commands s)"

definition exchange_inv :: "exchange_env \<Rightarrow> exchange \<Rightarrow> bool" where
  "exchange_inv X s \<longleftrightarrow> sent_inv X s
     \<and> (\<exists>ph. stream_run StreamFresh (sent_bodies s) = Some ph \<and> (exchange_running s \<longrightarrow> live_inv X s ph))"

lemma live_invD:
  assumes "live_inv X s ph"
  shows "stream_run ph (staged_bodies s @ ex_controls s @ unfinished_bodies s) = Some (exchange_target s)"
    and "ex_generating s \<Longrightarrow> \<exists>g p request. xt_active (ex_task s) = Some (g, p, request) \<and> ph = StreamExchanging g p"
    and "ex_generating s \<Longrightarrow> \<forall>body \<in> set (staged_bodies s @ ex_controls s). acknowledged_command body \<noteq> None"
    and "ex_staged s = Some (body, kind) \<Longrightarrow> kind_ok body kind"
    and "\<forall>body \<in> set (ex_controls s). body_is_control body"
    and "ex_finishing s \<noteq> None \<Longrightarrow> xt_active (ex_task s) = None"
    and "ex_finishing s \<noteq> None \<Longrightarrow> EvResponseStarted g p \<notin> set (staged_bodies s @ ex_controls s)"
    and "ex_closing s \<Longrightarrow> xt_active (ex_task s) = None \<and> ex_finishing s = None"
    and "ex_finishing s = Some f \<Longrightarrow> fe_finished f = None \<Longrightarrow> fe_output f = [] \<and> (\<exists>body. ex_staged s = Some (body, EmitFinish))"
    and "ex_staged s = Some (body, EmitFinish) \<Longrightarrow> unfinished_bodies s = []"
    and "filter body_is_response (sent_bodies s @ staged_bodies s) @ unfinished_bodies s
         = concat (map (response_delivery X) (ex_responses s))"
    and "acknowledged (sent_bodies s @ staged_bodies s @ ex_controls s) = ex_commands s"
  using assms unfolding live_inv_def by blast+

lemma exchange_invI:
  "sent_inv X s \<Longrightarrow> stream_run StreamFresh (sent_bodies s) = Some ph \<Longrightarrow> (exchange_running s \<Longrightarrow> live_inv X s ph) \<Longrightarrow> exchange_inv X s"
  by (auto simp: exchange_inv_def)

lemma exchange_invE:
  assumes "exchange_inv X s" "exchange_running s"
  obtains ph where "sent_inv X s" "stream_run StreamFresh (sent_bodies s) = Some ph" "live_inv X s ph"
  using assms by (auto simp: exchange_inv_def)

lemma response_bodies_response: "b \<in> set (response_delivery X r) \<Longrightarrow> body_is_response b"
  by (cases r) (auto simp: response_delivery_def)

text \<open>The code hands over just that.\<close>

lemma enumerate_outputs:
  "map (output_event g) (enumerate 0 items) = map (\<lambda>k. EvOutput (Some g) (g @ '':'' @ dec k) ''model'' (items ! k)) [0..<length items]"
  by (rule nth_equalityI) (simp_all add: output_event_def nth_enumerate_eq)

lemma item_is_runtime_call_iff: "item_is_runtime_call item \<longleftrightarrow> (\<exists>call. item = RuntimeToolCall call)"
  by (cases item) (simp_all add: item_is_runtime_call_def)

lemma finish_delivery:
  assumes "finish_new X g p response = Inr f"
  shows "finishing_bodies f = response_delivery X (g, p, response)"
proof -
  obtain effective where effective: "exchange_effective X response = Inr effective"
    and f: "f = \<lparr>fe_generation_id = g, fe_output = enumerate 0 (go_output response),
         fe_finished = Some (EvResponseFinished g p (exchange_status response)
           (go_usage response) (go_model_id response) (go_response_id response) (go_finish_reason response)
           (go_provider_data response) effective)\<rparr>"
    using assms by (auto simp: finish_new_def r_bind_Inr)
  have "effective = delivered_effective X response"
    using effective by (auto simp: exchange_effective_def delivered_effective_def split: option.splits sum.splits)
  moreover have "exchange_status response = delivered_status response"
    by (auto simp: exchange_status_def delivered_status_def item_is_runtime_call_iff)
  ultimately show ?thesis by (simp add: f finishing_bodies_def response_delivery_def enumerate_outputs)
qed

lemma unfinished_response:
  assumes "live_inv X s ph" "b \<in> set (unfinished_bodies s)"
  shows "body_is_response b"
proof -
  have "filter body_is_response (sent_bodies s @ staged_bodies s) @ unfinished_bodies s
      = concat (map (response_delivery X) (ex_responses s))"
    using assms(1) by (simp add: live_inv_def)
  then have "b \<in> set (concat (map (response_delivery X) (ex_responses s)))" using assms(2) by (metis Un_iff set_append)
  then show ?thesis using response_bodies_response by auto
qed

lemma response_not_control: "body_is_response b \<Longrightarrow> \<not> body_is_control b"
  by (cases b) auto

lemma acknowledged_response: "body_is_response b \<Longrightarrow> acknowledged_command b = None"
  by (cases b) auto

lemma control_kind_ok: "body_is_control b \<Longrightarrow> kind_ok b (control_kind b)"
  by (cases b) (auto simp: control_kind_def)

lemma control_kind_not_finish [simp]: "control_kind b \<noteq> EmitFinish" "control_kind b \<noteq> EmitOutput"
  by (cases b; simp add: control_kind_def)+

text \<open>Staging moves the next event and changes nothing else.\<close>

lemma finish_next_bodies:
  assumes "finish_next f = Some (body, kind, f')"
  shows "finishing_bodies f = body # finishing_bodies f'" "kind = EmitOutput \<or> kind = EmitFinish"
    "kind = EmitFinish \<Longrightarrow> finishing_bodies f' = []"
    "fe_finished f \<noteq> None \<Longrightarrow> fe_finished f' = None \<Longrightarrow> kind = EmitFinish \<and> fe_output f' = []"
  using assms by (auto simp: finish_next_def finishing_bodies_def split: list.splits option.splits)

lemma stage_sent [simp]: "sent_bodies (stage s) = sent_bodies s"
  by (simp add: stage_def sent_bodies_def exchange_panic_def exchange_return_def split: list.splits option.splits prod.splits)

lemma stage_inv:
  assumes inv: "exchange_inv X s"
  shows "exchange_inv X (stage s)"
proof (cases "exchange_running s \<and> ex_staged s = None")
  case False
  then show ?thesis using inv by (auto simp: stage_def)
next
  case True
  then obtain ph where sent: "sent_inv X s" "stream_run StreamFresh (sent_bodies s) = Some ph" and live: "live_inv X s ph"
    using exchange_invE [OF inv] by blast
  have staged: "staged_bodies s = []" using True by (simp add: staged_bodies_def)
  show ?thesis
  proof (cases "ex_controls s")
    case (Cons body rest)
    let ?s = "s\<lparr>ex_controls := rest, ex_staged := Some (body, control_kind body)\<rparr>"
    have st: "stage s = ?s" using True Cons by (simp add: stage_def)
    have control: "body_is_control body" using live Cons by (simp add: live_inv_def)
    have frame: "sent_inv X ?s" "sent_bodies ?s = sent_bodies s" using sent by (simp_all add: sent_inv_def sent_bodies_def)
    have "live_inv X ?s ph"
      using live control response_not_control [of body] Cons control_kind_ok [OF control] staged
      by (auto simp: live_inv_def staged_bodies_def unfinished_bodies_def sent_bodies_def exchange_target_def True)
    then show ?thesis using frame sent by (intro exchange_invI [of _ _ ph]) (simp_all add: st)
  next
    case Nil
    show ?thesis
    proof (cases "ex_finishing s")
      case None
      show ?thesis
      proof (cases "ex_closing s")
        case False
        then have "stage s = s" using True Nil None by (simp add: stage_def)
        then show ?thesis using inv by simp
      next
        case closing: True
        have st: "stage s = exchange_return (Inr ()) s" using True Nil None closing by (simp add: stage_def)
        have unfinished: "unfinished_bodies s = []" using None by (simp add: unfinished_bodies_def)
        have "xt_active (ex_task s) = None" using live closing by (simp add: live_inv_def)
        then have "exchange_target s = StreamEnded" using closing by (simp add: exchange_target_def)
        then have "ph = StreamEnded" using live Nil staged unfinished by (simp add: live_inv_def)
        then show ?thesis using live sent Nil staged unfinished
          by (auto simp: st exchange_inv_def exchange_return_def sent_inv_def live_inv_def sent_bodies_def exchange_running_def)
      qed
    next
      case (Some f)
      have more: "fe_finished f \<noteq> None" using live Some True by (auto simp: live_inv_def)
      then obtain body kind f' where next_f: "finish_next f = Some (body, kind, f')"
        by (cases "fe_output f"; cases "fe_finished f") (simp_all add: finish_next_def)
      note parts = finish_next_bodies [OF next_f] and last_part = finish_next_bodies(4) [OF next_f more]
      let ?s = "s\<lparr>ex_finishing := Some f', ex_staged := Some (body, kind)\<rparr>"
      have st: "stage s = ?s" using True Nil Some next_f by (simp add: stage_def)
      have unfinished: "unfinished_bodies s = body # unfinished_bodies ?s"
        using parts(1) Some by (simp add: unfinished_bodies_def)
      have response: "body_is_response body" using unfinished_response [OF live] unfinished by simp
      have "live_inv X ?s ph"
        using live unfinished staged parts last_part Nil response acknowledged_response [OF response] Some
        by (auto simp: live_inv_def staged_bodies_def sent_bodies_def exchange_target_def unfinished_bodies_def)
      then show ?thesis using sent by (intro exchange_invI [of _ _ ph]) (simp_all add: st sent_inv_def sent_bodies_def)
    qed
  qed
qed

section \<open>Every step keeps it\<close>

text \<open>A state that stopped keeps the invariant when its stream is well formed and nothing was lost.\<close>

lemma stopped_inv:
  assumes "stream_run StreamFresh (sent_bodies s) = Some ph" "\<not> ex_panicked s" "ex_result s = Some (Inl e)"
    "concat (map (response_delivery X) (ex_responses s)) = filter body_is_response (sent_bodies s) @ rest"
    "ex_commands s = acknowledged (sent_bodies s) @ acks"
  shows "exchange_inv X s"
  using assms by (intro exchange_invI [of _ _ ph]) (auto simp: sent_inv_def exchange_running_def)

lemma live_rests:
  assumes "live_inv X s ph"
  shows "concat (map (response_delivery X) (ex_responses s))
      = filter body_is_response (sent_bodies s) @ filter body_is_response (staged_bodies s) @ unfinished_bodies s"
    and "ex_commands s = acknowledged (sent_bodies s) @ acknowledged (staged_bodies s) @ acknowledged (ex_controls s)"
  using assms by (simp_all add: live_inv_def)

lemma running_frame: "exchange_running s \<Longrightarrow> ex_result s = None \<and> \<not> ex_panicked s"
  by (simp add: exchange_running_def)

lemma events_send_cases:
  obtains (overflow) s1 where "events_send body s = (Inl (Protocol ''event sequence overflow''), s1)"
      "s1 = s\<lparr>ex_channel := ex_channel s @ [\<lparr>sev_sequence = ex_sequence s, sev_body = body\<rparr>],
              ex_sent := ex_sent s @ [\<lparr>sev_sequence = ex_sequence s, sev_body = body\<rparr>]\<rparr>"
  | (sent) s1 n where "events_send body s = (Inr (), s1)"
      "s1 = s\<lparr>ex_channel := ex_channel s @ [\<lparr>sev_sequence = ex_sequence s, sev_body = body\<rparr>],
              ex_sent := ex_sent s @ [\<lparr>sev_sequence = ex_sequence s, sev_body = body\<rparr>], ex_sequence := n\<rparr>"
  by (cases "u64_checked_add (ex_sequence s) 1") (auto simp: events_send_def Let_def)

lemma control_after_start:
  assumes "stream_run (StreamExchanging g p) bodies = Some q" "\<forall>b \<in> set bodies. body_is_control b"
  shows "q = StreamExchanging g p \<and> (\<forall>b \<in> set bodies. acknowledged_command b \<noteq> None)"
  using assms
proof (induction bodies)
  case (Cons b bodies)
  then show ?case by (cases b) auto
qed simp

lemma staged_sent_inv:
  assumes inv: "exchange_inv X s" and run: "exchange_running s" and some: "ex_staged s \<noteq> None"
  shows "exchange_inv X (staged_sent s)"
proof -
  obtain ph where sent: "sent_inv X s" "stream_run StreamFresh (sent_bodies s) = Some ph" and live: "live_inv X s ph"
    using exchange_invE [OF inv run] by blast
  obtain body kind where staged: "ex_staged s = Some (body, kind)" using some by auto
  have bodies: "staged_bodies s = [body]" by (simp add: staged_bodies_def staged)
  obtain ph' where step: "stream_step ph body = Some ph'"
    and more: "stream_run ph' (ex_controls s @ unfinished_bodies s) = Some (exchange_target s)"
    using live by (auto simp: live_inv_def bodies split: option.splits)
  have kind: "kind_ok body kind" using live staged by (simp add: live_inv_def)
  note rests = live_rests [OF live, unfolded bodies]
  show ?thesis
  proof (cases rule: events_send_cases [of body s])
    case (overflow s1)
    have "stream_run StreamFresh (sent_bodies s1) = Some ph'"
      using sent(2) step by (simp add: overflow sent_bodies_def stream_append)
    moreover have "sent_bodies s1 = sent_bodies s @ [body]" by (simp add: overflow sent_bodies_def)
    ultimately show ?thesis using rests running_frame [OF run]
      by (intro stopped_inv [of _ ph' "Protocol ''event sequence overflow''" X "unfinished_bodies s" "acknowledged (ex_controls s)"])
         (auto simp: staged_sent_def staged overflow exchange_return_def sent_bodies_def)
  next
    case (sent s1 n)
    let ?s2 = "s1\<lparr>ex_staged := None\<rparr>"
    define s' where "s' = staged_sent s"
    have s': "s' = (case kind of EmitStart \<Rightarrow> ?s2\<lparr>ex_generating := True\<rparr> | EmitFinish \<Rightarrow> ?s2\<lparr>ex_finishing := None\<rparr> | _ \<Rightarrow> ?s2)"
      by (cases kind) (simp_all add: s'_def staged_sent_def staged sent Let_def)
    have frame: "sent_bodies s' = sent_bodies s @ [body]" "ex_staged s' = None" "ex_controls s' = ex_controls s"
      "ex_task s' = ex_task s" "ex_closing s' = ex_closing s" "ex_responses s' = ex_responses s"
      "ex_commands s' = ex_commands s" "ex_result s' = None" "\<not> ex_panicked s'"
      using running_frame [OF run] by (cases kind; simp add: s' sent sent_bodies_def)+
    have unfinished: "unfinished_bodies s' = unfinished_bodies s"
      using live staged by (cases kind) (auto simp: s' sent unfinished_bodies_def live_inv_def)
    have finishing: "ex_finishing s' = (if kind = EmitFinish then None else ex_finishing s)"
      by (cases kind) (simp_all add: s' sent)
    have target: "exchange_target s' = exchange_target s" by (simp add: exchange_target_def frame)
    have generating: "(\<exists>g p request. xt_active (ex_task s) = Some (g, p, request) \<and> ph' = StreamExchanging g p)
        \<and> (\<forall>b \<in> set (ex_controls s). acknowledged_command b \<noteq> None)"
      if "ex_generating s'"
    proof (cases "kind = EmitStart")
      case True
      then obtain g p where b: "body = EvResponseStarted g p" using kind by auto
      have ph': "ph' = StreamExchanging g p" using step b by (cases ph) auto
      have "\<forall>b \<in> set (ex_controls s). body_is_control b" using live by (simp add: live_inv_def)
      moreover obtain q where "stream_run (StreamExchanging g p) (ex_controls s) = Some q"
        and q: "stream_run q (unfinished_bodies s) = Some (exchange_target s)"
        using more by (auto simp: ph' stream_append split: option.splits)
      ultimately have acks: "q = StreamExchanging g p" "\<forall>b \<in> set (ex_controls s). acknowledged_command b \<noteq> None"
        using control_after_start by blast+
      show ?thesis
      proof (cases "ex_finishing s")
        case None
        then have "exchange_target s = StreamExchanging g p" using q acks(1) by (simp add: unfinished_bodies_def)
        then show ?thesis using acks(2) by (auto simp: ph' exchange_target_def split: option.splits if_splits)
      next
        case (Some f)
        then show ?thesis using live b bodies by (auto simp: live_inv_def)
      qed
    next
      case False
      then have "ex_generating s" using that by (cases kind) (simp_all add: s' sent)
      then obtain g p request where act: "xt_active (ex_task s) = Some (g, p, request)" "ph = StreamExchanging g p"
        using live by (auto simp: live_inv_def)
      have acks: "acknowledged_command body \<noteq> None" "\<forall>b \<in> set (ex_controls s). acknowledged_command b \<noteq> None"
        using live \<open>ex_generating s\<close> by (simp_all add: live_inv_def bodies)
      then have "ph' = StreamExchanging g p" using step act(2) by (cases body) auto
      then show ?thesis using act acks(2) by simp
    qed
    have none: "staged_bodies s' = []" by (simp add: staged_bodies_def frame)
    have "live_inv X s' ph'"
    proof (unfold live_inv_def, intro conjI, goal_cases)
      case 1
      show ?case using more by (simp add: none frame unfinished target)
    next
      case 2
      show ?case using generating by (simp add: none frame)
    next
      case 8
      show ?case using live_invD(9) [OF live] staged by (auto simp: finishing frame)
    next
      case 10
      show ?case using rests(1) by (simp add: none frame unfinished)
    next
      case 11
      show ?case using rests(2) by (simp add: none frame)
    qed (use live_invD(5-8) [OF live] in \<open>auto simp: none frame finishing\<close>)
    moreover have "sent_inv X s'"
      using rests by (auto simp: sent_inv_def frame)
    moreover have "stream_run StreamFresh (sent_bodies s') = Some ph'"
      using \<open>stream_run StreamFresh (sent_bodies s) = Some ph\<close> step by (simp add: frame stream_append)
    ultimately show ?thesis unfolding s'_def [symmetric] by (intro exchange_invI) auto
  qed
qed

text \<open>The events of a response lead from its start back to an idle session.\<close>

lemma outputs_stream:
  "stream_run (StreamDelivering g p n) (map (output_event g) (enumerate n items) @ [EvResponseFinished g p a b c d e f h])
     = Some StreamIdle"
  by (induction items arbitrary: n) (simp_all add: output_event_def)

lemma finish_stream:
  assumes "finish_new X g p response = Inr f"
  shows "stream_run (StreamExchanging g p) (finishing_bodies f) = Some StreamIdle"
  using assms outputs_stream [where n = 1 and g = g and p = p]
  by (cases "go_output response")
     (auto simp: finish_new_def finishing_bodies_def r_bind_Inr output_event_def)

lemma acks_stay:
  assumes "\<forall>body \<in> set bodies. acknowledged_command body \<noteq> None"
  shows "stream_run (StreamExchanging g p) bodies = Some (StreamExchanging g p)"
  using assms
proof (induction bodies)
  case (Cons body bodies)
  then show ?case by (cases body) auto
qed simp

text \<open>The task ended with an error: what arrived last may be unanswered.\<close>

lemma exchange_stop_inv:
  assumes live: "live_inv X s ph" and sent: "stream_run StreamFresh (sent_bodies s) = Some ph"
    and stop: "ex_result s' = Some (Inl e)" "\<not> ex_panicked s'" "sent_bodies s' = sent_bodies s"
      "ex_responses s' = ex_responses s @ responses" "ex_commands s' = ex_commands s @ commands"
  shows "exchange_inv X s'"
  using live_rests [OF live] sent
  by (intro stopped_inv [of _ ph e X "filter body_is_response (staged_bodies s) @ unfinished_bodies s
          @ concat (map (response_delivery X) responses)"
        "acknowledged (staged_bodies s) @ acknowledged (ex_controls s) @ commands"])
     (simp_all add: stop)

lemma exchange_return_inv:
  assumes "exchange_inv X s" and run: "exchange_running s"
  shows "exchange_inv X (exchange_return (Inl e) s)"
proof -
  obtain ph where "stream_run StreamFresh (sent_bodies s) = Some ph" "live_inv X s ph"
    using exchange_invE [OF assms] by blast
  then show ?thesis using running_frame [OF run]
    by (intro exchange_stop_inv [of X s ph _ e "[]" "[]"]) (simp_all add: exchange_return_def sent_bodies_def)
qed

lemma loop_top_inv: "exchange_inv X s \<Longrightarrow> exchange_inv X (loop_top check s)"
  using stage_inv exchange_return_inv by (auto simp: loop_top_def split: sum.splits)

lemma exchange_answered_inv:
  assumes inv: "exchange_inv X s" and run: "exchange_running s" and gen: "ex_generating s"
  shows "exchange_inv X (exchange_answer X result s)"
proof -
  obtain ph where sent: "sent_inv X s" "stream_run StreamFresh (sent_bodies s) = Some ph" and live: "live_inv X s ph"
    using exchange_invE [OF inv run] by blast
  obtain g p request where act: "xt_active (ex_task s) = Some (g, p, request)" and ph: "ph = StreamExchanging g p"
    using live_invD(2) [OF live gen] by blast
  let ?s1 = "s\<lparr>ex_task := (ex_task s)\<lparr>xt_active := None\<rparr>, ex_generating := False\<rparr>"
  consider e where "exchange_answered X result s = exchange_return (Inl e) ?s1"
    | response f where "finish_new X g p response = Inr f" "result = Inr response"
      "exchange_answered X result s = ?s1\<lparr>ex_finishing := Some f\<rparr>"
    by (cases "r_bind result (\<lambda>response. r_bind (generation_output_validate response) (\<lambda>_.
          r_bind (finish_new X g p response) (\<lambda>f. Inr (response, f))))")
       (auto simp: exchange_answered_def act Let_def r_bind_Inr)
  then show ?thesis
  proof cases
    case 1
    then show ?thesis using running_frame [OF run]
      by (intro exchange_stop_inv [OF live sent(2), of _ e "case result of Inl _ \<Rightarrow> [] | Inr response \<Rightarrow> [(g, p, response)]" "[]"])
        (simp_all add: exchange_answer_def exchange_return_def sent_bodies_def act split: sum.split)
  next
    case (2 response f)
    define s' where "s' = exchange_answer X result s"
    have closing: "\<not> ex_closing s" using live_invD(8) [OF live] act by auto
    have frame: "sent_bodies s' = sent_bodies s" "staged_bodies s' = staged_bodies s" "ex_staged s' = ex_staged s"
      "ex_controls s' = ex_controls s" "xt_active (ex_task s') = None" "\<not> ex_generating s'" "ex_finishing s' = Some f"
      "\<not> ex_closing s'" "ex_responses s' = ex_responses s @ [(g, p, response)]" "ex_commands s' = ex_commands s"
      "ex_result s' = None" "\<not> ex_panicked s'" "unfinished_bodies s' = finishing_bodies f"
      using running_frame [OF run] closing
      by (simp_all add: s'_def exchange_answer_def 2(3) act sent_bodies_def staged_bodies_def unfinished_bodies_def)
        (simp add: 2(2))
    have target: "exchange_target s' = StreamIdle" by (simp add: exchange_target_def frame)
    have acks: "\<forall>body \<in> set (staged_bodies s @ ex_controls s). acknowledged_command body \<noteq> None"
      using live_invD(3) [OF live gen] .
    have finished: "fe_finished f \<noteq> None" using 2(1) by (auto simp: finish_new_def r_bind_Inr)
    have idle: "ex_finishing s = None" using live_invD(6) [OF live] act by (cases "ex_finishing s") auto
    then have unfinished: "unfinished_bodies s = []" by (simp add: unfinished_bodies_def)
    have "live_inv X s' ph"
    proof (unfold live_inv_def, intro conjI, goal_cases)
      case 1
      have "stream_run (StreamExchanging g p) ((staged_bodies s @ ex_controls s) @ finishing_bodies f) = Some StreamIdle"
        using finish_stream [OF 2(1)] by (subst stream_append) (simp add: acks_stay [OF acks])
      then show ?case by (simp add: frame target ph)
    next
      case 3
      show ?case using live_invD(4) [OF live] by (simp add: frame)
    next
      case 6
      show ?case
      proof (intro impI allI notI)
        fix g p assume "EvResponseStarted g p \<in> set (staged_bodies s' @ ex_controls s')"
        then show False using bspec [OF acks] by (fastforce simp: frame)
      qed
    next
      case 9
      show ?case
      proof (intro allI impI)
        fix body assume staged: "ex_staged s' = Some (body, EmitFinish)"
        then have "body_is_response body" using live_invD(4) [OF live] by (auto simp: frame)
        then show "unfinished_bodies s' = []"
          using acks staged acknowledged_response by (auto simp: frame staged_bodies_def)
      qed
    next
      case 10
      show ?case using live_rests(1) [OF live] unfinished finish_delivery [OF 2(1)] by (simp add: frame)
    next
      case 11
      show ?case using live_rests(2) [OF live] by (simp add: frame)
    qed (use live_invD(5) [OF live] finished in \<open>auto simp: frame\<close>)
    moreover have "sent_inv X s'"
      using live_rests [OF live] by (auto simp: sent_inv_def frame)
    ultimately show ?thesis using sent(2) frame(1) by (intro exchange_invI [of _ _ ph]) (simp_all add: s'_def)
  qed
qed

text \<open>Acknowledgements commute with what is left of a response.\<close>

lemma fresh_no_response:
  assumes "stream_run StreamFresh bodies = Some q" "\<forall>b \<in> set bodies. body_is_response b"
  shows "q = StreamFresh"
proof (cases bodies)
  case (Cons b rest)
  then show ?thesis using assms by (cases b) auto
qed (use assms in simp)

lemma ended_no_response:
  assumes "stream_run StreamEnded bodies = Some q" "\<forall>b \<in> set bodies. body_is_response b"
  shows "q = StreamEnded"
proof (cases bodies)
  case (Cons b rest)
  then show ?thesis using assms by (cases b) auto
qed (use assms in simp)

lemma ack_between:
  assumes "stream_run ph (xs @ ys) = Some q" "q = StreamIdle \<or> (\<exists>g p. q = StreamExchanging g p)" "\<forall>y \<in> set ys. body_is_response y"
    "xs = [] \<longrightarrow> ph \<noteq> StreamFresh"
  shows "stream_run ph (xs @ EvAcknowledged i r l # ys) = Some q"
proof -
  obtain mid where mid: "stream_run ph xs = Some mid" and rest: "stream_run mid ys = Some q"
    using assms(1) by (auto simp: stream_append split: option.splits)
  have "mid \<noteq> StreamEnded"
  proof
    assume "mid = StreamEnded"
    then show False using ended_no_response [of ys q] rest assms(2,3) by auto
  qed
  moreover have "mid \<noteq> StreamFresh"
  proof
    assume fresh: "mid = StreamFresh"
    then show False using fresh_no_response [of ys q] rest assms(2,3) by auto
  qed
  ultimately show ?thesis using mid rest by (cases mid) (simp_all add: stream_append)
qed

lemma exchange_command_cases:
  assumes "exchange_command X cancelled c busy t = (Inr bodies, t')"
  obtains (plain) "bodies = [EvAcknowledged (scmd_id c) None AckProjection]" "xt_active t' = xt_active t" "scmd_body c \<noteq> BodyClose"
  | (start) g p request where "bodies = [EvAcknowledged (scmd_id c) None AckProjection, EvResponseStarted g p]" "\<not> busy"
      "xt_active t' = Some (g, p, request)" "scmd_body c \<noteq> BodyClose"
  | (close) "bodies = [EvAcknowledged (scmd_id c) None AckProjection, EvClosed ''host_request'' Null]" "\<not> busy" "t' = t"
      "scmd_body c = BodyClose"
  using assms
  by (cases "scmd_body c")
     (auto simp: exchange_command_def exchange_generate_def exchange_append_def exchange_replace_def
       exchange_update_profile_def Let_def split: if_splits sum.splits)

lemma command_taken_inv:
  assumes inv: "exchange_inv X s" and run: "exchange_running s" and takes: "takes_command s"
  shows "exchange_inv X (exchange_receive X cancelled command s)"
proof -
  obtain ph where sent: "sent_inv X s" "stream_run StreamFresh (sent_bodies s) = Some ph" and live: "live_inv X s ph"
    using exchange_invE [OF inv run] by blast
  have closing: "\<not> ex_closing s" and controls: "ex_controls s = []"
    and kind: "\<And>body kind. ex_staged s = Some (body, kind) \<Longrightarrow> \<not> emission_control kind"
    using takes by (auto simp: takes_command_def)
  have responses: "b \<in> set (staged_bodies s @ unfinished_bodies s) \<Longrightarrow> body_is_response b" for b
  proof -
    have "body_is_response body" if "ex_staged s = Some (body, k)" for body k
      using live_invD(4) [OF live that] kind [OF that] by (cases k) (auto simp: emission_control_def)
    then show "b \<in> set (staged_bodies s @ unfinished_bodies s) \<Longrightarrow> body_is_response b"
      using unfinished_response [OF live] by (cases "ex_staged s") (auto simp: staged_bodies_def)
  qed
  have flow: "stream_run ph (staged_bodies s @ unfinished_bodies s) = Some (exchange_target s)"
    using live_invD(1) [OF live] by (simp add: controls)
  have target: "exchange_target s = (case xt_active (ex_task s) of Some (g, p, _) \<Rightarrow> StreamExchanging g p | None \<Rightarrow> StreamIdle)"
    by (simp add: exchange_target_def closing)
  then have quiet: "exchange_target s = StreamIdle \<or> (\<exists>g p. exchange_target s = StreamExchanging g p)"
    by (auto split: option.splits)
  have fresh: "ph \<noteq> StreamFresh"
  proof
    assume "ph = StreamFresh"
    then show False using fresh_no_response [OF _ ballI, of _ "exchange_target s"] flow quiet responses by fastforce
  qed
  show ?thesis
  proof (cases command)
    case None
    then show ?thesis using running_frame [OF run]
      by (intro exchange_stop_inv [OF live sent(2), of _ Cancelled "[]" "[]"])
        (simp_all add: exchange_receive_def command_taken_def exchange_return_def sent_bodies_def)
  next
    case (Some c)
    let ?s1 = "s\<lparr>ex_closing := (scmd_body c = BodyClose)\<rparr>"
    obtain x t where cmd: "exchange_command X cancelled c (exchange_busy s) (ex_task s) = (x, t)" by fastforce
    show ?thesis
    proof (cases x)
      case (Inl e)
      then show ?thesis using running_frame [OF run]
        by (intro exchange_stop_inv [OF live sent(2), of _ e "[]" "[scmd_id c]"])
          (simp_all add: exchange_receive_def command_taken_def Some cmd exchange_return_def sent_bodies_def)
    next
      case (Inr bodies)
      define s' where "s' = exchange_receive X cancelled command s"
      have frame: "sent_bodies s' = sent_bodies s" "staged_bodies s' = staged_bodies s" "ex_staged s' = ex_staged s"
        "unfinished_bodies s' = unfinished_bodies s" "ex_controls s' = bodies" "ex_task s' = t"
        "ex_generating s' = ex_generating s" "ex_finishing s' = ex_finishing s"
        "ex_closing s' = (scmd_body c = BodyClose)" "ex_responses s' = ex_responses s"
        "ex_commands s' = ex_commands s @ [scmd_id c]" "ex_result s' = None" "\<not> ex_panicked s'"
        using running_frame [OF run]
        by (simp_all add: s'_def exchange_receive_def command_taken_def Some cmd Inr sent_bodies_def staged_bodies_def unfinished_bodies_def controls)
      let ?ack = "EvAcknowledged (scmd_id c) None AckProjection"
      have cases: "bodies = [?ack] \<and> xt_active t = xt_active (ex_task s) \<and> scmd_body c \<noteq> BodyClose
        \<or> (\<exists>g p request. bodies = [?ack, EvResponseStarted g p] \<and> \<not> exchange_busy s
             \<and> xt_active t = Some (g, p, request) \<and> scmd_body c \<noteq> BodyClose)
        \<or> bodies = [?ack, EvClosed ''host_request'' Null] \<and> \<not> exchange_busy s \<and> t = ex_task s \<and> scmd_body c = BodyClose"
        using cmd Inr by (auto elim: exchange_command_cases)
      have idle: "xt_active (ex_task s) = None \<and> ex_finishing s = None \<and> \<not> ex_generating s" if "\<not> exchange_busy s"
        using that live_invD(2) [OF live] by (cases "xt_active (ex_task s)") (auto simp: exchange_busy_def)
      have plain_busy: "bodies = [?ack] \<and> xt_active t = xt_active (ex_task s) \<and> scmd_body c \<noteq> BodyClose"
        if "exchange_busy s" using cases that by blast
      have finishing_busy: "exchange_busy s" if "ex_finishing s \<noteq> None" using that by (simp add: exchange_busy_def)
      have "live_inv X s' ph"
      proof (unfold live_inv_def, intro conjI, goal_cases)
        case 1
        have plain: "stream_run ph (staged_bodies s @ ?ack # unfinished_bodies s) = Some (exchange_target s)"
          using ack_between [OF flow quiet] responses fresh by auto
        show ?case
        proof (cases "exchange_busy s")
          case True
          then have "bodies = [?ack]" "xt_active t = xt_active (ex_task s)" "scmd_body c \<noteq> BodyClose" using cases by auto
          moreover from this have "exchange_target s' = exchange_target s" by (simp add: exchange_target_def frame closing)
          ultimately show ?thesis using plain by (simp add: frame)
        next
          case False
          then have none: "unfinished_bodies s = []" "exchange_target s = StreamIdle"
            using idle [OF False] by (simp_all add: unfinished_bodies_def target)
          then have acked: "stream_run ph (staged_bodies s @ [?ack]) = Some StreamIdle" using plain by simp
          show ?thesis using cases acked none idle [OF False]
            by (auto simp: frame exchange_target_def stream_append split: option.splits)
        qed
      next
        case 2
        show ?case
        proof (intro impI)
          assume gen: "ex_generating s'"
          then have gen: "ex_generating s" by (simp add: frame)
          obtain g p request where act: "xt_active (ex_task s) = Some (g, p, request)" "ph = StreamExchanging g p"
            using live_invD(2) [OF live gen] by blast
          then have "exchange_busy s" by (simp add: exchange_busy_def)
          then have b: "bodies = [?ack]" "xt_active t = xt_active (ex_task s)" using cases by auto
          show "(\<exists>g p request. xt_active (ex_task s') = Some (g, p, request) \<and> ph = StreamExchanging g p)
            \<and> (\<forall>body \<in> set (staged_bodies s' @ ex_controls s'). acknowledged_command body \<noteq> None)"
            using live_invD(3) [OF live gen] act b by (simp add: frame)
        qed
      next
        case 4
        show ?case using cases by (auto simp: frame)
      next
        case 5
        show ?case using plain_busy [OF finishing_busy] live_invD(6) [OF live] unfolding frame by simp
      next
        case 6
        show ?case
        proof (intro impI allI)
          fix g p assume "ex_finishing s' \<noteq> None"
          then have finishing: "ex_finishing s \<noteq> None" by (simp add: frame)
          show "EvResponseStarted g p \<notin> set (staged_bodies s' @ ex_controls s')"
            using plain_busy [OF finishing_busy [OF finishing]] live_invD(7) [OF live finishing, of g p]
            by (simp add: frame)
        qed
      next
        case 7
        show ?case
        proof
          assume "ex_closing s'"
          then have "\<not> exchange_busy s \<and> t = ex_task s" using cases by (simp add: frame)
          then show "xt_active (ex_task s') = None \<and> ex_finishing s' = None" using idle by (simp add: frame)
        qed
      next
        case 8
        show ?case using live_invD(9) [OF live] by (simp add: frame)
      next
        case 10
        show ?case using live_rests(1) [OF live] by (simp add: frame)
      next
        case 11
        show ?case using live_rests(2) [OF live] cases by (auto simp: frame controls)
      qed (use live_invD(4,10) [OF live] in \<open>simp_all add: frame\<close>)
      moreover have "sent_inv X s'"
        using live_rests [OF live] by (auto simp: sent_inv_def frame controls)
      ultimately show ?thesis using sent(2) frame(1) by (intro exchange_invI [of _ _ ph]) (simp_all add: s'_def)
    qed
  qed
qed

text \<open>A delta changes nothing but the events that were sent, whenever it is emitted.\<close>

lemma stream_delta: "stream_run ph (bodies @ [EvDelta g delta]) = stream_run ph bodies"
  by (simp add: stream_append split: option.split)

lemma delta_inv:
  assumes inv: "exchange_inv X s"
  shows "exchange_inv X (snd (events_send (EvDelta g delta) s))"
proof -
  define s' where "s' = snd (events_send (EvDelta g delta) s)"
  have frame: "sent_bodies s' = sent_bodies s @ [EvDelta g delta]" "staged_bodies s' = staged_bodies s"
    "unfinished_bodies s' = unfinished_bodies s" "exchange_target s' = exchange_target s" "ex_staged s' = ex_staged s"
    "ex_controls s' = ex_controls s" "ex_task s' = ex_task s" "ex_generating s' = ex_generating s"
    "ex_finishing s' = ex_finishing s" "ex_closing s' = ex_closing s" "ex_responses s' = ex_responses s"
    "ex_commands s' = ex_commands s" "ex_result s' = ex_result s" "ex_panicked s' = ex_panicked s"
    by (cases rule: events_send_cases [of "EvDelta g delta" s];
        simp add: s'_def sent_bodies_def staged_bodies_def unfinished_bodies_def exchange_target_def)+
  have same: "filter body_is_response (sent_bodies s' @ bs) = filter body_is_response (sent_bodies s @ bs)"
    "acknowledged (sent_bodies s' @ bs) = acknowledged (sent_bodies s @ bs)" for bs
    by (simp_all add: frame)
  have "live_inv X s' ph" if "live_inv X s ph" for ph using that unfolding live_inv_def same frame(2-) .
  moreover have "sent_inv X s'" using inv by (simp add: exchange_inv_def sent_inv_def frame stream_delta)
  moreover have "exchange_running s' = exchange_running s" by (simp add: exchange_running_def frame)
  ultimately show ?thesis using inv by (auto simp: s'_def [symmetric] exchange_inv_def frame(1) stream_delta)
qed

lemma delta_emit_cases:
  "snd (delta_emit downstream g delta s) = s \<or> snd (delta_emit downstream g delta s) = snd (events_send (EvDelta (Some g) delta) s)"
  by (simp add: delta_emit_def split: sum.split)

lemma delta_emit_inv: "exchange_inv X s \<Longrightarrow> exchange_inv X (snd (delta_emit downstream g delta s))"
  using delta_emit_cases [of downstream g delta s] delta_inv by auto

lemma exchange_open_inv: "exchange_inv X (loop_top check (exchange_open t))" if "xt_active t = None"
proof (rule loop_top_inv, rule exchange_invI [of _ _ StreamFresh])
  show "live_inv X (exchange_open t) StreamFresh"
    using that by (simp add: live_inv_def exchange_open_def sent_bodies_def staged_bodies_def unfinished_bodies_def exchange_target_def)
qed (simp_all add: exchange_open_def sent_inv_def sent_bodies_def)

lemma exchange_inv_channel:
  "exchange_inv X (s\<lparr>ex_channel := es\<rparr>) = exchange_inv X s" "exchange_inv X (s\<lparr>ex_open := b\<rparr>) = exchange_inv X s"
  "exchange_inv X (s\<lparr>ex_sinks := gs\<rparr>) = exchange_inv X s"
  by (simp_all add: exchange_inv_def sent_inv_def live_inv_def sent_bodies_def staged_bodies_def unfinished_bodies_def
      exchange_target_def exchange_running_def)

lemma exchange_step_inv:
  assumes "exchange_step X room s s'" "exchange_inv X s"
  shows "exchange_inv X s'"
  using assms
  by (induction rule: exchange_step.induct)
    (auto simp: exchange_inv_channel simp del: exchange_return_def
      intro: loop_top_inv staged_sent_inv exchange_answered_inv command_taken_inv exchange_return_inv delta_emit_inv)

lemma exchange_reaches_inv: "exchange_reaches X room t s \<Longrightarrow> xt_active t = None \<Longrightarrow> exchange_inv X s"
  by (induction rule: exchange_reaches.induct) (auto intro: exchange_open_inv exchange_step_inv)

section \<open>Deltas\<close>

text \<open>A response that is being exchanged was started, so every sink that was handed out has its start.\<close>

lemma stream_exchanging_started:
  "stream_run ph bodies = Some (StreamExchanging g p) \<Longrightarrow> ph = StreamExchanging g p \<or> EvResponseStarted g p \<in> set bodies"
proof (induction bodies arbitrary: ph)
  case (Cons b bodies)
  then obtain ph' where ph': "stream_step ph b = Some ph'" "stream_run ph' bodies = Some (StreamExchanging g p)"
    by (auto split: option.splits)
  from Cons.IH [OF ph'(2)] ph'(1) show ?case
    by (cases "(ph, b)" rule: stream_step.cases) (auto split: if_splits)
qed simp

definition sinks_inv :: "exchange \<Rightarrow> bool" where
  "sinks_inv s \<longleftrightarrow> deltas_started (sent_bodies s)
     \<and> (\<forall>g \<in> set (ex_sinks s). \<exists>p. EvResponseStarted g p \<in> set (sent_bodies s))"

lemma sinks_inv_same: "sent_bodies s' = sent_bodies s \<Longrightarrow> ex_sinks s' = ex_sinks s \<Longrightarrow> sinks_inv s' = sinks_inv s"
  by (simp add: sinks_inv_def)

lemma loop_top_sinks [simp]: "sinks_inv (loop_top check s) = sinks_inv s"
  by (rule sinks_inv_same)
    (simp_all add: loop_top_def stage_def sent_bodies_def exchange_panic_def exchange_return_def
      split: sum.splits list.splits option.splits prod.splits)

lemma sinks_inv_sent:
  assumes "sinks_inv s" and "sent_bodies s' = sent_bodies s @ [b]" and "ex_sinks s' = ex_sinks s"
    and "\<And>g delta. b = EvDelta g delta \<Longrightarrow> \<exists>h. g = Some h \<and> h \<in> set (ex_sinks s)"
  shows "sinks_inv s'"
  using assms by (fastforce simp: sinks_inv_def deltas_started_snoc)

lemma events_send_sinks:
  "sent_bodies (snd (events_send b s)) = sent_bodies s @ [b]" "ex_sinks (snd (events_send b s)) = ex_sinks s"
  by (cases rule: events_send_cases [of b s]; simp add: sent_bodies_def)+

lemma staged_sent_frame:
  "ex_staged s = Some (body, kind) \<Longrightarrow> sent_bodies (staged_sent s) = sent_bodies s @ [body] \<and> ex_sinks (staged_sent s) = ex_sinks s"
  by (cases rule: events_send_cases [of body s]; cases kind)
    (simp_all add: staged_sent_def Let_def exchange_return_def sent_bodies_def)

lemma exchange_step_sinks:
  assumes "exchange_step X room s s'" "exchange_inv X s" "sinks_inv s"
  shows "sinks_inv s'"
  using assms
proof (induction rule: exchange_step.induct)
  case (xstep_sent s check)
  then obtain body kind where staged: "ex_staged s = Some (body, kind)" by auto
  obtain ph where "live_inv X s ph" using exchange_invE [OF xstep_sent.prems(1) xstep_sent.hyps(1)] by blast
  from live_invD(4) [OF this staged] have "body \<noteq> EvDelta g delta" for g delta by (cases kind) auto
  then show ?case using staged_sent_frame [OF staged] sinks_inv_sent [OF xstep_sent.prems(2), of "staged_sent s" body] by simp
next
  case (xstep_called s g p request)
  obtain ph where ph: "stream_run StreamFresh (sent_bodies s) = Some ph" "live_inv X s ph"
    using exchange_invE [OF xstep_called.prems(1) xstep_called.hyps(1)] by blast
  then have "ph = StreamExchanging g p" using live_invD(2) [OF ph(2) xstep_called.hyps(2)] xstep_called.hyps(3) by auto
  then have "EvResponseStarted g p \<in> set (sent_bodies s)" using stream_exchanging_started [of StreamFresh] ph(1) by simp
  then show ?case using xstep_called.prems(2) by (auto simp: sinks_inv_def sent_bodies_def)
next
  case (xstep_answered s check result)
  have "sinks_inv (exchange_answer X result s) = sinks_inv s"
    by (rule sinks_inv_same) (simp_all add: exchange_answer_def exchange_answered_def exchange_panic_def exchange_return_def
        sent_bodies_def Let_def split: option.splits sum.splits prod.splits)
  then show ?case using xstep_answered.prems(2) by simp
next
  case (xstep_command s check cancelled command)
  have "sinks_inv (exchange_receive X cancelled command s) = sinks_inv s"
    by (rule sinks_inv_same) (simp_all add: exchange_receive_def command_taken_def exchange_return_def
        sent_bodies_def Let_def split: option.splits sum.splits prod.splits)
  then show ?case using xstep_command.prems(2) by simp
next
  case (xstep_delta g s downstream delta)
  have "sinks_inv (snd (events_send (EvDelta (Some g) delta) s))"
    by (rule sinks_inv_sent [OF xstep_delta.prems(2) events_send_sinks]) (use xstep_delta.hyps(1) in simp)
  then show ?case using delta_emit_cases [of downstream g delta s] xstep_delta.prems(2) by auto
qed (simp_all add: sinks_inv_def sent_bodies_def exchange_return_def)

lemma exchange_reaches_sinks: "exchange_reaches X room t s \<Longrightarrow> xt_active t = None \<Longrightarrow> sinks_inv s"
proof (induction rule: exchange_reaches.induct)
  case (xreach_open check)
  have "sinks_inv (exchange_open t)" by (simp add: sinks_inv_def exchange_open_def sent_bodies_def deltas_started_def)
  then show ?case by simp
next
  case (xreach_step s s')
  then show ?case using exchange_step_sinks exchange_reaches_inv by blast
qed

section \<open>Numbering and the channel\<close>

definition numbered :: "session_event list \<Rightarrow> bool" where
  "numbered events \<longleftrightarrow> map sev_sequence events = map of_nat [0..<length events]"

definition channel_inv :: "nat \<Rightarrow> exchange \<Rightarrow> bool" where
  "channel_inv room s \<longleftrightarrow>
     (length (ex_sent s) < 2 ^ 64 \<longrightarrow> ex_sequence s = of_nat (length (ex_sent s)))
     \<and> (length (ex_sent s) \<le> 2 ^ 64 \<longrightarrow> numbered (ex_sent s))
     \<and> length (ex_channel s) \<le> room \<and> (\<exists>received. ex_sent s = received @ ex_channel s)"

lemma events_send_channel:
  assumes "channel_inv room s" "length (ex_channel s) < room"
  shows "channel_inv room (snd (events_send body s))"
proof (cases rule: events_send_cases [of body s])
  case (overflow s1)
  have "u64_checked_add (ex_sequence s) 1 = None"
    using overflow(1) by (auto simp: events_send_def Let_def split: option.splits)
  then have full: "2 ^ 64 \<le> unat (ex_sequence s) + 1" by (simp add: u64_checked_add_def split: if_splits)
  show ?thesis
  proof (cases "length (ex_sent s) < 2 ^ 64")
    case True
    then have "unat (ex_sequence s) = length (ex_sent s)"
      using assms(1) by (simp add: channel_inv_def unsigned_of_nat take_bit_nat_eq_self)
    then show ?thesis using assms full True by (auto simp: channel_inv_def overflow numbered_def)
  next
    case False
    then show ?thesis using assms by (auto simp: channel_inv_def overflow)
  qed
next
  case (sent s1 n)
  have "ex_sequence (snd (events_send body s)) = ex_sequence s + 1"
    using sent(1) by (auto simp: events_send_def Let_def u64_checked_add_def split: if_splits)
  then have n: "n = ex_sequence s + 1" by (simp add: sent)
  show ?thesis using assms by (auto simp: channel_inv_def sent n numbered_def)
qed

lemma stage_channel [simp]: "channel_inv room (loop_top check s) = channel_inv room s"
  by (simp add: channel_inv_def loop_top_def stage_def exchange_panic_def exchange_return_def
      split: sum.splits list.splits option.splits prod.splits)

lemma staged_sent_channel:
  assumes "channel_inv room s" "length (ex_channel s) < room"
  shows "channel_inv room (staged_sent s)"
proof (cases "ex_staged s")
  case None
  then show ?thesis using assms(1) by (simp add: staged_sent_def exchange_panic_def channel_inv_def)
next
  case (Some bk)
  obtain body kind where bk: "bk = (body, kind)" by (cases bk)
  obtain r s1 where send: "events_send body s = (r, s1)" by (cases "events_send body s")
  have "channel_inv room s1" using events_send_channel [OF assms, of body] by (simp add: send)
  then show ?thesis
    by (cases r; cases kind) (simp_all add: staged_sent_def Some bk send Let_def channel_inv_def exchange_return_def)
qed

lemma exchange_step_channel:
  assumes "exchange_step X room s s'" "channel_inv room s"
  shows "channel_inv room s'"
  using assms
proof (induction rule: exchange_step.induct)
  case (xstep_answered s check result)
  have "channel_inv room (exchange_answer X result s)"
    using xstep_answered.prems
    by (auto simp: channel_inv_def exchange_answer_def exchange_answered_def exchange_panic_def exchange_return_def Let_def
        split: option.splits sum.splits prod.splits)
  then show ?case by simp
next
  case (xstep_command s check cancelled command)
  have "channel_inv room (exchange_receive X cancelled command s)"
    using xstep_command.prems
    by (auto simp: channel_inv_def exchange_receive_def command_taken_def exchange_return_def Let_def
        split: option.splits sum.splits prod.splits)
  then show ?case by simp
next
  case (xstep_received s e es)
  then obtain received where "ex_sent s = (received @ [e]) @ es" by (auto simp: channel_inv_def)
  then show ?case using xstep_received by (auto simp: channel_inv_def)
next
  case (xstep_sent s check)
  then show ?case by (simp add: staged_sent_channel)
next
  case (xstep_delta g s downstream delta)
  then show ?case using delta_emit_cases [of downstream g delta s] events_send_channel [of room s] by auto
qed (simp_all add: channel_inv_def exchange_return_def)

lemma exchange_reaches_channel: "exchange_reaches X room t s \<Longrightarrow> channel_inv room s"
proof (induction rule: exchange_reaches.induct)
  case (xreach_open check)
  have "channel_inv room (exchange_open t)" by (simp add: channel_inv_def exchange_open_def numbered_def)
  then show ?case by simp
next
  case (xreach_step s s')
  then show ?case using exchange_step_channel by blast
qed

section \<open>The receiver\<close>

text \<open>
  \<open>EventsReceiver\<close> with the two channels it reads: buffered events, whether a sender is left, and the
  terminal result, which may also be lost with the task. \<open>None\<close> is a receive that is still waiting.
\<close>

datatype terminal = TerminalPending | TerminalResult "unit result" | TerminalLost

record events_receiver =
  er_events :: "session_event list"
  er_senders :: bool
  er_terminal :: terminal
  er_stopped :: bool
  er_error :: "error option"

definition receiver_settle :: "events_receiver \<Rightarrow> events_receiver" where
  "receiver_settle r = r\<lparr>er_stopped := True, er_senders := False,
     er_error := (case er_terminal r of
         TerminalResult (Inl e) \<Rightarrow> Some e
       | TerminalLost \<Rightarrow> Some (Protocol ''exchange driver lost its terminal result'')
       | _ \<Rightarrow> None)\<rparr>"

definition receive_stopped :: "events_receiver \<Rightarrow> session_event option result \<times> events_receiver" where
  "receive_stopped r = (case er_events r of
       e # es \<Rightarrow> (Inr (Some e), r\<lparr>er_events := es\<rparr>)
     | [] \<Rightarrow> ((case er_error r of None \<Rightarrow> Inr None | Some e \<Rightarrow> Inl e), r\<lparr>er_error := None\<rparr>))"

definition receiver_receive :: "events_receiver \<Rightarrow> (session_event option result \<times> events_receiver) option" where
  "receiver_receive r =
     (if er_stopped r then Some (receive_stopped r)
      else if er_terminal r \<noteq> TerminalPending then Some (receive_stopped (receiver_settle r))
      else (case er_events r of
          e # es \<Rightarrow> Some (Inr (Some e), r\<lparr>er_events := es\<rparr>)
        | [] \<Rightarrow> None))"

definition receiver_new :: "events_receiver" where
  "receiver_new = \<lparr>er_events = [], er_senders = True, er_terminal = TerminalPending, er_stopped = False, er_error = None\<rparr>"

fun receives :: "nat \<Rightarrow> events_receiver \<Rightarrow> session_event option result list" where
  "receives 0 r = []"
| "receives (Suc n) r = (case receiver_receive r of None \<Rightarrow> [] | Some (x, r') \<Rightarrow> x # receives n r')"

lemma receives_ended:
  "er_stopped r \<Longrightarrow> er_events r = [] \<Longrightarrow> er_error r = None \<Longrightarrow> receives n r = replicate n (Inr None)"
proof (induction n)
  case (Suc n)
  have same: "r\<lparr>er_error := None\<rparr> = r" using Suc.prems(3) by (cases r) simp
  show ?case using Suc by (simp add: receiver_receive_def receive_stopped_def same)
qed simp

lemma receives_drained:
  "er_stopped r \<Longrightarrow> receives (length (er_events r) + Suc n) r
     = map (\<lambda>e. Inr (Some e)) (er_events r)
       @ (case er_error r of None \<Rightarrow> Inr None | Some e \<Rightarrow> Inl e) # replicate n (Inr None)"
proof (induction "er_events r" arbitrary: r)
  case Nil
  then show ?case
    using receives_ended [of "r\<lparr>er_error := None\<rparr>" n] by (simp add: receiver_receive_def receive_stopped_def)
next
  case (Cons e es)
  then show ?case using Cons.hyps(1) [of "r\<lparr>er_events := es\<rparr>"]
    by (simp add: receiver_receive_def receive_stopped_def flip: Cons.hyps(2))
qed

lemma receives_terminal:
  assumes "\<not> er_stopped r" "er_terminal r = TerminalResult (Inl e)"
  shows "receives (length (er_events r) + Suc n) r
     = map (\<lambda>e. Inr (Some e)) (er_events r) @ Inl e # replicate n (Inr None)"
proof -
  have "receives (length (er_events r) + Suc n) r = receives (length (er_events r) + Suc n) (receiver_settle r)"
    using assms by (simp add: receiver_receive_def receiver_settle_def)
  also have "\<dots> = map (\<lambda>e. Inr (Some e)) (er_events r) @ Inl e # replicate n (Inr None)"
    using receives_drained [of "receiver_settle r" n] assms by (simp add: receiver_settle_def)
  finally show ?thesis .
qed

section \<open>Opening\<close>

text \<open>\<open>open\<close>: the checks in order; \<open>deadline\<close> is what \<open>timing::deadline\<close> returned.\<close>

definition exchange_session_open ::
  "exchange_env \<Rightarrow> bool \<Rightarrow> nat option result \<Rightarrow> session_open \<Rightarrow> capability_set
     \<Rightarrow> (capability_set \<times> nat option \<times> exchange_task) result" where
  "exchange_session_open X cancelled deadline opening caps =
     r_bind (exchange_validate_capabilities caps) (\<lambda>_.
     r_bind (limits_validate (so_limits opening)) (\<lambda>_.
     r_bind (fail_if cancelled Cancelled) (\<lambda>_.
     r_bind (xe_negotiate X (so_request opening)) (\<lambda>_.
     r_bind deadline (\<lambda>at.
     r_bind (fail_if (so_binding opening \<noteq> None) (Invalid ''binding does not belong to an exchange adapter'')) (\<lambda>_.
     r_bind (fail_if (so_recovery opening \<noteq> None)
       (Protocol ''exchange session has no persistent session resume'')) (\<lambda>_.
     r_bind (empty_history X) (\<lambda>h.
       Inr (caps\<lparr>cap_features := cap_features caps \<union> exchange_features\<rparr>, at,
         \<lparr>xt_request = so_request opening, xt_seed = mr_messages (so_request opening), xt_history = h,
          xt_context_revision = so_context_revision opening, xt_input_position = so_input_position opening,
          xt_profile_revision = so_profile_revision opening, xt_sealed = False, xt_active = None\<rparr>)))))))))"

lemma exchange_session_open_idle:
  "exchange_session_open X cancelled deadline opening caps = Inr (caps', at, t) \<Longrightarrow> xt_active t = None"
  by (auto simp: exchange_session_open_def r_bind_Inr)

end
