(* ===== verification/Model_Properties.thy ===== *)
theory Model_Properties
  imports Exchange_Session Samples
begin

text \<open>
  The properties of the adapters that put a model behind a session, with the runs at which they are
  applied.
\<close>

section \<open>Exchange sessions\<close>

text \<open>
  C24: in every interleaving of its exchanges, commands, deltas and receiver, an exchange session emits
  a well-formed stream: ready first, one response after the other, each with its outputs in order and
  numbered from zero and then its completion, closed last. Deltas may come between any two of these events,
  also late ones of earlier responses, but never before the start of their own response. The events are
  numbered without a gap, and the task never panics.
\<close>

theorem exchange_events_well_formed:
  assumes "exchange_session_open X cancelled deadline opening caps = Inr (caps', at, t)"
    and "exchange_reaches X room t s"
  shows "stream_run StreamFresh (map sev_body (ex_sent s)) \<noteq> None \<and> \<not> ex_panicked s
    \<and> (\<forall>i < length (ex_sent s). \<forall>g delta. sev_body (ex_sent s ! i) = EvDelta g delta \<longrightarrow>
         (\<exists>h p. g = Some h \<and> EvResponseStarted h p \<in> set (take i (map sev_body (ex_sent s)))))
    \<and> (length (ex_sent s) \<le> 2 ^ 64 \<longrightarrow> map sev_sequence (ex_sent s) = map of_nat [0..<length (ex_sent s)])
    \<and> length (ex_channel s) \<le> room \<and> (\<exists>received. ex_sent s = received @ ex_channel s)"
proof -
  have idle: "xt_active t = None" using exchange_session_open_idle [OF assms(1)] .
  have "exchange_inv X s" using exchange_reaches_inv [OF assms(2) idle] .
  moreover have "sinks_inv s" using exchange_reaches_sinks [OF assms(2) idle] .
  moreover have "channel_inv room s" using exchange_reaches_channel [OF assms(2)] .
  ultimately show ?thesis
    by (auto simp: exchange_inv_def sent_inv_def sent_bodies_def channel_inv_def numbered_def sinks_inv_def deltas_started_def)
qed

text \<open>A session that answers one generation.\<close>

definition sample_exchange :: exchange_env where
  "sample_exchange = \<lparr>xe_negotiate = (\<lambda>_. Inr ()), xe_hashing = hashing.truncate sample_ext,
     xe_effective = (\<lambda>_. Inl ''none'')\<rparr>"

definition sample_model_request :: model_request where
  "sample_model_request = \<lparr>mr_messages = [User [Text ''hello'']], mr_runtime_tools = [], mr_provider_tools = [],
     mr_profile = sample_profile, mr_tool_choice = ChoiceAuto, mr_response_format = None, mr_stream = False\<rparr>"

definition sample_opening :: session_open where
  "sample_opening = \<lparr>so_binding = None, so_request = sample_model_request, so_context_revision = 0,
     so_input_position = 0, so_profile_revision = 0, so_mode = Task, so_session_id = ''s'',
     so_after_sequence = None, so_output_epoch = 0, so_limits = sample_limits, so_recovery = None,
     so_context = sample_context\<rparr>"

definition sample_exchange_caps :: capability_set where
  "sample_exchange_caps = \<lparr>cap_input_modalities = [''text''], cap_output_modalities = [''text''], cap_features = {},
     cap_tool_choices = [], cap_constraints = [], cap_extensions = []\<rparr>"

definition sample_exchange_task :: exchange_task where
  "sample_exchange_task = snd (snd (projr (exchange_session_open sample_exchange False (Inr None) sample_opening
     sample_exchange_caps)))"

definition sample_generate :: session_command where
  "sample_generate = \<lparr>scmd_id = ''c'', scmd_body = BodyGenerate ''g'' 0 0 0\<rparr>"

text \<open>
  The generation is started and its exchange called; it answers, and a delta follows its output.
\<close>

definition sample_exchange_started :: exchange where
  "sample_exchange_started = (let s = loop_top (Inr ()) (exchange_open sample_exchange_task);
     s = loop_top (Inr ()) (staged_sent s);
     s = loop_top (Inr ()) (exchange_receive sample_exchange False (Some sample_generate) s);
     s = loop_top (Inr ()) (staged_sent s) in loop_top (Inr ()) (staged_sent s))"

definition sample_exchange_answered :: exchange where
  "sample_exchange_answered = (let s = sample_exchange_started\<lparr>ex_sinks := [''g'']\<rparr>;
     s = loop_top (Inr ()) (exchange_answer sample_exchange (Inr (generation_output_text ''hi'')) s);
     s = loop_top (Inr ()) (staged_sent s);
     s = snd (delta_emit (Inr ()) ''g'' (DeltaText 0 ''hi'') s) in loop_top (Inr ()) (staged_sent s))"

lemma sample_exchange_opens:
  "exchange_session_open sample_exchange False (Inr None) sample_opening sample_exchange_caps
     = Inr (fst (projr (exchange_session_open sample_exchange False (Inr None) sample_opening sample_exchange_caps)),
            None, sample_exchange_task)"
proof -
  have "is_ok (exchange_session_open sample_exchange False (Inr None) sample_opening sample_exchange_caps)" by code_simp
  then obtain caps at t where
    opened: "exchange_session_open sample_exchange False (Inr None) sample_opening sample_exchange_caps = Inr (caps, at, t)"
    by (auto simp: is_ok_def split: sum.splits)
  then have "at = None" by (auto simp: exchange_session_open_def r_bind_Inr)
  then show ?thesis by (simp add: opened sample_exchange_task_def)
qed

lemma sample_exchange_runs:
  "exchange_reaches sample_exchange 8 sample_exchange_task sample_exchange_answered"
proof -
  let ?s1 = "loop_top (Inr ()) (exchange_open sample_exchange_task)"
  let ?s2 = "loop_top (Inr ()) (staged_sent ?s1)"
  let ?s3 = "loop_top (Inr ()) (exchange_receive sample_exchange False (Some sample_generate) ?s2)"
  let ?s4 = "loop_top (Inr ()) (staged_sent ?s3)"
  let ?s6 = "sample_exchange_started\<lparr>ex_sinks := [''g'']\<rparr>"
  let ?s7 = "loop_top (Inr ()) (exchange_answer sample_exchange (Inr (generation_output_text ''hi'')) ?s6)"
  let ?s8 = "loop_top (Inr ()) (staged_sent ?s7)"
  let ?s9 = "snd (delta_emit (Inr ()) ''g'' (DeltaText 0 ''hi'') ?s8)"
  let ?reaches = "exchange_reaches sample_exchange 8 sample_exchange_task"
  have go: "Inr () \<in> set loop_checks" by (simp add: loop_checks_def)
  note sends = xreach_step [OF _ xstep_sent [OF _ _ _ _ go]]
  have s1: "?reaches ?s1" by (rule xreach_open [OF go])
  have s2: "?reaches ?s2" by (rule sends [OF s1]; code_simp)
  have s3: "?reaches ?s3" by (rule xreach_step [OF s2 xstep_command [OF _ _ go]]; code_simp)
  have s4: "?reaches ?s4" by (rule sends [OF s3]; code_simp)
  have "?reaches (loop_top (Inr ()) (staged_sent ?s4))" by (rule sends [OF s4]; code_simp)
  then have s5: "?reaches sample_exchange_started" by (simp only: sample_exchange_started_def Let_def)
  have active: "xt_active (ex_task sample_exchange_started) = Some (''g'', 0, the_request)"
    if "the_request = snd (snd (the (xt_active (ex_task sample_exchange_started))))" for the_request
  proof -
    have "map_option (\<lambda>x. (fst x, fst (snd x))) (xt_active (ex_task sample_exchange_started)) = Some (''g'', 0)" by code_simp
    then show ?thesis using that by auto
  qed
  have none: "ex_sinks sample_exchange_started = []" by code_simp
  have "exchange_running sample_exchange_started" "ex_generating sample_exchange_started" by code_simp+
  then have s6: "?reaches ?s6"
    using xreach_step [OF s5 xstep_called [OF _ _ active [OF refl]]] unfolding none by blast
  have s7: "?reaches ?s7" by (rule xreach_step [OF s6 xstep_answered [OF _ _ go]]; code_simp)
  have s8: "?reaches ?s8" by (rule sends [OF s7]; code_simp)
  have s9: "?reaches ?s9" by (rule xreach_step [OF s8 xstep_delta]; code_simp)
  have "?reaches (loop_top (Inr ()) (staged_sent ?s9))" by (rule sends [OF s9]; code_simp)
  then show ?thesis by (simp only: sample_exchange_answered_def Let_def)
qed

theorem exchange_events_well_formed_witness:
  "length (ex_sent sample_exchange_answered) = 6 \<and> stream_run StreamFresh (map sev_body (ex_sent sample_exchange_answered)) \<noteq> None
     \<and> map sev_sequence (ex_sent sample_exchange_answered) = map of_nat [0..<6]"
proof -
  have "length (ex_sent sample_exchange_answered) = 6" by code_simp
  then show ?thesis
    using exchange_events_well_formed [OF sample_exchange_opens sample_exchange_runs] by simp
qed

text \<open>
  C25: what was sent of outputs and completions is the beginning of what the answers of the exchanges call
  for, one after the other: an output event per item, numbered from zero, and the completion with the
  status, the usage and the other facts of the answer, where a complete answer that calls a runtime tool
  requires results. What was sent of acknowledgements is the beginning of the commands that arrived. When
  the session closed, both are all, and the stream has ended.
\<close>

theorem exchange_delivers_responses:
  assumes "exchange_session_open X cancelled deadline opening caps = Inr (caps', at, t)"
    and "exchange_reaches X room t s"
  shows "(\<exists>rest. concat (map (\<lambda>(g, p, response).
           map (\<lambda>k. EvOutput (Some g) (g @ '':'' @ dec k) ''model'' (go_output response ! k)) [0..<length (go_output response)]
           @ [EvResponseFinished g p (delivered_status response) (go_usage response) (go_model_id response)
                (go_response_id response) (go_finish_reason response) (go_provider_data response)
                (delivered_effective X response)]) (ex_responses s))
        = filter body_is_response (map sev_body (ex_sent s)) @ rest \<and> (ex_result s = Some (Inr ()) \<longrightarrow> rest = []))
    \<and> (\<exists>rest. ex_commands s = acknowledged (map sev_body (ex_sent s)) @ rest \<and> (ex_result s = Some (Inr ()) \<longrightarrow> rest = []))
    \<and> (ex_result s = Some (Inr ()) \<longrightarrow> stream_run StreamFresh (map sev_body (ex_sent s)) = Some StreamEnded)"
proof -
  have "exchange_inv X s"
    using exchange_reaches_inv [OF assms(2)] exchange_session_open_idle [OF assms(1)] by blast
  then have inv: "sent_inv X s" by (simp add: exchange_inv_def)
  then show ?thesis unfolding sent_inv_def sent_bodies_def response_delivery_def by (cases "ex_result s = Some (Inr ())") auto
qed

theorem exchange_delivers_responses_witness:
  "\<exists>rest. EvOutput (Some ''g'') ''g:0'' ''model'' (OutputContent (Text ''hi'')) # rest
     = filter body_is_response (map sev_body (ex_sent sample_exchange_answered))"
proof -
  have facts: "map (\<lambda>(g, p, response). (g, p, go_output response)) (ex_responses sample_exchange_answered)
      = [(''g'', 0, [OutputContent (Text ''hi'')])]"
    "filter body_is_response (map sev_body (ex_sent sample_exchange_answered)) \<noteq> []" by code_simp+
  moreover have "dec 0 = ''0''" by code_simp
  moreover obtain response where "ex_responses sample_exchange_answered = [(''g'', 0, response)]"
    "go_output response = [OutputContent (Text ''hi'')]" using facts(1) by auto
  ultimately show ?thesis
    using exchange_delivers_responses [OF sample_exchange_opens sample_exchange_runs] facts(2)
    by (auto simp: Cons_eq_append_conv)
qed

text \<open>
  C26: when an exchange session fails, its receiver first gets every event still in the channel, in
  order, then the error, once, and after it the end of the stream.
\<close>

theorem exchange_error_reported_once:
  assumes "\<not> er_stopped r" "er_terminal r = TerminalResult (Inl e)"
  shows "receives (length (er_events r) + Suc n) r
     = map (\<lambda>e. Inr (Some e)) (er_events r) @ Inl e # replicate n (Inr None)"
  by (rule receives_terminal [OF assms])

theorem exchange_error_reported_once_witness:
  "receives 4 (receiver_new\<lparr>er_events := [\<lparr>sev_sequence = 0, sev_body = EvReady 0\<rparr>], er_terminal := TerminalResult (Inl Deadline)\<rparr>)
     = [Inr (Some \<lparr>sev_sequence = 0, sev_body = EvReady 0\<rparr>), Inl Deadline, Inr None, Inr None]"
  using exchange_error_reported_once [of "receiver_new\<lparr>er_events := [\<lparr>sev_sequence = 0, sev_body = EvReady 0\<rparr>],
      er_terminal := TerminalResult (Inl Deadline)\<rparr>" Deadline 2]
  by (simp add: receiver_new_def numeral_2_eq_2 numeral_3_eq_3 eval_nat_numeral)

end
