(* ===== verification/Tool_Library.thy ===== *)
theory Tool_Library
  imports Engine_Base Tool_Catalog
begin

text \<open>
  The library of runtime tools, \<open>zhir-tools/src\<close>: tools made of callbacks (\<open>function.rs\<close>, \<open>typed.rs\<close>,
  \<open>reply.rs\<close>), the registry that validates what goes in and out (\<open>registry.rs\<close>, \<open>validation.rs\<close>), the
  composition of catalogs (\<open>catalog.rs\<close>) and approval by callback (\<open>approval.rs\<close>). What a tool does
  outside the program is a state \<open>'w\<close> that it is given and returns. JSON schemas, Serde conversions and
  the rendering of a JSON value are parameters. The locale \<open>tool_catalog\<close> is the contract of an opened
  catalog; the registry's, the composed and the empty one are instances, and the kernel's selection is
  verified against it.
\<close>

section \<open>Tools\<close>

text \<open>
  A handle of running work: its recovery reference, its control and its events, one per reception. An
  execution is finished or a handle; a tool starts or recovers one in a context \<open>'c\<close>.
\<close>

record 'w tool_handle =
  th_recovery :: "recovery_ref option"
  th_cancel :: "'w \<Rightarrow> unit result \<times> 'w"
  th_reply :: "json \<Rightarrow> 'w \<Rightarrow> unit result \<times> 'w"
  th_receive :: "'w \<Rightarrow> operation_event option result \<times> 'w"

datatype 'w tool_run = RunFinished operation_outcome | RunActive "'w tool_handle"

record ('c, 'w) runtime_tool =
  tl_spec :: runtime_tool_spec
  tl_start :: "runtime_tool_call \<Rightarrow> 'c \<Rightarrow> 'w \<Rightarrow> 'w tool_run result \<times> 'w"
  tl_recover :: "operation_record \<Rightarrow> 'c \<Rightarrow> 'w \<Rightarrow> 'w tool_run result \<times> 'w"

text \<open>What the engine learns of an execution.\<close>

fun execution_report :: "'w tool_run \<Rightarrow> tool_execution" where
  "execution_report (RunFinished outcome) = ToolFinished outcome"
| "execution_report (RunActive handle) = ToolActive (th_recovery handle)"

text \<open>The default of the trait: work of a tool that does not override \<open>recover\<close> cannot be attached to.\<close>

definition recover_unsupported :: "operation_record \<Rightarrow> 'c \<Rightarrow> 'w \<Rightarrow> 'w tool_run result \<times> 'w" where
  "recover_unsupported r c w = (Inl (Protocol ''operation cannot be recovered by this tool''), w)"

section \<open>Replies\<close>

definition text_content :: "(json \<Rightarrow> string) \<Rightarrow> json \<Rightarrow> content list" where
  "text_content render value = [Text (case value of String s \<Rightarrow> s | _ \<Rightarrow> render value)]"

record 'o tool_reply =
  rp_payload :: 'o
  rp_content :: "content list option"

definition reply_success :: "'o \<Rightarrow> 'o tool_reply" where
  "reply_success payload = \<lparr>rp_payload = payload, rp_content = None\<rparr>"

definition reply_content :: "'o tool_reply \<Rightarrow> content list \<Rightarrow> 'o tool_reply" where
  "reply_content reply content = reply\<lparr>rp_content := Some content\<rparr>"

text \<open>\<open>encode\<close> is \<open>serde_json::to_value\<close>, with the text of its error.\<close>

definition into_execution ::
  "(json \<Rightarrow> string) \<Rightarrow> ('o \<Rightarrow> string + json) \<Rightarrow> 'o tool_reply \<Rightarrow> 'w tool_run result" where
  "into_execution render encode reply = (case encode (rp_payload reply) of
       Inl e \<Rightarrow> Inl (Invalid (''tool output: '' @ e))
     | Inr structured \<Rightarrow>
         (let content = (case rp_content reply of None \<Rightarrow> text_content render structured | Some c \<Rightarrow> c);
              outcome = OutcomeSuccess content structured in
          r_bind (outcome_validate outcome) (\<lambda>_. Inr (RunFinished outcome))))"

definition reply_json :: "(json \<Rightarrow> string) \<Rightarrow> json \<Rightarrow> 'w tool_run" where
  "reply_json render value = RunFinished (OutcomeSuccess (text_content render value) value)"

section \<open>Tools of callbacks\<close>

definition function_tool ::
  "runtime_tool_spec \<Rightarrow> (runtime_tool_call \<Rightarrow> 'c \<Rightarrow> 'w \<Rightarrow> 'w tool_run result \<times> 'w) \<Rightarrow> ('c, 'w) runtime_tool" where
  "function_tool spec callback = \<lparr>tl_spec = spec, tl_start = callback, tl_recover = recover_unsupported\<rparr>"

fun is_structured_spec :: "input_spec \<Rightarrow> bool" where
  "is_structured_spec (StructuredSpec _) = True"
| "is_structured_spec (FreeformSpec _) = False"

definition structured_tool ::
  "(json \<Rightarrow> string + 'a) \<Rightarrow> runtime_tool_spec \<Rightarrow> ('a \<Rightarrow> 'c \<Rightarrow> 'w \<Rightarrow> 'w tool_run result \<times> 'w)
    \<Rightarrow> ('c, 'w) runtime_tool result" where
  "structured_tool decode spec callback =
     (if \<not> is_structured_spec (rts_input spec)
      then Inl (Invalid ''structured callback requires structured specification'')
      else Inr (function_tool spec (\<lambda>call context w. case rtc_input call of
          Freeform _ \<Rightarrow> (Inl (Invalid ''expected structured input''), w)
        | Structured value \<Rightarrow> (case decode value of
              Inl e \<Rightarrow> (Inl (Invalid e), w)
            | Inr args \<Rightarrow> callback args context w))))"

definition freeform_tool ::
  "runtime_tool_spec \<Rightarrow> (string \<Rightarrow> 'c \<Rightarrow> 'w \<Rightarrow> 'w tool_run result \<times> 'w) \<Rightarrow> ('c, 'w) runtime_tool result" where
  "freeform_tool spec callback =
     (if is_structured_spec (rts_input spec)
      then Inl (Invalid ''freeform callback requires freeform specification'')
      else Inr (function_tool spec (\<lambda>call context w. case rtc_input call of
          Structured _ \<Rightarrow> (Inl (Invalid ''expected freeform input''), w)
        | Freeform s \<Rightarrow> callback s context w)))"

text \<open>
  \<open>TypedTool\<close>: the schemas of the argument and result types are given; \<open>cancelled\<close> reads the
  cancellation, whose token belongs to the context.
\<close>

definition typed_spec :: "json \<Rightarrow> json \<Rightarrow> string \<Rightarrow> string \<Rightarrow> execution \<Rightarrow> runtime_tool_spec result" where
  "typed_spec input_schema output_schema name description execution =
     (if name = [] then Inl (Invalid ''empty tool name'')
      else Inr \<lparr>rts_name = name, rts_description = description, rts_input = StructuredSpec input_schema,
        rts_output_schema = Some output_schema, rts_execution = execution\<rparr>)"

definition typed_start ::
  "(json \<Rightarrow> string) \<Rightarrow> (json \<Rightarrow> string + 'a) \<Rightarrow> ('o \<Rightarrow> string + json) \<Rightarrow> ('w \<Rightarrow> bool)
    \<Rightarrow> ('a \<Rightarrow> 'c \<Rightarrow> 'w \<Rightarrow> 'o tool_reply result \<times> 'w)
    \<Rightarrow> runtime_tool_call \<Rightarrow> 'c \<Rightarrow> 'w \<Rightarrow> 'w tool_run result \<times> 'w" where
  "typed_start render decode encode cancelled callback call context w =
     (case r_bind (fail_if (cancelled w) Cancelled) (\<lambda>_.
           r_bind (runtime_tool_call_validate call) (\<lambda>_. case rtc_input call of
             Freeform _ \<Rightarrow> Inl (Invalid ''expected structured input'')
           | Structured value \<Rightarrow> (case decode value of
                 Inl e \<Rightarrow> Inl (Invalid (''tool input: '' @ e)) | Inr args \<Rightarrow> Inr args))) of
       Inl e \<Rightarrow> (Inl e, w)
     | Inr args \<Rightarrow> (case callback args context w of
           (Inl e, w') \<Rightarrow> (Inl e, w')
         | (Inr reply, w') \<Rightarrow>
             (r_bind (fail_if (cancelled w') Cancelled) (\<lambda>_. into_execution render encode reply), w')))"

section \<open>Approval by a callback\<close>

fun decision_validate :: "approval_decision \<Rightarrow> unit result" where
  "decision_validate (DecideSuspend s) = suspension_validate s"
| "decision_validate _ = Inr ()"

definition approval_decide ::
  "('r list \<Rightarrow> 'c \<Rightarrow> 'w \<Rightarrow> approval_decision list result \<times> 'w) \<Rightarrow> 'r list \<Rightarrow> 'c \<Rightarrow> 'w
    \<Rightarrow> approval_decision list result \<times> 'w" where
  "approval_decide callback requests context w = (case callback requests context w of
       (Inl e, w') \<Rightarrow> (Inl e, w')
     | (Inr decisions, w') \<Rightarrow>
         (r_bind (fail_if (length decisions \<noteq> length requests) (Protocol ''approval count mismatch'')) (\<lambda>_.
          r_bind (each decision_validate decisions) (\<lambda>_. Inr decisions)), w'))"

fun approval_per_call ::
  "('r \<Rightarrow> 'c \<Rightarrow> 'w \<Rightarrow> approval_decision result \<times> 'w) \<Rightarrow> 'r list \<Rightarrow> 'c \<Rightarrow> 'w
    \<Rightarrow> approval_decision list result \<times> 'w" where
  "approval_per_call callback [] context w = (Inr [], w)"
| "approval_per_call callback (r # rs) context w = (case callback r context w of
       (Inl e, w') \<Rightarrow> (Inl e, w')
     | (Inr d, w') \<Rightarrow> (case approval_per_call callback rs context w' of
           (Inl e, w'') \<Rightarrow> (Inl e, w'')
         | (Inr ds, w'') \<Rightarrow> (Inr (d # ds), w'')))"

section \<open>The registry\<close>

text \<open>
  \<open>jsonschema\<close>: \<open>sl_compile\<close> gives a validator or the path and text of the error, \<open>sl_check\<close> the
  instance path, schema path and text of the first violation.
\<close>

record 'v schema_lib =
  sl_compile :: "json \<Rightarrow> string \<times> string + 'v"
  sl_check :: "'v \<Rightarrow> json \<Rightarrow> string \<times> string \<times> string + unit"

definition schema_compile :: "'v schema_lib \<Rightarrow> json \<Rightarrow> 'v result" where
  "schema_compile L schema = (case sl_compile L schema of
     Inl (path, message) \<Rightarrow> Inl (Validation (SchemaError path message)) | Inr v \<Rightarrow> Inr v)"

definition schema_validate :: "'v schema_lib \<Rightarrow> 'v \<Rightarrow> json \<Rightarrow> unit result" where
  "schema_validate L v x = (case sl_check L v x of
     Inl (path, schema_path, message) \<Rightarrow> Inl (Validation (ValueError path schema_path message)) | Inr u \<Rightarrow> Inr u)"

record ('c, 'w, 'v) registry_entry =
  ry_tool :: "('c, 'w) runtime_tool"
  ry_spec :: runtime_tool_spec
  ry_input :: "'v option"
  ry_output :: "'v option"

type_synonym ('c, 'w, 'v) registry = "(string, ('c, 'w, 'v) registry_entry) omap"

definition entry_input :: "'v schema_lib \<Rightarrow> input_spec \<Rightarrow> 'v option result" where
  "entry_input L i = (case i of
     StructuredSpec schema \<Rightarrow> r_bind (schema_compile L schema) (\<lambda>v. Inr (Some v)) | FreeformSpec _ \<Rightarrow> Inr None)"

definition entry_output :: "'v schema_lib \<Rightarrow> json option \<Rightarrow> 'v option result" where
  "entry_output L x = (case x of None \<Rightarrow> Inr None | Some schema \<Rightarrow> r_bind (schema_compile L schema) (\<lambda>v. Inr (Some v)))"

definition registry_register ::
  "'v schema_lib \<Rightarrow> ('c, 'w) runtime_tool \<Rightarrow> ('c, 'w, 'v) registry \<Rightarrow> ('c, 'w, 'v) registry result" where
  "registry_register L tool m = (let spec = tl_spec tool in
     r_bind (fail_if (rts_name spec = []) (Catalog EmptyName)) (\<lambda>_.
     r_bind (entry_input L (rts_input spec)) (\<lambda>inp.
     r_bind (entry_output L (rts_output_schema spec)) (\<lambda>out.
     r_bind (fail_if (om_contains m (rts_name spec)) (Catalog (Duplicate (rts_name spec) [''registry'']))) (\<lambda>_.
       Inr (om_insert (rts_name spec) \<lparr>ry_tool = tool, ry_spec = spec, ry_input = inp, ry_output = out\<rparr> m))))))"

fun registry_from ::
  "'v schema_lib \<Rightarrow> ('c, 'w) runtime_tool list \<Rightarrow> ('c, 'w, 'v) registry \<Rightarrow> ('c, 'w, 'v) registry result" where
  "registry_from L [] m = Inr m"
| "registry_from L (t # ts) m = r_bind (registry_register L t m) (registry_from L ts)"

definition registry_open :: "bool \<Rightarrow> ('c, 'w, 'v) registry \<Rightarrow> ('c, 'w, 'v) registry result" where
  "registry_open cancelled m = r_bind (fail_if cancelled Cancelled) (\<lambda>_. Inr m)"

definition registry_specs :: "('c, 'w, 'v) registry \<Rightarrow> runtime_tool_spec list" where
  "registry_specs m = map ry_spec (om_values m)"

text \<open>A binding: its specification and the two ways to an execution. The call is bound already.\<close>

record ('c, 'w) tool_binding =
  bd_spec :: runtime_tool_spec
  bd_start :: "'c \<Rightarrow> 'w \<Rightarrow> 'w tool_run result \<times> 'w"
  bd_recover :: "operation_record \<Rightarrow> 'c \<Rightarrow> 'w \<Rightarrow> 'w tool_run result \<times> 'w"

definition check_output :: "'v schema_lib \<Rightarrow> operation_outcome \<Rightarrow> ('c, 'w, 'v) registry_entry \<Rightarrow> unit result" where
  "check_output L outcome entry = r_bind (outcome_validate outcome) (\<lambda>_.
     case (ry_output entry, outcome_structured outcome) of
       (Some schema, Some value) \<Rightarrow> schema_validate L schema value
     | _ \<Rightarrow> Inr ())"

definition validated_outcome ::
  "(string \<Rightarrow> string) \<Rightarrow> 'v schema_lib \<Rightarrow> operation_outcome \<Rightarrow> ('c, 'w, 'v) registry_entry \<Rightarrow> operation_outcome" where
  "validated_outcome debug L outcome entry = (case check_output L outcome entry of
       Inr _ \<Rightarrow> outcome
     | Inl e \<Rightarrow> OutcomeFailure (failure_new ''invalid_tool_output'' (error_text debug e)))"

definition validated_receive ::
  "(string \<Rightarrow> string) \<Rightarrow> 'v schema_lib \<Rightarrow> ('c, 'w, 'v) registry_entry
    \<Rightarrow> ('w \<Rightarrow> operation_event option result \<times> 'w) \<Rightarrow> 'w \<Rightarrow> operation_event option result \<times> 'w" where
  "validated_receive debug L entry receive w = (case receive w of
       (Inr (Some event), w') \<Rightarrow> (Inr (Some (case oe_update event of
           UpdateFinished outcome \<Rightarrow> event\<lparr>oe_update := UpdateFinished (validated_outcome debug L outcome entry)\<rparr>
         | _ \<Rightarrow> event)), w')
     | (r, w') \<Rightarrow> (r, w'))"

definition wrap_execution ::
  "(string \<Rightarrow> string) \<Rightarrow> 'v schema_lib \<Rightarrow> 'w tool_run \<Rightarrow> ('c, 'w, 'v) registry_entry \<Rightarrow> 'w tool_run" where
  "wrap_execution debug L execution entry = (case execution of
       RunFinished outcome \<Rightarrow> RunFinished (validated_outcome debug L outcome entry)
     | RunActive handle \<Rightarrow> RunActive (handle\<lparr>th_receive := validated_receive debug L entry (th_receive handle)\<rparr>))"

definition wrap_result ::
  "(string \<Rightarrow> string) \<Rightarrow> 'v schema_lib \<Rightarrow> ('c, 'w, 'v) registry_entry \<Rightarrow> 'w tool_run result \<times> 'w
    \<Rightarrow> 'w tool_run result \<times> 'w" where
  "wrap_result debug L entry rw = (case rw of
     (Inl e, w) \<Rightarrow> (Inl e, w) | (Inr x, w) \<Rightarrow> (Inr (wrap_execution debug L x entry), w))"

definition entry_binding ::
  "(string \<Rightarrow> string) \<Rightarrow> 'v schema_lib \<Rightarrow> ('c, 'w, 'v) registry_entry \<Rightarrow> runtime_tool_call
    \<Rightarrow> ('c, 'w) tool_binding" where
  "entry_binding debug L entry call = \<lparr>bd_spec = ry_spec entry,
     bd_start = (\<lambda>c w. wrap_result debug L entry (tl_start (ry_tool entry) call c w)),
     bd_recover = (\<lambda>r c w. wrap_result debug L entry (tl_recover (ry_tool entry) r c w))\<rparr>"

text \<open>
  \<open>bind\<close>. The arm for a structured tool unwraps the compiled input schema; \<open>registry_register\<close> puts one
  there for every structured specification (\<open>registry_ok\<close>), so the model reads a missing one as
  the kind mismatch without effect on any registry that was built by registering.
\<close>

definition registry_bind ::
  "(string \<Rightarrow> string) \<Rightarrow> 'v schema_lib \<Rightarrow> ('c, 'w, 'v) registry \<Rightarrow> runtime_tool_call
    \<Rightarrow> ('c, 'w) tool_binding result" where
  "registry_bind debug L m call = r_bind (runtime_tool_call_validate call) (\<lambda>_.
     r_bind (ok_or (Catalog (ToolNotFound (rtc_name call))) (om_get m (rtc_name call))) (\<lambda>entry.
     r_bind (case (rts_input (ry_spec entry), rtc_input call, ry_input entry) of
         (StructuredSpec _, Structured value, Some v) \<Rightarrow> schema_validate L v value
       | (FreeformSpec _, Freeform _, _) \<Rightarrow> Inr ()
       | _ \<Rightarrow> Inl (Validation InputKind)) (\<lambda>_.
       Inr (entry_binding debug L entry call))))"

section \<open>Composed catalogs\<close>

text \<open>
  A catalog that was opened lists specifications and binds calls; a source opens one. The composed
  catalog remembers which source listed a name.
\<close>

record ('c, 'w) tool_snapshot =
  sn_specs :: "runtime_tool_spec list"
  sn_bind :: "runtime_tool_call \<Rightarrow> ('c, 'w) tool_binding result"

type_synonym composite_entries = "(string, nat \<times> runtime_tool_spec) omap"

fun composite_collect :: "nat \<Rightarrow> runtime_tool_spec list \<Rightarrow> composite_entries \<Rightarrow> composite_entries result" where
  "composite_collect index [] m = Inr m"
| "composite_collect index (spec # specs) m =
     (if rts_name spec = [] then Inl (Catalog EmptyName)
      else case om_get m (rts_name spec) of
          Some (old, _) \<Rightarrow> Inl (Catalog (Duplicate (rts_name spec) [dec old, dec index]))
        | None \<Rightarrow> composite_collect index specs (om_insert (rts_name spec) (index, spec) m))"

text \<open>\<open>cancelled\<close> is asked before and after each source opened its catalog.\<close>

fun composite_open ::
  "('w \<Rightarrow> bool) \<Rightarrow> ('w \<Rightarrow> ('c, 'v) tool_snapshot result \<times> 'w) list \<Rightarrow> ('c, 'v) tool_snapshot list
    \<Rightarrow> composite_entries \<Rightarrow> 'w \<Rightarrow> (('c, 'v) tool_snapshot list \<times> composite_entries) result \<times> 'w" where
  "composite_open cancelled [] snapshots m w = (Inr (snapshots, m), w)"
| "composite_open cancelled (source # sources) snapshots m w =
     (if cancelled w then (Inl Cancelled, w)
      else case source w of
          (Inl e, w') \<Rightarrow> (Inl e, w')
        | (Inr snapshot, w') \<Rightarrow>
            (if cancelled w' then (Inl Cancelled, w')
             else case composite_collect (length snapshots) (sn_specs snapshot) m of
                 Inl e \<Rightarrow> (Inl e, w')
               | Inr m' \<Rightarrow> composite_open cancelled sources (snapshots @ [snapshot]) m' w'))"

definition composite_specs :: "composite_entries \<Rightarrow> runtime_tool_spec list" where
  "composite_specs m = map snd (om_values m)"

definition composite_bind ::
  "('c, 'w) tool_snapshot list \<Rightarrow> composite_entries \<Rightarrow> runtime_tool_call \<Rightarrow> ('c, 'w) tool_binding result" where
  "composite_bind snapshots m call = r_bind (runtime_tool_call_validate call) (\<lambda>_.
     r_bind (ok_or (Catalog (ToolNotFound (rtc_name call))) (om_get m (rtc_name call))) (\<lambda>(index, spec).
     r_bind (sn_bind (snapshots ! index) call) (\<lambda>binding.
       if bd_spec binding \<noteq> spec then Inl (Catalog (BindingChanged (rtc_name call))) else Inr binding)))"

definition composite_snapshot :: "('c, 'w) tool_snapshot list \<Rightarrow> composite_entries \<Rightarrow> ('c, 'w) tool_snapshot" where
  "composite_snapshot snapshots m = \<lparr>sn_specs = composite_specs m, sn_bind = composite_bind snapshots m\<rparr>"

definition registry_snapshot ::
  "(string \<Rightarrow> string) \<Rightarrow> 'v schema_lib \<Rightarrow> ('c, 'w, 'v) registry \<Rightarrow> ('c, 'w) tool_snapshot" where
  "registry_snapshot debug L m = \<lparr>sn_specs = registry_specs m, sn_bind = registry_bind debug L m\<rparr>"

section \<open>The contract of a catalog\<close>

text \<open>
  Names are present and unique; a call binds to the specification that is listed under its name, and a
  call of a name that is not listed is not found.
\<close>

locale tool_catalog =
  fixes cat_ok :: "'k \<Rightarrow> bool"
    and specs :: "'k \<Rightarrow> runtime_tool_spec list"
    and bind :: "'k \<Rightarrow> runtime_tool_call \<Rightarrow> ('c, 'w) tool_binding result"
  assumes specs_distinct: "cat_ok k \<Longrightarrow> distinct (map rts_name (specs k))"
    and specs_named: "cat_ok k \<Longrightarrow> s \<in> set (specs k) \<Longrightarrow> rts_name s \<noteq> []"
    and bind_listed: "cat_ok k \<Longrightarrow> bind k call = Inr b
      \<Longrightarrow> bd_spec b \<in> set (specs k) \<and> rts_name (bd_spec b) = rtc_name call"
    and bind_unknown: "cat_ok k \<Longrightarrow> runtime_tool_call_validate call = Inr ()
      \<Longrightarrow> rtc_name call \<notin> rts_name ` set (specs k)
      \<Longrightarrow> bind k call = Inl (Catalog (ToolNotFound (rtc_name call)))"
begin

lemma specs_collect:
  assumes "cat_ok k"
  shows "\<exists>m. catalog_collect [] (specs k) = Inr m"
proof -
  have "\<exists>m'. catalog_collect m ss = Inr m'"
    if "distinct (map rts_name ss)" "\<forall>s \<in> set ss. rts_name s \<noteq> [] \<and> \<not> om_contains m (rts_name s)" for m ss
    using that by (induction m ss rule: catalog_collect.induct) (simp_all, metis imageI)
  then show ?thesis using specs_distinct [OF assms] specs_named [OF assms] by simp
qed

text \<open>The kernel opens every such catalog, and the checks it adds to a binding only select.\<close>

lemma kernel_selects_all:
  assumes "cat_ok k"
  shows "\<exists>m. select_catalog SelectAll (specs k) = Inr m"
  using specs_collect [OF assms] by (auto simp: select_catalog_def selection_validate_def)

lemma listed_by_name:
  assumes "cat_ok k" and "s \<in> set (specs k)"
  shows "find (\<lambda>s'. rts_name s' = rts_name s) (specs k) = Some s"
proof -
  have "find (\<lambda>s'. rts_name s' = rts_name s) ss = Some s" if "distinct (map rts_name ss)" "s \<in> set ss" for ss
    using that by (induction ss) (auto simp: image_iff)
  then show ?thesis using specs_distinct [OF assms(1)] assms(2) by blast
qed

lemma kernel_bind:
  assumes "cat_ok k" and "select_catalog sel (specs k) = Inr m" and "runtime_tool_call_validate call = Inr ()"
    and "om_contains m (rtc_name call)"
  shows "catalog_bind (\<lambda>c. r_bind (bind k c) (\<lambda>b. Inr (bd_spec b))) m call = r_bind (bind k call) (\<lambda>b. Inr (bd_spec b))"
proof (cases "bind k call")
  case (Inr b)
  have "bd_spec b \<in> set (specs k)" "rts_name (bd_spec b) = rtc_name call"
    using bind_listed [OF assms(1) Inr] by simp_all
  then have "find (\<lambda>s'. rts_name s' = rtc_name call) (specs k) = Some (bd_spec b)"
    using listed_by_name [OF assms(1), of "bd_spec b"] by simp
  then have "om_get m (rtc_name call) = Some (bd_spec b)"
    using select_catalog_get [OF assms(2), of "rtc_name call"] assms(4)
    by (auto simp: om_contains_def split: if_splits)
  then show ?thesis using Inr assms(3) by (simp add: catalog_bind_def)
next
  case (Inl e)
  then show ?thesis using assms(3,4) by (auto simp: catalog_bind_def om_contains_def)
qed

end

definition empty_ok :: "unit \<Rightarrow> bool" where
  "empty_ok k = True"

definition no_binding :: "unit \<Rightarrow> runtime_tool_call \<Rightarrow> ('c, 'w) tool_binding result" where
  "no_binding k call = Inl (Catalog (ToolNotFound (rtc_name call)))"

interpretation no_tools: tool_catalog empty_ok "\<lambda>_. empty_specs" no_binding
  by unfold_locales (auto simp: empty_specs_def no_binding_def)

section \<open>The registry keeps the contract\<close>

definition registry_ok :: "'v schema_lib \<Rightarrow> ('c, 'w, 'v) registry \<Rightarrow> bool" where
  "registry_ok L m \<longleftrightarrow> om_ok m \<and> (\<forall>name e. om_get m name = Some e \<longrightarrow>
     rts_name (ry_spec e) = name \<and> name \<noteq> [] \<and> tl_spec (ry_tool e) = ry_spec e
     \<and> entry_input L (rts_input (ry_spec e)) = Inr (ry_input e)
     \<and> entry_output L (rts_output_schema (ry_spec e)) = Inr (ry_output e))"

lemma registry_okD:
  assumes "registry_ok L m" and "om_get m name = Some e"
  shows "rts_name (ry_spec e) = name" and "name \<noteq> []" and "tl_spec (ry_tool e) = ry_spec e"
    and "entry_input L (rts_input (ry_spec e)) = Inr (ry_input e)"
    and "entry_output L (rts_output_schema (ry_spec e)) = Inr (ry_output e)"
  using assms by (simp_all add: registry_ok_def)

lemma registry_ok_Nil [simp]: "registry_ok L []"
  by (simp add: registry_ok_def)

lemma registry_register_Inr: "registry_register L t m = Inr m' \<longleftrightarrow>
   rts_name (tl_spec t) \<noteq> [] \<and> \<not> om_contains m (rts_name (tl_spec t))
   \<and> (\<exists>inp out. entry_input L (rts_input (tl_spec t)) = Inr inp
      \<and> entry_output L (rts_output_schema (tl_spec t)) = Inr out
      \<and> m' = om_insert (rts_name (tl_spec t)) \<lparr>ry_tool = t, ry_spec = tl_spec t, ry_input = inp, ry_output = out\<rparr> m)"
  by (auto simp: registry_register_def Let_def r_bind_Inr fail_if_Inr)

lemma registry_register_ok:
  assumes "registry_register L t m = Inr m'" and ok: "registry_ok L m"
  shows "registry_ok L m'"
proof -
  let ?good = "\<lambda>name e. rts_name (ry_spec e) = name \<and> name \<noteq> [] \<and> tl_spec (ry_tool e) = ry_spec e
     \<and> entry_input L (rts_input (ry_spec e)) = Inr (ry_input e)
     \<and> entry_output L (rts_output_schema (ry_spec e)) = Inr (ry_output e)"
  obtain inp out where t: "rts_name (tl_spec t) \<noteq> []" "entry_input L (rts_input (tl_spec t)) = Inr inp"
      "entry_output L (rts_output_schema (tl_spec t)) = Inr out"
    and m': "m' = om_insert (rts_name (tl_spec t)) \<lparr>ry_tool = t, ry_spec = tl_spec t, ry_input = inp, ry_output = out\<rparr> m"
    using assms(1) by (auto simp: registry_register_Inr)
  let ?e = "\<lparr>ry_tool = t, ry_spec = tl_spec t, ry_input = inp, ry_output = out\<rparr>"
  have new: "?good (rts_name (tl_spec t)) ?e" using t by simp
  have "?good name e" if "om_get m' name = Some e" for name e
  proof (cases "name = rts_name (tl_spec t)")
    case True
    then have e: "e = ?e" using that m' by simp
    show ?thesis unfolding e True by (rule new)
  next
    case False
    then have "om_get m name = Some e" using that m' by simp
    then show ?thesis using registry_okD [OF ok] by blast
  qed
  moreover have "om_ok m'" using ok m' by (simp add: registry_ok_def)
  ultimately show ?thesis unfolding registry_ok_def by blast
qed

lemma registry_from_ok: "registry_from L ts m = Inr m' \<Longrightarrow> registry_ok L m \<Longrightarrow> registry_ok L m'"
  by (induction L ts m rule: registry_from.induct) (auto simp: r_bind_Inr dest: registry_register_ok)

text \<open>A name leads to the tool that was registered under it.\<close>

lemma registry_from_get:
  "registry_from L ts m = Inr m' \<Longrightarrow>
     map_option ry_tool (om_get m' name) = (case om_get m name of
        Some e \<Rightarrow> Some (ry_tool e) | None \<Rightarrow> find (\<lambda>t. rts_name (tl_spec t) = name) ts)"
proof (induction L ts m rule: registry_from.induct)
  case (2 L t ts m)
  then obtain m1 where m1: "registry_register L t m = Inr m1" "registry_from L ts m1 = Inr m'"
    by (auto simp: r_bind_Inr)
  show ?case using "2.IH" [OF m1(2)] m1(1)
    by (auto simp: registry_register_Inr om_contains_def split: option.splits)
qed (simp split: option.split)

lemma registry_from_distinct:
  "registry_from L ts m = Inr m' \<Longrightarrow> distinct (map (\<lambda>t. rts_name (tl_spec t)) ts)
     \<and> (\<forall>t \<in> set ts. \<not> om_contains m (rts_name (tl_spec t)))"
proof (induction L ts m rule: registry_from.induct)
  case (2 L t ts m)
  then obtain m1 where m1: "registry_register L t m = Inr m1" "registry_from L ts m1 = Inr m'"
    by (auto simp: r_bind_Inr)
  then have "\<not> om_contains m (rts_name (tl_spec t))"
    and new: "om_contains m1 n \<longleftrightarrow> n = rts_name (tl_spec t) \<or> om_contains m n" for n
    by (auto simp: registry_register_Inr)
  moreover have "distinct (map (\<lambda>t. rts_name (tl_spec t)) ts)"
    and "\<not> om_contains m1 (rts_name (tl_spec t'))" if "t' \<in> set ts" for t'
    using "2.IH" [OF m1(2)] that by blast+
  ultimately show ?case using "2.IH" [OF m1(2)] by force
qed simp

lemma registry_bindD:
  assumes "registry_bind debug L m call = Inr b"
  shows "\<exists>entry. om_get m (rtc_name call) = Some entry \<and> b = entry_binding debug L entry call"
  using assms by (auto simp: registry_bind_def r_bind_Inr ok_or_Inr)

lemma om_values_keys: "om_ok m \<Longrightarrow> (\<And>k v. om_get m k = Some v \<Longrightarrow> f v = k) \<Longrightarrow> map f (om_values m) = map fst m"
  by (auto simp: om_values_def om_mem_iff)

interpretation registry: tool_catalog "registry_ok (L :: 'v schema_lib)" registry_specs "registry_bind debug L"
  for debug L
proof
  fix k :: "('c, 'w, 'v) registry"
  assume ok: "registry_ok L k"
  have om: "om_ok k" using ok by (simp add: registry_ok_def)
  have "map (\<lambda>e. rts_name (ry_spec e)) (om_values k) = map fst k"
    by (rule om_values_keys [OF om]) (use ok in \<open>auto simp: registry_ok_def\<close>)
  then show "distinct (map rts_name (registry_specs k))"
    using om_ok_distinct [OF om] by (simp add: registry_specs_def comp_def)
  have listed: "s \<in> set (registry_specs k) \<longleftrightarrow> (\<exists>name e. om_get k name = Some e \<and> s = ry_spec e)" for s
    using om_values_iff [OF om] by (auto simp: registry_specs_def image_iff) blast+
  show "rts_name s \<noteq> []" if "s \<in> set (registry_specs k)" for s
    using that ok listed by (auto simp: registry_ok_def)
  show "bd_spec b \<in> set (registry_specs k) \<and> rts_name (bd_spec b) = rtc_name call"
    if bound: "registry_bind debug L k call = Inr b" for call and b :: "('c, 'w) tool_binding"
  proof -
    obtain entry where "om_get k (rtc_name call) = Some entry" "b = entry_binding debug L entry call"
      using registry_bindD [OF bound] by blast
    then show ?thesis using registry_okD(1) [OF ok] listed by (auto simp: entry_binding_def)
  qed
  show "registry_bind debug L k call = Inl (Catalog (ToolNotFound (rtc_name call)))"
    if "runtime_tool_call_validate call = Inr ()" "rtc_name call \<notin> rts_name ` set (registry_specs k)" for call
  proof -
    have "om_get k (rtc_name call) = None"
    proof (rule ccontr)
      assume "om_get k (rtc_name call) \<noteq> None"
      then obtain e where e: "om_get k (rtc_name call) = Some e" by blast
      then have "ry_spec e \<in> set (registry_specs k)" using listed by blast
      then show False using that(2) registry_okD(1) [OF ok e] by (metis imageI)
    qed
    then show ?thesis using that(1) by (simp add: registry_bind_def)
  qed
qed

text \<open>A binding of the registry runs the tool registered under the name of the call.\<close>

lemma registry_bind_tool:
  assumes "registry_from L tools [] = Inr m" and "t \<in> set tools" and "rts_name (tl_spec t) = rtc_name call"
    and "registry_bind debug L m call = Inr b"
  shows "\<exists>entry. om_get m (rtc_name call) = Some entry \<and> ry_tool entry = t \<and> ry_spec entry = tl_spec t
     \<and> b = entry_binding debug L entry call"
proof -
  have ok: "registry_ok L m" by (rule registry_from_ok [OF assms(1)]) simp
  obtain entry where entry: "om_get m (rtc_name call) = Some entry" "b = entry_binding debug L entry call"
    using registry_bindD [OF assms(4)] by blast
  have "distinct (map (\<lambda>t. rts_name (tl_spec t)) tools)"
    using registry_from_distinct [OF assms(1)] by blast
  moreover have "find (\<lambda>t. rts_name (tl_spec t) = rtc_name call) tools = Some (ry_tool entry)"
    using registry_from_get [OF assms(1), of "rtc_name call"] entry(1) by simp
  ultimately have "ry_tool entry = t"
    using assms(2,3) by (auto simp: find_Some_iff in_set_conv_nth distinct_conv_nth) metis
  then show ?thesis using entry registry_okD(3) [OF ok entry(1)] by auto
qed

text \<open>What a binding reports is a failure, a cancellation, or content and a value that conform.\<close>

definition conforms :: "'v schema_lib \<Rightarrow> 'v option \<Rightarrow> operation_outcome \<Rightarrow> bool" where
  "conforms L schema outcome \<longleftrightarrow> (\<forall>c \<in> set (outcome_content outcome). content_validate c = Inr ())
     \<and> (\<forall>v x. schema = Some v \<longrightarrow> outcome_structured outcome = Some x \<longrightarrow> schema_validate L v x = Inr ())"

lemma check_output_Inr: "check_output L outcome entry = Inr () \<longleftrightarrow> conforms L (ry_output entry) outcome"
  by (auto simp: check_output_def conforms_def outcome_validate_def r_bind_Inr each_Inr
      split: option.splits)

lemma validated_conforms: "conforms L (ry_output entry) (validated_outcome debug L outcome entry)"
  by (auto simp: validated_outcome_def check_output_Inr [symmetric] split: sum.split)
     (simp add: check_output_def outcome_validate_def each_def split: option.split)

lemma validated_outcome_id:
  "conforms L (ry_output entry) outcome \<Longrightarrow> validated_outcome debug L outcome entry = outcome"
  by (simp add: validated_outcome_def check_output_Inr [symmetric])

section \<open>The composed catalog keeps the contract\<close>

definition composite_ok :: "('c, 'w) tool_snapshot list \<Rightarrow> composite_entries \<Rightarrow> bool" where
  "composite_ok sns m \<longleftrightarrow> om_ok m \<and> om_get m [] = None
     \<and> (\<forall>name i s. om_get m name = Some (i, s)
        \<longleftrightarrow> i < length sns \<and> s \<in> set (sn_specs (sns ! i)) \<and> rts_name s = name)"

lemma composite_okD:
  assumes "composite_ok sns m"
  shows "om_ok m" and "om_get m [] = None"
    and "om_get m name = Some (i, s) \<longleftrightarrow> i < length sns \<and> s \<in> set (sn_specs (sns ! i)) \<and> rts_name s = name"
  using assms by (auto simp: composite_ok_def)

lemma composite_ok_Nil [simp]: "composite_ok [] []"
  by (simp add: composite_ok_def)

lemma composite_collectD:
  assumes "composite_collect index ss m = Inr m'" and "om_ok m"
  shows "om_ok m' \<and> (\<forall>s \<in> set ss. rts_name s \<noteq> [] \<and> om_get m (rts_name s) = None)
     \<and> (\<forall>name i s. om_get m' name = Some (i, s)
          \<longleftrightarrow> om_get m name = Some (i, s) \<or> i = index \<and> s \<in> set ss \<and> rts_name s = name)"
  using assms
proof (induction index ss m rule: composite_collect.induct)
  case (2 index spec specs m)
  have new: "rts_name spec \<noteq> []" "om_get m (rts_name spec) = None"
    and rest: "composite_collect index specs (om_insert (rts_name spec) (index, spec) m) = Inr m'"
    using "2.prems" by (auto split: if_splits option.splits)
  note IH0 = "2.IH" [OF new rest om_ok_insert [OF "2.prems"(2)]]
  have clash: "rts_name s \<noteq> [] \<and> rts_name s \<noteq> rts_name spec \<and> om_get m (rts_name s) = None" if "s \<in> set specs" for s
  proof -
    have "rts_name s \<noteq> []" "om_get (om_insert (rts_name spec) (index, spec) m) (rts_name s) = None"
      using IH0 that by blast+
    then show ?thesis by (cases "rts_name s = rts_name spec") simp_all
  qed
  have IH: "om_ok m'" "\<And>name i s. om_get m' name = Some (i, s) \<longleftrightarrow> om_get (om_insert (rts_name spec) (index, spec) m) name = Some (i, s)
       \<or> i = index \<and> s \<in> set specs \<and> rts_name s = name"
    using IH0 by blast+
  show ?case using IH(1) IH(2) clash new by (auto split: if_splits)
qed simp

lemma composite_open_ok:
  "composite_open cancelled sources sns m w = (Inr (sns', m'), w') \<Longrightarrow> composite_ok sns m
     \<Longrightarrow> composite_ok sns' m' \<and> length sns' = length sns + length sources"
proof (induction cancelled sources sns m w rule: composite_open.induct)
  case (2 cancelled source sources sns m w)
  obtain sn w1 where source: "source w = (Inr sn, w1)"
    using "2.prems"(1) by (auto split: if_splits prod.splits sum.splits)
  obtain m1 where m1: "composite_collect (length sns) (sn_specs sn) m = Inr m1"
    and rest: "composite_open cancelled sources (sns @ [sn]) m1 w1 = (Inr (sns', m'), w')"
    and go: "\<not> cancelled w" "\<not> cancelled w1"
    using "2.prems"(1) source by (auto split: if_splits sum.splits)
  note old = composite_okD [OF "2.prems"(2)] and collect = composite_collectD [OF m1 composite_okD(1) [OF "2.prems"(2)]]
  have "om_get m1 name = Some (i, s) \<longleftrightarrow>
      i < length (sns @ [sn]) \<and> s \<in> set (sn_specs ((sns @ [sn]) ! i)) \<and> rts_name s = name" for name i s
    using collect old(3) [of name i s] by (auto simp: nth_append)
  moreover have "om_get m1 [] = None" using collect old(2) by (cases "om_get m1 []") auto
  moreover have "om_ok m1" using collect by blast
  ultimately have "composite_ok (sns @ [sn]) m1" unfolding composite_ok_def by blast
  from "2.IH" [OF go(1) source [symmetric] refl go(2) m1 rest this] show ?case by simp
qed simp

lemma composite_specs_iff:
  assumes "composite_ok sns m"
  shows "s \<in> set (composite_specs m) \<longleftrightarrow> (\<exists>i. om_get m (rts_name s) = Some (i, s))"
proof -
  have "s \<in> set (composite_specs m) \<longleftrightarrow> (\<exists>name i. om_get m name = Some (i, s))"
    using om_values_iff [OF composite_okD(1) [OF assms]] by (force simp: composite_specs_def)
  then show ?thesis using composite_okD(3) [OF assms] by metis
qed

lemma composite_bindD:
  assumes "composite_bind sns m call = Inr b"
  shows "\<exists>i. om_get m (rtc_name call) = Some (i, bd_spec b) \<and> sn_bind (sns ! i) call = Inr b"
  using assms by (auto simp: composite_bind_def r_bind_Inr ok_or_Inr split: if_splits)

interpretation composite: tool_catalog "\<lambda>(sns, m). composite_ok sns m" "\<lambda>(sns, m). composite_specs m"
  "\<lambda>(sns, m). composite_bind (sns :: ('c, 'w) tool_snapshot list) m"
proof (unfold_locales, goal_cases)
  case (1 k)
  obtain sns m where k: "k = (sns, m)" by (cases k)
  have ok: "composite_ok sns m" using 1 k by simp
  have "map (\<lambda>x. rts_name (snd x)) (om_values m) = map fst m"
    by (rule om_values_keys [OF composite_okD(1) [OF ok]]) (use composite_okD(3) [OF ok] in auto)
  then show ?case using om_ok_distinct [OF composite_okD(1) [OF ok]] by (simp add: k composite_specs_def comp_def)
next
  case (2 k s)
  obtain sns m where k: "k = (sns, m)" by (cases k)
  then have ok: "composite_ok sns m" using 2(1) by simp
  from 2(2) k obtain i where "om_get m (rts_name s) = Some (i, s)"
    using composite_specs_iff [OF ok, of s] by auto
  then show ?case using composite_okD(2) [OF ok] by auto
next
  case (3 k call b)
  obtain sns m where k: "k = (sns, m)" by (cases k)
  then have ok: "composite_ok sns m" and bound: "composite_bind sns m call = Inr b" using 3 by simp_all
  obtain i where i: "om_get m (rtc_name call) = Some (i, bd_spec b)" using composite_bindD [OF bound] by blast
  then have "rts_name (bd_spec b) = rtc_name call" using composite_okD(3) [OF ok] by blast
  then show ?case using i composite_specs_iff [OF ok, of "bd_spec b"] k by auto
next
  case (4 k call)
  obtain sns m where k: "k = (sns, m)" by (cases k)
  then have ok: "composite_ok sns m" using 4 by simp
  have "om_get m (rtc_name call) = None"
  proof (rule ccontr)
    assume "om_get m (rtc_name call) \<noteq> None"
    then obtain i s where s: "om_get m (rtc_name call) = Some (i, s)" by auto
    then have name: "rts_name s = rtc_name call" using composite_okD(3) [OF ok] by blast
    then have "s \<in> set (composite_specs m)" using s composite_specs_iff [OF ok, of s] by auto
    then show False using name 4(3) k by (metis imageI prod.case)
  qed
  then show ?case using 4(2) by (simp add: k composite_bind_def)
qed

text \<open>A name is bound by the one source that lists it.\<close>

lemma composite_bind_source:
  assumes "composite_ok sns m" and "i < length sns" and "s \<in> set (sn_specs (sns ! i))" and "rts_name s = rtc_name call"
    and "runtime_tool_call_validate call = Inr ()"
  shows "composite_bind sns m call = r_bind (sn_bind (sns ! i) call) (\<lambda>b.
     if bd_spec b \<noteq> s then Inl (Catalog (BindingChanged (rtc_name call))) else Inr b)"
proof -
  have "om_get m (rtc_name call) = Some (i, s)" using composite_okD(3) [OF assms(1)] assms by blast
  then show ?thesis using assms(5) by (simp add: composite_bind_def)
qed

lemma composite_lists_once:
  assumes "composite_ok sns m" and "i < length sns" and "s \<in> set (sn_specs (sns ! i))"
    and "j < length sns" and "s' \<in> set (sn_specs (sns ! j))" and "rts_name s = rts_name s'"
  shows "i = j \<and> s = s'"
  using composite_okD(3) [OF assms(1), of "rts_name s" i s] composite_okD(3) [OF assms(1), of "rts_name s" j s'] assms
  by auto

end
