(* ===== verification/Tool_Decorators.thy ===== *)
theory Tool_Decorators
  imports Tool_Library Policies
begin

text \<open>
  The decorators of a tool, \<open>zhir-tools/src/decorators.rs\<close>: retries within the deadline of the run, and
  a circuit breaker. The breaker's state is shared by all calls of the tool and is changed in critical
  sections only; \<open>circuit_step\<close> interleaves any number of calls, receptions and dropped handles with a
  clock. The lemmas relate it to the list of verdicts reported so far.
\<close>

section \<open>Retries\<close>

text \<open>\<open>rc\<close> is the run context of the call; the timer's readings are threaded beside the tool's state.\<close>

definition retrying_new :: "('c, 'w) runtime_tool \<Rightarrow> retry_policy \<Rightarrow> unit result" where
  "retrying_new inner policy =
     fail_if (1 < rt_max_attempts policy \<and> \<not> ex_idempotent (rts_execution (tl_spec inner)))
       (Invalid ''retries require an idempotent tool'')"

fun retryable_result :: "'a result \<Rightarrow> bool" where
  "retryable_result (Inl (RuntimeToolError f)) = failure_retryable f"
| "retryable_result _ = False"

text \<open>
  \<open>for attempt in 0..max_attempts\<close>, as recursion on the attempts that are left. None is the wait that
  never ends, or the panic behind the loop and of \<open>expect\<close>.
\<close>

fun retry_loop ::
  "timer \<Rightarrow> retry_policy \<Rightarrow> nat option \<Rightarrow> ('w \<Rightarrow> 'a result \<times> 'w) \<Rightarrow> nat \<Rightarrow> nat \<Rightarrow> timer_state \<Rightarrow> 'w
    \<Rightarrow> ('a result \<times> timer_state \<times> 'w) option" where
  "retry_loop t policy deadline start attempt 0 s w = None"
| "retry_loop t policy deadline start attempt (Suc left) s w = (case timing_check t deadline s of
       (Inl e, s1) \<Rightarrow> Some (Inl e, s1, w)
     | (Inr _, s1) \<Rightarrow> (case start w of (r, w1) \<Rightarrow>
         (if retryable_result r \<and> attempt + 1 < rt_max_attempts policy
          then (case delay_after policy (attempt + 1) of
              None \<Rightarrow> None
            | Some delay \<Rightarrow> (case timing_wait t delay deadline s1 of
                  None \<Rightarrow> None
                | Some (Inl e, s2) \<Rightarrow> Some (Inl e, s2, w1)
                | Some (Inr _, s2) \<Rightarrow> retry_loop t policy deadline start (attempt + 1) left s2 w1))
          else (case timing_check t deadline s1 of
              (Inl e, s2) \<Rightarrow> Some (Inl e, s2, w1)
            | (Inr _, s2) \<Rightarrow> Some (r, s2, w1)))))"

definition retrying_start ::
  "timer \<Rightarrow> nat \<Rightarrow> run_context \<Rightarrow> retry_policy \<Rightarrow> ('c, 'w) runtime_tool \<Rightarrow> runtime_tool_call \<Rightarrow> 'c
    \<Rightarrow> timer_state \<Rightarrow> 'w \<Rightarrow> ('w tool_run result \<times> timer_state \<times> 'w) option" where
  "retrying_start t now_ms rc policy inner call context s w = (case timing_deadline t now_ms rc s of
       (Inl e, s') \<Rightarrow> Some (Inl e, s', w)
     | (Inr deadline, s') \<Rightarrow>
         retry_loop t policy deadline (tl_start inner call context) 0 (rt_max_attempts policy) s' w)"

text \<open>What the tool does when it is started again and again: its results and its state.\<close>

fun starts :: "('w \<Rightarrow> 'a result \<times> 'w) \<Rightarrow> nat \<Rightarrow> 'w \<Rightarrow> 'a result list \<times> 'w" where
  "starts start 0 w = ([], w)"
| "starts start (Suc n) w = (case start w of (r, w1) \<Rightarrow> (case starts start n w1 of (rs, w') \<Rightarrow> (r # rs, w')))"

lemma length_starts [simp]: "length (fst (starts start n w)) = n"
  by (induction n arbitrary: w) (auto split: prod.splits, metis fst_conv)

definition retry_interrupts :: "error set" where
  "retry_interrupts = {Cancelled, Deadline, Invalid ''retry delay exceeds clock range'',
     Invalid ''retry deadline exceeds clock range''}"

text \<open>
  The tool is started at most as often as attempts are left, again only after a retryable error; the
  result is the one of the last start or says what interrupted the retries.
\<close>

lemma retry_loop_result:
  assumes "retry_loop t policy deadline start attempt left s w = Some (r, s', w')"
    and "attempt + left = rt_max_attempts policy"
  shows "\<exists>n \<le> left. w' = snd (starts start n w)
    \<and> (\<forall>r' \<in> set (butlast (fst (starts start n w))). retryable_result r')
    \<and> ((\<exists>e \<in> retry_interrupts. r = Inl e)
       \<or> 0 < n \<and> r = last (fst (starts start n w)) \<and> (retryable_result r \<longrightarrow> n = left))"
  using assms
proof (induction t policy deadline start attempt left s w rule: retry_loop.induct)
  case (2 t policy deadline start attempt left s w)
  obtain r0 s1 where check: "timing_check t deadline s = (r0, s1)" by (cases "timing_check t deadline s")
  obtain r1 w1 where start: "start w = (r1, w1)" by (cases "start w")
  note checked = timing_check_error [of t deadline s _ s1]
  show ?case
  proof (cases r0)
    case (Inl e)
    then have "r = Inl e" "w' = w" using "2.prems"(1) check by simp_all
    then show ?thesis using checked [of e] check Inl by (intro exI [of _ 0]) (auto simp: retry_interrupts_def)
  next
    case (Inr u)
    show ?thesis
    proof (cases "retryable_result r1 \<and> attempt + 1 < rt_max_attempts policy")
      case False
      obtain r2 s2 where check2: "timing_check t deadline s1 = (r2, s2)" by (cases "timing_check t deadline s1")
      have res: "w' = w1 \<and> (r = r1 \<or> (\<exists>e. r2 = Inl e \<and> r = Inl e))"
        using "2.prems"(1) False check start Inr check2 by (auto split: sum.splits if_splits)
      have "retryable_result r1 \<longrightarrow> Suc left = 1" using False "2.prems"(2) by auto
      then show ?thesis
        using res timing_check_error [of t deadline s1 _ s2] check2 start
        by (intro exI [of _ 1]) (auto simp: retry_interrupts_def)
    next
      case True
      then obtain delay where delay: "delay_after policy (attempt + 1) = Some delay"
        using delay_after_Some [of policy "attempt + 1"] by auto
      obtain x s2 where wait: "timing_wait t delay deadline s1 = Some (x, s2)"
        using "2.prems"(1) True check start Inr delay by (auto split: option.splits)
      show ?thesis
      proof (cases x)
        case (Inl e)
        then have "r = Inl e" "w' = w1" using "2.prems"(1) True check start Inr delay wait Inl \<open>r0 = Inr u\<close> by simp_all
        then show ?thesis using timing_wait_result [of t delay deadline s1 e s2] wait Inl start
          by (intro exI [of _ 1]) (auto simp: retry_interrupts_def)
      next
        case x: (Inr u')
        have rest: "retry_loop t policy deadline start (attempt + 1) left s2 w1 = Some (r, s', w')"
          using "2.prems"(1) True check start Inr delay wait x by simp
        obtain n where n: "n \<le> left" "w' = snd (starts start n w1)"
            "\<forall>r' \<in> set (butlast (fst (starts start n w1))). retryable_result r'"
            "(\<exists>e \<in> retry_interrupts. r = Inl e)
               \<or> 0 < n \<and> r = last (fst (starts start n w1)) \<and> (retryable_result r \<longrightarrow> n = left)"
          using "2.IH" [OF check [symmetric] Inr start [symmetric] True delay wait refl x rest] "2.prems"(2) by auto
        obtain rs w2 where rs: "starts start n w1 = (rs, w2)" by (cases "starts start n w1")
        have len: "length rs = n" using length_starts [of start n w1] rs by simp
        show ?thesis
        proof (intro exI [of _ "Suc n"] conjI)
          show "Suc n \<le> Suc left" using n(1) by simp
          show "w' = snd (starts start (Suc n) w)" using n(2) rs start by simp
          show "\<forall>r' \<in> set (butlast (fst (starts start (Suc n) w))). retryable_result r'"
            using n(3) rs start True by auto
          show "(\<exists>e \<in> retry_interrupts. r = Inl e) \<or> 0 < Suc n \<and> r = last (fst (starts start (Suc n) w))
              \<and> (retryable_result r \<longrightarrow> Suc n = Suc left)"
            using n(4) rs start len by auto
        qed
      qed
    qed
  qed
qed simp

text \<open>On a clock that advances the retries end: the panics of the source are out of reach.\<close>

lemma retry_loop_ends:
  assumes "mono (tm_now t)" and "\<And>i. \<exists>k. i \<le> tm_now t k" and "0 < left" and "attempt + left = rt_max_attempts policy"
  shows "\<exists>y. retry_loop t policy deadline start attempt left s w = Some y"
  using assms(3,4)
proof (induction left arbitrary: attempt s w)
  case (Suc left)
  obtain r0 s1 where check: "timing_check t deadline s = (r0, s1)" by (cases "timing_check t deadline s")
  obtain r1 w1 where start: "start w = (r1, w1)" by (cases "start w")
  obtain r2 s2 where check2: "timing_check t deadline s1 = (r2, s2)" by (cases "timing_check t deadline s1")
  show ?case
  proof (cases "retryable_result r1 \<and> attempt + 1 < rt_max_attempts policy")
    case True
    then obtain delay where delay: "delay_after policy (attempt + 1) = Some delay"
      using delay_after_Some [of policy "attempt + 1"] by auto
    obtain x s3 where wait: "timing_wait t delay deadline s1 = Some (x, s3)"
      using timing_wait_ends [OF assms(1,2)] by blast
    have "\<exists>y. retry_loop t policy deadline start (attempt + 1) left s3 w1 = Some y"
      using Suc.IH [of "attempt + 1" s3 w1] Suc.prems(2) True by simp
    then show ?thesis using True check start delay wait by (auto split: sum.split)
  next
    case False
    then show ?thesis using check start check2 by (auto split: sum.split)
  qed
qed simp

section \<open>The circuit breaker\<close>

record circuit =
  ct_failures :: nat
  ct_opened :: "nat option"
  ct_probe :: bool

record probe =
  pb_armed :: bool
  pb_settled :: bool

definition circuit_new :: "nat \<Rightarrow> circuit result" where
  "circuit_new threshold = (if threshold = 0 then Inl (Invalid ''circuit threshold must be positive'')
     else Inr \<lparr>ct_failures = 0, ct_opened = None, ct_probe = False\<rparr>)"

text \<open>
  What \<open>start\<close> does under the lock; \<open>now\<close> is the clock there, \<open>elapsed\<close> does not go below zero.
\<close>

definition circuit_admit :: "nat \<Rightarrow> nat \<Rightarrow> circuit \<Rightarrow> bool result \<times> circuit" where
  "circuit_admit cooldown now c = (case ct_opened c of
       Some at \<Rightarrow> (if now - at < cooldown \<or> ct_probe c
           then (Inl (RuntimeToolError (failure_new ''circuit_open'' ''tool circuit is open'')), c)
           else (Inr True, c\<lparr>ct_probe := True\<rparr>))
     | None \<Rightarrow> (Inr False, c))"

text \<open>The probe of a call: of \<open>start\<close>, armed when it probes an open circuit, and of \<open>recover\<close>.\<close>

definition probe_new :: "bool \<Rightarrow> probe" where
  "probe_new probing = \<lparr>pb_armed = probing, pb_settled = False\<rparr>"

definition circuit_verdict :: "nat \<Rightarrow> nat \<Rightarrow> bool option \<Rightarrow> circuit \<Rightarrow> circuit" where
  "circuit_verdict threshold now failed c = (case failed of
       Some False \<Rightarrow> c\<lparr>ct_failures := 0, ct_opened := None\<rparr>
     | Some True \<Rightarrow> (let c' = c\<lparr>ct_failures := ct_failures c + 1\<rparr> in
         if threshold \<le> ct_failures c' then c'\<lparr>ct_opened := Some now\<rparr> else c')
     | None \<Rightarrow> c)"

definition probe_settle :: "nat \<Rightarrow> nat \<Rightarrow> bool option \<Rightarrow> probe \<times> circuit \<Rightarrow> probe \<times> circuit" where
  "probe_settle threshold now failed pc = (case pc of (p, c) \<Rightarrow>
     if pb_settled p then (p, c)
     else (let c' = circuit_verdict threshold now failed c in
       if pb_armed p then (p\<lparr>pb_settled := True, pb_armed := False\<rparr>, c'\<lparr>ct_probe := False\<rparr>)
       else (p\<lparr>pb_settled := True\<rparr>, c')))"

fun outcome_failed :: "operation_outcome \<Rightarrow> bool option" where
  "outcome_failed (OutcomeSuccess _ _) = Some False"
| "outcome_failed (OutcomeFailure _) = Some True"
| "outcome_failed (OutcomeCancelled _) = None"

definition error_failed :: "error \<Rightarrow> bool option" where
  "error_failed e = (if e = Cancelled then None else Some True)"

text \<open>What the result of the call settles; the probe of an active execution goes with its events.\<close>

definition execution_failed :: "'w tool_run result \<Rightarrow> bool option option" where
  "execution_failed r = (case r of
       Inr (RunFinished outcome) \<Rightarrow> Some (outcome_failed outcome)
     | Inr (RunActive _) \<Rightarrow> None
     | Inl e \<Rightarrow> Some (error_failed e))"

text \<open>What a reception settles.\<close>

definition reception_failed :: "operation_event option result \<Rightarrow> bool option option" where
  "reception_failed r = (case r of
       Inr (Some event) \<Rightarrow> (case oe_update event of UpdateFinished outcome \<Rightarrow> Some (outcome_failed outcome) | _ \<Rightarrow> None)
     | Inr None \<Rightarrow> Some (Some True)
     | Inl _ \<Rightarrow> Some (Some True))"

definition probe_drop :: "probe \<Rightarrow> circuit \<Rightarrow> circuit" where
  "probe_drop p c = (if pb_armed p then c\<lparr>ct_probe := False\<rparr> else c)"

text \<open>
  The breaker with its calls. A call is waiting for the tool or belongs to a handle; \<open>cb_verdicts\<close> lists
  what was settled, the latest first, and is read by the lemmas only.
\<close>

datatype circuit_call = Calling probe | Receiving probe

fun call_probe :: "circuit_call \<Rightarrow> probe" where
  "call_probe (Calling p) = p"
| "call_probe (Receiving p) = p"

record breaker =
  cb_circuit :: circuit
  cb_calls :: "nat \<rightharpoonup> circuit_call"
  cb_now :: nat
  cb_verdicts :: "bool option list"

definition breaker_new :: "nat \<Rightarrow> breaker result" where
  "breaker_new threshold = r_bind (circuit_new threshold) (\<lambda>c.
     Inr \<lparr>cb_circuit = c, cb_calls = Map.empty, cb_now = 0, cb_verdicts = []\<rparr>)"

definition breaker_start :: "nat \<Rightarrow> nat \<Rightarrow> breaker \<Rightarrow> unit result \<times> breaker" where
  "breaker_start cooldown i b = (case circuit_admit cooldown (cb_now b) (cb_circuit b) of
       (Inl e, c) \<Rightarrow> (Inl e, b\<lparr>cb_circuit := c\<rparr>)
     | (Inr probing, c) \<Rightarrow> (Inr (), b\<lparr>cb_circuit := c, cb_calls := (cb_calls b)(i \<mapsto> Calling (probe_new probing))\<rparr>))"

definition breaker_recover :: "nat \<Rightarrow> breaker \<Rightarrow> breaker" where
  "breaker_recover i b = b\<lparr>cb_calls := (cb_calls b)(i \<mapsto> Calling (probe_new False))\<rparr>"

definition breaker_settle ::
  "nat \<Rightarrow> bool option \<Rightarrow> probe \<Rightarrow> breaker \<Rightarrow> probe \<times> breaker" where
  "breaker_settle threshold failed p b = (case probe_settle threshold (cb_now b) failed (p, cb_circuit b) of
     (p', c) \<Rightarrow> (p', b\<lparr>cb_circuit := c,
        cb_verdicts := (if pb_settled p then cb_verdicts b else failed # cb_verdicts b)\<rparr>))"

definition breaker_discard :: "nat \<Rightarrow> probe \<Rightarrow> breaker \<Rightarrow> breaker" where
  "breaker_discard i p b = b\<lparr>cb_circuit := probe_drop p (cb_circuit b), cb_calls := (cb_calls b)(i := None)\<rparr>"

text \<open>\<open>execution\<close>: the tool answered the call.\<close>

definition breaker_execution :: "nat \<Rightarrow> nat \<Rightarrow> probe \<Rightarrow> 'w tool_run result \<Rightarrow> breaker \<Rightarrow> breaker" where
  "breaker_execution threshold i p r b = (case execution_failed r of
       Some failed \<Rightarrow> (case breaker_settle threshold failed p b of (p', b') \<Rightarrow> breaker_discard i p' b')
     | None \<Rightarrow> b\<lparr>cb_calls := (cb_calls b)(i \<mapsto> Receiving p)\<rparr>)"

definition breaker_receive :: "nat \<Rightarrow> nat \<Rightarrow> probe \<Rightarrow> operation_event option result \<Rightarrow> breaker \<Rightarrow> breaker" where
  "breaker_receive threshold i p r b = (case reception_failed r of
       Some failed \<Rightarrow> (case breaker_settle threshold failed p b of (p', b') \<Rightarrow>
           b'\<lparr>cb_calls := (cb_calls b')(i \<mapsto> Receiving p')\<rparr>)
     | None \<Rightarrow> b)"

text \<open>
  The interleaving: time passes, calls start or are refused, the tool answers, a reception returns, and
  a future or a handle is dropped at any time.
\<close>

inductive circuit_step :: "nat \<Rightarrow> nat \<Rightarrow> breaker \<Rightarrow> breaker \<Rightarrow> bool" for threshold cooldown where
  cbstep_time: "circuit_step threshold cooldown b (b\<lparr>cb_now := cb_now b + d\<rparr>)"
| cbstep_start: "cb_calls b i = None \<Longrightarrow> circuit_step threshold cooldown b (snd (breaker_start cooldown i b))"
| cbstep_recover: "cb_calls b i = None \<Longrightarrow> circuit_step threshold cooldown b (breaker_recover i b)"
| cbstep_answer: "cb_calls b i = Some (Calling p)
    \<Longrightarrow> circuit_step threshold cooldown b (breaker_execution threshold i p (r :: unit tool_run result) b)"
| cbstep_receive: "cb_calls b i = Some (Receiving p)
    \<Longrightarrow> circuit_step threshold cooldown b (breaker_receive threshold i p event b)"
| cbstep_drop: "cb_calls b i = Some c \<Longrightarrow> circuit_step threshold cooldown b (breaker_discard i (call_probe c) b)"

inductive circuit_reaches :: "nat \<Rightarrow> nat \<Rightarrow> breaker \<Rightarrow> bool" for threshold cooldown where
  cbreach_new: "breaker_new threshold = Inr b \<Longrightarrow> circuit_reaches threshold cooldown b"
| cbreach_step: "circuit_reaches threshold cooldown b \<Longrightarrow> circuit_step threshold cooldown b b'
    \<Longrightarrow> circuit_reaches threshold cooldown b'"

section \<open>What the breaker keeps\<close>

text \<open>The failures since the last success, among the verdicts with the latest first.\<close>

fun trailing_failures :: "bool option list \<Rightarrow> nat" where
  "trailing_failures [] = 0"
| "trailing_failures (Some True # vs) = Suc (trailing_failures vs)"
| "trailing_failures (Some False # vs) = 0"
| "trailing_failures (None # vs) = trailing_failures vs"

text \<open>
  The breaker is open exactly when the last \<open>threshold\<close> verdicts are failures, and its flag is set
  exactly while one call carries the armed probe.
\<close>

definition verdicts_ok :: "nat \<Rightarrow> nat \<Rightarrow> bool option list \<Rightarrow> circuit \<Rightarrow> bool" where
  "verdicts_ok threshold now vs c \<longleftrightarrow> ct_failures c = trailing_failures vs
     \<and> (ct_opened c \<noteq> None \<longleftrightarrow> threshold \<le> ct_failures c) \<and> none_or (\<lambda>at. at \<le> now) (ct_opened c)"

definition armed :: "(nat \<rightharpoonup> circuit_call) \<Rightarrow> nat \<Rightarrow> bool" where
  "armed calls i \<longleftrightarrow> some_and (\<lambda>c. pb_armed (call_probe c)) (calls i)"

definition probes_ok :: "bool \<Rightarrow> (nat \<rightharpoonup> circuit_call) \<Rightarrow> bool" where
  "probes_ok flag calls \<longleftrightarrow> (flag \<longleftrightarrow> (\<exists>i. armed calls i))
     \<and> (\<forall>i j. armed calls i \<longrightarrow> armed calls j \<longrightarrow> i = j)
     \<and> (\<forall>i c. calls i = Some c \<longrightarrow> pb_armed (call_probe c) \<longrightarrow> \<not> pb_settled (call_probe c))"

definition circuit_inv :: "nat \<Rightarrow> breaker \<Rightarrow> bool" where
  "circuit_inv threshold b \<longleftrightarrow> 0 < threshold \<and> verdicts_ok threshold (cb_now b) (cb_verdicts b) (cb_circuit b)
     \<and> probes_ok (ct_probe (cb_circuit b)) (cb_calls b)"

lemma armed_upd [simp]:
  "armed (calls(i \<mapsto> c)) j \<longleftrightarrow> (if j = i then pb_armed (call_probe c) else armed calls j)"
  "armed (calls(i := None)) j \<longleftrightarrow> j \<noteq> i \<and> armed calls j"
  by (simp_all add: armed_def)

lemma verdicts_ok_flag [simp]: "verdicts_ok threshold now vs (c\<lparr>ct_probe := f\<rparr>) = verdicts_ok threshold now vs c"
  by (simp add: verdicts_ok_def)

lemma verdicts_ok_settle:
  "verdicts_ok threshold now vs c \<Longrightarrow> 0 < threshold
     \<Longrightarrow> verdicts_ok threshold now (failed # vs) (circuit_verdict threshold now failed c)"
  by (auto simp: verdicts_ok_def circuit_verdict_def Let_def split: option.split bool.split)

lemma circuit_verdict_flag [simp]: "ct_probe (circuit_verdict threshold now failed c) = ct_probe c"
  by (auto simp: circuit_verdict_def Let_def split: option.split bool.split)

text \<open>An unarmed call may come, change and go; the armed one takes the flag with it.\<close>

lemma probes_ok_unarmed:
  assumes "probes_ok flag calls" and "\<not> armed calls i"
  shows "\<not> pb_armed (call_probe c) \<Longrightarrow> probes_ok flag (calls(i \<mapsto> c))" and "probes_ok flag (calls(i := None))"
proof -
  show "probes_ok flag (calls(i \<mapsto> c))" if "\<not> pb_armed (call_probe c)"
    using assms that unfolding probes_ok_def armed_upd by (auto split: if_splits)
  show "probes_ok flag (calls(i := None))"
    using assms unfolding probes_ok_def armed_upd by (auto split: if_splits)
qed

lemma probes_ok_armed:
  assumes "probes_ok flag calls" and "armed calls i"
  shows "\<not> pb_armed (call_probe c) \<Longrightarrow> probes_ok False (calls(i \<mapsto> c))" and "probes_ok False (calls(i := None))"
proof -
  show "probes_ok False (calls(i \<mapsto> c))" if "\<not> pb_armed (call_probe c)"
    using assms that unfolding probes_ok_def armed_upd by (auto split: if_splits)
  show "probes_ok False (calls(i := None))"
    using assms unfolding probes_ok_def armed_upd by (auto split: if_splits)
qed

lemma probes_ok_arm:
  assumes "probes_ok False calls" and "calls i = None"
  shows "probes_ok True (calls(i \<mapsto> Calling (probe_new True)))"
  using assms unfolding probes_ok_def armed_upd by (auto simp: probe_new_def split: if_splits)

lemma armed_iff: "calls i = Some c \<Longrightarrow> armed calls i \<longleftrightarrow> pb_armed (call_probe c)"
  by (simp add: armed_def)

text \<open>Settling leaves an unarmed probe, which may be kept or dropped.\<close>

lemma breaker_settle_ok:
  assumes inv: "circuit_inv threshold b" and call: "cb_calls b i = Some c"
    and settle: "breaker_settle threshold failed (call_probe c) b = (p', b')"
  shows "pb_settled p'" and "\<not> pb_armed p'" and "cb_calls b' = cb_calls b" and "cb_now b' = cb_now b"
    and "verdicts_ok threshold (cb_now b) (cb_verdicts b') (cb_circuit b')"
    and "c' = None \<or> c' = Some (Receiving p') \<Longrightarrow> probes_ok (ct_probe (cb_circuit b')) ((cb_calls b)(i := c'))"
proof -
  let ?p = "call_probe c"
  have th: "0 < threshold" and v: "verdicts_ok threshold (cb_now b) (cb_verdicts b) (cb_circuit b)"
    and pr: "probes_ok (ct_probe (cb_circuit b)) (cb_calls b)"
    using inv by (simp_all add: circuit_inv_def)
  have fresh: "pb_armed ?p \<Longrightarrow> \<not> pb_settled ?p" using pr call by (auto simp: probes_ok_def)
  note arm = armed_iff [of "cb_calls b" i, OF call]
  have res: "p' = ?p \<and> b' = b" if "pb_settled ?p"
    using settle that by (simp add: breaker_settle_def probe_settle_def)
  have new: "pb_settled p' \<and> \<not> pb_armed p' \<and> cb_calls b' = cb_calls b \<and> cb_now b' = cb_now b
      \<and> cb_verdicts b' = failed # cb_verdicts b
      \<and> cb_circuit b' = (let k = circuit_verdict threshold (cb_now b) failed (cb_circuit b) in
          if pb_armed ?p then k\<lparr>ct_probe := False\<rparr> else k)" if "\<not> pb_settled ?p"
    using settle that by (auto simp: breaker_settle_def probe_settle_def Let_def split: if_splits)
  show settled: "pb_settled p'" using res new by (cases "pb_settled ?p") simp_all
  show unarmed: "\<not> pb_armed p'" using res new fresh by (cases "pb_settled ?p") auto
  show "cb_calls b' = cb_calls b" "cb_now b' = cb_now b" using res new by (cases "pb_settled ?p"; simp)+
  show "verdicts_ok threshold (cb_now b) (cb_verdicts b') (cb_circuit b')"
    using res new v verdicts_ok_settle [OF v th, of failed] by (cases "pb_settled ?p") (simp_all add: Let_def)
  show "probes_ok (ct_probe (cb_circuit b')) ((cb_calls b)(i := c'))" if "c' = None \<or> c' = Some (Receiving p')"
  proof (cases "pb_armed ?p")
    case True
    then have "\<not> ct_probe (cb_circuit b')" using new fresh by (simp add: Let_def)
    then show ?thesis using that unarmed probes_ok_armed [OF pr, of i] True arm by auto
  next
    case False
    then have "ct_probe (cb_circuit b') = ct_probe (cb_circuit b)"
      using res new by (cases "pb_settled ?p") (simp_all add: Let_def)
    then show ?thesis using that unarmed probes_ok_unarmed [OF pr, of i] False arm by auto
  qed
qed

lemma probe_drop_unarmed [simp]: "\<not> pb_armed p \<Longrightarrow> probe_drop p c = c"
  by (simp add: probe_drop_def)

lemma breaker_new_ok: "breaker_new threshold = Inr b \<Longrightarrow> circuit_inv threshold b"
  by (auto simp: breaker_new_def circuit_new_def circuit_inv_def verdicts_ok_def probes_ok_def armed_def split: if_splits)

lemma breaker_start_ok:
  assumes "circuit_inv threshold b" and "cb_calls b i = None"
  shows "circuit_inv threshold (snd (breaker_start cooldown i b))"
proof -
  have pr: "probes_ok (ct_probe (cb_circuit b)) (cb_calls b)" using assms(1) by (simp add: circuit_inv_def)
  have "\<not> armed (cb_calls b) i" using assms(2) by (simp add: armed_def)
  from probes_ok_unarmed(1) [OF pr this, of "Calling (probe_new False)"]
  have "probes_ok (ct_probe (cb_circuit b)) ((cb_calls b)(i \<mapsto> Calling (probe_new False)))" by (simp add: probe_new_def)
  then show ?thesis
    using assms(1) pr probes_ok_arm [of "cb_calls b" i, OF _ assms(2)]
    by (auto simp: breaker_start_def circuit_admit_def circuit_inv_def split: option.split)
qed

lemma breaker_recover_ok:
  assumes "circuit_inv threshold b" and "cb_calls b i = None"
  shows "circuit_inv threshold (breaker_recover i b)"
proof -
  have pr: "probes_ok (ct_probe (cb_circuit b)) (cb_calls b)" using assms(1) by (simp add: circuit_inv_def)
  have "\<not> armed (cb_calls b) i" using assms(2) by (simp add: armed_def)
  then show ?thesis using assms(1) probes_ok_unarmed(1) [OF pr, of i]
    by (simp add: breaker_recover_def circuit_inv_def probe_new_def)
qed

lemma breaker_discard_ok:
  assumes "circuit_inv threshold b" and call: "cb_calls b i = Some c"
  shows "circuit_inv threshold (breaker_discard i (call_probe c) b)"
proof -
  have pr: "probes_ok (ct_probe (cb_circuit b)) (cb_calls b)" using assms(1) by (simp add: circuit_inv_def)
  show ?thesis
    using assms(1) probes_ok_armed(2) [OF pr, of i] probes_ok_unarmed(2) [OF pr, of i] armed_iff [of "cb_calls b" i, OF call]
    by (auto simp: breaker_discard_def probe_drop_def circuit_inv_def)
qed

lemma breaker_execution_ok:
  assumes inv: "circuit_inv threshold b" and call: "cb_calls b i = Some (Calling p)"
  shows "circuit_inv threshold (breaker_execution threshold i p r b)"
proof (cases "execution_failed r")
  case None
  have "probes_ok (ct_probe (cb_circuit b)) ((cb_calls b)(i \<mapsto> Receiving p))"
  proof -
    have pr: "probes_ok (ct_probe (cb_circuit b)) (cb_calls b)" using inv by (simp add: circuit_inv_def)
    have same: "armed ((cb_calls b)(i \<mapsto> Receiving p)) = armed (cb_calls b)"
      using armed_iff [of "cb_calls b" i, OF call] by (auto simp: fun_eq_iff)
    have fresh: "\<forall>j c. cb_calls b j = Some c \<longrightarrow> pb_armed (call_probe c) \<longrightarrow> \<not> pb_settled (call_probe c)"
      using pr unfolding probes_ok_def by blast
    then have "pb_armed p \<Longrightarrow> \<not> pb_settled p" using call by fastforce
    then have "\<forall>j c. ((cb_calls b)(i \<mapsto> Receiving p)) j = Some c \<longrightarrow> pb_armed (call_probe c) \<longrightarrow> \<not> pb_settled (call_probe c)"
      using fresh by simp
    then show ?thesis using pr unfolding probes_ok_def same by blast
  qed
  then show ?thesis using None inv by (simp add: breaker_execution_def circuit_inv_def)
next
  case (Some failed)
  obtain p' b' where settle: "breaker_settle threshold failed p b = (p', b')"
    by (cases "breaker_settle threshold failed p b")
  note ok = breaker_settle_ok [OF inv call, unfolded call_probe.simps, OF settle]
  show ?thesis
    using ok(2-5) ok(6) [of None] inv
    by (simp add: breaker_execution_def Some settle breaker_discard_def circuit_inv_def)
qed

lemma breaker_receive_ok:
  assumes inv: "circuit_inv threshold b" and call: "cb_calls b i = Some (Receiving p)"
  shows "circuit_inv threshold (breaker_receive threshold i p event b)"
proof (cases "reception_failed event")
  case None
  then show ?thesis using inv by (simp add: breaker_receive_def)
next
  case (Some failed)
  obtain p' b' where settle: "breaker_settle threshold failed p b = (p', b')"
    by (cases "breaker_settle threshold failed p b")
  note ok = breaker_settle_ok [OF inv call, unfolded call_probe.simps, OF settle]
  show ?thesis
    using ok(2-5) ok(6) [of "Some (Receiving p')"] inv
    by (simp add: breaker_receive_def Some settle circuit_inv_def)
qed

lemma circuit_step_ok: "circuit_step threshold cooldown b b' \<Longrightarrow> circuit_inv threshold b \<Longrightarrow> circuit_inv threshold b'"
proof (induction rule: circuit_step.induct)
  case (cbstep_time b d)
  then show ?case by (cases "ct_opened (cb_circuit b)") (auto simp: circuit_inv_def verdicts_ok_def)
qed (auto intro: breaker_start_ok breaker_recover_ok breaker_execution_ok breaker_receive_ok breaker_discard_ok)

lemma circuit_reaches_ok: "circuit_reaches threshold cooldown b \<Longrightarrow> circuit_inv threshold b"
  by (induction rule: circuit_reaches.induct) (auto intro: breaker_new_ok circuit_step_ok)

end
