(* ===== verification/Tool_Properties.thy ===== *)
theory Tool_Properties
  imports Tool_Decorators
begin

text \<open>
  The properties of the tool library: what the registry lets through, where a composed catalog sends a
  call, how often a retrying tool starts, and when a circuit breaker admits a call.
\<close>

section \<open>Validated output\<close>

text \<open>Every way in which a binding can report an outcome.\<close>

definition run_reports :: "'w tool_run result \<times> 'w \<Rightarrow> operation_outcome \<Rightarrow> bool" where
  "run_reports rw outcome \<longleftrightarrow> (case fst rw of
       Inr (RunFinished o') \<Rightarrow> o' = outcome
     | Inr (RunActive handle) \<Rightarrow> (\<exists>w event w'. th_receive handle w = (Inr (Some event), w')
          \<and> oe_update event = UpdateFinished outcome)
     | Inl _ \<Rightarrow> False)"

lemma wrap_result_reports:
  "run_reports (wrap_result debug L entry rw) outcome \<longleftrightarrow>
     (\<exists>raw. run_reports rw raw \<and> outcome = validated_outcome debug L raw entry)"
proof -
  have receive: "validated_receive debug L entry receive w = (Inr (Some event), w') \<and> oe_update event = UpdateFinished outcome
      \<longleftrightarrow> (\<exists>raw. receive w = (Inr (Some raw), w') \<and> (\<exists>o'. oe_update raw = UpdateFinished o'
           \<and> event = raw\<lparr>oe_update := UpdateFinished (validated_outcome debug L o' entry)\<rparr>
           \<and> outcome = validated_outcome debug L o' entry))" for receive event w and w' :: 'a
    by (auto simp: validated_receive_def split: prod.splits sum.splits option.splits operation_update.splits)
  show ?thesis
  proof (cases rw)
    case (Pair r w)
    then show ?thesis
      by (cases r; cases "projr r")
         (auto simp: run_reports_def wrap_result_def wrap_execution_def receive, metis)
  qed
qed

text \<open>
  C27: whatever a registered tool does, an outcome that its binding reports is a failure, a cancellation,
  or content that is valid with a value that satisfies the output schema the tool was registered with;
  an outcome that conforms is reported unchanged.
\<close>

theorem tool_output_conforms:
  assumes "registry_from L tools [] = Inr m" "registry_bind debug L m call = Inr b"
  shows "\<exists>entry. om_get m (rtc_name call) = Some entry \<and> entry_output L (rts_output_schema (bd_spec b)) = Inr (ry_output entry)
    \<and> (\<forall>c w outcome. run_reports (bd_start b c w) outcome \<longrightarrow> conforms L (ry_output entry) outcome)
    \<and> (\<forall>r c w outcome. run_reports (bd_recover b r c w) outcome \<longrightarrow> conforms L (ry_output entry) outcome)
    \<and> (\<forall>c w outcome. run_reports (tl_start (ry_tool entry) call c w) outcome
         \<longrightarrow> conforms L (ry_output entry) outcome \<longrightarrow> run_reports (bd_start b c w) outcome)"
proof -
  have ok: "registry_ok L m" by (rule registry_from_ok [OF assms(1)]) simp
  obtain entry where entry: "om_get m (rtc_name call) = Some entry" "b = entry_binding debug L entry call"
    using registry_bindD [OF assms(2)] by blast
  have b: "bd_spec b = ry_spec entry" "\<And>c w. bd_start b c w = wrap_result debug L entry (tl_start (ry_tool entry) call c w)"
      "\<And>r c w. bd_recover b r c w = wrap_result debug L entry (tl_recover (ry_tool entry) r c w)"
    by (simp_all add: entry(2) entry_binding_def)
  have out: "\<And>rw outcome. run_reports (wrap_result debug L entry rw) outcome \<Longrightarrow> conforms L (ry_output entry) outcome"
    using validated_conforms [of L entry debug] unfolding wrap_result_reports by blast
  have same: "run_reports (wrap_result debug L entry rw) outcome"
    if "run_reports rw outcome" "conforms L (ry_output entry) outcome" for rw outcome
    unfolding wrap_result_reports using that validated_outcome_id [OF that(2), of debug] by metis
  show ?thesis
    by (intro exI [of _ entry] conjI entry(1), unfold b)
       (use registry_okD(5) [OF ok entry(1)] out same in blast)+
qed

section \<open>Composed catalogs\<close>

text \<open>
  C28: a composed catalog sends a call to the one registry that lists its name, as that registry binds it,
  and the binding runs the tool that was registered under the name; no other source lists it.
\<close>

theorem composed_call_reaches_tool:
  assumes "composite_open cancelled sources [] [] w = (Inr (sns, m), w')" "i < length sources"
    and "registry_from L tools [] = Inr reg" "sns ! i = registry_snapshot debug L reg"
    and "t \<in> set tools" "rts_name (tl_spec t) = rtc_name call" "runtime_tool_call_validate call = Inr ()"
  shows "composite_bind sns m call = registry_bind debug L reg call
    \<and> (\<forall>b. composite_bind sns m call = Inr b \<longrightarrow> bd_spec b = tl_spec t
         \<and> (\<exists>entry. om_get reg (rtc_name call) = Some entry
           \<and> (\<forall>c v. bd_start b c v = wrap_result debug L entry (tl_start t call c v))))
    \<and> (\<forall>j s. j < length sns \<longrightarrow> s \<in> set (sn_specs (sns ! j)) \<longrightarrow> rts_name s = rtc_name call \<longrightarrow> j = i)"
proof -
  have cok: "composite_ok sns m" and len: "i < length sns"
    using composite_open_ok [OF assms(1)] assms(2) by simp_all
  have rok: "registry_ok L reg" by (rule registry_from_ok [OF assms(3)]) simp
  have "find (\<lambda>t. rts_name (tl_spec t) = rtc_name call) tools \<noteq> None"
    using assms(5,6) by (auto simp: find_None_iff)
  moreover have "map_option ry_tool (om_get reg (rtc_name call)) = find (\<lambda>t. rts_name (tl_spec t) = rtc_name call) tools"
    using registry_from_get [OF assms(3), of "rtc_name call"] by simp
  ultimately obtain entry0 where e0: "om_get reg (rtc_name call) = Some entry0"
    by (cases "om_get reg (rtc_name call)") simp_all
  have name0: "rts_name (ry_spec entry0) = rtc_name call" by (rule registry_okD(1) [OF rok e0])
  have "ry_spec entry0 \<in> set (registry_specs reg)"
    unfolding registry_specs_def using om_get_values [OF e0] by simp
  then have listed: "ry_spec entry0 \<in> set (sn_specs (sns ! i))" by (simp add: assms(4) registry_snapshot_def)
  have once: "\<forall>j s. j < length sns \<longrightarrow> s \<in> set (sn_specs (sns ! j)) \<longrightarrow> rts_name s = rtc_name call \<longrightarrow> j = i"
    using composite_lists_once [OF cok len listed] name0 by metis
  have spec0: "bd_spec b = ry_spec entry0" if bound: "registry_bind debug L reg call = Inr b" for b
  proof -
    obtain entry where "om_get reg (rtc_name call) = Some entry" "b = entry_binding debug L entry call"
      using registry_bindD [OF bound] by blast
    then show ?thesis using e0 by (simp add: entry_binding_def)
  qed
  have bind_i: "sn_bind (sns ! i) call = registry_bind debug L reg call" by (simp add: assms(4) registry_snapshot_def)
  have same: "composite_bind sns m call = registry_bind debug L reg call"
    unfolding composite_bind_source [OF cok len listed name0 assms(7)] bind_i
    using spec0 by (cases "registry_bind debug L reg call") simp_all
  have "bd_spec b = tl_spec t \<and> (\<exists>entry. om_get reg (rtc_name call) = Some entry
           \<and> (\<forall>c v. bd_start b c v = wrap_result debug L entry (tl_start t call c v)))"
    if bound: "composite_bind sns m call = Inr b" for b
  proof -
    obtain entry where "om_get reg (rtc_name call) = Some entry" "ry_tool entry = t" "ry_spec entry = tl_spec t"
        "b = entry_binding debug L entry call"
      using registry_bind_tool [OF assms(3,5,6)] bound same by metis
    then show ?thesis by (intro conjI exI [of _ entry]) (simp_all add: entry_binding_def)
  qed
  then show ?thesis using same once by blast
qed

section \<open>Decorators\<close>

text \<open>
  C29: a retrying tool always comes to a result on a clock that advances. It starts the tool at most as
  often as the policy allows, again only when the tool is idempotent and after a retryable error, and
  returns the result of the last start or what interrupted it.
\<close>

theorem retries_end_in_budget:
  assumes "mono (tm_now t)" "\<And>i. \<exists>k. i \<le> tm_now t k"
    and "retrying_new inner policy = Inr ()" "0 < rt_max_attempts policy"
  shows "\<exists>r s' w' n. retrying_start t now_ms rc policy inner call context s w = Some (r, s', w')
    \<and> n \<le> rt_max_attempts policy \<and> w' = snd (starts (tl_start inner call context) n w)
    \<and> (1 < n \<longrightarrow> ex_idempotent (rts_execution (tl_spec inner)))
    \<and> (\<forall>r' \<in> set (butlast (fst (starts (tl_start inner call context) n w))). retryable_result r')
    \<and> ((\<exists>e \<in> retry_interrupts. r = Inl e)
       \<or> 0 < n \<and> r = last (fst (starts (tl_start inner call context) n w))
         \<and> (retryable_result r \<longrightarrow> n = rt_max_attempts policy))"
proof -
  obtain dl s1 where dl: "timing_deadline t now_ms rc s = (dl, s1)" by (cases "timing_deadline t now_ms rc s")
  show ?thesis
  proof (cases dl)
    case (Inl e)
    then have "e \<in> retry_interrupts"
      using dl by (auto simp: timing_deadline_def retry_interrupts_def Let_def split: prod.splits option.splits if_splits)
    then show ?thesis using Inl dl by (auto simp: retrying_start_def intro!: exI [of _ 0])
  next
    case (Inr deadline)
    obtain r s' w' where loop: "retry_loop t policy deadline (tl_start inner call context) 0 (rt_max_attempts policy) s1 w
        = Some (r, s', w')"
      using retry_loop_ends [OF assms(1,2,4), of 0 policy deadline "tl_start inner call context" s1 w] by auto
    obtain n where n: "n \<le> rt_max_attempts policy" "w' = snd (starts (tl_start inner call context) n w)"
        "\<forall>r' \<in> set (butlast (fst (starts (tl_start inner call context) n w))). retryable_result r'"
        "(\<exists>e \<in> retry_interrupts. r = Inl e) \<or> 0 < n \<and> r = last (fst (starts (tl_start inner call context) n w))
           \<and> (retryable_result r \<longrightarrow> n = rt_max_attempts policy)"
      using retry_loop_result [OF loop] by auto
    moreover have "1 < n \<longrightarrow> ex_idempotent (rts_execution (tl_spec inner))"
      using assms(3) n(1) by (auto simp: retrying_new_def fail_if_Inr)
    ultimately show ?thesis using Inr dl loop by (auto simp: retrying_start_def)
  qed
qed

text \<open>
  C30: in every interleaving a circuit breaker is open exactly when the last verdicts are \<open>threshold\<close>
  failures; it admits a call exactly when it is closed, or when the cooldown passed and no admitted call
  probes it, so at most one call probes an open tool; a refusal changes nothing; and a probe that is
  dropped or settled makes room for the next.
\<close>

theorem circuit_admits_exactly:
  assumes "circuit_reaches threshold cooldown b" "cb_calls b i = None"
  shows "(ct_opened (cb_circuit b) \<noteq> None \<longleftrightarrow> threshold \<le> trailing_failures (cb_verdicts b))
    \<and> (fst (breaker_start cooldown i b) = Inr () \<longleftrightarrow> trailing_failures (cb_verdicts b) < threshold
        \<or> (\<exists>at. ct_opened (cb_circuit b) = Some at \<and> cooldown \<le> cb_now b - at \<and> (\<forall>j. \<not> armed (cb_calls b) j)))
    \<and> (\<forall>e. fst (breaker_start cooldown i b) = Inl e \<longrightarrow> snd (breaker_start cooldown i b) = b
        \<and> e = RuntimeToolError (failure_new ''circuit_open'' ''tool circuit is open''))
    \<and> (\<forall>j k. armed (cb_calls b) j \<longrightarrow> armed (cb_calls b) k \<longrightarrow> j = k)
    \<and> (\<forall>j c. cb_calls b j = Some c \<longrightarrow> armed (cb_calls b) j
        \<longrightarrow> \<not> ct_probe (cb_circuit (breaker_discard j (call_probe c) b)))"
proof -
  have inv: "circuit_inv threshold b" by (rule circuit_reaches_ok [OF assms(1)])
  have v: "ct_failures (cb_circuit b) = trailing_failures (cb_verdicts b)"
      "ct_opened (cb_circuit b) \<noteq> None \<longleftrightarrow> threshold \<le> ct_failures (cb_circuit b)"
    and flag: "ct_probe (cb_circuit b) \<longleftrightarrow> (\<exists>j. armed (cb_calls b) j)"
    and once: "\<forall>j k. armed (cb_calls b) j \<longrightarrow> armed (cb_calls b) k \<longrightarrow> j = k"
    using inv unfolding circuit_inv_def verdicts_ok_def probes_ok_def by blast+
  have "(fst (breaker_start cooldown i b) = Inr () \<longleftrightarrow> trailing_failures (cb_verdicts b) < threshold
        \<or> (\<exists>at. ct_opened (cb_circuit b) = Some at \<and> cooldown \<le> cb_now b - at \<and> (\<forall>j. \<not> armed (cb_calls b) j)))
    \<and> (\<forall>e. fst (breaker_start cooldown i b) = Inl e \<longrightarrow> snd (breaker_start cooldown i b) = b
        \<and> e = RuntimeToolError (failure_new ''circuit_open'' ''tool circuit is open''))"
    using v flag by (cases "ct_opened (cb_circuit b)") (auto simp: breaker_start_def circuit_admit_def)
  moreover have "\<not> ct_probe (cb_circuit (breaker_discard j (call_probe c) b))"
    if "cb_calls b j = Some c" "armed (cb_calls b) j" for j c
    using that armed_iff [of "cb_calls b" j, OF that(1)] by (simp add: breaker_discard_def probe_drop_def)
  ultimately show ?thesis using v once by simp
qed

text \<open>A successful probe closes the breaker: the next call is admitted without waiting.\<close>

theorem successful_probe_closes:
  assumes "circuit_reaches threshold cooldown b" "cb_calls b i = Some (Calling p)" "pb_armed p" "cb_calls b j = None" "i \<noteq> j"
  shows "fst (breaker_start cooldown j (breaker_execution threshold i p (Inr (RunFinished (OutcomeSuccess content v))) b)) = Inr ()
    \<and> (\<forall>k. \<not> armed (cb_calls (breaker_execution threshold i p (Inr (RunFinished (OutcomeSuccess content v))) b)) k)"
proof -
  have pr: "probes_ok (ct_probe (cb_circuit b)) (cb_calls b)"
    using circuit_reaches_ok [OF assms(1)] by (simp add: circuit_inv_def)
  have "armed (cb_calls b) i" using armed_iff [of "cb_calls b" i, OF assms(2)] assms(3) by simp
  then have once: "\<forall>k. armed (cb_calls b) k \<longrightarrow> k = i" using pr unfolding probes_ok_def by blast
  have "\<forall>j c. cb_calls b j = Some c \<longrightarrow> pb_armed (call_probe c) \<longrightarrow> \<not> pb_settled (call_probe c)"
    using pr unfolding probes_ok_def by blast
  from this [rule_format, OF assms(2)] have fresh: "\<not> pb_settled p" using assms(3) by simp
  obtain p' b' where settle: "breaker_settle threshold (Some False) p b = (p', b')"
    by (cases "breaker_settle threshold (Some False) p b")
  then have b': "\<not> pb_armed p'" "ct_opened (cb_circuit b') = None" "cb_calls b' = cb_calls b"
    using assms(3) fresh by (auto simp: breaker_settle_def probe_settle_def circuit_verdict_def Let_def)
  have exec: "breaker_execution threshold i p (Inr (RunFinished (OutcomeSuccess content v))) b = breaker_discard i p' b'"
    by (simp add: breaker_execution_def execution_failed_def settle)
  show ?thesis
    unfolding exec using once b' by (auto simp: breaker_discard_def breaker_start_def circuit_admit_def)
qed

section \<open>Concrete inputs\<close>

definition sample_schemas :: "json schema_lib" where
  "sample_schemas = \<lparr>sl_compile = (\<lambda>schema. Inr schema),
     sl_check = (\<lambda>schema v. if schema = v then Inr () else Inl (''/'', ''/const'', ''differs''))\<rparr>"

definition sample_tool_spec :: "string \<Rightarrow> runtime_tool_spec" where
  "sample_tool_spec name = \<lparr>rts_name = name, rts_description = ''sample'', rts_input = FreeformSpec None,
     rts_output_schema = Some Null, rts_execution = \<lparr>ex_parallel = True, ex_read_only = True, ex_idempotent = True\<rparr>\<rparr>"

text \<open>A tool that fails twice with a retryable error and then replies, counting its starts.\<close>

definition lib_tool :: "string \<Rightarrow> (unit, nat) runtime_tool" where
  "lib_tool name = function_tool (sample_tool_spec name) (\<lambda>call c n.
     (if n < 2 then Inl (RuntimeToolError \<lparr>failure_code = ''busy'', failure_message = ''later'', failure_retryable = True\<rparr>)
      else Inr (reply_json (\<lambda>_. ''json'') (String ''done'')), n + 1))"

definition lib_call :: "string \<Rightarrow> runtime_tool_call" where
  "lib_call name = \<lparr>rtc_id = ''c1'', rtc_name = name, rtc_input = Freeform ''go''\<rparr>"

definition sample_registry :: "(unit, nat, json) registry" where
  "sample_registry = projr (registry_from sample_schemas [lib_tool ''a'', lib_tool ''b''] [])"

definition sample_run_context :: run_context where
  "sample_run_context = \<lparr>rc_run_id = ''run'', rc_started_at_ms = 0, rc_deadline_at_ms = None,
     rc_parent_run_id = None, rc_parent_runtime_tool_call_id = None, rc_metadata = []\<rparr>"

lemma sample_registry_from: "registry_from sample_schemas [lib_tool ''a'', lib_tool ''b''] [] = Inr sample_registry"
proof -
  have "is_ok (registry_from sample_schemas [lib_tool ''a'', lib_tool ''b''] [])" by code_simp
  then show ?thesis by (simp add: sample_registry_def is_ok_def split: sum.splits)
qed

lemma sample_registry_binds:
  "\<exists>b. registry_bind (\<lambda>s. s) sample_schemas sample_registry (lib_call ''b'') = Inr b"
proof -
  have "is_ok (registry_bind (\<lambda>s. s) sample_schemas sample_registry (lib_call ''b''))" by code_simp
  then show ?thesis by (auto simp: is_ok_def split: sum.splits)
qed

text \<open>The reply of the sample tool does not satisfy the schema, so its outcome must not be reported.\<close>

theorem tool_output_conforms_witness:
  "\<exists>b. registry_bind (\<lambda>s. s) sample_schemas sample_registry (lib_call ''b'') = Inr b
     \<and> (\<forall>w. \<not> run_reports (bd_start b () w) (OutcomeSuccess [Text ''done''] (String ''done'')))"
proof -
  obtain b where b: "registry_bind (\<lambda>s. s) sample_schemas sample_registry (lib_call ''b'') = Inr b"
    using sample_registry_binds by blast
  obtain entry where e: "entry_output sample_schemas (rts_output_schema (bd_spec b)) = Inr (ry_output entry)"
      "om_get sample_registry (rtc_name (lib_call ''b'')) = Some entry"
      "\<forall>c w outcome. run_reports (bd_start b c w) outcome \<longrightarrow> conforms sample_schemas (ry_output entry) outcome"
    using tool_output_conforms [OF sample_registry_from b] by blast
  have "map_option ry_output (om_get sample_registry (rtc_name (lib_call ''b''))) = Some (Some Null)" by code_simp
  then have "ry_output entry = Some Null" using e(2) by simp
  then have "\<not> conforms sample_schemas (ry_output entry) (OutcomeSuccess [Text ''done''] (String ''done''))"
    by (simp add: conforms_def schema_validate_def sample_schemas_def)
  then show ?thesis using b e(3) by blast
qed

definition sample_composite :: "((unit, nat) tool_snapshot list \<times> composite_entries) result \<times> unit" where
  "sample_composite = composite_open (\<lambda>_. False)
     [\<lambda>w. (Inr \<lparr>sn_specs = [], sn_bind = (\<lambda>call. Inl (Catalog (ToolNotFound (rtc_name call))))\<rparr>, w),
      \<lambda>w. (Inr (registry_snapshot (\<lambda>s. s) sample_schemas sample_registry), w)] [] [] ()"

theorem composed_call_reaches_tool_witness:
  "\<exists>b. composite_bind (fst (projr (fst sample_composite))) (snd (projr (fst sample_composite))) (lib_call ''b'') = Inr b
     \<and> bd_spec b = sample_tool_spec ''b''"
proof -
  let ?sns = "fst (projr (fst sample_composite))" and ?m = "snd (projr (fst sample_composite))"
  have "is_ok (fst sample_composite)" by code_simp
  then have c: "composite_open (\<lambda>_. False)
     [\<lambda>w. (Inr \<lparr>sn_specs = [], sn_bind = (\<lambda>call. Inl (Catalog (ToolNotFound (rtc_name call))))\<rparr>, w),
      \<lambda>w. (Inr (registry_snapshot (\<lambda>s. s) sample_schemas sample_registry), w)] [] [] () = (Inr (?sns, ?m), ())"
    unfolding sample_composite_def [symmetric] by (cases "fst sample_composite") (auto simp: prod_eq_iff)
  have sns: "?sns ! 1 = registry_snapshot (\<lambda>s. s) sample_schemas sample_registry"
  proof -
    have "?sns = [\<lparr>sn_specs = [], sn_bind = (\<lambda>call. Inl (Catalog (ToolNotFound (rtc_name call))))\<rparr>,
        registry_snapshot (\<lambda>s. s) sample_schemas sample_registry]"
      using c by (auto split: sum.splits) (metis fst_conv)
    then show ?thesis by simp
  qed
  have call: "runtime_tool_call_validate (lib_call ''b'') = Inr ()" by code_simp
  have t: "lib_tool ''b'' \<in> set [lib_tool ''a'', lib_tool ''b'']"
      "rts_name (tl_spec (lib_tool ''b'')) = rtc_name (lib_call ''b'')"
    by (simp_all add: lib_tool_def function_tool_def sample_tool_spec_def lib_call_def)
  note reach = composed_call_reaches_tool [OF c _ sample_registry_from sns t call]
  have "composite_bind ?sns ?m (lib_call ''b'')
      = registry_bind (\<lambda>s. s) sample_schemas sample_registry (lib_call ''b'')"
    by (rule conjunct1 [OF reach]) simp
  then obtain b where "composite_bind ?sns ?m (lib_call ''b'') = Inr b" using sample_registry_binds by auto
  moreover have "bd_spec b = tl_spec (lib_tool ''b'')"
    by (rule conjunct1 [OF conjunct1 [OF conjunct2 [OF reach], THEN spec, THEN mp]]) (simp, rule calculation)
  ultimately show ?thesis by (simp add: lib_tool_def function_tool_def)
qed

definition sample_timer :: timer where
  "sample_timer = \<lparr>tm_now = (\<lambda>k. 10 * k), tm_cancelled = (\<lambda>_. False), tm_range = 100000\<rparr>"

definition sample_retries :: retry_policy where
  "sample_retries = \<lparr>rt_max_attempts = 3, rt_backoff = backoff_fixed 25\<rparr>"

theorem retries_end_in_budget_witness:
  "\<exists>r s' w'. retrying_start sample_timer 0 sample_run_context sample_retries (lib_tool ''a'') (lib_call ''a'') () (0, 0) 0
     = Some (r, s', w') \<and> w' \<le> 3"
proof -
  have clock: "mono (tm_now sample_timer)" "\<And>i. \<exists>k. i \<le> tm_now sample_timer k"
    by (simp add: mono_def sample_timer_def) (metis le_add1 mult_Suc numeral_eq_Suc sample_timer_def timer.select_convs(1))
  have new: "retrying_new (lib_tool ''a'') sample_retries = Inr ()" "0 < rt_max_attempts sample_retries"
    by (simp_all add: retrying_new_def lib_tool_def function_tool_def sample_tool_spec_def sample_retries_def)
  have one: "snd (tl_start (lib_tool ''a'') (lib_call ''a'') () k) = Suc k" for k
    by (simp add: lib_tool_def function_tool_def)
  have count: "snd (starts start n k) = k + n" if "\<And>k. snd (start k) = Suc k" for start :: "nat \<Rightarrow> nat tool_run result \<times> nat" and n k
  proof (induction n arbitrary: k)
    case (Suc n)
    show ?case using that [of k] Suc.IH [of "Suc k"] by (auto split: prod.split)
  qed simp
  from retries_end_in_budget [OF clock new, of 0 sample_run_context "lib_call ''a''" "()" "(0, 0)" 0]
  show ?thesis
  proof (elim exE conjE, goal_cases)
    case (1 r s' w' n)
    then have "w' = n" "n \<le> 3" using count [OF one, of n 0] by (simp_all add: sample_retries_def)
    then show ?case using 1(1) by blast
  qed
qed

text \<open>A tool that failed twice opens its breaker; after the cooldown one call probes it.\<close>

definition sample_failed :: "nat \<Rightarrow> breaker \<Rightarrow> breaker" where
  "sample_failed i b = breaker_execution 2 i (probe_new False) (Inl (Protocol ''down'') :: unit tool_run result) (snd (breaker_start 50 i b))"

definition sample_breaker :: breaker where
  "sample_breaker = (let b = sample_failed 1 (sample_failed 0 (projr (breaker_new 2))) in b\<lparr>cb_now := cb_now b + 60\<rparr>)"

lemma sample_failed_reaches:
  assumes "circuit_reaches 2 50 b" "cb_calls b i = None" "ct_opened (cb_circuit b) = None"
  shows "circuit_reaches 2 50 (sample_failed i b)"
proof -
  have "circuit_reaches 2 50 (snd (breaker_start 50 i b))"
    by (rule cbreach_step [OF assms(1) cbstep_start]) (rule assms(2))
  moreover have "cb_calls (snd (breaker_start 50 i b)) i = Some (Calling (probe_new False))"
    using assms(3) by (simp add: breaker_start_def circuit_admit_def)
  ultimately show ?thesis unfolding sample_failed_def by (rule cbreach_step [OF _ cbstep_answer])
qed

theorem circuit_admits_exactly_witness:
  "fst (breaker_start 50 7 sample_breaker) = Inr () \<and> 2 \<le> trailing_failures (cb_verdicts sample_breaker)"
proof -
  have new: "breaker_new 2 = Inr (projr (breaker_new 2))" by (simp add: breaker_new_def circuit_new_def)
  let ?b0 = "projr (breaker_new 2)"
  have "circuit_reaches 2 50 (sample_failed 0 ?b0)"
    by (rule sample_failed_reaches [OF cbreach_new [OF new]]) (simp_all add: breaker_new_def circuit_new_def)
  then have "circuit_reaches 2 50 (sample_failed 1 (sample_failed 0 ?b0))"
    by (rule sample_failed_reaches) (simp_all add: sample_failed_def breaker_new_def circuit_new_def breaker_start_def
      circuit_admit_def breaker_execution_def execution_failed_def error_failed_def breaker_settle_def probe_settle_def
      probe_new_def circuit_verdict_def breaker_discard_def)
  then have r: "circuit_reaches 2 50 sample_breaker"
    unfolding sample_breaker_def Let_def by (rule cbreach_step [OF _ cbstep_time])
  have free: "cb_calls sample_breaker 7 = None" by code_simp
  have tripped: "ct_opened (cb_circuit sample_breaker) = Some 0" "cb_now sample_breaker = 60" "ct_probe (cb_circuit sample_breaker) = False"
    by code_simp+
  have "\<not> armed (cb_calls sample_breaker) j" for j
    using circuit_reaches_ok [OF r] tripped(3) by (auto simp: circuit_inv_def probes_ok_def)
  then show ?thesis using circuit_admits_exactly [OF r free] tripped by auto
qed

end
