(* ===== verification/Json_Access.thy ===== *)
theory Json_Access
  imports Text_Forms Model_Protocol
begin

text \<open>
  The accessors of \<open>serde_json\<close> that the codecs use. Reading is total. Writing through an index creates
  what is missing in \<open>null\<close> and in objects and panics elsewhere, so a write is an \<open>option\<close>; a computation
  that may return, fail or panic is an \<open>attempt\<close>.
\<close>

section \<open>Attempts\<close>

datatype 'a attempt = Gives 'a | Fails error | Panics

fun a_bind :: "'a attempt \<Rightarrow> ('a \<Rightarrow> 'b attempt) \<Rightarrow> 'b attempt" where
  "a_bind (Gives x) f = f x"
| "a_bind (Fails e) f = Fails e"
| "a_bind Panics f = Panics"

fun a_result :: "'a result \<Rightarrow> 'a attempt" where
  "a_result (Inl e) = Fails e"
| "a_result (Inr x) = Gives x"

fun a_written :: "'a option \<Rightarrow> 'a attempt" where
  "a_written None = Panics"
| "a_written (Some x) = Gives x"

named_theorems attempt_simps \<open>what a successful computation has done\<close>

lemma a_bind_Gives [attempt_simps]: "a_bind m f = Gives y \<longleftrightarrow> (\<exists>x. m = Gives x \<and> f x = Gives y)"
  by (cases m) auto

lemma a_result_Gives [attempt_simps]: "a_result r = Gives x \<longleftrightarrow> r = Inr x"
  by (cases r) auto

lemma a_written_Gives [attempt_simps]: "a_written r = Gives x \<longleftrightarrow> r = Some x"
  by (cases r) auto

section \<open>Reading\<close>

fun json_get :: "string \<Rightarrow> json \<Rightarrow> json option" where
  "json_get k (Object m) = om_get m k"
| "json_get k _ = None"

fun json_as_str :: "json \<Rightarrow> string option" where
  "json_as_str (String s) = Some s"
| "json_as_str _ = None"

fun json_as_u64 :: "json \<Rightarrow> u64 option" where
  "json_as_u64 (Number (PosInt n)) = Some n"
| "json_as_u64 _ = None"

fun json_as_array :: "json \<Rightarrow> json list option" where
  "json_as_array (Array vs) = Some vs"
| "json_as_array _ = None"

text \<open>\<open>value[key]\<close> for reading, and \<open>get(key).and_then(as_str)\<close> and its like.\<close>

definition json_index :: "string \<Rightarrow> json \<Rightarrow> json" where
  "json_index k v = (case json_get k v of None \<Rightarrow> Null | Some x \<Rightarrow> x)"

definition json_str :: "string \<Rightarrow> json \<Rightarrow> string option" where
  "json_str k v = Option.bind (json_get k v) json_as_str"

definition json_u64 :: "string \<Rightarrow> json \<Rightarrow> u64 option" where
  "json_u64 k v = Option.bind (json_get k v) json_as_u64"

text \<open>\<open>Value::pointer\<close>: the empty pointer, or tokens that each follow a slash.\<close>

fun split_slash :: "string \<Rightarrow> string list" where
  "split_slash [] = [[]]"
| "split_slash (c # s) = (if c = CHR ''/'' then [] # split_slash s
     else (case split_slash s of t # ts \<Rightarrow> (c # t) # ts | [] \<Rightarrow> [[c]]))"

fun replace_tilde :: "char \<Rightarrow> char \<Rightarrow> string \<Rightarrow> string" where
  "replace_tilde d r [] = []"
| "replace_tilde d r [c] = [c]"
| "replace_tilde d r (c # c' # s) = (if c = CHR ''~'' \<and> c' = d then r # replace_tilde d r s
     else c # replace_tilde d r (c' # s))"

definition array_token :: "string \<Rightarrow> nat option" where
  "array_token t = (if t \<noteq> [] \<and> (hd t = CHR ''+'' \<or> hd t = CHR ''0'' \<and> tl t \<noteq> []) then None
     else (case parse_u64 t of Inl _ \<Rightarrow> None | Inr n \<Rightarrow> Some (unat n)))"

fun json_token :: "string \<Rightarrow> json \<Rightarrow> json option" where
  "json_token t (Object m) = om_get m t"
| "json_token t (Array vs) = (case array_token t of
     None \<Rightarrow> None | Some i \<Rightarrow> (if i < length vs then Some (vs ! i) else None))"
| "json_token t _ = None"

fun json_path :: "string list \<Rightarrow> json \<Rightarrow> json option" where
  "json_path [] v = Some v"
| "json_path (t # ts) v = Option.bind (json_token t v) (json_path ts)"

definition json_pointer :: "string \<Rightarrow> json \<Rightarrow> json option" where
  "json_pointer p v = (case p of
       [] \<Rightarrow> Some v
     | c # s \<Rightarrow> (if c \<noteq> CHR ''/'' then None
         else json_path (map (\<lambda>t. replace_tilde CHR ''0'' CHR ''~'' (replace_tilde CHR ''1'' CHR ''/'' t)) (split_slash s)) v))"

section \<open>Writing\<close>

text \<open>\<open>value[key]\<close> and \<open>value[index]\<close> for writing, changed by \<open>f\<close>.\<close>

fun json_upd :: "string \<Rightarrow> (json \<Rightarrow> json option) \<Rightarrow> json \<Rightarrow> json option" where
  "json_upd k f Null = map_option (\<lambda>x. Object [(k, x)]) (f Null)"
| "json_upd k f (Object m) =
     map_option (\<lambda>x. Object (om_insert k x m)) (f (case om_get m k of None \<Rightarrow> Null | Some x \<Rightarrow> x))"
| "json_upd k f _ = None"

fun json_upd_at :: "nat \<Rightarrow> (json \<Rightarrow> json option) \<Rightarrow> json \<Rightarrow> json option" where
  "json_upd_at i f (Array vs) = (if i < length vs then map_option (\<lambda>x. Array (vs[i := x])) (f (vs ! i)) else None)"
| "json_upd_at i f _ = None"

definition json_put :: "string \<Rightarrow> json \<Rightarrow> json \<Rightarrow> json option" where
  "json_put k x = json_upd k (\<lambda>_. Some x)"

lemma json_upd_Some:
  "json_upd k f v = Some w \<longleftrightarrow> (v = Null \<or> json_is_object v) \<and>
     (\<exists>x. f (json_index k v) = Some x \<and> w = Object (om_insert k x (case v of Object m \<Rightarrow> m | _ \<Rightarrow> [])))"
  by (cases v) (auto simp: json_is_object_def json_index_def split: option.splits)

lemma om_get_Cons: "om_get ((k, x) # m) k' = (if k' = k then Some x else om_get m k')"
  by (simp add: om_get_def)

lemma om_get_single: "om_get [(k, x)] k' = (if k' = k then Some x else None)"
  by (simp add: om_get_def)

lemma json_get_upd:
  "json_upd k f v = Some w \<Longrightarrow> json_get k' w = (if k' = k then f (json_index k v) else json_get k' v)"
  by (cases v) (auto simp: json_index_def om_get_single split: option.splits)

lemma json_get_put: "json_put k x v = Some w \<Longrightarrow> json_get k' w = (if k' = k then Some x else json_get k' v)"
  unfolding json_put_def by (drule json_get_upd) simp

lemma json_upd_object: "json_upd k f v = Some w \<Longrightarrow> json_is_object w"
  by (auto simp: json_upd_Some json_is_object_def)

lemma json_put_object: "json_is_object v \<Longrightarrow> \<exists>w. json_put k x v = Some w"
  by (cases v) (auto simp: json_put_def json_is_object_def)

lemma json_str_get: "json_get k v = json_get k w \<Longrightarrow> json_str k v = json_str k w"
  by (simp add: json_str_def)

end
