(* ===== verification/Sse.thy ===== *)
theory Sse
  imports Text_Forms Core_Values
begin

text \<open>
  \<open>SseDecoder\<close> of \<open>zhir-models/src/transport/mod.rs\<close>: the framing of server-sent events, fed with the bytes
  of a response in whatever pieces they arrive. The lemmas show that the pieces do not matter, and that
  a stream of written frames, with any of the three line ends, is read back as the events written.
\<close>

section \<open>The decoder\<close>

record sse_event =
  se_data :: string
  se_event :: "string option"
  se_id :: "string option"
  se_retry :: "u64 option"

definition sse_event_default :: sse_event where
  "sse_event_default = \<lparr>se_data = [], se_event = None, se_id = None, se_retry = None\<rparr>"

record sse_decoder =
  sd_line :: string
  sd_data :: "string list"
  sd_frame :: sse_event
  sd_skip_lf :: bool

definition sse_default :: sse_decoder where
  "sse_default = \<lparr>sd_line = [], sd_data = [], sd_frame = sse_event_default, sd_skip_lf = False\<rparr>"

text \<open>\<open>join("\n")\<close>, and \<open>split_once(':')\<close> with the blank that may follow the colon.\<close>

definition LF :: char where "LF = CHR 0x0A"
definition CR :: char where "CR = CHR 0x0D"
definition NUL :: char where "NUL = CHR 0x00"

fun join_lines :: "string list \<Rightarrow> string" where
  "join_lines [] = []"
| "join_lines [l] = l"
| "join_lines (l # ls) = l @ LF # join_lines ls"

definition sse_field :: "string \<Rightarrow> string \<times> string" where
  "sse_field line = (case split_colon line of
       None \<Rightarrow> (line, [])
     | Some (field, value) \<Rightarrow> (field, case value of c # v \<Rightarrow> if c = CHR '' '' then v else value | [] \<Rightarrow> []))"

text \<open>What the end of a line does, and what a byte does; an error leaves what the decoder held then.\<close>

definition sse_take :: "string \<Rightarrow> string \<Rightarrow> sse_decoder \<Rightarrow> sse_decoder" where
  "sse_take field value d =
     (if field = ''data'' then d\<lparr>sd_data := sd_data d @ [value]\<rparr>
      else if field = ''event'' then d\<lparr>sd_frame := (sd_frame d)\<lparr>se_event := Some value\<rparr>\<rparr>
      else if field = ''id'' \<and> NUL \<notin> set value then d\<lparr>sd_frame := (sd_frame d)\<lparr>se_id := Some value\<rparr>\<rparr>
      else if field = ''retry'' \<and> value \<noteq> [] \<and> list_all ascii_digit value
        then d\<lparr>sd_frame := (sd_frame d)\<lparr>se_retry := (case parse_u64 value of Inl _ \<Rightarrow> None | Inr n \<Rightarrow> Some n)\<rparr>\<rparr>
      else d)"

definition sse_blank :: "sse_decoder \<Rightarrow> sse_event list \<times> sse_decoder" where
  "sse_blank d =
     (if sd_data d \<noteq> []
      then ([(sd_frame d)\<lparr>se_data := join_lines (sd_data d)\<rparr>], d\<lparr>sd_frame := sse_event_default, sd_data := []\<rparr>)
      else ([], d\<lparr>sd_frame := sse_event_default\<rparr>))"

definition sse_line :: "sse_decoder \<Rightarrow> sse_event list result \<times> sse_decoder" where
  "sse_line d = (let line = sd_line d; d' = d\<lparr>sd_line := []\<rparr> in
     case utf8_error 0 line of
       Some message \<Rightarrow> (Inl (Protocol message), d')
     | None \<Rightarrow>
         (if line = [] then (case sse_blank d' of (events, d'') \<Rightarrow> (Inr events, d''))
          else (case sse_field line of (field, value) \<Rightarrow> (Inr [], sse_take field value d'))))"

definition sse_byte :: "char \<Rightarrow> sse_decoder \<Rightarrow> sse_event list result \<times> sse_decoder" where
  "sse_byte b d = (let skip = sd_skip_lf d; d' = d\<lparr>sd_skip_lf := False\<rparr> in
     if skip \<and> b = LF then (Inr [], d')
     else if b \<noteq> LF \<and> b \<noteq> CR then (Inr [], d'\<lparr>sd_line := sd_line d' @ [b]\<rparr>)
     else sse_line (d'\<lparr>sd_skip_lf := (b = CR)\<rparr>))"

text \<open>\<open>push\<close> returns the events of its bytes, or the first error, with which they are lost.\<close>

fun sse_push :: "string \<Rightarrow> sse_decoder \<Rightarrow> sse_event list result \<times> sse_decoder" where
  "sse_push [] d = (Inr [], d)"
| "sse_push (b # bs) d = (case sse_byte b d of
       (Inl e, d') \<Rightarrow> (Inl e, d')
     | (Inr events, d') \<Rightarrow> (case sse_push bs d' of (r, d'') \<Rightarrow> (r_bind r (\<lambda>more. Inr (events @ more)), d'')))"

definition sse_finish :: "sse_decoder \<Rightarrow> sse_event list result \<times> sse_decoder" where
  "sse_finish d = (Inr [], sse_default)"

text \<open>The loop of a reception over the pieces of a body: it ends with the first error.\<close>

fun sse_pieces :: "string list \<Rightarrow> sse_decoder \<Rightarrow> sse_event list result \<times> sse_decoder" where
  "sse_pieces [] d = sse_finish d"
| "sse_pieces (p # ps) d = (case sse_push p d of
       (Inl e, d') \<Rightarrow> (Inl e, d')
     | (Inr events, d') \<Rightarrow> (case sse_pieces ps d' of (r, d'') \<Rightarrow> (r_bind r (\<lambda>more. Inr (events @ more)), d'')))"

section \<open>Pieces\<close>

declare sse_push.simps(2) [simp del]

lemma r_bind_assoc: "r_bind (r_bind m f) g = r_bind m (\<lambda>x. r_bind (f x) g)"
  by (cases m) simp_all

lemma r_bind_return: "r_bind m Inr = m"
  by (cases m) simp_all

lemma sse_push_append:
  "sse_push (as @ bs) d = (case sse_push as d of
       (Inl e, d') \<Rightarrow> (Inl e, d')
     | (Inr events, d') \<Rightarrow> (case sse_push bs d' of (r, d'') \<Rightarrow> (r_bind r (\<lambda>more. Inr (events @ more)), d'')))"
proof (induction as arbitrary: d)
  case Nil
  then show ?case by (simp add: r_bind_return split: prod.splits)
next
  case (Cons a as)
  then show ?case
    by (simp add: sse_push.simps(2) split: prod.splits sum.splits) (auto simp: r_bind_assoc split: prod.splits sum.splits)
qed

lemma sse_pieces_concat:
  "sse_pieces ps d = (case sse_push (concat ps) d of (Inl e, d') \<Rightarrow> (Inl e, d') | (Inr events, d') \<Rightarrow> (Inr events, sse_default))"
proof (induction ps arbitrary: d)
  case Nil
  then show ?case by (simp add: sse_finish_def)
next
  case (Cons p ps)
  show ?case
    by (cases "sse_push p d"; cases "fst (sse_push p d)")
       (auto simp: Cons sse_push_append split: prod.splits sum.splits)
qed

section \<open>Written frames\<close>

text \<open>Events as a server writes them: one field per line, and a line of data per line of text.\<close>

datatype line_end = EndLF | EndCR | EndCRLF

fun line_end_bytes :: "line_end \<Rightarrow> string" where
  "line_end_bytes EndLF = [LF]"
| "line_end_bytes EndCR = [CR]"
| "line_end_bytes EndCRLF = [CR, LF]"

fun split_lines :: "string \<Rightarrow> string list" where
  "split_lines [] = [[]]"
| "split_lines (c # s) = (if c = LF then [] # split_lines s
     else (case split_lines s of l # ls \<Rightarrow> (c # l) # ls | [] \<Rightarrow> [[c]]))"

definition sse_fields :: "sse_event \<Rightarrow> string list" where
  "sse_fields e =
     (case se_event e of None \<Rightarrow> [] | Some v \<Rightarrow> [''event: '' @ v])
     @ (case se_id e of None \<Rightarrow> [] | Some v \<Rightarrow> [''id: '' @ v])
     @ (case se_retry e of None \<Rightarrow> [] | Some n \<Rightarrow> [''retry: '' @ dec (unat n)])
     @ map (\<lambda>l. ''data: '' @ l) (split_lines (se_data e))"

definition sse_write :: "line_end \<Rightarrow> sse_event \<Rightarrow> string" where
  "sse_write style e = concat (map (\<lambda>l. l @ line_end_bytes style) (sse_fields e @ [[]]))"

definition no_break :: "string \<Rightarrow> bool" where
  "no_break s = (LF \<notin> set s \<and> CR \<notin> set s)"

definition sse_clean :: "sse_event \<Rightarrow> bool" where
  "sse_clean e = (utf8_text (se_data e) \<and> CR \<notin> set (se_data e)
     \<and> (case se_event e of None \<Rightarrow> True | Some v \<Rightarrow> utf8_text v \<and> no_break v)
     \<and> (case se_id e of None \<Rightarrow> True | Some v \<Rightarrow> utf8_text v \<and> no_break v \<and> NUL \<notin> set v))"

lemma split_lines_not_Nil [simp]: "split_lines s \<noteq> []"
  by (induction s) (auto split: list.splits)

lemma join_split_lines: "join_lines (split_lines s) = s"
proof (induction s)
  case (Cons c s)
  obtain l ls where ls: "split_lines s = l # ls" by (cases "split_lines s") auto
  show ?case
  proof (cases "c = LF")
    case True
    then show ?thesis using Cons ls by simp
  next
    case False
    then show ?thesis using Cons ls by (cases ls) simp_all
  qed
qed simp

lemma split_lines_parts: "l \<in> set (split_lines s) \<Longrightarrow> LF \<notin> set l \<and> set l \<subseteq> set s"
proof (induction s arbitrary: l)
  case (Cons c s)
  obtain k ks where ks: "split_lines s = k # ks" by (cases "split_lines s") auto
  have "k \<in> set (split_lines s)" by (simp add: ks)
  then have "LF \<notin> set k" "set k \<subseteq> set s" using Cons.IH by blast+
  moreover have "LF \<notin> set j \<and> set j \<subseteq> set s" if "j \<in> set ks" for j
    using Cons.IH [of j] that ks by simp
  ultimately show ?case using Cons.prems ks by (auto split: if_splits)
qed simp

lemma split_lines_utf8: "utf8_text s \<Longrightarrow> l \<in> set (split_lines s) \<Longrightarrow> utf8_text l"
proof (induction s arbitrary: l rule: length_induct)
  case (1 s)
  show ?case
  proof (cases "LF \<in> set s")
    case True
    then obtain a b where s: "s = a @ LF # b" and a: "LF \<notin> set a" by (auto dest: split_list_first)
    then have "utf8_text a" "utf8_text b" using 1(2) by (simp_all add: LF_def utf8_break)
    moreover have "split_lines s = a # split_lines b"
      unfolding s using a by (induction a) auto
    moreover have "length b < length s" by (simp add: s)
    ultimately show ?thesis using 1 s by (metis set_ConsD)
  next
    case False
    then have "split_lines s = [s]" by (induction s) auto
    then show ?thesis using 1 by simp
  qed
qed

lemma sse_push_plain:
  "no_break l \<Longrightarrow> sse_push l d = (Inr [], d\<lparr>sd_line := sd_line d @ l, sd_skip_lf := sd_skip_lf d \<and> l = []\<rparr>)"
proof (induction l arbitrary: d)
  case (Cons c l)
  then have "c \<noteq> LF" "c \<noteq> CR" by (auto simp: no_break_def)
  then show ?case using Cons by (simp add: sse_push.simps(2) no_break_def sse_byte_def Let_def)
qed simp

text \<open>Between lines a decoder is waiting for a line feed only after a carriage return.\<close>

definition sse_between :: "line_end \<Rightarrow> sse_decoder \<Rightarrow> bool" where
  "sse_between style d = (sd_line d = [] \<and> (style \<noteq> EndCR \<longrightarrow> \<not> sd_skip_lf d))"

lemma breaks_differ [simp]: "LF \<noteq> CR" "CR \<noteq> LF"
  by (simp_all add: LF_def CR_def)

lemma sse_push_line:
  assumes "no_break l" and "sse_between style d"
    and "sse_line (d\<lparr>sd_line := l, sd_skip_lf := (style = EndCR)\<rparr>) = (Inr events, d')"
  shows "sse_push ((l @ line_end_bytes style) @ rest) d =
    (case sse_push rest d' of (r, d'') \<Rightarrow> (r_bind r (\<lambda>more. Inr (events @ more)), d''))"
proof -
  have skip: "sse_line (e\<lparr>sd_skip_lf := b\<rparr>) = (fst (sse_line e), (snd (sse_line e))\<lparr>sd_skip_lf := b\<rparr>)" for e b
    by (auto simp: sse_line_def sse_blank_def sse_take_def Let_def split: option.splits prod.splits)
  have line: "d\<lparr>sd_line := l, sd_skip_lf := sd_skip_lf d \<and> l = [], sd_skip_lf := b\<rparr> = d\<lparr>sd_line := l, sd_skip_lf := b\<rparr>" for b
    by simp
  have cr: "sse_line (d\<lparr>sd_line := l, sd_skip_lf := True\<rparr>) = (Inr events, d'\<lparr>sd_skip_lf := True\<rparr>)"
    and lf: "sse_line (d\<lparr>sd_line := l, sd_skip_lf := False\<rparr>) = (Inr events, d'\<lparr>sd_skip_lf := False\<rparr>)"
    using assms(3) skip [of _ "d\<lparr>sd_line := l, sd_skip_lf := (style = EndCR)\<rparr>"] by simp_all
  have same: "sd_skip_lf d' = (style = EndCR)"
    using assms(3) skip [of "style = EndCR" "d\<lparr>sd_line := l\<rparr>"] by auto
  have "sse_push (l @ line_end_bytes style) d = (Inr events, d')"
    using assms(1,2) cr lf same
    by (cases style) (simp_all add: sse_push_append sse_push.simps(2) sse_push_plain sse_byte_def sse_between_def Let_def)
  then show ?thesis by (subst sse_push_append) simp
qed

lemma sse_field_line:
  assumes "CHR '':'' \<notin> set name"
  shows "sse_field (name @ '': '' @ v) = (name, v)"
  using split_colon_append [OF assms, of "CHR '' '' # v"] by (simp add: sse_field_def)

lemma sse_push_field:
  assumes "list_all ascii name" "no_break name" "CHR '':'' \<notin> set name" "utf8_text v" "no_break v" "sse_between style d"
  shows "sse_push (((name @ '': '' @ v) @ line_end_bytes style) @ rest) d =
    sse_push rest (sse_take name v (d\<lparr>sd_skip_lf := (style = EndCR)\<rparr>))"
proof -
  have "list_all ascii (name @ '': '')" using assms(1) by (simp add: ascii_def)
  then have "utf8_text (name @ '': '' @ v)" using utf8_ascii_append [of "name @ '': ''" v] assms(4) by simp
  then have "sse_line (d\<lparr>sd_line := name @ '': '' @ v, sd_skip_lf := (style = EndCR)\<rparr>) =
      (Inr [], sse_take name v (d\<lparr>sd_line := [], sd_skip_lf := (style = EndCR)\<rparr>))"
    using sse_field_line [OF assms(3), of v] by (cases d) (simp add: sse_line_def utf8_text_def Let_def)
  moreover have "no_break (name @ '': '' @ v)" using assms(2,5) by (simp add: no_break_def LF_def CR_def)
  moreover have "d\<lparr>sd_line := []\<rparr> = d" using assms(6) by (simp add: sse_between_def)
  ultimately show ?thesis
    using sse_push_line [OF _ assms(6), of "name @ '': '' @ v"] by (simp add: r_bind_return split: prod.splits)
qed

lemma sse_push_data:
  assumes "\<forall>l \<in> set ls. utf8_text l \<and> no_break l" and "sse_between style d"
  shows "sse_push (concat (map (\<lambda>l. (''data: '' @ l) @ line_end_bytes style) ls) @ rest) d =
    sse_push rest (d\<lparr>sd_skip_lf := (if ls = [] then sd_skip_lf d else style = EndCR), sd_data := sd_data d @ ls\<rparr>)"
  using assms
proof (induction ls arbitrary: d)
  case (Cons l ls)
  let ?d = "d\<lparr>sd_skip_lf := (style = EndCR), sd_data := sd_data d @ [l]\<rparr>"
  have name: "list_all ascii ''data''" "no_break ''data''" "CHR '':'' \<notin> set ''data''"
    by (simp_all add: ascii_def no_break_def LF_def CR_def)
  have "sse_push ((''data: '' @ l) @ line_end_bytes style @ rest') d = sse_push rest' ?d" for rest'
    using sse_push_field [OF name _ _ Cons.prems(2), of l rest'] Cons.prems(1) by (simp add: sse_take_def)
  moreover have "sse_between style ?d" using Cons.prems(2) by (simp add: sse_between_def)
  ultimately show ?case using Cons.IH [of ?d] Cons.prems(1) by simp
qed simp

text \<open>The fields of a frame before its data.\<close>

definition sse_head :: "sse_event \<Rightarrow> sse_event" where
  "sse_head e = e\<lparr>se_data := []\<rparr>"

lemma sse_push_optional:
  assumes "list_all ascii name" "no_break name" "CHR '':'' \<notin> set name" "sse_between style d"
    and "case value of None \<Rightarrow> True | Some v \<Rightarrow> utf8_text v \<and> no_break v"
  shows "sse_push (concat (map (\<lambda>l. l @ line_end_bytes style) (case value of None \<Rightarrow> [] | Some v \<Rightarrow> [name @ '': '' @ v])) @ rest) d =
    sse_push rest (case value of None \<Rightarrow> d | Some v \<Rightarrow> sse_take name v (d\<lparr>sd_skip_lf := (style = EndCR)\<rparr>))"
proof (cases "value")
  case (Some v)
  then show ?thesis using sse_push_field [OF assms(1,2,3) _ _ assms(4), of v rest] assms(5) by simp
qed simp

lemma sse_take_between: "sse_between style d \<Longrightarrow> sse_between style (sse_take name v (d\<lparr>sd_skip_lf := (style = EndCR)\<rparr>))"
  by (simp add: sse_between_def sse_take_def)

lemma sse_push_write:
  assumes "sse_clean e" and "sse_between style d" and "sd_data d = []" and "sd_frame d = sse_event_default"
  shows "sse_push (sse_write style e @ rest) d =
    (case sse_push rest (d\<lparr>sd_skip_lf := (style = EndCR)\<rparr>) of (r, d') \<Rightarrow> (r_bind r (\<lambda>more. Inr (e # more)), d'))"
proof -
  let ?opt = "\<lambda>name value d. case value of None \<Rightarrow> d | Some v \<Rightarrow> sse_take name v (d\<lparr>sd_skip_lf := (style = EndCR)\<rparr>)"
  define d1 where "d1 = ?opt ''event'' (se_event e) d"
  define d2 where "d2 = ?opt ''id'' (se_id e) d1"
  define d3 where "d3 = ?opt ''retry'' (map_option (\<lambda>n. dec (unat n)) (se_retry e)) d2"
  let ?ls = "split_lines (se_data e)"
  have opt: "sse_between style (?opt name value c)" if "sse_between style c" for name "value" c
    using that sse_take_between by (cases "value") simp_all
  have b1: "sse_between style d1" unfolding d1_def by (rule opt [OF assms(2)])
  have b2: "sse_between style d2" unfolding d2_def by (rule opt [OF b1])
  have b3: "sse_between style d3" unfolding d3_def by (rule opt [OF b2])
  have lines: "\<forall>l \<in> set ?ls. utf8_text l \<and> no_break l"
    using assms(1) split_lines_utf8 split_lines_parts by (fastforce simp: sse_clean_def no_break_def)
  have retry: "list_all ascii (dec n) \<and> utf8_text (dec n) \<and> no_break (dec n)" for n
    using dec_ascii_text [of n] utf8_ascii [OF dec_ascii_text [of n]] dec_digit
    by (fastforce simp: no_break_def LF_def CR_def)
  let ?sent = "\<lambda>name value. concat (map (\<lambda>l. l @ line_end_bytes style) (case value of None \<Rightarrow> [] | Some v \<Rightarrow> [name @ '': '' @ v]))"
  let ?data = "concat (map (\<lambda>l. (''data: '' @ l) @ line_end_bytes style) ?ls) @ line_end_bytes style @ rest"
  have names: "list_all ascii ''event''" "no_break ''event''" "CHR '':'' \<notin> set ''event''"
    "list_all ascii ''id''" "no_break ''id''" "CHR '':'' \<notin> set ''id''"
    "list_all ascii ''retry''" "no_break ''retry''" "CHR '':'' \<notin> set ''retry''"
    by (simp_all add: ascii_def no_break_def LF_def CR_def)
  have vals: "case se_event e of None \<Rightarrow> True | Some v \<Rightarrow> utf8_text v \<and> no_break v"
    "case se_id e of None \<Rightarrow> True | Some v \<Rightarrow> utf8_text v \<and> no_break v"
    "case map_option (\<lambda>n. dec (unat n)) (se_retry e) of None \<Rightarrow> True | Some v \<Rightarrow> utf8_text v \<and> no_break v"
    using assms(1) retry by (auto simp: sse_clean_def split: option.splits)
  have bytes: "sse_write style e @ rest = ?sent ''event'' (se_event e) @ ?sent ''id'' (se_id e)
      @ ?sent ''retry'' (map_option (\<lambda>n. dec (unat n)) (se_retry e)) @ ?data"
    by (simp add: sse_write_def sse_fields_def comp_def split: option.splits)
  have "sse_push (sse_write style e @ rest) d = sse_push ?data d3"
    unfolding bytes d3_def d2_def [symmetric]
    by (simp only: sse_push_optional [OF names(1-3) assms(2) vals(1), folded d1_def] sse_push_optional [OF names(4-6) b1 vals(2), folded d2_def]
        sse_push_optional [OF names(7-9) b2 vals(3)])
  also have "\<dots> = sse_push (line_end_bytes style @ rest) (d3\<lparr>sd_skip_lf := (style = EndCR), sd_data := sd_data d3 @ ?ls\<rparr>)"
    using sse_push_data [OF lines b3, of "line_end_bytes style @ rest"] by simp
  also have "\<dots> = (case sse_push rest (d\<lparr>sd_skip_lf := (style = EndCR)\<rparr>) of (r, d') \<Rightarrow> (r_bind r (\<lambda>more. Inr (e # more)), d'))"
  proof -
    have digits: "list_all ascii_digit (dec n)" for n by (rule dec_ascii)
    have nul: "NUL \<notin> set v" if "se_id e = Some v" for v using assms(1) that by (simp add: sse_clean_def)
    have frame: "(sd_frame d3)\<lparr>se_data := join_lines ?ls\<rparr> = e"
      using assms(4) nul digits
      by (cases e) (auto simp: d3_def d2_def d1_def sse_take_def sse_event_default_def join_split_lines parse_u64_dec split: option.splits)
    have data: "sd_data d3 = []" and line: "sd_line d3 = []"
      using assms(2,3) by (simp_all add: d3_def d2_def d1_def sse_take_def sse_between_def split: option.splits)
    have rest: "d3\<lparr>sd_skip_lf := b, sd_line := [], sd_frame := sse_event_default, sd_data := []\<rparr> = d\<lparr>sd_skip_lf := b\<rparr>" for b
      using assms(2-4) by (cases d) (auto simp: d3_def d2_def d1_def sse_take_def sse_between_def split: option.splits)
    let ?d4 = "d3\<lparr>sd_skip_lf := (style = EndCR), sd_data := sd_data d3 @ ?ls\<rparr>"
    have "sse_line (?d4\<lparr>sd_line := [], sd_skip_lf := (style = EndCR)\<rparr>) = (Inr [e], d\<lparr>sd_skip_lf := (style = EndCR)\<rparr>)"
      using frame data rest [of "style = EndCR"] by (simp add: sse_line_def sse_blank_def Let_def)
    moreover have "no_break []" by (simp add: no_break_def)
    moreover have "sse_between style ?d4" using b3 by (simp add: sse_between_def)
    ultimately show ?thesis using sse_push_line [of "[]" style ?d4] by simp
  qed
  finally show ?thesis .
qed

lemma sse_push_stream:
  assumes "list_all sse_clean es"
  shows "sse_push (concat (map (sse_write style) es)) sse_default =
    (Inr es, sse_default\<lparr>sd_skip_lf := es \<noteq> [] \<and> style = EndCR\<rparr>)"
proof -
  have "sse_push (concat (map (sse_write style) es)) d = (Inr es, d\<lparr>sd_skip_lf := (if es = [] then sd_skip_lf d else style = EndCR)\<rparr>)"
    if "sse_between style d" "sd_data d = []" "sd_frame d = sse_event_default" for d
    using assms that
  proof (induction es arbitrary: d)
    case (Cons e es)
    have "sse_between style (d\<lparr>sd_skip_lf := (style = EndCR)\<rparr>)" using Cons.prems by (simp add: sse_between_def)
    then show ?case using Cons sse_push_write [of e style d "concat (map (sse_write style) es)"] by simp
  qed simp
  then show ?thesis by (auto simp: sse_default_def sse_between_def)
qed

end
