(* ===== verification/Streaming.thy ===== *)
theory Streaming
  imports Json_Access Sse
begin

text \<open>
  The accumulators of streamed responses, \<open>zhir-models/src/streaming\<close>, and the token counts of
  \<open>codec/adapter.rs\<close>. Each frame of a stream is a JSON value; an accumulator turns it into increments for
  the observers and builds the complete response. The lemmas relate the two: what was streamed is what
  the complete response holds.
\<close>

section \<open>Token counts\<close>

datatype protocol = ProtocolChat | ProtocolResponses | ProtocolMessages

record usage_fields =
  uf_input :: string
  uf_output :: string
  uf_reasoning :: string
  uf_cached :: string
  uf_input_excludes_cache :: bool

definition usage_read :: "usage_fields \<Rightarrow> json \<Rightarrow> usage" where
  "usage_read f v = (let
       or0 = (\<lambda>k. case json_u64 k v of None \<Rightarrow> 0 | Some n \<Rightarrow> n);
       input = map_option (\<lambda>n. if uf_input_excludes_cache f
         then u64_saturating_add (u64_saturating_add n (or0 ''cache_read_input_tokens'')) (or0 ''cache_creation_input_tokens'')
         else n) (json_u64 (uf_input f) v);
       output = json_u64 (uf_output f) v in
     \<lparr>us_input_tokens = input, us_output_tokens = output,
      us_total_tokens = (case json_u64 ''total_tokens'' v of Some n \<Rightarrow> Some n
        | None \<Rightarrow> (case (input, output) of (Some a, Some b) \<Rightarrow> Some (u64_saturating_add a b) | _ \<Rightarrow> None)),
      us_reasoning_tokens = Option.bind (json_pointer (uf_reasoning f) v) json_as_u64,
      us_cache_read_tokens = (case json_u64 ''cache_read_input_tokens'' v of Some n \<Rightarrow> Some n
        | None \<Rightarrow> Option.bind (json_pointer (uf_cached f) v) json_as_u64),
      us_cache_write_tokens = json_u64 ''cache_creation_input_tokens'' v\<rparr>)"

fun usage_names :: "protocol \<Rightarrow> usage_fields" where
  "usage_names ProtocolChat = \<lparr>uf_input = ''prompt_tokens'', uf_output = ''completion_tokens'',
     uf_reasoning = ''/completion_tokens_details/reasoning_tokens'',
     uf_cached = ''/prompt_tokens_details/cached_tokens'', uf_input_excludes_cache = False\<rparr>"
| "usage_names ProtocolResponses = \<lparr>uf_input = ''input_tokens'', uf_output = ''output_tokens'',
     uf_reasoning = ''/output_tokens_details/reasoning_tokens'',
     uf_cached = ''/input_tokens_details/cached_tokens'', uf_input_excludes_cache = False\<rparr>"
| "usage_names ProtocolMessages = \<lparr>uf_input = ''input_tokens'', uf_output = ''output_tokens'',
     uf_reasoning = ''/output_tokens_details/reasoning_tokens'',
     uf_cached = ''/input_tokens_details/cached_tokens'', uf_input_excludes_cache = True\<rparr>"

definition codec_usage :: "protocol \<Rightarrow> json \<Rightarrow> usage" where
  "codec_usage p = usage_read (usage_names p)"

section \<open>Assembly\<close>

definition stream_incomplete :: error where
  "stream_incomplete = Protocol ''model stream ended before complete response''"

definition json_append :: "string \<Rightarrow> string \<Rightarrow> json \<Rightarrow> json option" where
  "json_append k t = json_upd k (\<lambda>slot. Some (String ((case slot of String s \<Rightarrow> s | _ \<Rightarrow> []) @ t)))"

fun json_copy :: "string list \<Rightarrow> (string \<times> json) list \<Rightarrow> json \<Rightarrow> json option" where
  "json_copy exclude [] target = Some target"
| "json_copy exclude ((k, v) # kvs) target =
     (if k \<notin> set exclude \<and> \<not> json_is_null v
      then Option.bind (json_put k v target) (json_copy exclude kvs)
      else json_copy exclude kvs target)"

definition copy_fields :: "string list \<Rightarrow> json \<Rightarrow> json \<Rightarrow> json option" where
  "copy_fields exclude source target =
     (case json_as_object source of None \<Rightarrow> Some target | Some kvs \<Rightarrow> json_copy exclude kvs target)"

fun logprobs_copy :: "(string \<times> json) list \<Rightarrow> json \<Rightarrow> json option" where
  "logprobs_copy [] target = Some target"
| "logprobs_copy ((k, v) # kvs) target = Option.bind
     (case v of
        Array tokens \<Rightarrow> json_upd k (\<lambda>slot. Some (Array ((case slot of Array ts \<Rightarrow> ts | _ \<Rightarrow> []) @ tokens))) target
      | Null \<Rightarrow> Some target
      | _ \<Rightarrow> json_put k v target) (logprobs_copy kvs)"

definition merge_logprobs :: "json \<Rightarrow> json \<Rightarrow> json option" where
  "merge_logprobs source target =
     (case json_as_object source of None \<Rightarrow> Some target | Some kvs \<Rightarrow> logprobs_copy kvs target)"

section \<open>Chat completions\<close>

record chat_stream =
  chs_value :: json
  chs_calls :: "(nat, json) omap"
  chs_done :: bool

definition chat_new :: chat_stream where
  "chat_new = \<lparr>chs_value = Object [(''choices'', Array [Object [(''finish_reason'', Null),
     (''message'', Object [(''content'', String ''''), (''role'', String ''assistant'')])]])],
     chs_calls = [], chs_done = False\<rparr>"

definition chat_choice :: "(json \<Rightarrow> json option) \<Rightarrow> json \<Rightarrow> json option" where
  "chat_choice f = json_upd ''choices'' (json_upd_at 0 f)"

fun chat_text :: "(string \<times> (string \<Rightarrow> model_delta)) list \<Rightarrow> json \<Rightarrow> json \<Rightarrow> (model_delta list \<times> json) attempt" where
  "chat_text [] delta v = Gives ([], v)"
| "chat_text ((key, increment) # keys) delta v = (case json_str key delta of
       None \<Rightarrow> chat_text keys delta v
     | Some text \<Rightarrow> a_bind (a_written (chat_choice (json_upd ''message'' (json_append key text)) v)) (\<lambda>v'.
         a_bind (chat_text keys delta v') (\<lambda>(ds, v''). Gives (increment text # ds, v''))))"

definition chat_texts :: "(string \<times> (string \<Rightarrow> model_delta)) list" where
  "chat_texts = [(''content'', DeltaText 0), (''reasoning_content'', DeltaReasoning 0)]"

definition chat_call_new :: json where
  "chat_call_new = Object [(''function'', Object [(''arguments'', String ''''), (''name'', String '''')]),
     (''type'', String ''function'')]"

text \<open>
  The index of a call is a \<open>usize\<close>, 64 bits wide; \<open>index + 1\<close> overflows at the largest one, a panic under the
  overflow checks of a development build. (Without these checks the sum wraps to zero, the position of
  the text.)
\<close>

definition chat_call :: "json \<Rightarrow> (nat, json) omap \<Rightarrow> (model_delta \<times> (nat, json) omap) attempt" where
  "chat_call v calls =
     a_bind (a_result (ok_or (Protocol ''stream tool call missing index'') (json_u64 ''index'' v))) (\<lambda>index.
       let i = unat index;
           call = (case om_get calls i of None \<Rightarrow> chat_call_new | Some c \<Rightarrow> c);
           name = Option.bind (json_pointer ''/function/name'' v) json_as_str;
           input = (case Option.bind (json_pointer ''/function/arguments'' v) json_as_str of None \<Rightarrow> [] | Some s \<Rightarrow> s) in
       a_bind (a_written (case json_get ''id'' v of None \<Rightarrow> Some call | Some new \<Rightarrow> json_put ''id'' new call)) (\<lambda>call.
       a_bind (a_written (case name of None \<Rightarrow> Some call
                          | Some n \<Rightarrow> json_upd ''function'' (json_append ''name'' n) call)) (\<lambda>call.
       a_bind (a_written (json_upd ''function'' (json_append ''arguments'' input) call)) (\<lambda>call.
         if index = - 1 then Panics
         else Gives (DeltaRuntimeTool (unat (index + 1)) (Option.bind (json_get ''id'' v) json_as_str) name input,
           om_insert i call calls)))))"

fun chat_calls :: "json list \<Rightarrow> (nat, json) omap \<Rightarrow> (model_delta list \<times> (nat, json) omap) attempt" where
  "chat_calls [] calls = Gives ([], calls)"
| "chat_calls (v # vs) calls = a_bind (chat_call v calls) (\<lambda>(d, calls').
     a_bind (chat_calls vs calls') (\<lambda>(ds, calls''). Gives (d # ds, calls'')))"

definition chat_push :: "json \<Rightarrow> chat_stream \<Rightarrow> (model_delta list \<times> chat_stream) attempt" where
  "chat_push v s = a_bind (a_written (copy_fields [''choices''] v (chs_value s))) (\<lambda>value.
     let usage = (case json_get ''usage'' v of None \<Rightarrow> []
         | Some u \<Rightarrow> (if json_is_null u then [] else [DeltaUsage (codec_usage ProtocolChat u)])) in
     case json_pointer ''/choices/0'' v of
       None \<Rightarrow> Gives (usage, s\<lparr>chs_value := value\<rparr>)
     | Some choice \<Rightarrow>
         a_bind (a_written (chat_choice (copy_fields [''delta'', ''logprobs''] choice) value)) (\<lambda>value.
         a_bind (a_written (case json_get ''logprobs'' choice of
             Some l \<Rightarrow> (if json_is_object l then chat_choice (json_upd ''logprobs'' (merge_logprobs l)) value else Some value)
           | None \<Rightarrow> Some value)) (\<lambda>value.
         case json_get ''delta'' choice of
           None \<Rightarrow> Gives (usage, s\<lparr>chs_value := value\<rparr>)
         | Some delta \<Rightarrow> a_bind (chat_text chat_texts delta value) (\<lambda>(texts, value).
             a_bind (chat_calls (case Option.bind (json_get ''tool_calls'' delta) json_as_array of None \<Rightarrow> [] | Some cs \<Rightarrow> cs)
                 (chs_calls s)) (\<lambda>(calls, cs).
               Gives (usage @ texts @ calls, s\<lparr>chs_value := value, chs_calls := cs\<rparr>))))))"

definition chat_finish :: "chat_stream \<Rightarrow> json attempt" where
  "chat_finish s = (if \<not> chs_done s then Fails stream_incomplete
     else if chs_calls s = [] then Gives (chs_value s)
     else a_written (chat_choice (json_upd ''message'' (json_put ''tool_calls'' (Array (om_values (chs_calls s))))) (chs_value s)))"

section \<open>Messages\<close>

record messages_stream =
  mss_value :: json
  mss_blocks :: "(nat, json) omap"
  mss_partial :: "(nat, string) omap"
  mss_done :: bool

definition messages_new :: messages_stream where
  "messages_new = \<lparr>mss_value = Object [(''content'', Array []), (''usage'', Object [])],
     mss_blocks = [], mss_partial = [], mss_done = False\<rparr>"

definition frame_index :: "string \<Rightarrow> json \<Rightarrow> nat" where
  "frame_index k v = (case json_u64 k v of None \<Rightarrow> 0 | Some n \<Rightarrow> unat n)"

definition str_or_empty :: "string \<Rightarrow> json \<Rightarrow> string" where
  "str_or_empty k v = (case json_str k v of None \<Rightarrow> [] | Some s \<Rightarrow> s)"

definition block_append :: "nat \<Rightarrow> json \<Rightarrow> string \<Rightarrow> string \<Rightarrow> messages_stream \<Rightarrow> messages_stream attempt" where
  "block_append i block k t s =
     a_bind (a_written (json_append k t block)) (\<lambda>b. Gives (s\<lparr>mss_blocks := om_insert i b (mss_blocks s)\<rparr>))"

definition block_delta :: "nat \<Rightarrow> json \<Rightarrow> messages_stream \<Rightarrow> (model_delta list \<times> messages_stream) attempt" where
  "block_delta i delta s =
     a_bind (a_result (ok_or (Protocol ''delta before block start'') (om_get (mss_blocks s) i))) (\<lambda>block.
       let kind = str_or_empty ''type'' delta in
       if kind = ''text_delta'' then a_bind (block_append i block ''text'' (str_or_empty ''text'' delta) s) (\<lambda>s'.
         Gives ([DeltaText i (str_or_empty ''text'' delta)], s'))
       else if kind = ''thinking_delta'' then a_bind (block_append i block ''thinking'' (str_or_empty ''thinking'' delta) s) (\<lambda>s'.
         Gives ([DeltaReasoning i (str_or_empty ''thinking'' delta)], s'))
       else if kind = ''signature_delta'' then a_bind (block_append i block ''signature'' (str_or_empty ''signature'' delta) s) (\<lambda>s'.
         Gives ([], s'))
       else if kind = ''input_json_delta'' then (let input = str_or_empty ''partial_json'' delta in
         Gives ([DeltaRuntimeTool i (json_str ''id'' block) (json_str ''name'' block) input],
           s\<lparr>mss_partial := om_insert i ((case om_get (mss_partial s) i of None \<Rightarrow> [] | Some p \<Rightarrow> p) @ input) (mss_partial s)\<rparr>))
       else Gives ([], s))"

text \<open>\<open>parse\<close> is \<open>serde_json::from_str\<close>, with the text of its error.\<close>

definition stop_block :: "(string \<Rightarrow> string + json) \<Rightarrow> nat \<Rightarrow> messages_stream \<Rightarrow> messages_stream attempt" where
  "stop_block parse i s = (case om_get (mss_partial s) i of
       None \<Rightarrow> Gives s
     | Some raw \<Rightarrow>
         a_bind (a_result (ok_or (Protocol ''unknown block stop'') (om_get (mss_blocks s) i))) (\<lambda>block.
         a_bind (a_result (case parse raw of Inl e \<Rightarrow> Inl (Protocol e) | Inr v \<Rightarrow> Inr v)) (\<lambda>v.
         a_bind (a_written (json_put ''input'' v block)) (\<lambda>b.
           Gives (s\<lparr>mss_partial := om_remove i (mss_partial s), mss_blocks := om_insert i b (mss_blocks s)\<rparr>)))))"

fun json_puts :: "(string \<times> json) list \<Rightarrow> json \<Rightarrow> json option" where
  "json_puts [] v = Some v"
| "json_puts ((k, x) # kvs) v = Option.bind (json_put k x v) (json_puts kvs)"

definition usage_puts :: "(string \<times> json) list \<Rightarrow> json \<Rightarrow> json option" where
  "usage_puts kvs v = (if kvs = [] then Some v else json_upd ''usage'' (json_puts kvs) v)"

definition message_delta :: "json \<Rightarrow> messages_stream \<Rightarrow> (model_delta list \<times> messages_stream) attempt" where
  "message_delta v s =
     a_bind (a_written (json_puts (case Option.bind (json_get ''delta'' v) json_as_object of None \<Rightarrow> [] | Some fs \<Rightarrow> fs)
         (mss_value s))) (\<lambda>value.
     case Option.bind (json_get ''usage'' v) json_as_object of
       None \<Rightarrow> Gives ([], s\<lparr>mss_value := value\<rparr>)
     | Some usage \<Rightarrow> a_bind (a_written (usage_puts usage value)) (\<lambda>value.
         Gives ([DeltaUsage (codec_usage ProtocolMessages (json_index ''usage'' value))], s\<lparr>mss_value := value\<rparr>)))"

definition messages_push ::
  "(string \<Rightarrow> string + json) \<Rightarrow> json \<Rightarrow> messages_stream \<Rightarrow> (model_delta list \<times> messages_stream) attempt" where
  "messages_push parse v s = (let i = frame_index ''index'' v; kind = str_or_empty ''type'' v in
     if kind = ''message_start'' then
       a_bind (a_result (ok_or (Protocol ''missing streamed message'') (json_get ''message'' v))) (\<lambda>m. Gives ([], s\<lparr>mss_value := m\<rparr>))
     else if kind = ''content_block_start'' then
       a_bind (a_result (ok_or (Protocol ''missing content block'') (json_get ''content_block'' v))) (\<lambda>block.
         if om_contains (mss_blocks s) i then Fails (Protocol ''duplicate content block'')
         else Gives ([], s\<lparr>mss_blocks := om_insert i block (mss_blocks s)\<rparr>))
     else if kind = ''content_block_delta'' then block_delta i (json_index ''delta'' v) s
     else if kind = ''content_block_stop'' then a_bind (stop_block parse i s) (\<lambda>s'. Gives ([], s'))
     else if kind = ''message_delta'' then message_delta v s
     else if kind = ''message_stop'' then Gives ([], s\<lparr>mss_done := True\<rparr>)
     else Gives ([], s))"

definition messages_finish :: "messages_stream \<Rightarrow> json attempt" where
  "messages_finish s = (if \<not> mss_done s \<or> mss_partial s \<noteq> [] then Fails stream_incomplete
     else a_written (json_put ''content'' (Array (om_values (mss_blocks s))) (mss_value s)))"

section \<open>Responses\<close>

definition responses_push ::
  "(json \<Rightarrow> string) \<Rightarrow> json \<Rightarrow> json option \<Rightarrow> (model_delta list \<times> json option) attempt" where
  "responses_push render v completed = (let i = frame_index ''output_index'' v;
       text = str_or_empty ''delta'' v; kind = str_or_empty ''type'' v in
     if kind = ''response.completed'' \<or> kind = ''response.incomplete'' then
       a_bind (a_result (ok_or (Protocol ''terminal response missing full value'') (json_get ''response'' v))) (\<lambda>response.
         Gives ([DeltaUsage (codec_usage ProtocolResponses (json_index ''usage'' response))], Some response))
     else if kind = ''response.failed'' then Fails (Protocol (render v))
     else if kind = ''response.output_text.delta'' then Gives ([DeltaText i text], completed)
     else if kind = ''response.reasoning_text.delta'' \<or> kind = ''response.reasoning_summary_text.delta'' then
       Gives ([DeltaReasoning i text], completed)
     else if kind = ''response.function_call_arguments.delta'' \<or> kind = ''response.custom_tool_call_input.delta'' then
       Gives ([DeltaRuntimeTool i (json_str ''item_id'' v) None text], completed)
     else Gives ([], completed))"

definition responses_finish :: "json option \<Rightarrow> json attempt" where
  "responses_finish completed = a_result (ok_or stream_incomplete completed)"

section \<open>Streams\<close>

text \<open>The accumulator of a protocol, the data of an event, and the frames of a whole stream.\<close>

datatype stream_state = ChatStream chat_stream | MessagesStream messages_stream | ResponsesStream "json option"

fun stream_new :: "protocol \<Rightarrow> stream_state" where
  "stream_new ProtocolChat = ChatStream chat_new"
| "stream_new ProtocolMessages = MessagesStream messages_new"
| "stream_new ProtocolResponses = ResponsesStream None"

definition a_map :: "('a \<Rightarrow> 'b) \<Rightarrow> ('d \<times> 'a) attempt \<Rightarrow> ('d \<times> 'b) attempt" where
  "a_map f m = a_bind m (\<lambda>(d, x). Gives (d, f x))"

fun stream_push ::
  "(string \<Rightarrow> string + json) \<Rightarrow> (json \<Rightarrow> string) \<Rightarrow> json \<Rightarrow> stream_state \<Rightarrow> (model_delta list \<times> stream_state) attempt" where
  "stream_push parse render v (ChatStream s) = a_map ChatStream (chat_push v s)"
| "stream_push parse render v (MessagesStream s) = a_map MessagesStream (messages_push parse v s)"
| "stream_push parse render v (ResponsesStream s) = a_map ResponsesStream (responses_push render v s)"

fun stream_done :: "stream_state \<Rightarrow> stream_state" where
  "stream_done (ChatStream s) = ChatStream (s\<lparr>chs_done := True\<rparr>)"
| "stream_done s = s"

fun stream_finish :: "stream_state \<Rightarrow> json attempt" where
  "stream_finish (ChatStream s) = chat_finish s"
| "stream_finish (MessagesStream s) = messages_finish s"
| "stream_finish (ResponsesStream s) = responses_finish s"

definition stream_data ::
  "(string \<Rightarrow> string + json) \<Rightarrow> (json \<Rightarrow> string) \<Rightarrow> string \<Rightarrow> stream_state \<Rightarrow> (model_delta list \<times> stream_state) attempt" where
  "stream_data parse render data s =
     (if data = ''[DONE]'' then Gives ([], stream_done s)
      else a_bind (a_result (case parse data of Inl e \<Rightarrow> Inl (Protocol (''invalid SSE JSON: '' @ e)) | Inr v \<Rightarrow> Inr v)) (\<lambda>v.
        if some_and (\<lambda>e. \<not> json_is_null e) (json_get ''error'' v) \<or> json_str ''type'' v = Some ''error''
        then Fails (Protocol (render v)) else stream_push parse render v s))"

fun frames_run ::
  "(string \<Rightarrow> string + json) \<Rightarrow> (json \<Rightarrow> string) \<Rightarrow> string list \<Rightarrow> stream_state \<Rightarrow> (model_delta list \<times> stream_state) attempt" where
  "frames_run parse render [] s = Gives ([], s)"
| "frames_run parse render (data # datas) s = a_bind (stream_data parse render data s) (\<lambda>(ds, s').
     a_bind (frames_run parse render datas s') (\<lambda>(ds', s''). Gives (ds @ ds', s'')))"

section \<open>What was streamed\<close>

fun text_at :: "nat \<Rightarrow> model_delta \<Rightarrow> string" where
  "text_at i (DeltaText j t) = (if j = i then t else [])"
| "text_at i _ = []"

fun reasoning_at :: "nat \<Rightarrow> model_delta \<Rightarrow> string" where
  "reasoning_at i (DeltaReasoning j t) = (if j = i then t else [])"
| "reasoning_at i _ = []"

fun input_at :: "nat \<Rightarrow> model_delta \<Rightarrow> string" where
  "input_at i (DeltaRuntimeTool j _ _ t) = (if j = i then t else [])"
| "input_at i _ = []"

fun name_at :: "nat \<Rightarrow> model_delta \<Rightarrow> string" where
  "name_at i (DeltaRuntimeTool j _ (Some n) _) = (if j = i then n else [])"
| "name_at i _ = []"

fun reasons :: "model_delta \<Rightarrow> bool" where
  "reasons (DeltaReasoning _ _) = True"
| "reasons _ = False"

fun calls_at :: "nat \<Rightarrow> model_delta \<Rightarrow> bool" where
  "calls_at i (DeltaRuntimeTool j _ _ _) = (j = i)"
| "calls_at i _ = False"

definition gathered :: "(model_delta \<Rightarrow> string) \<Rightarrow> model_delta list \<Rightarrow> string" where
  "gathered f ds = concat (map f ds)"

lemma gathered_simps [simp]:
  "gathered f [] = []" "gathered f (d # ds) = f d @ gathered f ds" "gathered f (ds @ ds') = gathered f ds @ gathered f ds'"
  by (simp_all add: gathered_def)

text \<open>The message and the calls that a chat stream has built.\<close>

definition chat_message_ok :: "model_delta list \<Rightarrow> (string \<times> json) list \<Rightarrow> bool" where
  "chat_message_ok ds g \<longleftrightarrow> om_get g ''content'' = Some (String (gathered (text_at 0) ds))
     \<and> om_get g ''reasoning_content'' =
         (if \<exists>d \<in> set ds. reasons d then Some (String (gathered (reasoning_at 0) ds)) else None)
     \<and> om_get g ''tool_calls'' = None"

definition chat_call_ok :: "model_delta list \<Rightarrow> nat \<Rightarrow> json \<Rightarrow> bool" where
  "chat_call_ok ds i c \<longleftrightarrow> (\<exists>m f. c = Object m \<and> om_get m ''function'' = Some (Object f)
     \<and> om_get f ''name'' = Some (String (gathered (name_at (Suc i)) ds))
     \<and> om_get f ''arguments'' = Some (String (gathered (input_at (Suc i)) ds)))"

definition chat_slot_ok :: "model_delta list \<Rightarrow> (nat, json) omap \<Rightarrow> nat \<Rightarrow> bool" where
  "chat_slot_ok ds cs i \<longleftrightarrow> (case om_get cs i of
       None \<Rightarrow> \<not> (\<exists>d \<in> set ds. calls_at (Suc i) d)
     | Some c \<Rightarrow> (\<exists>d \<in> set ds. calls_at (Suc i) d) \<and> chat_call_ok ds i c)"

definition chat_calls_ok :: "model_delta list \<Rightarrow> (nat, json) omap \<Rightarrow> bool" where
  "chat_calls_ok ds cs \<longleftrightarrow> om_ok cs \<and> (\<forall>i. chat_slot_ok ds cs i)"

definition logprobs_ok :: "(string \<times> json) list \<Rightarrow> bool" where
  "logprobs_ok c \<longleftrightarrow> (case om_get c ''logprobs'' of None \<Rightarrow> True | Some l \<Rightarrow> l = Null \<or> json_is_object l)"

definition chat_value_ok :: "model_delta list \<Rightarrow> json \<Rightarrow> bool" where
  "chat_value_ok ds v \<longleftrightarrow> (\<exists>m c g. v = Object m \<and> om_get m ''choices'' = Some (Array [Object c])
     \<and> om_get c ''message'' = Some (Object g) \<and> chat_message_ok ds g \<and> logprobs_ok c)"

definition chat_ok :: "model_delta list \<Rightarrow> chat_stream \<Rightarrow> bool" where
  "chat_ok ds s \<longleftrightarrow> chat_value_ok ds (chs_value s) \<and> chat_calls_ok ds (chs_calls s)"

text \<open>A frame whose choice does not replace the message under construction.\<close>

definition keeps_message :: "json \<Rightarrow> bool" where
  "keeps_message v \<longleftrightarrow> (case json_pointer ''/choices/0'' v of None \<Rightarrow> True | Some choice \<Rightarrow> json_get ''message'' choice = None)"

text \<open>A frame whose calls all have a successor to their index.\<close>

definition frame_calls :: "json \<Rightarrow> json list" where
  "frame_calls v = (case Option.bind (json_pointer ''/choices/0'' v) (json_get ''delta'') of None \<Rightarrow> []
     | Some delta \<Rightarrow> (case Option.bind (json_get ''tool_calls'' delta) json_as_array of None \<Rightarrow> [] | Some cs \<Rightarrow> cs))"

definition counts_calls :: "json \<Rightarrow> bool" where
  "counts_calls v \<longleftrightarrow> (\<forall>call \<in> set (frame_calls v). json_u64 ''index'' call \<noteq> Some (- 1))"

lemma json_put_Object: "json_put k x (Object m) = Some (Object (om_insert k x m))"
  by (simp add: json_put_def)

lemma json_copy_Object:
  "\<exists>m'. json_copy exclude kvs (Object m) = Some (Object m')
     \<and> (\<forall>k. k \<in> set exclude \<or> om_get kvs k = None \<longrightarrow> om_get m' k = om_get m k)"
proof (induction kvs arbitrary: m)
  case (Cons f kvs)
  obtain k v where f: "f = (k, v)" by (cases f)
  show ?case
  proof (cases "k \<notin> set exclude \<and> \<not> json_is_null v")
    case True
    then show ?thesis using Cons [of "om_insert k v m"] f
      by (auto simp: json_put_Object om_get_Cons split: if_splits)
  next
    case False
    then show ?thesis using Cons [of m] f by (auto simp: om_get_Cons split: if_splits)
  qed
qed simp

lemma copy_fields_Object:
  "\<exists>m'. copy_fields exclude v (Object m) = Some (Object m')
     \<and> (\<forall>k. k \<in> set exclude \<or> json_get k v = None \<longrightarrow> om_get m' k = om_get m k)"
  using json_copy_Object [of exclude _ m] by (cases v) (auto simp: copy_fields_def)

lemma chat_choice_Object:
  "om_get m ''choices'' = Some (Array [c]) \<Longrightarrow>
    chat_choice f (Object m) = map_option (\<lambda>c'. Object (om_insert ''choices'' (Array [c']) m)) (f c)"
  by (simp add: chat_choice_def option.map_comp comp_def)

lemma gathered_none: "\<forall>d \<in> set ds. f d = [] \<Longrightarrow> gathered f ds = []"
  by (induction ds) simp_all

lemma not_reasons: "\<not> reasons d \<Longrightarrow> reasoning_at i d = []"
  by (cases d) simp_all

lemma gathered_no_reasoning: "\<forall>d \<in> set ds. \<not> reasons d \<Longrightarrow> gathered (reasoning_at i) ds = []"
  using not_reasons by (blast intro: gathered_none)

lemma not_calls_at: "\<not> calls_at i d \<Longrightarrow> name_at i d = [] \<and> input_at i d = []"
  by (cases d) (simp, simp, rename_tac n x y z, case_tac y, simp_all)

lemma chat_texts_step:
  assumes "chat_value_ok ds v"
  shows "\<exists>ts v'. chat_text chat_texts delta v = Gives (ts, v') \<and> chat_value_ok (ds @ ts) v'
     \<and> (\<forall>d \<in> set ts. \<forall>i. \<not> calls_at i d)"
proof -
  obtain m c g where v: "v = Object m" "om_get m ''choices'' = Some (Array [Object c])"
      "om_get c ''message'' = Some (Object g)" "chat_message_ok ds g" "logprobs_ok c"
    using assms by (auto simp: chat_value_ok_def)
  show ?thesis
    by (cases "json_str ''content'' delta"; cases "json_str ''reasoning_content'' delta")
       (use v in \<open>simp_all add: chat_texts_def chat_choice_Object json_append_def chat_value_ok_def chat_message_ok_def gathered_no_reasoning logprobs_ok_def\<close>)
qed

lemma chat_calls_ok_other:
  assumes "chat_calls_ok ds cs" and "\<forall>d \<in> set ts. \<forall>i. \<not> calls_at i d"
  shows "chat_calls_ok (ds @ ts) cs"
proof -
  have "gathered (name_at i) ts = []" "gathered (input_at i) ts = []" for i
    using assms(2) not_calls_at by (blast intro: gathered_none)+
  then have "chat_slot_ok (ds @ ts) cs i" if "chat_slot_ok ds cs i" for i
    using that assms(2) by (cases "om_get cs i") (auto simp: chat_slot_ok_def chat_call_ok_def)
  then show ?thesis using assms(1) by (simp add: chat_calls_ok_def)
qed

lemma chat_call_parts:
  assumes "chat_call_ok ds i call"
  shows "\<exists>m f. call = Object m \<and> om_get m ''function'' = Some (Object f)
     \<and> om_get f ''name'' = Some (String (gathered (name_at (Suc i)) ds))
     \<and> om_get f ''arguments'' = Some (String (gathered (input_at (Suc i)) ds))"
  using assms by (auto simp: chat_call_ok_def)

text \<open>What one element of \<open>tool_calls\<close> does to its call.\<close>

definition call_update :: "json \<Rightarrow> json \<Rightarrow> json attempt" where
  "call_update v call = (let
       name = Option.bind (json_pointer ''/function/name'' v) json_as_str;
       input = (case Option.bind (json_pointer ''/function/arguments'' v) json_as_str of None \<Rightarrow> [] | Some s \<Rightarrow> s) in
     a_bind (a_written (case json_get ''id'' v of None \<Rightarrow> Some call | Some new \<Rightarrow> json_put ''id'' new call)) (\<lambda>call.
     a_bind (a_written (case name of None \<Rightarrow> Some call
                        | Some n \<Rightarrow> json_upd ''function'' (json_append ''name'' n) call)) (\<lambda>call.
     a_written (json_upd ''function'' (json_append ''arguments'' input) call))))"

lemma a_bind_return: "a_bind m (\<lambda>x. a_bind (f x) g) = a_bind (a_bind m f) g"
  by (cases m) simp_all

lemma call_update_ok:
  assumes "chat_call_ok ds i call"
    and "d = DeltaRuntimeTool (Suc i) x (Option.bind (json_pointer ''/function/name'' v) json_as_str)
        (case Option.bind (json_pointer ''/function/arguments'' v) json_as_str of None \<Rightarrow> [] | Some s \<Rightarrow> s)"
  shows "\<exists>call'. call_update v call = Gives call' \<and> chat_call_ok (ds @ [d]) i call'"
proof -
  obtain m f where c: "call = Object m" "om_get m ''function'' = Some (Object f)"
      "om_get f ''name'' = Some (String (gathered (name_at (Suc i)) ds))"
      "om_get f ''arguments'' = Some (String (gathered (input_at (Suc i)) ds))"
    using chat_call_parts [OF assms(1)] by blast
  show ?thesis
    by (cases "json_get ''id'' v"; cases "Option.bind (json_pointer ''/function/name'' v) json_as_str")
       (use c in \<open>simp_all add: assms(2) call_update_def json_put_Object json_append_def chat_call_ok_def Let_def\<close>)
qed

lemma chat_call_step:
  assumes "chat_calls_ok ds cs" and "json_u64 ''index'' v \<noteq> Some (- 1)"
  shows "chat_call v cs \<noteq> Panics
    \<and> (chat_call v cs = Gives (d, cs') \<longrightarrow> chat_calls_ok (ds @ [d]) cs' \<and> text_at 0 d = [] \<and> \<not> reasons d)"
proof (cases "json_u64 ''index'' v")
  case None
  then show ?thesis by (simp add: chat_call_def)
next
  case (Some index)
  let ?i = "unat index"
  let ?call = "case om_get cs ?i of None \<Rightarrow> chat_call_new | Some c \<Rightarrow> c"
  let ?d = "DeltaRuntimeTool (Suc ?i) (Option.bind (json_get ''id'' v) json_as_str)
    (Option.bind (json_pointer ''/function/name'' v) json_as_str)
    (case Option.bind (json_pointer ''/function/arguments'' v) json_as_str of None \<Rightarrow> [] | Some s \<Rightarrow> s)"
  have slot: "chat_slot_ok ds cs j" for j using assms(1) by (simp add: chat_calls_ok_def)
  have index: "index \<noteq> - 1" using assms(2) Some by simp
  have Suc: "unat (index + 1) = Suc ?i"
    using index unatSuc [of index] by (metis add.commute eq_neg_iff_add_eq_0)
  have "chat_call_ok ds ?i ?call"
  proof (cases "om_get cs ?i")
    case None
    then have "\<forall>d \<in> set ds. \<not> calls_at (Suc ?i) d" using slot [of ?i] by (simp add: chat_slot_ok_def)
    then have "gathered (name_at (Suc ?i)) ds = []" "gathered (input_at (Suc ?i)) ds = []"
      using not_calls_at by (blast intro: gathered_none)+
    then show ?thesis using None by (simp add: chat_call_new_def chat_call_ok_def om_get_Cons)
  next
    case (Some c)
    then show ?thesis using slot [of ?i] by (simp add: chat_slot_ok_def)
  qed
  then obtain call' where call': "call_update v ?call = Gives call'" "chat_call_ok (ds @ [?d]) ?i call'"
    using call_update_ok [OF _ refl] by blast
  have run: "chat_call v cs = Gives (?d, om_insert ?i call' cs)"
  proof -
    have "chat_call v cs = a_bind (call_update v ?call) (\<lambda>c. Gives (?d, om_insert ?i c cs))"
      unfolding chat_call_def call_update_def Some Let_def
      by (simp only: ok_or_simps a_result.simps a_bind.simps a_bind_return index if_False Suc)
    then show ?thesis by (simp add: call')
  qed
  have "chat_calls_ok (ds @ [?d]) (om_insert ?i call' cs)"
    unfolding chat_calls_ok_def
  proof (intro conjI allI)
    show "om_ok (om_insert ?i call' cs)" using assms(1) by (simp add: chat_calls_ok_def om_ok_insert)
    fix j
    show "chat_slot_ok (ds @ [?d]) (om_insert ?i call' cs) j"
    proof (cases "j = ?i")
      case True
      then show ?thesis using call'(2) by (simp add: chat_slot_ok_def)
    next
      case False
      then have "name_at (Suc j) ?d = []" "input_at (Suc j) ?d = []" "\<not> calls_at (Suc j) ?d"
        using not_calls_at [of "Suc j" ?d] by simp_all
      then show ?thesis using False slot [of j] by (cases "om_get cs j") (auto simp: chat_slot_ok_def chat_call_ok_def)
    qed
  qed
  then show ?thesis by (auto simp: run)
qed

lemma chat_calls_step:
  "chat_calls_ok ds cs \<Longrightarrow> \<forall>v \<in> set vs. json_u64 ''index'' v \<noteq> Some (- 1) \<Longrightarrow> chat_calls vs cs \<noteq> Panics
    \<and> (chat_calls vs cs = Gives (ts, cs') \<longrightarrow> chat_calls_ok (ds @ ts) cs' \<and> gathered (text_at 0) ts = [] \<and> (\<forall>d \<in> set ts. \<not> reasons d))"
proof (induction vs arbitrary: ds cs ts)
  case (Cons v vs)
  have v: "json_u64 ''index'' v \<noteq> Some (- 1)" and vs: "\<forall>v \<in> set vs. json_u64 ''index'' v \<noteq> Some (- 1)"
    using Cons.prems(2) by simp_all
  show ?case
  proof (cases "chat_call v cs")
    case (Gives x)
    obtain d c where x: "x = (d, c)" by (cases x)
    with chat_call_step [OF Cons.prems(1) v, of d c] Gives have c: "chat_calls_ok (ds @ [d]) c" "text_at 0 d = []" "\<not> reasons d"
      by simp_all
    note rest = Cons.IH [OF c(1) vs]
    show ?thesis
    proof (cases "chat_calls vs c")
      case (Gives y)
      then show ?thesis using rest [of "fst y"] c \<open>chat_call v cs = Gives x\<close> x by (cases y) auto
    qed (use rest \<open>chat_call v cs = Gives x\<close> x in simp_all)
  qed (use chat_call_step [OF Cons.prems(1) v] in simp_all)
qed auto

lemma chat_value_ok_other:
  assumes "chat_value_ok ds v" and "gathered (text_at 0) ts = []" and "\<forall>d \<in> set ts. \<not> reasons d"
  shows "chat_value_ok (ds @ ts) v"
proof -
  have "chat_message_ok (ds @ ts) g" if "chat_message_ok ds g" for g
    using that assms(2) gathered_no_reasoning [OF assms(3)] assms(3) by (auto simp: chat_message_ok_def)
  then show ?thesis using assms(1) by (auto simp: chat_value_ok_def)
qed

lemma logprobs_copy_ok:
  "v = Null \<or> json_is_object v \<Longrightarrow> \<exists>w. logprobs_copy kvs v = Some w \<and> (w = Null \<or> json_is_object w)"
proof (induction kvs arbitrary: v)
  case (Cons kv kvs)
  obtain k x where kv: "kv = (k, x)" by (cases kv)
  let ?step = "case x of
      Array tokens \<Rightarrow> json_upd k (\<lambda>slot. Some (Array ((case slot of Array ts \<Rightarrow> ts | _ \<Rightarrow> []) @ tokens))) v
    | Null \<Rightarrow> Some v | _ \<Rightarrow> json_put k x v"
  have upd: "\<exists>w. json_upd k (\<lambda>slot. Some (f slot)) v = Some w \<and> (w = Null \<or> json_is_object w)" for f
    using Cons.prems by (cases v) (auto simp: json_is_object_def)
  have "\<exists>w. ?step = Some w \<and> (w = Null \<or> json_is_object w)"
  proof (cases x)
    case (Array ts)
    show ?thesis unfolding Array json.case by (rule upd)
  qed (use upd [of "\<lambda>_. x"] Cons.prems in \<open>simp_all add: json_put_def\<close>)
  then obtain w where "?step = Some w" "w = Null \<or> json_is_object w" by blast
  then show ?case using Cons.IH [of w] by (simp add: kv)
qed simp

lemma chat_logprobs_step:
  assumes "chat_value_ok ds v" and "json_is_object l"
  shows "\<exists>w. chat_choice (json_upd ''logprobs'' (merge_logprobs l)) v = Some w \<and> chat_value_ok ds w"
proof -
  obtain m c g where v: "v = Object m" "om_get m ''choices'' = Some (Array [Object c])"
      "om_get c ''message'' = Some (Object g)" "chat_message_ok ds g" "logprobs_ok c"
    using assms(1) by (auto simp: chat_value_ok_def)
  let ?slot = "case om_get c ''logprobs'' of None \<Rightarrow> Null | Some x \<Rightarrow> x"
  have "?slot = Null \<or> json_is_object ?slot" using v(5) by (auto simp: logprobs_ok_def split: option.splits)
  then obtain w where w: "merge_logprobs l ?slot = Some w" "w = Null \<or> json_is_object w"
    using logprobs_copy_ok assms(2) unfolding merge_logprobs_def
    by (cases l) (fastforce simp: json_is_object_def)+
  then show ?thesis using v by (auto simp: chat_choice_Object chat_value_ok_def logprobs_ok_def)
qed

lemma chat_logprobs_option:
  assumes "chat_value_ok ds v"
  shows "\<exists>w. (case x of Some l \<Rightarrow> (if json_is_object l then chat_choice (json_upd ''logprobs'' (merge_logprobs l)) v else Some v)
      | None \<Rightarrow> Some v) = Some w \<and> chat_value_ok ds w"
proof (cases x)
  case (Some l)
  then show ?thesis using assms chat_logprobs_step [OF assms, of l] by (cases "json_is_object l") simp_all
qed (simp add: assms)

lemma chat_push_step:
  assumes "chat_ok ds s" and "keeps_message v \<and> counts_calls v"
  shows "chat_push v s \<noteq> Panics \<and> (chat_push v s = Gives (ts, s') \<longrightarrow> chat_ok (ds @ ts) s' \<and> chs_done s' = chs_done s)"
proof -
  obtain m c g where m: "chs_value s = Object m" "om_get m ''choices'' = Some (Array [Object c])"
      "om_get c ''message'' = Some (Object g)" "chat_message_ok ds g" "logprobs_ok c"
    using assms(1) by (auto simp: chat_ok_def chat_value_ok_def)
  have calls: "chat_calls_ok ds (chs_calls s)" using assms(1) by (simp add: chat_ok_def)
  obtain m1 where m1: "copy_fields [''choices''] v (Object m) = Some (Object m1)" "om_get m1 ''choices'' = Some (Array [Object c])"
    using copy_fields_Object [of "[''choices'']" v m] m(2) by auto
  let ?usage = "case json_get ''usage'' v of None \<Rightarrow> []
    | Some u \<Rightarrow> (if json_is_null u then [] else [DeltaUsage (codec_usage ProtocolChat u)])"
  have usage: "\<forall>d \<in> set ?usage. (\<forall>i. \<not> calls_at i d) \<and> \<not> reasons d \<and> text_at 0 d = []"
    by (cases "json_get ''usage'' v") simp_all
  have message: "chat_message_ok (ds @ ?usage) g"
    using m(4) usage by (auto simp: chat_message_ok_def gathered_none gathered_no_reasoning split: option.splits)
  have calls1: "chat_calls_ok (ds @ ?usage) (chs_calls s)" using chat_calls_ok_other [OF calls] usage by blast
  have value1: "chat_value_ok (ds @ ?usage) (Object m1)" using m1(2) m(3,5) message by (auto simp: chat_value_ok_def)
  show ?thesis
  proof (cases "json_pointer ''/choices/0'' v")
    case None
    then show ?thesis using m(1) m1(1) value1 calls1 by (auto simp: chat_push_def chat_ok_def Let_def)
  next
    case (Some choice)
    have "json_get ''message'' choice = None" using assms(2) Some by (simp add: keeps_message_def)
    then obtain c1 where c1: "copy_fields [''delta'', ''logprobs''] choice (Object c) = Some (Object c1)"
        "om_get c1 ''message'' = Some (Object g)" "logprobs_ok c1"
      using copy_fields_Object [of "[''delta'', ''logprobs'']" choice c] m(3,5) by (auto simp: logprobs_ok_def)
    let ?m2 = "om_insert ''choices'' (Array [Object c1]) m1"
    have value2: "chat_value_ok (ds @ ?usage) (Object ?m2)" using c1(2,3) message by (auto simp: chat_value_ok_def)
    obtain v3 where v3: "(case json_get ''logprobs'' choice of
          Some l \<Rightarrow> (if json_is_object l then chat_choice (json_upd ''logprobs'' (merge_logprobs l)) (Object ?m2) else Some (Object ?m2))
        | None \<Rightarrow> Some (Object ?m2)) = Some v3" "chat_value_ok (ds @ ?usage) v3"
      using chat_logprobs_option [OF value2, of "json_get ''logprobs'' choice"] by blast
    have run: "chat_push v s = (case json_get ''delta'' choice of
           None \<Rightarrow> Gives (?usage, s\<lparr>chs_value := v3\<rparr>)
         | Some delta \<Rightarrow> a_bind (chat_text chat_texts delta v3) (\<lambda>(texts, value).
             a_bind (chat_calls (case Option.bind (json_get ''tool_calls'' delta) json_as_array of None \<Rightarrow> [] | Some cs \<Rightarrow> cs)
                 (chs_calls s)) (\<lambda>(calls, cs).
               Gives (?usage @ texts @ calls, s\<lparr>chs_value := value, chs_calls := cs\<rparr>))))"
      unfolding chat_push_def Let_def m(1) m1(1) a_written.simps a_bind.simps Some option.case
        chat_choice_Object [OF m1(2)] c1(1) option.map v3(1) by (rule refl)
    show ?thesis
    proof (cases "json_get ''delta'' choice")
      case None
      then show ?thesis using run v3(2) calls1 by (auto simp: chat_ok_def)
    next
      case delta: (Some delta)
      let ?vs = "case Option.bind (json_get ''tool_calls'' delta) json_as_array of None \<Rightarrow> [] | Some cs \<Rightarrow> cs"
      obtain texts v4 where v4: "chat_text chat_texts delta v3 = Gives (texts, v4)"
          "chat_value_ok ((ds @ ?usage) @ texts) v4" "\<forall>d \<in> set texts. \<forall>i. \<not> calls_at i d"
        using chat_texts_step [OF v3(2)] by blast
      have "\<forall>call \<in> set ?vs. json_u64 ''index'' call \<noteq> Some (- 1)"
        using assms(2) Some delta by (simp add: counts_calls_def frame_calls_def)
      note step = chat_calls_step [OF chat_calls_ok_other [OF calls1 v4(3)] this]
      show ?thesis
      proof (cases "chat_calls ?vs (chs_calls s)")
        case (Gives x)
        obtain new cs where x: "x = (new, cs)" by (cases x)
        then have new: "chat_calls_ok (((ds @ ?usage) @ texts) @ new) cs" "gathered (text_at 0) new = []" "\<forall>d \<in> set new. \<not> reasons d"
          using step [of new cs] Gives by simp_all
        have "chat_value_ok (((ds @ ?usage) @ texts) @ new) v4" by (rule chat_value_ok_other [OF v4(2) new(2,3)])
        then show ?thesis using run delta v4(1) Gives x new(1) by (auto simp: chat_ok_def)
      qed (use run delta v4(1) step in simp_all)
    qed
  qed
qed

end
