(* ===== verification/Stream_Blocks.thy ===== *)
theory Stream_Blocks
  imports Streaming
begin

text \<open>
  The blocks of a streamed message: what was streamed for a block is what the complete message holds, and
  the runs of whole streams. A block that is no object, or a message that is none, makes the accumulator
  panic; the last section shows it on frames a service may send.
\<close>

section \<open>Blocks\<close>

definition starts_block :: "nat \<Rightarrow> json \<Rightarrow> json \<Rightarrow> bool" where
  "starts_block i v b \<longleftrightarrow> str_or_empty ''type'' v = ''content_block_start'' \<and> frame_index ''index'' v = i
     \<and> json_get ''content_block'' v = Some b"

definition stops_block :: "nat \<Rightarrow> json \<Rightarrow> bool" where
  "stops_block i v \<longleftrightarrow> str_or_empty ''type'' v = ''content_block_stop'' \<and> frame_index ''index'' v = i"

text \<open>
  The input of a block: not given by increments, parsed from the increments since the previous stop, or
  still being gathered. \<open>n\<close> is the number of stops so far.
\<close>

definition input_ok ::
  "(string \<Rightarrow> string + json) \<Rightarrow> nat \<Rightarrow> string \<Rightarrow> bool \<Rightarrow> json \<Rightarrow> json \<Rightarrow> string option \<Rightarrow> bool" where
  "input_ok parse n all streamed b0 b pending \<longleftrightarrow> (case pending of
       None \<Rightarrow> \<not> streamed \<and> json_get ''input'' b = json_get ''input'' b0
         \<or> (\<exists>pre l x. all = pre @ l \<and> parse l = Inr x \<and> json_get ''input'' b = Some x \<and> 1 \<le> n \<and> (pre = [] \<or> 2 \<le> n))
     | Some l \<Rightarrow> \<exists>pre. all = pre @ l \<and> (pre = [] \<or> 1 \<le> n))"

definition block_ok ::
  "(string \<Rightarrow> string + json) \<Rightarrow> json list \<Rightarrow> model_delta list \<Rightarrow> nat \<Rightarrow> json \<Rightarrow> string option \<Rightarrow> bool" where
  "block_ok parse vs ds i b pending \<longleftrightarrow> (\<exists>v \<in> set vs. \<exists>b0. starts_block i v b0
     \<and> str_or_empty ''text'' b = str_or_empty ''text'' b0 @ gathered (text_at i) ds
     \<and> str_or_empty ''thinking'' b = str_or_empty ''thinking'' b0 @ gathered (reasoning_at i) ds
     \<and> (\<forall>k. k \<notin> {''text'', ''thinking'', ''signature'', ''input''} \<longrightarrow> json_get k b = json_get k b0)
     \<and> input_ok parse (length (filter (stops_block i) vs)) (gathered (input_at i) ds)
         (\<exists>d \<in> set ds. calls_at i d) b0 b pending)"

definition slot_ok ::
  "(string \<Rightarrow> string + json) \<Rightarrow> json list \<Rightarrow> model_delta list \<Rightarrow> messages_stream \<Rightarrow> nat \<Rightarrow> bool" where
  "slot_ok parse vs ds s i \<longleftrightarrow> (case om_get (mss_blocks s) i of
       None \<Rightarrow> om_get (mss_partial s) i = None \<and> \<not> (\<exists>v \<in> set vs. \<exists>b0. starts_block i v b0)
         \<and> gathered (text_at i) ds = [] \<and> gathered (reasoning_at i) ds = [] \<and> \<not> (\<exists>d \<in> set ds. calls_at i d)
     | Some b \<Rightarrow> block_ok parse vs ds i b (om_get (mss_partial s) i))"

definition blocks_ok :: "(string \<Rightarrow> string + json) \<Rightarrow> json list \<Rightarrow> model_delta list \<Rightarrow> messages_stream \<Rightarrow> bool" where
  "blocks_ok parse vs ds s \<longleftrightarrow> om_ok (mss_blocks s) \<and> (\<forall>i. slot_ok parse vs ds s i)"

text \<open>A frame that is about another block, or about none, changes nothing here.\<close>

definition about_other :: "nat \<Rightarrow> json \<Rightarrow> model_delta list \<Rightarrow> bool" where
  "about_other i v ts \<longleftrightarrow> \<not> stops_block i v \<and> (\<forall>b0. \<not> starts_block i v b0)
     \<and> gathered (text_at i) ts = [] \<and> gathered (reasoning_at i) ts = [] \<and> \<not> (\<exists>d \<in> set ts. calls_at i d)"

lemma no_calls_no_input: "\<not> (\<exists>d \<in> set ds. calls_at i d) \<Longrightarrow> gathered (input_at i) ds = []"
  using not_calls_at by (blast intro: gathered_none)

lemma block_ok_other:
  assumes "block_ok parse vs ds i b pending" and "about_other i v ts"
  shows "block_ok parse (vs @ [v]) (ds @ ts) i b pending"
proof -
  have "gathered (input_at i) ts = []" using assms(2) no_calls_no_input by (simp add: about_other_def)
  then have "input_ok parse (length (filter (stops_block i) (vs @ [v]))) (gathered (input_at i) (ds @ ts))
        (\<exists>d \<in> set (ds @ ts). calls_at i d) b0 b pending =
      input_ok parse (length (filter (stops_block i) vs)) (gathered (input_at i) ds) (\<exists>d \<in> set ds. calls_at i d) b0 b pending" for b0
    using assms(2) by (simp add: about_other_def bex_Un)
  then show ?thesis using assms unfolding block_ok_def by (auto simp: about_other_def)
qed

lemma slot_ok_other:
  assumes "slot_ok parse vs ds s i" and "about_other i v ts"
    and "om_get (mss_blocks s') i = om_get (mss_blocks s) i" and "om_get (mss_partial s') i = om_get (mss_partial s) i"
  shows "slot_ok parse (vs @ [v]) (ds @ ts) s' i"
  using assms block_ok_other [OF _ assms(2)]
  by (cases "om_get (mss_blocks s) i") (auto simp: slot_ok_def about_other_def)

lemma json_get_append:
  "json_append k t b = Some b' \<Longrightarrow>
    json_get k' b' = (if k' = k then Some (String (str_or_empty k b @ t)) else json_get k' b)"
proof -
  assume "json_append k t b = Some b'"
  from json_get_upd [OF this [unfolded json_append_def]] show ?thesis
    by (auto simp: str_or_empty_def json_str_def json_index_def split: option.splits json.splits)
qed

lemma str_append:
  "json_append k t b = Some b' \<Longrightarrow> str_or_empty k' b' = (if k' = k then str_or_empty k b @ t else str_or_empty k' b)"
  using json_get_append [of k t b b' k'] by (simp add: str_or_empty_def json_str_def)

text \<open>A frame about a block whose input it may change.\<close>

lemma block_ok_change:
  assumes "block_ok parse vs ds i b pending"
    and "str_or_empty ''text'' b' = str_or_empty ''text'' b @ gathered (text_at i) ts"
    and "str_or_empty ''thinking'' b' = str_or_empty ''thinking'' b @ gathered (reasoning_at i) ts"
    and "\<forall>k. k \<notin> {''text'', ''thinking'', ''signature'', ''input''} \<longrightarrow> json_get k b' = json_get k b"
    and "\<And>b0. input_ok parse (length (filter (stops_block i) vs)) (gathered (input_at i) ds) (\<exists>d \<in> set ds. calls_at i d) b0 b pending
      \<Longrightarrow> input_ok parse (length (filter (stops_block i) (vs @ [v]))) (gathered (input_at i) (ds @ ts))
        (\<exists>d \<in> set (ds @ ts). calls_at i d) b0 b' pending'"
  shows "block_ok parse (vs @ [v]) (ds @ ts) i b' pending'"
proof -
  obtain u b0 where u: "u \<in> set vs" "starts_block i u b0"
      "str_or_empty ''text'' b = str_or_empty ''text'' b0 @ gathered (text_at i) ds"
      "str_or_empty ''thinking'' b = str_or_empty ''thinking'' b0 @ gathered (reasoning_at i) ds"
      "\<forall>k. k \<notin> {''text'', ''thinking'', ''signature'', ''input''} \<longrightarrow> json_get k b = json_get k b0"
    and inp: "input_ok parse (length (filter (stops_block i) vs)) (gathered (input_at i) ds) (\<exists>d \<in> set ds. calls_at i d) b0 b pending"
    using assms(1) unfolding block_ok_def by blast
  show ?thesis
    unfolding block_ok_def
    by (intro bexI [of _ u] exI [of _ b0] conjI assms(5) inp) (use u assms(2-4) in simp_all)
qed

lemma input_ok_same:
  "json_get ''input'' b' = json_get ''input'' b \<Longrightarrow> input_ok parse n all streamed b0 b' pending = input_ok parse n all streamed b0 b pending"
  by (cases pending) (simp_all add: input_ok_def)

lemma block_ok_append:
  assumes "block_ok parse vs ds i b pending" and "json_append k t b = Some b'"
    and "k \<in> {''text'', ''thinking'', ''signature''}" and "\<not> stops_block i v" and "\<not> (\<exists>d \<in> set ts. calls_at i d)"
    and "gathered (text_at i) ts = (if k = ''text'' then t else [])"
    and "gathered (reasoning_at i) ts = (if k = ''thinking'' then t else [])"
  shows "block_ok parse (vs @ [v]) (ds @ ts) i b' pending"
proof (rule block_ok_change [OF assms(1)])
  have same: "json_get ''input'' b' = json_get ''input'' b" using json_get_append [OF assms(2), of "''input''"] assms(3) by auto
  have eqs: "filter (stops_block i) (vs @ [v]) = filter (stops_block i) vs" "gathered (input_at i) (ds @ ts) = gathered (input_at i) ds"
    "(\<exists>d \<in> set (ds @ ts). calls_at i d) = (\<exists>d \<in> set ds. calls_at i d)"
    using assms(4,5) no_calls_no_input [OF assms(5)] by auto
  show "input_ok parse (length (filter (stops_block i) (vs @ [v]))) (gathered (input_at i) (ds @ ts))
      (\<exists>d \<in> set (ds @ ts). calls_at i d) b0 b' pending"
    if "input_ok parse (length (filter (stops_block i) vs)) (gathered (input_at i) ds) (\<exists>d \<in> set ds. calls_at i d) b0 b pending" for b0
    unfolding eqs input_ok_same [OF same] by (rule that)
qed (use assms(3,6,7) json_get_append [OF assms(2)] str_append [OF assms(2)] in auto)

lemma block_ok_input:
  assumes "block_ok parse vs ds i b pending" and "\<not> stops_block i v"
  shows "block_ok parse (vs @ [v]) (ds @ [DeltaRuntimeTool i x y t]) i b
    (Some ((case pending of None \<Rightarrow> [] | Some p \<Rightarrow> p) @ t))"
proof (rule block_ok_change [OF assms(1)])
  show "input_ok parse (length (filter (stops_block i) (vs @ [v]))) (gathered (input_at i) (ds @ [DeltaRuntimeTool i x y t]))
      (\<exists>d \<in> set (ds @ [DeltaRuntimeTool i x y t]). calls_at i d) b0 b (Some ((case pending of None \<Rightarrow> [] | Some p \<Rightarrow> p) @ t))"
    if "input_ok parse (length (filter (stops_block i) vs)) (gathered (input_at i) ds) (\<exists>d \<in> set ds. calls_at i d) b0 b pending" for b0
    using that assms(2) no_calls_no_input [of ds i] by (cases pending) (auto simp: input_ok_def)
qed simp_all

lemma block_ok_stop:
  assumes "block_ok parse vs ds i b (Some raw)" and "parse raw = Inr x" and "json_put ''input'' x b = Some b'" and "stops_block i v"
  shows "block_ok parse (vs @ [v]) (ds @ []) i b' None"
proof (rule block_ok_change [OF assms(1)])
  note got = json_get_put [OF assms(3)]
  show "input_ok parse (length (filter (stops_block i) (vs @ [v]))) (gathered (input_at i) (ds @ []))
      (\<exists>d \<in> set (ds @ []). calls_at i d) b0 b' None"
    if "input_ok parse (length (filter (stops_block i) vs)) (gathered (input_at i) ds) (\<exists>d \<in> set ds. calls_at i d) b0 b (Some raw)" for b0
    using that assms(2,4) got [of "''input''"] by (auto simp: input_ok_def)
qed (use json_get_put [OF assms(3)] in \<open>auto simp: str_or_empty_def json_str_def\<close>)

lemma block_ok_stop_idle:
  assumes "block_ok parse vs ds i b None"
  shows "block_ok parse (vs @ [v]) (ds @ []) i b None"
  by (rule block_ok_change [OF assms]) (fastforce simp: input_ok_def)+

section \<open>Frames\<close>

lemma other_frame:
  assumes "str_or_empty ''type'' v \<notin> {''content_block_start'', ''content_block_stop''} \<or> frame_index ''index'' v \<noteq> i"
    and "gathered (text_at i) ts = []" "gathered (reasoning_at i) ts = []" "\<not> (\<exists>d \<in> set ts. calls_at i d)"
  shows "about_other i v ts"
  using assms by (auto simp: about_other_def starts_block_def stops_block_def)

lemma blocks_ok_unchanged:
  assumes "blocks_ok parse vs ds s" and "mss_blocks s' = mss_blocks s" "mss_partial s' = mss_partial s"
    and "str_or_empty ''type'' v \<notin> {''content_block_start'', ''content_block_stop''}"
    and "\<forall>i. gathered (text_at i) ts = [] \<and> gathered (reasoning_at i) ts = [] \<and> \<not> (\<exists>d \<in> set ts. calls_at i d)"
  shows "blocks_ok parse (vs @ [v]) (ds @ ts) s'"
proof -
  have "about_other i v ts" for i using other_frame [of v i ts] assms(4,5) by blast
  then show ?thesis using assms(1-3) slot_ok_other [of parse vs ds s _ v ts s'] by (simp add: blocks_ok_def)
qed

text \<open>One block changes, the others see a frame about another block.\<close>

lemma blocks_ok_one:
  assumes "blocks_ok parse vs ds s" and "om_ok (mss_blocks s')"
    and "\<forall>j. j \<noteq> i \<longrightarrow> om_get (mss_blocks s') j = om_get (mss_blocks s) j \<and> om_get (mss_partial s') j = om_get (mss_partial s) j"
    and "frame_index ''index'' v = i"
    and "\<forall>j. j \<noteq> i \<longrightarrow> gathered (text_at j) ts = [] \<and> gathered (reasoning_at j) ts = [] \<and> \<not> (\<exists>d \<in> set ts. calls_at j d)"
    and "om_get (mss_blocks s') i = Some b" and "block_ok parse (vs @ [v]) (ds @ ts) i b (om_get (mss_partial s') i)"
  shows "blocks_ok parse (vs @ [v]) (ds @ ts) s'"
proof -
  have "slot_ok parse (vs @ [v]) (ds @ ts) s' j" for j
  proof (cases "j = i")
    case True
    then show ?thesis using assms(6,7) by (simp add: slot_ok_def)
  next
    case False
    then have "about_other j v ts" using other_frame [of v j ts] assms(4,5) by blast
    moreover have "slot_ok parse vs ds s j" using assms(1) by (simp add: blocks_ok_def)
    ultimately show ?thesis using slot_ok_other assms(3) False by blast
  qed
  then show ?thesis using assms(2) by (simp add: blocks_ok_def)
qed

lemma blocks_ok_get:
  "blocks_ok parse vs ds s \<Longrightarrow> om_get (mss_blocks s) i = Some b \<Longrightarrow> block_ok parse vs ds i b (om_get (mss_partial s) i)"
  by (auto simp: blocks_ok_def slot_ok_def dest!: spec [of _ i])

lemma block_delta_step:
  assumes "blocks_ok parse vs ds s" and "block_delta i delta s = Gives (ts, s')"
    and "frame_index ''index'' v = i" and "str_or_empty ''type'' v = ''content_block_delta''"
  shows "blocks_ok parse (vs @ [v]) (ds @ ts) s'"
proof -
  obtain b where b: "om_get (mss_blocks s) i = Some b"
    using assms(2) by (auto simp: block_delta_def attempt_simps ok_or_Inr)
  have ok: "om_ok (mss_blocks s)" using assms(1) by (simp add: blocks_ok_def)
  have stop: "\<not> stops_block j v" for j using assms(4) by (simp add: stops_block_def)
  note block = blocks_ok_get [OF assms(1) b]
  let ?kind = "str_or_empty ''type'' delta"
  have append: "blocks_ok parse (vs @ [v]) (ds @ ts) s'"
    if app: "block_append i b k t s = Gives s'" "k \<in> {''text'', ''thinking'', ''signature''}"
      "ts = (if k = ''text'' then [DeltaText i t] else if k = ''thinking'' then [DeltaReasoning i t] else [])" for k t
  proof -
    obtain b' where b': "json_append k t b = Some b'" "s' = s\<lparr>mss_blocks := om_insert i b' (mss_blocks s)\<rparr>"
      using app(1) by (auto simp: block_append_def attempt_simps)
    have "block_ok parse (vs @ [v]) (ds @ ts) i b' (om_get (mss_partial s) i)"
      by (rule block_ok_append [OF block b'(1) app(2) stop]) (use app(2,3) in auto)
    then show ?thesis
      by (intro blocks_ok_one [OF assms(1) _ _ assms(3), where b = b']) (use ok b'(2) app(2,3) in auto)
  qed
  consider "?kind = ''text_delta''" | "?kind = ''thinking_delta''" | "?kind = ''signature_delta''" | "?kind = ''input_json_delta''"
    | "?kind \<notin> {''text_delta'', ''thinking_delta'', ''signature_delta'', ''input_json_delta''}" by blast
  then show ?thesis
  proof cases
    case 1
    then have "block_append i b ''text'' (str_or_empty ''text'' delta) s = Gives s'" "ts = [DeltaText i (str_or_empty ''text'' delta)]"
      using assms(2) b by (auto simp: block_delta_def attempt_simps Let_def)
    then show ?thesis using append [of "''text''"] by simp
  next
    case 2
    then have "block_append i b ''thinking'' (str_or_empty ''thinking'' delta) s = Gives s'" "ts = [DeltaReasoning i (str_or_empty ''thinking'' delta)]"
      using assms(2) b by (auto simp: block_delta_def attempt_simps Let_def)
    then show ?thesis using append [of "''thinking''"] by simp
  next
    case 3
    then have "block_append i b ''signature'' (str_or_empty ''signature'' delta) s = Gives s'" "ts = []"
      using assms(2) b by (auto simp: block_delta_def attempt_simps Let_def)
    then show ?thesis using append [of "''signature''"] by simp
  next
    case 4
    let ?t = "str_or_empty ''partial_json'' delta"
    have s': "s' = s\<lparr>mss_partial := om_insert i ((case om_get (mss_partial s) i of None \<Rightarrow> [] | Some p \<Rightarrow> p) @ ?t) (mss_partial s)\<rparr>"
        "ts = [DeltaRuntimeTool i (json_str ''id'' b) (json_str ''name'' b) ?t]"
      using assms(2) b 4 by (auto simp: block_delta_def Let_def)
    have "block_ok parse (vs @ [v]) (ds @ ts) i b (om_get (mss_partial s') i)"
      using block_ok_input [OF block stop] s' by simp
    then show ?thesis by (intro blocks_ok_one [OF assms(1) _ _ assms(3), where b = b]) (use ok s' b in auto)
  next
    case 5
    then have "s' = s" "ts = []" using assms(2) b by (auto simp: block_delta_def Let_def)
    then show ?thesis using assms(4) by (intro blocks_ok_unchanged [OF assms(1)]) simp_all
  qed
qed

lemma stop_block_step:
  assumes "blocks_ok parse vs ds s" and "stop_block parse i s = Gives s'"
    and "frame_index ''index'' v = i" and "str_or_empty ''type'' v = ''content_block_stop''"
  shows "blocks_ok parse (vs @ [v]) (ds @ []) s'"
proof (cases "om_get (mss_partial s) i")
  case None
  then have s': "s' = s" using assms(2) by (simp add: stop_block_def)
  have slot: "slot_ok parse (vs @ [v]) (ds @ []) s j" for j
  proof -
    have j: "slot_ok parse vs ds s j" using assms(1) by (simp add: blocks_ok_def)
    show ?thesis
    proof (cases "j = i")
      case False
      then have "about_other j v []" using other_frame [of v j "[]"] assms(3) by simp
      then show ?thesis by (rule slot_ok_other [OF j _ refl refl])
    next
      case True
      show ?thesis
      proof (cases "om_get (mss_blocks s) i")
        case block: None
        have "\<not> starts_block i v b0" for b0 using assms(4) by (simp add: starts_block_def)
        then show ?thesis using j block True by (simp add: slot_ok_def)
      next
        case (Some b)
        then show ?thesis using block_ok_stop_idle [of parse vs ds i b v] j True None by (simp add: slot_ok_def)
      qed
    qed
  qed
  then show ?thesis using s' assms(1) by (simp add: blocks_ok_def)
next
  case (Some raw)
  obtain b x b' where b: "om_get (mss_blocks s) i = Some b" "parse raw = Inr x" "json_put ''input'' x b = Some b'"
      "s' = s\<lparr>mss_partial := om_remove i (mss_partial s), mss_blocks := om_insert i b' (mss_blocks s)\<rparr>"
    using assms(2) Some by (auto simp: stop_block_def attempt_simps ok_or_Inr split: sum.splits)
  have stop: "stops_block i v" using assms(3,4) by (simp add: stops_block_def)
  have "block_ok parse vs ds i b (Some raw)" using blocks_ok_get [OF assms(1) b(1)] Some by simp
  then have "block_ok parse (vs @ [v]) (ds @ []) i b' None"
    by (rule block_ok_stop [where raw = raw and x = x and b = b]) (use b(2,3) stop in simp_all)
  then show ?thesis
    by (intro blocks_ok_one [OF assms(1) _ _ assms(3), where b = b']) (use assms(1) b(4) in \<open>auto simp: blocks_ok_def\<close>)
qed

lemma start_block_step:
  assumes "blocks_ok parse vs ds s" and "om_get (mss_blocks s) i = None" and "starts_block i v b"
    and "s' = s\<lparr>mss_blocks := om_insert i b (mss_blocks s)\<rparr>"
  shows "blocks_ok parse (vs @ [v]) (ds @ []) s'"
proof -
  have "slot_ok parse vs ds s i" using assms(1) by (simp add: blocks_ok_def)
  then have none: "om_get (mss_partial s) i = None" "gathered (text_at i) ds = []" "gathered (reasoning_at i) ds = []"
      "\<not> (\<exists>d \<in> set ds. calls_at i d)"
    using assms(2) by (simp_all add: slot_ok_def)
  have "block_ok parse (vs @ [v]) (ds @ []) i b None"
    unfolding block_ok_def by (intro bexI [of _ v] exI [of _ b]) (use assms(3) none in \<open>simp_all add: input_ok_def\<close>)
  then show ?thesis
    by (intro blocks_ok_one [OF assms(1), where b = b and i = i])
       (use assms none in \<open>auto simp: blocks_ok_def starts_block_def\<close>)
qed

lemma messages_push_step:
  assumes "blocks_ok parse vs ds s" and "messages_push parse v s = Gives (ts, s')"
  shows "blocks_ok parse (vs @ [v]) (ds @ ts) s'"
proof -
  let ?i = "frame_index ''index'' v" and ?kind = "str_or_empty ''type'' v"
  consider "?kind = ''message_start''" | "?kind = ''content_block_start''" | "?kind = ''content_block_delta''"
    | "?kind = ''content_block_stop''" | "?kind = ''message_delta''" | "?kind = ''message_stop''"
    | "?kind \<notin> {''message_start'', ''content_block_start'', ''content_block_delta'', ''content_block_stop'', ''message_delta'', ''message_stop''}"
    by blast
  then show ?thesis
  proof cases
    case 1
    then show ?thesis using assms(2)
      by (intro blocks_ok_unchanged [OF assms(1)]) (auto simp: messages_push_def attempt_simps Let_def)
  next
    case 2
    then obtain b where "starts_block ?i v b" "om_get (mss_blocks s) ?i = None" "ts = []"
        "s' = s\<lparr>mss_blocks := om_insert ?i b (mss_blocks s)\<rparr>"
      using assms(2) by (auto simp: messages_push_def starts_block_def om_contains_def attempt_simps ok_or_Inr Let_def split: if_splits)
    then show ?thesis using start_block_step [OF assms(1)] by simp
  next
    case 3
    then show ?thesis using assms(2) block_delta_step [OF assms(1)] by (simp add: messages_push_def Let_def)
  next
    case 4
    then have "stop_block parse ?i s = Gives s'" "ts = []" using assms(2) by (auto simp: messages_push_def attempt_simps Let_def)
    then show ?thesis using stop_block_step [OF assms(1)] 4 by simp
  next
    case 5
    then have delta: "message_delta v s = Gives (ts, s')" using assms(2) by (simp add: messages_push_def Let_def)
    have "mss_blocks s' = mss_blocks s \<and> mss_partial s' = mss_partial s \<and> (ts = [] \<or> (\<exists>u. ts = [DeltaUsage u]))"
      using delta by (auto simp: message_delta_def attempt_simps split: option.splits)
    then show ?thesis using 5 by (intro blocks_ok_unchanged [OF assms(1)]) auto
  next
    case 6
    then show ?thesis using assms(2)
      by (intro blocks_ok_unchanged [OF assms(1)]) (auto simp: messages_push_def Let_def)
  next
    case 7
    then show ?thesis using assms(2)
      by (intro blocks_ok_unchanged [OF assms(1)]) (auto simp: messages_push_def Let_def)
  qed
qed

section \<open>Runs\<close>

text \<open>The frames of a stream are the data that parse.\<close>

definition frames_of :: "(string \<Rightarrow> string + json) \<Rightarrow> string list \<Rightarrow> json list" where
  "frames_of parse datas = List.map_filter (\<lambda>data. if data = ''[DONE]'' then None
     else (case parse data of Inl _ \<Rightarrow> None | Inr v \<Rightarrow> Some v)) datas"

lemma frames_of_simps [simp]:
  "frames_of parse [] = []"
  "frames_of parse (''[DONE]'' # datas) = frames_of parse datas"
  "data \<noteq> ''[DONE]'' \<Longrightarrow> parse data = Inr v \<Longrightarrow> frames_of parse (data # datas) = v # frames_of parse datas"
  by (simp_all add: frames_of_def map_filter_simps)

lemma stream_data_push:
  assumes "stream_data parse render data s = Gives (ts, s')" and "data \<noteq> ''[DONE]''"
  shows "\<exists>v. parse data = Inr v \<and> stream_push parse render v s = Gives (ts, s')"
  using assms by (auto simp: stream_data_def attempt_simps split: if_splits sum.splits)

lemma frames_run_chat:
  assumes "\<forall>v \<in> set (frames_of parse datas). keeps_message v \<and> counts_calls v" and "chat_ok ds s"
  shows "frames_run parse render datas (ChatStream s) \<noteq> Panics
    \<and> (\<forall>ts s'. frames_run parse render datas (ChatStream s) = Gives (ts, s') \<longrightarrow> (\<exists>c. s' = ChatStream c \<and> chat_ok (ds @ ts) c))"
  using assms
proof (induction datas arbitrary: s ds)
  case (Cons data datas)
  have more: "frames_run parse render (data # datas) (ChatStream s) \<noteq> Panics
      \<and> (\<forall>ts s'. frames_run parse render (data # datas) (ChatStream s) = Gives (ts, s') \<longrightarrow> (\<exists>c. s' = ChatStream c \<and> chat_ok (ds @ ts) c))"
    if "stream_data parse render data (ChatStream s) = Gives (us, ChatStream c)" "chat_ok (ds @ us) c"
      "\<forall>v \<in> set (frames_of parse datas). keeps_message v \<and> counts_calls v" for us c
    using Cons.IH [OF that(3,2)] that(1)
    by (cases "frames_run parse render datas (ChatStream c)") auto
  show ?case
  proof (cases "data = ''[DONE]''")
    case True
    have "chat_ok (ds @ []) (s\<lparr>chs_done := True\<rparr>)" using Cons.prems(2) by (simp add: chat_ok_def)
    then show ?thesis using more [of "[]"] Cons.prems(1) True by (simp add: stream_data_def)
  next
    case False
    show ?thesis
    proof (cases "parse data")
      case (Inl e)
      then show ?thesis using False by (simp add: stream_data_def)
    next
      case (Inr v)
      then have v: "keeps_message v \<and> counts_calls v" and rest: "\<forall>v \<in> set (frames_of parse datas). keeps_message v \<and> counts_calls v"
        using Cons.prems(1) False by simp_all
      note step = chat_push_step [OF Cons.prems(2) v]
      consider e where "stream_data parse render data (ChatStream s) = Fails e"
        | "stream_data parse render data (ChatStream s) = a_map ChatStream (chat_push v s)"
        using Inr False unfolding stream_data_def by (cases "some_and (\<lambda>e. \<not> json_is_null e) (json_get ''error'' v) \<or> json_str ''type'' v = Some ''error''") auto
      then show ?thesis
      proof cases
        case 2
        show ?thesis
        proof (cases "chat_push v s")
          case (Gives x)
          then show ?thesis using more [OF _ _ rest, of "fst x" "snd x"] step [of "fst x" "snd x"] 2
            by (simp add: a_map_def split: prod.splits)
        qed (use step 2 in \<open>simp_all add: a_map_def\<close>)
      qed simp
    qed
  qed
qed simp

lemma frames_run_messages:
  "frames_run parse render datas (MessagesStream s) = Gives (ts, s') \<Longrightarrow> blocks_ok parse vs ds s \<Longrightarrow>
    \<exists>m. s' = MessagesStream m \<and> blocks_ok parse (vs @ frames_of parse datas) (ds @ ts) m"
proof (induction datas arbitrary: s ts vs ds)
  case (Cons data datas)
  obtain us t ts' where run: "stream_data parse render data (MessagesStream s) = Gives (us, t)"
      "frames_run parse render datas t = Gives (ts', s')" "ts = us @ ts'"
    using Cons.prems(1) by (auto simp: attempt_simps)
  show ?case
  proof (cases "data = ''[DONE]''")
    case True
    then show ?thesis using run Cons by (auto simp: stream_data_def)
  next
    case False
    then obtain v where v: "parse data = Inr v" "stream_push parse render v (MessagesStream s) = Gives (us, t)"
      using stream_data_push [OF run(1)] by blast
    then obtain m where m: "messages_push parse v s = Gives (us, m)" "t = MessagesStream m"
      by (auto simp: a_map_def attempt_simps)
    show ?thesis
      using Cons.IH [OF run(2) [unfolded m(2)] messages_push_step [OF Cons.prems(2) m(1)]] v(1) False run(3) by simp
  qed
qed auto

lemma chat_new_ok: "chat_ok [] chat_new"
  by (simp add: chat_ok_def chat_new_def chat_value_ok_def chat_message_ok_def chat_calls_ok_def chat_slot_ok_def
      logprobs_ok_def om_get_Cons)

lemma messages_new_ok: "blocks_ok parse [] [] messages_new"
  by (simp add: blocks_ok_def messages_new_def slot_ok_def)

section \<open>Complete responses\<close>

lemma om_keys_sorted:
  assumes "om_ok m" and "\<And>k. om_get m k \<noteq> None \<longleftrightarrow> k \<in> K"
  shows "map fst m = sorted_list_of_set K"
proof -
  have keys: "set (map fst m) = K"
    using assms(2) by (auto simp: om_get_def map_of_eq_None_iff)
  then have "sorted_list_of_set K = map fst m"
    using assms(1) by (metis om_ok_def sorted_list_of_set.idem_if_sorted_distinct strict_sorted_iff)
  then show ?thesis by simp
qed

text \<open>The calls of a chat stream in the order of their indexes.\<close>

definition streamed_calls :: "model_delta list \<Rightarrow> nat list" where
  "streamed_calls ds = sorted_list_of_set {i. \<exists>d \<in> set ds. calls_at (Suc i) d}"

lemma chat_message_pointer:
  "om_get m ''choices'' = Some (Array [Object c]) \<Longrightarrow> om_get c ''message'' = Some (Object g) \<Longrightarrow>
    json_pointer ''/choices/0/message'' (Object m) = Some (Object g)"
  by (simp add: json_pointer_def array_token_def parse_u64_def Let_def)

lemma chat_calls_listed:
  assumes "chat_calls_ok ds cs"
  shows "map fst cs = streamed_calls ds \<and> list_all2 (chat_call_ok ds) (streamed_calls ds) (om_values cs)"
proof -
  have slot: "chat_slot_ok ds cs i" for i using assms by (simp add: chat_calls_ok_def)
  have "om_get cs k \<noteq> None \<longleftrightarrow> k \<in> {i. \<exists>d \<in> set ds. calls_at (Suc i) d}" for k
    using slot [of k] by (cases "om_get cs k") (simp_all add: chat_slot_ok_def)
  then have keys: "map fst cs = streamed_calls ds"
    unfolding streamed_calls_def using assms by (intro om_keys_sorted) (simp_all add: chat_calls_ok_def)
  have "chat_call_ok ds k v" if "(k, v) \<in> set cs" for k v
    using slot [of k] assms om_in_set_get [OF _ that] by (auto simp: chat_slot_ok_def chat_calls_ok_def)
  then have "list_all2 (chat_call_ok ds) (map fst cs) (om_values cs)"
    by (auto simp: om_values_def list_all2_conv_all_nth)
  then show ?thesis using keys by simp
qed

lemma chat_finish_message:
  assumes "chat_ok ds s" and "chat_finish s = Gives v"
  shows "\<exists>g cs. json_pointer ''/choices/0/message'' v = Some (Object g)
     \<and> om_get g ''content'' = Some (String (gathered (text_at 0) ds))
     \<and> om_get g ''reasoning_content'' = (if \<exists>d \<in> set ds. reasons d then Some (String (gathered (reasoning_at 0) ds)) else None)
     \<and> om_get g ''tool_calls'' = (if streamed_calls ds = [] then None else Some (Array cs))
     \<and> list_all2 (chat_call_ok ds) (streamed_calls ds) cs"
proof -
  obtain m c g where m: "chs_value s = Object m" "om_get m ''choices'' = Some (Array [Object c])"
      "om_get c ''message'' = Some (Object g)" "chat_message_ok ds g"
    using assms(1) by (auto simp: chat_ok_def chat_value_ok_def)
  have calls: "map fst (chs_calls s) = streamed_calls ds" "list_all2 (chat_call_ok ds) (streamed_calls ds) (om_values (chs_calls s))"
    using chat_calls_listed assms(1) by (auto simp: chat_ok_def)
  have finished: "chs_done s" using assms(2) by (auto simp: chat_finish_def split: if_splits)
  show ?thesis
  proof (cases "chs_calls s = []")
    case True
    then have "v = Object m" using assms(2) finished m(1) by (simp add: chat_finish_def)
    then show ?thesis using m(4) True calls chat_message_pointer [OF m(2,3)]
      by (intro exI [of _ g] exI [of _ "[]"]) (simp add: chat_message_ok_def om_values_def)
  next
    case False
    let ?g = "om_insert ''tool_calls'' (Array (om_values (chs_calls s))) g"
    let ?m = "om_insert ''choices'' (Array [Object (om_insert ''message'' (Object ?g) c)]) m"
    have "v = Object ?m"
      using assms(2) finished m False by (auto simp: chat_finish_def chat_choice_Object json_put_Object attempt_simps)
    moreover have "json_pointer ''/choices/0/message'' (Object ?m) = Some (Object ?g)"
      by (rule chat_message_pointer [where c = "om_insert ''message'' (Object ?g) c"]) (simp_all only: om_get_insert simp_thms if_True)
    moreover have "streamed_calls ds \<noteq> []" using False calls(1) by auto
    ultimately show ?thesis using m(4) calls(2)
      by (intro exI [of _ ?g] exI [of _ "om_values (chs_calls s)"]) (simp add: chat_message_ok_def)
  qed
qed

text \<open>The blocks of a message in the order of their indexes, each as it was started and streamed.\<close>

definition streamed_blocks :: "json list \<Rightarrow> nat list" where
  "streamed_blocks vs = sorted_list_of_set {i. \<exists>v \<in> set vs. \<exists>b0. starts_block i v b0}"

lemma messages_finish_blocks:
  assumes "blocks_ok parse vs ds s" and "messages_finish s = Gives v"
  shows "\<exists>bs. json_get ''content'' v = Some (Array bs)
     \<and> list_all2 (\<lambda>i b. block_ok parse vs ds i b None) (streamed_blocks vs) bs"
proof -
  have fin: "mss_partial s = []" "json_put ''content'' (Array (om_values (mss_blocks s))) (mss_value s) = Some v"
    using assms(2) by (auto simp: messages_finish_def attempt_simps split: if_splits)
  have slot: "slot_ok parse vs ds s i" for i using assms(1) by (simp add: blocks_ok_def)
  have started: "\<exists>v \<in> set vs. \<exists>b0. starts_block i v b0" if "block_ok parse vs ds i b p" for i b p
    using that unfolding block_ok_def by blast
  have "om_get (mss_blocks s) k \<noteq> None \<longleftrightarrow> k \<in> {i. \<exists>v \<in> set vs. \<exists>b0. starts_block i v b0}" for k
    using slot [of k] started [of k] by (cases "om_get (mss_blocks s) k") (auto simp: slot_ok_def)
  then have keys: "map fst (mss_blocks s) = streamed_blocks vs"
    unfolding streamed_blocks_def using assms(1) by (intro om_keys_sorted) (auto simp: blocks_ok_def)
  have "block_ok parse vs ds k b None" if "(k, b) \<in> set (mss_blocks s)" for k b
    using slot [of k] assms(1) om_in_set_get [OF _ that] fin(1) by (auto simp: slot_ok_def blocks_ok_def)
  then have "list_all2 (\<lambda>i b. block_ok parse vs ds i b None) (map fst (mss_blocks s)) (om_values (mss_blocks s))"
    by (auto simp: om_values_def list_all2_conv_all_nth)
  then show ?thesis using keys json_get_put [OF fin(2), of "''content''"] by auto
qed

section \<open>Frames that panic\<close>

text \<open>A message that is no object, and a choice that replaces the message under construction.\<close>

lemma messages_start_panics:
  "frames_run (\<lambda>data. Inr (if data = ''a''
       then Object [(''message'', String ''''), (''type'', String ''message_start'')]
       else Object [(''delta'', Object [(''stop_reason'', Null)]), (''type'', String ''message_delta'')]))
     (\<lambda>_. []) [''a'', ''b''] (stream_new ProtocolMessages) = Panics"
  by code_simp

lemma chat_message_panics:
  "frames_run (\<lambda>_. Inr (Object [(''choices'', Array [Object [(''delta'', Object [(''content'', String ''x'')]),
       (''message'', String '''')]])])) (\<lambda>_. []) [''a''] (stream_new ProtocolChat) = Panics"
  by (simp add: stream_data_def chat_push_def chat_new_def copy_fields_def json_put_Object chat_choice_def json_pointer_def
      array_token_def parse_u64_def a_map_def chat_texts_def json_append_def json_str_def om_get_Cons Let_def)

text \<open>A call with the largest index, whose position in the output has no place in a \<open>usize\<close>.\<close>

lemma chat_index_panics:
  "frames_run (\<lambda>_. Inr (Object [(''choices'', Array [Object [(''delta'', Object [(''tool_calls'',
       Array [Object [(''index'', Number (PosInt (- 1)))]])])]])])) (\<lambda>_. []) [''a''] (stream_new ProtocolChat) = Panics"
  by (simp add: stream_data_def chat_push_def chat_new_def copy_fields_def json_put_Object chat_choice_def json_pointer_def
      array_token_def parse_u64_def a_map_def chat_texts_def json_append_def json_str_def om_get_Cons Let_def
      chat_call_def chat_call_new_def json_u64_def)

text \<open>A later frame of a call whose identity is \<open>null\<close> erases the identity of the call.\<close>

lemma null_id_erases_call:
  "case chat_calls [Object [(''id'', String ''c''), (''index'', Number (PosInt 0))],
       Object [(''id'', Null), (''index'', Number (PosInt 0))]] [] of
     Gives (ds, cs) \<Rightarrow> map (json_get ''id'') (om_values cs) = [Some Null] | _ \<Rightarrow> False"
  by code_simp

end
