(* ===== verification/Wire_Extensions.thy ===== *)
theory Wire_Extensions
  imports Stream_Blocks
begin

text \<open>
  The customisation of a protocol, \<open>zhir-models/src/extension.rs\<close>, and its composition from the tools of
  providers, \<open>provider_tools/mod.rs\<close>. An extension is a record of hooks over a state \<open>'x\<close> of its own; a
  chain of extensions has the list of their states. The functions of the JSON and base64 libraries that
  the codecs use are in \<open>wire_lib\<close>.
\<close>

section \<open>Computations\<close>

record wire_lib =
  wl_parse :: "string \<Rightarrow> string + json"
  wl_render :: "json \<Rightarrow> string"
  wl_base64 :: "bytes \<Rightarrow> string"
  wl_unbase64 :: "string \<Rightarrow> string + bytes"

text \<open>A computation over the state of an extension, which keeps the state when it fails.\<close>

type_synonym ('x, 'a) wire = "'x \<Rightarrow> 'a attempt \<times> 'x"

definition w_return :: "'a \<Rightarrow> ('x, 'a) wire" where
  "w_return a x = (Gives a, x)"

definition w_attempt :: "'a attempt \<Rightarrow> ('x, 'a) wire" where
  "w_attempt a x = (a, x)"

definition w_lift :: "'a result \<Rightarrow> ('x, 'a) wire" where
  "w_lift r x = (a_result r, x)"

definition w_bind :: "('x, 'a) wire \<Rightarrow> ('a \<Rightarrow> ('x, 'b) wire) \<Rightarrow> ('x, 'b) wire" where
  "w_bind m f x = (case m x of (Gives a, x') \<Rightarrow> f a x' | (Fails e, x') \<Rightarrow> (Fails e, x') | (Panics, x') \<Rightarrow> (Panics, x'))"

fun w_map :: "('a \<Rightarrow> ('x, 'b) wire) \<Rightarrow> 'a list \<Rightarrow> ('x, 'b list) wire" where
  "w_map f [] = w_return []"
| "w_map f (a # as) = w_bind (f a) (\<lambda>b. w_bind (w_map f as) (\<lambda>bs. w_return (b # bs)))"

lemma w_bind_Gives [attempt_simps]:
  "w_bind m f x = (Gives b, x'') \<longleftrightarrow> (\<exists>a x'. m x = (Gives a, x') \<and> f a x' = (Gives b, x''))"
  by (auto simp: w_bind_def split: prod.splits attempt.splits)

lemma w_lift_Gives [attempt_simps]: "w_lift r x = (Gives a, x') \<longleftrightarrow> r = Inr a \<and> x' = x"
  by (cases r) (auto simp: w_lift_def)

lemma w_return_Gives [attempt_simps]: "w_return a x = (Gives b, x') \<longleftrightarrow> b = a \<and> x' = x"
  by (auto simp: w_return_def)

lemma w_attempt_Gives [attempt_simps]: "w_attempt r x = (Gives a, x') \<longleftrightarrow> r = Gives a \<and> x' = x"
  by (auto simp: w_attempt_def)

section \<open>Extensions\<close>

record 'x extension =
  px_tool :: "protocol \<Rightarrow> provider_tool_spec \<Rightarrow> ('x, json option) wire"
  px_choice :: "protocol \<Rightarrow> provider_tool_spec \<Rightarrow> ('x, json option) wire"
  px_item :: "protocol \<Rightarrow> json \<Rightarrow> json \<Rightarrow> ('x, output_item list option) wire"
  px_history :: "protocol \<Rightarrow> provider_tool_call \<Rightarrow> ('x, json list option) wire"
  px_request :: "protocol \<Rightarrow> model_request \<Rightarrow> json \<Rightarrow> ('x, json) wire"
  px_event :: "protocol \<Rightarrow> sse_event \<Rightarrow> ('x, sse_event \<times> model_delta list) wire"
  px_response :: "protocol \<Rightarrow> json \<Rightarrow> generation_output result \<Rightarrow> ('x, generation_output) wire"

text \<open>The defaults of the trait.\<close>

definition extension_default :: "'x extension" where
  "extension_default = \<lparr>px_tool = (\<lambda>_ _. w_return None), px_choice = (\<lambda>_ _. w_return None),
     px_item = (\<lambda>_ _ _. w_return None), px_history = (\<lambda>_ _. w_return None),
     px_request = (\<lambda>_ _ body. w_return body), px_event = (\<lambda>_ e. w_return (e, [])),
     px_response = (\<lambda>_ _ decoded. w_lift decoded)\<rparr>"

text \<open>
  \<open>one_owner\<close> over the members of a chain or the adapters of a set: every member is asked in order, at
  most one may answer, and the first error ends the search. A member is a hook on its own state.
\<close>

fun one_owner :: "'a option \<Rightarrow> ('x, 'a option) wire list \<Rightarrow> ('x list, 'a option) wire" where
  "one_owner found (hook # hooks) (x # xs) = (case hook x of
       (Fails e, x') \<Rightarrow> (Fails e, x' # xs)
     | (Panics, x') \<Rightarrow> (Panics, x' # xs)
     | (Gives v, x') \<Rightarrow>
         (if v \<noteq> None \<and> found \<noteq> None
          then (Fails (Invalid ''multiple extensions claimed the same protocol item''), x' # xs)
          else (case one_owner (if v = None then found else v) hooks xs of (r, xs') \<Rightarrow> (r, x' # xs'))))"
| "one_owner found _ xs = (Gives found, xs)"

text \<open>The hooks of a chain that pass a value through its members.\<close>

fun chain_fold :: "('a \<Rightarrow> ('x, 'a) wire) list \<Rightarrow> 'a \<Rightarrow> ('x list, 'a) wire" where
  "chain_fold (hook # hooks) a (x # xs) = (case hook a x of
       (Gives b, x') \<Rightarrow> (case chain_fold hooks b xs of (r, xs') \<Rightarrow> (r, x' # xs'))
     | (Fails e, x') \<Rightarrow> (Fails e, x' # xs)
     | (Panics, x') \<Rightarrow> (Panics, x' # xs))"
| "chain_fold _ a xs = (Gives a, xs)"

fun chain_responses :: "(generation_output result \<Rightarrow> ('x, generation_output) wire) list \<Rightarrow> generation_output result
    \<Rightarrow> ('x list, generation_output) wire" where
  "chain_responses (hook # hooks) r (x # xs) = (case hook r x of
       (Gives g, x') \<Rightarrow> (case chain_responses hooks (Inr g) xs of (r', xs') \<Rightarrow> (r', x' # xs'))
     | (Fails e, x') \<Rightarrow> (case chain_responses hooks (Inl e) xs of (r', xs') \<Rightarrow> (r', x' # xs'))
     | (Panics, x') \<Rightarrow> (Panics, x' # xs))"
| "chain_responses _ r xs = (a_result r, xs)"

definition extension_chain :: "'x extension list \<Rightarrow> 'x list extension" where
  "extension_chain es = \<lparr>
     px_tool = (\<lambda>p tool. one_owner None (map (\<lambda>e. px_tool e p tool) es)),
     px_choice = (\<lambda>p tool. one_owner None (map (\<lambda>e. px_choice e p tool) es)),
     px_item = (\<lambda>p item response. one_owner None (map (\<lambda>e. px_item e p item response) es)),
     px_history = (\<lambda>p call. one_owner None (map (\<lambda>e. px_history e p call) es)),
     px_request = (\<lambda>p request. chain_fold (map (\<lambda>e. px_request e p request) es)),
     px_event = (\<lambda>p event. chain_fold (map (\<lambda>e (event, ds). w_bind (px_event e p event)
        (\<lambda>(event', ds'). w_return (event', ds @ ds'))) es) (event, [])),
     px_response = (\<lambda>p raw. chain_responses (map (\<lambda>e. px_response e p raw) es))\<rparr>"

section \<open>Tools of providers\<close>

record 'x provider_adapter =
  pa_encode :: "protocol \<Rightarrow> provider_tool_spec \<Rightarrow> ('x, json) wire"
  pa_decode :: "protocol \<Rightarrow> json \<Rightarrow> json \<Rightarrow> ('x, output_item list option) wire"
  pa_replay :: "protocol \<Rightarrow> provider_tool_call \<Rightarrow> ('x, json list) wire"
  pa_choice :: "protocol \<Rightarrow> provider_tool_spec \<Rightarrow> ('x, json) wire"
  pa_event :: "protocol \<Rightarrow> sse_event \<Rightarrow> ('x, sse_event \<times> model_delta list) wire"

type_synonym tool_key = "string \<times> string"

text \<open>The adapters by the identity of their tool, and the tools a request has declared; an adapter has its own state.\<close>

record 'x provider_tools =
  pv_adapters :: "(tool_key, 'x) omap"
  pv_enabled :: "tool_key set"

definition provider_register ::
  "tool_key \<Rightarrow> (tool_key, 'x provider_adapter) omap \<Rightarrow> 'x provider_adapter \<Rightarrow> (tool_key, 'x provider_adapter) omap result" where
  "provider_register key adapters adapter =
     (if fst key = [] \<or> snd key = [] \<or> om_contains adapters key
      then Inl (Invalid ''provider adapter identities must be nonempty and unique'')
      else Inr (om_insert key adapter adapters))"

definition spec_key :: "provider_tool_spec \<Rightarrow> tool_key" where
  "spec_key tool = (pts_provider tool, pts_name tool)"

definition call_key :: "provider_tool_call \<Rightarrow> tool_key" where
  "call_key call = (ptc_provider call, ptc_name call)"

text \<open>One adapter acts on its state inside the state of the set.\<close>

definition with_adapter ::
  "(tool_key, 'x provider_adapter) omap \<Rightarrow> tool_key \<Rightarrow> ('x provider_adapter \<Rightarrow> ('x, 'a) wire)
    \<Rightarrow> ('x provider_tools, 'a option) wire" where
  "with_adapter adapters key f s = (case (om_get adapters key, om_get (pv_adapters s) key) of
       (Some adapter, Some x) \<Rightarrow> (case f adapter x of (r, x') \<Rightarrow>
         (a_bind r (\<lambda>a. Gives (Some a)), s\<lparr>pv_adapters := om_modify key (\<lambda>_. x') (pv_adapters s)\<rparr>))
     | _ \<Rightarrow> (Gives None, s))"

definition provider_encode ::
  "(tool_key, 'x provider_adapter) omap \<Rightarrow> protocol \<Rightarrow> provider_tool_spec \<Rightarrow> ('x provider_tools, json option) wire" where
  "provider_encode adapters p tool = w_bind (with_adapter adapters (spec_key tool) (\<lambda>a. pa_encode a p tool)) (\<lambda>v.
     case v of None \<Rightarrow> w_return None
     | Some v \<Rightarrow> (if \<not> json_is_object v then w_lift (Inl (Invalid ''provider declaration must encode an object''))
         else (\<lambda>s. (Gives (Some v), s\<lparr>pv_enabled := insert (spec_key tool) (pv_enabled s)\<rparr>))))"

fun owned_by :: "tool_key \<Rightarrow> output_item \<Rightarrow> bool" where
  "owned_by key (ProviderToolCall call) = (call_key call = key)"
| "owned_by key _ = False"

definition provider_decode_one ::
  "tool_key set \<Rightarrow> tool_key \<Rightarrow> ('x, output_item list option) wire \<Rightarrow> ('x, output_item list option) wire" where
  "provider_decode_one enabled key decode = w_bind decode (\<lambda>decoded. case decoded of
       None \<Rightarrow> w_return None
     | Some output \<Rightarrow>
         (if key \<notin> enabled then w_lift (Inl (Protocol ''provider returned a tool that was not enabled''))
          else if \<not> list_all (owned_by key) output
          then w_lift (Inl (Protocol ''provider adapter returned another execution identity''))
          else w_return (Some output)))"

definition on_adapters ::
  "('x list, 'a) wire \<Rightarrow> ('x provider_tools, 'a) wire" where
  "on_adapters f s = (case f (om_values (pv_adapters s)) of (r, xs) \<Rightarrow>
     (r, s\<lparr>pv_adapters := zip (om_keys (pv_adapters s)) xs\<rparr>))"

definition provider_decode ::
  "(tool_key, 'x provider_adapter) omap \<Rightarrow> protocol \<Rightarrow> json \<Rightarrow> json \<Rightarrow> ('x provider_tools, output_item list option) wire" where
  "provider_decode adapters p item response s =
     on_adapters (one_owner None (map (\<lambda>(key, a). provider_decode_one (pv_enabled s) key (pa_decode a p item response)) adapters)) s"

fun progress_of :: "tool_key \<Rightarrow> model_delta \<Rightarrow> bool" where
  "progress_of key (DeltaProviderToolProgress _ provider name _ _ _) = ((provider, name) = key)"
| "progress_of key _ = False"

definition provider_event_one ::
  "tool_key set \<Rightarrow> tool_key \<Rightarrow> (sse_event \<Rightarrow> ('x, sse_event \<times> model_delta list) wire)
    \<Rightarrow> sse_event \<times> model_delta list \<Rightarrow> ('x, sse_event \<times> model_delta list) wire" where
  "provider_event_one enabled key hook = (\<lambda>(event, ds).
     if key \<notin> enabled then w_return (event, ds)
     else w_bind (hook event) (\<lambda>(event', ds').
       if \<not> list_all (progress_of key) ds'
       then w_lift (Inl (Protocol ''provider adapter emitted another execution identity''))
       else w_return (event', ds @ ds')))"

definition provider_tools_extension :: "(tool_key, 'x provider_adapter) omap \<Rightarrow> 'x provider_tools extension" where
  "provider_tools_extension adapters = extension_default\<lparr>
     px_tool := provider_encode adapters,
     px_choice := (\<lambda>p tool. with_adapter adapters (spec_key tool) (\<lambda>a. pa_choice a p tool)),
     px_item := provider_decode adapters,
     px_history := (\<lambda>p call. with_adapter adapters (call_key call) (\<lambda>a. pa_replay a p call)),
     px_event := (\<lambda>p event s. on_adapters (chain_fold (map (\<lambda>(key, a). provider_event_one (pv_enabled s) key (pa_event a p))
       adapters) (event, [])) s)\<rparr>"

text \<open>The defaults of an adapter.\<close>

definition adapter_choice_default :: "protocol \<Rightarrow> provider_tool_spec \<Rightarrow> ('x, json) wire" where
  "adapter_choice_default p tool = w_lift (Inl (Invalid ''provider adapter does not define explicit tool selection''))"

definition adapter_event_default :: "protocol \<Rightarrow> sse_event \<Rightarrow> ('x, sse_event \<times> model_delta list) wire" where
  "adapter_event_default p event = w_return (event, [])"

section \<open>The calls of a provider\<close>

text \<open>
  \<open>ProviderOutput\<close> builds a provider call with the native items that replay it and the media it took out
  of them, each bound to its place in the last item.
\<close>

definition replay_key :: string where
  "replay_key = ''$zhir_provider_replay''"

record media_binding =
  bd_content_index :: nat
  bd_pointer :: string

record provider_output =
  po_call :: provider_tool_call
  po_items :: "json list"
  po_media :: "media_binding list"
  po_paths :: "string set"

definition provider_output_new :: "string \<Rightarrow> string \<Rightarrow> string \<Rightarrow> provider_tool_status \<Rightarrow> provider_output" where
  "provider_output_new provider name i status = \<lparr>po_call = \<lparr>ptc_id = i, ptc_provider = provider, ptc_name = name,
      ptc_status = status, ptc_outcome = None, ptc_output = [], ptc_data = Null\<rparr>, po_items = [], po_media = [], po_paths = {}\<rparr>"

definition output_native :: "json \<Rightarrow> provider_output \<Rightarrow> provider_output" where
  "output_native item o' = o'\<lparr>po_items := po_items o' @ [item]\<rparr>"

definition output_add :: "content \<Rightarrow> provider_output \<Rightarrow> provider_output" where
  "output_add c o' = o'\<lparr>po_call := (po_call o')\<lparr>ptc_output := ptc_output (po_call o') @ [c]\<rparr>\<rparr>"

definition content_resource :: "resource_ref \<Rightarrow> content" where
  "content_resource r = ContentResource \<lparr>ri_resource = r,
     ri_usage = \<lparr>usage_fidelity = None, usage_transforms = [], usage_extensions = []\<rparr>\<rparr>"

definition output_media :: "wire_lib \<Rightarrow> string \<Rightarrow> string \<Rightarrow> provider_output \<Rightarrow> provider_output result" where
  "output_media W pointer mime o' =
     (if po_items o' = [] then Inl (Invalid ''append a native item before binding media'')
      else let index = length (po_items o') - 1 in
        (case Option.bind (json_pointer pointer (po_items o' ! index)) json_as_str of
           None \<Rightarrow> Inl (Invalid ''media path must address a nonempty base64 string in the native item'')
         | Some [] \<Rightarrow> Inl (Invalid ''media path must address a nonempty base64 string in the native item'')
         | Some text \<Rightarrow> (case wl_unbase64 W text of
             Inl e \<Rightarrow> Inl (Protocol e)
           | Inr bytes \<Rightarrow> (let path = ''/items/'' @ dec index @ pointer;
                 source = \<lparr>res_id = ptc_id (po_call o') @ '':'' @ dec index @ '':'' @ pointer, res_media_type = mime,
                   res_name = None, res_source = Inline bytes, res_metadata = []\<rparr> in
               if path \<in> po_paths o' then Inl (Invalid ''native media path is already bound'')
               else Inr (output_add (content_resource source) (o'\<lparr>po_paths := insert path (po_paths o'),
                 po_media := po_media o' @ [\<lparr>bd_content_index = length (ptc_output (po_call o')), bd_pointer = path\<rparr>]\<rparr>))))))"

definition media_binding_json :: "media_binding \<Rightarrow> json" where
  "media_binding_json b = Object [(''content_index'', Number (PosInt (of_nat (bd_content_index b)))), (''pointer'', String (bd_pointer b))]"

definition output_finish :: "provider_output \<Rightarrow> output_item result" where
  "output_finish o' = (let call = (po_call o')\<lparr>ptc_data := Object [(replay_key,
       Object [(''items'', Array (po_items o')), (''media'', Array (map media_binding_json (po_media o')))])]\<rparr> in
     r_bind (validate_output [ProviderToolCall call]) (\<lambda>_. Inr (ProviderToolCall call)))"

text \<open>\<open>replay\<close>: \<open>decode\<close> is the conversion of \<open>Serde\<close> for the stored items and bindings.\<close>

definition provider_replay :: "(json \<Rightarrow> string + json list) \<Rightarrow> provider_tool_call \<Rightarrow> json list result" where
  "provider_replay decode call = (case json_get replay_key (ptc_data call) of
       None \<Rightarrow> Inl (Invalid ''provider call has no canonical replay payload'')
     | Some v \<Rightarrow> (case decode v of Inl e \<Rightarrow> Inl (Protocol (''invalid provider replay: '' @ e)) | Inr items \<Rightarrow> Inr items))"

section \<open>Owners\<close>

text \<open>When at most one member answers, \<open>one_owner\<close> gives its answer and each member has seen the item once.\<close>

lemma one_owner_found:
  assumes "one_owner found hooks xs = (Gives r, xs')" and "length hooks = length xs"
  shows "length xs' = length xs
    \<and> (\<exists>vs. length vs = length hooks \<and> (\<forall>i < length hooks. (hooks ! i) (xs ! i) = (Gives (vs ! i), xs' ! i))
       \<and> filter (\<lambda>v. v \<noteq> None) (found # vs) = (if r = None then [] else [r]))"
  using assms
proof (induction found hooks xs arbitrary: r xs' rule: one_owner.induct)
  case (1 found hook hooks x xs)
  obtain v x' where v: "hook x = (Gives v, x')"
    using 1(2) by (cases "hook x"; cases "fst (hook x)") auto
  have one: "\<not> (v \<noteq> None \<and> found \<noteq> None)"
    using 1(2) v by (cases "v \<noteq> None \<and> found \<noteq> None") simp_all
  let ?found = "if v = None then found else v"
  obtain ys where ys: "one_owner ?found hooks xs = (Gives r, ys)" "xs' = x' # ys"
    using 1(2) v one by (auto split: prod.splits)
  obtain vs where vs: "length ys = length xs" "length vs = length hooks"
      "\<forall>i < length hooks. (hooks ! i) (xs ! i) = (Gives (vs ! i), ys ! i)"
      "filter (\<lambda>v. v \<noteq> None) (?found # vs) = (if r = None then [] else [r])"
    using 1(1) [OF v [symmetric] refl one ys(1)] 1(3) by auto
  have "\<forall>i < length (hook # hooks). ((hook # hooks) ! i) ((x # xs) ! i) = (Gives ((v # vs) ! i), xs' ! i)"
    using vs(3) v ys(2) by (auto simp: nth_Cons split: nat.splits)
  moreover have "filter (\<lambda>v. v \<noteq> None) (found # v # vs) = (if r = None then [] else [r])"
    using vs(4) one by (auto split: if_splits)
  ultimately show ?case using vs(1,2) ys(2) by (intro conjI exI [of _ "v # vs"]) simp_all
qed auto

end
