(* ===== verification/Codec.thy ===== *)
theory Codec
  imports Wire_Extensions
begin

text \<open>
  The codecs of the three protocols, \<open>zhir-models/src/codec\<close>: requests as the JSON bodies of the services
  (\<open>chat.rs\<close>, \<open>messages.rs\<close>, \<open>responses.rs\<close>, \<open>http.rs\<close>), responses as generation outputs, and the replay of a
  response in later requests (\<open>replay.rs\<close>). The lemmas show that what a service returned is what it is sent
  back.
\<close>

section \<open>JSON\<close>

definition json_obj :: "(string \<times> json) list \<Rightarrow> json" where
  "json_obj kvs = Object (foldl (\<lambda>m (k, v). om_insert k v m) [] kvs)"

text \<open>\<open>value[key] = v\<close> on an object, and the replacement of a value that is there.\<close>

fun json_ins :: "string \<Rightarrow> json \<Rightarrow> json \<Rightarrow> json" where
  "json_ins k v (Object m) = Object (om_insert k v m)"
| "json_ins k v j = j"

fun json_replace :: "string \<Rightarrow> json \<Rightarrow> json \<Rightarrow> json" where
  "json_replace k v (Object m) = Object (om_modify k (\<lambda>_. v) m)"
| "json_replace k v j = j"

definition json_u64_value :: "u64 \<Rightarrow> json" where
  "json_u64_value n = Number (PosInt n)"

definition json_i64_value :: "64 word \<Rightarrow> json" where
  "json_i64_value n = Number (if sint n < 0 then NegInt n else PosInt n)"

definition json_f64_value :: "64 word \<Rightarrow> json" where
  "json_f64_value n = (if f64_is_finite n then Number (Float n) else Null)"

definition json_option :: "string option \<Rightarrow> json" where
  "json_option s = (case s of None \<Rightarrow> Null | Some t \<Rightarrow> String t)"

definition json_text :: "json \<Rightarrow> string \<Rightarrow> string result" where
  "json_text v k = ok_or (Protocol (''missing '' @ k)) (json_str k v)"

fun protocol_key :: "protocol \<Rightarrow> string" where
  "protocol_key ProtocolChat = ''chat''"
| "protocol_key ProtocolResponses = ''responses''"
| "protocol_key ProtocolMessages = ''messages''"

section \<open>Content\<close>

definition data_url :: "wire_lib \<Rightarrow> resource_ref \<Rightarrow> string result" where
  "data_url W r = (case res_source r of
       Url url \<Rightarrow> Inr url
     | Inline bytes \<Rightarrow> Inr (''data:'' @ res_media_type r @ '';base64,'' @ wl_base64 W bytes)
     | _ \<Rightarrow> Inl (Invalid ''resource requires resolution or provider-native encoding''))"

fun fidelity_detail :: "fidelity \<Rightarrow> string" where
  "fidelity_detail FidelityEconomy = ''low''"
| "fidelity_detail FidelityHigh = ''high''"
| "fidelity_detail FidelityOriginal = ''original''"

definition input_detail :: "resource_input \<Rightarrow> string option" where
  "input_detail input = map_option (\<lambda>r. fidelity_detail (requirement_value r)) (usage_fidelity (ri_usage input))"

definition with_detail :: "resource_input \<Rightarrow> json \<Rightarrow> json" where
  "with_detail input v = (case input_detail input of None \<Rightarrow> v | Some d \<Rightarrow> json_ins ''detail'' (String d) v)"

fun extend_resource :: "(string \<times> json) list \<Rightarrow> json \<Rightarrow> json result" where
  "extend_resource [] target = Inr target"
| "extend_resource ((k, v) # kvs) target =
     (if json_get k target \<noteq> None then Inl (Invalid (''resource extension overrides controlled field '' @ k))
      else extend_resource kvs (json_ins k v target))"

definition resource_extensions :: "resource_input \<Rightarrow> protocol \<Rightarrow> json \<Rightarrow> json result" where
  "resource_extensions input p target = (case om_get (usage_extensions (ri_usage input)) (protocol_key p) of
       None \<Rightarrow> Inr target | Some kvs \<Rightarrow> extend_resource kvs target)"

definition last_part :: "string \<Rightarrow> string" where
  "last_part s = last (split_slash s)"

definition chat_resource :: "wire_lib \<Rightarrow> resource_input \<Rightarrow> json result" where
  "chat_resource W input = (let r = ri_resource input; modality = resource_modality r in
     if modality = ''image'' then r_bind (data_url W r) (\<lambda>url.
       Inr (json_obj [(''type'', String ''image_url''), (''image_url'', with_detail input (json_obj [(''url'', String url)]))]))
     else if modality = ''file'' then r_bind (data_url W r) (\<lambda>url.
       Inr (json_obj [(''type'', String ''file''),
         (''file'', json_obj [(''filename'', json_option (res_name r)), (''file_data'', String url)])]))
     else if modality = ''audio'' then (case res_source r of
         Inline bytes \<Rightarrow> Inr (json_obj [(''type'', String ''input_audio''), (''input_audio'',
           json_obj [(''data'', String (wl_base64 W bytes)), (''format'', String (last_part (res_media_type r)))])])
       | _ \<Rightarrow> Inl (Invalid ''chat audio requires inline binary input''))
     else Inl (Invalid ''unsupported resource modality''))"

definition messages_resource :: "wire_lib \<Rightarrow> resource_input \<Rightarrow> json result" where
  "messages_resource W input = (let r = ri_resource input; modality = resource_modality r in
     r_bind (case res_source r of
         Url url \<Rightarrow> Inr (json_obj [(''type'', String ''url''), (''url'', String url)])
       | Inline bytes \<Rightarrow> Inr (json_obj [(''type'', String ''base64''), (''media_type'', String (res_media_type r)),
           (''data'', String (wl_base64 W bytes))])
       | _ \<Rightarrow> Inl (Invalid ''resource must be resolved before encoding'')) (\<lambda>source.
     if modality = ''image'' then Inr (json_obj [(''type'', String ''image''), (''source'', source)])
     else if modality = ''file'' then Inr (json_obj [(''type'', String ''document''), (''source'', source),
       (''title'', json_option (res_name r))])
     else Inl (Invalid ''unsupported resource modality'')))"

definition responses_resource :: "wire_lib \<Rightarrow> resource_input \<Rightarrow> json result" where
  "responses_resource W input = (let r = ri_resource input; modality = resource_modality r in
     if modality = ''image'' then r_bind (data_url W r) (\<lambda>url.
       Inr (with_detail input (json_obj [(''type'', String ''input_image''), (''image_url'', String url)])))
     else if modality = ''file'' then (case res_source r of
         Url url \<Rightarrow> Inr (json_obj [(''type'', String ''input_file''), (''file_url'', String url)])
       | ProviderResource _ reference \<Rightarrow> Inr (json_obj [(''type'', String ''input_file''), (''file_id'', reference)])
       | _ \<Rightarrow> r_bind (data_url W r) (\<lambda>url. Inr (json_obj [(''type'', String ''input_file''),
           (''filename'', json_option (res_name r)), (''file_data'', String url)])))
     else Inl (Invalid ''unsupported resource modality''))"

fun resource_value :: "wire_lib \<Rightarrow> protocol \<Rightarrow> resource_input \<Rightarrow> json result" where
  "resource_value W ProtocolChat input = chat_resource W input"
| "resource_value W ProtocolMessages input = messages_resource W input"
| "resource_value W ProtocolResponses input = responses_resource W input"

fun text_type :: "protocol \<Rightarrow> bool \<Rightarrow> string" where
  "text_type ProtocolResponses output = (if output then ''output_text'' else ''input_text'')"
| "text_type _ output = ''text''"

fun content_value :: "wire_lib \<Rightarrow> protocol \<Rightarrow> bool \<Rightarrow> content \<Rightarrow> json result" where
  "content_value W p output (Text t) = Inr (json_obj [(''type'', String (text_type p output)), (''text'', String t)])"
| "content_value W p output (Opaque _ data) = Inr data"
| "content_value W p output (ContentResource input) =
     r_bind (resource_value W p input) (resource_extensions input p)"

fun r_map :: "('a \<Rightarrow> 'b result) \<Rightarrow> 'a list \<Rightarrow> 'b list result" where
  "r_map f [] = Inr []"
| "r_map f (a # as) = r_bind (f a) (\<lambda>b. r_bind (r_map f as) (\<lambda>bs. Inr (b # bs)))"

definition content_parts :: "wire_lib \<Rightarrow> protocol \<Rightarrow> bool \<Rightarrow> content list \<Rightarrow> json list result" where
  "content_parts W p output = r_map (content_value W p output)"

fun result_parts :: "operation_outcome \<Rightarrow> content list" where
  "result_parts (OutcomeFailure e) = [Text (failure_message e)]"
| "result_parts outcome = outcome_content outcome"

definition result_content :: "wire_lib \<Rightarrow> protocol \<Rightarrow> operation_outcome \<Rightarrow> json result" where
  "result_content W p outcome = (let content = result_parts outcome in
     if list_all (\<lambda>c. content_as_text c \<noteq> None) content
     then Inr (String (join_lines (List.map_filter content_as_text content)))
     else r_bind (content_parts W p False content) (\<lambda>vs. Inr (Array vs)))"

definition call_input :: "wire_lib \<Rightarrow> runtime_tool_call \<Rightarrow> string" where
  "call_input W call = (case rtc_input call of Structured v \<Rightarrow> wl_render W v | Freeform s \<Rightarrow> s)"

section \<open>Replay\<close>

text \<open>The hooks of an extension that may be absent: \<open>None\<close> is the session without one.\<close>

definition hook :: "'x extension option \<Rightarrow> ('x extension \<Rightarrow> ('x, 'a option) wire) \<Rightarrow> ('x, 'a option) wire" where
  "hook E f = (case E of None \<Rightarrow> w_return None | Some e \<Rightarrow> f e)"

definition replay_position :: string where
  "replay_position = ''$zhir_provider_calls''"

definition provider_history ::
  "'x extension option \<Rightarrow> protocol \<Rightarrow> provider_tool_call \<Rightarrow> ('x, json list) wire" where
  "provider_history E p call = w_bind (hook E (\<lambda>e. px_history e p call)) (\<lambda>found.
     w_lift (ok_or (Invalid (''no replay adapter for '' @ ptc_provider call @ ''/'' @ ptc_name call)) found))"

fun provider_calls :: "output_item list \<Rightarrow> provider_tool_call list" where
  "provider_calls [] = []"
| "provider_calls (ProviderToolCall call # items) = call # provider_calls items"
| "provider_calls (_ # items) = provider_calls items"

text \<open>A map collected from pairs keeps the last value of a key.\<close>

definition find_call :: "provider_tool_call list \<Rightarrow> string \<Rightarrow> provider_tool_call option" where
  "find_call calls i = find (\<lambda>c. ptc_id c = i) (rev calls)"

fun replay_ids ::
  "'x extension option \<Rightarrow> protocol \<Rightarrow> provider_tool_call list \<Rightarrow> json list \<Rightarrow> string list
    \<Rightarrow> ('x, json list \<times> string list) wire" where
  "replay_ids E p calls [] seen = w_return ([], seen)"
| "replay_ids E p calls (v # ids) seen =
     w_bind (w_lift (ok_or (Protocol ''provider replay call id must be a string'') (json_as_str v))) (\<lambda>i.
     w_bind (w_lift (ok_or (Protocol ''provider replay mapping references an absent call'') (find_call calls i))) (\<lambda>call.
     if i \<in> set seen then w_lift (Inl (Protocol ''provider call has multiple native replay positions''))
     else w_bind (provider_history E p call) (\<lambda>values.
       w_bind (replay_ids E p calls ids (i # seen)) (\<lambda>(rest, seen'). w_return (values @ rest, seen')))))"

fun replay_list ::
  "'x extension option \<Rightarrow> protocol \<Rightarrow> provider_tool_call list \<Rightarrow> json list \<Rightarrow> string list
    \<Rightarrow> ('x, json list \<times> string list) wire" where
  "replay_list E p calls [] seen = w_return ([], seen)"
| "replay_list E p calls (item # items) seen = (case json_get replay_position item of
       None \<Rightarrow> w_bind (replay_list E p calls items seen) (\<lambda>(rest, seen'). w_return (item # rest, seen'))
     | Some ids \<Rightarrow>
         if none_or (\<lambda>m. length m \<noteq> 1) (json_as_object item) then w_lift (Inl (Protocol ''invalid provider replay position''))
         else w_bind (w_lift (ok_or (Protocol ''provider replay mapping must contain call ids'') (json_as_array ids))) (\<lambda>ids.
           w_bind (replay_ids E p calls ids seen) (\<lambda>(values, seen').
           w_bind (replay_list E p calls items seen') (\<lambda>(rest, seen''). w_return (values @ rest, seen'')))))"

definition replay_items ::
  "'x extension option \<Rightarrow> protocol \<Rightarrow> json list \<Rightarrow> output_item list \<Rightarrow> ('x, json list) wire" where
  "replay_items E p items output = (let calls = provider_calls output in
     w_bind (replay_list E p calls items []) (\<lambda>(values, seen).
       if length seen \<noteq> card (set (map ptc_id calls))
       then w_lift (Inl (Protocol ''provider call has no native replay position'')) else w_return values))"

text \<open>Where the items to replay are in a response.\<close>

fun native_items :: "protocol \<Rightarrow> json \<Rightarrow> json list option" where
  "native_items ProtocolChat response = map_option (\<lambda>m. [m]) (json_pointer ''/choices/0/message'' response)"
| "native_items ProtocolMessages response = Option.bind (json_get ''content'' response) json_as_array"
| "native_items ProtocolResponses response = Option.bind (json_get ''output'' response) json_as_array"

definition assistant_replay ::
  "'x extension option \<Rightarrow> protocol \<Rightarrow> output_item list \<Rightarrow> json \<Rightarrow> ('x, json list option) wire" where
  "assistant_replay E p output data =
     (if json_str ''protocol'' data \<noteq> Some (protocol_key p) then w_return None
      else (case native_items p (json_index ''response'' data) of
         None \<Rightarrow> w_return None
       | Some items \<Rightarrow> w_bind (replay_items E p items output) (\<lambda>vs. w_return (Some vs))))"

section \<open>Reading responses\<close>

record decoded =
  dc_output :: "output_item list"
  dc_replay :: json
  dc_pending :: bool

definition parse_content :: "string \<Rightarrow> json \<Rightarrow> output_item result" where
  "parse_content provider v = (let kind = str_or_empty ''type'' v in
     if kind = ''text'' \<or> kind = ''output_text'' then r_bind (json_text v ''text'') (\<lambda>t. Inr (OutputContent (Text t)))
     else if kind = ''refusal'' then r_bind (json_text v ''refusal'') (\<lambda>t. Inr (OutputContent (Text t)))
     else Inr (OutputContent (Opaque provider v)))"

definition protocol_error :: "string + 'a \<Rightarrow> 'a result" where
  "protocol_error r = (case r of Inl m \<Rightarrow> Inl (Protocol m) | Inr v \<Rightarrow> Inr v)"

definition chat_decode_call :: "wire_lib \<Rightarrow> json \<Rightarrow> output_item result" where
  "chat_decode_call W call =
     r_bind (ok_or (Protocol ''missing function'') (json_get ''function'' call)) (\<lambda>f.
     r_bind (json_text call ''id'') (\<lambda>i.
     r_bind (json_text f ''name'') (\<lambda>name.
     r_bind (json_text f ''arguments'') (\<lambda>raw.
     r_bind (protocol_error (wl_parse W raw)) (\<lambda>v.
       Inr (RuntimeToolCall \<lparr>rtc_id = i, rtc_name = name, rtc_input = Structured v\<rparr>))))))"

definition chat_decode :: "wire_lib \<Rightarrow> json \<Rightarrow> decoded result" where
  "chat_decode W v = r_bind (ok_or (Protocol ''missing chat message'') (json_pointer ''/choices/0/message'' v)) (\<lambda>m.
     r_bind (case json_get ''content'' m of
         Some (String t) \<Rightarrow> Inr [OutputContent (Text t)]
       | Some (Array parts) \<Rightarrow> r_map (parse_content ''openai'') parts
       | _ \<Rightarrow> Inr []) (\<lambda>content.
     r_bind (case Option.bind (json_get ''tool_calls'' m) json_as_array of
         None \<Rightarrow> Inr [] | Some cs \<Rightarrow> r_map (chat_decode_call W) cs) (\<lambda>calls.
       Inr \<lparr>dc_output = (case json_str ''reasoning_content'' m of None \<Rightarrow> []
             | Some t \<Rightarrow> [OutputContent (Opaque ''openai'' (json_obj [(''type'', String ''reasoning''), (''text'', String t)]))])
           @ content @ calls, dc_replay = v, dc_pending = False\<rparr>)))"

definition mark_position :: "output_item list \<Rightarrow> json \<Rightarrow> json result" where
  "mark_position output position = (let ids = map ptc_id (provider_calls output) in
     if ids = [] \<and> output \<noteq> [] then Inr position
     else if length ids \<noteq> length output
       then Inl (Protocol ''one native item cannot mix provider and other output ownership'')
     else Inr (json_obj [(replay_position, Array (map String ids))]))"

fun decode_list ::
  "'x extension option \<Rightarrow> protocol \<Rightarrow> (json \<Rightarrow> unit result) \<Rightarrow> (json \<Rightarrow> output_item list result) \<Rightarrow> json \<Rightarrow> json list
    \<Rightarrow> ('x, output_item list \<times> json list) wire" where
  "decode_list E p check native v [] = w_return ([], [])"
| "decode_list E p check native v (item # items) =
     w_bind (w_lift (check item)) (\<lambda>_.
     w_bind (hook E (\<lambda>e. px_item e p item v)) (\<lambda>mapped.
     w_bind (case mapped of
         Some output \<Rightarrow> w_bind (w_lift (mark_position output item)) (\<lambda>position. w_return (output, position))
       | None \<Rightarrow> w_bind (w_lift (native item)) (\<lambda>output. w_return (output, item))) (\<lambda>(output, position).
     w_bind (decode_list E p check native v items) (\<lambda>(outputs, positions).
       w_return (output @ outputs, position # positions)))))"

definition decode_items ::
  "'x extension option \<Rightarrow> protocol \<Rightarrow> (json \<Rightarrow> unit result) \<Rightarrow> (json \<Rightarrow> output_item list result) \<Rightarrow> string \<Rightarrow> json
    \<Rightarrow> ('x, decoded) wire" where
  "decode_items E p check native key v =
     w_bind (w_lift (ok_or (Protocol (''missing '' @ key)) (Option.bind (json_get key v) json_as_array))) (\<lambda>items.
     w_bind (decode_list E p check native v items) (\<lambda>(output, positions).
       w_return \<lparr>dc_output = output, dc_replay = json_replace key (Array positions) v, dc_pending = False\<rparr>))"

definition has_suffix :: "string \<Rightarrow> string \<Rightarrow> bool" where
  "has_suffix suffix s = (length suffix \<le> length s \<and> drop (length s - length suffix) s = suffix)"

definition messages_item :: "json \<Rightarrow> output_item list result" where
  "messages_item item = (let kind = str_or_empty ''type'' item in
     if kind = ''tool_use'' then
       r_bind (json_text item ''id'') (\<lambda>i. r_bind (json_text item ''name'') (\<lambda>name.
       r_bind (ok_or (Protocol ''missing tool input'') (json_get ''input'' item)) (\<lambda>v.
         Inr [RuntimeToolCall \<lparr>rtc_id = i, rtc_name = name, rtc_input = Structured v\<rparr>])))
     else if kind \<in> {''text'', ''thinking'', ''redacted_thinking'', ''image'', ''document''} then
       r_bind (parse_content ''anthropic'' item) (\<lambda>o'. Inr [o'])
     else if kind = ''server_tool_use'' \<or> has_suffix ''_tool_result'' kind
       then Inl (Protocol (''unmapped execution item: '' @ kind))
     else Inl (Protocol (''unmapped execution or content item: '' @ kind)))"

definition messages_decode :: "'x extension option \<Rightarrow> json \<Rightarrow> ('x, decoded) wire" where
  "messages_decode E v = w_bind (decode_items E ProtocolMessages (\<lambda>_. Inr ()) messages_item ''content'' v) (\<lambda>d.
     w_return (d\<lparr>dc_pending := (json_str ''stop_reason'' v = Some ''pause_turn'')\<rparr>))"

definition responses_item :: "wire_lib \<Rightarrow> json \<Rightarrow> output_item list result" where
  "responses_item W item = r_bind (json_text item ''type'') (\<lambda>kind.
     if kind = ''message'' then
       r_bind (ok_or (Protocol ''missing message content'') (Option.bind (json_get ''content'' item) json_as_array))
         (r_map (parse_content ''openai''))
     else if kind = ''function_call'' then
       r_bind (json_text item ''call_id'') (\<lambda>i. r_bind (json_text item ''name'') (\<lambda>name.
       r_bind (json_text item ''arguments'') (\<lambda>raw. r_bind (protocol_error (wl_parse W raw)) (\<lambda>v.
         Inr [RuntimeToolCall \<lparr>rtc_id = i, rtc_name = name, rtc_input = Structured v\<rparr>]))))
     else if kind = ''custom_tool_call'' then
       r_bind (json_text item ''call_id'') (\<lambda>i. r_bind (json_text item ''name'') (\<lambda>name.
       r_bind (json_text item ''input'') (\<lambda>s.
         Inr [RuntimeToolCall \<lparr>rtc_id = i, rtc_name = name, rtc_input = Freeform s\<rparr>])))
     else if kind = ''reasoning'' \<or> kind = ''compaction'' then Inr [OutputContent (Opaque ''openai'' item)]
     else Inl (Protocol (''unmapped execution or output item: '' @ kind)))"

definition responses_decode :: "'x extension option \<Rightarrow> wire_lib \<Rightarrow> json \<Rightarrow> ('x, decoded) wire" where
  "responses_decode E W = decode_items E ProtocolResponses (\<lambda>item. r_bind (json_text item ''type'') (\<lambda>_. Inr ()))
     (responses_item W) ''output''"

fun adapter_decode :: "'x extension option \<Rightarrow> wire_lib \<Rightarrow> protocol \<Rightarrow> json \<Rightarrow> ('x, decoded) wire" where
  "adapter_decode E W ProtocolChat v = w_lift (chat_decode W v)"
| "adapter_decode E W ProtocolMessages v = messages_decode E v"
| "adapter_decode E W ProtocolResponses v = responses_decode E W v"

fun finish_reason :: "protocol \<Rightarrow> json \<Rightarrow> json option" where
  "finish_reason ProtocolChat v = json_pointer ''/choices/0/finish_reason'' v"
| "finish_reason ProtocolMessages v = json_get ''stop_reason'' v"
| "finish_reason ProtocolResponses v = json_get ''status'' v"

definition response_status_of :: "string option \<Rightarrow> bool \<Rightarrow> response_status" where
  "response_status_of reason pending =
     (if reason = Some ''failed'' then RespFailed
      else if reason = Some ''cancelled'' then RespCancelled
      else if reason \<in> {Some ''incomplete'', Some ''length'', Some ''max_tokens'', Some ''content_filter''} then RespIncomplete
      else if pending then RespContinuation else RespCompleted)"

definition codec_decode :: "'x extension option \<Rightarrow> wire_lib \<Rightarrow> protocol \<Rightarrow> json \<Rightarrow> ('x, generation_output) wire" where
  "codec_decode E W p v =
     w_bind (w_lift (case json_get ''error'' v of None \<Rightarrow> Inr ()
       | Some e \<Rightarrow> fail_if (\<not> json_is_null e) (Protocol (wl_render W e)))) (\<lambda>_.
     w_bind (adapter_decode E W p v) (\<lambda>d.
     let pending = (dc_pending d \<or> (\<exists>item \<in> set (dc_output d). output_provider_pending item));
         reason = Option.bind (finish_reason p v) json_as_str in
       w_return \<lparr>go_output = dc_output d, go_usage = codec_usage p (json_index ''usage'' v),
         go_status = response_status_of reason pending,
         go_provider_data = json_obj [(''protocol'', String (protocol_key p)), (''response'', dc_replay d)],
         go_model_id = json_str ''model'' v, go_response_id = json_str ''id'' v, go_finish_reason = reason\<rparr>))"

section \<open>Writing requests\<close>

definition structured_schema :: "runtime_tool_spec \<Rightarrow> json result" where
  "structured_schema spec = (case rts_input spec of StructuredSpec schema \<Rightarrow> Inr schema
     | FreeformSpec _ \<Rightarrow> Inl (Invalid ''freeform tool unsupported by protocol''))"

fun runtime_tool_value :: "protocol \<Rightarrow> runtime_tool_spec \<Rightarrow> json result" where
  "runtime_tool_value ProtocolChat spec = r_bind (structured_schema spec) (\<lambda>schema. Inr (json_obj [(''type'', String ''function''),
     (''function'', json_obj [(''name'', String (rts_name spec)), (''description'', String (rts_description spec)), (''parameters'', schema)])]))"
| "runtime_tool_value ProtocolMessages spec = r_bind (structured_schema spec) (\<lambda>schema. Inr (json_obj [(''name'', String (rts_name spec)),
     (''description'', String (rts_description spec)), (''input_schema'', schema)]))"
| "runtime_tool_value ProtocolResponses spec = Inr (case rts_input spec of
       StructuredSpec schema \<Rightarrow> json_obj [(''type'', String ''function''), (''name'', String (rts_name spec)),
         (''description'', String (rts_description spec)), (''parameters'', schema), (''strict'', Bool False)]
     | FreeformSpec format \<Rightarrow> (let v = json_obj [(''type'', String ''custom''), (''name'', String (rts_name spec)),
           (''description'', String (rts_description spec))] in
         case format of None \<Rightarrow> v | Some f \<Rightarrow> json_ins ''format'' f v))"

fun choice_value :: "protocol \<Rightarrow> runtime_tool_spec list \<Rightarrow> tool_choice \<Rightarrow> json result" where
  "choice_value p tools (ChoiceProviderTool _ _) = Inl (Invalid ''unsupported tool selection'')"
| "choice_value ProtocolMessages tools ChoiceAuto = Inr (json_obj [(''type'', String ''auto'')])"
| "choice_value ProtocolMessages tools ChoiceNone = Inr (json_obj [(''type'', String ''none'')])"
| "choice_value ProtocolMessages tools ChoiceRequired = Inr (json_obj [(''type'', String ''any'')])"
| "choice_value ProtocolMessages tools (ChoiceRuntimeTool name) = Inr (json_obj [(''type'', String ''tool''), (''name'', String name)])"
| "choice_value ProtocolChat tools (ChoiceRuntimeTool name) =
     Inr (json_obj [(''type'', String ''function''), (''function'', json_obj [(''name'', String name)])])"
| "choice_value ProtocolResponses tools (ChoiceRuntimeTool name) =
     Inr (json_obj [(''type'', String (if \<exists>t \<in> set tools. rts_name t = name
         \<and> (case rts_input t of FreeformSpec _ \<Rightarrow> True | StructuredSpec _ \<Rightarrow> False) then ''custom'' else ''function'')),
       (''name'', String name)])"
| "choice_value p tools ChoiceAuto = Inr (String ''auto'')"
| "choice_value p tools ChoiceNone = Inr (String ''none'')"
| "choice_value p tools ChoiceRequired = Inr (String ''required'')"

definition tool_choice_value :: "'x extension option \<Rightarrow> protocol \<Rightarrow> model_request \<Rightarrow> ('x, json) wire" where
  "tool_choice_value E p request = (case mr_tool_choice request of
       ChoiceProviderTool provider name \<Rightarrow>
         w_bind (w_lift (ok_or (Invalid ''selected provider tool is unavailable'')
           (find (\<lambda>s. spec_key s = (provider, name)) (mr_provider_tools request)))) (\<lambda>spec.
         w_bind (hook E (\<lambda>e. px_choice e p spec)) (\<lambda>found.
           w_lift (ok_or (Invalid ''provider adapter does not encode explicit selection'') found)))
     | choice \<Rightarrow> w_lift (choice_value p (mr_runtime_tools request) choice))"

definition provider_tool_value :: "'x extension option \<Rightarrow> protocol \<Rightarrow> provider_tool_spec \<Rightarrow> ('x, json) wire" where
  "provider_tool_value E p tool = w_bind (hook E (\<lambda>e. px_tool e p tool)) (\<lambda>found.
     w_bind (w_lift (ok_or (Invalid (''no provider adapter for '' @ pts_provider tool @ ''/'' @ pts_name tool)) found)) (\<lambda>v.
       w_lift (if json_is_object v then Inr v else Inl (Invalid ''provider declaration must be an object''))))"

fun merge_extra :: "json \<Rightarrow> json \<Rightarrow> string \<Rightarrow> json result"
  and merge_entries :: "(string \<times> json) list \<Rightarrow> (string \<times> json) list \<Rightarrow> string \<Rightarrow> (string \<times> json) list result" where
  "merge_extra encoded (Object extra) path = (case encoded of
       Object m \<Rightarrow> r_bind (merge_entries m extra path) (\<lambda>m'. Inr (Object m'))
     | _ \<Rightarrow> Inl (Invalid (''extra option overrides controlled field '' @ path)))"
| "merge_extra encoded _ path = Inl (Invalid (''extra option overrides controlled field '' @ path))"
| "merge_entries m [] path = Inr m"
| "merge_entries m ((k, v) # kvs) path = (case om_get m k of
       None \<Rightarrow> merge_entries (om_insert k v m) kvs path
     | Some existing \<Rightarrow> r_bind (merge_extra existing v (path @ ''.'' @ k)) (\<lambda>x. merge_entries (om_modify k (\<lambda>_. x) m) kvs path))"

definition controlled_options :: "string list" where
  "controlled_options = [''input'', ''messages'', ''tools'', ''tool_choice'', ''system'']"

fun add_options :: "(string \<times> json) list \<Rightarrow> json \<Rightarrow> json result" where
  "add_options [] body = Inr body"
| "add_options ((k, v) # kvs) body =
     (if k \<in> set controlled_options then Inl (Invalid (''extra option overrides controlled field '' @ k))
      else (case json_get k body of
          Some existing \<Rightarrow> r_bind (merge_extra existing v k) (\<lambda>x. add_options kvs (json_ins k x body))
        | None \<Rightarrow> add_options kvs (json_ins k v body)))"

fun parallel_option :: "protocol \<Rightarrow> bool \<Rightarrow> json \<Rightarrow> json option" where
  "parallel_option ProtocolMessages parallel body =
     (if json_get ''tool_choice'' body \<noteq> None
      then json_upd ''tool_choice'' (json_put ''disable_parallel_tool_use'' (Bool (\<not> parallel))) body else Some body)"
| "parallel_option _ parallel body = Some (json_ins ''parallel_tool_calls'' (Bool parallel) body)"

definition finish_request ::
  "'x extension option \<Rightarrow> protocol \<Rightarrow> model_request \<Rightarrow> json \<Rightarrow> json list \<Rightarrow> ('x, json) wire" where
  "finish_request E p request body tools = (let generation = rp_generation (mr_profile request) in
     w_bind (w_map (provider_tool_value E p) (mr_provider_tools request)) (\<lambda>declared.
     w_bind (if tools @ declared = [] then w_return body
       else w_bind (tool_choice_value E p request) (\<lambda>choice.
         w_return (json_ins ''tool_choice'' choice (json_ins ''tools'' (Array (tools @ declared)) body)))) (\<lambda>body.
     let body = (case gp_temperature generation of None \<Rightarrow> body | Some t \<Rightarrow> json_ins ''temperature'' (json_f64_value t) body);
         body = (case gp_seed generation of None \<Rightarrow> body | Some n \<Rightarrow> json_ins ''seed'' (json_i64_value n) body) in
     w_bind (w_attempt (a_written (case gp_parallel_runtime_tools generation of
         None \<Rightarrow> Some body | Some b \<Rightarrow> parallel_option p b body))) (\<lambda>body.
       w_lift (add_options (case om_get (rp_extensions (mr_profile request)) (protocol_key p) of None \<Rightarrow> [] | Some kvs \<Rightarrow> kvs) body)))))"

end
