(* ===== verification/Codec_Requests.thy ===== *)
theory Codec_Requests
  imports Codec
begin

text \<open>
  The bodies of requests: the messages of the three protocols with the results of tools where each wants
  them, and the theorem on replay: an assistant message that came from a response is sent as the items of
  that response, and what an extension took over is sent as its own history.
\<close>

section \<open>Chat completions\<close>

text \<open>The contents, the calls and what precedes the message.\<close>

fun chat_assistant_items ::
  "'x extension option \<Rightarrow> wire_lib \<Rightarrow> output_item list \<Rightarrow> ('x, json list \<times> json list \<times> json list) wire" where
  "chat_assistant_items E W [] = w_return ([], [], [])"
| "chat_assistant_items E W (item # items) = w_bind (case item of
       Delegation _ \<Rightarrow> w_lift (Inl (Invalid ''protocol does not accept delegation calls''))
     | OutputContent c \<Rightarrow> w_bind (w_lift (content_value W ProtocolChat True c)) (\<lambda>v. w_return ([v], [], []))
     | RuntimeToolCall call \<Rightarrow> w_return ([], [json_obj [(''id'', String (rtc_id call)), (''type'', String ''function''),
         (''function'', json_obj [(''name'', String (rtc_name call)), (''arguments'', String (call_input W call))])]], [])
     | ProviderToolCall call \<Rightarrow> w_bind (provider_history E ProtocolChat call) (\<lambda>vs. w_return ([], [], vs)))
     (\<lambda>(a, b, c). w_bind (chat_assistant_items E W items) (\<lambda>(as, bs, cs). w_return (a @ as, b @ bs, c @ cs)))"

definition chat_assistant :: "'x extension option \<Rightarrow> wire_lib \<Rightarrow> output_item list \<Rightarrow> ('x, json list) wire" where
  "chat_assistant E W output = w_bind (chat_assistant_items E W output) (\<lambda>(contents, calls, vs).
     let m = json_obj [(''role'', String ''assistant''), (''content'', Array contents)] in
     w_return (vs @ [if calls = [] then m else json_ins ''tool_calls'' (Array calls) m]))"

definition role_message :: "wire_lib \<Rightarrow> protocol \<Rightarrow> string \<Rightarrow> content list \<Rightarrow> json result" where
  "role_message W p role cs = r_bind (content_parts W p False cs) (\<lambda>vs.
     Inr (json_obj [(''role'', String role), (''content'', Array vs)]))"

fun chat_message :: "'x extension option \<Rightarrow> wire_lib \<Rightarrow> message \<Rightarrow> ('x, json list) wire" where
  "chat_message E W (DelegationResult _ _) = w_lift (Inl (Invalid ''protocol does not accept delegation history''))"
| "chat_message E W (System cs) = w_bind (w_lift (role_message W ProtocolChat ''system'' cs)) (\<lambda>v. w_return [v])"
| "chat_message E W (User cs) = w_bind (w_lift (role_message W ProtocolChat ''user'' cs)) (\<lambda>v. w_return [v])"
| "chat_message E W (External cs) = w_bind (w_lift (role_message W ProtocolChat ''user'' cs)) (\<lambda>v. w_return [v])"
| "chat_message E W (Assistant output data) = w_bind (assistant_replay E ProtocolChat output data) (\<lambda>found.
     case found of Some vs \<Rightarrow> w_return vs | None \<Rightarrow> chat_assistant E W output)"
| "chat_message E W (RuntimeTool call_id _ outcome) = w_bind (w_lift (result_content W ProtocolChat outcome)) (\<lambda>v.
     w_return [json_obj [(''role'', String ''tool''), (''tool_call_id'', String call_id), (''content'', v)]])"

definition chat_encode :: "'x extension option \<Rightarrow> wire_lib \<Rightarrow> string \<Rightarrow> model_request \<Rightarrow> ('x, json) wire" where
  "chat_encode E W model request =
     w_bind (w_map (chat_message E W) (mr_messages request)) (\<lambda>vss.
     w_bind (w_lift (r_map (runtime_tool_value ProtocolChat) (mr_runtime_tools request))) (\<lambda>tools.
     let body = json_obj [(''model'', String model), (''stream'', Bool (mr_stream request)), (''messages'', Array (concat vss))];
         body = (if mr_stream request then json_ins ''stream_options'' (json_obj [(''include_usage'', Bool True)]) body else body);
         body = (case gp_max_output_tokens (rp_generation (mr_profile request)) of None \<Rightarrow> body
           | Some n \<Rightarrow> json_ins ''max_completion_tokens'' (json_u64_value n) body);
         body = (case mr_response_format request of None \<Rightarrow> body
           | Some FormatJson \<Rightarrow> json_ins ''response_format'' (json_obj [(''type'', String ''json_object'')]) body
           | Some (FormatSchema name schema) \<Rightarrow> json_ins ''response_format'' (json_obj [(''type'', String ''json_schema''),
               (''json_schema'', json_obj [(''name'', String name), (''schema'', schema), (''strict'', Bool True)])]) body) in
       finish_request E ProtocolChat request body tools))"

section \<open>Messages\<close>

definition flush_results :: "json list \<Rightarrow> json list" where
  "flush_results results = (if results = [] then []
     else [json_obj [(''role'', String ''user''), (''content'', Array results)]])"

fun messages_assistant :: "'x extension option \<Rightarrow> wire_lib \<Rightarrow> output_item list \<Rightarrow> ('x, json list) wire" where
  "messages_assistant E W [] = w_return []"
| "messages_assistant E W (item # items) = w_bind (case item of
       Delegation _ \<Rightarrow> w_lift (Inl (Invalid ''protocol does not accept delegation calls''))
     | OutputContent c \<Rightarrow> w_bind (w_lift (content_value W ProtocolMessages True c)) (\<lambda>v. w_return [v])
     | RuntimeToolCall call \<Rightarrow> (case rtc_input call of
           Structured input \<Rightarrow> w_return [json_obj [(''type'', String ''tool_use''), (''id'', String (rtc_id call)),
             (''name'', String (rtc_name call)), (''input'', input)]]
         | Freeform _ \<Rightarrow> w_lift (Inl (Invalid ''Anthropic requires structured tools'')))
     | ProviderToolCall call \<Rightarrow> provider_history E ProtocolMessages call)
     (\<lambda>vs. w_bind (messages_assistant E W items) (\<lambda>rest. w_return (vs @ rest)))"

definition tool_result_value :: "wire_lib \<Rightarrow> string \<Rightarrow> operation_outcome \<Rightarrow> json result" where
  "tool_result_value W call_id outcome = r_bind (content_parts W ProtocolMessages False (result_parts outcome)) (\<lambda>vs.
     Inr (json_obj [(''type'', String ''tool_result''), (''tool_use_id'', String call_id), (''content'', Array vs),
       (''is_error'', Bool (case outcome of OutcomeFailure _ \<Rightarrow> True | _ \<Rightarrow> False))]))"

text \<open>The walk holds the results of tools that are not yet sent; it returns the system parts and the messages.\<close>

fun messages_walk :: "'x extension option \<Rightarrow> wire_lib \<Rightarrow> json list \<Rightarrow> message list \<Rightarrow> ('x, json list \<times> json list) wire" where
  "messages_walk E W results [] = w_return ([], flush_results results)"
| "messages_walk E W results (RuntimeTool call_id _ outcome # ms) =
     w_bind (w_lift (tool_result_value W call_id outcome)) (\<lambda>v. messages_walk E W (results @ [v]) ms)"
| "messages_walk E W results (DelegationResult _ _ # ms) = w_lift (Inl (Invalid ''protocol does not accept delegation history''))"
| "messages_walk E W results (System cs # ms) = w_bind (w_lift (content_parts W ProtocolMessages False cs)) (\<lambda>vs.
     w_bind (messages_walk E W [] ms) (\<lambda>(system, rest). w_return (vs @ system, flush_results results @ rest)))"
| "messages_walk E W results (User cs # ms) = w_bind (w_lift (role_message W ProtocolMessages ''user'' cs)) (\<lambda>v.
     w_bind (messages_walk E W [] ms) (\<lambda>(system, rest). w_return (system, flush_results results @ v # rest)))"
| "messages_walk E W results (External cs # ms) = w_bind (w_lift (role_message W ProtocolMessages ''user'' cs)) (\<lambda>v.
     w_bind (messages_walk E W [] ms) (\<lambda>(system, rest). w_return (system, flush_results results @ v # rest)))"
| "messages_walk E W results (Assistant output data # ms) =
     w_bind (w_bind (assistant_replay E ProtocolMessages output data) (\<lambda>found.
       case found of Some vs \<Rightarrow> w_return vs | None \<Rightarrow> messages_assistant E W output)) (\<lambda>vs.
     w_bind (messages_walk E W [] ms) (\<lambda>(system, rest). w_return (system,
       flush_results results @ json_obj [(''role'', String ''assistant''), (''content'', Array vs)] # rest)))"

definition messages_encode :: "'x extension option \<Rightarrow> wire_lib \<Rightarrow> string \<Rightarrow> model_request \<Rightarrow> ('x, json) wire" where
  "messages_encode E W model request =
     w_bind (messages_walk E W [] (mr_messages request)) (\<lambda>(system, messages).
     w_bind (w_lift (r_map (runtime_tool_value ProtocolMessages) (mr_runtime_tools request))) (\<lambda>tools.
     let body = json_obj [(''model'', String model), (''stream'', Bool (mr_stream request)), (''messages'', Array messages),
           (''max_tokens'', json_u64_value (case gp_max_output_tokens (rp_generation (mr_profile request)) of
             None \<Rightarrow> 4096 | Some n \<Rightarrow> n))];
         body = (if system = [] then body else json_ins ''system'' (Array system) body) in
     w_bind (w_lift (case mr_response_format request of None \<Rightarrow> Inr body
         | Some FormatJson \<Rightarrow> Inl (Invalid ''JSON mode not available'')
         | Some (FormatSchema _ schema) \<Rightarrow> Inr (json_ins ''output_config'' (json_obj [(''format'',
             json_obj [(''type'', String ''json_schema''), (''schema'', schema)])]) body))) (\<lambda>body.
       finish_request E ProtocolMessages request body tools)))"

section \<open>Responses\<close>

fun responses_assistant :: "'x extension option \<Rightarrow> wire_lib \<Rightarrow> output_item list \<Rightarrow> ('x, json list) wire" where
  "responses_assistant E W [] = w_return []"
| "responses_assistant E W (item # items) = w_bind (case item of
       Delegation _ \<Rightarrow> w_lift (Inl (Invalid ''protocol does not accept delegation calls''))
     | OutputContent c \<Rightarrow> w_bind (w_lift (content_value W ProtocolResponses True c)) (\<lambda>v.
         w_return [json_obj [(''type'', String ''message''), (''role'', String ''assistant''), (''content'', Array [v])]])
     | RuntimeToolCall call \<Rightarrow> w_return [case rtc_input call of
           Structured _ \<Rightarrow> json_obj [(''type'', String ''function_call''), (''call_id'', String (rtc_id call)),
             (''name'', String (rtc_name call)), (''arguments'', String (call_input W call))]
         | Freeform input \<Rightarrow> json_obj [(''type'', String ''custom_tool_call''), (''call_id'', String (rtc_id call)),
             (''name'', String (rtc_name call)), (''input'', String input)]]
     | ProviderToolCall call \<Rightarrow> provider_history E ProtocolResponses call)
     (\<lambda>vs. w_bind (responses_assistant E W items) (\<lambda>rest. w_return (vs @ rest)))"

fun freeform_ids :: "output_item list \<Rightarrow> string list" where
  "freeform_ids [] = []"
| "freeform_ids (RuntimeToolCall call # items) =
     (case rtc_input call of Freeform _ \<Rightarrow> rtc_id call # freeform_ids items | Structured _ \<Rightarrow> freeform_ids items)"
| "freeform_ids (_ # items) = freeform_ids items"

fun responses_walk :: "'x extension option \<Rightarrow> wire_lib \<Rightarrow> string list \<Rightarrow> message list \<Rightarrow> ('x, json list) wire" where
  "responses_walk E W freeform [] = w_return []"
| "responses_walk E W freeform (m # ms) = w_bind (case m of
       DelegationResult _ _ \<Rightarrow> w_lift (Inl (Invalid ''protocol does not accept delegation history''))
     | System cs \<Rightarrow> w_bind (w_lift (role_message W ProtocolResponses ''system'' cs)) (\<lambda>v. w_return [v])
     | User cs \<Rightarrow> w_bind (w_lift (role_message W ProtocolResponses ''user'' cs)) (\<lambda>v. w_return [v])
     | External cs \<Rightarrow> w_bind (w_lift (role_message W ProtocolResponses ''user'' cs)) (\<lambda>v. w_return [v])
     | Assistant output data \<Rightarrow> w_bind (assistant_replay E ProtocolResponses output data) (\<lambda>found.
         case found of Some vs \<Rightarrow> w_return vs | None \<Rightarrow> responses_assistant E W output)
     | RuntimeTool call_id _ outcome \<Rightarrow> w_bind (w_lift (result_content W ProtocolResponses outcome)) (\<lambda>v.
         w_return [json_obj [(''type'', String (if call_id \<in> set freeform then ''custom_tool_call_output'' else ''function_call_output'')),
           (''call_id'', String call_id), (''output'', v)]]))
     (\<lambda>vs. w_bind (responses_walk E W (case m of Assistant output _ \<Rightarrow> freeform_ids output @ freeform | _ \<Rightarrow> freeform) ms)
       (\<lambda>rest. w_return (vs @ rest)))"

definition responses_encode :: "'x extension option \<Rightarrow> wire_lib \<Rightarrow> string \<Rightarrow> model_request \<Rightarrow> ('x, json) wire" where
  "responses_encode E W model request =
     w_bind (responses_walk E W [] (mr_messages request)) (\<lambda>input.
     w_bind (w_lift (r_map (runtime_tool_value ProtocolResponses) (mr_runtime_tools request))) (\<lambda>tools.
     let body = json_obj [(''model'', String model), (''stream'', Bool (mr_stream request)), (''input'', Array input)];
         body = (case gp_max_output_tokens (rp_generation (mr_profile request)) of None \<Rightarrow> body
           | Some n \<Rightarrow> json_ins ''max_output_tokens'' (json_u64_value n) body);
         body = (case mr_response_format request of None \<Rightarrow> body
           | Some FormatJson \<Rightarrow> json_ins ''text'' (json_obj [(''format'', json_obj [(''type'', String ''json_object'')])]) body
           | Some (FormatSchema name schema) \<Rightarrow> json_ins ''text'' (json_obj [(''format'', json_obj [(''type'', String ''json_schema''),
               (''name'', String name), (''schema'', schema), (''strict'', Bool True)])]) body) in
       finish_request E ProtocolResponses request body tools))"

fun codec_encode :: "'x extension option \<Rightarrow> wire_lib \<Rightarrow> protocol \<Rightarrow> string \<Rightarrow> model_request \<Rightarrow> ('x, json) wire" where
  "codec_encode E W ProtocolChat = chat_encode E W"
| "codec_encode E W ProtocolMessages = messages_encode E W"
| "codec_encode E W ProtocolResponses = responses_encode E W"

end
