(* ===== verification/Codec_Replay.thy ===== *)
theory Codec_Replay
  imports Codec_Requests
begin

text \<open>
  Replay: what a later request sends for the out of a response. An item of the response that no
  extension took over is sent as it came; one that an extension mapped to provider calls is sent as the
  histories of these calls, in order.
\<close>

lemma calls_append: "provider_calls (as @ bs) = provider_calls as @ provider_calls bs"
  by (induction as rule: provider_calls.induct) simp_all

definition has_history :: "'x extension option \<Rightarrow> protocol \<Rightarrow> provider_tool_call list \<Rightarrow> string \<Rightarrow> json list \<Rightarrow> bool" where
  "has_history E p calls i h \<longleftrightarrow>
     (\<exists>call \<in> set calls. ptc_id call = i \<and> (\<exists>x x'. provider_history E p call x = (Gives h, x')))"

text \<open>What is sent for an item, by what the extension answered for it.\<close>

definition replayed_as ::
  "'x extension option \<Rightarrow> protocol \<Rightarrow> provider_tool_call list \<Rightarrow> json \<Rightarrow> output_item list option \<Rightarrow> json list \<Rightarrow> bool" where
  "replayed_as E p calls item mapped sent \<longleftrightarrow> (case mapped of
       None \<Rightarrow> sent = [item]
     | Some out \<Rightarrow> (if provider_calls out = [] \<and> out \<noteq> [] then sent = [item]
         else \<exists>hs. sent = concat hs \<and> list_all2 (has_history E p calls) (map ptc_id (provider_calls out)) hs))"

definition answered :: "'x extension option \<Rightarrow> protocol \<Rightarrow> json \<Rightarrow> json \<Rightarrow> output_item list option \<Rightarrow> bool" where
  "answered E p v item mapped \<longleftrightarrow> (\<exists>x x'. hook E (\<lambda>e. px_item e p item v) x = (Gives mapped, x'))"

text \<open>The positions that a decoding records.\<close>

definition position_of :: "json \<Rightarrow> output_item list option \<Rightarrow> json \<Rightarrow> bool" where
  "position_of item mapped position \<longleftrightarrow> (case mapped of
       None \<Rightarrow> position = item
     | Some out \<Rightarrow> mark_position out item = Inr position)"

lemma decode_list_positions:
  "decode_list E p check native v items x = (Gives (out, positions), x') \<Longrightarrow>
    \<exists>maps. list_all2 (answered E p v) items maps \<and> list_all2 (\<lambda>(item, mapped). position_of item mapped) (zip items maps) positions"
proof (induction items arbitrary: out positions x)
  case (Cons item items)
  obtain mapped x1 x2 o1 position x3 os ps where steps:
      "hook E (\<lambda>e. px_item e p item v) x1 = (Gives mapped, x2)"
      "(case mapped of
         Some out \<Rightarrow> w_bind (w_lift (mark_position out item)) (\<lambda>position. w_return (out, position))
       | None \<Rightarrow> w_bind (w_lift (native item)) (\<lambda>out. w_return (out, item))) x2 = (Gives (o1, position), x3)"
      "decode_list E p check native v items x3 = (Gives (os, ps), x')" "positions = position # ps"
    using Cons.prems by (auto simp: attempt_simps)
  have "position_of item mapped position"
    using steps(2) by (cases mapped) (auto simp: position_of_def attempt_simps)
  moreover have "answered E p v item mapped" using steps(1) by (auto simp: answered_def)
  moreover obtain maps where "list_all2 (answered E p v) items maps"
      "list_all2 (\<lambda>(item, mapped). position_of item mapped) (zip items maps) ps"
    using Cons.IH [OF steps(3)] by blast
  ultimately show ?case using steps(4) by (intro exI [of _ "mapped # maps"]) simp
qed (auto simp: attempt_simps)

lemma replay_ids_sent:
  "replay_ids E p calls (map String ids) seen x = (Gives (values, seen'), x') \<Longrightarrow>
    \<exists>hs. values = concat hs \<and> list_all2 (has_history E p calls) ids hs"
proof (induction ids arbitrary: seen "values" x)
  case Nil
  then show ?case by (intro exI [of _ "[]"]) (simp add: attempt_simps)
next
  case (Cons i ids)
  obtain call x1 h x2 rest where steps: "find_call calls i = Some call"
      "provider_history E p call x1 = (Gives h, x2)"
      "replay_ids E p calls (map String ids) (i # seen) x2 = (Gives (rest, seen'), x')" "values = h @ rest"
    using Cons.prems by (auto simp: attempt_simps ok_or_Inr split: if_splits)
  have "call \<in> set calls \<and> ptc_id call = i" using steps(1) unfolding find_call_def by (metis (mono_tags, lifting) find_Some_iff nth_mem set_rev)
  then have "has_history E p calls i h" using steps(2) by (auto simp: has_history_def)
  moreover obtain hs where "rest = concat hs" "list_all2 (has_history E p calls) ids hs"
    using Cons.IH [OF steps(3)] by blast
  ultimately show ?case using steps(4) by (intro exI [of _ "h # hs"]) simp
qed

lemma position_get: "json_get replay_position (json_obj [(replay_position, Array vs)]) = Some (Array vs)"
  by (simp add: json_obj_def om_get_Cons)

lemma replay_list_sent:
  assumes "list_all2 (\<lambda>(item, mapped). position_of item mapped) (zip items maps) positions" and "length items = length maps"
    and "\<forall>item \<in> set items. json_get replay_position item = None"
    and "replay_list E p calls positions seen x = (Gives (values, seen'), x')"
  shows "\<exists>sent. values = concat sent \<and> list_all2 (\<lambda>(item, mapped). replayed_as E p calls item mapped) (zip items maps) sent"
  using assms
proof (induction items arbitrary: maps positions seen "values" x)
  case Nil
  then show ?case by (intro exI [of _ "[]"]) (simp add: attempt_simps)
next
  case (Cons item items)
  obtain mapped maps' where maps: "maps = mapped # maps'" using Cons.prems(2) by (cases maps) auto
  obtain position positions' where positions: "positions = position # positions'"
      "position_of item mapped position" "list_all2 (\<lambda>(item, mapped). position_of item mapped) (zip items maps') positions'"
    using Cons.prems(1) maps by (cases positions) auto
  have plain: "json_get replay_position item = None" using Cons.prems(3) by simp
  have rest: "\<exists>sent. vs = concat sent \<and> list_all2 (\<lambda>(item, mapped). replayed_as E p calls item mapped) (zip items maps') sent"
    if "replay_list E p calls positions' s y = (Gives (vs, seen'), x')" for s y vs
    using Cons.IH [OF positions(3) _ _ that] Cons.prems(2,3) maps by simp
  have one: "\<exists>h s y vs. replayed_as E p calls item mapped h \<and> values = h @ vs
      \<and> replay_list E p calls positions' s y = (Gives (vs, seen'), x')"
  proof (cases "position = item")
    case True
    have "replayed_as E p calls item mapped [item]"
    proof (cases mapped)
      case (Some out)
      have "provider_calls out = [] \<and> out \<noteq> []"
      proof (rule ccontr)
        assume "\<not> ?thesis"
        then have "item = json_obj [(replay_position, Array (map String (map ptc_id (provider_calls out))))]"
          using positions(2) Some True by (auto simp: position_of_def mark_position_def Let_def split: if_splits)
        then have "json_get replay_position item \<noteq> None" using position_get by simp
        then show False using plain by simp
      qed
      then show ?thesis using Some by (simp add: replayed_as_def)
    qed (simp add: replayed_as_def)
    moreover obtain vs y where "replay_list E p calls positions' seen y = (Gives (vs, seen'), x')" "values = item # vs"
      using Cons.prems(4) positions(1) True plain by (auto simp: attempt_simps)
    ultimately show ?thesis by (intro exI [of _ "[item]"]) auto
  next
    case False
    then obtain out where out: "mapped = Some out" "mark_position out item = Inr position"
      using positions(2) by (auto simp: position_of_def split: option.splits)
    let ?ids = "map ptc_id (provider_calls out)"
    have position: "position = json_obj [(replay_position, Array (map String ?ids))]" and calls: "\<not> (provider_calls out = [] \<and> out \<noteq> [])"
      using out(2) False by (auto simp: mark_position_def Let_def split: if_splits)
    have get: "json_get replay_position position = Some (Array (map String ?ids))"
      and object: "\<not> none_or (\<lambda>m. length m \<noteq> 1) (json_as_object position)"
      unfolding position by (simp_all add: position_get json_obj_def om_get_Cons)
    obtain h s y vs where steps: "replay_ids E p calls (map String ?ids) seen x = (Gives (h, s), y)"
        "replay_list E p calls positions' s y = (Gives (vs, seen'), x')" "values = h @ vs"
      using Cons.prems(4) positions(1) get object by (auto simp: attempt_simps)
    have "replayed_as E p calls item mapped h"
      using replay_ids_sent [OF steps(1)] out(1) calls by (cases "provider_calls out = []") (auto simp: replayed_as_def)
    then show ?thesis using steps(2,3) by blast
  qed
  then obtain h s y vs where h: "replayed_as E p calls item mapped h" "values = h @ vs"
      "replay_list E p calls positions' s y = (Gives (vs, seen'), x')" by blast
  obtain sent where "vs = concat sent" "list_all2 (\<lambda>(item, mapped). replayed_as E p calls item mapped) (zip items maps') sent"
    using rest [OF h(3)] by blast
  then show ?case using h(1,2) maps by (intro exI [of _ "h # sent"]) simp
qed

text \<open>The items that a decoding with hooks recorded are the ones a replay finds.\<close>

lemma json_replace_get: "json_get k v = Some w \<Longrightarrow> json_get k (json_replace k u v) = Some u"
  by (cases v) simp_all

lemma provider_data_get:
  "json_str ''protocol'' (json_obj [(''protocol'', String k), (''response'', r)]) = Some k"
  "json_index ''response'' (json_obj [(''protocol'', String k), (''response'', r)]) = r"
  by (simp_all add: json_obj_def json_str_def json_index_def om_get_Cons)

lemma response_get [simp]: "json_index ''response'' (json_obj [(''protocol'', String k), (''response'', r)]) = r"
  by (rule provider_data_get(2))

lemma decode_items_Gives:
  assumes "decode_items E p check native key v x = (Gives d, x')"
  shows "\<exists>items positions. Option.bind (json_get key v) json_as_array = Some items
    \<and> decode_list E p check native v items x = (Gives (dc_output d, positions), x')
    \<and> dc_replay d = json_replace key (Array positions) v"
  using assms by (auto simp: decode_items_def attempt_simps ok_or_Inr)

lemma adapter_decode_items:
  assumes "adapter_decode E W p v x = (Gives d, x')" and "native_items p v = Some items"
    and "p \<noteq> ProtocolChat"
  shows "\<exists>check native positions. decode_list E p check native v items x = (Gives (dc_output d, positions), x')
    \<and> native_items p (dc_replay d) = Some positions
    \<and> (native = messages_item \<or> native = responses_item W)"
proof (cases p)
  case ProtocolMessages
  then obtain d' where d': "decode_items E ProtocolMessages (\<lambda>_. Inr ()) messages_item ''content'' v x = (Gives d', x')"
      "dc_output d = dc_output d'" "dc_replay d = dc_replay d'"
    using assms(1) by (auto simp: messages_decode_def attempt_simps)
  obtain positions where "decode_list E ProtocolMessages (\<lambda>_. Inr ()) messages_item v items x = (Gives (dc_output d', positions), x')"
      "dc_replay d' = json_replace ''content'' (Array positions) v" "\<exists>w. json_get ''content'' v = Some w"
    using decode_items_Gives [OF d'(1)] assms(2) ProtocolMessages by (auto split: bind_splits)
  then show ?thesis
    by (intro exI [of _ "\<lambda>_. Inr ()"] exI [of _ messages_item] exI [of _ positions])
       (use ProtocolMessages d'(2,3) in \<open>auto simp: json_replace_get\<close>)
next
  case ProtocolResponses
  let ?check = "\<lambda>item. r_bind (json_text item ''type'') (\<lambda>_. Inr ())"
  have d: "decode_items E ProtocolResponses ?check (responses_item W) ''output'' v x = (Gives d, x')"
    using assms(1) ProtocolResponses by (simp add: responses_decode_def)
  obtain positions where "decode_list E ProtocolResponses ?check (responses_item W) v items x = (Gives (dc_output d, positions), x')"
      "dc_replay d = json_replace ''output'' (Array positions) v" "\<exists>w. json_get ''output'' v = Some w"
    using decode_items_Gives [OF d] assms(2) ProtocolResponses by (auto split: bind_splits)
  then show ?thesis
    by (intro exI [of _ ?check] exI [of _ "responses_item W"] exI [of _ positions])
       (use ProtocolResponses in \<open>auto simp: json_replace_get\<close>)
qed (use assms(3) in simp)

lemma chat_decode_replay: "chat_decode W v = Inr d \<Longrightarrow> dc_replay d = v"
  by (auto simp: chat_decode_def result_simps)

lemma codec_decode_Gives:
  assumes "codec_decode E W p v x = (Gives g, x')"
  shows "\<exists>d. adapter_decode E W p v x = (Gives d, x') \<and> go_output g = dc_output d
    \<and> go_provider_data g = json_obj [(''protocol'', String (protocol_key p)), (''response'', dc_replay d)]"
  using assms by (auto simp: codec_decode_def attempt_simps Let_def)

lemma replay_of_decoded:
  assumes "codec_decode E W p v x = (Gives g, x1)" and "native_items p v = Some items"
    and "\<forall>item \<in> set items. json_get replay_position item = None"
    and "assistant_replay E p (go_output g) (go_provider_data g) y = (Gives r, y')"
  shows "\<exists>maps sent. r = Some (concat sent) \<and> length maps = length items
    \<and> (if p = ProtocolChat then maps = [None] else list_all2 (answered E p v) items maps)
    \<and> list_all2 (\<lambda>(item, mapped). replayed_as E p (provider_calls (go_output g)) item mapped) (zip items maps) sent"
proof -
  obtain d where d: "adapter_decode E W p v x = (Gives d, x1)" "go_output g = dc_output d"
      "go_provider_data g = json_obj [(''protocol'', String (protocol_key p)), (''response'', dc_replay d)]"
    using codec_decode_Gives [OF assms(1)] by blast
  obtain positions maps where pos: "native_items p (dc_replay d) = Some positions" "length maps = length items"
      "if p = ProtocolChat then maps = [None] else list_all2 (answered E p v) items maps"
      "list_all2 (\<lambda>(item, mapped). position_of item mapped) (zip items maps) positions"
  proof (cases "p = ProtocolChat")
    case True
    then have "chat_decode W v = Inr d" using d(1) by (simp add: attempt_simps)
    then have "dc_replay d = v" by (rule chat_decode_replay)
    moreover obtain m where "items = [m]" using assms(2) True by auto
    ultimately show ?thesis using True assms(2) by (intro that [of items "[None]"]) (simp_all add: position_of_def)
  next
    case False
    obtain check native ps where ps: "decode_list E p check native v items x = (Gives (dc_output d, ps), x1)"
        "native_items p (dc_replay d) = Some ps"
      using adapter_decode_items [OF d(1) assms(2) False] by blast
    obtain maps where maps: "list_all2 (answered E p v) items maps"
        "list_all2 (\<lambda>(item, mapped). position_of item mapped) (zip items maps) ps"
      using decode_list_positions [OF ps(1)] by blast
    then show ?thesis using that [OF ps(2) list_all2_lengthD [OF maps(1), symmetric]] False by simp
  qed
  obtain vals where vals: "r = Some vals" "replay_items E p positions (go_output g) y = (Gives vals, y')"
    using assms(4) pos(1) d(3) by (auto simp: assistant_replay_def provider_data_get attempt_simps)
  obtain seen where "replay_list E p (provider_calls (go_output g)) positions [] y = (Gives (vals, seen), y')"
    using vals(2) by (auto simp: replay_items_def attempt_simps Let_def split: if_splits)
  from replay_list_sent [OF pos(4) pos(2) [symmetric] assms(3) this] show ?thesis
    using vals(1) pos(2,3) by blast
qed

section \<open>Without an extension\<close>

lemma r_map_calls:
  "r_map f vs = Inr items \<Longrightarrow> (\<And>v i. f v = Inr i \<Longrightarrow> provider_calls [i] = []) \<Longrightarrow> provider_calls items = []"
proof (induction vs arbitrary: items)
  case (Cons v vs)
  then obtain i js where i: "f v = Inr i" "r_map f vs = Inr js" "items = i # js" by (auto simp: r_bind_Inr)
  then show ?case using Cons calls_append [of "[i]" js] by simp
qed simp

lemma parse_content_calls: "parse_content provider v = Inr i \<Longrightarrow> provider_calls [i] = []"
  by (auto simp: parse_content_def r_bind_Inr Let_def split: if_splits)

lemma messages_item_calls: "messages_item item = Inr items \<Longrightarrow> provider_calls items = []"
  using parse_content_calls by (auto simp: messages_item_def r_bind_Inr Let_def split: if_splits)

lemma responses_item_calls: "responses_item W item = Inr items \<Longrightarrow> provider_calls items = []"
proof -
  assume item: "responses_item W item = Inr items"
  then obtain kind where kind: "json_text item ''type'' = Inr kind" by (auto simp: responses_item_def r_bind_Inr)
  show ?thesis
  proof (cases "kind = ''message''")
    case True
    then obtain ps where "r_map (parse_content ''openai'') ps = Inr items"
      using item kind by (auto simp: responses_item_def r_bind_Inr)
    then show ?thesis by (rule r_map_calls [OF _ parse_content_calls])
  next
    case False
    note body = item [unfolded responses_item_def kind r_bind.simps if_not_P [OF False]]
    consider "kind = ''function_call''" | "kind \<noteq> ''function_call''" "kind = ''custom_tool_call''"
      | "kind \<noteq> ''function_call''" "kind \<noteq> ''custom_tool_call''" by blast
    then show ?thesis
    proof cases
      case 1
      show ?thesis using body [unfolded if_P [OF 1]] by (auto simp: r_bind_Inr)
    next
      case 2
      show ?thesis using body [unfolded if_not_P [OF 2(1)] if_P [OF 2(2)]] by (auto simp: r_bind_Inr)
    next
      case 3
      show ?thesis using body [unfolded if_not_P [OF 3(1)] if_not_P [OF 3(2)]] by (auto split: if_splits)
    qed
  qed
qed

lemma chat_decode_calls: "chat_decode W v = Inr d \<Longrightarrow> provider_calls (dc_output d) = []"
proof -
  assume d: "chat_decode W v = Inr d"
  have call: "provider_calls [i] = []" if "chat_decode_call W c = Inr i" for c i
    using that by (auto simp: chat_decode_call_def r_bind_Inr)
  obtain m parts calls where parts: "dc_output d = (case json_str ''reasoning_content'' m of None \<Rightarrow> []
        | Some t \<Rightarrow> [OutputContent (Opaque ''openai'' (json_obj [(''type'', String ''reasoning''), (''text'', String t)]))])
      @ parts @ calls"
      "(case json_get ''content'' m of
         Some (String t) \<Rightarrow> Inr [OutputContent (Text t)]
       | Some (Array parts) \<Rightarrow> r_map (parse_content ''openai'') parts
       | _ \<Rightarrow> Inr []) = Inr parts"
      "(case Option.bind (json_get ''tool_calls'' m) json_as_array of
         None \<Rightarrow> Inr [] | Some cs \<Rightarrow> r_map (chat_decode_call W) cs) = Inr calls"
    using d by (auto simp: chat_decode_def r_bind_Inr)
  have "provider_calls parts = []"
    using parts(2) r_map_calls [OF _ parse_content_calls] by (auto split: option.splits json.splits)
  moreover have "provider_calls calls = []"
    using parts(3) r_map_calls [OF _ call] by (auto split: option.splits)
  moreover have "provider_calls (case json_str ''reasoning_content'' m of None \<Rightarrow> []
        | Some t \<Rightarrow> [OutputContent (Opaque ''openai'' (json_obj [(''type'', String ''reasoning''), (''text'', String t)]))]) = []"
    by (simp split: option.splits)
  ultimately show ?thesis by (simp add: parts(1) calls_append)
qed

lemma decode_list_plain:
  assumes "decode_list None p check native v items x = (Gives (out, positions), x')"
    and "\<And>item items. native item = Inr items \<Longrightarrow> provider_calls items = []"
  shows "positions = items \<and> provider_calls out = []"
  using assms(1)
proof (induction items arbitrary: out positions x)
  case (Cons item items)
  then show ?case using assms(2) by (auto simp: attempt_simps hook_def calls_append)
qed (simp add: attempt_simps)

lemma replay_list_plain:
  "\<forall>item \<in> set items. json_get replay_position item = None \<Longrightarrow>
    replay_list E p calls items seen y = (Gives (items, seen), y)"
  by (induction items) (simp_all add: w_bind_def w_return_def)

lemma replay_verbatim:
  assumes "codec_decode None W p v x = (Gives g, x1)" and "native_items p v = Some items"
    and "\<forall>item \<in> set items. json_get replay_position item = None"
  shows "assistant_replay None p (go_output g) (go_provider_data g) y = (Gives (Some items), y)"
proof -
  obtain d where d: "adapter_decode None W p v x = (Gives d, x1)" "go_output g = dc_output d"
      "go_provider_data g = json_obj [(''protocol'', String (protocol_key p)), (''response'', dc_replay d)]"
    using codec_decode_Gives [OF assms(1)] by blast
  have "native_items p (dc_replay d) = Some items \<and> provider_calls (dc_output d) = []"
  proof (cases "p = ProtocolChat")
    case True
    then have "chat_decode W v = Inr d" using d(1) by (simp add: attempt_simps)
    then show ?thesis using chat_decode_replay chat_decode_calls assms(2) by metis
  next
    case False
    obtain check native ps where ps: "decode_list None p check native v items x = (Gives (dc_output d, ps), x1)"
        "native_items p (dc_replay d) = Some ps" "native = messages_item \<or> native = responses_item W"
      using adapter_decode_items [OF d(1) assms(2) False] by blast
    have "provider_calls items = []" if "native item = Inr items" for item items
      using ps(3) that messages_item_calls responses_item_calls by blast
    from decode_list_plain [OF ps(1) this] show ?thesis using ps(2) by simp
  qed
  then show ?thesis
    using d(2,3) replay_list_plain [OF assms(3), of None p "[]" "[]" y]
    by (simp add: assistant_replay_def provider_data_get replay_items_def w_bind_def w_return_def)
qed

end
