(* ===== verification/Wire_Properties.thy ===== *)
theory Wire_Properties
  imports Codec_Replay
begin

text \<open>
  The properties of the protocols of services: the framing of events, the agreement of a stream with the
  response it completes to, and the replay of responses.
\<close>

section \<open>Events\<close>

text \<open>
  C35: whatever pieces the bytes of an event stream arrive in, and whichever of the three line ends a
  server writes, the decoder returns exactly the events that were written, in order, and ends in its
  initial state.
\<close>

theorem event_stream_roundtrip:
  assumes "list_all sse_clean es" and "concat pieces = concat (map (sse_write style) es)"
  shows "sse_pieces pieces sse_default = (Inr es, sse_default)"
  by (simp add: sse_pieces_concat assms(2) sse_push_stream [OF assms(1)])

definition sample_event :: sse_event where
  "sample_event = \<lparr>se_data = ''a'' @ [LF] @ ''b: c'', se_event = Some ''delta'', se_id = None, se_retry = Some 7\<rparr>"

theorem event_stream_roundtrip_witness:
  "sse_pieces [take 9 (sse_write EndCRLF sample_event), drop 9 (sse_write EndCRLF sample_event)] sse_default
     = (Inr [sample_event], sse_default)"
proof (rule event_stream_roundtrip)
  show "list_all sse_clean [sample_event]" by code_simp
qed simp

section \<open>Streamed completions\<close>






definition sample_wire :: wire_lib where
  "sample_wire = \<lparr>wl_parse = (\<lambda>s. Inr (String s)), wl_render = (\<lambda>_. []), wl_base64 = (\<lambda>_. []), wl_unbase64 = (\<lambda>_. Inr [])\<rparr>"



section \<open>Streamed messages\<close>







section \<open>Replay\<close>

text \<open>
  C32: a response that a service returned is sent back as it came. Without an extension the replay of the
  decoded output is exactly the native items; with one, each item it mapped to provider calls is replaced
  by the histories of those calls, in order, and every other item is the native one. The reserved key is
  assumed not to occur in what the service sends.
\<close>

theorem response_is_replayed:
  assumes "codec_decode E W p v x = (Gives g, x1)" and "native_items p v = Some items"
    and "\<forall>item \<in> set items. json_get replay_position item = None"
  shows "(E = None \<longrightarrow> assistant_replay E p (go_output g) (go_provider_data g) y = (Gives (Some items), y))
    \<and> (\<forall>r y'. assistant_replay E p (go_output g) (go_provider_data g) y = (Gives r, y') \<longrightarrow>
        (\<exists>maps sent. r = Some (concat sent) \<and> length maps = length items
           \<and> (if p = ProtocolChat then maps = [None] else list_all2 (answered E p v) items maps)
           \<and> list_all2 (\<lambda>(item, mapped). replayed_as E p (provider_calls (go_output g)) item mapped) (zip items maps) sent))"
proof (intro conjI impI allI)
  show "assistant_replay E p (go_output g) (go_provider_data g) y = (Gives (Some items), y)" if "E = None"
    using replay_verbatim [OF assms(1) [unfolded that] assms(2,3)] that by simp
qed (rule replay_of_decoded [OF assms])

definition sample_message :: json where
  "sample_message = Object [(''content'', Array [Object [(''text'', String ''hi''), (''type'', String ''text'')]]),
     (''stop_reason'', String ''end_turn'')]"

theorem response_is_replayed_witness:
  "\<exists>g. codec_decode None sample_wire ProtocolMessages sample_message () = (Gives g, ())
     \<and> assistant_replay (None :: unit extension option) ProtocolMessages (go_output g) (go_provider_data g) ()
       = (Gives (Some [Object [(''text'', String ''hi''), (''type'', String ''text'')]]), ())"
proof -
  have "messages_decode None sample_message () = (Gives \<lparr>dc_output = [OutputContent (Text ''hi'')],
      dc_replay = Object [(''content'', Array [Object [(''text'', String ''hi''), (''type'', String ''text'')]]),
        (''stop_reason'', String ''end_turn'')], dc_pending = False\<rparr>, ())"
    by (simp add: messages_decode_def decode_items_def hook_def json_text_def om_modify_def messages_item_def parse_content_def str_or_empty_def json_str_def
        sample_message_def w_bind_def w_lift_def w_return_def om_get_Cons Let_def)
  then obtain g where g: "codec_decode None sample_wire ProtocolMessages sample_message () = (Gives g, ())"
    by (simp add: codec_decode_def sample_message_def w_bind_def w_lift_def w_return_def om_get_Cons Let_def)
  have items: "native_items ProtocolMessages sample_message = Some [Object [(''text'', String ''hi''), (''type'', String ''text'')]]"
    "\<forall>item \<in> set [Object [(''text'', String ''hi''), (''type'', String ''text'')]]. json_get replay_position item = None"
    by code_simp+
  from response_is_replayed [OF g items] show ?thesis using g by blast
qed

end
