(* ===== verification/Model_Credentials.thy ===== *)
theory Model_Credentials
  imports Core_Values
begin

text \<open>
  Credentials, \<open>zhir-core/src/credential.rs\<close>, and their providers, \<open>zhir-models/src/credentials.rs\<close>: a
  fixed one, and one that keeps a credential per audience until it expires or is rejected. The provider
  holds its lock while it refreshes, so its operations are functions on its state.
\<close>

record credential =
  crd_generation :: string
  crd_scheme :: string
  crd_value :: string
  crd_expires_at_ms :: "u64 option"
  crd_metadata :: "(string, string) omap"

record credential_context =
  cx_audience :: string
  cx_now_ms :: u64

record 'c credential_provider =
  cv_resolve :: "credential_context \<Rightarrow> 'c \<Rightarrow> credential result \<times> 'c"
  cv_invalidate :: "string \<Rightarrow> 'c \<Rightarrow> unit result \<times> 'c"

section \<open>A fixed credential\<close>

definition static_credential :: "string \<Rightarrow> string \<Rightarrow> credential" where
  "static_credential scheme value = \<lparr>crd_generation = ''static'', crd_scheme = scheme, crd_value = value,
     crd_expires_at_ms = None, crd_metadata = []\<rparr>"

definition static_provider :: "credential \<Rightarrow> 'c credential_provider" where
  "static_provider c = \<lparr>cv_resolve = (\<lambda>_ s. (Inr c, s)), cv_invalidate = (\<lambda>_ s. (Inr (), s))\<rparr>"

section \<open>A credential that is refreshed\<close>

text \<open>The state is the map of current credentials and the state \<open>'r\<close> of the refreshing closure.\<close>

type_synonym 'r refreshing = "(string, credential) omap \<times> 'r"

definition expired :: "u64 \<Rightarrow> credential \<Rightarrow> bool" where
  "expired now c \<longleftrightarrow> some_and (\<lambda>expiry. expiry \<le> now) (crd_expires_at_ms c)"

definition refresh_accepts :: "u64 \<Rightarrow> credential \<Rightarrow> bool" where
  "refresh_accepts now c \<longleftrightarrow> crd_generation c \<noteq> [] \<and> crd_value c \<noteq> [] \<and> \<not> expired now c"

definition refreshing_resolve ::
  "(credential_context \<Rightarrow> 'r \<Rightarrow> credential result \<times> 'r) \<Rightarrow> credential_context \<Rightarrow> 'r refreshing
    \<Rightarrow> credential result \<times> 'r refreshing" where
  "refreshing_resolve refresh cx s = (case s of (current, r) \<Rightarrow>
     (case Option.bind (om_get current (cx_audience cx)) (\<lambda>c. if expired (cx_now_ms cx) c then None else Some c) of
        Some c \<Rightarrow> (Inr c, s)
      | None \<Rightarrow> (case refresh cx r of
            (Inl e, r') \<Rightarrow> (Inl e, (current, r'))
          | (Inr c, r') \<Rightarrow>
              (if refresh_accepts (cx_now_ms cx) c then (Inr c, (om_insert (cx_audience cx) c current, r'))
               else (Inl (Invalid ''refresher returned invalid or expired credentials''), (current, r'))))))"

definition refreshing_invalidate :: "string \<Rightarrow> 'r refreshing \<Rightarrow> unit result \<times> 'r refreshing" where
  "refreshing_invalidate generation s =
     (Inr (), (om_retain (\<lambda>_ c. crd_generation c \<noteq> generation) (fst s), snd s))"

definition refreshing_provider ::
  "(credential_context \<Rightarrow> 'r \<Rightarrow> credential result \<times> 'r) \<Rightarrow> 'r refreshing credential_provider" where
  "refreshing_provider refresh = \<lparr>cv_resolve = refreshing_resolve refresh, cv_invalidate = refreshing_invalidate\<rparr>"

lemma om_get_retained:
  "om_get (om_retain p m) k = Some v \<Longrightarrow> om_ok m \<Longrightarrow> p k v \<and> om_get m k = Some v"
  by (auto simp: om_retain_def dest!: om_get_in_set intro: om_in_set_get)

section \<open>What is handed out\<close>

text \<open>The states that a provider reaches from the empty map.\<close>

inductive refreshing_reaches ::
  "(credential_context \<Rightarrow> 'r \<Rightarrow> credential result \<times> 'r) \<Rightarrow> 'r refreshing \<Rightarrow> bool" for refresh where
  rfr_new: "refreshing_reaches refresh ([], r)"
| rfr_resolve: "refreshing_reaches refresh s \<Longrightarrow> refreshing_reaches refresh (snd (refreshing_resolve refresh cx s))"
| rfr_invalidate: "refreshing_reaches refresh s \<Longrightarrow> refreshing_reaches refresh (snd (refreshing_invalidate g s))"

definition refreshing_ok :: "'r refreshing \<Rightarrow> bool" where
  "refreshing_ok s \<longleftrightarrow> om_ok (fst s) \<and> (\<forall>a c. om_get (fst s) a = Some c \<longrightarrow> crd_generation c \<noteq> [] \<and> crd_value c \<noteq> [])"

lemma refreshing_reaches_ok: "refreshing_reaches refresh s \<Longrightarrow> refreshing_ok s"
proof (induction rule: refreshing_reaches.induct)
  case (rfr_resolve s cx)
  then show ?case
    by (auto simp: refreshing_ok_def refreshing_resolve_def refresh_accepts_def split: prod.splits option.splits sum.splits)
next
  case (rfr_invalidate s g)
  then show ?case by (auto simp: refreshing_ok_def refreshing_invalidate_def dest: om_get_retained)
qed (simp add: refreshing_ok_def)

text \<open>What is handed out is usable now, and nothing that was rejected is handed out from the map.\<close>

lemma resolved_is_usable:
  assumes "refreshing_reaches refresh s" and "refreshing_resolve refresh cx s = (Inr c, s')"
  shows "refresh_accepts (cx_now_ms cx) c" and "om_get (fst s') (cx_audience cx) = Some c"
  using refreshing_reaches_ok [OF assms(1)] assms(2)
  by (auto simp: refreshing_ok_def refreshing_resolve_def refresh_accepts_def bind_eq_Some_conv
      split: prod.splits option.splits sum.splits if_splits)

lemma rejected_is_forgotten:
  assumes "refreshing_reaches refresh s" and "refreshing_invalidate g s = (r, s')" and "om_get (fst s') a = Some c"
  shows "crd_generation c \<noteq> g"
  using refreshing_reaches_ok [OF assms(1)] assms(2,3)
  by (auto simp: refreshing_ok_def refreshing_invalidate_def dest: om_get_retained)

end
