(* ===== verification/Http_Model.thy ===== *)
theory Http_Model
  imports Codec_Requests Policies Exchange_Session Model_Credentials
begin

text \<open>
  The model behind an HTTP service: \<open>zhir-models/src/http.rs\<close>, the mappings of negotiated semantics in
  \<open>profiles.rs\<close>, and the reading of a streamed response in \<open>streaming/http.rs\<close>. The network, the sink of
  increments, the provider of credentials and the session of an extension are parameters with states of
  their own, all in the record \<open>http_world\<close>; its \<open>hw_log\<close> keeps every request that was posted with what
  came back.
\<close>

section \<open>Profiles\<close>

record profile_mapping =
  pm_key :: string
  pm_value :: json
  pm_field :: string
  pm_wire_value :: json

definition profile_mapping_new :: "string \<Rightarrow> json \<Rightarrow> string \<Rightarrow> json \<Rightarrow> profile_mapping result" where
  "profile_mapping_new key value field wire_value =
     (if key = [] \<or> field = [] \<or> field \<in> {''model'', ''messages'', ''input'', ''tools'', ''stream''}
      then Inl (Invalid ''invalid profile mapping'')
      else Inr \<lparr>pm_key = key, pm_value = value, pm_field = field, pm_wire_value = wire_value\<rparr>)"

definition maps_to :: "string \<Rightarrow> json \<Rightarrow> profile_mapping \<Rightarrow> bool" where
  "maps_to key value mapping \<longleftrightarrow> pm_key mapping = key \<and> pm_value mapping = value"

text \<open>What needs no mapping: turns, and the fidelity of resources where the codec writes it.\<close>

definition needs_no_mapping :: "bool \<Rightarrow> string \<Rightarrow> json \<Rightarrow> bool" where
  "needs_no_mapping images key value \<longleftrightarrow>
     key = ''interaction'' \<and> value = String ''turn_based'' \<or> images \<and> is_resource_fidelity key"

fun mappings_cover :: "profile_mapping list \<Rightarrow> bool \<Rightarrow> (string \<times> json) list \<Rightarrow> unit result" where
  "mappings_cover mappings images [] = Inr ()"
| "mappings_cover mappings images ((key, value) # rest) =
     (if needs_no_mapping images key value \<or> (\<exists>mapping \<in> set mappings. maps_to key value mapping)
      then mappings_cover mappings images rest
      else Inl (Invalid (''negotiated '' @ key @ '' has no endpoint mapping'')))"

definition profiles_negotiate ::
  "model_request \<Rightarrow> capability_set \<Rightarrow> profile_mapping list \<Rightarrow> bool \<Rightarrow> negotiated_profile result" where
  "profiles_negotiate request caps mappings images =
     r_bind (negotiate request caps) (\<lambda>p.
     r_bind (mappings_cover mappings images (np_selected p)) (\<lambda>_. Inr p))"

text \<open>The decoding of a fidelity belongs to the serialization library.\<close>

fun profile_content :: "(json \<Rightarrow> string + fidelity) \<Rightarrow> negotiated_profile \<Rightarrow> content \<Rightarrow> content result" where
  "profile_content parse p (ContentResource input) =
     (if usage_fidelity (ri_usage input) = None then Inr (ContentResource input)
      else r_bind (case selected p (resource_fidelity_key (res_id (ri_resource input))) of
            None \<Rightarrow> Inr None
          | Some v \<Rightarrow> (case parse v of Inl e \<Rightarrow> Inl (Invalid e) | Inr f \<Rightarrow> Inr (Some (Required f)))) (\<lambda>fidelity.
        Inr (ContentResource (input\<lparr>ri_usage := (ri_usage input)\<lparr>usage_fidelity := fidelity\<rparr>\<rparr>))))"
| "profile_content parse p c = Inr c"

fun profile_output :: "(json \<Rightarrow> string + fidelity) \<Rightarrow> negotiated_profile \<Rightarrow> output_item \<Rightarrow> output_item result" where
  "profile_output parse p (OutputContent c) = r_bind (profile_content parse p c) (\<lambda>c. Inr (OutputContent c))"
| "profile_output parse p item = Inr item"

fun profile_outcome :: "(json \<Rightarrow> string + fidelity) \<Rightarrow> negotiated_profile \<Rightarrow> operation_outcome \<Rightarrow> operation_outcome result" where
  "profile_outcome parse p (OutcomeSuccess cs v) = r_bind (r_map (profile_content parse p) cs) (\<lambda>cs. Inr (OutcomeSuccess cs v))"
| "profile_outcome parse p outcome = Inr outcome"

fun profile_message :: "(json \<Rightarrow> string + fidelity) \<Rightarrow> negotiated_profile \<Rightarrow> message \<Rightarrow> message result" where
  "profile_message parse p (System cs) = r_bind (r_map (profile_content parse p) cs) (\<lambda>cs. Inr (System cs))"
| "profile_message parse p (User cs) = r_bind (r_map (profile_content parse p) cs) (\<lambda>cs. Inr (User cs))"
| "profile_message parse p (External cs) = r_bind (r_map (profile_content parse p) cs) (\<lambda>cs. Inr (External cs))"
| "profile_message parse p (Assistant items data) = r_bind (r_map (profile_output parse p) items) (\<lambda>items. Inr (Assistant items data))"
| "profile_message parse p (RuntimeTool call_id name outcome) =
     r_bind (profile_outcome parse p outcome) (\<lambda>o'. Inr (RuntimeTool call_id name o'))"
| "profile_message parse p (DelegationResult i outcome) =
     r_bind (profile_outcome parse p outcome) (\<lambda>o'. Inr (DelegationResult i o'))"

definition profile_apply :: "(json \<Rightarrow> string + fidelity) \<Rightarrow> negotiated_profile \<Rightarrow> model_request \<Rightarrow> model_request result" where
  "profile_apply parse p request =
     r_bind (r_map (profile_message parse p) (mr_messages request)) (\<lambda>messages. Inr (request\<lparr>mr_messages := messages\<rparr>))"

fun profile_fields ::
  "profile_mapping list \<Rightarrow> (string \<times> json) list \<Rightarrow> json \<Rightarrow> ((string \<times> json) list \<times> json) attempt" where
  "profile_fields mappings [] body = Gives ([], body)"
| "profile_fields mappings ((key, value) # rest) body = (case find (maps_to key value) mappings of
       None \<Rightarrow> profile_fields mappings rest body
     | Some m \<Rightarrow>
         a_bind (a_result (fail_if (some_and (\<lambda>existing. existing \<noteq> pm_wire_value m) (json_get (pm_field m) body))
           (Invalid (''profile conflicts with '' @ pm_field m)))) (\<lambda>_.
         a_bind (a_written (json_put (pm_field m) (pm_wire_value m) body)) (\<lambda>body.
         a_bind (profile_fields mappings rest body) (\<lambda>(controlled, body).
           Gives ((pm_field m, pm_wire_value m) # controlled, body)))))"

section \<open>Configuration\<close>

definition text_tool_calling :: capability_set where
  "text_tool_calling = \<lparr>cap_input_modalities = [''text''], cap_output_modalities = [''text''],
     cap_features = {StructuredTools, ParallelTools, ParallelControl, Streaming, CapUsage},
     cap_tool_choices = [''auto'', ''none'', ''required'', ''runtime_tool''], cap_constraints = [], cap_extensions = []\<rparr>"

definition adapter_capabilities_of :: "capability list \<Rightarrow> bool \<Rightarrow> bool \<Rightarrow> capability_set" where
  "adapter_capabilities_of features audio provider_tools = text_tool_calling
     \<lparr>cap_input_modalities := cap_input_modalities text_tool_calling @ [''image'', ''file''] @ (if audio then [''audio''] else []),
      cap_features := cap_features text_tool_calling \<union> set features,
      cap_tool_choices := cap_tool_choices text_tool_calling @ (if provider_tools then [''provider_tool''] else [])\<rparr>"

fun adapter_capabilities :: "protocol \<Rightarrow> capability_set" where
  "adapter_capabilities ProtocolChat = adapter_capabilities_of [StructuredOutput, JsonMode, CapSeed] True False"
| "adapter_capabilities ProtocolMessages = adapter_capabilities_of [StructuredOutput, ProviderTools] False True"
| "adapter_capabilities ProtocolResponses =
     adapter_capabilities_of [StructuredOutput, JsonMode, ProviderTools, FreeformTools] False True"

fun adapter_endpoint :: "protocol \<Rightarrow> string" where
  "adapter_endpoint ProtocolChat = ''chat/completions''"
| "adapter_endpoint ProtocolMessages = ''messages''"
| "adapter_endpoint ProtocolResponses = ''responses''"

fun supports_fidelity :: "protocol \<Rightarrow> bool" where
  "supports_fidelity ProtocolMessages = False"
| "supports_fidelity _ = True"

text \<open>
  \<open>hm_extension\<close> is the factory of extension sessions: the hooks with their first state. Durations are in
  nanoseconds.
\<close>

record 'x http_model =
  hm_base_url :: string
  hm_model :: string
  hm_timeout :: nat
  hm_protocol :: protocol
  hm_capabilities :: capability_set
  hm_extension :: "(protocol \<Rightarrow> model_request \<Rightarrow> run_context \<Rightarrow> ('x extension \<times> 'x) result) option"
  hm_mappings :: "profile_mapping list"
  hm_retry :: retry_policy
  hm_limited :: bool

definition http_model_new :: "string \<Rightarrow> string \<Rightarrow> nat \<Rightarrow> protocol \<Rightarrow> 'x http_model result" where
  "http_model_new base_url model timeout p =
     (if model = [] \<or> base_url = [] then Inl (Invalid ''model and base URL are required'')
      else r_bind (retry_new 3) (\<lambda>retry. r_bind (backoff_exponential (500 * 10 ^ 6) (8 * 10 ^ 9)) (\<lambda>backoff.
        Inr \<lparr>hm_base_url = base_url, hm_model = model, hm_timeout = timeout, hm_protocol = p,
          hm_capabilities = (adapter_capabilities p)\<lparr>cap_features := cap_features (adapter_capabilities p) \<union> exchange_features\<rparr>,
          hm_extension = None, hm_mappings = [], hm_retry = retry\<lparr>rt_backoff := backoff\<rparr>, hm_limited = False\<rparr>)))"

definition with_profile_mapping :: "profile_mapping \<Rightarrow> 'x http_model \<Rightarrow> 'x http_model result" where
  "with_profile_mapping mapping M =
     (if \<exists>old \<in> set (hm_mappings M). maps_to (pm_key mapping) (pm_value mapping) old
      then Inl (Invalid ''duplicate profile mapping'')
      else (let caps = hm_capabilities M;
                values = (case om_get (cap_constraints caps) (pm_key mapping) of None \<Rightarrow> [] | Some vs \<Rightarrow> vs) in
        Inr (M\<lparr>hm_capabilities := caps\<lparr>cap_constraints :=
              om_insert (pm_key mapping) (values @ [pm_value mapping]) (cap_constraints caps)\<rparr>,
            hm_mappings := hm_mappings M @ [mapping]\<rparr>)))"

definition with_capabilities :: "capability_set \<Rightarrow> 'x http_model \<Rightarrow> 'x http_model" where
  "with_capabilities caps M = M\<lparr>hm_capabilities := caps\<lparr>cap_features := cap_features caps \<union> exchange_features\<rparr>\<rparr>"

definition http_negotiate :: "'x http_model \<Rightarrow> model_request \<Rightarrow> negotiated_profile result" where
  "http_negotiate M request = r_bind (exchange_validate_capabilities (hm_capabilities M)) (\<lambda>_.
     profiles_negotiate request (hm_capabilities M) (hm_mappings M) (supports_fidelity (hm_protocol M)))"

section \<open>The world of an exchange\<close>

record http_call =
  hc_url :: string
  hc_timeout :: nat
  hc_headers :: "(string \<times> string) list"
  hc_body :: json

text \<open>How the HTTP library fails, with its text, and what it returns of a response.\<close>

datatype http_failure = ConnectFailure string | BuilderFailure string | TransferFailure string

record http_response =
  hr_status :: nat
  hr_retry_after :: "string option"
  hr_text :: string
  hr_json :: "http_failure + json"
  hr_chunks :: "(http_failure + string) list"

record ('x, 'c, 'h, 'k) http_world =
  hw_time :: timer_state
  hw_extension :: 'x
  hw_credentials :: 'c
  hw_network :: 'h
  hw_sink :: 'k
  hw_log :: "(http_call \<times> (http_failure + http_response)) list"

text \<open>\<open>he_free k\<close> says whether the k-th poll for a permit of the request limit finds one.\<close>

record ('c, 'h, 'k) http_env =
  he_wire :: wire_lib
  he_fidelity :: "json \<Rightarrow> string + fidelity"
  he_timer :: timer
  he_now_ms :: nat
  he_run :: run_context
  he_free :: "nat \<Rightarrow> bool"
  he_wall :: "'h \<Rightarrow> (string + u64) \<times> 'h"
  he_credentials :: "'c credential_provider"
  he_post :: "http_call \<Rightarrow> 'h \<Rightarrow> (http_failure + http_response) \<times> 'h"
  he_sink :: "(model_delta \<Rightarrow> 'k \<Rightarrow> unit result \<times> 'k) option"

definition check_cancelled :: "('c, 'h, 'k) http_env \<Rightarrow> (('x, 'c, 'h, 'k) http_world, unit) wire" where
  "check_cancelled H w = (case timing_check (he_timer H) None (hw_time w) of (r, s) \<Rightarrow> (a_result r, w\<lparr>hw_time := s\<rparr>))"

definition on_extension :: "('x, 'a) wire \<Rightarrow> (('x, 'c, 'h, 'k) http_world, 'a) wire" where
  "on_extension m w = (case m (hw_extension w) of (a, x) \<Rightarrow> (a, w\<lparr>hw_extension := x\<rparr>))"

section \<open>Preparation\<close>

fun failed_tool :: "message \<Rightarrow> bool" where
  "failed_tool (RuntimeTool _ _ (OutcomeFailure _)) = True"
| "failed_tool _ = False"

definition start_extension ::
  "'x http_model \<Rightarrow> ('c, 'h, 'k) http_env \<Rightarrow> model_request \<Rightarrow> (('x, 'c, 'h, 'k) http_world, 'x extension option) wire" where
  "start_extension M H request w = (case hm_extension M of
       None \<Rightarrow> (Gives None, w)
     | Some create \<Rightarrow> (case create (hm_protocol M) request (he_run H) of
           Inl e \<Rightarrow> (Fails e, w)
         | Inr (E, x) \<Rightarrow> (Gives (Some E), w\<lparr>hw_extension := x\<rparr>)))"

definition http_prepare ::
  "'x http_model \<Rightarrow> ('c, 'h, 'k) http_env \<Rightarrow> model_request
    \<Rightarrow> (('x, 'c, 'h, 'k) http_world, model_request \<times> json \<times> 'x extension option) wire" where
  "http_prepare M H request =
     w_bind (w_lift (http_negotiate M request)) (\<lambda>profile.
     w_bind (w_lift (profile_apply (he_fidelity H) profile request)) (\<lambda>request.
     w_bind (w_lift (fail_if (''text'' \<notin> set (cap_input_modalities (hm_capabilities M))
         \<and> (\<exists>m \<in> set (mr_messages request). failed_tool m))
       (Invalid ''model cannot receive textual tool failures''))) (\<lambda>_.
     w_bind (check_cancelled H) (\<lambda>_.
     w_bind (start_extension M H request) (\<lambda>E.
     w_bind (on_extension (codec_encode E (he_wire H) (hm_protocol M) (hm_model M) request)) (\<lambda>body.
     w_bind (w_attempt (profile_fields (hm_mappings M) (np_selected profile) body)) (\<lambda>(controlled, body).
     w_bind (case E of None \<Rightarrow> w_return body
             | Some e \<Rightarrow> on_extension (px_request e (hm_protocol M) request body)) (\<lambda>body.
     w_bind (w_lift (fail_if (\<exists>(field, value) \<in> set controlled. json_get field body \<noteq> Some value)
       (Invalid ''extension changed negotiated profile''))) (\<lambda>_.
     w_bind (check_cancelled H) (\<lambda>_.
       w_return (request, body, E)))))))))))"

end
