(* ===== verification/Http_Exchange.thy ===== *)
theory Http_Exchange
  imports Http_Model
begin

text \<open>
  The exchange of \<open>zhir-models/src/http.rs\<close>: one attempt with its refreshed credential, the retries, the
  reading of the response, streamed (\<open>streaming/http.rs\<close>) or whole. The lemmas relate what was posted to
  what was prepared and to the replies: nothing is posted twice that a service may have accepted.
\<close>

section \<open>Errors\<close>

fun request_error :: "http_failure \<Rightarrow> error" where
  "request_error (ConnectFailure text) =
     ModelError \<lparr>failure_code = ''http_connect'', failure_message = text, failure_retryable = True\<rparr>"
| "request_error (BuilderFailure text) = Invalid text"
| "request_error (TransferFailure text) = Uncertain text"

definition http_error :: "http_response \<Rightarrow> error" where
  "http_error r = ModelError \<lparr>failure_code = ''http_'' @ dec (hr_status r), failure_message = hr_text r,
     failure_retryable = (hr_status r = 429 \<or> 500 \<le> hr_status r \<and> hr_status r < 600)\<rparr>"

definition http_success :: "http_response \<Rightarrow> bool" where
  "http_success r \<longleftrightarrow> 200 \<le> hr_status r \<and> hr_status r < 300"

fun model_retryable :: "error \<Rightarrow> bool" where
  "model_retryable (ModelError f) = failure_retryable f"
| "model_retryable _ = False"

text \<open>A header that reads as text has printable characters, spaces and tabs; seconds become nanoseconds.\<close>

definition trim_header :: "string \<Rightarrow> string" where
  "trim_header s = (let skip = dropWhile (\<lambda>c. c = CHR '' '' \<or> c = CHR 0x09) in rev (skip (rev (skip s))))"

definition retry_after :: "http_response \<Rightarrow> nat option" where
  "retry_after r = Option.bind (hr_retry_after r) (\<lambda>s. case parse_u64 (trim_header s) of
     Inl _ \<Rightarrow> None | Inr seconds \<Rightarrow> Some (unat seconds * 10 ^ 9))"

section \<open>Attempts\<close>

fun authorize :: "protocol \<Rightarrow> credential \<Rightarrow> (string \<times> string) list" where
  "authorize ProtocolMessages c = [(''x-api-key'', crd_value c), (''anthropic-version'', ''2023-06-01'')]"
| "authorize _ c = [(''authorization'', crd_scheme c @ '' '' @ crd_value c)]"

definition credential_headers :: "credential \<Rightarrow> (string \<times> string) list" where
  "credential_headers c = concat (map (\<lambda>(key, value).
     if take 7 key = ''header:'' then [(drop 7 key, value)] else []) (crd_metadata c))"

definition http_call_of :: "'x http_model \<Rightarrow> json \<Rightarrow> credential \<Rightarrow> http_call" where
  "http_call_of M body c = \<lparr>
     hc_url = rev (dropWhile (\<lambda>c. c = CHR ''/'') (rev (hm_base_url M))) @ ''/'' @ adapter_endpoint (hm_protocol M),
     hc_timeout = hm_timeout M, hc_headers = authorize (hm_protocol M) c @ credential_headers c, hc_body = body\<rparr>"

datatype round_end = Answered http_response | Rejected error "nat option" | Refreshed

text \<open>The request that is posted is logged with its reply.\<close>

definition http_post ::
  "('c, 'h, 'k) http_env \<Rightarrow> http_call \<Rightarrow> ('x, 'c, 'h, 'k) http_world
    \<Rightarrow> (http_failure + http_response) \<times> ('x, 'c, 'h, 'k) http_world" where
  "http_post H call w = (case he_post H call (hw_network w) of (reply, h) \<Rightarrow>
     (reply, w\<lparr>hw_network := h, hw_log := hw_log w @ [(call, reply)]\<rparr>))"

definition http_received ::
  "('c, 'h, 'k) http_env \<Rightarrow> bool \<Rightarrow> credential \<Rightarrow> http_failure + http_response \<Rightarrow> 'c \<Rightarrow> round_end \<times> 'c" where
  "http_received H first c reply s = (case reply of
       Inl f \<Rightarrow> (Rejected (request_error f) None, s)
     | Inr r \<Rightarrow>
         (if hr_status r = 401 \<and> first
          then (case cv_invalidate (he_credentials H) (crd_generation c) s of
              (Inl e, s') \<Rightarrow> (Rejected e None, s')
            | (Inr _, s') \<Rightarrow> (Refreshed, s'))
          else if \<not> http_success r then (Rejected (http_error r) (retry_after r), s)
          else (Answered r, s)))"

definition http_round ::
  "'x http_model \<Rightarrow> ('c, 'h, 'k) http_env \<Rightarrow> json \<Rightarrow> bool \<Rightarrow> ('x, 'c, 'h, 'k) http_world
    \<Rightarrow> round_end \<times> ('x, 'c, 'h, 'k) http_world" where
  "http_round M H body first w = (case he_wall H (hw_network w) of
       (Inl e, h) \<Rightarrow> (Rejected (Invalid e) None, w\<lparr>hw_network := h\<rparr>)
     | (Inr now, h) \<Rightarrow>
         (case cv_resolve (he_credentials H) \<lparr>cx_audience = hm_base_url M, cx_now_ms = now\<rparr> (hw_credentials w) of
            (Inl e, s) \<Rightarrow> (Rejected e None, w\<lparr>hw_credentials := s, hw_network := h\<rparr>)
          | (Inr c, s) \<Rightarrow>
              (case http_post H (http_call_of M body c) (w\<lparr>hw_credentials := s, hw_network := h\<rparr>) of (reply, w1) \<Rightarrow>
                (case http_received H first c reply s of (r, s') \<Rightarrow> (r, w1\<lparr>hw_credentials := s'\<rparr>)))))"

definition http_attempt ::
  "'x http_model \<Rightarrow> ('c, 'h, 'k) http_env \<Rightarrow> json \<Rightarrow> ('x, 'c, 'h, 'k) http_world
    \<Rightarrow> round_end \<times> ('x, 'c, 'h, 'k) http_world" where
  "http_attempt M H body w = (case http_round M H body True w of
       (Refreshed, w1) \<Rightarrow> http_round M H body False w1
     | other \<Rightarrow> other)"

section \<open>Retries\<close>

text \<open>Whether a retry after the delay could not start before the deadline.\<close>

definition beyond_deadline :: "timer \<Rightarrow> nat option \<Rightarrow> nat \<Rightarrow> timer_state \<Rightarrow> bool \<times> timer_state" where
  "beyond_deadline t deadline delay s = (case deadline of
       None \<Rightarrow> (False, s)
     | Some at \<Rightarrow> (let next = tm_now t (fst s) + delay in (tm_range t < next \<or> at \<le> next, (fst s + 1, snd s))))"

text \<open>
  The loop of \<open>send\<close>. Its attempts are bounded by the policy, which refuses a delay after the last one, so
  the recursion on the attempts left ends by itself. None is a wait that never ends.
\<close>

fun http_send_loop ::
  "'x http_model \<Rightarrow> ('c, 'h, 'k) http_env \<Rightarrow> json \<Rightarrow> nat option \<Rightarrow> nat \<Rightarrow> nat \<Rightarrow> ('x, 'c, 'h, 'k) http_world
    \<Rightarrow> (http_response result \<times> ('x, 'c, 'h, 'k) http_world) option" where
  "http_send_loop M H body deadline failed 0 w = None"
| "http_send_loop M H body deadline failed (Suc left) w = (case http_attempt M H body w of
       (Answered r, w1) \<Rightarrow> Some (Inr r, w1)
     | (Refreshed, w1) \<Rightarrow> None
     | (Rejected e after, w1) \<Rightarrow>
         (case (if model_retryable e then delay_after (hm_retry M) (failed + 1) else None) of
            None \<Rightarrow> Some (Inl e, w1)
          | Some backoff \<Rightarrow>
              (let delay = (case after of None \<Rightarrow> backoff | Some n \<Rightarrow> max n backoff) in
               case beyond_deadline (he_timer H) deadline delay (hw_time w1) of (late, s) \<Rightarrow>
                 (if late then Some (Inl e, w1\<lparr>hw_time := s\<rparr>)
                  else (case timing_wait (he_timer H) delay deadline s of
                      None \<Rightarrow> None
                    | Some (Inl e', s') \<Rightarrow> Some (Inl e', w1\<lparr>hw_time := s'\<rparr>)
                    | Some (Inr _, s') \<Rightarrow>
                        http_send_loop M H body deadline (failed + 1) left (w1\<lparr>hw_time := s'\<rparr>))))))"

definition http_send ::
  "'x http_model \<Rightarrow> ('c, 'h, 'k) http_env \<Rightarrow> json \<Rightarrow> nat option \<Rightarrow> ('x, 'c, 'h, 'k) http_world
    \<Rightarrow> (http_response result \<times> ('x, 'c, 'h, 'k) http_world) option" where
  "http_send M H body deadline = http_send_loop M H body deadline 0 (rt_max_attempts (hm_retry M))"

section \<open>Responses\<close>

text \<open>Every increment is offered to the sink, after a check of the cancellation.\<close>

fun emit_deltas :: "('c, 'h, 'k) http_env \<Rightarrow> model_delta list \<Rightarrow> (('x, 'c, 'h, 'k) http_world, unit) wire" where
  "emit_deltas H [] = w_return ()"
| "emit_deltas H (d # ds) = w_bind (check_cancelled H) (\<lambda>_. \<lambda>w. case he_sink H of
       None \<Rightarrow> (Gives (), w)
     | Some emit \<Rightarrow> (case emit d (hw_sink w) of (r, k) \<Rightarrow>
         w_bind (w_lift r) (\<lambda>_. emit_deltas H ds) (w\<lparr>hw_sink := k\<rparr>)))"

definition event_payload :: "wire_lib \<Rightarrow> sse_event \<Rightarrow> json" where
  "event_payload W ev = (case wl_parse W (se_data ev) of Inl _ \<Rightarrow> String (se_data ev) | Inr v \<Rightarrow> v)"

definition event_original :: "wire_lib \<Rightarrow> sse_event \<Rightarrow> model_delta" where
  "event_original W ev = (let payload = event_payload W ev in
     DeltaProtocolEvent
       (case Option.bind (case json_get ''output_index'' payload of None \<Rightarrow> json_get ''index'' payload | Some v \<Rightarrow> Some v) json_as_u64 of
          None \<Rightarrow> 0 | Some n \<Rightarrow> unat n)
       (json_obj [(''event'', json_option (se_event ev)), (''id'', json_option (se_id ev)),
          (''retry'', (case se_retry ev of None \<Rightarrow> Null | Some n \<Rightarrow> json_u64_value n)), (''data'', payload)]))"

definition stream_dispatch ::
  "protocol \<Rightarrow> ('c, 'h, 'k) http_env \<Rightarrow> 'x extension option \<Rightarrow> sse_event \<Rightarrow> stream_state
    \<Rightarrow> (('x, 'c, 'h, 'k) http_world, stream_state) wire" where
  "stream_dispatch p H E ev s = w_bind (check_cancelled H) (\<lambda>_.
     w_bind (case E of None \<Rightarrow> w_return (ev, []) | Some e \<Rightarrow> on_extension (px_event e p ev)) (\<lambda>(ev', extra).
     w_bind (w_attempt (stream_data (wl_parse (he_wire H)) (wl_render (he_wire H)) (se_data ev') s)) (\<lambda>(deltas, s').
     w_bind (if he_sink H = None then w_return () else emit_deltas H (event_original (he_wire H) ev # extra @ deltas)) (\<lambda>_.
       w_return s'))))"

fun stream_dispatches ::
  "protocol \<Rightarrow> ('c, 'h, 'k) http_env \<Rightarrow> 'x extension option \<Rightarrow> sse_event list \<Rightarrow> stream_state
    \<Rightarrow> (('x, 'c, 'h, 'k) http_world, stream_state) wire" where
  "stream_dispatches p H E [] s = w_return s"
| "stream_dispatches p H E (ev # evs) s =
     w_bind (stream_dispatch p H E ev s) (\<lambda>s'. stream_dispatches p H E evs s')"

fun stream_receive ::
  "protocol \<Rightarrow> ('c, 'h, 'k) http_env \<Rightarrow> 'x extension option \<Rightarrow> (http_failure + string) list \<Rightarrow> sse_decoder \<Rightarrow> stream_state
    \<Rightarrow> (('x, 'c, 'h, 'k) http_world, json) wire" where
  "stream_receive p H E [] d s = w_bind (w_lift (fst (sse_finish d))) (\<lambda>evs.
     w_bind (stream_dispatches p H E evs s) (\<lambda>s'. w_attempt (stream_finish s')))"
| "stream_receive p H E (chunk # chunks) d s = w_bind (check_cancelled H) (\<lambda>_.
     w_bind (w_lift (case chunk of Inl f \<Rightarrow> Inl (request_error f) | Inr bytes \<Rightarrow> Inr bytes)) (\<lambda>bytes.
     case sse_push bytes d of (r, d') \<Rightarrow>
       w_bind (w_lift r) (\<lambda>evs.
       w_bind (stream_dispatches p H E evs s) (\<lambda>s'. stream_receive p H E chunks d' s'))))"

section \<open>Exchanges\<close>

definition decode_with ::
  "'x extension option \<Rightarrow> wire_lib \<Rightarrow> protocol \<Rightarrow> json \<Rightarrow> ('x, generation_output) wire" where
  "decode_with E W p v = (case E of
       None \<Rightarrow> codec_decode E W p v
     | Some e \<Rightarrow> (\<lambda>x. case codec_decode E W p v x of
           (Gives g, x') \<Rightarrow> px_response e p v (Inr g) x'
         | (Fails err, x') \<Rightarrow> px_response e p v (Inl err) x'
         | (Panics, x') \<Rightarrow> (Panics, x')))"

definition http_answer ::
  "'x http_model \<Rightarrow> ('c, 'h, 'k) http_env \<Rightarrow> model_request \<Rightarrow> 'x extension option \<Rightarrow> http_response
    \<Rightarrow> (('x, 'c, 'h, 'k) http_world, generation_output) wire" where
  "http_answer M H request E r = (let p = hm_protocol M in
     w_bind (if mr_stream request then stream_receive p H E (hr_chunks r) sse_default (stream_new p)
             else w_lift (case hr_json r of Inl f \<Rightarrow> Inl (request_error f) | Inr v \<Rightarrow> Inr v)) (\<lambda>v.
     w_bind (check_cancelled H) (\<lambda>_.
     w_bind (on_extension (decode_with E (he_wire H) p v)) (\<lambda>g.
     w_bind (check_cancelled H) (\<lambda>_.
     w_bind (w_lift (generation_output_validate g)) (\<lambda>_. w_return g))))))"

text \<open>\<open>RequestLimit::acquire\<close>: a race of the permit, which is polled first, with the interruption.\<close>

partial_function (option) permit_wait ::
  "timer \<Rightarrow> nat option \<Rightarrow> (nat \<Rightarrow> bool) \<Rightarrow> nat \<Rightarrow> timer_state \<Rightarrow> (unit result \<times> timer_state) option" where
  "permit_wait t deadline free k s = (if free k then Some (Inr (), s)
     else (case timing_check t deadline s of
         (Inl e, s') \<Rightarrow> Some (Inl e, s')
       | (Inr _, s') \<Rightarrow> permit_wait t deadline free (k + 1) s'))"

definition permit_acquire ::
  "timer \<Rightarrow> nat option \<Rightarrow> (nat \<Rightarrow> bool) \<Rightarrow> timer_state \<Rightarrow> (unit result \<times> timer_state) option" where
  "permit_acquire t deadline free s = (case timing_check t deadline s of
       (Inl e, s') \<Rightarrow> Some (Inl e, s')
     | (Inr _, s') \<Rightarrow> permit_wait t deadline free 0 s')"

definition http_exchange ::
  "'x http_model \<Rightarrow> ('c, 'h, 'k) http_env \<Rightarrow> model_request \<Rightarrow> ('x, 'c, 'h, 'k) http_world
    \<Rightarrow> (generation_output attempt \<times> ('x, 'c, 'h, 'k) http_world) option" where
  "http_exchange M H request w = (case http_prepare M H request w of
       (Panics, w1) \<Rightarrow> Some (Panics, w1)
     | (Fails e, w1) \<Rightarrow> Some (Fails e, w1)
     | (Gives (request, body, E), w1) \<Rightarrow>
         (case timing_deadline (he_timer H) (he_now_ms H) (he_run H) (hw_time w1) of
            (Inl e, s) \<Rightarrow> Some (Fails e, w1\<lparr>hw_time := s\<rparr>)
          | (Inr deadline, s) \<Rightarrow>
              (case (if hm_limited M then permit_acquire (he_timer H) deadline (he_free H) s else Some (Inr (), s)) of
                 None \<Rightarrow> None
               | Some (Inl e, s') \<Rightarrow> Some (Fails e, w1\<lparr>hw_time := s'\<rparr>)
               | Some (Inr _, s') \<Rightarrow>
                   (case http_send M H body deadline (w1\<lparr>hw_time := s'\<rparr>) of
                      None \<Rightarrow> None
                    | Some (Inl e, w2) \<Rightarrow> Some (Fails e, w2)
                    | Some (Inr r, w2) \<Rightarrow> Some (http_answer M H request E r w2)))))"

section \<open>What is posted\<close>

text \<open>A reply after which nothing was accepted: the request may be sent again.\<close>

fun refused_reply :: "http_failure + http_response \<Rightarrow> bool" where
  "refused_reply (Inl (ConnectFailure _)) = True"
| "refused_reply (Inl _) = False"
| "refused_reply (Inr r) = (hr_status r = 401 \<or> hr_status r = 429 \<or> 500 \<le> hr_status r \<and> hr_status r < 600)"

text \<open>What a number of posts with their replies may look like, and what the last one has to be.\<close>

definition posts_ok :: "json \<Rightarrow> nat \<Rightarrow> (http_call \<times> (http_failure + http_response)) list \<Rightarrow> bool" where
  "posts_ok body n new \<longleftrightarrow> length new \<le> n \<and> (\<forall>(call, _) \<in> set new. hc_body call = body)
     \<and> (\<forall>(_, reply) \<in> set (butlast new). refused_reply reply)"

definition all_refused :: "(http_call \<times> (http_failure + http_response)) list \<Rightarrow> bool" where
  "all_refused new \<longleftrightarrow> (\<forall>(_, reply) \<in> set new. refused_reply reply)"

definition answered_by :: "(http_call \<times> (http_failure + http_response)) list \<Rightarrow> http_response \<Rightarrow> bool" where
  "answered_by new r \<longleftrightarrow> new \<noteq> [] \<and> snd (last new) = Inr r \<and> http_success r"

lemma posts_ok_append:
  assumes "posts_ok body n new" and "all_refused new" and "posts_ok body k later"
  shows "posts_ok body (n + k) (new @ later)"
  using assms by (cases "later = []") (auto simp: posts_ok_def all_refused_def butlast_append dest: in_set_butlastD)

lemma answered_by_append: "answered_by later r \<Longrightarrow> answered_by (new @ later) r"
  by (simp add: answered_by_def)

text \<open>What the end of a round or an attempt says about its posts.\<close>

fun round_posts :: "bool \<Rightarrow> (http_call \<times> (http_failure + http_response)) list \<Rightarrow> round_end \<Rightarrow> bool" where
  "round_posts first new (Answered r) = answered_by new r"
| "round_posts first new (Rejected e _) = (model_retryable e \<longrightarrow> all_refused new)"
| "round_posts first new Refreshed = (first \<and> all_refused new)"

lemma retryable_failure: "model_retryable (request_error f) \<Longrightarrow> refused_reply (Inl f)"
  by (cases f) simp_all

lemma http_round_posts:
  assumes "http_round M H body first w = (r, w')"
  shows "\<exists>new. hw_log w' = hw_log w @ new \<and> posts_ok body 1 new \<and> round_posts first new r"
proof -
  obtain now h where wall: "he_wall H (hw_network w) = (now, h)" by (cases "he_wall H (hw_network w)")
  show ?thesis
  proof (cases now)
    case (Inl e)
    then show ?thesis using assms wall
      by (intro exI [of _ "[]"]) (auto simp: http_round_def posts_ok_def all_refused_def)
  next
    case (Inr ms)
    obtain c s where c: "cv_resolve (he_credentials H) \<lparr>cx_audience = hm_base_url M, cx_now_ms = ms\<rparr> (hw_credentials w) = (c, s)"
      by (cases "cv_resolve (he_credentials H) \<lparr>cx_audience = hm_base_url M, cx_now_ms = ms\<rparr> (hw_credentials w)")
    show ?thesis
    proof (cases c)
      case (Inl e)
      then show ?thesis using assms wall Inr c
        by (intro exI [of _ "[]"]) (auto simp: http_round_def posts_ok_def all_refused_def)
    next
      case (Inr crd)
      let ?call = "http_call_of M body crd"
      obtain reply h' where post: "he_post H ?call h = (reply, h')" by (cases "he_post H ?call h")
      obtain r' s' where got: "http_received H first crd reply s = (r', s')" by (cases "http_received H first crd reply s")
      have ends: "r' = r" "hw_log w' = hw_log w @ [(?call, reply)]"
        using assms wall \<open>now = Inr ms\<close> c Inr post got by (auto simp: http_round_def http_post_def)
      have "round_posts first [(?call, reply)] r'"
        using got by (cases reply)
          (auto simp: http_received_def http_error_def all_refused_def answered_by_def retryable_failure split: if_splits prod.splits sum.splits)
      then show ?thesis using ends by (intro exI [of _ "[(?call, reply)]"]) (simp add: posts_ok_def http_call_of_def)
    qed
  qed
qed

lemma http_attempt_posts:
  assumes "http_attempt M H body w = (r, w')"
  shows "\<exists>new. hw_log w' = hw_log w @ new \<and> posts_ok body 2 new \<and> round_posts False new r"
proof -
  obtain r1 w1 where first: "http_round M H body True w = (r1, w1)" by (cases "http_round M H body True w")
  obtain new where new: "hw_log w1 = hw_log w @ new" "posts_ok body 1 new" "round_posts True new r1"
    using http_round_posts [OF first] by blast
  show ?thesis
  proof (cases "r1 = Refreshed")
    case True
    then have again: "http_round M H body False w1 = (r, w')" using assms first by (simp add: http_attempt_def)
    obtain later where later: "hw_log w' = hw_log w1 @ later" "posts_ok body 1 later" "round_posts False later r"
      using http_round_posts [OF again] by blast
    have "all_refused new" using new(3) True by simp
    then have "posts_ok body 2 (new @ later) \<and> round_posts False (new @ later) r"
      using posts_ok_append [OF new(2) _ later(2)] later(3)
      by (cases r) (auto simp: answered_by_append all_refused_def numeral_2_eq_2)
    then show ?thesis using new(1) later(1) by auto
  next
    case False
    then have "r = r1 \<and> w' = w1" using assms first by (auto simp: http_attempt_def split: round_end.splits)
    then show ?thesis using new False by (cases r1) (auto simp: posts_ok_def)
  qed
qed

lemma attempt_never_refreshed: "http_attempt M H body w \<noteq> (Refreshed, w')"
  using http_attempt_posts [of M H body w Refreshed w'] by auto

lemma http_send_loop_retry:
  assumes "http_attempt M H body w = (Rejected e after, w1)" "model_retryable e" "delay_after (hm_retry M) (failed + 1) = Some b"
    and "delay = (case after of None \<Rightarrow> b | Some n \<Rightarrow> max n b)" "beyond_deadline (he_timer H) deadline delay (hw_time w1) = (late, s)"
  shows "http_send_loop M H body deadline failed (Suc left) w =
    (if late then Some (Inl e, w1\<lparr>hw_time := s\<rparr>)
     else (case timing_wait (he_timer H) delay deadline s of None \<Rightarrow> None
        | Some (Inl e', s') \<Rightarrow> Some (Inl e', w1\<lparr>hw_time := s'\<rparr>)
        | Some (Inr _, s') \<Rightarrow> http_send_loop M H body deadline (failed + 1) left (w1\<lparr>hw_time := s'\<rparr>)))"
  using assms(1-3) assms(5) [unfolded assms(4)] by (simp add: assms(4) Let_def)

text \<open>The loop never posts what a reply did not refuse, and posts at most twice per attempt.\<close>

lemma http_send_loop_posts:
  assumes "http_send_loop M H body deadline failed left w = Some (r, w')"
  shows "\<exists>new. hw_log w' = hw_log w @ new \<and> posts_ok body (2 * left) new
    \<and> (\<forall>resp. r = Inr resp \<longrightarrow> answered_by new resp)"
  using assms
proof (induction M H body deadline failed left w rule: http_send_loop.induct)
  case (2 M H body deadline failed left w)
  obtain r1 w1 where att: "http_attempt M H body w = (r1, w1)" by (cases "http_attempt M H body w")
  obtain new where new: "hw_log w1 = hw_log w @ new" "posts_ok body 2 new" "round_posts False new r1"
    using http_attempt_posts [OF att] by blast
  have later: "posts_ok body (2 * Suc left) new" using new(2) by (simp add: posts_ok_def)
  show ?case
  proof (cases r1)
    case (Answered resp)
    then show ?thesis using "2.prems" att new later by auto
  next
    case Refreshed
    then show ?thesis using "2.prems" att by simp
  next
    case (Rejected e after)
    define backoff where "backoff = (if model_retryable e then delay_after (hm_retry M) (failed + 1) else None)"
    show ?thesis
    proof (cases backoff)
      case None
      then show ?thesis using "2.prems" att Rejected new later by (auto simp: backoff_def)
    next
      case (Some b)
      define delay where "delay = (case after of None \<Rightarrow> b | Some n \<Rightarrow> max n b)"
      obtain late s where late: "beyond_deadline (he_timer H) deadline delay (hw_time w1) = (late, s)"
        by (cases "beyond_deadline (he_timer H) deadline delay (hw_time w1)")
      have retryable: "model_retryable e" using Some by (auto simp: backoff_def split: if_splits)
      have body: "(if late then Some (Inl e, w1\<lparr>hw_time := s\<rparr>)
            else (case timing_wait (he_timer H) delay deadline s of None \<Rightarrow> None
               | Some (Inl e', s') \<Rightarrow> Some (Inl e', w1\<lparr>hw_time := s'\<rparr>)
               | Some (Inr _, s') \<Rightarrow> http_send_loop M H body deadline (failed + 1) left (w1\<lparr>hw_time := s'\<rparr>))) = Some (r, w')"
        using "2.prems" http_send_loop_retry [OF att [unfolded Rejected] retryable _ delay_def late, of failed left] Some retryable
        by (simp add: backoff_def)
      show ?thesis
      proof (cases "\<exists>s'. \<not> late \<and> timing_wait (he_timer H) delay deadline s = Some (Inr (), s')")
        case False
        then have "(\<exists>e'. r = Inl e') \<and> hw_log w' = hw_log w1"
          using body by (auto split: if_splits option.splits sum.splits)
        then show ?thesis using new later by auto
      next
        case True
        then obtain s' where wait: "\<not> late" "timing_wait (he_timer H) delay deadline s = Some (Inr (), s')" by blast
        have rest: "http_send_loop M H body deadline (failed + 1) left (w1\<lparr>hw_time := s'\<rparr>) = Some (r, w')"
          using body wait by simp
        obtain post where post: "hw_log w' = hw_log w1 @ post" "posts_ok body (2 * left) post"
            "\<forall>resp. r = Inr resp \<longrightarrow> answered_by post resp"
          using "2.IH" [OF att [symmetric] Rejected Some [unfolded backoff_def] delay_def late [symmetric] wait(1) wait(2) refl refl] rest
          by auto
        have "posts_ok body (2 * Suc left) (new @ post)"
          using posts_ok_append [OF new(2) _ post(2)] new(3) Rejected retryable by simp
        then show ?thesis using new(1) post answered_by_append by auto
      qed
    qed
  qed
qed simp

text \<open>On a clock that advances the loop comes to an end.\<close>

lemma http_send_loop_ends:
  assumes "mono (tm_now (he_timer H))" "\<And>i. \<exists>k. i \<le> tm_now (he_timer H) k"
    and "failed + left = rt_max_attempts (hm_retry M)" "0 < left"
  shows "\<exists>y. http_send_loop M H body deadline failed left w = Some y"
  using assms(3,4)
proof (induction left arbitrary: failed w)
  case (Suc left)
  obtain r1 w1 where att: "http_attempt M H body w = (r1, w1)" by (cases "http_attempt M H body w")
  show ?case
  proof (cases "\<exists>e after b. r1 = Rejected e after \<and> model_retryable e \<and> delay_after (hm_retry M) (failed + 1) = Some b")
    case False
    then show ?thesis using att attempt_never_refreshed [of M H body w w1]
      by (cases r1) (auto split: option.splits)
  next
    case True
    then obtain e after b where rej: "r1 = Rejected e after" "model_retryable e" "delay_after (hm_retry M) (failed + 1) = Some b"
      by blast
    define delay where "delay = (case after of None \<Rightarrow> b | Some n \<Rightarrow> max n b)"
    obtain late s where late: "beyond_deadline (he_timer H) deadline delay (hw_time w1) = (late, s)"
      by (cases "beyond_deadline (he_timer H) deadline delay (hw_time w1)")
    obtain x s' where wait: "timing_wait (he_timer H) delay deadline s = Some (x, s')"
      using timing_wait_ends [OF assms(1,2)] by blast
    have "delay_after (hm_retry M) (failed + 1) \<noteq> None" using rej(3) by simp
    then have "failed + 1 < rt_max_attempts (hm_retry M)" unfolding delay_after_Some by simp
    then have "0 < left" using Suc.prems(1) by simp
    then have "\<exists>y. http_send_loop M H body deadline (failed + 1) left (w1\<lparr>hw_time := s'\<rparr>) = Some y"
      using Suc.IH [of "failed + 1"] Suc.prems(1) by simp
    then show ?thesis
      using http_send_loop_retry [OF att [unfolded rej(1)] rej(2,3) delay_def late, of left] wait by (cases x) auto
  qed
qed simp

section \<open>What is prepared\<close>

text \<open>A computation that posts nothing.\<close>

definition log_kept :: "(('x, 'c, 'h, 'k) http_world, 'a) wire \<Rightarrow> bool" where
  "log_kept m \<longleftrightarrow> (\<forall>w. hw_log (snd (m w)) = hw_log w)"

named_theorems log_intros \<open>computations that post nothing\<close>

lemma log_keptD: "log_kept m \<Longrightarrow> m w = (r, w') \<Longrightarrow> hw_log w' = hw_log w"
  unfolding log_kept_def by (metis snd_conv)

lemma log_kept_bind [log_intros]: "log_kept m \<Longrightarrow> (\<And>a. log_kept (f a)) \<Longrightarrow> log_kept (w_bind m f)"
  by (auto simp: log_kept_def w_bind_def split: prod.split attempt.split) (metis snd_conv)+

lemma log_kept_basic [log_intros]: "log_kept (w_lift r)" "log_kept (w_return x)" "log_kept (w_attempt t)"
  "log_kept (check_cancelled H)" "log_kept (on_extension m)" "log_kept (start_extension M H request)"
  by (auto simp: log_kept_def w_lift_def w_return_def w_attempt_def check_cancelled_def on_extension_def start_extension_def
      split: prod.split option.split sum.split)

lemma mappings_cover_Inr:
  "mappings_cover mappings images sel = Inr () \<longleftrightarrow>
     (\<forall>(key, value) \<in> set sel. needs_no_mapping images key value \<or> (\<exists>m \<in> set mappings. maps_to key value m))"
  by (induction mappings images sel rule: mappings_cover.induct) auto

text \<open>Every selected value with a mapping is controlled.\<close>

lemma profile_fields_controlled:
  "profile_fields mappings sel body = Gives (controlled, body') \<Longrightarrow> (key, value) \<in> set sel \<Longrightarrow>
     find (maps_to key value) mappings = Some m \<Longrightarrow> (pm_field m, pm_wire_value m) \<in> set controlled"
  by (induction mappings sel body arbitrary: controlled body' rule: profile_fields.induct)
    (auto simp: attempt_simps split: option.splits)

text \<open>
  What a body has to hold of a negotiated profile: for every selected value that needs a mapping, the field
  of its mapping with the wire value.
\<close>

definition body_honours :: "'x http_model \<Rightarrow> negotiated_profile \<Rightarrow> json \<Rightarrow> bool" where
  "body_honours M p body \<longleftrightarrow> (\<forall>(key, value) \<in> set (np_selected p).
     needs_no_mapping (supports_fidelity (hm_protocol M)) key value
     \<or> (\<exists>m \<in> set (hm_mappings M). maps_to key value m \<and> json_get (pm_field m) body = Some (pm_wire_value m)))"

lemma http_prepare_honours:
  assumes "http_prepare M H request w = (Gives (request', body, E), w')"
  shows "hw_log w' = hw_log w \<and> (\<exists>p. http_negotiate M request = Inr p \<and> body_honours M p body)"
proof -
  obtain p request1 w1 w2 w3 body1 controlled body2 body3 w4 w5 where
    neg: "http_negotiate M request = Inr p"
    and pre: "check_cancelled H w = (Gives (), w1)" "start_extension M H request1 w1 = (Gives E, w2)"
      "on_extension (codec_encode E (he_wire H) (hm_protocol M) (hm_model M) request1) w2 = (Gives body1, w3)"
    and fields: "profile_fields (hm_mappings M) (np_selected p) body1 = Gives (controlled, body2)"
    and adds: "(case E of None \<Rightarrow> w_return body2 | Some e \<Rightarrow> on_extension (px_request e (hm_protocol M) request1 body2)) w3 = (Gives body3, w4)"
    and kept: "\<not> (\<exists>(field, value) \<in> set controlled. json_get field body3 \<noteq> Some value)"
    and last: "check_cancelled H w4 = (Gives (), w5)" "body = body3" "w' = w5"
    using assms unfolding http_prepare_def attempt_simps
    by (elim exE conjE) (auto simp: attempt_simps fail_if_Inr split: prod.splits)
  have "log_kept (http_prepare M H request)"
    unfolding http_prepare_def by (intro log_intros) (auto intro!: log_intros split: prod.split option.split)
  then have log: "hw_log w' = hw_log w" using assms by (rule log_keptD)
  have "mappings_cover (hm_mappings M) (supports_fidelity (hm_protocol M)) (np_selected p) = Inr ()"
    using neg by (auto simp: http_negotiate_def profiles_negotiate_def r_bind_Inr)
  then have "body_honours M p body"
    unfolding body_honours_def mappings_cover_Inr
  proof (intro ballI)
    fix kv
    assume cover: "\<forall>(key, value) \<in> set (np_selected p).
        needs_no_mapping (supports_fidelity (hm_protocol M)) key value \<or> (\<exists>m \<in> set (hm_mappings M). maps_to key value m)"
      and kv: "kv \<in> set (np_selected p)"
    obtain k v where pair: "kv = (k, v)" by (cases kv)
    have "json_get (pm_field m) body = Some (pm_wire_value m)" if m: "find (maps_to k v) (hm_mappings M) = Some m" for m
      using profile_fields_controlled [OF fields kv [unfolded pair] m] kept last(2) by auto
    moreover have "\<exists>m. find (maps_to k v) (hm_mappings M) = Some m" if "\<exists>m \<in> set (hm_mappings M). maps_to k v m"
      using that find_None_iff [of "maps_to k v" "hm_mappings M"] by fastforce
    moreover have "m \<in> set (hm_mappings M) \<and> maps_to k v m" if "find (maps_to k v) (hm_mappings M) = Some m" for m
      using that by (auto simp: find_Some_iff)
    ultimately show "case kv of (key, value) \<Rightarrow> needs_no_mapping (supports_fidelity (hm_protocol M)) key value
        \<or> (\<exists>m \<in> set (hm_mappings M). maps_to key value m \<and> json_get (pm_field m) body = Some (pm_wire_value m))"
      using cover kv pair by fastforce
  qed
  then show ?thesis using log neg by blast
qed

section \<open>Exchanges\<close>

text \<open>Reading a response posts nothing.\<close>

lemma emit_deltas_log [log_intros]:
  "log_kept (emit_deltas (H :: ('c, 'h, 'k) http_env) ds :: (('x, 'c, 'h, 'k) http_world, unit) wire)"
proof (induction ds)
  case (Cons d ds)
  show ?case unfolding emit_deltas.simps
  proof (rule log_kept_bind [OF log_kept_basic(4)])
    fix u
    have kept: "hw_log (snd (w_bind (w_lift r) (\<lambda>_. emit_deltas H ds) w)) = hw_log w"
      for r :: "unit result" and w :: "('x, 'c, 'h, 'k) http_world"
      by (rule log_kept_bind [OF log_kept_basic(1) Cons, unfolded log_kept_def, rule_format])
    show "log_kept (\<lambda>w :: ('x, 'c, 'h, 'k) http_world. case he_sink H of None \<Rightarrow> (Gives (), w)
        | Some emit \<Rightarrow> (case emit d (hw_sink w) of (r, k) \<Rightarrow> w_bind (w_lift r) (\<lambda>_. emit_deltas H ds) (w\<lparr>hw_sink := k\<rparr>)))"
      by (auto simp: log_kept_def kept split: option.split prod.split)
  qed
qed (simp add: log_intros)

lemma stream_dispatch_log [log_intros]: "log_kept (stream_dispatch p H E ev s)"
  unfolding stream_dispatch_def
  by (auto intro!: log_intros split: option.split prod.split simp del: emit_deltas.simps)

lemma stream_dispatches_log [log_intros]: "log_kept (stream_dispatches p H E evs s)"
  by (induction evs arbitrary: s) (auto intro!: log_intros)

lemma stream_receive_log [log_intros]: "log_kept (stream_receive p H E chunks d s)"
  by (induction chunks arbitrary: d s) (auto intro!: log_intros split: prod.split)

lemma http_answer_log: "log_kept (http_answer M H request E resp)"
  unfolding http_answer_def Let_def by (auto intro!: log_intros)

text \<open>What an exchange posted, in the order of its parts.\<close>

definition exchange_posts ::
  "'x http_model \<Rightarrow> model_request \<Rightarrow> (http_call \<times> (http_failure + http_response)) list \<Rightarrow> bool" where
  "exchange_posts M request new \<longleftrightarrow> (\<exists>body p. posts_ok body (2 * rt_max_attempts (hm_retry M)) new
     \<and> (new \<noteq> [] \<longrightarrow> http_negotiate M request = Inr p \<and> body_honours M p body))"

lemma http_exchange_posts:
  assumes "http_exchange M H request w = Some (r, w')"
  shows "\<exists>new. hw_log w' = hw_log w @ new \<and> exchange_posts M request new
    \<and> (\<forall>g. r = Gives g \<longrightarrow> (\<exists>resp. answered_by new resp))"
proof -
  have none: "exchange_posts M request []" by (simp add: exchange_posts_def posts_ok_def)
  obtain prep w1 where prep: "http_prepare M H request w = (prep, w1)" by (cases "http_prepare M H request w")
  have "log_kept (http_prepare M H request)"
    unfolding http_prepare_def by (intro log_intros) (auto intro!: log_intros split: prod.split option.split)
  then have log1: "hw_log w1 = hw_log w" using prep by (rule log_keptD)
  show ?thesis
  proof (cases "\<exists>request' body E deadline s s'. prep = Gives (request', body, E)
      \<and> timing_deadline (he_timer H) (he_now_ms H) (he_run H) (hw_time w1) = (Inr deadline, s)
      \<and> (if hm_limited M then permit_acquire (he_timer H) deadline (he_free H) s else Some (Inr (), s)) = Some (Inr (), s')")
    case False
    then have "(\<forall>g. r \<noteq> Gives g) \<and> hw_log w' = hw_log w1"
      using assms prep by (auto simp: http_exchange_def split: attempt.splits prod.splits sum.splits option.splits)
    then show ?thesis using log1 none by auto
  next
    case True
    then obtain request' body E deadline s s' where go: "prep = Gives (request', body, E)"
        "timing_deadline (he_timer H) (he_now_ms H) (he_run H) (hw_time w1) = (Inr deadline, s)"
        "(if hm_limited M then permit_acquire (he_timer H) deadline (he_free H) s else Some (Inr (), s)) = Some (Inr (), s')"
      by blast
    obtain p where p: "http_negotiate M request = Inr p" "body_honours M p body"
      using http_prepare_honours prep go(1) by blast
    obtain sent w2 where sent: "http_send M H body deadline (w1\<lparr>hw_time := s'\<rparr>) = Some (sent, w2)"
        "(r, w') = (case sent of Inl e \<Rightarrow> (Fails e, w2) | Inr resp \<Rightarrow> http_answer M H request' E resp w2)"
      using assms prep go by (auto simp: http_exchange_def split: option.splits sum.splits)
    obtain new where new: "hw_log w2 = hw_log w1 @ new" "posts_ok body (2 * rt_max_attempts (hm_retry M)) new"
        "\<forall>resp. sent = Inr resp \<longrightarrow> answered_by new resp"
      using http_send_loop_posts [OF sent(1) [unfolded http_send_def]] by auto
    have "hw_log w' = hw_log w2"
      using sent(2) by (cases sent) (auto dest!: sym [of "(r, w')"] log_keptD [OF http_answer_log])
    moreover have "\<forall>g. r = Gives g \<longrightarrow> (\<exists>resp. sent = Inr resp)" using sent(2) by (cases sent) auto
    ultimately show ?thesis using new p log1 by (auto simp: exchange_posts_def)
  qed
qed

text \<open>An exchange comes to a result on a clock that advances, if a permit is free at some time.\<close>

lemma permit_wait_ends: "free n \<Longrightarrow> k \<le> n \<Longrightarrow> \<exists>y. permit_wait t deadline free k s = Some y"
proof (induction "n - k" arbitrary: k s)
  case 0
  then show ?case by (subst permit_wait.simps) simp
next
  case (Suc d)
  show ?case
  proof (cases "free k")
    case True
    then show ?thesis by (subst permit_wait.simps) simp
  next
    case False
    then have "k \<noteq> n" using Suc.prems(1) by blast
    then have "\<exists>y. permit_wait t deadline free (k + 1) s' = Some y" for s' using Suc by simp
    then show ?thesis using False by (subst permit_wait.simps) (auto split: prod.split sum.split)
  qed
qed

lemma http_exchange_ends:
  assumes "mono (tm_now (he_timer H))" "\<And>i. \<exists>k. i \<le> tm_now (he_timer H) k"
    and "0 < rt_max_attempts (hm_retry M)" and "hm_limited M \<Longrightarrow> \<exists>k. he_free H k"
  shows "\<exists>r w'. http_exchange M H request w = Some (r, w')"
proof -
  have permit: "\<exists>y. permit_acquire (he_timer H) deadline (he_free H) s = Some y" if "hm_limited M" for deadline s
  proof -
    obtain k where "he_free H k" using assms(4) [OF \<open>hm_limited M\<close>] by blast
    from permit_wait_ends [where free = "he_free H", OF this, of 0] show ?thesis by (auto simp: permit_acquire_def split: prod.split sum.split)
  qed
  have send: "\<exists>y. http_send M H body deadline w = Some y" for body deadline w
    unfolding http_send_def by (rule http_send_loop_ends [OF assms(1,2)]) (simp_all add: assms(3))
  obtain prep w1 where prep: "http_prepare M H request w = (prep, w1)" by (cases "http_prepare M H request w")
  show ?thesis
  proof (cases prep)
    case (Gives x)
    obtain request' body E where x: "x = (request', body, E)" by (cases x)
    obtain dl s where dl: "timing_deadline (he_timer H) (he_now_ms H) (he_run H) (hw_time w1) = (dl, s)"
      by (cases "timing_deadline (he_timer H) (he_now_ms H) (he_run H) (hw_time w1)")
    show ?thesis
    proof (cases dl)
      case (Inl e)
      then show ?thesis using prep Gives x dl by (simp add: http_exchange_def)
    next
      case (Inr deadline)
      obtain granted s' where granted:
        "(if hm_limited M then permit_acquire (he_timer H) deadline (he_free H) s else Some (Inr (), s)) = Some (granted, s')"
        using permit [of deadline s] by (cases "hm_limited M") auto
      obtain sent w2 where "http_send M H body deadline (w1\<lparr>hw_time := s'\<rparr>) = Some (sent, w2)"
        using send [of body deadline "w1\<lparr>hw_time := s'\<rparr>"] by auto
      then have "http_exchange M H request w \<noteq> None"
        using prep Gives x dl Inr granted by (cases granted; cases sent) (simp_all add: http_exchange_def)
      then show ?thesis by auto
    qed
  qed (use prep in \<open>simp_all add: http_exchange_def\<close>)
qed

end
