(* ===== verification/Model_Decorators.thy ===== *)
theory Model_Decorators
  imports Policies Exchange_Session Json_Access
begin

text \<open>
  The decorators of a model, \<open>zhir-models/src/decorators.rs\<close>, \<open>function.rs\<close> and \<open>transform.rs\<close>: an
  observer of increments, retries of the establishment of a session, a fallback over candidates, a model
  from a closure, and transformations of commands and events. A model and a session are records of
  operations over a shared state \<open>'w\<close>; the media ports of a session pass through and are left out. The
  lemmas show that a session of a fallback keeps belonging to the candidate that opened it.
\<close>

record 'w session_port =
  sp_binding :: "'w \<Rightarrow> model_binding option"
  sp_capabilities :: capability_set
  sp_negotiate :: "model_request \<Rightarrow> negotiated_profile result"
  sp_submit :: "session_command \<Rightarrow> 'w \<Rightarrow> unit result \<times> 'w"
  sp_receive :: "'w \<Rightarrow> session_event option result \<times> 'w"

record 'w model_port =
  mp_capabilities :: capability_set
  mp_negotiate :: "model_request \<Rightarrow> negotiated_profile result"
  mp_open :: "session_open \<Rightarrow> 'w \<Rightarrow> 'w session_port result \<times> 'w"

section \<open>Observation\<close>

definition observed_receive ::
  "(model_delta \<Rightarrow> 'w \<Rightarrow> unit result \<times> 'w) \<Rightarrow> ('w \<Rightarrow> session_event option result \<times> 'w)
    \<Rightarrow> 'w \<Rightarrow> session_event option result \<times> 'w" where
  "observed_receive observer receive w = (case receive w of
       (Inr (Some event), w1) \<Rightarrow> (case sev_body event of
           EvDelta _ delta \<Rightarrow> (case observer delta w1 of
               (Inl e, w2) \<Rightarrow> (Inl e, w2)
             | (Inr _, w2) \<Rightarrow> (Inr (Some event), w2))
         | _ \<Rightarrow> (Inr (Some event), w1))
     | other \<Rightarrow> other)"

definition observed_open ::
  "(model_request \<Rightarrow> run_context \<Rightarrow> (model_delta \<Rightarrow> 'w \<Rightarrow> unit result \<times> 'w) result) \<Rightarrow> 'w model_port \<Rightarrow> bool
    \<Rightarrow> session_open \<Rightarrow> 'w \<Rightarrow> 'w session_port result \<times> 'w" where
  "observed_open factory inner cancelled opening w =
     (if cancelled then (Inl Cancelled, w)
      else (case factory (so_request opening) (so_context opening) of
          Inl e \<Rightarrow> (Inl e, w)
        | Inr observer \<Rightarrow> (case mp_open inner opening w of
              (Inl e, w1) \<Rightarrow> (Inl e, w1)
            | (Inr s, w1) \<Rightarrow> (Inr (s\<lparr>sp_receive := observed_receive observer (sp_receive s)\<rparr>), w1))))"

definition observed_model ::
  "(model_request \<Rightarrow> run_context \<Rightarrow> (model_delta \<Rightarrow> 'w \<Rightarrow> unit result \<times> 'w) result) \<Rightarrow> bool \<Rightarrow> 'w model_port \<Rightarrow> 'w model_port" where
  "observed_model factory cancelled inner = inner\<lparr>mp_open := observed_open factory inner cancelled\<rparr>"

section \<open>Establishment\<close>

fun establishment_retryable :: "'a result \<Rightarrow> bool" where
  "establishment_retryable (Inl (ModelError f)) = failure_retryable f"
| "establishment_retryable _ = False"

text \<open>\<open>for attempt in 0..max_attempts\<close>, by the attempts left. None is a wait that never ends.\<close>

fun establish_loop ::
  "timer \<Rightarrow> retry_policy \<Rightarrow> nat option \<Rightarrow> bool \<Rightarrow> ('w \<Rightarrow> 'a result \<times> 'w) \<Rightarrow> nat \<Rightarrow> nat \<Rightarrow> timer_state \<Rightarrow> 'w
    \<Rightarrow> ('a result \<times> timer_state \<times> 'w) option" where
  "establish_loop t policy deadline with_recovery start attempt 0 s w = None"
| "establish_loop t policy deadline with_recovery start attempt (Suc left) s w = (case timing_check t deadline s of
       (Inl e, s1) \<Rightarrow> Some (Inl e, s1, w)
     | (Inr _, s1) \<Rightarrow> (case start w of (r, w1) \<Rightarrow>
         (if establishment_retryable r \<and> \<not> with_recovery \<and> attempt + 1 < rt_max_attempts policy
          then (case delay_after policy (attempt + 1) of
              None \<Rightarrow> None
            | Some delay \<Rightarrow> (case timing_wait t delay deadline s1 of
                  None \<Rightarrow> None
                | Some (Inl e, s2) \<Rightarrow> Some (Inl e, s2, w1)
                | Some (Inr _, s2) \<Rightarrow> establish_loop t policy deadline with_recovery start (attempt + 1) left s2 w1))
          else Some (r, s1, w1))))"

definition establish_open ::
  "timer \<Rightarrow> nat \<Rightarrow> retry_policy \<Rightarrow> 'w model_port \<Rightarrow> session_open \<Rightarrow> timer_state \<Rightarrow> 'w
    \<Rightarrow> ('w session_port result \<times> timer_state \<times> 'w) option" where
  "establish_open t now_ms policy inner opening s w = (case timing_deadline t now_ms (so_context opening) s of
       (Inl e, s1) \<Rightarrow> Some (Inl e, s1, w)
     | (Inr deadline, s1) \<Rightarrow>
         establish_loop t policy deadline (so_recovery opening \<noteq> None) (mp_open inner opening) 0 (rt_max_attempts policy) s1 w)"

section \<open>Fallback\<close>

record 'w fallback_candidate =
  fc_id :: string
  fc_model :: "'w model_port"

record 'w fallback_model =
  fm_models :: "'w fallback_candidate list"
  fm_capabilities :: capability_set

fun identities_unique :: "string list \<Rightarrow> string list \<Rightarrow> bool" where
  "identities_unique seen [] = True"
| "identities_unique seen (i # is) = (i \<noteq> [] \<and> i \<notin> set seen \<and> identities_unique (i # seen) is)"

definition push_missing :: "'a list \<Rightarrow> 'a list \<Rightarrow> 'a list" where
  "push_missing values added = foldl (\<lambda>vs v. if v \<in> set vs then vs else vs @ [v]) values added"

definition merge_capabilities :: "capability_set \<Rightarrow> capability_set \<Rightarrow> capability_set" where
  "merge_capabilities caps added = caps\<lparr>
     cap_features := cap_features caps \<union> cap_features added,
     cap_input_modalities := push_missing (cap_input_modalities caps) (cap_input_modalities added),
     cap_output_modalities := push_missing (cap_output_modalities caps) (cap_output_modalities added),
     cap_tool_choices := push_missing (cap_tool_choices caps) (cap_tool_choices added),
     cap_constraints := foldl (\<lambda>m (key, values). om_insert key
       (push_missing (case om_get m key of None \<Rightarrow> [] | Some vs \<Rightarrow> vs) values) m) (cap_constraints caps) (cap_constraints added)\<rparr>"

definition fallback_new :: "'w fallback_candidate list \<Rightarrow> 'w fallback_model result" where
  "fallback_new models =
     (if \<not> identities_unique [] (map fc_id models)
      then Inl (Invalid ''fallback candidates require unique nonempty identities'')
      else (case models of
          [] \<Rightarrow> Inl (Invalid ''fallback requires models'')
        | c # cs \<Rightarrow> Inr \<lparr>fm_models = models, fm_capabilities =
            foldl (\<lambda>caps c. merge_capabilities caps (mp_capabilities (fc_model c))) (mp_capabilities (fc_model c)) cs\<rparr>))"

fun first_accepting :: "('a \<Rightarrow> 'b result) \<Rightarrow> 'a list \<Rightarrow> 'b option" where
  "first_accepting f [] = None"
| "first_accepting f (x # xs) = (case f x of Inr y \<Rightarrow> Some y | Inl _ \<Rightarrow> first_accepting f xs)"

definition fallback_negotiate :: "'w fallback_model \<Rightarrow> model_request \<Rightarrow> negotiated_profile result" where
  "fallback_negotiate F request = ok_or (Invalid ''no model satisfies request'')
     (first_accepting (\<lambda>c. mp_negotiate (fc_model c) request) (fm_models F))"

text \<open>
  The data of bindings and recovery references. The serialization library turns them into JSON and back;
  both directions are parameters.
\<close>

record fallback_serde =
  fs_binding :: "string \<times> model_binding option \<Rightarrow> json"
  fs_read_binding :: "json \<Rightarrow> string + string \<times> model_binding option"
  fs_recovery :: "string \<times> recovery_ref \<Rightarrow> string + json"
  fs_read_recovery :: "json \<Rightarrow> string + string \<times> recovery_ref"

definition fallback_adapter :: string where
  "fallback_adapter = ''zhir.fallback''"

definition bound_binding :: "fallback_serde \<Rightarrow> string \<Rightarrow> model_binding option \<Rightarrow> model_binding" where
  "bound_binding S candidate inner = \<lparr>mb_adapter = fallback_adapter, mb_data = fs_binding S (candidate, inner)\<rparr>"

definition bound_reference :: "fallback_serde \<Rightarrow> string \<Rightarrow> recovery_ref \<Rightarrow> recovery_ref result" where
  "bound_reference S candidate reference = (case fs_recovery S (candidate, reference) of
       Inl e \<Rightarrow> Inl (Protocol e)
     | Inr data \<Rightarrow> Inr \<lparr>rec_adapter = fallback_adapter, rec_data = data\<rparr>)"

fun bound_body :: "fallback_serde \<Rightarrow> string \<Rightarrow> session_event_body \<Rightarrow> session_event_body result" where
  "bound_body S candidate (EvAcknowledged i (Some reference) level) =
     r_bind (bound_reference S candidate reference) (\<lambda>r. Inr (EvAcknowledged i (Some r) level))"
| "bound_body S candidate (EvRecovery reference) = r_bind (bound_reference S candidate reference) (\<lambda>r. Inr (EvRecovery r))"
| "bound_body S candidate body = Inr body"

definition bound_receive ::
  "fallback_serde \<Rightarrow> string \<Rightarrow> ('w \<Rightarrow> session_event option result \<times> 'w) \<Rightarrow> 'w \<Rightarrow> session_event option result \<times> 'w" where
  "bound_receive S candidate receive w = (case receive w of
       (Inr (Some event), w1) \<Rightarrow>
         (r_bind (bound_body S candidate (sev_body event)) (\<lambda>body. Inr (Some (event\<lparr>sev_body := body\<rparr>))), w1)
     | other \<Rightarrow> other)"

definition bind_session :: "fallback_serde \<Rightarrow> string \<Rightarrow> 'w session_port \<Rightarrow> 'w session_port" where
  "bind_session S candidate s = s\<lparr>
     sp_binding := \<lambda>w. Some (bound_binding S candidate (sp_binding s w)),
     sp_receive := bound_receive S candidate (sp_receive s)\<rparr>"

definition saved_binding :: "fallback_serde \<Rightarrow> model_binding option \<Rightarrow> (string \<times> model_binding option) option result" where
  "saved_binding S b = (case b of
       None \<Rightarrow> Inr None
     | Some b \<Rightarrow>
         (if mb_adapter b \<noteq> fallback_adapter then Inl (Invalid ''binding does not belong to this fallback adapter'')
          else (case fs_read_binding S (mb_data b) of Inl e \<Rightarrow> Inl (Invalid e) | Inr x \<Rightarrow> Inr (Some x))))"

definition saved_recovery :: "fallback_serde \<Rightarrow> recovery_ref option \<Rightarrow> (string \<times> recovery_ref) option result" where
  "saved_recovery S r = (case r of
       None \<Rightarrow> Inr None
     | Some r \<Rightarrow>
         (if rec_adapter r \<noteq> fallback_adapter then Inl (Invalid ''recovery does not belong to this fallback adapter'')
          else (case fs_read_recovery S (rec_data r) of Inl e \<Rightarrow> Inl (Invalid e) | Inr x \<Rightarrow> Inr (Some x))))"

definition bind_opened ::
  "fallback_serde \<Rightarrow> string \<Rightarrow> 'w session_port result \<times> 'w \<Rightarrow> 'w session_port result \<times> 'w" where
  "bind_opened S candidate r = (map_sum id (bind_session S candidate) (fst r), snd r)"

text \<open>\<open>cancelled k\<close> is the k-th poll of the cancellation; the first one precedes everything.\<close>

fun fallback_try ::
  "fallback_serde \<Rightarrow> (nat \<Rightarrow> bool) \<Rightarrow> nat \<Rightarrow> session_open \<Rightarrow> 'w fallback_candidate list \<Rightarrow> error \<Rightarrow> 'w
    \<Rightarrow> 'w session_port result \<times> 'w" where
  "fallback_try S cancelled k opening [] err w = (Inl err, w)"
| "fallback_try S cancelled k opening (c # cs) err w =
     (if cancelled k then (Inl Cancelled, w)
      else (case mp_negotiate (fc_model c) (so_request opening) of
          Inl _ \<Rightarrow> fallback_try S cancelled (k + 1) opening cs err w
        | Inr _ \<Rightarrow> (case mp_open (fc_model c) opening w of
              (Inr s, w1) \<Rightarrow> (Inr (bind_session S (fc_id c) s), w1)
            | (Inl e, w1) \<Rightarrow>
                (if establishment_retryable (Inl e :: unit result) then fallback_try S cancelled (k + 1) opening cs e w1
                 else (Inl e, w1)))))"

definition fallback_open ::
  "fallback_serde \<Rightarrow> 'w fallback_model \<Rightarrow> (nat \<Rightarrow> bool) \<Rightarrow> session_open \<Rightarrow> 'w \<Rightarrow> 'w session_port result \<times> 'w" where
  "fallback_open S F cancelled opening w =
     (if cancelled 0 then (Inl Cancelled, w)
      else (case r_bind (saved_binding S (so_binding opening)) (\<lambda>binding.
            r_bind (saved_recovery S (so_recovery opening)) (\<lambda>recovery. Inr (binding, recovery))) of
          Inl e \<Rightarrow> (Inl e, w)
        | Inr (None, None) \<Rightarrow> fallback_try S cancelled 1 opening (fm_models F) (Invalid ''no model satisfies request'') w
        | Inr (binding, recovery) \<Rightarrow>
            (if binding \<noteq> None \<and> recovery \<noteq> None \<and> fst (the binding) \<noteq> fst (the recovery)
             then (Inl (Invalid ''recovery differs from the bound candidate''), w)
             else (let i = (case binding of Some (i, _) \<Rightarrow> i | None \<Rightarrow> fst (the recovery)) in
               case find (\<lambda>c. fc_id c = i) (fm_models F) of
                 None \<Rightarrow> (Inl (Invalid ''original fallback candidate is unavailable''), w)
               | Some c \<Rightarrow> bind_opened S (fc_id c) (mp_open (fc_model c)
                   (opening\<lparr>so_binding := Option.bind binding snd, so_recovery := map_option snd recovery\<rparr>) w)))))"

section \<open>A model from a closure\<close>

definition function_capabilities :: "capability_set \<Rightarrow> capability_set" where
  "function_capabilities caps = caps\<lparr>cap_features := cap_features caps \<union> exchange_features\<rparr>"

definition function_negotiate :: "capability_set \<Rightarrow> model_request \<Rightarrow> negotiated_profile result" where
  "function_negotiate caps request = r_bind (exchange_validate_capabilities caps) (\<lambda>_. negotiate request caps)"

definition function_open ::
  "hashing \<Rightarrow> (json \<Rightarrow> string + effective_profile) \<Rightarrow> capability_set \<Rightarrow> bool \<Rightarrow> nat option result \<Rightarrow> session_open
    \<Rightarrow> (capability_set \<times> nat option \<times> exchange_task) result" where
  "function_open H effective caps cancelled deadline opening = exchange_session_open
     \<lparr>xe_negotiate = (\<lambda>request. r_bind (negotiate request caps) (\<lambda>_. Inr ())), xe_hashing = H, xe_effective = effective\<rparr>
     cancelled deadline opening caps"

section \<open>Transformations\<close>

text \<open>
  The closures of a transforming model; each has its effects on the shared state. The configuration is the
  request without its messages, kept under a lock that \<open>submit\<close> holds.
\<close>

record 'w transform_model =
  tf_inner :: "'w model_port"
  tf_prepare :: "model_request \<Rightarrow> 'w \<Rightarrow> model_request result \<times> 'w"
  tf_events :: "(session_event \<Rightarrow> 'w \<Rightarrow> session_event result \<times> 'w) list"
  tf_commands :: "(session_command \<Rightarrow> 'w \<Rightarrow> session_command result \<times> 'w) list"

definition projected_entries :: "u64 \<Rightarrow> message list \<Rightarrow> history_entry list" where
  "projected_entries revision messages = map (\<lambda>(index, m).
     \<lparr>he_id = ''projection:'' @ dec (unat revision) @ '':'' @ dec index, he_origin = None, he_message = m\<rparr>)
     (enumerate 0 messages)"

fun apply_transforms :: "('a \<Rightarrow> 'w \<Rightarrow> 'a result \<times> 'w) list \<Rightarrow> 'a \<Rightarrow> 'w \<Rightarrow> 'a result \<times> 'w" where
  "apply_transforms [] a w = (Inr a, w)"
| "apply_transforms (f # fs) a w = (case f a w of
       (Inl e, w1) \<Rightarrow> (Inl e, w1) | (Inr b, w1) \<Rightarrow> apply_transforms fs b w1)"

text \<open>The commands check the cancellation before each of them and after the last; \<open>k\<close> counts the polls.\<close>

fun command_transforms ::
  "(nat \<Rightarrow> bool) \<Rightarrow> nat \<Rightarrow> ('a \<Rightarrow> 'w \<Rightarrow> 'a result \<times> 'w) list \<Rightarrow> 'a \<Rightarrow> 'w \<Rightarrow> 'a result \<times> 'w" where
  "command_transforms cancelled k [] a w = (if cancelled k then Inl Cancelled else Inr a, w)"
| "command_transforms cancelled k (f # fs) a w =
     (if cancelled k then (Inl Cancelled, w)
      else (case f a w of
          (Inl e, w1) \<Rightarrow> (Inl e, w1) | (Inr b, w1) \<Rightarrow> command_transforms cancelled (k + 1) fs b w1))"

definition transform_context ::
  "'w transform_model \<Rightarrow> model_request \<Rightarrow> session_command \<Rightarrow> 'w \<Rightarrow> session_command result \<times> 'w" where
  "transform_context T config command w = (case scmd_body command of
       BodyReplaceContext entries revision \<Rightarrow>
         (case tf_prepare T (config\<lparr>mr_messages := conversation entries\<rparr>) w of
            (Inl e, w1) \<Rightarrow> (Inl e, w1)
          | (Inr prepared, w1) \<Rightarrow>
              (if prepared\<lparr>mr_messages := mr_messages config\<rparr> \<noteq> config
               then (Inl (Invalid ''context transform changed session configuration''), w1)
               else (Inr (command\<lparr>scmd_body := BodyReplaceContext (projected_entries revision (mr_messages prepared)) revision\<rparr>), w1)))
     | _ \<Rightarrow> (Inr command, w))"

text \<open>\<open>submit\<close> of the transformed session: the result, the new configuration and the state.\<close>

definition transform_submit ::
  "'w transform_model \<Rightarrow> (nat \<Rightarrow> bool) \<Rightarrow> 'w session_port \<Rightarrow> session_command \<Rightarrow> model_request \<Rightarrow> 'w
    \<Rightarrow> unit result \<times> model_request \<times> 'w" where
  "transform_submit T cancelled s command config w = (case transform_context T config command w of
       (Inl e, w1) \<Rightarrow> (Inl e, config, w1)
     | (Inr command1, w1) \<Rightarrow> (case command_transforms cancelled 0 (tf_commands T) command1 w1 of
           (Inl e, w2) \<Rightarrow> (Inl e, config, w2)
         | (Inr command2, w2) \<Rightarrow> (case sp_submit s command2 w2 of
               (Inl e, w3) \<Rightarrow> (Inl e, config, w3)
             | (Inr _, w3) \<Rightarrow> (Inr (), (case scmd_body command2 of
                   BodyUpdateProfile _ profile \<Rightarrow> config\<lparr>mr_profile := profile\<rparr> | _ \<Rightarrow> config), w3))))"

definition transform_receive ::
  "'w transform_model \<Rightarrow> 'w session_port \<Rightarrow> 'w \<Rightarrow> session_event option result \<times> 'w" where
  "transform_receive T s w = (case sp_receive s w of
       (Inr (Some event), w1) \<Rightarrow> (case apply_transforms (tf_events T) event w1 of (r, w2) \<Rightarrow> (map_sum id Some r, w2))
     | other \<Rightarrow> other)"

text \<open>Opening returns the inner session with the configuration that \<open>submit\<close> starts from.\<close>

definition transform_open ::
  "'w transform_model \<Rightarrow> (nat \<Rightarrow> bool) \<Rightarrow> session_open \<Rightarrow> 'w \<Rightarrow> ('w session_port \<times> model_request) result \<times> 'w" where
  "transform_open T cancelled opening w =
     (if cancelled 0 then (Inl Cancelled, w)
      else (case tf_prepare T (so_request opening) w of
          (Inl e, w1) \<Rightarrow> (Inl e, w1)
        | (Inr request, w1) \<Rightarrow>
            (if cancelled 1 then (Inl Cancelled, w1)
             else (case mp_open (tf_inner T) (opening\<lparr>so_request := request\<rparr>) w1 of
                 (Inl e, w2) \<Rightarrow> (Inl e, w2)
               | (Inr s, w2) \<Rightarrow> (Inr (s, request\<lparr>mr_messages := []\<rparr>), w2)))))"

section \<open>Sessions stay with their candidate\<close>

text \<open>The library reads back what it wrote.\<close>

definition fallback_serde_lawful :: "fallback_serde \<Rightarrow> bool" where
  "fallback_serde_lawful S \<longleftrightarrow> (\<forall>x. fs_read_binding S (fs_binding S x) = Inr x)
     \<and> (\<forall>x v. fs_recovery S x = Inr v \<longrightarrow> fs_read_recovery S v = Inr x)"

lemma identities_unique_distinct: "identities_unique seen is \<Longrightarrow> distinct is \<and> set is \<inter> set seen = {} \<and> [] \<notin> set is"
  by (induction seen "is" rule: identities_unique.induct) auto

lemma find_identified: "distinct (map f xs) \<Longrightarrow> x \<in> set xs \<Longrightarrow> find (\<lambda>y. f y = f x) xs = Some x"
  by (induction xs) (auto simp: rev_image_eqI)

lemma find_candidate:
  assumes "fallback_new models = Inr F" and "c \<in> set models"
  shows "find (\<lambda>c'. fc_id c' = fc_id c) (fm_models F) = Some c"
proof -
  have "distinct (map fc_id models)" "fm_models F = models"
    using assms(1) identities_unique_distinct by (auto simp: fallback_new_def split: if_splits list.splits)
  then show ?thesis using assms(2) find_identified by metis
qed

lemma saved_bound_reference:
  "fallback_serde_lawful S \<Longrightarrow> bound_reference S i r = Inr saved \<Longrightarrow> saved_recovery S (Some saved) = Inr (Some (i, r))"
  by (auto simp: saved_recovery_def bound_reference_def fallback_serde_lawful_def split: sum.splits)

lemma saved_bound_binding:
  "fallback_serde_lawful S \<Longrightarrow> saved_binding S (Some (bound_binding S i inner)) = Inr (Some (i, inner))"
  by (simp add: saved_binding_def bound_binding_def fallback_serde_lawful_def)

text \<open>A binding or a reference of a candidate opens a session of that candidate with what it had given.\<close>

lemma bound_open:
  assumes "fallback_new models = Inr F" and "c \<in> set models" and "fallback_serde_lawful S" and "\<not> cancelled 0"
    and "so_binding opening = Some (bound_binding S (fc_id c) inner)"
    and "so_recovery opening = None \<and> reference = None
       \<or> (\<exists>r saved. so_recovery opening = Some saved \<and> reference = Some r \<and> bound_reference S (fc_id c) r = Inr saved)"
  shows "fallback_open S F cancelled opening w =
     bind_opened S (fc_id c) (mp_open (fc_model c) (opening\<lparr>so_binding := inner, so_recovery := reference\<rparr>) w)"
proof -
  have binding: "saved_binding S (so_binding opening) = Inr (Some (fc_id c, inner))"
    using saved_bound_binding [OF assms(3)] assms(5) by simp
  have recovery: "saved_recovery S (so_recovery opening) = Inr (map_option (Pair (fc_id c)) reference)"
    using saved_bound_reference [OF assms(3)] assms(6) by (auto simp: saved_recovery_def [of S None])
  show ?thesis
    using binding recovery find_candidate [OF assms(1,2)] assms(4)
    by (cases reference) (simp_all add: fallback_open_def Let_def)
qed

lemma bound_recover:
  assumes "fallback_new models = Inr F" and "c \<in> set models" and "fallback_serde_lawful S" and "\<not> cancelled 0"
    and "so_binding opening = None" and "so_recovery opening = Some saved" and "bound_reference S (fc_id c) r = Inr saved"
  shows "fallback_open S F cancelled opening w =
     bind_opened S (fc_id c) (mp_open (fc_model c) (opening\<lparr>so_binding := None, so_recovery := Some r\<rparr>) w)"
proof -
  have "saved_recovery S (so_recovery opening) = Inr (Some (fc_id c, r))"
    using saved_bound_reference [OF assms(3,7)] assms(6) by simp
  then show ?thesis
    using find_candidate [OF assms(1,2)] assms(4,5) by (simp add: fallback_open_def saved_binding_def Let_def)
qed

text \<open>A reference of another candidate is refused before any model is asked.\<close>

lemma foreign_recovery_refused:
  assumes "fallback_serde_lawful S" and "\<not> cancelled 0" and "i \<noteq> j"
    and "so_binding opening = Some (bound_binding S i inner)" and "so_recovery opening = Some saved"
    and "bound_reference S j r = Inr saved"
  shows "fallback_open S F cancelled opening w = (Inl (Invalid ''recovery differs from the bound candidate''), w)"
  using saved_bound_binding [OF assms(1)] saved_bound_reference [OF assms(1,6)] assms(2-5) by (simp add: fallback_open_def)

text \<open>A fresh opening returns a session of the first candidate that opens one; every candidate before it
  declined the request or failed in a way that may be retried.\<close>

lemma fallback_try_opened:
  "fallback_try S cancelled k opening cs err w = (Inr s, w') \<Longrightarrow>
     \<exists>before c after s0 w0. cs = before @ c # after \<and> s = bind_session S (fc_id c) s0
       \<and> mp_open (fc_model c) opening w0 = (Inr s0, w') \<and> (\<exists>p. mp_negotiate (fc_model c) (so_request opening) = Inr p)"
proof (induction cs arbitrary: k err w)
  case (Cons c cs)
  show ?case
  proof (cases "mp_negotiate (fc_model c) (so_request opening)")
    case (Inl e)
    then have "fallback_try S cancelled (k + 1) opening cs err w = (Inr s, w')" using Cons.prems by (auto split: if_splits)
    from Cons.IH [OF this] show ?thesis by (metis append_Cons)
  next
    case (Inr p)
    obtain r w1 where opened: "mp_open (fc_model c) opening w = (r, w1)" by (cases "mp_open (fc_model c) opening w")
    show ?thesis
    proof (cases r)
      case (Inr s0)
      then show ?thesis using Cons.prems \<open>mp_negotiate _ _ = Inr p\<close> opened
        by (intro exI [of _ "[]"] exI [of _ c] exI [of _ cs] exI [of _ s0] exI [of _ w]) (auto split: if_splits)
    next
      case (Inl e)
      have "fallback_try S cancelled (k + 1) opening cs e w1 = (Inr s, w')"
        using Cons.prems \<open>mp_negotiate _ _ = Inr p\<close> opened Inl by (auto split: if_splits)
      from Cons.IH [OF this] show ?thesis by (metis append_Cons)
    qed
  qed
qed simp

end
