(* ===== verification/Model_Leases.thy ===== *)
theory Model_Leases
  imports Core_Values
begin

text \<open>
  The bound on concurrent sessions, \<open>zhir-models/src/concurrency.rs\<close>. The future that opens a session
  owns its permit; \<open>lease_wrap\<close> then moves the permit into a shared reference and wraps the parts the
  inner model returned, each with a reference of its own, as \<open>open_session\<close> does. A part that is dropped
  takes with it only what it holds: a wrapped one its reference, and the last reference the permit.
  \<open>lease_step\<close> is one acquisition, opening, failure or drop, so its reachable states cover every
  interleaving of the users of one model. The sessions are counted by the parts that are alive, whether
  these hold a permit or not, and not by the permits.
\<close>

text \<open>\<open>Semaphore::MAX_PERMITS\<close> on a 64-bit target.\<close>

definition max_permits :: nat where
  "max_permits = 2 ^ 61 - 1"

text \<open>
  A part of a session as the inner model returned it, or in one of the four wrappers \<open>LeasedControl\<close>,
  \<open>LeasedMediaSender\<close>, \<open>LeasedMediaReceiver\<close> and \<open>LeasedEvents\<close>, which pair it with a reference to the
  permit of the session. The wrappers only forward the calls.
\<close>

datatype 'h leased = Bare 'h | Leased 'h nat

text \<open>The parts of \<open>ModelSession\<close>; the ports for media are optional.\<close>

record 'h lease_session =
  lse_control :: 'h
  lse_input :: "'h option"
  lse_output :: "'h option"
  lse_events :: 'h

datatype lease_part = LeaseControl | LeaseInput | LeaseOutput | LeaseEvents

definition lease_parts :: "'h lease_session \<Rightarrow> (lease_part \<times> 'h) list" where
  "lease_parts s = (LeaseControl, lse_control s)
     # (case lse_input s of None \<Rightarrow> [] | Some h \<Rightarrow> [(LeaseInput, h)])
     @ (case lse_output s of None \<Rightarrow> [] | Some h \<Rightarrow> [(LeaseOutput, h)]) @ [(LeaseEvents, lse_events s)]"

text \<open>\<open>permit.clone()\<close> beside the part it goes to: the count of references grows by one.\<close>

definition lease_share :: "nat \<Rightarrow> 'h \<Rightarrow> nat \<Rightarrow> 'h leased \<times> nat" where
  "lease_share permit h references = (Leased h permit, references + 1)"

definition lease_share_port :: "nat \<Rightarrow> 'h option \<Rightarrow> nat \<Rightarrow> 'h leased option \<times> nat" where
  "lease_share_port permit port references = (case port of None \<Rightarrow> (None, references)
     | Some h \<Rightarrow> (case lease_share permit h references of (l, references) \<Rightarrow> (Some l, references)))"

text \<open>The parts are wrapped in the order of the code; the events take the reference that is left.\<close>

definition lease_wrap :: "nat \<Rightarrow> 'h lease_session \<Rightarrow> 'h leased lease_session \<times> nat" where
  "lease_wrap permit session = (let
       (control, references) = lease_share permit (lse_control session) 1;
       (port_in, references) = lease_share_port permit (lse_input session) references;
       (port_out, references) = lease_share_port permit (lse_output session) references
     in (\<lparr>lse_control = control, lse_input = port_in, lse_output = port_out,
          lse_events = Leased (lse_events session) permit\<rparr>, references))"

text \<open>
  The free permits of the semaphore, the sessions whose opening owns a permit, the parts of the opened
  sessions that are alive and the count of references of each shared permit. The permit of a session has
  the number of the session. A part behind an \<open>Arc\<close> is alive until its last handle is dropped.
\<close>

record 'h lease_pool =
  lp_free :: nat
  lp_opening :: "nat list"
  lp_alive :: "(nat \<times> lease_part \<times> 'h leased) list"
  lp_references :: "nat \<Rightarrow> nat"

definition lease_pool_new :: "nat \<Rightarrow> 'h lease_pool result" where
  "lease_pool_new limit = (if limit = 0 \<or> max_permits < limit then Inl (Invalid ''invalid session concurrency limit'')
     else Inr \<lparr>lp_free = limit, lp_opening = [], lp_alive = [], lp_references = (\<lambda>_. 0)\<rparr>)"

text \<open>\<open>acquire_owned\<close>: without a free permit the opening waits.\<close>

definition lease_acquire :: "nat \<Rightarrow> 'h lease_pool \<Rightarrow> 'h lease_pool option" where
  "lease_acquire i s = (if lp_free s = 0 then None
     else Some (s\<lparr>lp_free := lp_free s - 1, lp_opening := i # lp_opening s\<rparr>))"

definition lease_opened :: "nat \<Rightarrow> 'h lease_session \<Rightarrow> 'h lease_pool \<Rightarrow> 'h lease_pool" where
  "lease_opened i session s = (case lease_wrap i session of (wrapped, references) \<Rightarrow>
     s\<lparr>lp_opening := remove1 i (lp_opening s), lp_alive := map (Pair i) (lease_parts wrapped) @ lp_alive s,
       lp_references := (lp_references s)(i := references)\<rparr>)"

text \<open>The inner model failed, or the future was dropped: the permit it owns returns to the semaphore.\<close>

definition lease_abandon :: "nat \<Rightarrow> 'h lease_pool \<Rightarrow> 'h lease_pool" where
  "lease_abandon i s = s\<lparr>lp_free := lp_free s + 1, lp_opening := remove1 i (lp_opening s)\<rparr>"

text \<open>Dropping a reference; the last one drops the permit.\<close>

definition lease_release :: "nat \<Rightarrow> 'h lease_pool \<Rightarrow> 'h lease_pool" where
  "lease_release permit s =
     s\<lparr>lp_free := (if lp_references s permit = 1 then lp_free s + 1 else lp_free s),
       lp_references := (lp_references s)(permit := lp_references s permit - 1)\<rparr>"

definition lease_drop :: "nat \<times> lease_part \<times> 'h leased \<Rightarrow> 'h lease_pool \<Rightarrow> 'h lease_pool" where
  "lease_drop part s = (let s = s\<lparr>lp_alive := remove1 part (lp_alive s)\<rparr> in
     case part of (_, _, Leased _ permit) \<Rightarrow> lease_release permit s | (_, _, Bare _) \<Rightarrow> s)"

text \<open>The sessions that are being opened or have a part alive.\<close>

definition lease_sessions :: "'h lease_pool \<Rightarrow> nat set" where
  "lease_sessions s = set (lp_opening s) \<union> fst ` set (lp_alive s)"

inductive lease_step :: "'h lease_pool \<Rightarrow> 'h lease_pool \<Rightarrow> bool" where
  lease_acquires: "i \<notin> lease_sessions s \<Longrightarrow> lease_acquire i s = Some s' \<Longrightarrow> lease_step s s'"
| lease_opens: "i \<in> set (lp_opening s) \<Longrightarrow> lease_step s (lease_opened i session s)"
| lease_fails: "i \<in> set (lp_opening s) \<Longrightarrow> lease_step s (lease_abandon i s)"
| lease_drops: "part \<in> set (lp_alive s) \<Longrightarrow> lease_step s (lease_drop part s)"

inductive lease_reaches :: "nat \<Rightarrow> 'h lease_pool \<Rightarrow> bool" for limit where
  lreach_new: "lease_pool_new limit = Inr s \<Longrightarrow> lease_reaches limit s"
| lreach_step: "lease_reaches limit s \<Longrightarrow> lease_step s s' \<Longrightarrow> lease_reaches limit s'"

section \<open>No permit is lost and none is used twice\<close>

text \<open>The references of a permit are the wrapped parts that are alive, and these are parts of its session.\<close>

definition lease_ok :: "nat \<Rightarrow> 'h lease_pool \<Rightarrow> bool" where
  "lease_ok limit s \<longleftrightarrow> lp_free s + card (lease_sessions s) = limit \<and> distinct (lp_opening s)
     \<and> set (lp_opening s) \<inter> fst ` set (lp_alive s) = {}
     \<and> (\<forall>part \<in> set (lp_alive s). \<exists>k h. part = (fst part, k, Leased h (fst part)))
     \<and> (\<forall>i. lp_references s i = length (filter (\<lambda>part. fst part = i) (lp_alive s)))"

lemma lease_sessions_finite [simp]: "finite (lease_sessions s)"
  by (simp add: lease_sessions_def)

lemma lease_wrapped:
  assumes "lease_wrap i session = (wrapped, references)"
  shows "references = length (lease_parts wrapped)" and "lease_parts wrapped \<noteq> []"
    and "\<forall>part \<in> set (lease_parts wrapped). \<exists>k h. part = (k, Leased h i)"
  using assms
  by (auto simp: lease_wrap_def lease_share_port_def lease_share_def lease_parts_def split: option.splits)

lemma lease_acquire_ok:
  assumes ok: "lease_ok limit s" and fresh: "i \<notin> lease_sessions s" and s': "lease_acquire i s = Some s'"
  shows "lease_ok limit s'"
proof -
  have "lease_sessions s' = insert i (lease_sessions s)"
    using s' by (auto simp: lease_acquire_def lease_sessions_def split: if_splits)
  then have "card (lease_sessions s') = Suc (card (lease_sessions s))" using fresh by simp
  moreover have "i \<notin> set (lp_opening s)" "i \<notin> fst ` set (lp_alive s)" using fresh by (simp_all add: lease_sessions_def)
  moreover have "lp_free s = Suc (lp_free s')" "lp_opening s' = i # lp_opening s" "lp_alive s' = lp_alive s"
    "lp_references s' = lp_references s"
    using s' by (auto simp: lease_acquire_def split: if_splits)
  ultimately show ?thesis using ok by (simp add: lease_ok_def)
qed

lemma filter_pairs: "filter (\<lambda>part. fst part = j) (map (Pair i) xs) = (if j = i then map (Pair i) xs else [])"
  by (induction xs) auto

lemma lease_opened_ok:
  assumes ok: "lease_ok limit s" and i: "i \<in> set (lp_opening s)"
  shows "lease_ok limit (lease_opened i session s)"
proof -
  obtain wrapped references where w: "lease_wrap i session = (wrapped, references)" by (cases "lease_wrap i session")
  let ?s = "lease_opened i session s"
  have none: "filter (\<lambda>part. fst part = i) (lp_alive s) = []"
    using ok i by (force simp: lease_ok_def filter_empty_conv)
  have s: "lp_free ?s = lp_free s" "lp_opening ?s = remove1 i (lp_opening s)"
    "lp_alive ?s = map (Pair i) (lease_parts wrapped) @ lp_alive s" "lp_references ?s = (lp_references s)(i := references)"
    by (simp_all add: lease_opened_def w)
  have keys: "fst ` set (lp_alive ?s) = insert i (fst ` set (lp_alive s))"
    using lease_wrapped(2) [OF w] by (cases "lease_parts wrapped") (auto simp: s image_image)
  have "lease_sessions ?s = lease_sessions s"
    using i ok unfolding lease_sessions_def keys by (auto simp: s lease_ok_def)
  moreover have "set (lp_opening ?s) \<inter> fst ` set (lp_alive ?s) = {}"
    using ok unfolding keys by (auto simp: s lease_ok_def)
  moreover have "\<exists>k h. part = (fst part, k, Leased h (fst part))" if "part \<in> set (lp_alive ?s)" for part
    using that ok lease_wrapped(3) [OF w] by (fastforce simp: s lease_ok_def)
  moreover have "lp_references ?s j = length (filter (\<lambda>part. fst part = j) (lp_alive ?s))" for j
    using ok none lease_wrapped(1) [OF w] by (simp add: s lease_ok_def filter_pairs)
  ultimately show ?thesis using ok by (simp add: lease_ok_def s)
qed

lemma lease_abandon_ok:
  assumes ok: "lease_ok limit s" and i: "i \<in> set (lp_opening s)"
  shows "lease_ok limit (lease_abandon i s)"
proof -
  have "lease_sessions (lease_abandon i s) = lease_sessions s - {i}"
    using ok i by (auto simp: lease_ok_def lease_abandon_def lease_sessions_def)
  moreover have "Suc (card (lease_sessions s - {i})) = card (lease_sessions s)"
    using i by (intro card_Suc_Diff1) (auto simp: lease_sessions_def)
  ultimately show ?thesis using ok by (auto simp: lease_ok_def lease_abandon_def)
qed

lemma filter_remove1: "filter P (remove1 x xs) = (if P x then remove1 x (filter P xs) else filter P xs)"
  by (induction xs) auto

lemma key_filter: "j \<in> fst ` set xs \<longleftrightarrow> filter (\<lambda>x. fst x = j) xs \<noteq> []"
  by (force simp: filter_empty_conv)

lemma lease_drop_ok:
  assumes ok: "lease_ok limit s" and part: "part \<in> set (lp_alive s)"
  shows "lease_ok limit (lease_drop part s)"
proof -
  obtain i k h where p: "part = (i, k, Leased h i)" using ok part by (force simp: lease_ok_def)
  let ?s = "lease_drop part s" and ?of = "\<lambda>j. filter (\<lambda>part. fst part = j) (lp_alive s)"
  have s: "lp_opening ?s = lp_opening s" "lp_alive ?s = remove1 part (lp_alive s)"
    "lp_references ?s = (lp_references s)(i := lp_references s i - 1)"
    "lp_free ?s = (if lp_references s i = 1 then lp_free s + 1 else lp_free s)"
    by (simp_all add: lease_drop_def lease_release_def p Let_def)
  have refs: "lp_references s j = length (?of j)" for j using ok by (simp add: lease_ok_def)
  have here: "part \<in> set (?of i)" using part p by simp
  have left: "filter (\<lambda>part. fst part = j) (lp_alive ?s) = (if j = i then remove1 part (?of i) else ?of j)" for j
    unfolding s(2) filter_remove1 by (simp add: p)
  have "lp_references ?s j = length (filter (\<lambda>part. fst part = j) (lp_alive ?s))" for j
    unfolding left using here by (simp add: s refs length_remove1)
  moreover have "lp_free ?s + card (lease_sessions ?s) = limit"
  proof (cases "remove1 part (?of i) = []")
    case True
    have i: "i \<notin> set (lp_opening s)" "i \<in> lease_sessions s" using ok part p by (force simp: lease_ok_def lease_sessions_def)+
    have one: "lp_references s i = 1" using True here by (cases "?of i") (auto simp: refs split: if_splits)
    have "j \<in> fst ` set (lp_alive ?s) \<longleftrightarrow> j \<in> fst ` set (lp_alive s) \<and> j \<noteq> i" for j
      unfolding key_filter left using True by simp
    then have "lease_sessions ?s = lease_sessions s - {i}" using i(1) unfolding lease_sessions_def s(1) by blast
    then show ?thesis
      using ok one card_Suc_Diff1 [OF lease_sessions_finite i(2)] by (simp add: s lease_ok_def)
  next
    case False
    then have "lp_references s i \<noteq> 1" using here by (cases "?of i") (auto simp: refs)
    moreover have "j \<in> fst ` set (lp_alive ?s) \<longleftrightarrow> j \<in> fst ` set (lp_alive s)" for j
      unfolding key_filter left using False here by auto
    then have "fst ` set (lp_alive ?s) = fst ` set (lp_alive s)" by blast
    ultimately show ?thesis using ok by (simp add: lease_ok_def lease_sessions_def s)
  qed
  moreover have "fst ` set (lp_alive ?s) \<subseteq> fst ` set (lp_alive s)" "set (lp_alive ?s) \<subseteq> set (lp_alive s)"
    using set_remove1_subset [of part "lp_alive s"] by (auto simp: s)
  ultimately show ?thesis using ok unfolding lease_ok_def s(1) by blast
qed

lemma lease_step_ok: "lease_step s s' \<Longrightarrow> lease_ok limit s \<Longrightarrow> lease_ok limit s'"
  by (induction rule: lease_step.induct) (blast intro: lease_acquire_ok lease_opened_ok lease_abandon_ok lease_drop_ok)+

lemma lease_reaches_ok: "lease_reaches limit s \<Longrightarrow> lease_ok limit s"
proof (induction rule: lease_reaches.induct)
  case (lreach_new s)
  then show ?case by (auto simp: lease_pool_new_def lease_ok_def lease_sessions_def split: if_splits)
next
  case (lreach_step s s')
  then show ?case by (blast intro: lease_step_ok)
qed

end
