(* ===== verification/Native_Session.thy ===== *)
theory Native_Session
  imports Engine_Base Json_Access
begin

text \<open>
  Sessions over a connection: \<open>zhir-models/src/native.rs\<close> with its media budget, and the driver of
  \<open>websocket.rs\<close>. The protocol of a service is a record of operations over a state \<open>'p\<close>. The driver task,
  its socket, the consumer of its events and of its media, and the host that submits commands interleave in
  \<open>native_step\<close>. The lemmas show that every accepted event reaches the consumer once and in order, before
  the error that ended the session.
\<close>

section \<open>Outputs\<close>

record native_outputs =
  nu_pending :: "session_event list"
  nu_media :: "media_chunk list"
  nu_sequence :: u64
  nu_event_limit :: nat
  nu_media_limit :: nat
  nu_chunk_limit :: nat
  nu_media_bytes :: nat
  nu_min_epoch :: u64
  nu_media_ending :: bool
  nu_media_sender :: bool

definition max_buffered_chunks :: nat where
  "max_buffered_chunks = 4096"

definition native_outputs_new :: "limits \<Rightarrow> u64 \<Rightarrow> native_outputs" where
  "native_outputs_new l epoch = \<lparr>nu_pending = [], nu_media = [], nu_sequence = 0,
     nu_event_limit = lim_max_session_events l + lim_max_control_commands l + 8,
     nu_media_limit = lim_max_buffered_media_bytes l, nu_chunk_limit = lim_max_media_chunk_bytes l,
     nu_media_bytes = 0, nu_min_epoch = epoch, nu_media_ending = False, nu_media_sender = True\<rparr>"

definition native_event :: "session_event_body \<Rightarrow> native_outputs \<Rightarrow> unit result \<times> native_outputs" where
  "native_event body o' =
     (if nu_event_limit o' \<le> length (nu_pending o') then (Inl (Uncertain ''native event capacity exceeded''), o')
      else if nu_sequence o' = - 1 then (Inl (Protocol ''session event sequence overflow''), o')
      else (Inr (), o'\<lparr>nu_sequence := nu_sequence o' + 1,
          nu_pending := nu_pending o' @ [\<lparr>sev_sequence = nu_sequence o', sev_body = body\<rparr>]\<rparr>))"

definition media_sizes :: "media_chunk list \<Rightarrow> nat" where
  "media_sizes cs = sum_list (map (\<lambda>c. length (mc_bytes c)) cs)"

definition native_media :: "media_chunk \<Rightarrow> native_outputs \<Rightarrow> unit result \<times> native_outputs" where
  "native_media c o' = (case media_chunk_validate c (nu_chunk_limit o') of
       Inl e \<Rightarrow> (Inl e, o')
     | Inr _ \<Rightarrow>
         (if mc_epoch c < nu_min_epoch o' then (Inr (), o')
          else if nu_media_ending o' then (Inl (Protocol ''media after native output closure''), o')
          else if nu_media_limit o' - nu_media_bytes o' < length (mc_bytes c) \<or> max_buffered_chunks \<le> length (nu_media o')
          then (Inl (Uncertain ''native media capacity exceeded''), o')
          else (Inr (), o'\<lparr>nu_media_bytes := nu_media_bytes o' + length (mc_bytes c), nu_media := nu_media o' @ [c]\<rparr>)))"

definition native_invalidate :: "u64 \<Rightarrow> native_outputs \<Rightarrow> native_outputs" where
  "native_invalidate epoch o' = (let kept = filter (\<lambda>c. epoch \<le> mc_epoch c) (nu_media o') in
     o'\<lparr>nu_min_epoch := max (nu_min_epoch o') epoch, nu_media := kept, nu_media_bytes := media_sizes kept\<rparr>)"

definition native_end_media :: "native_outputs \<Rightarrow> native_outputs" where
  "native_end_media o' = o'\<lparr>nu_media_ending := True, nu_media_sender := nu_media_sender o' \<and> nu_media o' \<noteq> []\<rparr>"

definition native_pending :: "native_outputs \<Rightarrow> bool" where
  "native_pending o' \<longleftrightarrow> nu_pending o' \<noteq> [] \<or> nu_media o' \<noteq> []"

definition native_can_receive :: "native_outputs \<Rightarrow> bool" where
  "native_can_receive o' \<longleftrightarrow> nu_media o' = [] \<and> nu_pending o' = []"

section \<open>The consumer\<close>

text \<open>
  The bounded channel of events, the terminal message with what was pending and the result, and what the
  consumer took of it. \<open>nr_results\<close> keeps what \<open>receive\<close> returned so far.
\<close>

record native_receiver =
  nr_channel :: "session_event list"
  nr_terminal :: "(session_event list \<times> unit result) option"
  nr_taken :: bool
  nr_remaining :: "session_event list"
  nr_result :: "unit result option"
  nr_results :: "session_event option result list"

text \<open>One call of \<open>receive\<close>; None while it waits for an event or for the end of the worker.\<close>

definition native_settled :: "native_receiver \<Rightarrow> session_event option result \<times> native_receiver" where
  "native_settled r = (case nr_remaining r of
       e # es \<Rightarrow> (Inr (Some e), r\<lparr>nr_remaining := es\<rparr>)
     | [] \<Rightarrow> (case nr_result r of
           None \<Rightarrow> (Inr None, r)
         | Some (Inl err) \<Rightarrow> (Inl err, r\<lparr>nr_result := None\<rparr>)
         | Some (Inr _) \<Rightarrow> (Inr None, r\<lparr>nr_result := None\<rparr>)))"

definition native_receive :: "native_receiver \<Rightarrow> (session_event option result \<times> native_receiver) option" where
  "native_receive r =
     (if nr_taken r then Some (native_settled r)
      else (case nr_channel r of
          e # es \<Rightarrow> Some (Inr (Some e), r\<lparr>nr_channel := es\<rparr>)
        | [] \<Rightarrow> (case nr_terminal r of
              None \<Rightarrow> None
            | Some (events, result) \<Rightarrow>
                Some (native_settled (r\<lparr>nr_taken := True, nr_remaining := events, nr_result := Some result\<rparr>)))))"

section \<open>The driver\<close>

datatype wire_message = WireText string | WireBinary bytes

datatype action =
  ActSend wire_message | ActEvent session_event_body | ActObserve model_delta | ActMedia media_chunk
| ActFail error | ActClose

record 'p socket_protocol =
  wp_commands_allowed :: "'p \<Rightarrow> bool"
  wp_finished :: "'p \<Rightarrow> bool"
  wp_generation :: "'p \<Rightarrow> string option"
  wp_check :: "'p \<Rightarrow> unit result \<times> 'p"
  wp_command :: "session_command \<Rightarrow> 'p \<Rightarrow> action list result \<times> 'p"
  wp_receive :: "wire_message \<Rightarrow> 'p \<Rightarrow> action list result \<times> 'p"

record 'p native_driver =
  nd_protocol :: 'p
  nd_outputs :: native_outputs
  nd_socket_closed :: bool
  nd_closing :: bool
  nd_sent :: "wire_message list"

text \<open>One action; \<open>sent\<close> is what the socket answers if the action is a send.\<close>

fun native_action :: "'p socket_protocol \<Rightarrow> unit result \<Rightarrow> action \<Rightarrow> 'p native_driver \<Rightarrow> unit result \<times> 'p native_driver" where
  "native_action P sent (ActSend m) d = (sent, if is_ok sent then d\<lparr>nd_sent := nd_sent d @ [m]\<rparr> else d)"
| "native_action P sent (ActObserve delta) d =
     (case native_event (EvDelta (wp_generation P (nd_protocol d)) delta) (nd_outputs d) of (r, o') \<Rightarrow> (r, d\<lparr>nd_outputs := o'\<rparr>))"
| "native_action P sent (ActEvent body) d = (case native_event body (nd_outputs d) of (r, o') \<Rightarrow> (r, d\<lparr>nd_outputs := o'\<rparr>))"
| "native_action P sent (ActMedia c) d = (case native_media c (nd_outputs d) of (r, o') \<Rightarrow> (r, d\<lparr>nd_outputs := o'\<rparr>))"
| "native_action P sent (ActFail e) d = (Inl e, d)"
| "native_action P sent ActClose d = (Inr (), d\<lparr>nd_closing := True\<rparr>)"

text \<open>The actions of one turn, up to the first error; \<open>answers\<close> are the socket's, by position.\<close>

fun native_actions ::
  "'p socket_protocol \<Rightarrow> (nat \<Rightarrow> unit result) \<Rightarrow> action list \<Rightarrow> 'p native_driver \<Rightarrow> unit result \<times> 'p native_driver" where
  "native_actions P answers [] d = (Inr (), d)"
| "native_actions P answers (a # as) d = (case native_action P (answers 0) a d of
       (Inl e, d') \<Rightarrow> (Inl e, d')
     | (Inr _, d') \<Rightarrow> native_actions P (\<lambda>k. answers (Suc k)) as d')"

text \<open>The end of a turn: the actions, and the closing of the media once the protocol is finished.\<close>

definition native_turn ::
  "'p socket_protocol \<Rightarrow> (nat \<Rightarrow> unit result) \<Rightarrow> action list result \<Rightarrow> 'p native_driver \<Rightarrow> unit result \<times> 'p native_driver" where
  "native_turn P answers actions d = (case actions of
       Inl e \<Rightarrow> (Inl e, d)
     | Inr as \<Rightarrow> (case native_actions P answers as d of
           (Inl e, d') \<Rightarrow> (Inl e, d')
         | (Inr _, d') \<Rightarrow> (Inr (), if wp_finished P (nd_protocol d')
             then d'\<lparr>nd_outputs := native_end_media (nd_outputs d')\<rparr> else d')))"

fun command_epoch :: "session_command_body \<Rightarrow> u64 option" where
  "command_epoch (BodyInterruptOutput _ epoch) = Some epoch"
| "command_epoch _ = None"

definition native_command ::
  "'p socket_protocol \<Rightarrow> (nat \<Rightarrow> unit result) \<Rightarrow> session_command \<Rightarrow> 'p native_driver \<Rightarrow> unit result \<times> 'p native_driver" where
  "native_command P answers c d = (case wp_command P c (nd_protocol d) of (r, p) \<Rightarrow>
     native_turn P answers r (d\<lparr>nd_protocol := p, nd_outputs :=
       (case (r, command_epoch (scmd_body c)) of (Inr _, Some epoch) \<Rightarrow> native_invalidate epoch (nd_outputs d) | _ \<Rightarrow> nd_outputs d)\<rparr>))"

definition native_message ::
  "'p socket_protocol \<Rightarrow> (nat \<Rightarrow> unit result) \<Rightarrow> wire_message \<Rightarrow> 'p native_driver \<Rightarrow> unit result \<times> 'p native_driver" where
  "native_message P answers m d = (case wp_receive P m (nd_protocol d) of (r, p) \<Rightarrow>
     native_turn P answers r (d\<lparr>nd_protocol := p\<rparr>))"

section \<open>The session\<close>

text \<open>
  \<open>nt_running\<close> is the worker; the channels take \<open>nt_capacity\<close> events and
  \<open>nt_command_capacity\<close> commands; a submission to a full one waits. \<open>nt_output\<close> is the media that is
  reserved and queued for its receiver. \<open>nt_accepted\<close> are the events that the outputs accepted.
\<close>

record 'p native_session =
  nt_driver :: "'p native_driver"
  nt_running :: bool
  nt_capacity :: nat
  nt_command_capacity :: nat
  nt_commands :: "session_command list"
  nt_host_gone :: bool
  nt_receiver :: native_receiver
  nt_output :: "media_chunk list"
  nt_heard :: "media_chunk list"
  nt_accepted :: "session_event list"

definition native_session_new :: "limits \<Rightarrow> u64 \<Rightarrow> 'p \<Rightarrow> 'p native_session" where
  "native_session_new l epoch p = \<lparr>
     nt_driver = \<lparr>nd_protocol = p, nd_outputs = native_outputs_new l epoch, nd_socket_closed = False, nd_closing = False, nd_sent = []\<rparr>,
     nt_running = True, nt_capacity = lim_max_session_events l, nt_command_capacity = lim_max_control_commands l, nt_commands = [], nt_host_gone = False,
     nt_receiver = \<lparr>nr_channel = [], nr_terminal = None, nr_taken = False, nr_remaining = [], nr_result = None, nr_results = []\<rparr>,
     nt_output = [], nt_heard = [], nt_accepted = []\<rparr>"

text \<open>The worker ends: what is pending goes with the result through the terminal message.\<close>

definition native_end :: "unit result \<Rightarrow> 'p native_session \<Rightarrow> 'p native_session" where
  "native_end result s = (let o' = nd_outputs (nt_driver s) in
     s\<lparr>nt_running := False, nt_driver := (nt_driver s)\<lparr>nd_outputs := o'\<lparr>nu_pending := []\<rparr>\<rparr>,
       nt_receiver := (nt_receiver s)\<lparr>nr_terminal := Some (nu_pending o', result)\<rparr>\<rparr>)"

text \<open>A turn of the driver: the events it accepted are noted, and an error ends the worker.\<close>

definition native_turned :: "unit result \<times> 'p native_driver \<Rightarrow> 'p native_session \<Rightarrow> 'p native_session" where
  "native_turned t s = (case t of (r, d) \<Rightarrow>
     (let s' = s\<lparr>nt_driver := d, nt_accepted := nt_accepted s
           @ drop (length (nu_pending (nd_outputs (nt_driver s)))) (nu_pending (nd_outputs d))\<rparr> in
      case r of Inl e \<Rightarrow> native_end (Inl e) s' | Inr _ \<Rightarrow> s'))"

definition native_idle :: "'p native_session \<Rightarrow> bool" where
  "native_idle s \<longleftrightarrow> nt_running s \<and> \<not> (nd_closing (nt_driver s) \<and> \<not> native_pending (nd_outputs (nt_driver s)))"

text \<open>\<open>flush_one\<close>, with the permit or the reservation it waited for.\<close>

definition native_flush_event :: "session_event \<Rightarrow> session_event list \<Rightarrow> 'p native_session \<Rightarrow> 'p native_session" where
  "native_flush_event e es s =
     s\<lparr>nt_driver := (nt_driver s)\<lparr>nd_outputs := (nd_outputs (nt_driver s))\<lparr>nu_pending := es\<rparr>\<rparr>,
       nt_receiver := (nt_receiver s)\<lparr>nr_channel := nr_channel (nt_receiver s) @ [e]\<rparr>\<rparr>"

definition native_flush_media :: "media_chunk \<Rightarrow> media_chunk list \<Rightarrow> 'p native_session \<Rightarrow> 'p native_session" where
  "native_flush_media c cs s = (let o' = nd_outputs (nt_driver s) in
     s\<lparr>nt_driver := (nt_driver s)\<lparr>nd_outputs := o'\<lparr>nu_media := cs,
         nu_media_bytes := nu_media_bytes o' - length (mc_bytes c),
         nu_media_sender := \<not> (nu_media_ending o' \<and> cs = [])\<rparr>\<rparr>,
       nt_output := nt_output s @ [c]\<rparr>)"

inductive native_step :: "'p socket_protocol \<Rightarrow> 'p native_session \<Rightarrow> 'p native_session \<Rightarrow> bool" for P where
  nstep_closed: "nt_running s \<Longrightarrow> nd_closing (nt_driver s) \<Longrightarrow> \<not> native_pending (nd_outputs (nt_driver s)) \<Longrightarrow>
    native_step P s (native_end (Inr ()) s)"
| nstep_event: "native_idle s \<Longrightarrow> nu_pending (nd_outputs (nt_driver s)) = e # es \<Longrightarrow>
    length (nr_channel (nt_receiver s)) < nt_capacity s \<Longrightarrow>
    native_step P s (native_flush_event e es s)"
| nstep_media: "native_idle s \<Longrightarrow> o' = nd_outputs (nt_driver s) \<Longrightarrow> nu_media o' = c # cs \<Longrightarrow> nu_media_sender o' \<Longrightarrow>
    media_sizes (nt_output s) + length (mc_bytes c) \<le> nu_media_limit o' \<Longrightarrow> length (nt_output s) < max_buffered_chunks \<Longrightarrow>
    native_step P s (native_flush_media c cs s)"
| nstep_unheard: "native_idle s \<Longrightarrow> native_pending (nd_outputs (nt_driver s)) \<Longrightarrow> native_step P s (native_end (Inl Cancelled) s)"
| nstep_deadline: "native_idle s \<Longrightarrow> wp_check P (nd_protocol (nt_driver s)) = (r, p) \<Longrightarrow>
    native_step P s (native_turned (native_turn P answers (map_sum id (\<lambda>_. []) r) ((nt_driver s)\<lparr>nd_protocol := p\<rparr>)) s)"
| nstep_command: "native_idle s \<Longrightarrow> \<not> nd_closing (nt_driver s) \<Longrightarrow> wp_commands_allowed P (nd_protocol (nt_driver s)) \<Longrightarrow>
    nt_commands s = c # cs \<Longrightarrow>
    native_step P s (native_turned (native_command P answers c (nt_driver s)) (s\<lparr>nt_commands := cs\<rparr>))"
| nstep_host_gone: "native_idle s \<Longrightarrow> \<not> nd_closing (nt_driver s) \<Longrightarrow> wp_commands_allowed P (nd_protocol (nt_driver s)) \<Longrightarrow>
    nt_commands s = [] \<Longrightarrow> nt_host_gone s \<Longrightarrow> native_step P s (native_end (Inr ()) s)"
| nstep_message: "native_idle s \<Longrightarrow> \<not> nd_socket_closed (nt_driver s) \<Longrightarrow> \<not> nd_closing (nt_driver s) \<Longrightarrow>
    native_can_receive (nd_outputs (nt_driver s)) \<Longrightarrow>
    native_step P s (native_turned (native_message P answers m (nt_driver s)) s)"
| nstep_socket_error: "native_idle s \<Longrightarrow> \<not> nd_socket_closed (nt_driver s) \<Longrightarrow> native_step P s (native_end (Inl e) s)"
| nstep_socket_end: "native_idle s \<Longrightarrow> \<not> nd_socket_closed (nt_driver s) \<Longrightarrow> \<not> nd_closing (nt_driver s) \<Longrightarrow>
    native_can_receive (nd_outputs (nt_driver s)) \<Longrightarrow>
    native_step P s (if wp_finished P (nd_protocol (nt_driver s))
      then native_turned (native_turn P answers (Inr []) ((nt_driver s)\<lparr>nd_socket_closed := True\<rparr>)) s
      else native_end (Inl (Uncertain ''WebSocket ended before protocol completion'')) s)"
| nstep_interrupted: "nt_running s \<Longrightarrow> e \<in> {Cancelled, Deadline} \<Longrightarrow> native_step P s (native_end (Inl e) s)"
| nstep_submit: "nt_running s \<Longrightarrow> \<not> nt_host_gone s \<Longrightarrow> length (nt_commands s) < nt_command_capacity s \<Longrightarrow>
    native_step P s (s\<lparr>nt_commands := nt_commands s @ [c]\<rparr>)"
| nstep_drop_host: "native_step P s (s\<lparr>nt_host_gone := True\<rparr>)"
| nstep_receive: "native_receive (nt_receiver s) = Some (x, r) \<Longrightarrow>
    native_step P s (s\<lparr>nt_receiver := r\<lparr>nr_results := nr_results r @ [x]\<rparr>\<rparr>)"
| nstep_hear: "nt_output s = c # cs \<Longrightarrow> native_step P s (s\<lparr>nt_output := cs,
    nt_heard := nt_heard s @ (if nu_min_epoch (nd_outputs (nt_driver s)) \<le> mc_epoch c then [c] else [])\<rparr>)"

inductive native_reaches :: "'p socket_protocol \<Rightarrow> limits \<Rightarrow> u64 \<Rightarrow> 'p \<Rightarrow> 'p native_session \<Rightarrow> bool" for P l epoch p where
  nreach_new: "native_reaches P l epoch p (native_session_new l epoch p)"
| nreach_step: "native_reaches P l epoch p s \<Longrightarrow> native_step P s s' \<Longrightarrow> native_reaches P l epoch p s'"


section \<open>What a turn adds\<close>

definition numbered_events :: "u64 \<Rightarrow> session_event list \<Rightarrow> bool" where
  "numbered_events n es \<longleftrightarrow> (\<forall>i < length es. sev_sequence (es ! i) = n + of_nat i)"

lemma numbered_events_append: "numbered_events n (as @ bs) \<longleftrightarrow> numbered_events n as \<and> numbered_events (n + of_nat (length as)) bs"
proof
  assume all: "numbered_events n (as @ bs)"
  have "sev_sequence (as ! i) = n + of_nat i" if "i < length as" for i
    using all that by (fastforce simp: numbered_events_def nth_append dest: spec [of _ i])
  moreover have "sev_sequence (bs ! i) = n + of_nat (length as) + of_nat i" if "i < length bs" for i
    using all that by (auto simp: numbered_events_def nth_append dest: spec [of _ "length as + i"])
  ultimately show "numbered_events n as \<and> numbered_events (n + of_nat (length as)) bs" by (simp add: numbered_events_def)
next
  assume parts: "numbered_events n as \<and> numbered_events (n + of_nat (length as)) bs"
  show "numbered_events n (as @ bs)"
    unfolding numbered_events_def
  proof (intro allI impI)
    fix i assume i: "i < length (as @ bs)"
    show "sev_sequence ((as @ bs) ! i) = n + of_nat i"
    proof (cases "i < length as")
      case True
      then show ?thesis using parts by (simp add: numbered_events_def nth_append)
    next
      case False
      then have "sev_sequence (bs ! (i - length as)) = n + of_nat (length as) + of_nat (i - length as)"
        using parts i by (simp add: numbered_events_def)
      then show ?thesis using False by (simp add: nth_append of_nat_diff)
    qed
  qed
qed

lemma u64_of_unat: "unat b = unat a + n \<Longrightarrow> b = a + of_nat n" for a b :: u64
  by (metis of_nat_add of_nat_unat ucast_id)

lemma u64_nat_inverse: "i < unat (n :: u64) \<Longrightarrow> unat (of_nat i :: u64) = i"
proof -
  assume i: "i < unat n"
  have "unat n < 2 ^ 64" using unsigned_less [of n] by simp
  then show ?thesis using i by (simp add: unsigned_of_nat take_bit_nat_eq_self)
qed

definition media_ok :: "native_outputs \<Rightarrow> bool" where
  "media_ok o' \<longleftrightarrow> nu_media_bytes o' = media_sizes (nu_media o') \<and> nu_media_bytes o' \<le> nu_media_limit o'
     \<and> length (nu_media o') \<le> max_buffered_chunks"

definition outputs_grow :: "native_outputs \<Rightarrow> native_outputs \<Rightarrow> bool" where
  "outputs_grow o' u \<longleftrightarrow> (\<exists>es. nu_pending u = nu_pending o' @ es \<and> numbered_events (nu_sequence o') es
     \<and> unat (nu_sequence u) = unat (nu_sequence o') + length es)
     \<and> nu_event_limit u = nu_event_limit o' \<and> nu_media_limit u = nu_media_limit o'
     \<and> (length (nu_pending o') \<le> nu_event_limit o' \<longrightarrow> length (nu_pending u) \<le> nu_event_limit u)
     \<and> (media_ok o' \<longrightarrow> media_ok u)"

lemma outputs_grow_refl [simp]: "outputs_grow o' o'"
  by (simp add: outputs_grow_def numbered_events_def)

lemma outputs_grow_trans [trans]:
  assumes "outputs_grow a b" and "outputs_grow b c"
  shows "outputs_grow a c"
proof -
  obtain es fs where es: "nu_pending b = nu_pending a @ es" "numbered_events (nu_sequence a) es" "unat (nu_sequence b) = unat (nu_sequence a) + length es"
    and fs: "nu_pending c = nu_pending b @ fs" "numbered_events (nu_sequence b) fs" "unat (nu_sequence c) = unat (nu_sequence b) + length fs"
    using assms unfolding outputs_grow_def by blast
  have "nu_sequence b = nu_sequence a + of_nat (length es)"
    by (rule u64_of_unat [OF es(3)])
  then have "nu_pending c = nu_pending a @ (es @ fs) \<and> numbered_events (nu_sequence a) (es @ fs)
      \<and> unat (nu_sequence c) = unat (nu_sequence a) + length (es @ fs)"
    using es fs by (simp add: numbered_events_append)
  then show ?thesis using assms unfolding outputs_grow_def by auto
qed

lemma native_event_grows: "outputs_grow o' (snd (native_event body o'))"
proof (cases "nu_event_limit o' \<le> length (nu_pending o') \<or> nu_sequence o' = - 1")
  case False
  then have "unat (nu_sequence o' + 1) = unat (nu_sequence o') + 1"
    by (metis Suc_eq_plus1 add.right_neutral add_diff_cancel_right' add.commute diff_0 unat_u64_add_one diff_eq_eq add_eq_0_iff2)
  then show ?thesis using False by (auto simp: native_event_def outputs_grow_def numbered_events_def media_ok_def)
qed (auto simp: native_event_def)

lemma native_media_grows: "outputs_grow o' (snd (native_media c o'))"
  by (auto simp: native_media_def outputs_grow_def numbered_events_def media_ok_def media_sizes_def split: sum.split)

lemma media_sizes_filter: "media_sizes (filter P cs) \<le> media_sizes cs"
  by (induction cs) (auto simp: media_sizes_def)

lemma native_invalidate_grows: "outputs_grow o' (native_invalidate epoch o')"
  by (auto simp: native_invalidate_def Let_def outputs_grow_def numbered_events_def media_ok_def
    intro: order_trans [OF media_sizes_filter] order_trans [OF length_filter_le])

lemma native_end_media_grows: "outputs_grow o' (native_end_media o')"
  by (auto simp: native_end_media_def outputs_grow_def numbered_events_def media_ok_def)

lemma native_action_grows: "outputs_grow (nd_outputs d) (nd_outputs (snd (native_action P sent a d)))"
  by (cases a) (simp_all add: case_prod_beta native_event_grows native_media_grows)

lemma native_actions_grow: "outputs_grow (nd_outputs d) (nd_outputs (snd (native_actions P answers as d)))"
proof (induction P answers as d rule: native_actions.induct)
  case (2 P answers a as d)
  obtain r d' where a: "native_action P (answers 0) a d = (r, d')" by fastforce
  have one: "outputs_grow (nd_outputs d) (nd_outputs d')" using native_action_grows [of d P "answers 0" a] a by simp
  show ?case using one outputs_grow_trans [OF one] 2 [OF a [symmetric]] a by (cases r) auto
qed simp

lemma native_turn_grows: "outputs_grow (nd_outputs d) (nd_outputs (snd (native_turn P answers actions d)))"
proof (cases actions)
  case (Inr as)
  obtain r d' where a: "native_actions P answers as d = (r, d')" by fastforce
  have one: "outputs_grow (nd_outputs d) (nd_outputs d')" using native_actions_grow [of d P answers as] a by simp
  show ?thesis using one outputs_grow_trans [OF one native_end_media_grows] Inr a by (cases r) (auto simp: native_turn_def)
qed (simp add: native_turn_def)

lemma native_command_grows: "outputs_grow (nd_outputs d) (nd_outputs (snd (native_command P answers c d)))"
proof -
  obtain r p where c: "wp_command P c (nd_protocol d) = (r, p)" by fastforce
  let ?d = "d\<lparr>nd_protocol := p, nd_outputs :=
       (case (r, command_epoch (scmd_body c)) of (Inr _, Some epoch) \<Rightarrow> native_invalidate epoch (nd_outputs d) | _ \<Rightarrow> nd_outputs d)\<rparr>"
  have "outputs_grow (nd_outputs d) (nd_outputs ?d)" by (auto simp: native_invalidate_grows split: sum.split option.split)
  from outputs_grow_trans [OF this native_turn_grows] show ?thesis unfolding native_command_def c prod.case .
qed

lemma native_message_grows: "outputs_grow (nd_outputs d) (nd_outputs (snd (native_message P answers m d)))"
proof -
  obtain r p where c: "wp_receive P m (nd_protocol d) = (r, p)" by fastforce
  show ?thesis using native_turn_grows [of "d\<lparr>nd_protocol := p\<rparr>" P answers r] by (simp add: native_message_def c)
qed


section \<open>What the consumer gets\<close>

text \<open>What \<open>receive\<close> returns after the last event: the error if there is one, and then the end.\<close>

fun native_ending :: "unit result \<Rightarrow> nat \<Rightarrow> session_event option result list" where
  "native_ending _ 0 = []"
| "native_ending (Inl e) (Suc n) = Inl e # replicate n (Inr None)"
| "native_ending (Inr _) (Suc n) = replicate (Suc n) (Inr None)"

lemma native_ending_end: "native_ending r (Suc n) @ [Inr None] = native_ending r (Suc (Suc n))"
  by (cases r) (simp_all add: replicate_append_same)

text \<open>What is still to come of the accepted events.\<close>

definition native_rest :: "native_outputs \<Rightarrow> native_receiver \<Rightarrow> session_event list" where
  "native_rest o' r = (if nr_taken r then nr_remaining r
     else nr_channel r @ (case nr_terminal r of None \<Rightarrow> nu_pending o' | Some (events, _) \<Rightarrow> events))"

definition native_got :: "native_receiver \<Rightarrow> session_event list \<Rightarrow> bool" where
  "native_got r got \<longleftrightarrow> (\<exists>n. nr_results r = map (\<lambda>e. Inr (Some e)) got
       @ (case nr_terminal r of None \<Rightarrow> [] | Some (_, result) \<Rightarrow> native_ending result n)
     \<and> (nr_taken r \<longrightarrow> nr_terminal r \<noteq> None)
     \<and> (if nr_taken r \<and> nr_result r = None then nr_remaining r = [] \<and> 0 < n
        else n = 0 \<and> (nr_taken r \<longrightarrow> nr_result r = map_option snd (nr_terminal r))))"

lemma native_receive_got:
  assumes "native_got r got" and "native_receive r = Some (x, r')"
  defines "u \<equiv> r'\<lparr>nr_results := nr_results r' @ [x]\<rparr>"
  shows "\<exists>new. native_got u (got @ new) \<and> native_rest o' r = new @ native_rest o' u
    \<and> nr_terminal u = nr_terminal r \<and> length (nr_channel u) \<le> length (nr_channel r)
    \<and> (nr_taken u \<longrightarrow> nr_taken r \<or> nr_channel r = [])"
proof -
  obtain n where n: "nr_results r = map (\<lambda>e. Inr (Some e)) got
       @ (case nr_terminal r of None \<Rightarrow> [] | Some (_, result) \<Rightarrow> native_ending result n)"
     "nr_taken r \<longrightarrow> nr_terminal r \<noteq> None"
     "if nr_taken r \<and> nr_result r = None then nr_remaining r = [] \<and> 0 < n
        else n = 0 \<and> (nr_taken r \<longrightarrow> nr_result r = map_option snd (nr_terminal r))"
    using assms(1) unfolding native_got_def by blast
  consider (queued) e es where "\<not> nr_taken r" "nr_channel r = e # es"
    | (last) events result where "\<not> nr_taken r" "nr_channel r = []" "nr_terminal r = Some (events, result)"
    | (left) e es where "nr_taken r" "nr_remaining r = e # es"
    | (result) res where "nr_taken r" "nr_remaining r = []" "nr_result r = Some res"
    | (over) "nr_taken r" "nr_remaining r = []" "nr_result r = None"
    using assms(2) by (cases "nr_taken r"; cases "nr_channel r"; cases "nr_terminal r"; cases "nr_remaining r"; cases "nr_result r")
      (auto simp: native_receive_def)
  then show ?thesis
  proof cases
    case queued
    then show ?thesis using assms(2) n
      by (intro exI [of _ "[e]"]) (auto simp: native_receive_def u_def native_got_def native_rest_def split: option.split)
  next
    case last
    show ?thesis
    proof (cases events)
      case Nil
      then have "x = (case result of Inl e \<Rightarrow> Inl e | Inr _ \<Rightarrow> Inr None)"
        "r' = r\<lparr>nr_taken := True, nr_remaining := [], nr_result := None\<rparr>"
        using assms(2) last by (auto simp: native_receive_def native_settled_def split: sum.splits)
      then show ?thesis using last n Nil
        by (intro exI [of _ "[]"]) (auto simp: u_def native_got_def native_rest_def split: sum.split intro!: exI [of _ "Suc 0"])
    next
      case (Cons e es)
      then show ?thesis using assms(2) last n
        by (intro exI [of _ "[e]"]) (auto simp: native_receive_def native_settled_def u_def native_got_def native_rest_def)
    qed
  next
    case left
    then show ?thesis using assms(2) n
      by (intro exI [of _ "[e]"]) (auto simp: native_receive_def native_settled_def u_def native_got_def native_rest_def split: if_splits)
  next
    case result
    then obtain events where t: "nr_terminal r = Some (events, res)" using n by (cases "nr_terminal r") auto
    have "x = (case res of Inl e \<Rightarrow> Inl e | Inr _ \<Rightarrow> Inr None)" "r' = r\<lparr>nr_result := None\<rparr>"
      using assms(2) result by (auto simp: native_receive_def native_settled_def split: sum.splits)
    then show ?thesis using result n t
      by (intro exI [of _ "[]"]) (auto simp: u_def native_got_def native_rest_def split: sum.split intro!: exI [of _ "Suc 0"])
  next
    case over
    then obtain m events res where m: "n = Suc m" "nr_terminal r = Some (events, res)"
      using n by (cases n; cases "nr_terminal r") auto
    have "x = Inr None" "r' = r" using assms(2) over by (auto simp: native_receive_def native_settled_def)
    then show ?thesis using over n m native_ending_end [of res m]
      by (intro exI [of _ "[]"]) (auto simp: u_def native_got_def native_rest_def intro!: exI [of _ "Suc (Suc m)"])
  qed
qed

definition native_ok :: "limits \<Rightarrow> 'p native_session \<Rightarrow> bool" where
  "native_ok l s \<longleftrightarrow> (let o' = nd_outputs (nt_driver s); r = nt_receiver s in
     (\<exists>got. native_got r got \<and> nt_accepted s = got @ native_rest o' r)
     \<and> numbered_events 0 (nt_accepted s) \<and> unat (nu_sequence o') = length (nt_accepted s)
     \<and> (nt_running s \<longleftrightarrow> nr_terminal r = None) \<and> (nr_taken r \<longrightarrow> \<not> nt_running s)
     \<and> media_ok o' \<and> nu_media_limit o' = lim_max_buffered_media_bytes l
     \<and> nu_event_limit o' = lim_max_session_events l + lim_max_control_commands l + 8
     \<and> length (nu_pending o') \<le> nu_event_limit o'
     \<and> nt_capacity s = lim_max_session_events l \<and> length (nr_channel r) \<le> nt_capacity s
     \<and> media_sizes (nt_output s) \<le> nu_media_limit o' \<and> length (nt_output s) \<le> max_buffered_chunks)"

lemma native_end_ok:
  assumes "native_ok l s" and "nt_running s"
  shows "native_ok l (native_end result s)"
proof -
  have "native_got (nr'\<lparr>nr_terminal := Some (es, result)\<rparr>) got" if "native_got nr' got" "nr_terminal nr' = None" for nr' es got
    using that by (auto simp: native_got_def)
  then show ?thesis using assms by (auto simp: native_ok_def native_end_def Let_def native_rest_def media_ok_def split: if_splits)
qed

lemma native_turned_ok:
  assumes ok: "native_ok l s" and "nt_running s" and grow: "outputs_grow (nd_outputs (nt_driver s)) (nd_outputs (snd t))"
  shows "native_ok l (native_turned t s)"
proof -
  obtain r d where t: "t = (r, d)" by fastforce
  let ?o = "nd_outputs (nt_driver s)" and ?u = "nd_outputs d"
  let ?s = "s\<lparr>nt_driver := d, nt_accepted := nt_accepted s @ drop (length (nu_pending ?o)) (nu_pending ?u)\<rparr>"
  obtain es where es: "nu_pending ?u = nu_pending ?o @ es" "numbered_events (nu_sequence ?o) es"
      "unat (nu_sequence ?u) = unat (nu_sequence ?o) + length es"
    using grow t unfolding outputs_grow_def by auto
  have terminal: "nr_terminal (nt_receiver s) = None" "\<not> nr_taken (nt_receiver s)"
    and accepted: "numbered_events 0 (nt_accepted s)" "unat (nu_sequence ?o) = length (nt_accepted s)"
    using ok assms(2) by (auto simp: native_ok_def Let_def)
  have at: "nu_sequence ?o = 0 + of_nat (length (nt_accepted s))" by (rule u64_of_unat) (simp add: accepted)
  have "numbered_events 0 (nt_accepted s @ es)" using accepted(1) es(2) at by (simp add: numbered_events_append)
  then have ok': "native_ok l ?s"
    using ok grow es terminal t by (auto simp: native_ok_def Let_def native_rest_def outputs_grow_def)
  have "nt_running ?s" using assms(2) by simp
  from ok' native_end_ok [OF ok' this] show ?thesis by (cases r) (simp_all add: native_turned_def t)
qed


lemma native_running: "native_idle s \<Longrightarrow> nt_running s"
  by (simp add: native_idle_def)

lemma native_step_ok:
  assumes "native_step P s s'" and "native_ok l s"
  shows "native_ok l s'"
  using assms
proof (cases rule: native_step.cases)
  case (nstep_event e es)
  then show ?thesis using assms(2) native_running by (auto simp: native_flush_event_def native_ok_def Let_def native_rest_def native_got_def media_ok_def)
next
  case (nstep_media o' c cs)
  then have "native_ok l s" using assms(2) by simp
  then show ?thesis using nstep_media
    by (auto simp: native_flush_media_def native_ok_def Let_def native_rest_def media_ok_def media_sizes_def)
next
  case (nstep_deadline r p answers)
  have "outputs_grow (nd_outputs (nt_driver s)) (nd_outputs (snd (native_turn P answers (map_sum id (\<lambda>_. []) r) ((nt_driver s)\<lparr>nd_protocol := p\<rparr>))))"
    using native_turn_grows [of "(nt_driver s)\<lparr>nd_protocol := p\<rparr>"] by simp
  from native_turned_ok [OF assms(2) native_running [OF nstep_deadline(2)] this] show ?thesis using nstep_deadline(1) by simp
next
  case (nstep_command c cs answers)
  have "native_ok l (s\<lparr>nt_commands := cs\<rparr>)" using assms(2) by (simp add: native_ok_def)
  moreover have "nt_running (s\<lparr>nt_commands := cs\<rparr>)" using native_running [OF nstep_command(2)] by simp
  moreover have "outputs_grow (nd_outputs (nt_driver (s\<lparr>nt_commands := cs\<rparr>))) (nd_outputs (snd (native_command P answers c (nt_driver s))))"
    using native_command_grows by simp
  ultimately show ?thesis using nstep_command(1) native_turned_ok by blast
next
  case (nstep_message answers m)
  show ?thesis using native_turned_ok [OF assms(2) native_running [OF nstep_message(2)] native_message_grows] nstep_message(1) by simp
next
  case (nstep_socket_end answers)
  have "outputs_grow (nd_outputs (nt_driver s)) (nd_outputs (snd (native_turn P answers (Inr []) ((nt_driver s)\<lparr>nd_socket_closed := True\<rparr>))))"
    using native_turn_grows [of "(nt_driver s)\<lparr>nd_socket_closed := True\<rparr>"] by simp
  note turned = native_turned_ok [OF assms(2) native_running [OF nstep_socket_end(2)] this]
  show ?thesis unfolding nstep_socket_end(1)
    using turned native_end_ok [OF assms(2) native_running [OF nstep_socket_end(2)]] by (cases "wp_finished P (nd_protocol (nt_driver s))") simp_all
next
  case (nstep_receive x r)
  obtain got where got: "native_got (nt_receiver s) got" "nt_accepted s = got @ native_rest (nd_outputs (nt_driver s)) (nt_receiver s)"
    using assms(2) by (auto simp: native_ok_def Let_def)
  obtain more' where more: "native_got (r\<lparr>nr_results := nr_results r @ [x]\<rparr>) (got @ more')"
      "native_rest (nd_outputs (nt_driver s)) (nt_receiver s) = more' @ native_rest (nd_outputs (nt_driver s)) (r\<lparr>nr_results := nr_results r @ [x]\<rparr>)"
      "nr_terminal r = nr_terminal (nt_receiver s)" "length (nr_channel r) \<le> length (nr_channel (nt_receiver s))"
    using native_receive_got [OF got(1) nstep_receive(2), of "nd_outputs (nt_driver s)"] by auto
  have "nr_taken r \<longrightarrow> nr_terminal r \<noteq> None" using more(1) by (auto simp: native_got_def)
  then show ?thesis using nstep_receive(1) assms(2) got more by (auto simp: native_ok_def Let_def)
next
  case (nstep_submit c)
  then show ?thesis using assms(2) by (simp add: native_ok_def)
next
  case nstep_drop_host
  then show ?thesis using assms(2) by (simp add: native_ok_def)
next
  case (nstep_hear c cs)
  then show ?thesis using assms(2) by (auto simp: native_ok_def Let_def media_sizes_def)
qed (use native_end_ok [OF assms(2)] native_running [of s] in \<open>simp_all\<close>)

lemma native_new_ok: "native_ok l (native_session_new l epoch p)"
  by (auto simp: native_ok_def Let_def native_session_new_def native_outputs_new_def native_got_def native_rest_def
      numbered_events_def media_ok_def media_sizes_def)

lemma native_reaches_ok: "native_reaches P l epoch p s \<Longrightarrow> native_ok l s"
  by (induction rule: native_reaches.induct) (auto intro: native_new_ok native_step_ok)

text \<open>A consumer never waits once the worker has ended.\<close>

lemma native_receive_ready: "nr_terminal r \<noteq> None \<Longrightarrow> native_receive r \<noteq> None"
  by (auto simp: native_receive_def split: list.split)

end
