(* ===== verification/Minimax_Tts.thy ===== *)
theory Minimax_Tts
  imports Native_Session Codec Policies
begin

text \<open>
  Speech synthesis over a socket, \<open>zhir-minimax/src/tts\<close>: the settings and their checks (\<open>settings.rs\<close>,
  \<open>mod.rs\<close>), the sentences of audio (\<open>audio.rs\<close>) and the phases of a task (\<open>protocol.rs\<close>), with the one
  confirmation a task waits for (\<open>zhir-models/src/native/confirmation.rs\<close>). \<open>tts_protocol\<close> is the protocol
  that the driver of \<open>Native_Session\<close> runs. The lemmas show that every command is acknowledged once, in
  order, and that audio is numbered without a gap within each sentence.
\<close>

section \<open>Confirmations\<close>

text \<open>The value that waits, its deadline and the event it waits for; \<open>k\<close> is the reading of the clock.\<close>

type_synonym 'v slot = "('v \<times> nat \<times> string) option"

definition slot_begin :: "timer \<Rightarrow> 'v \<Rightarrow> string \<Rightarrow> nat \<Rightarrow> nat \<Rightarrow> 'v slot \<Rightarrow> 'v slot result" where
  "slot_begin t v expected timeout k s =
     (if s \<noteq> None then Inl (Protocol ''remote confirmation already pending'')
      else if tm_range t < tm_now t k + timeout \<or> timeout = 0 then Inl (Invalid ''invalid confirmation timeout'')
      else Inr (Some (v, tm_now t k + timeout, expected)))"

definition slot_check :: "timer \<Rightarrow> ('v \<Rightarrow> string) \<Rightarrow> nat \<Rightarrow> 'v slot \<Rightarrow> unit result" where
  "slot_check t render k s = (case s of
       None \<Rightarrow> Inr ()
     | Some (v, deadline, expected) \<Rightarrow> fail_if (deadline \<le> tm_now t k)
         (Uncertain (''remote confirmation timed out: expected '' @ expected @ '', pending '' @ render v)))"

definition slot_complete :: "timer \<Rightarrow> ('v \<Rightarrow> string) \<Rightarrow> nat \<Rightarrow> 'v slot \<Rightarrow> 'v result" where
  "slot_complete t render k s = r_bind (slot_check t render k s) (\<lambda>_.
     ok_or (Protocol ''unsolicited remote confirmation'') (map_option fst s))"

section \<open>Settings\<close>

datatype audio_format = Mp3 | Pcm | Flac | Wav | PcmuRaw | PcmuWav

fun audio_format_name :: "audio_format \<Rightarrow> string" where
  "audio_format_name Mp3 = ''mp3''"
| "audio_format_name Pcm = ''pcm''"
| "audio_format_name Flac = ''flac''"
| "audio_format_name Wav = ''wav''"
| "audio_format_name PcmuRaw = ''pcmu_raw''"
| "audio_format_name PcmuWav = ''pcmu_wav''"

fun audio_media_type :: "audio_format \<Rightarrow> 32 word \<Rightarrow> 8 word \<Rightarrow> string" where
  "audio_media_type Mp3 rate channels = ''audio/mpeg''"
| "audio_media_type Pcm rate channels = ''audio/pcm;encoding=s16le;rate='' @ dec (unat rate) @ '';channels='' @ dec (unat channels)"
| "audio_media_type Flac rate channels = ''audio/flac''"
| "audio_media_type PcmuRaw rate channels = ''audio/PCMU;rate=8000;channels='' @ dec (unat channels)"
| "audio_media_type _ rate channels = ''audio/wav''"

datatype emotion = Happy | Sad | Angry | Fearful | Disgusted | Surprised | Calm | Fluent | Whisper

fun emotion_name :: "emotion \<Rightarrow> string" where
  "emotion_name Happy = ''happy''"
| "emotion_name Sad = ''sad''"
| "emotion_name Angry = ''angry''"
| "emotion_name Fearful = ''fearful''"
| "emotion_name Disgusted = ''disgusted''"
| "emotion_name Surprised = ''surprised''"
| "emotion_name Calm = ''calm''"
| "emotion_name Fluent = ''fluent''"
| "emotion_name Whisper = ''whisper''"

datatype sound_effect = SpaciousEcho | AuditoriumEcho | LofiTelephone | Robotic

fun sound_effect_name :: "sound_effect \<Rightarrow> string" where
  "sound_effect_name SpaciousEcho = ''spacious_echo''"
| "sound_effect_name AuditoriumEcho = ''auditorium_echo''"
| "sound_effect_name LofiTelephone = ''lofi_telephone''"
| "sound_effect_name Robotic = ''robotic''"

datatype subtitles = SubtitleSentence | SubtitleWord | SubtitleWordStreaming

fun subtitles_name :: "subtitles \<Rightarrow> string" where
  "subtitles_name SubtitleSentence = ''sentence''"
| "subtitles_name SubtitleWord = ''word''"
| "subtitles_name SubtitleWordStreaming = ''word_streaming''"

text \<open>Pitches are signed; speed and volume are the bits of an \<open>f64\<close>.\<close>

record voice_settings =
  vs_voice_id :: string
  vs_speed :: "64 word"
  vs_volume :: "64 word"
  vs_pitch :: int
  vs_emotion :: "emotion option"
  vs_english_normalization :: bool
  vs_latex_read :: bool

record audio_settings =
  as_format :: audio_format
  as_sample_rate :: "32 word"
  as_bitrate :: "32 word"
  as_channels :: "8 word"

record timbre_weight =
  tw_voice_id :: string
  tw_weight :: "8 word"

record voice_effects =
  ve_pitch :: int
  ve_intensity :: int
  ve_timbre :: int
  ve_sound_effects :: "sound_effect option"

record tts_config =
  tc_command_timeout :: nat
  tc_model :: string
  tc_voice :: voice_settings
  tc_audio :: audio_settings
  tc_language_boost :: "string option"
  tc_pronunciation :: "string list"
  tc_timbre_weights :: "timbre_weight list"
  tc_voice_effects :: "voice_effects option"
  tc_subtitles :: "subtitles option"
  tc_continuous_sound :: bool

definition f64_one :: "64 word" where
  "f64_one = 0x3FF0000000000000"

definition voice_settings_new :: "string \<Rightarrow> voice_settings" where
  "voice_settings_new voice = \<lparr>vs_voice_id = voice, vs_speed = f64_one, vs_volume = f64_one, vs_pitch = 0,
     vs_emotion = None, vs_english_normalization = False, vs_latex_read = False\<rparr>"

definition audio_settings_default :: audio_settings where
  "audio_settings_default = \<lparr>as_format = Mp3, as_sample_rate = 32000, as_bitrate = 128000, as_channels = 1\<rparr>"

text \<open>The connection takes part only with its timeout for commands, 30 seconds by default.\<close>

definition tts_config_new :: "string \<Rightarrow> string \<Rightarrow> tts_config" where
  "tts_config_new model voice = \<lparr>tc_command_timeout = 30 * 10 ^ 9, tc_model = model, tc_voice = voice_settings_new voice,
     tc_audio = audio_settings_default, tc_language_boost = None, tc_pronunciation = [], tc_timbre_weights = [],
     tc_voice_effects = None, tc_subtitles = None, tc_continuous_sound = False\<rparr>"

text \<open>The ranges 0.5 to 2 and above 0 to 10: the order of positive numbers is that of their bits.\<close>

definition speed_ok :: "64 word \<Rightarrow> bool" where
  "speed_ok b \<longleftrightarrow> 0x3FE0000000000000 \<le> b \<and> b \<le> 0x4000000000000000"

definition volume_ok :: "64 word \<Rightarrow> bool" where
  "volume_ok b \<longleftrightarrow> 0 < b \<and> b \<le> 0x4024000000000000"

definition tts_config_validate :: "tts_config \<Rightarrow> unit result" where
  "tts_config_validate c = (let v = tc_voice c; a = tc_audio c in
     fail_if (blank (tc_model c)
       \<or> (tc_timbre_weights c = []) = blank (vs_voice_id v)
       \<or> 4 < length (tc_timbre_weights c)
       \<or> (\<exists>w \<in> set (tc_timbre_weights c). blank (tw_voice_id w) \<or> tw_weight w < 1 \<or> 100 < tw_weight w)
       \<or> \<not> speed_ok (vs_speed v) \<or> \<not> volume_ok (vs_volume v)
       \<or> vs_pitch v < - 12 \<or> 12 < vs_pitch v
       \<or> as_sample_rate a \<notin> {8000, 16000, 22050, 24000, 32000, 44100}
       \<or> as_format a = Mp3 \<and> as_bitrate a \<notin> {32000, 64000, 128000, 256000}
       \<or> as_channels a \<notin> {1, 2}
       \<or> as_format a \<in> {PcmuRaw, PcmuWav} \<and> as_sample_rate a \<noteq> 8000
       \<or> some_and (\<lambda>e. as_format a \<noteq> Mp3
           \<or> (\<exists>n \<in> {ve_pitch e, ve_intensity e, ve_timbre e}. n < - 100 \<or> 100 < n)) (tc_voice_effects c)
       \<or> vs_latex_read v \<and> tc_language_boost c \<noteq> Some ''Chinese''
       \<or> some_and blank (tc_language_boost c)
       \<or> (\<exists>s \<in> set (tc_pronunciation c). blank s))
     (Invalid ''invalid MiniMax TTS model, voice or audio settings''))"

section \<open>Audio\<close>

definition tts_error :: "string \<Rightarrow> error" where
  "tts_error text = Protocol (''MiniMax TTS: '' @ text)"

record tts_audio =
  ta_epoch :: u64
  ta_sentence :: u64
  ta_sequence :: u64
  ta_open :: bool
  ta_limit :: nat
  ta_started_at :: nat
  ta_media_type :: string

definition tts_audio_new :: "u64 \<Rightarrow> nat \<Rightarrow> string \<Rightarrow> nat \<Rightarrow> tts_audio" where
  "tts_audio_new epoch limit media_type now = \<lparr>ta_epoch = epoch, ta_sentence = 0, ta_sequence = 0, ta_open = False,
     ta_limit = limit, ta_started_at = now, ta_media_type = media_type\<rparr>"

definition audio_start :: "tts_audio \<Rightarrow> tts_audio result" where
  "audio_start a =
     (if ta_open a then Inl (tts_error ''sentence started before previous sentence ended'')
      else if ta_sentence a = - 1 then Inl (tts_error ''sentence counter overflow'')
      else Inr (a\<lparr>ta_sentence := ta_sentence a + 1, ta_sequence := 0, ta_open := True\<rparr>))"

definition audio_validate_epoch :: "u64 \<Rightarrow> tts_audio \<Rightarrow> unit result" where
  "audio_validate_epoch epoch a = fail_if (epoch \<le> ta_epoch a) (tts_error ''interrupt must advance the kernel output epoch'')"

definition audio_cancel :: "u64 \<Rightarrow> tts_audio \<Rightarrow> tts_audio result" where
  "audio_cancel epoch a = r_bind (audio_validate_epoch epoch a) (\<lambda>_.
     Inr (a\<lparr>ta_epoch := epoch, ta_open := False, ta_sequence := 0\<rparr>))"

definition sentence_stream :: "u64 \<Rightarrow> string" where
  "sentence_stream n = ''minimax-tts:'' @ dec (unat n)"

definition audio_chunk :: "nat \<Rightarrow> string \<Rightarrow> bytes \<Rightarrow> bool \<Rightarrow> tts_audio \<Rightarrow> (media_chunk \<times> tts_audio) result" where
  "audio_chunk now session_id bytes ending a =
     (if ta_sequence a = - 1 then Inl (tts_error ''audio sequence overflow'')
      else Inr (\<lparr>mc_stream_id = sentence_stream (ta_sentence a), mc_session_id = session_id, mc_epoch = ta_epoch a,
          mc_sequence = ta_sequence a, mc_timestamp_us = of_int (min (int ((now - ta_started_at a) div 1000)) (2 ^ 64 - 1)),
          mc_media_type = ta_media_type a, mc_bytes = bytes, mc_end = ending\<rparr>,
        a\<lparr>ta_sequence := ta_sequence a + 1\<rparr>))"

definition to_digit16 :: "char \<Rightarrow> nat option" where
  "to_digit16 c = (let n = of_char c :: nat in
     if 48 \<le> n \<and> n \<le> 57 then Some (n - 48) else if 97 \<le> n \<and> n \<le> 102 then Some (n - 87)
     else if 65 \<le> n \<and> n \<le> 70 then Some (n - 55) else None)"

fun decode_hex :: "string \<Rightarrow> bytes result" where
  "decode_hex (a # b # s) = (case (to_digit16 a, to_digit16 b) of
       (Some m, Some n) \<Rightarrow> r_bind (decode_hex s) (\<lambda>bs. Inr (of_nat (16 * m + n) # bs))
     | _ \<Rightarrow> Inl (tts_error ''invalid audio hex''))"
| "decode_hex _ = Inr []"

definition decode_audio :: "string \<Rightarrow> nat \<Rightarrow> bytes result" where
  "decode_audio s limit = (if odd (length s) \<or> limit < length s div 2 then Inl (tts_error ''invalid audio length'')
     else decode_hex s)"

definition audio_push :: "nat \<Rightarrow> string \<Rightarrow> string \<Rightarrow> tts_audio \<Rightarrow> (media_chunk \<times> tts_audio) result" where
  "audio_push now session_id text a =
     (if \<not> ta_open a then Inl (tts_error ''audio outside a sentence'')
      else r_bind (decode_audio text (ta_limit a)) (\<lambda>bytes. audio_chunk now session_id bytes False a))"

definition audio_end :: "nat \<Rightarrow> string \<Rightarrow> tts_audio \<Rightarrow> (media_chunk \<times> tts_audio) result" where
  "audio_end now session_id a =
     (if \<not> ta_open a then Inl (tts_error ''sentence ended without an open sentence'')
      else r_bind (audio_chunk now session_id [] True a) (\<lambda>(c, a'). Inr (c, a'\<lparr>ta_open := False\<rparr>)))"

definition audio_finish :: "tts_audio \<Rightarrow> unit result" where
  "audio_finish a = fail_if (ta_open a) (tts_error ''task finished before sentence_end'')"


section \<open>Requests\<close>

definition tts_capabilities :: capability_set where
  "tts_capabilities = \<lparr>cap_input_modalities = [''text''], cap_output_modalities = [''audio''],
     cap_features = {Streaming, CapDuplex, Steering, CapInterruptOutput, CapFlushInput, ExplicitGeneration, ResponseEvents, StreamingInput},
     cap_tool_choices = [''auto'', ''none''], cap_constraints = [], cap_extensions = []\<rparr>"

text \<open>\<open>chars().count()\<close>: the bytes of text that do not continue a character.\<close>

definition char_count :: "string \<Rightarrow> nat" where
  "char_count s = length (filter (\<lambda>c. \<not> utf8_continues c) s)"

fun user_text :: "message \<Rightarrow> string result" where
  "user_text (User cs) =
     (if None \<in> set (map content_as_text cs) then Inl (Invalid ''MiniMax TTS accepts text only'')
      else (let text = concat (map (the \<circ> content_as_text) cs) in
        if text = [] \<or> 10000 < int (char_count text)
        then Inl (Invalid (''MiniMax TTS input must contain 1'' @ [CHR 0xE2, CHR 0x80, CHR 0x93] @ ''10000 characters''))
        else Inr text))"
| "user_text _ = Inl (Invalid ''MiniMax TTS accepts user text only'')"

fun is_user :: "message \<Rightarrow> bool" where
  "is_user (User _) = True"
| "is_user _ = False"

definition latest_text :: "model_request \<Rightarrow> string result" where
  "latest_text request = r_bind (ok_or (Invalid ''MiniMax TTS needs a user text message'')
     (find is_user (rev (mr_messages request)))) user_text"

definition tts_validate_request :: "model_request \<Rightarrow> unit result" where
  "tts_validate_request request = r_bind (fail_if (rp_extensions (mr_profile request) \<noteq> []
       \<or> rp_generation (mr_profile request) \<noteq> \<lparr>gp_temperature = None, gp_max_output_tokens = None, gp_seed = None, gp_parallel_runtime_tools = None\<rparr>)
     (Invalid ''MiniMax TTS uses TtsConfig; generation and extension overrides are unsupported'')) (\<lambda>_.
     r_bind (latest_text request) (\<lambda>_. Inr ()))"

definition tts_negotiate :: "model_request \<Rightarrow> negotiated_profile result" where
  "tts_negotiate request = r_bind (tts_validate_request request) (\<lambda>_. negotiate request tts_capabilities)"

section \<open>The start of a task\<close>

definition json_int :: "int \<Rightarrow> json" where
  "json_int n = json_i64_value (of_int n)"

definition json_uint :: "'a::len word \<Rightarrow> json" where
  "json_uint n = json_u64_value (ucast n)"

definition voice_json :: "voice_settings \<Rightarrow> json" where
  "voice_json v = json_obj ([(''voice_id'', String (vs_voice_id v)), (''speed'', json_f64_value (vs_speed v)),
       (''vol'', json_f64_value (vs_volume v)), (''pitch'', json_int (vs_pitch v))]
     @ (case vs_emotion v of None \<Rightarrow> [] | Some e \<Rightarrow> [(''emotion'', String (emotion_name e))])
     @ [(''english_normalization'', Bool (vs_english_normalization v)), (''latex_read'', Bool (vs_latex_read v))])"

definition effects_json :: "voice_effects \<Rightarrow> json" where
  "effects_json e = json_obj ([(''pitch'', json_int (ve_pitch e)), (''intensity'', json_int (ve_intensity e)),
       (''timbre'', json_int (ve_timbre e))]
     @ (case ve_sound_effects e of None \<Rightarrow> [] | Some s \<Rightarrow> [(''sound_effects'', String (sound_effect_name s))]))"

definition weight_json :: "timbre_weight \<Rightarrow> json" where
  "weight_json w = json_obj [(''voice_id'', String (tw_voice_id w)), (''weight'', json_uint (tw_weight w))]"

definition audio_json :: "audio_settings \<Rightarrow> json" where
  "audio_json a = json_obj ([(''sample_rate'', json_uint (as_sample_rate a)), (''format'', String (audio_format_name (as_format a))),
       (''channel'', json_uint (as_channels a))]
     @ (if as_format a = Mp3 then [(''bitrate'', json_uint (as_bitrate a))] else []))"

definition task_start :: "tts_config \<Rightarrow> string \<Rightarrow> json" where
  "task_start c session_id = json_obj ([(''event'', String ''task_start''), (''model'', String (tc_model c)),
       (''session_id'', String session_id), (''voice_setting'', voice_json (tc_voice c)),
       (''audio_setting'', audio_json (tc_audio c)), (''continuous_sound'', Bool (tc_continuous_sound c))]
     @ (if tc_timbre_weights c = [] then [] else [(''timbre_weights'', Array (map weight_json (tc_timbre_weights c)))])
     @ (case tc_voice_effects c of None \<Rightarrow> [] | Some e \<Rightarrow> [(''voice_modify'', effects_json e)])
     @ (case tc_subtitles c of None \<Rightarrow> [] | Some s \<Rightarrow> [(''subtitle_enable'', Bool True), (''subtitle_type'', String (subtitles_name s))])
     @ (case tc_language_boost c of None \<Rightarrow> [] | Some l \<Rightarrow> [(''language_boost'', String l)])
     @ (if tc_pronunciation c = [] then []
        else [(''pronunciation_dict'', json_obj [(''tone'', Array (map String (tc_pronunciation c)))])]))"

section \<open>Sessions\<close>

datatype tts_phase =
  TtsConnecting | TtsReady | TtsStarting string | TtsSpeaking | TtsInterrupting u64 | TtsFlushing
| TtsFinishing | TtsFinished

record tts_session =
  tt_session_id :: string
  tt_phase :: tts_phase
  tt_generation :: "string option"
  tt_request :: model_request
  tt_context_revision :: u64
  tt_input_position :: u64
  tt_audio :: tts_audio
  tt_slot :: "string option slot"
  tt_metadata :: json
  tt_reads :: nat

text \<open>The readings of the clock are counted in the state; \<open>te_debug\<close> is the rendering of a pending value.\<close>

record tts_env =
  te_config :: tts_config
  te_timer :: timer
  te_wire :: wire_lib
  te_debug :: "string option \<Rightarrow> string"

definition tts_open :: "tts_env \<Rightarrow> session_open \<Rightarrow> tts_session result" where
  "tts_open E opening = (let a = tc_audio (te_config E) in
     if so_recovery opening \<noteq> None \<or> so_after_sequence opening \<noteq> None
     then Inl (tts_error ''MiniMax adapter has no verified session recovery mechanism'')
     else Inr \<lparr>tt_session_id = so_session_id opening, tt_phase = TtsConnecting, tt_generation = None,
       tt_request = so_request opening, tt_context_revision = so_context_revision opening,
       tt_input_position = so_input_position opening,
       tt_audio = tts_audio_new (so_output_epoch opening) (lim_max_media_chunk_bytes (so_limits opening))
         (audio_media_type (as_format a) (as_sample_rate a) (as_channels a)) (tm_now (te_timer E) 0),
       tt_slot = None, tt_metadata = Null, tt_reads = 1\<rparr>)"

definition tts_clock :: "(tts_session, nat) exec" where
  "tts_clock = (\<lambda>s. (Inr (tt_reads s), s\<lparr>tt_reads := tt_reads s + 1\<rparr>))"

definition tts_begin :: "tts_env \<Rightarrow> string option \<Rightarrow> string \<Rightarrow> (tts_session, unit) exec" where
  "tts_begin E i expected = e_bind tts_clock (\<lambda>k s.
     (case slot_begin (te_timer E) i expected (tc_command_timeout (te_config E)) k (tt_slot s) of
        Inl e \<Rightarrow> (Inl e, s) | Inr slot \<Rightarrow> (Inr (), s\<lparr>tt_slot := slot\<rparr>)))"

definition tts_check :: "tts_env \<Rightarrow> (tts_session, unit) exec" where
  "tts_check E = e_bind tts_clock (\<lambda>k s. (slot_check (te_timer E) (te_debug E) k (tt_slot s), s))"

definition tts_complete :: "tts_env \<Rightarrow> (tts_session, string option) exec" where
  "tts_complete E = e_bind tts_clock (\<lambda>k s. (case slot_complete (te_timer E) (te_debug E) k (tt_slot s) of
       Inl e \<Rightarrow> (Inl e, s) | Inr i \<Rightarrow> (Inr i, s\<lparr>tt_slot := None\<rparr>)))"

definition tts_confirmed :: "tts_env \<Rightarrow> (tts_session, string) exec" where
  "tts_confirmed E = e_bind (tts_complete E) (\<lambda>i. e_lift (ok_or (tts_error ''missing command confirmation'') i))"

definition tts_phase_is :: "tts_phase \<Rightarrow> (tts_session, unit) exec" where
  "tts_phase_is p = e_modify (\<lambda>s. s\<lparr>tt_phase := p\<rparr>)"

definition tts_send :: "tts_env \<Rightarrow> json \<Rightarrow> action" where
  "tts_send E v = ActSend (WireText (wl_render (te_wire E) v))"

definition tts_acknowledge :: "string \<Rightarrow> acknowledgement \<Rightarrow> action" where
  "tts_acknowledge i level = ActEvent (EvAcknowledged i None level)"

definition tts_event :: "string \<Rightarrow> json" where
  "tts_event name = json_obj [(''event'', String name)]"

definition tts_continue :: "string \<Rightarrow> json" where
  "tts_continue text = json_obj [(''event'', String ''task_continue''), (''text'', String text)]"

definition tts_commands_allowed :: "tts_session \<Rightarrow> bool" where
  "tts_commands_allowed s \<longleftrightarrow> tt_slot s = None \<and> tt_phase s \<in> {TtsReady, TtsSpeaking, TtsFinished}"

section \<open>Commands\<close>

definition tts_generate :: "tts_env \<Rightarrow> string \<Rightarrow> string \<Rightarrow> u64 \<Rightarrow> u64 \<Rightarrow> u64 \<Rightarrow> (tts_session, action list) exec" where
  "tts_generate E i generation_id revision position profile_revision = e_get (\<lambda>s.
     e_bind (e_lift (fail_if (generation_id = []) (tts_error ''empty generation identity''))) (\<lambda>_.
     e_bind (e_lift (fail_if (revision \<noteq> tt_context_revision s \<or> position \<noteq> tt_input_position s \<or> profile_revision \<noteq> 0)
       (tts_error ''generation projection mismatch''))) (\<lambda>_.
     e_bind (e_lift (latest_text (tt_request s))) (\<lambda>text.
     e_bind (e_modify (\<lambda>s. s\<lparr>tt_generation := Some generation_id\<rparr>)) (\<lambda>_.
     e_bind (tts_begin E (Some i) ''task_started'') (\<lambda>_.
     e_bind (tts_phase_is (TtsStarting text)) (\<lambda>_.
       e_return [tts_send E (task_start (te_config E) (tt_session_id s))])))))))"

definition tts_append ::
  "tts_env \<Rightarrow> string \<Rightarrow> history_entry \<Rightarrow> u64 \<Rightarrow> u64 \<Rightarrow> append_source \<Rightarrow> (tts_session, action list) exec" where
  "tts_append E i item revision position source = e_get (\<lambda>s.
     if revision \<noteq> tt_context_revision s + 1 then e_fail (tts_error ''non-contiguous context revision'')
     else e_bind (e_modify (\<lambda>s. s\<lparr>tt_context_revision := revision, tt_input_position := position\<rparr>)) (\<lambda>_.
       if source = Accepted then e_return [tts_acknowledge i AckProjection]
       else if tt_phase s = TtsReady
       then e_bind (e_modify (\<lambda>s. s\<lparr>tt_request := (tt_request s)\<lparr>mr_messages := mr_messages (tt_request s) @ [he_message item]\<rparr>\<rparr>)) (\<lambda>_.
         e_return [tts_acknowledge i AckProjection])
       else if tt_phase s \<noteq> TtsSpeaking then e_fail (tts_error ''input outside synthesis'')
       else e_bind (e_lift (user_text (he_message item))) (\<lambda>text.
         e_return [tts_send E (tts_continue text), tts_acknowledge i AckTransport])))"

text \<open>A command that waits for a confirmation: the event it expects, the phase it enters, what it sends.\<close>

definition tts_request :: "tts_env \<Rightarrow> string \<Rightarrow> string \<Rightarrow> tts_phase \<Rightarrow> string \<Rightarrow> (tts_session, action list) exec" where
  "tts_request E i expected p name = e_bind (tts_begin E (Some i) expected) (\<lambda>_.
     e_bind (tts_phase_is p) (\<lambda>_. e_return [tts_send E (tts_event name)]))"

definition tts_interrupt :: "tts_env \<Rightarrow> string \<Rightarrow> string \<Rightarrow> u64 \<Rightarrow> (tts_session, action list) exec" where
  "tts_interrupt E i generation_id epoch = e_get (\<lambda>s.
     e_bind (e_lift (fail_if (tt_generation s \<noteq> Some generation_id) (tts_error ''interrupt generation mismatch''))) (\<lambda>_.
     e_bind (e_lift (audio_validate_epoch epoch (tt_audio s))) (\<lambda>_.
       tts_request E i ''task_canceled'' (TtsInterrupting epoch) ''task_cancel'')))"

definition tts_close :: "string \<Rightarrow> (tts_session, action list) exec" where
  "tts_close i = e_return [tts_acknowledge i AckProjection, ActEvent (EvClosed ''host_request'' Null), ActClose]"

definition tts_command :: "tts_env \<Rightarrow> session_command \<Rightarrow> (tts_session, action list) exec" where
  "tts_command E c = e_get (\<lambda>s. let i = scmd_id c; unsupported = e_fail (tts_error ''unsupported command or command order'') in
     if i = [] then e_fail (tts_error ''empty command identity'')
     else (case scmd_body c of
         BodyGenerate generation_id revision position profile_revision \<Rightarrow>
           (if tt_phase s = TtsReady then tts_generate E i generation_id revision position profile_revision else unsupported)
       | BodyAppend item revision position source \<Rightarrow> tts_append E i item revision position source
       | BodyInterruptOutput generation_id epoch \<Rightarrow>
           (if tt_phase s = TtsSpeaking then tts_interrupt E i generation_id epoch else unsupported)
       | BodyFlushInput \<Rightarrow>
           (if tt_phase s = TtsSpeaking then tts_request E i ''task_flushed'' TtsFlushing ''task_flush'' else unsupported)
       | BodySealUserInput \<Rightarrow>
           (if tt_phase s = TtsSpeaking then tts_request E i ''task_finished'' TtsFinishing ''task_finish'' else unsupported)
       | BodyClose \<Rightarrow> tts_close i
       | _ \<Rightarrow> unsupported))"


section \<open>Events of the service\<close>

fun json_as_i64 :: "json \<Rightarrow> int option" where
  "json_as_i64 (Number (PosInt n)) = (if unat n < 2 ^ 63 then Some (uint n) else None)"
| "json_as_i64 (Number (NegInt n)) = Some (sint n)"
| "json_as_i64 _ = None"

definition int_dec :: "int \<Rightarrow> string" where
  "int_dec n = (if n < 0 then ''-'' @ dec (nat (- n)) else dec (nat n))"

definition optional_string :: "string \<Rightarrow> json \<Rightarrow> string option result" where
  "optional_string key v = (case json_get key v of
       None \<Rightarrow> Inr None | Some (String s) \<Rightarrow> Inr (Some s) | Some _ \<Rightarrow> Inl (tts_error ''invalid event field type''))"

text \<open>The error a service reports in an event; None if it reports none.\<close>

definition tts_failure :: "json \<Rightarrow> error option result" where
  "tts_failure v = (case json_get ''base_resp'' v of
       None \<Rightarrow> Inr None
     | Some base \<Rightarrow>
         r_bind (ok_or (tts_error ''invalid service status code'') (Option.bind (json_get ''status_code'' base) json_as_i64)) (\<lambda>code.
           if code = 0 then Inr None
           else r_bind (ok_or (tts_error ''invalid service status message'') (json_str ''status_msg'' base)) (\<lambda>text.
             Inr (Some (if code = 2205
               then Uncertain (''MiniMax TTS input queue rejected an uncorrelated command (2205): '' @ text)
               else ModelError \<lparr>failure_code = ''minimax_'' @ int_dec code, failure_message = text, failure_retryable = False\<rparr>)))))"

definition tts_audio_field :: "json \<Rightarrow> string option result" where
  "tts_audio_field v = (case json_get ''data'' v of
       None \<Rightarrow> Inr None
     | Some data \<Rightarrow> (if json_is_object data then optional_string ''audio'' data else Inl (tts_error ''invalid event data'')))"

fun metadata_agrees :: "json \<Rightarrow> (string \<times> json) list \<Rightarrow> unit result" where
  "metadata_agrees v [] = Inr ()"
| "metadata_agrees v ((key, expected) # rest) =
     (if some_and (\<lambda>actual. actual \<noteq> expected) (json_get key v)
      then Inl (tts_error (''provider '' @ key @ '' differs from requested audio settings''))
      else metadata_agrees v rest)"

definition validate_audio_metadata :: "audio_settings \<Rightarrow> json \<Rightarrow> unit result" where
  "validate_audio_metadata a v = metadata_agrees v [(''audio_format'', String (audio_format_name (as_format a))),
     (''audio_sample_rate'', json_uint (as_sample_rate a)), (''audio_channel'', json_uint (as_channels a))]"

definition observe_event :: "json \<Rightarrow> action" where
  "observe_event v = ActObserve (DeltaProtocolEvent 0 v)"

fun synthesizing :: "tts_phase \<Rightarrow> bool" where
  "synthesizing TtsSpeaking = True"
| "synthesizing (TtsInterrupting _) = True"
| "synthesizing TtsFlushing = True"
| "synthesizing TtsFinishing = True"
| "synthesizing _ = False"

definition tts_metadata :: "tts_env \<Rightarrow> json \<Rightarrow> (tts_session, unit) exec" where
  "tts_metadata E v = (case json_get ''extra_info'' v of
       None \<Rightarrow> e_return ()
     | Some info \<Rightarrow> e_bind (e_lift (validate_audio_metadata (tc_audio (te_config E)) info)) (\<lambda>_.
         e_modify (\<lambda>s. s\<lparr>tt_metadata := info\<rparr>)))"

text \<open>What an operation of the audio returns becomes an action.\<close>

definition tts_media :: "tts_env \<Rightarrow> (nat \<Rightarrow> string \<Rightarrow> tts_audio \<Rightarrow> (media_chunk \<times> tts_audio) result) \<Rightarrow> (tts_session, action list) exec" where
  "tts_media E f = e_bind tts_clock (\<lambda>k s. (case f (tm_now (te_timer E) k) (tt_session_id s) (tt_audio s) of
       Inl e \<Rightarrow> (Inl e, s) | Inr (c, a) \<Rightarrow> (Inr [ActMedia c], s\<lparr>tt_audio := a\<rparr>)))"

definition tts_payload :: "tts_env \<Rightarrow> string option \<Rightarrow> (tts_session, action list) exec" where
  "tts_payload E audio = (case audio of
       None \<Rightarrow> e_return []
     | Some [] \<Rightarrow> e_return []
     | Some text \<Rightarrow> e_get (\<lambda>s.
         if \<not> synthesizing (tt_phase s) then e_fail (tts_error ''audio outside a synthesis task'')
         else tts_media E (\<lambda>now i. audio_push now i text)))"

definition tts_generation_of :: "(tts_session, string) exec" where
  "tts_generation_of = e_get (\<lambda>s. e_lift (ok_or (tts_error ''missing generation'') (tt_generation s)))"

definition tts_connected :: "tts_env \<Rightarrow> (tts_session, action list) exec" where
  "tts_connected E = e_bind (tts_complete E) (\<lambda>_. e_bind (tts_phase_is TtsReady) (\<lambda>_.
     e_get (\<lambda>s. e_return [ActEvent (EvReady (tt_context_revision s))])))"

definition tts_started :: "tts_env \<Rightarrow> string \<Rightarrow> (tts_session, action list) exec" where
  "tts_started E text = e_bind (tts_phase_is TtsSpeaking) (\<lambda>_.
     e_bind (tts_confirmed E) (\<lambda>i.
     e_bind tts_generation_of (\<lambda>g. e_get (\<lambda>s.
       e_return [tts_send E (tts_continue text), tts_acknowledge i AckProvider, ActEvent (EvResponseStarted g (tt_input_position s))]))))"

definition tts_canceled :: "tts_env \<Rightarrow> u64 \<Rightarrow> (tts_session, action list) exec" where
  "tts_canceled E epoch = e_bind (tts_phase_is TtsSpeaking) (\<lambda>_.
     e_bind (tts_confirmed E) (\<lambda>i. e_get (\<lambda>s.
     e_bind (e_lift (audio_cancel epoch (tt_audio s))) (\<lambda>a.
     e_bind (e_modify (\<lambda>s. s\<lparr>tt_audio := a\<rparr>)) (\<lambda>_. e_return [tts_acknowledge i AckProvider])))))"

definition tts_flushed :: "tts_env \<Rightarrow> (tts_session, action list) exec" where
  "tts_flushed E = e_bind (tts_confirmed E) (\<lambda>i. e_bind (tts_phase_is TtsSpeaking) (\<lambda>_. e_return [tts_acknowledge i AckProvider]))"

definition tts_finish :: "tts_env \<Rightarrow> json \<Rightarrow> (tts_session, action list) exec" where
  "tts_finish E v = e_bind (tts_confirmed E) (\<lambda>i. e_bind (tts_phase_is TtsFinished) (\<lambda>_. e_get (\<lambda>s.
     e_bind (e_lift (audio_finish (tt_audio s))) (\<lambda>_.
     e_bind tts_generation_of (\<lambda>g.
       e_return [tts_acknowledge i AckProvider,
         ActEvent (EvResponseFinished g (tt_input_position s) RespCompleted usage_default (Some (tc_model (te_config E)))
           (json_str ''session_id'' v) (Some ''task_finished'') (json_obj [(''extra_info'', tt_metadata s)]) [])])))))"

definition tts_sentence :: "(tts_session, action list) exec" where
  "tts_sentence = e_get (\<lambda>s. e_bind (e_lift (audio_start (tt_audio s))) (\<lambda>a.
     e_bind (e_modify (\<lambda>s. s\<lparr>tt_audio := a\<rparr>)) (\<lambda>_. e_return [])))"

text \<open>The events by name and phase; audio may come unnamed or with \<open>task_continued\<close>.\<close>

definition tts_named :: "tts_env \<Rightarrow> json \<Rightarrow> string option \<Rightarrow> bool \<Rightarrow> (tts_session, action list) exec" where
  "tts_named E v name has_audio = e_get (\<lambda>s. let p = tt_phase s; unexpected = e_fail (tts_error ''unexpected event or event order'') in
     case name of
       None \<Rightarrow> (if has_audio \<and> synthesizing p then e_return [] else unexpected)
     | Some n \<Rightarrow>
         (if n = ''connected_success'' \<and> p = TtsConnecting then tts_connected E
          else if n = ''task_started'' then (case p of TtsStarting text \<Rightarrow> tts_started E text | _ \<Rightarrow> unexpected)
          else if n = ''task_canceled'' then (case p of TtsInterrupting epoch \<Rightarrow> tts_canceled E epoch | _ \<Rightarrow> unexpected)
          else if n = ''task_flushed'' \<and> p = TtsFlushing then tts_flushed E
          else if n = ''task_finished'' \<and> p = TtsFinishing then tts_finish E v
          else if n = ''sentence_start'' \<and> synthesizing p then tts_sentence
          else if n = ''sentence_end'' \<and> synthesizing p then tts_media E audio_end
          else if n = ''task_continued'' \<and> has_audio \<and> synthesizing p then e_return []
          else unexpected))"

definition tts_text_frame :: "tts_env \<Rightarrow> wire_message \<Rightarrow> json result" where
  "tts_text_frame E m = (case m of
       WireBinary _ \<Rightarrow> Inl (tts_error ''expected a JSON text frame'')
     | WireText text \<Rightarrow> (case wl_parse (te_wire E) text of
           Inl _ \<Rightarrow> Inl (tts_error ''invalid JSON event'')
         | Inr v \<Rightarrow> (if json_is_object v then Inr v else Inl (tts_error ''event must be a JSON object''))))"

definition tts_receive :: "tts_env \<Rightarrow> wire_message \<Rightarrow> (tts_session, action list) exec" where
  "tts_receive E m = e_bind (tts_check E) (\<lambda>_.
     e_bind (e_lift (tts_text_frame E m)) (\<lambda>v.
     e_bind (e_lift (tts_failure v)) (\<lambda>failure. case failure of
         Some e \<Rightarrow> e_return [observe_event v, ActFail e]
       | None \<Rightarrow>
           e_bind (e_lift (optional_string ''event'' v)) (\<lambda>name.
           e_bind (e_lift (tts_audio_field v)) (\<lambda>audio.
           e_bind (tts_metadata E v) (\<lambda>_.
           e_bind (tts_payload E audio) (\<lambda>media.
           e_bind (tts_named E v name (audio \<noteq> None)) (\<lambda>actions.
             e_return (observe_event v # media @ actions)))))))))"

text \<open>The protocol for the driver.\<close>

definition tts_protocol :: "tts_env \<Rightarrow> tts_session socket_protocol" where
  "tts_protocol E = \<lparr>wp_commands_allowed = tts_commands_allowed, wp_finished = (\<lambda>s. tt_phase s = TtsFinished),
     wp_generation = tt_generation, wp_check = tts_check E, wp_command = tts_command E, wp_receive = tts_receive E\<rparr>"

section \<open>Runs\<close>

fun acknowledged_ids :: "action \<Rightarrow> string list" where
  "acknowledged_ids (ActEvent (EvAcknowledged i _ _)) = [i]"
| "acknowledged_ids _ = []"

fun media_chunks :: "action \<Rightarrow> media_chunk list" where
  "media_chunks (ActMedia c) = [c]"
| "media_chunks _ = []"

text \<open>
  The sessions that a driver reaches, with the commands the protocol took, those it acknowledged, and the
  audio it produced. The driver asks for no command that is not allowed, and stops at the first error.
\<close>

inductive tts_reaches ::
  "tts_env \<Rightarrow> session_open \<Rightarrow> tts_session \<Rightarrow> string list \<Rightarrow> string list \<Rightarrow> media_chunk list \<Rightarrow> bool" for E so where
  tts_connects: "tts_open E so = Inr s \<Longrightarrow> tts_begin E None ''connected_success'' s = (Inr (), s') \<Longrightarrow>
    tts_reaches E so s' [] [] []"
| tts_takes: "tts_reaches E so s taken acked chunks \<Longrightarrow> wp_commands_allowed (tts_protocol E) s \<Longrightarrow>
    wp_command (tts_protocol E) c s = (Inr as, s') \<Longrightarrow>
    tts_reaches E so s' (taken @ [scmd_id c]) (acked @ concat (map acknowledged_ids as)) (chunks @ concat (map media_chunks as))"
| tts_receives: "tts_reaches E so s taken acked chunks \<Longrightarrow> wp_receive (tts_protocol E) m s = (Inr as, s') \<Longrightarrow>
    tts_reaches E so s' taken (acked @ concat (map acknowledged_ids as)) (chunks @ concat (map media_chunks as))"
| tts_polls: "tts_reaches E so s taken acked chunks \<Longrightarrow> wp_check (tts_protocol E) s = (Inr (), s') \<Longrightarrow>
    tts_reaches E so s' taken acked chunks"


section \<open>Chunks of audio\<close>

text \<open>
  Within a stream the chunks are numbered from zero, nothing follows its end, and epochs never go back.
\<close>

definition chunks_ok :: "media_chunk list \<Rightarrow> bool" where
  "chunks_ok cs \<longleftrightarrow> (\<forall>i < length cs. \<forall>c. c = cs ! i \<longrightarrow>
     unat (mc_sequence c) = length (filter (\<lambda>b. mc_stream_id b = mc_stream_id c) (take i cs))
     \<and> (\<forall>b \<in> set (take i cs). (mc_end b \<longrightarrow> mc_stream_id b \<noteq> mc_stream_id c) \<and> mc_epoch b \<le> mc_epoch c))"

lemma chunks_ok_snoc: "chunks_ok (cs @ [c]) \<longleftrightarrow> chunks_ok cs
   \<and> unat (mc_sequence c) = length (filter (\<lambda>b. mc_stream_id b = mc_stream_id c) cs)
   \<and> (\<forall>b \<in> set cs. (mc_end b \<longrightarrow> mc_stream_id b \<noteq> mc_stream_id c) \<and> mc_epoch b \<le> mc_epoch c)"
  by (auto simp: chunks_ok_def nth_append less_Suc_eq)

definition audio_ok :: "tts_audio \<Rightarrow> media_chunk list \<Rightarrow> bool" where
  "audio_ok a cs \<longleftrightarrow> chunks_ok cs
     \<and> (\<forall>c \<in> set cs. mc_epoch c \<le> ta_epoch a \<and> (\<exists>n \<le> ta_sentence a. mc_stream_id c = sentence_stream n))
     \<and> (ta_open a \<longrightarrow> unat (ta_sequence a) = length (filter (\<lambda>b. mc_stream_id b = sentence_stream (ta_sentence a)) cs)
         \<and> (\<forall>b \<in> set cs. mc_end b \<longrightarrow> mc_stream_id b \<noteq> sentence_stream (ta_sentence a)))"

definition audio_grows :: "tts_audio \<Rightarrow> media_chunk list \<Rightarrow> tts_audio \<Rightarrow> bool" where
  "audio_grows a new a' \<longleftrightarrow> (\<forall>cs. audio_ok a cs \<longrightarrow> audio_ok a' (cs @ new))"

lemma sentence_stream_inject [simp]: "sentence_stream m = sentence_stream n \<longleftrightarrow> m = n"
  by (simp add: sentence_stream_def word_unat_eq_iff)

lemma u64_above: "n \<noteq> - 1 \<Longrightarrow> m \<le> n \<Longrightarrow> m \<noteq> n + 1 \<and> m \<le> n + 1" for m n :: u64
proof -
  assume n: "n \<noteq> - 1" "m \<le> n"
  have "n + 1 \<noteq> 0" using n(1) by (metis add.commute add_eq_0_iff)
  then have "unat (n + 1) = unat n + 1" by (rule unat_u64_add_one)
  then show ?thesis using n(2) by (auto simp: word_le_nat_alt)
qed

lemma audio_start_grows: "audio_start a = Inr a' \<Longrightarrow> audio_grows a [] a'"
  using u64_above [of "ta_sentence a"]
  by (fastforce simp: audio_start_def audio_grows_def audio_ok_def filter_empty_conv split: if_splits)

lemma audio_cancel_grows: "audio_cancel epoch a = Inr a' \<Longrightarrow> audio_grows a [] a'"
  by (fastforce simp: audio_cancel_def audio_validate_epoch_def audio_grows_def audio_ok_def result_simps)

lemma audio_chunk_grows:
  assumes "audio_chunk now i bytes ending a = Inr (c, a')" and "ta_open a"
  shows "audio_grows a [c] (a'\<lparr>ta_open := \<not> ending\<rparr>)"
proof -
  have c: "ta_sequence a \<noteq> - 1" "mc_stream_id c = sentence_stream (ta_sentence a)" "mc_sequence c = ta_sequence a"
      "mc_epoch c = ta_epoch a" "mc_end c = ending" "a' = a\<lparr>ta_sequence := ta_sequence a + 1\<rparr>"
    using assms(1) by (auto simp: audio_chunk_def split: if_splits)
  have "ta_sequence a + 1 \<noteq> 0" using c(1) by (metis add.commute add_eq_0_iff)
  then have "unat (ta_sequence a + 1) = unat (ta_sequence a) + 1" by (rule unat_u64_add_one)
  then show ?thesis using c assms(2) by (auto simp: audio_grows_def audio_ok_def chunks_ok_snoc)
qed

lemma audio_push_grows: "audio_push now i text a = Inr (c, a') \<Longrightarrow> audio_grows a [c] a'"
proof -
  assume push: "audio_push now i text a = Inr (c, a')"
  then obtain bytes where chunk: "audio_chunk now i bytes False a = Inr (c, a')" "ta_open a"
    by (auto simp: audio_push_def result_simps split: if_splits)
  then have "a'\<lparr>ta_open := True\<rparr> = a'" by (auto simp: audio_chunk_def split: if_splits)
  then show ?thesis using audio_chunk_grows [OF chunk] by simp
qed

lemma audio_end_grows: "audio_end now i a = Inr (c, a') \<Longrightarrow> audio_grows a [c] a'"
proof -
  assume ends: "audio_end now i a = Inr (c, a')"
  then obtain a1 where chunk: "audio_chunk now i [] True a = Inr (c, a1)" "ta_open a" "a' = a1\<lparr>ta_open := False\<rparr>"
    by (auto simp: audio_end_def result_simps split: if_splits)
  then show ?thesis using audio_chunk_grows [OF chunk(1,2)] by simp
qed

text \<open>Decoding inverts the encoding of bytes in digits.\<close>

lemma to_digit16_hex_digit: "n < 16 \<Longrightarrow> to_digit16 (hex_digit n) = Some n"
  by (simp add: to_digit16_def hex_digit_def Let_def)

lemma decode_audio_hex: "length bs \<le> limit \<Longrightarrow> decode_audio (hex bs) limit = Inr bs"
proof -
  have "decode_hex (hex bs) = Inr bs"
  proof (induction bs)
    case (Cons b bs)
    have "unat b < 256" using unsigned_less [of b] by simp
    then have "to_digit16 (hex_digit (unat b div 16)) = Some (unat b div 16)" "to_digit16 (hex_digit (unat b mod 16)) = Some (unat b mod 16)"
      by (simp_all add: to_digit16_hex_digit)
    moreover have "of_nat (16 * (unat b div 16) + unat b mod 16) = b" by simp
    ultimately show ?case using Cons by (simp add: hex_def del: of_nat_add of_nat_mult)
  qed (simp add: hex_def)
  moreover have "length (hex bs) = 2 * length bs" by (induction bs) (simp_all add: hex_def)
  ultimately show "length bs \<le> limit \<Longrightarrow> ?thesis" by (simp add: decode_audio_def)
qed

section \<open>Moves of the protocol\<close>

definition pending_commands :: "tts_session \<Rightarrow> string list" where
  "pending_commands s = (case tt_slot s of Some (Some i, _) \<Rightarrow> [i] | _ \<Rightarrow> [])"

text \<open>What the slot holds in each phase.\<close>

fun slot_fits :: "tts_phase \<Rightarrow> string option slot \<Rightarrow> bool" where
  "slot_fits TtsConnecting slot \<longleftrightarrow> (\<exists>d. slot = Some (None, d))"
| "slot_fits TtsReady slot \<longleftrightarrow> slot = None"
| "slot_fits TtsSpeaking slot \<longleftrightarrow> slot = None"
| "slot_fits TtsFinished slot \<longleftrightarrow> slot = None"
| "slot_fits _ slot \<longleftrightarrow> (\<exists>i d. slot = Some (Some i, d))"

definition tts_moves :: "tts_session \<Rightarrow> action list \<Rightarrow> tts_session \<Rightarrow> bool" where
  "tts_moves s as s' \<longleftrightarrow> slot_fits (tt_phase s') (tt_slot s')
     \<and> concat (map acknowledged_ids as) @ pending_commands s' = pending_commands s
     \<and> audio_grows (tt_audio s) (concat (map media_chunks as)) (tt_audio s')"

lemma audio_grows_refl [simp]: "audio_grows a [] a"
  by (simp add: audio_grows_def)

lemma tts_moves_append: "tts_moves s as s1 \<Longrightarrow> tts_moves s1 bs s2 \<Longrightarrow> tts_moves s (as @ bs) s2"
  unfolding tts_moves_def audio_grows_def by (metis append.assoc concat_append map_append)

named_theorems tts_inversions \<open>what a successful step of the protocol has done\<close>

declare e_bind_eq_Inr [tts_inversions] result_simps [tts_inversions]

lemma tts_begin_Inr [tts_inversions]: "tts_begin E i expected s = (Inr u, s') \<longleftrightarrow>
   (\<exists>slot. slot_begin (te_timer E) i expected (tc_command_timeout (te_config E)) (tt_reads s) (tt_slot s) = Inr slot
     \<and> s' = s\<lparr>tt_reads := tt_reads s + 1, tt_slot := slot\<rparr>)"
  by (auto simp: tts_begin_def tts_clock_def e_bind_def split: sum.split)

lemma slot_begin_Inr: "slot_begin t v expected timeout k s = Inr slot \<Longrightarrow> s = None \<and> (\<exists>d. slot = Some (v, d))"
  by (cases s) (auto simp: slot_begin_def split: if_splits)

lemma tts_complete_Inr:
  assumes "tts_complete E s = (Inr i, s')"
  shows "\<exists>d. tt_slot s = Some (i, d) \<and> s' = s\<lparr>tt_reads := tt_reads s + 1, tt_slot := None\<rparr>"
  using assms by (auto simp: tts_complete_def tts_clock_def e_bind_def slot_complete_def result_simps ok_or_def
      split: sum.splits option.splits)

lemma tts_confirmed_Inr:
  assumes "tts_confirmed E s = (Inr i, s')"
  shows "\<exists>d. tt_slot s = Some (Some i, d) \<and> s' = s\<lparr>tt_reads := tt_reads s + 1, tt_slot := None\<rparr>"
  using assms tts_complete_Inr by (fastforce simp: tts_confirmed_def e_bind_eq_Inr ok_or_def split: option.splits)


lemmas tts_action_simps = tts_send_def tts_acknowledge_def

lemma tts_request_moves:
  assumes "tts_request E i expected p name s = (Inr as, s')" and "\<And>d. slot_fits p (Some (Some i, d))"
  shows "tt_slot s = None \<and> tt_audio s' = tt_audio s \<and> slot_fits (tt_phase s') (tt_slot s')
    \<and> concat (map acknowledged_ids as) @ pending_commands s' = [i] \<and> concat (map media_chunks as) = []"
  using assms by (auto simp: tts_request_def tts_phase_is_def tts_inversions tts_action_simps pending_commands_def dest!: slot_begin_Inr)

text \<open>A command that is taken is acknowledged or waits for its confirmation.\<close>

lemma tts_command_moves:
  assumes "tts_command E c s = (Inr as, s')" and "tts_commands_allowed s" and "slot_fits (tt_phase s) (tt_slot s)"
  shows "slot_fits (tt_phase s') (tt_slot s') \<and> concat (map acknowledged_ids as) @ pending_commands s' = [scmd_id c]
    \<and> concat (map media_chunks as) = [] \<and> audio_grows (tt_audio s) [] (tt_audio s')"
proof -
  have slot: "tt_slot s = None" using assms(2) by (simp add: tts_commands_allowed_def)
  show ?thesis
  proof (cases "scmd_body c")
    case (BodyGenerate g r p n)
    then show ?thesis using assms(1)
      by (auto simp: tts_command_def Let_def tts_generate_def tts_phase_is_def tts_inversions tts_action_simps pending_commands_def
          split: if_splits dest!: slot_begin_Inr)
  next
    case (BodyAppend item r p source)
    then show ?thesis using assms(1,3) slot
      by (auto simp: tts_command_def Let_def tts_append_def tts_inversions tts_action_simps pending_commands_def split: if_splits)
  next
    case (BodyInterruptOutput g epoch)
    then have "tts_request E (scmd_id c) ''task_canceled'' (TtsInterrupting epoch) ''task_cancel'' s = (Inr as, s')"
      using assms(1) by (auto simp: tts_command_def Let_def tts_interrupt_def tts_inversions split: if_splits)
    from tts_request_moves [OF this] show ?thesis by simp
  next
    case BodyFlushInput
    then have "tts_request E (scmd_id c) ''task_flushed'' TtsFlushing ''task_flush'' s = (Inr as, s')"
      using assms(1) by (auto simp: tts_command_def Let_def split: if_splits)
    from tts_request_moves [OF this] show ?thesis by simp
  next
    case BodySealUserInput
    then have "tts_request E (scmd_id c) ''task_finished'' TtsFinishing ''task_finish'' s = (Inr as, s')"
      using assms(1) by (auto simp: tts_command_def Let_def split: if_splits)
    from tts_request_moves [OF this] show ?thesis by simp
  next
    case BodyClose
    then show ?thesis using assms(1,3) slot
      by (auto simp: tts_command_def Let_def tts_close_def tts_action_simps pending_commands_def split: if_splits)
  qed (use assms(1) in \<open>auto simp: tts_command_def Let_def split: if_splits\<close>)
qed

lemma tts_media_moves:
  assumes "tts_media E f s = (Inr as, s')" and "slot_fits (tt_phase s) (tt_slot s)"
    and "\<And>now i a c a'. f now i a = Inr (c, a') \<Longrightarrow> audio_grows a [c] a'"
  shows "tts_moves s as s'"
  using assms by (auto simp: tts_media_def tts_clock_def e_bind_def tts_moves_def pending_commands_def split: sum.splits prod.splits)

lemma tts_payload_moves:
  assumes "tts_payload E audio s = (Inr as, s')" and "slot_fits (tt_phase s) (tt_slot s)"
  shows "tts_moves s as s'"
proof (cases "audio = None \<or> audio = Some []")
  case True
  then show ?thesis using assms by (auto simp: tts_payload_def tts_moves_def)
next
  case False
  then obtain t where "tts_media E (\<lambda>now i. audio_push now i t) s = (Inr as, s')"
    using assms(1) by (cases audio) (auto simp: tts_payload_def split: list.splits if_splits)
  then show ?thesis using assms(2) audio_push_grows by (rule tts_media_moves)
qed

text \<open>The events that confirm a command.\<close>

lemma tts_confirmation_moves:
  assumes "slot_fits (tt_phase s) (tt_slot s)"
  shows "tts_connected E s = (Inr as, s') \<Longrightarrow> tt_phase s = TtsConnecting \<Longrightarrow> tts_moves s as s'"
    and "tts_started E text s = (Inr as, s') \<Longrightarrow> tts_moves s as s'"
    and "tts_canceled E epoch s = (Inr as, s') \<Longrightarrow> tts_moves s as s'"
    and "tts_flushed E s = (Inr as, s') \<Longrightarrow> tts_moves s as s'"
    and "tts_finish E v s = (Inr as, s') \<Longrightarrow> tts_moves s as s'"
proof -
  show "tts_connected E s = (Inr as, s') \<Longrightarrow> tt_phase s = TtsConnecting \<Longrightarrow> tts_moves s as s'"
    using assms by (auto simp: tts_connected_def tts_phase_is_def tts_inversions tts_moves_def pending_commands_def dest!: tts_complete_Inr)
  show "tts_started E text s = (Inr as, s') \<Longrightarrow> tts_moves s as s'"
    by (auto simp: tts_started_def tts_phase_is_def tts_generation_of_def tts_inversions tts_moves_def tts_action_simps pending_commands_def
        dest!: tts_confirmed_Inr)
  show "tts_canceled E epoch s = (Inr as, s') \<Longrightarrow> tts_moves s as s'"
    by (auto simp: tts_canceled_def tts_phase_is_def tts_inversions tts_moves_def tts_action_simps pending_commands_def audio_cancel_grows
        dest!: tts_confirmed_Inr)
  show "tts_flushed E s = (Inr as, s') \<Longrightarrow> tts_moves s as s'"
    by (auto simp: tts_flushed_def tts_phase_is_def tts_inversions tts_moves_def tts_action_simps pending_commands_def dest!: tts_confirmed_Inr)
  show "tts_finish E v s = (Inr as, s') \<Longrightarrow> tts_moves s as s'"
    by (auto simp: tts_finish_def tts_phase_is_def tts_generation_of_def tts_inversions tts_moves_def tts_action_simps pending_commands_def
        dest!: tts_confirmed_Inr)
qed

lemma tts_sentence_moves:
  "tts_sentence s = (Inr as, s') \<Longrightarrow> slot_fits (tt_phase s) (tt_slot s) \<Longrightarrow> tts_moves s as s'"
  by (auto simp: tts_sentence_def tts_inversions tts_moves_def pending_commands_def audio_start_grows)

lemma tts_named_moves:
  assumes "tts_named E v name has_audio s = (Inr as, s')" and fits: "slot_fits (tt_phase s) (tt_slot s)"
  shows "tts_moves s as s'"
  using assms(1) tts_confirmation_moves [OF fits] tts_sentence_moves [OF _ fits] tts_media_moves [OF _ fits audio_end_grows] fits
  by (auto simp: tts_named_def Let_def tts_moves_def split: option.splits if_splits tts_phase.splits)


lemma tts_check_moves: "tts_check E s = (r, s') \<Longrightarrow> slot_fits (tt_phase s) (tt_slot s) \<Longrightarrow> tts_moves s [] s'"
  by (auto simp: tts_check_def tts_clock_def e_bind_def tts_moves_def pending_commands_def)

lemma tts_metadata_moves: "tts_metadata E v s = (Inr u, s') \<Longrightarrow> slot_fits (tt_phase s) (tt_slot s) \<Longrightarrow> tts_moves s [] s'"
  by (auto simp: tts_metadata_def e_bind_def tts_moves_def pending_commands_def split: option.splits sum.splits prod.splits)

lemma tts_moves_fits: "tts_moves s as s' \<Longrightarrow> slot_fits (tt_phase s') (tt_slot s')"
  by (simp add: tts_moves_def)

lemma tts_receive_moves:
  assumes "tts_receive E m s = (Inr as, s')" and fits: "slot_fits (tt_phase s) (tt_slot s)"
  shows "tts_moves s as s'"
proof -
  obtain u s1 v failure where check: "tts_check E s = (Inr u, s1)" and
      rest: "(case failure of Some e \<Rightarrow> e_return [observe_event v, ActFail e]
         | None \<Rightarrow> e_bind (e_lift (optional_string ''event'' v)) (\<lambda>name.
             e_bind (e_lift (tts_audio_field v)) (\<lambda>audio.
             e_bind (tts_metadata E v) (\<lambda>_.
             e_bind (tts_payload E audio) (\<lambda>media.
             e_bind (tts_named E v name (audio \<noteq> None)) (\<lambda>actions.
               e_return (observe_event v # media @ actions))))))) s1 = (Inr as, s')"
    using assms(1) unfolding tts_receive_def e_bind_eq_Inr e_lift_apply prod.inject by blast
  have checked: "tts_moves s [] s1" by (rule tts_check_moves [OF check fits])
  note fits1 = tts_moves_fits [OF checked]
  show ?thesis
  proof (cases failure)
    case (Some e)
    then have "as = [observe_event v, ActFail e]" "s' = s1" using rest by simp_all
    then show ?thesis using checked by (simp add: tts_moves_def observe_event_def)
  next
    case None
    then obtain name audio s2 media s3 actions where
        metadata: "tts_metadata E v s1 = (Inr (), s2)" and payload: "tts_payload E audio s2 = (Inr media, s3)" and
        named: "tts_named E v name (audio \<noteq> None) s3 = (Inr actions, s')" and as: "as = [observe_event v] @ media @ actions"
      using rest by (auto simp: e_bind_eq_Inr)
    note m1 = tts_metadata_moves [OF metadata fits1]
    note m2 = tts_payload_moves [OF payload tts_moves_fits [OF m1]]
    note m3 = tts_named_moves [OF named tts_moves_fits [OF m2]]
    have "tts_moves s (media @ actions) s'"
      using tts_moves_append [OF checked tts_moves_append [OF m1 tts_moves_append [OF m2 m3]]] by simp
    then show ?thesis by (simp add: tts_moves_def as observe_event_def)
  qed
qed

lemma tts_reaches_ok:
  assumes "tts_reaches E so s taken acked chunks"
  shows "slot_fits (tt_phase s) (tt_slot s) \<and> taken = acked @ pending_commands s \<and> audio_ok (tt_audio s) chunks"
  using assms
proof (induction rule: tts_reaches.induct)
  case (tts_connects s s')
  then have "tt_phase s = TtsConnecting" "tt_audio s = tts_audio_new (ta_epoch (tt_audio s)) (ta_limit (tt_audio s)) (ta_media_type (tt_audio s)) (ta_started_at (tt_audio s))"
    by (auto simp: tts_open_def Let_def tts_audio_new_def split: if_splits)
  moreover have "audio_ok (tts_audio_new e l m n) []" for e l m n by (simp add: audio_ok_def chunks_ok_def tts_audio_new_def)
  ultimately show ?case using tts_connects(2)
    by (auto simp: tts_begin_Inr pending_commands_def dest!: slot_begin_Inr) metis
next
  case (tts_takes s taken acked chunks c as s')
  then have "tts_commands_allowed s" "tts_command E c s = (Inr as, s')" by (simp_all add: tts_protocol_def)
  note moves = tts_command_moves [OF this(2,1)] and empty = this(1)
  have "pending_commands s = []" using empty by (simp add: tts_commands_allowed_def pending_commands_def)
  moreover have silent: "concat (map media_chunks as) = []" using moves tts_takes.IH by blast
  ultimately show ?case unfolding silent append_Nil2 using tts_takes.IH moves by (auto simp: audio_grows_def)
next
  case (tts_receives s taken acked chunks m as s')
  then have "tts_moves s as s'" using tts_receive_moves by (simp add: tts_protocol_def)
  then show ?case using tts_receives.IH by (auto simp: tts_moves_def audio_grows_def)
next
  case (tts_polls s taken acked chunks s')
  then have "tts_moves s [] s'" using tts_check_moves by (simp add: tts_protocol_def)
  then show ?case using tts_polls.IH by (auto simp: tts_moves_def audio_grows_def)
qed

end
