(* ===== verification/Service_Properties.thy ===== *)
theory Service_Properties
  imports Http_Exchange Model_Decorators Model_Leases Minimax_Tts Samples
begin

text \<open>
  The properties of the models behind services: the exchange over HTTP, the fallback over candidates,
  the bound on concurrent sessions, native sessions and the speech protocol.
\<close>

section \<open>Exchanges over HTTP\<close>

text \<open>
  C36: an exchange over HTTP comes to a result on a clock that advances. Every request it posts has the same
  body, in which each negotiated value that needs a mapping stands in its field; it posts at most twice per
  attempt of the policy, and again only after a reply that refused the request: a request that a service
  may have accepted is never sent again. A result needs a reply of success to the last request.
\<close>

theorem exchange_sends_once:
  assumes "mono (tm_now (he_timer H))" "\<And>i. \<exists>k. i \<le> tm_now (he_timer H) k"
    and "0 < rt_max_attempts (hm_retry M)" and "hm_limited M \<Longrightarrow> \<exists>k. he_free H k"
  shows "\<exists>r w' new body. http_exchange M H request w = Some (r, w') \<and> hw_log w' = hw_log w @ new
    \<and> length new \<le> 2 * rt_max_attempts (hm_retry M)
    \<and> (\<forall>(call, reply) \<in> set new. hc_body call = body)
    \<and> (\<forall>(call, reply) \<in> set (butlast new). refused_reply reply)
    \<and> (new \<noteq> [] \<longrightarrow> (\<exists>p. http_negotiate M request = Inr p \<and> body_honours M p body))
    \<and> (\<forall>g. r = Gives g \<longrightarrow> new \<noteq> [] \<and> (\<exists>resp. snd (last new) = Inr resp \<and> http_success resp))"
proof -
  obtain r w' where run: "http_exchange M H request w = Some (r, w')"
    using http_exchange_ends [OF assms(1,2,3)] assms(4) by blast
  obtain new where new: "hw_log w' = hw_log w @ new" "exchange_posts M request new" "\<forall>g. r = Gives g \<longrightarrow> (\<exists>resp. answered_by new resp)"
    using http_exchange_posts [OF run] by blast
  then obtain body p where "posts_ok body (2 * rt_max_attempts (hm_retry M)) new"
      "new \<noteq> [] \<longrightarrow> http_negotiate M request = Inr p \<and> body_honours M p body"
    by (auto simp: exchange_posts_def)
  then show ?thesis using run new(1,3) unfolding posts_ok_def answered_by_def by blast
qed

section \<open>Fallback\<close>

definition sample_service :: "unit http_model" where
  "sample_service = \<lparr>hm_base_url = ''http://localhost/'', hm_model = ''m'', hm_timeout = 1, hm_protocol = ProtocolChat,
     hm_capabilities = sample_capabilities, hm_extension = None, hm_mappings = [],
     hm_retry = \<lparr>rt_max_attempts = 3, rt_backoff = backoff_fixed 25\<rparr>, hm_limited = False\<rparr>"

definition sample_generation :: model_request where
  "sample_generation = \<lparr>mr_messages = [User [Text ''hello'']], mr_runtime_tools = [], mr_provider_tools = [],
     mr_profile = sample_profile, mr_tool_choice = ChoiceAuto, mr_response_format = None, mr_stream = False\<rparr>"

text \<open>A service that is overloaded once and then answers.\<close>

definition sample_reply :: "nat \<Rightarrow> http_response" where
  "sample_reply n = \<lparr>hr_status = (if n = 0 then 503 else 200), hr_retry_after = None, hr_text = ''busy'',
     hr_json = Inr (Object [(''choices'', Array [Object [(''message'', Object [(''content'', String ''hi'')])]])]), hr_chunks = []\<rparr>"

definition sample_http :: "(unit, nat, unit) http_env" where
  "sample_http = \<lparr>he_wire = \<lparr>wl_parse = (\<lambda>s. Inr (String s)), wl_render = (\<lambda>_. []), wl_base64 = (\<lambda>_. []), wl_unbase64 = (\<lambda>_. Inr [])\<rparr>,
     he_fidelity = (\<lambda>_. Inl ''no fidelity''), he_timer = \<lparr>tm_now = (\<lambda>k. 10 * k), tm_cancelled = (\<lambda>_. False), tm_range = 100000\<rparr>,
     he_now_ms = 0, he_run = sample_context, he_free = (\<lambda>_. True), he_wall = (\<lambda>n. (Inr 0, n)),
     he_credentials = static_provider (static_credential ''Bearer'' ''key''),
     he_post = (\<lambda>_ n. (Inr (sample_reply n), Suc n)), he_sink = None\<rparr>"

definition sample_world :: "(unit, unit, nat, unit) http_world" where
  "sample_world = \<lparr>hw_time = (0, 0), hw_extension = (), hw_credentials = (), hw_network = 0, hw_sink = (), hw_log = []\<rparr>"

declare wait_loop.simps [code]

theorem exchange_sends_once_witness:
  "\<exists>g w' body. http_exchange sample_service sample_http sample_generation sample_world = Some (Gives g, w')
     \<and> map (map_sum id hr_status \<circ> snd) (hw_log w') = [Inr 503, Inr 200]
     \<and> (\<forall>(call, reply) \<in> set (hw_log w'). hc_body call = body)"
proof -
  have clock: "mono (tm_now (he_timer sample_http))" by (simp add: mono_def sample_http_def)
  have later: "\<exists>k. i \<le> tm_now (he_timer sample_http) k" for i by (rule exI [of _ i]) (simp add: sample_http_def)
  have policy: "0 < rt_max_attempts (hm_retry sample_service)" "\<exists>k. he_free sample_http k"
    by (simp_all add: sample_service_def sample_http_def)
  have run: "case http_exchange sample_service sample_http sample_generation sample_world of
      Some (Gives g, w') \<Rightarrow> map (map_sum id hr_status \<circ> snd) (hw_log w') = [Inr 503, Inr 200] | _ \<Rightarrow> False"
    by code_simp
  from exchange_sends_once [OF clock later policy, of sample_generation sample_world]
  show ?thesis
  proof (elim exE conjE, goal_cases)
    case (1 r w' new body)
    then show ?case using run by (cases r) (auto simp: sample_world_def)
  qed
qed

text \<open>
  C37: a session of a fallback stays with the candidate that opened it. Opening with the binding it had,
  and with a recovery reference from its events or none, asks exactly that candidate, with the binding and
  the reference that the candidate itself had given; a reference of another candidate is refused before
  any model is asked. The serialization library is assumed to read back what it wrote.
\<close>

theorem fallback_stays_bound:
  assumes "fallback_new models = Inr F" and "fallback_serde_lawful S" and "\<not> cancelled 0" and "c \<in> set models"
    and "so_binding opening = sp_binding (bind_session S (fc_id c) s) v"
  shows "(so_recovery opening = None \<longrightarrow> fallback_open S F cancelled opening w =
       bind_opened S (fc_id c) (mp_open (fc_model c) (opening\<lparr>so_binding := sp_binding s v, so_recovery := None\<rparr>) w))
    \<and> (\<forall>r saved. so_recovery opening = Some saved \<and> bound_reference S (fc_id c) r = Inr saved \<longrightarrow>
         fallback_open S F cancelled opening w =
         bind_opened S (fc_id c) (mp_open (fc_model c) (opening\<lparr>so_binding := sp_binding s v, so_recovery := Some r\<rparr>) w))
    \<and> (\<forall>i r saved. i \<noteq> fc_id c \<and> so_recovery opening = Some saved \<and> bound_reference S i r = Inr saved \<longrightarrow>
         fallback_open S F cancelled opening w = (Inl (Invalid ''recovery differs from the bound candidate''), w))"
proof -
  have binding: "so_binding opening = Some (bound_binding S (fc_id c) (sp_binding s v))"
    using assms(5) by (simp add: bind_session_def)
  have opened: "fallback_open S F cancelled opening w =
      bind_opened S (fc_id c) (mp_open (fc_model c) (opening\<lparr>so_binding := sp_binding s v, so_recovery := reference\<rparr>) w)"
    if "so_recovery opening = None \<and> reference = None
      \<or> (\<exists>r saved. so_recovery opening = Some saved \<and> reference = Some r \<and> bound_reference S (fc_id c) r = Inr saved)" for reference
    by (rule bound_open [where cancelled = cancelled, OF assms(1,4,2,3) binding that])
  have refused: "fallback_open S F cancelled opening w = (Inl (Invalid ''recovery differs from the bound candidate''), w)"
    if "i \<noteq> fc_id c" "so_recovery opening = Some saved" "bound_reference S i r = Inr saved" for i r saved
    using that by (intro foreign_recovery_refused [where cancelled = cancelled, OF assms(2,3) _ binding]) auto
  show ?thesis using opened refused by blast
qed

text \<open>A candidate whose sessions count up their state and know a binding.\<close>

definition sample_port :: "nat session_port" where
  "sample_port = \<lparr>sp_binding = (\<lambda>n. Some \<lparr>mb_adapter = ''inner'', mb_data = Null\<rparr>), sp_capabilities = sample_capabilities,
     sp_negotiate = (\<lambda>_. Inr negotiated_default), sp_submit = (\<lambda>_ n. (Inr (), Suc n)), sp_receive = (\<lambda>n. (Inr None, n))\<rparr>"

definition sample_candidate :: "string \<Rightarrow> nat fallback_candidate" where
  "sample_candidate i = \<lparr>fc_id = i, fc_model = \<lparr>mp_capabilities = sample_capabilities,
     mp_negotiate = (\<lambda>_. Inr negotiated_default),
     mp_open = (\<lambda>opening n. if so_binding opening = Some \<lparr>mb_adapter = ''inner'', mb_data = Null\<rparr>
       then (Inr sample_port, Suc n) else (Inl (Invalid ''no binding''), n))\<rparr>\<rparr>"

text \<open>Data as JSON: the candidate with what belongs to it.\<close>

fun sample_read_binding :: "json \<Rightarrow> string + string \<times> model_binding option" where
  "sample_read_binding (Array [String i, Array []]) = Inr (i, None)"
| "sample_read_binding (Array [String i, Array [String a, v]]) = Inr (i, Some \<lparr>mb_adapter = a, mb_data = v\<rparr>)"
| "sample_read_binding _ = Inl ''no binding''"

fun sample_read_recovery :: "json \<Rightarrow> string + string \<times> recovery_ref" where
  "sample_read_recovery (Array [String i, String a, v]) = Inr (i, \<lparr>rec_adapter = a, rec_data = v\<rparr>)"
| "sample_read_recovery _ = Inl ''no reference''"

definition sample_serde :: fallback_serde where
  "sample_serde = \<lparr>
     fs_binding = (\<lambda>(i, b). Array [String i, Array (case b of None \<Rightarrow> [] | Some b \<Rightarrow> [String (mb_adapter b), mb_data b])]),
     fs_read_binding = sample_read_binding,
     fs_recovery = (\<lambda>(i, r). Inr (Array [String i, String (rec_adapter r), rec_data r])),
     fs_read_recovery = sample_read_recovery\<rparr>"

lemma sample_serde_lawful: "fallback_serde_lawful sample_serde"
  by (auto simp: fallback_serde_lawful_def sample_serde_def split: option.split)

definition sample_reopening :: session_open where
  "sample_reopening = \<lparr>so_binding = Some (bound_binding sample_serde ''b'' (Some \<lparr>mb_adapter = ''inner'', mb_data = Null\<rparr>)),
     so_request = sample_generation, so_context_revision = 0, so_input_position = 0, so_profile_revision = 0, so_mode = Task,
     so_session_id = ''s'', so_after_sequence = None, so_output_epoch = 0, so_limits = sample_limits, so_recovery = None,
     so_context = sample_context\<rparr>"

theorem fallback_stays_bound_witness:
  "\<exists>F. fallback_new [sample_candidate ''a'', sample_candidate ''b''] = Inr F
     \<and> fallback_open sample_serde F (\<lambda>_. False) sample_reopening 0 = (Inr (bind_session sample_serde ''b'' sample_port), 1)"
proof -
  obtain F where F: "fallback_new [sample_candidate ''a'', sample_candidate ''b''] = Inr F"
    by (simp add: fallback_new_def sample_candidate_def)
  have c: "sample_candidate ''b'' \<in> set [sample_candidate ''a'', sample_candidate ''b'']" by simp
  have binding: "so_binding sample_reopening = sp_binding (bind_session sample_serde (fc_id (sample_candidate ''b'')) sample_port) 0"
    by (simp add: sample_reopening_def bind_session_def sample_port_def sample_candidate_def)
  have "fallback_open sample_serde F (\<lambda>_. False) sample_reopening 0 =
      bind_opened sample_serde (fc_id (sample_candidate ''b'')) (mp_open (fc_model (sample_candidate ''b''))
        (sample_reopening\<lparr>so_binding := sp_binding sample_port 0, so_recovery := None\<rparr>) 0)"
    using fallback_stays_bound [where cancelled = "\<lambda>_. False", OF F sample_serde_lawful _ c binding, of 0]
    by (simp add: sample_reopening_def)
  then show ?thesis using F by (simp add: sample_candidate_def sample_port_def bind_opened_def)
qed

section \<open>Concurrency\<close>

text \<open>
  C38: in every interleaving of openings, failures and drops, the permits that are free and the sessions
  that are being opened or have any part alive add up to the limit, whichever parts were dropped and in
  which order: never more sessions than the limit, and no permit is lost. A session is admitted exactly
  while there are fewer.
\<close>

theorem sessions_stay_in_limit:
  assumes "lease_reaches limit s"
  shows "lp_free s + card (lease_sessions s) = limit \<and> card (lease_sessions s) \<le> limit
    \<and> (\<forall>i. lease_acquire i s \<noteq> None \<longleftrightarrow> card (lease_sessions s) < limit)"
  using lease_reaches_ok [OF assms] by (auto simp: lease_ok_def lease_acquire_def)

text \<open>
  Two sessions of a model for two: one whose control and port are dropped already and whose events are
  still read, and one being opened.
\<close>

definition sample_lease :: "string lease_session" where
  "sample_lease = \<lparr>lse_control = ''control'', lse_input = None, lse_output = Some ''media'', lse_events = ''events''\<rparr>"

definition sample_leases :: "string lease_pool" where
  "sample_leases = (let s = projr (lease_pool_new 2); s = the (lease_acquire 0 s); s = lease_opened 0 sample_lease s;
       s = lease_drop (0, LeaseControl, Leased ''control'' 0) s; s = lease_drop (0, LeaseOutput, Leased ''media'' 0) s
     in the (lease_acquire 1 s))"

lemma lease_reaches_acquire:
  "lease_reaches limit s \<Longrightarrow> lp_free s \<noteq> 0 \<Longrightarrow> i \<notin> lease_sessions s \<Longrightarrow> lease_reaches limit (the (lease_acquire i s))"
  by (rule lreach_step [OF _ lease_acquires]) (auto simp: lease_acquire_def)

lemmas sample_lease_simps = lease_acquire_def lease_opened_def lease_wrap_def lease_share_def lease_share_port_def
  lease_parts_def lease_drop_def lease_release_def lease_sessions_def sample_lease_def Let_def

theorem sessions_stay_in_limit_witness:
  "lease_sessions sample_leases = {0, 1} \<and> lp_free sample_leases = 0 \<and> lease_acquire 2 sample_leases = None"
proof -
  have new: "(lease_pool_new 2 :: string lease_pool result)
      = Inr \<lparr>lp_free = 2, lp_opening = [], lp_alive = [], lp_references = (\<lambda>_. 0)\<rparr>"
    by (simp add: lease_pool_new_def max_permits_def)
  have "lease_reaches 2 sample_leases"
    unfolding sample_leases_def Let_def new sum.sel
    by (intro lease_reaches_acquire lreach_step [OF _ lease_drops] lreach_step [OF _ lease_opens] lreach_new [OF new])
      (simp_all add: sample_lease_simps)
  note full = sessions_stay_in_limit [OF this]
  have sessions: "lease_sessions sample_leases = {0, 1}"
    unfolding sample_leases_def new sum.sel by (simp add: sample_lease_simps insert_commute)
  then have "card (lease_sessions sample_leases) = 2" by simp
  then show ?thesis using full sessions by (metis add_cancel_left_left less_irrefl)
qed

section \<open>Sessions over a connection\<close>

text \<open>
  C39: in every interleaving of the worker, the socket, the host and the consumer, the events that the
  worker accepted are numbered from zero without a gap, and the consumer receives them in that order,
  each once. It sees the error of the worker, or the end, only after the last of them, whatever was still
  queued when the worker ended, and the error once; after the worker ended it never waits. The media that
  is reserved for the consumer stays in its budget, and the events not yet handed on in theirs.
\<close>

theorem native_events_delivered:
  assumes "native_reaches P l epoch p s"
  shows "\<exists>got n. nr_results (nt_receiver s) = map (\<lambda>e. Inr (Some e)) got
       @ (case nr_terminal (nt_receiver s) of None \<Rightarrow> [] | Some (_, result) \<Rightarrow> native_ending result n)
    \<and> (\<exists>rest. nt_accepted s = got @ rest \<and> (0 < n \<longrightarrow> rest = []))
    \<and> (\<forall>i < length (nt_accepted s). unat (sev_sequence (nt_accepted s ! i)) = i)
    \<and> (nt_running s \<or> native_receive (nt_receiver s) \<noteq> None)
    \<and> media_sizes (nt_output s) \<le> lim_max_buffered_media_bytes l
    \<and> media_sizes (nu_media (nd_outputs (nt_driver s))) \<le> lim_max_buffered_media_bytes l
    \<and> length (nu_pending (nd_outputs (nt_driver s))) \<le> lim_max_session_events l + lim_max_control_commands l + 8"
proof -
  let ?o = "nd_outputs (nt_driver s)" and ?r = "nt_receiver s"
  have ok: "native_ok l s" by (rule native_reaches_ok [OF assms])
  then obtain got where got: "native_got ?r got" "nt_accepted s = got @ native_rest ?o ?r"
    by (auto simp: native_ok_def Let_def)
  then obtain n where n: "nr_results ?r = map (\<lambda>e. Inr (Some e)) got
       @ (case nr_terminal ?r of None \<Rightarrow> [] | Some (_, result) \<Rightarrow> native_ending result n)" "0 < n \<longrightarrow> native_rest ?o ?r = []"
    by (auto simp: native_got_def native_rest_def split: if_splits)
  have "unat (nu_sequence ?o) = length (nt_accepted s)" "numbered_events 0 (nt_accepted s)"
    using ok by (auto simp: native_ok_def Let_def)
  then have "unat (sev_sequence (nt_accepted s ! i)) = i" if "i < length (nt_accepted s)" for i
    using that u64_nat_inverse [of i "nu_sequence ?o"] by (auto simp: numbered_events_def)
  moreover have "nt_running s \<or> native_receive ?r \<noteq> None" using ok native_receive_ready by (auto simp: native_ok_def Let_def)
  moreover have "media_sizes (nt_output s) \<le> lim_max_buffered_media_bytes l
      \<and> media_sizes (nu_media ?o) \<le> lim_max_buffered_media_bytes l
      \<and> length (nu_pending ?o) \<le> lim_max_session_events l + lim_max_control_commands l + 8"
    using ok by (auto simp: native_ok_def Let_def media_ok_def)
  ultimately show ?thesis using got(2) n by blast
qed

text \<open>A protocol that reports its model on the first message and fails in the same turn.\<close>

definition sample_failing :: "unit socket_protocol" where
  "sample_failing = \<lparr>wp_commands_allowed = (\<lambda>_. True), wp_finished = (\<lambda>_. False), wp_generation = (\<lambda>_. None),
     wp_check = (\<lambda>p. (Inr (), p)), wp_command = (\<lambda>_ p. (Inr [], p)),
     wp_receive = (\<lambda>_ p. (Inr [ActEvent (EvClosed ''end'' Null), ActFail (Protocol ''bad frame'')], p))\<rparr>"

definition sample_failed_session :: "unit native_session" where
  "sample_failed_session = native_turned (native_message sample_failing (\<lambda>_. Inr ()) (WireText ''x'') (nt_driver (native_session_new sample_limits 0 ())))
     (native_session_new sample_limits 0 ())"

definition sample_drained :: "unit native_session" where
  "sample_drained = (let take = (\<lambda>s. case native_receive (nt_receiver s) of
       Some (x, r) \<Rightarrow> s\<lparr>nt_receiver := r\<lparr>nr_results := nr_results r @ [x]\<rparr>\<rparr> | None \<Rightarrow> s) in take (take sample_failed_session))"

theorem native_events_delivered_witness:
  "nr_results (nt_receiver sample_drained) = [Inr (Some \<lparr>sev_sequence = 0, sev_body = EvClosed ''end'' Null\<rparr>), Inl (Protocol ''bad frame'')]
     \<and> native_receive (nt_receiver sample_drained) \<noteq> None"
proof -
  have new: "native_reaches sample_failing sample_limits 0 () (native_session_new sample_limits 0 ())" by (rule nreach_new)
  have failed: "native_reaches sample_failing sample_limits 0 () sample_failed_session"
    unfolding sample_failed_session_def
    by (rule nreach_step [OF new nstep_message])
      (simp_all add: native_idle_def native_session_new_def native_outputs_new_def native_can_receive_def)
  have step: "native_reaches sample_failing sample_limits 0 () (case native_receive (nt_receiver s) of
       Some (x, r) \<Rightarrow> s\<lparr>nt_receiver := r\<lparr>nr_results := nr_results r @ [x]\<rparr>\<rparr> | None \<Rightarrow> s)"
    if "native_reaches sample_failing sample_limits 0 () s" for s :: "unit native_session"
    using that by (auto split: option.split intro: nreach_step nstep_receive)
  have reached: "native_reaches sample_failing sample_limits 0 () sample_drained"
    unfolding sample_drained_def Let_def by (intro step failed)
  have results: "nr_results (nt_receiver sample_drained) = [Inr (Some \<lparr>sev_sequence = 0, sev_body = EvClosed ''end'' Null\<rparr>), Inl (Protocol ''bad frame'')]"
    "\<not> nt_running sample_drained"
    by code_simp+
  then show ?thesis using native_events_delivered [OF reached] by blast
qed


section \<open>Speech\<close>

text \<open>
  C40: a speech session acknowledges the commands it took one by one in their order, each once; at most one
  waits for its confirmation, and none while further commands are asked for. The chunks of each sentence
  are numbered from zero without a gap, nothing follows the end of a sentence, and audio of an interrupted
  epoch never comes after audio of a later one. This holds whatever the service sends.
\<close>

theorem speech_commands_confirmed:
  assumes "tts_reaches E so s taken acked chunks"
  shows "(\<exists>waiting. taken = acked @ waiting \<and> length waiting \<le> 1
      \<and> (wp_commands_allowed (tts_protocol E) s \<longrightarrow> waiting = []))
    \<and> (\<forall>i < length chunks. let c = chunks ! i; before = take i chunks in
        unat (mc_sequence c) = length (filter (\<lambda>b. mc_stream_id b = mc_stream_id c) before)
        \<and> (\<forall>b \<in> set before. (mc_end b \<longrightarrow> mc_stream_id b \<noteq> mc_stream_id c) \<and> mc_epoch b \<le> mc_epoch c))"
proof -
  note ok = tts_reaches_ok [OF assms]
  have "length (pending_commands s) \<le> 1 \<and> (tts_commands_allowed s \<longrightarrow> pending_commands s = [])"
    by (auto simp: pending_commands_def tts_commands_allowed_def split: option.split)
  then show ?thesis using ok by (auto simp: tts_protocol_def audio_ok_def chunks_ok_def Let_def)
qed

text \<open>A service whose frames are the names of its events.\<close>

definition sample_speech :: tts_env where
  "sample_speech = \<lparr>
     te_config = \<lparr>tc_command_timeout = 100, tc_model = ''speech'', tc_voice = voice_settings_new ''voice'',
       tc_audio = audio_settings_default, tc_language_boost = None, tc_pronunciation = [], tc_timbre_weights = [],
       tc_voice_effects = None, tc_subtitles = None, tc_continuous_sound = False\<rparr>,
     te_timer = \<lparr>tm_now = (\<lambda>k. k), tm_cancelled = (\<lambda>_. False), tm_range = 1000\<rparr>,
     te_wire = \<lparr>wl_parse = (\<lambda>t. Inr (tts_event t)), wl_render = (\<lambda>_. []), wl_base64 = (\<lambda>_. []), wl_unbase64 = (\<lambda>_. Inr [])\<rparr>,
     te_debug = (\<lambda>_. [])\<rparr>"

definition sample_speech_open :: session_open where
  "sample_speech_open = sample_reopening\<lparr>so_binding := None\<rparr>"

definition sample_connected :: tts_session where
  "sample_connected = snd (tts_begin sample_speech None ''connected_success'' (projr (tts_open sample_speech sample_speech_open)))"

definition sample_speech_frame :: "string \<Rightarrow> tts_session \<Rightarrow> tts_session" where
  "sample_speech_frame name s = snd (tts_receive sample_speech (WireText name) s)"

definition sample_speech_generate :: session_command where
  "sample_speech_generate = \<lparr>scmd_id = ''c'', scmd_body = BodyGenerate ''g'' 0 0 0\<rparr>"

definition sample_speaking :: tts_session where
  "sample_speaking = snd (tts_command sample_speech sample_speech_generate (sample_speech_frame ''connected_success'' sample_connected))"

definition sample_sentence :: tts_session where
  "sample_sentence = sample_speech_frame ''sentence_start'' (sample_speech_frame ''task_started'' sample_speaking)"


lemma sample_speech_frame_reaches:
  assumes "tts_reaches sample_speech so s taken acked chunks"
    and "map_sum id (\<lambda>as. (concat (map acknowledged_ids as), concat (map media_chunks as))) (fst (tts_receive sample_speech (WireText t) s)) = Inr (ids, new)"
  shows "tts_reaches sample_speech so (sample_speech_frame t s) taken (acked @ ids) (chunks @ new)"
proof -
  obtain as where as: "fst (tts_receive sample_speech (WireText t) s) = Inr as" "concat (map acknowledged_ids as) = ids" "concat (map media_chunks as) = new"
    using assms(2) by (cases "fst (tts_receive sample_speech (WireText t) s)") auto
  then have "wp_receive (tts_protocol sample_speech) (WireText t) s = (Inr as, sample_speech_frame t s)"
    by (simp add: tts_protocol_def sample_speech_frame_def prod_eq_iff)
  from tts_receives [OF assms(1) this] show ?thesis unfolding as(2,3) .
qed

definition sample_speech_chunk :: media_chunk where
  "sample_speech_chunk = \<lparr>mc_stream_id = ''minimax-tts:1'', mc_session_id = ''s'', mc_epoch = 0, mc_sequence = 0, mc_timestamp_us = 0,
     mc_media_type = ''audio/mpeg'', mc_bytes = [], mc_end = True\<rparr>"

theorem speech_commands_confirmed_witness:
  "tts_reaches sample_speech sample_speech_open (sample_speech_frame ''sentence_end'' sample_sentence) [''c''] [''c''] [sample_speech_chunk]
     \<and> unat (mc_sequence sample_speech_chunk) = 0"
proof -
  have "tts_open sample_speech sample_speech_open = Inr (projr (tts_open sample_speech sample_speech_open))"
    by (simp add: tts_open_def Let_def sample_speech_open_def sample_reopening_def)
  moreover have "fst (tts_begin sample_speech None ''connected_success'' (projr (tts_open sample_speech sample_speech_open))) = Inr ()"
    by code_simp
  ultimately have "tts_reaches sample_speech sample_speech_open sample_connected [] [] []"
    by (intro tts_connects) (simp_all add: sample_connected_def prod_eq_iff)
  then have "tts_reaches sample_speech sample_speech_open (sample_speech_frame ''connected_success'' sample_connected) [] ([] @ []) ([] @ [])"
    by (rule sample_speech_frame_reaches) code_simp
  then have ready: "tts_reaches sample_speech sample_speech_open (sample_speech_frame ''connected_success'' sample_connected) [] [] []"
    by simp
  let ?s = "sample_speech_frame ''connected_success'' sample_connected"
  have "map_sum id (\<lambda>as. (concat (map acknowledged_ids as), concat (map media_chunks as))) (fst (tts_command sample_speech sample_speech_generate ?s)) = Inr ([], [])"
    "tts_commands_allowed ?s" by code_simp+
  then obtain as where as: "tts_command sample_speech sample_speech_generate ?s = (Inr as, sample_speaking)"
      "concat (map acknowledged_ids as) = []" "concat (map media_chunks as) = []" "tts_commands_allowed ?s"
    by (cases "fst (tts_command sample_speech sample_speech_generate ?s)") (auto simp: sample_speaking_def prod_eq_iff)
  have "tts_reaches sample_speech sample_speech_open sample_speaking ([] @ [scmd_id sample_speech_generate])
      ([] @ concat (map acknowledged_ids as)) ([] @ concat (map media_chunks as))"
    by (rule tts_takes [OF ready]) (use as in \<open>simp_all add: tts_protocol_def\<close>)
  then have taken: "tts_reaches sample_speech sample_speech_open sample_speaking [''c''] [] []"
    by (simp only: as(2,3) append_Nil) (simp add: sample_speech_generate_def)
  have started: "tts_reaches sample_speech sample_speech_open (sample_speech_frame ''task_started'' sample_speaking) [''c''] ([] @ [''c'']) ([] @ [])"
    by (rule sample_speech_frame_reaches [OF taken]) code_simp
  have sentence: "tts_reaches sample_speech sample_speech_open sample_sentence [''c''] (([] @ [''c'']) @ []) (([] @ []) @ [])"
    unfolding sample_sentence_def by (rule sample_speech_frame_reaches [OF started]) code_simp
  have "tts_reaches sample_speech sample_speech_open (sample_speech_frame ''sentence_end'' sample_sentence) [''c'']
      ((([] @ [''c'']) @ []) @ []) ((([] @ []) @ []) @ [sample_speech_chunk])"
    by (rule sample_speech_frame_reaches [OF sentence]) code_simp
  then have "tts_reaches sample_speech sample_speech_open (sample_speech_frame ''sentence_end'' sample_sentence) [''c''] [''c''] [sample_speech_chunk]"
    by simp
  with speech_commands_confirmed [OF this] show ?thesis by (simp add: Let_def)
qed

end
