(* ===== verification/Spec2Isabelle.thy ===== *)
theory Spec2Isabelle
  imports Core_Properties Store_Properties Engine_Properties Control_Properties Policy_Properties
    Resource_Properties Model_Properties Tool_Properties Wire_Properties Service_Properties
begin

text \<open>
  A verification library for \<^emph>\<open>zhir\<close>, a runtime for model runs: a run is a conversation with a model
  that may call tools, delegate work, stream media, be suspended, resumed and recovered. The runtime is
  built around one durable value, the \<^emph>\<open>checkpoint\<close>: the engine holds the checkpoint it last
  committed, computes a successor, writes it to a store that accepts only successors of its head, and
  only then acts on it. This library models the values of a run, the validation of checkpoints and
  commits, the stores and the whole engine, and proves what makes them correct together.

  \<^bold>\<open>Parts and their theories\<close> (files are below \<open>src/crates\<close>)

  \<^item> \<open>Zhir_Prelude\<close>: results and their sequencing (the \<open>?\<close> operator, \<open>checks\<close> for a list of guards in
    source order), \<open>u64\<close> as \<open>64 word\<close>, \<open>BTreeMap\<close> as a sorted association list \<open>omap\<close>, strings as
    byte lists.
  \<^item> \<open>Core_Values\<close>: \<open>zhir-core/src/error.rs\<close>, \<open>profile.rs\<close>, \<open>resource.rs\<close>, \<open>message/mod.rs\<close>,
    \<open>operation.rs\<close>, \<open>tool/\<close>: the public values with their validation.
  \<^item> \<open>History\<close>, \<open>Order_Index\<close>: \<open>zhir-core/src/run/history.rs\<close>: chunks of entries with cached lengths
    and running digests, and the index from identities, calls and delegations to entries.
  \<^item> \<open>Model_Protocol\<close>: \<open>zhir-core/src/model/\<close>: requests, responses, session commands and events.
  \<^item> \<open>Run_State\<close>: \<open>zhir-core/src/run/\<close>: \<open>checkpoint\<close> and everything in it, \<open>checkpoint_validate\<close> of
    \<open>validation.rs\<close>, tickets and completions.
  \<^item> \<open>Tool_Catalog\<close>: \<open>zhir-kernel/src/catalog.rs\<close> and \<open>defaults/\<close>: catalogs and the admission order.
  \<^item> \<open>Commit\<close>, \<open>Integrity\<close>: \<open>zhir-core/src/storage/commit.rs\<close> and \<open>wire/mod.rs\<close>: \<open>validate_against\<close>,
    the validator every store runs, and what the digests are worth.
  \<^item> \<open>Stores\<close>, \<open>Sql_Store\<close>: \<open>zhir-storage/src/memory.rs\<close>, \<open>zhir-kernel/src/defaults/store.rs\<close>,
    \<open>zhir-storage/src/sql.rs\<close>: the three stores against one specification, \<open>spec_commit\<close>.
  \<^item> \<open>Redis_Store\<close>: \<open>zhir-storage/src/redis/mod.rs\<close>: the keys and scripts of the store on a Redis server,
    and \<open>redis_step\<close>, the interleavings of the requests of its writers with their failures.
  \<^item> \<open>Engine_Base\<close> to \<open>Engine_Lifecycle\<close>: \<open>zhir-kernel/src/engine/\<close>, one theory per file:
    \<open>Engine_Base\<close> (\<open>mod.rs\<close>, \<open>checkpoint.rs\<close>), \<open>Engine_Operations\<close> (\<open>completion.rs\<close>,
    \<open>operations.rs\<close>), \<open>Engine_Commands\<close>, \<open>Engine_Controls\<close>, \<open>Engine_Events\<close> (\<open>model_events.rs\<close>),
    \<open>Engine_Admission\<close>, \<open>Engine_Session\<close>, \<open>Engine_Media\<close>, \<open>Engine_Lifecycle\<close> (\<open>workers.rs\<close>,
    \<open>lifecycle.rs\<close>).
  \<^item> \<open>Projection\<close>, \<open>Event_Batches\<close>, \<open>Admission_Bounds\<close>, \<open>Engine_Invariants\<close>, \<open>Engine_Runs\<close>,
    \<open>Engine_Reach\<close>: facts about the engine that span its operations.
  \<^item> \<open>Cancel_Waiters\<close>: \<open>Cancellation\<close> of \<open>zhir-core/src/lib.rs\<close> with its waiters; \<open>Observers\<close>: the
    emitter and the media pipes of \<open>zhir-kernel/src/invocation.rs\<close>; \<open>Runtime_Entry\<close>: \<open>request.rs\<close>,
    \<open>runtime.rs\<close>, \<open>defaults/mod.rs\<close> and the rest of \<open>invocation.rs\<close>.
  \<^item> \<open>Policies\<close>: \<open>zhir-policies/src\<close>: the history window, negotiation, retries and waiting.
  \<^item> \<open>Resource_Contract\<close>, \<open>Resource_Stores\<close>, \<open>Resource_Reach\<close>: \<open>zhir-storage/src/resources.rs\<close>: the
    contract of a resource store and the loop of \<open>read_node\<close>, the store in memory and on a filesystem
    with the failures of its system calls, and \<open>reachable\<close>.
  \<^item> \<open>Exchange_Session\<close>: \<open>zhir-models/src/session.rs\<close>: the session of a request and response model,
    its commands, its scheduler as the step relation \<open>exchange_step\<close>, the sinks of deltas, which may be
    used long after their exchange answered, and the receiver of its events.
  \<^item> \<open>Tool_Library\<close>: \<open>zhir-tools/src\<close>: callbacks as tools, replies, the registry with its validation of
    inputs and outputs, composed catalogs, approvals; \<open>Tool_Decorators\<close>: the retrying tool and the circuit
    breaker, the latter with \<open>circuit_step\<close> for the interleavings of its calls.
  \<^item> \<open>Text_Forms\<close>: numbers and UTF-8 as the standard library reads them. \<open>Sse\<close>: the decoder of event
    streams in \<open>zhir-models/src/transport/mod.rs\<close>. \<open>Json_Access\<close>: reading and indexed writing of JSON, where
    a write can panic (\<open>attempt\<close>). \<open>Streaming\<close>, \<open>Stream_Blocks\<close>: \<open>zhir-models/src/streaming\<close>, the
    accumulators of streamed responses.
  \<^item> \<open>Wire_Extensions\<close>: \<open>extension.rs\<close> and \<open>provider_tools/\<close> of \<open>zhir-models\<close>: hooks as functions over a
    state of the extension. \<open>Codec\<close>, \<open>Codec_Requests\<close>, \<open>Codec_Replay\<close>: \<open>zhir-models/src/codec\<close>, the
    decoding of responses, the encoding of requests, and the replay of decoded responses.
  \<^item> \<open>Model_Credentials\<close>: credentials and their providers. \<open>Http_Model\<close>, \<open>Http_Exchange\<close>:
    \<open>zhir-models/src/http.rs\<close> with \<open>profiles.rs\<close>, \<open>capabilities.rs\<close>, \<open>transport/mod.rs\<close> and
    \<open>streaming/http.rs\<close>: an exchange as a function over \<open>http_world\<close>, which logs every request that is
    posted with its reply. \<open>Model_Decorators\<close>: \<open>decorators.rs\<close>, \<open>function.rs\<close>, \<open>transform.rs\<close>, over
    models and sessions as records of operations. \<open>Model_Leases\<close>: the session limit of
    \<open>concurrency.rs\<close>, the wrapped parts with their counted references to a permit, with \<open>lease_step\<close> for
    openings, failures and drops of single parts. \<open>Native_Session\<close>: \<open>native.rs\<close> and the driver of
    \<open>websocket.rs\<close>, with \<open>native_step\<close> for the worker, its socket, the host and the consumer.
    \<open>Minimax_Tts\<close>: \<open>zhir-minimax/src/tts\<close>, a protocol for that driver, with \<open>tts_reaches\<close> for what the
    driver and the service can make of it.
  \<^item> \<open>Samples\<close> and the ten theories of properties: concrete values, the properties, and each property
    applied to concrete values.

  \<^bold>\<open>How the engine is modelled\<close>

  The \<open>Engine\<close> struct is the record \<open>engine\<close>, over the state \<open>'st\<close> of the store behind it. An
  operation is a function of type \<open>('st engine, 'a) exec\<close>: from a state to a result and a state, where
  an error keeps what was done before it. What the engine asks of code outside of it is in
  \<open>kernel_env\<close>: hash and encodings, the store, negotiation, the opening of a catalog and a session,
  media resources, fresh identities, the clock and cancellation. The last three are sequences indexed by
  a counter in the state, so nothing is assumed about their values. What the engine asks of its tasks,
  of the model and of observers is appended to \<open>en_log\<close>; what they report arrives in \<open>en_work\<close>,
  \<open>en_controls\<close> and \<open>en_media_queue\<close>. \<open>step\<close> is one move of the loop or one arrival, so \<open>reaches\<close>
  ranges over all interleavings of the engine with the model, the tools and the host.

  \<^bold>\<open>Interfaces\<close>

  \<^item> \<open>scheduling_policy\<close>: what an admission order promises; interpreted by the default order.
  \<^item> \<open>run_store\<close>: the contract of a store as a refinement of \<open>spec_commit\<close>; interpreted by the two
    stores in memory and by the SQL store.
  \<^item> \<open>commit_invariant\<close>: a property of engine states kept by \<open>e_commit\<close> is kept by every operation and
    by the loop; interpreted by the announcement order.
  \<^item> \<open>engine_store\<close>: a store that, once it accepts, has the accepted checkpoint as its head and keeps
    other runs; interpreted by the two stores an engine can own in memory.

  \<^item> \<open>tool_catalog\<close>: a catalog binds exactly what it lists; interpreted by the empty catalog, the
    registry and the composition of catalogs.
  \<^item> \<open>resource_store\<close>: what was put is what is read, in any pieces, and stays; interpreted by the memory
    and the filesystem store.

  \<^bold>\<open>What the lemmas show\<close>

  Histories: well-formedness, append, index, rebuilding, suffixes, digests. Commits: an accepted commit
  is the successor of its head and loses no work. Stores: linearity, exclusion, idempotence, SQL
  refinement, what is loaded is what was committed. Engine: the held checkpoint is valid and durable in
  every reachable state, every commit announced in revision order, projections in step, single settlement
  of operations with their result recorded, commands sent once and after their commit, batches of session
  events applied in order, admission bounds,
  media cursors, settlement on errors. Around it: what the entry points accept the stores accept, a
  cancellation wakes every waiter, observers can account for every gap, pipes stay in their budget.
  Policies: windows keep whole turns, negotiations honour requirements, backoff and waiting.
  Redis: whatever the interleaving, the store moves by accepted commits. Tools: outputs conform to their
  schemas, a composed catalog reaches the tool it lists, retries end in their budget, a circuit admits
  exactly what it should. Sessions: the events of an exchange are well formed and
  lossless, with deltas only after the start of their response.
  Services: a request is sent again only after a refusal, a fallback keeps to its candidate, limits on
  sessions hold, native sessions deliver what they accepted before their error, and speech sessions acknowledge every
  command once.
  Protocols: event streams decode whatever their framing, streamed responses agree with their increments,
  and a decoded response is replayed as it came.
  Resources: both stores keep their contract, and the resources of a checkpoint are listed exactly, in
  a traversal that ends on every store.

  \<^bold>\<open>Bounds and fuel\<close>

  The loops of the source over queues and lists are structural recursions. \<open>take_segment\<close> recurses on
  the room of a segment, the bound the source has. Reading the media archive follows references into a
  resource store; its recursion is bounded by \<open>ke_archive_depth\<close>, and the archive property shows that
  any bound which covers the chain returns all of its keys. The loop of the engine is the relation
  \<open>step\<close>, which needs no bound. The loops that wait on a clock are partial functions
  (\<open>wait_loop\<close>, \<open>interrupted\<close>); that the wait returns is proved for clocks that advance, and so is that the attempts of a retrying tool
  (\<open>retry_loop\<close>) end. The loops that follow media nodes
  (\<open>rs_sealed\<close>, \<open>rs_archive\<close>) are partial functions too; they end because a store holds finitely many
  keys and each is followed once. Counters of the source that wrap or saturate are words; sizes and
  indexes (\<open>usize\<close>) are natural numbers, except where the code computes with an index a service sent.

  \<^bold>\<open>Hypotheses on other code\<close>

  Statements about digests assume that the JSON encoding of entries is injective (\<open>hashing_lawful\<close>) and
  that the hash has no collision on the two sequences compared (\<open>collision_free\<close>). Statements on runs
  assume that identities the store has not seen are drawn (\<open>fresh_from\<close>). The Redis store is proved for
  texts that parse back (\<open>redis_codec\<close>), commits of a new identity per revision (\<open>redis_scope\<close>) and listings that
  are permutations (\<open>listing_ok\<close>). Replay assumes that services do not send the key the codec reserves, and
  the agreement of streamed completions that no frame replaces the message under construction
  (\<open>keeps_message\<close>; otherwise the source panics, \<open>chat_message_panics\<close>) or numbers a call with the largest
  index (\<open>counts_calls\<close>; there \<open>index + 1\<close> overflows, \<open>chat_index_panics\<close>). The parsing and rendering of JSON and
  base64 are parameters (\<open>wire_lib\<close>). A fallback assumes that the serialization library reads back what it wrote
  (\<open>fallback_serde_lawful\<close>), an exchange that its clock advances and that a permit becomes free. The samples
  satisfy them.

  \<^bold>\<open>Not modelled\<close>

  Poisoned mutexes, database failures and connection handling, the closing of channels by a task that
  died, the 50 ms grace for aborted tasks, the capacity of the internal report queue. Numbers of the
  JSON library are compared as bits. Outside of this library are, as glue
  to services and the operating system: the WebRTC transport, the socket and the resource models of
  \<open>zhir-models\<close>, and \<open>zhir-openai\<close>, \<open>zhir-builtins\<close>, \<open>zhir-testing\<close> and \<open>conformance\<close>.
\<close>

end
